(* ===== verification/Prelude.thy ===== *)
theory Prelude
  imports Main "HOL-Library.Word" "HOL-Library.Char_ord" "HOL-Library.List_Lexorder"
    "HOL-Library.Signed_Division"
begin

text \<open>
  What every component of the msgCourier model shares:
  the result type of operations that may fault, C strings and raw memory blocks, substring
  search as \<open>strstr\<close> and \<open>std::string::find\<close> do it, \<open>atoi\<close>, and the collections of
  facts (\<open>result_simps\<close>, \<open>mem_simps\<close>) that the component proofs use.
\<close>

named_theorems result_simps "sequencing of operations that may fault"
named_theorems mem_simps "reads, writes and copies inside a memory block"

section \<open>Results\<close>

text \<open>
  An operation of the program either returns or runs into one of these. A fault that C++
  leaves undefined (a null or out-of-range pointer, the value of an uninitialised byte) ends
  the computation in the model; an exception and a failed \<open>MC_ASSERT\<close> carry on to the caller
  as they do in the program.
\<close>

datatype fault =
  NullPointer | DanglingPointer | OutOfBounds | Indeterminate | AssertFailed | Thrown string

type_synonym 'a result = "fault + 'a"

fun rbind :: "'a result \<Rightarrow> ('a \<Rightarrow> 'b result) \<Rightarrow> 'b result" where
  "rbind (Inl e) f = Inl e"
| "rbind (Inr x) f = f x"

lemma rbind_eq_Inr [result_simps]:
  "rbind m f = Inr y \<longleftrightarrow> (\<exists>x. m = Inr x \<and> f x = Inr y)"
  by (cases m) auto

lemma rbind_eq_Inl [result_simps]:
  "rbind m f = Inl e \<longleftrightarrow> m = Inl e \<or> (\<exists>x. m = Inr x \<and> f x = Inl e)"
  by (cases m) auto

lemma rbind_InrE: "rbind m f = Inr y \<Longrightarrow> (\<And>x. m = Inr x \<Longrightarrow> f x = Inr y \<Longrightarrow> thesis) \<Longrightarrow> thesis"
  by (cases m) auto

lemma rbind_assoc [result_simps]: "rbind (rbind m f) g = rbind m (\<lambda>x. rbind (f x) g)"
  by (cases m) auto

lemma rbind_cong [fundef_cong]:
  "m = m' \<Longrightarrow> (\<And>x. m' = Inr x \<Longrightarrow> f x = g x) \<Longrightarrow> rbind m f = rbind m' g"
  by (cases m') auto

section \<open>Characters\<close>

abbreviation NUL :: char where "NUL \<equiv> CHR 0x00"
abbreviation TAB :: char where "TAB \<equiv> CHR 0x09"
abbreviation LF :: char where "LF \<equiv> CHR 0x0A"
abbreviation CR :: char where "CR \<equiv> CHR 0x0D"
abbreviation SP :: char where "SP \<equiv> CHR 0x20"
abbreviation CRLF :: string where "CRLF \<equiv> [CR, LF]"

text \<open>The numeric value of a \<open>char\<close>, which is signed on the platforms of the program.\<close>

definition schar :: "char \<Rightarrow> int" where
  "schar c = (let n = int (of_char c) in if n < 128 then n else n - 256)"

definition byte_of :: "char \<Rightarrow> 8 word" where
  "byte_of c = of_nat (of_char c)"

definition char_of_byte :: "8 word \<Rightarrow> char" where
  "char_of_byte w = char_of (unat w)"

lemma of_char_less_256 [simp]: "(of_char c :: nat) < 256"
  by (simp add: of_char_def)

lemma char_of_byte_of [simp]: "char_of_byte (byte_of c) = c"
proof -
  have "unat (byte_of c) = of_char c"
    by (simp add: byte_of_def unat_of_nat take_bit_eq_mod)
  then show ?thesis by (simp add: char_of_byte_def)
qed

lemma byte_of_char_of_byte [simp]: "byte_of (char_of_byte w) = w"
proof -
  have "unat w < 256" using unsigned_less [of w, where ?'a = nat] by simp
  then show ?thesis by (simp add: char_of_byte_def byte_of_def)
qed

lemma byte_of_inject [simp]: "byte_of c = byte_of d \<longleftrightarrow> c = d"
  by (metis char_of_byte_of)

section \<open>C strings\<close>

text \<open>
  \<open>cstr s\<close> is what a C string function sees of the bytes \<open>s\<close>: everything before the first NUL.
\<close>

definition cstr :: "string \<Rightarrow> string" where
  "cstr s = takeWhile (\<lambda>c. c \<noteq> NUL) s"

lemma cstr_id: "NUL \<notin> set s \<Longrightarrow> cstr s = s"
  by (auto simp: cstr_def takeWhile_eq_all_conv)

lemma cstr_no_NUL [simp]: "NUL \<notin> set (cstr s)"
  by (auto simp: cstr_def dest: set_takeWhileD)

lemma cstr_idem [simp]: "cstr (cstr s) = cstr s"
  by (rule cstr_id) simp

lemma cstr_Nil [simp]: "cstr [] = []"
  by (simp add: cstr_def)

definition starts_with :: "string \<Rightarrow> string \<Rightarrow> bool" where
  "starts_with p s \<longleftrightarrow> take (length p) s = p"

lemma starts_with_Nil [simp]: "starts_with [] s"
  by (simp add: starts_with_def)

lemma starts_with_Cons [simp]:
  "starts_with (c # p) s \<longleftrightarrow> (case s of [] \<Rightarrow> False | d # ds \<Rightarrow> d = c \<and> starts_with p ds)"
  by (cases s) (auto simp: starts_with_def)

lemma starts_with_append: "starts_with p (p @ s)"
  by (simp add: starts_with_def)

lemma starts_with_iff: "starts_with p s \<longleftrightarrow> (\<exists>t. s = p @ t)"
  by (metis append_eq_conv_conj append_take_drop_id starts_with_def)

lemma starts_with_length: "starts_with p s \<Longrightarrow> length p \<le> length s"
  by (auto simp: starts_with_iff)

section \<open>Substring search\<close>

text \<open>
  The least position at which \<open>p\<close> occurs in \<open>s\<close>: \<open>strstr\<close> on C strings and
  \<open>std::string::find\<close>.
\<close>

fun find_sub :: "string \<Rightarrow> string \<Rightarrow> nat option" where
  "find_sub p [] = (if p = [] then Some 0 else None)"
| "find_sub p (c # cs) =
     (if starts_with p (c # cs) then Some 0 else map_option Suc (find_sub p cs))"

lemma find_sub_SomeD:
  "find_sub p s = Some i \<Longrightarrow>
     i + length p \<le> length s \<and> starts_with p (drop i s) \<and> (\<forall>j < i. \<not> starts_with p (drop j s))"
proof (induction p s arbitrary: i rule: find_sub.induct)
  case (1 p)
  then show ?case by (simp split: if_splits)
next
  case (2 p c cs)
  show ?case
  proof (cases "starts_with p (c # cs)")
    case True
    with "2.prems" have "i = 0" by simp
    with True show ?thesis using starts_with_length [OF True] by simp
  next
    case False
    with "2.prems" obtain k where k: "find_sub p cs = Some k" and i: "i = Suc k" by auto
    from "2.IH" [OF False k] have
      IH: "k + length p \<le> length cs" "starts_with p (drop k cs)"
        "\<And>j. j < k \<Longrightarrow> \<not> starts_with p (drop j cs)" by auto
    have "\<not> starts_with p (drop j (c # cs))" if "j < i" for j
      using that False IH(3) i by (cases j) auto
    then show ?thesis using IH(1,2) i by simp
  qed
qed

lemma find_sub_None:
  "find_sub p s = None \<longleftrightarrow> (\<forall>i. \<not> (i \<le> length s \<and> starts_with p (drop i s)))"
proof (induction s)
  case Nil
  then show ?case by (cases p) auto
next
  case (Cons c cs)
  show ?case
  proof (cases "starts_with p (c # cs)")
    case True
    then show ?thesis by (auto intro: exI [of _ 0])
  next
    case False
    have "(\<forall>i. \<not> (i \<le> length (c # cs) \<and> starts_with p (drop i (c # cs)))) \<longleftrightarrow>
        (\<forall>i. \<not> (i \<le> length cs \<and> starts_with p (drop i cs)))"
      (is "?l \<longleftrightarrow> ?r")
    proof
      assume l: ?l
      show ?r
      proof
        fix i
        from l [rule_format, of "Suc i"] show "\<not> (i \<le> length cs \<and> starts_with p (drop i cs))" by simp
      qed
    next
      assume r: ?r
      show ?l
      proof
        fix i
        show "\<not> (i \<le> length (c # cs) \<and> starts_with p (drop i (c # cs)))"
          using False r by (cases i) auto
      qed
    qed
    with False Cons show ?thesis by simp
  qed
qed

lemma find_sub_Some_iff:
  "find_sub p s = Some i \<longleftrightarrow>
     i + length p \<le> length s \<and> starts_with p (drop i s) \<and> (\<forall>j < i. \<not> starts_with p (drop j s))"
  (is "?l \<longleftrightarrow> ?r")
proof
  show "?l \<Longrightarrow> ?r" by (rule find_sub_SomeD)
next
  assume r: ?r
  have "find_sub p s \<noteq> None" using r by (auto simp: find_sub_None intro: exI [of _ i])
  then obtain k where k: "find_sub p s = Some k" by auto
  from find_sub_SomeD [OF k] r have "\<not> k < i" "\<not> i < k" by auto
  with k show ?l by simp
qed

lemma find_sub_prefix: "starts_with p s \<Longrightarrow> find_sub p s = Some 0"
  using starts_with_length by (auto simp: find_sub_Some_iff)

text \<open>The position of a character, as \<open>strchr\<close> and \<open>find_first_of\<close> with one character.\<close>

definition find_char :: "char \<Rightarrow> string \<Rightarrow> nat option" where
  "find_char c s = find_sub [c] s"

lemma find_char_None: "find_char c s = None \<longleftrightarrow> c \<notin> set s"
  unfolding find_char_def by (induction s) auto

lemma find_char_append:
  "c \<notin> set s \<Longrightarrow> find_char c (s @ c # t) = Some (length s)"
  unfolding find_char_def by (induction s) auto

lemma find_char_Some:
  "find_char c s = Some i \<Longrightarrow> i < length s \<and> s ! i = c \<and> c \<notin> set (take i s)"
proof (induction s arbitrary: i)
  case Nil
  then show ?case by (simp add: find_char_def)
next
  case (Cons d s)
  then show ?case by (auto simp: find_char_def split: if_splits)
qed

text \<open>Search from an offset: \<open>s.find(p, off)\<close>, which finds nothing past the end.\<close>

definition find_from :: "string \<Rightarrow> string \<Rightarrow> nat \<Rightarrow> nat option" where
  "find_from p s off =
     (if length s < off then None else map_option (\<lambda>i. off + i) (find_sub p (drop off s)))"

text \<open>
  One step of \<open>strtok\<close> (and of \<open>strtok_r\<close> behind the macro \<open>STRTOK\<close>): skip separators, take the
  characters up to the next one, and go on behind it.
\<close>

definition strtok :: "string \<Rightarrow> string \<Rightarrow> (string \<times> string) option" where
  "strtok seps s =
     (let s = dropWhile (\<lambda>c. c \<in> set seps) s
      in if s = [] then None
         else Some (takeWhile (\<lambda>c. c \<notin> set seps) s, drop 1 (dropWhile (\<lambda>c. c \<notin> set seps) s)))"

lemma strtok_length: "strtok seps s = Some (t, r) \<Longrightarrow> length r < length s"
proof -
  assume a: "strtok seps s = Some (t, r)"
  let ?d = "dropWhile (\<lambda>c. c \<in> set seps) s"
  have "?d \<noteq> []" "r = drop 1 (dropWhile (\<lambda>c. c \<notin> set seps) ?d)"
    using a by (auto simp: strtok_def Let_def split: if_splits)
  moreover have "length (dropWhile (\<lambda>c. c \<notin> set seps) ?d) \<le> length ?d" "length ?d \<le> length s"
    by (rule length_dropWhile_le)+
  ultimately show ?thesis by (cases ?d) auto
qed

lemma strtok_token:
  assumes "t \<noteq> []" "set t \<inter> set seps = {}" "c \<in> set seps"
  shows "strtok seps (t @ c # r) = Some (t, r)"
proof -
  have "dropWhile (\<lambda>c. c \<in> set seps) (t @ c # r) = t @ c # r"
    using assms(1,2) by (cases t) auto
  moreover have "takeWhile (\<lambda>c. c \<notin> set seps) (t @ c # r) = t"
    using assms(2,3) by (auto simp: takeWhile_append disjoint_iff)
  moreover have "dropWhile (\<lambda>c. c \<notin> set seps) (t @ c # r) = c # r"
    using assms(2,3) by (auto simp: dropWhile_append disjoint_iff)
  ultimately show ?thesis using assms(1) by (simp add: strtok_def Let_def)
qed

lemma strtok_Nil [simp]: "strtok seps [] = None"
  by (simp add: strtok_def)

section \<open>Numbers in text\<close>

fun digits_value :: "int \<Rightarrow> string \<Rightarrow> int" where
  "digits_value a [] = a"
| "digits_value a (c # cs) =
     (if CHR ''0'' \<le> c \<and> c \<le> CHR ''9''
      then digits_value (10 * a + (int (of_char c) - 48)) cs else a)"

definition is_space :: "char \<Rightarrow> bool" where
  "is_space c \<longleftrightarrow> c = SP \<or> (TAB \<le> c \<and> c \<le> CR)"

text \<open>
  \<open>atoi\<close>: blanks, a sign, digits; 0 where there is no digit. Values that do not fit an
  \<open>int\<close>, for which C defines nothing, keep their mathematical value here.
\<close>

definition atoi :: "string \<Rightarrow> int" where
  "atoi s =
     (case dropWhile is_space (cstr s) of
        [] \<Rightarrow> 0
      | c # cs \<Rightarrow>
          if c = CHR ''-'' then - digits_value 0 cs
          else if c = CHR ''+'' then digits_value 0 cs
          else digits_value 0 (c # cs))"

section \<open>Memory blocks\<close>

text \<open>
  A block from \<open>malloc\<close> is a list of bytes; \<open>None\<close> is a byte that was never written. A pointer
  to characters is the block it points into, from the place it points to on; \<open>None\<close> as a
  pointer is NULL.
\<close>

type_synonym block = "char option list"

definition malloc :: "int \<Rightarrow> block option" where
  "malloc n = (if n < 0 then None else Some (replicate (nat n) None))"

text \<open>The memory of a string literal or of \<open>c_str()\<close>: the bytes and the NUL.\<close>

definition cmem :: "string \<Rightarrow> block" where
  "cmem s = map Some s @ [Some NUL]"

definition mem_read :: "block \<Rightarrow> int \<Rightarrow> char result" where
  "mem_read blk i =
     (if 0 \<le> i \<and> i < int (length blk)
      then (case blk ! nat i of None \<Rightarrow> Inl Indeterminate | Some c \<Rightarrow> Inr c)
      else Inl OutOfBounds)"

definition mem_write :: "block \<Rightarrow> int \<Rightarrow> char \<Rightarrow> block result" where
  "mem_write blk i c =
     (if 0 \<le> i \<and> i < int (length blk) then Inr (blk[nat i := Some c]) else Inl OutOfBounds)"

text \<open>
  The \<open>n\<close> bytes at \<open>i\<close> that \<open>memcpy\<close> or \<open>memmove\<close> read. The count is a \<open>size_t\<close>: a negative
  \<open>int\<close> becomes a huge one and runs out of the block. Copying nothing touches nothing.
\<close>

definition mem_slice :: "block \<Rightarrow> int \<Rightarrow> int \<Rightarrow> block result" where
  "mem_slice blk i n =
     (if n = 0 then Inr []
      else if 0 \<le> i \<and> 0 < n \<and> i + n \<le> int (length blk)
      then Inr (take (nat n) (drop (nat i) blk)) else Inl OutOfBounds)"

definition mem_store :: "block \<Rightarrow> int \<Rightarrow> block \<Rightarrow> block result" where
  "mem_store blk i src =
     (if src = [] then Inr blk
      else if 0 \<le> i \<and> i + int (length src) \<le> int (length blk)
      then Inr (take (nat i) blk @ src @ drop (nat i + length src) blk) else Inl OutOfBounds)"

definition mem_move :: "block \<Rightarrow> int \<Rightarrow> int \<Rightarrow> int \<Rightarrow> block result" where
  "mem_move blk dst src n = rbind (mem_slice blk src n) (mem_store blk dst)"

text \<open>The C string at the start of a block: bytes up to the NUL, which must be there.\<close>

fun read_cstr :: "block \<Rightarrow> string result" where
  "read_cstr [] = Inl OutOfBounds"
| "read_cstr (None # bs) = Inl Indeterminate"
| "read_cstr (Some c # bs) = (if c = NUL then Inr [] else rbind (read_cstr bs) (\<lambda>s. Inr (c # s)))"

definition read_cstr_at :: "block \<Rightarrow> int \<Rightarrow> string result" where
  "read_cstr_at blk i =
     (if 0 \<le> i \<and> i < int (length blk) then read_cstr (drop (nat i) blk) else Inl OutOfBounds)"

text \<open>Bytes read one after the other, and written one after the other.\<close>

fun mem_text :: "block \<Rightarrow> string result" where
  "mem_text [] = Inr []"
| "mem_text (None # bs) = Inl Indeterminate"
| "mem_text (Some c # bs) = rbind (mem_text bs) (\<lambda>s. Inr (c # s))"

primrec write_chars :: "block \<Rightarrow> int \<Rightarrow> string \<Rightarrow> block result" where
  "write_chars blk i [] = Inr blk"
| "write_chars blk i (c # cs) = rbind (mem_write blk i c) (\<lambda>blk. write_chars blk (i + 1) cs)"

lemma mem_text_map [simp]: "mem_text (map Some s) = Inr s"
  by (induction s) auto

lemma write_chars_Inr [mem_simps]:
  "i + length s \<le> length blk \<Longrightarrow>
     write_chars blk (int i) s = Inr (take i blk @ map Some s @ drop (i + length s) blk)"
proof (induction s arbitrary: blk i)
  case Nil
  then show ?case by simp
next
  case (Cons c s)
  let ?blk = "blk[i := Some c]"
  have "write_chars ?blk (int (Suc i)) s =
      Inr (take (Suc i) ?blk @ map Some s @ drop (Suc i + length s) ?blk)"
    using Cons.prems by (intro Cons.IH) simp
  moreover have "take (Suc i) ?blk = take i blk @ [Some c]"
    using Cons.prems by (simp add: take_Suc_conv_app_nth)
  ultimately show ?case using Cons.prems by (simp add: mem_write_def add.commute)
qed

lemma write_chars_overflow:
  "s \<noteq> [] \<Longrightarrow> length blk < i + length s \<Longrightarrow> write_chars blk (int i) s = Inl OutOfBounds"
proof (induction s arbitrary: blk i)
  case Nil
  then show ?case by simp
next
  case (Cons c s)
  show ?case
  proof (cases "i < length blk")
    case True
    then have "s \<noteq> []" using Cons.prems by auto
    then show ?thesis using True Cons.IH [of "blk[i := Some c]" "Suc i"] Cons.prems
      by (simp add: mem_write_def add.commute)
  next
    case False
    then show ?thesis by (simp add: mem_write_def)
  qed
qed

lemma read_cstr_append [mem_simps]:
  "NUL \<notin> set s \<Longrightarrow> read_cstr (map Some s @ Some NUL # bs) = Inr s"
  by (induction s) auto

lemma read_cstr_map_Some:
  "read_cstr (map Some s @ Some NUL # bs) = Inr (cstr s)"
  by (induction s) (auto simp: cstr_def)

lemma read_cstr_cmem [simp]: "read_cstr (cmem s) = Inr (cstr s)"
  by (simp add: cmem_def read_cstr_map_Some)

lemma length_cmem [simp]: "length (cmem s) = Suc (length s)"
  by (simp add: cmem_def)

lemma mem_slice_Inr [mem_simps]:
  "0 \<le> i \<Longrightarrow> 0 \<le> n \<Longrightarrow> i + n \<le> int (length blk) \<Longrightarrow>
     mem_slice blk i n = Inr (take (nat n) (drop (nat i) blk))"
  by (auto simp: mem_slice_def)

lemma mem_slice_negative: "n < 0 \<Longrightarrow> mem_slice blk i n = Inl OutOfBounds"
  by (auto simp: mem_slice_def)

lemma mem_store_Inr [mem_simps]:
  "0 \<le> i \<Longrightarrow> i + int (length src) \<le> int (length blk) \<Longrightarrow>
     mem_store blk i src = Inr (take (nat i) blk @ src @ drop (nat i + length src) blk)"
  by (auto simp: mem_store_def)

lemma mem_store_length: "mem_store blk i src = Inr blk' \<Longrightarrow> length blk' = length blk"
  by (auto simp: mem_store_def split: if_splits)

lemma mem_write_Inr [mem_simps]:
  "0 \<le> i \<Longrightarrow> i < int (length blk) \<Longrightarrow> mem_write blk i c = Inr (blk[nat i := Some c])"
  by (auto simp: mem_write_def)

lemma mem_read_Inr [mem_simps]:
  "0 \<le> i \<Longrightarrow> i < int (length blk) \<Longrightarrow> blk ! nat i = Some c \<Longrightarrow> mem_read blk i = Inr c"
  by (auto simp: mem_read_def)

end
