(* ===== verification/StdMap.thy ===== *)
theory StdMap
  imports Prelude
begin

text \<open>
  \<open>std::map\<close>, the container behind most tables of the program (headers, tuples, key/value
  pairs, virtual directories, MIME types, system information, command handlers, the file
  cache). It is an association list kept in increasing key order, which is the order its
  iterators visit the entries in. The locale \<open>ordered_map\<close> states what the components rely
  on, and its interpretation \<open>std\<close> shows that the model keeps it.
\<close>

type_synonym ('k, 'v) smap = "('k \<times> 'v) list"

text \<open>\<open>m[k] = v\<close>: overwrite the entry of the key, or add one at its place.\<close>

fun smap_put :: "'k::linorder \<Rightarrow> 'v \<Rightarrow> ('k, 'v) smap \<Rightarrow> ('k, 'v) smap" where
  "smap_put k v [] = [(k, v)]"
| "smap_put k v ((k', v') # m) =
     (if k < k' then (k, v) # (k', v') # m
      else if k = k' then (k, v) # m
      else (k', v') # smap_put k v m)"

definition smap_find :: "('k, 'v) smap \<Rightarrow> 'k \<Rightarrow> 'v option" where
  "smap_find m k = map_of m k"

text \<open>\<open>m.insert(pair(k, v))\<close>: an entry that is there already stays as it is.\<close>

definition smap_insert :: "'k::linorder \<Rightarrow> 'v \<Rightarrow> ('k, 'v) smap \<Rightarrow> ('k, 'v) smap" where
  "smap_insert k v m = (case smap_find m k of None \<Rightarrow> smap_put k v m | Some _ \<Rightarrow> m)"

definition smap_erase :: "'k \<Rightarrow> ('k, 'v) smap \<Rightarrow> ('k, 'v) smap" where
  "smap_erase k m = filter (\<lambda>e. fst e \<noteq> k) m"

definition smap_inv :: "('k::linorder, 'v) smap \<Rightarrow> bool" where
  "smap_inv m \<longleftrightarrow> sorted_wrt (<) (map fst m)"

lemma set_fst_smap_put: "fst ` set (smap_put k v m) = insert k (fst ` set m)"
  by (induction k v m rule: smap_put.induct) auto

lemma smap_inv_Nil: "smap_inv []"
  by (simp add: smap_inv_def)

lemma smap_inv_put: "smap_inv m \<Longrightarrow> smap_inv (smap_put k v m)"
proof (induction k v m rule: smap_put.induct)
  case (1 k v)
  then show ?case by (simp add: smap_inv_def)
next
  case (2 k v k' v' m)
  have tail: "smap_inv m" using "2.prems" by (simp add: smap_inv_def)
  have above: "\<forall>x \<in> fst ` set m. k' < x" using "2.prems" by (auto simp: smap_inv_def)
  show ?case
  proof (cases "k < k' \<or> k = k'")
    case True
    then show ?thesis using "2.prems" above by (auto simp: smap_inv_def)
  next
    case False
    then have "smap_inv (smap_put k v m)" using "2.IH" tail by auto
    moreover have "\<forall>x \<in> fst ` set (smap_put k v m). k' < x"
      using above False by (auto simp: set_fst_smap_put)
    ultimately show ?thesis using False by (auto simp: smap_inv_def)
  qed
qed

lemma smap_find_put: "smap_find (smap_put k v m) = (smap_find m)(k \<mapsto> v)"
  by (induction k v m rule: smap_put.induct) (auto simp: smap_find_def fun_eq_iff)

lemma smap_inv_erase: "smap_inv m \<Longrightarrow> smap_inv (smap_erase k m)"
  by (induction m) (auto simp: smap_inv_def smap_erase_def)

lemma smap_find_erase: "smap_find (smap_erase k m) = (smap_find m)(k := None)"
  by (induction m) (auto simp: smap_find_def smap_erase_def fun_eq_iff)

lemma smap_inv_distinct: "smap_inv m \<Longrightarrow> distinct (map fst m)"
  by (simp add: smap_inv_def strict_sorted_iff)

section \<open>The contract\<close>

locale ordered_map =
  fixes empty :: "'m"
    and lookup :: "'m \<Rightarrow> 'k::linorder \<Rightarrow> 'v option"
    and put :: "'k \<Rightarrow> 'v \<Rightarrow> 'm \<Rightarrow> 'm"
    and erase :: "'k \<Rightarrow> 'm \<Rightarrow> 'm"
    and entries :: "'m \<Rightarrow> ('k \<times> 'v) list"
    and invar :: "'m \<Rightarrow> bool"
  assumes invar_empty: "invar empty"
    and invar_put: "invar m \<Longrightarrow> invar (put k v m)"
    and invar_erase: "invar m \<Longrightarrow> invar (erase k m)"
    and lookup_empty: "lookup empty = (\<lambda>_. None)"
    and lookup_put: "invar m \<Longrightarrow> lookup (put k v m) = (lookup m)(k \<mapsto> v)"
    and lookup_erase: "invar m \<Longrightarrow> lookup (erase k m) = (lookup m)(k := None)"
    and entries_sorted: "invar m \<Longrightarrow> sorted_wrt (<) (map fst (entries m))"
    and entries_lookup: "invar m \<Longrightarrow> map_of (entries m) = lookup m"
begin

definition put_all :: "('k \<times> 'v) list \<Rightarrow> 'm \<Rightarrow> 'm" where
  "put_all kvs m = fold (\<lambda>(k, v). put k v) kvs m"

lemma invar_put_all: "invar m \<Longrightarrow> invar (put_all kvs m)"
  unfolding put_all_def by (induction kvs arbitrary: m) (auto simp: invar_put)

lemma lookup_put_all: "invar m \<Longrightarrow> lookup (put_all kvs m) = lookup m ++ map_of (rev kvs)"
  unfolding put_all_def
proof (induction kvs arbitrary: m)
  case Nil
  then show ?case by simp
next
  case (Cons kv kvs)
  obtain k v where kv: "kv = (k, v)" by (cases kv)
  have "lookup (fold (\<lambda>(k, v). put k v) kvs (put k v m)) = (lookup m)(k \<mapsto> v) ++ map_of (rev kvs)"
    using Cons.IH [OF invar_put [OF Cons.prems]] lookup_put [OF Cons.prems] by metis
  then show ?case using kv by (simp add: fun_eq_iff map_add_def split: option.splits)
qed

lemma same_lookup_same_entries:
  assumes "invar m" "invar m'" "lookup m = lookup m'"
  shows "entries m = entries m'"
proof -
  have d: "distinct (map fst (entries x))" "sorted (map fst (entries x))" if "invar x" for x
    using entries_sorted [OF that] by (auto simp: strict_sorted_iff)
  have "map_of (entries m) = map_of (entries m')"
    using assms entries_lookup by simp
  then have "set (entries m) = set (entries m')"
    using d(1) assms(1,2) by (metis map_of_eqI map_of_inject_set)
  then show ?thesis
    using d assms(1,2) by (intro map_sorted_distinct_set_unique [where f = fst])
      (auto simp: distinct_map)
qed

text \<open>Putting the entries of a map back, one after the other, gives the same map.\<close>

lemma put_all_entries_lookup:
  assumes "invar m"
  shows "lookup (put_all (entries m) empty) = lookup m"
proof -
  have "distinct (map fst (entries m))"
    using entries_sorted [OF assms] by (auto simp: strict_sorted_iff)
  then have "map_of (rev (entries m)) = map_of (entries m)"
    by (intro map_of_inject_set [THEN iffD2]) (simp_all add: rev_map [symmetric])
  then show ?thesis
    using lookup_put_all [OF invar_empty, of "entries m"] entries_lookup [OF assms]
    by (simp add: lookup_empty)
qed

end

interpretation std: ordered_map "[]" smap_find smap_put smap_erase "\<lambda>m. m" smap_inv
  by unfold_locales
    (auto simp: smap_inv_Nil smap_inv_put smap_inv_erase smap_find_put smap_find_erase,
     auto simp: smap_find_def smap_inv_def fun_eq_iff)

lemma smap_put_all_entries:
  assumes "smap_inv m"
  shows "fold (\<lambda>(k, v). smap_put k v) m [] = m"
proof -
  have "smap_find (std.put_all m []) = smap_find m"
    by (rule std.put_all_entries_lookup [OF assms])
  moreover have "smap_inv (std.put_all m [])"
    by (rule std.invar_put_all [OF smap_inv_Nil])
  ultimately have "std.put_all m [] = m"
    using std.same_lookup_same_entries assms by metis
  then show ?thesis by (simp add: std.put_all_def)
qed

lemma smap_find_insert:
  "smap_find (smap_insert k v m) =
     (case smap_find m k of None \<Rightarrow> (smap_find m)(k \<mapsto> v) | Some _ \<Rightarrow> smap_find m)"
  by (auto simp: smap_insert_def smap_find_put split: option.splits)

lemma smap_inv_insert: "smap_inv m \<Longrightarrow> smap_inv (smap_insert k v m)"
  by (auto simp: smap_insert_def smap_inv_put split: option.splits)

end
