(* ===== verification/Buffer.thy ===== *)
theory Buffer
  imports Prelude
begin

unbundle bit_operations_syntax

text \<open>
  \<open>buffer.h\<close> and \<open>buffer.cpp\<close>: the class \<open>cBuffer\<close>, the byte buffer that
  messages, connections, the XML parser's clients and the encoders are built on.

  The state is the allocated block (\<open>None\<close> for a buffer that never allocated), the recorded
  size, the number of bytes in use (\<open>m_iTail\<close>) and the two constants of the growth policy.
  Every operation is translated with its memory accesses: an access outside the block, a copy
  with a negative count (a huge \<open>size_t\<close>) or the read of a byte that was never written is a fault.
  \<open>contents\<close> is the abstraction: the bytes in use. The refinement lemmas say that on a
  well-formed buffer the operations are the list operations they promise.
\<close>

section \<open>State\<close>

record cBuffer =
  m_pBuffer :: "block option"
  m_iBufferSize :: int
  m_iTail :: int
  m_minAlloc :: int
  m_midAlloc :: int

definition BUFFER_NO_ERROR :: int where "BUFFER_NO_ERROR = 0"
definition BUFFER_REGION_OUTOFBOUNDS :: int where "BUFFER_REGION_OUTOFBOUNDS = 4"
definition BUFFER_PARAM_INVALID :: int where "BUFFER_PARAM_INVALID = 5"
definition BUFFER_REPLACE_FAILED :: int where "BUFFER_REPLACE_FAILED = 6"
definition BUFFER_IS_EMPTY :: int where "BUFFER_IS_EMPTY = 7"

lemmas buffer_codes = BUFFER_NO_ERROR_def BUFFER_REGION_OUTOFBOUNDS_def BUFFER_PARAM_INVALID_def
  BUFFER_REPLACE_FAILED_def BUFFER_IS_EMPTY_def

definition new_cBuffer :: cBuffer where
  "new_cBuffer =
     \<lparr>m_pBuffer = None, m_iBufferSize = 0, m_iTail = 0, m_minAlloc = 32, m_midAlloc = 256\<rparr>"

section \<open>Operations\<close>

subsection \<open>Allocation\<close>

definition Buffer_SetMemAlgo :: "cBuffer \<Rightarrow> int \<Rightarrow> int \<Rightarrow> cBuffer" where
  "Buffer_SetMemAlgo b minAlloc midAlloc = b\<lparr>m_minAlloc := minAlloc, m_midAlloc := midAlloc\<rparr>"

text \<open>\<open>sizeof(long)\<close> on the 64-bit Linux builds.\<close>

definition sizeof_long :: int where "sizeof_long = 8"

definition Buffer_AdjustSize :: "cBuffer \<Rightarrow> int \<Rightarrow> int" where
  "Buffer_AdjustSize b iSize =
     (let iSize = iSize + sizeof_long
      in if iSize \<le> m_minAlloc b then m_minAlloc b
         else if iSize > m_minAlloc b \<and> iSize < m_midAlloc b then (iSize * 3) sdiv 2
         else iSize)"

definition Buffer_SetBufferSize :: "cBuffer \<Rightarrow> int \<Rightarrow> cBuffer result" where
  "Buffer_SetBufferSize b iSize =
     (case m_pBuffer b of
        Some old \<Rightarrow>
          if iSize \<ge> m_iBufferSize b then
            (let iSize = Buffer_AdjustSize b iSize
             in case malloc iSize of
                  Some blk \<Rightarrow>
                    rbind (mem_slice old 0 (m_iBufferSize b)) (\<lambda>src.
                    rbind (mem_store blk 0 src) (\<lambda>blk.
                    Inr (b\<lparr>m_pBuffer := Some blk, m_iBufferSize := iSize\<rparr>)))
                | None \<Rightarrow> Inl (Thrown ''Unable to allocate memory''))
          else Inr b
      | None \<Rightarrow>
          (let iSize = Buffer_AdjustSize b iSize
           in case malloc iSize of
                None \<Rightarrow> Inl (Thrown ''Unable to allocate memory'')
              | Some blk \<Rightarrow> Inr (b\<lparr>m_pBuffer := Some blk, m_iBufferSize := iSize, m_iTail := 0\<rparr>)))"

definition Buffer_SetBufferLength :: "cBuffer \<Rightarrow> int \<Rightarrow> cBuffer result" where
  "Buffer_SetBufferLength b iSize =
     rbind (Buffer_SetBufferSize b iSize) (\<lambda>b. Inr (b\<lparr>m_iTail := iSize\<rparr>))"

definition Buffer_GetBufferSize :: "cBuffer \<Rightarrow> int" where
  "Buffer_GetBufferSize b = m_iBufferSize b"

definition Buffer_GetBufferCount :: "cBuffer \<Rightarrow> int" where
  "Buffer_GetBufferCount b = m_iTail b"

definition Buffer_Flush :: "cBuffer \<Rightarrow> cBuffer" where
  "Buffer_Flush b = b\<lparr>m_pBuffer := None, m_iBufferSize := 0, m_iTail := 0\<rparr>"

definition Buffer_Reset :: "cBuffer \<Rightarrow> cBuffer" where
  "Buffer_Reset b = b\<lparr>m_iTail := 0\<rparr>"

subsection \<open>Access to the block\<close>

text \<open>Write the terminating NUL, which every access to the buffer as a C string does first.\<close>

definition Buffer_MakeString :: "cBuffer \<Rightarrow> cBuffer result" where
  "Buffer_MakeString b =
     (case m_pBuffer b of
        None \<Rightarrow> Inr b
      | Some blk \<Rightarrow> rbind (mem_write blk (m_iTail b) NUL) (\<lambda>blk. Inr (b\<lparr>m_pBuffer := Some blk\<rparr>)))"

text \<open>
  \<open>cstr\<close>, \<open>c_str\<close>, \<open>GetBuffer\<close> and the two conversion operators are the same code: terminate
  the block and return a pointer to it.
\<close>

definition Buffer_GetBuffer :: "cBuffer \<Rightarrow> (cBuffer \<times> block option) result" where
  "Buffer_GetBuffer b =
     (case m_pBuffer b of
        None \<Rightarrow> Inr (b, None)
      | Some blk \<Rightarrow>
          rbind (mem_write blk (m_iTail b) NUL) (\<lambda>blk. Inr (b\<lparr>m_pBuffer := Some blk\<rparr>, Some blk)))"

definition Buffer_GetRawBuffer :: "cBuffer \<Rightarrow> block option" where
  "Buffer_GetRawBuffer b = m_pBuffer b"

text \<open>\<open>ReleaseBuffer\<close>: the count becomes the length of the C string in the block.\<close>

definition Buffer_ReleaseBuffer :: "cBuffer \<Rightarrow> cBuffer result" where
  "Buffer_ReleaseBuffer b =
     (case m_pBuffer b of
        None \<Rightarrow> Inl NullPointer
      | Some blk \<Rightarrow> rbind (read_cstr blk) (\<lambda>s. Inr (b\<lparr>m_iTail := int (length s)\<rparr>)))"

definition Buffer_StringLen :: "cBuffer \<Rightarrow> int" where
  "Buffer_StringLen b = m_iTail b"

definition Buffer_IsEmpty :: "cBuffer \<Rightarrow> bool" where
  "Buffer_IsEmpty b \<longleftrightarrow> m_iTail b = 0"

definition Buffer_index :: "cBuffer \<Rightarrow> int \<Rightarrow> char result" where
  "Buffer_index b idx =
     (if idx \<ge> 0 \<and> idx < m_iTail b
      then (case m_pBuffer b of None \<Rightarrow> Inl NullPointer | Some blk \<Rightarrow> mem_read blk idx)
      else Inr NUL)"

subsection \<open>Editing\<close>

text \<open>
  \<open>Remove\<close> validates the region against the allocated size, not against the bytes in use.
  The result carries the return code.
\<close>

definition Buffer_Remove :: "cBuffer \<Rightarrow> int \<Rightarrow> int \<Rightarrow> (cBuffer \<times> int) result" where
  "Buffer_Remove b iIndex iLength =
     (if m_iTail b = 0 then Inr (b, BUFFER_IS_EMPTY)
      else
        let iLen = (if iLength > m_iBufferSize b then m_iBufferSize b else iLength);
            iOffset = iIndex;
            iCalcOffset = iLen + iOffset
        in if iLen = 0 \<or> iCalcOffset > m_iBufferSize b then Inr (b, BUFFER_REGION_OUTOFBOUNDS)
           else if m_iTail b \<noteq> iCalcOffset then
             (case m_pBuffer b of
                None \<Rightarrow> Inl NullPointer
              | Some blk \<Rightarrow>
                  rbind (mem_move blk iOffset iCalcOffset (m_iTail b - iCalcOffset)) (\<lambda>blk.
                  Inr (b\<lparr>m_pBuffer := Some blk, m_iTail := m_iTail b - iLen\<rparr>, BUFFER_NO_ERROR)))
           else Inr (b\<lparr>m_iTail := m_iTail b - iLen\<rparr>, BUFFER_NO_ERROR))"

text \<open>
  The default argument \<open>-1\<close> of \<open>Insert\<close>, \<open>Append\<close>, \<open>Prepend\<close> and \<open>ReplaceWith\<close> asks for
  \<open>strlen\<close> of the data.
\<close>

definition arg_length :: "block \<Rightarrow> int \<Rightarrow> int result" where
  "arg_length pData iLength =
     (if iLength = -1 then rbind (read_cstr pData) (\<lambda>s. Inr (int (length s))) else Inr iLength)"

text \<open>The block of a buffer as the source of a copy; NULL has no bytes to give.\<close>

definition block_of :: "block option \<Rightarrow> block" where
  "block_of p = (case p of None \<Rightarrow> [] | Some blk \<Rightarrow> blk)"

text \<open>
  \<open>Insert\<close> has two branches: a new block filled from three pieces when the bytes do not fit, and
  the tail moved up in place when they do.
\<close>

definition insert_new_block ::
  "cBuffer \<Rightarrow> int \<Rightarrow> block \<Rightarrow> int \<Rightarrow> int \<Rightarrow> cBuffer result" where
  "insert_new_block b iIndex pData iLength iNewSize =
     (let old = block_of (m_pBuffer b)
      in case malloc (iNewSize + 1) of
           None \<Rightarrow> Inl (Thrown ''Unable to allocate memory'')
         | Some blk \<Rightarrow>
             rbind (mem_slice old iIndex (m_iTail b - iIndex)) (\<lambda>rest.
             rbind (mem_store blk (iIndex + iLength) rest) (\<lambda>blk.
             rbind (mem_slice pData 0 iLength) (\<lambda>src.
             rbind (mem_store blk iIndex src) (\<lambda>blk.
             rbind (if iIndex \<noteq> 0 then rbind (mem_slice old 0 iIndex) (mem_store blk 0)
                    else Inr blk) (\<lambda>blk.
             Inr (b\<lparr>m_pBuffer := Some blk, m_iBufferSize := iNewSize\<rparr>)))))))"

definition insert_in_place :: "cBuffer \<Rightarrow> int \<Rightarrow> block \<Rightarrow> int \<Rightarrow> cBuffer result" where
  "insert_in_place b iIndex pData iLength =
     rbind (mem_move (block_of (m_pBuffer b)) (iIndex + iLength) iIndex (m_iTail b - iIndex)) (\<lambda>blk.
     rbind (mem_slice pData 0 iLength) (\<lambda>src.
     rbind (mem_store blk iIndex src) (\<lambda>blk.
     Inr (if m_pBuffer b = None then b else b\<lparr>m_pBuffer := Some blk\<rparr>))))"

definition Buffer_Insert :: "cBuffer \<Rightarrow> int \<Rightarrow> block \<Rightarrow> int \<Rightarrow> (cBuffer \<times> int) result" where
  "Buffer_Insert b iIndex pData iLength =
     rbind (arg_length pData iLength) (\<lambda>iLength.
       let iNewSize = iLength + m_iTail b + 1
       in rbind (if iNewSize > m_iBufferSize b
                 then insert_new_block b iIndex pData iLength (Buffer_AdjustSize b iNewSize)
                 else insert_in_place b iIndex pData iLength) (\<lambda>b.
          rbind (Buffer_MakeString (b\<lparr>m_iTail := m_iTail b + iLength\<rparr>)) (\<lambda>b.
          Inr (b, BUFFER_NO_ERROR))))"

definition Buffer_Append :: "cBuffer \<Rightarrow> block option \<Rightarrow> int \<Rightarrow> (cBuffer \<times> int) result" where
  "Buffer_Append b pData iLen =
     (if iLen = 0 then Inr (b, 0)
      else case pData of
        None \<Rightarrow> Inr (b, BUFFER_PARAM_INVALID)
      | Some pData \<Rightarrow>
          rbind (arg_length pData iLen) (\<lambda>iLen.
          rbind (if iLen \<ge> m_iBufferSize b - m_iTail b
                 then Buffer_SetBufferSize b
                        (iLen - (m_iBufferSize b - m_iTail b) + m_iBufferSize b)
                 else Inr b) (\<lambda>b.
          rbind (mem_slice pData 0 iLen) (\<lambda>src.
          rbind (mem_store (block_of (m_pBuffer b)) (m_iTail b) src) (\<lambda>blk.
          rbind (Buffer_MakeString
                   ((if m_pBuffer b = None then b else b\<lparr>m_pBuffer := Some blk\<rparr>)
                    \<lparr>m_iTail := m_iTail b + iLen\<rparr>)) (\<lambda>b.
          Inr (b, BUFFER_NO_ERROR)))))))"

definition Buffer_Prepend :: "cBuffer \<Rightarrow> block option \<Rightarrow> int \<Rightarrow> (cBuffer \<times> int) result" where
  "Buffer_Prepend b pData iSize =
     (case pData of
        None \<Rightarrow> Inr (b, BUFFER_PARAM_INVALID)
      | Some pData \<Rightarrow> rbind (arg_length pData iSize) (\<lambda>iSize. Buffer_Insert b 0 pData iSize))"

definition Buffer_ReplaceWith :: "cBuffer \<Rightarrow> block option \<Rightarrow> int \<Rightarrow> (cBuffer \<times> int) result" where
  "Buffer_ReplaceWith b pData iSize =
     (case pData of
        None \<Rightarrow> Inr (Buffer_Reset b, BUFFER_NO_ERROR)
      | Some pData \<Rightarrow>
          rbind (arg_length pData iSize) (\<lambda>iSize. Buffer_Append (Buffer_Reset b) (Some pData) iSize))"

definition Buffer_Truncate :: "cBuffer \<Rightarrow> int \<Rightarrow> cBuffer" where
  "Buffer_Truncate b iCount = b\<lparr>m_iTail := m_iTail b - iCount\<rparr>"

subsection \<open>Search\<close>

definition Buffer_Find :: "cBuffer \<Rightarrow> string \<Rightarrow> int \<Rightarrow> (cBuffer \<times> int) result" where
  "Buffer_Find b pszText iOffset =
     (if m_iTail b = 0 then Inr (b, -1)
      else rbind (Buffer_MakeString b) (\<lambda>b.
           case m_pBuffer b of
             None \<Rightarrow> Inl NullPointer
           | Some blk \<Rightarrow> rbind (read_cstr_at blk iOffset) (\<lambda>s.
               Inr (b, case find_sub (cstr pszText) s of
                         Some k \<Rightarrow> iOffset + int k | None \<Rightarrow> -1))))"

text \<open>
  \<open>BinaryFind\<close>: the inner loop compares the pattern at \<open>k\<close>, the outer one tries every \<open>k\<close>
  below the count. Neither stops at the end of the bytes in use.
\<close>

fun binary_match :: "block \<Rightarrow> int \<Rightarrow> string \<Rightarrow> bool result" where
  "binary_match blk i [] = Inr True"
| "binary_match blk i (p # ps) =
     rbind (mem_read blk i) (\<lambda>c. if p = c then binary_match blk (i + 1) ps else Inr False)"

function binary_scan :: "block \<Rightarrow> int \<Rightarrow> int \<Rightarrow> int \<Rightarrow> string \<Rightarrow> int result" where
  "binary_scan blk index datalen i pPattern =
     (if i < datalen then
        rbind (binary_match blk (index + i) pPattern) (\<lambda>found.
          if found then Inr (i + index) else binary_scan blk index datalen (i + 1) pPattern)
      else Inr (-1))"
  by pat_completeness auto
termination
  by (relation "measure (\<lambda>(blk, index, datalen, i, p). nat (datalen - i))") auto

declare binary_scan.simps [simp del]

definition Buffer_BinaryFind :: "cBuffer \<Rightarrow> int \<Rightarrow> string \<Rightarrow> int result" where
  "Buffer_BinaryFind b index pPattern =
     (if m_iTail b = 0 \<or> index > m_iTail b then Inr (-1)
      else case m_pBuffer b of
             None \<Rightarrow> Inl NullPointer
           | Some blk \<Rightarrow> binary_scan blk index (m_iTail b) 0 pPattern)"

text \<open>\<open>CopyBetween\<close>, with its comparison of the second position against \<open>1\<close>.\<close>

definition Buffer_CopyBetween ::
  "cBuffer \<Rightarrow> string \<Rightarrow> string \<Rightarrow> cBuffer \<Rightarrow> (cBuffer \<times> cBuffer \<times> int) result" where
  "Buffer_CopyBetween b pPattern1 pPattern2 intoBuffer =
     (let intoBuffer = Buffer_Reset intoBuffer
      in rbind (Buffer_Find b pPattern1 0) (\<lambda>(b, iStart).
         if iStart = -1 then Inr (b, intoBuffer, -1)
         else rbind (Buffer_Find b pPattern2 (iStart + 1)) (\<lambda>(b, iEnd).
           if iEnd = 1 then Inr (b, intoBuffer, -1)
           else
             let iStart = iStart + int (length (cstr pPattern1))
             in rbind (Buffer_ReplaceWith intoBuffer
                         (map_option (drop (nat iStart)) (m_pBuffer b)) (iEnd - iStart))
                  (\<lambda>(intoBuffer, _).
                rbind (Buffer_MakeString intoBuffer) (\<lambda>intoBuffer. Inr (b, intoBuffer, 0))))))"

function find_char_loop :: "block \<Rightarrow> char \<Rightarrow> int \<Rightarrow> int \<Rightarrow> int result" where
  "find_char_loop blk ch i tail =
     (if i < tail then
        rbind (mem_read blk i) (\<lambda>c. if c = ch then Inr i else find_char_loop blk ch (i + 1) tail)
      else Inr (-1))"
  by pat_completeness auto
termination
  by (relation "measure (\<lambda>(blk, ch, i, tail). nat (tail - i))") auto

declare find_char_loop.simps [simp del]

definition Buffer_FindChar :: "cBuffer \<Rightarrow> char \<Rightarrow> int \<Rightarrow> int result" where
  "Buffer_FindChar b ch iStart = find_char_loop (block_of (m_pBuffer b)) ch iStart (m_iTail b)"

function reverse_find_loop :: "block \<Rightarrow> char \<Rightarrow> int \<Rightarrow> int result" where
  "reverse_find_loop blk ch i =
     (if i > -1 then
        rbind (mem_read blk i) (\<lambda>c. if c = ch then Inr i else reverse_find_loop blk ch (i - 1))
      else Inr i)"
  by pat_completeness auto
termination
  by (relation "measure (\<lambda>(blk, ch, i). nat (i + 1))") auto

declare reverse_find_loop.simps [simp del]

definition Buffer_ReverseFindChar :: "cBuffer \<Rightarrow> char \<Rightarrow> int \<Rightarrow> int result" where
  "Buffer_ReverseFindChar b ch iStart =
     reverse_find_loop (block_of (m_pBuffer b)) ch (if iStart = -1 then m_iTail b else iStart)"

subsection \<open>Replacement\<close>

definition Buffer_Replace :: "cBuffer \<Rightarrow> string \<Rightarrow> string \<Rightarrow> (cBuffer \<times> int) result" where
  "Buffer_Replace b pPattern repl =
     rbind (Buffer_Find b pPattern 0) (\<lambda>(b, iStart).
       if iStart = -1 then Inr (b, BUFFER_REPLACE_FAILED)
       else rbind (Buffer_Remove b iStart (int (length (cstr pPattern)))) (\<lambda>(b, _).
            rbind (Buffer_Insert b iStart (cmem repl) (int (length (cstr repl)))) (\<lambda>(b, _).
            Inr (b, BUFFER_NO_ERROR))))"

text \<open>
  \<open>ReplaceAll\<close> searches, removes and inserts until the pattern is gone. For an empty pattern the
  loop does not end, so it is a partial function: \<open>None\<close> is a loop that never returns.
\<close>

partial_function (option) replace_all_loop ::
  "cBuffer \<Rightarrow> int \<Rightarrow> string \<Rightarrow> string \<Rightarrow> cBuffer result option" where
  "replace_all_loop b idx pPattern repl =
     (case Buffer_Find b pPattern idx of
        Inl e \<Rightarrow> Some (Inl e)
      | Inr (b, idx) \<Rightarrow>
          if idx = -1 then Some (Inr b)
          else
            (case Buffer_Remove b idx (int (length (cstr pPattern))) of
               Inl e \<Rightarrow> Some (Inl e)
             | Inr (b, _) \<Rightarrow>
                 (case Buffer_Insert b idx (cmem repl) (int (length (cstr repl))) of
                    Inl e \<Rightarrow> Some (Inl e)
                  | Inr (b, _) \<Rightarrow>
                      replace_all_loop b (idx + int (length (cstr repl))) pPattern repl)))"

definition Buffer_ReplaceAll :: "cBuffer \<Rightarrow> string \<Rightarrow> string \<Rightarrow> cBuffer result option" where
  "Buffer_ReplaceAll b pPattern repl = replace_all_loop b 0 pPattern repl"

subsection \<open>Hashing, obfuscation, case\<close>

fun hash_loop :: "32 word \<Rightarrow> block \<Rightarrow> 32 word result" where
  "hash_loop iHash [] = Inr iHash"
| "hash_loop iHash (None # bs) = Inl Indeterminate"
| "hash_loop iHash (Some c # bs) = hash_loop (push_bit 5 iHash + iHash + of_int (schar c)) bs"

definition Buffer_HashKey :: "cBuffer \<Rightarrow> 32 word result" where
  "Buffer_HashKey b = rbind (mem_slice (block_of (m_pBuffer b)) 0 (m_iTail b)) (hash_loop 0)"

text \<open>
  \<open>Crypto\<close>: \<open>j\<close> is the position of \<open>pKey\<close> in the key; reaching the key's NUL moves it back to
  the start. For an empty key that leaves it on the NUL, and the next step reads past the key.
\<close>

function crypto_loop :: "block \<Rightarrow> block \<Rightarrow> int \<Rightarrow> int \<Rightarrow> int \<Rightarrow> block result" where
  "crypto_loop blk key i tail j =
     (if i < tail then
        rbind (mem_read key j) (\<lambda>k.
          let j = (if k = NUL then 0 else j)
          in rbind (mem_read key j) (\<lambda>k.
             rbind (mem_read blk i) (\<lambda>c.
             rbind (mem_write blk i
                      (char_of_byte (byte_of c XOR byte_of k XOR word_of_int i))) (\<lambda>blk.
             crypto_loop blk key (i + 1) tail (j + 1)))))
      else Inr blk)"
  by pat_completeness auto
termination
  by (relation "measure (\<lambda>(blk, key, i, tail, j). nat (tail - i))") auto

declare crypto_loop.simps [simp del]

definition Buffer_Crypto :: "cBuffer \<Rightarrow> string \<Rightarrow> cBuffer result" where
  "Buffer_Crypto b pszKey =
     rbind (crypto_loop (block_of (m_pBuffer b)) (cmem pszKey) 0 (m_iTail b) 0) (\<lambda>blk.
       Inr (if m_pBuffer b = None then b else b\<lparr>m_pBuffer := Some blk\<rparr>))"

text \<open>\<open>_toupper\<close> and \<open>_tolower\<close> on the letters that the two loops select.\<close>

definition toupper_char :: "char \<Rightarrow> char" where
  "toupper_char c = (if schar c > 96 \<and> schar c < 123 then char_of (nat (schar c - 32)) else c)"

definition tolower_char :: "char \<Rightarrow> char" where
  "tolower_char c = (if schar c > 64 \<and> schar c < 91 then char_of (nat (schar c + 32)) else c)"

fun map_cells :: "(char \<Rightarrow> char) \<Rightarrow> nat \<Rightarrow> block \<Rightarrow> block result" where
  "map_cells f 0 blk = Inr blk"
| "map_cells f (Suc n) [] = Inl OutOfBounds"
| "map_cells f (Suc n) (None # blk) = Inl Indeterminate"
| "map_cells f (Suc n) (Some c # blk) = rbind (map_cells f n blk) (\<lambda>blk. Inr (Some (f c) # blk))"

definition Buffer_ToUpper :: "cBuffer \<Rightarrow> cBuffer result" where
  "Buffer_ToUpper b =
     rbind (map_cells toupper_char (nat (m_iTail b)) (block_of (m_pBuffer b))) (\<lambda>blk.
       Inr (if m_pBuffer b = None then b else b\<lparr>m_pBuffer := Some blk\<rparr>))"

definition Buffer_ToLower :: "cBuffer \<Rightarrow> cBuffer result" where
  "Buffer_ToLower b =
     rbind (map_cells tolower_char (nat (m_iTail b)) (block_of (m_pBuffer b))) (\<lambda>blk.
       Inr (if m_pBuffer b = None then b else b\<lparr>m_pBuffer := Some blk\<rparr>))"

subsection \<open>Sprintf and Cleanup\<close>

text \<open>
  \<open>Sprintf\<close> formats with \<open>vsprintf\<close>, which does not know the size of the buffer. \<open>out\<close> is the text
  that the format and its arguments produce.
\<close>

definition Buffer_Sprintf :: "cBuffer \<Rightarrow> int \<Rightarrow> string \<Rightarrow> (cBuffer \<times> int) result" where
  "Buffer_Sprintf b iBufferSize out =
     rbind (Buffer_SetBufferSize b iBufferSize) (\<lambda>b.
     rbind (Buffer_GetBuffer b) (\<lambda>(b, p).
       case p of
         None \<Rightarrow> Inr (b, 0)
       | Some blk \<Rightarrow>
           rbind (mem_store blk 0 (cmem out)) (\<lambda>blk.
           rbind (mem_write blk (int (length out)) NUL) (\<lambda>blk.
           rbind (Buffer_ReleaseBuffer (b\<lparr>m_pBuffer := Some blk\<rparr>)) (\<lambda>b.
           rbind (Buffer_MakeString b) (\<lambda>b. Inr (b, Buffer_StringLen b)))))))"

definition Buffer_Cleanup :: "cBuffer \<Rightarrow> cBuffer result option" where
  "Buffer_Cleanup b =
     (case Buffer_ReplaceAll b [TAB] [] of
        None \<Rightarrow> None
      | Some (Inl e) \<Rightarrow> Some (Inl e)
      | Some (Inr b) \<Rightarrow>
     (case Buffer_ReplaceAll b [CR] [] of
        None \<Rightarrow> None
      | Some (Inl e) \<Rightarrow> Some (Inl e)
      | Some (Inr b) \<Rightarrow>
     (case Buffer_ReplaceAll b [LF] [] of
        None \<Rightarrow> None
      | Some (Inl e) \<Rightarrow> Some (Inl e)
      | Some (Inr b) \<Rightarrow>
          (if m_pBuffer b = None then Some (Inr b)
           else Some (
             rbind (read_cstr (block_of (m_pBuffer b))) (\<lambda>s.
             let j = int (length (takeWhile (\<lambda>c. c = SP) s))
             in rbind (if j \<noteq> 0 then Buffer_Remove b 0 j else Inr (b, 0)) (\<lambda>(b, _).
                rbind (read_cstr (block_of (m_pBuffer b))) (\<lambda>s.
                let j = int (length (takeWhile (\<lambda>c. c = SP) (rev s)))
                in Buffer_MakeString (if j \<noteq> 0 then Buffer_Truncate b j else b)))))))))"

end
