(* ===== verification/BufferLaws.thy ===== *)
theory BufferLaws
  imports Buffer
begin

text \<open>
  The laws of \<open>cBuffer\<close>. \<open>holds b s\<close> says that the buffer is well-formed and that the bytes in
  use are \<open>s\<close>; each lemma \<open>Op_holds\<close> says that the operation, with all its memory accesses,
  returns without a fault and does to \<open>s\<close> what a list operation does. The lemmas that end in a
  fault or in \<open>None\<close> delimit where that fails in the code.
\<close>

section \<open>Well-formed buffers and their contents\<close>

definition buf_wf :: "cBuffer \<Rightarrow> bool" where
  "buf_wf b \<longleftrightarrow>
     (case m_pBuffer b of
        None \<Rightarrow> m_iBufferSize b = 0 \<and> m_iTail b = 0
      | Some blk \<Rightarrow> 0 \<le> m_iTail b \<and> m_iTail b < m_iBufferSize b \<and>
          m_iBufferSize b \<le> int (length blk) \<and> None \<notin> set (take (nat (m_iTail b)) blk))"

definition contents :: "cBuffer \<Rightarrow> string" where
  "contents b = map the (take (nat (m_iTail b)) (block_of (m_pBuffer b)))"

text \<open>The terminating NUL is in place, so that the block can be read as a C string.\<close>

definition terminated :: "cBuffer \<Rightarrow> bool" where
  "terminated b \<longleftrightarrow>
     (case m_pBuffer b of None \<Rightarrow> True | Some blk \<Rightarrow> blk ! nat (m_iTail b) = Some NUL)"

text \<open>The buffer is well-formed and holds \<open>s\<close>.\<close>

definition holds :: "cBuffer \<Rightarrow> string \<Rightarrow> bool" where
  "holds b s \<longleftrightarrow> buf_wf b \<and> contents b = s"

lemma map_Some_the: "None \<notin> set xs \<Longrightarrow> map (Some \<circ> the) xs = xs"
  by (induction xs) auto

lemma holds_None: "m_pBuffer b = None \<Longrightarrow>
    holds b s \<longleftrightarrow> m_iBufferSize b = 0 \<and> m_iTail b = 0 \<and> s = []"
  by (auto simp: holds_def buf_wf_def contents_def block_of_def)

lemma holds_SomeE:
  assumes "holds b s" "m_pBuffer b = Some blk"
  obtains r rest where "blk = map Some s @ r # rest" "m_iTail b = int (length s)"
    "int (length s) < m_iBufferSize b" "m_iBufferSize b \<le> int (length s + Suc (length rest))"
proof -
  let ?n = "nat (m_iTail b)"
  from assms have wf: "0 \<le> m_iTail b" "m_iTail b < m_iBufferSize b"
      "m_iBufferSize b \<le> int (length blk)" "None \<notin> set (take ?n blk)"
    and s: "map the (take ?n blk) = s"
    by (auto simp: holds_def buf_wf_def contents_def block_of_def)
  have len: "length s = ?n" using wf by (simp flip: s)
  have "map Some s = take ?n blk" using map_Some_the [OF wf(4)] by (simp flip: s)
  then have blk: "blk = map Some s @ drop ?n blk" by simp
  have "drop ?n blk \<noteq> []" using wf by simp
  then obtain r rest where d: "drop ?n blk = r # rest" by (cases "drop ?n blk") auto
  from blk d have *: "blk = map Some s @ r # rest" by simp
  show thesis
  proof (rule that [OF *])
    show "m_iTail b = int (length s)" "int (length s) < m_iBufferSize b"
      using len wf by simp_all
    show "m_iBufferSize b \<le> int (length s + Suc (length rest))"
      using wf(3) * by (metis length_Cons length_append length_map)
  qed
qed

lemma holds_SomeI:
  assumes "m_pBuffer b = Some (map Some s @ rest)" "m_iTail b = int (length s)"
    "int (length s) < m_iBufferSize b" "m_iBufferSize b \<le> int (length s + length rest)"
  shows "holds b s"
  using assms by (auto simp: holds_def buf_wf_def contents_def block_of_def)

lemma holds_tail: "holds b s \<Longrightarrow> m_iTail b = int (length s)"
  by (cases "m_pBuffer b") (auto simp: holds_None elim: holds_SomeE)

lemma holds_new: "holds new_cBuffer []"
  by (simp add: holds_None new_cBuffer_def)

lemma holds_wf: "holds b s \<Longrightarrow> buf_wf b" and holds_contents: "holds b s \<Longrightarrow> contents b = s"
  by (simp_all add: holds_def)

lemma wf_holds: "buf_wf b \<Longrightarrow> holds b (contents b)"
  by (simp add: holds_def)

lemma holds_Reset: "holds b s \<Longrightarrow> holds (Buffer_Reset b) []"
  by (cases "m_pBuffer b")
    (auto simp: holds_None Buffer_Reset_def elim!: holds_SomeE intro!: holds_SomeI)

lemma holds_Flush: "holds (Buffer_Flush b) []"
  by (simp add: holds_None Buffer_Flush_def)

subsection \<open>Allocation\<close>

lemma AdjustSize_grows: "0 \<le> n \<Longrightarrow> n + sizeof_long \<le> Buffer_AdjustSize b n"
  by (auto simp: Buffer_AdjustSize_def Let_def sizeof_long_def signed_divide_int_def)

lemma malloc_Some: "0 \<le> n \<Longrightarrow> malloc n = Some (replicate (nat n) None)"
  by (simp add: malloc_def)

lemma SetBufferSize_holds:
  assumes h: "holds b s" and n: "0 \<le> n"
  shows "\<exists>b'. Buffer_SetBufferSize b n = Inr b' \<and> holds b' s \<and> m_pBuffer b' \<noteq> None \<and>
           n < m_iBufferSize b'"
proof (cases "m_pBuffer b")
  case None
  let ?n = "Buffer_AdjustSize b n"
  have g: "n + sizeof_long \<le> ?n" by (rule AdjustSize_grows [OF n])
  then have m: "malloc ?n = Some (replicate (nat ?n) None)"
    using n by (intro malloc_Some) (simp add: sizeof_long_def)
  have "s = []" using h None by (simp add: holds_None)
  then show ?thesis using None m g n
    by (auto simp: Buffer_SetBufferSize_def Let_def sizeof_long_def intro!: holds_SomeI)
next
  case (Some old)
  from h Some obtain r rest where old: "old = map Some s @ r # rest"
    and t: "m_iTail b = int (length s)" "int (length s) < m_iBufferSize b"
      "m_iBufferSize b \<le> int (length s + Suc (length rest))" by (rule holds_SomeE)
  show ?thesis
  proof (cases "n \<ge> m_iBufferSize b")
    case False
    then show ?thesis using Some h by (auto simp: Buffer_SetBufferSize_def)
  next
    case True
    let ?n = "Buffer_AdjustSize b n" and ?k = "nat (m_iBufferSize b)"
    have g: "n + sizeof_long \<le> ?n" by (rule AdjustSize_grows [OF n])
    then have m: "malloc ?n = Some (replicate (nat ?n) None)"
      using n by (intro malloc_Some) (simp add: sizeof_long_def)
    have k: "length s < ?k" "?k \<le> length old" "?k < nat ?n"
      using t True g old by (auto simp: sizeof_long_def)
    have sl: "mem_slice old 0 (m_iBufferSize b) = Inr (take ?k old)"
      using t old by (subst mem_slice_Inr) auto
    have st: "mem_store (replicate (nat ?n) None) 0 (take ?k old) =
        Inr (take ?k old @ replicate (nat ?n - ?k) None)"
      using k by (subst mem_store_Inr) (auto simp: min_def)
    have "take ?k old = map Some s @ take (?k - length s) (r # rest)"
      using old k by simp
    then show ?thesis
      using Some True m sl st t g n k old
      by (auto simp: Buffer_SetBufferSize_def Let_def sizeof_long_def intro!: holds_SomeI)
  qed
qed

lemma MakeString_holds:
  assumes "holds b s"
  shows "\<exists>b'. Buffer_MakeString b = Inr b' \<and> holds b' s \<and> terminated b' \<and>
           (m_pBuffer b' = None \<longleftrightarrow> m_pBuffer b = None) \<and> m_iBufferSize b' = m_iBufferSize b"
proof (cases "m_pBuffer b")
  case None
  then show ?thesis using assms by (auto simp: Buffer_MakeString_def terminated_def)
next
  case (Some blk)
  from assms Some obtain r rest where blk: "blk = map Some s @ r # rest"
    and t: "m_iTail b = int (length s)" "int (length s) < m_iBufferSize b"
      "m_iBufferSize b \<le> int (length s + Suc (length rest))"
    by (rule holds_SomeE)
  have "mem_write blk (m_iTail b) NUL = Inr (map Some s @ Some NUL # rest)"
    using blk t by (subst mem_write_Inr) (auto simp: list_update_append)
  moreover have "(map Some s @ Some NUL # rest) ! length s = Some NUL"
    by (metis length_map nth_append_length)
  ultimately show ?thesis using Some t
    by (auto simp: Buffer_MakeString_def terminated_def intro!: holds_SomeI)
qed

lemma terminated_cstr:
  assumes "holds b s" "terminated b" "m_pBuffer b = Some blk"
  obtains rest where "blk = map Some s @ Some NUL # rest"
proof -
  from assms(1,3) obtain r rest where blk: "blk = map Some s @ r # rest"
    and t: "m_iTail b = int (length s)"
    by (rule holds_SomeE)
  have "blk ! length s = r" using blk by (metis length_map nth_append_length)
  then have "r = Some NUL" using assms(2,3) t by (simp add: terminated_def)
  with blk that show thesis by simp
qed

subsection \<open>Editing\<close>

lemma arg_length_given [simp]: "0 \<le> n \<Longrightarrow> arg_length d n = Inr n"
  by (simp add: arg_length_def)

lemma arg_length_strlen: "arg_length (cmem xs) (-1) = Inr (int (length (cstr xs)))"
  by (simp add: arg_length_def)

lemma take_cmem: "n \<le> length xs \<Longrightarrow> take n (cmem xs) = map Some (take n xs)"
  by (simp add: cmem_def take_map)

lemma cstr_prefix: "take (length (cstr xs)) xs = cstr xs"
  by (induction xs) (auto simp: cstr_def)

lemma holds_nonnull:
  "holds b s \<Longrightarrow> s \<noteq> [] \<or> 0 < m_iBufferSize b \<Longrightarrow> \<exists>blk. m_pBuffer b = Some blk"
  by (cases "m_pBuffer b") (auto simp: holds_None)

lemma length_cstr_le: "length (cstr xs) \<le> length xs"
  by (simp add: cstr_def length_takeWhile_le)

text \<open>\<open>Append\<close> of \<open>n\<close> bytes: the data is there, so the buffer grows and takes them.\<close>

lemma Append_holds:
  assumes h: "holds b s" and src: "take n d = map Some xs" "length xs = n" and n: "0 < n"
  shows "\<exists>b'. Buffer_Append b (Some d) (int n) = Inr (b', BUFFER_NO_ERROR) \<and>
           holds b' (s @ xs) \<and> terminated b' \<and> m_pBuffer b' \<noteq> None"
proof -
  have ld: "n \<le> length d" using src by (metis length_map length_take min.cobounded1)
  let ?grow = "if int n \<ge> m_iBufferSize b - m_iTail b
    then Buffer_SetBufferSize b (int n - (m_iBufferSize b - m_iTail b) + m_iBufferSize b)
    else Inr b"
  have "\<exists>c. ?grow = Inr c \<and> holds c s \<and> m_pBuffer c \<noteq> None \<and>
      int (length s) + int n < m_iBufferSize c"
  proof (cases "int n \<ge> m_iBufferSize b - m_iTail b")
    case True
    have "int n - (m_iBufferSize b - m_iTail b) + m_iBufferSize b = int (length s) + int n"
      using holds_tail [OF h] by simp
    then show ?thesis using True SetBufferSize_holds [OF h, of "int (length s) + int n"] by (auto simp: add.commute)
  next
    case False
    have "0 < m_iBufferSize b" using False n holds_tail [OF h] by simp
    then obtain blk where "m_pBuffer b = Some blk" using holds_nonnull [OF h] by blast
    then show ?thesis using False h holds_tail [OF h] by auto
  qed
  then obtain c blk where grow: "?grow = Inr c" and c: "holds c s" "m_pBuffer c = Some blk"
      "int (length s) + int n < m_iBufferSize c" by blast
  from c(1,2) obtain r rest where blk: "blk = map Some s @ r # rest"
    and t: "m_iTail c = int (length s)" "m_iBufferSize c \<le> int (length s + Suc (length rest))"
    by (rule holds_SomeE)
  have sl: "mem_slice d 0 (int n) = Inr (map Some xs)"
    using ld src by (subst mem_slice_Inr) auto
  let ?blk = "map Some (s @ xs) @ drop n (r # rest)"
  have st: "mem_store blk (int (length s)) (map Some xs) = Inr ?blk"
    using blk t c(3) src by (subst mem_store_Inr) auto
  let ?c = "c\<lparr>m_pBuffer := Some ?blk, m_iTail := int (length s) + int n\<rparr>"
  have "length (drop n (r # rest)) = Suc (length rest) - n" by simp
  then have "holds ?c (s @ xs)"
    using c(3) t src by (intro holds_SomeI [where rest = "drop n (r # rest)"]) auto
  from MakeString_holds [OF this] obtain b' where
    b': "Buffer_MakeString ?c = Inr b'" "holds b' (s @ xs)" "terminated b'" "m_pBuffer b' \<noteq> None"
    by auto
  have "Buffer_Append b (Some d) (int n) = Inr (b', BUFFER_NO_ERROR)"
    using n grow c(2) sl st b'(1) t(1) by (simp add: Buffer_Append_def block_of_def)
  with b' show ?thesis by blast
qed

lemma Append_string:
  assumes "holds b s" "xs \<noteq> []"
  shows "\<exists>b'. Buffer_Append b (Some (cmem xs)) (int (length xs)) = Inr (b', BUFFER_NO_ERROR) \<and>
           holds b' (s @ xs) \<and> terminated b' \<and> m_pBuffer b' \<noteq> None"
  using Append_holds [OF assms(1), of "length xs" "cmem xs" xs] assms(2) by (simp add: take_cmem)

lemma Append_zero: "Buffer_Append b d 0 = Inr (b, 0)"
  by (simp add: Buffer_Append_def)

lemma ReplaceWith_holds:
  assumes h: "holds b s" and src: "take n d = map Some xs" "length xs = n"
  shows "\<exists>b' rc. Buffer_ReplaceWith b (Some d) (int n) = Inr (b', rc) \<and> holds b' xs \<and>
           (0 < n \<longrightarrow> terminated b' \<and> m_pBuffer b' \<noteq> None)"
proof (cases "n = 0")
  case True
  then show ?thesis using holds_Reset [OF h] src
    by (auto simp: Buffer_ReplaceWith_def Append_zero)
next
  case False
  then show ?thesis using Append_holds [OF holds_Reset [OF h] src]
    by (auto simp: Buffer_ReplaceWith_def)
qed

lemma ReplaceWith_string:
  assumes "holds b s" "NUL \<notin> set xs"
  shows "\<exists>b' rc. Buffer_ReplaceWith b (Some (cmem xs)) (-1) = Inr (b', rc) \<and> holds b' xs"
proof -
  have "\<exists>b' rc. Buffer_ReplaceWith b (Some (cmem xs)) (int (length xs)) = Inr (b', rc) \<and> holds b' xs"
    using ReplaceWith_holds [OF assms(1), of "length xs" "cmem xs" xs] by (auto simp: take_cmem)
  then show ?thesis
    by (simp add: Buffer_ReplaceWith_def arg_length_strlen cstr_id [OF assms(2)])
qed

text \<open>The two pieces of the old block that \<open>Insert\<close> copies.\<close>

lemma old_pieces:
  assumes "holds b s" "i \<le> length s"
  shows "mem_slice (block_of (m_pBuffer b)) (int i) (m_iTail b - int i) = Inr (map Some (drop i s))"
    and "mem_slice (block_of (m_pBuffer b)) 0 (int i) = Inr (map Some (take i s))"
proof (atomize (full), cases "m_pBuffer b")
  case None
  with assms show "mem_slice (block_of (m_pBuffer b)) (int i) (m_iTail b - int i) =
      Inr (map Some (drop i s)) \<and>
      mem_slice (block_of (m_pBuffer b)) 0 (int i) = Inr (map Some (take i s))"
    by (auto simp: holds_None mem_slice_def)
next
  case (Some blk)
  with assms(1) obtain r rest where "blk = map Some s @ r # rest" by (rule holds_SomeE)
  then show "mem_slice (block_of (m_pBuffer b)) (int i) (m_iTail b - int i) =
      Inr (map Some (drop i s)) \<and>
      mem_slice (block_of (m_pBuffer b)) 0 (int i) = Inr (map Some (take i s))"
    using Some assms holds_tail [OF assms(1)]
    by (auto simp: mem_slice_Inr block_of_def drop_map take_map)
qed

lemma insert_new_block_holds:
  assumes h: "holds b s" and i: "i \<le> length s" and n: "length xs = n"
    and sd: "mem_slice d 0 (int n) = Inr (map Some xs)"
    and big: "int n + int (length s) + 8 < new"
  shows "\<exists>c. insert_new_block b (int i) d (int n) new = Inr c \<and> m_iTail c = m_iTail b \<and>
           m_pBuffer c \<noteq> None \<and> holds (c\<lparr>m_iTail := m_iTail c + int n\<rparr>) (take i s @ xs @ drop i s)"
proof -
  let ?fill = "\<lambda>k. replicate k (None :: char option)" and ?r = "take i s @ xs @ drop i s"
  let ?tl = "?fill (nat (new + 1) - (length s + n))"
  let ?c = "b\<lparr>m_pBuffer := Some (map Some ?r @ ?tl), m_iBufferSize := new\<rparr>"
  note old = old_pieces [OF h i]
  have m: "malloc (new + 1) = Some (?fill (nat (new + 1)))" using big by (simp add: malloc_def)
  have len: "length s + n + 8 < nat (new + 1)" using big by simp
  have s1: "mem_store (?fill (nat (new + 1))) (int i + int n) (map Some (drop i s)) =
      Inr (?fill (i + n) @ map Some (drop i s) @ ?tl)"
    using len i by (subst mem_store_Inr) (auto simp: min_def nat_int_add)
  have s2: "mem_store (?fill (i + n) @ map Some (drop i s) @ ?tl) (int i) (map Some xs) =
      Inr (?fill i @ map Some xs @ map Some (drop i s) @ ?tl)"
    using n len by (subst mem_store_Inr) auto
  have s3: "mem_store (?fill i @ map Some xs @ map Some (drop i s) @ ?tl) 0 (map Some (take i s)) =
      Inr (map Some ?r @ ?tl)"
    using i len by (subst mem_store_Inr) auto
  have "insert_new_block b (int i) d (int n) new = Inr ?c"
    using m old s1 sd s2 s3 by (cases "i = 0") (simp_all add: insert_new_block_def Let_def)
  moreover have "holds (?c\<lparr>m_iTail := m_iTail b + int n\<rparr>) ?r"
    using holds_tail [OF h] n i len by (intro holds_SomeI [where rest = ?tl]) auto
  ultimately show ?thesis by (intro exI [of _ ?c]) auto
qed

lemma insert_in_place_holds:
  assumes h: "holds b s" and i: "i \<le> length s" and n: "length xs = n"
    and sd: "mem_slice d 0 (int n) = Inr (map Some xs)"
    and room: "int n + int (length s) + 1 \<le> m_iBufferSize b"
  shows "\<exists>c. insert_in_place b (int i) d (int n) = Inr c \<and> m_iTail c = m_iTail b \<and>
           m_pBuffer c \<noteq> None \<and> holds (c\<lparr>m_iTail := m_iTail c + int n\<rparr>) (take i s @ xs @ drop i s)"
proof -
  have "0 < m_iBufferSize b" using room by simp
  then obtain blk where Some: "m_pBuffer b = Some blk" using holds_nonnull [OF h] by blast
  from h Some obtain r rest where blk: "blk = map Some s @ r # rest"
    and sz: "m_iBufferSize b \<le> int (length s + Suc (length rest))" by (rule holds_SomeE)
  let ?tl = "drop n (r # rest)" and ?r = "take i s @ xs @ drop i s"
  let ?c = "b\<lparr>m_pBuffer := Some (map Some ?r @ ?tl)\<rparr>"
  have le: "n \<le> length rest" using room sz by simp
  have s1: "mem_store blk (int i + int n) (map Some (drop i s)) =
      Inr (take (i + n) blk @ map Some (drop i s) @ ?tl)"
    using blk le i by (subst mem_store_Inr) (auto simp: nat_int_add)
  have s2: "mem_store (take (i + n) blk @ map Some (drop i s) @ ?tl) (int i) (map Some xs) =
      Inr (map Some ?r @ ?tl)"
    using n le blk i by (subst mem_store_Inr) (auto simp: take_map min_def)
  have "insert_in_place b (int i) d (int n) = Inr ?c"
    using Some old_pieces [OF h i] s1 sd s2
    by (simp add: insert_in_place_def mem_move_def block_of_def)
  moreover have "holds (?c\<lparr>m_iTail := m_iTail b + int n\<rparr>) ?r"
    using holds_tail [OF h] n i room sz le by (intro holds_SomeI [where rest = ?tl]) auto
  ultimately show ?thesis by (intro exI [of _ ?c]) auto
qed

text \<open>
  \<open>Insert\<close> of \<open>n\<close> bytes at a position inside the bytes in use: both branches give the same
  contents.
\<close>

lemma Insert_holds:
  assumes h: "holds b s" and i: "i \<le> length s"
    and src: "take n d = map Some xs" "length xs = n"
  shows "\<exists>b'. Buffer_Insert b (int i) d (int n) = Inr (b', BUFFER_NO_ERROR) \<and>
           holds b' (take i s @ xs @ drop i s) \<and> terminated b' \<and> m_pBuffer b' \<noteq> None"
proof -
  have ld: "n \<le> length d" using src by (metis length_map length_take min.cobounded1)
  have sd: "mem_slice d 0 (int n) = Inr (map Some xs)"
    using ld src by (subst mem_slice_Inr) auto
  let ?new = "int n + m_iTail b + 1"
  have t: "m_iTail b = int (length s)" by (rule holds_tail [OF h])
  have "?new + sizeof_long \<le> Buffer_AdjustSize b ?new" by (rule AdjustSize_grows) (simp add: t)
  then have "int n + int (length s) + 8 < Buffer_AdjustSize b ?new"
    using t by (simp add: sizeof_long_def)
  from insert_new_block_holds [OF h i src(2) sd this] insert_in_place_holds [OF h i src(2) sd]
  obtain c where body: "(if ?new > m_iBufferSize b
        then insert_new_block b (int i) d (int n) (Buffer_AdjustSize b ?new)
        else insert_in_place b (int i) d (int n)) = Inr c"
      and c: "m_pBuffer c \<noteq> None" "holds (c\<lparr>m_iTail := m_iTail c + int n\<rparr>) (take i s @ xs @ drop i s)"
    using t by (cases "?new > m_iBufferSize b") (auto simp: not_less)
  from MakeString_holds [OF c(2)] obtain b' where
    b': "Buffer_MakeString (c\<lparr>m_iTail := m_iTail c + int n\<rparr>) = Inr b'"
      "holds b' (take i s @ xs @ drop i s)" "terminated b'" "m_pBuffer b' \<noteq> None" using c(1) by auto
  have "Buffer_Insert b (int i) d (int n) = Inr (b', BUFFER_NO_ERROR)"
    unfolding Buffer_Insert_def using body b'(1) by (simp add: Let_def)
  with b' show ?thesis by blast
qed

lemma Prepend_holds:
  assumes "holds b s" "NUL \<notin> set xs"
  shows "\<exists>b'. Buffer_Prepend b (Some (cmem xs)) (-1) = Inr (b', BUFFER_NO_ERROR) \<and>
           holds b' (xs @ s) \<and> terminated b' \<and> m_pBuffer b' \<noteq> None"
  using Insert_holds [OF assms(1), of 0 "length xs" "cmem xs" xs]
  by (simp add: Buffer_Prepend_def arg_length_strlen cstr_id [OF assms(2)] take_cmem)

text \<open>
  \<open>Remove\<close> of a region inside the bytes in use closes the gap. A region that reaches past them but
  not past the allocated block passes the validation and becomes a copy of negative length.
\<close>

lemma Remove_holds:
  assumes h: "holds b s" and r: "0 < n" "i + n \<le> length s"
  shows "\<exists>b'. Buffer_Remove b (int i) (int n) = Inr (b', BUFFER_NO_ERROR) \<and>
           holds b' (take i s @ drop (i + n) s) \<and> m_pBuffer b' \<noteq> None"
proof -
  have t: "m_iTail b = int (length s)" by (rule holds_tail [OF h])
  have "s \<noteq> []" using r by auto
  then obtain blk where Some: "m_pBuffer b = Some blk" using holds_nonnull [OF h] by blast
  from h Some obtain q rest where blk: "blk = map Some s @ q # rest"
    and sz: "int (length s) < m_iBufferSize b" "m_iBufferSize b \<le> int (length s + Suc (length rest))"
    by (rule holds_SomeE)
  let ?t = "take i s @ drop (i + n) s"
  have ok: "\<not> int n > m_iBufferSize b" "\<not> int n + int i > m_iBufferSize b" using sz r by auto
  have sl: "mem_slice blk (int n + int i) (int (length s) - (int n + int i)) =
      Inr (map Some (drop (i + n) s))"
    using blk r by (auto simp: mem_slice_def nat_int_add drop_map add.commute nat_diff_distrib)
  have st: "mem_store blk (int i) (map Some (drop (i + n) s)) =
      Inr (map Some ?t @ drop (length s - n) blk)" if "i + n < length s"
    using blk r that by (subst mem_store_Inr) (auto simp: take_map nat_int_add)
  show ?thesis
  proof (cases "i + n = length s")
    case True
    have "holds (b\<lparr>m_iTail := m_iTail b - int n\<rparr>) ?t"
      using Some blk t sz r True
      by (intro holds_SomeI [where rest = "map Some (drop i s) @ q # rest"])
        (auto simp: drop_map take_map simp flip: map_append)
    then show ?thesis using ok r t True Some
      by (auto simp: Buffer_Remove_def Let_def add.commute)
  next
    case False
    then have lt: "i + n < length s" using r by simp
    have "holds (b\<lparr>m_pBuffer := Some (map Some ?t @ drop (length s - n) blk),
        m_iTail := m_iTail b - int n\<rparr>) ?t"
      using blk t sz r lt by (intro holds_SomeI) auto
    then show ?thesis using ok r t lt Some sl st [OF lt]
      by (auto simp: Buffer_Remove_def Let_def mem_move_def)
  qed
qed

lemma Remove_past_end_faults:
  assumes h: "holds b s" and s: "s \<noteq> []"
    and r: "0 < n" "length s < i + n" "int (i + n) \<le> m_iBufferSize b"
  shows "Buffer_Remove b (int i) (int n) = Inl OutOfBounds"
proof -
  obtain blk where "m_pBuffer b = Some blk" using holds_nonnull [OF h] s by blast
  then show ?thesis using r s holds_tail [OF h]
    by (auto simp: Buffer_Remove_def Let_def mem_move_def mem_slice_negative)
qed

subsection \<open>Search\<close>

text \<open>
  \<open>Find\<close> sees the contents as a C string from the offset on. An embedded NUL hides what follows.
\<close>

lemma Find_empty: "holds b [] \<Longrightarrow> Buffer_Find b p off = Inr (b, -1)"
  by (simp add: Buffer_Find_def holds_tail)

lemma Find_holds:
  assumes h: "holds b s" and s: "s \<noteq> []" and off: "off \<le> length s"
  shows "\<exists>b'. Buffer_Find b p (int off) =
             Inr (b', case find_sub (cstr p) (cstr (drop off s)) of
                        Some k \<Rightarrow> int (off + k) | None \<Rightarrow> -1) \<and>
           holds b' s \<and> terminated b' \<and> m_iBufferSize b' = m_iBufferSize b"
proof -
  have t: "m_iTail b \<noteq> 0" using holds_tail [OF h] s by simp
  from MakeString_holds [OF h] obtain c where c: "Buffer_MakeString b = Inr c" "holds c s"
      "terminated c" "m_iBufferSize c = m_iBufferSize b" by blast
  obtain blk where blk: "m_pBuffer c = Some blk" using holds_nonnull [OF c(2)] s by blast
  from terminated_cstr [OF c(2,3) blk] obtain rest where
    rest: "blk = map Some s @ Some NUL # rest" .
  have "read_cstr_at blk (int off) = Inr (cstr (drop off s))"
    using off by (simp add: read_cstr_at_def rest drop_map read_cstr_map_Some)
  then show ?thesis using t c blk by (auto simp: Buffer_Find_def split: option.split)
qed

lemma Find_holds_text:
  assumes "holds b s" "off \<le> length s" "NUL \<notin> set s" "NUL \<notin> set p" "p \<noteq> []"
  shows "\<exists>b'. Buffer_Find b p (int off) =
             Inr (b', case find_sub p (drop off s) of Some k \<Rightarrow> int (off + k) | None \<Rightarrow> -1) \<and>
           holds b' s \<and> m_iBufferSize b' = m_iBufferSize b"
proof (cases "s = []")
  case True
  then show ?thesis using assms Find_empty [of b p "int off"] by simp
next
  case False
  have "NUL \<notin> set (drop off s)" using assms(3) by (metis in_set_dropD)
  then show ?thesis
    using Find_holds [OF assms(1) False assms(2), of p] by (auto simp: cstr_id assms(4))
qed

subsection \<open>Binary search\<close>

lemma mem_read_nth: "n < length blk \<Longrightarrow> blk ! n = Some c \<Longrightarrow> mem_read blk (int n) = Inr c"
  by (simp add: mem_read_def)

text \<open>
  On a terminated block and for a pattern without NUL, the inner loop never leaves the contents:
  it stops at the NUL at the latest.
\<close>

lemma binary_match_text:
  "NUL \<notin> set p \<Longrightarrow> i \<le> length s \<Longrightarrow>
     binary_match (map Some s @ Some NUL # rest) (int i) p = Inr (starts_with p (drop i s))"
proof (induction p arbitrary: i)
  case Nil
  then show ?case by simp
next
  case (Cons c p)
  let ?blk = "map Some s @ Some NUL # rest"
  show ?case
  proof (cases "i = length s")
    case True
    then have "mem_read ?blk (int i) = Inr NUL"
      by (intro mem_read_nth) (auto simp: nth_append)
    then show ?thesis using True Cons.prems by auto
  next
    case False
    then have i: "i < length s" using Cons.prems by simp
    then have r: "mem_read ?blk (int i) = Inr (s ! i)"
      by (intro mem_read_nth) (auto simp: nth_append)
    have d: "drop i s = s ! i # drop (Suc i) s" using i by (simp add: Cons_nth_drop_Suc)
    show ?thesis using r d i Cons.IH [of "Suc i"] Cons.prems by (auto simp: add.commute)
  qed
qed

lemma binary_scan_text:
  assumes "NUL \<notin> set p" "p \<noteq> []" "i \<le> length s"
  shows "binary_scan (map Some s @ Some NUL # rest) 0 (int (length s)) (int i) p =
     Inr (case find_sub p (drop i s) of Some k \<Rightarrow> int (i + k) | None \<Rightarrow> -1)"
  using assms(3)
proof (induction "length s - i" arbitrary: i)
  case 0
  then have "i = length s" by simp
  then show ?case using assms(2) by (subst binary_scan.simps) simp
next
  case (Suc n)
  then have i: "i < length s" by simp
  have d: "drop i s = s ! i # drop (Suc i) s" using i by (simp add: Cons_nth_drop_Suc)
  have IH: "binary_scan (map Some s @ Some NUL # rest) 0 (int (length s)) (int i + 1) p =
     Inr (case find_sub p (drop (Suc i) s) of Some k \<Rightarrow> int (Suc i + k) | None \<Rightarrow> -1)"
    using Suc.hyps(1) [of "Suc i"] Suc.hyps(2) i by (simp add: add.commute)
  show ?case
  proof (cases "starts_with p (drop i s)")
    case True
    then show ?thesis using i binary_match_text [OF assms(1), of i s rest] d
      by (subst binary_scan.simps) (simp add: find_sub_prefix)
  next
    case False
    have "binary_scan (map Some s @ Some NUL # rest) 0 (int (length s)) (int i) p =
       binary_scan (map Some s @ Some NUL # rest) 0 (int (length s)) (int i + 1) p"
      using i binary_match_text [OF assms(1), of i s rest] False
      by (subst binary_scan.simps) simp
    then show ?thesis using False d IH
      by (cases "find_sub p (drop (Suc i) s)") auto
  qed
qed

lemma BinaryFind_holds:
  assumes "holds b s" "terminated b" "NUL \<notin> set p" "p \<noteq> []"
  shows "Buffer_BinaryFind b 0 p =
           Inr (case find_sub p s of Some k \<Rightarrow> int k | None \<Rightarrow> -1)"
proof (cases "s = []")
  case True
  then show ?thesis using assms holds_tail [OF assms(1)] by (simp add: Buffer_BinaryFind_def)
next
  case False
  obtain blk where blk: "m_pBuffer b = Some blk" using holds_nonnull [OF assms(1)] False by blast
  from terminated_cstr [OF assms(1,2) blk] obtain rest where
    "blk = map Some s @ Some NUL # rest" .
  then show ?thesis
    using False holds_tail [OF assms(1)] binary_scan_text [OF assms(3,4), of 0 s rest] blk
    by (cases "find_sub p s") (simp_all add: Buffer_BinaryFind_def)
qed

lemma binary_match_inside:
  "i + length p \<le> length s \<Longrightarrow> binary_match (map Some s @ rest) (int i) p = Inr (starts_with p (drop i s))"
proof (induction p arbitrary: i)
  case (Cons c p)
  then have i: "i < length s" by simp
  then have r: "mem_read (map Some s @ rest) (int i) = Inr (s ! i)"
    by (intro mem_read_nth) (auto simp: nth_append)
  have d: "drop i s = s ! i # drop (Suc i) s" using i by (simp add: Cons_nth_drop_Suc)
  show ?case using r d Cons.IH [of "Suc i"] Cons.prems by (auto simp: add.commute)
qed simp

text \<open>A pattern that is there is found without a look behind it, whether or not a NUL follows.\<close>

lemma BinaryFind_found:
  assumes "holds b s" "find_sub p s = Some k" "p \<noteq> []"
  shows "Buffer_BinaryFind b 0 p = Inr (int k)"
proof -
  note F = find_sub_SomeD [OF assms(2)]
  have ne: "s \<noteq> []" using F assms(3) by auto
  obtain blk where blk: "m_pBuffer b = Some blk" using holds_nonnull [OF assms(1)] ne by blast
  obtain r rest where c: "blk = map Some s @ r # rest" using assms(1) blk by (rule holds_SomeE)
  have "binary_scan blk 0 (int (length s)) (int i) p = Inr (int k)" if "i \<le> k" for i
    using that
  proof (induction "k - i" arbitrary: i)
    case 0
    then have "i = k" by simp
    then show ?case using F c assms(3) binary_match_inside [of k p s "r # rest"]
      by (subst binary_scan.simps) (cases p; simp)
  next
    case (Suc n)
    then have i: "i < k" by simp
    then have m: "binary_match blk (int i) p = Inr False"
      using F c binary_match_inside [of i p s "r # rest"] by simp
    have "binary_scan blk 0 (int (length s)) (int (Suc i)) p = Inr (int k)"
      using Suc.hyps(1) [of "Suc i"] Suc.hyps(2) i by simp
    then show ?case using m i F by (subst binary_scan.simps) (simp add: add.commute)
  qed
  from this [of 0] show ?thesis
    using ne holds_tail [OF assms(1)] blk by (simp add: Buffer_BinaryFind_def)
qed

subsection \<open>Replacement\<close>

text \<open>What \<open>ReplaceAll\<close> promises: every occurrence from left to right, not rescanning the new text.\<close>

function subst_all :: "string \<Rightarrow> string \<Rightarrow> string \<Rightarrow> string" where
  "subst_all p r s =
     (if p = [] then s
      else case find_sub p s of
             None \<Rightarrow> s
           | Some k \<Rightarrow> take k s @ r @ subst_all p r (drop (k + length p) s))"
  by pat_completeness auto
termination
proof (relation "measure (\<lambda>(p, r, s). length s)", simp)
  fix p r s :: string and k
  assume p: "p \<noteq> []" and "find_sub p s = Some k"
  then have "k + length p \<le> length s" using find_sub_SomeD by blast
  then show "((p, r, drop (k + length p) s), p, r, s) \<in> measure (\<lambda>(p, r, s). length s)"
    using p by (cases p) auto
qed

declare subst_all.simps [simp del]

lemma subst_all_None: "find_sub p s = None \<Longrightarrow> subst_all p r s = s"
  by (subst subst_all.simps) simp

lemma subst_all_Some:
  "p \<noteq> [] \<Longrightarrow> find_sub p s = Some k \<Longrightarrow>
     subst_all p r s = take k s @ r @ subst_all p r (drop (k + length p) s)"
  by (subst subst_all.simps) simp

text \<open>One round of the loop: the occurrence found is removed and the new text inserted.\<close>

lemma replace_step:
  assumes h: "holds b (s @ t)" and f: "find_sub p t = Some k"
    and p: "p \<noteq> []" "NUL \<notin> set p" and r: "NUL \<notin> set r"
  shows "\<exists>b1 b2. Buffer_Remove b (int (length s + k)) (int (length (cstr p))) = Inr (b1, BUFFER_NO_ERROR) \<and>
           Buffer_Insert b1 (int (length s + k)) (cmem r) (int (length (cstr r))) =
             Inr (b2, BUFFER_NO_ERROR) \<and>
           holds b2 ((s @ take k t @ r) @ drop (k + length p) t)"
proof -
  have k: "k + length p \<le> length t" using find_sub_SomeD [OF f] by simp
  from Remove_holds [OF h, of "length p" "length s + k"] k p obtain b1 where
    b1: "Buffer_Remove b (int (length s + k)) (int (length p)) = Inr (b1, BUFFER_NO_ERROR)"
      "holds b1 (take (length s + k) (s @ t) @ drop (length s + k + length p) (s @ t))"
    by auto
  have "holds b1 ((s @ take k t) @ drop (k + length p) t)"
    using b1(2) by (simp add: add.assoc)
  moreover have "length s + k \<le> length ((s @ take k t) @ drop (k + length p) t)" using k by simp
  moreover have "take (length r) (cmem r) = map Some r" by (simp add: take_cmem)
  ultimately obtain b2 where
    b2: "Buffer_Insert b1 (int (length s + k)) (cmem r) (int (length r)) = Inr (b2, BUFFER_NO_ERROR)"
      "holds b2 (take (length s + k) ((s @ take k t) @ drop (k + length p) t) @ r @
         drop (length s + k) ((s @ take k t) @ drop (k + length p) t))"
    using Insert_holds by blast
  have "length s + k = length (s @ take k t)" using k by simp
  then have "holds b2 ((s @ take k t @ r) @ drop (k + length p) t)"
    using b2(2) by (metis append_assoc append_eq_conv_conj)
  with b1(1) b2(1) show ?thesis by (simp add: cstr_id p r)
qed

lemma replace_all_loop_holds:
  assumes p: "p \<noteq> []" "NUL \<notin> set p" and r: "NUL \<notin> set r"
  shows "holds b (s @ t) \<Longrightarrow> NUL \<notin> set (s @ t) \<Longrightarrow>
    \<exists>b'. replace_all_loop b (int (length s)) p r = Some (Inr b') \<and> holds b' (s @ subst_all p r t)"
proof (induction "length t" arbitrary: b s t rule: less_induct)
  case less
  from Find_holds_text [OF less.prems(1) _ less.prems(2) p(2,1), of "length s"] obtain c where
    c: "Buffer_Find b p (int (length s)) =
          Inr (c, case find_sub p t of Some k \<Rightarrow> int (length s + k) | None \<Rightarrow> -1)"
      "holds c (s @ t)" by auto
  show ?case
  proof (cases "find_sub p t")
    case None
    then show ?thesis using c
      by (subst replace_all_loop.simps) (simp add: subst_all_None)
  next
    case (Some k)
    from replace_step [OF c(2) Some p r] obtain b1 b2 where
      st: "Buffer_Remove c (int (length s + k)) (int (length (cstr p))) = Inr (b1, BUFFER_NO_ERROR)"
        "Buffer_Insert b1 (int (length s + k)) (cmem r) (int (length (cstr r))) =
           Inr (b2, BUFFER_NO_ERROR)"
        "holds b2 ((s @ take k t @ r) @ drop (k + length p) t)" by blast
    have k: "k + length p \<le> length t" using find_sub_SomeD [OF Some] by simp
    have sub: "set (take k t) \<subseteq> set t" "set (drop (k + length p) t) \<subseteq> set t"
      by (simp_all add: set_take_subset set_drop_subset)
    have nul: "NUL \<notin> set ((s @ take k t @ r) @ drop (k + length p) t)"
      using less.prems(2) r sub by auto
    have lt: "length (drop (k + length p) t) < length t" using p(1) k by (cases p) auto
    from less.hyps [OF lt st(3) nul] obtain b' where
      b': "replace_all_loop b2 (int (length (s @ take k t @ r))) p r = Some (Inr b')"
        "holds b' ((s @ take k t @ r) @ subst_all p r (drop (k + length p) t))" by blast
    have "replace_all_loop b (int (length s)) p r =
        replace_all_loop b2 (int (length s + k) + int (length (cstr r))) p r"
      using c(1) Some st(1,2) by (subst replace_all_loop.simps) simp
    moreover have "int (length s + k) + int (length (cstr r)) = int (length (s @ take k t @ r))"
      using k by (simp add: cstr_id r)
    ultimately have "replace_all_loop b (int (length s)) p r = Some (Inr b')"
      using b'(1) by metis
    moreover have "holds b' (s @ subst_all p r t)"
      using b'(2) subst_all_Some [OF p(1) Some, of r] by simp
    ultimately show ?thesis by blast
  qed
qed

lemma ReplaceAll_holds:
  assumes "holds b s" "NUL \<notin> set s" "p \<noteq> []" "NUL \<notin> set p" "NUL \<notin> set r"
  shows "\<exists>b'. Buffer_ReplaceAll b p r = Some (Inr b') \<and> holds b' (subst_all p r s)"
  using replace_all_loop_holds [OF assms(3-5), of b "[]" s] assms(1,2)
  by (simp add: Buffer_ReplaceAll_def)

lemma Replace_holds:
  assumes h: "holds b s" "NUL \<notin> set s" and p: "p \<noteq> []" "NUL \<notin> set p" and r: "NUL \<notin> set r"
  shows "case find_sub p s of
           None \<Rightarrow> \<exists>b'. Buffer_Replace b p r = Inr (b', BUFFER_REPLACE_FAILED) \<and> holds b' s
         | Some k \<Rightarrow> \<exists>b'. Buffer_Replace b p r = Inr (b', BUFFER_NO_ERROR) \<and>
                       holds b' (take k s @ r @ drop (k + length p) s)"
proof -
  from Find_holds_text [OF h(1) _ h(2) p(2,1), of 0] obtain c where
    c: "Buffer_Find b p 0 = Inr (c, case find_sub p s of Some k \<Rightarrow> int k | None \<Rightarrow> -1)" "holds c s"
    by (cases "find_sub p s") auto
  show ?thesis
  proof (cases "find_sub p s")
    case None
    then show ?thesis using c by (simp add: Buffer_Replace_def)
  next
    case (Some k)
    have "holds c ([] @ s)" using c(2) by simp
    from replace_step [OF this Some p r] show ?thesis using c(1) Some
      by (auto simp: Buffer_Replace_def)
  qed
qed

text \<open>An empty pattern is found at every position, so the loop does not return.\<close>

lemma replace_all_loop_empty:
  "replace_all_loop b i p r = Some y \<Longrightarrow>
     \<not> (p = [] \<and> NUL \<notin> set r \<and> 0 \<le> i \<and> (\<exists>s. holds b s \<and> s \<noteq> [] \<and> i \<le> int (length s)))"
proof (induction rule: replace_all_loop.raw_induct [rotated, consumes 1, case_names step])
  case (step loop b i p r y)
  show ?case
  proof (intro notI, elim conjE exE)
    fix s assume a: "p = []" "NUL \<notin> set r" "0 \<le> i" "holds b s" "s \<noteq> []" "i \<le> int (length s)"
    define n where "n = nat i"
    have i: "i = int n" "n \<le> length s" using a by (simp_all add: n_def)
    have "find_sub (cstr []) (cstr (drop n s)) = Some 0" by (simp add: find_sub_prefix)
    with Find_holds [OF a(4,5) i(2), of "[]"] i(1) obtain c where
      c: "Buffer_Find b p i = Inr (c, i)" "holds c s" using a(1) by auto
    have t: "m_iTail c \<noteq> 0" using holds_tail [OF c(2)] a(5) by simp
    have "\<not> 0 > m_iBufferSize c"
      using c(2) by (cases "m_pBuffer c") (auto simp: holds_None elim: holds_SomeE)
    then have rm: "Buffer_Remove c i (int (length (cstr p))) = Inr (c, BUFFER_REGION_OUTOFBOUNDS)"
      using t a(1) by (simp add: Buffer_Remove_def)
    have "take (length r) (cmem r) = map Some r" by (simp add: take_cmem)
    from Insert_holds [OF c(2) i(2) this] obtain d where
      d: "Buffer_Insert c i (cmem r) (int (length (cstr r))) = Inr (d, BUFFER_NO_ERROR)"
        "holds d (take n s @ r @ drop n s)"
      using i a(2) by (auto simp: cstr_id)
    have "loop d (i + int (length (cstr r))) p r = Some y"
      using "step.hyps" c(1) rm d(1) i a(3) by simp
    from "step.IH" [OF this] have "\<not> (holds d (take n s @ r @ drop n s) \<and> take n s @ r @ drop n s \<noteq> [] \<and>
        i + int (length (cstr r)) \<le> int (length (take n s @ r @ drop n s)))"
      using a(1-3) by fastforce
    then show False using d(2) a(5) i a(2) by (auto simp: cstr_id)
  qed
qed

lemma ReplaceAll_empty_pattern:
  assumes "holds b s" "s \<noteq> []" "NUL \<notin> set r"
  shows "Buffer_ReplaceAll b [] r = None"
  using replace_all_loop_empty [of b 0 "[]" r] assms
  by (cases "Buffer_ReplaceAll b [] r") (auto simp: Buffer_ReplaceAll_def)

subsection \<open>Hashing\<close>

lemma hash_loop_text:
  "hash_loop h (map Some s) = Inr (foldl (\<lambda>h c. 33 * h + of_int (schar c)) h s)"
proof (induction s arbitrary: h)
  case Nil
  then show ?case by simp
next
  case (Cons c s)
  have "push_bit 5 h + h = 33 * h" by (simp add: push_bit_eq_mult)
  then show ?case using Cons by simp
qed

lemma contents_slice:
  assumes "holds b s"
  shows "mem_slice (block_of (m_pBuffer b)) 0 (m_iTail b) = Inr (map Some s)"
  using old_pieces(1) [OF assms, of 0] by simp

lemma HashKey_holds:
  assumes "holds b s"
  shows "Buffer_HashKey b = Inr (foldl (\<lambda>h c. 33 * h + of_int (schar c)) 0 s)"
  by (simp add: Buffer_HashKey_def contents_slice [OF assms] hash_loop_text)

subsection \<open>Obfuscation\<close>

definition crypt_at :: "string \<Rightarrow> nat \<Rightarrow> char \<Rightarrow> char" where
  "crypt_at key i c =
     char_of_byte (byte_of c XOR byte_of (key ! (i mod length key)) XOR word_of_int (int i))"

definition crypt :: "string \<Rightarrow> string \<Rightarrow> string" where
  "crypt key s = map (\<lambda>i. crypt_at key i (s ! i)) [0..<length s]"

lemma xor_twice: "(a XOR k XOR w) XOR k XOR w = (a :: 'a :: len word)"
  by (metis (no_types) xor.assoc xor.commute xor.right_neutral xor_self_eq)

lemma crypt_at_twice: "crypt_at key i (crypt_at key i c) = c"
  by (simp add: crypt_at_def xor_twice)

lemma crypt_twice: "crypt key (crypt key s) = s"
  by (rule nth_equalityI) (simp_all add: crypt_def crypt_at_twice)

lemma cmem_nth: "i < length s \<Longrightarrow> cmem s ! i = Some (s ! i)"
  by (simp add: cmem_def nth_append)

lemma cmem_end: "cmem s ! length s = Some NUL"
  by (simp add: cmem_def nth_append)

text \<open>The key pointer after the wrap at the key's NUL.\<close>

lemma key_position:
  assumes "0 < (n :: nat)" "j \<le> n" "j mod n = i mod n"
  shows "(if j = n then 0 else j) = i mod n"
proof (cases "j = n")
  case True
  then show ?thesis using assms(3) by simp
next
  case False
  then have "j mod n = j" using assms(2) by simp
  then show ?thesis using False assms(3) by simp
qed

lemma key_read:
  assumes key: "key \<noteq> []" "NUL \<notin> set key" and j: "j \<le> length key"
  shows "\<exists>k. mem_read (cmem key) (int j) = Inr k \<and> (k = NUL \<longleftrightarrow> j = length key)"
proof (cases "j = length key")
  case True
  then show ?thesis by (auto simp: mem_read_nth cmem_end)
next
  case False
  then have "j < length key" using j by simp
  moreover from this have "key ! j \<noteq> NUL" using key(2) by (metis nth_mem)
  ultimately show ?thesis by (auto simp: mem_read_nth cmem_nth)
qed

lemma crypto_loop_text:
  assumes key: "key \<noteq> []" "NUL \<notin> set key"
  shows "length s = n \<Longrightarrow> i \<le> n \<Longrightarrow> j \<le> length key \<Longrightarrow> j mod length key = i mod length key \<Longrightarrow>
     crypto_loop (map Some (take i (crypt key s) @ drop i s) @ rest) (cmem key) (int i) (int n) (int j) =
       Inr (map Some (crypt key s) @ rest)"
proof (induction "n - i" arbitrary: i j)
  case 0
  then have "i = n" by simp
  then show ?case using "0.prems"(1) by (subst crypto_loop.simps) (simp add: crypt_def)
next
  case (Suc d)
  then have i: "i < n" by simp
  let ?blk = "map Some (take i (crypt key s) @ drop i s) @ rest" and ?m = "i mod length key"
  have len: "length (crypt key s) = n" using Suc.prems(1) by (simp add: crypt_def)
  have m: "(if j = length key then 0 else j) = ?m" "?m < length key"
    using key(1) Suc.prems by (auto intro: key_position)
  obtain k where k: "mem_read (cmem key) (int j) = Inr k" "k = NUL \<longleftrightarrow> j = length key"
    using key_read [OF key Suc.prems(3)] by auto
  have j': "(if k = NUL then 0 else int j) = int ?m" using k(2) m(1) by (auto split: if_splits)
  have km: "mem_read (cmem key) (int ?m) = Inr (key ! ?m)"
    using m(2) by (auto simp: mem_read_nth cmem_nth)
  have cell: "?blk ! i = Some (s ! i)" "i < length ?blk"
    using i len Suc.prems(1) by (auto simp: nth_append)
  then have rd: "mem_read ?blk (int i) = Inr (s ! i)" by (intro mem_read_nth) auto
  have cr: "char_of_byte (byte_of (s ! i) XOR byte_of (key ! ?m) XOR word_of_int (int i)) =
      crypt key s ! i" using i Suc.prems(1) by (simp add: crypt_def crypt_at_def)
  have "drop i s = s ! i # drop (Suc i) s" using i Suc.prems(1) by (simp add: Cons_nth_drop_Suc)
  then have wr: "mem_write ?blk (int i) (crypt key s ! i) =
      Inr (map Some (take (Suc i) (crypt key s) @ drop (Suc i) s) @ rest)"
    using cell(2) i len
    by (auto simp: mem_write_def list_update_append take_Suc_conv_app_nth)
  have next_j: "Suc ?m \<le> length key" "Suc ?m mod length key = Suc i mod length key"
    using m(2) by (auto simp: mod_Suc_eq)
  have IH: "crypto_loop (map Some (take (Suc i) (crypt key s) @ drop (Suc i) s) @ rest) (cmem key)
      (int i + 1) (int n) (int ?m + 1) = Inr (map Some (crypt key s) @ rest)"
    using Suc.hyps(1) [of "Suc i" "Suc ?m"] Suc.hyps(2) Suc.prems(1) i next_j
    by (simp add: add.commute)
  show ?case using i k(1) j' km rd cr wr IH
    by (subst crypto_loop.simps) (simp add: Let_def del: map_append)
qed

lemma Crypto_holds:
  assumes h: "holds b s" and key: "key \<noteq> []" "NUL \<notin> set key"
  shows "\<exists>b'. Buffer_Crypto b key = Inr b' \<and> holds b' (crypt key s)"
proof (cases "m_pBuffer b")
  case None
  then show ?thesis using h
    by (auto simp: holds_None Buffer_Crypto_def block_of_def crypt_def crypto_loop.simps)
next
  case (Some blk)
  from h Some obtain r rest where blk: "blk = map Some s @ r # rest"
    and t: "m_iTail b = int (length s)" "int (length s) < m_iBufferSize b"
      "m_iBufferSize b \<le> int (length s + Suc (length rest))" by (rule holds_SomeE)
  have "crypto_loop blk (cmem key) 0 (int (length s)) 0 = Inr (map Some (crypt key s) @ r # rest)"
    using crypto_loop_text [OF key, of s "length s" 0 0 "r # rest"] blk by simp
  then show ?thesis using Some t
    by (auto simp: Buffer_Crypto_def block_of_def crypt_def intro!: holds_SomeI)
qed

text \<open>An empty key is read past its end at the second byte.\<close>

lemma crypto_empty_key:
  assumes "holds b s" "2 \<le> length s"
  shows "Buffer_Crypto b [] = Inl OutOfBounds"
proof -
  have "s \<noteq> []" using assms(2) by auto
  then obtain blk where blk: "m_pBuffer b = Some blk" using holds_nonnull [OF assms(1)] by blast
  from assms(1) blk obtain r rest where r: "blk = map Some s @ r # rest" by (rule holds_SomeE)
  obtain c d t where s: "s = c # d # t" using assms(2)
    by (metis Suc_le_length_iff numeral_2_eq_2)
  show ?thesis using blk r s holds_tail [OF assms(1)]
    by (simp add: Buffer_Crypto_def block_of_def crypto_loop.simps [of _ _ 0]
        crypto_loop.simps [of _ _ 1] cmem_def mem_read_def mem_write_def Let_def)
qed

subsection \<open>Case\<close>

lemma map_cells_text: "map_cells f (length s) (map Some s @ rest) = Inr (map Some (map f s) @ rest)"
  by (induction s) auto

lemma map_cells_holds:
  assumes h: "holds b s"
  shows "\<exists>b'. rbind (map_cells f (nat (m_iTail b)) (block_of (m_pBuffer b))) (\<lambda>blk.
       Inr (if m_pBuffer b = None then b else b\<lparr>m_pBuffer := Some blk\<rparr>)) = Inr b' \<and>
     holds b' (map f s)"
proof (cases "m_pBuffer b")
  case None
  then show ?thesis using h by (auto simp: holds_None block_of_def)
next
  case (Some blk)
  from h Some obtain r rest where blk: "blk = map Some s @ r # rest"
    and t: "m_iTail b = int (length s)" "int (length s) < m_iBufferSize b"
      "m_iBufferSize b \<le> int (length s + Suc (length rest))" by (rule holds_SomeE)
  then show ?thesis using Some map_cells_text [of f s "r # rest"]
    by (auto simp: block_of_def intro!: holds_SomeI)
qed

lemma ToUpper_holds: "holds b s \<Longrightarrow> \<exists>b'. Buffer_ToUpper b = Inr b' \<and> holds b' (map toupper_char s)"
  unfolding Buffer_ToUpper_def by (rule map_cells_holds)

lemma ToLower_holds: "holds b s \<Longrightarrow> \<exists>b'. Buffer_ToLower b = Inr b' \<and> holds b' (map tolower_char s)"
  unfolding Buffer_ToLower_def by (rule map_cells_holds)

subsection \<open>Sprintf\<close>

text \<open>
  \<open>Sprintf\<close> is right exactly when the text fits; when it does not fit the allocated block it
  writes past the end.
\<close>

lemma GetBuffer_holds:
  assumes h: "holds b s" and nn: "m_pBuffer b \<noteq> None"
  shows "\<exists>b' rest. Buffer_GetBuffer b = Inr (b', Some (map Some s @ Some NUL # rest)) \<and>
     m_pBuffer b' = Some (map Some s @ Some NUL # rest) \<and> holds b' s \<and>
     m_iBufferSize b' = m_iBufferSize b"
proof -
  from nn obtain blk where Some: "m_pBuffer b = Some blk" by auto
  from h Some obtain r rest where blk: "blk = map Some s @ r # rest"
    and t: "m_iTail b = int (length s)" "int (length s) < m_iBufferSize b"
      "m_iBufferSize b \<le> int (length s + Suc (length rest))" by (rule holds_SomeE)
  have "mem_write blk (m_iTail b) NUL = Inr (map Some s @ Some NUL # rest)"
    using blk t by (subst mem_write_Inr) (auto simp: list_update_append)
  then show ?thesis using Some t
    by (auto simp: Buffer_GetBuffer_def intro!: holds_SomeI exI [of _ rest])
qed

lemma Sprintf_holds:
  assumes h: "holds b s" and n: "int (length out) \<le> n" and o: "NUL \<notin> set out"
  shows "\<exists>b'. Buffer_Sprintf b n out = Inr (b', int (length out)) \<and> holds b' out"
proof -
  from n have "0 \<le> n" by simp
  from SetBufferSize_holds [OF h this] obtain c where
    c: "Buffer_SetBufferSize b n = Inr c" "holds c s" "m_pBuffer c \<noteq> None" "n < m_iBufferSize c"
    by auto
  from GetBuffer_holds [OF c(2,3)] obtain d rest where
    d: "Buffer_GetBuffer c = Inr (d, Some (map Some s @ Some NUL # rest))"
      "m_pBuffer d = Some (map Some s @ Some NUL # rest)" "holds d s"
      "m_iBufferSize d = m_iBufferSize c" by blast
  let ?old = "map Some s @ Some NUL # rest"
  let ?rest = "drop (Suc (length out)) ?old"
  let ?new = "map Some out @ Some NUL # ?rest"
  obtain blk where "m_iBufferSize d \<le> int (length ?old)"
    using d(2,3) by (auto elim!: holds_SomeE)
  then have room: "length out < length ?old" "n < m_iBufferSize d" "m_iBufferSize d \<le> int (length ?old)"
    using c(4) d(4) n by auto
  have st: "mem_store ?old 0 (cmem out) = Inr ?new"
    using room(1) by (subst mem_store_Inr) (auto simp: cmem_def)
  have wr: "mem_write ?new (int (length out)) NUL = Inr ?new"
    using room(1) by (subst mem_write_Inr) (auto simp: list_update_append)
  let ?d = "d\<lparr>m_pBuffer := Some ?new, m_iTail := int (length out)\<rparr>"
  have rel: "Buffer_ReleaseBuffer (d\<lparr>m_pBuffer := Some ?new\<rparr>) = Inr ?d"
    by (simp add: Buffer_ReleaseBuffer_def read_cstr_append [OF o])
  have "holds ?d out" using room n
    by (intro holds_SomeI [where rest = "Some NUL # ?rest"]) auto
  from MakeString_holds [OF this] obtain e where
    e: "Buffer_MakeString ?d = Inr e" "holds e out" by auto
  have "Buffer_Sprintf b n out = Inr (e, Buffer_StringLen e)"
    using c(1) d(1) st wr rel e(1) by (simp add: Buffer_Sprintf_def)
  then show ?thesis using e(2) holds_tail [OF e(2)] by (auto simp: Buffer_StringLen_def)
qed

lemma Sprintf_overflow:
  "Buffer_Sprintf new_cBuffer n out = Inl OutOfBounds"
  if "0 \<le> n" "Buffer_AdjustSize new_cBuffer n \<le> int (length out)"
proof -
  have "n + sizeof_long \<le> Buffer_AdjustSize new_cBuffer n" by (rule AdjustSize_grows [OF that(1)])
  then have m: "malloc (Buffer_AdjustSize new_cBuffer n) =
      Some (replicate (nat (Buffer_AdjustSize new_cBuffer n)) None)"
      "0 < Buffer_AdjustSize new_cBuffer n"
    using that(1) by (auto simp: malloc_def sizeof_long_def)
  then show ?thesis using that(2)
    by (simp add: Buffer_Sprintf_def Buffer_SetBufferSize_def new_cBuffer_def Let_def
        Buffer_GetBuffer_def mem_write_def mem_store_def cmem_def)
qed

subsection \<open>Characters\<close>

lemma find_char_loop_text:
  "length s = n \<Longrightarrow> i \<le> n \<Longrightarrow>
     find_char_loop (map Some s @ rest) c (int i) (int n) =
       Inr (case find_char c (drop i s) of Some k \<Rightarrow> int (i + k) | None \<Rightarrow> -1)"
proof (induction "n - i" arbitrary: i)
  case 0
  then show ?case by (subst find_char_loop.simps) (simp add: find_char_def)
next
  case (Suc d)
  then have i: "i < n" by simp
  have rd: "mem_read (map Some s @ rest) (int i) = Inr (s ! i)"
    using i Suc.prems(1) by (intro mem_read_nth) (auto simp: nth_append)
  have d: "drop i s = s ! i # drop (Suc i) s" using i Suc.prems(1) by (simp add: Cons_nth_drop_Suc)
  have IH: "find_char_loop (map Some s @ rest) c (int i + 1) (int n) =
      Inr (case find_char c (drop (Suc i) s) of Some k \<Rightarrow> int (Suc i + k) | None \<Rightarrow> -1)"
    using Suc.hyps(1) [of "Suc i"] Suc.hyps(2) Suc.prems(1) i by (simp add: add.commute)
  show ?case using i rd IH
    by (subst find_char_loop.simps) (auto simp: d find_char_def split: option.splits)
qed

lemma FindChar_holds:
  assumes h: "holds b s" and i: "i \<le> length s"
  shows "Buffer_FindChar b c (int i) =
     Inr (case find_char c (drop i s) of Some k \<Rightarrow> int (i + k) | None \<Rightarrow> -1)"
proof (cases "m_pBuffer b")
  case None
  then show ?thesis using h i
    by (auto simp: holds_None Buffer_FindChar_def find_char_loop.simps find_char_def)
next
  case (Some blk)
  from h Some obtain r rest where "blk = map Some s @ r # rest" by (rule holds_SomeE)
  then show ?thesis using Some holds_tail [OF h] find_char_loop_text [OF refl i, of "r # rest" c]
    by (simp add: Buffer_FindChar_def block_of_def)
qed

section \<open>The interface that the clients rely on\<close>

text \<open>
  Most clients only collect text: they start from an empty buffer and append pieces. The locale
  states what that needs, and what it gives.
\<close>

locale text_sink =
  fixes rep :: "'b \<Rightarrow> string \<Rightarrow> bool"
    and start :: 'b
    and put :: "'b \<Rightarrow> string \<Rightarrow> 'b result"
  assumes rep_start: "rep start []"
    and rep_put: "rep b s \<Longrightarrow> NUL \<notin> set xs \<Longrightarrow> \<exists>b'. put b xs = Inr b' \<and> rep b' (s @ xs)"
begin

primrec put_all :: "'b \<Rightarrow> string list \<Rightarrow> 'b result" where
  "put_all b [] = Inr b"
| "put_all b (x # xs) = rbind (put b x) (\<lambda>b. put_all b xs)"

lemma put_all_rep:
  "rep b s \<Longrightarrow> (\<forall>x \<in> set xs. NUL \<notin> set x) \<Longrightarrow> \<exists>b'. put_all b xs = Inr b' \<and> rep b' (s @ concat xs)"
proof (induction xs arbitrary: b s)
  case Nil
  then show ?case by simp
next
  case (Cons x xs)
  from rep_put [OF Cons.prems(1), of x] Cons.prems(2) obtain c where
    c: "put b x = Inr c" "rep c (s @ x)" by auto
  from Cons.IH [OF c(2)] Cons.prems(2) c(1) show ?case by simp
qed

lemma put_all_start:
  "(\<forall>x \<in> set xs. NUL \<notin> set x) \<Longrightarrow> \<exists>b'. put_all start xs = Inr b' \<and> rep b' (concat xs)"
  using put_all_rep [OF rep_start] by simp

end

text \<open>\<open>b += text\<close>: \<open>Append\<close> of a C string with its default length.\<close>

definition Buffer_AppendText :: "cBuffer \<Rightarrow> string \<Rightarrow> cBuffer result" where
  "Buffer_AppendText b s = rbind (Buffer_Append b (Some (cmem s)) (-1)) (\<lambda>(b, _). Inr b)"

text \<open>
  An empty text has length 0 only after the guard of \<open>Append\<close>, so the buffer is still grown and
  terminated.
\<close>

lemma Append_default_empty:
  assumes h: "holds b s"
  shows "\<exists>b'. Buffer_Append b (Some (cmem [])) (-1) = Inr (b', BUFFER_NO_ERROR) \<and> holds b' s"
proof -
  have a: "arg_length (cmem []) (-1) = Inr 0" using arg_length_strlen [of "[]"] by simp
  have "\<exists>c. (if 0 \<ge> m_iBufferSize b - m_iTail b
       then Buffer_SetBufferSize b (0 - (m_iBufferSize b - m_iTail b) + m_iBufferSize b)
       else Inr b) = Inr c \<and> holds c s"
    using SetBufferSize_holds [OF h, of "m_iTail b"] holds_tail [OF h] h by auto
  then obtain c where c: "(if 0 \<ge> m_iBufferSize b - m_iTail b
       then Buffer_SetBufferSize b (0 - (m_iBufferSize b - m_iTail b) + m_iBufferSize b)
       else Inr b) = Inr c" "holds c s" by blast
  have same: "(if m_pBuffer c = None then c else c\<lparr>m_pBuffer := Some (block_of (m_pBuffer c))\<rparr>)
      \<lparr>m_iTail := m_iTail c + 0\<rparr> = c"
    by (cases "m_pBuffer c") (simp_all add: block_of_def)
  from MakeString_holds [OF c(2)] obtain d where d: "Buffer_MakeString c = Inr d" "holds d s" by auto
  have "Buffer_Append b (Some (cmem [])) (-1) = Inr (d, BUFFER_NO_ERROR)"
    using a c(1) d(1) same
    by (simp add: Buffer_Append_def mem_slice_def mem_store_def del: add_0_right)
  then show ?thesis using d(2) by blast
qed

lemma AppendText_holds:
  assumes "holds b s" "NUL \<notin> set xs"
  shows "\<exists>b'. Buffer_AppendText b xs = Inr b' \<and> holds b' (s @ xs)"
proof (cases "xs = []")
  case True
  then show ?thesis using Append_default_empty [OF assms(1)] by (auto simp: Buffer_AppendText_def)
next
  case False
  have "Buffer_Append b (Some (cmem xs)) (-1) = Buffer_Append b (Some (cmem xs)) (int (length xs))"
    using False by (simp add: Buffer_Append_def arg_length_strlen cstr_id [OF assms(2)])
  then show ?thesis using Append_string [OF assms(1) False]
    by (auto simp: Buffer_AppendText_def)
qed

interpretation sink: text_sink holds new_cBuffer Buffer_AppendText
  by unfold_locales (simp_all add: holds_new AppendText_holds)

end
