(* ===== verification/HeaderExtract.thy ===== *)
theory HeaderExtract
  imports StdMap BufferLaws
begin

text \<open>
  \<open>headerextract.h\<close> and \<open>headerextract.cpp\<close>: the class \<open>cHeaderExtract\<close>, which
  takes the header of a message apart into name/value pairs.
\<close>

record cHeaderExtract =
  m_Params :: "(string, string) smap"
  m_sHeader :: string

definition new_cHeaderExtract :: cHeaderExtract where
  "new_cHeaderExtract = \<lparr>m_Params = [], m_sHeader = []\<rparr>"

section \<open>Operations\<close>

text \<open>\<open>line.erase(split, 2)\<close> for a colon and a blank, \<open>line.erase(split, 1)\<close> for a colon alone.\<close>

definition header_split :: "string \<Rightarrow> nat \<Rightarrow> string \<times> string" where
  "header_split line split =
     (let rest = drop (split + 1) line;
          line = (if rest \<noteq> [] \<and> hd rest = SP then take split line @ drop (split + 2) line
                  else take split line @ drop (split + 1) line)
      in (take split line, drop split line))"

lemma find_from_range: "find_from [c] s off = Some i \<Longrightarrow> off \<le> i \<and> i < length s"
  by (auto simp: find_from_def find_sub_Some_iff split: if_splits)

function header_loop ::
  "(string, string) smap \<Rightarrow> string \<Rightarrow> nat \<Rightarrow> (string, string) smap" where
  "header_loop m hdr offset =
     (case find_from [CR] hdr offset of
        None \<Rightarrow> m
      | Some idx \<Rightarrow>
          let line = take (idx - offset) (drop offset hdr)
          in (case find_char (CHR '':'') line of
                None \<Rightarrow> header_loop m hdr (idx + 2)
              | Some split \<Rightarrow>
                  let (name, value) = header_split line split
                  in header_loop (smap_put name value m) hdr (idx + 2)))"
  by pat_completeness auto
termination
  by (relation "measure (\<lambda>(m, hdr, offset). length hdr - offset)")
    (auto dest!: find_from_range)

declare header_loop.simps [simp del]

definition HeaderExtract_Parse ::
  "cHeaderExtract \<Rightarrow> cBuffer \<Rightarrow> (cHeaderExtract \<times> cBuffer) result" where
  "HeaderExtract_Parse h pBuf =
     (let h = h\<lparr>m_Params := []\<rparr>
      in rbind (Buffer_Find pBuf (CRLF @ CRLF) 4) (\<lambda>(pBuf, len).
         if len = -1 then Inr (h, pBuf)
         else
           rbind (mem_slice (block_of (Buffer_GetRawBuffer pBuf)) 0 len) (\<lambda>cells.
           rbind (mem_text cells) (\<lambda>text.
             let hdr = text @ CRLF @ ''end'' @ CRLF
             in Inr (h\<lparr>m_sHeader := hdr, m_Params := header_loop [] hdr 0\<rparr>, pBuf)))))"

definition HeaderExtract_GetValue :: "cHeaderExtract \<Rightarrow> string \<Rightarrow> string" where
  "HeaderExtract_GetValue h pName =
     (case smap_find (m_Params h) (cstr pName) of Some v \<Rightarrow> v | None \<Rightarrow> [])"

definition HeaderExtract_GetValue_cstr :: "cHeaderExtract \<Rightarrow> string \<Rightarrow> string" where
  "HeaderExtract_GetValue_cstr h pName =
     (case smap_find (m_Params h) (cstr pName) of Some v \<Rightarrow> cstr v | None \<Rightarrow> [])"

definition HeaderExtract_GetRawHeader :: "cHeaderExtract \<Rightarrow> string" where
  "HeaderExtract_GetRawHeader h = cstr (m_sHeader h)"

section \<open>What a header means\<close>

definition header_line :: "string \<Rightarrow> (string, string) smap \<Rightarrow> (string, string) smap" where
  "header_line line m =
     (case find_char (CHR '':'') line of
        None \<Rightarrow> m
      | Some split \<Rightarrow> (let (name, value) = header_split line split in smap_put name value m))"

definition join_lines :: "string list \<Rightarrow> string" where
  "join_lines ls = concat (map (\<lambda>l. l @ CRLF) ls)"

lemma join_lines_simps [simp]:
  "join_lines [] = []" "join_lines (l # ls) = l @ CR # LF # join_lines ls"
  by (simp_all add: join_lines_def)

lemma join_lines_append: "join_lines (ls @ ls') = join_lines ls @ join_lines ls'"
  by (simp add: join_lines_def)

text \<open>The loop reads the lines one after the other.\<close>

lemma header_loop_lines:
  "\<forall>l \<in> set ls. CR \<notin> set l \<Longrightarrow>
     header_loop m (pre @ join_lines ls) (length pre) = fold header_line ls m"
proof (induction ls arbitrary: pre m)
  case Nil
  have "find_sub [CR] [] = None" by simp
  then show ?case by (subst header_loop.simps) (simp add: find_from_def)
next
  case (Cons l ls)
  let ?hdr = "pre @ l @ CR # LF # join_lines ls"
  have "find_sub [CR] (l @ CR # LF # join_lines ls) = Some (length l)"
    using Cons.prems find_char_append [of CR l] by (simp add: find_char_def)
  then have f: "find_from [CR] ?hdr (length pre) = Some (length pre + length l)"
    by (simp add: find_from_def)
  have IH: "header_loop m' ?hdr (Suc (Suc (length pre + length l))) = fold header_line ls m'" for m'
    using Cons.IH [of m' "pre @ l @ CRLF"] Cons.prems by (simp add: add.assoc)
  show ?case
    by (subst header_loop.simps)
      (simp add: f IH header_line_def split: option.split prod.split)
qed

text \<open>The end of the header: the first empty line.\<close>

lemma find_sub_skip:
  "c \<notin> set s \<Longrightarrow> find_sub (c # p) (s @ t) = map_option (\<lambda>i. length s + i) (find_sub (c # p) t)"
  by (cases "find_sub (c # p) t"; induction s) auto

lemma header_end:
  "ls \<noteq> [] \<Longrightarrow> \<forall>l \<in> set ls. l \<noteq> [] \<and> CR \<notin> set l \<Longrightarrow>
     find_sub (CRLF @ CRLF) (join_lines ls @ CRLF @ body) = Some (length (join_lines ls) - 2)"
proof (induction ls)
  case Nil
  then show ?case by simp
next
  case (Cons l ls)
  have skip: "find_sub [CR, LF, CR, LF] (l @ t) =
      map_option (\<lambda>i. length l + i) (find_sub [CR, LF, CR, LF] t)" for t
    using Cons.prems by (intro find_sub_skip) simp
  show ?case
  proof (cases ls)
    case Nil
    then show ?thesis using skip [of "CR # LF # CR # LF # body"] by simp
  next
    case (Cons l' ls')
    with Cons.prems obtain x xs where l': "l' = x # xs" "x \<noteq> CR" by (cases l') auto
    have "find_sub [CR, LF, CR, LF] (join_lines ls @ CRLF @ body) = Some (length (join_lines ls) - 2)"
      using Cons.IH Cons.prems Cons by simp
    then show ?thesis using skip [of "CR # LF # join_lines ls @ CRLF @ body"] l' Cons by simp
  qed
qed

lemma cstr_append: "NUL \<notin> set a \<Longrightarrow> cstr (a @ b) = a @ cstr b"
  by (induction a) (auto simp: cstr_def)

text \<open>
  \<open>Parse\<close> of a message whose header has the given lines and whose body is anything at all.
\<close>

lemma Parse_header:
  assumes b: "holds b (join_lines ls @ CRLF @ body)" and ne: "ls \<noteq> []"
    and ls: "\<forall>l \<in> set ls. l \<noteq> [] \<and> CR \<notin> set l \<and> NUL \<notin> set l"
    and len: "6 \<le> length (join_lines ls)"
  shows "\<exists>h' b'. HeaderExtract_Parse h b = Inr (h', b') \<and> holds b' (join_lines ls @ CRLF @ body) \<and>
    m_Params h' = fold header_line ls [] \<and> m_sHeader h' = join_lines (ls @ [''end''])"
proof -
  let ?t = "join_lines ls @ CRLF @ body" and ?n = "length (join_lines ls)"
  have nul: "NUL \<notin> set (join_lines ls)" using ls by (induction ls) auto
  have c: "cstr (drop 4 ?t) = drop 4 (join_lines ls @ CRLF @ cstr body)"
  proof -
    have "NUL \<notin> set (drop 4 (join_lines ls) @ CRLF)" using nul by (auto dest: in_set_dropD)
    from cstr_append [OF this, of body] show ?thesis using len by simp
  qed
  have f: "find_sub (CRLF @ CRLF) (join_lines ls @ CRLF @ cstr body) = Some (?n - 2)"
    using header_end [OF ne] ls by blast
  have "find_sub (CRLF @ CRLF) (drop 4 (join_lines ls @ CRLF @ cstr body)) = Some (?n - 6)"
    unfolding find_sub_Some_iff
  proof (intro conjI allI impI)
    note F = find_sub_SomeD [OF f]
    have "drop (?n - 6) (drop 4 (join_lines ls @ CRLF @ cstr body)) =
        drop (?n - 2) (join_lines ls @ CRLF @ cstr body)" using len by (simp add: drop_drop)
    then show "starts_with (CRLF @ CRLF) (drop (?n - 6) (drop 4 (join_lines ls @ CRLF @ cstr body)))"
      using F by simp
    show "?n - 6 + length (CRLF @ CRLF) \<le> length (drop 4 (join_lines ls @ CRLF @ cstr body))"
      using len by simp
    fix j assume "j < ?n - 6"
    then have "\<not> starts_with (CRLF @ CRLF) (drop (j + 4) (join_lines ls @ CRLF @ cstr body))"
      using F by auto
    then show "\<not> starts_with (CRLF @ CRLF) (drop j (drop 4 (join_lines ls @ CRLF @ cstr body)))"
      by (metis drop_drop)
  qed
  then have f4: "find_sub (cstr (CRLF @ CRLF)) (cstr (drop 4 ?t)) = Some (?n - 6)"
    unfolding c by (simp add: cstr_def)
  have "?t \<noteq> []" "4 \<le> length ?t" using len by auto
  from Find_holds [OF b this, of "CRLF @ CRLF"] obtain b' where
    b': "Buffer_Find b (CRLF @ CRLF) 4 = Inr (b', int (?n - 2))" "holds b' ?t"
    using f4 len by auto
  have "mem_slice (block_of (m_pBuffer b')) 0 (int (?n - 2)) = Inr (map Some (take (?n - 2) ?t))"
    using old_pieces(2) [OF b'(2), of "?n - 2"] by simp
  moreover have "take (?n - 2) ?t @ CRLF @ ''end'' @ CRLF = join_lines (ls @ [''end''])"
  proof -
    have "ls = butlast ls @ [last ls]" using ne by simp
    then have "join_lines ls = (join_lines (butlast ls) @ last ls) @ CRLF"
      by (metis append.assoc join_lines_append join_lines_simps append_Nil2)
    then have "take (?n - 2) ?t @ CRLF = join_lines ls" by simp
    then show ?thesis by (simp add: join_lines_append)
  qed
  ultimately have "HeaderExtract_Parse h b =
      Inr (h\<lparr>m_sHeader := join_lines (ls @ [''end'']),
             m_Params := header_loop [] (join_lines (ls @ [''end''])) 0\<rparr>, b')"
    using b'(1) by (simp add: HeaderExtract_Parse_def Buffer_GetRawBuffer_def Let_def)
  moreover have "header_loop [] (join_lines (ls @ [''end''])) 0 = fold header_line ls []"
  proof -
    have "fold header_line (ls @ [''end'']) [] = fold header_line ls []"
      by (simp add: header_line_def find_char_None [THEN iffD2])
    moreover have "\<forall>l \<in> set (ls @ [''end'']). CR \<notin> set l" using ls by auto
    ultimately show ?thesis using header_loop_lines [of "ls @ [''end'']" "[]" "[]"] by simp
  qed
  ultimately show ?thesis using b'(2) by auto
qed

text \<open>A line \<open>name: value\<close> puts that pair.\<close>

lemma header_line_field:
  assumes "CHR '':'' \<notin> set name"
  shows "header_line (name @ '': '' @ value) m = smap_put name value m"
  using assms find_char_append [OF assms, of "SP # value"]
  by (simp add: header_line_def header_split_def)

lemma header_line_other: "CHR '':'' \<notin> set l \<Longrightarrow> header_line l m = m"
  by (simp add: header_line_def find_char_None [THEN iffD2])

lemma fold_header_fields:
  assumes "\<forall>(n, v) \<in> set fs. CHR '':'' \<notin> set n"
  shows "fold header_line (map (\<lambda>(n, v). n @ '': '' @ v) fs) m = fold (\<lambda>(n, v). smap_put n v) fs m"
  using assms by (induction fs arbitrary: m) (auto simp: header_line_field [simplified])

text \<open>The value of a header field, and the empty text when the header has no such field.\<close>

definition header_field :: "string list \<Rightarrow> string \<Rightarrow> string" where
  "header_field ls name = (case smap_find (fold header_line ls []) name of Some v \<Rightarrow> v | None \<Rightarrow> [])"

lemma header_field_GetValue:
  "m_Params h = fold header_line ls [] \<Longrightarrow> NUL \<notin> set name \<Longrightarrow> HeaderExtract_GetValue h name = header_field ls name"
  by (simp add: HeaderExtract_GetValue_def header_field_def cstr_id)

end
