(* ===== verification/RoutingTag.thy ===== *)
theory RoutingTag
  imports Prelude
begin

text \<open>
  \<open>routingtag.h\<close> and \<open>routingtag.cpp\<close>: the class \<open>cRoutingTag\<close>, a peer address of the
  form \<open>name@ip:port\<close>.
\<close>

record cRoutingTag =
  m_sFullTag :: string
  m_sTagName :: string
  m_sTagIPAddr :: string
  m_sTagPort :: string

definition new_cRoutingTag :: cRoutingTag where
  "new_cRoutingTag = \<lparr>m_sFullTag = [], m_sTagName = [], m_sTagIPAddr = [], m_sTagPort = []\<rparr>"

definition RoutingTag_BuildFullTag :: "cRoutingTag \<Rightarrow> cRoutingTag" where
  "RoutingTag_BuildFullTag r =
     r\<lparr>m_sFullTag := m_sTagName r @ ''@'' @ m_sTagIPAddr r @ '':'' @ m_sTagPort r\<rparr>"

text \<open>
  \<open>npos\<close> is the largest \<open>size_t\<close>; stored in the \<open>int\<close> \<open>iplen\<close> it counts as -1, so that without an
  at sign the length is the position of the colon and the address starts at 0.
\<close>

definition idx_or_npos :: "nat option \<Rightarrow> int" where
  "idx_or_npos i = (case i of Some k \<Rightarrow> int k | None \<Rightarrow> -1)"

definition RoutingTag_SetTag :: "cRoutingTag \<Rightarrow> string \<Rightarrow> cRoutingTag" where
  "RoutingTag_SetTag r pTag =
     (let tag = cstr pTag;
          at_idx = find_sub ''@'' tag;
          colon_idx = find_sub '':'' tag
      in if \<not> (case at_idx of Some k \<Rightarrow> k > 0 | None \<Rightarrow> False) \<and> at_idx = None \<and> colon_idx = None
         then r\<lparr>m_sTagName := tag, m_sFullTag := tag\<rparr>
         else
           let r = (case at_idx of
                      Some k \<Rightarrow> if k > 0 then r\<lparr>m_sTagName := take k tag\<rparr>
                                else r\<lparr>m_sTagName := ''unknown''\<rparr>
                    | None \<Rightarrow> r\<lparr>m_sTagName := ''unknown''\<rparr>);
               r = (case colon_idx of
                      Some k \<Rightarrow> if k > 0 then r\<lparr>m_sTagPort := drop (k + 1) tag\<rparr>
                                else r\<lparr>m_sTagPort := ''0000''\<rparr>
                    | None \<Rightarrow> r\<lparr>m_sTagPort := ''0000''\<rparr>);
               iplen = idx_or_npos colon_idx - idx_or_npos at_idx - 1;
               r = (if iplen > 0
                    then r\<lparr>m_sTagIPAddr := take (nat iplen) (drop (nat (idx_or_npos at_idx + 1)) tag)\<rparr>
                    else if find_sub ''.'' tag \<noteq> None then r\<lparr>m_sTagIPAddr := tag\<rparr>
                    else r\<lparr>m_sTagIPAddr := ''0.0.0.0''\<rparr>)
           in RoutingTag_BuildFullTag r)"

definition RoutingTag_SetTagName :: "cRoutingTag \<Rightarrow> string \<Rightarrow> cRoutingTag" where
  "RoutingTag_SetTagName r p = RoutingTag_BuildFullTag (r\<lparr>m_sTagName := cstr p\<rparr>)"

definition RoutingTag_SetTagIPAddr :: "cRoutingTag \<Rightarrow> string \<Rightarrow> cRoutingTag" where
  "RoutingTag_SetTagIPAddr r p = RoutingTag_BuildFullTag (r\<lparr>m_sTagIPAddr := cstr p\<rparr>)"

definition RoutingTag_SetTagPort :: "cRoutingTag \<Rightarrow> string \<Rightarrow> cRoutingTag" where
  "RoutingTag_SetTagPort r p = RoutingTag_BuildFullTag (r\<lparr>m_sTagPort := cstr p\<rparr>)"

definition RoutingTag_GetTag :: "cRoutingTag \<Rightarrow> string" where
  "RoutingTag_GetTag r = cstr (m_sFullTag r)"

definition RoutingTag_GetTagName :: "cRoutingTag \<Rightarrow> string" where
  "RoutingTag_GetTagName r = cstr (m_sTagName r)"

definition RoutingTag_GetTagIPAddr :: "cRoutingTag \<Rightarrow> string" where
  "RoutingTag_GetTagIPAddr r = cstr (m_sTagIPAddr r)"

definition RoutingTag_GetTagPort :: "cRoutingTag \<Rightarrow> string" where
  "RoutingTag_GetTagPort r = cstr (m_sTagPort r)"

section \<open>Tags of the full form\<close>

lemma find_one: "c \<notin> set s \<Longrightarrow> find_sub [c] (s @ c # t) = Some (length s)"
  using find_char_append by (simp add: find_char_def)

lemma SetTag_full:
  assumes name: "name \<noteq> []" "set name \<inter> {CHR ''@'', CHR '':'', NUL} = {}"
    and ip: "ip \<noteq> []" "CHR '':'' \<notin> set ip" "NUL \<notin> set ip" and port: "NUL \<notin> set port"
  shows "RoutingTag_SetTag r (name @ ''@'' @ ip @ '':'' @ port) =
    r\<lparr>m_sFullTag := name @ ''@'' @ ip @ '':'' @ port, m_sTagName := name, m_sTagIPAddr := ip,
      m_sTagPort := port\<rparr>"
proof -
  let ?t = "name @ CHR ''@'' # ip @ CHR '':'' # port"
  have c: "cstr ?t = ?t" using name ip port by (intro cstr_id) auto
  have at: "find_sub ''@'' ?t = Some (length name)"
    using name by (intro find_one) auto
  have "find_sub '':'' ((name @ ''@'' @ ip) @ CHR '':'' # port) = Some (length (name @ ''@'' @ ip))"
    using name ip by (intro find_one) auto
  then have colon: "find_sub '':'' ?t = Some (length name + 1 + length ip)" by simp
  have "0 < length ip" "0 < length name" using name(1) ip(1) by auto
  then show ?thesis
    by (simp add: RoutingTag_SetTag_def c at colon idx_or_npos_def RoutingTag_BuildFullTag_def
        nat_add_distrib Let_def)
qed

lemma SetTag_bare:
  assumes "set name \<inter> {CHR ''@'', CHR '':'', NUL} = {}"
  shows "RoutingTag_SetTag r name = r\<lparr>m_sTagName := name, m_sFullTag := name\<rparr>"
proof -
  have "find_sub ''@'' name = None" "find_sub '':'' name = None"
    using assms find_char_None unfolding find_char_def by auto
  then show ?thesis using assms by (simp add: RoutingTag_SetTag_def cstr_id Let_def)
qed

end
