(* ===== verification/UniqueIDProvider.thy ===== *)
theory UniqueIDProvider
  imports Prelude "HOL-Library.Multiset"
begin

text \<open>
  \<open>uniqueidprovider.h\<close> and \<open>uniqueidprovider.cpp\<close>: the class \<open>cUniqueIDProvider\<close>,
  a store of ready-made message ids that a thread refills. The ids come from the UUID library;
  \<open>uuid n\<close> is the text of the \<open>n\<close>-th one it makes, a parameter of the model. \<open>m_iMade\<close> counts
  how many it has made.
\<close>

record cUniqueIDProvider =
  m_vector :: "string list"
  m_iMade :: nat

definition MAX_UNIQUE_IDS :: nat where "MAX_UNIQUE_IDS = 256"

section \<open>Operations\<close>

definition UniqueID_CreateNewID ::
  "(nat \<Rightarrow> string) \<Rightarrow> cUniqueIDProvider \<Rightarrow> string \<times> cUniqueIDProvider" where
  "UniqueID_CreateNewID uuid p = (uuid (m_iMade p), p\<lparr>m_iMade := m_iMade p + 1\<rparr>)"

fun uid_fill :: "(nat \<Rightarrow> string) \<Rightarrow> nat \<Rightarrow> cUniqueIDProvider \<Rightarrow> cUniqueIDProvider" where
  "uid_fill uuid 0 p = p"
| "uid_fill uuid (Suc n) p =
     (let (i, p) = UniqueID_CreateNewID uuid p in uid_fill uuid n (p\<lparr>m_vector := m_vector p @ [i]\<rparr>))"

definition new_cUniqueIDProvider :: "(nat \<Rightarrow> string) \<Rightarrow> cUniqueIDProvider" where
  "new_cUniqueIDProvider uuid = uid_fill uuid MAX_UNIQUE_IDS \<lparr>m_vector = [], m_iMade = 0\<rparr>"

text \<open>One pass of the refill thread \<open>Run\<close> over the vector.\<close>

fun uid_refill :: "(nat \<Rightarrow> string) \<Rightarrow> nat \<Rightarrow> string list \<Rightarrow> string list \<times> nat" where
  "uid_refill uuid n [] = ([], n)"
| "uid_refill uuid n (v # vs) =
     (if length v = 0
      then (let (vs, m) = uid_refill uuid (n + 1) vs in (uuid n # vs, m))
      else (let (vs, m) = uid_refill uuid n vs in (v # vs, m)))"

definition UniqueID_Run :: "(nat \<Rightarrow> string) \<Rightarrow> cUniqueIDProvider \<Rightarrow> cUniqueIDProvider" where
  "UniqueID_Run uuid p =
     (let (vs, n) = uid_refill uuid (m_iMade p) (m_vector p) in p\<lparr>m_vector := vs, m_iMade := n\<rparr>)"

text \<open>\<open>GetID\<close>: the first id that is there, which is taken out; a new one when there is none.\<close>

fun uid_take :: "string list \<Rightarrow> (string \<times> string list) option" where
  "uid_take [] = None"
| "uid_take (v # vs) =
     (if length v \<noteq> 0 then Some (v, [] # vs)
      else map_option (\<lambda>(i, vs). (i, v # vs)) (uid_take vs))"

definition UniqueID_GetID ::
  "(nat \<Rightarrow> string) \<Rightarrow> cUniqueIDProvider \<Rightarrow> string \<times> cUniqueIDProvider" where
  "UniqueID_GetID uuid p =
     (case uid_take (m_vector p) of
        Some (i, vs) \<Rightarrow> (i, p\<lparr>m_vector := vs\<rparr>)
      | None \<Rightarrow> UniqueID_CreateNewID uuid p)"

section \<open>No id is issued twice\<close>

text \<open>
  The provider as a state machine: requests and passes of the refill thread in any order. The
  second argument is the list of ids issued so far.
\<close>

inductive uid_run :: "(nat \<Rightarrow> string) \<Rightarrow> cUniqueIDProvider \<Rightarrow> string list \<Rightarrow> bool"
  for uuid :: "nat \<Rightarrow> string" where
  start: "uid_run uuid (new_cUniqueIDProvider uuid) []"
| get: "uid_run uuid p issued \<Longrightarrow> UniqueID_GetID uuid p = (i, p') \<Longrightarrow> uid_run uuid p' (i # issued)"
| refill: "uid_run uuid p issued \<Longrightarrow> uid_run uuid (UniqueID_Run uuid p) issued"

abbreviation stored :: "string list \<Rightarrow> string list" where
  "stored vs \<equiv> filter (\<lambda>v. v \<noteq> []) vs"

definition uid_inv :: "(nat \<Rightarrow> string) \<Rightarrow> cUniqueIDProvider \<Rightarrow> string list \<Rightarrow> bool" where
  "uid_inv uuid p issued \<longleftrightarrow>
     distinct (stored (m_vector p) @ issued) \<and>
     set (stored (m_vector p) @ issued) \<subseteq> uuid ` {..<m_iMade p} \<and>
     length (m_vector p) = MAX_UNIQUE_IDS"

lemma uid_take_None: "uid_take vs = None \<Longrightarrow> stored vs = []"
  by (induction vs) (auto split: if_splits)

lemma uid_take_Some:
  "uid_take vs = Some (i, vs') \<Longrightarrow>
     stored vs = i # stored vs' \<and> length vs' = length vs \<and> i \<noteq> []"
proof (induction vs arbitrary: vs')
  case Nil
  then show ?case by simp
next
  case (Cons v vs)
  then show ?case by (cases "v = []") auto
qed

lemma uid_refill_stored:
  assumes "inj uuid" "\<forall>n. uuid n \<noteq> []"
  shows "uid_refill uuid n vs = (vs', m) \<Longrightarrow>
    n \<le> m \<and> length vs' = length vs \<and>
    mset (stored vs') = mset (stored vs) + mset (map uuid [n..<m])"
proof (induction vs arbitrary: n vs' m)
  case Nil
  then show ?case by simp
next
  case (Cons v vs)
  show ?case
  proof (cases "v = []")
    case True
    then obtain ws where w: "uid_refill uuid (n + 1) vs = (ws, m)" "vs' = uuid n # ws"
      using Cons.prems by (auto split: prod.splits)
    from Cons.IH [OF w(1)] have IH: "n + 1 \<le> m" "length ws = length vs"
      "mset (stored ws) = mset (stored vs) + mset (map uuid [n + 1..<m])" by auto
    have "[n..<m] = n # [n + 1..<m]" using IH(1) by (simp add: upt_conv_Cons)
    then show ?thesis using w IH True assms(2) by simp
  next
    case False
    then obtain ws where w: "uid_refill uuid n vs = (ws, m)" "vs' = v # ws"
      using Cons.prems by (auto split: prod.splits)
    from Cons.IH [OF w(1)] w(2) False show ?thesis by simp
  qed
qed

lemma uid_fill_vector:
  "uid_fill uuid n p =
     p\<lparr>m_vector := m_vector p @ map uuid [m_iMade p..<m_iMade p + n], m_iMade := m_iMade p + n\<rparr>"
proof (induction n arbitrary: p)
  case 0
  then show ?case by simp
next
  case (Suc n)
  have "[m_iMade p..<m_iMade p + Suc n] = m_iMade p # [Suc (m_iMade p)..<Suc (m_iMade p) + n]"
    by (simp add: upt_conv_Cons del: upt_Suc)
  then show ?case by (simp add: UniqueID_CreateNewID_def Suc.IH del: upt_Suc)
qed

lemma uid_run_inv:
  assumes inj: "inj uuid" and ne: "\<forall>n. uuid n \<noteq> []"
  shows "uid_run uuid p issued \<Longrightarrow> uid_inv uuid p issued"
proof (induction rule: uid_run.induct)
  case start
  have "distinct (map uuid [0..<MAX_UNIQUE_IDS])"
    using inj by (simp add: distinct_map inj_on_def)
  moreover have "stored (map uuid [0..<MAX_UNIQUE_IDS]) = map uuid [0..<MAX_UNIQUE_IDS]"
    using ne by (simp add: filter_empty_conv filter_id_conv)
  ultimately show ?case
    by (auto simp: uid_inv_def new_cUniqueIDProvider_def uid_fill_vector)
next
  case (get p issued i p')
  show ?case
  proof (cases "uid_take (m_vector p)")
    case None
    then have p': "i = uuid (m_iMade p)" "p' = p\<lparr>m_iMade := m_iMade p + 1\<rparr>"
      using get.hyps(2) by (auto simp: UniqueID_GetID_def UniqueID_CreateNewID_def)
    have "uuid (m_iMade p) \<notin> uuid ` {..<m_iMade p}" using inj by (auto simp: inj_on_def inj_def)
    then show ?thesis using get.IH p' uid_take_None [OF None] by (auto simp: uid_inv_def)
  next
    case (Some r)
    then obtain vs where vs: "uid_take (m_vector p) = Some (i, vs)" "p' = p\<lparr>m_vector := vs\<rparr>"
      using get.hyps(2) by (cases r) (auto simp: UniqueID_GetID_def)
    from uid_take_Some [OF vs(1)] get.IH vs(2) show ?thesis by (auto simp: uid_inv_def)
  qed
next
  case (refill p issued)
  obtain vs m where r: "uid_refill uuid (m_iMade p) (m_vector p) = (vs, m)"
    by (cases "uid_refill uuid (m_iMade p) (m_vector p)")
  from uid_refill_stored [OF inj ne r] have
    m: "m_iMade p \<le> m" "length vs = length (m_vector p)"
      "mset (stored vs) = mset (stored (m_vector p)) + mset (map uuid [m_iMade p..<m])" by auto
  have new: "distinct (map uuid [m_iMade p..<m])"
    "set (map uuid [m_iMade p..<m]) \<inter> uuid ` {..<m_iMade p} = {}"
    by (auto simp: distinct_map inj_on_def dest!: injD [OF inj])
  have "mset (stored vs @ issued) =
      mset ((stored (m_vector p) @ issued) @ map uuid [m_iMade p..<m])"
    using m(3) by simp
  then have d: "distinct (stored vs @ issued) \<longleftrightarrow>
        distinct ((stored (m_vector p) @ issued) @ map uuid [m_iMade p..<m])"
      and e: "set (stored vs @ issued) =
        set ((stored (m_vector p) @ issued) @ map uuid [m_iMade p..<m])"
    by (rule mset_eq_imp_distinct_iff, rule mset_eq_setD)
  have "set (stored (m_vector p) @ issued) \<subseteq> uuid ` {..<m_iMade p}" "distinct (stored (m_vector p) @ issued)"
    using refill.IH by (simp_all only: uid_inv_def)
  then have "distinct (stored vs @ issued)"
    using new unfolding d distinct_append [of "stored (m_vector p) @ issued"] by blast
  moreover have "set (stored vs @ issued) \<subseteq> uuid ` {..<m}"
    using \<open>set (stored (m_vector p) @ issued) \<subseteq> uuid ` {..<m_iMade p}\<close> m(1) unfolding e by auto
  ultimately show ?case using refill.IH m r by (simp add: uid_inv_def UniqueID_Run_def)
qed

end
