(* ===== verification/DecimalText.thy ===== *)
theory DecimalText
  imports Prelude
begin

text \<open>
  The decimal text of a number, as \<open>%d\<close> and an output stream print it, and that \<open>atoi\<close> reads it
  back. Headers, ports, addresses and lengths are written this way.
\<close>

fun nat_digits :: "nat \<Rightarrow> string" where
  "nat_digits n =
     (if n < 10 then [char_of (48 + n)] else nat_digits (n div 10) @ [char_of (48 + n mod 10)])"

declare nat_digits.simps [simp del]

definition int_text :: "int \<Rightarrow> string" where
  "int_text i = (if i < 0 then CHR ''-'' # nat_digits (nat (- i)) else nat_digits (nat i))"

lemma digit_of: "k < 10 \<Longrightarrow> of_char (char_of (48 + k) :: char) = 48 + k" for k :: nat
  by simp

lemma digit_range: "k < 10 \<Longrightarrow> CHR ''0'' \<le> char_of (48 + k) \<and> char_of (48 + k) \<le> CHR ''9''" for k :: nat
  by (simp add: less_eq_char_def)

lemma digits_value_digit:
  "k < 10 \<Longrightarrow> digits_value a (char_of (48 + k) # cs) = digits_value (10 * a + int k) cs" for k :: nat
  using digit_range [of k] by simp

lemma digits_value_nat_digits:
  "digits_value 0 (nat_digits n @ cs) = digits_value (int n) cs"
proof (induction n arbitrary: cs rule: nat_digits.induct)
  case (1 n)
  show ?case
  proof (cases "n < 10")
    case True
    then show ?thesis using digits_value_digit [OF True] by (subst nat_digits.simps) simp
  next
    case False
    have "digits_value 0 (nat_digits n @ cs) = digits_value (int (n div 10)) (char_of (48 + n mod 10) # cs)"
      using False 1 [OF False] by (subst nat_digits.simps) simp
    also have "\<dots> = digits_value (int n) cs"
      using digits_value_digit [of "n mod 10" "int (n div 10)" cs] by (simp add: zdiv_int zmod_int)
    finally show ?thesis .
  qed
qed

lemma nat_digits_first: "\<exists>(k :: nat) cs. k < 10 \<and> nat_digits n = char_of (48 + k) # cs"
proof (induction n rule: nat_digits.induct)
  case (1 n)
  show ?case
  proof (cases "n < 10")
    case True
    then show ?thesis by (subst nat_digits.simps) auto
  next
    case False
    then show ?thesis using 1 [OF False] by (subst nat_digits.simps) auto
  qed
qed

lemma nat_digits_chars: "c \<in> set (nat_digits n) \<Longrightarrow> \<exists>k :: nat. k < 10 \<and> c = char_of (48 + k)"
proof (induction n rule: nat_digits.induct)
  case (1 n)
  then show ?case by (cases "n < 10") (subst (asm) nat_digits.simps, force)+
qed

lemma digit_other:
  assumes "k < 10"
  shows "char_of (48 + k :: nat) \<noteq> CR" "char_of (48 + k) \<noteq> CHR ''-''" "char_of (48 + k) \<noteq> CHR ''+''"
    "\<not> is_space (char_of (48 + k))" "char_of (48 + k) \<noteq> NUL"
proof -
  have v: "of_char (char_of (48 + k) :: char) = 48 + k" using assms by simp
  then show "char_of (48 + k :: nat) \<noteq> CR" "char_of (48 + k) \<noteq> CHR ''-''" "char_of (48 + k) \<noteq> CHR ''+''"
    "char_of (48 + k) \<noteq> NUL" by fastforce+
  have "char_of (48 + k) \<noteq> SP" using v by fastforce
  moreover have "\<not> char_of (48 + k) \<le> CR" using assms by (simp add: less_eq_char_def)
  ultimately show "\<not> is_space (char_of (48 + k))" by (simp add: is_space_def)
qed

lemma nat_digits_no_NUL: "NUL \<notin> set (nat_digits n)"
proof (induction n rule: nat_digits.induct)
  case (1 n)
  have d: "char_of (48 + k) \<noteq> NUL" if "k < 10" for k :: nat
  proof
    assume "char_of (48 + k) = NUL"
    then have "of_char (char_of (48 + k) :: char) = (0 :: nat)" by simp
    then show False using that by simp
  qed
  show ?case
  proof (cases "n < 10")
    case True
    then show ?thesis using d [OF True] by (subst nat_digits.simps) auto
  next
    case False
    then show ?thesis using "1.IH" [OF False] d [of "n mod 10"] by (subst nat_digits.simps) auto
  qed
qed

lemma nat_digits_clean: "CR \<notin> set (nat_digits n)" "nat_digits n \<noteq> []"
proof
  assume "CR \<in> set (nat_digits n)"
  then obtain k :: nat where k: "k < 10" "CR = char_of (48 + k)" using nat_digits_chars by blast
  then show False using digit_other(1) [OF k(1)] by (metis k(2))
next
  show "nat_digits n \<noteq> []" using nat_digits_first [of n] by auto
qed

lemma int_text_clean: "0 \<le> i \<Longrightarrow> CR \<notin> set (int_text i) \<and> int_text i \<noteq> []"
  using nat_digits_clean by (simp add: int_text_def)

lemma atoi_int_text: "0 \<le> i \<Longrightarrow> atoi (int_text i) = i"
proof -
  assume i: "0 \<le> i"
  obtain k :: nat and cs where k: "k < 10" "nat_digits (nat i) = char_of (48 + k) # cs" using nat_digits_first by blast
  have c: "cstr (nat_digits (nat i)) = nat_digits (nat i)" using nat_digits_no_NUL by (rule cstr_id)
  have "atoi (int_text i) = digits_value 0 (nat_digits (nat i))"
    using i digit_other [OF k(1)] unfolding atoi_def int_text_def by (simp add: c) (simp add: k(2))
  then show ?thesis using digits_value_nat_digits [of "nat i" "[]"] i by simp
qed

lemma int_text_no_NUL: "NUL \<notin> set (int_text i)"
  using nat_digits_no_NUL by (auto simp: int_text_def)

text \<open>\<open>inet_ntoa\<close>: the address with its first byte at the top of the word.\<close>

definition inet_ntoa :: "32 word \<Rightarrow> string" where
  "inet_ntoa w =
     nat_digits (unat (drop_bit 24 w)) @ ''.'' @ nat_digits (unat (take_bit 8 (drop_bit 16 w))) @ ''.'' @
     nat_digits (unat (take_bit 8 (drop_bit 8 w))) @ ''.'' @ nat_digits (unat (take_bit 8 w))"

lemma inet_ntoa_no_NUL: "NUL \<notin> set (inet_ntoa w)"
  using nat_digits_no_NUL by (simp add: inet_ntoa_def)

end
