(* ===== verification/Msg.thy ===== *)
theory Msg
  imports HeaderExtract RoutingTag UniqueIDProvider DecimalText
begin

text \<open>
  \<open>imsg.h\<close>, \<open>msg.h\<close> and \<open>msg.cpp\<close>: the message object \<open>cMsg\<close> that every other part
  passes around. The locks of the accessors are dropped (each operation is one step), and so are
  the profiler, whose only state is clock readings, and the debug-only travel log.

  A message is known by a number, its place in the pool's store. \<open>m_pPayload\<close> points into the
  \<open>MsgBuffer\<close> of some message, so it is the number of that message and an offset; \<open>None\<close> is the null
  pointer. What a pointer into a buffer means after the buffer was reallocated is not modelled.
  The time and fresh ids, which the code takes from \<open>time(0)\<close> and from the id provider, are
  arguments.
\<close>

section \<open>Data\<close>

datatype eMsgConnectionType =
  MSG_CT_NOTSET | MSG_CT_IB_UDP | MSG_CT_OB_UDP | MSG_CT_IB_TCP | MSG_CT_OB_TCP | MSG_CT_INTERNAL

datatype eMsgFormat = MSG_FORMAT_NOTSET | MSG_FORMAT_REQ | MSG_FORMAT_RES | MSG_FORMAT_NOTIFY

datatype eMsgReplyActionType =
  MSG_REPLY_ACTION_NONE | MSG_REPLY_ACTION_WAIT | MSG_REPLY_ACTION_NOWAIT

datatype eMsgNotifyActionType = MSG_NOTIFY_ACTION_YES | MSG_NOTIFY_ACTION_NO

datatype eMsgProtocolType =
  MSG_PROTOCOL_UNKNOWN | MSG_PROTOCOL_UNKNOWN_TCP | MSG_PROTOCOL_UNKNOWN_UDP
  | MSG_PROTOCOL_HTTP_MCP | MSG_PROTOCOL_MCP | MSG_PROTOCOL_HTTP_GET | MSG_PROTOCOL_HTTP_POST

datatype eMsgState =
  MSG_STATE_INACTIVE | MSG_STATE_PENDING | MSG_STATE_INUSE | MSG_STATE_UNDELIVERED
  | MSG_STATE_DELIVERED | MSG_STATE_PROCESSED | MSG_STATE_MARKFORREUSE

text \<open>\<open>eMsgPriority\<close>: names for numbers, since the code also computes with them.\<close>

definition MSG_PRIORITY_LOWEST :: int where "MSG_PRIORITY_LOWEST = 0"
definition MSG_PRIORITY_LOW :: int where "MSG_PRIORITY_LOW = 64"
definition MSG_PRIORITY_MID :: int where "MSG_PRIORITY_MID = 128"
definition MSG_PRIORITY_HIGH :: int where "MSG_PRIORITY_HIGH = 192"
definition MSG_PRIORITY_HIGHEST :: int where "MSG_PRIORITY_HIGHEST = 255"

lemmas priorities = MSG_PRIORITY_LOWEST_def MSG_PRIORITY_LOW_def MSG_PRIORITY_MID_def
  MSG_PRIORITY_HIGH_def MSG_PRIORITY_HIGHEST_def

datatype msg_ptr = MsgPtr nat int

record cMsg =
  m_HeaderExtract :: cHeaderExtract
  TCPSocketHandle :: int
  UDPSocketHandle :: int
  MsgSendRetryCount :: int
  MsgSendRetryDelay :: int
  MsgID :: string
  MsgConnectionType :: eMsgConnectionType
  MsgProtocolType :: eMsgProtocolType
  MsgFormat :: eMsgFormat
  MsgResponseCode :: int
  MsgState :: eMsgState
  MsgCommand :: string
  MsgTo :: string
  MsgFrom :: string
  MsgSubject :: string
  MsgOptions :: string
  MsgReplyActionType :: eMsgReplyActionType
  MsgNotifyActionType :: eMsgNotifyActionType
  MsgStatusLine :: string
  MsgContentType :: string
  MsgContentLength :: int
  MsgBuffer :: cBuffer
  MsgRawBuffer :: cBuffer
  m_pPayload :: "msg_ptr option"
  MsgHeaderSize :: int
  MsgMD5 :: string
  MsgCRC32 :: string
  SourceIP :: string
  SourcePort :: int
  MsgPriority :: int
  MsgArrivalPort :: int
  HeaderFieldTemp :: string
  MsgInUseTS :: int
  MsgLastRetryTS :: int
  MsgCloned :: bool
  m_bKeepAlive :: bool
  MsgToString :: string

section \<open>Accessors\<close>

text \<open>Texts come out as C strings.\<close>

definition Msg_GetRawBuffer :: "cMsg \<Rightarrow> block option" where
  "Msg_GetRawBuffer m = Buffer_GetRawBuffer (MsgRawBuffer m)"

definition Msg_GetRawBufferSize :: "cMsg \<Rightarrow> int" where
  "Msg_GetRawBufferSize m = Buffer_GetBufferCount (MsgRawBuffer m)"

definition Msg_GetTCPSocketHandle :: "cMsg \<Rightarrow> int" where
  "Msg_GetTCPSocketHandle m = TCPSocketHandle m"

definition Msg_GetUDPSocketHandle :: "cMsg \<Rightarrow> int" where
  "Msg_GetUDPSocketHandle m = UDPSocketHandle m"

definition Msg_GetMsgID :: "cMsg \<Rightarrow> string" where
  "Msg_GetMsgID m = cstr (MsgID m)"

definition Msg_GetMsgState :: "cMsg \<Rightarrow> eMsgState" where
  "Msg_GetMsgState m = MsgState m"

definition Msg_GetSendRetryDelay :: "cMsg \<Rightarrow> int" where
  "Msg_GetSendRetryDelay m = MsgSendRetryDelay m"

definition Msg_GetSendRetryCount :: "cMsg \<Rightarrow> int" where
  "Msg_GetSendRetryCount m = MsgSendRetryCount m"

definition Msg_GetConnectionType :: "cMsg \<Rightarrow> eMsgConnectionType" where
  "Msg_GetConnectionType m = MsgConnectionType m"

definition Msg_GetProtocolType :: "cMsg \<Rightarrow> eMsgProtocolType" where
  "Msg_GetProtocolType m = MsgProtocolType m"

definition Msg_GetFormat :: "cMsg \<Rightarrow> eMsgFormat" where
  "Msg_GetFormat m = MsgFormat m"

definition Msg_GetResponseCode :: "cMsg \<Rightarrow> int" where
  "Msg_GetResponseCode m = MsgResponseCode m"

definition Msg_GetCommand :: "cMsg \<Rightarrow> string" where
  "Msg_GetCommand m = cstr (MsgCommand m)"

definition Msg_GetTo :: "cMsg \<Rightarrow> string" where
  "Msg_GetTo m = cstr (MsgTo m)"

definition Msg_GetFrom :: "cMsg \<Rightarrow> string" where
  "Msg_GetFrom m = cstr (MsgFrom m)"

definition Msg_GetSubject :: "cMsg \<Rightarrow> string" where
  "Msg_GetSubject m = cstr (MsgSubject m)"

definition Msg_GetOptions :: "cMsg \<Rightarrow> string" where
  "Msg_GetOptions m = cstr (MsgOptions m)"

definition Msg_GetReplyAction :: "cMsg \<Rightarrow> eMsgReplyActionType" where
  "Msg_GetReplyAction m = MsgReplyActionType m"

definition Msg_GetNotifyAction :: "cMsg \<Rightarrow> eMsgNotifyActionType" where
  "Msg_GetNotifyAction m = MsgNotifyActionType m"

definition Msg_GetStatusLine :: "cMsg \<Rightarrow> string" where
  "Msg_GetStatusLine m = cstr (MsgStatusLine m)"

definition Msg_GetContentType :: "cMsg \<Rightarrow> string" where
  "Msg_GetContentType m = cstr (MsgContentType m)"

definition Msg_GetContentLength :: "cMsg \<Rightarrow> int" where
  "Msg_GetContentLength m = MsgContentLength m"

definition Msg_GetContentPayload :: "cMsg \<Rightarrow> msg_ptr option" where
  "Msg_GetContentPayload m = m_pPayload m"

definition Msg_GetCRC32 :: "cMsg \<Rightarrow> string" where
  "Msg_GetCRC32 m = cstr (MsgCRC32 m)"

definition Msg_GetMD5 :: "cMsg \<Rightarrow> string" where
  "Msg_GetMD5 m = cstr (MsgMD5 m)"

definition Msg_GetSourceIP :: "cMsg \<Rightarrow> string" where
  "Msg_GetSourceIP m = cstr (SourceIP m)"

definition Msg_GetSourcePort :: "cMsg \<Rightarrow> int" where
  "Msg_GetSourcePort m = SourcePort m"

definition Msg_GetMsgPriority :: "cMsg \<Rightarrow> int" where
  "Msg_GetMsgPriority m = MsgPriority m"

definition Msg_GetHeaderSize :: "cMsg \<Rightarrow> int" where
  "Msg_GetHeaderSize m = MsgHeaderSize m"

definition Msg_GetArrivalPort :: "cMsg \<Rightarrow> int" where
  "Msg_GetArrivalPort m = MsgArrivalPort m"

definition Msg_GetMsgInUseTS :: "cMsg \<Rightarrow> int" where
  "Msg_GetMsgInUseTS m = MsgInUseTS m"

definition Msg_GetMsgLastRetryTS :: "cMsg \<Rightarrow> int" where
  "Msg_GetMsgLastRetryTS m = MsgLastRetryTS m"

definition Msg_IsKeepAlive :: "cMsg \<Rightarrow> bool" where
  "Msg_IsKeepAlive m = m_bKeepAlive m"

lemmas msg_getters = Msg_GetTCPSocketHandle_def Msg_GetUDPSocketHandle_def Msg_GetMsgID_def
  Msg_GetMsgState_def Msg_GetSendRetryDelay_def Msg_GetSendRetryCount_def
  Msg_GetConnectionType_def Msg_GetProtocolType_def Msg_GetFormat_def Msg_GetResponseCode_def
  Msg_GetCommand_def Msg_GetTo_def Msg_GetFrom_def Msg_GetSubject_def Msg_GetOptions_def
  Msg_GetReplyAction_def Msg_GetNotifyAction_def Msg_GetStatusLine_def Msg_GetContentType_def
  Msg_GetContentLength_def Msg_GetContentPayload_def Msg_GetCRC32_def Msg_GetMD5_def
  Msg_GetSourceIP_def Msg_GetSourcePort_def Msg_GetMsgPriority_def Msg_GetHeaderSize_def
  Msg_GetArrivalPort_def Msg_GetMsgInUseTS_def Msg_GetMsgLastRetryTS_def Msg_IsKeepAlive_def

definition Msg_GetHeaderFieldValue :: "cMsg \<Rightarrow> string \<Rightarrow> string \<times> cMsg" where
  "Msg_GetHeaderFieldValue m pFieldName =
     (let v = HeaderExtract_GetValue_cstr (m_HeaderExtract m) pFieldName
      in (cstr v, m\<lparr>HeaderFieldTemp := v\<rparr>))"

definition Msg_SetTCPSocketHandle :: "cMsg \<Rightarrow> int \<Rightarrow> cMsg" where
  "Msg_SetTCPSocketHandle m socketfd = m\<lparr>TCPSocketHandle := socketfd\<rparr>"

definition Msg_SetMsgID :: "cMsg \<Rightarrow> string \<Rightarrow> cMsg" where
  "Msg_SetMsgID m pMsgID = m\<lparr>MsgID := cstr pMsgID\<rparr>"

definition Msg_SetMsgState :: "cMsg \<Rightarrow> eMsgState \<Rightarrow> cMsg" where
  "Msg_SetMsgState m State = m\<lparr>MsgState := State\<rparr>"

definition Msg_SetSendRetryDelay :: "cMsg \<Rightarrow> int \<Rightarrow> cMsg" where
  "Msg_SetSendRetryDelay m iSendRetryDelay = m\<lparr>MsgSendRetryDelay := iSendRetryDelay\<rparr>"

definition Msg_SetSendRetryCount :: "cMsg \<Rightarrow> int \<Rightarrow> cMsg" where
  "Msg_SetSendRetryCount m iSendRetryCount = m\<lparr>MsgSendRetryCount := iSendRetryCount\<rparr>"

definition Msg_SetProtocolType :: "cMsg \<Rightarrow> eMsgProtocolType \<Rightarrow> cMsg" where
  "Msg_SetProtocolType m ProtocolType = m\<lparr>MsgProtocolType := ProtocolType\<rparr>"

definition Msg_SetFormat :: "cMsg \<Rightarrow> eMsgFormat \<Rightarrow> cMsg" where
  "Msg_SetFormat m Format = m\<lparr>MsgFormat := Format\<rparr>"

definition Msg_SetResponseCode :: "cMsg \<Rightarrow> int \<Rightarrow> cMsg" where
  "Msg_SetResponseCode m iResponseCode = m\<lparr>MsgResponseCode := iResponseCode\<rparr>"

definition Msg_SetCommand :: "cMsg \<Rightarrow> string \<Rightarrow> cMsg" where
  "Msg_SetCommand m pCommand = m\<lparr>MsgCommand := cstr pCommand\<rparr>"

definition Msg_SetTo :: "cMsg \<Rightarrow> string \<Rightarrow> cMsg" where
  "Msg_SetTo m pTo = m\<lparr>MsgTo := cstr pTo\<rparr>"

definition Msg_SetFrom :: "cMsg \<Rightarrow> string \<Rightarrow> cMsg" where
  "Msg_SetFrom m pFrom = m\<lparr>MsgFrom := cstr pFrom\<rparr>"

definition Msg_SetSubject :: "cMsg \<Rightarrow> string \<Rightarrow> cMsg" where
  "Msg_SetSubject m pSubject = m\<lparr>MsgSubject := cstr pSubject\<rparr>"

definition Msg_SetOptions :: "cMsg \<Rightarrow> string \<Rightarrow> cMsg" where
  "Msg_SetOptions m pOptions = m\<lparr>MsgOptions := cstr pOptions\<rparr>"

definition Msg_SetReplyAction :: "cMsg \<Rightarrow> eMsgReplyActionType \<Rightarrow> cMsg" where
  "Msg_SetReplyAction m ReplyActionType = m\<lparr>MsgReplyActionType := ReplyActionType\<rparr>"

definition Msg_SetNotifyAction :: "cMsg \<Rightarrow> eMsgNotifyActionType \<Rightarrow> cMsg" where
  "Msg_SetNotifyAction m NotifyActionType = m\<lparr>MsgNotifyActionType := NotifyActionType\<rparr>"

definition Msg_SetContentType :: "cMsg \<Rightarrow> string \<Rightarrow> cMsg" where
  "Msg_SetContentType m pContentType = m\<lparr>MsgContentType := cstr pContentType\<rparr>"

definition Msg_SetContentLength :: "cMsg \<Rightarrow> int \<Rightarrow> cMsg" where
  "Msg_SetContentLength m iContentLength = m\<lparr>MsgContentLength := iContentLength\<rparr>"

definition Msg_SetContentPayloadPointer :: "cMsg \<Rightarrow> msg_ptr option \<Rightarrow> cMsg" where
  "Msg_SetContentPayloadPointer m pBuffer = m\<lparr>m_pPayload := pBuffer\<rparr>"

definition Msg_SetSourceIP :: "cMsg \<Rightarrow> string \<Rightarrow> cMsg" where
  "Msg_SetSourceIP m pIPAddress = m\<lparr>SourceIP := cstr pIPAddress\<rparr>"

definition Msg_SetSourcePort :: "cMsg \<Rightarrow> int \<Rightarrow> cMsg" where
  "Msg_SetSourcePort m iPort = m\<lparr>SourcePort := iPort\<rparr>"

definition Msg_SetMsgPriority :: "cMsg \<Rightarrow> int \<Rightarrow> cMsg" where
  "Msg_SetMsgPriority m iPriority = m\<lparr>MsgPriority := iPriority\<rparr>"

definition Msg_SetArrivalPort :: "cMsg \<Rightarrow> int \<Rightarrow> cMsg" where
  "Msg_SetArrivalPort m iPort = m\<lparr>MsgArrivalPort := iPort\<rparr>"

definition Msg_SetUDPSocketHandle :: "cMsg \<Rightarrow> int \<Rightarrow> cMsg" where
  "Msg_SetUDPSocketHandle m iSocket = m\<lparr>UDPSocketHandle := iSocket\<rparr>"

definition Msg_SetKeepAlive :: "cMsg \<Rightarrow> bool \<Rightarrow> cMsg" where
  "Msg_SetKeepAlive m bKeepAlive = m\<lparr>m_bKeepAlive := bKeepAlive\<rparr>"

definition Msg_SetStatusLine :: "cMsg \<Rightarrow> string \<Rightarrow> int \<Rightarrow> cMsg result" where
  "Msg_SetStatusLine m pStatusLine iStatusLineLength =
     rbind (mem_slice (cmem pStatusLine) 0 iStatusLineLength) (\<lambda>cells.
     rbind (mem_text cells) (\<lambda>s. Inr (m\<lparr>MsgStatusLine := s\<rparr>)))"

definition Msg_UpdateMsgConnectionType :: "cMsg \<Rightarrow> eMsgConnectionType \<Rightarrow> cMsg" where
  "Msg_UpdateMsgConnectionType m ConnectionType =
     (let m = m\<lparr>MsgConnectionType := ConnectionType\<rparr>
      in if MsgConnectionType m = MSG_CT_INTERNAL
         then m\<lparr>MsgPriority := MSG_PRIORITY_HIGH, MsgProtocolType := MSG_PROTOCOL_MCP,
                MsgTo := [], MsgFrom := []\<rparr>
         else m)"

definition Msg_SetConnectionType :: "cMsg \<Rightarrow> eMsgConnectionType \<Rightarrow> cMsg" where
  "Msg_SetConnectionType m ConnectionType =
     (let m = (Msg_UpdateMsgConnectionType m ConnectionType)\<lparr>MsgConnectionType := ConnectionType\<rparr>
      in if MsgConnectionType m = MSG_CT_INTERNAL
         then m\<lparr>MsgPriority := MSG_PRIORITY_HIGH, MsgProtocolType := MSG_PROTOCOL_MCP,
                MsgTo := [], MsgFrom := []\<rparr>
         else m)"

text \<open>\<open>this\<close> is the number of the message, which its own payload pointer refers to.\<close>

definition Msg_SetContentPayload :: "nat \<Rightarrow> cMsg \<Rightarrow> block option \<Rightarrow> int \<Rightarrow> cMsg result" where
  "Msg_SetContentPayload this m pBuffer iLength =
     rbind (Buffer_ReplaceWith (MsgBuffer m) pBuffer iLength) (\<lambda>(b, _).
     Inr (m\<lparr>MsgBuffer := b,
            m_pPayload := (case Buffer_GetRawBuffer b of None \<Rightarrow> None | Some _ \<Rightarrow> Some (MsgPtr this 0)),
            MsgContentLength := iLength\<rparr>))"

definition Msg_SetCRC32 :: "cMsg \<Rightarrow> cMsg" where
  "Msg_SetCRC32 m = m\<lparr>MsgCRC32 := ''0''\<rparr>"

definition Msg_SetMD5 :: "cMsg \<Rightarrow> cMsg" where
  "Msg_SetMD5 m = m"

definition Msg_SetMsgLastRetryTS :: "int \<Rightarrow> cMsg \<Rightarrow> cMsg" where
  "Msg_SetMsgLastRetryTS now m = m\<lparr>MsgLastRetryTS := now\<rparr>"

definition Msg_SetCloned :: "cMsg \<Rightarrow> cMsg" where
  "Msg_SetCloned m = m\<lparr>MsgCloned := True\<rparr>"

definition Msg_UpdateMsgID :: "string \<Rightarrow> cMsg \<Rightarrow> cMsg" where
  "Msg_UpdateMsgID newid m = m\<lparr>MsgID := newid\<rparr>"

text \<open>The second component is the descriptor that gets closed.\<close>

definition Msg_CloseSocket :: "cMsg \<Rightarrow> cMsg \<times> int option" where
  "Msg_CloseSocket m =
     (if TCPSocketHandle m \<noteq> -1 then (m\<lparr>TCPSocketHandle := -1\<rparr>, Some (TCPSocketHandle m))
      else (m, None))"

lemmas msg_setters = Msg_SetTCPSocketHandle_def Msg_SetMsgID_def Msg_SetMsgState_def Msg_SetSendRetryDelay_def
  Msg_SetSendRetryCount_def Msg_SetProtocolType_def Msg_SetFormat_def
  Msg_SetResponseCode_def Msg_SetCommand_def Msg_SetTo_def Msg_SetFrom_def
  Msg_SetSubject_def Msg_SetOptions_def Msg_SetReplyAction_def Msg_SetNotifyAction_def
  Msg_SetContentType_def Msg_SetContentLength_def Msg_SetContentPayloadPointer_def
  Msg_SetSourceIP_def Msg_SetSourcePort_def Msg_SetMsgPriority_def Msg_SetArrivalPort_def
  Msg_SetUDPSocketHandle_def Msg_SetKeepAlive_def Msg_SetCRC32_def
  Msg_SetMsgLastRetryTS_def Msg_SetCloned_def Msg_UpdateMsgID_def
  Msg_UpdateMsgConnectionType_def Msg_SetConnectionType_def

section \<open>Life cycle\<close>

definition CMSG_MAX_RETRY_DELAY :: int where "CMSG_MAX_RETRY_DELAY = 1"

text \<open>\<open>newid\<close> and \<open>now\<close> are what \<open>GetID\<close> and \<open>time(0)\<close> return.\<close>

definition Msg_ResetMsg :: "string \<Rightarrow> int \<Rightarrow> cMsg \<Rightarrow> cMsg" where
  "Msg_ResetMsg newid now m =
     m\<lparr>MsgID := newid, TCPSocketHandle := -1, MsgSendRetryCount := 0,
       MsgSendRetryDelay := CMSG_MAX_RETRY_DELAY, MsgReplyActionType := MSG_REPLY_ACTION_NONE,
       MsgNotifyActionType := MSG_NOTIFY_ACTION_NO, MsgConnectionType := MSG_CT_NOTSET,
       MsgFormat := MSG_FORMAT_NOTSET, MsgProtocolType := MSG_PROTOCOL_UNKNOWN,
       MsgResponseCode := 0, MsgState := MSG_STATE_INACTIVE, MsgCommand := [], MsgTo := [],
       MsgFrom := [], MsgSubject := [], MsgOptions := [], MsgCRC32 := [], MsgStatusLine := [],
       MsgContentType := [], MsgContentLength := 0, MsgPriority := MSG_PRIORITY_MID,
       m_pPayload := None, MsgHeaderSize := 0, MsgBuffer := Buffer_Reset (MsgBuffer m),
       MsgRawBuffer := Buffer_Reset (MsgRawBuffer m), MsgArrivalPort := 0, MsgInUseTS := now,
       MsgLastRetryTS := 0, MsgCloned := False, SourceIP := [], SourcePort := -1,
       UDPSocketHandle := -1, m_bKeepAlive := True\<rparr>"

text \<open>The constructor runs \<open>ResetMsg\<close> on default-constructed members.\<close>

definition blank_cMsg :: cMsg where
  "blank_cMsg =
     \<lparr>m_HeaderExtract = new_cHeaderExtract, TCPSocketHandle = -1, UDPSocketHandle = -1,
       MsgSendRetryCount = 0, MsgSendRetryDelay = 0, MsgID = [], MsgConnectionType = MSG_CT_NOTSET,
       MsgProtocolType = MSG_PROTOCOL_UNKNOWN, MsgFormat = MSG_FORMAT_NOTSET, MsgResponseCode = 0,
       MsgState = MSG_STATE_INACTIVE, MsgCommand = [], MsgTo = [], MsgFrom = [], MsgSubject = [],
       MsgOptions = [], MsgReplyActionType = MSG_REPLY_ACTION_NONE,
       MsgNotifyActionType = MSG_NOTIFY_ACTION_NO, MsgStatusLine = [], MsgContentType = [],
       MsgContentLength = 0, MsgBuffer = new_cBuffer, MsgRawBuffer = new_cBuffer,
       m_pPayload = None, MsgHeaderSize = 0, MsgMD5 = [], MsgCRC32 = [], SourceIP = [],
       SourcePort = -1, MsgPriority = 0, MsgArrivalPort = 0, HeaderFieldTemp = [],
       MsgInUseTS = 0, MsgLastRetryTS = 0, MsgCloned = False, m_bKeepAlive = True,
       MsgToString = []\<rparr>"

definition new_cMsg :: "string \<Rightarrow> int \<Rightarrow> cMsg" where
  "new_cMsg newid now = Msg_ResetMsg newid now blank_cMsg"

definition Msg_MarkProcessed :: "cMsg \<Rightarrow> cMsg" where
  "Msg_MarkProcessed m = m\<lparr>MsgState := MSG_STATE_DELIVERED\<rparr>"

text \<open>\<open>DispatchMsg\<close>, with the name and the address that it asks the core for.\<close>

definition Msg_DispatchMsg :: "string \<Rightarrow> string \<Rightarrow> cMsg \<Rightarrow> cMsg" where
  "Msg_DispatchMsg serverName serverAddr m =
     (let m = (if MsgConnectionType m = MSG_CT_NOTSET then m\<lparr>MsgConnectionType := MSG_CT_INTERNAL\<rparr>
               else if MsgConnectionType m = MSG_CT_OB_UDP
               then m\<lparr>MsgFrom := cstr serverName @ ''@'' @ cstr serverAddr @ '':'' @
                                  int_text (MsgArrivalPort m)\<rparr>
               else m)
      in m\<lparr>MsgState := MSG_STATE_PENDING\<rparr>)"

text \<open>
  \<open>DeepCopy\<close>: the copy takes the payload into its own buffer and then points back to where the
  original's payload is. \<open>payload\<close> is the memory behind that pointer.
\<close>

definition Msg_DeepCopy :: "block option \<Rightarrow> cMsg \<Rightarrow> nat \<Rightarrow> cMsg \<Rightarrow> cMsg result" where
  "Msg_DeepCopy payload src to_id t =
     (let t = Msg_SetTCPSocketHandle t (Msg_GetTCPSocketHandle src);
          t = Msg_SetUDPSocketHandle t (Msg_GetUDPSocketHandle src);
          t = Msg_SetMsgID t (Msg_GetMsgID src);
          t = Msg_SetMsgState t (Msg_GetMsgState src);
          t = Msg_SetConnectionType t (Msg_GetConnectionType src);
          t = Msg_SetProtocolType t (Msg_GetProtocolType src);
          t = Msg_SetFormat t (Msg_GetFormat src);
          t = Msg_SetResponseCode t (Msg_GetResponseCode src);
          t = Msg_SetCommand t (Msg_GetCommand src);
          t = Msg_SetTo t (Msg_GetTo src);
          t = Msg_SetFrom t (Msg_GetFrom src);
          t = Msg_SetSubject t (Msg_GetSubject src);
          t = Msg_SetOptions t (Msg_GetOptions src);
          t = Msg_SetReplyAction t (Msg_GetReplyAction src);
          t = Msg_SetNotifyAction t (Msg_GetNotifyAction src)
      in rbind (Msg_SetStatusLine t (Msg_GetStatusLine src) (int (length (Msg_GetStatusLine src))))
           (\<lambda>t.
         let t = Msg_SetContentType t (Msg_GetContentType src);
             t = Msg_SetContentLength t (Msg_GetContentLength src)
         in rbind (Msg_SetContentPayload to_id t payload (MsgContentLength src)) (\<lambda>t.
            let t = Msg_SetContentPayloadPointer t (m_pPayload src);
                t = Msg_SetSourceIP t (Msg_GetSourceIP src);
                t = Msg_SetSourcePort t (Msg_GetSourcePort src);
                t = Msg_SetMsgPriority t (Msg_GetMsgPriority src);
                t = Msg_SetArrivalPort t (Msg_GetArrivalPort src)
            in Inr (Msg_SetKeepAlive t (Msg_IsKeepAlive src)))))"

definition Msg_ToString :: "cMsg \<Rightarrow> string \<times> cMsg" where
  "Msg_ToString m =
     (let s = (if MsgCommand m \<noteq> [] then cstr (MsgCommand m) @ [LF] else []) @
              (if MsgID m \<noteq> [] then ''MsgID: '' @ cstr (MsgID m) @ [LF] else []) @
              (if Msg_IsKeepAlive m then ''Connection: keep-alive'' @ [LF]
               else ''Connection: close'' @ [LF]) @
              (if MsgTo m \<noteq> [] then ''To: '' @ cstr (MsgTo m) @ [LF] else []) @
              (if MsgFrom m \<noteq> [] then ''From: '' @ cstr (MsgFrom m) @ [LF] else [])
      in (cstr s, m\<lparr>MsgToString := s\<rparr>))"

end
