(* ===== verification/MsgPool.thy ===== *)
theory MsgPool
  imports Msg
begin

text \<open>
  \<open>msgpool.h\<close> and \<open>msgpool.cpp\<close>: the class \<open>cMsgPool\<close>, which owns all messages of a
  queue and hands out the ones that are free.

  The messages live in a store from numbers (addresses) to messages; a number that is not in the
  store is a deleted message, and using it is a fault. \<open>m_Messages\<close> is the list of the pool's
  messages, \<open>m_it\<close> the position of the pool's one iterator in it (the length is \<open>end()\<close>), and
  the head of \<open>m_FreeMsgStack\<close> is the top of the stack.
\<close>

record cMsgPool =
  m_store :: "nat \<Rightarrow> cMsg option"
  m_iNextAddr :: nat
  m_bLocked :: bool
  m_Messages :: "nat list"
  m_it :: nat
  m_FreeMsgStack :: "nat list"

definition new_cMsgPool :: cMsgPool where
  "new_cMsgPool = \<lparr>m_store = (\<lambda>_. None), m_iNextAddr = 0, m_bLocked = False, m_Messages = [],
     m_it = 0, m_FreeMsgStack = []\<rparr>"

section \<open>Operations\<close>

definition pool_get :: "cMsgPool \<Rightarrow> nat \<Rightarrow> cMsg result" where
  "pool_get p a = (case m_store p a of None \<Rightarrow> Inl DanglingPointer | Some m \<Rightarrow> Inr m)"

definition pool_put :: "cMsgPool \<Rightarrow> nat \<Rightarrow> cMsg \<Rightarrow> cMsgPool" where
  "pool_put p a m = p\<lparr>m_store := (m_store p)(a \<mapsto> m)\<rparr>"

text \<open>One update of a message through its pointer.\<close>

definition pool_upd :: "cMsgPool \<Rightarrow> nat \<Rightarrow> (cMsg \<Rightarrow> cMsg) \<Rightarrow> cMsgPool result" where
  "pool_upd p a f = rbind (pool_get p a) (\<lambda>m. Inr (pool_put p a (f m)))"

text \<open>
  \<open>GetReusableMessage\<close>: the constructor of a new message resets it, and the pool resets every
  message it hands out; each reset asks for an id. The provider of ids goes in and comes back.
\<close>

definition Pool_GetReusableMessage ::
  "(nat \<Rightarrow> string) \<Rightarrow> int \<Rightarrow> cMsgPool \<Rightarrow> cUniqueIDProvider \<Rightarrow>
     (nat \<times> cMsgPool \<times> cUniqueIDProvider) result" where
  "Pool_GetReusableMessage uuid now p ids =
     (let (a, p, ids) =
        (case m_FreeMsgStack p of
           a # rest \<Rightarrow> (a, p\<lparr>m_FreeMsgStack := rest\<rparr>, ids)
         | [] \<Rightarrow>
             let a = m_iNextAddr p;
                 (newid, ids) = UniqueID_GetID uuid ids
             in (a, (pool_put p a (new_cMsg newid now))
                      \<lparr>m_iNextAddr := a + 1, m_Messages := m_Messages p @ [a]\<rparr>, ids))
      in let (newid, ids) = UniqueID_GetID uuid ids
         in rbind (pool_upd p a (\<lambda>m. Msg_SetMsgState (Msg_ResetMsg newid now m) MSG_STATE_INUSE))
              (\<lambda>p. Inr (a, p, ids)))"

definition Pool_GetMessage ::
  "(nat \<Rightarrow> string) \<Rightarrow> int \<Rightarrow> cMsgPool \<Rightarrow> cUniqueIDProvider \<Rightarrow>
     (nat \<times> cMsgPool \<times> cUniqueIDProvider) result" where
  "Pool_GetMessage uuid now p ids = Pool_GetReusableMessage uuid now p ids"

definition Pool_ReturnToPool :: "cMsgPool \<Rightarrow> nat \<Rightarrow> cMsgPool result" where
  "Pool_ReturnToPool p a =
     rbind (pool_upd p a (\<lambda>m. Msg_SetMsgState m MSG_STATE_INACTIVE)) (\<lambda>p.
     Inr (p\<lparr>m_FreeMsgStack := a # m_FreeMsgStack p\<rparr>))"

definition Pool_Lock :: "cMsgPool \<Rightarrow> cMsgPool" where
  "Pool_Lock p = p\<lparr>m_bLocked := True\<rparr>"

definition Pool_Unlock :: "cMsgPool \<Rightarrow> cMsgPool" where
  "Pool_Unlock p = p\<lparr>m_bLocked := False\<rparr>"

definition Pool_GetHead :: "cMsgPool \<Rightarrow> nat option \<times> cMsgPool" where
  "Pool_GetHead p =
     (if \<not> m_bLocked p then (None, p)
      else let p = p\<lparr>m_it := 0\<rparr>
           in if m_it p = length (m_Messages p) then (None, p)
              else (Some (m_Messages p ! m_it p), p))"

definition Pool_GetNext :: "cMsgPool \<Rightarrow> nat option \<times> cMsgPool" where
  "Pool_GetNext p =
     (if \<not> m_bLocked p then (None, p)
      else if m_it p = length (m_Messages p) then (None, p)
      else let p = p\<lparr>m_it := m_it p + 1\<rparr>
           in if m_it p = length (m_Messages p) then (None, p)
              else (Some (m_Messages p ! m_it p), p))"

text \<open>\<open>erase\<close> leaves the iterator at the next message; the code then moves it once more.\<close>

definition Pool_DeleteCurrent :: "cMsgPool \<Rightarrow> cMsgPool" where
  "Pool_DeleteCurrent p =
     (let p = p\<lparr>m_Messages := take (m_it p) (m_Messages p) @ drop (m_it p + 1) (m_Messages p)\<rparr>
      in if m_it p = length (m_Messages p) then p else p\<lparr>m_it := m_it p + 1\<rparr>)"

definition Pool_delete :: "cMsgPool \<Rightarrow> nat \<Rightarrow> cMsgPool" where
  "Pool_delete p a = p\<lparr>m_store := (m_store p)(a := None)\<rparr>"

definition Pool_FlushFreeStack :: "cMsgPool \<Rightarrow> cMsgPool" where
  "Pool_FlushFreeStack p = p\<lparr>m_FreeMsgStack := []\<rparr>"

definition Pool_Size :: "cMsgPool \<Rightarrow> int" where
  "Pool_Size p = int (length (m_FreeMsgStack p))"

section \<open>The invariant\<close>

definition state_of :: "cMsgPool \<Rightarrow> nat \<Rightarrow> eMsgState option" where
  "state_of p a = map_option MsgState (m_store p a)"

text \<open>
  The messages of the pool are distinct and exactly the live ones, addresses are never reused,
  and the free stack holds distinct inactive messages of the pool.
\<close>

definition pool_inv :: "cMsgPool \<Rightarrow> bool" where
  "pool_inv p \<longleftrightarrow>
     distinct (m_Messages p) \<and> set (m_Messages p) = dom (m_store p) \<and>
     (\<forall>a \<in> dom (m_store p). a < m_iNextAddr p) \<and>
     distinct (m_FreeMsgStack p) \<and> set (m_FreeMsgStack p) \<subseteq> set (m_Messages p) \<and>
     (\<forall>a \<in> set (m_FreeMsgStack p). state_of p a = Some MSG_STATE_INACTIVE)"

lemma pool_inv_new: "pool_inv new_cMsgPool"
  by (simp add: pool_inv_def new_cMsgPool_def)

lemma pool_get_live: "a \<in> dom (m_store p) \<Longrightarrow> \<exists>m. pool_get p a = Inr m \<and> m_store p a = Some m"
  by (auto simp: pool_get_def)

lemma pool_upd_live:
  "m_store p a = Some m \<Longrightarrow> pool_upd p a f = Inr (pool_put p a (f m))"
  by (simp add: pool_upd_def pool_get_def)

lemma state_of_put: "state_of (pool_put p a m) b = (if b = a then Some (MsgState m) else state_of p b)"
  by (simp add: state_of_def pool_put_def)

text \<open>
  What a client gets: a reset message that was free or is new, in use from now on, with the fresh
  id; every other message is as it was.
\<close>

lemma GetMessage_spec:
  assumes inv: "pool_inv p"
  shows "\<exists>a p' ids' newid. Pool_GetMessage uuid now p ids = Inr (a, p', ids') \<and> pool_inv p' \<and>
    (state_of p a = Some MSG_STATE_INACTIVE \<or> m_store p a = None) \<and>
    (\<exists>m. m_store p' a = Some (Msg_SetMsgState (Msg_ResetMsg newid now m) MSG_STATE_INUSE)) \<and>
    a \<notin> set (m_FreeMsgStack p') \<and> set (m_FreeMsgStack p') \<subseteq> set (m_FreeMsgStack p) \<and>
    (\<forall>b. b \<noteq> a \<longrightarrow> m_store p' b = m_store p b)"
proof (cases "m_FreeMsgStack p")
  case (Cons a rest)
  have "a \<in> set (m_Messages p)" "state_of p a = Some MSG_STATE_INACTIVE"
    using inv Cons by (auto simp: pool_inv_def)
  then obtain m where m: "m_store p a = Some m" by (auto simp: state_of_def)
  obtain newid ids' where g: "UniqueID_GetID uuid ids = (newid, ids')" by (cases "UniqueID_GetID uuid ids")
  let ?m = "Msg_SetMsgState (Msg_ResetMsg newid now m) MSG_STATE_INUSE"
  let ?p = "pool_put (p\<lparr>m_FreeMsgStack := rest\<rparr>) a ?m"
  have "Pool_GetMessage uuid now p ids = Inr (a, ?p, ids')"
    using Cons g m by (simp add: Pool_GetMessage_def Pool_GetReusableMessage_def pool_upd_live)
  moreover have "pool_inv ?p"
    using inv Cons m by (auto simp: pool_inv_def pool_put_def state_of_def)
  moreover have "a \<notin> set rest" using inv Cons by (simp add: pool_inv_def)
  ultimately show ?thesis using Cons \<open>state_of p a = Some MSG_STATE_INACTIVE\<close>
    by (auto simp: pool_put_def)
next
  case Nil
  let ?a = "m_iNextAddr p"
  have fresh: "m_store p ?a = None" "?a \<notin> set (m_Messages p)"
    using inv by (auto simp: pool_inv_def domIff)
  obtain id1 ids1 where g1: "UniqueID_GetID uuid ids = (id1, ids1)" by (cases "UniqueID_GetID uuid ids")
  obtain id2 ids2 where g2: "UniqueID_GetID uuid ids1 = (id2, ids2)" by (cases "UniqueID_GetID uuid ids1")
  let ?m = "Msg_SetMsgState (Msg_ResetMsg id2 now (new_cMsg id1 now)) MSG_STATE_INUSE"
  let ?p1 = "(pool_put p ?a (new_cMsg id1 now))\<lparr>m_iNextAddr := ?a + 1, m_Messages := m_Messages p @ [?a]\<rparr>"
  let ?p = "pool_put ?p1 ?a ?m"
  have "m_store ?p1 ?a = Some (new_cMsg id1 now)" by (simp add: pool_put_def)
  then have "Pool_GetMessage uuid now p ids = Inr (?a, ?p, ids2)"
    using Nil g1 g2 by (simp add: Pool_GetMessage_def Pool_GetReusableMessage_def Let_def pool_upd_live)
  moreover have "pool_inv ?p"
    using inv Nil fresh by (auto simp: pool_inv_def pool_put_def state_of_def less_Suc_eq)
  ultimately show ?thesis using Nil fresh by (auto simp: pool_put_def)
qed

lemma ReturnToPool_spec:
  assumes inv: "pool_inv p" and a: "m_store p a = Some m" "a \<notin> set (m_FreeMsgStack p)"
  shows "\<exists>p'. Pool_ReturnToPool p a = Inr p' \<and> pool_inv p' \<and> m_FreeMsgStack p' = a # m_FreeMsgStack p \<and>
    (\<forall>b. b \<noteq> a \<longrightarrow> m_store p' b = m_store p b)"
  using inv a
  by (auto simp: Pool_ReturnToPool_def pool_upd_live pool_inv_def pool_put_def state_of_def
      Msg_SetMsgState_def)

end
