(* ===== verification/MsgFlush.thy ===== *)
theory MsgFlush
  imports MsgPool
begin

text \<open>
  \<open>cMsgQueue::FlushMessages\<close> of \<open>msgqueue.cpp\<close>, which the queue runs once a second:
  messages that are done go back to the free stack, and free messages that nobody used for a
  minute are deleted. The counts that the code keeps for its log line are left out.
\<close>

section \<open>The operation\<close>

definition flush_mark :: "cMsgPool \<Rightarrow> nat \<Rightarrow> cMsg \<Rightarrow> cMsgPool" where
  "flush_mark p a m =
     (case MsgState m of
        MSG_STATE_INACTIVE \<Rightarrow> pool_put p a (Msg_SetMsgState m MSG_STATE_MARKFORREUSE)
      | MSG_STATE_DELIVERED \<Rightarrow> pool_put p a (Msg_SetMsgState m MSG_STATE_MARKFORREUSE)
      | MSG_STATE_PROCESSED \<Rightarrow> pool_put p a (Msg_SetMsgState m MSG_STATE_MARKFORREUSE)
      | _ \<Rightarrow> p)"

definition flush_visit :: "int \<Rightarrow> cMsgPool \<Rightarrow> nat \<Rightarrow> cMsgPool result" where
  "flush_visit now p a =
     rbind (pool_get p a) (\<lambda>m.
       let msgState = Msg_GetMsgState m;
           p = flush_mark p a m
       in if msgState = MSG_STATE_INACTIVE \<and> now - Msg_GetMsgInUseTS m > 60
          then Inr (Pool_delete (Pool_DeleteCurrent p) a)
          else rbind (pool_get p a) (\<lambda>m.
               if Msg_GetMsgState m = MSG_STATE_MARKFORREUSE then Pool_ReturnToPool p a else Inr p))"

text \<open>The loop ends: every round moves the iterator or shortens the list.\<close>

definition left_over :: "cMsgPool \<Rightarrow> nat" where
  "left_over p = length (m_Messages p) - m_it p"

lemma left_over_mark: "left_over (flush_mark p a m) = left_over p"
  by (simp add: flush_mark_def pool_put_def left_over_def split: eMsgState.split)

lemma left_over_delete: "left_over (Pool_delete (Pool_DeleteCurrent p) a) \<le> left_over p"
  by (auto simp: Pool_delete_def Pool_DeleteCurrent_def Let_def left_over_def min_def)

lemma left_over_return: "Pool_ReturnToPool p a = Inr p' \<Longrightarrow> left_over p' = left_over p"
  by (auto simp: Pool_ReturnToPool_def pool_upd_def pool_put_def left_over_def result_simps)

lemma left_over_visit: "flush_visit now p a = Inr p' \<Longrightarrow> left_over p' \<le> left_over p"
  using left_over_mark [of p a] left_over_delete [of "flush_mark p a _" a] left_over_return
  by (auto simp: flush_visit_def Let_def result_simps split: if_splits)

lemma left_over_next: "Pool_GetNext p = (Some a, p') \<Longrightarrow> left_over p' < left_over p \<or> m_it p > length (m_Messages p)"
  by (auto simp: Pool_GetNext_def Let_def left_over_def split: if_splits)

function flush_loop :: "int \<Rightarrow> cMsgPool \<Rightarrow> nat \<Rightarrow> cMsgPool result" where
  "flush_loop now p a =
     (if m_it p \<ge> length (m_Messages p) then Inl OutOfBounds
      else rbind (flush_visit now p a) (\<lambda>p.
        case Pool_GetNext p of
          (None, p) \<Rightarrow> Inr p
        | (Some a, p) \<Rightarrow> flush_loop now p a))"
  by pat_completeness auto
termination
proof (relation "measure (\<lambda>(now, p, a). left_over p)", goal_cases)
  case 1
  then show ?case by simp
next
  case (2 now p a p1 r p2 b)
  have v: "left_over p1 \<le> left_over p" using left_over_visit 2(2) .
  have g: "Pool_GetNext p1 = (Some b, p2)" using 2(3,4) by simp
  have "left_over p2 < left_over p"
  proof (cases "m_it p1 > length (m_Messages p1)")
    case True
    then have "left_over p1 = 0" "left_over p2 = 0"
      using g by (auto simp: left_over_def Pool_GetNext_def Let_def split: if_splits)
    then show ?thesis using 2(1) by (simp add: left_over_def)
  next
    case False
    then show ?thesis using left_over_next [OF g] v by auto
  qed
  then show ?case by simp
qed

declare flush_loop.simps [simp del]

definition FlushMessages :: "int \<Rightarrow> cMsgPool \<Rightarrow> cMsgPool result" where
  "FlushMessages now p =
     (let p = Pool_FlushFreeStack (Pool_Lock p)
      in case Pool_GetHead p of
           (None, p) \<Rightarrow> Inr (Pool_Unlock p)
         | (Some a, p) \<Rightarrow> rbind (flush_loop now p a) (\<lambda>p. Inr (Pool_Unlock p)))"

section \<open>Flushing keeps the invariant and touches no message that is being worked on\<close>

definition busy :: "eMsgState \<Rightarrow> bool" where
  "busy s \<longleftrightarrow> s = MSG_STATE_PENDING \<or> s = MSG_STATE_INUSE \<or> s = MSG_STATE_UNDELIVERED"

definition busy_kept :: "cMsgPool \<Rightarrow> cMsgPool \<Rightarrow> bool" where
  "busy_kept p0 p \<longleftrightarrow> (\<forall>a m. m_store p0 a = Some m \<and> busy (MsgState m) \<longrightarrow> m_store p a = Some m)"

text \<open>The state between two rounds; \<open>n\<close> is the number of list places already dealt with.\<close>

definition flush_inv :: "cMsgPool \<Rightarrow> nat \<Rightarrow> cMsgPool \<Rightarrow> bool" where
  "flush_inv p0 n p \<longleftrightarrow>
     m_bLocked p \<and> distinct (m_Messages p) \<and> set (m_Messages p) = dom (m_store p) \<and>
     (\<forall>a \<in> dom (m_store p). a < m_iNextAddr p) \<and> distinct (m_FreeMsgStack p) \<and>
     set (m_FreeMsgStack p) \<subseteq> set (take n (m_Messages p)) \<and>
     (\<forall>a \<in> set (m_FreeMsgStack p). state_of p a = Some MSG_STATE_INACTIVE) \<and> busy_kept p0 p"

lemma distinct_nth_take: "distinct xs \<Longrightarrow> n < length xs \<Longrightarrow> xs ! n \<notin> set (take n xs)"
  by (auto simp: in_set_conv_nth nth_eq_iff_index_eq)

lemma busy_kept_put:
  assumes "busy_kept p0 p" "m_store p a = Some m" "\<not> busy (MsgState m)"
  shows "busy_kept p0 (pool_put p a m')"
  unfolding busy_kept_def
proof (intro allI impI, elim conjE)
  fix b n assume b: "m_store p0 b = Some n" "busy (MsgState n)"
  then have "m_store p b = Some n" using assms(1) by (simp add: busy_kept_def)
  then show "m_store (pool_put p a m') b = Some n" using assms b by (auto simp: pool_put_def)
qed

lemma flush_put:
  assumes inv: "flush_inv p0 n p" and n: "n < length (m_Messages p)" and a: "m_Messages p ! n = a"
    and m: "m_store p a = Some m" "\<not> busy (MsgState m)"
  shows "flush_inv p0 n (pool_put p a m')"
proof -
  have "a \<notin> set (m_FreeMsgStack p)"
    using inv n a distinct_nth_take [of "m_Messages p" n] by (auto simp: flush_inv_def)
  moreover have "busy_kept p0 (pool_put p a m')" using inv m by (intro busy_kept_put) (auto simp: flush_inv_def)
  ultimately show ?thesis using inv m
    by (auto simp: flush_inv_def pool_put_def state_of_def)
qed

lemma flush_return:
  assumes inv: "flush_inv p0 n p" and n: "n < length (m_Messages p)" and a: "m_Messages p ! n = a"
    and m: "m_store p a = Some m" "\<not> busy (MsgState m)"
  shows "\<exists>p'. Pool_ReturnToPool p a = Inr p' \<and> flush_inv p0 (Suc n) p' \<and>
    m_it p' = m_it p \<and> m_Messages p' = m_Messages p"
proof -
  let ?p = "pool_put p a (Msg_SetMsgState m MSG_STATE_INACTIVE)"
  let ?q = "?p\<lparr>m_FreeMsgStack := a # m_FreeMsgStack ?p\<rparr>"
  have f: "flush_inv p0 n ?p" by (rule flush_put [OF inv n a m])
  have fresh: "a \<notin> set (m_FreeMsgStack p)"
    using inv n a distinct_nth_take [of "m_Messages p" n] by (auto simp: flush_inv_def)
  have t: "take (Suc n) (m_Messages p) = take n (m_Messages p) @ [a]"
    using n a by (simp add: take_Suc_conv_app_nth)
  have "flush_inv p0 (Suc n) ?q"
    using f fresh t unfolding flush_inv_def busy_kept_def
    by (auto simp: pool_put_def state_of_def Msg_SetMsgState_def)
  moreover have "Pool_ReturnToPool p a = Inr ?q"
    using m by (simp add: Pool_ReturnToPool_def pool_upd_live)
  ultimately show ?thesis by (auto simp: pool_put_def)
qed

lemma flush_delete:
  assumes inv: "flush_inv p0 n p" and n: "n < length (m_Messages p)" and a: "m_Messages p ! n = a"
    and m: "m_store p a = Some m" "\<not> busy (MsgState m)" and it: "m_it p = n"
  shows "flush_inv p0 n (Pool_delete (Pool_DeleteCurrent p) a)"
    "m_it (Pool_delete (Pool_DeleteCurrent p) a) \<in> {n, Suc n}"
    "m_it (Pool_delete (Pool_DeleteCurrent p) a) \<le> length (m_Messages (Pool_delete (Pool_DeleteCurrent p) a))"
proof -
  let ?ms = "take n (m_Messages p) @ drop (n + 1) (m_Messages p)"
  let ?q = "Pool_delete (Pool_DeleteCurrent p) a"
  have split: "m_Messages p = take n (m_Messages p) @ a # drop (n + 1) (m_Messages p)"
    using id_take_nth_drop [OF n] a by simp
  have d: "distinct (m_Messages p)" using inv by (simp add: flush_inv_def)
  have q: "m_Messages ?q = ?ms" "m_store ?q = (m_store p)(a := None)"
    "m_FreeMsgStack ?q = m_FreeMsgStack p" "m_bLocked ?q = m_bLocked p"
    "m_iNextAddr ?q = m_iNextAddr p"
    using it by (simp_all add: Pool_delete_def Pool_DeleteCurrent_def Let_def)
  have "distinct (take n (m_Messages p) @ a # drop (n + 1) (m_Messages p))"
    "set (m_Messages p) = set (take n (m_Messages p) @ a # drop (n + 1) (m_Messages p))"
    using d split by metis+
  then have set_ms: "set ?ms = set (m_Messages p) - {a}" and dist: "distinct ?ms"
    by (auto simp del: append_take_drop_id)
  have fresh: "a \<notin> set (m_FreeMsgStack p)"
    using inv n a distinct_nth_take [of "m_Messages p" n] by (auto simp: flush_inv_def)
  have "busy_kept p0 ?q"
    using inv m unfolding flush_inv_def busy_kept_def q(2) by (auto simp: fun_upd_def)
  moreover have "take n ?ms = take n (m_Messages p)" using n by simp
  ultimately show "flush_inv p0 n ?q"
    using inv set_ms dist fresh unfolding flush_inv_def q
    by (auto simp: state_of_def q)
  show "m_it ?q \<in> {n, Suc n}" "m_it ?q \<le> length (m_Messages ?q)"
    using n it unfolding q by (auto simp: Pool_delete_def Pool_DeleteCurrent_def Let_def)
qed

lemma flush_visit_spec:
  assumes inv: "flush_inv p0 n p" and n: "n < length (m_Messages p)" "m_it p = n"
    and a: "m_Messages p ! n = a"
  shows "\<exists>p'. flush_visit now p a = Inr p' \<and> flush_inv p0 (Suc (m_it p')) p' \<and>
    m_it p' \<le> length (m_Messages p')"
proof -
  have "a \<in> dom (m_store p)" using inv n a by (auto simp: flush_inv_def)
  then obtain m where m: "m_store p a = Some m" by auto
  then have g: "pool_get p a = Inr m" by (simp add: pool_get_def)
  have mono: "flush_inv p0 k q \<Longrightarrow> k \<le> j \<Longrightarrow> flush_inv p0 j q" for k j q
    using set_take_subset_set_take [of k j "m_Messages q"] by (auto simp: flush_inv_def)
  show ?thesis
  proof (cases "busy (MsgState m)")
    case True
    then have "flush_visit now p a = Inr p"
      using g by (auto simp: flush_visit_def flush_mark_def Msg_GetMsgState_def Let_def busy_def)
    then show ?thesis using mono [OF inv, of "Suc n"] n by auto
  next
    case False
    let ?p = "flush_mark p a m"
    let ?m = "if MsgState m = MSG_STATE_MARKFORREUSE then m
      else Msg_SetMsgState m MSG_STATE_MARKFORREUSE"
    have p: "?p = (if MsgState m = MSG_STATE_MARKFORREUSE then p else pool_put p a ?m)"
      using False by (cases "MsgState m") (auto simp: flush_mark_def busy_def)
    have f: "flush_inv p0 n ?p" using flush_put [OF inv n(1) a m False] inv by (simp add: p)
    have k: "m_Messages ?p = m_Messages p" "m_it ?p = m_it p" "m_store ?p a = Some ?m"
      using m by (simp_all add: p pool_put_def)
    have st: "MsgState ?m = MSG_STATE_MARKFORREUSE" by (simp add: Msg_SetMsgState_def)
    then have nb: "\<not> busy (MsgState ?m)" by (simp only: busy_def) simp
    show ?thesis
    proof (cases "MsgState m = MSG_STATE_INACTIVE \<and> now - MsgInUseTS m > 60")
      case True
      then have "flush_visit now p a = Inr (Pool_delete (Pool_DeleteCurrent ?p) a)"
        using g by (simp add: flush_visit_def Msg_GetMsgState_def Msg_GetMsgInUseTS_def)
      then show ?thesis
        using flush_delete [OF f _ _ k(3) nb] k(1,2) n a mono by fastforce
    next
      case False
      have "flush_visit now p a = Pool_ReturnToPool ?p a"
        using g False st k(3)
        by (auto simp: flush_visit_def Msg_GetMsgState_def Msg_GetMsgInUseTS_def pool_get_def)
      then show ?thesis using flush_return [OF f _ _ k(3) nb] k(1,2) n a by auto
    qed
  qed
qed

lemma flush_loop_spec:
  "flush_inv p0 n p \<Longrightarrow> n < length (m_Messages p) \<Longrightarrow> m_it p = n \<Longrightarrow> m_Messages p ! n = a \<Longrightarrow>
     \<exists>p' k. flush_loop now p a = Inr p' \<and> flush_inv p0 k p'"
proof (induction now p a arbitrary: n rule: flush_loop.induct)
  case (1 now p a)
  from flush_visit_spec [OF "1.prems"] obtain p1 where
    p1: "flush_visit now p a = Inr p1" "flush_inv p0 (Suc (m_it p1)) p1"
      "m_it p1 \<le> length (m_Messages p1)" by blast
  have lk: "m_bLocked p1" using p1(2) by (simp add: flush_inv_def)
  have guard: "\<not> m_it p \<ge> length (m_Messages p)" using "1.prems" by simp
  show ?case
  proof (cases "Pool_GetNext p1")
    case (Pair r p2)
    show ?thesis
    proof (cases r)
      case None
      have "flush_inv p0 (Suc (m_it p1)) p2"
        using p1(2) Pair None lk
        by (auto simp: Pool_GetNext_def Let_def flush_inv_def busy_kept_def state_of_def split: if_splits)
      then show ?thesis using p1(1) Pair None guard by (subst flush_loop.simps) auto
    next
      case (Some b)
      have p2: "p2 = p1\<lparr>m_it := m_it p1 + 1\<rparr>" "m_it p1 + 1 < length (m_Messages p1)"
        "b = m_Messages p1 ! (m_it p1 + 1)"
        using Pair Some p1(3) by (auto simp: Pool_GetNext_def Let_def split: if_splits)
      have inv2: "flush_inv p0 (Suc (m_it p1)) p2"
        using p1(2) unfolding p2(1) by (auto simp: flush_inv_def busy_kept_def state_of_def)
      from "1.IH" [OF guard p1(1) Pair [symmetric] Some inv2] p2
      have "\<exists>p' k. flush_loop now p2 b = Inr p' \<and> flush_inv p0 k p'" by simp
      then show ?thesis using p1(1) Pair Some guard by (subst flush_loop.simps) auto
    qed
  qed
qed

lemma FlushMessages_spec:
  assumes inv: "pool_inv p"
  shows "\<exists>p'. FlushMessages now p = Inr p' \<and> pool_inv p' \<and> \<not> m_bLocked p' \<and> busy_kept p p'"
proof -
  let ?p = "(Pool_FlushFreeStack (Pool_Lock p))\<lparr>m_it := 0\<rparr>"
  have start: "flush_inv p 0 ?p"
    using inv by (auto simp: flush_inv_def pool_inv_def Pool_FlushFreeStack_def Pool_Lock_def busy_kept_def)
  have done': "pool_inv (Pool_Unlock q) \<and> \<not> m_bLocked (Pool_Unlock q) \<and> busy_kept p (Pool_Unlock q)"
    if "flush_inv p k q" for k q
    using that set_take_subset [of k "m_Messages q"]
    by (auto simp: flush_inv_def pool_inv_def Pool_Unlock_def busy_kept_def state_of_def)
  show ?thesis
  proof (cases "m_Messages p")
    case Nil
    then have "FlushMessages now p = Inr (Pool_Unlock ?p)"
      by (simp add: FlushMessages_def Pool_GetHead_def Pool_FlushFreeStack_def Pool_Lock_def Let_def)
    then show ?thesis using done' [OF start] by blast
  next
    case (Cons a ms)
    then have ms: "m_Messages ?p = a # ms"
      by (simp add: Pool_FlushFreeStack_def Pool_Lock_def)
    from flush_loop_spec [OF start, of a now] ms obtain q k where
      q: "flush_loop now ?p a = Inr q" "flush_inv p k q" by auto
    then have "FlushMessages now p = Inr (Pool_Unlock q)"
      using Cons by (simp add: FlushMessages_def Pool_GetHead_def Pool_FlushFreeStack_def Pool_Lock_def Let_def)
    then show ?thesis using done' [OF q(2)] by blast
  qed
qed

section \<open>When nothing is expired, every finished message is handed back\<close>

definition expired :: "int \<Rightarrow> cMsg \<Rightarrow> bool" where
  "expired now m \<longleftrightarrow> MsgState m = MSG_STATE_INACTIVE \<and> now - MsgInUseTS m > 60"

definition reclaim_inv :: "cMsgPool \<Rightarrow> nat \<Rightarrow> cMsgPool \<Rightarrow> bool" where
  "reclaim_inv p0 n p \<longleftrightarrow>
     m_bLocked p \<and> m_Messages p = m_Messages p0 \<and>
     (\<forall>j < length (m_Messages p0). n \<le> j \<longrightarrow>
        m_store p (m_Messages p0 ! j) = m_store p0 (m_Messages p0 ! j)) \<and>
     (\<forall>j < length (m_Messages p0). j < n \<longrightarrow>
        (case m_store p0 (m_Messages p0 ! j) of None \<Rightarrow> False
         | Some m \<Rightarrow> \<not> busy (MsgState m) \<longrightarrow> m_Messages p0 ! j \<in> set (m_FreeMsgStack p)))"

lemma reclaim_inv_iterator [simp]: "reclaim_inv p0 n (p\<lparr>m_it := k\<rparr>) = reclaim_inv p0 n p"
  unfolding reclaim_inv_def by (auto split: option.splits)

lemma flush_visit_keep:
  assumes m: "m_store p a = Some m" and e: "\<not> expired now m"
  shows "flush_visit now p a =
    Inr (if busy (MsgState m) then p
         else (pool_put p a (Msg_SetMsgState m MSG_STATE_INACTIVE))
                \<lparr>m_FreeMsgStack := a # m_FreeMsgStack p\<rparr>)"
  using m e
  by (cases "MsgState m")
    (simp_all add: flush_visit_def flush_mark_def pool_get_def pool_put_def expired_def busy_def
      Msg_GetMsgState_def Msg_GetMsgInUseTS_def Msg_SetMsgState_def Pool_ReturnToPool_def pool_upd_def)

lemma reclaim_visit:
  assumes inv: "reclaim_inv p0 n p" and n: "n < length (m_Messages p0)"
    and d: "distinct (m_Messages p0)" and m: "m_store p0 (m_Messages p0 ! n) = Some m"
    and e: "\<not> expired now m"
  shows "\<exists>p'. flush_visit now p (m_Messages p0 ! n) = Inr p' \<and> reclaim_inv p0 (Suc n) p' \<and> m_it p' = m_it p"
proof -
  let ?a = "m_Messages p0 ! n"
  have ma: "m_store p ?a = Some m" using inv n m by (simp add: reclaim_inv_def)
  have other: "m_Messages p0 ! j \<noteq> ?a" if "Suc n \<le> j" "j < length (m_Messages p0)" for j
    using d n that by (simp add: nth_eq_iff_index_eq)
  let ?p = "if busy (MsgState m) then p else (pool_put p ?a (Msg_SetMsgState m MSG_STATE_INACTIVE))
                \<lparr>m_FreeMsgStack := ?a # m_FreeMsgStack p\<rparr>"
  have "reclaim_inv p0 (Suc n) ?p"
    using inv m other unfolding reclaim_inv_def
    by (auto simp: pool_put_def less_Suc_eq split: option.splits)
  moreover have "m_it ?p = m_it p" by (simp add: pool_put_def)
  ultimately show ?thesis using flush_visit_keep [OF ma e] by metis
qed

lemma reclaim_loop:
  assumes d: "distinct (m_Messages p0)"
    and live: "\<forall>a \<in> set (m_Messages p0). \<exists>m. m_store p0 a = Some m \<and> \<not> expired now m"
  shows "reclaim_inv p0 n p \<Longrightarrow> n < length (m_Messages p0) \<Longrightarrow> m_it p = n \<Longrightarrow> a = m_Messages p0 ! n \<Longrightarrow>
    \<exists>p'. flush_loop now p a = Inr p' \<and> reclaim_inv p0 (length (m_Messages p0)) p'"
proof (induction "length (m_Messages p0) - n" arbitrary: n p a)
  case 0
  then show ?case by simp
next
  case (Suc k)
  have ms: "m_Messages p = m_Messages p0" using Suc.prems(1) by (simp add: reclaim_inv_def)
  obtain m where m: "m_store p0 (m_Messages p0 ! n) = Some m" "\<not> expired now m"
    using live Suc.prems(2) by (meson nth_mem)
  from reclaim_visit [OF Suc.prems(1,2) d m] obtain p1 where
    p1: "flush_visit now p a = Inr p1" "reclaim_inv p0 (Suc n) p1" "m_it p1 = n"
    using Suc.prems(3,4) by auto
  have ms1: "m_Messages p1 = m_Messages p0" and lk: "m_bLocked p1"
    using p1(2) by (simp_all add: reclaim_inv_def)
  have guard: "\<not> m_it p \<ge> length (m_Messages p)" using Suc.prems(2,3) ms by simp
  let ?p2 = "p1\<lparr>m_it := Suc n\<rparr>"
  have r2: "reclaim_inv p0 (Suc n) ?p2" using p1(2) by (simp add: reclaim_inv_iterator)
  show ?case
  proof (cases "Suc n = length (m_Messages p0)")
    case True
    then have "Pool_GetNext p1 = (None, ?p2)"
      using lk p1(3) ms1 Suc.prems(2) by (simp add: Pool_GetNext_def Let_def)
    then show ?thesis using p1(1) guard r2 True by (subst flush_loop.simps) simp
  next
    case False
    then have "Pool_GetNext p1 = (Some (m_Messages p0 ! Suc n), ?p2)"
      using lk p1(3) ms1 Suc.prems(2) by (simp add: Pool_GetNext_def Let_def)
    moreover have "\<exists>p'. flush_loop now ?p2 (m_Messages p0 ! Suc n) = Inr p' \<and>
        reclaim_inv p0 (length (m_Messages p0)) p'"
      using Suc.hyps(1) [of "Suc n" ?p2] Suc.hyps(2) Suc.prems(2) False r2 by auto
    ultimately show ?thesis using p1(1) guard by (subst flush_loop.simps) simp
  qed
qed

lemma FlushMessages_reclaims:
  assumes inv: "pool_inv p"
    and fresh: "\<forall>a m. m_store p a = Some m \<longrightarrow> \<not> expired now m"
  shows "\<exists>p'. FlushMessages now p = Inr p' \<and> m_Messages p' = m_Messages p \<and>
    (\<forall>a m. m_store p a = Some m \<and> \<not> busy (MsgState m) \<longrightarrow> a \<in> set (m_FreeMsgStack p'))"
proof -
  let ?p = "(Pool_FlushFreeStack (Pool_Lock p))\<lparr>m_it := 0\<rparr>"
  have d: "distinct (m_Messages p)" and dom: "set (m_Messages p) = dom (m_store p)"
    using inv by (auto simp: pool_inv_def)
  have live: "\<forall>a \<in> set (m_Messages p). \<exists>m. m_store p a = Some m \<and> \<not> expired now m"
    using dom fresh by auto
  have start: "reclaim_inv p 0 ?p"
    by (simp add: reclaim_inv_def Pool_FlushFreeStack_def Pool_Lock_def)
  show ?thesis
  proof (cases "m_Messages p")
    case Nil
    then have "FlushMessages now p = Inr (Pool_Unlock ?p)"
      by (simp add: FlushMessages_def Pool_GetHead_def Pool_FlushFreeStack_def Pool_Lock_def Let_def)
    moreover have "m_Messages (Pool_Unlock ?p) = m_Messages p"
      by (simp add: Pool_Unlock_def Pool_FlushFreeStack_def Pool_Lock_def)
    moreover have "m_store p = Map.empty" using Nil dom by (metis dom_eq_empty_conv empty_set)
    ultimately show ?thesis by (intro exI [of _ "Pool_Unlock ?p"]) simp
  next
    case (Cons a ms)
    have c: "0 < length (m_Messages p)" "a = m_Messages p ! 0" using Cons by simp_all
    have it: "m_it ?p = 0" by simp
    obtain q where q: "flush_loop now ?p a = Inr q" "reclaim_inv p (length (m_Messages p)) q"
      using reclaim_loop [OF d live start c(1) it c(2)] by blast
    then have "FlushMessages now p = Inr (Pool_Unlock q)"
      using Cons by (simp add: FlushMessages_def Pool_GetHead_def Pool_FlushFreeStack_def Pool_Lock_def Let_def)
    moreover have "a \<in> set (m_FreeMsgStack q)" if "m_store p a = Some m" "\<not> busy (MsgState m)" for a m
    proof -
      have "a \<in> set (m_Messages p)" using that(1) dom by auto
      then obtain j where "j < length (m_Messages p)" "a = m_Messages p ! j" by (auto simp: in_set_conv_nth)
      then show ?thesis using q(2) that unfolding reclaim_inv_def by fastforce
    qed
    ultimately show ?thesis using q(2) by (auto simp: Pool_Unlock_def reclaim_inv_def)
  qed
qed

text \<open>
  A deletion makes the iterator skip the two messages behind the deleted one: delivered messages
  there stay delivered until a later flush.
\<close>

lemma flush_visit_delete:
  assumes "m_store p a = Some m" "expired now m"
  shows "\<exists>m'. flush_visit now p a = Inr (Pool_delete (Pool_DeleteCurrent (pool_put p a m')) a)"
  using assms
  by (auto simp: flush_visit_def flush_mark_def pool_get_def expired_def
      Msg_GetMsgState_def Msg_GetMsgInUseTS_def)

lemma flush_skips:
  assumes ms: "m_Messages p = [a, b, c]" and m: "m_store p a = Some m" "expired now m"
    and d: "distinct [a, b, c]"
  shows "\<exists>p'. FlushMessages now p = Inr p' \<and> m_Messages p' = [b, c] \<and> m_FreeMsgStack p' = [] \<and>
     m_store p' b = m_store p b \<and> m_store p' c = m_store p c"
proof -
  let ?p = "(Pool_FlushFreeStack (Pool_Lock p))\<lparr>m_it := 0\<rparr>"
  have "m_store ?p a = Some m" using m(1) by (simp add: Pool_FlushFreeStack_def Pool_Lock_def)
  from flush_visit_delete [OF this m(2)] obtain m' where
    v: "flush_visit now ?p a = Inr (Pool_delete (Pool_DeleteCurrent (pool_put ?p a m')) a)" (is "_ = Inr ?q")
    by blast
  have q: "m_Messages ?q = [b, c]" "m_it ?q = 1" "m_bLocked ?q" "m_FreeMsgStack ?q = []"
    "m_store ?q = ((m_store p)(a \<mapsto> m'))(a := None)"
    using ms by (simp_all add: Pool_delete_def Pool_DeleteCurrent_def pool_put_def
        Pool_FlushFreeStack_def Pool_Lock_def Let_def)
  have "Pool_GetNext ?q = (None, ?q\<lparr>m_it := 2\<rparr>)" using q by (simp add: Pool_GetNext_def Let_def)
  then have "flush_loop now ?p a = Inr (?q\<lparr>m_it := 2\<rparr>)"
    using v ms by (subst flush_loop.simps) (simp add: Pool_FlushFreeStack_def Pool_Lock_def)
  moreover have "Pool_GetHead (Pool_FlushFreeStack (Pool_Lock p)) = (Some a, ?p)"
    using ms by (simp add: Pool_GetHead_def Pool_FlushFreeStack_def Pool_Lock_def Let_def)
  ultimately have "FlushMessages now p = Inr (Pool_Unlock (?q\<lparr>m_it := 2\<rparr>))"
    by (simp add: FlushMessages_def Let_def)
  then show ?thesis using q d by (auto simp: Pool_Unlock_def)
qed

end
