(* ===== verification/MsgParse.thy ===== *)
theory MsgParse
  imports Msg
begin

text \<open>
  \<open>cMsg::Parse\<close> of \<open>msg.cpp\<close>: a message that arrived in \<open>MsgBuffer\<close> is taken apart
  into the members of the message. The lemmas say what the members are for a well-formed message,
  and that its payload pointer is the start of the body.
\<close>

section \<open>Operations\<close>

definition parse_tag :: "string \<Rightarrow> string" where
  "parse_tag s =
     (if length s \<noteq> 0 then RoutingTag_GetTag (RoutingTag_SetTag new_cRoutingTag s) else s)"

definition contains :: "string \<Rightarrow> string \<Rightarrow> bool" where
  "contains p s \<longleftrightarrow> find_sub p s \<noteq> None"

definition parse_priority :: "string \<Rightarrow> int" where
  "parse_priority sMsgOptions =
     (if contains ''priority-lowest'' sMsgOptions then MSG_PRIORITY_LOWEST
      else if contains ''priority-low'' sMsgOptions then MSG_PRIORITY_LOW
      else if contains ''priority-mid'' sMsgOptions then MSG_PRIORITY_MID
      else if contains ''priority-highest'' sMsgOptions then MSG_PRIORITY_HIGHEST
      else if contains ''priority-high'' sMsgOptions then MSG_PRIORITY_HIGH
      else MSG_PRIORITY_LOWEST)"

definition parse_reply ::
  "string \<Rightarrow> eMsgConnectionType \<Rightarrow> eMsgReplyActionType \<Rightarrow> eMsgReplyActionType" where
  "parse_reply sMsgOptions ct old =
     (if contains ''reply-none'' sMsgOptions then MSG_REPLY_ACTION_NONE
      else if contains ''reply-wait'' sMsgOptions then MSG_REPLY_ACTION_WAIT
      else if contains ''reply-nowait'' sMsgOptions then MSG_REPLY_ACTION_NOWAIT
      else
        let r = (if ct = MSG_CT_OB_UDP \<or> ct = MSG_CT_IB_UDP then MSG_REPLY_ACTION_NOWAIT else old)
        in if ct = MSG_CT_OB_TCP \<or> ct = MSG_CT_IB_TCP then MSG_REPLY_ACTION_WAIT else r)"

definition parse_notify :: "string \<Rightarrow> eMsgNotifyActionType" where
  "parse_notify sMsgOptions =
     (if contains ''notify-yes'' sMsgOptions then MSG_NOTIFY_ACTION_YES
      else if contains ''notify-no'' sMsgOptions then MSG_NOTIFY_ACTION_NO
      else MSG_NOTIFY_ACTION_NO)"

text \<open>The part of \<open>Parse\<close> that reads the extracted header.\<close>

definition parse_fields :: "nat \<Rightarrow> string \<Rightarrow> int \<Rightarrow> cMsg \<Rightarrow> cMsg" where
  "parse_fields this newid iEndOfHeader m =
     (let val = HeaderExtract_GetValue (m_HeaderExtract m);
          connection = val ''Connection'';
          m = (if length connection > 0 \<and> (connection = ''close'' \<or> connection = ''Close'')
               then m\<lparr>m_bKeepAlive := False\<rparr> else m);
          m = m\<lparr>MsgID := val ''MsgID''\<rparr>;
          m = (if length (MsgID m) = 0 \<or> MsgID m = ''0'' then m\<lparr>MsgID := newid\<rparr> else m);
          m = m\<lparr>MsgTo := parse_tag (val ''To'')\<rparr>;
          m = m\<lparr>MsgFrom := parse_tag (val ''From'')\<rparr>;
          m = m\<lparr>MsgSubject := val ''Subject''\<rparr>;
          sMsgOptions = val ''Options'';
          m = m\<lparr>MsgPriority := parse_priority sMsgOptions\<rparr>;
          m = m\<lparr>MsgReplyActionType :=
                 parse_reply sMsgOptions (MsgConnectionType m) (MsgReplyActionType m)\<rparr>;
          m = m\<lparr>MsgNotifyActionType := parse_notify sMsgOptions\<rparr>;
          m = m\<lparr>MsgCRC32 := val ''CRC32''\<rparr>;
          m = m\<lparr>MsgContentType := val ''Content-Type''\<rparr>;
          m = m\<lparr>MsgContentLength := 0\<rparr>;
          sContentLength = val ''Content-Length''
      in if length sContentLength \<noteq> 0
         then m\<lparr>MsgContentLength := atoi (cstr sContentLength),
                m_pPayload := Some (MsgPtr this (iEndOfHeader + 4))\<rparr>
         else m)"

text \<open>
  The first part: status line, header size, command. \<open>assign(pData, -1)\<close> for a message without a
  line end throws a \<open>length_error\<close>; \<open>Parse\<close> catches it, and its handler's \<open>LOGALL\<close> logs the text
  and throws it again as a character pointer, so the exception leaves \<open>Parse\<close> all the same (the text
  is the string library's). A failed \<open>MC_ASSERT\<close> throws a \<open>char*\<close>, which \<open>Parse\<close> does not catch.
\<close>

definition parse_text :: "cBuffer \<Rightarrow> int \<Rightarrow> string result" where
  "parse_text b n = rbind (mem_slice (block_of (Buffer_GetRawBuffer b)) 0 n) mem_text"

definition Msg_Parse ::
  "nat \<Rightarrow> string \<Rightarrow> eMsgConnectionType \<Rightarrow> eMsgFormat \<Rightarrow> cMsg \<Rightarrow> cMsg result" where
  "Msg_Parse this newid ct ms m =
     rbind (Buffer_ReplaceWith (MsgRawBuffer m) (Buffer_GetRawBuffer (MsgBuffer m))
              (Buffer_GetBufferCount (MsgBuffer m))) (\<lambda>(raw, _).
       let m = m\<lparr>MsgRawBuffer := raw\<rparr>
       in if Buffer_GetRawBuffer (MsgBuffer m) = None then Inl AssertFailed
          else
            rbind (Buffer_BinaryFind (MsgBuffer m) 0 CRLF) (\<lambda>iFirstLine.
              if iFirstLine = -1 then Inl (Thrown ''basic_string::assign'')
              else
                rbind (if iFirstLine \<noteq> 0
                       then rbind (parse_text (MsgBuffer m) iFirstLine) (\<lambda>s.
                            Inr (m\<lparr>MsgStatusLine := s\<rparr>))
                       else Inr m) (\<lambda>m.
                rbind (Buffer_BinaryFind (MsgBuffer m) 0 (CRLF @ CRLF)) (\<lambda>iEndOfHeader.
                  if iEndOfHeader = -1 then Inl AssertFailed
                  else
                    let m = m\<lparr>MsgHeaderSize := iEndOfHeader\<rparr>
                    in rbind (Buffer_Find (MsgBuffer m) '' '' 0) (\<lambda>(b, i).
                         let m = m\<lparr>MsgBuffer := b\<rparr>
                         in rbind (if i \<noteq> -1
                                   then rbind (parse_text (MsgBuffer m) i) (\<lambda>s.
                                        Inr (m\<lparr>MsgCommand := s\<rparr>))
                                   else Inr m) (\<lambda>m.
                            let m = (Msg_UpdateMsgConnectionType m ct)\<lparr>MsgFormat := ms\<rparr>
                            in rbind (HeaderExtract_Parse (m_HeaderExtract m) (MsgBuffer m))
                                 (\<lambda>(h, b).
                                 Inr (parse_fields this newid iEndOfHeader
                                        (m\<lparr>m_HeaderExtract := h, MsgBuffer := b\<rparr>))))))))) "

section \<open>Well-formed messages\<close>

text \<open>A message as the protocol writes it: a status line, header fields, an empty line, a body.\<close>

definition message_text :: "string list \<Rightarrow> string \<Rightarrow> string" where
  "message_text ls body = join_lines ls @ CRLF @ body"

definition header_lines :: "string list \<Rightarrow> bool" where
  "header_lines ls \<longleftrightarrow> ls \<noteq> [] \<and> (\<forall>l \<in> set ls. l \<noteq> [] \<and> CR \<notin> set l \<and> NUL \<notin> set l) \<and>
     6 \<le> length (join_lines ls)"

lemma first_line_end:
  assumes "header_lines ls"
  shows "find_sub CRLF (message_text ls body) = Some (length (hd ls))"
proof -
  obtain l ls' where ls: "ls = l # ls'" "CR \<notin> set l"
    using assms by (cases ls) (auto simp: header_lines_def)
  have "find_sub [CR, LF] (l @ CR # LF # join_lines ls' @ CRLF @ body) = Some (length l)"
    using find_sub_skip [OF ls(2), of "[LF]" "CR # LF # join_lines ls' @ CRLF @ body"] by simp
  then show ?thesis using ls by (simp add: message_text_def)
qed

lemma parse_text_holds:
  assumes "holds b s" "n \<le> length s"
  shows "parse_text b (int n) = Inr (take n s)"
  using old_pieces(2) [OF assms] by (simp add: parse_text_def Buffer_GetRawBuffer_def)

text \<open>The members of the message after \<open>Parse\<close>, over the header read by lines.\<close>

lemma Parse_message:
  assumes b: "holds (MsgBuffer m) (message_text ls body)" "terminated (MsgBuffer m)"
    and ls: "header_lines ls" and raw: "holds (MsgRawBuffer m) old"
    and cmd: "SP \<notin> set cmd" "hd ls = cmd @ SP # tl_line"
  shows "\<exists>h b' raw'. Msg_Parse this newid ct ms m =
      Inr (parse_fields this newid (int (length (join_lines ls) - 2))
        ((Msg_UpdateMsgConnectionType
           (m\<lparr>MsgRawBuffer := raw', MsgStatusLine := hd ls,
              MsgHeaderSize := int (length (join_lines ls) - 2),
              MsgCommand := cmd\<rparr>) ct)\<lparr>MsgFormat := ms, m_HeaderExtract := h, MsgBuffer := b'\<rparr>)) \<and>
    holds raw' (message_text ls body) \<and> holds b' (message_text ls body) \<and>
    m_Params h = fold header_line ls []"
proof -
  let ?t = "message_text ls body" and ?n = "length (join_lines ls)"
  have ne: "ls \<noteq> []" "\<forall>l \<in> set ls. l \<noteq> [] \<and> CR \<notin> set l \<and> NUL \<notin> set l" "6 \<le> ?n"
    using ls by (auto simp: header_lines_def)
  have len: "?n \<le> length ?t" by (simp add: message_text_def)
  then have tne: "?t \<noteq> []" using ne(3) by auto
  obtain blk where blk: "m_pBuffer (MsgBuffer m) = Some blk"
    using holds_nonnull [OF b(1)] tne by blast
  obtain r rest where "blk = map Some ?t @ r # rest" using b(1) blk by (rule holds_SomeE)
  then have "take (length ?t) blk = map Some ?t" by simp
  from ReplaceWith_holds [OF raw this refl] blk holds_tail [OF b(1)] obtain raw' rc where
    raw': "Buffer_ReplaceWith (MsgRawBuffer m) (Buffer_GetRawBuffer (MsgBuffer m))
        (Buffer_GetBufferCount (MsgBuffer m)) = Inr (raw', rc)" "holds raw' ?t"
    by (auto simp: Buffer_GetRawBuffer_def Buffer_GetBufferCount_def)
  have f1: "Buffer_BinaryFind (MsgBuffer m) 0 CRLF = Inr (int (length (hd ls)))"
    using BinaryFind_holds [OF b, of CRLF] first_line_end [OF ls, of body] by simp
  have f2: "Buffer_BinaryFind (MsgBuffer m) 0 (CRLF @ CRLF) = Inr (int (?n - 2))"
    using BinaryFind_holds [OF b, of "CRLF @ CRLF"] header_end [OF ne(1), of body] ne(2)
    by (simp add: message_text_def)
  then have f2': "Buffer_BinaryFind (MsgBuffer m) 0 [CR, LF, CR, LF] = Inr (int (?n - 2))"
    by simp
  have t_hd: "take (length (hd ls)) ?t = hd ls" "length (hd ls) \<le> length ?t" "hd ls \<noteq> []"
    using ne(1,2) by (cases ls; simp add: message_text_def)+
  have t_cmd: "?t = cmd @ SP # tl_line @ drop (length (hd ls)) ?t"
    using t_hd(1) cmd(2) by (metis append.assoc append_Cons append_take_drop_id)
  have "NUL \<notin> set (hd ls)" using ne(1,2) by simp
  then have "NUL \<notin> set (cmd @ [SP])" using cmd(2) by simp
  then have "cstr ?t = cmd @ SP # cstr (tl_line @ drop (length (hd ls)) ?t)"
    using cstr_append [of "cmd @ [SP]" "tl_line @ drop (length (hd ls)) ?t"] t_cmd by simp
  moreover have "cstr '' '' = '' ''" by (simp add: cstr_def)
  ultimately have "find_sub (cstr '' '') (cstr (drop 0 ?t)) = Some (length cmd)"
    using find_char_append [OF cmd(1)] by (simp add: find_char_def)
  with Find_holds [OF b(1) tne, of 0 "'' ''"] obtain b1 where
    b1: "Buffer_Find (MsgBuffer m) '' '' 0 = Inr (b1, int (length cmd))" "holds b1 ?t" by auto
  have "take (length cmd) ?t = cmd" "length cmd \<le> length ?t" using t_cmd by (metis append_eq_conv_conj, metis length_append le_add1)
  then have p_cmd: "parse_text b1 (int (length cmd)) = Inr cmd"
    using parse_text_holds [OF b1(2), of "length cmd"] by simp
  have p_hd: "parse_text (MsgBuffer m) (int (length (hd ls))) = Inr (hd ls)"
    using parse_text_holds [OF b(1) t_hd(2)] t_hd(1) by simp
  from Parse_header [OF b1(2) [unfolded message_text_def] ne]
  obtain h b2 where h: "HeaderExtract_Parse (m_HeaderExtract m) b1 = Inr (h, b2)" "holds b2 ?t"
      "m_Params h = fold header_line ls []" unfolding message_text_def by blast
  have he: "m_HeaderExtract (Msg_UpdateMsgConnectionType x ct) = m_HeaderExtract x"
    "MsgBuffer (Msg_UpdateMsgConnectionType x ct) = MsgBuffer x" for x
    by (simp_all add: Msg_UpdateMsgConnectionType_def Let_def)
  have hne: "int (length (hd ls)) \<noteq> 0" "int (length (hd ls)) \<noteq> -1" "int (?n - 2) \<noteq> -1"
    "int (length cmd) \<noteq> -1" using t_hd(3) by auto
  show ?thesis
    by (rule exI [of _ h], rule exI [of _ b2], rule exI [of _ raw'])
      (use raw' h(2,3) hne blk in
        \<open>simp add: Msg_Parse_def Let_def f1 f2' b1(1) p_cmd p_hd h(1) he Buffer_GetRawBuffer_def
           Msg_UpdateMsgConnectionType_def\<close>)
qed

end
