(* ===== verification/RouterRules.thy ===== *)
theory RouterRules
  imports StdMap Msg
begin

text \<open>
  \<open>msgrouterruleset.h\<close>, \<open>msgrouterruleset.cpp\<close>, \<open>msgrouterrulesengine.h\<close> and
  \<open>msgrouterrulesengine.cpp\<close>: the rules by which inbound messages are routed to a handler.
  A rule set is a conjunction of rules with the name of the handler it routes to; the engine
  tries its rule sets in the order they were added.
\<close>

section \<open>Rules and rule sets\<close>

datatype eMsgRouterOperationType = MSG_RTO_NOTSET | MSG_RTO_CONTAINS | MSG_RTO_MATCH | MSG_RTO_LIKE

datatype eMsgRouterLocationType =
  MSG_RTL_NOTSET | MSG_RTL_HEADER | MSG_RTL_PAYLOAD | MSG_RTL_STATUS | MSG_RTL_ALL

record cMsgRouterRule =
  m_Location :: eMsgRouterLocationType
  m_OperationType :: eMsgRouterOperationType
  m_MatchPattern :: string
  m_Value :: string

record cMsgRouterRuleSet =
  m_RuleSetName :: string
  m_RouteTo :: string
  m_RuleSet :: "cMsgRouterRule list"

definition RuleSet_AddRule :: "cMsgRouterRuleSet \<Rightarrow> cMsgRouterRule \<Rightarrow> cMsgRouterRuleSet" where
  "RuleSet_AddRule rs r = rs\<lparr>m_RuleSet := m_RuleSet rs @ [r]\<rparr>"

text \<open>\<open>GetFirstRule\<close> reads the first element without a check.\<close>

definition RuleSet_GetFirstRule :: "cMsgRouterRuleSet \<Rightarrow> cMsgRouterRule result" where
  "RuleSet_GetFirstRule rs =
     (case m_RuleSet rs of [] \<Rightarrow> Inl OutOfBounds | r # _ \<Rightarrow> Inr r)"

text \<open>\<open>m_RulesMap\<close> gives the place in \<open>m_RuleSets\<close> of the set with a name: both hold the same pointer.\<close>

record cMsgRouterRulesEngine =
  m_RuleSets :: "cMsgRouterRuleSet list"
  m_RulesMap :: "(string, nat) smap"

definition new_cMsgRouterRulesEngine :: cMsgRouterRulesEngine where
  "new_cMsgRouterRulesEngine = \<lparr>m_RuleSets = [], m_RulesMap = []\<rparr>"

definition RulesEngine_AddRule ::
  "cMsgRouterRulesEngine \<Rightarrow> string \<Rightarrow> string \<Rightarrow> cMsgRouterRule \<Rightarrow> cMsgRouterRulesEngine" where
  "RulesEngine_AddRule e RuleSetName RouteTo r =
     (case smap_find (m_RulesMap e) RuleSetName of
        Some i \<Rightarrow>
          e\<lparr>m_RuleSets := (m_RuleSets e)[i := RuleSet_AddRule (m_RuleSets e ! i) r]\<rparr>
      | None \<Rightarrow>
          e\<lparr>m_RuleSets := m_RuleSets e @ [RuleSet_AddRule
                \<lparr>m_RuleSetName = RuleSetName, m_RouteTo = RouteTo, m_RuleSet = []\<rparr> r],
            m_RulesMap := smap_insert RuleSetName (length (m_RuleSets e)) (m_RulesMap e)\<rparr>)"

section \<open>Search\<close>

text \<open>\<open>TestContains\<close> searches the buffer of the message, which terminates it on the way.\<close>

definition TestContains :: "cMsg \<Rightarrow> cMsgRouterRule \<Rightarrow> (cMsg \<times> bool) result" where
  "TestContains m r =
     (case m_Location r of
        MSG_RTL_STATUS \<Rightarrow> Inr (m, find_sub (cstr (m_Value r)) (Msg_GetStatusLine m) \<noteq> None)
      | MSG_RTL_HEADER \<Rightarrow>
          rbind (Buffer_Find (MsgBuffer m) (m_Value r) 0) (\<lambda>(b, idx).
            Inr (m\<lparr>MsgBuffer := b\<rparr>, idx > 0 \<and> idx < Msg_GetHeaderSize m))
      | MSG_RTL_PAYLOAD \<Rightarrow>
          rbind (Buffer_Find (MsgBuffer m) (m_Value r) (Msg_GetHeaderSize m)) (\<lambda>(b, idx).
            Inr (m\<lparr>MsgBuffer := b\<rparr>, idx > 0))
      | _ \<Rightarrow> Inr (m, False))"

text \<open>
  The rules of one set: only a CONTAINS rule sets \<open>bTests\<close>; any other one leaves the result of
  what was tested before, possibly of an earlier rule set.
\<close>

fun test_rules :: "bool \<Rightarrow> cMsg \<Rightarrow> cMsgRouterRule list \<Rightarrow> (cMsg \<times> bool) result" where
  "test_rules bTests m [] = Inr (m, bTests)"
| "test_rules bTests m (r # rs) =
     rbind (if m_OperationType r = MSG_RTO_CONTAINS then TestContains m r else Inr (m, bTests))
       (\<lambda>(m, bTests). if \<not> bTests then Inr (m, False) else test_rules bTests m rs)"

fun search_sets ::
  "bool \<Rightarrow> cMsg \<Rightarrow> cMsgRouterRuleSet list \<Rightarrow> (cMsg \<times> string option) result" where
  "search_sets bTests m [] = Inr (m, None)"
| "search_sets bTests m (rs # sets) =
     rbind (RuleSet_GetFirstRule rs) (\<lambda>_.
     rbind (test_rules bTests m (m_RuleSet rs)) (\<lambda>(m, bTests).
       if bTests then Inr (m, Some (cstr (m_RouteTo rs))) else search_sets bTests m sets))"

text \<open>\<open>Search\<close>: the route that \<open>Match\<close> is set to, when it returns true.\<close>

definition RulesEngine_Search ::
  "cMsgRouterRulesEngine \<Rightarrow> cMsg \<Rightarrow> (cMsg \<times> string option) result" where
  "RulesEngine_Search e m = search_sets False m (m_RuleSets e)"

text \<open>\<open>TestMatch\<close> and \<open>TestLike\<close>, which \<open>Search\<close> does not call.\<close>

definition TestMatch :: "cMsg \<Rightarrow> cMsgRouterRule \<Rightarrow> (cMsg \<times> bool) result" where
  "TestMatch m r =
     (case m_Location r of
        MSG_RTL_STATUS \<Rightarrow> Inr (m, find_sub (cstr (m_MatchPattern r)) (Msg_GetStatusLine m) \<noteq> None)
      | MSG_RTL_HEADER \<Rightarrow>
          rbind (Buffer_GetBuffer (MsgBuffer m)) (\<lambda>(b, p).
          rbind (mem_slice (block_of p) 0 (Msg_GetHeaderSize m)) (\<lambda>cells.
          rbind (mem_text cells) (\<lambda>header.
            Inr (m\<lparr>MsgBuffer := b\<rparr>, find_sub (cstr (m_MatchPattern r)) (cstr header) \<noteq> None))))
      | _ \<Rightarrow> Inr (m, False))"

definition TestLike :: "cMsg \<Rightarrow> cMsgRouterRule \<Rightarrow> bool" where
  "TestLike m r = False"

section \<open>Every rule set has a rule, and the map points at the sets\<close>

definition engine_inv :: "cMsgRouterRulesEngine \<Rightarrow> bool" where
  "engine_inv e \<longleftrightarrow>
     (\<forall>rs \<in> set (m_RuleSets e). m_RuleSet rs \<noteq> []) \<and>
     (\<forall>n i. smap_find (m_RulesMap e) n = Some i \<longleftrightarrow>
        i < length (m_RuleSets e) \<and> m_RuleSetName (m_RuleSets e ! i) = n) \<and>
     distinct (map m_RuleSetName (m_RuleSets e))"

lemma engine_inv_new: "engine_inv new_cMsgRouterRulesEngine"
  by (simp add: engine_inv_def new_cMsgRouterRulesEngine_def smap_find_def)

lemma engine_inv_AddRule:
  assumes inv: "engine_inv e"
  shows "engine_inv (RulesEngine_AddRule e n t r)"
proof (cases "smap_find (m_RulesMap e) n")
  case (Some i)
  then have i: "i < length (m_RuleSets e)" using inv by (simp add: engine_inv_def)
  have names: "map m_RuleSetName ((m_RuleSets e)[i := RuleSet_AddRule (m_RuleSets e ! i) r]) =
      map m_RuleSetName (m_RuleSets e)"
    unfolding map_update by (simp add: RuleSet_AddRule_def) (metis i list_update_id nth_map)
  have "m_RuleSetName ((m_RuleSets e)[i := RuleSet_AddRule (m_RuleSets e ! i) r] ! j) =
      m_RuleSetName (m_RuleSets e ! j)" if "j < length (m_RuleSets e)" for j
    using that names by (metis length_list_update nth_map)
  note same = this
  have ne: "\<forall>rs \<in> set ((m_RuleSets e)[i := RuleSet_AddRule (m_RuleSets e ! i) r]). m_RuleSet rs \<noteq> []"
  proof
    fix rs assume "rs \<in> set ((m_RuleSets e)[i := RuleSet_AddRule (m_RuleSets e ! i) r])"
    then have "rs = RuleSet_AddRule (m_RuleSets e ! i) r \<or> rs \<in> set (m_RuleSets e)"
      using set_update_subset_insert by fastforce
    then show "m_RuleSet rs \<noteq> []" using inv by (auto simp: engine_inv_def RuleSet_AddRule_def)
  qed
  have eq: "RulesEngine_AddRule e n t r =
      e\<lparr>m_RuleSets := (m_RuleSets e)[i := RuleSet_AddRule (m_RuleSets e ! i) r]\<rparr>"
    using Some by (simp add: RulesEngine_AddRule_def)
  have "smap_find (m_RulesMap e) n' = Some j \<longleftrightarrow>
      j < length (m_RuleSets e) \<and>
      m_RuleSetName ((m_RuleSets e)[i := RuleSet_AddRule (m_RuleSets e ! i) r] ! j) = n'" for n' j
    using inv same [of j] unfolding engine_inv_def by metis
  then show ?thesis using ne inv names unfolding eq engine_inv_def by simp
next
  case None
  let ?new = "RuleSet_AddRule \<lparr>m_RuleSetName = n, m_RouteTo = t, m_RuleSet = []\<rparr> r"
  have fresh: "n \<notin> set (map m_RuleSetName (m_RuleSets e))"
    using inv None unfolding engine_inv_def by (metis in_set_conv_nth length_map nth_map option.distinct(1))
  have "smap_find (smap_insert n (length (m_RuleSets e)) (m_RulesMap e)) =
      (smap_find (m_RulesMap e))(n \<mapsto> length (m_RuleSets e))"
    using None by (simp add: smap_find_insert)
  then show ?thesis using inv None fresh
    by (auto simp: engine_inv_def RulesEngine_AddRule_def RuleSet_AddRule_def nth_append less_Suc_eq)
qed

section \<open>What a search finds\<close>

text \<open>A CONTAINS rule as a statement about the text of the message.\<close>

definition rule_holds :: "string \<Rightarrow> string \<Rightarrow> nat \<Rightarrow> cMsgRouterRule \<Rightarrow> bool" where
  "rule_holds status t hdr r \<longleftrightarrow>
     (case m_Location r of
        MSG_RTL_STATUS \<Rightarrow> find_sub (cstr (m_Value r)) status \<noteq> None
      | MSG_RTL_HEADER \<Rightarrow>
          (case find_sub (cstr (m_Value r)) (cstr t) of Some k \<Rightarrow> 0 < k \<and> k < hdr | None \<Rightarrow> False)
      | MSG_RTL_PAYLOAD \<Rightarrow>
          (case find_sub (cstr (m_Value r)) (cstr (drop hdr t)) of
             Some k \<Rightarrow> 0 < hdr + k | None \<Rightarrow> False)
      | _ \<Rightarrow> False)"

definition msg_is :: "cMsg \<Rightarrow> string \<Rightarrow> string \<Rightarrow> nat \<Rightarrow> bool" where
  "msg_is m status t hdr \<longleftrightarrow> holds (MsgBuffer m) t \<and> t \<noteq> [] \<and> Msg_GetStatusLine m = status \<and>
     Msg_GetHeaderSize m = int hdr \<and> hdr \<le> length t"

lemma msg_is_buffer: "msg_is m st t hdr \<Longrightarrow> holds b t \<Longrightarrow> msg_is (m\<lparr>MsgBuffer := b\<rparr>) st t hdr"
  by (simp add: msg_is_def Msg_GetStatusLine_def Msg_GetHeaderSize_def)

lemma TestContains_spec:
  assumes m: "msg_is m st t hdr"
  shows "\<exists>m'. TestContains m r = Inr (m', rule_holds st t hdr r) \<and> msg_is m' st t hdr"
proof (cases "m_Location r")
  case MSG_RTL_STATUS
  then show ?thesis using m by (auto simp: TestContains_def rule_holds_def msg_is_def)
next
  case MSG_RTL_HEADER
  have h: "holds (MsgBuffer m) t" "t \<noteq> []" "0 \<le> length t" using m by (auto simp: msg_is_def)
  from Find_holds [OF this, of "m_Value r"] obtain b where
    b: "Buffer_Find (MsgBuffer m) (m_Value r) 0 = Inr (b, case find_sub (cstr (m_Value r)) (cstr t) of
          Some k \<Rightarrow> int k | None \<Rightarrow> -1)" "holds b t" by (auto split: option.splits)
  show ?thesis using MSG_RTL_HEADER b m msg_is_buffer [OF m b(2)]
    by (cases "find_sub (cstr (m_Value r)) (cstr t)")
      (auto simp: TestContains_def rule_holds_def msg_is_def)
next
  case MSG_RTL_PAYLOAD
  have h: "holds (MsgBuffer m) t" "t \<noteq> []" "hdr \<le> length t" using m by (auto simp: msg_is_def)
  from Find_holds [OF this, of "m_Value r"] obtain b where
    b: "Buffer_Find (MsgBuffer m) (m_Value r) (int hdr) =
        Inr (b, case find_sub (cstr (m_Value r)) (cstr (drop hdr t)) of
          Some k \<Rightarrow> int (hdr + k) | None \<Rightarrow> -1)" "holds b t" by auto
  show ?thesis using MSG_RTL_PAYLOAD b m msg_is_buffer [OF m b(2)]
    by (cases "find_sub (cstr (m_Value r)) (cstr (drop hdr t))")
      (auto simp: TestContains_def rule_holds_def msg_is_def)
qed (use m in \<open>auto simp: TestContains_def rule_holds_def\<close>)

lemma test_rules_spec:
  "msg_is m st t hdr \<Longrightarrow> \<forall>r \<in> set rs. m_OperationType r = MSG_RTO_CONTAINS \<Longrightarrow> rs \<noteq> [] \<or> bTests \<Longrightarrow>
     \<exists>m'. test_rules bTests m rs = Inr (m', \<forall>r \<in> set rs. rule_holds st t hdr r) \<and> msg_is m' st t hdr"
proof (induction rs arbitrary: m bTests)
  case Nil
  then show ?case by auto
next
  case (Cons r rs)
  from TestContains_spec [OF Cons.prems(1), of r] obtain m1 where
    m1: "TestContains m r = Inr (m1, rule_holds st t hdr r)" "msg_is m1 st t hdr" by blast
  show ?case
  proof (cases "rule_holds st t hdr r")
    case True
    from Cons.IH [OF m1(2), of True] Cons.prems(2) True m1 show ?thesis by simp
  next
    case False
    then show ?thesis using Cons.prems(2) m1 by simp
  qed
qed

lemma search_sets_spec:
  "msg_is m st t hdr \<Longrightarrow>
   \<forall>rs \<in> set sets. m_RuleSet rs \<noteq> [] \<and> (\<forall>r \<in> set (m_RuleSet rs). m_OperationType r = MSG_RTO_CONTAINS) \<Longrightarrow>
     \<exists>m'. search_sets bTests m sets =
       Inr (m', map_option (\<lambda>rs. cstr (m_RouteTo rs))
                  (find (\<lambda>rs. \<forall>r \<in> set (m_RuleSet rs). rule_holds st t hdr r) sets)) \<and>
       msg_is m' st t hdr"
proof (induction sets arbitrary: m bTests)
  case Nil
  then show ?case by simp
next
  case (Cons rs sets)
  have first: "RuleSet_GetFirstRule rs = Inr (hd (m_RuleSet rs))"
    using Cons.prems(2) by (cases "m_RuleSet rs") (auto simp: RuleSet_GetFirstRule_def)
  from test_rules_spec [OF Cons.prems(1), of "m_RuleSet rs" bTests] Cons.prems(2) obtain m1 where
    m1: "test_rules bTests m (m_RuleSet rs) = Inr (m1, \<forall>r \<in> set (m_RuleSet rs). rule_holds st t hdr r)"
      "msg_is m1 st t hdr" by auto
  show ?case
  proof (cases "\<forall>r \<in> set (m_RuleSet rs). rule_holds st t hdr r")
    case True
    then show ?thesis using first m1 by simp
  next
    case False
    from Cons.IH [OF m1(2), of False] Cons.prems(2) first m1 False show ?thesis by auto
  qed
qed

lemma Search_spec:
  assumes "engine_inv e" "msg_is m st t hdr"
    "\<forall>rs \<in> set (m_RuleSets e). \<forall>r \<in> set (m_RuleSet rs). m_OperationType r = MSG_RTO_CONTAINS"
  shows "\<exists>m'. RulesEngine_Search e m =
      Inr (m', map_option (\<lambda>rs. cstr (m_RouteTo rs))
                 (find (\<lambda>rs. \<forall>r \<in> set (m_RuleSet rs). rule_holds st t hdr r) (m_RuleSets e))) \<and>
    msg_is m' st t hdr"
  unfolding RulesEngine_Search_def using assms
  by (intro search_sets_spec) (auto simp: engine_inv_def)

end
