(* ===== verification/NodeTables.thy ===== *)
theory NodeTables
  imports StdMap DecimalText
begin

text \<open>
  Three small parts of the program that its web server and its core keep their settings in:
  \<open>virtualdirectorymap.h\<close> and \<open>virtualdirectorymap.cpp\<close> (the directory that serves a host or a
  port), \<open>isysinfo.h\<close>, \<open>sysinfo.h\<close> and \<open>sysinfo.cpp\<close> (what plug-ins ask about the node), and
  \<open>date.h\<close> and \<open>date.cpp\<close> (the date of an HTTP header). The locks are left out: each operation is
  one step.
\<close>

section \<open>Virtual directories\<close>

type_synonym cVirtualDirectoryMap = "(string, string) smap"

definition GetVirtualDirectory :: "cVirtualDirectoryMap \<Rightarrow> string \<Rightarrow> string" where
  "GetVirtualDirectory m portName = (case smap_find m portName of None \<Rightarrow> [] | Some d \<Rightarrow> d)"

definition MapVirtualDirectory ::
  "cVirtualDirectoryMap \<Rightarrow> string \<Rightarrow> string \<Rightarrow> cVirtualDirectoryMap" where
  "MapVirtualDirectory m portName virtualDirectory = smap_insert portName virtualDirectory m"

definition HasVirtualDirectory :: "cVirtualDirectoryMap \<Rightarrow> string \<Rightarrow> bool" where
  "HasVirtualDirectory m portName = (smap_find m portName \<noteq> None)"

lemma directory_after_map:
  "GetVirtualDirectory (MapVirtualDirectory m p d) p' =
     (if p' = p \<and> \<not> HasVirtualDirectory m p then d else GetVirtualDirectory m p')"
  by (auto simp: GetVirtualDirectory_def MapVirtualDirectory_def HasVirtualDirectory_def
      smap_find_insert split: option.splits)

lemma has_after_map:
  "HasVirtualDirectory (MapVirtualDirectory m p d) p' \<longleftrightarrow> p' = p \<or> HasVirtualDirectory m p'"
  by (auto simp: MapVirtualDirectory_def HasVirtualDirectory_def smap_find_insert
      split: option.splits)

section \<open>System information\<close>

type_synonym cSysInfo = "(string, string) smap"

text \<open>The overload of \<open>find\<close> takes the key as a C string, as the insertion does.\<close>

definition SetSysInfo :: "cSysInfo \<Rightarrow> string \<Rightarrow> string \<Rightarrow> cSysInfo" where
  "SetSysInfo m pKey pValue =
     (let sKey = cstr pKey; sValue = cstr pValue
      in case smap_find m (cstr pKey) of
           None \<Rightarrow> smap_insert sKey sValue m
         | Some _ \<Rightarrow> smap_put sKey sValue m)"

definition SysInfo_Query :: "cSysInfo \<Rightarrow> string \<Rightarrow> string option" where
  "SysInfo_Query m pKey =
     (case smap_find m (cstr pKey) of None \<Rightarrow> None | Some v \<Rightarrow> Some (cstr v))"

lemma query_after_set:
  "SysInfo_Query (SetSysInfo m k v) k' =
     (if cstr k' = cstr k then Some (cstr v) else SysInfo_Query m k')"
  by (auto simp: SysInfo_Query_def SetSysInfo_def smap_find_insert smap_find_put Let_def
      split: option.splits)

section \<open>Dates\<close>

text \<open>The broken-down time that \<open>gmtime\<close> gives.\<close>

record tm =
  tm_sec :: int
  tm_min :: int
  tm_hour :: int
  tm_mday :: int
  tm_mon :: int
  tm_year :: int
  tm_wday :: int

text \<open>\<open>%2.2d\<close>: at least two digits, and two characters.\<close>

definition two_digits :: "int \<Rightarrow> string" where
  "two_digits i =
     (let d = nat_digits (nat \<bar>i\<bar>)
      in (if i < 0 then ''-'' else []) @ (if length d < 2 then ''0'' else []) @ d)"

definition wday_text :: "int \<Rightarrow> string" where
  "wday_text w =
     (if w = 0 then ''Sun, '' else if w = 1 then ''Mon, '' else if w = 2 then ''Tue, ''
      else if w = 3 then ''Wed, '' else if w = 4 then ''Thu, '' else if w = 5 then ''Fri, ''
      else if w = 6 then ''Sat, '' else [])"

definition mon_text :: "int \<Rightarrow> string" where
  "mon_text m =
     (if m = 0 then ''Jan '' else if m = 1 then ''Feb '' else if m = 2 then ''Mar ''
      else if m = 3 then ''Apr '' else if m = 4 then ''May '' else if m = 5 then ''Jun ''
      else if m = 6 then ''Jul '' else if m = 7 then ''Aug '' else if m = 8 then ''Sep ''
      else if m = 9 then ''Oct '' else if m = 10 then ''Nov '' else if m = 11 then ''Dec ''
      else [])"

definition GetDate :: "tm \<Rightarrow> string" where
  "GetDate t =
     wday_text (tm_wday t) @ two_digits (tm_mday t) @ '' '' @ mon_text (tm_mon t) @
     (let year = tm_year t - 100 + 2000
      in int_text year @ '' '' @ two_digits (tm_hour t) @ '':'' @ two_digits (tm_min t) @ '':'' @
         two_digits (tm_sec t) @ '' GMT'')"

lemma two_digits_length: "0 \<le> i \<Longrightarrow> i < 100 \<Longrightarrow> length (two_digits i) = 2"
proof -
  assume i: "0 \<le> i" "i < 100"
  then obtain n where n: "i = int n" "n < 100" using nonneg_int_cases by auto
  show ?thesis
  proof (cases "n < 10")
    case True
    then show ?thesis using n by (simp add: two_digits_def Let_def nat_digits.simps [of n])
  next
    case False
    then have "n div 10 < 10" using n by simp
    then show ?thesis using False n
      by (simp add: two_digits_def Let_def nat_digits.simps [of n] nat_digits.simps [of "n div 10"])
  qed
qed

text \<open>With the fields in their ranges the text has the fixed width of an HTTP date.\<close>

lemma date_width:
  assumes "0 \<le> tm_wday t" "tm_wday t \<le> 6" "0 \<le> tm_mon t" "tm_mon t \<le> 11"
    and "1 \<le> tm_mday t" "tm_mday t \<le> 31" "0 \<le> tm_hour t" "tm_hour t \<le> 23"
    and "0 \<le> tm_min t" "tm_min t \<le> 59" "0 \<le> tm_sec t" "tm_sec t \<le> 60"
  shows "length (GetDate t) = 25 + length (int_text (tm_year t + 1900))"
proof -
  have "tm_wday t \<in> {0..6}" "tm_mon t \<in> {0..11}" using assms by auto
  moreover have "{0..6} = {0, 1, 2, 3, 4, 5, 6 :: int}" by auto
  moreover have "{0..11} = {0, 1, 2, 3, 4, 5, 6, 7, 8, 9, 10, 11 :: int}" by (simp add: set_eq_iff) presburger
  ultimately have "length (wday_text (tm_wday t)) = 5" "length (mon_text (tm_mon t)) = 4"
    by (auto simp: wday_text_def mon_text_def)
  then show ?thesis using assms by (simp add: GetDate_def two_digits_length add.commute)
qed

section \<open>Command handlers\<close>

text \<open>
  \<open>commandhandlerfactory.h\<close> and \<open>commandhandlerfactory.cpp\<close>: the class
  \<open>cCommandHandlerFactory\<close>, the registry of the handlers that process messages. A handler is a
  decorated plug-in; here it is a value of any type.
\<close>

type_synonym 'h factory = "(string, 'h) smap"

text \<open>The handler of a command is looked up under what stands before its first dot.\<close>

definition command_name :: "string \<Rightarrow> string" where
  "command_name sName =
     (case find_char (CHR ''.'') sName of None \<Rightarrow> sName | Some idx \<Rightarrow> take idx sName)"

definition GetCommandHandler :: "'h factory \<Rightarrow> string \<Rightarrow> 'h option" where
  "GetCommandHandler f pCommand = smap_find f (cstr (command_name (cstr pCommand)))"

text \<open>
  A handler is stored under the whole name. For a command that has a handler already, \<open>LOGALL\<close> throws
  the text of its complaint, a character pointer that \<open>RegisterCommandHandler\<close> does not catch.
\<close>

definition RegisterCommandHandler :: "'h factory \<Rightarrow> string \<Rightarrow> 'h \<Rightarrow> 'h factory result" where
  "RegisterCommandHandler f pCommand h =
     (case GetCommandHandler f pCommand of
        Some _ \<Rightarrow> Inl (Thrown (''Error, a command handler already exists for command: '' @ cstr pCommand))
      | None \<Rightarrow> Inr (smap_insert (cstr pCommand) h f))"

section \<open>Lookup after registration\<close>

lemma command_name_dotted: "CHR ''.'' \<notin> set c \<Longrightarrow> command_name (c @ CHR ''.'' # d) = c"
  by (simp add: command_name_def find_char_append)

lemma command_name_plain: "CHR ''.'' \<notin> set c \<Longrightarrow> command_name c = c"
  by (simp add: command_name_def find_char_None [THEN iffD2])

lemma command_name_no_dot: "CHR ''.'' \<notin> set (command_name c)"
proof (cases "find_char (CHR ''.'') c")
  case None
  then have "CHR ''.'' \<notin> set c" using find_char_None by metis
  then show ?thesis using None by (simp add: command_name_def)
next
  case (Some i)
  then show ?thesis using find_char_Some by (simp add: command_name_def)
qed

lemma command_name_NUL: "NUL \<notin> set c \<Longrightarrow> NUL \<notin> set (command_name c)"
  by (auto simp: command_name_def split: option.splits dest: in_set_takeD)

lemma get_eq:
  assumes "NUL \<notin> set c"
  shows "GetCommandHandler f c = smap_find f (command_name c)"
  using assms by (simp add: GetCommandHandler_def cstr_id command_name_NUL)

text \<open>
  Registering a plain name: it serves the name and every dotted command below it, every other command
  is looked up as before, and a second registration throws.
\<close>

lemma get_after_register:
  assumes "CHR ''.'' \<notin> set c" "NUL \<notin> set c" "NUL \<notin> set d"
  shows "case GetCommandHandler f c of
      Some _ \<Rightarrow> \<exists>e. RegisterCommandHandler f c h = Inl (Thrown e)
    | None \<Rightarrow> \<exists>g. RegisterCommandHandler f c h = Inr g \<and>
        GetCommandHandler g d = (if command_name d = c then Some h else GetCommandHandler f d)"
  using assms
  by (cases "smap_find f c")
    (auto simp: RegisterCommandHandler_def get_eq command_name_plain smap_find_insert cstr_id)

text \<open>A handler registered under a dotted name is stored where no lookup goes.\<close>

lemma dotted_registration_lost:
  assumes "CHR ''.'' \<in> set c" "NUL \<notin> set c" "NUL \<notin> set d" "RegisterCommandHandler f c h = Inr g"
  shows "GetCommandHandler g d = GetCommandHandler f d"
proof -
  have "command_name d \<noteq> c" using assms(1) command_name_no_dot by metis
  then show ?thesis using assms
    by (auto simp: RegisterCommandHandler_def get_eq smap_find_insert cstr_id split: option.splits)
qed

end
