(* ===== verification/PriorityQueue.thy ===== *)
theory PriorityQueue
  imports Main "HOL-Library.Multiset"
begin

text \<open>
  \<open>msgprioritycomp.h\<close> and the \<open>std::priority_queue\<close> of message pointers that the message
  queue and the decorated handlers keep. The comparison looks at the priority that the messages
  have at the time, so the queue is a list of message numbers and the priorities are an argument.
  The locale states what the library promises: nothing is lost or made up, and the top has the
  greatest priority. The model picks the first such element; the clients' lemmas use the locale.
\<close>

text \<open>\<open>cMsgPriorityComp\<close>: the left message ranks below the right one.\<close>

definition MsgPriorityComp :: "(nat \<Rightarrow> int) \<Rightarrow> nat \<Rightarrow> nat \<Rightarrow> bool" where
  "MsgPriorityComp prio left right \<longleftrightarrow> prio left < prio right"

fun pq_best :: "(nat \<Rightarrow> int) \<Rightarrow> nat \<Rightarrow> nat list \<Rightarrow> nat" where
  "pq_best prio b [] = b"
| "pq_best prio b (x # xs) = pq_best prio (if MsgPriorityComp prio b x then x else b) xs"

definition pq_push :: "nat \<Rightarrow> nat list \<Rightarrow> nat list" where
  "pq_push x q = q @ [x]"

definition pq_top :: "(nat \<Rightarrow> int) \<Rightarrow> nat list \<Rightarrow> nat" where
  "pq_top prio q = pq_best prio (hd q) (tl q)"

definition pq_pop :: "(nat \<Rightarrow> int) \<Rightarrow> nat list \<Rightarrow> nat list" where
  "pq_pop prio q = remove1 (pq_top prio q) q"

section \<open>The contract\<close>

locale priority_queue =
  fixes elems :: "'q \<Rightarrow> nat multiset"
    and empty :: 'q
    and push :: "nat \<Rightarrow> 'q \<Rightarrow> 'q"
    and top :: "(nat \<Rightarrow> int) \<Rightarrow> 'q \<Rightarrow> nat"
    and pop :: "(nat \<Rightarrow> int) \<Rightarrow> 'q \<Rightarrow> 'q"
  assumes elems_empty: "elems empty = {#}"
    and elems_push: "elems (push x q) = add_mset x (elems q)"
    and top_mem: "elems q \<noteq> {#} \<Longrightarrow> top prio q \<in># elems q"
    and top_max: "y \<in># elems q \<Longrightarrow> prio y \<le> prio (top prio q)"
    and elems_pop: "elems q \<noteq> {#} \<Longrightarrow> elems q = add_mset (top prio q) (elems (pop prio q))"
begin

primrec push_all :: "nat list \<Rightarrow> 'q \<Rightarrow> 'q" where
  "push_all [] q = q"
| "push_all (x # xs) q = push_all xs (push x q)"

text \<open>Take the elements out one after the other.\<close>

primrec drain :: "(nat \<Rightarrow> int) \<Rightarrow> nat \<Rightarrow> 'q \<Rightarrow> nat list" where
  "drain prio 0 q = []"
| "drain prio (Suc n) q = (if elems q = {#} then [] else top prio q # drain prio n (pop prio q))"

lemma elems_push_all: "elems (push_all xs q) = mset xs + elems q"
  by (induction xs arbitrary: q) (simp_all add: elems_push)

lemma drain_mset: "size (elems q) \<le> n \<Longrightarrow> mset (drain prio n q) = elems q"
proof (induction n arbitrary: q)
  case 0
  then show ?case by simp
next
  case (Suc n)
  show ?case
  proof (cases "elems q = {#}")
    case False
    have "size (elems q) = Suc (size (elems (pop prio q)))"
      using elems_pop [OF False, of prio] by (metis size_add_mset)
    then have "size (elems (pop prio q)) \<le> n" using Suc.prems by simp
    from Suc.IH [OF this] False elems_pop [OF False, of prio] show ?thesis by simp
  qed simp
qed

lemma drain_sorted: "size (elems q) \<le> n \<Longrightarrow> sorted_wrt (\<lambda>x y. prio y \<le> prio x) (drain prio n q)"
proof (induction n arbitrary: q)
  case 0
  then show ?case by simp
next
  case (Suc n)
  show ?case
  proof (cases "elems q = {#}")
    case False
    have e: "elems q = add_mset (top prio q) (elems (pop prio q))" by (rule elems_pop [OF False])
    then have "size (elems q) = Suc (size (elems (pop prio q)))" by (metis size_add_mset)
    then have s: "size (elems (pop prio q)) \<le> n" using Suc.prems by simp
    have "prio y \<le> prio (top prio q)" if "y \<in> set (drain prio n (pop prio q))" for y
    proof -
      have "y \<in># elems (pop prio q)" using that drain_mset [OF s, of prio] by (metis set_mset_mset)
      then have "y \<in># elems q" using e by (metis insert_iff set_mset_add_mset_insert)
      then show ?thesis by (rule top_max)
    qed
    then show ?thesis using False Suc.IH [OF s] by simp
  qed simp
qed

end

section \<open>The list keeps the contract\<close>

lemma pq_best_mem: "pq_best prio b xs \<in> set (b # xs)"
proof (induction xs arbitrary: b)
  case Nil
  then show ?case by simp
next
  case (Cons x xs)
  from Cons [of "if MsgPriorityComp prio b x then x else b"] show ?case by (auto split: if_splits)
qed

lemma pq_best_max: "y \<in> set (b # xs) \<Longrightarrow> prio y \<le> prio (pq_best prio b xs)"
proof (induction xs arbitrary: b y)
  case Nil
  then show ?case by simp
next
  case (Cons x xs)
  let ?c = "if MsgPriorityComp prio b x then x else b"
  have "prio b \<le> prio ?c" "prio x \<le> prio ?c" by (auto simp: MsgPriorityComp_def)
  moreover have "prio ?c \<le> prio (pq_best prio ?c xs)" using Cons.IH by simp
  moreover have "\<forall>z \<in> set xs. prio z \<le> prio (pq_best prio ?c xs)" using Cons.IH by simp
  ultimately show ?case using Cons.prems by fastforce
qed

interpretation pq: priority_queue mset "[]" pq_push pq_top pq_pop
proof unfold_locales
  fix q :: "nat list" and prio :: "nat \<Rightarrow> int" and y
  show "mset q \<noteq> {#} \<Longrightarrow> pq_top prio q \<in># mset q"
    using pq_best_mem by (cases q) (simp_all add: pq_top_def)
  then show "mset q \<noteq> {#} \<Longrightarrow> mset q = add_mset (pq_top prio q) (mset (pq_pop prio q))"
    by (simp add: pq_pop_def)
  show "y \<in># mset q \<Longrightarrow> prio y \<le> prio (pq_top prio q)"
    using pq_best_max by (cases q) (simp_all add: pq_top_def)
qed (simp_all add: pq_push_def)

end
