(* ===== verification/Timer.thy ===== *)
theory Timer
  imports Main
begin

text \<open>
  \<open>timer.h\<close> and \<open>timer.cpp\<close>: the class \<open>cTimer\<close>, a polled timer. \<open>now\<close> is what
  \<open>time(0)\<close> returns.
\<close>

record cTimer =
  m_bStopped :: bool
  m_seconds :: int
  m_timestamp :: int

definition new_cTimer :: cTimer where
  "new_cTimer = \<lparr>m_bStopped = True, m_seconds = 0, m_timestamp = 0\<rparr>"

definition Timer_SetInterval :: "cTimer \<Rightarrow> int \<Rightarrow> cTimer" where
  "Timer_SetInterval t seconds = t\<lparr>m_seconds := seconds\<rparr>"

definition Timer_Reset :: "int \<Rightarrow> cTimer \<Rightarrow> cTimer" where
  "Timer_Reset now t = t\<lparr>m_timestamp := now + m_seconds t, m_bStopped := False\<rparr>"

definition Timer_Start :: "int \<Rightarrow> cTimer \<Rightarrow> cTimer" where
  "Timer_Start now t = Timer_Reset now t"

definition Timer_Stop :: "cTimer \<Rightarrow> cTimer" where
  "Timer_Stop t = t\<lparr>m_bStopped := True\<rparr>"

definition Timer_IsReady :: "int \<Rightarrow> cTimer \<Rightarrow> bool" where
  "Timer_IsReady now t = (if m_bStopped t then False else now \<ge> m_timestamp t)"

definition Timer_GetInterval :: "cTimer \<Rightarrow> int" where
  "Timer_GetInterval t = m_seconds t"

lemmas timer_defs = Timer_SetInterval_def Timer_Reset_def Timer_Start_def Timer_Stop_def
  Timer_IsReady_def

lemma ready_after_reset: "Timer_IsReady now (Timer_Reset start t) \<longleftrightarrow> start + m_seconds t \<le> now"
  by (simp add: timer_defs)

lemma stopped_never_ready: "\<not> Timer_IsReady now (Timer_Stop t)"
  by (simp add: timer_defs)

end
