(* ===== verification/CommandHandlerDecorator.thy ===== *)
theory CommandHandlerDecorator
  imports Prelude PriorityQueue Timer
begin

text \<open>
  \<open>commandhandlerdecorator.h\<close> and \<open>commandhandlerdecorator.cpp\<close>: the class
  \<open>cCommandHandlerDecorator\<close>, which gives a command handler a thread and a queue of jobs of its
  own. The handler inside is a plug-in: what its \<open>OnProcess\<close> and \<open>OnChron\<close> do to the rest of
  the program is a parameter. Log lines are left out.
\<close>

record cCommandHandlerDecorator =
  m_jobQueue :: "nat list"
  d_timer :: cTimer
  m_ChronTimer :: cTimer

definition new_cCommandHandlerDecorator :: cCommandHandlerDecorator where
  "new_cCommandHandlerDecorator =
     \<lparr>m_jobQueue = [], d_timer = new_cTimer, m_ChronTimer = new_cTimer\<rparr>"

definition Decorator_OnProcess :: "cCommandHandlerDecorator \<Rightarrow> nat \<Rightarrow> cCommandHandlerDecorator" where
  "Decorator_OnProcess d a = d\<lparr>m_jobQueue := pq_push a (m_jobQueue d)\<rparr>"

definition Decorator_OnProcessInternal :: "('m \<Rightarrow> string option) \<Rightarrow> 'm \<Rightarrow> string" where
  "Decorator_OnProcessInternal h pMessage = (case h pMessage of None \<Rightarrow> '''' | Some p \<Rightarrow> p)"

text \<open>\<open>Run\<close>: what happens before the loop, and one pass through it.\<close>

definition Decorator_Run_start :: "int \<Rightarrow> cCommandHandlerDecorator \<Rightarrow> cCommandHandlerDecorator" where
  "Decorator_Run_start now d =
     d\<lparr>m_ChronTimer := Timer_Start now (Timer_SetInterval (m_ChronTimer d) 1),
       d_timer := Timer_Start now (Timer_SetInterval (d_timer d) 10)\<rparr>"

text \<open>
  The job stays at the top while the handler works on it, so the priorities that count are those
  from before the handler ran. An exception of the handler leaves the loop.
\<close>

definition Decorator_Run_pass ::
  "int \<Rightarrow> (nat \<Rightarrow> int) \<Rightarrow> (nat \<Rightarrow> 'w \<Rightarrow> 'w result) \<Rightarrow> ('w \<Rightarrow> 'w result) \<Rightarrow>
     cCommandHandlerDecorator \<Rightarrow> 'w \<Rightarrow> (cCommandHandlerDecorator \<times> 'w) result" where
  "Decorator_Run_pass now prio onProcess onChron d w =
     rbind
       (if length (m_jobQueue d) \<noteq> 0
        then
          let pMessage = pq_top prio (m_jobQueue d);
              d = (if Timer_IsReady now (d_timer d) then d\<lparr>d_timer := Timer_Reset now (d_timer d)\<rparr>
                   else d)
          in rbind (onProcess pMessage w) (\<lambda>w.
             Inr (d\<lparr>m_jobQueue := pq_pop prio (m_jobQueue d)\<rparr>, w))
        else Inr (d, w)) (\<lambda>(d, w).
       if Timer_IsReady now (m_ChronTimer d)
       then rbind (onChron w) (\<lambda>w.
            Inr (d\<lparr>m_ChronTimer := Timer_Reset now (m_ChronTimer d)\<rparr>, w))
       else Inr (d, w))"

section \<open>Jobs are served in the order of their priority\<close>

text \<open>Passes of the loop at the given times, with a handler that keeps a journal of its jobs.\<close>

fun served :: "(nat \<Rightarrow> int) \<Rightarrow> int list \<Rightarrow> cCommandHandlerDecorator \<Rightarrow> nat list \<Rightarrow> nat list result" where
  "served prio [] d w = Inr w"
| "served prio (now # ts) d w =
     rbind (Decorator_Run_pass now prio (\<lambda>a w. Inr (w @ [a])) Inr d w) (\<lambda>(d, w). served prio ts d w)"

lemma pass_journal:
  "\<exists>d'. Decorator_Run_pass now prio (\<lambda>a w. Inr (w @ [a])) Inr d w =
      Inr (d', w @ (if m_jobQueue d = [] then [] else [pq_top prio (m_jobQueue d)])) \<and>
    m_jobQueue d' = (if m_jobQueue d = [] then [] else pq_pop prio (m_jobQueue d))"
  by (auto simp: Decorator_Run_pass_def Let_def)

lemma served_drain:
  "served prio ts d w = Inr (w @ pq.drain prio (length ts) (m_jobQueue d))"
proof (induction ts arbitrary: d w)
  case Nil
  then show ?case by simp
next
  case (Cons now ts)
  have none: "pq.drain prio n [] = []" for n by (cases n) simp_all
  obtain d' where
    d': "Decorator_Run_pass now prio (\<lambda>a w. Inr (w @ [a])) Inr d w =
        Inr (d', w @ (if m_jobQueue d = [] then [] else [pq_top prio (m_jobQueue d)]))"
      "m_jobQueue d' = (if m_jobQueue d = [] then [] else pq_pop prio (m_jobQueue d))"
    using pass_journal by metis
  show ?case
  proof (cases "m_jobQueue d = []")
    case True
    then show ?thesis using d' Cons.IH [of d' w] none by simp
  next
    case False
    then show ?thesis using d' Cons.IH [of d' "w @ [pq_top prio (m_jobQueue d)]"] by simp
  qed
qed

lemma served_all:
  assumes "length (m_jobQueue d) \<le> length ts"
  shows "\<exists>js. served prio ts d [] = Inr js \<and> mset js = mset (m_jobQueue d) \<and>
    sorted_wrt (\<lambda>x y. prio y \<le> prio x) js"
  using served_drain [of prio ts d "[]"] pq.drain_mset [of "m_jobQueue d" "length ts" prio]
    pq.drain_sorted [of "m_jobQueue d" "length ts" prio] assms by simp

end
