(* ===== verification/ConnectionCache.thy ===== *)
theory ConnectionCache
  imports BufferLaws
begin

text \<open>
  \<open>connectionrecord.h\<close>, \<open>connectioncache.h\<close> and \<open>connectioncache.cpp\<close>: the class
  \<open>cConnectionCache\<close>, which keeps a record per socket and a linked list of the active ones.

  The list holds nodes: a number that is never used twice, and the socket whose record the node
  points to. An iterator is the number of a node, the end, or was never set; using the iterator of
  an erased node is a fault. Records are never removed from the map. \<open>m_Closed\<close> records the
  descriptors that were closed, in order: it is the effect of \<open>CloseSocket\<close>.
\<close>

section \<open>Data\<close>

datatype list_it = Singular | End | Node nat

datatype ConnectionRecordState = CRS_FREE | CRS_WAITING

text \<open>An IPv4 socket address.\<close>

type_synonym sockaddr_in = "32 word \<times> 16 word"

record ConnectionRecord =
  Socketfd :: int
  SocketAddr :: sockaddr_in
  arrivalPort :: int
  cr_timestamp :: int
  cr_State :: ConnectionRecordState
  pendingwrite :: bool
  cr_buffer :: cBuffer
  pActiveHandler :: "nat option"
  cr_it :: list_it

text \<open>What \<open>operator[]\<close> puts into the map for a new socket.\<close>

definition new_ConnectionRecord :: ConnectionRecord where
  "new_ConnectionRecord =
     \<lparr>Socketfd = 0, SocketAddr = (0, 0), arrivalPort = 0, cr_timestamp = 0, cr_State = CRS_FREE,
      pendingwrite = False, cr_buffer = new_cBuffer, pActiveHandler = None, cr_it = Singular\<rparr>"

record cConnectionCache =
  m_ConnectionMap :: "int \<Rightarrow> ConnectionRecord option"
  m_ActiveConnectionList :: "(nat \<times> int) list"
  m_iNextNode :: nat
  m_list_it :: list_it
  m_itIncompleteMarker :: list_it
  m_Closed :: "int list"

definition new_cConnectionCache :: cConnectionCache where
  "new_cConnectionCache =
     \<lparr>m_ConnectionMap = (\<lambda>_. None), m_ActiveConnectionList = [], m_iNextNode = 0,
      m_list_it = Singular, m_itIncompleteMarker = End, m_Closed = []\<rparr>"

definition FD_SETSIZE :: int where "FD_SETSIZE = 1024"

text \<open>\<open>FD_SET\<close> and \<open>FD_ISSET\<close>: a descriptor outside the set's array is an access out of bounds.\<close>

definition FD_SET :: "int \<Rightarrow> int set \<Rightarrow> int set result" where
  "FD_SET fd fds = (if 0 \<le> fd \<and> fd < FD_SETSIZE then Inr (insert fd fds) else Inl OutOfBounds)"

definition FD_ISSET :: "int \<Rightarrow> int set \<Rightarrow> bool result" where
  "FD_ISSET fd fds = (if 0 \<le> fd \<and> fd < FD_SETSIZE then Inr (fd \<in> fds) else Inl OutOfBounds)"

section \<open>Operations\<close>

text \<open>The list from an iterator on, and the iterator to the start of such a rest.\<close>

definition list_from :: "(nat \<times> int) list \<Rightarrow> list_it \<Rightarrow> (nat \<times> int) list result" where
  "list_from l it =
     (case it of
        Singular \<Rightarrow> Inl Indeterminate
      | End \<Rightarrow> Inr []
      | Node n \<Rightarrow>
          (case dropWhile (\<lambda>(k, _). k \<noteq> n) l of [] \<Rightarrow> Inl DanglingPointer | rest \<Rightarrow> Inr rest))"

definition it_of :: "(nat \<times> int) list \<Rightarrow> list_it" where
  "it_of rest = (case rest of [] \<Rightarrow> End | (k, _) # _ \<Rightarrow> Node k)"

definition valid_socket :: "int \<Rightarrow> bool" where
  "valid_socket s \<longleftrightarrow> s > 0 \<and> s < 65536"

definition map_lookup :: "cConnectionCache \<Rightarrow> int \<Rightarrow> ConnectionRecord" where
  "map_lookup c s = (case m_ConnectionMap c s of None \<Rightarrow> new_ConnectionRecord | Some r \<Rightarrow> r)"

definition map_store :: "cConnectionCache \<Rightarrow> int \<Rightarrow> ConnectionRecord \<Rightarrow> cConnectionCache" where
  "map_store c s r = c\<lparr>m_ConnectionMap := (m_ConnectionMap c)(s \<mapsto> r)\<rparr>"

definition Cache_AddConnection ::
  "int \<Rightarrow> cConnectionCache \<Rightarrow> int \<Rightarrow> sockaddr_in \<Rightarrow> int \<Rightarrow> cConnectionCache result" where
  "Cache_AddConnection now c sock addr iArrivalPort =
     (if \<not> valid_socket sock then Inl AssertFailed
      else
        let r = map_lookup c sock;
            r = r\<lparr>arrivalPort := iArrivalPort, SocketAddr := addr, Socketfd := sock,
                  cr_timestamp := now\<rparr>
        in rbind (Buffer_SetBufferSize (cr_buffer r) 8096) (\<lambda>b.
           let n = m_iNextNode c;
               r = r\<lparr>cr_buffer := Buffer_Reset b, pActiveHandler := None, pendingwrite := False,
                     cr_State := CRS_WAITING, cr_it := Node n\<rparr>
           in Inr ((map_store c sock r)
                     \<lparr>m_ActiveConnectionList := m_ActiveConnectionList c @ [(n, sock)],
                      m_iNextNode := n + 1\<rparr>)))"

definition Cache_CloseSocket :: "cConnectionCache \<Rightarrow> int \<Rightarrow> cConnectionCache" where
  "Cache_CloseSocket c sock = c\<lparr>m_Closed := m_Closed c @ [sock]\<rparr>"

definition list_erase :: "(nat \<times> int) list \<Rightarrow> list_it \<Rightarrow> (nat \<times> int) list result" where
  "list_erase l it =
     (case it of
        Node n \<Rightarrow> if n \<in> fst ` set l then Inr (filter (\<lambda>(k, _). k \<noteq> n) l) else Inl DanglingPointer
      | _ \<Rightarrow> Inl Indeterminate)"

definition Cache_FreeConnection :: "cConnectionCache \<Rightarrow> int \<Rightarrow> cConnectionCache result" where
  "Cache_FreeConnection c sock =
     (if sock = -1 then Inr c
      else case m_ConnectionMap c sock of
        None \<Rightarrow> Inr (Cache_CloseSocket c sock)
      | Some r \<Rightarrow>
          rbind (if cr_it r \<noteq> End then list_erase (m_ActiveConnectionList c) (cr_it r)
                 else Inr (m_ActiveConnectionList c)) (\<lambda>l.
            let c = Cache_CloseSocket (c\<lparr>m_ActiveConnectionList := l\<rparr>) sock
            in Inr (map_store c sock
                 (r\<lparr>cr_State := CRS_FREE, pActiveHandler := None, Socketfd := -1,
                    pendingwrite := False, cr_it := End\<rparr>))))"

text \<open>
  \<open>GetConnectionRecord\<close> returns a pointer to the record, here its socket; looking up a socket that
  has no record makes one.
\<close>

definition Cache_GetConnectionRecord ::
  "cConnectionCache \<Rightarrow> int \<Rightarrow> (int option \<times> cConnectionCache) result" where
  "Cache_GetConnectionRecord c sock =
     (if sock = -1 \<or> sock = 0 then Inr (None, c)
      else if \<not> valid_socket sock then Inl AssertFailed
      else Inr (Some sock, map_store c sock (map_lookup c sock)))"

definition Cache_MarkPendingWrite :: "cConnectionCache \<Rightarrow> int \<Rightarrow> cConnectionCache result" where
  "Cache_MarkPendingWrite c sock =
     rbind (Cache_GetConnectionRecord c sock) (\<lambda>(rec, c).
       case rec of
         None \<Rightarrow> Inr c
       | Some s \<Rightarrow> Inr (map_store c s ((map_lookup c s)\<lparr>pendingwrite := True\<rparr>)))"

text \<open>
  The loop of \<open>SetActiveConnections\<close>: the set of descriptors, the greatest one, and the rest of
  the list at the incomplete marker (\<open>None\<close>: the marker is not touched). The iterator stays at the
  last node when the set is full.
\<close>

fun set_active_loop ::
  "cConnectionCache \<Rightarrow> int \<Rightarrow> int \<Rightarrow> int set \<Rightarrow> int \<Rightarrow> (nat \<times> int) list \<Rightarrow>
     (int set \<times> int \<times> (nat \<times> int) list \<times> list_it option) result" where
  "set_active_loop c nmax count fds maxfd [] = Inr (fds, maxfd, [], None)"
| "set_active_loop c nmax count fds maxfd ((k, s) # rest) =
     (let r = map_lookup c s
      in if cr_State r = CRS_WAITING
         then
           if \<not> valid_socket (Socketfd r) then Inl AssertFailed
           else rbind (FD_SET (Socketfd r) fds) (\<lambda>fds.
                let maxfd = max maxfd (Socketfd r)
                in if count + 1 = nmax then Inr (fds, maxfd, (k, s) # rest, Some (it_of rest))
                   else set_active_loop c nmax (count + 1) fds maxfd rest)
         else set_active_loop c nmax count fds maxfd rest)"

definition Cache_SetActiveConnections ::
  "cConnectionCache \<Rightarrow> int set \<Rightarrow> int \<Rightarrow> (int set \<times> int \<times> cConnectionCache) result" where
  "Cache_SetActiveConnections c fds nmax =
     (if m_ActiveConnectionList c = [] then Inr (fds, 0, c)
      else
        let it = (if m_itIncompleteMarker c \<noteq> End then m_itIncompleteMarker c
                  else it_of (m_ActiveConnectionList c))
        in rbind (list_from (m_ActiveConnectionList c) it) (\<lambda>rest.
           rbind (set_active_loop c nmax 0 fds 0 rest) (\<lambda>(fds, maxfd, rest, marker).
             Inr (fds, maxfd,
               c\<lparr>m_list_it := it_of rest,
                 m_itIncompleteMarker := (case marker of None \<Rightarrow> End | Some m \<Rightarrow> m)\<rparr>))))"

text \<open>
  \<open>TimeoutConnections\<close> starts over after each connection it frees. Whether it ever ends depends on
  the records, so the loop is a partial function.
\<close>

definition timed_out :: "int \<Rightarrow> int \<Rightarrow> ConnectionRecord \<Rightarrow> bool" where
  "timed_out now iTimeout r \<longleftrightarrow>
     pendingwrite r = False \<and> cr_State r = CRS_WAITING \<and> cr_timestamp r + iTimeout < now"

partial_function (option) timeout_loop ::
  "int \<Rightarrow> int \<Rightarrow> cConnectionCache \<Rightarrow> (nat \<times> int) list \<Rightarrow> cConnectionCache result option" where
  "timeout_loop now iTimeout c rest =
     (if rest = [] then Some (Inr (c\<lparr>m_list_it := End\<rparr>))
      else
        let r = map_lookup c (snd (hd rest))
        in if timed_out now iTimeout r
           then (case Cache_FreeConnection c (Socketfd r) of
                   Inl e \<Rightarrow> Some (Inl e)
                 | Inr c \<Rightarrow> timeout_loop now iTimeout c (m_ActiveConnectionList c))
           else timeout_loop now iTimeout c (tl rest))"

definition Cache_TimeoutConnections ::
  "int \<Rightarrow> cConnectionCache \<Rightarrow> int \<Rightarrow> cConnectionCache result option" where
  "Cache_TimeoutConnections now c iTimeout =
     (if m_ActiveConnectionList c = [] then Some (Inr c)
      else timeout_loop now iTimeout c (m_ActiveConnectionList c))"

definition Cache_ResetEnumerator :: "cConnectionCache \<Rightarrow> cConnectionCache" where
  "Cache_ResetEnumerator c = c\<lparr>m_list_it := it_of (m_ActiveConnectionList c)\<rparr>"

definition record_ready :: "ConnectionRecord \<Rightarrow> int set \<Rightarrow> bool result" where
  "record_ready r fds =
     (if cr_State r = CRS_WAITING \<and> pActiveHandler r = None
      then rbind (FD_ISSET (Socketfd r) fds) (\<lambda>isset.
           Inr (isset \<or> Buffer_GetBufferCount (cr_buffer r) > 0))
      else Inr False)"

fun next_set_loop ::
  "cConnectionCache \<Rightarrow> int set \<Rightarrow> (nat \<times> int) list \<Rightarrow> (int option \<times> (nat \<times> int) list) result" where
  "next_set_loop c fds [] = Inr (None, [])"
| "next_set_loop c fds ((k, s) # rest) =
     rbind (record_ready (map_lookup c s) fds) (\<lambda>ready.
       if ready then Inr (Some s, rest) else next_set_loop c fds rest)"

definition Cache_GetNextSetRecord ::
  "cConnectionCache \<Rightarrow> int set \<Rightarrow> (int option \<times> cConnectionCache) result" where
  "Cache_GetNextSetRecord c fds =
     rbind (list_from (m_ActiveConnectionList c) (m_list_it c)) (\<lambda>rest.
     rbind (next_set_loop c fds rest) (\<lambda>(rec, rest).
       Inr (rec, c\<lparr>m_list_it := it_of rest\<rparr>)))"

definition Cache_GetActiveConnectionCount :: "cConnectionCache \<Rightarrow> int \<times> cConnectionCache" where
  "Cache_GetActiveConnectionCount c =
     (int (length (filter (\<lambda>(_, s). cr_State (map_lookup c s) = CRS_WAITING)
                          (m_ActiveConnectionList c))),
      c\<lparr>m_list_it := End\<rparr>)"

definition Cache_GetTotalConnectionEntries :: "cConnectionCache \<Rightarrow> int" where
  "Cache_GetTotalConnectionEntries c = int (length (m_ActiveConnectionList c))"

section \<open>The invariant\<close>

text \<open>
  Every node of the list belongs to the record that points back to it, and that record is waiting
  for data on its own socket; every other record is free. What the incomplete marker points to is
  not part of the invariant: freeing a connection does not look at it.
\<close>

definition node_ok :: "cConnectionCache \<Rightarrow> nat \<times> int \<Rightarrow> bool" where
  "node_ok c node \<longleftrightarrow>
     fst node < m_iNextNode c \<and> valid_socket (snd node) \<and>
     (case m_ConnectionMap c (snd node) of
        None \<Rightarrow> False
      | Some r \<Rightarrow> cr_it r = Node (fst node) \<and> cr_State r = CRS_WAITING \<and> Socketfd r = snd node)"

definition record_ok :: "(nat \<times> int) list \<Rightarrow> int \<Rightarrow> ConnectionRecord \<Rightarrow> bool" where
  "record_ok l s r \<longleftrightarrow>
     (\<exists>t. holds (cr_buffer r) t) \<and>
     (case cr_it r of Node n \<Rightarrow> (n, s) \<in> set l | _ \<Rightarrow> cr_State r = CRS_FREE)"

definition cache_inv :: "cConnectionCache \<Rightarrow> bool" where
  "cache_inv c \<longleftrightarrow>
     distinct (map fst (m_ActiveConnectionList c)) \<and>
     (\<forall>node \<in> set (m_ActiveConnectionList c). node_ok c node) \<and>
     (\<forall>s r. m_ConnectionMap c s = Some r \<longrightarrow> record_ok (m_ActiveConnectionList c) s r)"

definition actives :: "cConnectionCache \<Rightarrow> int list" where
  "actives c = map snd (m_ActiveConnectionList c)"

lemma cache_inv_new: "cache_inv new_cConnectionCache" "actives new_cConnectionCache = []"
  by (simp_all add: cache_inv_def actives_def new_cConnectionCache_def)

lemma node_okE:
  assumes "cache_inv c" "(k, s) \<in> set (m_ActiveConnectionList c)"
  obtains r where "m_ConnectionMap c s = Some r" "map_lookup c s = r" "cr_it r = Node k"
    "cr_State r = CRS_WAITING" "Socketfd r = s" "valid_socket s" "k < m_iNextNode c"
  using assms by (fastforce simp: cache_inv_def node_ok_def map_lookup_def split: option.splits)

lemma node_okD:
  assumes "cache_inv c" "(k, s) \<in> set (m_ActiveConnectionList c)"
  shows "m_ConnectionMap c s = Some (map_lookup c s)" "cr_it (map_lookup c s) = Node k"
    "cr_State (map_lookup c s) = CRS_WAITING" "Socketfd (map_lookup c s) = s" "valid_socket s"
proof -
  obtain r where r: "m_ConnectionMap c s = Some r" "map_lookup c s = r" "cr_it r = Node k"
    "cr_State r = CRS_WAITING" "Socketfd r = s" "valid_socket s" by (rule node_okE [OF assms])
  show "m_ConnectionMap c s = Some (map_lookup c s)" "cr_it (map_lookup c s) = Node k"
    "cr_State (map_lookup c s) = CRS_WAITING" "Socketfd (map_lookup c s) = s" "valid_socket s"
    unfolding r(2) by (rule r)+
qed

lemma record_okD:
  "cache_inv c \<Longrightarrow> m_ConnectionMap c s = Some r \<Longrightarrow> record_ok (m_ActiveConnectionList c) s r"
  by (simp add: cache_inv_def)

lemma node_unique:
  assumes "cache_inv c" "(k, s) \<in> set (m_ActiveConnectionList c)" "(n, s) \<in> set (m_ActiveConnectionList c)"
  shows "k = n"
  using node_okE [OF assms(1,2)] node_okE [OF assms(1,3)] by (metis list_it.inject option.inject)

lemma actives_distinct:
  assumes inv: "cache_inv c"
  shows "distinct (actives c)"
proof -
  have "distinct (m_ActiveConnectionList c)" using inv by (simp add: cache_inv_def distinct_map)
  moreover have "inj_on snd (set (m_ActiveConnectionList c))"
    using node_unique [OF inv] by (auto intro!: inj_onI)
  ultimately show ?thesis by (simp add: actives_def distinct_map)
qed

lemma active_node: "s \<in> set (actives c) \<longleftrightarrow> (\<exists>k. (k, s) \<in> set (m_ActiveConnectionList c))"
  by (force simp: actives_def)

lemma lookup_ok:
  assumes "cache_inv c"
  shows "\<exists>t. holds (cr_buffer (map_lookup c s)) t"
  using record_okD [OF assms] holds_new
  by (cases "m_ConnectionMap c s") (auto simp: map_lookup_def new_ConnectionRecord_def record_ok_def)

section \<open>Adding and freeing\<close>

lemma AddConnection_spec:
  assumes inv: "cache_inv c" and s: "valid_socket s" "s \<notin> set (actives c)"
  shows "\<exists>c' b. Cache_AddConnection now c s addr port = Inr c' \<and> cache_inv c' \<and>
    actives c' = actives c @ [s] \<and> m_Closed c' = m_Closed c \<and>
    m_itIncompleteMarker c' = m_itIncompleteMarker c \<and> holds b [] \<and>
    map_lookup c' s = \<lparr>Socketfd = s, SocketAddr = addr, arrivalPort = port, cr_timestamp = now,
      cr_State = CRS_WAITING, pendingwrite = False, cr_buffer = b, pActiveHandler = None,
      cr_it = Node (m_iNextNode c)\<rparr> \<and>
    (\<forall>s'. s' \<noteq> s \<longrightarrow> m_ConnectionMap c' s' = m_ConnectionMap c s')"
proof -
  let ?r = "map_lookup c s" and ?n = "m_iNextNode c" and ?l = "m_ActiveConnectionList c"
  obtain t where "holds (cr_buffer ?r) t" using lookup_ok [OF inv] by blast
  from SetBufferSize_holds [OF this, of 8096] obtain b where
    b: "Buffer_SetBufferSize (cr_buffer ?r) 8096 = Inr b" "holds b t" by auto
  let ?b = "Buffer_Reset b"
  have hb: "holds ?b []" using holds_Reset [OF b(2)] .
  let ?r' = "?r\<lparr>arrivalPort := port, SocketAddr := addr, Socketfd := s, cr_timestamp := now,
    cr_buffer := ?b, pActiveHandler := None, pendingwrite := False, cr_State := CRS_WAITING,
    cr_it := Node ?n\<rparr>"
  let ?c = "(map_store c s ?r')\<lparr>m_ActiveConnectionList := ?l @ [(?n, s)], m_iNextNode := ?n + 1\<rparr>"
  have e: "Cache_AddConnection now c s addr port = Inr ?c"
    using s(1) b(1) by (simp add: Cache_AddConnection_def Let_def)
  have fresh: "k < ?n" "s' \<noteq> s" if "(k, s') \<in> set ?l" for k s'
    using node_okE [OF inv that] s(2) that active_node by metis+
  then have d: "?n \<notin> fst ` set ?l" by fastforce
  have "node_ok ?c node" if "node \<in> set ?l" for node
    using that inv fresh [of "fst node" "snd node"]
    by (auto simp: cache_inv_def node_ok_def map_store_def split: option.splits)
  moreover have "node_ok ?c (?n, s)" using s(1) by (simp add: node_ok_def map_store_def)
  moreover have "record_ok (?l @ [(?n, s)]) s' r" if "m_ConnectionMap ?c s' = Some r" for s' r
  proof (cases "s' = s")
    case True
    then have "r = ?r'" using that by (simp add: map_store_def)
    then show ?thesis using hb True by (auto simp: record_ok_def)
  next
    case False
    then have "record_ok ?l s' r" using that inv by (simp add: cache_inv_def map_store_def)
    then show ?thesis by (auto simp: record_ok_def split: list_it.splits)
  qed
  ultimately have "cache_inv ?c" using inv d by (simp add: cache_inv_def map_store_def)
  moreover have "map_lookup ?c s = ?r'" by (simp add: map_store_def map_lookup_def)
  moreover have "m_ConnectionMap ?c s' = m_ConnectionMap c s'" if "s' \<noteq> s" for s'
    using that by (simp add: map_store_def)
  moreover have "actives ?c = actives c @ [s]" "m_Closed ?c = m_Closed c"
    "m_itIncompleteMarker ?c = m_itIncompleteMarker c"
    by (simp_all add: actives_def map_store_def)
  moreover have "?r' = \<lparr>Socketfd = s, SocketAddr = addr, arrivalPort = port, cr_timestamp = now,
      cr_State = CRS_WAITING, pendingwrite = False, cr_buffer = ?b, pActiveHandler = None,
      cr_it = Node ?n\<rparr>" by simp
  ultimately show ?thesis using e hb by (intro exI [of _ ?c] exI [of _ ?b]) metis
qed

text \<open>Erasing the node of a socket takes the socket off the list.\<close>

lemma filter_node:
  assumes inv: "cache_inv c" and k: "(k, s) \<in> set (m_ActiveConnectionList c)"
  shows "filter (\<lambda>(n, _). n \<noteq> k) (m_ActiveConnectionList c) =
    filter (\<lambda>node. snd node \<noteq> s) (m_ActiveConnectionList c)"
proof (rule filter_cong [OF refl])
  fix node assume node: "node \<in> set (m_ActiveConnectionList c)"
  obtain n s' where n: "node = (n, s')" by (cases node)
  have d: "distinct (map fst (m_ActiveConnectionList c))" using inv by (simp add: cache_inv_def)
  have "n = k \<longleftrightarrow> s' = s"
    using node k n node_unique [OF inv k] eq_key_imp_eq_value [OF d k] by blast
  then show "(case node of (n, _) \<Rightarrow> n \<noteq> k) = (snd node \<noteq> s)" using n by simp
qed

lemma FreeConnection_spec:
  assumes inv: "cache_inv c" and s: "s \<noteq> -1"
    and r: "\<And>r. m_ConnectionMap c s = Some r \<Longrightarrow> cr_it r \<noteq> Singular"
  shows "\<exists>c'. Cache_FreeConnection c s = Inr c' \<and> cache_inv c' \<and>
    actives c' = filter (\<lambda>s'. s' \<noteq> s) (actives c) \<and> m_Closed c' = m_Closed c @ [s] \<and>
    m_list_it c' = m_list_it c \<and> m_itIncompleteMarker c' = m_itIncompleteMarker c \<and>
    (\<forall>s'. s' \<noteq> s \<longrightarrow> m_ConnectionMap c' s' = m_ConnectionMap c s')"
proof (cases "m_ConnectionMap c s")
  case None
  then have "s \<notin> set (actives c)" using node_okE [OF inv] by (metis active_node option.distinct(1))
  then have "filter (\<lambda>s'. s' \<noteq> s) (actives c) = actives c" by (auto simp: filter_id_conv)
  then show ?thesis using None inv s
    by (auto simp: Cache_FreeConnection_def Cache_CloseSocket_def cache_inv_def node_ok_def actives_def)
next
  case (Some rec)
  let ?l = "m_ActiveConnectionList c"
  let ?l' = "filter (\<lambda>node. snd node \<noteq> s) ?l"
  have sub: "(k, s') \<in> set ?l \<longleftrightarrow> (k, s') \<in> set ?l'" if "s' \<noteq> s" for k s' using that by simp
  have "(if cr_it rec \<noteq> End then list_erase ?l (cr_it rec) else Inr ?l) = Inr ?l'"
  proof (cases "cr_it rec")
    case Singular
    then show ?thesis using r [OF Some] by simp
  next
    case End
    then have "cr_State rec = CRS_FREE" using record_okD [OF inv Some] by (simp add: record_ok_def)
    have "snd node \<noteq> s" if node: "node \<in> set ?l" for node
    proof
      assume "snd node = s"
      then have "(fst node, s) \<in> set ?l" using node by (metis prod.collapse)
      from node_okE [OF inv this] Some End show False by (metis list_it.distinct(5) option.inject)
    qed
    then have "?l' = ?l" by (simp add: filter_id_conv)
    then show ?thesis using End by simp
  next
    case (Node k)
    then have k: "(k, s) \<in> set ?l" using record_okD [OF inv Some] by (simp add: record_ok_def)
    have "filter (\<lambda>(n, _). n \<noteq> k) ?l = ?l'" by (rule filter_node [OF inv k])
    moreover have "k \<in> fst ` set ?l" using k by force
    ultimately show ?thesis using Node by (simp add: list_erase_def)
  qed
  then have e: "Cache_FreeConnection c s = Inr (map_store
      (Cache_CloseSocket (c\<lparr>m_ActiveConnectionList := ?l'\<rparr>) s) s
      (rec\<lparr>cr_State := CRS_FREE, pActiveHandler := None, Socketfd := -1, pendingwrite := False,
        cr_it := End\<rparr>))" (is "_ = Inr ?c")
    using Some s by (simp add: Cache_FreeConnection_def)
  have "record_ok ?l' s' r'" if "m_ConnectionMap ?c s' = Some r'" for s' r'
  proof (cases "s' = s")
    case True
    then show ?thesis using that record_okD [OF inv Some]
      by (auto simp: map_store_def Cache_CloseSocket_def record_ok_def)
  next
    case False
    then show ?thesis using that inv sub
      by (auto simp: map_store_def Cache_CloseSocket_def record_ok_def cache_inv_def split: list_it.splits)
  qed
  moreover have "node_ok ?c node" if "node \<in> set ?l'" for node
    using that inv by (auto simp: cache_inv_def node_ok_def map_store_def Cache_CloseSocket_def)
  moreover have "distinct (map fst ?l')" using inv by (simp add: cache_inv_def distinct_map_filter)
  ultimately have "cache_inv ?c" by (simp add: cache_inv_def map_store_def Cache_CloseSocket_def)
  then show ?thesis using e
    by (intro exI [of _ ?c]) (simp add: actives_def map_store_def Cache_CloseSocket_def filter_map o_def)
qed

text \<open>
  Looking up a socket that has no record leaves one whose list iterator was never set, and freeing
  the socket then erases through it.
\<close>

lemma free_after_lookup:
  assumes "valid_socket s" "m_ConnectionMap c s = None"
  shows "\<exists>c'. Cache_MarkPendingWrite c s = Inr c' \<and> Cache_FreeConnection c' s = Inl Indeterminate"
  using assms
  by (auto simp: Cache_MarkPendingWrite_def Cache_GetConnectionRecord_def Cache_FreeConnection_def
      valid_socket_def map_store_def map_lookup_def new_ConnectionRecord_def list_erase_def)

section \<open>Timeouts\<close>

lemma timed_out_filter:
  assumes "\<And>s'. s' \<noteq> s \<Longrightarrow> m_ConnectionMap c' s' = m_ConnectionMap c s'"
    and "actives c' = filter (\<lambda>s'. s' \<noteq> s) (actives c)" and "timed_out now t (map_lookup c s)"
  shows "filter (\<lambda>s. \<not> timed_out now t (map_lookup c' s)) (actives c') =
      filter (\<lambda>s. \<not> timed_out now t (map_lookup c s)) (actives c)"
    and "filter (\<lambda>s. timed_out now t (map_lookup c' s)) (actives c') =
      filter (\<lambda>s'. s' \<noteq> s) (filter (\<lambda>s. timed_out now t (map_lookup c s)) (actives c))"
proof -
  have l: "map_lookup c' s' = map_lookup c s'" if "s' \<noteq> s" for s'
    using assms(1) [OF that] by (simp add: map_lookup_def)
  have "(s' \<noteq> s \<and> \<not> timed_out now t (map_lookup c' s')) = (\<not> timed_out now t (map_lookup c s'))"
    "(s' \<noteq> s \<and> timed_out now t (map_lookup c' s')) = (timed_out now t (map_lookup c s') \<and> s' \<noteq> s)" for s'
    using l [of s'] assms(3) by (cases "s' = s"; simp)+
  then show "filter (\<lambda>s. \<not> timed_out now t (map_lookup c' s)) (actives c') =
      filter (\<lambda>s. \<not> timed_out now t (map_lookup c s)) (actives c)"
    "filter (\<lambda>s. timed_out now t (map_lookup c' s)) (actives c') =
      filter (\<lambda>s'. s' \<noteq> s) (filter (\<lambda>s. timed_out now t (map_lookup c s)) (actives c))"
    unfolding assms(2) by (simp_all add: conj_commute)
qed

lemma timeout_loop_spec:
  "cache_inv c \<Longrightarrow> m_ActiveConnectionList c = pre @ rest \<Longrightarrow>
   \<forall>node \<in> set pre. \<not> timed_out now t (map_lookup c (snd node)) \<Longrightarrow>
     \<exists>c'. timeout_loop now t c rest = Some (Inr c') \<and> cache_inv c' \<and>
       actives c' = filter (\<lambda>s. \<not> timed_out now t (map_lookup c s)) (actives c) \<and>
       m_Closed c' = m_Closed c @ filter (\<lambda>s. timed_out now t (map_lookup c s)) (actives c) \<and>
       (\<forall>s \<in> set (actives c'). m_ConnectionMap c' s = m_ConnectionMap c s)"
proof (induction "length (m_ActiveConnectionList c)" arbitrary: c pre rest rule: less_induct)
  case less
  from less.prems show ?case
  proof (induction rest arbitrary: pre)
    case Nil
    let ?c = "c\<lparr>m_list_it := End\<rparr>"
    have "timeout_loop now t c [] = Some (Inr ?c)" by (subst timeout_loop.simps) simp
    moreover have "cache_inv ?c" using Nil.prems(1) by (simp add: cache_inv_def node_ok_def)
    ultimately show ?case using Nil.prems(2,3) by (simp add: actives_def filter_id_conv)
  next
    case (Cons node rest)
    obtain k s where node: "node = (k, s)" by (cases node)
    have ks: "(k, s) \<in> set (m_ActiveConnectionList c)" using Cons.prems(2) node by simp
    from node_okE [OF Cons.prems(1) ks] obtain r where
      r: "m_ConnectionMap c s = Some r" "map_lookup c s = r" "cr_it r = Node k" "Socketfd r = s"
        "valid_socket s" by metis
    show ?case
    proof (cases "timed_out now t r")
      case False
      then have "timeout_loop now t c (node # rest) = timeout_loop now t c rest"
        using node r by (subst timeout_loop.simps) simp
      moreover have "m_ActiveConnectionList c = (pre @ [node]) @ rest" using Cons.prems(2) by simp
      moreover have "\<forall>node \<in> set (pre @ [node]). \<not> timed_out now t (map_lookup c (snd node))"
        using Cons.prems(3) False node r by simp
      ultimately show ?thesis using Cons.IH [OF Cons.prems(1)] by metis
    next
      case True
      have s: "s \<noteq> -1" using r(5) by (simp add: valid_socket_def)
      have ns: "cr_it r' \<noteq> Singular" if "m_ConnectionMap c s = Some r'" for r' using that r(1,3) by simp
      from FreeConnection_spec [OF Cons.prems(1) s ns] obtain c1 where c1: "Cache_FreeConnection c s = Inr c1" "cache_inv c1"
          "actives c1 = filter (\<lambda>s'. s' \<noteq> s) (actives c)" "m_Closed c1 = m_Closed c @ [s]"
          "\<And>s'. s' \<noteq> s \<Longrightarrow> m_ConnectionMap c1 s' = m_ConnectionMap c s'"
        by blast
      have step: "timeout_loop now t c (node # rest) = timeout_loop now t c1 (m_ActiveConnectionList c1)"
        using True node r c1(1) by (subst timeout_loop.simps) simp
      have "s \<in> set (actives c)" using ks active_node by blast
      then have "length (actives c1) < length (actives c)"
        unfolding c1(3) by (rule length_filter_less) simp
      then have "length (m_ActiveConnectionList c1) < length (m_ActiveConnectionList c)"
        by (simp add: actives_def)
      from less.hyps [OF this c1(2), of "[]"] obtain c2 where
        c2: "timeout_loop now t c1 (m_ActiveConnectionList c1) = Some (Inr c2)" "cache_inv c2"
          "actives c2 = filter (\<lambda>s. \<not> timed_out now t (map_lookup c1 s)) (actives c1)"
          "m_Closed c2 = m_Closed c1 @ filter (\<lambda>s. timed_out now t (map_lookup c1 s)) (actives c1)"
          "\<forall>s \<in> set (actives c2). m_ConnectionMap c2 s = m_ConnectionMap c1 s" by auto
      have f: "filter (\<lambda>s. \<not> timed_out now t (map_lookup c1 s)) (actives c1) =
            filter (\<lambda>s. \<not> timed_out now t (map_lookup c s)) (actives c)"
          "filter (\<lambda>s. timed_out now t (map_lookup c1 s)) (actives c1) =
            filter (\<lambda>s'. s' \<noteq> s) (filter (\<lambda>s. timed_out now t (map_lookup c s)) (actives c))"
        using timed_out_filter [of s c1 c now t] c1(3,5) True r(2) by metis+
      have acts: "actives c = map snd pre @ s # map snd rest" using Cons.prems(2) node by (simp add: actives_def)
      have none: "filter (\<lambda>s. timed_out now t (map_lookup c s)) (map snd pre) = []"
        using Cons.prems(3) by (auto simp: filter_empty_conv)
      have d: "distinct (actives c)" by (rule actives_distinct [OF Cons.prems(1)])
      have "filter (\<lambda>s. timed_out now t (map_lookup c s)) (actives c) =
          s # filter (\<lambda>s'. s' \<noteq> s) (filter (\<lambda>s. timed_out now t (map_lookup c s)) (actives c))"
      proof -
        let ?p = "\<lambda>s. timed_out now t (map_lookup c s)"
        have "s \<notin> set (map snd rest)" using d unfolding acts by simp
        then have "filter (\<lambda>s'. s' \<noteq> s) (filter ?p (map snd rest)) = filter ?p (map snd rest)"
          by (intro filter_True) auto
        moreover have "filter ?p (actives c) = s # filter ?p (map snd rest)"
          unfolding acts using none True r(2) by simp
        ultimately show ?thesis by simp
      qed
      then have "m_Closed c2 = m_Closed c @ filter (\<lambda>s. timed_out now t (map_lookup c s)) (actives c)"
        using c2(4) c1(4) f(2) by (metis append.assoc append_Cons append_Nil)
      moreover have "s' \<noteq> s" if "s' \<in> set (actives c2)" for s'
        using that c2(3) c1(3) by auto
      ultimately show ?thesis using step c2 f(1) c1(5) by metis
    qed
  qed
qed

lemma TimeoutConnections_spec:
  assumes "cache_inv c"
  shows "\<exists>c'. Cache_TimeoutConnections now c t = Some (Inr c') \<and> cache_inv c' \<and>
    actives c' = filter (\<lambda>s. \<not> timed_out now t (map_lookup c s)) (actives c) \<and>
    m_Closed c' = m_Closed c @ filter (\<lambda>s. timed_out now t (map_lookup c s)) (actives c) \<and>
    (\<forall>s \<in> set (actives c'). m_ConnectionMap c' s = m_ConnectionMap c s)"
proof (cases "m_ActiveConnectionList c = []")
  case True
  then show ?thesis using assms by (simp add: Cache_TimeoutConnections_def actives_def)
next
  case False
  then show ?thesis using timeout_loop_spec [OF assms, of "[]"]
    by (simp add: Cache_TimeoutConnections_def)
qed

section \<open>Polling\<close>

lemma set_active_loop_spec:
  assumes inv: "cache_inv c"
  shows "set rest \<subseteq> set (m_ActiveConnectionList c) \<Longrightarrow> \<forall>s \<in> snd ` set rest. s < FD_SETSIZE \<Longrightarrow>
    count + int (length rest) < nmax \<Longrightarrow>
      set_active_loop c nmax count fds m rest =
        Inr (fds \<union> snd ` set rest, fold max (map snd rest) m, [], None)"
proof (induction rest arbitrary: count fds m)
  case Nil
  then show ?case by simp
next
  case (Cons node rest)
  obtain k s where node: "node = (k, s)" by (cases node)
  then have "(k, s) \<in> set (m_ActiveConnectionList c)" using Cons.prems(1) by simp
  from node_okE [OF inv this] obtain r where
    r: "map_lookup c s = r" "cr_State r = CRS_WAITING" "Socketfd r = s" "valid_socket s" by metis
  have "FD_SET s fds = Inr (insert s fds)"
    using r(4) Cons.prems(2) node by (simp add: FD_SET_def valid_socket_def)
  moreover have "count + 1 \<noteq> nmax" using Cons.prems(3) by simp
  moreover have "set_active_loop c nmax (count + 1) (insert s fds) (max m s) rest =
      Inr (insert s fds \<union> snd ` set rest, fold max (map snd rest) (max m s), [], None)"
    using Cons.prems by (intro Cons.IH) auto
  ultimately show ?case using node r by (simp add: max.commute)
qed

text \<open>
  As long as no descriptor is too big for the set, one call takes all active connections: the set
  never fills up, so the incomplete marker stays at the end.
\<close>

lemma few_actives:
  assumes inv: "cache_inv c" and small: "\<forall>s \<in> set (actives c). s < FD_SETSIZE"
  shows "int (length (actives c)) < FD_SETSIZE"
proof -
  have "set (actives c) \<subseteq> {1..<FD_SETSIZE}"
  proof
    fix s assume s: "s \<in> set (actives c)"
    then obtain k where "(k, s) \<in> set (m_ActiveConnectionList c)" by (auto simp: active_node)
    from node_okD(5) [OF inv this] show "s \<in> {1..<FD_SETSIZE}" using s small by (simp add: valid_socket_def)
  qed
  then have "card (set (actives c)) \<le> card {1..<FD_SETSIZE}" by (intro card_mono) simp_all
  moreover have "card (set (actives c)) = length (actives c)"
    by (rule distinct_card [OF actives_distinct [OF inv]])
  ultimately show ?thesis by (simp add: FD_SETSIZE_def)
qed

lemma list_from_it_of:
  assumes "distinct (map fst l)" "l = pre @ rest"
  shows "list_from l (it_of rest) = Inr rest"
proof (cases rest)
  case Nil
  then show ?thesis by (simp add: it_of_def list_from_def)
next
  case (Cons node rest')
  obtain k s where node: "node = (k, s)" by (cases node)
  have "\<forall>x \<in> set pre. fst x \<noteq> k" using assms Cons node by (auto simp: image_iff)
  then have "dropWhile (\<lambda>(n, _). n \<noteq> k) (pre @ rest) = rest"
    using Cons node by (subst dropWhile_append2) auto
  then show ?thesis using Cons node assms(2) by (simp add: it_of_def list_from_def)
qed

lemma SetActiveConnections_spec:
  assumes inv: "cache_inv c" and small: "\<forall>s \<in> set (actives c). s < FD_SETSIZE"
    and marker: "m_itIncompleteMarker c = End"
  shows "\<exists>c'. Cache_SetActiveConnections c fds FD_SETSIZE =
      Inr (fds \<union> set (actives c), fold max (actives c) 0, c') \<and>
    cache_inv c' \<and> actives c' = actives c \<and> m_Closed c' = m_Closed c \<and>
    m_itIncompleteMarker c' = End \<and> m_ConnectionMap c' = m_ConnectionMap c"
proof (cases "m_ActiveConnectionList c = []")
  case True
  then show ?thesis using inv marker by (simp add: Cache_SetActiveConnections_def actives_def)
next
  case False
  let ?l = "m_ActiveConnectionList c"
  have d: "distinct (map fst ?l)" using inv by (simp add: cache_inv_def)
  have f: "list_from ?l (it_of ?l) = Inr ?l" using list_from_it_of [OF d, of "[]" ?l] by simp
  have n: "0 + int (length ?l) < FD_SETSIZE" using few_actives [OF inv small] by (simp add: actives_def)
  have small': "\<forall>s \<in> snd ` set ?l. s < FD_SETSIZE" using small by (simp add: actives_def)
  let ?c = "c\<lparr>m_list_it := it_of [], m_itIncompleteMarker := End\<rparr>"
  have "Cache_SetActiveConnections c fds FD_SETSIZE =
      Inr (fds \<union> set (actives c), fold max (actives c) 0, ?c)"
    using False marker f set_active_loop_spec [OF inv subset_refl small' n, of fds 0]
    by (simp add: Cache_SetActiveConnections_def actives_def)
  moreover have "cache_inv ?c" using inv by (simp add: cache_inv_def node_ok_def)
  ultimately show ?thesis by (simp add: actives_def)
qed

text \<open>A descriptor that does not fit is an access out of the set's bounds.\<close>

lemma big_socket_faults:
  assumes inv: "cache_inv c" and l: "m_ActiveConnectionList c = (k, s) # rest" and s: "FD_SETSIZE \<le> s"
    and marker: "m_itIncompleteMarker c = End"
  shows "Cache_SetActiveConnections c fds FD_SETSIZE = Inl OutOfBounds"
proof -
  have ks: "(k, s) \<in> set (m_ActiveConnectionList c)" using l by simp
  have d: "distinct (map fst (m_ActiveConnectionList c))" using inv by (simp add: cache_inv_def)
  have "list_from ((k, s) # rest) (it_of ((k, s) # rest)) = Inr ((k, s) # rest)"
    using list_from_it_of [of "(k, s) # rest" "[]" "(k, s) # rest"] d l by simp
  then show ?thesis using node_okD [OF inv ks] l s marker
    by (simp add: Cache_SetActiveConnections_def FD_SET_def)
qed

section \<open>Enumerating the connections that have data\<close>

definition is_ready :: "cConnectionCache \<Rightarrow> int set \<Rightarrow> int \<Rightarrow> bool" where
  "is_ready c fds s \<longleftrightarrow> pActiveHandler (map_lookup c s) = None \<and>
     (s \<in> fds \<or> Buffer_GetBufferCount (cr_buffer (map_lookup c s)) > 0)"

lemma next_set_loop_spec:
  assumes inv: "cache_inv c"
  shows "set rest \<subseteq> set (m_ActiveConnectionList c) \<Longrightarrow> \<forall>s \<in> snd ` set rest. s < FD_SETSIZE \<Longrightarrow>
    next_set_loop c fds rest =
      Inr (case dropWhile (\<lambda>node. \<not> is_ready c fds (snd node)) rest of
             [] \<Rightarrow> (None, []) | node # rest' \<Rightarrow> (Some (snd node), rest'))"
proof (induction rest)
  case Nil
  then show ?case by simp
next
  case (Cons node rest)
  obtain k s where node: "node = (k, s)" by (cases node)
  then have "(k, s) \<in> set (m_ActiveConnectionList c)" using Cons.prems(1) by simp
  note n = node_okD [OF inv this]
  have "FD_ISSET s fds = Inr (s \<in> fds)"
    using n(5) Cons.prems(2) node by (simp add: FD_ISSET_def valid_socket_def)
  then have "record_ready (map_lookup c s) fds = Inr (is_ready c fds s)"
    using n(3,4) by (simp add: record_ready_def is_ready_def)
  then show ?case using Cons.IH Cons.prems node by simp
qed

text \<open>
  The next ready connection is the first one from the iterator on, and the iterator moves behind
  it. So freeing the connection that was just returned keeps the iterator valid.
\<close>

lemma GetNextSetRecord_spec:
  assumes inv: "cache_inv c" and small: "\<forall>s \<in> set (actives c). s < FD_SETSIZE"
    and l: "m_ActiveConnectionList c = pre @ rest" and it: "m_list_it c = it_of rest"
  shows "Cache_GetNextSetRecord c fds =
      (case dropWhile (\<lambda>node. \<not> is_ready c fds (snd node)) rest of
         [] \<Rightarrow> Inr (None, c\<lparr>m_list_it := End\<rparr>)
       | node # rest' \<Rightarrow> Inr (Some (snd node), c\<lparr>m_list_it := it_of rest'\<rparr>))"
proof -
  have "distinct (map fst (m_ActiveConnectionList c))" using inv by (simp add: cache_inv_def)
  from list_from_it_of [OF this l]
  have "list_from (m_ActiveConnectionList c) (m_list_it c) = Inr rest" using it by simp
  moreover have "set rest \<subseteq> set (m_ActiveConnectionList c)" "\<forall>s \<in> snd ` set rest. s < FD_SETSIZE"
    using l small by (auto simp: actives_def)
  ultimately have "Cache_GetNextSetRecord c fds =
      rbind (next_set_loop c fds rest) (\<lambda>(rec, rest). Inr (rec, c\<lparr>m_list_it := it_of rest\<rparr>))"
    and "next_set_loop c fds rest =
      Inr (case dropWhile (\<lambda>node. \<not> is_ready c fds (snd node)) rest of
             [] \<Rightarrow> (None, []) | node # rest' \<Rightarrow> (Some (snd node), rest'))"
    using next_set_loop_spec [OF inv] by (simp add: Cache_GetNextSetRecord_def, blast)
  then show ?thesis
    by (cases "dropWhile (\<lambda>node. \<not> is_ready c fds (snd node)) rest")
      (simp_all only: list.case rbind.simps prod.case, simp add: it_of_def)
qed

lemma GetActiveConnectionCount_eq:
  assumes inv: "cache_inv c"
  shows "fst (Cache_GetActiveConnectionCount c) = int (length (actives c))"
proof -
  have "cr_State (map_lookup c (snd node)) = CRS_WAITING" if "node \<in> set (m_ActiveConnectionList c)" for node
    using node_okD(3) [OF inv, of "fst node" "snd node"] that by simp
  then have "filter (\<lambda>(_, s). cr_State (map_lookup c s) = CRS_WAITING) (m_ActiveConnectionList c) =
      m_ActiveConnectionList c" by (intro filter_True) auto
  then show ?thesis by (simp add: Cache_GetActiveConnectionCount_def actives_def)
qed

text \<open>
  Adding a socket that is already active leaves its old node behind: after the socket is freed, the
  list still has an entry for it, whose record is free.
\<close>

lemma add_twice_leaves_node:
  assumes inv: "cache_inv c" and k: "(k, s) \<in> set (m_ActiveConnectionList c)"
    and a: "Cache_AddConnection now c s addr port = Inr c1"
  shows "\<exists>c2. Cache_FreeConnection c1 s = Inr c2 \<and> (k, s) \<in> set (m_ActiveConnectionList c2) \<and>
    cr_State (map_lookup c2 s) = CRS_FREE"
proof -
  let ?n = "m_iNextNode c"
  have s: "valid_socket s" by (rule node_okD(5) [OF inv k])
  from a s obtain b where c1: "m_ActiveConnectionList c1 = m_ActiveConnectionList c @ [(?n, s)]"
    "m_ConnectionMap c1 s = Some ((map_lookup c s)\<lparr>arrivalPort := port, SocketAddr := addr,
       Socketfd := s, cr_timestamp := now, cr_buffer := b, pActiveHandler := None,
       pendingwrite := False, cr_State := CRS_WAITING, cr_it := Node ?n\<rparr>)" (is "_ = Some ?r")
    by (auto simp: Cache_AddConnection_def Let_def result_simps map_store_def)
  have "k \<noteq> ?n" using inv k by (fastforce simp: cache_inv_def node_ok_def)
  then show ?thesis using c1 k s
    by (auto simp: Cache_FreeConnection_def list_erase_def valid_socket_def map_store_def
        map_lookup_def Cache_CloseSocket_def)
qed

end
