(* ===== verification/ConnectionQueue.thy ===== *)
theory ConnectionQueue
  imports ConnectionCache PriorityQueue Timer Msg
begin

text \<open>
  \<open>connectionqueue.h\<close> and the part of \<open>connectionqueue.cpp\<close> that other components call: the class
  \<open>cConnectionQueue\<close>. New connections are put into a queue of their own, from which the thread of
  the connection queue takes them; messages to be sent are queued by priority. The thread itself
  is in the theory \<open>ConnectionTasks\<close>.
\<close>

type_synonym pre_record = "int \<times> sockaddr_in \<times> int"

record cConnectionQueue =
  m_iConnectionTimeout :: int
  m_ConnectionCache :: cConnectionCache
  cq_timer :: cTimer
  m_outboundQueueTimer :: cTimer
  m_ConMsgTimer :: cTimer
  m_outbound_priority_queue :: "nat list"
  m_PreQueue :: "pre_record list"
  m_PreQueueIndex :: nat

definition new_cConnectionQueue :: "int \<Rightarrow> cConnectionQueue" where
  "new_cConnectionQueue iConnectionTimeout =
     \<lparr>m_iConnectionTimeout = iConnectionTimeout, m_ConnectionCache = new_cConnectionCache,
      cq_timer = new_cTimer, m_outboundQueueTimer = new_cTimer, m_ConMsgTimer = new_cTimer,
      m_outbound_priority_queue = [], m_PreQueue = [], m_PreQueueIndex = 0\<rparr>"

definition ConQueue_AddConnection ::
  "cConnectionQueue \<Rightarrow> int \<Rightarrow> sockaddr_in \<Rightarrow> int \<Rightarrow> cConnectionQueue" where
  "ConQueue_AddConnection q sock addr iArrivalPort =
     (let v = (if m_PreQueueIndex q \<ge> length (m_PreQueue q) then m_PreQueue q @ [(0, (0, 0), 0)]
               else m_PreQueue q)
      in q\<lparr>m_PreQueue := v[m_PreQueueIndex q := (sock, addr, iArrivalPort)],
           m_PreQueueIndex := m_PreQueueIndex q + 1\<rparr>)"

definition ConQueue_FreeConnection :: "cConnectionQueue \<Rightarrow> int \<Rightarrow> cConnectionQueue result" where
  "ConQueue_FreeConnection q sock =
     rbind (Cache_FreeConnection (m_ConnectionCache q) sock) (\<lambda>c. Inr (q\<lparr>m_ConnectionCache := c\<rparr>))"

text \<open>\<open>m\<close> is the message with the number \<open>a\<close>.\<close>

definition ConQueue_SendMsg :: "cConnectionQueue \<Rightarrow> nat \<Rightarrow> cMsg \<Rightarrow> cConnectionQueue result" where
  "ConQueue_SendMsg q a m =
     (let q = q\<lparr>m_outbound_priority_queue := pq_push a (m_outbound_priority_queue q)\<rparr>
      in if Msg_GetConnectionType m = MSG_CT_OB_TCP
         then rbind (Cache_MarkPendingWrite (m_ConnectionCache q) (Msg_GetTCPSocketHandle m)) (\<lambda>c.
              Inr (q\<lparr>m_ConnectionCache := c\<rparr>))
         else if Msg_GetConnectionType m = MSG_CT_OB_UDP
         then rbind (Cache_MarkPendingWrite (m_ConnectionCache q) (Msg_GetUDPSocketHandle m)) (\<lambda>c.
              Inr (q\<lparr>m_ConnectionCache := c\<rparr>))
         else Inr q)"

text \<open>The part of \<open>Run\<close> that moves the queued connections into the cache.\<close>

fun add_prequeued :: "int \<Rightarrow> cConnectionCache \<Rightarrow> pre_record list \<Rightarrow> cConnectionCache result" where
  "add_prequeued now c [] = Inr c"
| "add_prequeued now c ((sock, addr, port) # rest) =
     rbind (Cache_AddConnection now c sock addr port) (\<lambda>c. add_prequeued now c rest)"

definition ConQueue_AddPrequeued :: "int \<Rightarrow> cConnectionQueue \<Rightarrow> cConnectionQueue result" where
  "ConQueue_AddPrequeued now q =
     (if m_PreQueueIndex q \<noteq> 0
      then rbind (add_prequeued now (m_ConnectionCache q) (take (m_PreQueueIndex q) (m_PreQueue q)))
             (\<lambda>c. Inr (q\<lparr>m_ConnectionCache := c, m_PreQueueIndex := 0\<rparr>))
      else Inr q)"

section \<open>Queued connections reach the cache, in order\<close>

definition waiting :: "cConnectionQueue \<Rightarrow> pre_record list" where
  "waiting q = take (m_PreQueueIndex q) (m_PreQueue q)"

definition prequeue_inv :: "cConnectionQueue \<Rightarrow> bool" where
  "prequeue_inv q \<longleftrightarrow> m_PreQueueIndex q \<le> length (m_PreQueue q)"

lemma AddConnection_waits:
  assumes "prequeue_inv q"
  shows "prequeue_inv (ConQueue_AddConnection q sock addr port)"
    and "waiting (ConQueue_AddConnection q sock addr port) = waiting q @ [(sock, addr, port)]"
  using assms
  by (auto simp: prequeue_inv_def waiting_def ConQueue_AddConnection_def Let_def take_Suc_conv_app_nth)

lemma add_prequeued_spec:
  "cache_inv c \<Longrightarrow> \<forall>(s, a, p) \<in> set rs. valid_socket s \<Longrightarrow> distinct (actives c @ map fst rs) \<Longrightarrow>
     \<exists>c'. add_prequeued now c rs = Inr c' \<and> cache_inv c' \<and> actives c' = actives c @ map fst rs \<and>
       m_Closed c' = m_Closed c \<and> m_itIncompleteMarker c' = m_itIncompleteMarker c"
proof (induction rs arbitrary: c)
  case Nil
  then show ?case by simp
next
  case (Cons r rs)
  obtain s a p where r: "r = (s, a, p)" by (cases r)
  have s: "valid_socket s" "s \<notin> set (actives c)" using Cons.prems(2,3) r by auto
  from AddConnection_spec [OF Cons.prems(1) s, of now a p] obtain c1 where
    c1: "Cache_AddConnection now c s a p = Inr c1" "cache_inv c1" "actives c1 = actives c @ [s]"
      "m_Closed c1 = m_Closed c" "m_itIncompleteMarker c1 = m_itIncompleteMarker c" by blast
  have "distinct (actives c1 @ map fst rs)" using Cons.prems(3) r c1(3) by simp
  from Cons.IH [OF c1(2) _ this] Cons.prems(2) c1 r show ?case by auto
qed

lemma AddPrequeued_spec:
  assumes "cache_inv (m_ConnectionCache q)" "\<forall>(s, a, p) \<in> set (waiting q). valid_socket s"
    and "distinct (actives (m_ConnectionCache q) @ map fst (waiting q))"
  shows "\<exists>q'. ConQueue_AddPrequeued now q = Inr q' \<and> cache_inv (m_ConnectionCache q') \<and>
    actives (m_ConnectionCache q') = actives (m_ConnectionCache q) @ map fst (waiting q) \<and>
    waiting q' = []"
proof (cases "m_PreQueueIndex q = 0")
  case True
  then show ?thesis using assms by (simp add: ConQueue_AddPrequeued_def waiting_def)
next
  case False
  then show ?thesis
    using add_prequeued_spec [OF assms, of now] by (auto simp: ConQueue_AddPrequeued_def waiting_def)
qed

end
