(* ===== verification/SysMetrics.thy ===== *)
theory SysMetrics
  imports Timer "HOL-Library.Signed_Division"
begin

text \<open>
  \<open>sysmetrics.h\<close> and \<open>sysmetrics.cpp\<close>: the counters of the program. Each counter keeps
  an array of 3600 entries, one for each second of an hour, that is written through the second
  count of the owning \<open>cSysMetrics\<close> without a check. The state machine at the end shows that
  this index stays inside the array as long as the clock does not go back. The floating-point
  average of response times is not modelled.
\<close>

section \<open>Counters\<close>

record cSysMetricNumericalCounter =
  c_index :: int
  c_count :: int
  c_totalCount :: int
  c_hourlyCount :: "int list"

definition new_counter :: cSysMetricNumericalCounter where
  "new_counter = \<lparr>c_index = 0, c_count = 0, c_totalCount = 0, c_hourlyCount = replicate 3600 0\<rparr>"

definition Counter_Inc :: "cSysMetricNumericalCounter \<Rightarrow> cSysMetricNumericalCounter" where
  "Counter_Inc c = c\<lparr>c_count := c_count c + 1, c_totalCount := c_totalCount c + 1\<rparr>"

definition Counter_ResetCount :: "cSysMetricNumericalCounter \<Rightarrow> cSysMetricNumericalCounter" where
  "Counter_ResetCount c = c\<lparr>c_count := 0\<rparr>"

text \<open>\<open>None\<close> is a write outside the array.\<close>

definition Counter_SetHourlyEntry ::
  "cSysMetricNumericalCounter \<Rightarrow> int \<Rightarrow> int \<Rightarrow> cSysMetricNumericalCounter option" where
  "Counter_SetHourlyEntry c sec v =
     (if 0 \<le> sec \<and> sec < int (length (c_hourlyCount c))
      then Some (c\<lparr>c_index := sec, c_hourlyCount := (c_hourlyCount c)[nat sec := v]\<rparr>)
      else None)"

definition Counter_GetHourData :: "cSysMetricNumericalCounter \<Rightarrow> int list" where
  "Counter_GetHourData c =
     map (\<lambda>i. c_hourlyCount c ! i) (rev [0..<nat (c_index c) + 1]) @
     map (\<lambda>i. c_hourlyCount c ! i) (rev [nat (c_index c) + 1..<3600])"

section \<open>The metrics object\<close>

record cSysMetrics =
  m_SecondTimer :: cTimer
  m_HourTimer :: cTimer
  m_SecondCount :: int
  m_MsgDelivered :: cSysMetricNumericalCounter
  m_MsgUndelivered :: cSysMetricNumericalCounter
  m_MsgRejected :: cSysMetricNumericalCounter
  m_ConAccepted :: cSysMetricNumericalCounter
  m_ConDropped :: cSysMetricNumericalCounter
  m_ConRejected :: cSysMetricNumericalCounter
  m_iSystemTimeStamp :: int
  m_iUTDays :: int
  m_iUTHours :: int
  m_iUTMins :: int
  m_iUTSecs :: int
  m_msgCount :: int
  m_msgCountPerSecond :: int
  m_msgMaxCountPerSecond :: int

definition SysMetrics_ResetCounts :: "cSysMetrics \<Rightarrow> cSysMetrics" where
  "SysMetrics_ResetCounts s =
     s\<lparr>m_MsgDelivered := Counter_ResetCount (m_MsgDelivered s),
       m_MsgUndelivered := Counter_ResetCount (m_MsgUndelivered s),
       m_MsgRejected := Counter_ResetCount (m_MsgRejected s),
       m_ConAccepted := Counter_ResetCount (m_ConAccepted s),
       m_ConRejected := Counter_ResetCount (m_ConRejected s),
       m_ConDropped := Counter_ResetCount (m_ConDropped s)\<rparr>"

definition SysMetrics_FullReset :: "cSysMetrics \<Rightarrow> cSysMetrics" where
  "SysMetrics_FullReset s = SysMetrics_ResetCounts (s\<lparr>m_SecondCount := 0\<rparr>)"

definition new_cSysMetrics :: "int \<Rightarrow> cSysMetrics" where
  "new_cSysMetrics now =
     SysMetrics_FullReset
       \<lparr>m_SecondTimer = new_cTimer, m_HourTimer = new_cTimer, m_SecondCount = 0,
        m_MsgDelivered = new_counter, m_MsgUndelivered = new_counter,
        m_MsgRejected = new_counter, m_ConAccepted = new_counter, m_ConDropped = new_counter,
        m_ConRejected = new_counter, m_iSystemTimeStamp = now, m_iUTDays = 0, m_iUTHours = 0,
        m_iUTMins = 0, m_iUTSecs = 0, m_msgCount = 0, m_msgCountPerSecond = 0,
        m_msgMaxCountPerSecond = 0\<rparr>"

definition UpdateUpTime :: "int \<Rightarrow> cSysMetrics \<Rightarrow> cSysMetrics" where
  "UpdateUpTime now s =
     (let isecs = now - m_iSystemTimeStamp s;
          idays = (if isecs > 86400 then isecs sdiv 86400 else 0);
          isecs = (if isecs > 86400 then isecs - idays * 86400 else isecs);
          ihours = (if isecs > 3600 then isecs sdiv 3600 else 0);
          isecs = (if isecs > 3600 then isecs - ihours * 3600 else isecs);
          iminutes = (if isecs > 60 then isecs sdiv 60 else 0);
          isecs = (if isecs > 60 then isecs - iminutes * 60 else isecs)
      in s\<lparr>m_iUTDays := idays, m_iUTHours := ihours, m_iUTMins := iminutes, m_iUTSecs := isecs\<rparr>)"

text \<open>The start of the thread, and one pass of its loop.\<close>

definition SysMetrics_Run_start :: "int \<Rightarrow> cSysMetrics \<Rightarrow> cSysMetrics" where
  "SysMetrics_Run_start now s =
     s\<lparr>m_SecondTimer := Timer_Start now (Timer_SetInterval (m_SecondTimer s) 1),
       m_HourTimer := Timer_Start now (Timer_SetInterval (m_HourTimer s) 3600)\<rparr>"

definition SysMetrics_second :: "int \<Rightarrow> cSysMetrics \<Rightarrow> cSysMetrics" where
  "SysMetrics_second now s =
     (let s = UpdateUpTime now s;
          s = s\<lparr>m_SecondCount := m_SecondCount s + 1\<rparr>;
          s = (if m_msgCountPerSecond s > m_msgMaxCountPerSecond s
               then s\<lparr>m_msgMaxCountPerSecond := m_msgCountPerSecond s\<rparr> else s);
          s = SysMetrics_ResetCounts (s\<lparr>m_msgCountPerSecond := 0\<rparr>)
      in s\<lparr>m_SecondTimer := Timer_Reset now (m_SecondTimer s)\<rparr>)"

definition SysMetrics_hour :: "int \<Rightarrow> cSysMetrics \<Rightarrow> cSysMetrics" where
  "SysMetrics_hour now s =
     (SysMetrics_FullReset s)\<lparr>m_HourTimer := Timer_Reset now (m_HourTimer s)\<rparr>"

definition SysMetrics_Run_pass :: "int \<Rightarrow> cSysMetrics \<Rightarrow> cSysMetrics" where
  "SysMetrics_Run_pass now s =
     (let s = (if Timer_IsReady now (m_SecondTimer s) then SysMetrics_second now s else s)
      in if Timer_IsReady now (m_HourTimer s) then SysMetrics_hour now s else s)"

definition inc_counter ::
  "cSysMetrics \<Rightarrow> cSysMetricNumericalCounter \<Rightarrow> cSysMetricNumericalCounter option" where
  "inc_counter s c =
     (let c = Counter_Inc c in Counter_SetHourlyEntry c (m_SecondCount s) (c_count c))"

definition IncMsgDelivered :: "cSysMetrics \<Rightarrow> cSysMetrics option" where
  "IncMsgDelivered s = map_option (\<lambda>c. s\<lparr>m_MsgDelivered := c\<rparr>) (inc_counter s (m_MsgDelivered s))"

definition IncMsgUndelivered :: "cSysMetrics \<Rightarrow> cSysMetrics option" where
  "IncMsgUndelivered s =
     map_option (\<lambda>c. s\<lparr>m_MsgUndelivered := c\<rparr>) (inc_counter s (m_MsgUndelivered s))"

definition IncMsgRejected :: "cSysMetrics \<Rightarrow> cSysMetrics option" where
  "IncMsgRejected s = map_option (\<lambda>c. s\<lparr>m_MsgRejected := c\<rparr>) (inc_counter s (m_MsgRejected s))"

definition IncConAccepted :: "cSysMetrics \<Rightarrow> cSysMetrics option" where
  "IncConAccepted s = map_option (\<lambda>c. s\<lparr>m_ConAccepted := c\<rparr>) (inc_counter s (m_ConAccepted s))"

definition IncConDropped :: "cSysMetrics \<Rightarrow> cSysMetrics option" where
  "IncConDropped s = map_option (\<lambda>c. s\<lparr>m_ConDropped := c\<rparr>) (inc_counter s (m_ConDropped s))"

definition IncConRejected :: "cSysMetrics \<Rightarrow> cSysMetrics option" where
  "IncConRejected s = map_option (\<lambda>c. s\<lparr>m_ConRejected := c\<rparr>) (inc_counter s (m_ConRejected s))"

definition GetTotalMsgDelivered :: "cSysMetrics \<Rightarrow> int" where
  "GetTotalMsgDelivered s = c_totalCount (m_MsgDelivered s)"

definition GetTotalMsgUndelivered :: "cSysMetrics \<Rightarrow> int" where
  "GetTotalMsgUndelivered s = c_totalCount (m_MsgUndelivered s)"

definition GetTotalMsgRejected :: "cSysMetrics \<Rightarrow> int" where
  "GetTotalMsgRejected s = c_totalCount (m_MsgRejected s)"

definition GetTotalConAccepted :: "cSysMetrics \<Rightarrow> int" where
  "GetTotalConAccepted s = c_totalCount (m_ConAccepted s)"

definition GetTotalConDropped :: "cSysMetrics \<Rightarrow> int" where
  "GetTotalConDropped s = c_totalCount (m_ConDropped s)"

definition GetTotalConRejected :: "cSysMetrics \<Rightarrow> int" where
  "GetTotalConRejected s = c_totalCount (m_ConRejected s)"

definition GetConnectionAcceptedData :: "cSysMetrics \<Rightarrow> int list" where
  "GetConnectionAcceptedData s = Counter_GetHourData (m_ConAccepted s)"

definition GetConnectionDroppedData :: "cSysMetrics \<Rightarrow> int list" where
  "GetConnectionDroppedData s = Counter_GetHourData (m_ConDropped s)"

definition GetConnectionRejectedData :: "cSysMetrics \<Rightarrow> int list" where
  "GetConnectionRejectedData s = Counter_GetHourData (m_ConRejected s)"

definition GetMessageDeliveredData :: "cSysMetrics \<Rightarrow> int list" where
  "GetMessageDeliveredData s = Counter_GetHourData (m_MsgDelivered s)"

definition GetMessageUndeliveredData :: "cSysMetrics \<Rightarrow> int list" where
  "GetMessageUndeliveredData s = Counter_GetHourData (m_MsgUndelivered s)"

definition GetMessageRejectedData :: "cSysMetrics \<Rightarrow> int list" where
  "GetMessageRejectedData s = Counter_GetHourData (m_MsgRejected s)"

definition UpdateMsgResponseTime :: "cSysMetrics \<Rightarrow> cSysMetrics" where
  "UpdateMsgResponseTime s =
     s\<lparr>m_msgCount := m_msgCount s + 1, m_msgCountPerSecond := m_msgCountPerSecond s + 1\<rparr>"

section \<open>Up time\<close>

lemma uptime_sum:
  "m_iUTDays (UpdateUpTime now s) * 86400 + m_iUTHours (UpdateUpTime now s) * 3600 +
     m_iUTMins (UpdateUpTime now s) * 60 + m_iUTSecs (UpdateUpTime now s) =
   now - m_iSystemTimeStamp s"
  by (simp add: UpdateUpTime_def Let_def)

lemma uptime_ranges:
  assumes "m_iSystemTimeStamp s \<le> now"
  shows "0 \<le> m_iUTSecs (UpdateUpTime now s)" "m_iUTSecs (UpdateUpTime now s) \<le> 60"
    "0 \<le> m_iUTMins (UpdateUpTime now s)" "m_iUTMins (UpdateUpTime now s) \<le> 60"
    "0 \<le> m_iUTHours (UpdateUpTime now s)" "m_iUTHours (UpdateUpTime now s) \<le> 24"
proof -
  define e where "e = now - m_iSystemTimeStamp s"
  define e1 where "e1 = (if e > 86400 then e - (e div 86400) * 86400 else e)"
  define e2 where "e2 = (if e1 > 3600 then e1 - (e1 div 3600) * 3600 else e1)"
  have e: "0 \<le> e" using assms by (simp add: e_def)
  have e1: "0 \<le> e1" "e1 \<le> 86400" using e by (auto simp: e1_def minus_div_mult_eq_mod)
  have e2: "0 \<le> e2" "e2 \<le> 3600" using e1 by (auto simp: e2_def minus_div_mult_eq_mod)
  have "m_iUTSecs (UpdateUpTime now s) = (if e2 > 60 then e2 - (e2 div 60) * 60 else e2)"
    "m_iUTMins (UpdateUpTime now s) = (if e2 > 60 then e2 div 60 else 0)"
    "m_iUTHours (UpdateUpTime now s) = (if e1 > 3600 then e1 div 3600 else 0)"
    unfolding e2_def e1_def e_def by (auto simp: UpdateUpTime_def Let_def signed_divide_int_def)
  then show "0 \<le> m_iUTSecs (UpdateUpTime now s)" "m_iUTSecs (UpdateUpTime now s) \<le> 60"
    "0 \<le> m_iUTMins (UpdateUpTime now s)" "m_iUTMins (UpdateUpTime now s) \<le> 60"
    "0 \<le> m_iUTHours (UpdateUpTime now s)" "m_iUTHours (UpdateUpTime now s) \<le> 24"
    using e1 e2 by (auto simp: minus_div_mult_eq_mod)
qed

section \<open>Hour data\<close>

lemma hour_data_length: "0 \<le> c_index c \<Longrightarrow> c_index c < 3600 \<Longrightarrow> length (Counter_GetHourData c) = 3600"
  by (simp add: Counter_GetHourData_def)

text \<open>Entry \<open>j\<close> is the count of \<open>j\<close> seconds ago, around the array.\<close>

lemma hour_data_nth:
  assumes "0 \<le> c_index c" "c_index c < 3600" "j < 3600"
  shows "Counter_GetHourData c ! j = c_hourlyCount c ! nat ((c_index c - int j) mod 3600)"
proof -
  define i where "i = nat (c_index c)"
  have i: "c_index c = int i" "i < 3600" using assms by (simp_all add: i_def)
  show ?thesis
  proof (cases "j \<le> i")
    case True
    then have "Counter_GetHourData c ! j = c_hourlyCount c ! (i - j)"
      using i by (simp add: Counter_GetHourData_def nth_append rev_nth del: upt_Suc)
    moreover have "(int i - int j) mod 3600 = int (i - j)" using True i by simp
    ultimately show ?thesis using i by simp
  next
    case False
    moreover have "Suc (i + 3599 - j) = 3600 + i - j" using assms(3) by simp
    ultimately have "Counter_GetHourData c ! j = c_hourlyCount c ! (3600 + i - j)"
      using i assms(3) by (simp add: Counter_GetHourData_def nth_append rev_nth del: upt_Suc)
    moreover have "(int i - int j) mod 3600 = int (3600 + i - j)"
    proof -
      have "(int i - int j) mod 3600 = (int i - int j + 3600) mod 3600" by simp
      also have "\<dots> = int i - int j + 3600" using False i assms(3) by (intro mod_pos_pos_trivial) auto
      finally show ?thesis using assms(3) by simp
    qed
    ultimately show ?thesis using i by simp
  qed
qed

section \<open>The index stays inside the array\<close>

text \<open>
  The metrics as a state machine: the thread starts once, then passes of its loop and increments
  of any counter follow in any order, at times that do not decrease.
\<close>

definition inc_any :: "cSysMetrics \<Rightarrow> cSysMetrics option set" where
  "inc_any s = {IncMsgDelivered s, IncMsgUndelivered s, IncMsgRejected s, IncConAccepted s,
     IncConDropped s, IncConRejected s}"

inductive metrics_run :: "int \<Rightarrow> cSysMetrics \<Rightarrow> bool" where
  start: "metrics_run now (SysMetrics_Run_start now (new_cSysMetrics boot))"
| pass: "metrics_run now s \<Longrightarrow> now \<le> now' \<Longrightarrow> metrics_run now' (SysMetrics_Run_pass now' s)"
| inc: "metrics_run now s \<Longrightarrow> now \<le> now' \<Longrightarrow> Some s' \<in> inc_any s \<Longrightarrow> metrics_run now' s'"
| responded: "metrics_run now s \<Longrightarrow> now \<le> now' \<Longrightarrow> metrics_run now' (UpdateMsgResponseTime s)"

definition counters :: "cSysMetrics \<Rightarrow> cSysMetricNumericalCounter set" where
  "counters s = {m_MsgDelivered s, m_MsgUndelivered s, m_MsgRejected s, m_ConAccepted s,
     m_ConDropped s, m_ConRejected s}"

definition metrics_inv :: "int \<Rightarrow> cSysMetrics \<Rightarrow> bool" where
  "metrics_inv now s \<longleftrightarrow>
     (let hour = m_timestamp (m_HourTimer s) - 3600
      in \<not> m_bStopped (m_SecondTimer s) \<and> \<not> m_bStopped (m_HourTimer s) \<and>
         m_seconds (m_SecondTimer s) = 1 \<and> m_seconds (m_HourTimer s) = 3600 \<and>
         0 \<le> m_SecondCount s \<and>
         hour + m_SecondCount s < m_timestamp (m_SecondTimer s) \<and>
         m_timestamp (m_SecondTimer s) \<le> now + 1 \<and> m_SecondCount s < 3600 \<and>
         (\<forall>c \<in> counters s. length (c_hourlyCount c) = 3600))"

lemma counters_ResetCounts:
  "c \<in> counters (SysMetrics_ResetCounts s) \<Longrightarrow> \<exists>d \<in> counters s. c = Counter_ResetCount d"
  by (auto simp: counters_def SysMetrics_ResetCounts_def)

lemma inv_start: "metrics_inv now (SysMetrics_Run_start now (new_cSysMetrics boot))"
  by (auto simp: metrics_inv_def SysMetrics_Run_start_def new_cSysMetrics_def Let_def timer_defs
      SysMetrics_FullReset_def SysMetrics_ResetCounts_def Counter_ResetCount_def counters_def
      new_counter_def)

lemma ResetCounts_fields [simp]:
  "m_SecondTimer (SysMetrics_ResetCounts s) = m_SecondTimer s"
  "m_HourTimer (SysMetrics_ResetCounts s) = m_HourTimer s"
  "m_SecondCount (SysMetrics_ResetCounts s) = m_SecondCount s"
  by (simp_all add: SysMetrics_ResetCounts_def)

lemma UpdateUpTime_fields [simp]:
  "m_SecondTimer (UpdateUpTime now s) = m_SecondTimer s"
  "m_HourTimer (UpdateUpTime now s) = m_HourTimer s"
  "m_SecondCount (UpdateUpTime now s) = m_SecondCount s"
  "counters (UpdateUpTime now s) = counters s"
  by (simp_all add: UpdateUpTime_def Let_def counters_def)

lemma second_fields:
  "m_SecondTimer (SysMetrics_second now s) = Timer_Reset now (m_SecondTimer s)"
  "m_HourTimer (SysMetrics_second now s) = m_HourTimer s"
  "m_SecondCount (SysMetrics_second now s) = m_SecondCount s + 1"
  by (simp_all add: SysMetrics_second_def Let_def)

lemma hour_fields:
  "m_SecondTimer (SysMetrics_hour now s) = m_SecondTimer s"
  "m_HourTimer (SysMetrics_hour now s) = Timer_Reset now (m_HourTimer s)"
  "m_SecondCount (SysMetrics_hour now s) = 0"
  by (simp_all add: SysMetrics_hour_def SysMetrics_FullReset_def)

definition arrays_ok :: "cSysMetrics \<Rightarrow> bool" where
  "arrays_ok s \<longleftrightarrow> (\<forall>c \<in> counters s. length (c_hourlyCount c) = 3600)"

lemma arrays_ok_ResetCounts: "arrays_ok s \<Longrightarrow> arrays_ok (SysMetrics_ResetCounts s)"
  unfolding arrays_ok_def using counters_ResetCounts by (fastforce simp: Counter_ResetCount_def)

lemma arrays_ok_second: "arrays_ok s \<Longrightarrow> arrays_ok (SysMetrics_second now s)"
proof -
  have same: "counters (s\<lparr>m_SecondTimer := t\<rparr>) = counters s"
    "counters (s\<lparr>m_SecondCount := n\<rparr>) = counters s"
    "counters (s\<lparr>m_msgMaxCountPerSecond := n\<rparr>) = counters s"
    "counters (s\<lparr>m_msgCountPerSecond := n\<rparr>) = counters s" for s t n
    by (simp_all add: counters_def)
  assume a: "arrays_ok s"
  let ?u = "(UpdateUpTime now s)\<lparr>m_SecondCount := m_SecondCount s + 1\<rparr>"
  let ?v = "(if m_msgCountPerSecond ?u > m_msgMaxCountPerSecond ?u
      then ?u\<lparr>m_msgMaxCountPerSecond := m_msgCountPerSecond ?u\<rparr> else ?u)\<lparr>m_msgCountPerSecond := 0\<rparr>"
  have "arrays_ok ?v" using a by (simp add: arrays_ok_def same)
  from arrays_ok_ResetCounts [OF this] show ?thesis
    by (simp add: SysMetrics_second_def Let_def arrays_ok_def same)
qed

lemma arrays_ok_hour: "arrays_ok s \<Longrightarrow> arrays_ok (SysMetrics_hour now s)"
proof -
  assume "arrays_ok s"
  then have "arrays_ok (s\<lparr>m_SecondCount := 0\<rparr>)" by (simp add: arrays_ok_def counters_def)
  from arrays_ok_ResetCounts [OF this] show ?thesis
    by (simp add: SysMetrics_hour_def SysMetrics_FullReset_def arrays_ok_def counters_def)
qed

lemma inv_pass:
  assumes inv: "metrics_inv now s" and t: "now \<le> now'"
  shows "metrics_inv now' (SysMetrics_Run_pass now' s)"
proof -
  have "arrays_ok s" using inv by (simp add: metrics_inv_def Let_def arrays_ok_def)
  then have a: "arrays_ok (SysMetrics_Run_pass now' s)"
    by (simp add: SysMetrics_Run_pass_def Let_def arrays_ok_second arrays_ok_hour)
  show ?thesis
    using inv t a [unfolded arrays_ok_def]
    unfolding metrics_inv_def SysMetrics_Run_pass_def Let_def
    by (cases "Timer_IsReady now' (m_SecondTimer s)"; cases "Timer_IsReady now' (m_HourTimer s)")
      (simp_all add: second_fields hour_fields timer_defs)
qed

lemma inv_inc:
  assumes inv: "metrics_inv now s" and t: "now \<le> now'" and s': "Some s' \<in> inc_any s"
  shows "metrics_inv now' s'"
  using inv t s'
  by (auto simp: metrics_inv_def Let_def inc_any_def IncMsgDelivered_def IncMsgUndelivered_def
      IncMsgRejected_def IncConAccepted_def IncConDropped_def IncConRejected_def inc_counter_def
      Counter_SetHourlyEntry_def Counter_Inc_def counters_def split: if_splits)

lemma metrics_run_inv: "metrics_run now s \<Longrightarrow> metrics_inv now s"
proof (induction rule: metrics_run.induct)
  case (start now boot)
  then show ?case by (rule inv_start)
next
  case (pass now s now')
  then show ?case using inv_pass by blast
next
  case (inc now s now' s')
  then show ?case using inv_inc by blast
next
  case (responded now s now')
  then show ?case
    by (auto simp: metrics_inv_def Let_def UpdateMsgResponseTime_def counters_def)
qed

lemma inc_never_out_of_bounds:
  assumes "metrics_inv now s" "r \<in> inc_any s"
  shows "r \<noteq> None"
  using assms
  by (auto simp: metrics_inv_def Let_def inc_any_def IncMsgDelivered_def IncMsgUndelivered_def
      IncMsgRejected_def IncConAccepted_def IncConDropped_def IncConRejected_def inc_counter_def
      Counter_SetHourlyEntry_def Counter_Inc_def counters_def)

end
