(* ===== verification/Url.thy ===== *)
theory Url
  imports Prelude
begin

text \<open>
  \<open>url.h\<close> and \<open>url.cpp\<close>: the class \<open>cURL\<close>, percent encoding by a lookup table and its
  decoder. Both write into a buffer of three bytes per input byte, with no room set aside for
  the final NUL, and \<open>Encode\<close> indexes the table with a signed character; the model keeps both.
\<close>

section \<open>The table\<close>

definition url_lookup_table :: "string list" where
  "url_lookup_table =
    [''%00'', ''%01'', ''%02'', ''%03'', ''%04'', ''%05'', ''%06'', ''%07'', ''%08'', ''%09'',
     ''%0A'', ''%0B'', ''%0C'', ''%0D'', ''%0E'', ''%0F'', ''%10'', ''%11'', ''%12'', ''%13'',
     ''%14'', ''%15'', ''%16'', ''%17'', ''%18'', ''%19'', ''%1A'', ''%1B'', ''%1C'', ''%1D'',
     ''%1E'', ''%1F'', ''%20'', ''%21'', ''%22'', ''%23'', ''%24'', ''%25'', ''%26'', ''%27'',
     ''%28'', ''%29'', ''%2A'', ''%2B'', ''%2C'', ''%2D'', ''%2E'', ''%2F'', '''', '''', '''',
     '''', '''', '''', '''', '''', '''', '''', ''%3A'', ''%3B'', ''%3C'', ''%3D'', ''%3E'',
     ''%3F'', ''%40'', '''', '''', '''', '''', '''', '''', '''', '''', '''', '''', '''', '''',
     '''', '''', '''', '''', '''', '''', '''', '''', '''', '''', '''', '''', '''', '''', ''%5B'',
     ''%5C'', ''%5D'', ''%5E'', ''%5F'', ''%60'', '''', '''', '''', '''', '''', '''', '''', '''',
     '''', '''', '''', '''', '''', '''', '''', '''', '''', '''', '''', '''', '''', '''', '''',
     '''', '''', '''', ''%7B'', ''%7C'', ''%7D'', ''%7E'', ''%7F'', ''%80'', ''%81'', ''%82'',
     ''%83'', ''%84'', ''%85'', ''%86'', ''%87'', ''%88'', ''%89'', ''%8A'', ''%8B'', ''%8C'',
     ''%8D'', ''%8E'', ''%8F'', ''%90'', ''%91'', ''%92'', ''%93'', ''%94'', ''%95'', ''%96'',
     ''%97'', ''%98'', ''%99'', ''%9A'', ''%9B'', ''%9C'', ''%9D'', ''%9E'', ''%9F'', ''%A0'',
     ''%A1'', ''%A2'', ''%A3'', ''%A4'', ''%A5'', ''%A6'', ''%A7'', ''%A8'', ''%A9'', ''%AA'',
     ''%AB'', ''%AC'', ''%AD'', ''%AE'', ''%AF'', ''%B0'', ''%B1'', ''%B2'', ''%B3'', ''%B4'',
     ''%B5'', ''%B6'', ''%B7'', ''%B8'', ''%B9'', ''%BA'', ''%BB'', ''%BC'', ''%BD'', ''%BE'',
     ''%BF'', ''%C0'', ''%C1'', ''%C2'', ''%C3'', ''%C4'', ''%C5'', ''%C6'', ''%C7'', ''%C8'',
     ''%C9'', ''%CA'', ''%CB'', ''%CC'', ''%CD'', ''%CE'', ''%CF'', ''%D0'', ''%D1'', ''%D2'',
     ''%D3'', ''%D4'', ''%D5'', ''%D6'', ''%D7'', ''%D8'', ''%D9'', ''%DA'', ''%DB'', ''%DC'',
     ''%DD'', ''%DE'', ''%DF'', ''%E0'', ''%E1'', ''%E2'', ''%E3'', ''%E4'', ''%E5'', ''%E6'',
     ''%E7'', ''%E8'', ''%E9'', ''%EA'', ''%EB'', ''%EC'', ''%ED'', ''%EE'', ''%EF'', ''%F0'',
     ''%F1'', ''%F2'', ''%F3'', ''%F4'', ''%F5'', ''%F6'', ''%F7'', ''%F8'', ''%F9'', ''%FA'',
     ''%FB'', ''%FC'', ''%FD'', ''%FE'']"

section \<open>Operations\<close>

text \<open>The table entry of a character: an index below 0 or above 254 is outside the table.\<close>

definition url_entry :: "char \<Rightarrow> string result" where
  "url_entry c =
     (let idx = schar c
      in if 0 \<le> idx \<and> idx < int (length url_lookup_table) then Inr (url_lookup_table ! nat idx)
         else Inl OutOfBounds)"

fun url_encode_loop :: "block \<Rightarrow> int \<Rightarrow> string \<Rightarrow> (block \<times> int) result" where
  "url_encode_loop buffer dst [] = Inr (buffer, dst)"
| "url_encode_loop buffer dst (c # cs) =
     rbind (url_entry c) (\<lambda>p.
       if p = [] then rbind (mem_write buffer dst c) (\<lambda>buffer. url_encode_loop buffer (dst + 1) cs)
       else rbind (write_chars buffer dst (take 3 p)) (\<lambda>buffer.
            url_encode_loop buffer (dst + 3) cs))"

definition Url_Encode :: "string \<Rightarrow> string result" where
  "Url_Encode sInBuffer =
     rbind (url_encode_loop (replicate (length sInBuffer * 3) None) 0 sInBuffer) (\<lambda>(buffer, dst).
     rbind (mem_write buffer dst NUL) (\<lambda>buffer.
     read_cstr buffer))"

definition is_xdigit :: "char \<Rightarrow> bool" where
  "is_xdigit c \<longleftrightarrow> (CHR ''0'' \<le> c \<and> c \<le> CHR ''9'') \<or> (CHR ''a'' \<le> c \<and> c \<le> CHR ''f'') \<or>
     (CHR ''A'' \<le> c \<and> c \<le> CHR ''F'')"

definition hex_digit :: "char \<Rightarrow> int" where
  "hex_digit c =
     (let v = schar c
      in if CHR ''0'' \<le> c \<and> c \<le> CHR ''9'' then v - 48
         else if CHR ''a'' \<le> c \<and> c \<le> CHR ''f'' then v - (97 - 10)
         else if CHR ''A'' \<le> c \<and> c \<le> CHR ''F'' then v - (65 - 10)
         else v)"

definition HexToInt :: "char \<Rightarrow> char \<Rightarrow> int" where
  "HexToInt hi lo = hex_digit lo + 16 * hex_digit hi"

text \<open>
  The source text of the decoder is a C string; its NUL is what the two look-aheads after a percent
  sign can meet, so the list ends there. A percent sign without two digits is dropped and what
  follows it is decoded as usual.
\<close>

fun url_decode_loop :: "block \<Rightarrow> int \<Rightarrow> string \<Rightarrow> (block \<times> int) result" where
  "url_decode_loop buffer dst [] = Inr (buffer, dst)"
| "url_decode_loop buffer dst (c # cs) =
     (if c = CHR ''%'' then
        (case cs of
           h # l # rest \<Rightarrow>
             if is_xdigit h \<and> is_xdigit l
             then rbind (mem_write buffer dst (char_of (nat (HexToInt h l mod 256)))) (\<lambda>buffer.
                  url_decode_loop buffer (dst + 1) rest)
             else url_decode_loop buffer dst cs
         | _ \<Rightarrow> url_decode_loop buffer dst cs)
      else if c = CHR ''+'' then
        rbind (mem_write buffer dst SP) (\<lambda>buffer. url_decode_loop buffer (dst + 1) cs)
      else rbind (mem_write buffer dst c) (\<lambda>buffer. url_decode_loop buffer (dst + 1) cs))"

definition Url_Decode :: "string \<Rightarrow> string result" where
  "Url_Decode sInBuffer =
     rbind (url_decode_loop (replicate (length sInBuffer * 3) None) 0 (cstr sInBuffer))
       (\<lambda>(buffer, dst).
     rbind (mem_write buffer dst NUL) (\<lambda>buffer.
     read_cstr buffer))"

section \<open>The table is the percent encoding of the unsafe characters\<close>

definition url_safe :: "char \<Rightarrow> bool" where
  "url_safe c \<longleftrightarrow>
     (let n = (of_char c :: nat) in (48 \<le> n \<and> n \<le> 57) \<or> (65 \<le> n \<and> n \<le> 90) \<or> (97 \<le> n \<and> n \<le> 122))"

definition hex_char :: "nat \<Rightarrow> char" where
  "hex_char n = ''0123456789ABCDEF'' ! n"

definition url_piece :: "char \<Rightarrow> string" where
  "url_piece c =
     (if url_safe c then [c]
      else [CHR ''%'', hex_char (of_char c div 16), hex_char (of_char c mod 16)])"

fun tabulates :: "(nat \<Rightarrow> 'a) \<Rightarrow> nat \<Rightarrow> 'a list \<Rightarrow> bool" where
  "tabulates f i [] \<longleftrightarrow> True"
| "tabulates f i (x # xs) \<longleftrightarrow> x = f i \<and> tabulates f (i + 1) xs"

lemma tabulates_nth: "tabulates f i xs \<Longrightarrow> k < length xs \<Longrightarrow> xs ! k = f (i + k)"
  by (induction f i xs arbitrary: k rule: tabulates.induct) (auto simp: nth_Cons split: nat.split)

definition url_entry_spec :: "nat \<Rightarrow> string" where
  "url_entry_spec n =
     (if (48 \<le> n \<and> n \<le> 57) \<or> (65 \<le> n \<and> n \<le> 90) \<or> (97 \<le> n \<and> n \<le> 122) then []
      else [CHR ''%'', hex_char (n div 16), hex_char (n mod 16)])"

lemma url_table_tabulates: "tabulates url_entry_spec 0 url_lookup_table"
  by (simp add: url_lookup_table_def url_entry_spec_def hex_char_def)

lemma url_table_length: "length url_lookup_table = 255"
  by (simp add: url_lookup_table_def)

definition ascii :: "char \<Rightarrow> bool" where "ascii c \<longleftrightarrow> (of_char c :: nat) < 128"

lemma url_entry_eq:
  "url_entry c = (if ascii c then Inr (if url_safe c then [] else url_piece c) else Inl OutOfBounds)"
proof (cases "ascii c")
  case True
  let ?n = "of_char c :: nat"
  have n: "?n < 128" using True by (simp add: ascii_def)
  then have "schar c = int ?n" by (simp add: schar_def Let_def)
  moreover have "url_lookup_table ! ?n = url_entry_spec ?n"
    using tabulates_nth [OF url_table_tabulates, of ?n] n url_table_length by simp
  ultimately show ?thesis using n True
    by (simp add: url_entry_def url_table_length url_entry_spec_def url_safe_def url_piece_def Let_def)
next
  case False
  then have "\<not> (of_char c :: nat) < 128" by (simp add: ascii_def)
  then have "\<not> int (of_char c) < 128" by linarith
  moreover have "int (of_char c) < 256" using of_char_less_256 [of c] by linarith
  ultimately have "schar c < 0" unfolding schar_def Let_def by simp
  then show ?thesis using False by (simp add: url_entry_def)
qed

section \<open>Encode\<close>

definition url_text :: "string \<Rightarrow> string" where
  "url_text s = concat (map url_piece s)"

lemma url_text_simps [simp]: "url_text [] = []" "url_text (c # s) = url_piece c @ url_text s"
  by (simp_all add: url_text_def)

lemma length_url_text: "length (url_text s) \<le> 3 * length s"
  by (induction s) (auto simp: url_piece_def)

lemma length_url_text_safe: "length (url_text s) = 3 * length s \<longleftrightarrow> (\<forall>c \<in> set s. \<not> url_safe c)"
proof (induction s)
  case Nil
  then show ?case by simp
next
  case (Cons c s)
  then show ?case using length_url_text [of s] by (auto simp: url_piece_def)
qed

lemma url_encode_loop_eq:
  "i + 3 * length s \<le> length blk \<Longrightarrow>
     url_encode_loop blk (int i) s =
       (if \<forall>c \<in> set s. ascii c
        then Inr (take i blk @ map Some (url_text s) @ drop (i + length (url_text s)) blk,
                  int (i + length (url_text s)))
        else Inl OutOfBounds)"
proof (induction s arbitrary: blk i)
  case Nil
  then show ?case by simp
next
  case (Cons c s)
  let ?p = "url_piece c"
  let ?blk = "take i blk @ map Some ?p @ drop (i + length ?p) blk"
  have len: "length ?p \<le> 3" by (simp add: url_piece_def)
  show ?case
  proof (cases "ascii c")
    case False
    then show ?thesis by (simp add: url_entry_eq)
  next
    case True
    have w: "write_chars blk (int i) ?p = Inr ?blk"
      using Cons.prems len by (subst write_chars_Inr) auto
    have step: "url_encode_loop blk (int i) (c # s) = url_encode_loop ?blk (int (i + length ?p)) s"
    proof (cases "url_safe c")
      case safe: True
      have "mem_write blk (int i) c = Inr ?blk" using w safe
        by (auto simp: url_piece_def result_simps)
      then show ?thesis using True safe by (simp add: url_entry_eq url_piece_def add.commute)
    next
      case unsafe: False
      have "?p \<noteq> []" "take 3 ?p = ?p" "length ?p = 3" using unsafe by (simp_all add: url_piece_def)
      then show ?thesis using True unsafe w by (simp add: url_entry_eq add.commute)
    qed
    have "i + length ?p + 3 * length s \<le> length ?blk" using Cons.prems len by simp
    note IH = Cons.IH [OF this]
    have "take (i + length ?p) ?blk = take i blk @ map Some ?p" using Cons.prems len by simp
    moreover have "drop (i + length ?p + length (url_text s)) ?blk =
        drop (i + length (url_text (c # s))) blk"
      using Cons.prems len by (simp add: ac_simps)
    ultimately show ?thesis using True step IH by (simp add: add.assoc)
  qed
qed

lemma url_safe_not_NUL: "\<not> url_safe NUL"
  by (simp add: url_safe_def)

lemma hex_char_facts:
  "\<forall>n \<in> set [0..<16]. is_xdigit (hex_char n) \<and> hex_digit (hex_char n) = int n \<and> hex_char n \<noteq> NUL"
  by code_simp

lemma hex_char_digit:
  "n < 16 \<Longrightarrow> is_xdigit (hex_char n)" "n < 16 \<Longrightarrow> hex_digit (hex_char n) = int n"
  "n < 16 \<Longrightarrow> hex_char n \<noteq> NUL"
  using hex_char_facts by auto

lemma digits_of_char:
  "(of_char c :: nat) div 16 < 16" "(of_char c :: nat) mod 16 < 16"
  using of_char_less_256 [of c] by (auto intro: less_mult_imp_div_less)

lemma url_text_no_NUL: "NUL \<notin> set (url_text s)"
proof (induction s)
  case Nil
  then show ?case by simp
next
  case (Cons c s)
  then show ?case
    using hex_char_digit(3) [OF digits_of_char(1) [of c]] hex_char_digit(3) [OF digits_of_char(2) [of c]]
      url_safe_not_NUL by (auto simp: url_piece_def)
qed

text \<open>
  The complete behaviour of \<open>Encode\<close>: a character above 127 reads outside the table, and a text
  in which every character is escaped leaves no room for the NUL.
\<close>

lemma Encode_eq:
  "Url_Encode s =
     (if (\<forall>c \<in> set s. ascii c) \<and> (\<exists>c \<in> set s. url_safe c) then Inr (url_text s)
      else Inl OutOfBounds)"
proof (cases "\<forall>c \<in> set s. ascii c")
  case False
  then have "url_encode_loop (replicate (length s * 3) None) 0 s = Inl OutOfBounds"
    using url_encode_loop_eq [of 0 s "replicate (length s * 3) None"] by simp
  then show ?thesis using False by (auto simp: Url_Encode_def)
next
  case ascii: True
  let ?n = "length (url_text s)"
  let ?blk = "map Some (url_text s) @ replicate (length s * 3 - ?n) None"
  have loop: "url_encode_loop (replicate (length s * 3) None) 0 s = Inr (?blk, int ?n)"
    using url_encode_loop_eq [of 0 s "replicate (length s * 3) None"] ascii by simp
  show ?thesis
  proof (cases "\<exists>c \<in> set s. url_safe c")
    case True
    then have lt: "?n < length s * 3"
      using length_url_text [of s] length_url_text_safe [of s] by auto
    obtain m where m: "length s * 3 - ?n = Suc m" using lt by (metis Suc_diff_Suc)
    have "mem_write ?blk (int ?n) NUL = Inr (map Some (url_text s) @ Some NUL # replicate m None)"
      unfolding m by (simp add: mem_write_def list_update_append)
    then have "Url_Encode s = Inr (url_text s)"
      using loop by (simp add: Url_Encode_def read_cstr_append [OF url_text_no_NUL])
    then show ?thesis using True ascii by simp
  next
    case False
    then have "?n = length s * 3" using length_url_text_safe [of s] by simp
    then show ?thesis using False ascii loop by (simp add: Url_Encode_def mem_write_def)
  qed
qed

section \<open>Decode\<close>

fun url_plain :: "string \<Rightarrow> string" where
  "url_plain (c # h # l # rest) =
     (if c = CHR ''%'' \<and> is_xdigit h \<and> is_xdigit l
      then char_of (nat (HexToInt h l mod 256)) # url_plain rest
      else if c = CHR ''%'' then url_plain (h # l # rest)
      else (if c = CHR ''+'' then SP else c) # url_plain (h # l # rest))"
| "url_plain [c, h] =
     (if c = CHR ''%'' then url_plain [h] else (if c = CHR ''+'' then SP else c) # url_plain [h])"
| "url_plain [c] = (if c = CHR ''%'' then [] else [if c = CHR ''+'' then SP else c])"
| "url_plain [] = []"

lemma length_url_plain: "length (url_plain s) \<le> length s"
  by (induction s rule: url_plain.induct) (auto intro: le_SucI)

text \<open>One byte written and the rest of the text decoded after it.\<close>

lemma url_put:
  assumes "i + Suc (length t) \<le> length blk"
    and "\<And>blk' i'. i' + length t \<le> length blk' \<Longrightarrow> url_decode_loop blk' (int i') t =
        Inr (take i' blk' @ map Some u @ drop (i' + length u) blk', int (i' + length u))"
  shows "rbind (mem_write blk (int i) d) (\<lambda>blk. url_decode_loop blk (int i + 1) t) =
      Inr (take i blk @ map Some (d # u) @ drop (i + length (d # u)) blk, int (i + length (d # u)))"
proof -
  have "take (Suc i) (blk[i := Some d]) = take i blk @ [Some d]"
    using assms(1) by (simp add: take_Suc_conv_app_nth)
  then show ?thesis using assms(1) assms(2) [of "Suc i" "blk[i := Some d]"]
    by (simp add: mem_write_def add.commute)
qed

lemma url_decode_loop_eq:
  "i + length s \<le> length blk \<Longrightarrow>
     url_decode_loop blk (int i) s =
       Inr (take i blk @ map Some (url_plain s) @ drop (i + length (url_plain s)) blk,
            int (i + length (url_plain s)))"
proof (induction s arbitrary: blk i rule: url_plain.induct)
  case (1 c h l rest)
  show ?case
  proof (cases "c = CHR ''%'' \<and> is_xdigit h \<and> is_xdigit l")
    case True
    then show ?thesis
      using url_put [of i rest blk, OF _ "1.IH"(1) [OF True]] "1.prems" by simp
  next
    case no: False
    show ?thesis
    proof (cases "c = CHR ''%''")
      case True
      have "url_plain (c # h # l # rest) = url_plain (h # l # rest)"
        "url_decode_loop blk (int i) (c # h # l # rest) = url_decode_loop blk (int i) (h # l # rest)"
        using no True by (auto simp del: url_decode_loop.simps(2)) (auto simp: url_decode_loop.simps(2) [of _ _ c])
      then show ?thesis using "1.IH"(2) [OF no True, of i blk] "1.prems" by simp
    next
      case False
      then show ?thesis
        using url_put [of i "h # l # rest" blk, OF _ "1.IH"(3) [OF no False]] "1.prems" by simp
    qed
  qed
next
  case (2 c h)
  show ?case
  proof (cases "c = CHR ''%''")
    case True
    then show ?thesis using "2.IH"(1) [OF True, of i blk] "2.prems" by simp
  next
    case False
    then show ?thesis
      using url_put [of i "[h]" blk, OF _ "2.IH"(2) [OF False]] "2.prems" by simp
  qed
next
  case (3 c)
  have "url_decode_loop blk' (int i') [] =
      Inr (take i' blk' @ map Some [] @ drop (i' + length ([] :: string)) blk', int (i' + length ([] :: string)))"
    for blk' i' by simp
  from url_put [of i "[]" blk "[]", OF _ this] show ?case using "3.prems" by simp
next
  case 4
  then show ?case by simp
qed

lemma Decode_eq:
  assumes "t \<noteq> []" "NUL \<notin> set t"
  shows "Url_Decode t = Inr (cstr (url_plain t))"
proof -
  let ?n = "length (url_plain t)"
  have lt: "?n < length t * 3" using length_url_plain [of t] assms(1) by (cases t) auto
  let ?blk = "map Some (url_plain t) @ replicate (length t * 3 - ?n) None"
  have loop: "url_decode_loop (replicate (length t * 3) None) 0 t = Inr (?blk, int ?n)"
    using url_decode_loop_eq [of 0 t "replicate (length t * 3) None"] by simp
  obtain m where m: "length t * 3 - ?n = Suc m" using lt by (metis Suc_diff_Suc)
  have "mem_write ?blk (int ?n) NUL = Inr (map Some (url_plain t) @ Some NUL # replicate m None)"
    unfolding m by (simp add: mem_write_def list_update_append)
  then show ?thesis using loop
    by (simp add: Url_Decode_def cstr_id [OF assms(2)] read_cstr_map_Some)
qed

lemma Decode_empty: "Url_Decode [] = Inl OutOfBounds"
  by (simp add: Url_Decode_def mem_write_def)

section \<open>Round trip\<close>

lemma url_plain_other:
  "c \<noteq> CHR ''%'' \<Longrightarrow> url_plain (c # t) = (if c = CHR ''+'' then SP else c) # url_plain t"
  by (cases t; cases "tl t") auto

lemma url_plain_piece: "url_plain (url_piece c @ t) = c # url_plain t"
proof (cases "url_safe c")
  case True
  then have "c \<noteq> CHR ''%''" "c \<noteq> CHR ''+''" by (auto simp: url_safe_def)
  then show ?thesis using True by (simp add: url_piece_def url_plain_other)
next
  case False
  have "HexToInt (hex_char (of_char c div 16)) (hex_char (of_char c mod 16)) = int (of_char c)"
    using digits_of_char [of c] by (simp add: HexToInt_def hex_char_digit zdiv_int zmod_int)
  then have "char_of (nat (HexToInt (hex_char (of_char c div 16)) (hex_char (of_char c mod 16)) mod 256)) = c"
    by simp
  then show ?thesis using False digits_of_char [of c] by (simp add: url_piece_def hex_char_digit)
qed

lemma url_plain_text: "url_plain (url_text s) = s"
  by (induction s) (simp_all add: url_plain_piece)

end
