(* ===== verification/MsgQueue.thy ===== *)
theory MsgQueue
  imports MsgFlush MsgParse RouterRules NodeTables CommandHandlerDecorator ConnectionQueue SysMetrics Url
begin

text \<open>
  \<open>msgqueue.h\<close> and \<open>msgqueue.cpp\<close>: the class \<open>cMsgQueue\<close>, which owns the messages, hands them
  out, and takes each dispatched message to the handler or to the connection it is for.

  The objects that the queue points to are fields of its state: the registry of handlers (a handler
  is a number, its place in the list of decorators), the rules engine, the metrics, the
  connection queue, and the provider of ids. The clock, the uuids, and the name and address that
  the core answers with are the environment of a step. Locks are left out, each operation is one
  step; so are the log lines.
\<close>

section \<open>State\<close>

record env =
  e_uuid :: "nat \<Rightarrow> string"
  e_now :: int
  e_serverName :: string
  e_serverAddr :: string

record cMsgQueue =
  m_pCommandHandlerFactory :: "nat factory"
  m_Decorators :: "cCommandHandlerDecorator list"
  m_pRouterRulesEngine :: cMsgRouterRulesEngine
  m_pSysMetrics :: cSysMetrics
  m_pConnectionQueue :: cConnectionQueue
  m_UniqueIDProvider :: cUniqueIDProvider
  m_timer :: cTimer
  m_msgPool :: cMsgPool
  m_priority_queue :: "nat list"

definition MAX_MSG_RETRY :: int where "MAX_MSG_RETRY = 10"

definition of_option :: "fault \<Rightarrow> 'a option \<Rightarrow> 'a result" where
  "of_option e x = (case x of None \<Rightarrow> Inl e | Some y \<Rightarrow> Inr y)"

text \<open>Reading and changing a message through its pointer.\<close>

definition mq_get :: "cMsgQueue \<Rightarrow> nat \<Rightarrow> cMsg result" where
  "mq_get q a = pool_get (m_msgPool q) a"

definition mq_upd :: "cMsgQueue \<Rightarrow> nat \<Rightarrow> (cMsg \<Rightarrow> cMsg) \<Rightarrow> cMsgQueue result" where
  "mq_upd q a f = rbind (pool_upd (m_msgPool q) a f) (\<lambda>p. Inr (q\<lparr>m_msgPool := p\<rparr>))"

text \<open>The priority that the comparison of queued messages sees.\<close>

definition prio_in :: "cMsgPool \<Rightarrow> nat \<Rightarrow> int" where
  "prio_in p a = (case m_store p a of None \<Rightarrow> 0 | Some m \<Rightarrow> Msg_GetMsgPriority m)"

definition MQ_IncMsgDelivered :: "cMsgQueue \<Rightarrow> cMsgQueue result" where
  "MQ_IncMsgDelivered q =
     rbind (of_option OutOfBounds (IncMsgDelivered (m_pSysMetrics q))) (\<lambda>s.
     Inr (q\<lparr>m_pSysMetrics := s\<rparr>))"

section \<open>Making messages\<close>

definition MQ_GetMessage :: "env \<Rightarrow> cMsgQueue \<Rightarrow> (nat \<times> cMsgQueue) result" where
  "MQ_GetMessage env q =
     rbind (Pool_GetMessage (e_uuid env) (e_now env) (m_msgPool q) (m_UniqueIDProvider q))
       (\<lambda>(a, p, ids). Inr (a, q\<lparr>m_msgPool := p, m_UniqueIDProvider := ids\<rparr>))"

definition CreateMessage :: "env \<Rightarrow> cMsgQueue \<Rightarrow> (nat \<times> cMsgQueue) result" where
  "CreateMessage env q = MQ_GetMessage env q"

text \<open>What \<open>CreateMessageReply\<close> sets in the new message \<open>n\<close> when it answers \<open>m\<close>.\<close>

definition reply_to :: "cMsg \<Rightarrow> cMsg \<Rightarrow> cMsg" where
  "reply_to m n =
     (let n = Msg_SetTCPSocketHandle n (Msg_GetTCPSocketHandle m);
          n = Msg_SetKeepAlive n (Msg_IsKeepAlive m);
          n = (if Msg_GetConnectionType m = MSG_CT_INTERNAL then Msg_SetConnectionType n MSG_CT_INTERNAL
               else if Msg_GetConnectionType m = MSG_CT_IB_UDP then Msg_SetConnectionType n MSG_CT_OB_UDP
               else if Msg_GetConnectionType m = MSG_CT_IB_TCP then Msg_SetConnectionType n MSG_CT_OB_TCP
               else n);
          n = (if Msg_GetConnectionType m = MSG_CT_INTERNAL then Msg_SetCommand n (Msg_GetFrom m) else n);
          n = Msg_SetMsgID n (Msg_GetMsgID m);
          n = Msg_SetFormat n MSG_FORMAT_RES;
          n = Msg_SetTo n (Msg_GetFrom m);
          n = Msg_SetMsgPriority n (Msg_GetMsgPriority m);
          n = (if Msg_GetConnectionType m = MSG_CT_INTERNAL
               then Msg_SetNotifyAction (Msg_SetReplyAction n MSG_REPLY_ACTION_NONE)
                      MSG_NOTIFY_ACTION_NO
               else
                 let n = Msg_SetReplyAction n (Msg_GetReplyAction m);
                     n = Msg_SetNotifyAction n (Msg_GetNotifyAction m);
                     n = Msg_SetUDPSocketHandle n (Msg_GetUDPSocketHandle m);
                     n = Msg_SetSourceIP n (Msg_GetSourceIP m)
                 in Msg_SetSourcePort n (Msg_GetSourcePort m));
          n = Msg_SetProtocolType n (Msg_GetProtocolType m)
      in Msg_SetArrivalPort n (Msg_GetArrivalPort m))"

definition CreateMessageReply ::
  "env \<Rightarrow> cMsgQueue \<Rightarrow> nat option \<Rightarrow> (nat \<times> cMsgQueue) result" where
  "CreateMessageReply env q pToThisMsg =
     rbind (MQ_GetMessage env q) (\<lambda>(a, q).
       case pToThisMsg of
         None \<Rightarrow> Inr (a, q)
       | Some b \<Rightarrow>
           rbind (mq_upd q b Msg_SetCloned) (\<lambda>q.
           rbind (mq_get q b) (\<lambda>m.
           rbind (mq_upd q a (reply_to m)) (\<lambda>q. Inr (a, q)))))"

definition internal_msg :: "cMsg \<Rightarrow> cMsg" where
  "internal_msg m =
     Msg_SetNotifyAction (Msg_SetReplyAction (Msg_SetConnectionType m MSG_CT_INTERNAL)
       MSG_REPLY_ACTION_NONE) MSG_NOTIFY_ACTION_NO"

definition CreateInternalMessage :: "env \<Rightarrow> cMsgQueue \<Rightarrow> (nat \<times> cMsgQueue) result" where
  "CreateInternalMessage env q =
     rbind (MQ_GetMessage env q) (\<lambda>(a, q).
     rbind (mq_upd q a internal_msg) (\<lambda>q. Inr (a, q)))"

definition MQ_DispatchMsg :: "env \<Rightarrow> cMsgQueue \<Rightarrow> nat \<Rightarrow> cMsgQueue result" where
  "MQ_DispatchMsg env q a = mq_upd q a (Msg_DispatchMsg (e_serverName env) (e_serverAddr env))"

definition notify_for :: "cMsg \<Rightarrow> cMsg \<Rightarrow> cMsg" where
  "notify_for m n =
     (let n = Msg_SetTCPSocketHandle n (Msg_GetTCPSocketHandle m);
          n = (if Msg_GetConnectionType m = MSG_CT_IB_UDP then Msg_SetConnectionType n MSG_CT_OB_UDP
               else if Msg_GetConnectionType m = MSG_CT_IB_TCP then Msg_SetConnectionType n MSG_CT_OB_TCP
               else n);
          n = Msg_SetMsgID n (Msg_GetMsgID m);
          n = Msg_SetFormat n MSG_FORMAT_NOTIFY;
          n = Msg_SetTo n (Msg_GetFrom m);
          n = Msg_SetMsgPriority n (MSG_PRIORITY_HIGHEST + 1000);
          n = Msg_SetReplyAction n MSG_REPLY_ACTION_NOWAIT;
          n = Msg_SetProtocolType n MSG_PROTOCOL_MCP
      in Msg_SetNotifyAction n MSG_NOTIFY_ACTION_YES)"

definition PostNotifyMessage :: "env \<Rightarrow> cMsgQueue \<Rightarrow> nat \<Rightarrow> cMsgQueue result" where
  "PostNotifyMessage env q b =
     rbind (MQ_GetMessage env q) (\<lambda>(a, q).
     rbind (mq_get q b) (\<lambda>m.
     rbind (mq_upd q a (notify_for m)) (\<lambda>q.
     MQ_DispatchMsg env q a)))"

section \<open>Pending and undelivered messages\<close>

text \<open>
  What a round of \<open>ProcessPendingMessages\<close> does to one message, and whether the message goes to
  the priority queue.
\<close>

definition retry_undelivered :: "int \<Rightarrow> cMsg \<Rightarrow> cMsg" where
  "retry_undelivered now m =
     (if Msg_GetSendRetryCount m \<noteq> 0 \<and> Msg_GetMsgLastRetryTS m + Msg_GetSendRetryDelay m > now then m
      else if Msg_GetMsgLastRetryTS m = 0
      then
        let m = Msg_SetMsgLastRetryTS now m;
            m = Msg_SetSendRetryCount m 1
        in Msg_SetMsgState m MSG_STATE_PENDING
      else
        let iRetryCount = Msg_GetSendRetryCount m
        in if iRetryCount > MAX_MSG_RETRY - 1 then Msg_SetMsgState m MSG_STATE_MARKFORREUSE
           else
             let m = Msg_SetMsgLastRetryTS now m;
                 m = Msg_SetSendRetryCount m (iRetryCount + 1);
                 iRetryDelay = Msg_GetSendRetryDelay m;
                 m = Msg_SetSendRetryDelay m (iRetryDelay + iRetryDelay)
             in Msg_SetMsgState m MSG_STATE_PENDING)"

definition pending_msg :: "int \<Rightarrow> cMsg \<Rightarrow> (cMsg \<times> bool) result" where
  "pending_msg now m =
     (let msgState = Msg_GetMsgState m
      in rbind
           (if msgState = MSG_STATE_PENDING
            then
              let m = Msg_SetMsgState m MSG_STATE_INUSE
              in if Msg_GetConnectionType m \<noteq> MSG_CT_NOTSET then Inr (m, True) else Inl AssertFailed
            else Inr (m, False)) (\<lambda>(m, pushed).
         let m = (if msgState = MSG_STATE_UNDELIVERED \<and> Msg_GetTCPSocketHandle m \<noteq> -1
                  then Msg_SetMsgState m MSG_STATE_MARKFORREUSE else m);
             m = (if msgState = MSG_STATE_UNDELIVERED \<and> Msg_GetTCPSocketHandle m = -1
                  then retry_undelivered now m else m)
         in Inr (m, pushed)))"

definition pending_visit ::
  "int \<Rightarrow> cMsgPool \<Rightarrow> nat list \<Rightarrow> nat \<Rightarrow> (cMsgPool \<times> nat list) result" where
  "pending_visit now p pq a =
     rbind (pool_get p a) (\<lambda>m.
     rbind (pending_msg now m) (\<lambda>(m, pushed).
     Inr (pool_put p a m, if pushed then pq_push a pq else pq)))"

text \<open>The loop runs over the list of the pool; \<open>a\<close> is the message at the iterator.\<close>

function pending_loop ::
  "int \<Rightarrow> cMsgPool \<Rightarrow> nat list \<Rightarrow> nat \<Rightarrow> (cMsgPool \<times> nat list) result" where
  "pending_loop now p pq a =
     (if m_it p \<ge> length (m_Messages p) then Inl OutOfBounds
      else rbind (pending_visit now p pq a) (\<lambda>(p, pq).
        case Pool_GetNext p of
          (None, p) \<Rightarrow> Inr (p, pq)
        | (Some a, p) \<Rightarrow> pending_loop now p pq a))"
  by pat_completeness auto
termination
proof (relation "measure (\<lambda>(now, p, pq, a). left_over p)", goal_cases)
  case 1
  then show ?case by simp
next
  case (2 now p pq a z p1 pq1 r p2 b)
  have p1: "m_Messages p1 = m_Messages p" "m_it p1 = m_it p"
    using 2(2,3) by (auto simp: pending_visit_def pool_put_def result_simps)
  have "left_over p2 < left_over p1 \<or> m_it p1 > length (m_Messages p1)"
    using 2(4,5) left_over_next by metis
  then show ?case using p1 2(1) by (auto simp: left_over_def)
qed

declare pending_loop.simps [simp del]

definition ProcessPendingMessages :: "int \<Rightarrow> cMsgQueue \<Rightarrow> cMsgQueue result" where
  "ProcessPendingMessages now q =
     (case Pool_GetHead (Pool_Lock (m_msgPool q)) of
        (None, p) \<Rightarrow> Inr (q\<lparr>m_msgPool := Pool_Unlock p\<rparr>)
      | (Some a, p) \<Rightarrow>
          rbind (pending_loop now p (m_priority_queue q) a) (\<lambda>(p, pq).
          Inr (q\<lparr>m_msgPool := Pool_Unlock p, m_priority_queue := pq\<rparr>)))"

section \<open>Routing\<close>

text \<open>\<open>pHandler->OnProcess(pIMsg)\<close>, for a pointer to a decorator that may be null.\<close>

definition MQ_OnProcess :: "cMsgQueue \<Rightarrow> nat option \<Rightarrow> nat \<Rightarrow> cMsgQueue result" where
  "MQ_OnProcess q pHandler a =
     (case pHandler of
        None \<Rightarrow> Inl NullPointer
      | Some h \<Rightarrow>
          if h < length (m_Decorators q)
          then Inr (q\<lparr>m_Decorators := (m_Decorators q)[h := Decorator_OnProcess (m_Decorators q ! h) a]\<rparr>)
          else Inl DanglingPointer)"

definition ProcessInternalMessage :: "cMsgQueue \<Rightarrow> nat \<Rightarrow> cMsgQueue result" where
  "ProcessInternalMessage q a =
     rbind (mq_get q a) (\<lambda>m.
       case GetCommandHandler (m_pCommandHandlerFactory q) (Msg_GetCommand m) of
         Some h \<Rightarrow> rbind (MQ_IncMsgDelivered q) (\<lambda>q. MQ_OnProcess q (Some h) a)
       | None \<Rightarrow> mq_upd q a (\<lambda>m. Msg_SetMsgState m MSG_STATE_UNDELIVERED))"

definition ProcessInboundMessage :: "env \<Rightarrow> cMsgQueue \<Rightarrow> nat \<Rightarrow> cMsgQueue result" where
  "ProcessInboundMessage env q a =
     rbind (mq_get q a) (\<lambda>m.
     rbind (if Msg_GetNotifyAction m = MSG_NOTIFY_ACTION_YES
            then rbind (PostNotifyMessage env q a) (\<lambda>q.
                 mq_upd q a (\<lambda>m. Msg_SetNotifyAction m MSG_NOTIFY_ACTION_NO))
            else Inr q) (\<lambda>q.
     rbind (mq_get q a) (\<lambda>m.
       if starts_with ''MCP/'' (Msg_GetCommand m)
       then
         let pHandler = GetCommandHandler (m_pCommandHandlerFactory q) ''MC''
         in rbind (MQ_IncMsgDelivered q) (\<lambda>q. MQ_OnProcess q pHandler a)
       else
         rbind (RulesEngine_Search (m_pRouterRulesEngine q) m) (\<lambda>(m', found).
         rbind (mq_upd q a (\<lambda>_. m')) (\<lambda>q.
           let Match = (case found of None \<Rightarrow> '''' | Some r \<Rightarrow> r);
               pHandler = (if length Match \<noteq> 0
                           then GetCommandHandler (m_pCommandHandlerFactory q) Match
                           else GetCommandHandler (m_pCommandHandlerFactory q) (Msg_GetCommand m'))
           in rbind (MQ_IncMsgDelivered q) (\<lambda>q. MQ_OnProcess q pHandler a))))))"

definition ProcessOutboundMessage :: "cMsgQueue \<Rightarrow> nat \<Rightarrow> cMsgQueue result" where
  "ProcessOutboundMessage q a =
     rbind (mq_get q a) (\<lambda>m.
       if Msg_GetReplyAction m \<noteq> MSG_REPLY_ACTION_NONE
       then rbind (ConQueue_SendMsg (m_pConnectionQueue q) a m) (\<lambda>cq.
            Inr (q\<lparr>m_pConnectionQueue := cq\<rparr>))
       else mq_upd q a Msg_MarkProcessed)"

definition ProcessPriorityQueue :: "env \<Rightarrow> cMsgQueue \<Rightarrow> cMsgQueue result" where
  "ProcessPriorityQueue env q =
     (let prio = prio_in (m_msgPool q);
          a = pq_top prio (m_priority_queue q);
          q = q\<lparr>m_priority_queue := pq_pop prio (m_priority_queue q)\<rparr>
      in rbind (mq_get q a) (\<lambda>m.
           case Msg_GetConnectionType m of
             MSG_CT_INTERNAL \<Rightarrow> ProcessInternalMessage q a
           | MSG_CT_OB_UDP \<Rightarrow> ProcessOutboundMessage q a
           | MSG_CT_OB_TCP \<Rightarrow> ProcessOutboundMessage q a
           | MSG_CT_IB_UDP \<Rightarrow> ProcessInboundMessage env q a
           | MSG_CT_IB_TCP \<Rightarrow> ProcessInboundMessage env q a
           | MSG_CT_NOTSET \<Rightarrow> Inl AssertFailed))"

section \<open>The thread\<close>

definition MQ_FlushMessages :: "int \<Rightarrow> cMsgQueue \<Rightarrow> cMsgQueue result" where
  "MQ_FlushMessages now q =
     rbind (FlushMessages now (m_msgPool q)) (\<lambda>p. Inr (q\<lparr>m_msgPool := p\<rparr>))"

definition MQ_Run_start :: "int \<Rightarrow> cMsgQueue \<Rightarrow> cMsgQueue" where
  "MQ_Run_start now q = q\<lparr>m_timer := Timer_Start now (Timer_SetInterval (m_timer q) 1)\<rparr>"

text \<open>One pass through the loop of \<open>Run\<close>; the second component is \<open>msgProcessed\<close>.\<close>

definition MQ_Run_pass :: "env \<Rightarrow> cMsgQueue \<Rightarrow> (cMsgQueue \<times> bool) result" where
  "MQ_Run_pass env q =
     rbind (ProcessPendingMessages (e_now env) q) (\<lambda>q.
     rbind (if m_priority_queue q \<noteq> []
            then rbind (ProcessPriorityQueue env q) (\<lambda>q. Inr (q, True))
            else Inr (q, False)) (\<lambda>(q, msgProcessed).
     rbind (if Timer_IsReady (e_now env) (m_timer q)
            then rbind (MQ_FlushMessages (e_now env) q) (\<lambda>q.
                 Inr (q\<lparr>m_timer := Timer_Reset (e_now env) (m_timer q)\<rparr>))
            else Inr q) (\<lambda>q.
     Inr (q, msgProcessed))))"

text \<open>
  \<open>SendToLogger\<close>; a null text is \<open>None\<close>. The catch clause takes no fault of the model, since none
  of them is an exception of the standard library.
\<close>

definition logger_msg :: "cMsg \<Rightarrow> cMsg" where
  "logger_msg m =
     (let m = Msg_SetCommand m ''LOGGER'';
          m = Msg_SetContentType m ''text/s-expression'';
          m = Msg_SetConnectionType m MSG_CT_INTERNAL;
          m = Msg_SetMsgPriority m MSG_PRIORITY_LOWEST;
          m = Msg_SetProtocolType m MSG_PROTOCOL_MCP;
          m = Msg_SetReplyAction m MSG_REPLY_ACTION_NONE;
          m = Msg_SetNotifyAction m MSG_NOTIFY_ACTION_NO
      in Msg_SetMsgID m ''0'')"

definition SendToLogger ::
  "env \<Rightarrow> cMsgQueue \<Rightarrow> string option \<Rightarrow> string option \<Rightarrow> cMsgQueue result" where
  "SendToLogger env q pCategory pLogMessage =
     (case (pCategory, pLogMessage) of
        (Some cat, Some msg) \<Rightarrow>
          if length (cstr cat) = 0 \<or> length (cstr msg) = 0 then Inr q
          else
            let sExpression = ''(LOGGER ('' @ cstr cat @ '' \"''
            in rbind (CreateMessage env q) (\<lambda>(a, q).
               rbind (mq_upd q a logger_msg) (\<lambda>q.
               rbind (Url_Encode (cstr msg)) (\<lambda>urlEncoded.
                 let sExpression = sExpression @ urlEncoded @ ''\"))''
                 in rbind (mq_get q a) (\<lambda>m.
                    rbind (Msg_SetContentPayload a m (Some (cmem sExpression))
                             (int (length sExpression))) (\<lambda>m.
                    rbind (mq_upd q a (\<lambda>_. m)) (\<lambda>q.
                    MQ_DispatchMsg env q a))))))
      | _ \<Rightarrow> Inr q)"

end
