(* ===== verification/MsgQueueLaws.thy ===== *)
theory MsgQueueLaws
  imports MsgQueue
begin

text \<open>
  What the message queue promises: undelivered messages are tried again at most ten times with
  doubling delays; a round takes exactly the dispatched messages to the priority queue; a message
  in a queue is never freed, is in one queue only, and is never lost; a reply goes back to where
  the message came from.
\<close>

section \<open>Trying again\<close>

text \<open>
  \<open>retry_inv\<close>: either the message was not tried again yet, or it was tried \<open>n\<close> times and waits
  \<open>2 ^ (n - 1)\<close> seconds.
\<close>

definition retry_inv :: "cMsg \<Rightarrow> bool" where
  "retry_inv m \<longleftrightarrow>
     (MsgLastRetryTS m = 0 \<and> MsgSendRetryCount m = 0 \<and> MsgSendRetryDelay m = 1) \<or>
     (0 < MsgLastRetryTS m \<and> 1 \<le> MsgSendRetryCount m \<and> MsgSendRetryCount m \<le> MAX_MSG_RETRY \<and>
      MsgSendRetryDelay m = 2 ^ (nat (MsgSendRetryCount m) - 1))"

lemmas retry_simps = msg_getters msg_setters MAX_MSG_RETRY_def

lemma retry_inv_reset: "retry_inv (Msg_ResetMsg newid now m)"
  by (simp add: retry_inv_def Msg_ResetMsg_def CMSG_MAX_RETRY_DELAY_def)

text \<open>The times at which a message that always comes back undelivered is sent again.\<close>

fun resent :: "int list \<Rightarrow> cMsg \<Rightarrow> int list" where
  "resent [] m = []"
| "resent (now # ts) m =
     (case pending_msg now m of
        Inl _ \<Rightarrow> []
      | Inr (m', _) \<Rightarrow>
          if Msg_GetMsgState m' = MSG_STATE_PENDING
          then now # resent ts (Msg_SetMsgState m' MSG_STATE_UNDELIVERED)
          else resent ts m')"

lemma pending_msg_undelivered:
  assumes "MsgState m = MSG_STATE_UNDELIVERED"
  shows "pending_msg now m = Inr (if TCPSocketHandle m \<noteq> -1 then m\<lparr>MsgState := MSG_STATE_MARKFORREUSE\<rparr>
      else retry_undelivered now m, False)"
  using assms by (simp add: pending_msg_def Let_def msg_getters msg_setters)

lemma pending_msg_done:
  assumes "MsgState m \<noteq> MSG_STATE_UNDELIVERED" "MsgState m \<noteq> MSG_STATE_PENDING"
  shows "pending_msg now m = Inr (m, False)"
  using assms by (simp add: pending_msg_def Let_def msg_getters msg_setters)

lemma resent_done:
  "MsgState m \<noteq> MSG_STATE_UNDELIVERED \<Longrightarrow> MsgState m \<noteq> MSG_STATE_PENDING \<Longrightarrow> resent ts m = []"
  by (induction ts) (simp_all add: pending_msg_done msg_getters)

text \<open>One round for an undelivered message without a socket.\<close>

lemma retry_cases:
  assumes inv: "retry_inv m" and st: "MsgState m = MSG_STATE_UNDELIVERED" and now: "0 < now"
  obtains
    (keep) "retry_undelivered now m = m"
  | (drop) "MsgState (retry_undelivered now m) = MSG_STATE_MARKFORREUSE" "MsgSendRetryCount m = MAX_MSG_RETRY"
  | (send) m' where "retry_undelivered now m = Msg_SetMsgState m' MSG_STATE_PENDING"
      "retry_inv m'" "MsgSendRetryCount m' = MsgSendRetryCount m + 1" "MsgLastRetryTS m' = now"
      "TCPSocketHandle m' = TCPSocketHandle m"
      "MsgSendRetryCount m = 0 \<or> MsgLastRetryTS m + MsgSendRetryDelay m \<le> now"
proof -
  consider (wait) "MsgSendRetryCount m \<noteq> 0" "MsgLastRetryTS m + MsgSendRetryDelay m > now"
    | (first) "MsgLastRetryTS m = 0" "MsgSendRetryCount m = 0"
    | (last) "MsgSendRetryCount m = 10" "MsgLastRetryTS m \<noteq> 0" "\<not> MsgLastRetryTS m + MsgSendRetryDelay m > now"
    | (again) "1 \<le> MsgSendRetryCount m" "MsgSendRetryCount m < 10" "MsgLastRetryTS m \<noteq> 0"
        "\<not> MsgLastRetryTS m + MsgSendRetryDelay m > now"
    using inv by (force simp: retry_inv_def MAX_MSG_RETRY_def)
  then show ?thesis
  proof cases
    case wait
    then show ?thesis by (intro keep) (simp add: retry_undelivered_def retry_simps)
  next
    case first
    let ?m = "Msg_SetSendRetryCount (Msg_SetMsgLastRetryTS now m) 1"
    show ?thesis
    proof (rule send [of ?m])
      show "retry_undelivered now m = Msg_SetMsgState ?m MSG_STATE_PENDING"
        using first by (simp add: retry_undelivered_def retry_simps)
      show "retry_inv ?m" using first now inv by (simp add: retry_inv_def retry_simps)
    qed (use first in \<open>simp_all add: retry_simps\<close>)
  next
    case last
    show ?thesis
    proof (rule drop)
      show "MsgState (retry_undelivered now m) = MSG_STATE_MARKFORREUSE"
        using last by (simp add: retry_undelivered_def retry_simps)
    qed (use last in \<open>simp add: MAX_MSG_RETRY_def\<close>)
  next
    case again
    let ?m = "Msg_SetSendRetryDelay (Msg_SetSendRetryCount (Msg_SetMsgLastRetryTS now m)
      (MsgSendRetryCount m + 1)) (MsgSendRetryDelay m + MsgSendRetryDelay m)"
    have d: "MsgSendRetryDelay m = 2 ^ (nat (MsgSendRetryCount m) - 1)"
      using inv again by (auto simp: retry_inv_def)
    have "nat (MsgSendRetryCount m) = Suc (nat (MsgSendRetryCount m) - 1)" using again by simp
    then have "MsgSendRetryDelay m + MsgSendRetryDelay m = 2 ^ (nat (MsgSendRetryCount m + 1) - 1)"
      using d again(1) by (simp add: nat_add_distrib mult_2 [symmetric] power_Suc [symmetric] del: power_Suc)
    then have "retry_inv ?m" using again now by (simp add: retry_inv_def retry_simps)
    moreover have "retry_undelivered now m = Msg_SetMsgState ?m MSG_STATE_PENDING"
      using again by (simp add: retry_undelivered_def retry_simps)
    ultimately show ?thesis using again by (intro send [of ?m]) (simp_all add: retry_simps)
  qed
qed

text \<open>
  A message that was tried \<open>n\<close> times is tried \<open>10 - n\<close> times more at most, and the gap before each
  try is at least the delay.
\<close>

fun spaced :: "nat \<Rightarrow> int \<Rightarrow> int list \<Rightarrow> bool" where
  "spaced n prev [] \<longleftrightarrow> n \<le> 10"
| "spaced n prev (t # ts) \<longleftrightarrow> n < 10 \<and> (n = 0 \<or> prev + 2 ^ (n - 1) \<le> t) \<and> spaced (Suc n) t ts"

lemma spaced_length: "spaced n prev ts \<Longrightarrow> n + length ts \<le> 10"
  by (induction n prev ts rule: spaced.induct) auto

lemma spaced_gaps: "spaced n prev ts \<Longrightarrow> Suc k < length ts \<Longrightarrow> ts ! k + 2 ^ (n + k) \<le> ts ! Suc k"
proof (induction n prev ts arbitrary: k rule: spaced.induct)
  case (2 n prev t ts)
  show ?case
  proof (cases k)
    case 0
    then obtain t' ts' where "ts = t' # ts'" using 2(3) by (cases ts) auto
    then show ?thesis using 2(2) 0 by simp
  next
    case (Suc j)
    then show ?thesis using 2(1) [of j] 2(2,3) by simp
  qed
qed simp

lemma resent_spaced:
  "retry_inv m \<Longrightarrow> MsgState m = MSG_STATE_UNDELIVERED \<Longrightarrow> \<forall>t \<in> set ts. 0 < t \<Longrightarrow>
     spaced (nat (MsgSendRetryCount m)) (MsgLastRetryTS m) (resent ts m)"
proof (induction ts arbitrary: m)
  case Nil
  then show ?case by (auto simp: retry_inv_def MAX_MSG_RETRY_def)
next
  case (Cons now ts)
  note p = pending_msg_undelivered [OF Cons.prems(2), of now]
  have le: "nat (MsgSendRetryCount m) \<le> 10" using Cons.prems(1) by (auto simp: retry_inv_def MAX_MSG_RETRY_def)
  show ?case
  proof (cases "TCPSocketHandle m = -1")
    case False
    then show ?thesis using p le by (simp add: msg_getters resent_done)
  next
    case True
    have "0 < now" using Cons.prems(3) by simp
    from Cons.prems(1,2) this show ?thesis
    proof (cases rule: retry_cases)
      case keep
      then show ?thesis using p True Cons by (simp add: msg_getters)
    next
      case drop
      then show ?thesis using p True le by (simp add: msg_getters resent_done)
    next
      case (send m')
      have c: "0 \<le> MsgSendRetryCount m" "MsgSendRetryCount m = 0 \<or> MsgSendRetryDelay m = 2 ^ (nat (MsgSendRetryCount m) - 1)"
        using Cons.prems(1) by (auto simp: retry_inv_def)
      let ?u = "Msg_SetMsgState m' MSG_STATE_UNDELIVERED"
      have u: "Msg_SetMsgState (Msg_SetMsgState m' MSG_STATE_PENDING) MSG_STATE_UNDELIVERED = ?u"
        "retry_inv ?u" "MsgState ?u = MSG_STATE_UNDELIVERED" "MsgSendRetryCount ?u = MsgSendRetryCount m'"
        "MsgLastRetryTS ?u = now"
        using send(2,4) by (simp_all add: Msg_SetMsgState_def retry_inv_def)
      have "MsgSendRetryCount m < 10" using send(2,3) c(1) by (auto simp: retry_inv_def MAX_MSG_RETRY_def)
      moreover have "spaced (Suc (nat (MsgSendRetryCount m))) now (resent ts ?u)"
        using Cons.IH [OF u(2,3)] Cons.prems(3) u(4,5) send(3) c(1) by (simp add: nat_add_distrib)
      moreover have "resent (now # ts) m = now # resent ts ?u"
        using p True send(1) u(1) by (simp add: msg_getters Msg_SetMsgState_def)
      ultimately show ?thesis using send(6) c by auto
    qed
  qed
qed

section \<open>A round over the pool\<close>

definition after_round :: "int \<Rightarrow> cMsg \<Rightarrow> cMsg" where
  "after_round now m = (case pending_msg now m of Inl _ \<Rightarrow> m | Inr (m', _) \<Rightarrow> m')"

definition is_pending :: "cMsgPool \<Rightarrow> nat \<Rightarrow> bool" where
  "is_pending p a \<longleftrightarrow> state_of p a = Some MSG_STATE_PENDING"

text \<open>\<open>DispatchMsg\<close> sees to this: a message that waits to be sent has a connection type.\<close>

definition typed :: "cMsgPool \<Rightarrow> bool" where
  "typed p \<longleftrightarrow> (\<forall>a m. m_store p a = Some m \<longrightarrow> MsgState m = MSG_STATE_PENDING \<longrightarrow>
     MsgConnectionType m \<noteq> MSG_CT_NOTSET)"

lemma pending_msg_total:
  assumes "MsgState m = MSG_STATE_PENDING \<Longrightarrow> MsgConnectionType m \<noteq> MSG_CT_NOTSET"
  shows "pending_msg now m = Inr (after_round now m, MsgState m = MSG_STATE_PENDING)"
  using assms
  by (cases "MsgState m") (simp_all add: after_round_def pending_msg_def Let_def msg_getters msg_setters)

definition round_inv :: "int \<Rightarrow> cMsgPool \<Rightarrow> nat list \<Rightarrow> nat \<Rightarrow> cMsgPool \<Rightarrow> nat list \<Rightarrow> bool" where
  "round_inv now p0 pq0 n p pq \<longleftrightarrow>
     m_bLocked p \<and> m_Messages p = m_Messages p0 \<and> m_FreeMsgStack p = m_FreeMsgStack p0 \<and>
     m_iNextAddr p = m_iNextAddr p0 \<and>
     m_store p = (\<lambda>a. if a \<in> set (take n (m_Messages p0)) then map_option (after_round now) (m_store p0 a)
                     else m_store p0 a) \<and>
     pq = pq0 @ filter (is_pending p0) (take n (m_Messages p0))"

lemma round_inv_iterator [simp]: "round_inv now p0 pq0 n (p\<lparr>m_it := k\<rparr>) pq = round_inv now p0 pq0 n p pq"
  by (simp add: round_inv_def)

lemma round_visit:
  assumes inv: "round_inv now p0 pq0 n p pq" and n: "n < length (m_Messages p0)"
    and d: "distinct (m_Messages p0)" and m: "m_store p0 (m_Messages p0 ! n) = Some m" and ty: "typed p0"
  shows "\<exists>p' pq'. pending_visit now p pq (m_Messages p0 ! n) = Inr (p', pq') \<and>
    round_inv now p0 pq0 (Suc n) p' pq' \<and> m_it p' = m_it p"
proof -
  let ?a = "m_Messages p0 ! n"
  have new: "?a \<notin> set (take n (m_Messages p0))" using d n by (rule distinct_nth_take)
  then have ma: "m_store p ?a = Some m" using inv m by (simp add: round_inv_def)
  have tk: "take (Suc n) (m_Messages p0) = take n (m_Messages p0) @ [?a]"
    using n by (rule take_Suc_conv_app_nth)
  have pm: "pending_msg now m = Inr (after_round now m, MsgState m = MSG_STATE_PENDING)"
    using ty m by (intro pending_msg_total) (auto simp: typed_def)
  let ?p = "pool_put p ?a (after_round now m)"
  let ?pq = "if MsgState m = MSG_STATE_PENDING then pq_push ?a pq else pq"
  have "pending_visit now p pq ?a = Inr (?p, ?pq)"
    using ma pm by (simp add: pending_visit_def pool_get_def)
  moreover have "round_inv now p0 pq0 (Suc n) ?p ?pq"
    using inv m new unfolding round_inv_def tk
    by (auto simp: pool_put_def is_pending_def state_of_def pq_push_def)
  moreover have "m_it ?p = m_it p" by (simp add: pool_put_def)
  ultimately show ?thesis by blast
qed

lemma round_loop:
  assumes d: "distinct (m_Messages p0)" and dom: "set (m_Messages p0) = dom (m_store p0)" and ty: "typed p0"
  shows "round_inv now p0 pq0 n p pq \<Longrightarrow> n < length (m_Messages p0) \<Longrightarrow> m_it p = n \<Longrightarrow>
    a = m_Messages p0 ! n \<Longrightarrow>
    \<exists>p' pq'. pending_loop now p pq a = Inr (p', pq') \<and>
      round_inv now p0 pq0 (length (m_Messages p0)) p' pq'"
proof (induction "length (m_Messages p0) - n" arbitrary: n p pq a)
  case 0
  then show ?case by simp
next
  case (Suc k)
  have ms: "m_Messages p = m_Messages p0" using Suc.prems(1) by (simp add: round_inv_def)
  obtain m where m: "m_store p0 (m_Messages p0 ! n) = Some m"
    using dom Suc.prems(2) by (metis domD nth_mem)
  from round_visit [OF Suc.prems(1,2) d m ty] obtain p1 pq1 where
    p1: "pending_visit now p pq a = Inr (p1, pq1)" "round_inv now p0 pq0 (Suc n) p1 pq1" "m_it p1 = n"
    using Suc.prems(3,4) by auto
  have ms1: "m_Messages p1 = m_Messages p0" and lk: "m_bLocked p1"
    using p1(2) by (simp_all add: round_inv_def)
  have guard: "\<not> m_it p \<ge> length (m_Messages p)" using Suc.prems(2,3) ms by simp
  let ?p2 = "p1\<lparr>m_it := Suc n\<rparr>"
  have r2: "round_inv now p0 pq0 (Suc n) ?p2 pq1" using p1(2) by simp
  show ?case
  proof (cases "Suc n = length (m_Messages p0)")
    case True
    then have "Pool_GetNext p1 = (None, ?p2)"
      using lk p1(3) ms1 Suc.prems(2) by (simp add: Pool_GetNext_def Let_def)
    then show ?thesis using p1(1) guard r2 True by (subst pending_loop.simps) simp
  next
    case False
    then have "Pool_GetNext p1 = (Some (m_Messages p0 ! Suc n), ?p2)"
      using lk p1(3) ms1 Suc.prems(2) by (simp add: Pool_GetNext_def Let_def)
    moreover have "\<exists>p' pq'. pending_loop now ?p2 pq1 (m_Messages p0 ! Suc n) = Inr (p', pq') \<and>
        round_inv now p0 pq0 (length (m_Messages p0)) p' pq'"
      using Suc.hyps(1) [of "Suc n" ?p2] Suc.hyps(2) Suc.prems(2) False r2 by auto
    ultimately show ?thesis using p1(1) guard by (subst pending_loop.simps) simp
  qed
qed

lemma ProcessPendingMessages_spec:
  assumes inv: "pool_inv (m_msgPool q)" and ty: "typed (m_msgPool q)"
  shows "\<exists>p'. ProcessPendingMessages now q =
      Inr (q\<lparr>m_msgPool := p',
             m_priority_queue := m_priority_queue q @
               filter (is_pending (m_msgPool q)) (m_Messages (m_msgPool q))\<rparr>) \<and>
    m_store p' = (\<lambda>a. map_option (after_round now) (m_store (m_msgPool q) a)) \<and>
    m_Messages p' = m_Messages (m_msgPool q) \<and> m_FreeMsgStack p' = m_FreeMsgStack (m_msgPool q) \<and>
    m_iNextAddr p' = m_iNextAddr (m_msgPool q) \<and> \<not> m_bLocked p'"
proof -
  let ?p = "m_msgPool q" and ?pq = "m_priority_queue q"
  let ?p1 = "(Pool_Lock ?p)\<lparr>m_it := 0\<rparr>"
  have d: "distinct (m_Messages ?p)" and dom: "set (m_Messages ?p) = dom (m_store ?p)"
    using inv by (auto simp: pool_inv_def)
  have start: "round_inv now ?p ?pq 0 ?p1 ?pq" by (simp add: round_inv_def Pool_Lock_def)
  show ?thesis
  proof (cases "m_Messages ?p")
    case Nil
    have h: "Pool_GetHead (Pool_Lock ?p) = (None, ?p1)"
      using Nil by (simp add: Pool_GetHead_def Pool_Lock_def Let_def)
    have e: "m_store ?p = Map.empty" using Nil dom by (metis dom_eq_empty_conv empty_set)
    then show ?thesis using h Nil
      by (intro exI [of _ "Pool_Unlock ?p1"])
        (simp add: ProcessPendingMessages_def Pool_Unlock_def Pool_Lock_def)
  next
    case (Cons a ms)
    have c: "0 < length (m_Messages ?p)" "a = m_Messages ?p ! 0" using Cons by simp_all
    have it: "m_it ?p1 = 0" by simp
    obtain p' pq' where l: "pending_loop now ?p1 ?pq a = Inr (p', pq')"
      and r: "round_inv now ?p ?pq (length (m_Messages ?p)) p' pq'"
      using round_loop [OF d dom ty start c(1) it c(2)] by blast
    have h: "Pool_GetHead (Pool_Lock ?p) = (Some a, ?p1)"
      using Cons by (simp add: Pool_GetHead_def Pool_Lock_def Let_def)
    have "ProcessPendingMessages now q = Inr (q\<lparr>m_msgPool := Pool_Unlock p', m_priority_queue := pq'\<rparr>)"
      using h l by (simp add: ProcessPendingMessages_def)
    moreover have "m_store p' = (\<lambda>a. map_option (after_round now) (m_store ?p a))"
    proof
      fix b
      have "b \<notin> set (m_Messages ?p) \<Longrightarrow> m_store ?p b = None" using dom by (simp add: domIff)
      then show "m_store p' b = map_option (after_round now) (m_store ?p b)"
        using r by (simp add: round_inv_def)
    qed
    ultimately show ?thesis using r by (auto simp: round_inv_def Pool_Unlock_def)
  qed
qed

section \<open>The messages in the queues\<close>

text \<open>All messages that wait somewhere: for routing, for a handler, or to be sent.\<close>

definition queued :: "cMsgQueue \<Rightarrow> nat list" where
  "queued q = m_priority_queue q @ concat (map m_jobQueue (m_Decorators q)) @
     m_outbound_priority_queue (m_pConnectionQueue q)"

definition mq_inv :: "cMsgQueue \<Rightarrow> bool" where
  "mq_inv q \<longleftrightarrow> pool_inv (m_msgPool q) \<and> \<not> m_bLocked (m_msgPool q) \<and> distinct (queued q) \<and>
     (\<forall>a \<in> set (queued q). state_of (m_msgPool q) a = Some MSG_STATE_INUSE)"

text \<open>A message that some part of the program has taken out of the queues and works on.\<close>

definition held :: "cMsgQueue \<Rightarrow> nat \<Rightarrow> bool" where
  "held q a \<longleftrightarrow> mq_inv q \<and> state_of (m_msgPool q) a = Some MSG_STATE_INUSE \<and> a \<notin> set (queued q)"

lemma queued_simps [simp]:
  "queued (q\<lparr>m_msgPool := p\<rparr>) = queued q" "queued (q\<lparr>m_UniqueIDProvider := u\<rparr>) = queued q"
  "queued (q\<lparr>m_pSysMetrics := s\<rparr>) = queued q" "queued (q\<lparr>m_timer := t\<rparr>) = queued q"
  by (simp_all add: queued_def)

lemma mq_inv_pool:
  assumes "mq_inv q" "pool_inv p" "\<not> m_bLocked p"
    and "\<And>a. a \<in> set (queued q) \<Longrightarrow> state_of p a = Some MSG_STATE_INUSE"
  shows "mq_inv (q\<lparr>m_msgPool := p\<rparr>)"
  using assms by (simp add: mq_inv_def)

lemma mq_inv_other [simp]:
  "mq_inv (q\<lparr>m_UniqueIDProvider := u\<rparr>) = mq_inv q" "mq_inv (q\<lparr>m_pSysMetrics := s\<rparr>) = mq_inv q"
  "mq_inv (q\<lparr>m_timer := t\<rparr>) = mq_inv q"
  by (simp_all add: mq_inv_def)

lemma pool_inv_put:
  assumes "pool_inv p" "m_store p a = Some m" "MsgState m' = MsgState m \<or> a \<notin> set (m_FreeMsgStack p)"
  shows "pool_inv (pool_put p a m')"
  using assms by (auto simp: pool_inv_def pool_put_def state_of_def)

lemma held_live: "held q a \<Longrightarrow> \<exists>m. m_store (m_msgPool q) a = Some m \<and> MsgState m = MSG_STATE_INUSE"
  by (auto simp: held_def state_of_def)

lemma held_not_free: "held q a \<Longrightarrow> a \<notin> set (m_FreeMsgStack (m_msgPool q))"
  by (auto simp: held_def mq_inv_def pool_inv_def)

lemma mq_upd_eq:
  "m_store (m_msgPool q) a = Some m \<Longrightarrow> mq_upd q a f = Inr (q\<lparr>m_msgPool := pool_put (m_msgPool q) a (f m)\<rparr>)"
  by (simp add: mq_upd_def pool_upd_live)

lemma mq_get_eq: "m_store (m_msgPool q) a = Some m \<Longrightarrow> mq_get q a = Inr m"
  by (simp add: mq_get_def pool_get_def)

text \<open>Changing a message that is held leaves every queue intact, whatever its new state is.\<close>

lemma held_put:
  assumes h: "held q a" and b: "held q b" "a \<noteq> b"
  shows "held (q\<lparr>m_msgPool := pool_put (m_msgPool q) b m'\<rparr>) a"
proof -
  obtain m where m: "m_store (m_msgPool q) b = Some m" using held_live [OF b(1)] by blast
  have "pool_inv (pool_put (m_msgPool q) b m')"
    using h held_not_free [OF b(1)] m by (intro pool_inv_put) (auto simp: held_def mq_inv_def)
  then have "mq_inv (q\<lparr>m_msgPool := pool_put (m_msgPool q) b m'\<rparr>)"
    using h b by (intro mq_inv_pool) (auto simp: held_def mq_inv_def state_of_put pool_put_def state_of_def)
  then show ?thesis using h b by (simp add: held_def state_of_put)
qed

lemma put_inv:
  assumes h: "held q a"
  shows "mq_inv (q\<lparr>m_msgPool := pool_put (m_msgPool q) a m'\<rparr>)"
    and "MsgState m' = MSG_STATE_INUSE \<Longrightarrow> held (q\<lparr>m_msgPool := pool_put (m_msgPool q) a m'\<rparr>) a"
proof -
  obtain m where m: "m_store (m_msgPool q) a = Some m" using held_live [OF h] by blast
  have "pool_inv (pool_put (m_msgPool q) a m')"
    using h held_not_free [OF h] m by (intro pool_inv_put) (auto simp: held_def mq_inv_def)
  then show i: "mq_inv (q\<lparr>m_msgPool := pool_put (m_msgPool q) a m'\<rparr>)"
    using h by (intro mq_inv_pool) (auto simp: held_def mq_inv_def state_of_put pool_put_def state_of_def)
  show "MsgState m' = MSG_STATE_INUSE \<Longrightarrow> held (q\<lparr>m_msgPool := pool_put (m_msgPool q) a m'\<rparr>) a"
    using h i by (simp add: held_def state_of_put)
qed

text \<open>A message that is handed out is held, and nothing else changes.\<close>

lemma MQ_GetMessage_spec:
  assumes inv: "mq_inv q"
  shows "\<exists>a p ids newid. MQ_GetMessage env q = Inr (a, q\<lparr>m_msgPool := p, m_UniqueIDProvider := ids\<rparr>) \<and>
    held (q\<lparr>m_msgPool := p, m_UniqueIDProvider := ids\<rparr>) a \<and>
    state_of (m_msgPool q) a \<in> {Some MSG_STATE_INACTIVE, None} \<and>
    (\<exists>m. m_store p a = Some (Msg_SetMsgState (Msg_ResetMsg newid (e_now env) m) MSG_STATE_INUSE)) \<and>
    (\<forall>b. b \<noteq> a \<longrightarrow> m_store p b = m_store (m_msgPool q) b)"
proof -
  have pinv: "pool_inv (m_msgPool q)" using inv by (simp add: mq_inv_def)
  from GetMessage_spec [OF pinv, of "e_uuid env" "e_now env" "m_UniqueIDProvider q"]
  obtain a p ids newid where
    g: "Pool_GetMessage (e_uuid env) (e_now env) (m_msgPool q) (m_UniqueIDProvider q) = Inr (a, p, ids)"
    and p: "pool_inv p" and old: "state_of (m_msgPool q) a = Some MSG_STATE_INACTIVE \<or> m_store (m_msgPool q) a = None"
    and new: "\<exists>m. m_store p a = Some (Msg_SetMsgState (Msg_ResetMsg newid (e_now env) m) MSG_STATE_INUSE)"
    and rest: "\<forall>b. b \<noteq> a \<longrightarrow> m_store p b = m_store (m_msgPool q) b" by blast
  have lk: "\<not> m_bLocked p"
    using g inv by (auto simp: Pool_GetMessage_def Pool_GetReusableMessage_def Let_def result_simps
        pool_upd_def pool_put_def mq_inv_def split: prod.splits list.splits)
  have st: "state_of (m_msgPool q) a \<in> {Some MSG_STATE_INACTIVE, None}" using old by (auto simp: state_of_def)
  have na: "a \<notin> set (queued q)" using inv st by (auto simp: mq_inv_def)
  have "state_of p b = Some MSG_STATE_INUSE" if "b \<in> set (queued q)" for b
    using that inv rest na by (auto simp: mq_inv_def state_of_def)
  then have "mq_inv (q\<lparr>m_msgPool := p\<rparr>)" using inv p lk by (intro mq_inv_pool) auto
  then have "held (q\<lparr>m_msgPool := p, m_UniqueIDProvider := ids\<rparr>) a"
    using na new by (auto simp: held_def state_of_def Msg_SetMsgState_def)
  then show ?thesis using g st new rest by (auto simp: MQ_GetMessage_def)
qed

text \<open>Another held message is still held afterwards, and is another one.\<close>

lemma held_other:
  assumes h: "held q b" and g: "held (q\<lparr>m_msgPool := p, m_UniqueIDProvider := ids\<rparr>) a"
    and st: "state_of (m_msgPool q) a \<in> {Some MSG_STATE_INACTIVE, None}"
    and rest: "\<forall>b. b \<noteq> a \<longrightarrow> m_store p b = m_store (m_msgPool q) b"
  shows "b \<noteq> a \<and> held (q\<lparr>m_msgPool := p, m_UniqueIDProvider := ids\<rparr>) b"
proof -
  have "b \<noteq> a" using h st by (auto simp: held_def)
  then show ?thesis using h g rest by (auto simp: held_def state_of_def)
qed

section \<open>Replies\<close>

text \<open>
  The answer goes out over the connection that the message came in by, to the one who sent it, with
  its id and its priority; an internal message is answered by an internal one whose command is the
  sender.
\<close>

definition reply_type :: "eMsgConnectionType \<Rightarrow> eMsgConnectionType option" where
  "reply_type ct =
     (case ct of
        MSG_CT_INTERNAL \<Rightarrow> Some MSG_CT_INTERNAL | MSG_CT_IB_UDP \<Rightarrow> Some MSG_CT_OB_UDP
      | MSG_CT_IB_TCP \<Rightarrow> Some MSG_CT_OB_TCP | _ \<Rightarrow> None)"

definition answers :: "cMsg \<Rightarrow> cMsg \<Rightarrow> bool" where
  "answers m n \<longleftrightarrow>
     MsgState n = MSG_STATE_INUSE \<and> MsgFormat n = MSG_FORMAT_RES \<and> MsgID n = cstr (MsgID m) \<and>
     MsgTo n = cstr (MsgFrom m) \<and> MsgPriority n = MsgPriority m \<and>
     TCPSocketHandle n = TCPSocketHandle m \<and> m_bKeepAlive n = m_bKeepAlive m \<and>
     MsgProtocolType n = MsgProtocolType m \<and> MsgArrivalPort n = MsgArrivalPort m \<and>
     (case reply_type (MsgConnectionType m) of
        None \<Rightarrow> MsgConnectionType n = MSG_CT_NOTSET | Some ct \<Rightarrow> MsgConnectionType n = ct) \<and>
     (if MsgConnectionType m = MSG_CT_INTERNAL
      then MsgCommand n = cstr (MsgFrom m) \<and> MsgReplyActionType n = MSG_REPLY_ACTION_NONE
      else UDPSocketHandle n = UDPSocketHandle m \<and> SourceIP n = cstr (SourceIP m) \<and>
           SourcePort n = SourcePort m \<and> MsgReplyActionType n = MsgReplyActionType m)"

lemma cstr_cstr [simp]: "cstr (cstr s) = cstr s"
  by (rule cstr_id) (auto simp: cstr_def dest: set_takeWhileD)

lemma reply_to_answers:
  assumes "MsgState n = MSG_STATE_INUSE" "MsgConnectionType n = MSG_CT_NOTSET"
  shows "answers m (reply_to m n)"
  using assms
  by (cases "MsgConnectionType m")
    (simp_all add: answers_def reply_to_def reply_type_def Let_def msg_getters msg_setters)

lemma CreateMessageReply_spec:
  assumes b: "held q b" and m: "m_store (m_msgPool q) b = Some m"
  shows "\<exists>a q' n. CreateMessageReply env q (Some b) = Inr (a, q') \<and> held q' a \<and> held q' b \<and> a \<noteq> b \<and>
    m_store (m_msgPool q') a = Some n \<and> answers m n \<and>
    m_store (m_msgPool q') b = Some (Msg_SetCloned m) \<and>
    (\<forall>c. c \<noteq> a \<and> c \<noteq> b \<longrightarrow> m_store (m_msgPool q') c = m_store (m_msgPool q) c)"
proof -
  have inv: "mq_inv q" using b by (simp add: held_def)
  from MQ_GetMessage_spec [OF inv, of env] obtain a p ids newid n0 where
    g: "MQ_GetMessage env q = Inr (a, q\<lparr>m_msgPool := p, m_UniqueIDProvider := ids\<rparr>)"
    and ha: "held (q\<lparr>m_msgPool := p, m_UniqueIDProvider := ids\<rparr>) a"
    and st: "state_of (m_msgPool q) a \<in> {Some MSG_STATE_INACTIVE, None}"
    and new: "m_store p a = Some (Msg_SetMsgState (Msg_ResetMsg newid (e_now env) n0) MSG_STATE_INUSE)"
    and rest: "\<forall>b. b \<noteq> a \<longrightarrow> m_store p b = m_store (m_msgPool q) b" by blast
  let ?q1 = "q\<lparr>m_msgPool := p, m_UniqueIDProvider := ids\<rparr>"
  have ab: "b \<noteq> a" and hb: "held ?q1 b" using held_other [OF b ha st rest] by simp_all
  have mb: "m_store (m_msgPool ?q1) b = Some m" using rest ab m by simp
  have "MsgState m = MSG_STATE_INUSE" using held_live [OF b] m by simp
  then have sm: "MsgState (Msg_SetCloned m) = MSG_STATE_INUSE" by (simp add: Msg_SetCloned_def)
  let ?q2 = "?q1\<lparr>m_msgPool := pool_put (m_msgPool ?q1) b (Msg_SetCloned m)\<rparr>"
  have h2: "held ?q2 a" "held ?q2 b"
    using held_put [OF ha hb] put_inv(2) [OF hb sm] ab by simp_all
  let ?old = "Msg_SetMsgState (Msg_ResetMsg newid (e_now env) n0) MSG_STATE_INUSE"
  have na: "m_store (m_msgPool ?q2) a = Some ?old" using new ab by (simp add: pool_put_def)
  let ?n = "reply_to (Msg_SetCloned m) ?old"
  have "answers (Msg_SetCloned m) ?n"
    by (rule reply_to_answers) (simp_all add: Msg_SetMsgState_def Msg_ResetMsg_def)
  then have an: "answers m ?n" by (simp add: answers_def Msg_SetCloned_def)
  then have sn: "MsgState ?n = MSG_STATE_INUSE" by (simp add: answers_def)
  let ?q3 = "?q2\<lparr>m_msgPool := pool_put (m_msgPool ?q2) a ?n\<rparr>"
  have "mq_get ?q2 b = Inr (Msg_SetCloned m)" by (rule mq_get_eq) (simp add: pool_put_def)
  then have "CreateMessageReply env q (Some b) = Inr (a, ?q3)"
    using g mq_upd_eq [OF mb, of Msg_SetCloned] mq_upd_eq [OF na, of "reply_to (Msg_SetCloned m)"]
    by (simp add: CreateMessageReply_def)
  moreover have "held ?q3 a" "held ?q3 b" using put_inv(2) [OF h2(1) sn] held_put [OF h2(2,1) ab] by simp_all
  moreover have "m_store (m_msgPool ?q3) a = Some ?n" "m_store (m_msgPool ?q3) b = Some (Msg_SetCloned m)"
    "\<forall>c. c \<noteq> a \<and> c \<noteq> b \<longrightarrow> m_store (m_msgPool ?q3) c = m_store (m_msgPool q) c"
    using ab rest by (simp_all add: pool_put_def)
  ultimately show ?thesis using an ab by blast
qed

text \<open>A notify message waits to be sent afterwards, ahead of all others; the original is untouched.\<close>

lemma PostNotifyMessage_spec:
  assumes b: "held q b" and m: "m_store (m_msgPool q) b = Some m"
  shows "\<exists>a p ids n. PostNotifyMessage env q b = Inr (q\<lparr>m_msgPool := p, m_UniqueIDProvider := ids\<rparr>) \<and>
    held (q\<lparr>m_msgPool := p, m_UniqueIDProvider := ids\<rparr>) b \<and> a \<noteq> b \<and> m_store p a = Some n \<and>
    MsgState n = MSG_STATE_PENDING \<and> MsgFormat n = MSG_FORMAT_NOTIFY \<and> MsgTo n = cstr (MsgFrom m) \<and>
    MsgID n = cstr (MsgID m) \<and> MsgPriority n = 1255 \<and>
    (\<forall>c. c \<noteq> a \<longrightarrow> m_store p c = m_store (m_msgPool q) c)"
proof -
  have inv: "mq_inv q" using b by (simp add: held_def)
  from MQ_GetMessage_spec [OF inv, of env] obtain a p ids newid n0 where
    g: "MQ_GetMessage env q = Inr (a, q\<lparr>m_msgPool := p, m_UniqueIDProvider := ids\<rparr>)"
    and ha: "held (q\<lparr>m_msgPool := p, m_UniqueIDProvider := ids\<rparr>) a"
    and st: "state_of (m_msgPool q) a \<in> {Some MSG_STATE_INACTIVE, None}"
    and new: "m_store p a = Some (Msg_SetMsgState (Msg_ResetMsg newid (e_now env) n0) MSG_STATE_INUSE)"
    and rest: "\<forall>b. b \<noteq> a \<longrightarrow> m_store p b = m_store (m_msgPool q) b" by blast
  let ?q1 = "q\<lparr>m_msgPool := p, m_UniqueIDProvider := ids\<rparr>"
  have ab: "b \<noteq> a" and hb: "held ?q1 b" using held_other [OF b ha st rest] by simp_all
  have mb: "mq_get ?q1 b = Inr m" by (rule mq_get_eq) (use rest ab m in simp)
  let ?old = "Msg_SetMsgState (Msg_ResetMsg newid (e_now env) n0) MSG_STATE_INUSE"
  let ?mid = "notify_for m ?old"
  let ?n = "Msg_DispatchMsg (e_serverName env) (e_serverAddr env) ?mid"
  have u1: "mq_upd ?q1 a (notify_for m) = Inr (?q1\<lparr>m_msgPool := pool_put p a ?mid\<rparr>)"
  proof -
    have "m_store (m_msgPool ?q1) a = Some ?old" using new by simp
    from mq_upd_eq [OF this, of "notify_for m"] show ?thesis by simp
  qed
  have u2: "mq_upd (?q1\<lparr>m_msgPool := pool_put p a ?mid\<rparr>) a f =
      Inr (?q1\<lparr>m_msgPool := pool_put (pool_put p a ?mid) a (f ?mid)\<rparr>)" for f
  proof -
    have "m_store (m_msgPool (?q1\<lparr>m_msgPool := pool_put p a ?mid\<rparr>)) a = Some ?mid"
      by (simp add: pool_put_def)
    from mq_upd_eq [OF this, of f] show ?thesis by simp
  qed
  have pp: "pool_put (pool_put p a ?mid) a ?n = pool_put p a ?n" by (simp add: pool_put_def)
  let ?p = "pool_put p a ?n"
  have q: "?q1\<lparr>m_msgPool := ?p\<rparr> = q\<lparr>m_msgPool := ?p, m_UniqueIDProvider := ids\<rparr>"
    by (rule cMsgQueue.equality) simp_all
  have "PostNotifyMessage env q b = Inr (?q1\<lparr>m_msgPool := ?p\<rparr>)"
    using g mb u1 u2 pp by (simp add: PostNotifyMessage_def MQ_DispatchMsg_def)
  then have "PostNotifyMessage env q b = Inr (q\<lparr>m_msgPool := ?p, m_UniqueIDProvider := ids\<rparr>)"
    unfolding q .
  moreover have "held (?q1\<lparr>m_msgPool := pool_put (m_msgPool ?q1) a ?n\<rparr>) b"
    by (rule held_put [OF hb ha ab])
  then have "held (q\<lparr>m_msgPool := ?p, m_UniqueIDProvider := ids\<rparr>) b"
    unfolding cMsgQueue.select_convs cMsgQueue.update_convs q [symmetric] by simp
  moreover have "MsgState ?n = MSG_STATE_PENDING" "MsgFormat ?n = MSG_FORMAT_NOTIFY"
    "MsgTo ?n = cstr (MsgFrom m)" "MsgID ?n = cstr (MsgID m)" "MsgPriority ?n = 1255"
    by (simp_all add: Msg_DispatchMsg_def notify_for_def Let_def msg_getters msg_setters priorities)
  moreover have "m_store ?p a = Some ?n" "\<forall>c. c \<noteq> a \<longrightarrow> m_store ?p c = m_store (m_msgPool q) c"
    using rest by (simp_all add: pool_put_def)
  ultimately show ?thesis using ab
    by (intro exI [of _ a] exI [of _ ?p] exI [of _ ids] exI [of _ ?n] conjI) simp_all
qed

section \<open>The queues stay consistent\<close>

lemma after_round_state:
  "MsgState m = MSG_STATE_INUSE \<or> MsgState m = MSG_STATE_INACTIVE \<Longrightarrow> after_round now m = m"
  by (auto simp: after_round_def pending_msg_done)

lemma after_round_pending:
  "MsgState m = MSG_STATE_PENDING \<Longrightarrow> MsgConnectionType m \<noteq> MSG_CT_NOTSET \<Longrightarrow>
     after_round now m = m\<lparr>MsgState := MSG_STATE_INUSE\<rparr>"
  by (simp add: after_round_def pending_msg_def Let_def msg_getters msg_setters)

lemma ProcessPendingMessages_inv:
  assumes inv: "mq_inv q" and ty: "typed (m_msgPool q)"
  shows "\<exists>q'. ProcessPendingMessages now q = Inr q' \<and> mq_inv q' \<and>
    set (queued q') = set (queued q) \<union> {a. is_pending (m_msgPool q) a} \<and>
    m_pSysMetrics q' = m_pSysMetrics q"
proof -
  let ?p = "m_msgPool q" and ?new = "filter (is_pending (m_msgPool q)) (m_Messages (m_msgPool q))"
  have pinv: "pool_inv ?p" using inv by (simp add: mq_inv_def)
  from ProcessPendingMessages_spec [OF pinv ty, of now] obtain p' where
    e: "ProcessPendingMessages now q =
        Inr (q\<lparr>m_msgPool := p', m_priority_queue := m_priority_queue q @ ?new\<rparr>)" (is "_ = Inr ?q")
    and st: "m_store p' = (\<lambda>a. map_option (after_round now) (m_store ?p a))"
    and p': "m_Messages p' = m_Messages ?p" "m_FreeMsgStack p' = m_FreeMsgStack ?p"
      "m_iNextAddr p' = m_iNextAddr ?p" "\<not> m_bLocked p'" by blast
  have new: "set ?new = {a. is_pending ?p a}"
    using pinv by (auto simp: pool_inv_def is_pending_def state_of_def)
  have same: "state_of p' a = state_of ?p a" if "state_of ?p a \<in> {Some MSG_STATE_INUSE, Some MSG_STATE_INACTIVE}" for a
    using that st after_round_state by (auto simp: state_of_def)
  have q: "mset (queued ?q) = mset (queued q) + mset ?new" "set (queued ?q) = set (queued q) \<union> set ?new"
    by (auto simp: queued_def)
  have disj: "set (queued q) \<inter> set ?new = {}" using inv new by (auto simp: mq_inv_def is_pending_def)
  have "distinct (queued q @ ?new)" using inv pinv disj by (simp add: mq_inv_def pool_inv_def)
  moreover have "mset (queued ?q) = mset (queued q @ ?new)" using q by simp
  ultimately have d: "distinct (queued ?q)" using mset_eq_imp_distinct_iff by blast
  have "pool_inv p'"
    using pinv p' same by (auto simp: pool_inv_def st dom_def)
  moreover have "state_of p' a = Some MSG_STATE_INUSE" if a: "a \<in> set (queued ?q)" for a
  proof (cases "a \<in> set (queued q)")
    case True
    then show ?thesis using same [of a] inv by (simp add: mq_inv_def)
  next
    case False
    then have "is_pending ?p a" using a q(2) new by auto
    then obtain m where m: "m_store ?p a = Some m" "MsgState m = MSG_STATE_PENDING"
      by (auto simp: is_pending_def state_of_def)
    then have "MsgConnectionType m \<noteq> MSG_CT_NOTSET" using ty by (auto simp: typed_def)
    then show ?thesis using m st after_round_pending by (simp add: state_of_def)
  qed
  ultimately have "mq_inv ?q" using d p'(4) by (simp add: mq_inv_def)
  then show ?thesis using e q(2) new by (intro exI [of _ ?q]) simp
qed

lemma MQ_FlushMessages_inv:
  assumes "mq_inv q"
  shows "\<exists>q'. MQ_FlushMessages now q = Inr q' \<and> mq_inv q' \<and> queued q' = queued q \<and> m_timer q' = m_timer q"
proof -
  have "pool_inv (m_msgPool q)" using assms by (simp add: mq_inv_def)
  from FlushMessages_spec [OF this, of now] obtain p where
    p: "FlushMessages now (m_msgPool q) = Inr p" "pool_inv p" "\<not> m_bLocked p" "busy_kept (m_msgPool q) p"
    by blast
  have "mq_inv (q\<lparr>m_msgPool := p\<rparr>)"
  proof (rule mq_inv_pool [OF assms p(2,3)])
    fix a assume "a \<in> set (queued q)"
    then obtain m where m: "m_store (m_msgPool q) a = Some m" "MsgState m = MSG_STATE_INUSE"
      using assms by (auto simp: mq_inv_def state_of_def)
    then have "m_store p a = Some m" using p(4) by (simp add: busy_kept_def busy_def)
    then show "state_of p a = Some MSG_STATE_INUSE" using m by (simp add: state_of_def)
  qed
  then show ?thesis using p(1) by (simp add: MQ_FlushMessages_def)
qed

text \<open>Taking the top message off the priority queue.\<close>

lemma take_top:
  assumes inv: "mq_inv q" and ne: "m_priority_queue q \<noteq> []"
  shows "held (q\<lparr>m_priority_queue := pq_pop prio (m_priority_queue q)\<rparr>) (pq_top prio (m_priority_queue q))"
    and "mset (queued q) = add_mset (pq_top prio (m_priority_queue q))
      (mset (queued (q\<lparr>m_priority_queue := pq_pop prio (m_priority_queue q)\<rparr>)))"
proof -
  let ?a = "pq_top prio (m_priority_queue q)"
    and ?q = "q\<lparr>m_priority_queue := pq_pop prio (m_priority_queue q)\<rparr>"
  have e: "mset (m_priority_queue q) = add_mset ?a (mset (pq_pop prio (m_priority_queue q)))"
    using ne by (intro pq.elems_pop) simp
  then show m: "mset (queued q) = add_mset ?a (mset (queued ?q))" by (simp add: queued_def)
  then have "mset (queued q) = mset (?a # queued ?q)" by simp
  note this [THEN mset_eq_imp_distinct_iff] and this [THEN mset_eq_setD]
  then have "distinct (?a # queued ?q)" "set (queued q) = set (?a # queued ?q)"
    using inv by (simp_all add: mq_inv_def)
  then show "held ?q ?a" using inv by (simp add: held_def mq_inv_def)
qed

text \<open>Queueing a message that is held.\<close>

lemma mq_inv_queue:
  assumes h: "held q a" and p: "m_msgPool q' = m_msgPool q"
    and m: "mset (queued q') = add_mset a (mset (queued q))"
  shows "mq_inv q'"
proof -
  have "mset (queued q') = mset (a # queued q)" using m by simp
  note this [THEN mset_eq_imp_distinct_iff] and this [THEN mset_eq_setD]
  then have "distinct (queued q')" "set (queued q') = set (a # queued q)"
    using h by (simp_all add: held_def mq_inv_def)
  then show ?thesis using h p by (simp add: held_def mq_inv_def)
qed

lemma mset_jobs:
  "h < length ds \<Longrightarrow>
     mset (concat (map m_jobQueue (ds[h := Decorator_OnProcess (ds ! h) a]))) =
       add_mset a (mset (concat (map m_jobQueue ds)))"
proof (induction ds arbitrary: h)
  case Nil
  then show ?case by simp
next
  case (Cons d ds)
  then show ?case by (cases h) (simp_all add: Decorator_OnProcess_def pq_push_def)
qed

lemma OnProcess_inv:
  assumes "held q a" "MQ_OnProcess q h a = Inr q'"
  shows "mq_inv q'" "mset (queued q') = add_mset a (mset (queued q))"
proof -
  obtain n where n: "h = Some n" "n < length (m_Decorators q)"
    "q' = q\<lparr>m_Decorators := (m_Decorators q)[n := Decorator_OnProcess (m_Decorators q ! n) a]\<rparr>"
    using assms(2) by (auto simp: MQ_OnProcess_def split: option.splits if_splits)
  show m: "mset (queued q') = add_mset a (mset (queued q))"
    using mset_jobs [OF n(2)] n(3) by (simp add: queued_def)
  show "mq_inv q'" using mq_inv_queue [OF assms(1) _ m] n(3) by simp
qed

lemma MQ_Inc_inv:
  assumes "held q a" "MQ_IncMsgDelivered q = Inr q'"
  shows "held q' a" "queued q' = queued q" "m_pCommandHandlerFactory q' = m_pCommandHandlerFactory q"
    "m_Decorators q' = m_Decorators q" "m_msgPool q' = m_msgPool q"
  using assms by (auto simp: MQ_IncMsgDelivered_def result_simps held_def)

text \<open>
  A message that is taken to its handler is in a queue again, or it is done: delivered because
  nobody waits for it, or undelivered because nobody serves it.
\<close>

definition settled :: "cMsgQueue \<Rightarrow> nat \<Rightarrow> cMsgQueue \<Rightarrow> bool" where
  "settled q a q' \<longleftrightarrow> mq_inv q' \<and>
     (mset (queued q') = add_mset a (mset (queued q)) \<or>
      mset (queued q') = mset (queued q) \<and>
        state_of (m_msgPool q') a \<in> {Some MSG_STATE_UNDELIVERED, Some MSG_STATE_DELIVERED})"

lemma settled_put:
  assumes "held q a" "MsgState m' \<in> {MSG_STATE_UNDELIVERED, MSG_STATE_DELIVERED}"
  shows "settled q a (q\<lparr>m_msgPool := pool_put (m_msgPool q) a m'\<rparr>)"
  using put_inv(1) [OF assms(1)] assms(2) by (auto simp: settled_def state_of_put)

lemma settled_cong: "settled q1 a q' \<Longrightarrow> queued q1 = queued q \<Longrightarrow> settled q a q'"
  by (simp add: settled_def)

lemma deliver_settled:
  assumes h: "held q a" and e: "rbind (MQ_IncMsgDelivered q) (\<lambda>q. MQ_OnProcess q p a) = Inr q'"
  shows "settled q a q'"
proof -
  obtain q1 where q1: "MQ_IncMsgDelivered q = Inr q1" "MQ_OnProcess q1 p a = Inr q'"
    using e by (auto simp: result_simps)
  note i = MQ_Inc_inv [OF h q1(1)]
  show ?thesis using OnProcess_inv [OF i(1) q1(2)] i(2) by (simp add: settled_def)
qed

lemma ProcessInternalMessage_settles:
  assumes h: "held q a" and e: "ProcessInternalMessage q a = Inr q'"
  shows "settled q a q'"
proof -
  obtain m where m: "m_store (m_msgPool q) a = Some m" using held_live [OF h] by blast
  show ?thesis
  proof (cases "GetCommandHandler (m_pCommandHandlerFactory q) (Msg_GetCommand m)")
    case None
    then have "q' = q\<lparr>m_msgPool := pool_put (m_msgPool q) a (Msg_SetMsgState m MSG_STATE_UNDELIVERED)\<rparr>"
      using e m by (simp add: ProcessInternalMessage_def mq_get_eq mq_upd_eq)
    then show ?thesis using settled_put [OF h] by (simp add: Msg_SetMsgState_def)
  next
    case (Some k)
    then show ?thesis using e m deliver_settled [OF h]
      by (simp add: ProcessInternalMessage_def mq_get_eq)
  qed
qed

lemma ProcessOutboundMessage_settles:
  assumes h: "held q a" and e: "ProcessOutboundMessage q a = Inr q'"
  shows "settled q a q'"
proof -
  obtain m where m: "m_store (m_msgPool q) a = Some m" using held_live [OF h] by blast
  show ?thesis
  proof (cases "Msg_GetReplyAction m = MSG_REPLY_ACTION_NONE")
    case True
    then have "q' = q\<lparr>m_msgPool := pool_put (m_msgPool q) a (Msg_MarkProcessed m)\<rparr>"
      using e m by (simp add: ProcessOutboundMessage_def mq_get_eq mq_upd_eq)
    then show ?thesis using settled_put [OF h] by (simp add: Msg_MarkProcessed_def)
  next
    case False
    then obtain cq where cq: "ConQueue_SendMsg (m_pConnectionQueue q) a m = Inr cq"
      "q' = q\<lparr>m_pConnectionQueue := cq\<rparr>"
      using e m by (auto simp: ProcessOutboundMessage_def mq_get_eq result_simps)
    have "m_outbound_priority_queue cq = pq_push a (m_outbound_priority_queue (m_pConnectionQueue q))"
      using cq(1) by (auto simp: ConQueue_SendMsg_def Let_def result_simps split: if_splits)
    then have "mset (queued q') = add_mset a (mset (queued q))"
      using cq(2) by (simp add: queued_def pq_push_def)
    then show ?thesis using mq_inv_queue [OF h, of q'] cq(2) by (simp add: settled_def)
  qed
qed

text \<open>A search changes the message's buffer at most.\<close>

lemma TestContains_buffer: "TestContains m r = Inr (m', b) \<Longrightarrow> \<exists>c. m' = m\<lparr>MsgBuffer := c\<rparr>"
  by (auto simp: TestContains_def result_simps split: eMsgRouterLocationType.splits
      intro: exI [of _ "MsgBuffer m"])

lemma test_rules_buffer: "test_rules t m rs = Inr (m', b) \<Longrightarrow> \<exists>c. m' = m\<lparr>MsgBuffer := c\<rparr>"
proof (induction t m rs arbitrary: m' b rule: test_rules.induct)
  case (1 t m)
  then show ?case by (intro exI [of _ "MsgBuffer m"]) simp
next
  case (2 t m r rs)
  obtain m1 t1 where m1: "(if m_OperationType r = MSG_RTO_CONTAINS then TestContains m r else Inr (m, t)) = Inr (m1, t1)"
    "(if \<not> t1 then Inr (m1, False) else test_rules t1 m1 rs) = Inr (m', b)"
    using 2(2) by (auto simp: result_simps)
  obtain c where c: "m1 = m\<lparr>MsgBuffer := c\<rparr>"
  proof (cases "m_OperationType r = MSG_RTO_CONTAINS")
    case True
    then show ?thesis using that m1(1) TestContains_buffer by fastforce
  next
    case False
    then have "m1 = m\<lparr>MsgBuffer := MsgBuffer m\<rparr>" using m1(1) by simp
    then show ?thesis by (rule that)
  qed
  show ?case
  proof (cases t1)
    case True
    then obtain d where "m' = m1\<lparr>MsgBuffer := d\<rparr>" using 2(1) [OF m1(1) refl] m1(2) by auto
    then have "m' = m\<lparr>MsgBuffer := d\<rparr>" using c by simp
    then show ?thesis by blast
  next
    case False
    then have "m' = m\<lparr>MsgBuffer := c\<rparr>" using m1(2) c by simp
    then show ?thesis by blast
  qed
qed

lemma search_sets_buffer: "search_sets t m sets = Inr (m', r) \<Longrightarrow> \<exists>c. m' = m\<lparr>MsgBuffer := c\<rparr>"
proof (induction sets arbitrary: t m)
  case Nil
  then show ?case by (intro exI [of _ "MsgBuffer m"]) simp
next
  case (Cons rs sets)
  then obtain m1 t1 where m1: "test_rules t m (m_RuleSet rs) = Inr (m1, t1)"
    "(if t1 then Inr (m1, Some (cstr (m_RouteTo rs))) else search_sets t1 m1 sets) = Inr (m', r)"
    by (auto simp: result_simps)
  obtain c where "m1 = m\<lparr>MsgBuffer := c\<rparr>" using test_rules_buffer [OF m1(1)] by blast
  then show ?case using m1(2) Cons.IH [of t1 m1] by (auto split: if_splits)
qed

lemma ProcessInboundMessage_settles:
  assumes h: "held q a" and e: "ProcessInboundMessage env q a = Inr q'"
  shows "settled q a q'"
proof -
  obtain m where m: "m_store (m_msgPool q) a = Some m" "MsgState m = MSG_STATE_INUSE"
    using held_live [OF h] by blast
  let ?notify = "if Msg_GetNotifyAction m = MSG_NOTIFY_ACTION_YES
    then rbind (PostNotifyMessage env q a) (\<lambda>q. mq_upd q a (\<lambda>m. Msg_SetNotifyAction m MSG_NOTIFY_ACTION_NO))
    else Inr q"
  obtain q1 where n: "?notify = Inr q1"
    and r: "rbind (mq_get q1 a) (\<lambda>m.
       if starts_with ''MCP/'' (Msg_GetCommand m)
       then
         let pHandler = GetCommandHandler (m_pCommandHandlerFactory q1) ''MC''
         in rbind (MQ_IncMsgDelivered q1) (\<lambda>q. MQ_OnProcess q pHandler a)
       else
         rbind (RulesEngine_Search (m_pRouterRulesEngine q1) m) (\<lambda>(m', found).
         rbind (mq_upd q1 a (\<lambda>_. m')) (\<lambda>q.
           let Match = (case found of None \<Rightarrow> '''' | Some r \<Rightarrow> r);
               pHandler = (if length Match \<noteq> 0
                           then GetCommandHandler (m_pCommandHandlerFactory q) Match
                           else GetCommandHandler (m_pCommandHandlerFactory q) (Msg_GetCommand m'))
           in rbind (MQ_IncMsgDelivered q) (\<lambda>q. MQ_OnProcess q pHandler a)))) = Inr q'"
    using e m by (auto simp: ProcessInboundMessage_def mq_get_eq result_simps)
  have q1: "held q1 a" "queued q1 = queued q"
  proof -
    from PostNotifyMessage_spec [OF h m(1), of env] obtain b p ids where
      p: "PostNotifyMessage env q a = Inr (q\<lparr>m_msgPool := p, m_UniqueIDProvider := ids\<rparr>)"
        "held (q\<lparr>m_msgPool := p, m_UniqueIDProvider := ids\<rparr>) a" "b \<noteq> a"
        "\<forall>c. c \<noteq> b \<longrightarrow> m_store p c = m_store (m_msgPool q) c" by blast
    let ?q = "q\<lparr>m_msgPool := p, m_UniqueIDProvider := ids\<rparr>"
    have ma: "m_store (m_msgPool ?q) a = Some m" using p(3,4) m(1) by simp
    have "held (?q\<lparr>m_msgPool := pool_put (m_msgPool ?q) a (Msg_SetNotifyAction m MSG_NOTIFY_ACTION_NO)\<rparr>) a"
      using m(2) by (intro put_inv(2) [OF p(2)]) (simp add: Msg_SetNotifyAction_def)
    then show "held q1 a" "queued q1 = queued q"
      using n h p(1) mq_upd_eq [OF ma, of "\<lambda>m. Msg_SetNotifyAction m MSG_NOTIFY_ACTION_NO"]
      by (auto split: if_splits)
  qed
  obtain m1 where m1: "m_store (m_msgPool q1) a = Some m1" "MsgState m1 = MSG_STATE_INUSE"
    using held_live [OF q1(1)] by blast
  show ?thesis
  proof (cases "starts_with ''MCP/'' (Msg_GetCommand m1)")
    case True
    then have "settled q1 a q'"
      using r m1(1) deliver_settled [OF q1(1)] by (simp add: mq_get_eq Let_def)
    then show ?thesis using q1(2) by (rule settled_cong)
  next
    case False
    obtain m2 found where s: "RulesEngine_Search (m_pRouterRulesEngine q1) m1 = Inr (m2, found)"
      using r m1(1) False by (auto simp: mq_get_eq result_simps)
    then obtain c where "m2 = m1\<lparr>MsgBuffer := c\<rparr>"
      using search_sets_buffer unfolding RulesEngine_Search_def by blast
    then have st: "MsgState m2 = MSG_STATE_INUSE" using m1(2) by simp
    let ?q2 = "q1\<lparr>m_msgPool := pool_put (m_msgPool q1) a m2\<rparr>"
    have h2: "held ?q2 a" by (rule put_inv(2) [OF q1(1) st])
    let ?match = "case found of None \<Rightarrow> '''' | Some r \<Rightarrow> r"
    let ?h = "if length ?match \<noteq> 0 then GetCommandHandler (m_pCommandHandlerFactory ?q2) ?match
      else GetCommandHandler (m_pCommandHandlerFactory ?q2) (Msg_GetCommand m2)"
    have "rbind (MQ_IncMsgDelivered ?q2) (\<lambda>q. MQ_OnProcess q ?h a) = Inr q'"
      by (rule r [unfolded mq_get_eq [OF m1(1)] rbind.simps Let_def if_not_P [OF False] s prod.case
          mq_upd_eq [OF m1(1), of "\<lambda>_. m2"]])
    from deliver_settled [OF h2 this] have "settled ?q2 a q'" .
    then show ?thesis by (rule settled_cong) (simp add: q1(2))
  qed
qed

lemma ProcessPriorityQueue_settles:
  assumes inv: "mq_inv q" and ne: "m_priority_queue q \<noteq> []"
    and a: "a = pq_top (prio_in (m_msgPool q)) (m_priority_queue q)"
    and e: "ProcessPriorityQueue env q = Inr q'"
  shows "mq_inv q' \<and> (mset (queued q') = mset (queued q) \<or>
    mset (queued q) = add_mset a (mset (queued q')) \<and>
      state_of (m_msgPool q') a \<in> {Some MSG_STATE_UNDELIVERED, Some MSG_STATE_DELIVERED})"
proof -
  let ?q = "q\<lparr>m_priority_queue := pq_pop (prio_in (m_msgPool q)) (m_priority_queue q)\<rparr>"
  note t = take_top [OF inv ne, of "prio_in (m_msgPool q)", folded a]
  obtain m where m: "m_store (m_msgPool ?q) a = Some m" using held_live [OF t(1)] by blast
  have "settled ?q a q'"
    using e m ProcessInternalMessage_settles [OF t(1)] ProcessOutboundMessage_settles [OF t(1)]
      ProcessInboundMessage_settles [OF t(1)]
    unfolding ProcessPriorityQueue_def Let_def a [symmetric]
    by (simp add: mq_get_eq split: eMsgConnectionType.splits)
  then show ?thesis using t(2) by (auto simp: settled_def)
qed

section \<open>When a message gets through\<close>

text \<open>The handler that an inbound message goes to.\<close>

definition served_by :: "cMsgQueue \<Rightarrow> cMsg \<Rightarrow> nat \<Rightarrow> bool" where
  "served_by q m h \<longleftrightarrow>
     (if starts_with ''MCP/'' (Msg_GetCommand m)
      then GetCommandHandler (m_pCommandHandlerFactory q) ''MC'' = Some h
      else case RulesEngine_Search (m_pRouterRulesEngine q) m of
             Inl _ \<Rightarrow> False
           | Inr (m', found) \<Rightarrow>
               let Match = (case found of None \<Rightarrow> '''' | Some r \<Rightarrow> r)
               in GetCommandHandler (m_pCommandHandlerFactory q)
                    (if length Match \<noteq> 0 then Match else Msg_GetCommand m') = Some h)"

definition sendable_socket :: "int \<Rightarrow> bool" where
  "sendable_socket s \<longleftrightarrow> s = -1 \<or> s = 0 \<or> valid_socket s"

definition serviceable :: "cMsgQueue \<Rightarrow> cMsg \<Rightarrow> bool" where
  "serviceable q m \<longleftrightarrow>
     (case MsgConnectionType m of
        MSG_CT_NOTSET \<Rightarrow> False
      | MSG_CT_INTERNAL \<Rightarrow>
          (case GetCommandHandler (m_pCommandHandlerFactory q) (Msg_GetCommand m) of
             None \<Rightarrow> True | Some h \<Rightarrow> h < length (m_Decorators q))
      | MSG_CT_OB_UDP \<Rightarrow> sendable_socket (UDPSocketHandle m)
      | MSG_CT_OB_TCP \<Rightarrow> sendable_socket (TCPSocketHandle m)
      | _ \<Rightarrow> \<exists>h < length (m_Decorators q). served_by q (Msg_SetNotifyAction m MSG_NOTIFY_ACTION_NO) h)"

lemma Inc_total:
  assumes "IncMsgDelivered (m_pSysMetrics q) \<noteq> None"
  shows "\<exists>s. MQ_IncMsgDelivered q = Inr (q\<lparr>m_pSysMetrics := s\<rparr>)"
  using assms by (auto simp: MQ_IncMsgDelivered_def of_option_def)

lemma deliver_total:
  assumes "IncMsgDelivered (m_pSysMetrics q) \<noteq> None" "h < length (m_Decorators q)"
  shows "\<exists>q'. rbind (MQ_IncMsgDelivered q) (\<lambda>q. MQ_OnProcess q (Some h) a) = Inr q'"
  using Inc_total [OF assms(1)] assms(2) by (auto simp: MQ_OnProcess_def)

lemma MarkPendingWrite_total: "sendable_socket s \<Longrightarrow> \<exists>c'. Cache_MarkPendingWrite c s = Inr c'"
  by (auto simp: sendable_socket_def Cache_MarkPendingWrite_def Cache_GetConnectionRecord_def)

lemma SendMsg_total:
  assumes "MsgConnectionType m = MSG_CT_OB_UDP \<and> sendable_socket (UDPSocketHandle m) \<or>
    MsgConnectionType m = MSG_CT_OB_TCP \<and> sendable_socket (TCPSocketHandle m)"
  shows "\<exists>cq'. ConQueue_SendMsg cq a m = Inr cq'"
  using assms
proof (elim disjE conjE)
  assume t: "MsgConnectionType m = MSG_CT_OB_UDP" and s: "sendable_socket (UDPSocketHandle m)"
  from MarkPendingWrite_total [OF s] obtain c where
    "Cache_MarkPendingWrite (m_ConnectionCache cq) (UDPSocketHandle m) = Inr c" by blast
  then show ?thesis using t by (simp add: ConQueue_SendMsg_def Let_def msg_getters)
next
  assume t: "MsgConnectionType m = MSG_CT_OB_TCP" and s: "sendable_socket (TCPSocketHandle m)"
  from MarkPendingWrite_total [OF s] obtain c where
    "Cache_MarkPendingWrite (m_ConnectionCache cq) (TCPSocketHandle m) = Inr c" by blast
  then show ?thesis using t by (simp add: ConQueue_SendMsg_def Let_def msg_getters)
qed

lemma no_notify: "MsgNotifyActionType m \<noteq> MSG_NOTIFY_ACTION_YES \<Longrightarrow> Msg_SetNotifyAction m MSG_NOTIFY_ACTION_NO = m"
  by (cases "MsgNotifyActionType m") (auto simp: Msg_SetNotifyAction_def intro!: cMsg.equality)

lemma ProcessInboundMessage_total:
  assumes h: "held q a" and m: "m_store (m_msgPool q) a = Some m"
    and ok: "IncMsgDelivered (m_pSysMetrics q) \<noteq> None"
    and s: "served_by q (Msg_SetNotifyAction m MSG_NOTIFY_ACTION_NO) k" "k < length (m_Decorators q)"
  shows "\<exists>q'. ProcessInboundMessage env q a = Inr q'"
proof -
  let ?m = "Msg_SetNotifyAction m MSG_NOTIFY_ACTION_NO"
  let ?notify = "if Msg_GetNotifyAction m = MSG_NOTIFY_ACTION_YES
    then rbind (PostNotifyMessage env q a) (\<lambda>q. mq_upd q a (\<lambda>m. Msg_SetNotifyAction m MSG_NOTIFY_ACTION_NO))
    else Inr q"
  have "\<exists>p ids. ?notify = Inr (q\<lparr>m_msgPool := p, m_UniqueIDProvider := ids\<rparr>) \<and> m_store p a = Some ?m"
  proof (cases "Msg_GetNotifyAction m = MSG_NOTIFY_ACTION_YES")
    case True
    from PostNotifyMessage_spec [OF h m, of env] obtain b p ids where
      p: "PostNotifyMessage env q a = Inr (q\<lparr>m_msgPool := p, m_UniqueIDProvider := ids\<rparr>)"
        "b \<noteq> a" "\<forall>c. c \<noteq> b \<longrightarrow> m_store p c = m_store (m_msgPool q) c" by blast
    have ma: "m_store (m_msgPool (q\<lparr>m_msgPool := p, m_UniqueIDProvider := ids\<rparr>)) a = Some m"
      using p(2,3) m by simp
    have "?notify = Inr (q\<lparr>m_msgPool := pool_put p a ?m, m_UniqueIDProvider := ids\<rparr>)"
      using True p(1) mq_upd_eq [OF ma, of "\<lambda>m. Msg_SetNotifyAction m MSG_NOTIFY_ACTION_NO"] by simp
    then show ?thesis by (intro exI [of _ "pool_put p a ?m"] exI [of _ ids]) (simp add: pool_put_def)
  next
    case False
    then have "?notify = Inr (q\<lparr>m_msgPool := m_msgPool q, m_UniqueIDProvider := m_UniqueIDProvider q\<rparr>)"
      by simp
    moreover have "?m = m" using False no_notify by (simp add: Msg_GetNotifyAction_def)
    ultimately show ?thesis using m by metis
  qed
  then obtain p ids where n: "?notify = Inr (q\<lparr>m_msgPool := p, m_UniqueIDProvider := ids\<rparr>)" (is "_ = Inr ?q")
    and pm: "m_store p a = Some ?m" by blast
  have g: "mq_get ?q a = Inr ?m" by (rule mq_get_eq) (simp add: pm)
  note e = ProcessInboundMessage_def [of env q a, unfolded mq_get_eq [OF m] rbind.simps n g]
  show ?thesis
  proof (cases "starts_with ''MCP/'' (Msg_GetCommand ?m)")
    case True
    then have "GetCommandHandler (m_pCommandHandlerFactory ?q) ''MC'' = Some k" using s by (simp add: served_by_def)
    moreover have "IncMsgDelivered (m_pSysMetrics ?q) \<noteq> None" "k < length (m_Decorators ?q)"
      using ok s by simp_all
    ultimately show ?thesis
      unfolding e if_P [OF True] Let_def using deliver_total [of ?q k a] by simp
  next
    case False
    obtain m2 found where f: "RulesEngine_Search (m_pRouterRulesEngine q) ?m = Inr (m2, found)"
      and k: "GetCommandHandler (m_pCommandHandlerFactory q)
        (if length (case found of None \<Rightarrow> '''' | Some r \<Rightarrow> r) \<noteq> 0
         then (case found of None \<Rightarrow> '''' | Some r \<Rightarrow> r) else Msg_GetCommand m2) = Some k"
      using s False by (auto simp: served_by_def Let_def split: sum.splits)
    have f': "RulesEngine_Search (m_pRouterRulesEngine ?q) ?m = Inr (m2, found)" using f by simp
    have u: "mq_upd ?q a (\<lambda>_. m2) = Inr (?q\<lparr>m_msgPool := pool_put (m_msgPool ?q) a m2\<rparr>)" (is "_ = Inr ?r")
      by (rule mq_upd_eq [where m = ?m]) (simp add: pm)
    have hd: "(if length (case found of None \<Rightarrow> '''' | Some r \<Rightarrow> r) \<noteq> 0
        then GetCommandHandler (m_pCommandHandlerFactory ?r) (case found of None \<Rightarrow> '''' | Some r \<Rightarrow> r)
        else GetCommandHandler (m_pCommandHandlerFactory ?r) (Msg_GetCommand m2)) = Some k"
      using k by (simp split: if_splits)
    have "IncMsgDelivered (m_pSysMetrics ?r) \<noteq> None" "k < length (m_Decorators ?r)" using ok s by simp_all
    then show ?thesis
      unfolding e if_not_P [OF False] f' rbind.simps prod.case u Let_def hd by (rule deliver_total)
  qed
qed

lemma ProcessPriorityQueue_total:
  assumes inv: "mq_inv q" and ne: "m_priority_queue q \<noteq> []"
    and m: "m_store (m_msgPool q) (pq_top (prio_in (m_msgPool q)) (m_priority_queue q)) = Some m"
    and ok: "IncMsgDelivered (m_pSysMetrics q) \<noteq> None" and s: "serviceable q m"
  shows "\<exists>q'. ProcessPriorityQueue env q = Inr q'"
proof -
  let ?a = "pq_top (prio_in (m_msgPool q)) (m_priority_queue q)"
  let ?q = "q\<lparr>m_priority_queue := pq_pop (prio_in (m_msgPool q)) (m_priority_queue q)\<rparr>"
  have h: "held ?q ?a" by (rule take_top(1) [OF inv ne])
  have m': "m_store (m_msgPool ?q) ?a = Some m" using m by simp
  have ok': "IncMsgDelivered (m_pSysMetrics ?q) \<noteq> None" using ok by simp
  have int: "\<exists>q'. ProcessInternalMessage ?q ?a = Inr q'" if "MsgConnectionType m = MSG_CT_INTERNAL"
    using that s m' ok' deliver_total [OF ok'] mq_upd_eq [OF m']
    by (auto simp: serviceable_def ProcessInternalMessage_def mq_get_eq split: option.splits)
  have out: "\<exists>q'. ProcessOutboundMessage ?q ?a = Inr q'"
    if "MsgConnectionType m = MSG_CT_OB_UDP \<or> MsgConnectionType m = MSG_CT_OB_TCP"
  proof -
    have "\<exists>cq. ConQueue_SendMsg (m_pConnectionQueue ?q) ?a m = Inr cq"
      using that s SendMsg_total by (auto simp: serviceable_def)
    then show ?thesis using mq_upd_eq [OF m'] by (auto simp: ProcessOutboundMessage_def mq_get_eq [OF m'])
  qed
  have inb: "\<exists>q'. ProcessInboundMessage env ?q ?a = Inr q'"
    if t: "MsgConnectionType m = MSG_CT_IB_UDP \<or> MsgConnectionType m = MSG_CT_IB_TCP"
  proof -
    obtain k where k: "served_by q (Msg_SetNotifyAction m MSG_NOTIFY_ACTION_NO) k" "k < length (m_Decorators q)"
      using s t by (cases "MsgConnectionType m") (auto simp: serviceable_def)
    have f: "m_pCommandHandlerFactory ?q = m_pCommandHandlerFactory q"
      "m_pRouterRulesEngine ?q = m_pRouterRulesEngine q" by simp_all
    have same: "served_by ?q x k = served_by q x k" for x unfolding served_by_def f by (rule refl)
    have "served_by ?q (Msg_SetNotifyAction m MSG_NOTIFY_ACTION_NO) k" "k < length (m_Decorators ?q)"
      using k by (simp_all add: same)
    then show ?thesis by (rule ProcessInboundMessage_total [OF h m' ok'])
  qed
  have "MsgConnectionType m \<noteq> MSG_CT_NOTSET" using s by (auto simp: serviceable_def)
  then show ?thesis using int out inb
    unfolding ProcessPriorityQueue_def Let_def mq_get_eq [OF m'] rbind.simps Msg_GetConnectionType_def
    by (cases "MsgConnectionType m") simp_all
qed

text \<open>An inbound command that nobody serves, while no rule matches, stops the thread.\<close>

lemma unserved_inbound_faults:
  assumes m: "m_store (m_msgPool q) a = Some m" and ok: "IncMsgDelivered (m_pSysMetrics q) \<noteq> None"
    and n: "MsgNotifyActionType m = MSG_NOTIFY_ACTION_NO"
    and c: "\<not> starts_with ''MCP/'' (Msg_GetCommand m)" "m_RuleSets (m_pRouterRulesEngine q) = []"
    and g: "GetCommandHandler (m_pCommandHandlerFactory q) (Msg_GetCommand m) = None"
  shows "ProcessInboundMessage env q a = Inl NullPointer"
proof -
  let ?r = "q\<lparr>m_msgPool := pool_put (m_msgPool q) a m\<rparr>"
  have f: "RulesEngine_Search (m_pRouterRulesEngine q) m = Inr (m, None)"
    using c(2) by (simp add: RulesEngine_Search_def)
  obtain s where "MQ_IncMsgDelivered ?r = Inr (?r\<lparr>m_pSysMetrics := s\<rparr>)" using Inc_total [of ?r] ok by auto
  then show ?thesis
    unfolding ProcessInboundMessage_def mq_get_eq [OF m] rbind.simps Let_def
    using n g by (simp add: Msg_GetNotifyAction_def mq_get_eq [OF m] if_not_P [OF c(1)] f
        mq_upd_eq [OF m] MQ_OnProcess_def del: starts_with_Cons)
qed

section \<open>A pass of the thread\<close>

lemma MQ_Run_pass_inv:
  assumes inv: "mq_inv q" and ty: "typed (m_msgPool q)" and e: "MQ_Run_pass env q = Inr (q', b)"
  shows "mq_inv q' \<and> (b \<longleftrightarrow> m_priority_queue q \<noteq> [] \<or> (\<exists>a. is_pending (m_msgPool q) a))"
proof -
  have pinv: "pool_inv (m_msgPool q)" using inv by (simp add: mq_inv_def)
  from ProcessPendingMessages_inv [OF inv ty, of "e_now env"] obtain q1 where
    q1: "ProcessPendingMessages (e_now env) q = Inr q1" "mq_inv q1" by blast
  from ProcessPendingMessages_spec [OF pinv ty, of "e_now env"] q1(1) have
    pq: "m_priority_queue q1 = m_priority_queue q @ filter (is_pending (m_msgPool q)) (m_Messages (m_msgPool q))"
    by auto
  have "(\<exists>a \<in> set (m_Messages (m_msgPool q)). is_pending (m_msgPool q) a) = (\<exists>a. is_pending (m_msgPool q) a)"
    using pinv by (auto simp: pool_inv_def is_pending_def state_of_def)
  then have ne: "m_priority_queue q1 \<noteq> [] \<longleftrightarrow> m_priority_queue q \<noteq> [] \<or> (\<exists>a. is_pending (m_msgPool q) a)"
    unfolding pq by (auto simp: filter_empty_conv)
  obtain q2 where q2: "(if m_priority_queue q1 \<noteq> []
      then rbind (ProcessPriorityQueue env q1) (\<lambda>q. Inr (q, True)) else Inr (q1, False)) = Inr (q2, b)"
    and r: "(if Timer_IsReady (e_now env) (m_timer q2)
      then rbind (MQ_FlushMessages (e_now env) q2) (\<lambda>q. Inr (q\<lparr>m_timer := Timer_Reset (e_now env) (m_timer q)\<rparr>))
      else Inr q2) = Inr q'"
    using e q1(1) by (auto simp: MQ_Run_pass_def result_simps)
  have i2: "mq_inv q2"
    using q2 q1(2) ProcessPriorityQueue_settles [OF q1(2)] by (auto simp: result_simps split: if_splits)
  have "mq_inv q'"
  proof (cases "Timer_IsReady (e_now env) (m_timer q2)")
    case True
    from MQ_FlushMessages_inv [OF i2, of "e_now env"] obtain q3 where
      "MQ_FlushMessages (e_now env) q2 = Inr q3" "mq_inv q3" by blast
    then show ?thesis using r True by auto
  qed (use r i2 in simp)
  then show ?thesis using q2 ne by (auto simp: result_simps split: if_splits)
qed

lemma MQ_Run_pass_total:
  assumes inv: "mq_inv q" and ty: "typed (m_msgPool q)"
    and ok: "IncMsgDelivered (m_pSysMetrics q) \<noteq> None"
    and s: "\<And>q1 a m. ProcessPendingMessages (e_now env) q = Inr q1 \<Longrightarrow> a \<in> set (m_priority_queue q1) \<Longrightarrow>
      m_store (m_msgPool q1) a = Some m \<Longrightarrow> serviceable q1 m"
  shows "\<exists>q' b. MQ_Run_pass env q = Inr (q', b)"
proof -
  from ProcessPendingMessages_inv [OF inv ty, of "e_now env"] obtain q1 where
    q1: "ProcessPendingMessages (e_now env) q = Inr q1" "mq_inv q1" "m_pSysMetrics q1 = m_pSysMetrics q" by blast
  have "\<exists>q2 b. (if m_priority_queue q1 \<noteq> []
      then rbind (ProcessPriorityQueue env q1) (\<lambda>q. Inr (q, True)) else Inr (q1, False)) = Inr (q2, b)"
  proof (cases "m_priority_queue q1 = []")
    case False
    let ?a = "pq_top (prio_in (m_msgPool q1)) (m_priority_queue q1)"
    have a: "?a \<in> set (m_priority_queue q1)" using False pq.top_mem by (metis mset_zero_iff set_mset_mset)
    then have "?a \<in> set (queued q1)" by (simp add: queued_def)
    then obtain m where m: "m_store (m_msgPool q1) ?a = Some m"
      using q1(2) by (auto simp: mq_inv_def state_of_def)
    have "IncMsgDelivered (m_pSysMetrics q1) \<noteq> None" using ok q1(3) by simp
    from ProcessPriorityQueue_total [OF q1(2) False m this s [OF q1(1) a m], of env]
    obtain q2 where "ProcessPriorityQueue env q1 = Inr q2" by blast
    then have "(if m_priority_queue q1 \<noteq> []
      then rbind (ProcessPriorityQueue env q1) (\<lambda>q. Inr (q, True)) else Inr (q1, False)) = Inr (q2, True)"
      using False by simp
    then show ?thesis by blast
  next
    case True
    then have "(if m_priority_queue q1 \<noteq> []
      then rbind (ProcessPriorityQueue env q1) (\<lambda>q. Inr (q, True)) else Inr (q1, False)) = Inr (q1, False)"
      by simp
    then show ?thesis by blast
  qed
  then obtain q2 b where q2: "(if m_priority_queue q1 \<noteq> []
      then rbind (ProcessPriorityQueue env q1) (\<lambda>q. Inr (q, True)) else Inr (q1, False)) = Inr (q2, b)" by blast
  have i2: "mq_inv q2"
    using q2 q1(2) ProcessPriorityQueue_settles [OF q1(2)] by (auto simp: result_simps split: if_splits)
  from MQ_FlushMessages_inv [OF i2, of "e_now env"] obtain q3 where "MQ_FlushMessages (e_now env) q2 = Inr q3" by blast
  then show ?thesis using q1(1) q2 by (simp add: MQ_Run_pass_def)
qed

end
