(* ===== verification/Base64.thy ===== *)
theory Base64
  imports BufferLaws
begin

text \<open>
  \<open>base64.h\<close> and \<open>base64.cpp\<close>: the class \<open>cBase64\<close>. \<open>Encode\<close> and \<open>Decode\<close> fill the
  object's internal buffer through a raw pointer and then replace the caller's buffer with it. The
  loops are translated with their index into that raw buffer, so that the lemmas also show that
  no write leaves it.
\<close>

section \<open>The alphabet\<close>

definition b64_alphabet :: string where
  "b64_alphabet = ''ABCDEFGHIJKLMNOPQRSTUVWXYZabcdefghijklmnopqrstuvwxyz0123456789+/'' @ [NUL]"

definition is_alnum :: "char \<Rightarrow> bool" where
  "is_alnum c \<longleftrightarrow> (CHR ''0'' \<le> c \<and> c \<le> CHR ''9'') \<or> (CHR ''A'' \<le> c \<and> c \<le> CHR ''Z'') \<or>
     (CHR ''a'' \<le> c \<and> c \<le> CHR ''z'')"

definition is_base64 :: "char \<Rightarrow> bool" where
  "is_base64 c \<longleftrightarrow> is_alnum c \<or> c = CHR ''+'' \<or> c = CHR ''/''"

text \<open>\<open>find\<close> searches all 65 characters, the NUL included.\<close>

definition b64_find :: "char \<Rightarrow> int" where
  "b64_find c = (case find_char c b64_alphabet of Some i \<Rightarrow> int i | None \<Rightarrow> -1)"

text \<open>Storing an \<open>int\<close> into an \<open>unsigned char\<close>, and the value of one.\<close>

definition uchar :: "int \<Rightarrow> int" where "uchar x = x mod 256"

definition uchar_of :: "char \<Rightarrow> int" where "uchar_of c = int (of_char c)"

definition char_of_uchar :: "int \<Rightarrow> char" where "char_of_uchar x = char_of (nat x)"

section \<open>Operations\<close>

text \<open>Three bytes to four sextets, four sextets to three bytes.\<close>

definition sextets :: "char list \<Rightarrow> int list" where
  "sextets a =
     (let a0 = uchar_of (a ! 0); a1 = uchar_of (a ! 1); a2 = uchar_of (a ! 2)
      in [uchar (drop_bit 2 (a0 AND 0xfc)),
          uchar (push_bit 4 (a0 AND 0x03) + drop_bit 4 (a1 AND 0xf0)),
          uchar (push_bit 2 (a1 AND 0x0f) + drop_bit 6 (a2 AND 0xc0)),
          uchar (a2 AND 0x3f)])"

definition b64_quad :: "char list \<Rightarrow> char list" where
  "b64_quad a = map (\<lambda>x. b64_alphabet ! nat x) (sextets a)"

definition b64_triple :: "char list \<Rightarrow> char list" where
  "b64_triple q =
     (let q0 = uchar (b64_find (q ! 0)); q1 = uchar (b64_find (q ! 1));
          q2 = uchar (b64_find (q ! 2)); q3 = uchar (b64_find (q ! 3))
      in [char_of_uchar (uchar (push_bit 2 q0 + drop_bit 4 (q1 AND 0x30))),
          char_of_uchar (uchar (push_bit 4 (q1 AND 0xf) + drop_bit 2 (q2 AND 0x3c))),
          char_of_uchar (uchar (push_bit 6 (q2 AND 0x3) + q3))])"

text \<open>The main loop and the tail of \<open>Encode\<close>; \<open>arr\<close> is \<open>char_array_3\<close> up to \<open>i\<close>.\<close>

fun b64_encode_loop ::
  "block \<Rightarrow> int \<Rightarrow> char list \<Rightarrow> string \<Rightarrow> (block \<times> int \<times> char list) result" where
  "b64_encode_loop buffer cp arr [] = Inr (buffer, cp, arr)"
| "b64_encode_loop buffer cp arr (c # cs) =
     (let arr = arr @ [c]
      in if length arr = 3
         then rbind (write_chars buffer cp (b64_quad arr)) (\<lambda>buffer.
              b64_encode_loop buffer (cp + 4) [] cs)
         else b64_encode_loop buffer cp arr cs)"

definition b64_encode_tail :: "block \<Rightarrow> int \<Rightarrow> char list \<Rightarrow> (block \<times> int) result" where
  "b64_encode_tail buffer cp arr =
     (let i = length arr
      in if i \<noteq> 0
         then rbind (write_chars buffer cp (take (i + 1) (b64_quad (arr @ replicate (3 - i) NUL))))
                (\<lambda>buffer. rbind (write_chars buffer (cp + int (i + 1)) (replicate (3 - i) (CHR ''='')))
                (\<lambda>buffer. Inr (buffer, cp + 4)))
         else Inr (buffer, cp))"

text \<open>
  \<open>Decode\<close> stops at the first character that is not in the alphabet. The bytes of a last,
  incomplete group are padded with NUL, which \<open>find\<close> turns into 64.
\<close>

fun b64_decode_loop ::
  "block \<Rightarrow> int \<Rightarrow> char list \<Rightarrow> string \<Rightarrow> (block \<times> int \<times> char list) result" where
  "b64_decode_loop buffer cp arr [] = Inr (buffer, cp, arr)"
| "b64_decode_loop buffer cp arr (c # cs) =
     (if c \<noteq> CHR ''='' \<and> is_base64 c then
        let arr = arr @ [c]
        in if length arr = 4
           then rbind (write_chars buffer cp (b64_triple arr)) (\<lambda>buffer.
                b64_decode_loop buffer (cp + 3) [] cs)
           else b64_decode_loop buffer cp arr cs
      else Inr (buffer, cp, arr))"

definition b64_decode_tail :: "block \<Rightarrow> int \<Rightarrow> char list \<Rightarrow> (block \<times> int) result" where
  "b64_decode_tail buffer cp arr =
     (let i = length arr
      in if i \<noteq> 0
         then rbind (write_chars buffer cp (take (i - 1) (b64_triple (arr @ replicate (4 - i) NUL))))
                (\<lambda>buffer. Inr (buffer, cp + int (i - 1)))
         else Inr (buffer, cp))"

text \<open>
  The two operations: the internal buffer of the object and the caller's buffer go in and come
  back. The status is always \<open>HRC_BASE64_OK\<close>.
\<close>

definition Base64_Encode :: "cBuffer \<Rightarrow> cBuffer \<Rightarrow> (cBuffer \<times> cBuffer) result" where
  "Base64_Encode internal pBuffer =
     (let in_len = Buffer_GetBufferCount pBuffer
      in rbind (mem_slice (block_of (Buffer_GetRawBuffer pBuffer)) 0 in_len) (\<lambda>src.
         rbind (mem_text src) (\<lambda>src.
         rbind (Buffer_SetBufferSize (Buffer_Reset internal) (in_len * 2)) (\<lambda>internal.
         rbind (b64_encode_loop (block_of (Buffer_GetRawBuffer internal)) 0 [] src)
           (\<lambda>(buffer, cp, arr).
         rbind (b64_encode_tail buffer cp arr) (\<lambda>(buffer, cp).
         rbind (Buffer_ReplaceWith pBuffer (Some buffer) cp) (\<lambda>(pBuffer, _).
         Inr (internal\<lparr>m_pBuffer := Some buffer\<rparr>, pBuffer))))))))"

definition Base64_Decode :: "cBuffer \<Rightarrow> cBuffer \<Rightarrow> (cBuffer \<times> cBuffer) result" where
  "Base64_Decode internal pBuffer =
     (let in_len = Buffer_GetBufferCount pBuffer
      in rbind (mem_slice (block_of (Buffer_GetRawBuffer pBuffer)) 0 in_len) (\<lambda>src.
         rbind (mem_text src) (\<lambda>src.
         rbind (Buffer_SetBufferSize (Buffer_Reset internal) in_len) (\<lambda>internal.
         rbind (b64_decode_loop (block_of (Buffer_GetRawBuffer internal)) 0 [] src)
           (\<lambda>(buffer, cp, arr).
         rbind (b64_decode_tail buffer cp arr) (\<lambda>(buffer, cp).
         rbind (Buffer_ReplaceWith pBuffer (Some buffer) cp) (\<lambda>(pBuffer, _).
         Inr (internal\<lparr>m_pBuffer := Some buffer\<rparr>, pBuffer))))))))"

section \<open>Four characters carry three bytes\<close>

lemma uchar_of_bounds: "0 \<le> uchar_of c" "uchar_of c < 256"
  by (simp_all add: uchar_of_def)

lemma char_of_uchar_of [simp]: "char_of_uchar (uchar_of c) = c"
  by (simp add: char_of_uchar_def uchar_of_def)

lemma and_masks:
  fixes x :: int
  shows "x AND 0x03 = x mod 4" "x AND 0x0f = x mod 16" "x AND 0x3f = x mod 64"
proof -
  have m: "x AND mask n = x mod 2 ^ n" for n
    by (simp add: take_bit_eq_mask [symmetric] take_bit_eq_mod)
  show "x AND 0x03 = x mod 4" using m [of 2] by (simp add: mask_eq_exp_minus_1)
  show "x AND 0x0f = x mod 16" using m [of 4] by (simp add: mask_eq_exp_minus_1)
  show "x AND 0x3f = x mod 64" using m [of 6] by (simp add: mask_eq_exp_minus_1)
qed

lemma high_bits:
  fixes x :: int
  assumes "0 \<le> x" "x < 256"
  shows "drop_bit 2 (x AND 0xfc) = x div 4" "drop_bit 4 (x AND 0xf0) = x div 16"
    "drop_bit 6 (x AND 0xc0) = x div 64"
proof -
  have m: "drop_bit 2 (x AND 0xfc) = (x div 4) AND 0x3f" "drop_bit 4 (x AND 0xf0) = (x div 16) AND 0x0f"
    "drop_bit 6 (x AND 0xc0) = (x div 64) AND 0x03"
    by (simp_all only: drop_bit_and) (simp_all add: drop_bit_eq_div)
  show "drop_bit 2 (x AND 0xfc) = x div 4" "drop_bit 4 (x AND 0xf0) = x div 16"
    "drop_bit 6 (x AND 0xc0) = x div 64"
    using assms unfolding m and_masks by simp_all
qed

lemma middle_bits:
  fixes x :: int
  assumes "0 \<le> x" "x < 64"
  shows "drop_bit 4 (x AND 0x30) = x div 16" "drop_bit 2 (x AND 0x3c) = x div 4"
proof -
  have m: "drop_bit 4 (x AND 0x30) = (x div 16) AND 0x03" "drop_bit 2 (x AND 0x3c) = (x div 4) AND 0x0f"
    by (simp_all only: drop_bit_and) (simp_all add: drop_bit_eq_div)
  show "drop_bit 4 (x AND 0x30) = x div 16" "drop_bit 2 (x AND 0x3c) = x div 4"
    using assms unfolding m and_masks by simp_all
qed

lemma sextets_eq:
  "sextets [a, b, c] =
     [uchar_of a div 4, (uchar_of a mod 4) * 16 + uchar_of b div 16,
      (uchar_of b mod 16) * 4 + uchar_of c div 64, uchar_of c mod 64]"
  using uchar_of_bounds [of a] uchar_of_bounds [of b] uchar_of_bounds [of c]
  by (simp add: sextets_def Let_def and_masks high_bits uchar_def push_bit_eq_mult
      del: drop_bit_and)

lemma sextets_range: "x \<in> set (sextets [a, b, c]) \<Longrightarrow> 0 \<le> x \<and> x < 64"
  using uchar_of_bounds [of a] uchar_of_bounds [of b] uchar_of_bounds [of c]
  by (auto simp: sextets_eq)

lemma b64_alphabet_facts:
  "\<forall>i \<in> set [0..<64]. b64_find (b64_alphabet ! i) = int i \<and> is_base64 (b64_alphabet ! i) \<and>
     b64_alphabet ! i \<noteq> CHR ''=''"
  by code_simp

lemma b64_alphabet_nth:
  assumes "0 \<le> x" "x < 64"
  shows "b64_find (b64_alphabet ! nat x) = x" "is_base64 (b64_alphabet ! nat x)"
    "b64_alphabet ! nat x \<noteq> CHR ''=''"
  using assms b64_alphabet_facts [rule_format, of "nat x"] by simp_all

lemma b64_find_NUL: "b64_find NUL = 64"
  by code_simp

lemma triple_eq:
  assumes "0 \<le> q0" "q0 < 64" "0 \<le> q1" "q1 < 64" "0 \<le> q2" "q2 < 64" "0 \<le> q3" "q3 < 64"
  shows "b64_triple (map (\<lambda>x. b64_alphabet ! nat x) [q0, q1, q2, q3]) =
    [char_of_uchar (q0 * 4 + q1 div 16), char_of_uchar ((q1 mod 16) * 16 + q2 div 4),
     char_of_uchar ((q2 mod 4) * 64 + q3)]"
  using assms
  by (simp add: b64_triple_def Let_def b64_alphabet_nth and_masks middle_bits uchar_def
      push_bit_eq_mult del: drop_bit_and)

lemma shifted_digit:
  fixes r n q :: int
  assumes "0 \<le> r" "r < n"
  shows "(q * n + r) div n = q" "(q * n + r) mod n = r"
  using assms by simp_all

lemma quad_triple: "b64_triple (b64_quad [a, b, c]) = [a, b, c]"
proof -
  let ?x = "uchar_of a" and ?y = "uchar_of b" and ?z = "uchar_of c"
  have s: "0 \<le> ?x div 4" "?x div 4 < 64" "0 \<le> (?x mod 4) * 16 + ?y div 16"
    "(?x mod 4) * 16 + ?y div 16 < 64" "0 \<le> (?y mod 16) * 4 + ?z div 64"
    "(?y mod 16) * 4 + ?z div 64 < 64" "0 \<le> ?z mod 64" "?z mod 64 < 64"
    using uchar_of_bounds [of a] uchar_of_bounds [of b] uchar_of_bounds [of c] by auto
  have r: "0 \<le> ?y div 16" "?y div 16 < 16" "0 \<le> ?z div 64" "?z div 64 < 4"
    using uchar_of_bounds [of b] uchar_of_bounds [of c] by auto
  have e: "(?x div 4) * 4 + ((?x mod 4) * 16 + ?y div 16) div 16 = ?x"
    "((?x mod 4) * 16 + ?y div 16) mod 16 * 16 + ((?y mod 16) * 4 + ?z div 64) div 4 = ?y"
    "((?y mod 16) * 4 + ?z div 64) mod 4 * 64 + ?z mod 64 = ?z"
    using r by (simp_all only: shifted_digit div_mult_mod_eq)
  show ?thesis
    unfolding b64_quad_def sextets_eq triple_eq [OF s] e char_of_uchar_of ..
qed

lemma length_b64_quad [simp]: "length (b64_quad a) = 4"
  by (simp add: b64_quad_def sextets_def Let_def)

lemma length_b64_triple [simp]: "length (b64_triple a) = 3"
  by (simp add: b64_triple_def Let_def)

lemma b64_quad_chars:
  "x \<in> set (b64_quad [a, b, c]) \<Longrightarrow> is_base64 x \<and> x \<noteq> CHR ''=''"
  using sextets_range b64_alphabet_nth(2,3) by (auto simp: b64_quad_def)

section \<open>What Encode produces\<close>

fun b64 :: "string \<Rightarrow> string" where
  "b64 (a # b # c # s) = b64_quad [a, b, c] @ b64 s"
| "b64 [a, b] = take 3 (b64_quad [a, b, NUL]) @ ''=''"
| "b64 [a] = take 2 (b64_quad [a, NUL, NUL]) @ ''==''"
| "b64 [] = []"

lemma length_b64: "length (b64 s) = 4 * ((length s + 2) div 3)"
proof (induction s rule: b64.induct)
  case (1 a b c s)
  have "(length (a # b # c # s) + 2) div 3 = Suc ((length s + 2) div 3)" by simp
  then show ?case using 1 by simp
qed simp_all

lemma b64_chars_not_NUL: "NUL \<notin> set (b64 s)"
proof -
  have "\<not> is_base64 NUL" by code_simp
  then have q: "NUL \<notin> set (b64_quad [a, b, c])" for a b c using b64_quad_chars by blast
  then have "NUL \<notin> set (take n (b64_quad [a, b, c]))" for n a b c by (meson in_set_takeD)
  with q show ?thesis by (induction s rule: b64.induct) auto
qed

text \<open>The two halves of \<open>Encode\<close> write exactly \<open>b64 s\<close> from the index on.\<close>

lemma write_two:
  "i + length s + length t \<le> length blk \<Longrightarrow>
     rbind (write_chars blk (int i) s) (\<lambda>blk. write_chars blk (int i + int (length s)) t) =
     write_chars blk (int i) (s @ t)"
proof (induction s arbitrary: blk i)
  case Nil
  then show ?case by simp
next
  case (Cons c s)
  then show ?case using Cons.IH [of "Suc i" "blk[i := Some c]"]
    by (simp add: mem_write_def add.commute add.left_commute)
qed

lemma encode_bytes:
  "i + length (b64 s) \<le> length blk \<Longrightarrow>
     rbind (b64_encode_loop blk (int i) [] s) (\<lambda>(blk, cp, arr). b64_encode_tail blk cp arr) =
     Inr (take i blk @ map Some (b64 s) @ drop (i + length (b64 s)) blk, int (i + length (b64 s)))"
proof (induction s arbitrary: blk i rule: b64.induct)
  case (1 a b c s)
  let ?q = "b64_quad [a, b, c]"
  let ?blk = "take i blk @ map Some ?q @ drop (i + 4) blk"
  have w: "write_chars blk (int i) ?q = Inr ?blk"
    using "1.prems" by (subst write_chars_Inr) simp_all
  have "i + 4 + length (b64 s) \<le> length ?blk" using "1.prems" by simp
  from "1.IH" [OF this] have "rbind (b64_encode_loop ?blk (int i + 4) [] s)
      (\<lambda>(blk, cp, arr). b64_encode_tail blk cp arr) =
    Inr (take (i + 4) ?blk @ map Some (b64 s) @ drop (i + 4 + length (b64 s)) ?blk,
         int (i + 4 + length (b64 s)))" by (simp add: add.commute)
  moreover have "take (i + 4) ?blk = take i blk @ map Some ?q"
    using "1.prems" by simp
  moreover have "drop (i + 4 + length (b64 s)) ?blk = drop (i + length (b64 (a # b # c # s))) blk"
    using "1.prems" by (simp add: ac_simps)
  ultimately show ?case using w by (simp add: add.assoc)
next
  case (2 a b)
  let ?q = "take 3 (b64_quad [a, b, NUL])"
  have "rbind (write_chars blk (int i) ?q) (\<lambda>blk. write_chars blk (int i + 3) ''='') =
      write_chars blk (int i) (?q @ ''='')"
    using write_two [of i ?q "''=''" blk] "2.prems" by simp
  also have "\<dots> = Inr (take i blk @ map Some (?q @ ''='') @ drop (i + 4) blk)"
    using "2.prems" by (subst write_chars_Inr) simp_all
  finally show ?case by (auto simp: b64_encode_tail_def result_simps numeral_eq_Suc)
next
  case (3 a)
  let ?q = "take 2 (b64_quad [a, NUL, NUL])"
  have "rbind (write_chars blk (int i) ?q) (\<lambda>blk. write_chars blk (int i + 2) ''=='') =
      write_chars blk (int i) (?q @ ''=='')"
    using write_two [of i ?q "''==''" blk] "3.prems" by simp
  also have "\<dots> = Inr (take i blk @ map Some (?q @ ''=='') @ drop (i + 4) blk)"
    using "3.prems" by (subst write_chars_Inr) simp_all
  finally show ?case by (auto simp: b64_encode_tail_def result_simps numeral_eq_Suc)
next
  case 4
  then show ?case by (simp add: b64_encode_tail_def)
qed

section \<open>Decode takes it back\<close>

lemma quad_cases:
  obtains w x y z where "b64_quad [a, b, c] = [w, x, y, z]"
    "\<And>u. u \<in> {w, x, y, z} \<Longrightarrow> is_base64 u \<and> u \<noteq> CHR ''=''"
proof -
  have "\<exists>w x y z. b64_quad [a, b, c] = [w, x, y, z]"
    by (simp add: b64_quad_def sextets_def Let_def)
  then obtain w x y z where q: "b64_quad [a, b, c] = [w, x, y, z]" by blast
  show thesis using that [OF q] b64_quad_chars [of _ a b c] q by simp
qed

lemma triple_two: "take 2 (b64_triple [w, x, y, z]) = take 2 (b64_triple [w, x, y, z'])"
  and triple_one: "take 1 (b64_triple [w, x, y, z]) = take 1 (b64_triple [w, x, y', z'])"
  by (simp_all add: b64_triple_def Let_def)

lemma decode_bytes:
  "i + length s \<le> length blk \<Longrightarrow>
     rbind (b64_decode_loop blk (int i) [] (b64 s)) (\<lambda>(blk, cp, arr). b64_decode_tail blk cp arr) =
     Inr (take i blk @ map Some s @ drop (i + length s) blk, int (i + length s))"
proof (induction s arbitrary: blk i rule: b64.induct)
  case (1 a b c s)
  obtain w x y z where q: "b64_quad [a, b, c] = [w, x, y, z]"
    and ok: "\<And>u. u \<in> {w, x, y, z} \<Longrightarrow> is_base64 u \<and> u \<noteq> CHR ''=''"
    using quad_cases [of a b c] by blast
  have t: "b64_triple [w, x, y, z] = [a, b, c]" using quad_triple [of a b c] q by simp
  let ?blk = "take i blk @ map Some [a, b, c] @ drop (i + 3) blk"
  have wr: "write_chars blk (int i) [a, b, c] = Inr ?blk"
    using "1.prems" by (subst write_chars_Inr) (simp_all add: numeral_eq_Suc)
  have "i + 3 + length s \<le> length ?blk" using "1.prems" by simp
  from "1.IH" [OF this] have "rbind (b64_decode_loop ?blk (int i + 3) [] (b64 s))
      (\<lambda>(blk, cp, arr). b64_decode_tail blk cp arr) =
    Inr (take (i + 3) ?blk @ map Some s @ drop (i + 3 + length s) ?blk, int (i + 3 + length s))"
    by (simp add: add.commute)
  moreover have "take (i + 3) ?blk = take i blk @ map Some [a, b, c]" using "1.prems" by simp
  moreover have "drop (i + 3 + length s) ?blk = drop (i + length (a # b # c # s)) blk"
    using "1.prems" by (simp add: ac_simps numeral_eq_Suc)
  ultimately show ?case using wr t ok q by (simp add: Let_def)
next
  case (2 a b)
  obtain w x y z where q: "b64_quad [a, b, NUL] = [w, x, y, z]"
    and ok: "\<And>u. u \<in> {w, x, y, z} \<Longrightarrow> is_base64 u \<and> u \<noteq> CHR ''=''"
    using quad_cases [of a b NUL] by blast
  have "take 2 (b64_triple [w, x, y, NUL]) = [a, b]"
    using quad_triple [of a b NUL] q triple_two [of w x y NUL z] by simp
  moreover have "write_chars blk (int i) [a, b] = Inr (take i blk @ map Some [a, b] @ drop (i + 2) blk)"
    using "2.prems" by (subst write_chars_Inr) (simp_all add: numeral_eq_Suc)
  ultimately show ?case using ok q by (simp add: Let_def b64_decode_tail_def numeral_2_eq_2)
next
  case (3 a)
  obtain w x y z where q: "b64_quad [a, NUL, NUL] = [w, x, y, z]"
    and ok: "\<And>u. u \<in> {w, x, y, z} \<Longrightarrow> is_base64 u \<and> u \<noteq> CHR ''=''"
    using quad_cases [of a NUL NUL] by blast
  have "take 1 (b64_triple [w, x, NUL, NUL]) = [a]"
    using quad_triple [of a NUL NUL] q triple_one [of w x NUL NUL y z] by simp
  moreover have "write_chars blk (int i) [a] = Inr (take i blk @ map Some [a] @ drop (i + 1) blk)"
    using "3.prems" by (subst write_chars_Inr) simp_all
  ultimately show ?case using ok q by (simp add: Let_def b64_decode_tail_def numeral_2_eq_2)
next
  case 4
  then show ?case by (simp add: b64_decode_tail_def)
qed

section \<open>The operations on buffers\<close>

text \<open>
  The internal buffer starts empty and is reused from call to call: it never has less than the four
  bytes that a last group needs.
\<close>

definition internal_ok :: "cBuffer \<Rightarrow> bool" where
  "internal_ok b \<longleftrightarrow> buf_wf b \<and> (m_pBuffer b = None \<or> 4 \<le> m_iBufferSize b)"

lemma internal_ok_new: "internal_ok new_cBuffer"
  using holds_wf [OF holds_new] by (simp add: internal_ok_def new_cBuffer_def)

lemma SetBufferSize_size:
  "Buffer_SetBufferSize b n = Inr c \<Longrightarrow> m_pBuffer b = None \<or> 4 \<le> m_iBufferSize b \<Longrightarrow> 0 \<le> n \<Longrightarrow>
     4 \<le> m_iBufferSize c"
  using AdjustSize_grows [of n b]
  by (auto simp: Buffer_SetBufferSize_def Let_def result_simps sizeof_long_def
      split: option.splits if_splits)

lemma internal_room:
  assumes ok: "internal_ok b" and n: "0 \<le> n"
  shows "\<exists>c blk. Buffer_SetBufferSize (Buffer_Reset b) n = Inr c \<and> m_pBuffer c = Some blk \<and>
           holds c [] \<and> n < int (length blk) \<and> 4 \<le> int (length blk) \<and> 4 \<le> m_iBufferSize c"
proof -
  have h: "holds (Buffer_Reset b) []"
    using ok wf_holds holds_Reset unfolding internal_ok_def by blast
  from SetBufferSize_holds [OF h n] obtain c where
    c: "Buffer_SetBufferSize (Buffer_Reset b) n = Inr c" "holds c []" "m_pBuffer c \<noteq> None"
      "n < m_iBufferSize c" by auto
  then obtain blk where blk: "m_pBuffer c = Some blk" by auto
  with c(2) have "m_iBufferSize c \<le> int (length blk)" by (auto elim!: holds_SomeE)
  moreover have "4 \<le> m_iBufferSize c"
    using SetBufferSize_size [OF c(1) _ n] ok by (simp add: internal_ok_def Buffer_Reset_def)
  ultimately show ?thesis using c blk by auto
qed

lemma written_internal_ok:
  assumes "holds c []" "m_pBuffer c = Some blk" "length blk' = length blk" "4 \<le> m_iBufferSize c"
  shows "internal_ok (c\<lparr>m_pBuffer := Some blk'\<rparr>)"
proof -
  have "holds (c\<lparr>m_pBuffer := Some blk'\<rparr>) []"
    using assms by (auto elim!: holds_SomeE intro!: holds_SomeI [where rest = blk'])
  then show ?thesis using assms(4) by (simp add: internal_ok_def holds_wf)
qed

text \<open>What remains to do once the bytes are in the internal buffer.\<close>

lemma replace_from_internal:
  assumes h: "holds b s" and blk: "take (length t) blk = map Some t"
  shows "\<exists>b'. rbind (Buffer_ReplaceWith b (Some blk) (int (length t))) (\<lambda>(b, _). Inr (i, b)) = Inr (i, b') \<and>
           holds b' t"
  using ReplaceWith_holds [OF h blk refl] by auto

lemma Encode_holds:
  assumes ok: "internal_ok ib" and h: "holds b s"
  shows "\<exists>ib' b'. Base64_Encode ib b = Inr (ib', b') \<and> internal_ok ib' \<and> holds b' (b64 s)"
proof -
  have t: "m_iTail b = int (length s)" by (rule holds_tail [OF h])
  have "0 \<le> int (length s) * 2" by simp
  from internal_room [OF ok this] obtain c blk where
    c: "Buffer_SetBufferSize (Buffer_Reset ib) (int (length s) * 2) = Inr c" "m_pBuffer c = Some blk"
      "holds c []" "int (length s) * 2 < int (length blk)" "4 \<le> int (length blk)" "4 \<le> m_iBufferSize c"
    by blast
  have room: "0 + length (b64 s) \<le> length blk"
  proof -
    have "4 * ((length s + 2) div 3) \<le> max 4 (2 * length s)" by presburger
    then show ?thesis using c(4,5) by (simp add: length_b64)
  qed
  let ?blk = "map Some (b64 s) @ drop (length (b64 s)) blk"
  from encode_bytes [OF room] have e: "rbind (b64_encode_loop blk 0 [] s)
      (\<lambda>(blk, cp, arr). b64_encode_tail blk cp arr) = Inr (?blk, int (length (b64 s)))" by simp
  from replace_from_internal [OF h, of "b64 s" ?blk "c\<lparr>m_pBuffer := Some ?blk\<rparr>"] obtain b' where
    b': "rbind (Buffer_ReplaceWith b (Some ?blk) (int (length (b64 s))))
        (\<lambda>(b, _). Inr (c\<lparr>m_pBuffer := Some ?blk\<rparr>, b)) = Inr (c\<lparr>m_pBuffer := Some ?blk\<rparr>, b')"
      "holds b' (b64 s)" by auto
  have src: "mem_slice (block_of (m_pBuffer b)) 0 (int (length s)) = Inr (map Some s)"
    using contents_slice [OF h] t by simp
  have "Base64_Encode ib b = Inr (c\<lparr>m_pBuffer := Some ?blk\<rparr>, b')"
    using e b'(1) c(1,2) src t
    by (auto simp: Base64_Encode_def Buffer_GetBufferCount_def Buffer_GetRawBuffer_def block_of_def
        result_simps split: prod.splits)
  moreover have "internal_ok (c\<lparr>m_pBuffer := Some ?blk\<rparr>)"
    using room c by (intro written_internal_ok) auto
  ultimately show ?thesis using b'(2) by blast
qed

lemma Decode_holds:
  assumes ok: "internal_ok ib" and h: "holds b (b64 s)"
  shows "\<exists>ib' b'. Base64_Decode ib b = Inr (ib', b') \<and> internal_ok ib' \<and> holds b' s"
proof -
  have t: "m_iTail b = int (length (b64 s))" by (rule holds_tail [OF h])
  have "0 \<le> int (length (b64 s))" by simp
  from internal_room [OF ok this] obtain c blk where
    c: "Buffer_SetBufferSize (Buffer_Reset ib) (int (length (b64 s))) = Inr c" "m_pBuffer c = Some blk"
      "holds c []" "int (length (b64 s)) < int (length blk)" "4 \<le> m_iBufferSize c"
    by blast
  have "length s \<le> length (b64 s)" unfolding length_b64 by presburger
  then have room: "0 + length s \<le> length blk" using c(4) by simp
  let ?blk = "map Some s @ drop (length s) blk"
  from decode_bytes [OF room] have e: "rbind (b64_decode_loop blk 0 [] (b64 s))
      (\<lambda>(blk, cp, arr). b64_decode_tail blk cp arr) = Inr (?blk, int (length s))" by simp
  from replace_from_internal [OF h, of s ?blk "c\<lparr>m_pBuffer := Some ?blk\<rparr>"] obtain b' where
    b': "rbind (Buffer_ReplaceWith b (Some ?blk) (int (length s)))
        (\<lambda>(b, _). Inr (c\<lparr>m_pBuffer := Some ?blk\<rparr>, b)) = Inr (c\<lparr>m_pBuffer := Some ?blk\<rparr>, b')"
      "holds b' s" by auto
  have src: "mem_slice (block_of (m_pBuffer b)) 0 (int (length (b64 s))) = Inr (map Some (b64 s))"
    using contents_slice [OF h] t by simp
  have "Base64_Decode ib b = Inr (c\<lparr>m_pBuffer := Some ?blk\<rparr>, b')"
    using e b'(1) c(1,2) src t
    by (auto simp: Base64_Decode_def Buffer_GetBufferCount_def Buffer_GetRawBuffer_def block_of_def
        result_simps split: prod.splits)
  moreover have "internal_ok (c\<lparr>m_pBuffer := Some ?blk\<rparr>)"
    using room c by (intro written_internal_ok) auto
  ultimately show ?thesis using b'(2) by blast
qed

end
