(* ===== verification/KeyValue.thy ===== *)
theory KeyValue
  imports StdMap Base64
begin

section \<open>Tuples\<close>

text \<open>
  \<open>tuples.h\<close> and \<open>tuples.cpp\<close>: the class \<open>cTuples\<close>, a map of strings that is filled
  from and written to the text form \<open>key|value|key|value|\<close>. The stream is taken apart with
  \<open>strtok\<close>, which skips empty tokens.
\<close>

type_synonym cTuples = "(string, string) smap"

definition Tuples_Query :: "cTuples \<Rightarrow> string \<Rightarrow> string option" where
  "Tuples_Query m pKey = map_option cstr (smap_find m (cstr pKey))"

definition Tuples_AddTuple :: "cTuples \<Rightarrow> string \<Rightarrow> string \<Rightarrow> cTuples" where
  "Tuples_AddTuple m pKey pValue =
     (case smap_find m pKey of
        None \<Rightarrow> smap_insert pKey pValue m
      | Some _ \<Rightarrow> smap_put pKey pValue m)"

function tuples_loop :: "cTuples \<Rightarrow> string \<Rightarrow> string \<Rightarrow> cTuples" where
  "tuples_loop m pToken1 rest =
     (case strtok ''|'' rest of
        None \<Rightarrow> m
      | Some (pToken2, rest) \<Rightarrow>
          let m = Tuples_AddTuple m pToken1 pToken2
          in (case strtok ''|'' rest of
                None \<Rightarrow> m
              | Some (pToken1, rest) \<Rightarrow> tuples_loop m pToken1 rest))"
  by pat_completeness auto
termination
  by (relation "measure (\<lambda>(m, t, rest). length rest)")
    (auto dest!: strtok_length)

declare tuples_loop.simps [simp del]

definition Tuples_AddTupleStream :: "cTuples \<Rightarrow> string \<Rightarrow> cTuples" where
  "Tuples_AddTupleStream m pstring =
     (case strtok ''|'' (cstr pstring) of
        None \<Rightarrow> m
      | Some (pToken1, rest) \<Rightarrow> tuples_loop m pToken1 rest)"

definition Tuples_GetTupleStream :: "cTuples \<Rightarrow> string" where
  "Tuples_GetTupleStream m = concat (map (\<lambda>(k, v). k @ ''|'' @ v @ ''|'') m)"

section \<open>Streams\<close>

definition plain_token :: "string \<Rightarrow> bool" where
  "plain_token t \<longleftrightarrow> t \<noteq> [] \<and> CHR ''|'' \<notin> set t \<and> NUL \<notin> set t"

lemma AddTuple_put: "Tuples_AddTuple m k v = smap_put k v m"
  by (simp add: Tuples_AddTuple_def smap_insert_def split: option.split)

lemma strtok_plain: "plain_token t \<Longrightarrow> strtok ''|'' (t @ CHR ''|'' # r) = Some (t, r)"
  by (rule strtok_token) (auto simp: plain_token_def)

lemma stream_Nil: "Tuples_GetTupleStream [] = []"
  by (simp add: Tuples_GetTupleStream_def)

lemma stream_Cons:
  "Tuples_GetTupleStream ((k, v) # kvs) = k @ CHR ''|'' # v @ CHR ''|'' # Tuples_GetTupleStream kvs"
  by (simp add: Tuples_GetTupleStream_def)

lemma tuples_loop_stream:
  "plain_token k \<Longrightarrow> plain_token v \<Longrightarrow>
   \<forall>(k, v) \<in> set kvs. plain_token k \<and> plain_token v \<Longrightarrow>
     tuples_loop m k (v @ CHR ''|'' # Tuples_GetTupleStream kvs) =
       fold (\<lambda>(k, v). smap_put k v) ((k, v) # kvs) m"
proof (induction kvs arbitrary: m k v)
  case Nil
  then show ?case
    by (subst tuples_loop.simps) (simp add: Let_def strtok_plain AddTuple_put stream_Nil)
next
  case (Cons kv kvs)
  obtain k' v' where kv: "kv = (k', v')" by (cases kv)
  have ok: "plain_token k'" "plain_token v'" using Cons.prems(3) kv by auto
  show ?case
    using Cons.IH [OF ok, of "smap_put k v m"] Cons.prems ok kv
    by (subst tuples_loop.simps) (simp add: Let_def stream_Cons strtok_plain AddTuple_put)
qed

lemma stream_no_NUL:
  "\<forall>(k, v) \<in> set kvs. plain_token k \<and> plain_token v \<Longrightarrow> NUL \<notin> set (Tuples_GetTupleStream kvs)"
proof (induction kvs)
  case Nil
  then show ?case by (simp add: stream_Nil)
next
  case (Cons kv kvs)
  then show ?case by (cases kv) (simp add: stream_Cons plain_token_def)
qed

lemma AddTupleStream_stream:
  assumes "\<forall>(k, v) \<in> set kvs. plain_token k \<and> plain_token v"
  shows "Tuples_AddTupleStream m (Tuples_GetTupleStream kvs) = fold (\<lambda>(k, v). smap_put k v) kvs m"
proof (cases kvs)
  case Nil
  then show ?thesis by (simp add: Tuples_AddTupleStream_def stream_Nil)
next
  case (Cons kv kvs')
  obtain k v where kv: "kv = (k, v)" by (cases kv)
  have ok: "plain_token k" "plain_token v" "\<forall>(k, v) \<in> set kvs'. plain_token k \<and> plain_token v"
    using assms kv Cons by auto
  have "cstr (Tuples_GetTupleStream kvs) = Tuples_GetTupleStream kvs"
    using stream_no_NUL [OF assms] by (rule cstr_id)
  then show ?thesis using tuples_loop_stream [OF ok] ok kv Cons
    by (simp add: Tuples_AddTupleStream_def strtok_plain stream_Cons)
qed

section \<open>Keys and values\<close>

text \<open>
  \<open>keyvalue.h\<close> and \<open>keyvalue.cpp\<close>: the class \<open>cKeyValue\<close>, a map from strings to
  buffers with a text form \<open>key|value|\<close> in which the values are Base64 by default. The map
  owns its buffers, so an entry is the buffer itself.
\<close>

type_synonym cKeyValue = "(string, cBuffer) smap"

section \<open>Operations\<close>

definition KeyValue_Reset :: "cKeyValue \<Rightarrow> cKeyValue" where
  "KeyValue_Reset m = []"

definition KeyValue_Set :: "cKeyValue \<Rightarrow> string \<Rightarrow> block option \<Rightarrow> int \<Rightarrow> cKeyValue result" where
  "KeyValue_Set m pKey pValue iLength =
     (case smap_find m pKey of
        None \<Rightarrow>
          rbind (Buffer_ReplaceWith new_cBuffer pValue iLength) (\<lambda>(b, _). Inr (smap_insert pKey b m))
      | Some b \<Rightarrow>
          rbind (Buffer_ReplaceWith b pValue iLength) (\<lambda>(b, _). Inr (smap_put pKey b m)))"

definition KeyValue_Get :: "cKeyValue \<Rightarrow> string \<Rightarrow> cBuffer \<Rightarrow> (cKeyValue \<times> cBuffer) result" where
  "KeyValue_Get m pKey buffer =
     (case smap_find m pKey of
        Some b \<Rightarrow>
          rbind (Buffer_GetBuffer b) (\<lambda>(b, p).
          rbind (Buffer_ReplaceWith buffer p (Buffer_GetBufferCount b)) (\<lambda>(buffer, _).
          Inr (smap_put pKey b m, buffer)))
      | None \<Rightarrow> Inr (m, Buffer_Reset buffer))"

definition KeyValue_Count :: "cKeyValue \<Rightarrow> int" where
  "KeyValue_Count m = int (length m)"

text \<open>\<open>GetStream\<close>: reading an entry as a C string terminates its block, so the entries come back.\<close>

fun kv_stream_loop ::
  "bool \<Rightarrow> cBuffer \<Rightarrow> string \<Rightarrow> cKeyValue \<Rightarrow> (cKeyValue \<times> string) result" where
  "kv_stream_loop bEncode temp sBuffer [] = Inr ([], sBuffer)"
| "kv_stream_loop bEncode temp sBuffer ((k, b) # m) =
     rbind (Buffer_GetBuffer b) (\<lambda>(b, p).
     rbind (Buffer_ReplaceWith temp p (Buffer_GetBufferCount b)) (\<lambda>(temp, _).
     rbind (if bEncode then rbind (Base64_Encode new_cBuffer temp) (\<lambda>(_, temp). Inr temp)
            else Inr temp) (\<lambda>temp.
     rbind (Buffer_GetBuffer temp) (\<lambda>(temp, p).
     rbind (mem_slice (block_of p) 0 (Buffer_GetBufferCount temp)) (\<lambda>cells.
     rbind (mem_text cells) (\<lambda>text.
     rbind (kv_stream_loop bEncode temp (sBuffer @ k @ ''|'' @ text @ ''|'') m) (\<lambda>(m, s).
     Inr ((k, b) # m, s))))))))"

definition KeyValue_GetStream ::
  "cKeyValue \<Rightarrow> string \<Rightarrow> bool \<Rightarrow> (cKeyValue \<times> string) result" where
  "KeyValue_GetStream m sBuffer bEncode = kv_stream_loop bEncode new_cBuffer sBuffer m"

text \<open>The loop of \<open>Parse\<close> moves from one bar to the next, so it ends.\<close>

lemma find_char_loop_range:
  "find_char_loop blk c i tail = Inr r \<Longrightarrow> r = -1 \<or> (i \<le> r \<and> r < tail)"
proof (induction blk c i tail rule: find_char_loop.induct)
  case (1 blk c i tail)
  show ?case
  proof (cases "i < tail")
    case False
    then show ?thesis using "1.prems" by (subst (asm) find_char_loop.simps) simp
  next
    case True
    then obtain x where x: "mem_read blk i = Inr x" "(if x = c then Inr i
        else find_char_loop blk c (i + 1) tail) = Inr r"
      using "1.prems" by (subst (asm) find_char_loop.simps) (auto simp: result_simps)
    show ?thesis
    proof (cases "x = c")
      case True
      then show ?thesis using x(2) \<open>i < tail\<close> by simp
    next
      case False
      then show ?thesis using x "1.IH" [OF \<open>i < tail\<close> x(1) False] by auto
    qed
  qed
qed

lemma GetBuffer_tail: "Buffer_GetBuffer b = Inr (b', p) \<Longrightarrow> m_iTail b' = m_iTail b"
  by (auto simp: Buffer_GetBuffer_def result_simps split: option.splits)

function kv_parse_loop ::
  "bool \<Rightarrow> cKeyValue \<Rightarrow> cBuffer \<Rightarrow> string \<Rightarrow> bool \<Rightarrow> int \<Rightarrow> int \<Rightarrow> cKeyValue result" where
  "kv_parse_loop bEncoded m buffer sKey value mark idx =
     rbind (Buffer_FindChar buffer (CHR ''|'') idx) (\<lambda>idx'.
       if idx' = -1 then Inr m
       else
         rbind (Buffer_GetBuffer buffer) (\<lambda>(buffer', p).
           if \<not> value then
             rbind (mem_slice (block_of p) mark (idx' - mark)) (\<lambda>cells.
             rbind (mem_text cells) (\<lambda>text.
             kv_parse_loop bEncoded m buffer' (sKey @ text) True (idx' + 1) (idx' + 1)))
           else
             rbind (Buffer_ReplaceWith new_cBuffer (map_option (drop (nat mark)) p) (idx' - mark))
               (\<lambda>(b, _).
             rbind (if bEncoded then rbind (Base64_Decode new_cBuffer b) (\<lambda>(_, b). Inr b) else Inr b)
               (\<lambda>b.
             rbind (Buffer_GetBuffer b) (\<lambda>(b, q).
             rbind (KeyValue_Set m (cstr sKey) q (Buffer_GetBufferCount b)) (\<lambda>m.
             kv_parse_loop bEncoded m buffer' [] False (idx' + 1) (idx' + 1)))))))"
  by pat_completeness auto
termination
proof (relation "measure (\<lambda>(e, m, b, k, v, mark, idx). nat (m_iTail b - idx))", goal_cases)
  case 1
  then show ?case by simp
next
  case (2 e m b k v mark idx r x b' p cells tx)
  from 2(1) have "r = -1 \<or> (idx \<le> r \<and> r < m_iTail b)"
    unfolding Buffer_FindChar_def by (rule find_char_loop_range)
  then show ?case using 2 GetBuffer_tail [of b b' p] by auto
next
  case (3 e m b k v mark idx r x b' p y c d c' z f g m')
  from 3(1) have "r = -1 \<or> (idx \<le> r \<and> r < m_iTail b)"
    unfolding Buffer_FindChar_def by (rule find_char_loop_range)
  then show ?case using 3 GetBuffer_tail [of b b' p] by auto
qed

declare kv_parse_loop.simps [simp del]

definition KeyValue_Parse ::
  "cKeyValue \<Rightarrow> block option \<Rightarrow> int \<Rightarrow> bool \<Rightarrow> cKeyValue result" where
  "KeyValue_Parse m pStream iLength bEncoded =
     rbind (Buffer_ReplaceWith new_cBuffer pStream iLength) (\<lambda>(buffer, _).
     kv_parse_loop bEncoded m buffer [] False 0 0)"

section \<open>Maps of contents\<close>

text \<open>The bytes behind a pointer: enough of them for a copy of \<open>s\<close>.\<close>

definition gives :: "block option \<Rightarrow> string \<Rightarrow> bool" where
  "gives p s \<longleftrightarrow> (case p of None \<Rightarrow> s = [] | Some d \<Rightarrow> take (length s) d = map Some s)"

lemma ReplaceWith_gives:
  assumes "holds b t" "gives p s"
  shows "\<exists>b' rc. Buffer_ReplaceWith b p (int (length s)) = Inr (b', rc) \<and> holds b' s"
proof (cases p)
  case None
  then show ?thesis using assms holds_Reset [OF assms(1)]
    by (simp add: gives_def Buffer_ReplaceWith_def)
next
  case (Some d)
  then show ?thesis using assms ReplaceWith_holds [OF assms(1), of "length s" d s]
    by (auto simp: gives_def)
qed

lemma GetBuffer_gives:
  assumes h: "holds b s"
  shows "\<exists>b' p. Buffer_GetBuffer b = Inr (b', p) \<and> holds b' s \<and> gives p s \<and>
    (\<forall>i n. i + n \<le> length s \<longrightarrow>
       mem_slice (block_of p) (int i) (int n) = Inr (map Some (take n (drop i s))) \<and>
       gives (map_option (drop i) p) (take n (drop i s)))"
proof (cases "m_pBuffer b = None")
  case True
  then have "s = []" using h by (simp add: holds_None)
  then show ?thesis using True h
    by (simp add: Buffer_GetBuffer_def gives_def mem_slice_def)
next
  case False
  from GetBuffer_holds [OF h this] obtain b' rest where
    b': "Buffer_GetBuffer b = Inr (b', Some (map Some s @ Some NUL # rest))" "holds b' s" by blast
  have "mem_slice (map Some s @ Some NUL # rest) (int i) (int n) =
      Inr (map Some (take n (drop i s)))" if "i + n \<le> length s" for i n
    using that by (subst mem_slice_Inr) (simp_all add: drop_map take_map)
  moreover have "take (length (take n (drop i s))) (drop i (map Some s @ Some NUL # rest)) =
      map Some (take n (drop i s))" if "i + n \<le> length s" for i n
    using that by (simp add: drop_map take_map)
  ultimately show ?thesis using b' by (simp add: gives_def block_of_def)
qed

definition kv_rep :: "cKeyValue \<Rightarrow> (string, string) smap \<Rightarrow> bool" where
  "kv_rep m a \<longleftrightarrow> list_all2 (\<lambda>(k, b) (k', s). k = k' \<and> holds b s) m a"

lemma kv_rep_Nil [simp]: "kv_rep [] a \<longleftrightarrow> a = []"
  by (simp add: kv_rep_def)

lemma kv_rep_Cons: "kv_rep ((k, b) # m) a \<longleftrightarrow> (\<exists>s a'. a = (k, s) # a' \<and> holds b s \<and> kv_rep m a')"
  by (auto simp: kv_rep_def list_all2_Cons1)

lemma kv_rep_put: "kv_rep m a \<Longrightarrow> holds b s \<Longrightarrow> kv_rep (smap_put k b m) (smap_put k s a)"
proof (induction m arbitrary: a)
  case Nil
  then show ?case by (simp add: kv_rep_Cons)
next
  case (Cons kb m)
  then show ?case by (cases kb) (auto simp: kv_rep_Cons)
qed

lemma smap_find_Cons: "smap_find ((k', v) # m) k = (if k = k' then Some v else smap_find m k)"
  by (simp add: smap_find_def)

lemma kv_rep_find:
  "kv_rep m a \<Longrightarrow> (case smap_find m k of None \<Rightarrow> smap_find a k = None
     | Some b \<Rightarrow> \<exists>s. smap_find a k = Some s \<and> holds b s)"
proof (induction m arbitrary: a)
  case Nil
  then show ?case by (simp add: smap_find_def)
next
  case (Cons kb m)
  obtain k' b where kb: "kb = (k', b)" by (cases kb)
  with Cons.prems obtain s a' where a: "a = (k', s) # a'" "holds b s" "kv_rep m a'"
    by (auto simp: kv_rep_Cons)
  show ?case using Cons.IH [OF a(3)] a kb by (cases "smap_find m k") (simp_all add: smap_find_Cons)
qed

lemma Set_rep:
  assumes m: "kv_rep m a" and p: "gives p s"
  shows "\<exists>m'. KeyValue_Set m k p (int (length s)) = Inr m' \<and> kv_rep m' (smap_put k s a)"
proof (cases "smap_find m k")
  case None
  from ReplaceWith_gives [OF holds_new p] obtain b rc where
    b: "Buffer_ReplaceWith new_cBuffer p (int (length s)) = Inr (b, rc)" "holds b s" by auto
  then show ?thesis using None kv_rep_put [OF m b(2)]
    by (simp add: KeyValue_Set_def smap_insert_def)
next
  case (Some c)
  then obtain t where "holds c t" using kv_rep_find [OF m, of k] by auto
  from ReplaceWith_gives [OF this p] obtain b rc where
    b: "Buffer_ReplaceWith c p (int (length s)) = Inr (b, rc)" "holds b s" by auto
  then show ?thesis using Some kv_rep_put [OF m b(2)] by (simp add: KeyValue_Set_def)
qed

lemma Get_rep:
  assumes m: "kv_rep m a" and b: "holds b t"
  shows "\<exists>m' b'. KeyValue_Get m k b = Inr (m', b') \<and> kv_rep m' (case smap_find a k of None \<Rightarrow> a | Some s \<Rightarrow> smap_put k s a) \<and>
    holds b' (case smap_find a k of None \<Rightarrow> [] | Some s \<Rightarrow> s)"
proof (cases "smap_find m k")
  case None
  then show ?thesis using kv_rep_find [OF m, of k] m holds_Reset [OF b]
    by (simp add: KeyValue_Get_def)
next
  case (Some c)
  then obtain s where s: "smap_find a k = Some s" "holds c s" using kv_rep_find [OF m, of k] by auto
  from GetBuffer_gives [OF s(2)] obtain c' p where
    c': "Buffer_GetBuffer c = Inr (c', p)" "holds c' s" "gives p s" by blast
  from ReplaceWith_gives [OF b c'(3)] obtain b' rc where
    b': "Buffer_ReplaceWith b p (int (length s)) = Inr (b', rc)" "holds b' s" by auto
  show ?thesis using Some s c' b' kv_rep_put [OF m c'(2), of k] holds_tail [OF c'(2)]
    by (simp add: KeyValue_Get_def Buffer_GetBufferCount_def)
qed

section \<open>Streams\<close>

definition kv_value :: "bool \<Rightarrow> string \<Rightarrow> string" where
  "kv_value e s = (if e then b64 s else s)"

primrec kv_stream :: "bool \<Rightarrow> (string \<times> string) list \<Rightarrow> string" where
  "kv_stream e [] = []"
| "kv_stream e (ks # a) = fst ks @ CHR ''|'' # kv_value e (snd ks) @ CHR ''|'' # kv_stream e a"

lemma encode_value:
  assumes "holds b s"
  shows "\<exists>b'. (if e then rbind (Base64_Encode new_cBuffer b) (\<lambda>(_, b). Inr b) else Inr b) = Inr b' \<and>
    holds b' (kv_value e s)"
  using Encode_holds [OF internal_ok_new assms] assms by (auto simp: kv_value_def)

lemma decode_value:
  assumes "holds b (kv_value e s)"
  shows "\<exists>b'. (if e then rbind (Base64_Decode new_cBuffer b) (\<lambda>(_, b). Inr b) else Inr b) = Inr b' \<and>
    holds b' s"
  using Decode_holds [OF internal_ok_new, of b s] assms by (auto simp: kv_value_def split: if_splits)

lemma GetStream_loop:
  "kv_rep m a \<Longrightarrow> holds temp t \<Longrightarrow>
     \<exists>m'. kv_stream_loop e temp acc m = Inr (m', acc @ kv_stream e a) \<and> kv_rep m' a"
proof (induction m arbitrary: a temp t acc)
  case Nil
  then show ?case by simp
next
  case (Cons kb m)
  obtain k b where kb: "kb = (k, b)" by (cases kb)
  from Cons.prems kb obtain s a' where a: "a = (k, s) # a'" "holds b s" "kv_rep m a'"
    by (auto simp: kv_rep_Cons)
  from GetBuffer_gives [OF a(2)] obtain b' p where
    b': "Buffer_GetBuffer b = Inr (b', p)" "holds b' s" "gives p s" by blast
  from ReplaceWith_gives [OF Cons.prems(2) b'(3)] obtain t1 rc where
    t1: "Buffer_ReplaceWith temp p (int (length s)) = Inr (t1, rc)" "holds t1 s" by blast
  from encode_value [OF t1(2), of e] obtain t2 where
    t2: "(if e then rbind (Base64_Encode new_cBuffer t1) (\<lambda>(_, b). Inr b) else Inr t1) = Inr t2"
      "holds t2 (kv_value e s)" by blast
  from GetBuffer_gives [OF t2(2)] obtain t3 q where
    t3: "Buffer_GetBuffer t2 = Inr (t3, q)" "holds t3 (kv_value e s)"
      "\<forall>i n. i + n \<le> length (kv_value e s) \<longrightarrow>
         mem_slice (block_of q) (int i) (int n) = Inr (map Some (take n (drop i (kv_value e s))))"
    by blast
  have sl: "mem_slice (block_of q) 0 (int (length (kv_value e s))) = Inr (map Some (kv_value e s))"
    using t3(3) [rule_format, of 0 "length (kv_value e s)"] by simp
  from Cons.IH [OF a(3) t3(2)] obtain m' where
    m': "kv_stream_loop e t3 (acc @ k @ ''|'' @ kv_value e s @ ''|'') m =
          Inr (m', (acc @ k @ ''|'' @ kv_value e s @ ''|'') @ kv_stream e a')" "kv_rep m' a'" by blast
  show ?case
    using kb b' t1(1) t2(1) t3(1) sl m' a(1) holds_tail [OF b'(2)] holds_tail [OF t3(2)]
    by (simp add: Buffer_GetBufferCount_def kv_rep_Cons)
qed

lemma bar_found:
  assumes "holds b (pre @ t @ CHR ''|'' # rest)" "CHR ''|'' \<notin> set t"
  shows "Buffer_FindChar b (CHR ''|'') (int (length pre)) = Inr (int (length pre + length t))"
  using FindChar_holds [OF assms(1), of "length pre" "CHR ''|''"] find_char_append [OF assms(2), of rest]
  by simp

lemma no_bar:
  assumes "holds b pre"
  shows "Buffer_FindChar b (CHR ''|'') (int (length pre)) = Inr (-1)"
  using FindChar_holds [OF assms, of "length pre" "CHR ''|''"] by (simp add: find_char_def)

definition kv_plain :: "bool \<Rightarrow> string \<times> string \<Rightarrow> bool" where
  "kv_plain e ks \<longleftrightarrow> CHR ''|'' \<notin> set (fst ks) \<and> NUL \<notin> set (fst ks) \<and> CHR ''|'' \<notin> set (kv_value e (snd ks))"

text \<open>The key half and the value half of one round trip through the loop of \<open>Parse\<close>.\<close>

lemma parse_key:
  assumes h: "holds b (pre @ t @ CHR ''|'' # rest)" and t: "CHR ''|'' \<notin> set t"
  shows "\<exists>b'. kv_parse_loop e m b [] False (int (length pre)) (int (length pre)) =
      kv_parse_loop e m b' t True (int (length (pre @ t @ ''|''))) (int (length (pre @ t @ ''|''))) \<and>
    holds b' (pre @ t @ CHR ''|'' # rest)"
proof -
  from GetBuffer_gives [OF h] obtain b' p where
    b': "Buffer_GetBuffer b = Inr (b', p)" "holds b' (pre @ t @ CHR ''|'' # rest)"
      "\<forall>i n. i + n \<le> length (pre @ t @ CHR ''|'' # rest) \<longrightarrow> mem_slice (block_of p) (int i) (int n) =
         Inr (map Some (take n (drop i (pre @ t @ CHR ''|'' # rest))))" by blast
  have "mem_slice (block_of p) (int (length pre)) (int (length t)) = Inr (map Some t)"
    using b'(3) [rule_format, of "length pre" "length t"] by simp
  then show ?thesis using b'(1,2) bar_found [OF h t]
    by (subst kv_parse_loop.simps) (auto simp: algebra_simps)
qed

lemma parse_value:
  assumes h: "holds b (pre @ kv_value e s @ CHR ''|'' # rest)" and v: "CHR ''|'' \<notin> set (kv_value e s)"
    and m: "kv_rep m a" and k: "NUL \<notin> set k"
  shows "\<exists>b' m'. kv_parse_loop e m b k True (int (length pre)) (int (length pre)) =
      kv_parse_loop e m' b' [] False (int (length (pre @ kv_value e s @ ''|'')))
        (int (length (pre @ kv_value e s @ ''|''))) \<and>
    holds b' (pre @ kv_value e s @ CHR ''|'' # rest) \<and> kv_rep m' (smap_put k s a)"
proof -
  let ?v = "kv_value e s"
  from GetBuffer_gives [OF h] obtain b' p where
    b': "Buffer_GetBuffer b = Inr (b', p)" "holds b' (pre @ ?v @ CHR ''|'' # rest)"
      "\<forall>i n. i + n \<le> length (pre @ ?v @ CHR ''|'' # rest) \<longrightarrow>
         gives (map_option (drop i) p) (take n (drop i (pre @ ?v @ CHR ''|'' # rest)))" by blast
  have "gives (map_option (drop (length pre)) p) ?v"
    using b'(3) [rule_format, of "length pre" "length ?v"] by simp
  from ReplaceWith_gives [OF holds_new this] obtain c rc where
    c: "Buffer_ReplaceWith new_cBuffer (map_option (drop (length pre)) p) (int (length ?v)) = Inr (c, rc)"
      "holds c ?v" by blast
  from decode_value [OF c(2)] obtain d where
    d: "(if e then rbind (Base64_Decode new_cBuffer c) (\<lambda>(_, b). Inr b) else Inr c) = Inr d" "holds d s"
    by blast
  from GetBuffer_gives [OF d(2)] obtain d' q where
    d': "Buffer_GetBuffer d = Inr (d', q)" "holds d' s" "gives q s" by blast
  from Set_rep [OF m d'(3)] obtain m' where
    m': "KeyValue_Set m k q (int (length s)) = Inr m'" "kv_rep m' (smap_put k s a)" by blast
  have "kv_parse_loop e m b k True (int (length pre)) (int (length pre)) =
      kv_parse_loop e m' b' [] False (int (length (pre @ ?v @ ''|''))) (int (length (pre @ ?v @ ''|'')))"
    using b'(1) bar_found [OF h v] c(1) d(1) d'(1) m'(1) holds_tail [OF d'(2)]
    by (subst kv_parse_loop.simps)
      (auto simp: Buffer_GetBufferCount_def cstr_id [OF k] algebra_simps split: if_splits)
  with b'(2) m'(2) show ?thesis by blast
qed

lemma parse_stream:
  "holds b (pre @ kv_stream e es) \<Longrightarrow> kv_rep m a \<Longrightarrow> \<forall>x \<in> set es. kv_plain e x \<Longrightarrow>
     \<exists>m'. kv_parse_loop e m b [] False (int (length pre)) (int (length pre)) = Inr m' \<and>
       kv_rep m' (fold (\<lambda>(k, s). smap_put k s) es a)"
proof (induction es arbitrary: pre b m a)
  case Nil
  then show ?case using no_bar [of b pre] by (subst kv_parse_loop.simps) simp
next
  case (Cons x es)
  obtain k s where x: "x = (k, s)" by (cases x)
  have ok: "CHR ''|'' \<notin> set k" "NUL \<notin> set k" "CHR ''|'' \<notin> set (kv_value e s)"
    using Cons.prems(3) x by (auto simp: kv_plain_def)
  have h: "holds b (pre @ k @ CHR ''|'' # kv_value e s @ CHR ''|'' # kv_stream e es)"
    using Cons.prems(1) x by simp
  from parse_key [OF h ok(1), of e m] obtain b1 where
    b1: "kv_parse_loop e m b [] False (int (length pre)) (int (length pre)) =
        kv_parse_loop e m b1 k True (int (length (pre @ k @ ''|''))) (int (length (pre @ k @ ''|'')))"
      "holds b1 ((pre @ k @ ''|'') @ kv_value e s @ CHR ''|'' # kv_stream e es)" by auto
  from parse_value [OF b1(2) ok(3) Cons.prems(2) ok(2)] obtain b2 m2 where
    b2: "kv_parse_loop e m b1 k True (int (length (pre @ k @ ''|''))) (int (length (pre @ k @ ''|''))) =
        kv_parse_loop e m2 b2 [] False (int (length ((pre @ k @ ''|'') @ kv_value e s @ ''|'')))
          (int (length ((pre @ k @ ''|'') @ kv_value e s @ ''|'')))"
      "holds b2 (((pre @ k @ ''|'') @ kv_value e s @ ''|'') @ kv_stream e es)"
      "kv_rep m2 (smap_put k s a)" by auto
  from Cons.IH [OF b2(2,3)] Cons.prems(3) b1(1) b2(1) x show ?case by simp
qed

lemma Parse_stream:
  assumes p: "gives p (kv_stream e es)" and es: "\<forall>x \<in> set es. kv_plain e x" and m: "kv_rep m a"
  shows "\<exists>m'. KeyValue_Parse m p (int (length (kv_stream e es))) e = Inr m' \<and>
    kv_rep m' (fold (\<lambda>(k, s). smap_put k s) es a)"
proof -
  from ReplaceWith_gives [OF holds_new p] obtain b rc where
    b: "Buffer_ReplaceWith new_cBuffer p (int (length (kv_stream e es))) = Inr (b, rc)"
      "holds b ([] @ kv_stream e es)" by auto
  from parse_stream [OF b(2) m es] b(1) show ?thesis by (simp add: KeyValue_Parse_def)
qed

end
