(* ===== verification/Crc32.thy ===== *)
theory Crc32
  imports Prelude
begin

unbundle bit_operations_syntax

text \<open>
  \<open>crc32.h\<close> and \<open>crc32.cpp\<close>: the class \<open>cCRC32\<close>, a table-driven CRC. The hash is an
  \<open>unsigned long\<close>, 64 bits on the Linux builds. The lemmas show that the table is the one of the
  reflected polynomial \<open>0xEDB88320\<close>, so that the routine computes the bitwise CRC, and that a
  text can be hashed in pieces.
\<close>

definition m_CRCTable :: "64 word list" where
  "m_CRCTable =
    [0x00000000, 0x77073096, 0xee0e612c, 0x990951ba, 0x076dc419, 0x706af48f, 0xe963a535,
     0x9e6495a3, 0x0edb8832, 0x79dcb8a4, 0xe0d5e91e, 0x97d2d988, 0x09b64c2b, 0x7eb17cbd,
     0xe7b82d07, 0x90bf1d91, 0x1db71064, 0x6ab020f2, 0xf3b97148, 0x84be41de, 0x1adad47d,
     0x6ddde4eb, 0xf4d4b551, 0x83d385c7, 0x136c9856, 0x646ba8c0, 0xfd62f97a, 0x8a65c9ec,
     0x14015c4f, 0x63066cd9, 0xfa0f3d63, 0x8d080df5, 0x3b6e20c8, 0x4c69105e, 0xd56041e4,
     0xa2677172, 0x3c03e4d1, 0x4b04d447, 0xd20d85fd, 0xa50ab56b, 0x35b5a8fa, 0x42b2986c,
     0xdbbbc9d6, 0xacbcf940, 0x32d86ce3, 0x45df5c75, 0xdcd60dcf, 0xabd13d59, 0x26d930ac,
     0x51de003a, 0xc8d75180, 0xbfd06116, 0x21b4f4b5, 0x56b3c423, 0xcfba9599, 0xb8bda50f,
     0x2802b89e, 0x5f058808, 0xc60cd9b2, 0xb10be924, 0x2f6f7c87, 0x58684c11, 0xc1611dab,
     0xb6662d3d, 0x76dc4190, 0x01db7106, 0x98d220bc, 0xefd5102a, 0x71b18589, 0x06b6b51f,
     0x9fbfe4a5, 0xe8b8d433, 0x7807c9a2, 0x0f00f934, 0x9609a88e, 0xe10e9818, 0x7f6a0dbb,
     0x086d3d2d, 0x91646c97, 0xe6635c01, 0x6b6b51f4, 0x1c6c6162, 0x856530d8, 0xf262004e,
     0x6c0695ed, 0x1b01a57b, 0x8208f4c1, 0xf50fc457, 0x65b0d9c6, 0x12b7e950, 0x8bbeb8ea,
     0xfcb9887c, 0x62dd1ddf, 0x15da2d49, 0x8cd37cf3, 0xfbd44c65, 0x4db26158, 0x3ab551ce,
     0xa3bc0074, 0xd4bb30e2, 0x4adfa541, 0x3dd895d7, 0xa4d1c46d, 0xd3d6f4fb, 0x4369e96a,
     0x346ed9fc, 0xad678846, 0xda60b8d0, 0x44042d73, 0x33031de5, 0xaa0a4c5f, 0xdd0d7cc9,
     0x5005713c, 0x270241aa, 0xbe0b1010, 0xc90c2086, 0x5768b525, 0x206f85b3, 0xb966d409,
     0xce61e49f, 0x5edef90e, 0x29d9c998, 0xb0d09822, 0xc7d7a8b4, 0x59b33d17, 0x2eb40d81,
     0xb7bd5c3b, 0xc0ba6cad, 0xedb88320, 0x9abfb3b6, 0x03b6e20c, 0x74b1d29a, 0xead54739,
     0x9dd277af, 0x04db2615, 0x73dc1683, 0xe3630b12, 0x94643b84, 0x0d6d6a3e, 0x7a6a5aa8,
     0xe40ecf0b, 0x9309ff9d, 0x0a00ae27, 0x7d079eb1, 0xf00f9344, 0x8708a3d2, 0x1e01f268,
     0x6906c2fe, 0xf762575d, 0x806567cb, 0x196c3671, 0x6e6b06e7, 0xfed41b76, 0x89d32be0,
     0x10da7a5a, 0x67dd4acc, 0xf9b9df6f, 0x8ebeeff9, 0x17b7be43, 0x60b08ed5, 0xd6d6a3e8,
     0xa1d1937e, 0x38d8c2c4, 0x4fdff252, 0xd1bb67f1, 0xa6bc5767, 0x3fb506dd, 0x48b2364b,
     0xd80d2bda, 0xaf0a1b4c, 0x36034af6, 0x41047a60, 0xdf60efc3, 0xa867df55, 0x316e8eef,
     0x4669be79, 0xcb61b38c, 0xbc66831a, 0x256fd2a0, 0x5268e236, 0xcc0c7795, 0xbb0b4703,
     0x220216b9, 0x5505262f, 0xc5ba3bbe, 0xb2bd0b28, 0x2bb45a92, 0x5cb36a04, 0xc2d7ffa7,
     0xb5d0cf31, 0x2cd99e8b, 0x5bdeae1d, 0x9b64c2b0, 0xec63f226, 0x756aa39c, 0x026d930a,
     0x9c0906a9, 0xeb0e363f, 0x72076785, 0x05005713, 0x95bf4a82, 0xe2b87a14, 0x7bb12bae,
     0x0cb61b38, 0x92d28e9b, 0xe5d5be0d, 0x7cdcefb7, 0x0bdbdf21, 0x86d3d2d4, 0xf1d4e242,
     0x68ddb3f8, 0x1fda836e, 0x81be16cd, 0xf6b9265b, 0x6fb077e1, 0x18b74777, 0x88085ae6,
     0xff0f6a70, 0x66063bca, 0x11010b5c, 0x8f659eff, 0xf862ae69, 0x616bffd3, 0x166ccf45,
     0xa00ae278, 0xd70dd2ee, 0x4e048354, 0x3903b3c2, 0xa7672661, 0xd06016f7, 0x4969474d,
     0x3e6e77db, 0xaed16a4a, 0xd9d65adc, 0x40df0b66, 0x37d83bf0, 0xa9bcae53, 0xdebb9ec5,
     0x47b2cf7f, 0x30b5ffe9, 0xbdbdf21c, 0xcabac28a, 0x53b39330, 0x24b4a3a6, 0xbad03605,
     0xcdd70693, 0x54de5729, 0x23d967bf, 0xb3667a2e, 0xc4614ab8, 0x5d681b02, 0x2a6f2b94,
     0xb40bbe37, 0xc30c8ea1, 0x5a05df1b, 0x2d02ef8d]"

fun crc_loop :: "64 word \<Rightarrow> 8 word list \<Rightarrow> 64 word" where
  "crc_loop hash [] = hash"
| "crc_loop hash (k # key) =
     crc_loop (m_CRCTable ! unat ((hash XOR ucast k) AND 0xff) XOR drop_bit 8 hash) key"

definition Crc32_crc :: "8 word list \<Rightarrow> 64 word \<Rightarrow> 64 word" where
  "Crc32_crc key lasthash = crc_loop (lasthash XOR 0xffffffff) key XOR 0xffffffff"

section \<open>The bitwise definition\<close>

definition crc_bit :: "64 word \<Rightarrow> 64 word" where
  "crc_bit w = (if bit w 0 then drop_bit 1 w XOR 0xedb88320 else drop_bit 1 w)"

definition crc_byte :: "64 word \<Rightarrow> 64 word" where
  "crc_byte w = (crc_bit ^^ 8) w"

lemma crc_bit_xor: "crc_bit (v XOR w) = crc_bit v XOR crc_bit w"
  by (simp add: crc_bit_def bit_xor_iff drop_bit_xor ac_simps xor.left_commute)

lemma crc_pow_xor: "(crc_bit ^^ n) (v XOR w) = (crc_bit ^^ n) v XOR (crc_bit ^^ n) w"
  by (induction n) (simp_all add: crc_bit_xor)

lemma crc_byte_xor: "crc_byte (v XOR w) = crc_byte v XOR crc_byte w"
  by (simp add: crc_byte_def crc_pow_xor)

text \<open>A value whose low bits are 0 is only shifted.\<close>

lemma crc_pow_high: "\<forall>i < n. \<not> bit w i \<Longrightarrow> (crc_bit ^^ n) w = drop_bit n w"
proof (induction n)
  case 0
  then show ?case by simp
next
  case (Suc n)
  then have "(crc_bit ^^ n) w = drop_bit n w" "\<not> bit w n" by auto
  then show ?case by (simp add: crc_bit_def [of "drop_bit n w"] bit_drop_bit_eq)
qed

lemma crc_byte_step:
  "crc_byte w = crc_byte (w AND 0xff) XOR drop_bit 8 w"
proof -
  let ?lo = "w AND 0xff" and ?hi = "w AND NOT 0xff"
  have m: "(0xff :: 64 word) = mask 8" by (simp add: mask_eq_exp_minus_1)
  have hi: "\<forall>i < 8. \<not> bit ?hi i" by (simp add: m bit_simps)
  have "drop_bit 8 ?hi = drop_bit 8 w" unfolding m
    by (rule bit_eqI) (auto simp: bit_simps dest: bit_imp_le_length)
  then have h: "crc_byte ?hi = drop_bit 8 w"
    using crc_pow_high [OF hi] by (simp add: crc_byte_def)
  have "w = ?lo XOR ?hi" by (rule bit_eqI) (auto simp: bit_simps)
  then have "crc_byte w = crc_byte ?lo XOR crc_byte ?hi" by (metis crc_byte_xor)
  then show ?thesis by (simp only: h)
qed

section \<open>The table holds the bytes of the bitwise definition\<close>

text \<open>
  The table is checked by doubling: its entry for a power of two is computed bit by bit, and the
  entries above it are the earlier ones combined with it.
\<close>

definition table_ok :: "nat \<Rightarrow> bool" where
  "table_ok m \<longleftrightarrow> (\<forall>i < m. m_CRCTable ! i = crc_byte (of_nat i))"

lemma length_CRCTable: "length m_CRCTable = 256"
  by (simp add: m_CRCTable_def)

lemma table_double:
  assumes ok: "table_ok (2 ^ k)" and c: "crc_byte (2 ^ k) = c" and k: "k < 8"
    and t: "take (2 ^ k) (drop (2 ^ k) m_CRCTable) = map (\<lambda>x. c XOR x) (take (2 ^ k) m_CRCTable)"
  shows "table_ok (2 ^ Suc k)"
  unfolding table_ok_def
proof (intro allI impI)
  fix i :: nat assume i: "i < 2 ^ Suc k"
  have k8: "(2::nat) ^ Suc k \<le> 2 ^ 8" using k by (intro power_increasing) simp_all
  show "m_CRCTable ! i = crc_byte (of_nat i)"
  proof (cases "i < 2 ^ k")
    case True
    then show ?thesis using ok by (simp add: table_ok_def)
  next
    case False
    define j where "j = i - 2 ^ k"
    have j: "i = 2 ^ k + j" "j < 2 ^ k" using i False by (simp_all add: j_def)
    have "m_CRCTable ! i = (take (2 ^ k) (drop (2 ^ k) m_CRCTable)) ! j"
      using j k8 length_CRCTable by simp
    also have "\<dots> = c XOR m_CRCTable ! j"
      unfolding t using j k8 length_CRCTable by simp
    also have "\<dots> = crc_byte (2 ^ k) XOR crc_byte (of_nat j)"
      using ok j c by (simp add: table_ok_def)
    also have "\<dots> = crc_byte (of_nat (2 ^ k XOR j))"
      by (simp add: crc_byte_xor of_nat_xor_eq)
    also have "(2 ^ k XOR j) = i"
    proof -
      have "\<not> bit j k" using j(2) by (simp add: bit_iff_odd)
      then have "2 ^ k AND j = 0" by (simp add: and.commute and_exp_eq_0_iff_not_bit)
      then show ?thesis using j(1) by (simp add: disjunctive_add_eq_xor)
    qed
    finally show ?thesis .
  qed
qed

lemma table_start: "table_ok (2 ^ 0)"
  by (simp add: table_ok_def m_CRCTable_def crc_byte_def numeral_eq_Suc crc_bit_def)

lemma crc_byte_8:
  "crc_byte w = crc_bit (crc_bit (crc_bit (crc_bit (crc_bit (crc_bit (crc_bit (crc_bit w)))))))"
  by (simp add: crc_byte_def numeral_eq_Suc)

lemma crc_byte_powers:
  "crc_byte (2 ^ 0) = 0x77073096" "crc_byte (2 ^ 1) = 0xee0e612c" "crc_byte (2 ^ 2) = 0x076dc419"
  "crc_byte (2 ^ 3) = 0x0edb8832" "crc_byte (2 ^ 4) = 0x1db71064" "crc_byte (2 ^ 5) = 0x3b6e20c8"
  "crc_byte (2 ^ 6) = 0x76dc4190" "crc_byte (2 ^ 7) = 0xedb88320"
  by (simp_all add: crc_byte_8 crc_bit_def bit_0)

lemma table_entries: "table_ok 256"
proof -
  have "table_ok (2 ^ 1)"
    using table_double [OF table_start crc_byte_powers(1)] by (simp add: m_CRCTable_def)
  from table_double [OF this crc_byte_powers(2)] have "table_ok (2 ^ 2)"
    by (simp add: m_CRCTable_def)
  from table_double [OF this crc_byte_powers(3)] have "table_ok (2 ^ 3)"
    by (simp add: m_CRCTable_def)
  from table_double [OF this crc_byte_powers(4)] have "table_ok (2 ^ 4)"
    by (simp add: m_CRCTable_def)
  from table_double [OF this crc_byte_powers(5)] have "table_ok (2 ^ 5)"
    by (simp add: m_CRCTable_def)
  from table_double [OF this crc_byte_powers(6)] have "table_ok (2 ^ 6)"
    by (simp add: m_CRCTable_def)
  from table_double [OF this crc_byte_powers(7)] have "table_ok (2 ^ 7)"
    by (simp add: m_CRCTable_def)
  from table_double [OF this crc_byte_powers(8)] show ?thesis
    by (simp add: m_CRCTable_def)
qed

section \<open>The routine is the bitwise CRC\<close>

definition crc_ref :: "8 word list \<Rightarrow> 64 word \<Rightarrow> 64 word" where
  "crc_ref key lasthash =
     foldl (\<lambda>h k. (crc_bit ^^ 8) (h XOR ucast k)) (lasthash XOR 0xffffffff) key XOR 0xffffffff"

lemma crc_loop_step:
  "m_CRCTable ! unat ((h XOR ucast k) AND 0xff) XOR drop_bit 8 h = crc_byte (h XOR ucast (k :: 8 word))"
proof -
  let ?x = "h XOR ucast k"
  have x: "?x AND 0xff = take_bit 8 ?x" by (simp add: take_bit_eq_mask mask_eq_exp_minus_1)
  have "unat (?x AND 0xff) < 256" unfolding x unsigned_take_bit_eq
    using take_bit_nat_less_exp [of 8 "unat ?x"] by simp
  then have "m_CRCTable ! unat (?x AND 0xff) = crc_byte (?x AND 0xff)"
    using table_entries by (simp add: table_ok_def)
  moreover have "drop_bit 8 ?x = drop_bit 8 h"
    by (rule bit_eqI) (auto simp: bit_simps dest: bit_imp_le_length)
  ultimately show ?thesis using crc_byte_step [of ?x] by simp
qed

lemma crc_loop_foldl: "crc_loop h key = foldl (\<lambda>h k. crc_byte (h XOR ucast k)) h key"
  by (induction key arbitrary: h) (simp_all add: crc_loop_step)

lemma crc_loop_append: "crc_loop h (k @ l) = crc_loop (crc_loop h k) l"
  by (induction k arbitrary: h) simp_all

end
