(* ===== verification/DataProperties.thy ===== *)
theory DataProperties
  imports KeyValue Url Crc32 RoutingTag HeaderExtract
begin

text \<open>
  The properties of the data components: the byte buffer, the encoders and the text forms of maps.
  Each is stated on the operations of the code and rests on the refinement lemmas of its component.
  \<open>demo_buffer s\<close> is a buffer with exactly the text \<open>s\<close> in it; the examples run on it.
\<close>

definition demo_buffer :: "string \<Rightarrow> cBuffer" where
  "demo_buffer s = new_cBuffer\<lparr>m_pBuffer := Some (cmem s), m_iBufferSize := int (length s) + 1,
     m_iTail := int (length s)\<rparr>"

lemma demo_buffer_holds: "holds (demo_buffer s) s" and demo_buffer_terminated: "terminated (demo_buffer s)"
  by (auto simp: holds_def buf_wf_def contents_def demo_buffer_def cmem_def block_of_def terminated_def
      nth_append)

section \<open>The byte buffer\<close>

text \<open>
  C20: \<open>Insert\<close> puts the bytes at the index, moves the rest up, grows the block when it has to,
  never leaves it and terminates it.
\<close>

theorem buffer_insert:
  assumes "holds b s" "i \<le> length s" "take n d = map Some xs" "length xs = n"
  shows "\<exists>b'. Buffer_Insert b (int i) d (int n) = Inr (b', BUFFER_NO_ERROR) \<and>
    holds b' (take i s @ xs @ drop i s) \<and> terminated b'"
  using Insert_holds [OF assms] by blast

lemma buffer_insert_witness:
  "\<exists>b'. Buffer_Insert (demo_buffer ''ad'') 1 (cmem ''bc'') 2 = Inr (b', BUFFER_NO_ERROR) \<and> holds b' ''abcd''"
  using buffer_insert [OF demo_buffer_holds, of 1 "''ad''" 2 "cmem ''bc''" "''bc''"]
  by (auto simp: cmem_def)

text \<open>
  C21: \<open>ReplaceAll\<close> returns for every pattern that is not empty, also when the replacement
  contains the pattern, and replaces the occurrences from left to right.
\<close>

theorem buffer_replace_all:
  assumes "holds b s" "NUL \<notin> set s" "p \<noteq> []" "NUL \<notin> set p" "NUL \<notin> set r"
  shows "\<exists>b'. Buffer_ReplaceAll b p r = Some (Inr b') \<and> holds b' (subst_all p r s)"
  using ReplaceAll_holds [OF assms] .

lemma buffer_replace_all_witness:
  "\<exists>b'. Buffer_ReplaceAll (demo_buffer ''a-b'') ''-'' ''--'' = Some (Inr b') \<and> holds b' ''a--b''"
proof -
  have "subst_all ''-'' ''--'' ''a-b'' = ''a--b''" by code_simp
  then show ?thesis
    using buffer_replace_all [OF demo_buffer_holds, of "''a-b''" "''-''" "''--''"] by simp
qed

text \<open>
  \<open>Remove\<close> checks the region against the allocated size and not against the bytes in use:
  a region that begins in the text and ends past it, but inside the block, is not refused and the
  bytes are moved with a negative count.
\<close>

theorem buffer_remove_unchecked:
  assumes "holds b s" "s \<noteq> []" "0 < n" "length s < i + n" "int (i + n) \<le> m_iBufferSize b"
  shows "Buffer_Remove b (int i) (int n) = Inl OutOfBounds"
  using Remove_past_end_faults [OF assms] .

lemma buffer_remove_unchecked_witness: "Buffer_Remove (demo_buffer ''abc'') 2 2 = Inl OutOfBounds"
  using buffer_remove_unchecked [OF demo_buffer_holds, of "''abc''" 2 2]
  by (simp add: demo_buffer_def)

text \<open>\<open>Crypto\<close> with the same key, which is not empty, undoes itself.\<close>

theorem buffer_crypto_involution:
  assumes "holds b s" "key \<noteq> []" "NUL \<notin> set key"
  shows "\<exists>b1 b2. Buffer_Crypto b key = Inr b1 \<and> Buffer_Crypto b1 key = Inr b2 \<and> holds b2 s"
proof -
  from Crypto_holds [OF assms] obtain b1 where b1: "Buffer_Crypto b key = Inr b1" "holds b1 (crypt key s)"
    by blast
  from Crypto_holds [OF b1(2) assms(2,3)] b1(1) show ?thesis by (auto simp: crypt_twice)
qed

lemma buffer_crypto_involution_witness:
  "\<exists>b1 b2. Buffer_Crypto (demo_buffer ''secret'') ''key'' = Inr b1 \<and> Buffer_Crypto b1 ''key'' = Inr b2 \<and>
     holds b2 ''secret''"
  using buffer_crypto_involution [OF demo_buffer_holds, of "''key''" "''secret''"] by simp

section \<open>Encoders\<close>

text \<open>
  C22: a Base64 object encodes every buffer, writes only inside its working block, and decoding
  the result with any other object gives the bytes back; the encoded text is 4 characters for
  every 3 bytes, rounded up.
\<close>

theorem base64_round_trip:
  assumes "internal_ok i" "internal_ok j" "holds b s"
  shows "\<exists>i' j' b1 b2 t. Base64_Encode i b = Inr (i', b1) \<and> holds b1 t \<and>
    length t = 4 * ((length s + 2) div 3) \<and> NUL \<notin> set t \<and>
    Base64_Decode j b1 = Inr (j', b2) \<and> holds b2 s \<and> internal_ok i' \<and> internal_ok j'"
proof -
  from Encode_holds [OF assms(1,3)] obtain i' b1 where
    e: "Base64_Encode i b = Inr (i', b1)" "internal_ok i'" "holds b1 (b64 s)" by blast
  from Decode_holds [OF assms(2) e(3)] e length_b64 [of s] b64_chars_not_NUL [of s] show ?thesis by blast
qed

lemma base64_round_trip_witness:
  "\<exists>i' j' b1 b2 t. Base64_Encode new_cBuffer (demo_buffer ''Man!'') = Inr (i', b1) \<and> holds b1 t \<and>
     length t = 8 \<and> Base64_Decode new_cBuffer b1 = Inr (j', b2) \<and> holds b2 ''Man!''"
  using base64_round_trip [OF internal_ok_new internal_ok_new demo_buffer_holds, of "''Man!''"] by auto

text \<open>
  \<open>cURL::Encode\<close> escapes exactly the unsafe characters, and faults on a character above
  127 (outside its table) and on a text in which every character is escaped (no room for the NUL).
\<close>

theorem url_encode_behaviour:
  "Url_Encode s =
     (if (\<forall>c \<in> set s. ascii c) \<and> (\<exists>c \<in> set s. url_safe c) then Inr (url_text s)
      else Inl OutOfBounds)"
  by (rule Encode_eq)

lemma url_encode_behaviour_witness: "Url_Encode ''a b'' = Inr ''a%20b'' \<and> Url_Encode '' '' = Inl OutOfBounds"
proof -
  have "(\<forall>c \<in> set ''a b''. ascii c) \<and> (\<exists>c \<in> set ''a b''. url_safe c)" "url_text ''a b'' = ''a%20b''"
    "\<not> (\<exists>c \<in> set '' ''. url_safe c)" by code_simp+
  then show ?thesis
    unfolding url_encode_behaviour [of "''a b''"] url_encode_behaviour [of "'' ''"] by simp
qed

text \<open>whatever \<open>cURL::Encode\<close> returns, \<open>cURL::Decode\<close> turns back into the text.\<close>

theorem url_round_trip:
  assumes "Url_Encode s = Inr t" "NUL \<notin> set s"
  shows "Url_Decode t = Inr s"
proof -
  have t: "t = url_text s" "s \<noteq> []" using assms(1) by (auto simp: Encode_eq split: if_splits)
  then have "t \<noteq> []" by (cases s) (auto simp: url_piece_def)
  from Decode_eq [OF this] show ?thesis using t url_text_no_NUL url_plain_text cstr_id [OF assms(2)] by simp
qed

lemma url_round_trip_witness: "Url_Decode ''a%20b'' = Inr ''a b''"
proof -
  have "Url_Encode ''a b'' = Inr ''a%20b''" by code_simp
  then show ?thesis by (rule url_round_trip) simp
qed

text \<open>
  C23: the table-driven checksum is the bitwise CRC-32 with the reflected polynomial
  \<open>0xedb88320\<close>, for every seed and every byte string.
\<close>

theorem crc_is_bitwise: "Crc32_crc key lasthash = crc_ref key lasthash"
  by (simp add: Crc32_crc_def crc_ref_def crc_loop_foldl crc_byte_def)

text \<open>The checksum of a text can be taken in pieces, each started with the result of the one before.\<close>

lemma crc_incremental: "Crc32_crc (k @ l) h = Crc32_crc l (Crc32_crc k h)"
  by (simp add: Crc32_crc_def crc_loop_append xor.assoc)

section \<open>Text forms of maps\<close>

text \<open>
  What \<open>GetStream\<close> writes for a map of buffers, \<open>Parse\<close> reads back into the same map, with
  the values in Base64 or, when they contain no bar, as they are; the buffers of the source map
  keep their bytes.
\<close>

theorem keyvalue_round_trip:
  assumes "kv_rep m a" "smap_inv a" "\<forall>x \<in> set a. kv_plain e x" "gives p (kv_stream e a)"
  shows "\<exists>m1 m2. KeyValue_GetStream m [] e = Inr (m1, kv_stream e a) \<and> kv_rep m1 a \<and>
    KeyValue_Parse [] p (int (length (kv_stream e a))) e = Inr m2 \<and> kv_rep m2 a"
proof -
  from GetStream_loop [OF assms(1) holds_new, of e "[]"] obtain m1 where
    m1: "KeyValue_GetStream m [] e = Inr (m1, kv_stream e a)" "kv_rep m1 a"
    by (auto simp: KeyValue_GetStream_def)
  from Parse_stream [OF assms(4,3), of "[]" "[]"] smap_put_all_entries [OF assms(2)] m1
  show ?thesis by auto
qed

lemma keyvalue_round_trip_witness:
  "\<exists>m1 m2. KeyValue_GetStream [(''k'', demo_buffer ''v|w'')] [] True = Inr (m1, ''k|dnx3|'') \<and>
     KeyValue_Parse [] (Some (cmem ''k|dnx3|'')) 7 True = Inr m2 \<and> kv_rep m2 [(''k'', ''v|w'')]"
proof -
  have st: "kv_stream True [(''k'', ''v|w'')] = ''k|dnx3|''" by code_simp
  have "kv_plain True (''k'', ''v|w'')" by code_simp
  then have p: "\<forall>x \<in> set [(''k'', ''v|w'')]. kv_plain True x" by simp
  have r: "kv_rep [(''k'', demo_buffer ''v|w'')] [(''k'', ''v|w'')]" by (simp add: kv_rep_Cons demo_buffer_holds)
  have g: "gives (Some (cmem ''k|dnx3|'')) (kv_stream True [(''k'', ''v|w'')])"
    unfolding st by (simp add: gives_def cmem_def)
  have i: "smap_inv [(''k'', ''v|w'')]" by (simp add: smap_inv_def)
  from keyvalue_round_trip [OF r i p g] show ?thesis unfolding st by auto
qed

text \<open>
  A map of texts whose keys and values are not empty and contain no bar is read back from its
  stream.
\<close>

lemma tuples_round_trip:
  assumes "smap_inv m" "\<forall>(k, v) \<in> set m. plain_token k \<and> plain_token v"
  shows "Tuples_AddTupleStream [] (Tuples_GetTupleStream m) = m"
  using AddTupleStream_stream [OF assms(2), of "[]"] smap_put_all_entries [OF assms(1)] by simp

lemma tuples_round_trip_witness:
  "Tuples_AddTupleStream [] (Tuples_GetTupleStream [(''a'', ''1''), (''b'', ''2'')]) = [(''a'', ''1''), (''b'', ''2'')]"
proof (rule tuples_round_trip)
  show "smap_inv [(''a'', ''1''), (''b'', ''2'')]" by code_simp
  show "\<forall>(k, v) \<in> set [(''a'', ''1''), (''b'', ''2'')]. plain_token k \<and> plain_token v" by code_simp
qed

section \<open>Headers and addresses\<close>

text \<open>
  The header is everything before the first empty line; its fields are the lines with a colon,
  later fields of the same name replace earlier ones, and the body, whatever its bytes, is not
  looked at.
\<close>

lemma header_fields:
  assumes "holds b (join_lines ls @ CRLF @ body)" "ls \<noteq> []"
    and "\<forall>l \<in> set ls. l \<noteq> [] \<and> CR \<notin> set l \<and> NUL \<notin> set l" "6 \<le> length (join_lines ls)"
  shows "\<exists>h' b'. HeaderExtract_Parse h b = Inr (h', b') \<and> holds b' (join_lines ls @ CRLF @ body) \<and>
    m_Params h' = fold header_line ls []"
  using Parse_header [OF assms, of h] by blast

lemma header_fields_witness:
  "\<exists>h' b'. HeaderExtract_Parse new_cHeaderExtract
       (demo_buffer (join_lines [''a: 1'', ''b:2'', ''a: 3''] @ CRLF @ ''c: 4'')) = Inr (h', b') \<and>
     m_Params h' = [(''a'', ''3''), (''b'', ''2'')]"
proof -
  let ?ls = "[''a: 1'', ''b:2'', ''a: 3'']"
  have f: "fold header_line ?ls [] = [(''a'', ''3''), (''b'', ''2'')]" by code_simp
  have l: "?ls \<noteq> []" "\<forall>l \<in> set ?ls. l \<noteq> [] \<and> CR \<notin> set l \<and> NUL \<notin> set l" "6 \<le> length (join_lines ?ls)"
    by code_simp+
  from header_fields [OF demo_buffer_holds l, of new_cHeaderExtract "''c: 4''"] f show ?thesis by auto
qed

text \<open>An address \<open>name@ip:port\<close> is taken apart into its three parts.\<close>

lemma address_parts:
  assumes "name \<noteq> []" "set name \<inter> {CHR ''@'', CHR '':'', NUL} = {}"
    and "ip \<noteq> []" "CHR '':'' \<notin> set ip" "NUL \<notin> set ip" and "NUL \<notin> set port"
  shows "RoutingTag_SetTag r (name @ ''@'' @ ip @ '':'' @ port) =
    r\<lparr>m_sFullTag := name @ ''@'' @ ip @ '':'' @ port, m_sTagName := name, m_sTagIPAddr := ip,
      m_sTagPort := port\<rparr>"
  using SetTag_full [OF assms] .

lemma address_parts_witness:
  "m_sTagIPAddr (RoutingTag_SetTag new_cRoutingTag ''bob@10.0.0.1:3400'') = ''10.0.0.1''"
  using address_parts [of "''bob''" "''10.0.0.1''" "''3400''" new_cRoutingTag] by simp

end
