(* ===== verification/MessageProperties.thy ===== *)
theory MessageProperties
  imports MsgQueueLaws MsgParse DataProperties
begin

text \<open>
  The properties of messages, the message pool, the queue's thread and the handlers it serves.
  Small states, built with the constructors of the model, show that their hypotheses can hold.
\<close>

section \<open>Small states for the examples\<close>

definition demo_env :: env where
  "demo_env = \<lparr>e_uuid = (\<lambda>n. replicate (Suc n) (CHR ''u'')), e_now = 100,
     e_serverName = ''mc'', e_serverAddr = ''10.0.0.1''\<rparr>"

definition demo_msg :: "eMsgState \<Rightarrow> eMsgConnectionType \<Rightarrow> cMsg" where
  "demo_msg st ct = (new_cMsg ''7'' 90)\<lparr>MsgState := st, MsgConnectionType := ct\<rparr>"

definition demo_pool :: "cMsg \<Rightarrow> cMsgPool" where
  "demo_pool m =
     \<lparr>m_store = [0 \<mapsto> m], m_iNextAddr = 1, m_bLocked = False, m_Messages = [0], m_it = 0,
      m_FreeMsgStack = []\<rparr>"

definition demo_queue :: "cMsg \<Rightarrow> nat list \<Rightarrow> cMsgQueue" where
  "demo_queue m pq =
     \<lparr>m_pCommandHandlerFactory = [], m_Decorators = [], m_pRouterRulesEngine = new_cMsgRouterRulesEngine,
      m_pSysMetrics = SysMetrics_Run_start 0 (new_cSysMetrics 0),
      m_pConnectionQueue = new_cConnectionQueue 60,
      m_UniqueIDProvider = \<lparr>m_vector = [], m_iMade = 0\<rparr>, m_timer = new_cTimer,
      m_msgPool = demo_pool m, m_priority_queue = pq\<rparr>"

lemma demo_msg_simps [simp]:
  "MsgState (demo_msg st ct) = st" "MsgConnectionType (demo_msg st ct) = ct"
  "MsgSendRetryCount (demo_msg st ct) = 0" "MsgSendRetryDelay (demo_msg st ct) = 1"
  "MsgLastRetryTS (demo_msg st ct) = 0" "TCPSocketHandle (demo_msg st ct) = -1"
  "MsgCommand (demo_msg st ct) = []" "MsgNotifyActionType (demo_msg st ct) = MSG_NOTIFY_ACTION_NO"
  "MsgInUseTS (demo_msg st ct) = 90" "UDPSocketHandle (demo_msg st ct) = -1"
  by (simp_all add: demo_msg_def new_cMsg_def Msg_ResetMsg_def CMSG_MAX_RETRY_DELAY_def)

lemma demo_pool_simps [simp]:
  "m_store (demo_pool m) a = (if a = 0 then Some m else None)" "\<not> m_bLocked (demo_pool m)"
  "m_Messages (demo_pool m) = [0]" "m_FreeMsgStack (demo_pool m) = []" "m_iNextAddr (demo_pool m) = 1"
  by (simp_all add: demo_pool_def)

lemma demo_queue_simps [simp]:
  "m_msgPool (demo_queue m pq) = demo_pool m" "m_priority_queue (demo_queue m pq) = pq"
  "queued (demo_queue m pq) = pq" "m_pCommandHandlerFactory (demo_queue m pq) = []"
  "m_RuleSets (m_pRouterRulesEngine (demo_queue m pq)) = []" "m_timer (demo_queue m pq) = new_cTimer"
  by (simp_all add: demo_queue_def queued_def new_cConnectionQueue_def new_cMsgRouterRulesEngine_def)

lemma demo_pool_inv: "pool_inv (demo_pool m)"
  by (auto simp: pool_inv_def demo_pool_def)

lemma demo_queue_inv: "pq = [] \<or> pq = [0] \<and> MsgState m = MSG_STATE_INUSE \<Longrightarrow> mq_inv (demo_queue m pq)"
  using demo_pool_inv [of m] by (auto simp: mq_inv_def state_of_def)

lemma demo_held: "MsgState m = MSG_STATE_INUSE \<Longrightarrow> held (demo_queue m []) 0"
  using demo_queue_inv [of "[]" m] by (simp add: held_def state_of_def)

lemma demo_metrics: "IncMsgDelivered (m_pSysMetrics (demo_queue m pq)) \<noteq> None"
proof -
  let ?s = "SysMetrics_Run_start 0 (new_cSysMetrics 0)"
  have "metrics_inv 0 ?s" by (rule metrics_run_inv) (rule metrics_run.start)
  then have "IncMsgDelivered ?s \<noteq> None" by (rule inc_never_out_of_bounds) (simp add: inc_any_def)
  then show ?thesis by (simp add: demo_queue_def)
qed

section \<open>The queue's thread\<close>

text \<open>
  C1: taking the message with the greatest priority off the priority queue and routing it never
  loses or duplicates a message: afterwards the queues hold the same messages, or all but the one
  that was routed, which is then delivered or undelivered. The consistency of the pool and of the
  queues is kept.
\<close>

theorem routing_conserves:
  assumes "mq_inv q" "m_priority_queue q \<noteq> []" "ProcessPriorityQueue env q = Inr q'"
  shows "mq_inv q' \<and>
    (let a = pq_top (prio_in (m_msgPool q)) (m_priority_queue q)
     in mset (queued q') = mset (queued q) \<or>
        mset (queued q) = add_mset a (mset (queued q')) \<and>
          state_of (m_msgPool q') a \<in> {Some MSG_STATE_UNDELIVERED, Some MSG_STATE_DELIVERED})"
  unfolding Let_def using ProcessPriorityQueue_settles [OF assms(1,2) refl assms(3)] .

lemma routing_conserves_witness:
  "\<exists>q'. ProcessPriorityQueue demo_env (demo_queue (demo_msg MSG_STATE_INUSE MSG_CT_INTERNAL) [0]) = Inr q' \<and>
     mq_inv q' \<and> state_of (m_msgPool q') 0 = Some MSG_STATE_UNDELIVERED"
proof -
  let ?m = "demo_msg MSG_STATE_INUSE MSG_CT_INTERNAL"
  let ?q = "demo_queue ?m [0]"
  have i: "mq_inv ?q" by (rule demo_queue_inv) simp
  have ne: "m_priority_queue ?q \<noteq> []" by simp
  obtain q' where e: "ProcessPriorityQueue demo_env ?q = Inr q'"
    "state_of (m_msgPool q') 0 = Some MSG_STATE_UNDELIVERED"
    by (simp add: ProcessPriorityQueue_def Let_def pq_top_def pq_pop_def mq_get_def pool_get_def
        Msg_GetConnectionType_def ProcessInternalMessage_def GetCommandHandler_def smap_find_def
        mq_upd_def pool_upd_def state_of_put Msg_SetMsgState_def)
  from routing_conserves [OF i ne e(1)] have "mq_inv q'" by (rule conjunct1)
  then show ?thesis using e by blast
qed

text \<open>
  C2: one pass of the queue's thread keeps the pool and the queues consistent, and it reports that
  it processed a message exactly when one was queued or had been dispatched.
\<close>

theorem run_pass_keeps_invariant:
  assumes "mq_inv q" "typed (m_msgPool q)" "MQ_Run_pass env q = Inr (q', b)"
  shows "mq_inv q' \<and> (b \<longleftrightarrow> m_priority_queue q \<noteq> [] \<or> (\<exists>a. is_pending (m_msgPool q) a))"
  using MQ_Run_pass_inv [OF assms] .

text \<open>The message of the examples of a pass: dispatched, and sent to no one.\<close>

lemma demo_serviceable:
  assumes "ProcessPendingMessages now (demo_queue (demo_msg MSG_STATE_PENDING MSG_CT_OB_TCP) []) = Inr q1"
    and "m_store (m_msgPool q1) a = Some m"
  shows "serviceable q1 m"
proof -
  let ?q = "demo_queue (demo_msg MSG_STATE_PENDING MSG_CT_OB_TCP) []"
  have "pool_inv (m_msgPool ?q)" "typed (m_msgPool ?q)" by (simp_all add: demo_pool_inv typed_def)
  from ProcessPendingMessages_spec [OF this, of now] assms(1)
  have "m_store (m_msgPool q1) = (\<lambda>a. map_option (after_round now) (m_store (m_msgPool ?q) a))" by auto
  then have m: "map_option (after_round now) (m_store (m_msgPool ?q) a) = Some m" using assms(2) by simp
  then have "a = 0" by (cases "a = 0") simp_all
  with m have "m = (demo_msg MSG_STATE_PENDING MSG_CT_OB_TCP)\<lparr>MsgState := MSG_STATE_INUSE\<rparr>"
    by (simp add: after_round_pending)
  then show ?thesis by (simp add: serviceable_def sendable_socket_def)
qed

lemma demo_pending: "mq_inv (demo_queue (demo_msg MSG_STATE_PENDING MSG_CT_OB_TCP) [])"
    "typed (m_msgPool (demo_queue (demo_msg MSG_STATE_PENDING MSG_CT_OB_TCP) []))"
  by (rule demo_queue_inv) (simp_all add: typed_def)

lemma run_pass_keeps_invariant_witness:
  "\<exists>q'. MQ_Run_pass demo_env (demo_queue (demo_msg MSG_STATE_PENDING MSG_CT_OB_TCP) []) = Inr (q', True) \<and>
     mq_inv q'"
proof -
  let ?q = "demo_queue (demo_msg MSG_STATE_PENDING MSG_CT_OB_TCP) []"
  obtain q' b where e: "MQ_Run_pass demo_env ?q = Inr (q', b)"
    using MQ_Run_pass_total [OF demo_pending demo_metrics] demo_serviceable by blast
  from run_pass_keeps_invariant [OF demo_pending e] show ?thesis
    using e by (auto simp: is_pending_def state_of_def)
qed

text \<open>
  C3: a pass of the thread ends without a fault when every message it may route can be served: its
  handler exists, its socket is in range, and it has a connection type.
\<close>

theorem run_pass_total:
  assumes "mq_inv q" "typed (m_msgPool q)" "IncMsgDelivered (m_pSysMetrics q) \<noteq> None"
    and "\<And>q1 a m. ProcessPendingMessages (e_now env) q = Inr q1 \<Longrightarrow> a \<in> set (m_priority_queue q1) \<Longrightarrow>
      m_store (m_msgPool q1) a = Some m \<Longrightarrow> serviceable q1 m"
  shows "\<exists>q' b. MQ_Run_pass env q = Inr (q', b)"
  using MQ_Run_pass_total [OF assms] .

lemma run_pass_total_witness:
  "\<exists>q' b. MQ_Run_pass demo_env (demo_queue (demo_msg MSG_STATE_PENDING MSG_CT_OB_TCP) []) = Inr (q', b)"
  by (rule run_pass_total [OF demo_pending demo_metrics]) (rule demo_serviceable)

text \<open>
  C11: an undelivered message that is not bound to a socket is dispatched again at most ten times,
  and at least \<open>2 ^ k\<close> seconds pass between its \<open>k\<close>-th and its next dispatch, whatever the
  times at which the thread looks at it.
\<close>

theorem retries_bounded_and_spaced:
  assumes "retry_inv m" "MsgState m = MSG_STATE_UNDELIVERED" "MsgSendRetryCount m = 0"
    and "\<forall>t \<in> set ts. 0 < t"
  shows "length (resent ts m) \<le> 10 \<and>
    (\<forall>k. Suc k < length (resent ts m) \<longrightarrow> resent ts m ! k + 2 ^ k \<le> resent ts m ! Suc k)"
  using resent_spaced [OF assms(1,2,4)] spaced_length [of 0] spaced_gaps [of 0] assms(3) by fastforce

lemma retries_bounded_and_spaced_witness:
  "length (resent [1, 2, 3, 4, 5, 6, 7, 8] (demo_msg MSG_STATE_UNDELIVERED MSG_CT_OB_UDP)) \<le> 10 \<and>
   resent [1, 2, 3, 4, 5, 6, 7, 8] (demo_msg MSG_STATE_UNDELIVERED MSG_CT_OB_UDP) = [1, 2, 4, 8]"
proof -
  let ?m = "demo_msg MSG_STATE_UNDELIVERED MSG_CT_OB_UDP"
  have "resent [1, 2, 3, 4, 5, 6, 7, 8] ?m = [1, 2, 4, 8]"
    by (simp add: pending_msg_def retry_undelivered_def msg_getters msg_setters Let_def MAX_MSG_RETRY_def)
  moreover have "retry_inv ?m" by (simp add: retry_inv_def)
  ultimately show ?thesis
    using retries_bounded_and_spaced [of ?m "[1, 2, 3, 4, 5, 6, 7, 8]"] by simp
qed

text \<open>
  looking for pending messages visits each message of the pool once: it changes each as
  \<open>after_round\<close> says, puts exactly the dispatched ones on the priority queue, in the order of the
  pool, and leaves the pool unlocked.
\<close>

theorem pending_messages_queued:
  assumes "pool_inv (m_msgPool q)" "typed (m_msgPool q)"
  shows "\<exists>p'. ProcessPendingMessages now q =
      Inr (q\<lparr>m_msgPool := p',
             m_priority_queue := m_priority_queue q @
               filter (is_pending (m_msgPool q)) (m_Messages (m_msgPool q))\<rparr>) \<and>
    m_store p' = (\<lambda>a. map_option (after_round now) (m_store (m_msgPool q) a)) \<and>
    m_Messages p' = m_Messages (m_msgPool q) \<and> m_FreeMsgStack p' = m_FreeMsgStack (m_msgPool q) \<and>
    \<not> m_bLocked p'"
  using ProcessPendingMessages_spec [OF assms, of now] by blast

lemma pending_messages_queued_witness:
  "\<exists>q'. ProcessPendingMessages 100 (demo_queue (demo_msg MSG_STATE_PENDING MSG_CT_OB_TCP) []) = Inr q' \<and>
     m_priority_queue q' = [0] \<and> state_of (m_msgPool q') 0 = Some MSG_STATE_INUSE"
proof -
  let ?q = "demo_queue (demo_msg MSG_STATE_PENDING MSG_CT_OB_TCP) []"
  have "pool_inv (m_msgPool ?q)" "typed (m_msgPool ?q)" by (simp_all add: demo_pool_inv typed_def)
  from pending_messages_queued [OF this, of 100] show ?thesis
    by (auto simp: is_pending_def state_of_def after_round_pending)
qed

section \<open>Messages and their pool\<close>

text \<open>
  the reply to a message that is being worked on is a fresh message of the pool, answers it
  (its identity, its sender as the addressee, its priority and sockets, the opposite direction) and
  changes no other message.
\<close>

theorem reply_answers:
  assumes "held q b" "m_store (m_msgPool q) b = Some m"
  shows "\<exists>a q' n. CreateMessageReply env q (Some b) = Inr (a, q') \<and> held q' a \<and> held q' b \<and> a \<noteq> b \<and>
    m_store (m_msgPool q') a = Some n \<and> answers m n \<and>
    m_store (m_msgPool q') b = Some (Msg_SetCloned m) \<and>
    (\<forall>c. c \<noteq> a \<and> c \<noteq> b \<longrightarrow> m_store (m_msgPool q') c = m_store (m_msgPool q) c)"
  using CreateMessageReply_spec [OF assms] .

lemma reply_answers_witness:
  "\<exists>a q' n. CreateMessageReply demo_env (demo_queue (demo_msg MSG_STATE_INUSE MSG_CT_IB_TCP) []) (Some 0) =
     Inr (a, q') \<and> held q' a \<and> m_store (m_msgPool q') a = Some n \<and> MsgConnectionType n = MSG_CT_OB_TCP"
proof -
  let ?m = "demo_msg MSG_STATE_INUSE MSG_CT_IB_TCP"
  have "held (demo_queue ?m []) 0" by (rule demo_held) simp
  moreover have "m_store (m_msgPool (demo_queue ?m [])) 0 = Some ?m" by simp
  ultimately show ?thesis
    using reply_answers [of "demo_queue ?m []" 0 ?m demo_env] by (fastforce simp: answers_def reply_type_def)
qed

text \<open>
  Posting a notification for a message dispatches one new message, back to the sender and with
  the same identity, and leaves every message of the pool as it was.
\<close>

lemma notification_posted:
  assumes "held q b" "m_store (m_msgPool q) b = Some m"
  shows "\<exists>a p ids n. PostNotifyMessage env q b = Inr (q\<lparr>m_msgPool := p, m_UniqueIDProvider := ids\<rparr>) \<and>
    held (q\<lparr>m_msgPool := p, m_UniqueIDProvider := ids\<rparr>) b \<and> a \<noteq> b \<and> m_store p a = Some n \<and>
    MsgState n = MSG_STATE_PENDING \<and> MsgFormat n = MSG_FORMAT_NOTIFY \<and> MsgTo n = cstr (MsgFrom m) \<and>
    MsgID n = cstr (MsgID m) \<and> MsgPriority n = 1255 \<and>
    (\<forall>c. c \<noteq> a \<longrightarrow> m_store p c = m_store (m_msgPool q) c)"
  using PostNotifyMessage_spec [OF assms] .

lemma notification_posted_witness:
  "\<exists>q' a. PostNotifyMessage demo_env (demo_queue (demo_msg MSG_STATE_INUSE MSG_CT_IB_TCP) []) 0 = Inr q' \<and>
     state_of (m_msgPool q') a = Some MSG_STATE_PENDING"
proof -
  let ?m = "demo_msg MSG_STATE_INUSE MSG_CT_IB_TCP"
  have "held (demo_queue ?m []) 0" by (rule demo_held) simp
  moreover have "m_store (m_msgPool (demo_queue ?m [])) 0 = Some ?m" by simp
  ultimately show ?thesis
    using notification_posted [of "demo_queue ?m []" 0 ?m demo_env] by (fastforce simp: state_of_def)
qed

text \<open>
  C12: flushing the pool ends, keeps the pool consistent, leaves it unlocked and keeps every message
  that is in use, pending or undelivered as it is.
\<close>

theorem flush_keeps_busy:
  assumes "pool_inv p"
  shows "\<exists>p'. FlushMessages now p = Inr p' \<and> pool_inv p' \<and> \<not> m_bLocked p' \<and> busy_kept p p'"
  using FlushMessages_spec [OF assms] .

lemma flush_keeps_busy_witness:
  "\<exists>p'. FlushMessages 100 (demo_pool (demo_msg MSG_STATE_INUSE MSG_CT_IB_TCP)) = Inr p' \<and>
     state_of p' 0 = Some MSG_STATE_INUSE"
  using flush_keeps_busy [OF demo_pool_inv, of 100 "demo_msg MSG_STATE_INUSE MSG_CT_IB_TCP"]
  by (fastforce simp: busy_kept_def busy_def state_of_def)

text \<open>
  in a pool without expired messages one flush puts every message that is not in use on the
  free stack, so that its memory is used again.
\<close>

theorem flush_reclaims:
  assumes "pool_inv p" "\<forall>a m. m_store p a = Some m \<longrightarrow> \<not> expired now m"
  shows "\<exists>p'. FlushMessages now p = Inr p' \<and> m_Messages p' = m_Messages p \<and>
    (\<forall>a m. m_store p a = Some m \<and> \<not> busy (MsgState m) \<longrightarrow> a \<in> set (m_FreeMsgStack p'))"
  using FlushMessages_reclaims [OF assms] .

lemma flush_reclaims_witness:
  "\<exists>p'. FlushMessages 100 (demo_pool (demo_msg MSG_STATE_DELIVERED MSG_CT_IB_TCP)) = Inr p' \<and>
     0 \<in> set (m_FreeMsgStack p')"
proof -
  let ?m = "demo_msg MSG_STATE_DELIVERED MSG_CT_IB_TCP"
  have "\<forall>a m. m_store (demo_pool ?m) a = Some m \<longrightarrow> \<not> expired 100 m"
    by (auto simp: expired_def split: if_splits)
  from flush_reclaims [OF demo_pool_inv this] show ?thesis by (auto simp: busy_def)
qed

text \<open>
  Deleting an expired message moves the pool's iterator past its successor: of three messages
  the first of which has expired, the flush deletes the first and does not look at the others.
\<close>

theorem flush_skips_after_delete:
  assumes "m_Messages p = [a, b, c]" "m_store p a = Some m" "expired now m" "distinct [a, b, c]"
  shows "\<exists>p'. FlushMessages now p = Inr p' \<and> m_Messages p' = [b, c] \<and> m_FreeMsgStack p' = [] \<and>
     m_store p' b = m_store p b \<and> m_store p' c = m_store p c"
  using flush_skips [OF assms] .

lemma flush_skips_after_delete_witness:
  "\<exists>p'. FlushMessages 100000
       \<lparr>m_store = (\<lambda>_. Some (demo_msg MSG_STATE_INACTIVE MSG_CT_IB_TCP)), m_iNextAddr = 3, m_bLocked = False,
        m_Messages = [0, 1, 2], m_it = 0, m_FreeMsgStack = []\<rparr> = Inr p' \<and> m_Messages p' = [1, 2]"
proof -
  let ?m = "demo_msg MSG_STATE_INACTIVE MSG_CT_IB_TCP"
  let ?p = "\<lparr>m_store = (\<lambda>_. Some ?m), m_iNextAddr = 3, m_bLocked = False,
        m_Messages = [0, 1, 2], m_it = 0, m_FreeMsgStack = []\<rparr>"
  have "expired 100000 ?m" by (simp add: expired_def)
  then show ?thesis using flush_skips_after_delete [of ?p 0 1 2 ?m 100000] by auto
qed

text \<open>
  a message that is taken from the pool was free or did not exist, is reset and in use, is in
  no queue, and no other message is touched.
\<close>

theorem get_message_fresh:
  assumes "mq_inv q"
  shows "\<exists>a p ids newid. MQ_GetMessage env q = Inr (a, q\<lparr>m_msgPool := p, m_UniqueIDProvider := ids\<rparr>) \<and>
    held (q\<lparr>m_msgPool := p, m_UniqueIDProvider := ids\<rparr>) a \<and>
    state_of (m_msgPool q) a \<in> {Some MSG_STATE_INACTIVE, None} \<and>
    (\<exists>m. m_store p a = Some (Msg_SetMsgState (Msg_ResetMsg newid (e_now env) m) MSG_STATE_INUSE)) \<and>
    (\<forall>b. b \<noteq> a \<longrightarrow> m_store p b = m_store (m_msgPool q) b)"
  using MQ_GetMessage_spec [OF assms] .

lemma get_message_fresh_witness:
  "\<exists>a q'. MQ_GetMessage demo_env (demo_queue (demo_msg MSG_STATE_DELIVERED MSG_CT_OB_TCP) []) = Inr (a, q') \<and>
     held q' a \<and> a \<noteq> 0"
proof -
  let ?q = "demo_queue (demo_msg MSG_STATE_DELIVERED MSG_CT_OB_TCP) []"
  have "mq_inv ?q" by (rule demo_queue_inv) simp
  from get_message_fresh [OF this, of demo_env] show ?thesis by (auto simp: state_of_def split: if_splits)
qed

text \<open>
  an inbound message whose command has no handler is not refused: the queue follows the null
  handler. This happens for every message that is not MCP when no rule matches and nothing is
  registered for its command.
\<close>

theorem unserved_inbound:
  assumes "m_store (m_msgPool q) a = Some m" "IncMsgDelivered (m_pSysMetrics q) \<noteq> None"
    and "MsgNotifyActionType m = MSG_NOTIFY_ACTION_NO"
    and "\<not> starts_with ''MCP/'' (Msg_GetCommand m)" "m_RuleSets (m_pRouterRulesEngine q) = []"
    and "GetCommandHandler (m_pCommandHandlerFactory q) (Msg_GetCommand m) = None"
  shows "ProcessInboundMessage env q a = Inl NullPointer"
  using unserved_inbound_faults [OF assms] .

lemma unserved_inbound_witness:
  "ProcessInboundMessage demo_env (demo_queue (demo_msg MSG_STATE_INUSE MSG_CT_IB_TCP) []) 0 = Inl NullPointer"
  by (rule unserved_inbound [where m = "demo_msg MSG_STATE_INUSE MSG_CT_IB_TCP", OF _ demo_metrics])
    (simp_all add: starts_with_def Msg_GetCommand_def GetCommandHandler_def smap_find_def)

section \<open>Parsing a message\<close>

text \<open>
  parsing a well-formed message succeeds for every list of header lines and every body (bytes
  of any value): the command and the status line come from the first line, the members from the
  header fields of their names, an identity that is missing or \<open>0\<close> is replaced by the fresh one,
  and the working and the raw buffer still hold the message as it arrived.
\<close>

theorem parse_message:
  assumes "holds (MsgBuffer m) (message_text ls body)" "terminated (MsgBuffer m)" "header_lines ls"
    and "holds (MsgRawBuffer m) old" "SP \<notin> set cmd" "hd ls = cmd @ SP # line"
  shows "\<exists>m'. Msg_Parse this newid ct ms m = Inr m' \<and>
    MsgCommand m' = cmd \<and> MsgStatusLine m' = hd ls \<and> MsgFormat m' = ms \<and>
    MsgID m' = (let i = header_field ls ''MsgID'' in if i = [] \<or> i = ''0'' then newid else i) \<and>
    MsgTo m' = parse_tag (header_field ls ''To'') \<and> MsgFrom m' = parse_tag (header_field ls ''From'') \<and>
    MsgSubject m' = header_field ls ''Subject'' \<and>
    MsgPriority m' = parse_priority (header_field ls ''Options'') \<and>
    MsgNotifyActionType m' = parse_notify (header_field ls ''Options'') \<and>
    MsgContentType m' = header_field ls ''Content-Type'' \<and>
    (let n = header_field ls ''Content-Length''
     in MsgContentLength m' = (if n = [] then 0 else atoi (cstr n)) \<and>
        m_pPayload m' = (if n = [] then m_pPayload m else Some (MsgPtr this (int (length (join_lines ls)) + 2)))) \<and>
    holds (MsgRawBuffer m') (message_text ls body) \<and> holds (MsgBuffer m') (message_text ls body)"
proof -
  from Parse_message [OF assms, of this newid ct ms] obtain h b' raw' where
    p: "Msg_Parse this newid ct ms m =
      Inr (parse_fields this newid (int (length (join_lines ls) - 2))
        ((Msg_UpdateMsgConnectionType
           (m\<lparr>MsgRawBuffer := raw', MsgStatusLine := hd ls,
              MsgHeaderSize := int (length (join_lines ls) - 2),
              MsgCommand := cmd\<rparr>) ct)\<lparr>MsgFormat := ms, m_HeaderExtract := h, MsgBuffer := b'\<rparr>))"
    and b: "holds raw' (message_text ls body)" "holds b' (message_text ls body)"
    and h: "m_Params h = fold header_line ls []" by blast
  have len: "int (length (join_lines ls) - 2) + 4 = int (length (join_lines ls)) + 2"
    using assms(3) by (simp add: header_lines_def)
  show ?thesis unfolding p
    by (rule exI, rule conjI, rule refl)
      (simp add: parse_fields_def Let_def header_field_GetValue [OF h] Msg_UpdateMsgConnectionType_def b len)
qed

lemma parse_message_witness:
  "\<exists>m'. Msg_Parse 0 ''9'' MSG_CT_IB_TCP MSG_FORMAT_REQ
       ((new_cMsg ''7'' 90)\<lparr>MsgBuffer := demo_buffer (message_text [''ECHO MCP/1.0'', ''MsgID: 5'', ''To: bob''] ''hi'')\<rparr>) = Inr m' \<and>
     MsgCommand m' = ''ECHO'' \<and> MsgID m' = ''5'' \<and> MsgTo m' = ''bob'' \<and> MsgSubject m' = []"
proof -
  let ?ls = "[''ECHO MCP/1.0'', ''MsgID: 5'', ''To: bob'']"
  let ?m = "(new_cMsg ''7'' 90)\<lparr>MsgBuffer := demo_buffer (message_text ?ls ''hi'')\<rparr>"
  have l: "header_lines ?ls" by code_simp
  have c: "SP \<notin> set ''ECHO''" "hd ?ls = ''ECHO'' @ SP # ''MCP/1.0''" by code_simp+
  have f: "header_field ?ls ''MsgID'' = ''5''" "header_field ?ls ''To'' = ''bob''" "header_field ?ls ''Subject'' = []"
    "parse_tag ''bob'' = ''bob''" by code_simp+
  have b: "holds (MsgBuffer ?m) (message_text ?ls ''hi'')" "terminated (MsgBuffer ?m)"
    by (simp_all add: demo_buffer_holds demo_buffer_terminated)
  have r: "holds (MsgRawBuffer ?m) []" by (simp add: new_cMsg_def Msg_ResetMsg_def blank_cMsg_def holds_Reset [OF holds_new])
  from parse_message [OF b l r c, of 0 "''9''" MSG_CT_IB_TCP MSG_FORMAT_REQ] f show ?thesis
    by (auto simp: Let_def)
qed

end
