(* ===== verification/HandlerProperties.thy ===== *)
theory HandlerProperties
  imports RouterRules NodeTables CommandHandlerDecorator SysMetrics UniqueIDProvider DataProperties
begin

text \<open>
  The properties of routing rules, of the registry of handlers and of the threads that serve them,
  of the identity provider and of the counters.
\<close>

section \<open>Finding a handler\<close>

text \<open>
  With rules of the CONTAINS kind, the search answers the target of the first rule set all of
  whose rules hold of the message, and nothing when there is none; it changes the message in
  nothing that the rules look at.
\<close>

theorem search_first_match:
  assumes "engine_inv e" "msg_is m st t hdr"
    and "\<forall>rs \<in> set (m_RuleSets e). \<forall>r \<in> set (m_RuleSet rs). m_OperationType r = MSG_RTO_CONTAINS"
  shows "\<exists>m'. RulesEngine_Search e m =
      Inr (m', map_option (\<lambda>rs. cstr (m_RouteTo rs))
                 (find (\<lambda>rs. \<forall>r \<in> set (m_RuleSet rs). rule_holds st t hdr r) (m_RuleSets e))) \<and>
    msg_is m' st t hdr"
  using Search_spec [OF assms] .

lemma search_first_match_witness:
  "\<exists>m'. RulesEngine_Search
       (RulesEngine_AddRule (RulesEngine_AddRule new_cMsgRouterRulesEngine ''a'' ''ECHO''
          \<lparr>m_Location = MSG_RTL_STATUS, m_OperationType = MSG_RTO_CONTAINS, m_MatchPattern = [], m_Value = ''PUT''\<rparr>)
          ''b'' ''FILE''
          \<lparr>m_Location = MSG_RTL_STATUS, m_OperationType = MSG_RTO_CONTAINS, m_MatchPattern = [], m_Value = ''GET''\<rparr>)
       ((new_cMsg ''7'' 90)\<lparr>MsgBuffer := demo_buffer ''GET /'', MsgStatusLine := ''GET /'', MsgHeaderSize := 5\<rparr>) =
     Inr (m', Some ''FILE'')"
proof -
  let ?r = "\<lambda>v. \<lparr>m_Location = MSG_RTL_STATUS, m_OperationType = MSG_RTO_CONTAINS, m_MatchPattern = [], m_Value = v\<rparr>"
  let ?e1 = "RulesEngine_AddRule new_cMsgRouterRulesEngine ''a'' ''ECHO'' (?r ''PUT'')"
  let ?e = "RulesEngine_AddRule ?e1 ''b'' ''FILE'' (?r ''GET'')"
  let ?m = "(new_cMsg ''7'' 90)\<lparr>MsgBuffer := demo_buffer ''GET /'', MsgStatusLine := ''GET /'', MsgHeaderSize := 5\<rparr>"
  have inv: "engine_inv ?e" by (intro engine_inv_AddRule engine_inv_new)
  have sets: "m_RuleSets ?e = [\<lparr>m_RuleSetName = ''a'', m_RouteTo = ''ECHO'', m_RuleSet = [?r ''PUT'']\<rparr>,
      \<lparr>m_RuleSetName = ''b'', m_RouteTo = ''FILE'', m_RuleSet = [?r ''GET'']\<rparr>]"
    by (simp add: RulesEngine_AddRule_def new_cMsgRouterRulesEngine_def smap_find_def smap_insert_def
        RuleSet_AddRule_def)
  have m: "msg_is ?m ''GET /'' ''GET /'' 5"
    by (simp add: msg_is_def demo_buffer_holds Msg_GetStatusLine_def Msg_GetHeaderSize_def cstr_id)
  have h: "\<not> rule_holds ''GET /'' ''GET /'' 5 (?r ''PUT'')" "rule_holds ''GET /'' ''GET /'' 5 (?r ''GET'')"
    "cstr ''FILE'' = ''FILE''" by code_simp+
  from search_first_match [OF inv m] show ?thesis unfolding sets using h by auto
qed

text \<open>
  Registering a handler for a plain name serves that name and every dotted command below it, every
  other command is looked up as before, and registering a name that is served throws.
\<close>

theorem register_then_get:
  assumes "CHR ''.'' \<notin> set c" "NUL \<notin> set c" "NUL \<notin> set d"
  shows "case GetCommandHandler f c of
      Some _ \<Rightarrow> \<exists>e. RegisterCommandHandler f c h = Inl (Thrown e)
    | None \<Rightarrow> \<exists>g. RegisterCommandHandler f c h = Inr g \<and>
        GetCommandHandler g d = (if command_name d = c then Some h else GetCommandHandler f d)"
  using get_after_register [OF assms] .

lemma register_then_get_witness:
  "\<exists>g. RegisterCommandHandler [] ''ECHO'' (7 :: nat) = Inr g \<and> GetCommandHandler g ''ECHO.start'' = Some 7"
proof -
  have "command_name ''ECHO.start'' = ''ECHO''" "GetCommandHandler ([] :: (string \<times> nat) list) ''ECHO'' = None"
    by code_simp+
  then show ?thesis using register_then_get [of "''ECHO''" "''ECHO.start''" "[]" "7 :: nat"] by simp
qed

text \<open>
  A handler that is registered under a name with a dot is never found: the registry stores the
  whole name, but looks only for what stands before the first dot.
\<close>

theorem dotted_name_unreachable:
  assumes "CHR ''.'' \<in> set c" "NUL \<notin> set c" "NUL \<notin> set d" "RegisterCommandHandler f c h = Inr g"
  shows "GetCommandHandler g d = GetCommandHandler f d"
  using dotted_registration_lost [OF assms] .

lemma dotted_name_unreachable_witness:
  "\<exists>g. RegisterCommandHandler [] ''MC.file'' (7 :: nat) = Inr g \<and> GetCommandHandler g ''MC.file'' = None"
proof -
  have "RegisterCommandHandler [] ''MC.file'' (7 :: nat) = Inr [(''MC.file'', 7)]" by code_simp
  then show ?thesis using dotted_name_unreachable [of "''MC.file''" "''MC.file''" "[]" "7 :: nat"]
    by (simp add: GetCommandHandler_def smap_find_def)
qed

text \<open>
  C14: a handler's thread that makes at least as many passes as jobs are queued processes every job
  exactly once, in the order of their priorities.
\<close>

theorem jobs_served_by_priority:
  assumes "length (m_jobQueue d) \<le> length ts"
  shows "\<exists>js. served prio ts d [] = Inr js \<and> mset js = mset (m_jobQueue d) \<and>
    sorted_wrt (\<lambda>x y. prio y \<le> prio x) js"
  using served_all [OF assms] .

lemma jobs_served_by_priority_witness:
  "\<exists>js. served (\<lambda>a. int a) [1, 2, 3] (Decorator_OnProcess (Decorator_OnProcess new_cCommandHandlerDecorator 4) 7) [] =
     Inr js \<and> mset js = {#4, 7#} \<and> sorted_wrt (\<lambda>x y. int y \<le> int x) js"
  using jobs_served_by_priority [of "Decorator_OnProcess (Decorator_OnProcess new_cCommandHandlerDecorator 4) 7"
      "[1, 2, 3]" "\<lambda>a. int a"]
  by (auto simp: Decorator_OnProcess_def new_cCommandHandlerDecorator_def pq_push_def)

section \<open>Identities\<close>

text \<open>
  C13: as long as the system's generator never repeats itself or answers an empty text, the
  identities handed out are all different, in every interleaving of requests and of the thread that
  refills the vector.
\<close>

theorem identities_distinct:
  assumes "inj uuid" "\<forall>n. uuid n \<noteq> []" "uid_run uuid p issued"
  shows "distinct issued"
  using uid_run_inv [OF assms] by (simp add: uid_inv_def)

lemma identities_distinct_witness:
  "\<exists>i j p1 p2 p3. UniqueID_GetID (\<lambda>n. replicate (Suc n) (CHR ''u'')) (new_cUniqueIDProvider (\<lambda>n. replicate (Suc n) (CHR ''u''))) = (i, p1) \<and>
     UniqueID_Run (\<lambda>n. replicate (Suc n) (CHR ''u'')) p1 = p2 \<and>
     UniqueID_GetID (\<lambda>n. replicate (Suc n) (CHR ''u'')) p2 = (j, p3) \<and> i \<noteq> j"
proof -
  let ?u = "\<lambda>n. replicate (Suc n) (CHR ''u'')"
  obtain i p1 where p1: "UniqueID_GetID ?u (new_cUniqueIDProvider ?u) = (i, p1)" by fastforce
  obtain j p3 where p3: "UniqueID_GetID ?u (UniqueID_Run ?u p1) = (j, p3)" by fastforce
  have "inj ?u"
  proof (rule injI)
    fix m n assume "?u m = ?u n"
    then have "length (?u m) = length (?u n)" by (rule arg_cong)
    then show "m = n" by simp
  qed
  moreover have "uid_run ?u p3 [j, i]"
    by (intro uid_run.get [OF _ p3] uid_run.refill uid_run.get [OF _ p1] uid_run.start)
  ultimately have "distinct [j, i]" using identities_distinct [of ?u p3 "[j, i]"] by simp
  then show ?thesis using p1 p3 by fastforce
qed

section \<open>Counters\<close>

text \<open>
  Whatever the thread of the counters and its clients do, as long as the clock does not run
  backwards, no counter is ever written outside its array of one hour.
\<close>

theorem counters_in_bounds:
  assumes "metrics_run now s" "r \<in> inc_any s"
  shows "r \<noteq> None"
  using inc_never_out_of_bounds [OF metrics_run_inv [OF assms(1)] assms(2)] .

lemma counters_in_bounds_witness:
  "IncMsgDelivered (SysMetrics_Run_pass 3700 (SysMetrics_Run_start 50 (new_cSysMetrics 0))) \<noteq> None"
proof -
  have "metrics_run 3700 (SysMetrics_Run_pass 3700 (SysMetrics_Run_start 50 (new_cSysMetrics 0)))"
    by (rule metrics_run.pass [OF metrics_run.start]) simp
  then show ?thesis by (rule counters_in_bounds) (simp add: inc_any_def)
qed

text \<open>
  The up-time that is reported in days, hours, minutes and seconds adds up to the time since
  the start.
\<close>

lemma uptime_adds_up:
  "m_iUTDays (UpdateUpTime now s) * 86400 + m_iUTHours (UpdateUpTime now s) * 3600 +
     m_iUTMins (UpdateUpTime now s) * 60 + m_iUTSecs (UpdateUpTime now s) =
   now - m_iSystemTimeStamp s"
  by (rule uptime_sum)

end
