(* ===== verification/ConnectionProperties.thy ===== *)
theory ConnectionProperties
  imports ConnectionQueue
begin

text \<open>
  The properties of the cache of connections and of the queue that feeds it. The examples start
  from a cache with one connection, on socket 5, that was added at time 10.
\<close>

definition demo_cache :: cConnectionCache where
  "demo_cache =
     (case Cache_AddConnection 10 new_cConnectionCache 5 (0, 0) 80 of Inr c \<Rightarrow> c | Inl _ \<Rightarrow> new_cConnectionCache)"

lemma demo_cache:
  "cache_inv demo_cache" "actives demo_cache = [5]" "m_itIncompleteMarker demo_cache = End"
  "m_ConnectionMap demo_cache s = None \<longleftrightarrow> s \<noteq> 5"
  "cr_it (map_lookup demo_cache 5) = Node 0" "cr_timestamp (map_lookup demo_cache 5) = 10"
  "pendingwrite (map_lookup demo_cache 5) = False" "cr_State (map_lookup demo_cache 5) = CRS_WAITING"
proof -
  have new: "cache_inv new_cConnectionCache" "5 \<notin> set (actives new_cConnectionCache)"
    by (simp_all add: cache_inv_def new_cConnectionCache_def actives_def)
  have "valid_socket 5" by (simp add: valid_socket_def)
  from AddConnection_spec [OF new(1) this new(2), of 10 "(0, 0)" 80] obtain c b where
    c: "Cache_AddConnection 10 new_cConnectionCache 5 (0, 0) 80 = Inr c" "cache_inv c"
      "actives c = actives new_cConnectionCache @ [5]"
      "m_itIncompleteMarker c = m_itIncompleteMarker new_cConnectionCache"
      "map_lookup c 5 = \<lparr>Socketfd = 5, SocketAddr = (0, 0), arrivalPort = 80, cr_timestamp = 10,
        cr_State = CRS_WAITING, pendingwrite = False, cr_buffer = b, pActiveHandler = None,
        cr_it = Node (m_iNextNode new_cConnectionCache)\<rparr>"
      "\<forall>s'. s' \<noteq> 5 \<longrightarrow> m_ConnectionMap c s' = m_ConnectionMap new_cConnectionCache s'" by blast
  have "m_ConnectionMap c 5 \<noteq> None"
    using c(5) by (cases "m_ConnectionMap c 5") (simp_all add: map_lookup_def new_ConnectionRecord_def)
  then show "cache_inv demo_cache" "actives demo_cache = [5]" "m_itIncompleteMarker demo_cache = End"
    "m_ConnectionMap demo_cache s = None \<longleftrightarrow> s \<noteq> 5"
    "cr_it (map_lookup demo_cache 5) = Node 0" "cr_timestamp (map_lookup demo_cache 5) = 10"
    "pendingwrite (map_lookup demo_cache 5) = False" "cr_State (map_lookup demo_cache 5) = CRS_WAITING"
    using c by (auto simp: demo_cache_def new_cConnectionCache_def actives_def)
qed

section \<open>The cache\<close>

text \<open>
  Adding a socket that is not active appends it to the active connections with an empty
  buffer, no handler and the time of its arrival, keeps the cache consistent and leaves every other
  record alone.
\<close>

theorem add_connection:
  assumes "cache_inv c" "valid_socket s" "s \<notin> set (actives c)"
  shows "\<exists>c' b. Cache_AddConnection now c s addr port = Inr c' \<and> cache_inv c' \<and>
    actives c' = actives c @ [s] \<and> m_Closed c' = m_Closed c \<and> holds b [] \<and>
    map_lookup c' s = \<lparr>Socketfd = s, SocketAddr = addr, arrivalPort = port, cr_timestamp = now,
      cr_State = CRS_WAITING, pendingwrite = False, cr_buffer = b, pActiveHandler = None,
      cr_it = Node (m_iNextNode c)\<rparr> \<and>
    (\<forall>s'. s' \<noteq> s \<longrightarrow> m_ConnectionMap c' s' = m_ConnectionMap c s')"
  using AddConnection_spec [OF assms, of now addr port] by blast

lemma add_connection_witness:
  "\<exists>c'. Cache_AddConnection 20 demo_cache 6 (1, 2) 80 = Inr c' \<and> cache_inv c' \<and> actives c' = [5, 6]"
  using add_connection [OF demo_cache(1), of 6 20 "(1, 2)" 80] by (auto simp: valid_socket_def demo_cache(2))

text \<open>
  freeing a connection closes its socket, takes it out of the active ones, keeps the cache
  consistent and changes no other record and no position of the traversals.
\<close>

theorem free_connection:
  assumes "cache_inv c" "s \<noteq> -1" "\<And>r. m_ConnectionMap c s = Some r \<Longrightarrow> cr_it r \<noteq> Singular"
  shows "\<exists>c'. Cache_FreeConnection c s = Inr c' \<and> cache_inv c' \<and>
    actives c' = filter (\<lambda>s'. s' \<noteq> s) (actives c) \<and> m_Closed c' = m_Closed c @ [s] \<and>
    m_list_it c' = m_list_it c \<and> m_itIncompleteMarker c' = m_itIncompleteMarker c \<and>
    (\<forall>s'. s' \<noteq> s \<longrightarrow> m_ConnectionMap c' s' = m_ConnectionMap c s')"
  using FreeConnection_spec [OF assms] .

lemma free_connection_witness:
  "\<exists>c'. Cache_FreeConnection demo_cache 5 = Inr c' \<and> cache_inv c' \<and> actives c' = []"
proof -
  have "cr_it r \<noteq> Singular" if "m_ConnectionMap demo_cache 5 = Some r" for r
    using that demo_cache(5) by (simp add: map_lookup_def)
  then show ?thesis using free_connection [OF demo_cache(1), of 5] by (auto simp: demo_cache(2))
qed

text \<open>
  the time-out pass ends, closes exactly the connections that are waiting, have nothing to
  write and are older than the time-out, keeps the others in their order with their records, and
  keeps the cache consistent although it erases from the list it walks.
\<close>

theorem timeout_connections:
  assumes "cache_inv c"
  shows "\<exists>c'. Cache_TimeoutConnections now c t = Some (Inr c') \<and> cache_inv c' \<and>
    actives c' = filter (\<lambda>s. \<not> timed_out now t (map_lookup c s)) (actives c) \<and>
    m_Closed c' = m_Closed c @ filter (\<lambda>s. timed_out now t (map_lookup c s)) (actives c) \<and>
    (\<forall>s \<in> set (actives c'). m_ConnectionMap c' s = m_ConnectionMap c s)"
  using TimeoutConnections_spec [OF assms] .

lemma timeout_connections_witness:
  "\<exists>c1 c2. Cache_TimeoutConnections 70 demo_cache 60 = Some (Inr c1) \<and> actives c1 = [5] \<and>
     Cache_TimeoutConnections 71 demo_cache 60 = Some (Inr c2) \<and> actives c2 = []"
  using timeout_connections [OF demo_cache(1), of 70 60] timeout_connections [OF demo_cache(1), of 71 60]
  by (auto simp: demo_cache timed_out_def)

text \<open>
  With fewer than \<open>FD_SETSIZE\<close> descriptors, every active socket is put into the set that is
  passed to \<open>select\<close> and the greatest is reported.
\<close>

lemma set_active_connections:
  assumes "cache_inv c" "\<forall>s \<in> set (actives c). s < FD_SETSIZE" "m_itIncompleteMarker c = End"
  shows "\<exists>c'. Cache_SetActiveConnections c fds FD_SETSIZE =
      Inr (fds \<union> set (actives c), fold max (actives c) 0, c') \<and>
    cache_inv c' \<and> actives c' = actives c \<and> m_Closed c' = m_Closed c \<and>
    m_itIncompleteMarker c' = End \<and> m_ConnectionMap c' = m_ConnectionMap c"
  using SetActiveConnections_spec [OF assms] .

lemma set_active_connections_witness:
  "\<exists>c'. Cache_SetActiveConnections demo_cache {} FD_SETSIZE = Inr ({5}, 5, c')"
  using set_active_connections [OF demo_cache(1) _ demo_cache(3), of "{}"]
  by (auto simp: demo_cache FD_SETSIZE_def)

text \<open>
  Marking a socket the cache does not know makes a record whose list iterator was never set;
  freeing that socket erases through the iterator.
\<close>

theorem mark_then_free_faults:
  assumes "valid_socket s" "m_ConnectionMap c s = None"
  shows "\<exists>c'. Cache_MarkPendingWrite c s = Inr c' \<and> Cache_FreeConnection c' s = Inl Indeterminate"
  using free_after_lookup [OF assms] .

lemma mark_then_free_faults_witness:
  "\<exists>c'. Cache_MarkPendingWrite demo_cache 9 = Inr c' \<and> Cache_FreeConnection c' 9 = Inl Indeterminate"
  using mark_then_free_faults [of 9 demo_cache] by (simp add: valid_socket_def demo_cache(4))

text \<open>An active socket can be added again: nothing in \<open>AddConnection\<close> looks for it.\<close>

lemma AddConnection_again:
  assumes inv: "cache_inv c" and k: "(k, s) \<in> set (m_ActiveConnectionList c)"
  shows "\<exists>c1. Cache_AddConnection now c s addr port = Inr c1"
proof -
  from node_okD [OF inv k] obtain r where r: "m_ConnectionMap c s = Some r" "valid_socket s" by blast
  then have "record_ok (m_ActiveConnectionList c) s r" using inv unfolding cache_inv_def by blast
  then obtain t where "holds (cr_buffer r) t" by (auto simp: record_ok_def)
  from SetBufferSize_holds [OF this, of 8096] obtain b where
    "Buffer_SetBufferSize (cr_buffer r) 8096 = Inr b" by auto
  then show ?thesis using r by (simp add: Cache_AddConnection_def Let_def map_lookup_def)
qed

text \<open>
  Adding a socket that is already active leaves its first list node behind for good: freeing
  the connection erases only the second, and the list keeps a node whose record is free.
\<close>

lemma second_add_leaves_node:
  assumes "cache_inv c" "(k, s) \<in> set (m_ActiveConnectionList c)"
    and "Cache_AddConnection now c s addr port = Inr c1"
  shows "\<exists>c2. Cache_FreeConnection c1 s = Inr c2 \<and> (k, s) \<in> set (m_ActiveConnectionList c2) \<and>
    cr_State (map_lookup c2 s) = CRS_FREE"
  using add_twice_leaves_node [OF assms] .

lemma second_add_leaves_node_witness:
  "\<exists>c1 c2. Cache_AddConnection 20 demo_cache 5 (0, 0) 80 = Inr c1 \<and> Cache_FreeConnection c1 5 = Inr c2 \<and>
     5 \<in> set (actives c2)"
proof -
  obtain k where k: "(k, 5) \<in> set (m_ActiveConnectionList demo_cache)"
    using demo_cache(2) by (cases "m_ActiveConnectionList demo_cache") (auto simp: actives_def)
  obtain c1 where c1: "Cache_AddConnection 20 demo_cache 5 (0, 0) 80 = Inr c1"
    using AddConnection_again [OF demo_cache(1) k, of 20 "(0, 0)" 80] by blast
  from second_add_leaves_node [OF demo_cache(1) k c1] obtain c2 where
    "Cache_FreeConnection c1 5 = Inr c2" "(k, 5) \<in> set (m_ActiveConnectionList c2)" by blast
  then show ?thesis using c1 by (force simp: actives_def)
qed

section \<open>The queue of new connections\<close>

text \<open>
  The thread of the connection queue moves every connection that waits into the cache, in the
  order in which they were accepted, and empties the queue.
\<close>

lemma prequeued_reach_cache:
  assumes "cache_inv (m_ConnectionCache q)" "\<forall>(s, a, p) \<in> set (waiting q). valid_socket s"
    and "distinct (actives (m_ConnectionCache q) @ map fst (waiting q))"
  shows "\<exists>q'. ConQueue_AddPrequeued now q = Inr q' \<and> cache_inv (m_ConnectionCache q') \<and>
    actives (m_ConnectionCache q') = actives (m_ConnectionCache q) @ map fst (waiting q) \<and>
    waiting q' = []"
  using AddPrequeued_spec [OF assms] .

lemma prequeued_reach_cache_witness:
  "\<exists>q'. ConQueue_AddPrequeued 30 (ConQueue_AddConnection (ConQueue_AddConnection
         ((new_cConnectionQueue 60)\<lparr>m_ConnectionCache := demo_cache\<rparr>) 8 (0, 0) 80) 7 (0, 0) 80) = Inr q' \<and>
     actives (m_ConnectionCache q') = [5, 8, 7]"
proof -
  let ?q = "ConQueue_AddConnection (ConQueue_AddConnection
         ((new_cConnectionQueue 60)\<lparr>m_ConnectionCache := demo_cache\<rparr>) 8 (0, 0) 80) 7 (0, 0) 80"
  have q: "m_ConnectionCache ?q = demo_cache" "waiting ?q = [(8, (0, 0), 80), (7, (0, 0), 80)]"
    by (simp_all add: ConQueue_AddConnection_def Let_def new_cConnectionQueue_def waiting_def)
  show ?thesis
    using prequeued_reach_cache [of ?q 30] by (auto simp: q demo_cache valid_socket_def)
qed

end
