(* ===== verification/ConnectionHandlerInbound.thy ===== *)
theory ConnectionHandlerInbound
  imports MsgQueueLaws MsgParse
begin

text \<open>
  \<open>connectionhandler.h\<close>, \<open>connectionhandlerinbound.h\<close> and \<open>connectionhandlerinbound.cpp\<close>: the
  class \<open>cConnectionHandlerInbound\<close>, which reads what arrived on a connection, finds out whether a
  request is complete and of which protocol it is, and makes a message of it.

  The handler works on the record of a connection inside the cache of the connection queue, through
  its socket. What \<open>recv\<close> answers is an argument. The pointer \<open>pData\<close> stays good while the
  protocol is analysed, since nothing in between moves the block; it is the block of the buffer.
\<close>

section \<open>State\<close>

datatype ProtocolType =
  eProtocol_HTTP_GET | eProtocol_HTTP_POST | eProtocol_HTTP_MCP | eProtocol_MCP
| eProtocol_INSUFFICIENT_DATA | eProtocol_UNKNOWN

definition HRC_CONNECTION_HANDLER_ENDTASK :: int where "HRC_CONNECTION_HANDLER_ENDTASK = 5"
definition HRC_CONNECTION_HANDLER_SENDERROR :: int where "HRC_CONNECTION_HANDLER_SENDERROR = 6"
definition HRC_CONNECTION_HANDLER_PARSE_NOT_READY :: int where "HRC_CONNECTION_HANDLER_PARSE_NOT_READY = 7"
definition HRC_CONNECTION_HANDLER_INVALIDATED_TASK :: int where "HRC_CONNECTION_HANDLER_INVALIDATED_TASK = 8"

lemmas handler_codes = HRC_CONNECTION_HANDLER_ENDTASK_def HRC_CONNECTION_HANDLER_SENDERROR_def
  HRC_CONNECTION_HANDLER_PARSE_NOT_READY_def HRC_CONNECTION_HANDLER_INVALIDATED_TASK_def

definition TRAILINGCRLFS :: int where "TRAILINGCRLFS = 4"

record cConnectionHandlerInbound =
  m_bCloseConnection :: bool
  ih_HeaderExtract :: cHeaderExtract
  m_ipaddr :: string
  m_msgHeaderEnd :: int
  m_msgSize :: int

text \<open>\<open>recv\<close>: the bytes, none when the other side has closed; an error that will pass, or one that will not.\<close>

datatype recv_result = Received string | WouldBlock | RecvError

section \<open>The protocol of the data in the buffer\<close>

text \<open>\<open>memcmp\<close> with a text may look at all its bytes.\<close>

definition memcmp_eq :: "block \<Rightarrow> string \<Rightarrow> bool result" where
  "memcmp_eq d s = rbind (mem_slice d 0 (int (length s))) (\<lambda>cells. rbind (mem_text cells) (\<lambda>t. Inr (t = s)))"

text \<open>
  The sum of two numbers of type \<open>int\<close>. Beyond 32 bits C++ leaves it undefined; the machine's addition
  wraps around, and so does this one.
\<close>

definition int_sum :: "int \<Rightarrow> int \<Rightarrow> int" where
  "int_sum a b = sint (of_int (a + b) :: 32 word)"

lemma int_sum_fits: "- (2 ^ 31) \<le> a + b \<Longrightarrow> a + b < 2 ^ 31 \<Longrightarrow> int_sum a b = a + b"
  unfolding int_sum_def by (simp only: signed_of_int) (simp add: signed_take_bit_int_eq_self)

definition AnalyzeProtocol ::
  "cConnectionHandlerInbound \<Rightarrow> cBuffer \<Rightarrow> (ProtocolType \<times> cConnectionHandlerInbound \<times> cBuffer) result" where
  "AnalyzeProtocol h b =
     rbind (Buffer_GetBuffer b) (\<lambda>(b, pData).
       case pData of
         None \<Rightarrow> Inl AssertFailed
       | Some d \<Rightarrow>
           rbind (read_cstr d) (\<lambda>text.
           if find_sub (CRLF @ CRLF) text = None then Inr (eProtocol_INSUFFICIENT_DATA, h, b)
           else
             rbind (Buffer_BinaryFind b 0 (CRLF @ CRLF)) (\<lambda>iDataOffset.
             if iDataOffset = -1 then Inl AssertFailed
             else
               let h = h\<lparr>m_msgHeaderEnd := iDataOffset + TRAILINGCRLFS, m_msgSize := iDataOffset + TRAILINGCRLFS\<rparr>;
                   iBufCount = Buffer_GetBufferCount b
               in if iBufCount = 0 then Inl AssertFailed
                  else
                    rbind (memcmp_eq d ''GET '') (\<lambda>isGet.
                    if isGet \<and> find_sub ''HTTP/'' text \<noteq> None then Inr (eProtocol_HTTP_GET, h, b)
                    else
                      rbind (HeaderExtract_Parse (ih_HeaderExtract h) b) (\<lambda>(he, b).
                        let h = h\<lparr>ih_HeaderExtract := he\<rparr>;
                            sContentLength = HeaderExtract_GetValue he ''Content-Length'';
                            sContentLength = (if length sContentLength = 0
                                              then HeaderExtract_GetValue he ''Content-length''
                                              else sContentLength);
                            iContentLength = atoi (cstr sContentLength)
                        in if length sContentLength \<noteq> 0 \<and> iBufCount < int_sum (iDataOffset + TRAILINGCRLFS) iContentLength
                           then Inr (eProtocol_INSUFFICIENT_DATA, h, b)
                           else
                             let h = (if length sContentLength \<noteq> 0
                                      then h\<lparr>m_msgSize := int_sum (iDataOffset + TRAILINGCRLFS) iContentLength\<rparr> else h)
                             in rbind (memcmp_eq d ''POST '') (\<lambda>isPost.
                                if isPost \<and> find_sub ''HTTP/'' text \<noteq> None then Inr (eProtocol_HTTP_POST, h, b)
                                else if find_sub ''MCP/'' text \<noteq> None then Inr (eProtocol_MCP, h, b)
                                else Inr (eProtocol_UNKNOWN, h, b)))))))"

section \<open>Making the message\<close>

text \<open>The record of a connection, through the pointer that the cache handed out.\<close>

definition con_get :: "cMsgQueue \<Rightarrow> int \<Rightarrow> ConnectionRecord" where
  "con_get q s = map_lookup (m_ConnectionCache (m_pConnectionQueue q)) s"

definition con_put :: "cMsgQueue \<Rightarrow> int \<Rightarrow> ConnectionRecord \<Rightarrow> cMsgQueue" where
  "con_put q s r =
     q\<lparr>m_pConnectionQueue := (m_pConnectionQueue q)
         \<lparr>m_ConnectionCache := map_store (m_ConnectionCache (m_pConnectionQueue q)) s r\<rparr>\<rparr>"

text \<open>
  \<open>Parse\<close> of a message of the queue: it asks for an identity only when the header has none.
\<close>

definition parse_draws_id :: "cMsg \<Rightarrow> cMsg \<Rightarrow> bool" where
  "parse_draws_id m m' \<longleftrightarrow>
     (let i = HeaderExtract_GetValue (m_HeaderExtract m') ''MsgID'' in length i = 0 \<or> i = ''0'')"

definition MQ_Parse ::
  "env \<Rightarrow> cMsgQueue \<Rightarrow> nat \<Rightarrow> eMsgConnectionType \<Rightarrow> eMsgFormat \<Rightarrow> cMsgQueue result" where
  "MQ_Parse env q a ct ms =
     rbind (mq_get q a) (\<lambda>m.
       let (newid, ids) = UniqueID_GetID (e_uuid env) (m_UniqueIDProvider q)
       in rbind (Msg_Parse a newid ct ms m) (\<lambda>m'.
          rbind (mq_upd q a (\<lambda>_. m')) (\<lambda>q.
          Inr (if parse_draws_id m m' then q\<lparr>m_UniqueIDProvider := ids\<rparr> else q))))"

text \<open>The first \<open>m_msgSize\<close> bytes of the buffer become the payload of the message and leave the buffer.\<close>

definition take_request ::
  "cConnectionHandlerInbound \<Rightarrow> cMsgQueue \<Rightarrow> int \<Rightarrow> nat \<Rightarrow> cMsgQueue result" where
  "take_request h q s a =
     rbind (mq_get q a) (\<lambda>m.
     rbind (Msg_SetContentPayload a m (Buffer_GetRawBuffer (cr_buffer (con_get q s))) (m_msgSize h)) (\<lambda>m.
     rbind (mq_upd q a (\<lambda>_. m)) (\<lambda>q.
     rbind (Buffer_Remove (cr_buffer (con_get q s)) 0 (m_msgSize h)) (\<lambda>(b, _).
     Inr (con_put q s ((con_get q s)\<lparr>cr_buffer := b\<rparr>))))))"

definition ProcessHTTP ::
  "env \<Rightarrow> cMsgQueue \<Rightarrow> int \<Rightarrow> ProtocolType \<Rightarrow> cConnectionHandlerInbound \<Rightarrow>
     (int \<times> cConnectionHandlerInbound \<times> cMsgQueue) result" where
  "ProcessHTTP env q s pt h =
     rbind (CreateMessage env q) (\<lambda>(a, q).
       let r = con_get q s;
           h = h\<lparr>m_ipaddr := inet_ntoa (fst (SocketAddr r))\<rparr>
       in rbind (mq_upd q a (\<lambda>m.
            let m = Msg_SetTCPSocketHandle m (Socketfd r);
                m = Msg_SetConnectionType m MSG_CT_IB_TCP;
                m = Msg_SetSourceIP m (m_ipaddr h)
            in if pt = eProtocol_HTTP_GET then Msg_SetProtocolType m MSG_PROTOCOL_HTTP_GET
               else if pt = eProtocol_HTTP_POST then Msg_SetProtocolType m MSG_PROTOCOL_HTTP_POST
               else m)) (\<lambda>q.
          rbind (take_request h q s a) (\<lambda>q.
          rbind (MQ_Parse env q a MSG_CT_IB_TCP MSG_FORMAT_REQ) (\<lambda>q.
            let (newid, ids) = UniqueID_GetID (e_uuid env) (m_UniqueIDProvider q);
                q = q\<lparr>m_UniqueIDProvider := ids\<rparr>
            in rbind (mq_upd q a (\<lambda>m.
                 let m = Msg_UpdateMsgID newid m;
                     m = Msg_SetMsgPriority m MSG_PRIORITY_HIGH;
                     m = Msg_SetNotifyAction m MSG_NOTIFY_ACTION_NO;
                     m = Msg_SetReplyAction m MSG_REPLY_ACTION_WAIT
                 in Msg_SetArrivalPort m (arrivalPort (con_get q s)))) (\<lambda>q.
               rbind (MQ_DispatchMsg env q a) (\<lambda>q.
               Inr (HRC_CONNECTION_HANDLER_ENDTASK, h, q)))))))"

text \<open>\<open>Parse\<close> always answers that all went well, so the other branch is never taken.\<close>

definition ProcessMCP ::
  "env \<Rightarrow> cMsgQueue \<Rightarrow> int \<Rightarrow> ProtocolType \<Rightarrow> cConnectionHandlerInbound \<Rightarrow>
     (int \<times> cConnectionHandlerInbound \<times> cMsgQueue) result" where
  "ProcessMCP env q s pt h =
     rbind (CreateMessage env q) (\<lambda>(a, q).
       let r = con_get q s;
           h = h\<lparr>m_ipaddr := inet_ntoa (fst (SocketAddr r))\<rparr>
       in rbind (mq_upd q a (\<lambda>m.
            let m = Msg_SetTCPSocketHandle m (Socketfd r);
                m = Msg_SetConnectionType m MSG_CT_IB_TCP;
                m = Msg_SetSourceIP m (m_ipaddr h);
                m = Msg_SetArrivalPort m (arrivalPort r)
            in if pt = eProtocol_HTTP_MCP then Msg_SetProtocolType m MSG_PROTOCOL_HTTP_MCP
               else if pt = eProtocol_MCP then Msg_SetProtocolType m MSG_PROTOCOL_MCP
               else m)) (\<lambda>q.
          rbind (take_request h q s a) (\<lambda>q.
          rbind (MQ_Parse env q a MSG_CT_IB_TCP MSG_FORMAT_REQ) (\<lambda>q.
          rbind (MQ_DispatchMsg env q a) (\<lambda>q.
          Inr (HRC_CONNECTION_HANDLER_ENDTASK, h, q))))))"

definition Inbound_Process ::
  "env \<Rightarrow> cMsgQueue \<Rightarrow> int \<Rightarrow> cConnectionHandlerInbound \<Rightarrow>
     (int \<times> cConnectionHandlerInbound \<times> cMsgQueue) result" where
  "Inbound_Process env q s h =
     rbind (AnalyzeProtocol h (cr_buffer (con_get q s))) (\<lambda>(pt, h, b).
       let q = con_put q s ((con_get q s)\<lparr>cr_buffer := b\<rparr>)
       in if pt = eProtocol_INSUFFICIENT_DATA then Inr (HRC_CONNECTION_HANDLER_PARSE_NOT_READY, h, q)
          else if pt = eProtocol_HTTP_GET \<or> pt = eProtocol_HTTP_POST then ProcessHTTP env q s pt h
          else if pt = eProtocol_UNKNOWN then Inr (HRC_CONNECTION_HANDLER_INVALIDATED_TASK, h, q)
          else ProcessMCP env q s pt h)"

section \<open>Handling a connection that is ready\<close>

text \<open>The copy that is written to the log when a request is of no known protocol.\<close>

definition dump_buffer :: "cBuffer \<Rightarrow> string result" where
  "dump_buffer buffer =
     rbind (Buffer_ReplaceWith new_cBuffer (Buffer_GetRawBuffer buffer) (Buffer_GetBufferSize buffer)) (\<lambda>(b, _).
     rbind (Buffer_MakeString b) (\<lambda>b.
     rbind (Buffer_GetBuffer b) (\<lambda>(_, p). read_cstr (block_of p))))"

definition Inbound_HandleConnection ::
  "env \<Rightarrow> recv_result \<Rightarrow> cMsgQueue \<Rightarrow> int \<Rightarrow> cConnectionHandlerInbound \<Rightarrow>
     (cConnectionHandlerInbound \<times> cMsgQueue) result" where
  "Inbound_HandleConnection env nread q s h =
     (let h = h\<lparr>m_bCloseConnection := False\<rparr>;
          q = con_put q s ((con_get q s)\<lparr>pActiveHandler := Some 0\<rparr>);
          bSocketError = (nread = RecvError);
          bpipe = (if nread = RecvError then 1 else 0 :: int)
      in rbind (case nread of
                  Received data \<Rightarrow>
                    if length data > 0
                    then rbind (Buffer_Append (cr_buffer (con_get q s)) (Some (map Some data)) (int (length data)))
                           (\<lambda>(b, _). Inr (con_put q s ((con_get q s)\<lparr>cr_buffer := b, cr_timestamp := e_now env\<rparr>)))
                    else Inr q
                | _ \<Rightarrow> Inr q) (\<lambda>q.
         rbind (Buffer_Find (cr_buffer (con_get q s)) (CRLF @ CRLF) 0) (\<lambda>(b, found).
           let q = con_put q s ((con_get q s)\<lparr>cr_buffer := b\<rparr>)
           in rbind (if found \<noteq> -1
                     then rbind (Inbound_Process env q s h) (\<lambda>(rc, h, q).
                       if rc = HRC_CONNECTION_HANDLER_ENDTASK then Inr (0, h, q)
                       else if rc = HRC_CONNECTION_HANDLER_SENDERROR then Inr (2, h, q)
                       else if rc = HRC_CONNECTION_HANDLER_INVALIDATED_TASK
                       then rbind (dump_buffer (cr_buffer (con_get q s))) (\<lambda>_. Inr (3, h, q))
                       else Inr (bpipe, h, q))
                     else Inr (bpipe, h, q)) (\<lambda>(bpipe, h, q).
                let h = (if bSocketError \<or> bpipe \<noteq> 0 then h\<lparr>m_bCloseConnection := True\<rparr> else h)
                in Inr (h, con_put q s ((con_get q s)\<lparr>pActiveHandler := None\<rparr>))))))"

section \<open>What the analysis finds out\<close>

text \<open>The pairs that the header extractor reads from any text of at least four bytes.\<close>

definition header_params :: "string \<Rightarrow> (string, string) smap" where
  "header_params t =
     (case find_sub (CRLF @ CRLF) (cstr (drop 4 t)) of
        None \<Rightarrow> []
      | Some k \<Rightarrow> header_loop [] (take (4 + k) t @ CRLF @ ''end'' @ CRLF) 0)"

definition param :: "(string, string) smap \<Rightarrow> string \<Rightarrow> string" where
  "param m name = (case smap_find m name of Some v \<Rightarrow> v | None \<Rightarrow> [])"

definition declared_length :: "string \<Rightarrow> int option" where
  "declared_length t =
     (let p = param (header_params t) ''Content-Length'';
          p = (if p = [] then param (header_params t) ''Content-length'' else p)
      in if p = [] then None else Some (atoi (cstr p)))"

text \<open>The protocol of the bytes \<open>t\<close>, and the size of the request at their start.\<close>

definition classify :: "string \<Rightarrow> ProtocolType \<times> int" where
  "classify t =
     (case find_sub (CRLF @ CRLF) (cstr t) of
        None \<Rightarrow> (eProtocol_INSUFFICIENT_DATA, 0)
      | Some k \<Rightarrow>
          let http = find_sub ''HTTP/'' (cstr t) \<noteq> None;
              n = int k + 4
          in if starts_with ''GET '' t \<and> http then (eProtocol_HTTP_GET, n)
             else
               let n = (case declared_length t of None \<Rightarrow> n | Some l \<Rightarrow> int_sum n l)
               in if declared_length t \<noteq> None \<and> int (length t) < n then (eProtocol_INSUFFICIENT_DATA, 0)
                  else (if starts_with ''POST '' t \<and> http then eProtocol_HTTP_POST
                        else if find_sub ''MCP/'' (cstr t) \<noteq> None then eProtocol_MCP
                        else eProtocol_UNKNOWN, n))"

lemma HeaderExtract_Parse_text:
  assumes b: "holds b t" and len: "4 \<le> length t"
  shows "\<exists>h' b'. HeaderExtract_Parse h b = Inr (h', b') \<and> holds b' t \<and> terminated b' \<and>
    m_Params h' = header_params t"
proof -
  have "t \<noteq> []" using len by auto
  from Find_holds [OF b this len, of "CRLF @ CRLF"] obtain b' where
    b': "Buffer_Find b (CRLF @ CRLF) 4 = Inr (b', case find_sub (CRLF @ CRLF) (cstr (drop 4 t)) of
        Some k \<Rightarrow> int (4 + k) | None \<Rightarrow> -1)" "holds b' t" "terminated b'"
    by (auto simp: cstr_def)
  show ?thesis
  proof (cases "find_sub (CRLF @ CRLF) (cstr (drop 4 t))")
    case None
    then show ?thesis using b' by (auto simp: HeaderExtract_Parse_def header_params_def Let_def)
  next
    case (Some k)
    then have "4 + k \<le> length t"
      using find_sub_SomeD [OF Some] length_takeWhile_le [of "\<lambda>c. c \<noteq> NUL" "drop 4 t"] len
      by (auto simp: cstr_def)
    from old_pieces(2) [OF b'(2) this] Some b' show ?thesis
      by (simp add: HeaderExtract_Parse_def Buffer_GetRawBuffer_def header_params_def Let_def)
  qed
qed

lemma GetValue_param: "NUL \<notin> set name \<Longrightarrow> HeaderExtract_GetValue h name = param (m_Params h) name"
  by (simp add: HeaderExtract_GetValue_def param_def cstr_id)

lemma find_sub_cstr:
  assumes "find_sub p (cstr t) = Some k"
  shows "find_sub p t = Some k"
proof -
  obtain r where t: "t = cstr t @ r" by (metis cstr_def takeWhile_dropWhile_id)
  note F = find_sub_SomeD [OF assms]
  have d: "take (length p) (drop j t) = take (length p) (drop j (cstr t))" if "j \<le> k" for j
  proof -
    have "j + length p \<le> length (cstr t)" using F that by simp
    then show ?thesis by (subst t) simp
  qed
  have "k + length p \<le> length t" using F by (subst t) simp
  then show ?thesis unfolding find_sub_Some_iff starts_with_def
    using F d by (auto simp: starts_with_def)
qed

lemma memcmp_text:
  assumes "NUL \<notin> set p" "length p \<le> Suc (length t)"
  shows "memcmp_eq (map Some t @ Some NUL # rest) p = Inr (starts_with p t)"
proof -
  have "map Some t @ Some NUL # rest = map Some (t @ [NUL]) @ rest" by simp
  then have c: "take (length p) (map Some t @ Some NUL # rest) = map Some (take (length p) (t @ [NUL]))"
    using assms(2) by (simp only: take_append length_map take_map) simp
  have "(take (length p) (t @ [NUL]) = p) = starts_with p t"
  proof (cases "length p \<le> length t")
    case True
    then show ?thesis by (simp add: starts_with_def)
  next
    case False
    then have "length p = Suc (length t)" using assms(2) by simp
    then have "take (length p) (t @ [NUL]) = t @ [NUL]" by simp
    then show ?thesis using assms(1) False starts_with_length [of p t] by auto
  qed
  moreover have "mem_slice (map Some t @ Some NUL # rest) 0 (int (length p)) =
      Inr (map Some (take (length p) (t @ [NUL])))"
    using c assms(2) by (subst mem_slice_Inr) simp_all
  ultimately show ?thesis unfolding memcmp_eq_def by (simp del: take_append)
qed

lemma AnalyzeProtocol_spec:
  assumes b: "holds b t" and nn: "m_pBuffer b \<noteq> None"
  shows "\<exists>h' b'. AnalyzeProtocol h b = Inr (fst (classify t), h', b') \<and> holds b' t \<and>
    terminated b' \<and>
    (fst (classify t) \<noteq> eProtocol_INSUFFICIENT_DATA \<longrightarrow> m_msgSize h' = snd (classify t)) \<and>
    m_bCloseConnection h' = m_bCloseConnection h"
proof -
  from GetBuffer_holds [OF b nn] obtain c rest where
    c: "Buffer_GetBuffer b = Inr (c, Some (map Some t @ Some NUL # rest))" "holds c t"
      "m_pBuffer c = Some (map Some t @ Some NUL # rest)" by blast
  have tm: "terminated c" using holds_tail [OF c(2)] c(3) by (simp add: terminated_def nth_append)
  note rd = read_cstr_map_Some [of t rest]
  show ?thesis
  proof (cases "find_sub (CRLF @ CRLF) (cstr t)")
    case None
    then show ?thesis using c rd tm by (auto simp: AnalyzeProtocol_def classify_def)
  next
    case (Some k)
    have k: "k + 4 \<le> length t" using find_sub_SomeD [OF find_sub_cstr [OF Some]] by simp
    then have ne: "t \<noteq> []" "4 \<le> length t" by auto
    have bf: "Buffer_BinaryFind c 0 (CRLF @ CRLF) = Inr (int k)"
      using BinaryFind_holds [OF c(2) tm, of "CRLF @ CRLF"] find_sub_cstr [OF Some] by simp
    define g po http mcp where "g = starts_with ''GET '' t" and "po = starts_with ''POST '' t"
      and "http = (find_sub ''HTTP/'' (cstr t) \<noteq> None)" and "mcp = (find_sub ''MCP/'' (cstr t) \<noteq> None)"
    define P where "P = param (header_params t) ''Content-Length''"
    define P2 where "P2 = param (header_params t) ''Content-length''"
    define Q where "Q = (if P = [] then P2 else P)"
    have m4: "memcmp_eq (map Some t @ Some NUL # rest) ''GET '' = Inr g"
      unfolding g_def using ne(2) by (intro memcmp_text) auto
    have m5: "memcmp_eq (map Some t @ Some NUL # rest) ''POST '' = Inr po"
      unfolding po_def using ne(2) by (intro memcmp_text) auto
    obtain he b' where he: "HeaderExtract_Parse (ih_HeaderExtract h) c = Inr (he, b')" "holds b' t"
      "m_Params he = header_params t" "terminated b'" using HeaderExtract_Parse_text [OF c(2) ne(2)] by blast
    have gv: "HeaderExtract_GetValue he ''Content-Length'' = P"
      "HeaderExtract_GetValue he ''Content-length'' = P2"
      using GetValue_param [of "''Content-Length''" he] GetValue_param [of "''Content-length''" he]
      by (simp_all add: he(3) P_def P2_def)
    have dl: "declared_length t = (if Q = [] then None else Some (atoi (cstr Q)))"
      unfolding declared_length_def Let_def Q_def P_def P2_def ..
    have cl: "classify t =
       (if g \<and> http then (eProtocol_HTTP_GET, int k + 4)
        else if Q \<noteq> [] \<and> int (length t) < int_sum (int k + 4) (atoi (cstr Q)) then (eProtocol_INSUFFICIENT_DATA, 0)
        else (if po \<and> http then eProtocol_HTTP_POST else if mcp then eProtocol_MCP else eProtocol_UNKNOWN,
              if Q = [] then int k + 4 else int_sum (int k + 4) (atoi (cstr Q))))"
      unfolding classify_def Some dl g_def [symmetric] po_def [symmetric] http_def [symmetric] mcp_def [symmetric]
      by (simp add: Let_def)
    have e: "AnalyzeProtocol h b =
        (let h = h\<lparr>m_msgHeaderEnd := int k + 4, m_msgSize := int k + 4\<rparr>
         in if g \<and> http then Inr (eProtocol_HTTP_GET, h, c)
            else let h = h\<lparr>ih_HeaderExtract := he\<rparr>
            in if Q \<noteq> [] \<and> int (length t) < int_sum (int k + 4) (atoi (cstr Q)) then Inr (eProtocol_INSUFFICIENT_DATA, h, b')
            else let h = (if Q \<noteq> [] then h\<lparr>m_msgSize := int_sum (int k + 4) (atoi (cstr Q))\<rparr> else h)
                 in Inr (if po \<and> http then eProtocol_HTTP_POST
                      else if mcp then eProtocol_MCP else eProtocol_UNKNOWN, h, b'))"
      unfolding AnalyzeProtocol_def c(1) rbind.simps prod.case option.case rd Some bf m4 m5 http_def [symmetric]
        mcp_def [symmetric] Buffer_GetBufferCount_def holds_tail [OF c(2)] TRAILINGCRLFS_def
      using ne(1) Q_def by (cases "P = []"; cases g; cases http; cases "Q = []") (simp_all add: Let_def he(1) gv)
    show ?thesis unfolding e cl using c(2) he(2,4) tm by (cases "g \<and> http") (simp_all add: Let_def)
  qed
qed

end
