(* ===== verification/ConnectionHandlerOutbound.thy ===== *)
theory ConnectionHandlerOutbound
  imports ConnectionHandlerInbound
begin

text \<open>
  \<open>connectionhandleroutbound.h\<close> and \<open>connectionhandleroutbound.cpp\<close>: the class
  \<open>cConnectionHandlerOutbound\<close>, which writes out a message: as a reply, a notification or a request of
  the protocols, over TCP or UDP.

  What the operating system answers is a parameter, the record \<open>os\<close>: each answer may depend on the
  number of calls made so far. What it was given is the state \<open>net\<close>: the bytes it took for each
  socket in their order, the datagrams, the sockets that were closed. Return codes that no caller
  reads are left out. \<open>%.4f\<close> of the elapsed time is the text \<open>os_elapsed\<close>.
\<close>

section \<open>The operating system\<close>

datatype send_result = Sent nat | SendAgain | SendFailed

fun sent_count :: "send_result \<Rightarrow> nat" where
  "sent_count (Sent n) = n"
| "sent_count _ = 0"

record os =
  os_send :: "nat \<Rightarrow> int \<Rightarrow> string \<Rightarrow> send_result"
  os_sendto :: "nat \<Rightarrow> int \<Rightarrow> sockaddr_in \<Rightarrow> string \<Rightarrow> bool"
  os_socket :: "nat \<Rightarrow> int"
  os_connect :: "nat \<Rightarrow> int \<Rightarrow> sockaddr_in \<Rightarrow> bool"
  os_inet_addr :: "string \<Rightarrow> 32 word"
  os_inet_aton :: "string \<Rightarrow> 32 word option"
  os_gethostbyname :: "nat \<Rightarrow> string \<Rightarrow> 32 word option"
  os_elapsed :: string

record net =
  n_calls :: nat
  n_out :: "(int \<times> string) list"
  n_datagrams :: "(int \<times> sockaddr_in \<times> string) list"
  n_closed :: "int list"

definition tick :: "net \<Rightarrow> net" where
  "tick w = w\<lparr>n_calls := n_calls w + 1\<rparr>"

definition INADDR_NONE :: "32 word" where "INADDR_NONE = 0xffffffff"

text \<open>A port as the address structure stores it, on a little-endian machine.\<close>

definition htons :: "16 word \<Rightarrow> 16 word" where
  "htons p = push_bit 8 p OR drop_bit 8 p"

section \<open>State\<close>

record cConnectionHandlerOutbound =
  oh_bCloseConnection :: bool
  m_response :: cBuffer
  m_ServerAddr :: cBuffer
  m_temp :: cBuffer
  m_ServerPort :: "int option"
  m_bSocketCreated :: bool

definition new_cConnectionHandlerOutbound :: cConnectionHandlerOutbound where
  "new_cConnectionHandlerOutbound =
     \<lparr>oh_bCloseConnection = False, m_response = new_cBuffer, m_ServerAddr = new_cBuffer,
      m_temp = new_cBuffer, m_ServerPort = None, m_bSocketCreated = False\<rparr>"

section \<open>Sending\<close>

text \<open>
  The loop of \<open>TCPSend\<close>. A \<open>continue\<close> goes to the test of the loop, so an answer that asks to try
  again is followed by another call as long as bytes are left; nothing bounds their number.
\<close>

partial_function (option) tcp_send_loop ::
  "os \<Rightarrow> int \<Rightarrow> block \<Rightarrow> int \<Rightarrow> int \<Rightarrow> net \<Rightarrow> (bool \<times> net) result option" where
  "tcp_send_loop os fd pBuf len totalSent w =
     (case rbind (mem_slice pBuf totalSent (len - totalSent)) mem_text of
        Inl e \<Rightarrow> Some (Inl e)
      | Inr bytes \<Rightarrow>
          let bytesSent = os_send os (n_calls w) fd bytes;
              w = tick w
          in if bytesSent = SendFailed then Some (Inr (False, w))
             else
               let w = (if bytesSent = SendAgain then w
                        else w\<lparr>n_out := n_out w @ [(fd, take (sent_count bytesSent) bytes)]\<rparr>);
                   totalSent = totalSent + int (sent_count bytesSent)
               in if totalSent < len then tcp_send_loop os fd pBuf len totalSent w
                  else Some (Inr (True, w)))"

text \<open>
  The rest of \<open>TCPSend\<close>: on failure a socket that the handler opened is closed, another one is left
  to the caller. \<open>rec\<close> is the socket of the connection record, when there is one.
\<close>

definition TCPSend ::
  "env \<Rightarrow> os \<Rightarrow> int option \<Rightarrow> bool \<Rightarrow> int \<Rightarrow> block \<Rightarrow> int \<Rightarrow> cConnectionHandlerOutbound \<Rightarrow> cMsgQueue \<Rightarrow> net \<Rightarrow>
     (bool \<times> cConnectionHandlerOutbound \<times> cMsgQueue \<times> net) result option" where
  "TCPSend env os rec keepAlive iSocketfd pBuf len h q w =
     (case tcp_send_loop os iSocketfd pBuf len 0 w of
        None \<Rightarrow> None
      | Some (Inl e) \<Rightarrow> Some (Inl e)
      | Some (Inr (bRet, w)) \<Rightarrow>
          let (h, q, w) =
                (if \<not> bRet
                 then if m_bSocketCreated h then (h, q, w\<lparr>n_closed := n_closed w @ [iSocketfd]\<rparr>)
                      else (h\<lparr>oh_bCloseConnection := True\<rparr>, q, w)
                 else case rec of
                        None \<Rightarrow> (h, q, w)
                      | Some s \<Rightarrow> (h, con_put q s ((con_get q s)\<lparr>cr_timestamp := e_now env\<rparr>), w));
              h = (if \<not> keepAlive then h\<lparr>oh_bCloseConnection := True\<rparr> else h)
          in Some (Inr (bRet, h, q, w)))"

definition OpenTCP ::
  "os \<Rightarrow> block option \<Rightarrow> int option \<Rightarrow> cConnectionHandlerOutbound \<Rightarrow> net \<Rightarrow>
     (int \<times> cConnectionHandlerOutbound \<times> net) result" where
  "OpenTCP os pServer port h w =
     (case pServer of
        None \<Rightarrow> Inl NullPointer
      | Some d \<Rightarrow>
          rbind (read_cstr d) (\<lambda>server.
            let byName = (os_inet_addr os server = INADDR_NONE);
                (host, w) =
                  (if byName then (os_gethostbyname os (n_calls w) server, tick w)
                   else case os_inet_aton os server of
                          Some a \<Rightarrow> (Some a, w)
                        | None \<Rightarrow> (os_gethostbyname os (n_calls w) server, tick w))
            in if byName \<and> host = None then Inr (-1, h, w)
               else case port of
                 None \<Rightarrow> Inl Indeterminate
               | Some p \<Rightarrow>
                   (case host of
                      None \<Rightarrow> Inr (-1, h, w)
                    | Some a \<Rightarrow>
                        let Socketfd = os_socket os (n_calls w);
                            w = tick w
                        in if Socketfd < 0 then Inr (-1, h, w)
                           else
                             let ok = os_connect os (n_calls w) Socketfd (a, htons (word_of_int p));
                                 w = tick w
                             in if \<not> ok then Inr (-1, h, w)
                                else Inr (Socketfd, h\<lparr>m_bSocketCreated := True\<rparr>, w))))"

text \<open>The source port is kept as the address structure had it, so it is not swapped.\<close>

definition UDPSend ::
  "os \<Rightarrow> cMsg \<Rightarrow> cConnectionHandlerOutbound \<Rightarrow> net \<Rightarrow> (bool \<times> net) result" where
  "UDPSend os m h w =
     (let own = (Msg_GetUDPSocketHandle m = -1);
          (Socketfd, w) = (if own then (os_socket os (n_calls w), tick w) else (Msg_GetUDPSocketHandle m, w))
      in if own \<and> Socketfd = -1 then Inr (False, w)
         else
           rbind (if \<not> own
                  then Inr (os_inet_addr os (Msg_GetSourceIP m), word_of_int (Msg_GetSourcePort m))
                  else
                    rbind (Buffer_GetBuffer (m_ServerAddr h)) (\<lambda>(_, p).
                    rbind (of_option NullPointer p) (\<lambda>d.
                    rbind (read_cstr d) (\<lambda>server.
                    rbind (of_option Indeterminate (m_ServerPort h)) (\<lambda>port.
                    Inr (os_inet_addr os server, htons (word_of_int port))))))) (\<lambda>addr.
           rbind (mem_slice (block_of (Buffer_GetRawBuffer (m_response h))) 0
                    (Buffer_GetBufferCount (m_response h))) (\<lambda>cells.
           rbind (mem_text cells) (\<lambda>bytes.
             let ok = os_sendto os (n_calls w) Socketfd addr bytes;
                 w = tick w;
                 w = (if ok then w\<lparr>n_datagrams := n_datagrams w @ [(Socketfd, addr, bytes)]\<rparr> else w)
             in Inr (ok, if own then w\<lparr>n_closed := n_closed w @ [Socketfd]\<rparr> else w)))))"

section \<open>The text of a message\<close>

text \<open>\<open>%3.3d\<close>: at least three digits.\<close>

definition int_text3 :: "int \<Rightarrow> string" where
  "int_text3 i =
     (let d = nat_digits (nat (abs i))
      in (if i < 0 then ''-'' else []) @ replicate (3 - length d) (CHR ''0'') @ d)"

definition crlf :: string where "crlf = CRLF"

definition connection_text :: "cMsg \<Rightarrow> string" where
  "connection_text m = (if Msg_IsKeepAlive m then ''keep-alive'' else ''close'')"

definition message_type :: "cMsg \<Rightarrow> string" where
  "message_type m = (if Msg_GetFormat m = MSG_FORMAT_NOTIFY then ''Notify'' else ''Reply'')"

definition http_header :: "env \<Rightarrow> cMsg \<Rightarrow> string" where
  "http_header env m =
     ''HTTP/1.1 200 OK'' @ crlf @
     ''Server: '' @ cstr (e_serverName env) @ crlf @
     ''Content-Type: '' @ Msg_GetContentType m @ crlf @
     ''Content-Length: '' @ int_text (Msg_GetContentLength m) @ crlf @
     ''Connection: '' @ connection_text m @ crlf @ crlf"

definition mcp_reply_head :: "os \<Rightarrow> cMsg \<Rightarrow> string" where
  "mcp_reply_head os m =
     ''MCP/1.0 '' @ int_text3 (Msg_GetResponseCode m) @ '' '' @ message_type m @ crlf @
     ''MsgID: '' @ Msg_GetMsgID m @ crlf @
     ''MsgPT: '' @ os_elapsed os @ crlf @
     ''Connection: '' @ connection_text m @ crlf"

definition mcp_reply_header :: "cMsg \<Rightarrow> string" where
  "mcp_reply_header m =
     ''MCP/1.0 '' @ int_text3 (Msg_GetResponseCode m) @ '' '' @ message_type m @ crlf @
     ''MsgID: '' @ Msg_GetMsgID m @ crlf @
     ''To: '' @ Msg_GetTo m @ crlf @
     ''From: '' @ Msg_GetFrom m @ crlf @
     ''Content-Type: '' @ Msg_GetContentType m @ crlf @
     ''Content-Length: '' @ int_text (Msg_GetContentLength m) @ crlf @
     ''Connection: '' @ connection_text m @ crlf @ crlf"

definition mcp_request_header :: "cMsg \<Rightarrow> string" where
  "mcp_request_header m =
     Msg_GetCommand m @ '' MCP/1.0'' @ crlf @
     ''MsgID: '' @ Msg_GetMsgID m @ crlf @
     ''To: '' @ Msg_GetTo m @ crlf @
     ''From: '' @ Msg_GetFrom m @ crlf @
     (if Msg_GetContentLength m > 0
      then ''Content-Type: '' @ Msg_GetContentType m @ crlf @
           ''Content-Length: '' @ int_text (Msg_GetContentLength m) @ crlf
      else []) @
     ''Connection: '' @ connection_text m @ crlf @ crlf"

text \<open>\<open>sprintf\<close> into \<open>m_TestBuffer\<close>, which has 2048 bytes.\<close>

definition test_buffer :: "string \<Rightarrow> string result" where
  "test_buffer out = (if length out < 2048 then Inr out else Inl OutOfBounds)"

text \<open>The payload of a message, from where its pointer points to.\<close>

definition payload_block :: "cMsgQueue \<Rightarrow> cMsg \<Rightarrow> block option result" where
  "payload_block q m =
     (case Msg_GetContentPayload m of
        None \<Rightarrow> Inr None
      | Some (MsgPtr b off) \<Rightarrow>
          (case m_store (m_msgPool q) b of
             None \<Rightarrow> Inl DanglingPointer
           | Some n \<Rightarrow>
               (case m_pBuffer (MsgBuffer n) of
                  None \<Rightarrow> Inl DanglingPointer
                | Some blk \<Rightarrow>
                    if 0 \<le> off \<and> off \<le> int (length blk) then Inr (Some (drop (nat off) blk))
                    else Inl OutOfBounds)))"

definition append_payload :: "cMsgQueue \<Rightarrow> cMsg \<Rightarrow> cBuffer \<Rightarrow> cBuffer result" where
  "append_payload q m b =
     rbind (payload_block q m) (\<lambda>p.
     rbind (Buffer_Append b p (Msg_GetContentLength m)) (\<lambda>(b, _). Inr b))"

definition mcp_empty_reply :: "os \<Rightarrow> cMsg \<Rightarrow> cBuffer \<Rightarrow> cBuffer result" where
  "mcp_empty_reply os m b =
     rbind (test_buffer (mcp_reply_head os m)) (\<lambda>t.
     rbind (Buffer_ReplaceWith b (Some (cmem t)) (-1)) (\<lambda>(b, _).
     rbind (if length (Msg_GetTo m) > 0
            then rbind (Buffer_AppendText b ''To: '') (\<lambda>b.
                 rbind (Buffer_AppendText b (Msg_GetTo m)) (\<lambda>b. Buffer_AppendText b crlf))
            else Inr b) (\<lambda>b.
     rbind (test_buffer (''From: '' @ Msg_GetFrom m @ crlf)) (\<lambda>t.
     rbind (Buffer_AppendText b t) (\<lambda>b.
     rbind (if length (Msg_GetCommand m) > 0
            then rbind (test_buffer (''Command: '' @ Msg_GetCommand m @ crlf)) (\<lambda>t.
                 rbind (Buffer_AppendText b t) (\<lambda>b. Buffer_AppendText b crlf))
            else Inr b) (\<lambda>b. Buffer_AppendText b crlf))))))"

text \<open>
  What \<open>m_response\<close> holds when a message goes out: a reply of another protocol leaves it as it was. The
  formats for \<open>MSG_PROTOCOL_HTTP_MCP\<close> have their arguments in the wrong order, so that a number is
  taken for the address of a text. The second component tells whether the response time was counted.
\<close>

definition build_response :: "os \<Rightarrow> cMsgQueue \<Rightarrow> cMsg \<Rightarrow> cBuffer \<Rightarrow> (cBuffer \<times> bool) result" where
  "build_response os q m b =
     (if Msg_GetFormat m = MSG_FORMAT_RES \<or> Msg_GetFormat m = MSG_FORMAT_NOTIFY
      then
        if Msg_GetProtocolType m = MSG_PROTOCOL_MCP
        then
          if Msg_GetContentLength m = 0
          then rbind (mcp_empty_reply os m b) (\<lambda>b. Inr (b, True))
          else rbind (Buffer_Sprintf b 5000 (mcp_reply_header m)) (\<lambda>(b, _).
               rbind (append_payload q m b) (\<lambda>b. Inr (b, True)))
        else if Msg_GetProtocolType m = MSG_PROTOCOL_HTTP_MCP then Inl DanglingPointer
        else Inr (b, False)
      else
        rbind (Buffer_Sprintf b 5000 (mcp_request_header m)) (\<lambda>(b, _).
        rbind (if Msg_GetContentLength m > 0 then append_payload q m b else Inr b) (\<lambda>b. Inr (b, True))))"

text \<open>The address and the port of the addressee, as far as \<open>To\<close> gives them.\<close>

definition set_addressee :: "cMsg \<Rightarrow> cConnectionHandlerOutbound \<Rightarrow> cConnectionHandlerOutbound result" where
  "set_addressee m h =
     (if length (Msg_GetTo m) > 0
      then
        rbind (Buffer_ReplaceWith (m_temp h) (Some (cmem (Msg_GetTo m))) (-1)) (\<lambda>(t, _).
        rbind (Buffer_FindChar t (CHR ''@'') 0) (\<lambda>iPos1.
        rbind (Buffer_FindChar t (CHR '':'') 0) (\<lambda>iPos2.
        rbind (Buffer_GetBuffer t) (\<lambda>(t, p).
        rbind (of_option NullPointer p) (\<lambda>d.
        rbind (Buffer_ReplaceWith (m_ServerAddr h) (Some (drop (nat (iPos1 + 1)) d)) (iPos2 - iPos1 - 1)) (\<lambda>(b, _).
        rbind (read_cstr (drop (nat (iPos2 + 1)) d)) (\<lambda>port.
        Inr (h\<lparr>m_temp := t, m_ServerAddr := b, m_ServerPort := Some (atoi port)\<rparr>))))))))
      else Inr h)"

section \<open>Transmission\<close>

text \<open>The end of a transmission: the message is delivered, or it is undelivered and will be tried again.\<close>

definition settle :: "cMsgQueue \<Rightarrow> nat \<Rightarrow> bool \<Rightarrow> cMsgQueue result" where
  "settle q a bRet =
     rbind (mq_upd q a (\<lambda>m. Msg_SetMsgState m (if bRet then MSG_STATE_DELIVERED else MSG_STATE_UNDELIVERED))) (\<lambda>q.
     rbind (of_option OutOfBounds
              (if bRet then IncMsgDelivered (m_pSysMetrics q) else IncMsgUndelivered (m_pSysMetrics q))) (\<lambda>s.
     Inr (q\<lparr>m_pSysMetrics := s\<rparr>)))"

definition count_response :: "cMsgQueue \<Rightarrow> cMsgQueue" where
  "count_response q = q\<lparr>m_pSysMetrics := UpdateMsgResponseTime (m_pSysMetrics q)\<rparr>"

type_synonym outbound = "cConnectionHandlerOutbound \<times> cMsgQueue \<times> net"

text \<open>Replies to a browser: the payload, with a header in front of it unless it has one of its own.\<close>

definition transmit_http ::
  "env \<Rightarrow> os \<Rightarrow> int option \<Rightarrow> nat \<Rightarrow> cMsg \<Rightarrow> outbound \<Rightarrow> outbound result option" where
  "transmit_http env os rec a m = (\<lambda>(h, q, w).
     let q = count_response q
     in case payload_block q m of
          Inl e \<Rightarrow> Some (Inl e)
        | Inr None \<Rightarrow> Some (rbind (settle q a False) (\<lambda>q. Inr (h, q, w)))
        | Inr (Some d) \<Rightarrow>
            (case (case read_cstr d of
                     Inl e \<Rightarrow> Some (Inl e)
                   | Inr text \<Rightarrow>
                       if find_sub ''HTTP/1.'' text \<noteq> None then Some (Inr (h, q, w))
                       else
                         (case Buffer_Sprintf (m_response h) 5000 (http_header env m) of
                            Inl e \<Rightarrow> Some (Inl e)
                          | Inr (b, _) \<Rightarrow>
                              (case TCPSend env os rec (Msg_IsKeepAlive m) (Msg_GetTCPSocketHandle m)
                                      (block_of (Buffer_GetRawBuffer b)) (Buffer_GetBufferCount b)
                                      (h\<lparr>m_response := b\<rparr>) q w of
                                 None \<Rightarrow> None
                               | Some (Inl e) \<Rightarrow> Some (Inl e)
                               | Some (Inr (_, h, q, w)) \<Rightarrow> Some (Inr (h, q, w))))) of
               None \<Rightarrow> None
             | Some (Inl e) \<Rightarrow> Some (Inl e)
             | Some (Inr (h, q, w)) \<Rightarrow>
                 (case TCPSend env os rec (Msg_IsKeepAlive m) (Msg_GetTCPSocketHandle m) d
                         (Msg_GetContentLength m) h q w of
                    None \<Rightarrow> None
                  | Some (Inl e) \<Rightarrow> Some (Inl e)
                  | Some (Inr (bRet, h, q, w)) \<Rightarrow> Some (rbind (settle q a bRet) (\<lambda>q. Inr (h, q, w))))))"

text \<open>
  The TCP part: a message without a socket opens one, and \<open>if (socketfd)\<close> holds also of the \<open>-1\<close> of a
  failure. What the send answers is overwritten with success.
\<close>

definition transmit_tcp ::
  "env \<Rightarrow> os \<Rightarrow> int option \<Rightarrow> nat \<Rightarrow> cMsg \<Rightarrow> outbound \<Rightarrow> (bool \<times> outbound) result option" where
  "transmit_tcp env os rec a m = (\<lambda>(h, q, w).
     case (if Msg_GetTCPSocketHandle m = -1
           then
             rbind (Buffer_GetBuffer (m_ServerAddr h)) (\<lambda>(b, p).
             rbind (OpenTCP os p (m_ServerPort h) (h\<lparr>m_ServerAddr := b\<rparr>) w) (\<lambda>(fd, h, w).
             rbind (if fd \<noteq> 0 then mq_upd q a (\<lambda>m. Msg_SetTCPSocketHandle m fd) else Inr q) (\<lambda>q.
             Inr (fd, h, q, w))))
           else Inr (Msg_GetTCPSocketHandle m, h, q, w)) of
       Inl e \<Rightarrow> Some (Inl e)
     | Inr (fd, h, q, w) \<Rightarrow>
         if fd = -1 then Some (Inr (False, h, q, w))
         else
           (case mq_get q a of
              Inl e \<Rightarrow> Some (Inl e)
            | Inr m \<Rightarrow>
                (case TCPSend env os rec (Msg_IsKeepAlive m) (Msg_GetTCPSocketHandle m)
                        (block_of (Buffer_GetRawBuffer (m_response h))) (Buffer_GetBufferCount (m_response h)) h q w of
                   None \<Rightarrow> None
                 | Some (Inl e) \<Rightarrow> Some (Inl e)
                 | Some (Inr (_, h, q, w)) \<Rightarrow> Some (Inr (True, h, q, w)))))"

text \<open>The first component is the exception that is thrown for a message of another connection type.\<close>

definition TransmitMsg ::
  "env \<Rightarrow> os \<Rightarrow> int option \<Rightarrow> nat \<Rightarrow> outbound \<Rightarrow> (string option \<times> outbound) result option" where
  "TransmitMsg env os rec a = (\<lambda>(h, q, w).
     case mq_get q a of
       Inl e \<Rightarrow> Some (Inl e)
     | Inr m \<Rightarrow>
         if Msg_GetProtocolType m = MSG_PROTOCOL_HTTP_GET \<or> Msg_GetProtocolType m = MSG_PROTOCOL_HTTP_POST
         then
           (case transmit_http env os rec a m (h, q, w) of
              None \<Rightarrow> None
            | Some (Inl e) \<Rightarrow> Some (Inl e)
            | Some (Inr r) \<Rightarrow> Some (Inr (None, r)))
         else
           (case rbind (build_response os q m (m_response h)) (\<lambda>(b, counted).
                 rbind (set_addressee m (h\<lparr>m_response := b\<rparr>)) (\<lambda>h.
                 Inr (h, if counted then count_response q else q))) of
              Inl e \<Rightarrow> Some (Inl e)
            | Inr (h, q) \<Rightarrow>
                if Msg_GetConnectionType m \<noteq> MSG_CT_OB_UDP \<and> Msg_GetConnectionType m \<noteq> MSG_CT_OB_TCP
                then Some (Inr (Some ''Warning connection type is not OB_UDP or OB_TCP'', h, q, w))
                else
                  (case (if Msg_GetConnectionType m = MSG_CT_OB_UDP
                         then Some (rbind (UDPSend os m h w) (\<lambda>(bRet, w). Inr (bRet, h, q, w)))
                         else transmit_tcp env os rec a m (h, q, w)) of
                     None \<Rightarrow> None
                   | Some (Inl e) \<Rightarrow> Some (Inl e)
                   | Some (Inr (bRet, h, q, w)) \<Rightarrow>
                       Some (rbind (settle q a bRet) (\<lambda>q. Inr (None, h, q, w))))))"

definition Outbound_HandleConnection ::
  "env \<Rightarrow> os \<Rightarrow> int option \<Rightarrow> nat \<Rightarrow> outbound \<Rightarrow> (string option \<times> outbound) result option" where
  "Outbound_HandleConnection env os rec a = (\<lambda>(h, q, w).
     case TransmitMsg env os rec a (h\<lparr>oh_bCloseConnection := False\<rparr>, q, w) of
       None \<Rightarrow> None
     | Some (Inl e) \<Rightarrow> Some (Inl e)
     | Some (Inr (Some x, r)) \<Rightarrow> Some (Inr (Some x, r))
     | Some (Inr (None, h, q, w)) \<Rightarrow>
         Some (Inr (None, h,
           case rec of None \<Rightarrow> q | Some s \<Rightarrow> con_put q s ((con_get q s)\<lparr>pendingwrite := False\<rparr>), w)))"

end
