(* ===== verification/ConnectionInboundLaws.thy ===== *)
theory ConnectionInboundLaws
  imports ConnectionHandlerInbound
begin

text \<open>
  What the inbound handler does to the bytes of a connection: they are kept until a request is
  complete, then exactly the request becomes the payload of one fresh message that is dispatched.
\<close>

section \<open>Any text with an end of header can be parsed\<close>

lemma find_sub_append_left: "find_sub (p @ r) t = Some k \<Longrightarrow> \<exists>j \<le> k. find_sub p t = Some j"
proof -
  assume a: "find_sub (p @ r) t = Some k"
  note F = find_sub_SomeD [OF a]
  have "starts_with p (drop k t)" using F by (auto simp: starts_with_iff)
  then have "find_sub p t \<noteq> None" using F by (auto simp: find_sub_None intro!: exI [of _ k])
  then obtain j where j: "find_sub p t = Some j" by blast
  then have "\<not> k < j" using \<open>starts_with p (drop k t)\<close> find_sub_SomeD [OF j] by blast
  then show ?thesis using j by (intro exI [of _ j]) simp
qed

lemma find_sub_take:
  assumes "find_sub p t = Some k" "k + length p \<le> n"
  shows "find_sub p (take n t) = Some k"
proof -
  note F = find_sub_SomeD [OF assms(1)]
  have d: "take (length p) (drop j (take n t)) = take (length p) (drop j t)" if "j \<le> k" for j
    using that assms(2) by (simp add: drop_take)
  then show ?thesis using F assms(2) unfolding find_sub_Some_iff starts_with_def by simp
qed

lemma parse_fields_keeps [simp]:
  "MsgState (parse_fields this newid e m) = MsgState m"
  "MsgConnectionType (parse_fields this newid e m) = MsgConnectionType m"
  "MsgProtocolType (parse_fields this newid e m) = MsgProtocolType m"
  "TCPSocketHandle (parse_fields this newid e m) = TCPSocketHandle m"
  "SourceIP (parse_fields this newid e m) = SourceIP m"
  "MsgArrivalPort (parse_fields this newid e m) = MsgArrivalPort m"
  "MsgBuffer (parse_fields this newid e m) = MsgBuffer m"
  "MsgRawBuffer (parse_fields this newid e m) = MsgRawBuffer m"
  by (simp_all add: parse_fields_def Let_def)

lemma Update_keeps [simp]:
  "MsgState (Msg_UpdateMsgConnectionType m ct) = MsgState m"
  "MsgConnectionType (Msg_UpdateMsgConnectionType m ct) = ct"
  "TCPSocketHandle (Msg_UpdateMsgConnectionType m ct) = TCPSocketHandle m"
  "SourceIP (Msg_UpdateMsgConnectionType m ct) = SourceIP m"
  "MsgArrivalPort (Msg_UpdateMsgConnectionType m ct) = MsgArrivalPort m"
  "MsgBuffer (Msg_UpdateMsgConnectionType m ct) = MsgBuffer m"
  "MsgRawBuffer (Msg_UpdateMsgConnectionType m ct) = MsgRawBuffer m"
  "m_HeaderExtract (Msg_UpdateMsgConnectionType m ct) = m_HeaderExtract m"
  "ct \<noteq> MSG_CT_INTERNAL \<Longrightarrow> MsgProtocolType (Msg_UpdateMsgConnectionType m ct) = MsgProtocolType m"
  by (simp_all add: Msg_UpdateMsgConnectionType_def Let_def)

lemma Parse_text:
  assumes b: "holds (MsgBuffer m) t"
    and e: "find_sub (CRLF @ CRLF) t = Some k" and raw: "holds (MsgRawBuffer m) old"
    and ct: "ct \<noteq> MSG_CT_INTERNAL"
  shows "\<exists>m'. Msg_Parse this newid ct ms m = Inr m' \<and> holds (MsgRawBuffer m') t \<and> holds (MsgBuffer m') t \<and>
    MsgState m' = MsgState m \<and> MsgConnectionType m' = ct \<and> MsgProtocolType m' = MsgProtocolType m \<and>
    TCPSocketHandle m' = TCPSocketHandle m \<and> SourceIP m' = SourceIP m \<and> MsgArrivalPort m' = MsgArrivalPort m"
proof -
  have len: "k + 4 \<le> length t" using find_sub_SomeD [OF e] by simp
  then have tne: "t \<noteq> []" "4 \<le> length t" by auto
  obtain blk where blk: "m_pBuffer (MsgBuffer m) = Some blk" using holds_nonnull [OF b] tne by blast
  obtain r rest where "blk = map Some t @ r # rest" using b blk by (rule holds_SomeE)
  then have "take (length t) blk = map Some t" by simp
  from ReplaceWith_holds [OF raw this refl] blk holds_tail [OF b] obtain raw' rc where
    raw': "Buffer_ReplaceWith (MsgRawBuffer m) (Buffer_GetRawBuffer (MsgBuffer m))
        (Buffer_GetBufferCount (MsgBuffer m)) = Inr (raw', rc)" "holds raw' t"
    by (auto simp: Buffer_GetRawBuffer_def Buffer_GetBufferCount_def)
  from find_sub_append_left [OF e] obtain j where j: "j \<le> k" "find_sub CRLF t = Some j" by blast
  have f1: "Buffer_BinaryFind (MsgBuffer m) 0 CRLF = Inr (int j)"
    using BinaryFind_found [OF b j(2)] by simp
  have f2: "Buffer_BinaryFind (MsgBuffer m) 0 [CR, LF, CR, LF] = Inr (int k)"
    using BinaryFind_found [OF b e] by simp
  have p1: "parse_text (MsgBuffer m) (int j) = Inr (take j t)" using parse_text_holds [OF b, of j] j len by simp
  from Find_holds [OF b tne(1), of 0 "'' ''"] obtain b1 where
    b1: "Buffer_Find (MsgBuffer m) '' '' 0 = Inr (b1, case find_sub (cstr '' '') (cstr t) of
        Some i \<Rightarrow> int (0 + i) | None \<Rightarrow> -1)" "holds b1 t" by auto
  have p2: "\<exists>s. parse_text b1 (int i) = Inr s" if "find_sub (cstr '' '') (cstr t) = Some i" for i
    using parse_text_holds [OF b1(2), of i] find_sub_SomeD [OF find_sub_cstr [OF that]] by auto
  from HeaderExtract_Parse_text [OF b1(2) tne(2)] obtain h b2 where
    h: "HeaderExtract_Parse (m_HeaderExtract m) b1 = Inr (h, b2)" "holds b2 t" by blast
  show ?thesis
  proof (cases "find_sub (cstr '' '') (cstr t)")
    case None
    then show ?thesis using raw' h b1(1) ct
      by (simp add: Msg_Parse_def blk Let_def f1 f2 p1 Buffer_GetRawBuffer_def)
  next
    case (Some i)
    from p2 [OF Some] Some show ?thesis using raw' h b1(1) ct
      by (auto simp: Msg_Parse_def blk Let_def f1 f2 p1 Buffer_GetRawBuffer_def)
  qed
qed

section \<open>The buffers of the messages in the pool\<close>

text \<open>The message buffers are only changed by operations of the buffer class, which keep them well-formed.\<close>

definition bufs_ok :: "cMsgPool \<Rightarrow> bool" where
  "bufs_ok p \<longleftrightarrow> (\<forall>a m. m_store p a = Some m \<longrightarrow> buf_wf (MsgBuffer m) \<and> buf_wf (MsgRawBuffer m))"

lemma bufs_ok_put: "bufs_ok p \<Longrightarrow> buf_wf (MsgBuffer m) \<Longrightarrow> buf_wf (MsgRawBuffer m) \<Longrightarrow> bufs_ok (pool_put p a m)"
  by (simp add: bufs_ok_def pool_put_def)

lemma wf_Reset: "buf_wf b \<Longrightarrow> buf_wf (Buffer_Reset b)"
  using holds_Reset [OF wf_holds] holds_wf by blast

lemma reset_bufs:
  "buf_wf (MsgBuffer m) \<Longrightarrow> buf_wf (MsgBuffer (Msg_ResetMsg newid now m))"
  "buf_wf (MsgRawBuffer m) \<Longrightarrow> buf_wf (MsgRawBuffer (Msg_ResetMsg newid now m))"
  by (simp_all add: Msg_ResetMsg_def wf_Reset)

lemma new_bufs: "buf_wf (MsgBuffer (new_cMsg newid now))" "buf_wf (MsgRawBuffer (new_cMsg newid now))"
  using reset_bufs [of blank_cMsg] holds_wf [OF holds_new] by (simp_all add: new_cMsg_def blank_cMsg_def)

lemma GetMessage_bufs:
  assumes ok: "bufs_ok (m_msgPool q)" and g: "MQ_GetMessage env q = Inr (a, q')"
  shows "bufs_ok (m_msgPool q')"
proof -
  obtain p ids where p: "Pool_GetReusableMessage (e_uuid env) (e_now env) (m_msgPool q) (m_UniqueIDProvider q) =
      Inr (a, p, ids)" "q' = q\<lparr>m_msgPool := p, m_UniqueIDProvider := ids\<rparr>"
    using g by (auto simp: MQ_GetMessage_def Pool_GetMessage_def result_simps)
  have "bufs_ok p"
    using p(1) ok new_bufs reset_bufs unfolding bufs_ok_def
    by (auto simp: Pool_GetReusableMessage_def Let_def result_simps pool_upd_def pool_put_def pool_get_def
        Msg_SetMsgState_def split: list.splits prod.splits option.splits if_splits)
  then show ?thesis using p(2) by simp
qed

section \<open>A request becomes a message\<close>

lemma con_put_simps [simp]:
  "con_get (con_put q s r) s = r" "s' \<noteq> s \<Longrightarrow> con_get (con_put q s r) s' = con_get q s'"
  "m_msgPool (con_put q s r) = m_msgPool q" "queued (con_put q s r) = queued q"
  "mq_inv (con_put q s r) = mq_inv q" "m_UniqueIDProvider (con_put q s r) = m_UniqueIDProvider q"
  "con_put (con_put q s r) s r' = con_put q s r'"
  "con_get (q\<lparr>m_msgPool := p\<rparr>) s = con_get q s" "con_get (q\<lparr>m_UniqueIDProvider := ids\<rparr>) s = con_get q s"
  "(con_put q s r)\<lparr>m_msgPool := p\<rparr> = con_put (q\<lparr>m_msgPool := p\<rparr>) s r"
  "(con_put q s r)\<lparr>m_UniqueIDProvider := ids\<rparr> = con_put (q\<lparr>m_UniqueIDProvider := ids\<rparr>) s r"
  by (simp_all add: con_get_def con_put_def map_lookup_def map_store_def queued_def mq_inv_def)

lemma pool_ids_swap [simp]:
  "q\<lparr>m_UniqueIDProvider := ids, m_msgPool := p\<rparr> = q\<lparr>m_msgPool := p, m_UniqueIDProvider := ids\<rparr>"
  by (rule cMsgQueue.equality) simp_all

lemma pool_put_put [simp]: "pool_put (pool_put p a m) a m' = pool_put p a m'"
  by (simp add: pool_put_def)

lemma pool_put_same [simp]: "m_store (pool_put p a m) a = Some m"
  by (simp add: pool_put_def)

lemma take_request_spec:
  assumes m: "m_store (m_msgPool q) a = Some m" "buf_wf (MsgBuffer m)"
    and t: "holds (cr_buffer (con_get q s)) t" and n: "m_msgSize h = int n" "0 < n" "n \<le> length t"
  shows "\<exists>b b' pay. take_request h q s a = Inr (con_put (q\<lparr>m_msgPool := pool_put (m_msgPool q) a
        (m\<lparr>MsgBuffer := b, m_pPayload := pay, MsgContentLength := int n\<rparr>)\<rparr>) s
        ((con_get q s)\<lparr>cr_buffer := b'\<rparr>)) \<and>
    holds b (take n t) \<and> terminated b \<and> holds b' (drop n t)"
proof -
  have "t \<noteq> []" using n by auto
  then obtain blk where blk: "m_pBuffer (cr_buffer (con_get q s)) = Some blk" using holds_nonnull [OF t] by blast
  obtain r rest where "blk = map Some t @ r # rest" using t blk by (rule holds_SomeE)
  then have "take n blk = map Some (take n t)" using n by (simp add: take_map)
  moreover have "length (take n t) = n" using n by simp
  ultimately obtain b rc where b: "Buffer_ReplaceWith (MsgBuffer m) (Some blk) (int n) = Inr (b, rc)"
    "holds b (take n t)" "terminated b"
    using ReplaceWith_holds [OF wf_holds [OF m(2)], of n blk "take n t"] n(2) by blast
  from Remove_holds [OF t n(2), of 0] n(3) obtain b' where
    b': "Buffer_Remove (cr_buffer (con_get q s)) 0 (int n) = Inr (b', BUFFER_NO_ERROR)" "holds b' (drop n t)"
    by auto
  show ?thesis using m(1) blk b b' n(1)
    by (auto simp: take_request_def mq_get_eq mq_upd_eq Msg_SetContentPayload_def Buffer_GetRawBuffer_def)
qed

lemma MQ_Parse_spec:
  assumes m: "m_store (m_msgPool q) a = Some m" "holds (MsgBuffer m) t" "buf_wf (MsgRawBuffer m)"
    and e: "find_sub (CRLF @ CRLF) t = Some k" and ct: "ct \<noteq> MSG_CT_INTERNAL"
  shows "\<exists>m' ids. MQ_Parse env q a ct ms =
      Inr (q\<lparr>m_msgPool := pool_put (m_msgPool q) a m', m_UniqueIDProvider := ids\<rparr>) \<and>
    holds (MsgRawBuffer m') t \<and> holds (MsgBuffer m') t \<and>
    MsgState m' = MsgState m \<and> MsgConnectionType m' = ct \<and> MsgProtocolType m' = MsgProtocolType m \<and>
    TCPSocketHandle m' = TCPSocketHandle m \<and> SourceIP m' = SourceIP m \<and> MsgArrivalPort m' = MsgArrivalPort m"
proof -
  obtain newid ids where id: "UniqueID_GetID (e_uuid env) (m_UniqueIDProvider q) = (newid, ids)" by fastforce
  from Parse_text [OF m(2) e wf_holds [OF m(3)] ct, of a newid ms] obtain m' where
    m': "Msg_Parse a newid ct ms m = Inr m'" "holds (MsgRawBuffer m') t" "holds (MsgBuffer m') t"
      "MsgState m' = MsgState m" "MsgConnectionType m' = ct" "MsgProtocolType m' = MsgProtocolType m"
      "TCPSocketHandle m' = TCPSocketHandle m" "SourceIP m' = SourceIP m" "MsgArrivalPort m' = MsgArrivalPort m"
    by blast
  let ?ids = "if parse_draws_id m m' then ids else m_UniqueIDProvider q"
  have "MQ_Parse env q a ct ms = Inr (q\<lparr>m_msgPool := pool_put (m_msgPool q) a m', m_UniqueIDProvider := ?ids\<rparr>)"
    using m(1) m'(1) id by (simp add: MQ_Parse_def mq_get_eq mq_upd_eq)
  then show ?thesis using m' by blast
qed

text \<open>
  \<open>made env q s pt req rest q'\<close>: from \<open>q\<close> to \<open>q'\<close> one message was taken from the pool, that
  carries the bytes \<open>req\<close> and is dispatched; the connection has the bytes \<open>rest\<close> left.
\<close>

definition made :: "cMsgQueue \<Rightarrow> int \<Rightarrow> eMsgProtocolType \<Rightarrow> string \<Rightarrow> string \<Rightarrow> cMsgQueue \<Rightarrow> bool" where
  "made q s pr req rest q' \<longleftrightarrow>
     mq_inv q' \<and> bufs_ok (m_msgPool q') \<and> queued q' = queued q \<and>
     holds (cr_buffer (con_get q' s)) rest \<and> (\<forall>s'. s' \<noteq> s \<longrightarrow> con_get q' s' = con_get q s') \<and>
     (\<exists>a m. state_of (m_msgPool q) a \<in> {Some MSG_STATE_INACTIVE, None} \<and>
        m_store (m_msgPool q') a = Some m \<and> MsgState m = MSG_STATE_PENDING \<and>
        MsgConnectionType m = MSG_CT_IB_TCP \<and> MsgProtocolType m = pr \<and>
        TCPSocketHandle m = Socketfd (con_get q s) \<and> SourceIP m = inet_ntoa (fst (SocketAddr (con_get q s))) \<and>
        MsgArrivalPort m = arrivalPort (con_get q s) \<and>
        holds (MsgRawBuffer m) req \<and> holds (MsgBuffer m) req \<and>
        (\<forall>b. b \<noteq> a \<longrightarrow> m_store (m_msgPool q') b = m_store (m_msgPool q) b))"

text \<open>The steps that both protocols share: take a message, prepare it with \<open>f\<close>, fill it, parse it.\<close>

definition request_parsed ::
  "env \<Rightarrow> cConnectionHandlerInbound \<Rightarrow> cMsgQueue \<Rightarrow> int \<Rightarrow> (cMsg \<Rightarrow> cMsg) \<Rightarrow> (nat \<times> cMsgQueue) result" where
  "request_parsed env h q s f =
     rbind (CreateMessage env q) (\<lambda>(a, q).
     rbind (mq_upd q a f) (\<lambda>q.
     rbind (take_request h q s a) (\<lambda>q.
     rbind (MQ_Parse env q a MSG_CT_IB_TCP MSG_FORMAT_REQ) (\<lambda>q. Inr (a, q)))))"

lemma request_parsed_spec:
  assumes inv: "mq_inv q" "bufs_ok (m_msgPool q)"
    and t: "holds (cr_buffer (con_get q s)) t" and n: "m_msgSize h = int n" "0 < n" "n \<le> length t"
    and e: "find_sub (CRLF @ CRLF) (take n t) = Some k"
    and f: "\<And>m. MsgBuffer (f m) = MsgBuffer m \<and> MsgRawBuffer (f m) = MsgRawBuffer m \<and> MsgState (f m) = MsgState m"
  shows "\<exists>a q' m m0 b ids p. request_parsed env h q s f = Inr (a, q') \<and>
    q' = con_put (q\<lparr>m_msgPool := p, m_UniqueIDProvider := ids\<rparr>) s ((con_get q s)\<lparr>cr_buffer := b\<rparr>) \<and>
    held q' a \<and> bufs_ok p \<and> holds b (drop n t) \<and>
    state_of (m_msgPool q) a \<in> {Some MSG_STATE_INACTIVE, None} \<and> m_store p a = Some m \<and>
    MsgState m = MSG_STATE_INUSE \<and> MsgConnectionType m = MSG_CT_IB_TCP \<and>
    MsgProtocolType m = MsgProtocolType (f m0) \<and> TCPSocketHandle m = TCPSocketHandle (f m0) \<and>
    SourceIP m = SourceIP (f m0) \<and> MsgArrivalPort m = MsgArrivalPort (f m0) \<and>
    holds (MsgRawBuffer m) (take n t) \<and> holds (MsgBuffer m) (take n t) \<and>
    (\<forall>b. b \<noteq> a \<longrightarrow> m_store p b = m_store (m_msgPool q) b)"
proof -
  from MQ_GetMessage_spec [OF inv(1), of env] obtain a p1 ids1 where
    g: "MQ_GetMessage env q = Inr (a, q\<lparr>m_msgPool := p1, m_UniqueIDProvider := ids1\<rparr>)"
      "held (q\<lparr>m_msgPool := p1, m_UniqueIDProvider := ids1\<rparr>) a"
      "state_of (m_msgPool q) a \<in> {Some MSG_STATE_INACTIVE, None}"
      "\<forall>b. b \<noteq> a \<longrightarrow> m_store p1 b = m_store (m_msgPool q) b" by blast
  let ?q1 = "q\<lparr>m_msgPool := p1, m_UniqueIDProvider := ids1\<rparr>"
  from held_live [OF g(2)] obtain m0 where m0: "m_store p1 a = Some m0" "MsgState m0 = MSG_STATE_INUSE" by auto
  have ok: "bufs_ok p1" using GetMessage_bufs [OF inv(2) g(1)] by simp
  then have wf: "buf_wf (MsgBuffer m0)" "buf_wf (MsgRawBuffer m0)" using m0(1) by (auto simp: bufs_ok_def)
  let ?q2 = "?q1\<lparr>m_msgPool := pool_put p1 a (f m0)\<rparr>"
  have u: "mq_upd ?q1 a f = Inr ?q2" using m0(1) by (simp add: mq_upd_eq)
  have m2: "m_store (m_msgPool ?q2) a = Some (f m0)" "buf_wf (MsgBuffer (f m0))" using f wf by simp_all
  have t2: "holds (cr_buffer (con_get ?q2 s)) t" using t by simp
  from take_request_spec [OF m2 t2 n] obtain b b' pay where
    tk: "take_request h ?q2 s a = Inr (con_put (?q2\<lparr>m_msgPool := pool_put (m_msgPool ?q2) a
        ((f m0)\<lparr>MsgBuffer := b, m_pPayload := pay, MsgContentLength := int n\<rparr>)\<rparr>) s
        ((con_get ?q2 s)\<lparr>cr_buffer := b'\<rparr>))"
      "holds b (take n t)" "terminated b" "holds b' (drop n t)" by blast
  let ?m3 = "(f m0)\<lparr>MsgBuffer := b, m_pPayload := pay, MsgContentLength := int n\<rparr>"
  let ?q3 = "con_put (q\<lparr>m_msgPool := pool_put p1 a ?m3, m_UniqueIDProvider := ids1\<rparr>) s
      ((con_get q s)\<lparr>cr_buffer := b'\<rparr>)"
  have tk3: "take_request h ?q2 s a = Inr ?q3" using tk(1) by simp
  have m3: "m_store (m_msgPool ?q3) a = Some ?m3" "holds (MsgBuffer ?m3) (take n t)"
    "buf_wf (MsgRawBuffer ?m3)" using tk(2,3) f wf by simp_all
  have ct: "MSG_CT_IB_TCP \<noteq> MSG_CT_INTERNAL" by simp
  from MQ_Parse_spec [OF m3 e ct, of env MSG_FORMAT_REQ] obtain m ids where
    pm: "MQ_Parse env ?q3 a MSG_CT_IB_TCP MSG_FORMAT_REQ =
        Inr (?q3\<lparr>m_msgPool := pool_put (m_msgPool ?q3) a m, m_UniqueIDProvider := ids\<rparr>)"
      "holds (MsgRawBuffer m) (take n t)" "holds (MsgBuffer m) (take n t)"
      "MsgState m = MsgState ?m3" "MsgConnectionType m = MSG_CT_IB_TCP"
      "MsgProtocolType m = MsgProtocolType ?m3" "TCPSocketHandle m = TCPSocketHandle ?m3"
      "SourceIP m = SourceIP ?m3" "MsgArrivalPort m = MsgArrivalPort ?m3" by blast
  let ?q4 = "con_put (q\<lparr>m_msgPool := pool_put p1 a m, m_UniqueIDProvider := ids\<rparr>) s
      ((con_get q s)\<lparr>cr_buffer := b'\<rparr>)"
  have r: "request_parsed env h q s f = Inr (a, ?q4)"
    using g(1) u tk3 pm(1) by (simp add: request_parsed_def CreateMessage_def)
  have st: "MsgState m = MSG_STATE_INUSE" using pm(4) f m0(2) by simp
  have "held (?q1\<lparr>m_msgPool := pool_put (m_msgPool ?q1) a m\<rparr>) a" using put_inv(2) [OF g(2) st] .
  then have h: "held ?q4 a" by (simp add: held_def mq_inv_def queued_def con_put_def)
  have "bufs_ok (pool_put p1 a m)" using ok pm(2,3) holds_wf by (blast intro: bufs_ok_put)
  then show ?thesis
    using r h tk(4) g(3,4) pm(2-9) st
    by (intro exI [of _ a] exI [of _ ?q4] exI [of _ m] exI [of _ m0] exI [of _ b'] exI [of _ ids]
        exI [of _ "pool_put p1 a m"]) (simp add: pool_put_def)
qed

lemma CreateMessage_con: "CreateMessage env q = Inr (a, q') \<Longrightarrow> con_get q' s = con_get q s"
  by (auto simp: CreateMessage_def MQ_GetMessage_def result_simps con_get_def)

definition mcp_msg :: "string \<Rightarrow> ConnectionRecord \<Rightarrow> ProtocolType \<Rightarrow> cMsg \<Rightarrow> cMsg" where
  "mcp_msg ip r pt m =
     (let m = Msg_SetTCPSocketHandle m (Socketfd r);
          m = Msg_SetConnectionType m MSG_CT_IB_TCP;
          m = Msg_SetSourceIP m ip;
          m = Msg_SetArrivalPort m (arrivalPort r)
      in if pt = eProtocol_HTTP_MCP then Msg_SetProtocolType m MSG_PROTOCOL_HTTP_MCP
         else if pt = eProtocol_MCP then Msg_SetProtocolType m MSG_PROTOCOL_MCP else m)"

definition http_msg :: "string \<Rightarrow> ConnectionRecord \<Rightarrow> ProtocolType \<Rightarrow> cMsg \<Rightarrow> cMsg" where
  "http_msg ip r pt m =
     (let m = Msg_SetTCPSocketHandle m (Socketfd r);
          m = Msg_SetConnectionType m MSG_CT_IB_TCP;
          m = Msg_SetSourceIP m ip
      in if pt = eProtocol_HTTP_GET then Msg_SetProtocolType m MSG_PROTOCOL_HTTP_GET
         else if pt = eProtocol_HTTP_POST then Msg_SetProtocolType m MSG_PROTOCOL_HTTP_POST else m)"

lemma ProcessMCP_steps:
  "ProcessMCP env q s pt h =
     (let r = con_get q s; h = h\<lparr>m_ipaddr := inet_ntoa (fst (SocketAddr r))\<rparr>
      in rbind (request_parsed env h q s (mcp_msg (m_ipaddr h) r pt)) (\<lambda>(a, q).
         rbind (MQ_DispatchMsg env q a) (\<lambda>q. Inr (HRC_CONNECTION_HANDLER_ENDTASK, h, q))))"
proof (cases "CreateMessage env q")
  case (Inl e)
  then show ?thesis by (simp add: ProcessMCP_def request_parsed_def Let_def)
next
  case (Inr x)
  obtain a q1 where x: "x = (a, q1)" by (cases x)
  with Inr have con: "con_get q1 s = con_get q s" using CreateMessage_con by simp
  show ?thesis using Inr x con
    by (simp add: ProcessMCP_def request_parsed_def Let_def rbind_assoc mcp_msg_def [abs_def] cong: if_cong)
qed

lemma ProcessHTTP_steps:
  "ProcessHTTP env q s pt h =
     (let r = con_get q s; h = h\<lparr>m_ipaddr := inet_ntoa (fst (SocketAddr r))\<rparr>
      in rbind (request_parsed env h q s (http_msg (m_ipaddr h) r pt)) (\<lambda>(a, q).
         let (newid, ids) = UniqueID_GetID (e_uuid env) (m_UniqueIDProvider q);
             q = q\<lparr>m_UniqueIDProvider := ids\<rparr>
         in rbind (mq_upd q a (\<lambda>m.
              let m = Msg_UpdateMsgID newid m;
                  m = Msg_SetMsgPriority m MSG_PRIORITY_HIGH;
                  m = Msg_SetNotifyAction m MSG_NOTIFY_ACTION_NO;
                  m = Msg_SetReplyAction m MSG_REPLY_ACTION_WAIT
              in Msg_SetArrivalPort m (arrivalPort (con_get q s)))) (\<lambda>q.
            rbind (MQ_DispatchMsg env q a) (\<lambda>q.
            Inr (HRC_CONNECTION_HANDLER_ENDTASK, h, q)))))"
proof (cases "CreateMessage env q")
  case (Inl e)
  then show ?thesis by (simp add: ProcessHTTP_def request_parsed_def Let_def)
next
  case (Inr x)
  obtain a q1 where x: "x = (a, q1)" by (cases x)
  with Inr have con: "con_get q1 s = con_get q s" using CreateMessage_con by simp
  show ?thesis using Inr x con
    by (simp add: ProcessHTTP_def request_parsed_def Let_def rbind_assoc http_msg_def [abs_def] cong: if_cong)
qed

lemma prepared:
  "MsgBuffer (mcp_msg ip r pt m) = MsgBuffer m \<and> MsgRawBuffer (mcp_msg ip r pt m) = MsgRawBuffer m \<and>
     MsgState (mcp_msg ip r pt m) = MsgState m"
  "MsgBuffer (http_msg ip r pt m) = MsgBuffer m \<and> MsgRawBuffer (http_msg ip r pt m) = MsgRawBuffer m \<and>
     MsgState (http_msg ip r pt m) = MsgState m"
  by (simp_all add: mcp_msg_def http_msg_def Let_def msg_setters Msg_SetConnectionType_def)

lemma ProcessMCP_spec:
  assumes inv: "mq_inv q" "bufs_ok (m_msgPool q)"
    and t: "holds (cr_buffer (con_get q s)) t" and n: "m_msgSize h = int n" "0 < n" "n \<le> length t"
    and e: "find_sub (CRLF @ CRLF) (take n t) = Some k"
  shows "\<exists>h' q'. ProcessMCP env q s eProtocol_MCP h = Inr (HRC_CONNECTION_HANDLER_ENDTASK, h', q') \<and>
    m_bCloseConnection h' = m_bCloseConnection h \<and> made q s MSG_PROTOCOL_MCP (take n t) (drop n t) q'"
proof -
  let ?r = "con_get q s"
  let ?ip = "inet_ntoa (fst (SocketAddr ?r))"
  let ?h = "h\<lparr>m_ipaddr := ?ip\<rparr>"
  have n': "m_msgSize ?h = int n" using n(1) by simp
  from request_parsed_spec [where env = env, OF inv t n' n(2,3) e prepared(1) [of ?ip ?r eProtocol_MCP]] obtain a q1 m m0 b ids p where
    r: "request_parsed env ?h q s (mcp_msg ?ip ?r eProtocol_MCP) = Inr (a, q1)"
      "q1 = con_put (q\<lparr>m_msgPool := p, m_UniqueIDProvider := ids\<rparr>) s (?r\<lparr>cr_buffer := b\<rparr>)"
      "held q1 a" "bufs_ok p" "holds b (drop n t)" "state_of (m_msgPool q) a \<in> {Some MSG_STATE_INACTIVE, None}"
      "m_store p a = Some m" "MsgState m = MSG_STATE_INUSE" "MsgConnectionType m = MSG_CT_IB_TCP"
      "MsgProtocolType m = MsgProtocolType (mcp_msg ?ip ?r eProtocol_MCP m0)"
      "TCPSocketHandle m = TCPSocketHandle (mcp_msg ?ip ?r eProtocol_MCP m0)"
      "SourceIP m = SourceIP (mcp_msg ?ip ?r eProtocol_MCP m0)"
      "MsgArrivalPort m = MsgArrivalPort (mcp_msg ?ip ?r eProtocol_MCP m0)"
      "holds (MsgRawBuffer m) (take n t)" "holds (MsgBuffer m) (take n t)"
      "\<forall>b. b \<noteq> a \<longrightarrow> m_store p b = m_store (m_msgPool q) b" by blast
  let ?m = "m\<lparr>MsgState := MSG_STATE_PENDING\<rparr>"
  let ?q = "con_put (q\<lparr>m_msgPool := pool_put p a ?m, m_UniqueIDProvider := ids\<rparr>) s (?r\<lparr>cr_buffer := b\<rparr>)"
  have d: "MQ_DispatchMsg env q1 a = Inr ?q"
    using r(2,7,9) by (simp add: MQ_DispatchMsg_def mq_upd_eq Msg_DispatchMsg_def)
  have "mq_inv ?q" using put_inv(1) [OF r(3), of ?m] r(2) by simp
  moreover have "bufs_ok (pool_put p a ?m)" using r(4,14,15) holds_wf by (intro bufs_ok_put) auto
  ultimately have "made q s MSG_PROTOCOL_MCP (take n t) (drop n t) ?q"
    using r(5-16) cstr_id [OF inet_ntoa_no_NUL]
    unfolding made_def
    by (simp add: pool_put_def mcp_msg_def Let_def msg_setters Msg_SetConnectionType_def) blast
  then show ?thesis using r(1) d by (simp add: ProcessMCP_steps Let_def)
qed

definition http_protocol :: "ProtocolType \<Rightarrow> eMsgProtocolType" where
  "http_protocol pt = (if pt = eProtocol_HTTP_GET then MSG_PROTOCOL_HTTP_GET else MSG_PROTOCOL_HTTP_POST)"

lemma ProcessHTTP_spec:
  assumes inv: "mq_inv q" "bufs_ok (m_msgPool q)"
    and t: "holds (cr_buffer (con_get q s)) t" and n: "m_msgSize h = int n" "0 < n" "n \<le> length t"
    and e: "find_sub (CRLF @ CRLF) (take n t) = Some k"
    and pt: "pt = eProtocol_HTTP_GET \<or> pt = eProtocol_HTTP_POST"
  shows "\<exists>h' q'. ProcessHTTP env q s pt h = Inr (HRC_CONNECTION_HANDLER_ENDTASK, h', q') \<and>
    m_bCloseConnection h' = m_bCloseConnection h \<and> made q s (http_protocol pt) (take n t) (drop n t) q'"
proof -
  let ?r = "con_get q s"
  let ?ip = "inet_ntoa (fst (SocketAddr ?r))"
  let ?h = "h\<lparr>m_ipaddr := ?ip\<rparr>"
  have n': "m_msgSize ?h = int n" using n(1) by simp
  from request_parsed_spec [where env = env, OF inv t n' n(2,3) e prepared(2) [of ?ip ?r pt]] obtain a q1 m m0 b ids p where
    r: "request_parsed env ?h q s (http_msg ?ip ?r pt) = Inr (a, q1)"
      "q1 = con_put (q\<lparr>m_msgPool := p, m_UniqueIDProvider := ids\<rparr>) s (?r\<lparr>cr_buffer := b\<rparr>)"
      "held q1 a" "bufs_ok p" "holds b (drop n t)" "state_of (m_msgPool q) a \<in> {Some MSG_STATE_INACTIVE, None}"
      "m_store p a = Some m" "MsgState m = MSG_STATE_INUSE" "MsgConnectionType m = MSG_CT_IB_TCP"
      "MsgProtocolType m = MsgProtocolType (http_msg ?ip ?r pt m0)"
      "TCPSocketHandle m = TCPSocketHandle (http_msg ?ip ?r pt m0)"
      "SourceIP m = SourceIP (http_msg ?ip ?r pt m0)"
      "holds (MsgRawBuffer m) (take n t)" "holds (MsgBuffer m) (take n t)"
      "\<forall>b. b \<noteq> a \<longrightarrow> m_store p b = m_store (m_msgPool q) b" by blast
  obtain newid ids' where id: "UniqueID_GetID (e_uuid env) ids = (newid, ids')" by fastforce
  let ?m = "m\<lparr>MsgID := newid, MsgPriority := MSG_PRIORITY_HIGH, MsgNotifyActionType := MSG_NOTIFY_ACTION_NO,
      MsgReplyActionType := MSG_REPLY_ACTION_WAIT, MsgArrivalPort := arrivalPort ?r\<rparr>"
  let ?n = "?m\<lparr>MsgState := MSG_STATE_PENDING\<rparr>"
  let ?q = "con_put (q\<lparr>m_msgPool := pool_put p a ?n, m_UniqueIDProvider := ids'\<rparr>) s (?r\<lparr>cr_buffer := b\<rparr>)"
  have u: "mq_upd (q1\<lparr>m_UniqueIDProvider := ids'\<rparr>) a (\<lambda>m.
              let m = Msg_UpdateMsgID newid m;
                  m = Msg_SetMsgPriority m MSG_PRIORITY_HIGH;
                  m = Msg_SetNotifyAction m MSG_NOTIFY_ACTION_NO;
                  m = Msg_SetReplyAction m MSG_REPLY_ACTION_WAIT
              in Msg_SetArrivalPort m (arrivalPort (con_get (q1\<lparr>m_UniqueIDProvider := ids'\<rparr>) s))) =
      Inr (con_put (q\<lparr>m_msgPool := pool_put p a ?m, m_UniqueIDProvider := ids'\<rparr>) s (?r\<lparr>cr_buffer := b\<rparr>))"
    using r(2,7) by (simp add: mq_upd_eq Let_def msg_setters Msg_UpdateMsgID_def)
  have d: "MQ_DispatchMsg env
      (con_put (q\<lparr>m_msgPool := pool_put p a ?m, m_UniqueIDProvider := ids'\<rparr>) s (?r\<lparr>cr_buffer := b\<rparr>)) a = Inr ?q"
    using r(9) by (simp add: MQ_DispatchMsg_def mq_upd_eq [where m = ?m] Msg_DispatchMsg_def)
  have "mq_inv ?q" using put_inv(1) [OF r(3), of ?n] r(2) by simp
  moreover have "bufs_ok (pool_put p a ?n)" using r(4,13,14) holds_wf by (intro bufs_ok_put) auto
  ultimately have "made q s (http_protocol pt) (take n t) (drop n t) ?q"
    using r(5-15) cstr_id [OF inet_ntoa_no_NUL] pt
    unfolding made_def
    by (simp add: pool_put_def http_msg_def http_protocol_def Let_def msg_setters Msg_SetConnectionType_def) blast
  moreover have "ProcessHTTP env q s pt h = Inr (HRC_CONNECTION_HANDLER_ENDTASK, ?h, ?q)"
    using r(1) id u d r(2) by (simp add: ProcessHTTP_steps Let_def)
  ultimately show ?thesis by auto
qed

section \<open>One connection that is ready\<close>

text \<open>
  What the handler does with the bytes \<open>t\<close> of a connection. A declared length that is negative, or too
  large for the size of the request to be an \<open>int\<close>, is left out here.
\<close>

definition complete :: "string \<Rightarrow> bool" where
  "complete t \<longleftrightarrow> fst (classify t) \<in> {eProtocol_HTTP_GET, eProtocol_HTTP_POST, eProtocol_MCP}"

definition msg_protocol :: "ProtocolType \<Rightarrow> eMsgProtocolType" where
  "msg_protocol pt = (if pt = eProtocol_MCP then MSG_PROTOCOL_MCP else http_protocol pt)"

lemma classify_cases: "fst (classify t) \<in>
    {eProtocol_HTTP_GET, eProtocol_HTTP_POST, eProtocol_MCP, eProtocol_INSUFFICIENT_DATA, eProtocol_UNKNOWN}"
  by (auto simp: classify_def Let_def split: option.split)

lemma classify_end:
  assumes "fst (classify t) \<noteq> eProtocol_INSUFFICIENT_DATA"
  shows "\<exists>k. find_sub (CRLF @ CRLF) (cstr t) = Some k \<and> k + 4 \<le> length t \<and> snd (classify t) \<le> int (length t) \<and>
    (snd (classify t) \<ge> int k + 4 \<longrightarrow> find_sub (CRLF @ CRLF) (take (nat (snd (classify t))) t) = Some k)"
proof -
  obtain k where k: "find_sub (CRLF @ CRLF) (cstr t) = Some k"
    using assms by (cases "find_sub (CRLF @ CRLF) (cstr t)") (auto simp: classify_def)
  note F = find_sub_SomeD [OF find_sub_cstr [OF k]]
  have len: "k + 4 \<le> length t" using F by simp
  have le: "snd (classify t) \<le> int (length t)"
    using assms len unfolding classify_def k by (auto simp: Let_def split: option.splits if_splits)
  have "find_sub (CRLF @ CRLF) (take n t) = Some k" if n: "k + 4 \<le> n" for n
    using find_sub_take [OF find_sub_cstr [OF k], of n] n by simp
  then show ?thesis using k len le by (intro exI [of _ k]) (auto simp: nat_le_eq_zle)
qed

lemma dump_total:
  assumes b: "holds b t" "terminated b" and nn: "m_pBuffer b \<noteq> None"
  shows "\<exists>s. dump_buffer b = Inr s"
proof -
  from nn obtain blk where Some: "m_pBuffer b = Some blk" by blast
  from b(1) Some obtain r rest where blk: "blk = map Some t @ r # rest"
    and z: "m_iTail b = int (length t)" "int (length t) < m_iBufferSize b"
      "m_iBufferSize b \<le> int (length t + Suc (length rest))" by (rule holds_SomeE)
  have r: "r = Some NUL" using b(2) Some blk z(1) by (simp add: terminated_def nth_append)
  define n where "n = nat (m_iBufferSize b)"
  have n: "m_iBufferSize b = int n" "length t < n" "n \<le> length blk" using z blk by (auto simp: n_def)
  have "0 \<le> int n" by simp
  from SetBufferSize_holds [OF holds_new this] obtain c blk' where
    c: "Buffer_SetBufferSize new_cBuffer (int n) = Inr c" "holds c []" "m_pBuffer c = Some blk'"
      "int n < m_iBufferSize c" by blast
  have "m_iTail c = 0 \<and> n < length blk'" by (rule holds_SomeE [OF c(2,3)]) (use c(4) in auto)
  then have c': "m_iTail c = 0" "n < length blk'" by simp_all
  have ap: "Buffer_Append (Buffer_Reset new_cBuffer) (Some blk) (int n) =
      rbind (Buffer_MakeString (c\<lparr>m_pBuffer := Some (take n blk @ drop n blk'), m_iTail := int n\<rparr>))
        (\<lambda>b. Inr (b, BUFFER_NO_ERROR))"
    using n(2,3) c c' by (simp add: Buffer_Append_def arg_length_def Buffer_Reset_def new_cBuffer_def
        mem_slice_Inr mem_store_Inr block_of_def)
  obtain k where k: "n = Suc (length t + k)" using less_imp_Suc_add [OF n(2)] by auto
  let ?w = "take k rest @ drop n blk'"
  have tk: "take n blk @ drop n blk' = map Some t @ Some NUL # ?w" using blk r k by simp
  have kw: "k < length ?w" using n(3) c'(2) blk k by simp
  have up: "(map Some t @ Some NUL # w)[n := Some NUL] = map Some t @ Some NUL # w[k := Some NUL]"
    if "k < length w" for w using k by (simp add: list_update_append)
  have st: "mem_write (map Some t @ Some NUL # w) (int n) NUL = Inr (map Some t @ Some NUL # w[k := Some NUL])"
    if "k < length w" for w
  proof -
    have "n < length (map Some t @ Some NUL # w)" using that k by simp
    then show ?thesis using up [OF that] by (simp add: mem_write_def)
  qed
  let ?d = "\<lambda>w. c\<lparr>m_pBuffer := Some (map Some t @ Some NUL # w), m_iTail := int n\<rparr>"
  have mk: "Buffer_MakeString (?d w) = Inr (?d (w[k := Some NUL]))" if "k < length w" for w
    using st [OF that] by (simp add: Buffer_MakeString_def)
  have "Buffer_GetBuffer (?d w) = Inr (?d (w[k := Some NUL]), Some (map Some t @ Some NUL # w[k := Some NUL]))"
    if "k < length w" for w
    using st [OF that] by (simp add: Buffer_GetBuffer_def)
  then have "dump_buffer b = Inr (cstr t)"
    using ap mk kw Some n(1,2)
    by (simp add: dump_buffer_def Buffer_ReplaceWith_def Buffer_GetRawBuffer_def Buffer_GetBufferSize_def
        arg_length_def read_cstr_map_Some block_of_def tk)
  then show ?thesis by blast
qed

definition same_peer :: "ConnectionRecord \<Rightarrow> ConnectionRecord \<Rightarrow> bool" where
  "same_peer r r' \<longleftrightarrow>
     Socketfd r = Socketfd r' \<and> SocketAddr r = SocketAddr r' \<and> arrivalPort r = arrivalPort r'"

definition kept :: "cMsgQueue \<Rightarrow> int \<Rightarrow> string \<Rightarrow> cMsgQueue \<Rightarrow> bool" where
  "kept q s t q' \<longleftrightarrow>
     m_msgPool q' = m_msgPool q \<and> mq_inv q' \<and> queued q' = queued q \<and>
     same_peer (con_get q' s) (con_get q s) \<and>
     holds (cr_buffer (con_get q' s)) t \<and> (\<forall>s'. s' \<noteq> s \<longrightarrow> con_get q' s' = con_get q s')"

text \<open>The length that the header declares is not negative, and the size of the request with it is an \<open>int\<close>.\<close>

definition length_ok :: "string \<Rightarrow> bool" where
  "length_ok t \<longleftrightarrow>
     (case declared_length t of
        None \<Rightarrow> True
      | Some l \<Rightarrow> 0 \<le> l \<and>
          (case find_sub (CRLF @ CRLF) (cstr t) of None \<Rightarrow> True | Some k \<Rightarrow> int k + 4 + l < 2 ^ 31))"

lemma made_con_put: "same_peer r (con_get q s) \<Longrightarrow> made (con_put q s r) s pr x y q' = made q s pr x y q'"
  by (auto simp: made_def same_peer_def)

lemma made_after: "made q s pr x y q' \<Longrightarrow> cr_buffer r = cr_buffer (con_get q' s) \<Longrightarrow> made q s pr x y (con_put q' s r)"
  by (auto simp: made_def)

lemma kept_con_put: "same_peer r (con_get q s) \<Longrightarrow> kept (con_put q s r) s t q' = kept q s t q'"
  by (auto simp: kept_def same_peer_def)

lemma kept_after:
  "kept q s t q' \<Longrightarrow> cr_buffer r = cr_buffer (con_get q' s) \<Longrightarrow> same_peer r (con_get q' s) \<Longrightarrow>
     kept q s t (con_put q' s r)"
  by (auto simp: kept_def same_peer_def)

lemma length_ok_end:
  assumes "length_ok t" "fst (classify t) \<noteq> eProtocol_INSUFFICIENT_DATA" "find_sub (CRLF @ CRLF) (cstr t) = Some k"
  shows "int k + 4 \<le> snd (classify t)"
proof -
  have "int k + 4 \<le> int_sum (int k + 4) l" if "declared_length t = Some l" for l
    using assms(1) that unfolding length_ok_def assms(3) by (simp add: int_sum_fits)
  then show ?thesis using assms(2) unfolding classify_def assms(3)
    by (auto simp: Let_def split: option.splits if_splits)
qed

lemma Inbound_Process_spec:
  assumes inv: "mq_inv q" "bufs_ok (m_msgPool q)" and ne: "t \<noteq> []"
    and t: "holds (cr_buffer (con_get q s)) t" and ok: "length_ok t"
  shows "\<exists>rc h' q'. Inbound_Process env q s h = Inr (rc, h', q') \<and> m_bCloseConnection h' = m_bCloseConnection h \<and>
    (if complete t
     then rc = HRC_CONNECTION_HANDLER_ENDTASK \<and>
       made q s (msg_protocol (fst (classify t))) (take (nat (snd (classify t))) t) (drop (nat (snd (classify t))) t) q'
     else kept q s t q' \<and>
       (if fst (classify t) = eProtocol_INSUFFICIENT_DATA then rc = HRC_CONNECTION_HANDLER_PARSE_NOT_READY
        else rc = HRC_CONNECTION_HANDLER_INVALIDATED_TASK \<and> (\<exists>x. dump_buffer (cr_buffer (con_get q' s)) = Inr x)))"
proof -
  let ?pt = "fst (classify t)" and ?n = "nat (snd (classify t))"
  have nn: "m_pBuffer (cr_buffer (con_get q s)) \<noteq> None" using holds_nonnull [OF t] ne by blast
  from AnalyzeProtocol_spec [OF t nn, of h] obtain h1 b where
    a: "AnalyzeProtocol h (cr_buffer (con_get q s)) = Inr (?pt, h1, b)" "holds b t" "terminated b"
      "?pt \<noteq> eProtocol_INSUFFICIENT_DATA \<longrightarrow> m_msgSize h1 = snd (classify t)"
      "m_bCloseConnection h1 = m_bCloseConnection h" by blast
  let ?r = "(con_get q s)\<lparr>cr_buffer := b\<rparr>"
  let ?q = "con_put q s ?r"
  have k: "kept q s t ?q" using a(2) inv(1) by (simp add: kept_def same_peer_def)
  have p: "same_peer ?r (con_get q s)" by (simp add: same_peer_def)
  have t': "holds (cr_buffer (con_get ?q s)) t" using a(2) by simp
  show ?thesis
  proof (cases "complete t")
    case True
    then have pt: "?pt \<in> {eProtocol_HTTP_GET, eProtocol_HTTP_POST, eProtocol_MCP}" by (simp add: complete_def)
    then have ns: "?pt \<noteq> eProtocol_INSUFFICIENT_DATA" by auto
    from classify_end [OF ns] obtain k where k: "find_sub (CRLF @ CRLF) (cstr t) = Some k"
      "snd (classify t) \<le> int (length t)"
      "snd (classify t) \<ge> int k + 4 \<longrightarrow> find_sub (CRLF @ CRLF) (take ?n t) = Some k" by blast
    have e: "int k + 4 \<le> snd (classify t)" by (rule length_ok_end [OF ok ns k(1)])
    have n: "m_msgSize h1 = int ?n" "0 < ?n" "?n \<le> length t" using a(4) ns e k(2) by auto
    have f: "find_sub (CRLF @ CRLF) (take ?n t) = Some k" using k(3) e by simp
    have i: "mq_inv ?q" "bufs_ok (m_msgPool ?q)" using inv by simp_all
    have "\<exists>h' q'. (if ?pt = eProtocol_MCP then ProcessMCP env ?q s ?pt h1 else ProcessHTTP env ?q s ?pt h1) =
        Inr (HRC_CONNECTION_HANDLER_ENDTASK, h', q') \<and> m_bCloseConnection h' = m_bCloseConnection h1 \<and>
        made ?q s (msg_protocol ?pt) (take ?n t) (drop ?n t) q'"
    proof (cases "?pt = eProtocol_MCP")
      case True
      then show ?thesis using ProcessMCP_spec [OF i t' n f, of env] by (simp add: msg_protocol_def)
    next
      case False
      then have "?pt = eProtocol_HTTP_GET \<or> ?pt = eProtocol_HTTP_POST" using pt by auto
      from ProcessHTTP_spec [OF i t' n f this, of env] False show ?thesis by (simp add: msg_protocol_def)
    qed
    then show ?thesis using True pt a(1,5) made_con_put [OF p]
      by (auto simp: Inbound_Process_def)
  next
    case False
    then have "?pt = eProtocol_INSUFFICIENT_DATA \<or> ?pt = eProtocol_UNKNOWN"
      using classify_cases [of t] by (auto simp: complete_def)
    moreover have "m_pBuffer b \<noteq> None" using holds_nonnull [OF a(2)] ne by blast
    then have "\<exists>x. dump_buffer b = Inr x" by (rule dump_total [OF a(2,3)])
    ultimately show ?thesis using False a(1,5) k by (auto simp: Inbound_Process_def)
  qed
qed

definition outcome :: "cMsgQueue \<Rightarrow> int \<Rightarrow> string \<Rightarrow> cMsgQueue \<Rightarrow> bool" where
  "outcome q s t q' \<longleftrightarrow>
     (if complete t
      then made q s (msg_protocol (fst (classify t))) (take (nat (snd (classify t))) t) (drop (nat (snd (classify t))) t) q'
      else kept q s t q')"

lemma Inbound_HandleConnection_spec:
  assumes inv: "mq_inv q" "bufs_ok (m_msgPool q)"
    and t: "holds (cr_buffer (con_get q s)) t" and ok: "length_ok (t @ d)"
  shows "\<exists>h' q'. Inbound_HandleConnection env (Received d) q s h = Inr (h', q') \<and>
    m_bCloseConnection h' = (fst (classify (t @ d)) = eProtocol_UNKNOWN) \<and> outcome q s (t @ d) q'"
proof -
  let ?u = "t @ d"
  let ?h = "h\<lparr>m_bCloseConnection := False\<rparr>"
  let ?q0 = "con_put q s ((con_get q s)\<lparr>pActiveHandler := Some 0\<rparr>)"
  have "\<exists>r. (if length d > 0
             then rbind (Buffer_Append (cr_buffer (con_get ?q0 s)) (Some (map Some d)) (int (length d)))
                    (\<lambda>(b, _). Inr (con_put ?q0 s ((con_get ?q0 s)\<lparr>cr_buffer := b, cr_timestamp := e_now env\<rparr>)))
             else Inr ?q0) = Inr (con_put q s r) \<and> holds (cr_buffer r) ?u \<and> same_peer r (con_get q s)"
  proof (cases "d = []")
    case True
    then show ?thesis using t by (auto simp: same_peer_def)
  next
    case False
    then have d: "take (length d) (map Some d) = map Some d" "length d = length d" "0 < length d" by simp_all
    from Append_holds [OF t d] obtain b where
      b: "Buffer_Append (cr_buffer (con_get q s)) (Some (map Some d)) (int (length d)) = Inr (b, BUFFER_NO_ERROR)"
        "holds b ?u" by blast
    then show ?thesis using False by (auto simp: same_peer_def)
  qed
  then obtain r where r: "(if length d > 0
             then rbind (Buffer_Append (cr_buffer (con_get ?q0 s)) (Some (map Some d)) (int (length d)))
                    (\<lambda>(b, _). Inr (con_put ?q0 s ((con_get ?q0 s)\<lparr>cr_buffer := b, cr_timestamp := e_now env\<rparr>)))
             else Inr ?q0) = Inr (con_put q s r)" "holds (cr_buffer r) ?u" "same_peer r (con_get q s)" by blast
  have "\<exists>b. Buffer_Find (cr_buffer r) (CRLF @ CRLF) 0 =
      Inr (b, case find_sub (CRLF @ CRLF) (cstr ?u) of Some k \<Rightarrow> int k | None \<Rightarrow> -1) \<and> holds b ?u"
  proof (cases "?u = []")
    case True
    then show ?thesis using r(2) holds_tail [OF r(2)] by (simp add: Buffer_Find_def)
  next
    case False
    from Find_holds [OF r(2) False, of 0 "CRLF @ CRLF"] show ?thesis
      by (auto simp: cstr_def cong: option.case_cong)
  qed
  then obtain b where b: "Buffer_Find (cr_buffer r) (CRLF @ CRLF) 0 =
      Inr (b, case find_sub (CRLF @ CRLF) (cstr ?u) of Some k \<Rightarrow> int k | None \<Rightarrow> -1)" "holds b ?u" by blast
  let ?q2 = "con_put q s (r\<lparr>cr_buffer := b\<rparr>)"
  have p: "same_peer (r\<lparr>cr_buffer := b\<rparr>) (con_get q s)" using r(3) by (simp add: same_peer_def)
  show ?thesis
  proof (cases "find_sub (CRLF @ CRLF) (cstr ?u)")
    case None
    then have c: "classify ?u = (eProtocol_INSUFFICIENT_DATA, 0)" by (simp add: classify_def)
    let ?q' = "con_put q s (r\<lparr>cr_buffer := b, pActiveHandler := None\<rparr>)"
    have "kept q s ?u ?q'" using b(2) inv(1) r(3) by (simp add: kept_def same_peer_def)
    moreover have "Inbound_HandleConnection env (Received d) q s h = Inr (?h, ?q')"
      using r(1) b(1) None by (simp add: Inbound_HandleConnection_def Let_def)
    ultimately show ?thesis using c by (simp add: outcome_def complete_def)
  next
    case (Some k)
    then have ne: "?u \<noteq> []" by (auto simp: cstr_def)
    have i: "mq_inv ?q2" "bufs_ok (m_msgPool ?q2)" "holds (cr_buffer (con_get ?q2 s)) ?u" using inv b(2) by simp_all
    from Inbound_Process_spec [OF i(1,2) ne i(3) ok, of env ?h] obtain rc h' q' where
      pr: "Inbound_Process env ?q2 s ?h = Inr (rc, h', q')" "m_bCloseConnection h' = False"
      "if complete ?u
       then rc = HRC_CONNECTION_HANDLER_ENDTASK \<and>
         made ?q2 s (msg_protocol (fst (classify ?u))) (take (nat (snd (classify ?u))) ?u) (drop (nat (snd (classify ?u))) ?u) q'
       else kept ?q2 s ?u q' \<and>
         (if fst (classify ?u) = eProtocol_INSUFFICIENT_DATA then rc = HRC_CONNECTION_HANDLER_PARSE_NOT_READY
          else rc = HRC_CONNECTION_HANDLER_INVALIDATED_TASK \<and> (\<exists>x. dump_buffer (cr_buffer (con_get q' s)) = Inr x))"
      by auto
    let ?q3 = "con_put q' s ((con_get q' s)\<lparr>pActiveHandler := None\<rparr>)"
    have out: "outcome q s ?u ?q3"
      using pr(3) made_con_put [OF p] made_after [of q s _ _ _ q'] kept_after [of q s _ q'] kept_con_put [OF p]
      by (auto simp: outcome_def same_peer_def split: if_splits)
    have e: "Inbound_HandleConnection env (Received d) q s h =
       Inr (if rc = HRC_CONNECTION_HANDLER_INVALIDATED_TASK then h'\<lparr>m_bCloseConnection := True\<rparr> else h', ?q3)"
      using r(1) b(1) Some pr(1,3)
      by (auto simp: Inbound_HandleConnection_def Let_def handler_codes split: if_splits)
    have "(rc = HRC_CONNECTION_HANDLER_INVALIDATED_TASK) = (fst (classify ?u) = eProtocol_UNKNOWN)"
      using pr(3) classify_cases [of ?u] by (auto simp: handler_codes complete_def split: if_splits)
    then show ?thesis using e out pr(2) by auto
  qed
qed

section \<open>A request that arrives in pieces\<close>

fun receive ::
  "env \<Rightarrow> string list \<Rightarrow> cMsgQueue \<Rightarrow> int \<Rightarrow> cConnectionHandlerInbound \<Rightarrow>
     (cConnectionHandlerInbound \<times> cMsgQueue) result" where
  "receive env [] q s h = Inr (h, q)"
| "receive env (d # ds) q s h =
     rbind (Inbound_HandleConnection env (Received d) q s h) (\<lambda>(h, q). receive env ds q s h)"

lemma kept_outcome:
  assumes k: "kept q s t q1" and o: "outcome q1 s u q2"
  shows "outcome q s u q2"
proof -
  have p: "same_peer (con_get q1 s) (con_get q s)" "m_msgPool q1 = m_msgPool q" "queued q1 = queued q"
    "\<And>s'. s' \<noteq> s \<Longrightarrow> con_get q1 s' = con_get q s'" using k by (auto simp: kept_def)
  then have "made q1 s pr x y q2 = made q s pr x y q2" "kept q1 s u q2 = kept q s u q2" for pr x y
    by (auto simp: made_def kept_def same_peer_def)
  then show ?thesis using o by (cases "complete u") (simp_all add: outcome_def)
qed

lemma kept_inv: "kept q s t q' \<Longrightarrow> bufs_ok (m_msgPool q) \<Longrightarrow> mq_inv q' \<and> bufs_ok (m_msgPool q')"
  by (simp add: kept_def)

lemma receive_pieces:
  assumes "mq_inv q" "bufs_ok (m_msgPool q)" "holds (cr_buffer (con_get q s)) t"
    and "t @ concat ds @ d = req" "d \<noteq> []" "length_ok req"
    and "\<And>p r. req = p @ r \<Longrightarrow> r \<noteq> [] \<Longrightarrow> length_ok p \<and> fst (classify p) = eProtocol_INSUFFICIENT_DATA"
  shows "\<exists>h' q'. receive env (ds @ [d]) q s h = Inr (h', q') \<and>
    m_bCloseConnection h' = (fst (classify req) = eProtocol_UNKNOWN) \<and> outcome q s req q'"
  using assms
proof (induction ds arbitrary: q h t)
  case Nil
  then have "length_ok (t @ d)" "t @ d = req" by auto
  from Inbound_HandleConnection_spec [OF Nil.prems(1-3) this(1), of env h] this(2) show ?case by auto
next
  case (Cons d0 ds)
  have part: "req = (t @ d0) @ concat ds @ d" using Cons.prems(4) by simp
  have "length_ok (t @ d0)" "fst (classify (t @ d0)) = eProtocol_INSUFFICIENT_DATA"
    using Cons.prems(7) [OF part] Cons.prems(5) by auto
  from Inbound_HandleConnection_spec [OF Cons.prems(1-3) this(1), of env h] this(2) obtain h1 q1 where
    h1: "Inbound_HandleConnection env (Received d0) q s h = Inr (h1, q1)" "kept q s (t @ d0) q1"
    by (auto simp: outcome_def complete_def)
  have i: "mq_inv q1" "bufs_ok (m_msgPool q1)" using kept_inv [OF h1(2) Cons.prems(2)] by auto
  have b: "holds (cr_buffer (con_get q1 s)) (t @ d0)" using h1(2) by (simp add: kept_def)
  have e: "(t @ d0) @ concat ds @ d = req" using part by simp
  obtain h' q' where
    "receive env (ds @ [d]) q1 s h1 = Inr (h', q')"
    "m_bCloseConnection h' = (fst (classify req) = eProtocol_UNKNOWN)" "outcome q1 s req q'"
    using Cons.IH [where h = h1, OF i b e Cons.prems(5,6)] Cons.prems(7) by blast
  then show ?case using h1(1) kept_outcome [OF h1(2)] by auto
qed

section \<open>A length that is negative or overflows\<close>

lemma negative_length_faults:
  assumes inv: "mq_inv q" "bufs_ok (m_msgPool q)" and t: "holds (cr_buffer (con_get q s)) t"
    and c: "fst (classify t) = eProtocol_MCP" "snd (classify t) < -1"
  shows "Inbound_Process env q s h = Inl OutOfBounds"
proof -
  have ne: "t \<noteq> []" using c(1) by (auto simp: classify_def)
  have nn: "m_pBuffer (cr_buffer (con_get q s)) \<noteq> None" using holds_nonnull [OF t] ne by blast
  from AnalyzeProtocol_spec [OF t nn, of h] c(1) obtain h1 b where
    a: "AnalyzeProtocol h (cr_buffer (con_get q s)) = Inr (eProtocol_MCP, h1, b)" "holds b t"
      "m_msgSize h1 = snd (classify t)" by auto
  obtain blk where blk: "m_pBuffer b = Some blk" using holds_nonnull [OF a(2)] ne by blast
  let ?q = "con_put q s ((con_get q s)\<lparr>cr_buffer := b\<rparr>)"
  have i: "mq_inv ?q" "bufs_ok (m_msgPool ?q)" using inv by simp_all
  from MQ_GetMessage_spec [OF i(1), of env] obtain a' p ids where
    g: "MQ_GetMessage env ?q = Inr (a', ?q\<lparr>m_msgPool := p, m_UniqueIDProvider := ids\<rparr>)"
      "held (?q\<lparr>m_msgPool := p, m_UniqueIDProvider := ids\<rparr>) a'" by blast
  from held_live [OF g(2)] obtain m where m: "m_store p a' = Some m" by auto
  have "bufs_ok p" using GetMessage_bufs [OF i(2) g(1)] by simp
  then have "buf_wf (MsgBuffer m)" using m by (simp add: bufs_ok_def)
  then have "0 \<le> m_iBufferSize (MsgBuffer m)" by (auto simp: buf_wf_def split: option.splits)
  then have r: "Buffer_ReplaceWith (MsgBuffer m) (Some blk) (snd (classify t)) = Inl OutOfBounds"
    using c(2) by (simp add: Buffer_ReplaceWith_def arg_length_def Buffer_Append_def Buffer_Reset_def mem_slice_negative)
  have "request_parsed env h' ?q s f = Inl OutOfBounds"
    if "m_msgSize h' = snd (classify t)" "\<And>m. MsgBuffer (f m) = MsgBuffer m" for h' f
    using g(1) m blk r that
    by (simp add: request_parsed_def CreateMessage_def mq_upd_eq take_request_def mq_get_eq
        Msg_SetContentPayload_def Buffer_GetRawBuffer_def)
  then show ?thesis using a(1,3) prepared(1)
    by (simp add: Inbound_Process_def ProcessMCP_steps Let_def)
qed

end
