(* ===== verification/ConnectionOutboundLaws.thy ===== *)
theory ConnectionOutboundLaws
  imports ConnectionHandlerOutbound ConnectionInboundLaws MsgParse
begin

text \<open>
  What the outbound handler sends: every byte of a text in its order and none twice, whatever part of it
  the system takes at a time; when sending ends; the texts of replies and requests; and what becomes of
  the message.
\<close>

section \<open>Sending a text\<close>

definition sent_to :: "int \<Rightarrow> net \<Rightarrow> string" where
  "sent_to fd w = concat (map snd (filter (\<lambda>x. fst x = fd) (n_out w)))"

text \<open>What the documentation of \<open>send\<close> promises: it takes at most what it was given.\<close>

definition send_ok :: "os \<Rightarrow> bool" where
  "send_ok os \<longleftrightarrow> (\<forall>n fd b k. os_send os n fd b = Sent k \<longrightarrow> k \<le> length b)"

lemma sent_to_tick [simp]: "sent_to fd (tick w) = sent_to fd w"
  by (simp add: sent_to_def tick_def)

lemma sent_to_out: "sent_to fd (w\<lparr>n_out := n_out w @ [(fd', b)]\<rparr>) = sent_to fd w @ (if fd' = fd then b else [])"
  by (simp add: sent_to_def)

lemma tick_simps [simp]:
  "n_out (tick w) = n_out w" "n_datagrams (tick w) = n_datagrams w" "n_closed (tick w) = n_closed w"
  "n_calls (tick w) = n_calls w + 1"
  by (simp_all add: tick_def)

definition took :: "int \<Rightarrow> string \<Rightarrow> net \<Rightarrow> net" where
  "took fd b w = w\<lparr>n_out := n_out w @ [(fd, b)]\<rparr>"

lemma took_simps [simp]:
  "sent_to f (took fd b w) = sent_to f w @ (if fd = f then b else [])"
  "n_datagrams (took fd b w) = n_datagrams w" "n_closed (took fd b w) = n_closed w"
  "n_calls (took fd b w) = n_calls w"
  by (simp_all add: took_def sent_to_def)

text \<open>One round of the loop on a text, with \<open>F\<close> for the rounds that follow.\<close>

definition send_round ::
  "(nat \<Rightarrow> net \<Rightarrow> (bool \<times> net) result option) \<Rightarrow> os \<Rightarrow> int \<Rightarrow> string \<Rightarrow> nat \<Rightarrow> net \<Rightarrow>
     (bool \<times> net) result option" where
  "send_round F os fd s i w =
    (case os_send os (n_calls w) fd (drop i s) of
       SendFailed \<Rightarrow> Some (Inr (False, tick w))
     | SendAgain \<Rightarrow> if i < length s then F i (tick w) else Some (Inr (True, tick w))
     | Sent n \<Rightarrow>
         if i + n < length s then F (i + n) (took fd (take n (drop i s)) (tick w))
         else Some (Inr (True, took fd (take n (drop i s)) (tick w))))"

lemma tcp_send_body:
  assumes i: "i \<le> length s"
  shows "(case rbind (mem_slice (map Some s @ rest) (int i) (int (length s) - int i)) mem_text of
        Inl e \<Rightarrow> Some (Inl e)
      | Inr bytes \<Rightarrow>
          let bytesSent = os_send os (n_calls w) fd bytes;
              w = tick w
          in if bytesSent = SendFailed then Some (Inr (False, w))
             else
               let w = (if bytesSent = SendAgain then w
                        else w\<lparr>n_out := n_out w @ [(fd, take (sent_count bytesSent) bytes)]\<rparr>);
                   totalSent = int i + int (sent_count bytesSent)
               in if totalSent < int (length s) then G os fd (map Some s @ rest) (int (length s)) totalSent w
                  else Some (Inr (True, w))) =
    send_round (\<lambda>j. G os fd (map Some s @ rest) (int (length s)) (int j)) os fd s i w"
proof -
  have "mem_slice (map Some s @ rest) (int i) (int (length s) - int i) =
      Inr (take (nat (int (length s) - int i)) (drop (nat (int i)) (map Some s @ rest)))"
    using i by (intro mem_slice_Inr) auto
  moreover have "nat (int (length s) - int i) = length (drop i (map Some s))" using i by simp
  ultimately have "mem_slice (map Some s @ rest) (int i) (int (length s) - int i) = Inr (map Some (drop i s))"
    using i by (simp add: drop_map)
  then show ?thesis by (simp add: send_round_def Let_def took_def split: send_result.split)
qed

definition send_text :: "os \<Rightarrow> int \<Rightarrow> string \<Rightarrow> block \<Rightarrow> nat \<Rightarrow> net \<Rightarrow> (bool \<times> net) result option" where
  "send_text os fd s rest i = tcp_send_loop os fd (map Some s @ rest) (int (length s)) (int i)"

lemma send_text_step: "i \<le> length s \<Longrightarrow> send_text os fd s rest i w = send_round (send_text os fd s rest) os fd s i w"
  unfolding send_text_def
  by (subst tcp_send_loop.simps)
     (rule tcp_send_body [where G = "\<lambda>os fd p len i w. tcp_send_loop os fd p len i w"])

lemma send_text_induct [consumes 2, case_names round]:
  assumes r: "send_text os fd s rest i w = Some r" and i: "i \<le> length s"
    and round: "\<And>F i w r. (\<And>j w r. F j w = Some r \<Longrightarrow> j \<le> length s \<Longrightarrow> P j w r) \<Longrightarrow> i \<le> length s \<Longrightarrow>
       send_round F os fd s i w = Some r \<Longrightarrow> P i w r"
  shows "P i w r"
proof -
  let ?Q = "\<lambda>os' fd' p len t w r. \<forall>i. os' = os \<and> fd' = fd \<and> p = map Some s @ rest \<and> len = int (length s) \<and>
      t = int i \<and> i \<le> length s \<longrightarrow> P i w r"
  have "?Q os fd (map Some s @ rest) (int (length s)) (int i) w r"
  proof (rule tcp_send_loop.raw_induct [of ?Q, OF _ r [unfolded send_text_def]], intro allI impI, elim conjE)
    fix G :: "os \<Rightarrow> int \<Rightarrow> block \<Rightarrow> int \<Rightarrow> int \<Rightarrow> net \<Rightarrow> (bool \<times> net) result option"
    fix os' fd' p len t w r i
    assume IH: "\<And>os' fd' p len t w r. G os' fd' p len t w = Some r \<Longrightarrow> ?Q os' fd' p len t w r"
      and eqs: "os' = os" "fd' = fd" "p = map Some s @ rest" "len = int (length s)" "t = int i" and i: "i \<le> length s"
      and body: "(case rbind (mem_slice p t (len - t)) mem_text of
        Inl e \<Rightarrow> Some (Inl e)
      | Inr bytes \<Rightarrow>
          let bytesSent = os_send os' (n_calls w) fd' bytes;
              w = tick w
          in if bytesSent = SendFailed then Some (Inr (False, w))
             else
               let w = (if bytesSent = SendAgain then w
                        else w\<lparr>n_out := n_out w @ [(fd', take (sent_count bytesSent) bytes)]\<rparr>);
                   t = t + int (sent_count bytesSent)
               in if t < len then G os' fd' p len t w else Some (Inr (True, w))) = Some r"
    show "P i w r"
      using body [unfolded eqs tcp_send_body [OF i, where rest = rest and w = w and os = os and fd = fd and G = G]] IH i
      by (intro round [of "\<lambda>j. G os fd (map Some s @ rest) (int (length s)) (int j)" i w r]) auto
  qed
  then show ?thesis using i by simp
qed

text \<open>
  Between \<open>w\<close> and \<open>w'\<close> the system answered an error to a call of \<open>send\<close> that was given what is left of \<open>s\<close>
  behind its first \<open>k\<close> bytes.
\<close>

definition refused :: "os \<Rightarrow> int \<Rightarrow> string \<Rightarrow> nat \<Rightarrow> net \<Rightarrow> net \<Rightarrow> bool" where
  "refused os fd s k w w' \<longleftrightarrow>
     (\<exists>n. n_calls w \<le> n \<and> n < n_calls w' \<and> os_send os n fd (drop k s) = SendFailed)"

lemma refused_later: "refused os fd s k w1 w2 \<Longrightarrow> n_calls w \<le> n_calls w1 \<Longrightarrow> n_calls w2 \<le> n_calls w3 \<Longrightarrow> refused os fd s k w w3"
  unfolding refused_def using order.trans order.strict_trans2 by metis

text \<open>
  A call of the loop hands over a prefix of the text, all of it when it reports success; it fails only when
  the system refuses the rest.
\<close>

lemma send_text_outcome:
  assumes "send_text os fd s rest i w = Some r" "i \<le> length s" and ok: "send_ok os"
  shows "\<exists>b k w'. r = Inr (b, w') \<and> i \<le> k \<and> k \<le> length s \<and> (b \<longrightarrow> k = length s) \<and>
    (\<not> b \<longrightarrow> refused os fd s k w w') \<and> n_calls w \<le> n_calls w' \<and>
    (\<forall>f. sent_to f w' = sent_to f w @ (if f = fd then take (k - i) (drop i s) else [])) \<and>
    n_datagrams w' = n_datagrams w \<and> n_closed w' = n_closed w"
  using assms(1,2)
proof (induction rule: send_text_induct)
  case (round F i w r)
  show ?case
  proof (cases "os_send os (n_calls w) fd (drop i s)")
    case (Sent n)
    with ok have "n \<le> length (drop i s)" unfolding send_ok_def by blast
    then have n: "i + n \<le> length s" using round.hyps by simp
    show ?thesis
    proof (cases "i + n < length s")
      case True
      then have "F (i + n) (took fd (take n (drop i s)) (tick w)) = Some r"
        using round.hyps Sent by (simp add: send_round_def)
      from round.IH [OF this n] obtain b k w' where I: "r = Inr (b, w')" "i + n \<le> k" "k \<le> length s"
        "b \<longrightarrow> k = length s" "\<not> b \<longrightarrow> refused os fd s k (took fd (take n (drop i s)) (tick w)) w'"
        "n_calls w + 1 \<le> n_calls w'"
        "\<And>f. sent_to f w' = sent_to f (took fd (take n (drop i s)) (tick w)) @
           (if f = fd then take (k - (i + n)) (drop (i + n) s) else [])"
        "n_datagrams w' = n_datagrams w" "n_closed w' = n_closed w" by auto
      have "take n (drop i s) @ take (k - (i + n)) (drop (i + n) s) = take (k - i) (drop i s)"
        using I(2) take_add [of n "k - (i + n)" "drop i s"] by (simp add: add.commute)
      moreover have "\<not> b \<longrightarrow> refused os fd s k w w'" using I(5) by (auto intro: refused_later)
      ultimately show ?thesis using I by (auto simp del: take_all intro!: exI [of _ b] exI [of _ k])
    next
      case False
      then have "i + n = length s" using n by simp
      then show ?thesis using False Sent round.hyps
        by (auto simp: send_round_def intro!: exI [of _ "length s"])
    qed
  next
    case SendAgain
    show ?thesis
    proof (cases "i < length s")
      case True
      then have "F i (tick w) = Some r" using round.hyps SendAgain by (simp add: send_round_def)
      from round.IH [OF this round.hyps(1)] obtain b k w' where I: "r = Inr (b, w')" "i \<le> k" "k \<le> length s"
        "b \<longrightarrow> k = length s" "\<not> b \<longrightarrow> refused os fd s k (tick w) w'" "n_calls w + 1 \<le> n_calls w'"
        "\<forall>f. sent_to f w' = sent_to f w @ (if f = fd then take (k - i) (drop i s) else [])"
        "n_datagrams w' = n_datagrams w" "n_closed w' = n_closed w" by auto
      then have "\<not> b \<longrightarrow> refused os fd s k w w'" by (auto intro: refused_later)
      then show ?thesis using I by auto
    next
      case False
      then show ?thesis using round.hyps SendAgain by (auto simp: send_round_def intro!: exI [of _ i])
    qed
  next
    case SendFailed
    then have "refused os fd s i w (tick w)" unfolding refused_def by (intro exI [of _ "n_calls w"]) simp
    then show ?thesis using SendFailed round.hyps by (intro exI [of _ False] exI [of _ i] exI [of _ "tick w"]) (simp add: send_round_def)
  qed
qed

text \<open>Sending ends if the system takes something or fails again and again.\<close>

lemma send_text_total:
  assumes live: "\<forall>n. \<exists>m \<ge> n. \<forall>b. b \<noteq> [] \<longrightarrow>
      os_send os m fd b = SendFailed \<or> (\<exists>k > 0. os_send os m fd b = Sent k)"
    and i: "i \<le> length s"
  shows "\<exists>r. send_text os fd s rest i w = Some r"
  using i
proof (induction "length s - i" arbitrary: i w rule: less_induct)
  case (less i w)
  obtain m where m: "n_calls w \<le> m" "\<And>b. b \<noteq> [] \<Longrightarrow>
      os_send os m fd b = SendFailed \<or> (\<exists>k > 0. os_send os m fd b = Sent k)" using live by blast
  note outer_hyps = less.hyps and outer_prems = less.prems
  have "\<exists>r. send_text os fd s rest i w = Some r" if "n_calls w \<le> m" for w
    using that
  proof (induction "m - n_calls w" arbitrary: w rule: less_induct)
    case (less w)
    show ?case
    proof (cases "i < length s")
      case False
      then show ?thesis using outer_prems
        by (subst send_text_step) (auto simp: send_round_def split: send_result.split)
    next
      case True
      have next_pos: "\<exists>r. send_text os fd s rest (i + n) w' = Some r" if "0 < n" "i + n < length s" for n w'
        using outer_hyps [of "i + n" w'] that by simp
      have again: "\<exists>r. send_text os fd s rest i w' = Some r"
        if "n_calls w' = n_calls w + 1" "n_calls w \<noteq> m" for w'
        using less.hyps [of w'] that less.prems by simp
      have at_m: "n_calls w \<noteq> m" if "os_send os (n_calls w) fd (drop i s) = SendAgain \<or>
          os_send os (n_calls w) fd (drop i s) = Sent 0"
        using m(2) [of "drop i s"] that True by auto
      note step = send_text_step [OF outer_prems, of os fd rest w, unfolded send_round_def]
      show ?thesis
      proof (cases "os_send os (n_calls w) fd (drop i s)")
        case (Sent n)
        show ?thesis
        proof (cases "n = 0")
          case True
          then show ?thesis using again at_m Sent \<open>i < length s\<close> unfolding step by simp
        next
          case False
          then show ?thesis using next_pos [of n] Sent unfolding step by simp
        qed
      next
        case SendAgain
        then show ?thesis using again at_m True unfolding step by simp
      next
        case SendFailed
        then show ?thesis unfolding step by simp
      qed
    qed
  qed
  then show ?case using m(1) by blast
qed

text \<open>It never ends while the system keeps asking to try again.\<close>

lemma send_text_never:
  assumes again: "\<And>n b. os_send os n fd b = SendAgain" and i: "i < length s"
  shows "send_text os fd s rest i w = None"
proof (cases "send_text os fd s rest i w")
  case (Some r)
  then have "i \<le> length s" using i by simp
  with Some have "i < length s \<longrightarrow> False"
    by (induction rule: send_text_induct) (auto simp: send_round_def again split: if_splits)
  then show ?thesis using i by simp
qed simp

section \<open>The texts of messages\<close>

text \<open>
  The texts that the outbound handler builds in \<open>m_response\<close>, and that a request it writes is read
  back by the inbound handler and the parser of the peer.
\<close>

section \<open>The texts in the buffer\<close>

lemma getters_no_NUL [simp]:
  "NUL \<notin> set (Msg_GetTo m)" "NUL \<notin> set (Msg_GetFrom m)" "NUL \<notin> set (Msg_GetCommand m)"
  "NUL \<notin> set (Msg_GetMsgID m)" "NUL \<notin> set (Msg_GetContentType m)"
  by (simp_all add: msg_getters)

lemma pieces_no_NUL [simp]:
  "NUL \<notin> set crlf" "NUL \<notin> set (connection_text m)" "NUL \<notin> set (message_type m)" "NUL \<notin> set (int_text3 i)"
  "NUL \<notin> set (int_text i)"
  using nat_digits_no_NUL int_text_no_NUL
  by (auto simp: crlf_def connection_text_def message_type_def int_text3_def Let_def set_replicate_conv_if)

lemma headers_no_NUL [simp]:
  "NUL \<notin> set (mcp_reply_header m)" "NUL \<notin> set (mcp_request_header m)" "NUL \<notin> set (http_header env m)"
  "NUL \<notin> set (os_elapsed os) \<Longrightarrow> NUL \<notin> set (mcp_reply_head os m)"
  unfolding mcp_reply_header_def mcp_request_header_def http_header_def mcp_reply_head_def
  by (simp_all del: cstr_def)

definition mcp_reply_text :: "os \<Rightarrow> cMsg \<Rightarrow> string" where
  "mcp_reply_text os m =
     mcp_reply_head os m @
     (if Msg_GetTo m = [] then [] else ''To: '' @ Msg_GetTo m @ crlf) @
     ''From: '' @ Msg_GetFrom m @ crlf @
     (if Msg_GetCommand m = [] then [] else ''Command: '' @ Msg_GetCommand m @ crlf @ crlf) @
     crlf"

lemma mcp_empty_reply_holds:
  assumes b: "holds b s" and e: "NUL \<notin> set (os_elapsed os)"
    and fits: "length (mcp_reply_head os m) < 2048" "length (Msg_GetFrom m) < 2040" "length (Msg_GetCommand m) < 2037"
  shows "\<exists>b'. mcp_empty_reply os m b = Inr b' \<and> holds b' (mcp_reply_text os m)"
proof -
  let ?head = "mcp_reply_head os m"
  let ?to = "if Msg_GetTo m = [] then [] else ''To: '' @ Msg_GetTo m @ crlf"
  let ?from = "''From: '' @ Msg_GetFrom m @ crlf"
  let ?cmd = "''Command: '' @ Msg_GetCommand m @ crlf"
  from ReplaceWith_string [OF b headers_no_NUL(4) [OF e]] obtain b1 rc where
    b1: "Buffer_ReplaceWith b (Some (cmem ?head)) (-1) = Inr (b1, rc)" "holds b1 ?head" by blast
  have to: "\<exists>b2. (if length (Msg_GetTo m) > 0
            then rbind (Buffer_AppendText b1 ''To: '') (\<lambda>b.
                 rbind (Buffer_AppendText b (Msg_GetTo m)) (\<lambda>b. Buffer_AppendText b crlf))
            else Inr b1) = Inr b2 \<and> holds b2 (?head @ ?to)"
  proof (cases "Msg_GetTo m = []")
    case True
    then show ?thesis using b1(2) by simp
  next
    case False
    from AppendText_holds [OF b1(2), of "''To: ''"] obtain c1 where
      c1: "Buffer_AppendText b1 ''To: '' = Inr c1" "holds c1 (?head @ ''To: '')" by auto
    from AppendText_holds [OF c1(2), of "Msg_GetTo m"] obtain c2 where
      c2: "Buffer_AppendText c1 (Msg_GetTo m) = Inr c2" "holds c2 ((?head @ ''To: '') @ Msg_GetTo m)" by auto
    from AppendText_holds [OF c2(2), of crlf] c1(1) c2(1) False show ?thesis by auto
  qed
  then obtain b2 where b2: "(if length (Msg_GetTo m) > 0
            then rbind (Buffer_AppendText b1 ''To: '') (\<lambda>b.
                 rbind (Buffer_AppendText b (Msg_GetTo m)) (\<lambda>b. Buffer_AppendText b crlf))
            else Inr b1) = Inr b2" "holds b2 (?head @ ?to)" by blast
  from AppendText_holds [OF b2(2), of ?from] obtain b3 where
    b3: "Buffer_AppendText b2 ?from = Inr b3" "holds b3 ((?head @ ?to) @ ?from)" by auto
  have cmd: "\<exists>b4. (if length (Msg_GetCommand m) > 0
            then rbind (test_buffer ?cmd) (\<lambda>t.
                 rbind (Buffer_AppendText b3 t) (\<lambda>b. Buffer_AppendText b crlf))
            else Inr b3) = Inr b4 \<and>
       holds b4 (((?head @ ?to) @ ?from) @ (if Msg_GetCommand m = [] then [] else ?cmd @ crlf))"
  proof (cases "Msg_GetCommand m = []")
    case True
    then show ?thesis using b3(2) by simp
  next
    case False
    have t: "test_buffer ?cmd = Inr ?cmd" using fits(3) by (simp add: test_buffer_def crlf_def)
    from AppendText_holds [OF b3(2), of ?cmd] obtain c1 where
      c1: "Buffer_AppendText b3 ?cmd = Inr c1" "holds c1 (((?head @ ?to) @ ?from) @ ?cmd)" by auto
    from AppendText_holds [OF c1(2), of crlf] c1(1) t False show ?thesis by (auto simp: append_assoc)
  qed
  then obtain b4 where b4: "(if length (Msg_GetCommand m) > 0
            then rbind (test_buffer ?cmd) (\<lambda>t.
                 rbind (Buffer_AppendText b3 t) (\<lambda>b. Buffer_AppendText b crlf))
            else Inr b3) = Inr b4"
       "holds b4 (((?head @ ?to) @ ?from) @ (if Msg_GetCommand m = [] then [] else ?cmd @ crlf))" by blast
  from AppendText_holds [OF b4(2), of crlf] obtain b5 where
    b5: "Buffer_AppendText b4 crlf = Inr b5"
      "holds b5 ((((?head @ ?to) @ ?from) @ (if Msg_GetCommand m = [] then [] else ?cmd @ crlf)) @ crlf)" by auto
  have t: "test_buffer ?head = Inr ?head" "test_buffer ?from = Inr ?from"
    using fits by (simp_all add: test_buffer_def crlf_def)
  have "mcp_empty_reply os m b = Inr b5"
    unfolding mcp_empty_reply_def t rbind.simps b1(1) prod.case b2(1) b3(1) b4(1) b5(1) ..
  moreover have "(((?head @ ?to) @ ?from) @ (if Msg_GetCommand m = [] then [] else ?cmd @ crlf)) @ crlf =
      mcp_reply_text os m" by (simp add: mcp_reply_text_def)
  ultimately show ?thesis using b5(2) by metis
qed

text \<open>The payload \<open>xs\<close> of a message is where its pointer points to and as long as it says.\<close>

definition payload_is :: "cMsgQueue \<Rightarrow> cMsg \<Rightarrow> string \<Rightarrow> bool" where
  "payload_is q m xs \<longleftrightarrow> Msg_GetContentLength m = int (length xs) \<and>
     (xs \<noteq> [] \<longrightarrow> (\<exists>d. payload_block q m = Inr (Some d) \<and> take (length xs) d = map Some xs))"

lemma append_payload_holds:
  assumes p: "payload_is q m xs" "xs \<noteq> []" and b: "holds b s"
  shows "\<exists>b'. append_payload q m b = Inr b' \<and> holds b' (s @ xs)"
proof -
  obtain d where d: "payload_block q m = Inr (Some d)" "take (length xs) d = map Some xs"
    "Msg_GetContentLength m = int (length xs)" using p by (auto simp: payload_is_def)
  then show ?thesis using Append_holds [OF b d(2) refl] p(2) by (auto simp: append_payload_def)
qed

text \<open>What \<open>build_response\<close> leaves in the buffer that held \<open>old\<close>.\<close>

definition response_text :: "os \<Rightarrow> cMsg \<Rightarrow> string \<Rightarrow> string \<Rightarrow> string" where
  "response_text os m xs old =
     (if Msg_GetFormat m = MSG_FORMAT_RES \<or> Msg_GetFormat m = MSG_FORMAT_NOTIFY
      then if Msg_GetProtocolType m = MSG_PROTOCOL_MCP
           then if xs = [] then mcp_reply_text os m else mcp_reply_header m @ xs
           else old
      else mcp_request_header m @ xs)"

definition response_fits :: "os \<Rightarrow> cMsg \<Rightarrow> bool" where
  "response_fits os m \<longleftrightarrow> NUL \<notin> set (os_elapsed os) \<and> length (mcp_reply_head os m) < 2048 \<and>
     length (Msg_GetFrom m) < 2040 \<and> length (Msg_GetCommand m) < 2037 \<and>
     length (mcp_reply_header m) \<le> 5000 \<and> length (mcp_request_header m) \<le> 5000"

lemma build_response_holds:
  assumes b: "holds b old" and fits: "response_fits os m" and p: "payload_is q m xs"
    and pr: "Msg_GetProtocolType m \<noteq> MSG_PROTOCOL_HTTP_MCP \<or>
       Msg_GetFormat m \<noteq> MSG_FORMAT_RES \<and> Msg_GetFormat m \<noteq> MSG_FORMAT_NOTIFY"
  shows "\<exists>b' c. build_response os q m b = Inr (b', c) \<and> holds b' (response_text os m xs old)"
proof -
  have len: "Msg_GetContentLength m = int (length xs)" using p by (simp add: payload_is_def)
  have pay: "\<exists>b'. append_payload q m c = Inr b' \<and> holds b' (s @ xs)" if "xs \<noteq> []" "holds c s" for c s
    using append_payload_holds [OF p that] .
  have spr: "\<exists>c. Buffer_Sprintf b 5000 t = Inr (c, int (length t)) \<and> holds c t"
    if "length t \<le> 5000" "NUL \<notin> set t" for t
    using Sprintf_holds [OF b _ that(2), of 5000] that(1) by auto
  obtain c1 where c1: "Buffer_Sprintf b 5000 (mcp_reply_header m) = Inr (c1, int (length (mcp_reply_header m)))"
    "holds c1 (mcp_reply_header m)" using spr [of "mcp_reply_header m"] fits by (auto simp: response_fits_def)
  obtain c2 where c2: "Buffer_Sprintf b 5000 (mcp_request_header m) = Inr (c2, int (length (mcp_request_header m)))"
    "holds c2 (mcp_request_header m)" using spr [of "mcp_request_header m"] fits by (auto simp: response_fits_def)
  from fits mcp_empty_reply_holds [OF b, of os m] obtain c3 where
    c3: "mcp_empty_reply os m b = Inr c3" "holds c3 (mcp_reply_text os m)" by (auto simp: response_fits_def)
  show ?thesis
  proof (cases "xs = []")
    case True
    then show ?thesis using b c2 c3 pr len by (auto simp: build_response_def response_text_def)
  next
    case False
    from pay [OF False c1(2)] obtain d1 where d1: "append_payload q m c1 = Inr d1" "holds d1 (mcp_reply_header m @ xs)" by blast
    from pay [OF False c2(2)] obtain d2 where d2: "append_payload q m c2 = Inr d2" "holds d2 (mcp_request_header m @ xs)" by blast
    show ?thesis using False b c1(1) c2(1) d1 d2 pr len by (auto simp: build_response_def response_text_def)
  qed
qed

section \<open>A request is understood by the peer\<close>

text \<open>
  The lines of a request, and when its members can be written on lines: no member breaks a line,
  and the command is one word other than those of HTTP.
\<close>

definition request_fields :: "cMsg \<Rightarrow> (string \<times> string) list" where
  "request_fields m =
     [(''MsgID'', Msg_GetMsgID m), (''To'', Msg_GetTo m), (''From'', Msg_GetFrom m)] @
     (if Msg_GetContentLength m > 0
      then [(''Content-Type'', Msg_GetContentType m), (''Content-Length'', int_text (Msg_GetContentLength m))]
      else []) @
     [(''Connection'', connection_text m)]"

definition request_lines :: "cMsg \<Rightarrow> string list" where
  "request_lines m =
     (Msg_GetCommand m @ '' MCP/1.0'') # map (\<lambda>(n, v). n @ '': '' @ v) (request_fields m)"

definition clean_request :: "cMsg \<Rightarrow> bool" where
  "clean_request m \<longleftrightarrow>
     (\<forall>s \<in> {Msg_GetCommand m, Msg_GetMsgID m, Msg_GetTo m, Msg_GetFrom m, Msg_GetContentType m}. CR \<notin> set s) \<and>
     SP \<notin> set (Msg_GetCommand m) \<and> CHR '':'' \<notin> set (Msg_GetCommand m) \<and>
     Msg_GetCommand m \<noteq> ''GET'' \<and> Msg_GetCommand m \<noteq> ''POST'' \<and> 0 \<le> Msg_GetContentLength m"

lemma request_header_lines: "mcp_request_header m = join_lines (request_lines m) @ CRLF"
  by (simp add: mcp_request_header_def request_lines_def request_fields_def crlf_def)

lemma request_message_text: "mcp_request_header m @ xs = message_text (request_lines m) xs"
  by (simp add: request_header_lines message_text_def)

lemma clean_header_lines:
  assumes c: "clean_request m"
  shows "header_lines (request_lines m)"
proof -
  have f: "(n, v) \<in> set (request_fields m) \<Longrightarrow> CR \<notin> set (n @ '': '' @ v) \<and> NUL \<notin> set (n @ '': '' @ v)" for n v
    using c int_text_clean [of "Msg_GetContentLength m"]
    by (auto simp: request_fields_def clean_request_def connection_text_def split: if_splits)
  have "CR \<notin> set l \<and> NUL \<notin> set l \<and> l \<noteq> []" if "l \<in> set (request_lines m)" for l
    using that f c by (auto simp: request_lines_def clean_request_def)
  moreover have "6 \<le> length (join_lines (request_lines m))" by (simp add: request_lines_def)
  ultimately show ?thesis by (simp add: header_lines_def request_lines_def)
qed

lemma request_header_map:
  assumes "clean_request m"
  shows "smap_find (fold header_line (request_lines m) []) = map_of (rev (request_fields m))"
proof -
  have n: "\<forall>(n, v) \<in> set (request_fields m). CHR '':'' \<notin> set n" by (auto simp: request_fields_def)
  have "CHR '':'' \<notin> set (Msg_GetCommand m @ '' MCP/1.0'')" using assms by (simp add: clean_request_def)
  then have "header_line (Msg_GetCommand m @ '' MCP/1.0'') [] = []" by (rule header_line_other)
  then have f: "fold header_line (request_lines m) [] = fold (\<lambda>(n, v). smap_put n v) (request_fields m) []"
    using fold_header_fields [OF n, of "[]"] by (simp add: request_lines_def)
  have F: "smap_find (fold (\<lambda>(n, v). smap_put n v) fs acc) = smap_find acc ++ map_of (rev fs)"
    for fs :: "(string \<times> string) list" and acc
    by (induction fs arbitrary: acc) (auto simp: smap_find_put map_add_upd_left split: prod.split)
  have "smap_find [] = (Map.empty :: string \<Rightarrow> string option)" by (simp add: smap_find_def fun_eq_iff)
  then show ?thesis using F [of "request_fields m" "[]"] by (simp add: f)
qed

lemma header_params_lines:
  assumes ls: "header_lines ls"
  shows "header_params (message_text ls body) = fold header_line ls []"
proof -
  have l: "ls \<noteq> []" "\<forall>l \<in> set ls. l \<noteq> [] \<and> CR \<notin> set l \<and> NUL \<notin> set l" "6 \<le> length (join_lines ls)"
    using ls by (auto simp: header_lines_def)
  let ?t = "message_text ls body"
  have len: "4 \<le> length ?t" using l(3) by (simp add: message_text_def)
  then have ne: "?t \<noteq> []" by auto
  obtain b b' rc where b: "Buffer_Append new_cBuffer (Some (cmem ?t)) (int (length ?t)) = Inr (b, rc)" "holds b ([] @ ?t)"
    using Append_string [OF holds_new ne] by blast
  then have b: "holds b ?t" by simp
  from HeaderExtract_Parse_text [OF b len, of new_cHeaderExtract] obtain h1 b1 where
    1: "HeaderExtract_Parse new_cHeaderExtract b = Inr (h1, b1)" "m_Params h1 = header_params ?t" by blast
  from Parse_header [OF b [unfolded message_text_def] l, of new_cHeaderExtract] 1 show ?thesis by auto
qed

lemma find_sub_occurs: "\<exists>k. find_sub p (a @ p @ b) = Some k"
proof -
  have "find_sub p (a @ p @ b) \<noteq> None"
    by (auto simp: find_sub_None starts_with_append intro!: exI [of _ "length a"])
  then show ?thesis by auto
qed

lemma request_classified:
  assumes c: "clean_request m" and len: "Msg_GetContentLength m = int (length xs)"
    and fits: "int (length (mcp_request_header m @ xs)) < 2 ^ 31"
  shows "classify (mcp_request_header m @ xs) = (eProtocol_MCP, int (length (mcp_request_header m @ xs)))"
proof -
  let ?ls = "request_lines m" and ?t = "mcp_request_header m @ xs"
  let ?n = "length (join_lines ?ls)"
  have hl: "header_lines ?ls" using clean_header_lines [OF c] .
  have t: "?t = message_text ?ls xs" by (rule request_message_text)
  have nul: "NUL \<notin> set (join_lines ?ls @ CRLF)" using headers_no_NUL(2) [of m] by (simp add: request_header_lines)
  have ct: "cstr ?t = join_lines ?ls @ CRLF @ cstr xs"
    using cstr_append [OF nul, of xs] by (simp add: request_header_lines)
  have e: "find_sub (CRLF @ CRLF) (cstr ?t) = Some (?n - 2)"
    unfolding ct using header_end [of ?ls "cstr xs"] hl by (simp add: header_lines_def)
  have "\<exists>a b. cstr ?t = a @ ''MCP/'' @ b"
    unfolding ct request_lines_def by (rule exI [of _ "Msg_GetCommand m @ '' ''"], rule exI) simp
  then have mcp: "find_sub ''MCP/'' (cstr ?t) \<noteq> None" using find_sub_occurs by (metis option.distinct(1))
  have tw: "takeWhile (\<lambda>c. c \<noteq> SP) (w @ SP # r) = w" if "SP \<notin> set w" for w r
    using that by (induction w) auto
  have sp: "SP \<notin> set (Msg_GetCommand m)" using c by (simp add: clean_request_def)
  have "\<exists>r. ?t = Msg_GetCommand m @ SP # r" by (simp add: mcp_request_header_def)
  then have cmd: "takeWhile (\<lambda>c. c \<noteq> SP) ?t = Msg_GetCommand m" using tw [OF sp] by metis
  have st: "Msg_GetCommand m = w" if "starts_with (w @ '' '') ?t" "SP \<notin> set w" for w
    using that cmd tw [OF that(2)] by (auto simp: starts_with_iff)
  have http: "\<not> starts_with ''GET '' ?t" "\<not> starts_with ''POST '' ?t"
    using st [of "''GET''"] st [of "''POST''"] c by (auto simp: clean_request_def simp del: starts_with_Cons)
  have dl: "declared_length ?t = (if xs = [] then None else Some (int (length xs)))"
  proof -
    have h: "header_params ?t = fold header_line ?ls []" unfolding t by (rule header_params_lines [OF hl])
    have p: "param (header_params ?t) ''Content-Length'' = (if xs = [] then [] else int_text (int (length xs)))"
      "param (header_params ?t) ''Content-length'' = []"
      unfolding param_def h request_header_map [OF c] by (simp_all add: request_fields_def len)
    have "cstr (int_text (int (length xs))) = int_text (int (length xs))" by (rule cstr_id) simp
    then show ?thesis
      using int_text_clean [of "int (length xs)"] atoi_int_text [of "int (length xs)"]
      unfolding declared_length_def p by (simp add: Let_def)
  qed
  have "2 \<le> ?n" using hl by (simp add: header_lines_def)
  then have "int (?n - 2) + 4 + int (length xs) = int (length ?t)" by (simp add: request_header_lines)
  then have l: "int_sum (int (?n - 2) + 4) (int (length xs)) = int (length ?t)"
    "xs = [] \<Longrightarrow> int (?n - 2) + 4 = int (length ?t)"
    using fits by (simp_all add: int_sum_fits)
  define g po hm where "g = starts_with ''GET '' ?t" and "po = starts_with ''POST '' ?t"
    and "hm = (find_sub ''HTTP/'' (cstr ?t) \<noteq> None)"
  have "classify ?t = (let n = (case declared_length ?t of None \<Rightarrow> int (?n - 2) + 4 | Some l \<Rightarrow> int_sum (int (?n - 2) + 4) l)
      in if declared_length ?t \<noteq> None \<and> int (length ?t) < n then (eProtocol_INSUFFICIENT_DATA, 0)
         else (eProtocol_MCP, n))"
    unfolding classify_def e using http mcp by (simp add: Let_def del: starts_with_Cons)
  then show ?thesis unfolding dl using l by (cases "xs = []") (simp_all add: Let_def)
qed

end
