(* ===== verification/OutboundDelivery.thy ===== *)
theory OutboundDelivery
  imports ConnectionOutboundLaws
begin

text \<open>
  What a call of \<open>cConnectionHandlerOutbound::HandleConnection\<close> does with a message of a TCP connection:
  the bytes that go out, the state the message is left in, and when the connection is closed.
\<close>

section \<open>TCPSend\<close>

text \<open>What sending changes of the message queue: nothing but the time stamp of the connection.\<close>

definition same_queue :: "int option \<Rightarrow> cMsgQueue \<Rightarrow> cMsgQueue \<Rightarrow> bool" where
  "same_queue rec q q' \<longleftrightarrow>
     (q' = q \<or> (\<exists>s t. rec = Some s \<and> q' = con_put q s ((con_get q s)\<lparr>cr_timestamp := t\<rparr>)))"

lemma same_queueD:
  assumes "same_queue rec q q'"
  shows "m_msgPool q' = m_msgPool q" "m_pSysMetrics q' = m_pSysMetrics q" "queued q' = queued q"
    "mq_inv q' = mq_inv q" "m_priority_queue q' = m_priority_queue q"
    "m_outbound_priority_queue (m_pConnectionQueue q') = m_outbound_priority_queue (m_pConnectionQueue q)"
  using assms by (auto simp: same_queue_def) (simp_all add: con_put_def)

lemma TCPSend_spec:
  assumes ok: "send_ok os" and r: "send_text os fd s rest 0 w = Some r"
  shows "\<exists>b k h' q' w'. TCPSend env os rec keep fd (map Some s @ rest) (int (length s)) h q w =
      Some (Inr (b, h', q', w')) \<and> k \<le> length s \<and> (b \<longrightarrow> k = length s) \<and>
    (\<not> b \<longrightarrow> refused os fd s k w w') \<and> n_calls w \<le> n_calls w' \<and>
    (\<forall>f. sent_to f w' = sent_to f w @ (if f = fd then take k s else [])) \<and> n_datagrams w' = n_datagrams w \<and>
    same_queue rec q q' \<and> m_response h' = m_response h \<and> m_bSocketCreated h' = m_bSocketCreated h \<and>
    (oh_bCloseConnection h' \<longleftrightarrow> oh_bCloseConnection h \<or> \<not> keep \<or> \<not> b \<and> \<not> m_bSocketCreated h) \<and>
    n_closed w' = n_closed w @ (if \<not> b \<and> m_bSocketCreated h then [fd] else [])"
proof -
  from send_text_outcome [OF r le0 ok, unfolded drop_0 diff_zero] obtain b k w1 where
    1: "r = Inr (b, w1)" "k \<le> length s" "b \<longrightarrow> k = length s" "\<not> b \<longrightarrow> refused os fd s k w w1" "n_calls w \<le> n_calls w1"
      "\<forall>f. sent_to f w1 = sent_to f w @ (if f = fd then take k s else [])"
      "n_datagrams w1 = n_datagrams w" "n_closed w1 = n_closed w" by blast
  let ?w = "if \<not> b \<and> m_bSocketCreated h then w1\<lparr>n_closed := n_closed w1 @ [fd]\<rparr> else w1"
  have w: "\<forall>f. sent_to f ?w = sent_to f w @ (if f = fd then take k s else [])" using 1(6) by (simp add: sent_to_def)
  have f: "\<not> b \<longrightarrow> refused os fd s k w ?w" using 1(4) by (simp add: refused_def)
  have l: "tcp_send_loop os fd (map Some s @ rest) (int (length s)) 0 w = Some (Inr (b, w1))"
    using r 1(1) by (simp add: send_text_def)
  obtain h' q' where e: "TCPSend env os rec keep fd (map Some s @ rest) (int (length s)) h q w =
      Some (Inr (b, h', q', ?w))" "same_queue rec q q'" "m_response h' = m_response h"
      "m_bSocketCreated h' = m_bSocketCreated h"
      "oh_bCloseConnection h' \<longleftrightarrow> oh_bCloseConnection h \<or> \<not> keep \<or> \<not> b \<and> \<not> m_bSocketCreated h"
    using l by (cases b; cases rec; cases keep; cases "m_bSocketCreated h")
      (auto simp: TCPSend_def same_queue_def)
  show ?thesis
    by (rule exI [of _ b], rule exI [of _ k], rule exI [of _ h'], rule exI [of _ q'], rule exI [of _ ?w])
      (use e w f 1(2,3,5,7,8) in simp)
qed

section \<open>The addressee\<close>

text \<open>The forms of \<open>To\<close> for which the handler finds an address: one with its \<open>@\<close> before its \<open>:\<close>.\<close>

definition address_ok :: "string \<Rightarrow> bool" where
  "address_ok s \<longleftrightarrow>
     (case find_char (CHR ''@'') s of
        None \<Rightarrow> True
      | Some i \<Rightarrow> (case find_char (CHR '':'') s of None \<Rightarrow> False | Some j \<Rightarrow> i < j))"

lemma nat_gap:
  "-1 \<le> i \<Longrightarrow> i < int j \<Longrightarrow>
     nat (i + 1) \<le> j \<and> int j - i - 1 = int (nat (int j - i - 1)) \<and> nat (i + 1) + nat (int j - i - 1) = j"
  by linarith

lemma set_addressee_ok:
  assumes t: "holds (m_temp h) x" and a: "holds (m_ServerAddr h) y" and ok: "address_ok (Msg_GetTo m)"
  shows "\<exists>h'. set_addressee m h = Inr h' \<and> m_response h' = m_response h \<and>
    m_bSocketCreated h' = m_bSocketCreated h \<and> oh_bCloseConnection h' = oh_bCloseConnection h \<and>
    (\<exists>x y. holds (m_temp h') x \<and> holds (m_ServerAddr h') y)"
proof (cases "Msg_GetTo m = []")
  case True
  then show ?thesis using t a by (auto simp: set_addressee_def)
next
  case False
  let ?to = "Msg_GetTo m"
  from ReplaceWith_string [OF t, of ?to] obtain b rc where
    b: "Buffer_ReplaceWith (m_temp h) (Some (cmem ?to)) (-1) = Inr (b, rc)" "holds b ?to" by auto
  have nn: "m_pBuffer b \<noteq> None" using holds_nonnull [OF b(2)] False by blast
  from GetBuffer_holds [OF b(2) nn] obtain c rest where
    c: "Buffer_GetBuffer b = Inr (c, Some (map Some ?to @ Some NUL # rest))" "holds c ?to" by blast
  let ?d = "map Some ?to @ Some NUL # rest"
  let ?i = "case find_char (CHR ''@'') ?to of Some k \<Rightarrow> int k | None \<Rightarrow> -1"
  let ?j = "case find_char (CHR '':'') ?to of Some k \<Rightarrow> int k | None \<Rightarrow> -1"
  have f: "Buffer_FindChar b (CHR ''@'') 0 = Inr ?i" "Buffer_FindChar b (CHR '':'') 0 = Inr ?j"
    using FindChar_holds [OF b(2) le0, of "CHR ''@''"] FindChar_holds [OF b(2) le0, of "CHR '':''"]
    by (simp_all cong: option.case_cong)
  have rep: "\<exists>e rc z. Buffer_ReplaceWith (m_ServerAddr h) (Some (drop (nat (?i + 1)) ?d)) (?j - ?i - 1) = Inr (e, rc) \<and> holds e z"
  proof (cases "find_char (CHR '':'') ?to")
    case None
    then have n: "find_char (CHR ''@'') ?to = None" using ok by (auto simp: address_ok_def split: option.splits)
    have "Buffer_ReplaceWith (m_ServerAddr h) (Some ?d) (-1) = Buffer_ReplaceWith (m_ServerAddr h) (Some ?d) (int (length ?to))"
      by (simp add: Buffer_ReplaceWith_def arg_length_def read_cstr_map_Some cstr_id)
    moreover have "take (length ?to) ?d = map Some ?to" by simp
    from ReplaceWith_holds [OF a this refl] obtain e rc where
      "Buffer_ReplaceWith (m_ServerAddr h) (Some ?d) (int (length ?to)) = Inr (e, rc)" "holds e ?to" by blast
    ultimately have "Buffer_ReplaceWith (m_ServerAddr h) (Some (drop (nat (-1 + 1)) ?d)) (-1 - -1 - 1) = Inr (e, rc)"
      by simp
    then show ?thesis unfolding None n option.case
      by (intro exI [of _ e] exI [of _ rc] exI [of _ ?to] conjI) (assumption, rule \<open>holds e ?to\<close>)
  next
    case (Some j)
    have j: "j < length ?to" using find_char_Some [OF Some] by simp
    let ?m = "nat (?i + 1)" and ?n = "nat (?j - ?i - 1)"
    have jj: "?j = int j" by (simp only: Some option.case)
    have ii: "-1 \<le> ?i" "?i < int j"
      using ok unfolding address_ok_def Some option.case by (cases "find_char (CHR ''@'') ?to"; simp)+
    note gap = nat_gap [OF ii]
    have le: "?m \<le> j" by (rule gap [THEN conjunct1])
    have le2: "?j - ?i - 1 = int ?n" unfolding jj by (rule gap [THEN conjunct2, THEN conjunct1])
    have le3: "?m + ?n = j" unfolding jj by (rule gap [THEN conjunct2, THEN conjunct2])
    have "take ?n (drop ?m ?d) = map Some (take ?n (drop ?m ?to))" using le le3 j by (simp add: take_map drop_map)
    moreover have "length (take ?n (drop ?m ?to)) = ?n" using le3 j by simp
    ultimately obtain e rc where "Buffer_ReplaceWith (m_ServerAddr h) (Some (drop ?m ?d)) (int ?n) = Inr (e, rc)"
      "holds e (take ?n (drop ?m ?to))" using ReplaceWith_holds [OF a] by blast
    then show ?thesis by (subst le2) blast
  qed
  then obtain e rc z where e: "Buffer_ReplaceWith (m_ServerAddr h) (Some (drop (nat (?i + 1)) ?d)) (?j - ?i - 1) = Inr (e, rc)"
    "holds e z" by blast
  have jl: "nat (?j + 1) \<le> length ?to" using find_char_Some [of "CHR '':''" ?to] by (auto split: option.splits)
  have "drop (nat (?j + 1)) ?d = map Some (drop (nat (?j + 1)) ?to) @ Some NUL # rest" using jl by (simp add: drop_map)
  then have rd: "read_cstr (drop (nat (?j + 1)) ?d) = Inr (cstr (drop (nat (?j + 1)) ?to))"
    using read_cstr_map_Some by metis
  have "set_addressee m h = Inr (h\<lparr>m_temp := c, m_ServerAddr := e,
      m_ServerPort := Some (atoi (cstr (drop (nat (?j + 1)) ?to)))\<rparr>)"
    unfolding set_addressee_def b(1) f c(1) rbind.simps prod.case of_option_def option.case e(1) rd using False by simp
  then show ?thesis using c(2) e(2) by auto
qed

section \<open>A message of a connection\<close>

lemma response_block:
  assumes "holds b t"
  obtains rest where "block_of (Buffer_GetRawBuffer b) = map Some t @ rest" "Buffer_GetBufferCount b = int (length t)"
proof (cases "m_pBuffer b")
  case None
  then show thesis using that [of "[]"] assms
    by (simp add: holds_None Buffer_GetRawBuffer_def Buffer_GetBufferCount_def block_of_def)
next
  case (Some blk)
  obtain r rest where "blk = map Some t @ r # rest" using assms Some by (rule holds_SomeE)
  then show thesis using that [of "r # rest"] Some holds_tail [OF assms]
    by (simp add: Buffer_GetRawBuffer_def Buffer_GetBufferCount_def block_of_def)
qed


text \<open>What it takes to send a message over an open TCP connection.\<close>

definition sendable :: "os \<Rightarrow> cMsgQueue \<Rightarrow> cMsg \<Rightarrow> string \<Rightarrow> bool" where
  "sendable os q m xs \<longleftrightarrow>
     Msg_GetConnectionType m = MSG_CT_OB_TCP \<and> Msg_GetTCPSocketHandle m \<noteq> -1 \<and>
     Msg_GetProtocolType m \<notin> {MSG_PROTOCOL_HTTP_GET, MSG_PROTOCOL_HTTP_POST, MSG_PROTOCOL_HTTP_MCP} \<and>
     response_fits os m \<and> payload_is q m xs \<and> address_ok (Msg_GetTo m)"

text \<open>Of the connection's record, sending and handling change the time stamp and the mark for writing.\<close>

definition touched :: "int option \<Rightarrow> cMsgQueue \<Rightarrow> cMsgQueue \<Rightarrow> bool" where
  "touched rec q q' \<longleftrightarrow>
     m_pConnectionQueue q' =
       (case rec of
          None \<Rightarrow> m_pConnectionQueue q
        | Some s \<Rightarrow> m_pConnectionQueue (con_put q s ((con_get q s)
            \<lparr>cr_timestamp := cr_timestamp (con_get q' s), pendingwrite := False\<rparr>)))"

lemma metrics_responded: "metrics_inv now s \<Longrightarrow> metrics_inv now (UpdateMsgResponseTime s)"
  by (auto simp: metrics_inv_def Let_def UpdateMsgResponseTime_def counters_def)

definition out_wf :: "cConnectionHandlerOutbound \<Rightarrow> bool" where
  "out_wf h \<longleftrightarrow> buf_wf (m_response h) \<and> buf_wf (m_temp h) \<and> buf_wf (m_ServerAddr h)"

definition live :: "os \<Rightarrow> bool" where
  "live os \<longleftrightarrow> (\<forall>n. \<exists>m \<ge> n. \<forall>fd b. b \<noteq> [] \<longrightarrow>
     os_send os m fd b = SendFailed \<or> (\<exists>k > 0. os_send os m fd b = Sent k))"

lemma live_send: "live os \<Longrightarrow> \<exists>r. send_text os fd s rest 0 w = Some r"
proof -
  assume "live os"
  then have "\<forall>n. \<exists>m \<ge> n. \<forall>b. b \<noteq> [] \<longrightarrow> os_send os m fd b = SendFailed \<or> (\<exists>k > 0. os_send os m fd b = Sent k)"
    unfolding live_def by metis
  then show ?thesis by (rule send_text_total) simp
qed

lemma Outbound_HandleConnection_spec:
  assumes m: "m_store (m_msgPool q) a = Some m" and s: "sendable os q m xs"
    and h: "out_wf h" and os: "send_ok os" "live os" and met: "metrics_inv now (m_pSysMetrics q)"
  shows "\<exists>k h' q' w'. Outbound_HandleConnection env os rec a (h, q, w) = Some (Inr (None, h', q', w')) \<and>
    (let t = response_text os m xs (contents (m_response h)); fd = Msg_GetTCPSocketHandle m
     in k \<le> length t \<and> (k < length t \<longrightarrow> refused os fd t k w w') \<and> n_calls w \<le> n_calls w' \<and> holds (m_response h') t \<and>
       (\<forall>f. sent_to f w' = sent_to f w @ (if f = fd then take k t else [])) \<and>
       n_datagrams w' = n_datagrams w \<and>
       (k < length t \<longrightarrow> oh_bCloseConnection h' \<or> fd \<in> set (n_closed w')) \<and>
       (\<not> Msg_IsKeepAlive m \<longrightarrow> oh_bCloseConnection h')) \<and>
    m_store (m_msgPool q') = (m_store (m_msgPool q))(a \<mapsto> Msg_SetMsgState m MSG_STATE_DELIVERED) \<and>
    queued q' = queued q \<and> out_wf h' \<and> metrics_inv now (m_pSysMetrics q') \<and> touched rec q q'"
proof -
  let ?h = "h\<lparr>oh_bCloseConnection := False\<rparr>"
  let ?old = "contents (m_response h)"
  let ?t = "response_text os m xs ?old"
  let ?fd = "Msg_GetTCPSocketHandle m"
  have w: "holds (m_response h) ?old" "holds (m_temp h) (contents (m_temp h))" "holds (m_ServerAddr h) (contents (m_ServerAddr h))"
    using h by (simp_all add: out_wf_def wf_holds)
  from s have s: "Msg_GetConnectionType m = MSG_CT_OB_TCP" "?fd \<noteq> -1"
     "Msg_GetProtocolType m \<noteq> MSG_PROTOCOL_HTTP_GET" "Msg_GetProtocolType m \<noteq> MSG_PROTOCOL_HTTP_POST"
     "Msg_GetProtocolType m \<noteq> MSG_PROTOCOL_HTTP_MCP" "response_fits os m" "payload_is q m xs" "address_ok (Msg_GetTo m)"
    by (simp_all add: sendable_def)
  from build_response_holds [OF w(1) s(6,7)] s(5) obtain b c where
    b: "build_response os q m (m_response h) = Inr (b, c)" "holds b ?t" by blast
  have w2: "holds (m_temp (?h\<lparr>m_response := b\<rparr>)) (contents (m_temp h))"
    "holds (m_ServerAddr (?h\<lparr>m_response := b\<rparr>)) (contents (m_ServerAddr h))" using w(2,3) by simp_all
  from set_addressee_ok [OF w2 s(8)] obtain h1 where
    h1: "set_addressee m (?h\<lparr>m_response := b\<rparr>) = Inr h1" "m_response h1 = b" "\<not> oh_bCloseConnection h1"
      "buf_wf (m_temp h1)" "buf_wf (m_ServerAddr h1)" by (auto intro: holds_wf)
  let ?q1 = "if c then count_response q else q"
  have q1: "m_msgPool ?q1 = m_msgPool q" "queued ?q1 = queued q" "metrics_inv now (m_pSysMetrics ?q1)"
    "m_pConnectionQueue ?q1 = m_pConnectionQueue q"
    using met metrics_responded [OF met] by (simp_all add: count_response_def)
  obtain rest where blk: "block_of (Buffer_GetRawBuffer b) = map Some ?t @ rest" "Buffer_GetBufferCount b = int (length ?t)"
    using b(2) by (rule response_block)
  from live_send [OF os(2)] obtain r where r: "send_text os ?fd ?t rest 0 w = Some r" by blast
  from TCPSend_spec [OF os(1) r, of env rec "Msg_IsKeepAlive m" h1 ?q1] obtain ok k h2 q2 w2 where
    sd: "TCPSend env os rec (Msg_IsKeepAlive m) ?fd (map Some ?t @ rest) (int (length ?t)) h1 ?q1 w =
      Some (Inr (ok, h2, q2, w2))" "k \<le> length ?t" "ok \<longrightarrow> k = length ?t"
    "\<not> ok \<longrightarrow> refused os ?fd ?t k w w2" "n_calls w \<le> n_calls w2"
    "\<forall>f. sent_to f w2 = sent_to f w @ (if f = ?fd then take k ?t else [])" "n_datagrams w2 = n_datagrams w"
    "same_queue rec ?q1 q2" "m_response h2 = m_response h1"
    "oh_bCloseConnection h2 \<longleftrightarrow> oh_bCloseConnection h1 \<or> \<not> Msg_IsKeepAlive m \<or> \<not> ok \<and> \<not> m_bSocketCreated h1"
    "n_closed w2 = n_closed w @ (if \<not> ok \<and> m_bSocketCreated h1 then [?fd] else [])" by blast
  have m1: "m_store (m_msgPool ?q1) a = Some m" using m q1(1) by simp
  have tcp: "transmit_tcp env os rec a m (h1, ?q1, w) = Some (Inr (True, h2, q2, w2))"
    using s(2) sd(1) mq_get_eq [OF m1] by (simp add: transmit_tcp_def h1(2) blk)
  note sq = same_queueD [OF sd(8)]
  let ?m = "Msg_SetMsgState m MSG_STATE_DELIVERED"
  let ?p = "pool_put (m_msgPool q) a ?m"
  have m2: "m_store (m_msgPool q2) a = Some m" using sq(1) m1 by simp
  obtain c' where c': "IncMsgDelivered (m_pSysMetrics ?q1) = Some c'"
    using inc_never_out_of_bounds [OF q1(3), of "IncMsgDelivered (m_pSysMetrics ?q1)"] by (auto simp: inc_any_def)
  have met': "metrics_inv now c'" using inv_inc [OF q1(3) order_refl] c' by (simp add: inc_any_def)
  have c2: "IncMsgDelivered (m_pSysMetrics q2) = Some c'" using c' by (simp only: sq(2))
  have pool: "m_msgPool q2 = m_msgPool q" using sq(1) q1(1) by simp
  have st: "settle q2 a True = Inr (q2\<lparr>m_msgPool := ?p, m_pSysMetrics := c'\<rparr>)"
    using mq_upd_eq [OF m2, of "\<lambda>m. Msg_SetMsgState m MSG_STATE_DELIVERED"] c2 pool
    by (simp add: settle_def of_option_def)
  let ?q3 = "q2\<lparr>m_msgPool := ?p, m_pSysMetrics := c'\<rparr>"
  have tm: "TransmitMsg env os rec a (?h, q, w) = Some (Inr (None, h2, ?q3, w2))"
    unfolding TransmitMsg_def prod.case mq_get_eq [OF m] sum.case
    using s(1,3,4) b(1) h1(1) tcp st by simp
  let ?q4 = "case rec of None \<Rightarrow> ?q3 | Some s \<Rightarrow> con_put ?q3 s ((con_get ?q3 s)\<lparr>pendingwrite := False\<rparr>)"
  have e: "Outbound_HandleConnection env os rec a (h, q, w) = Some (Inr (None, h2, ?q4, w2))"
    using tm by (simp add: Outbound_HandleConnection_def)
  have tc: "touched rec q ?q4"
  proof (cases rec)
    case None
    then show ?thesis using sd(8) q1(4) by (simp add: touched_def same_queue_def)
  next
    case (Some s)
    have g: "con_get ?q1 s = con_get q s" using q1(4) by (simp add: con_get_def)
    have "\<exists>t. m_pConnectionQueue q2 = m_pConnectionQueue (con_put q s ((con_get q s)\<lparr>cr_timestamp := t\<rparr>)) \<or> q2 = ?q1"
      using sd(8) Some g q1(4) by (auto simp: same_queue_def con_put_def)
    then obtain t where t: "m_pConnectionQueue q2 = m_pConnectionQueue (con_put q s ((con_get q s)\<lparr>cr_timestamp := t\<rparr>)) \<or> q2 = ?q1"
      by blast
    from t show ?thesis
    proof
      assume t: "m_pConnectionQueue q2 = m_pConnectionQueue (con_put q s ((con_get q s)\<lparr>cr_timestamp := t\<rparr>))"
      have g2: "con_get ?q3 s = (con_get q s)\<lparr>cr_timestamp := t\<rparr>"
        using t by (simp add: con_get_def con_put_def map_store_def map_lookup_def)
      have ts: "cr_timestamp (con_get ?q4 s) = t" using Some g2 by simp
      show ?thesis
        unfolding touched_def Some option.case ts [unfolded Some option.case]
        using t by (simp add: g2) (simp add: con_put_def map_store_def)
    next
      assume "q2 = ?q1"
      then have c: "m_pConnectionQueue ?q3 = m_pConnectionQueue q" using q1(4) by simp
      then have g2: "con_get ?q3 s = con_get q s" by (simp add: con_get_def)
      have ts: "cr_timestamp (con_get ?q4 s) = cr_timestamp (con_get q s)" using Some g2 by simp
      show ?thesis
        unfolding touched_def Some option.case ts [unfolded Some option.case]
        using c by (simp add: g2) (simp add: con_put_def)
    qed
  qed
  have m4: "metrics_inv now (m_pSysMetrics ?q4)" using met' by (cases rec) (simp_all add: con_put_def)
  have q4: "m_msgPool ?q4 = ?p" "queued ?q4 = queued q" using sq(3) q1(2) by (cases rec; simp)+
  have fails: "k < length ?t \<Longrightarrow> oh_bCloseConnection h2 \<or> ?fd \<in> set (n_closed w2)" using sd(3,10,11) by auto
  have ref: "k < length ?t \<Longrightarrow> refused os ?fd ?t k w w2" using sd(3,4) by auto
  have tmp: "m_temp h2 = m_temp h1 \<and> m_ServerAddr h2 = m_ServerAddr h1"
    using sd(1) by (auto simp: TCPSend_def Let_def split: option.splits sum.splits if_splits)
  have wf: "out_wf h2" using tmp h1(2,4,5) sd(9) b(2) holds_wf by (simp add: out_wf_def)
  show ?thesis
    unfolding Let_def
    by (rule exI [of _ k], rule exI [of _ h2], rule exI [of _ ?q4], rule exI [of _ w2])
      (use e sd(2,5,6,7,9,10) ref fails b(2) h1(2) q4 wf tc m4 in \<open>simp add: pool_put_def\<close>)
qed

end
