(* ===== verification/RequestTransfer.thy ===== *)
theory RequestTransfer
  imports OutboundDelivery
begin

text \<open>
  A request between two servers: whatever pieces the network makes of the text that the outbound
  handler sends, the inbound handler of the peer waits until all of it is there, and its parser reads
  the members that the sender wrote.
\<close>

section \<open>No piece of a request looks like a whole one\<close>

lemma header_params_none:
  assumes "find_sub (CRLF @ CRLF) p = None"
  shows "header_params p = []"
proof -
  have "find_sub (CRLF @ CRLF) (cstr (drop 4 p)) = None"
  proof (rule ccontr)
    assume "find_sub (CRLF @ CRLF) (cstr (drop 4 p)) \<noteq> None"
    then obtain k where "find_sub (CRLF @ CRLF) (cstr (drop 4 p)) = Some k" by blast
    then have "find_sub (CRLF @ CRLF) (drop 4 p) = Some k" by (rule find_sub_cstr)
    from find_sub_SomeD [OF this] have "starts_with (CRLF @ CRLF) (drop (k + 4) p)" "k + 4 \<le> length p"
      by auto
    then show False using assms by (auto simp: find_sub_None simp del: starts_with_Cons)
  qed
  then show ?thesis by (simp add: header_params_def)
qed

lemma request_header_end:
  assumes "clean_request m"
  shows "find_sub (CRLF @ CRLF) (mcp_request_header m @ xs) = Some (length (mcp_request_header m) - 4)"
    and "6 \<le> length (mcp_request_header m)"
  using header_end [of "request_lines m" xs] clean_header_lines [OF assms]
  by (auto simp: header_lines_def request_header_lines)

lemma request_piece:
  assumes c: "clean_request m" and len: "Msg_GetContentLength m = int (length xs)"
    and fits: "int (length (mcp_request_header m @ xs)) < 2 ^ 31"
    and p: "mcp_request_header m @ xs = p @ r" "r \<noteq> []"
  shows "length_ok p \<and> fst (classify p) = eProtocol_INSUFFICIENT_DATA"
proof (cases "length (mcp_request_header m) \<le> length p")
  case False
  have n: "find_sub (CRLF @ CRLF) p = None"
  proof (rule ccontr)
    assume "find_sub (CRLF @ CRLF) p \<noteq> None"
    then obtain k where k: "find_sub (CRLF @ CRLF) p = Some k" by blast
    note F = find_sub_SomeD [OF k]
    have "take (length (CRLF @ CRLF)) (drop k (p @ r)) = CRLF @ CRLF" using F by (simp add: starts_with_def)
    moreover have "k + 4 \<le> length p" using F by simp
    ultimately have "\<not> k < length (mcp_request_header m) - 4"
      using find_sub_SomeD [OF request_header_end(1) [OF c, of xs]] unfolding p(1) by (auto simp: starts_with_def)
    then show False using \<open>k + 4 \<le> length p\<close> False by simp
  qed
  then have "find_sub (CRLF @ CRLF) (cstr p) = None" using find_sub_cstr by (metis option.exhaust)
  then show ?thesis using header_params_none [OF n]
    by (simp add: classify_def length_ok_def declared_length_def param_def smap_find_def)
next
  case True
  let ?ls = "request_lines m" and ?h = "mcp_request_header m"
  from p(1) True obtain ys where ys: "p = ?h @ ys" "xs = ys @ r" by (auto simp: append_eq_append_conv2)
  have hl: "header_lines ?ls" using clean_header_lines [OF c] .
  have h: "header_params p = fold header_line ?ls []"
    unfolding ys(1) request_message_text by (rule header_params_lines [OF hl])
  have "cstr (int_text (int (length xs))) = int_text (int (length xs))" by (rule cstr_id) simp
  moreover have "xs \<noteq> []" using ys(2) p(2) by simp
  then have "param (header_params p) ''Content-Length'' = int_text (int (length xs))"
    unfolding param_def h request_header_map [OF c] by (simp add: request_fields_def len)
  ultimately have dl: "declared_length p = Some (int (length xs))"
    using int_text_clean [of "int (length xs)"] atoi_int_text [of "int (length xs)"]
    by (simp add: declared_length_def)
  have nul: "NUL \<notin> set ?h" by simp
  have e: "find_sub (CRLF @ CRLF) (cstr p) = Some (length ?h - 4)"
    unfolding ys(1) cstr_append [OF nul] by (rule request_header_end(1) [OF c])
  have f: "int (length ?h - 4) + 4 + int (length xs) < 2 ^ 31"
    using fits request_header_end(2) [OF c] by simp
  then have l: "int (length p) < int_sum (int (length ?h - 4) + 4) (int (length xs))"
    using ys p(2) request_header_end(2) [OF c] by (simp add: int_sum_fits)
  have cm: "takeWhile (\<lambda>c. c \<noteq> SP) p = Msg_GetCommand m"
  proof -
    have "SP \<notin> set (Msg_GetCommand m)" using c by (simp add: clean_request_def)
    moreover obtain z where "p = Msg_GetCommand m @ SP # z" unfolding ys(1) by (simp add: mcp_request_header_def)
    moreover have "takeWhile (\<lambda>c. c \<noteq> SP) (w @ SP # z) = w" if "SP \<notin> set w" for w
      using that by (induction w) auto
    ultimately show ?thesis by simp
  qed
  have "\<not> starts_with ''GET '' p"
  proof
    assume "starts_with ''GET '' p"
    then obtain z where "p = ''GET '' @ z" by (auto simp: starts_with_iff simp del: starts_with_Cons)
    then have "Msg_GetCommand m = ''GET''" using cm by simp
    then show False using c by (simp add: clean_request_def)
  qed
  then show ?thesis using dl l f unfolding classify_def length_ok_def e by (simp add: Let_def del: starts_with_Cons)
qed

lemma request_length_ok:
  assumes c: "clean_request m" and len: "Msg_GetContentLength m = int (length xs)"
    and fits: "int (length (mcp_request_header m @ xs)) < 2 ^ 31"
  shows "length_ok (mcp_request_header m @ xs)"
proof -
  have h: "header_params (mcp_request_header m @ xs) = fold header_line (request_lines m) []"
    unfolding request_message_text by (rule header_params_lines [OF clean_header_lines [OF c]])
  have p: "param (header_params (mcp_request_header m @ xs)) ''Content-Length'' =
      (if xs = [] then [] else int_text (int (length xs)))"
    "param (header_params (mcp_request_header m @ xs)) ''Content-length'' = []"
    unfolding param_def h request_header_map [OF c] by (simp_all add: request_fields_def len)
  have "cstr (int_text (int (length xs))) = int_text (int (length xs))" by (rule cstr_id) simp
  moreover have "find_sub (CRLF @ CRLF) (cstr (mcp_request_header m @ xs)) = Some (length (mcp_request_header m) - 4)"
  proof -
    have "NUL \<notin> set (mcp_request_header m)" by simp
    from cstr_append [OF this, of xs] show ?thesis using request_header_end(1) [OF c] by (simp only:)
  qed
  ultimately show ?thesis unfolding length_ok_def declared_length_def p
    using atoi_int_text [of "int (length xs)"] fits request_header_end(2) [OF c]
    by (simp add: Let_def)
qed

text \<open>The peer's handler makes one message of it, with the last piece.\<close>

lemma request_received:
  assumes c: "clean_request m" and len: "Msg_GetContentLength m = int (length xs)"
    and fits: "int (length (mcp_request_header m @ xs)) < 2 ^ 31"
    and inv: "mq_inv q" "bufs_ok (m_msgPool q)" "holds (cr_buffer (con_get q s)) []"
    and ds: "concat ds @ d = mcp_request_header m @ xs" "d \<noteq> []"
  shows "\<exists>h' q'. receive env (ds @ [d]) q s h = Inr (h', q') \<and> \<not> m_bCloseConnection h' \<and>
    made q s MSG_PROTOCOL_MCP (mcp_request_header m @ xs) [] q'"
proof -
  let ?t = "mcp_request_header m @ xs"
  have e: "[] @ concat ds @ d = ?t" using ds(1) by simp
  have cl: "classify ?t = (eProtocol_MCP, int (length ?t))" by (rule request_classified [OF c len fits])
  have "\<exists>h' q'. receive env (ds @ [d]) q s h = Inr (h', q') \<and>
    m_bCloseConnection h' = (fst (classify ?t) = eProtocol_UNKNOWN) \<and> outcome q s ?t q'"
    by (rule receive_pieces [OF inv e ds(2) request_length_ok [OF c len fits]]) (rule request_piece [OF c len fits])
  then obtain h' q' where r: "receive env (ds @ [d]) q s h = Inr (h', q')"
    "m_bCloseConnection h' = (fst (classify ?t) = eProtocol_UNKNOWN)" "outcome q s ?t q'" by blast
  have "made q s MSG_PROTOCOL_MCP ?t [] q'"
    using r(3) unfolding outcome_def complete_def cl by (simp add: msg_protocol_def)
  then show ?thesis using r(1,2) unfolding cl by auto
qed

section \<open>The members that the peer reads\<close>

lemma request_members:
  assumes c: "clean_request m" and len: "Msg_GetContentLength m = int (length xs)"
    and b: "holds (MsgBuffer m0) (mcp_request_header m @ xs)" "terminated (MsgBuffer m0)"
    and raw: "buf_wf (MsgRawBuffer m0)"
  shows "\<exists>m'. Msg_Parse this newid ct ms m0 = Inr m' \<and>
    MsgCommand m' = Msg_GetCommand m \<and>
    MsgID m' = (if Msg_GetMsgID m = [] \<or> Msg_GetMsgID m = ''0'' then newid else Msg_GetMsgID m) \<and>
    MsgTo m' = parse_tag (Msg_GetTo m) \<and> MsgFrom m' = parse_tag (Msg_GetFrom m) \<and>
    MsgContentLength m' = int (length xs) \<and>
    (xs \<noteq> [] \<longrightarrow> MsgContentType m' = Msg_GetContentType m \<and>
       m_pPayload m' = Some (MsgPtr this (int (length (mcp_request_header m))))) \<and>
    (m_bKeepAlive m' \<longleftrightarrow> m_bKeepAlive m0 \<and> Msg_IsKeepAlive m) \<and>
    holds (MsgBuffer m') (mcp_request_header m @ xs)"
proof -
  let ?ls = "request_lines m"
  have hl: "header_lines ?ls" using clean_header_lines [OF c] .
  have cmd: "SP \<notin> set (Msg_GetCommand m)" "hd ?ls = Msg_GetCommand m @ SP # ''MCP/1.0''"
    using c by (simp_all add: clean_request_def request_lines_def)
  from Parse_message [OF b(1) [unfolded request_message_text] b(2) hl wf_holds [OF raw] cmd, of this newid ct ms]
  obtain h b' raw' where
    p: "Msg_Parse this newid ct ms m0 =
      Inr (parse_fields this newid (int (length (join_lines ?ls) - 2))
        ((Msg_UpdateMsgConnectionType
           (m0\<lparr>MsgRawBuffer := raw', MsgStatusLine := hd ?ls,
              MsgHeaderSize := int (length (join_lines ?ls) - 2),
              MsgCommand := Msg_GetCommand m\<rparr>) ct)\<lparr>MsgFormat := ms, m_HeaderExtract := h, MsgBuffer := b'\<rparr>))"
    and b': "holds b' (mcp_request_header m @ xs)" and h: "m_Params h = fold header_line ?ls []"
    unfolding request_message_text by blast
  have gv: "HeaderExtract_GetValue h n = (case map_of (rev (request_fields m)) n of None \<Rightarrow> [] | Some v \<Rightarrow> v)"
    if "NUL \<notin> set n" for n
    using that by (simp add: HeaderExtract_GetValue_def h request_header_map [OF c] cstr_id split: option.split)
  have v: "HeaderExtract_GetValue h ''Connection'' = connection_text m"
    "HeaderExtract_GetValue h ''MsgID'' = Msg_GetMsgID m"
    "HeaderExtract_GetValue h ''To'' = Msg_GetTo m" "HeaderExtract_GetValue h ''From'' = Msg_GetFrom m"
    "HeaderExtract_GetValue h ''Content-Length'' = (if xs = [] then [] else int_text (int (length xs)))"
    "xs \<noteq> [] \<Longrightarrow> HeaderExtract_GetValue h ''Content-Type'' = Msg_GetContentType m"
    by (simp_all add: gv request_fields_def len)
  have off: "int (length (join_lines ?ls) - 2) + 4 = int (length (mcp_request_header m))"
    using hl by (simp add: header_lines_def request_header_lines)
  have "cstr (int_text (int (length xs))) = int_text (int (length xs))" by (rule cstr_id) simp
  then have at: "atoi (cstr (int_text (int (length xs)))) = int (length xs)" by (simp add: atoi_int_text)
  have ne: "xs \<noteq> [] \<Longrightarrow> int_text (int (length xs)) \<noteq> []" using int_text_clean [of "int (length xs)"] by simp
  have b1: "xs \<noteq> [] \<Longrightarrow> holds b' (mcp_request_header m @ xs)" "xs = [] \<Longrightarrow> holds b' (mcp_request_header m)"
    using b' by simp_all
  show ?thesis unfolding p
    by (rule exI, rule conjI, rule refl, cases "xs = []")
      (simp_all add: parse_fields_def Let_def v Msg_UpdateMsgConnectionType_def b1 off at ne connection_text_def)
qed

end
