(* ===== verification/ConnectionTasks.thy ===== *)
theory ConnectionTasks
  imports ConnectionHandlerOutbound ConnectionInboundLaws
begin

text \<open>
  The thread of \<open>cConnectionQueue\<close> in \<open>connectionqueue.cpp\<close>: it times connections out, adds the new
  ones, asks the system which are readable, lets the inbound handler read them and the outbound
  handler write the queued messages. The two handlers are members of the class; their state, the
  message queue (which holds the connection queue) and what the system was given make up the state
  of the thread. The answers of \<open>select\<close> and \<open>recv\<close> during a pass are arguments.
\<close>

record con_thread =
  m_InHandler :: cConnectionHandlerInbound
  m_OutHandler :: cConnectionHandlerOutbound
  ct_queue :: cMsgQueue
  ct_net :: net

definition set_cache :: "cMsgQueue \<Rightarrow> cConnectionCache \<Rightarrow> cMsgQueue" where
  "set_cache q c = q\<lparr>m_pConnectionQueue := (m_pConnectionQueue q)\<lparr>m_ConnectionCache := c\<rparr>\<rparr>"

definition con_cache :: "cMsgQueue \<Rightarrow> cConnectionCache" where
  "con_cache q = m_ConnectionCache (m_pConnectionQueue q)"

definition set_outbound :: "cMsgQueue \<Rightarrow> nat list \<Rightarrow> cMsgQueue" where
  "set_outbound q l = q\<lparr>m_pConnectionQueue := (m_pConnectionQueue q)\<lparr>m_outbound_priority_queue := l\<rparr>\<rparr>"

definition outbound_queue :: "cMsgQueue \<Rightarrow> nat list" where
  "outbound_queue q = m_outbound_priority_queue (m_pConnectionQueue q)"

section \<open>Inbound tasks\<close>

definition inbound_task ::
  "env \<Rightarrow> (int \<Rightarrow> recv_result) \<Rightarrow> int \<Rightarrow> cConnectionHandlerInbound \<Rightarrow> cMsgQueue \<Rightarrow>
     (cConnectionHandlerInbound \<times> cMsgQueue) result" where
  "inbound_task env recv s h q =
     rbind (Inbound_HandleConnection env (recv (Socketfd (con_get q s))) q s h) (\<lambda>(h, q).
       if m_bCloseConnection h
       then rbind (Cache_FreeConnection (con_cache q) (Socketfd (con_get q s))) (\<lambda>c. Inr (h, set_cache q c))
       else Inr (h, q))"

partial_function (option) inbound_loop ::
  "env \<Rightarrow> (int \<Rightarrow> recv_result) \<Rightarrow> int set \<Rightarrow> cConnectionHandlerInbound \<Rightarrow> cMsgQueue \<Rightarrow>
     (cConnectionHandlerInbound \<times> cMsgQueue) result option" where
  "inbound_loop env recv fds h q =
     (case Cache_GetNextSetRecord (con_cache q) fds of
        Inl e \<Rightarrow> Some (Inl e)
      | Inr (rec, c) \<Rightarrow>
          (case rec of
             None \<Rightarrow> Some (Inr (h, set_cache q c))
           | Some s \<Rightarrow>
               (case inbound_task env recv s h (set_cache q c) of
                  Inl e \<Rightarrow> Some (Inl e)
                | Inr (h, q) \<Rightarrow> inbound_loop env recv fds h q)))"

definition ProcessInboundTasks ::
  "env \<Rightarrow> (int \<Rightarrow> recv_result) \<Rightarrow> int set \<Rightarrow> con_thread \<Rightarrow> con_thread result option" where
  "ProcessInboundTasks env recv fds t =
     (let q = set_cache (ct_queue t) (Cache_ResetEnumerator (con_cache (ct_queue t)))
      in case inbound_loop env recv fds (m_InHandler t) q of
           None \<Rightarrow> None
         | Some (Inl e) \<Rightarrow> Some (Inl e)
         | Some (Inr (h, q)) \<Rightarrow> Some (Inr (t\<lparr>m_InHandler := h, ct_queue := q\<rparr>)))"

section \<open>Outbound tasks\<close>

text \<open>One message; the first component tells whether an exception left the loop.\<close>

definition outbound_task ::
  "env \<Rightarrow> os \<Rightarrow> outbound \<Rightarrow> (bool \<times> outbound) result option" where
  "outbound_task env os = (\<lambda>(h, q, w).
     let a = pq_top (prio_in (m_msgPool q)) (outbound_queue q)
     in case rbind (mq_get q a) (\<lambda>m.
               if Msg_GetConnectionType m = MSG_CT_OB_TCP
               then rbind (Cache_GetConnectionRecord (con_cache q) (Msg_GetTCPSocketHandle m)) (\<lambda>(rec, c).
                    Inr (rec, set_cache q c))
               else Inr (None, q)) of
          Inl e \<Rightarrow> Some (Inl e)
        | Inr (rec, q) \<Rightarrow>
            (case Outbound_HandleConnection env os rec a (h, q, w) of
               None \<Rightarrow> None
             | Some (Inl e) \<Rightarrow> Some (Inl e)
             | Some (Inr (Some x, r)) \<Rightarrow> Some (Inr (True, r))
             | Some (Inr (None, h, q, w)) \<Rightarrow>
                 Some (rbind (mq_get q a) (\<lambda>m.
                       rbind (if Msg_GetConnectionType m = MSG_CT_OB_TCP \<and> oh_bCloseConnection h
                              then rbind (Cache_FreeConnection (con_cache q) (Msg_GetTCPSocketHandle m)) (\<lambda>c.
                                   Inr (set_cache q c))
                              else Inr q) (\<lambda>q.
                       Inr (False, h,
                         set_outbound q (pq_pop (prio_in (m_msgPool q)) (outbound_queue q)), w))))))"

text \<open>The handlers behind the loop log with \<open>LOGALL\<close>, which throws the text it logs.\<close>

partial_function (option) outbound_loop :: "env \<Rightarrow> os \<Rightarrow> outbound \<Rightarrow> outbound result option" where
  "outbound_loop env os r =
     (if outbound_queue (fst (snd r)) = [] then Some (Inr r)
      else
        (case outbound_task env os r of
           None \<Rightarrow> None
         | Some x \<Rightarrow>
             (case x of
                Inl e \<Rightarrow> Some (Inl e)
              | Inr y \<Rightarrow>
                  if fst y then Some (Inl (Thrown ''Exception in cConnectionQueue::ProcessOutboundTasks()''))
                  else outbound_loop env os (snd y))))"

definition ProcessOutboundTasks :: "env \<Rightarrow> os \<Rightarrow> con_thread \<Rightarrow> con_thread result option" where
  "ProcessOutboundTasks env os t =
     (let cq = m_pConnectionQueue (ct_queue t);
          cq = (if Timer_IsReady (e_now env) (m_outboundQueueTimer cq)
                then cq\<lparr>m_outboundQueueTimer := Timer_Reset (e_now env) (m_outboundQueueTimer cq)\<rparr> else cq)
      in case outbound_loop env os (m_OutHandler t, (ct_queue t)\<lparr>m_pConnectionQueue := cq\<rparr>, ct_net t) of
           None \<Rightarrow> None
         | Some (Inl e) \<Rightarrow> Some (Inl e)
         | Some (Inr (h, q, w)) \<Rightarrow> Some (Inr (t\<lparr>m_OutHandler := h, ct_queue := q, ct_net := w\<rparr>)))"

section \<open>The thread\<close>

definition ConQueue_Run_start :: "int \<Rightarrow> cConnectionQueue \<Rightarrow> cConnectionQueue" where
  "ConQueue_Run_start now cq =
     cq\<lparr>cq_timer := Timer_Start now (Timer_SetInterval (cq_timer cq) 1),
        m_outboundQueueTimer := Timer_Start now (Timer_SetInterval (m_outboundQueueTimer cq) 10),
        m_ConMsgTimer := Timer_Start now (Timer_SetInterval (m_ConMsgTimer cq) 60)\<rparr>"

definition PrepareConnections :: "cConnectionQueue \<Rightarrow> (int set \<times> int \<times> cConnectionQueue) result" where
  "PrepareConnections cq =
     rbind (Cache_SetActiveConnections (m_ConnectionCache cq) {} FD_SETSIZE) (\<lambda>(fds, maxfd, c).
     Inr (fds, maxfd, cq\<lparr>m_ConnectionCache := c\<rparr>))"

definition run_timeout :: "int \<Rightarrow> cConnectionQueue \<Rightarrow> cConnectionQueue result option" where
  "run_timeout now cq =
     (if Timer_IsReady now (cq_timer cq)
      then
        (case Cache_TimeoutConnections now (m_ConnectionCache cq) (m_iConnectionTimeout cq) of
           None \<Rightarrow> None
         | Some (Inl e) \<Rightarrow> Some (Inl e)
         | Some (Inr c) \<Rightarrow> Some (Inr (cq\<lparr>m_ConnectionCache := c, cq_timer := Timer_Reset now (cq_timer cq)\<rparr>)))
      else Some (Inr cq))"

text \<open>
  One pass. \<open>select\<close> gets the descriptors and answers which of them are readable; it is not called
  when no connection is active.
\<close>

definition ConQueue_Run_pass ::
  "env \<Rightarrow> os \<Rightarrow> (int set \<Rightarrow> int set) \<Rightarrow> (int \<Rightarrow> recv_result) \<Rightarrow> con_thread \<Rightarrow> con_thread result option" where
  "ConQueue_Run_pass env os select recv t =
     (case run_timeout (e_now env) (m_pConnectionQueue (ct_queue t)) of
        None \<Rightarrow> None
      | Some (Inl e) \<Rightarrow> Some (Inl e)
      | Some (Inr cq) \<Rightarrow>
          (case rbind (ConQueue_AddPrequeued (e_now env) cq) PrepareConnections of
             Inl e \<Rightarrow> Some (Inl e)
           | Inr (fds, maxfd, cq) \<Rightarrow>
               (case ProcessInboundTasks env recv (if maxfd \<noteq> 0 then select fds else fds)
                       (t\<lparr>ct_queue := (ct_queue t)\<lparr>m_pConnectionQueue := cq\<rparr>\<rparr>) of
                  None \<Rightarrow> None
                | Some (Inl e) \<Rightarrow> Some (Inl e)
                | Some (Inr t) \<Rightarrow>
                    if outbound_queue (ct_queue t) \<noteq> [] then ProcessOutboundTasks env os t else Some (Inr t))))"

end
