(* ===== verification/InboundTaskLaws.thy ===== *)
theory InboundTaskLaws
  imports ConnectionTasks
begin

text \<open>
  \<open>ProcessInboundTasks\<close>: every connection that is ready is handled once, in the order of the list, also
  when handling one closes it; the pass ends, keeps the cache, the pool and the queues consistent, and
  makes one message of each complete request.
\<close>

section \<open>What handling a connection leaves alone\<close>

text \<open>Only the record of the connection changes, and of that neither its place in the list nor its peer.\<close>

definition same_node :: "ConnectionRecord \<Rightarrow> ConnectionRecord \<Rightarrow> bool" where
  "same_node r r' \<longleftrightarrow> same_peer r r' \<and> cr_it r = cr_it r' \<and> cr_State r = cr_State r'"

definition con_frame :: "int \<Rightarrow> cMsgQueue \<Rightarrow> cMsgQueue \<Rightarrow> bool" where
  "con_frame s q q' \<longleftrightarrow>
     m_pConnectionQueue q' = m_pConnectionQueue q \<or>
     (\<exists>r. same_node r (con_get q s) \<and>
        m_pConnectionQueue q' =
          (m_pConnectionQueue q)\<lparr>m_ConnectionCache := map_store (con_cache q) s r\<rparr>)"

lemma con_frame_refl: "con_frame s q q"
  by (simp add: con_frame_def)

lemma con_frame_pool: "m_pConnectionQueue q' = m_pConnectionQueue q \<Longrightarrow> con_frame s q q'"
  by (simp add: con_frame_def)

lemma con_frame_put: "same_node r (con_get q s) \<Longrightarrow> con_frame s q (con_put q s r)"
  by (auto simp: con_frame_def con_put_def con_cache_def)

lemma con_frame_trans: "con_frame s q q1 \<Longrightarrow> con_frame s q1 q2 \<Longrightarrow> con_frame s q q2"
  by (auto simp: con_frame_def con_cache_def con_get_def map_store_def map_lookup_def same_node_def
      same_peer_def)

lemma take_request_frame: "take_request h q s a = Inr q' \<Longrightarrow> con_frame s q q'"
proof -
  assume "take_request h q s a = Inr q'"
  then obtain q1 b where q1: "m_pConnectionQueue q1 = m_pConnectionQueue q"
    "q' = con_put q1 s ((con_get q1 s)\<lparr>cr_buffer := b\<rparr>)"
  proof (atomize_elim, use \<open>take_request h q s a = Inr q'\<close> in
      \<open>clarsimp simp: take_request_def result_simps mq_upd_def simp del: con_put_simps\<close>)
    fix p b
    show "\<exists>q1. m_pConnectionQueue q1 = m_pConnectionQueue q \<and>
        (\<exists>c. con_put (q\<lparr>m_msgPool := p\<rparr>) s ((con_get (q\<lparr>m_msgPool := p\<rparr>) s)\<lparr>cr_buffer := b\<rparr>) =
          con_put q1 s ((con_get q1 s)\<lparr>cr_buffer := c\<rparr>))"
      by (rule exI [of _ "q\<lparr>m_msgPool := p\<rparr>"]) auto
  qed
  have "con_frame s q1 q'" unfolding q1(2) by (rule con_frame_put) (simp add: same_node_def same_peer_def)
  then show "con_frame s q q'" using con_frame_pool [OF q1(1)] con_frame_trans by blast
qed

lemma MQ_Parse_frame: "MQ_Parse env q a ct ms = Inr q' \<Longrightarrow> m_pConnectionQueue q' = m_pConnectionQueue q"
  by (cases "UniqueID_GetID (e_uuid env) (m_UniqueIDProvider q)")
    (auto simp: MQ_Parse_def result_simps mq_upd_def split: if_splits)

lemma mq_upd_frame: "mq_upd q a f = Inr q' \<Longrightarrow> m_pConnectionQueue q' = m_pConnectionQueue q"
  by (auto simp: mq_upd_def result_simps)

lemma MQ_DispatchMsg_frame: "MQ_DispatchMsg env q a = Inr q' \<Longrightarrow> m_pConnectionQueue q' = m_pConnectionQueue q"
  by (auto simp: MQ_DispatchMsg_def intro: mq_upd_frame)

lemma CreateMessage_frame: "CreateMessage env q = Inr (a, q') \<Longrightarrow> m_pConnectionQueue q' = m_pConnectionQueue q"
  by (auto simp: CreateMessage_def MQ_GetMessage_def result_simps)

lemma request_parsed_frame: "request_parsed env h q s f = Inr (a, q') \<Longrightarrow> con_frame s q q'"
proof -
  assume "request_parsed env h q s f = Inr (a, q')"
  then obtain q1 q2 q3 where
    "CreateMessage env q = Inr (a, q1)" "mq_upd q1 a f = Inr q2" "take_request h q2 s a = Inr q3"
    "MQ_Parse env q3 a MSG_CT_IB_TCP MSG_FORMAT_REQ = Inr q'"
    by (auto simp: request_parsed_def result_simps)
  then show "con_frame s q q'"
    using CreateMessage_frame mq_upd_frame take_request_frame MQ_Parse_frame con_frame_pool con_frame_trans
    by metis
qed

lemma ProcessMCP_frame: "ProcessMCP env q s pt h = Inr (rc, h', q') \<Longrightarrow> con_frame s q q'"
proof -
  assume "ProcessMCP env q s pt h = Inr (rc, h', q')"
  then obtain a q1 h1 f where "request_parsed env h1 q s f = Inr (a, q1)" "MQ_DispatchMsg env q1 a = Inr q'"
    by (auto simp: ProcessMCP_steps Let_def result_simps)
  then show ?thesis using request_parsed_frame MQ_DispatchMsg_frame con_frame_pool con_frame_trans by metis
qed

lemma ProcessHTTP_frame: "ProcessHTTP env q s pt h = Inr (rc, h', q') \<Longrightarrow> con_frame s q q'"
proof -
  assume "ProcessHTTP env q s pt h = Inr (rc, h', q')"
  then obtain a q1 h1 f ids g q2 where "request_parsed env h1 q s f = Inr (a, q1)"
    "mq_upd (q1\<lparr>m_UniqueIDProvider := ids\<rparr>) a g = Inr q2" "MQ_DispatchMsg env q2 a = Inr q'"
    by (auto simp: ProcessHTTP_steps Let_def result_simps case_prod_unfold)
  moreover from this have "m_pConnectionQueue q' = m_pConnectionQueue q1"
    using mq_upd_frame MQ_DispatchMsg_frame by fastforce
  ultimately show ?thesis using request_parsed_frame con_frame_pool con_frame_trans by metis
qed

lemma Inbound_Process_frame:
  assumes "Inbound_Process env q s h = Inr (rc, h', q')"
  shows "con_frame s q q'"
proof -
  obtain pt h1 b where "AnalyzeProtocol h (cr_buffer (con_get q s)) = Inr (pt, h1, b)"
    using assms by (auto simp: Inbound_Process_def result_simps)
  let ?q = "con_put q s ((con_get q s)\<lparr>cr_buffer := b\<rparr>)"
  have f: "con_frame s q ?q" by (rule con_frame_put) (simp add: same_node_def same_peer_def)
  have "con_frame s ?q q'"
    using assms \<open>AnalyzeProtocol h _ = _\<close>
    by (auto simp: Inbound_Process_def Let_def con_frame_refl intro: ProcessHTTP_frame ProcessMCP_frame
        split: if_splits)
  with f show ?thesis by (rule con_frame_trans)
qed

lemma Inbound_HandleConnection_frame:
  assumes "Inbound_HandleConnection env rr q s h = Inr (h', q')"
  shows "con_frame s q q' \<and> pActiveHandler (con_get q' s) = None"
proof -
  let ?q0 = "con_put q s ((con_get q s)\<lparr>pActiveHandler := Some 0\<rparr>)"
  have put: "con_frame s q1 (con_put q1 s (f (con_get q1 s)))" if "\<And>r. same_node (f r) r" for q1 f
    using that by (intro con_frame_put)
  note sn = same_node_def same_peer_def
  have f0: "con_frame s q ?q0" by (rule put) (simp add: sn)
  show ?thesis
    using assms unfolding Inbound_HandleConnection_def Let_def
  proof (rule rbind_InrE, goal_cases)
    case (1 q1)
    note q1 = this
    have f1: "con_frame s ?q0 q1"
      using q1(1) by (auto simp: result_simps con_frame_refl sn
          simp del: con_put_simps(2-) intro!: con_frame_put split: recv_result.splits if_splits)
    from q1(2) show ?case
    proof (rule rbind_InrE, goal_cases)
      case (1 x)
      obtain b found where x: "x = (b, found)" by (cases x)
      let ?q2 = "con_put q1 s ((con_get q1 s)\<lparr>cr_buffer := b\<rparr>)"
      have f2: "con_frame s q1 ?q2" by (rule put) (simp add: sn)
      from 1(2) [unfolded x prod.case] show ?case
      proof (rule rbind_InrE, goal_cases)
        case (1 y)
        obtain bp h3 q3 where y: "y = (bp, h3, q3)" by (cases y)
        have f3: "con_frame s ?q2 q3"
        proof (cases "found = -1")
          case True
          then show ?thesis using 1(1) y con_frame_refl by simp
        next
          case False
          then obtain rc h2 where "Inbound_Process env ?q2 s (h\<lparr>m_bCloseConnection := False\<rparr>) = Inr (rc, h2, q3)"
            using 1(1) y by (auto simp: result_simps simp del: con_put_simps split: if_splits)
          then show ?thesis by (rule Inbound_Process_frame)
        qed
        have q': "q' = con_put q3 s ((con_get q3 s)\<lparr>pActiveHandler := None\<rparr>)" using 1(2) y by simp
        have "con_frame s q3 q'" unfolding q' by (rule put) (simp add: sn)
        moreover have "pActiveHandler (con_get q' s) = None" unfolding q' by simp
        ultimately show ?case using f0 f1 f2 f3 con_frame_trans by blast
      qed
    qed
  qed
qed

section \<open>What handling a connection does\<close>

definition received :: "recv_result \<Rightarrow> string" where
  "received rr = (case rr of Received d \<Rightarrow> d | _ \<Rightarrow> [])"

definition closes :: "recv_result \<Rightarrow> string \<Rightarrow> bool" where
  "closes rr u \<longleftrightarrow> fst (classify u) = eProtocol_UNKNOWN \<or> rr = RecvError"

lemma Inbound_RecvError:
  "Inbound_HandleConnection env RecvError q s h =
     rbind (Inbound_HandleConnection env (Received []) q s h)
       (\<lambda>(h, q). Inr (h\<lparr>m_bCloseConnection := True\<rparr>, q))"
proof -
  define q0 where "q0 = con_put q s ((con_get q s)\<lparr>pActiveHandler := Some 0\<rparr>)"
  define h0 where "h0 = h\<lparr>m_bCloseConnection := False\<rparr>"
  note defs = Inbound_HandleConnection_def Let_def q0_def [symmetric] h0_def [symmetric]
  show ?thesis
  proof (cases "Buffer_Find (cr_buffer (con_get q0 s)) (CRLF @ CRLF) 0")
    case (Inl e)
    then show ?thesis unfolding defs by simp
  next
    case (Inr x)
    obtain b found where x: "x = (b, found)" by (cases x)
    define q1 where "q1 = con_put q0 s ((con_get q0 s)\<lparr>cr_buffer := b\<rparr>)"
    note find = Inr [unfolded x]
    show ?thesis
    proof (cases "found = -1")
      case True
      then show ?thesis unfolding defs by (simp add: find [simplified] del: con_put_simps)
    next
      case False
      show ?thesis
      proof (cases "Inbound_Process env q1 s h0")
        case (Inl e)
        then show ?thesis unfolding defs
          by (simp add: find [simplified] False q1_def [symmetric] del: con_put_simps)
      next
        case (Inr y)
        obtain rc h2 q2 where "y = (rc, h2, q2)" by (cases y)
        with Inr show ?thesis unfolding defs
          by (cases "dump_buffer (cr_buffer (con_get q2 s))")
            (simp_all add: find [simplified] False q1_def [symmetric] del: con_put_simps)
      qed
    qed
  qed
qed

lemma Inbound_WouldBlock:
  "Inbound_HandleConnection env WouldBlock q s h = Inbound_HandleConnection env (Received []) q s h"
  by (simp add: Inbound_HandleConnection_def)

lemma Inbound_any_spec:
  assumes inv: "mq_inv q" "bufs_ok (m_msgPool q)"
    and t: "holds (cr_buffer (con_get q s)) t" and ok: "length_ok (t @ received rr)"
  shows "\<exists>h' q'. Inbound_HandleConnection env rr q s h = Inr (h', q') \<and>
    m_bCloseConnection h' = closes rr (t @ received rr) \<and> outcome q s (t @ received rr) q'"
proof -
  from Inbound_HandleConnection_spec [OF inv t ok, of env h] obtain h1 q1 where
    1: "Inbound_HandleConnection env (Received (received rr)) q s h = Inr (h1, q1)"
      "m_bCloseConnection h1 = (fst (classify (t @ received rr)) = eProtocol_UNKNOWN)"
      "outcome q s (t @ received rr) q1" by blast
  then show ?thesis
    by (cases rr) (auto simp: received_def closes_def Inbound_RecvError Inbound_WouldBlock)
qed

section \<open>The messages that a pass makes\<close>

text \<open>The message \<open>m\<close> carries the request at the start of the bytes \<open>u\<close> of connection \<open>s\<close>.\<close>

definition is_request :: "cMsg \<Rightarrow> int \<Rightarrow> string \<Rightarrow> bool" where
  "is_request m s u \<longleftrightarrow> MsgState m = MSG_STATE_PENDING \<and> MsgConnectionType m = MSG_CT_IB_TCP \<and>
     TCPSocketHandle m = s \<and> MsgProtocolType m = msg_protocol (fst (classify u)) \<and>
     holds (MsgRawBuffer m) (take (nat (snd (classify u))) u)"

text \<open>
  Between two pools: each connection of \<open>S\<close> got a message of its own, which was free or did not exist,
  and every other message is as it was.
\<close>

definition delivered :: "(int \<Rightarrow> string) \<Rightarrow> int set \<Rightarrow> cMsgPool \<Rightarrow> cMsgPool \<Rightarrow> bool" where
  "delivered U S p p' \<longleftrightarrow>
     (\<exists>f. inj_on f S \<and>
        (\<forall>s \<in> S. state_of p (f s) \<in> {Some MSG_STATE_INACTIVE, None} \<and>
           (\<exists>m. m_store p' (f s) = Some m \<and> is_request m s (U s))) \<and>
        (\<forall>b. b \<notin> f ` S \<longrightarrow> m_store p' b = m_store p b))"

lemma delivered_none: "m_store p' = m_store p \<Longrightarrow> delivered U {} p p'"
  by (simp add: delivered_def)

lemma delivered_cong: "(\<And>s. s \<in> S \<Longrightarrow> U s = V s) \<Longrightarrow> delivered U S p p' = delivered V S p p'"
  by (simp add: delivered_def cong: conj_cong)

lemma delivered_trans:
  assumes "delivered U A p p1" "delivered U B p1 p2" "A \<inter> B = {}"
  shows "delivered U (A \<union> B) p p2"
proof -
  obtain f where f: "inj_on f A" "\<And>s. s \<in> A \<Longrightarrow> state_of p (f s) \<in> {Some MSG_STATE_INACTIVE, None}"
    "\<And>s. s \<in> A \<Longrightarrow> \<exists>m. m_store p1 (f s) = Some m \<and> is_request m s (U s)"
    "\<And>b. b \<notin> f ` A \<Longrightarrow> m_store p1 b = m_store p b" using assms(1) unfolding delivered_def by blast
  obtain g where g: "inj_on g B" "\<And>s. s \<in> B \<Longrightarrow> state_of p1 (g s) \<in> {Some MSG_STATE_INACTIVE, None}"
    "\<And>s. s \<in> B \<Longrightarrow> \<exists>m. m_store p2 (g s) = Some m \<and> is_request m s (U s)"
    "\<And>b. b \<notin> g ` B \<Longrightarrow> m_store p2 b = m_store p1 b" using assms(2) unfolding delivered_def by blast
  have apart: "f s \<noteq> g s'" if s: "s \<in> A" "s' \<in> B" for s s'
  proof
    assume e: "f s = g s'"
    from f(3) [OF s(1)] have "state_of p1 (f s) = Some MSG_STATE_PENDING"
      by (auto simp: state_of_def is_request_def)
    then show False using g(2) [OF s(2)] e by auto
  qed
  let ?f = "\<lambda>s. if s \<in> A then f s else g s"
  have B: "s \<notin> A" if "s \<in> B" for s using that assms(3) by blast
  have img: "?f ` (A \<union> B) = f ` A \<union> g ` B" using B by auto
  have "inj_on ?f (A \<union> B)"
  proof (rule inj_onI)
    fix x y assume "x \<in> A \<union> B" "y \<in> A \<union> B" "?f x = ?f y"
    then show "x = y"
      using apart f(1) g(1) B by (cases "x \<in> A"; cases "y \<in> A") (auto dest: inj_onD simp: apart [symmetric])
  qed
  moreover have "state_of p (?f s) \<in> {Some MSG_STATE_INACTIVE, None}" if "s \<in> A \<union> B" for s
  proof (cases "s \<in> A")
    case True
    then show ?thesis using f(2) by simp
  next
    case False
    then have "s \<in> B" using that by blast
    moreover have "g s \<notin> f ` A" using apart [OF _ \<open>s \<in> B\<close>] by (metis imageE)
    ultimately show ?thesis using g(2) [OF \<open>s \<in> B\<close>] f(4) [of "g s"] False unfolding state_of_def by simp
  qed
  moreover have "\<exists>m. m_store p2 (?f s) = Some m \<and> is_request m s (U s)" if "s \<in> A \<union> B" for s
  proof (cases "s \<in> A")
    case True
    then have "f s \<notin> g ` B" using apart by auto
    then show ?thesis using True f(3) g(4) [of "f s"] by simp
  next
    case False
    then show ?thesis using that g(3) by simp
  qed
  moreover have "m_store p2 b = m_store p b" if "b \<notin> ?f ` (A \<union> B)" for b
    using that f(4) g(4) unfolding img by simp
  ultimately show ?thesis unfolding delivered_def by (intro exI [of _ ?f]) blast
qed

section \<open>One connection\<close>

definition leftover :: "string \<Rightarrow> string" where
  "leftover u = (if complete u then drop (nat (snd (classify u))) u else u)"

text \<open>The bytes of a connection with those that \<open>recv\<close> is about to give.\<close>

definition bytes_of :: "(int \<Rightarrow> recv_result) \<Rightarrow> cMsgQueue \<Rightarrow> int \<Rightarrow> string" where
  "bytes_of recv q s = contents (cr_buffer (con_get q s)) @ received (recv s)"

lemma cache_inv_store:
  assumes inv: "cache_inv c" and k: "(k, s) \<in> set (m_ActiveConnectionList c)"
    and r: "\<exists>t. holds (cr_buffer r) t" "cr_it r = Node k" "cr_State r = CRS_WAITING" "Socketfd r = s"
  shows "cache_inv (map_store c s r)"
proof -
  have "node_ok (map_store c s r) n" if "n \<in> set (m_ActiveConnectionList c)" for n
  proof -
    obtain k' s' where n: "n = (k', s')" by (cases n)
    have o: "node_ok c n" using inv that by (simp add: cache_inv_def)
    show ?thesis
    proof (cases "s' = s")
      case True
      then have "k' = k" using node_unique [OF inv _ k] that n by simp
      then show ?thesis using o r True n by (auto simp: node_ok_def map_store_def)
    next
      case False
      then show ?thesis using o n by (simp add: node_ok_def map_store_def)
    qed
  qed
  moreover have "record_ok (m_ActiveConnectionList c) s' r'" if "m_ConnectionMap (map_store c s r) s' = Some r'" for s' r'
    using that inv k r by (cases "s' = s") (auto simp: map_store_def record_ok_def cache_inv_def)
  moreover have "distinct (map fst (m_ActiveConnectionList c))" using inv by (simp add: cache_inv_def)
  ultimately show ?thesis by (simp add: cache_inv_def) (simp add: map_store_def)
qed

lemma frame_cache:
  assumes inv: "cache_inv (con_cache q)" and k: "(k, s) \<in> set (m_ActiveConnectionList (con_cache q))"
    and f: "con_frame s q q'" and b: "holds (cr_buffer (con_get q' s)) t"
  shows "cache_inv (con_cache q')"
    "m_ActiveConnectionList (con_cache q') = m_ActiveConnectionList (con_cache q)"
    "m_list_it (con_cache q') = m_list_it (con_cache q)" "m_Closed (con_cache q') = m_Closed (con_cache q)"
    "s' \<noteq> s \<Longrightarrow> con_get q' s' = con_get q s'"
    "m_outbound_priority_queue (m_pConnectionQueue q') = m_outbound_priority_queue (m_pConnectionQueue q)"
proof -
  note n = node_okD [OF inv k]
  have "cache_inv (con_cache q') \<and> m_ActiveConnectionList (con_cache q') = m_ActiveConnectionList (con_cache q) \<and>
    m_list_it (con_cache q') = m_list_it (con_cache q) \<and> m_Closed (con_cache q') = m_Closed (con_cache q) \<and>
    (\<forall>s'. s' \<noteq> s \<longrightarrow> con_get q' s' = con_get q s') \<and>
    m_outbound_priority_queue (m_pConnectionQueue q') = m_outbound_priority_queue (m_pConnectionQueue q)"
  proof (cases "m_pConnectionQueue q' = m_pConnectionQueue q")
    case True
    then show ?thesis using inv by (simp add: con_cache_def con_get_def)
  next
    case False
    then obtain r where r: "same_node r (con_get q s)"
      "m_pConnectionQueue q' = (m_pConnectionQueue q)\<lparr>m_ConnectionCache := map_store (con_cache q) s r\<rparr>"
      using f by (auto simp: con_frame_def)
    have c: "con_cache q' = map_store (con_cache q) s r" using r(2) by (simp add: con_cache_def)
    have g: "con_get q s = map_lookup (con_cache q) s" by (simp add: con_get_def con_cache_def)
    have "con_get q' s = r" using c by (simp add: con_get_def con_cache_def map_store_def map_lookup_def)
    then have "holds (cr_buffer r) t" using b by simp
    moreover have "cr_it r = Node k" "cr_State r = CRS_WAITING" "Socketfd r = s"
      using r(1) n(2-4) g by (simp_all add: same_node_def same_peer_def)
    ultimately have "cache_inv (map_store (con_cache q) s r)" using inv k n(5) by (intro cache_inv_store) auto
    then show ?thesis using c r(2)
      by (simp add: map_store_def con_get_def con_cache_def map_lookup_def)
  qed
  then show "cache_inv (con_cache q')"
    "m_ActiveConnectionList (con_cache q') = m_ActiveConnectionList (con_cache q)"
    "m_list_it (con_cache q') = m_list_it (con_cache q)" "m_Closed (con_cache q') = m_Closed (con_cache q)"
    "s' \<noteq> s \<Longrightarrow> con_get q' s' = con_get q s'"
    "m_outbound_priority_queue (m_pConnectionQueue q') = m_outbound_priority_queue (m_pConnectionQueue q)"
    by blast+
qed

lemma set_cache_simps [simp]:
  "con_cache (set_cache q c) = c" "con_get (set_cache q c) s = map_lookup c s"
  "m_msgPool (set_cache q c) = m_msgPool q" "queued (set_cache q c) = queued q" "mq_inv (set_cache q c) = mq_inv q"
  "outbound_queue (set_cache q c) = outbound_queue q" "m_pSysMetrics (set_cache q c) = m_pSysMetrics q"
  by (simp_all add: set_cache_def con_cache_def con_get_def queued_def mq_inv_def outbound_queue_def)

lemma con_get_eq: "con_get q s = map_lookup (con_cache q) s"
  by (simp add: con_get_def con_cache_def)

lemma con_get_set_cache: "m_ConnectionMap c = m_ConnectionMap (con_cache q) \<Longrightarrow> con_get (set_cache q c) s = con_get q s"
  unfolding set_cache_simps con_get_eq [of q] map_lookup_def by simp

lemma Free_list:
  assumes inv: "cache_inv c" and k: "(k, s) \<in> set (m_ActiveConnectionList c)"
    and f: "Cache_FreeConnection c s = Inr c'"
  shows "m_ActiveConnectionList c' = filter (\<lambda>node. snd node \<noteq> s) (m_ActiveConnectionList c)"
    and "cr_buffer (map_lookup c' s) = cr_buffer (map_lookup c s)"
proof -
  obtain r where n: "m_ConnectionMap c s = Some r" "cr_it r = Node k" "valid_socket s"
    by (rule node_okE [OF inv k])
  have ne: "s \<noteq> -1" using n(3) by (auto simp: valid_socket_def)
  have "k \<in> fst ` set (m_ActiveConnectionList c)" using k by force
  then show "m_ActiveConnectionList c' = filter (\<lambda>node. snd node \<noteq> s) (m_ActiveConnectionList c)"
    "cr_buffer (map_lookup c' s) = cr_buffer (map_lookup c s)"
    using f n(1,2) ne filter_node [OF inv k]
    by (auto simp: Cache_FreeConnection_def list_erase_def map_store_def Cache_CloseSocket_def map_lookup_def)
qed

definition pass_ok :: "cMsgQueue \<Rightarrow> bool" where
  "pass_ok q \<longleftrightarrow> mq_inv q \<and> bufs_ok (m_msgPool q) \<and> cache_inv (con_cache q)"

lemma inbound_task_spec:
  assumes ok: "pass_ok q" and k: "(k, s) \<in> set (m_ActiveConnectionList (con_cache q))"
    and len: "length_ok (bytes_of recv q s)"
  shows "\<exists>h' q'. inbound_task env recv s h q = Inr (h', q') \<and> pass_ok q' \<and> queued q' = queued q \<and>
    (let u = bytes_of recv q s; c = closes (recv s) u
     in m_ActiveConnectionList (con_cache q') =
          filter (\<lambda>node. \<not> (c \<and> snd node = s)) (m_ActiveConnectionList (con_cache q)) \<and>
        m_Closed (con_cache q') = m_Closed (con_cache q) @ (if c then [s] else []) \<and>
        holds (cr_buffer (con_get q' s)) (leftover u) \<and>
        delivered (bytes_of recv q) (if complete u then {s} else {}) (m_msgPool q) (m_msgPool q')) \<and>
    m_list_it (con_cache q') = m_list_it (con_cache q) \<and>
    (\<forall>s'. s' \<noteq> s \<longrightarrow> con_get q' s' = con_get q s')"
proof -
  let ?u = "bytes_of recv q s"
  let ?c = "closes (recv s) ?u"
  have inv: "mq_inv q" "bufs_ok (m_msgPool q)" "cache_inv (con_cache q)" using ok by (simp_all add: pass_ok_def)
  note n = node_okD [OF inv(3) k]
  have g: "con_get q s = map_lookup (con_cache q) s" by (simp add: con_get_def con_cache_def)
  have sock: "Socketfd (con_get q s) = s" using n(4) g by simp
  obtain t where t: "holds (cr_buffer (con_get q s)) t" using lookup_ok [OF inv(3)] g by metis
  have u: "t @ received (recv s) = ?u" using holds_contents [OF t] by (simp add: bytes_of_def)
  from Inbound_any_spec [OF inv(1,2) t len [folded u], of env h] obtain h' q1 where
    1: "Inbound_HandleConnection env (recv s) q s h = Inr (h', q1)" "m_bCloseConnection h' = ?c" "outcome q s ?u q1"
    unfolding u by blast
  note f = Inbound_HandleConnection_frame [OF 1(1), THEN conjunct1]
  have left: "holds (cr_buffer (con_get q1 s)) (leftover ?u)" "mq_inv q1" "queued q1 = queued q" "bufs_ok (m_msgPool q1)"
    using 1(3) inv(2) by (auto simp: outcome_def leftover_def made_def kept_def split: if_splits)
  have del: "delivered (bytes_of recv q) (if complete ?u then {s} else {}) (m_msgPool q) (m_msgPool q1)"
  proof (cases "complete ?u")
    case True
    with 1(3) obtain a m where "state_of (m_msgPool q) a \<in> {Some MSG_STATE_INACTIVE, None}"
      "m_store (m_msgPool q1) a = Some m" "is_request m s ?u"
      "\<forall>b. b \<noteq> a \<longrightarrow> m_store (m_msgPool q1) b = m_store (m_msgPool q) b"
      by (auto simp: outcome_def made_def is_request_def sock)
    then show ?thesis using True unfolding delivered_def
      by (intro exI [of _ "\<lambda>_. a"]) simp
  next
    case False
    then show ?thesis using 1(3) by (simp add: outcome_def kept_def delivered_none)
  qed
  note fr = frame_cache [OF inv(3) k f left(1)]
  have k1: "(k, s) \<in> set (m_ActiveConnectionList (con_cache q1))" using k fr(2) by simp
  have g1: "con_get q1 s = map_lookup (con_cache q1) s" by (simp add: con_get_def con_cache_def)
  have sock1: "Socketfd (con_get q1 s) = s" using node_okD(4) [OF fr(1) k1] g1 by simp
  show ?thesis
  proof (cases ?c)
    case False
    have "inbound_task env recv s h q = Inr (h', q1)"
      using 1(1,2) False by (simp add: inbound_task_def sock)
    then show ?thesis using fr left False del
      by (intro exI [of _ h'] exI [of _ q1]) (simp add: pass_ok_def Let_def)
  next
    case True
    have s1: "s \<noteq> -1" using n(5) by (auto simp: valid_socket_def)
    have it: "\<And>r. m_ConnectionMap (con_cache q1) s = Some r \<Longrightarrow> cr_it r \<noteq> Singular"
      using node_okD(1,2) [OF fr(1) k1] by auto
    from FreeConnection_spec [OF fr(1) s1 it] obtain c where
      c: "Cache_FreeConnection (con_cache q1) s = Inr c" "cache_inv c" "m_Closed c = m_Closed (con_cache q1) @ [s]"
        "m_list_it c = m_list_it (con_cache q1)" "\<forall>s'. s' \<noteq> s \<longrightarrow> m_ConnectionMap c s' = m_ConnectionMap (con_cache q1) s'"
      by blast
    note fl = Free_list [OF fr(1) k1 c(1)]
    have "inbound_task env recv s h q = Inr (h', set_cache q1 c)"
      using 1(1,2) True c(1) by (simp add: inbound_task_def sock sock1)
    moreover have "con_get (set_cache q1 c) s' = con_get q s'" if "s' \<noteq> s" for s'
    proof -
      have "map_lookup c s' = map_lookup (con_cache q1) s'" using c(5) that by (simp add: map_lookup_def)
      also have "\<dots> = con_get q1 s'" by (simp add: con_get_def con_cache_def)
      finally show ?thesis using fr(5) [OF that] by simp
    qed
    moreover have "pass_ok (set_cache q1 c)" using left c(2) by (simp add: pass_ok_def)
    ultimately show ?thesis using fr left True del c(3,4) fl g1
      by (intro exI [of _ h'] exI [of _ "set_cache q1 c"]) (simp add: Let_def)
  qed
qed

section \<open>The pass\<close>

definition ready_list :: "cMsgQueue \<Rightarrow> int set \<Rightarrow> (nat \<times> int) list \<Rightarrow> int list" where
  "ready_list q fds l = filter (is_ready (con_cache q) fds) (map snd l)"

text \<open>What a pass over the nodes \<open>rest\<close> promises.\<close>

definition served ::
  "(int \<Rightarrow> recv_result) \<Rightarrow> int set \<Rightarrow> (nat \<times> int) list \<Rightarrow> cMsgQueue \<Rightarrow> cMsgQueue \<Rightarrow> bool" where
  "served recv fds rest q q' \<longleftrightarrow>
     (let ss = ready_list q fds rest; U = bytes_of recv q; cs = filter (\<lambda>s. closes (recv s) (U s)) ss
      in m_Closed (con_cache q') = m_Closed (con_cache q) @ cs \<and>
         actives (con_cache q') = filter (\<lambda>s. s \<notin> set cs) (actives (con_cache q)) \<and>
         (\<forall>s \<in> set ss. holds (cr_buffer (con_get q' s)) (leftover (U s))) \<and>
         (\<forall>s. s \<notin> set ss \<longrightarrow> con_get q' s = con_get q s) \<and>
         delivered U {s \<in> set ss. complete (U s)} (m_msgPool q) (m_msgPool q'))"

lemma is_ready_cong: "con_get q' s = con_get q s \<Longrightarrow> is_ready (con_cache q') fds s = is_ready (con_cache q) fds s"
  by (simp add: is_ready_def con_get_def con_cache_def)

lemma actives_snd_distinct:
  assumes "cache_inv c" "m_ActiveConnectionList c = pre @ (k, s) # rest"
  shows "s \<notin> snd ` set pre" "s \<notin> snd ` set rest"
  using actives_distinct [OF assms(1)] assms(2) by (auto simp: actives_def)

lemma inbound_loop_spec:
  assumes "pass_ok q" "\<forall>s \<in> set (actives (con_cache q)). s < FD_SETSIZE"
    and "m_ActiveConnectionList (con_cache q) = pre @ rest" "m_list_it (con_cache q) = it_of rest"
    and "\<forall>s \<in> set (ready_list q fds rest). length_ok (bytes_of recv q s)"
  shows "\<exists>h' q'. inbound_loop env recv fds h q = Some (Inr (h', q')) \<and> pass_ok q' \<and> queued q' = queued q \<and>
    served recv fds rest q q'"
  using assms
proof (induction "length rest" arbitrary: rest pre q h rule: less_induct)
  case less
  let ?c = "con_cache q"
  let ?P = "\<lambda>node. \<not> is_ready ?c fds (snd node)"
  have inv: "cache_inv ?c" using less.prems(1) by (simp add: pass_ok_def)
  note nxt = GetNextSetRecord_spec [OF inv less.prems(2,3,4), of fds]
  show ?case
  proof (cases "dropWhile ?P rest")
    case Nil
    then have none: "ready_list q fds rest = []" by (auto simp: ready_list_def dropWhile_eq_Nil_conv filter_empty_conv)
    let ?q = "set_cache q (?c\<lparr>m_list_it := End\<rparr>)"
    have "inbound_loop env recv fds h q = Some (Inr (h, ?q))"
      using nxt Nil by (subst inbound_loop.simps) simp
    moreover have "cache_inv (?c\<lparr>m_list_it := End\<rparr>)" using inv by (simp add: cache_inv_def node_ok_def)
    moreover have "con_get ?q s = con_get q s" for s by (rule con_get_set_cache) simp
    ultimately show ?thesis using none less.prems(1)
      by (intro exI [of _ h] exI [of _ ?q]) (simp add: pass_ok_def served_def Let_def delivered_none actives_def)
  next
    case (Cons node rest')
    obtain k s where node: "node = (k, s)" by (cases node)
    obtain skip where skip: "rest = skip @ (k, s) # rest'" "\<forall>n \<in> set skip. ?P n" "is_ready ?c fds s"
      using Cons node dropWhile_eq_Cons_conv [of ?P rest node rest'] 
      by (metis (no_types, lifting) snd_conv set_takeWhileD takeWhile_dropWhile_id)
    let ?q0 = "set_cache q (?c\<lparr>m_list_it := it_of rest'\<rparr>)"
    have g0: "con_get ?q0 s' = con_get q s'" for s' by (rule con_get_set_cache) simp
    have u0: "bytes_of recv ?q0 = bytes_of recv q" by (simp add: bytes_of_def fun_eq_iff g0 del: set_cache_simps(2))
    have l: "m_ActiveConnectionList ?c = (pre @ skip) @ (k, s) # rest'" using less.prems(3) skip(1) by simp
    have rl: "ready_list q fds rest = s # ready_list q fds rest'"
      using skip by (auto simp: ready_list_def filter_empty_conv)
    have "cache_inv (?c\<lparr>m_list_it := it_of rest'\<rparr>)" using inv by (simp add: cache_inv_def node_ok_def)
    then have ok0: "pass_ok ?q0" using less.prems(1) by (simp add: pass_ok_def)
    have k0: "(k, s) \<in> set (m_ActiveConnectionList (con_cache ?q0))" using l by simp
    have len0: "length_ok (bytes_of recv ?q0 s)" using less.prems(5) rl u0 by simp
    let ?u = "bytes_of recv q s"
    let ?cl = "closes (recv s) ?u"
    from inbound_task_spec [OF ok0 k0 len0, of env h] obtain h1 q1 where
      t: "inbound_task env recv s h ?q0 = Inr (h1, q1)" "pass_ok q1" "queued q1 = queued q"
        "m_ActiveConnectionList (con_cache q1) = filter (\<lambda>node. \<not> (?cl \<and> snd node = s)) (m_ActiveConnectionList ?c)"
        "m_Closed (con_cache q1) = m_Closed ?c @ (if ?cl then [s] else [])"
        "holds (cr_buffer (con_get q1 s)) (leftover ?u)"
        "delivered (bytes_of recv q) (if complete ?u then {s} else {}) (m_msgPool q) (m_msgPool q1)"
        "m_list_it (con_cache q1) = it_of rest'" "\<forall>s'. s' \<noteq> s \<longrightarrow> con_get q1 s' = con_get q s'"
      unfolding u0 Let_def g0 by auto
    note ds = actives_snd_distinct [OF inv l]
    have same: "filter (\<lambda>node. \<not> (?cl \<and> snd node = s)) rest' = rest'" using ds(2) by (force simp: filter_id_conv)
    define pre1 where "pre1 = filter (\<lambda>node. \<not> (?cl \<and> snd node = s)) (pre @ skip @ [(k, s)])"
    have l1: "m_ActiveConnectionList (con_cache q1) = pre1 @ rest'"
      unfolding t(4) l pre1_def filter_append filter.simps append_assoc same by simp
    have act1: "actives (con_cache q1) = filter (\<lambda>s'. \<not> (?cl \<and> s' = s)) (actives ?c)"
      unfolding actives_def t(4) by (simp add: filter_map o_def)
    have small1: "\<forall>s \<in> set (actives (con_cache q1)). s < FD_SETSIZE" using less.prems(2) act1 by auto
    have oth: "s' \<noteq> s" if "s' \<in> set (map snd rest')" for s' using that ds(2) by auto
    have rl1: "ready_list q1 fds rest' = ready_list q fds rest'"
      unfolding ready_list_def
      by (rule filter_cong [OF refl]) (rule is_ready_cong, use oth t(9) in blast)
    have rsub: "s' \<noteq> s" if "s' \<in> set (ready_list q fds rest')" for s' using that oth by (simp add: ready_list_def)
    have u1: "bytes_of recv q1 s' = bytes_of recv q s'" if "s' \<noteq> s" for s' using that t(9) by (simp add: bytes_of_def)
    have len1: "\<forall>s \<in> set (ready_list q1 fds rest'). length_ok (bytes_of recv q1 s)"
      using less.prems(5) rl rl1 u1 rsub by auto
    have "length rest' < length rest" using skip(1) by simp
    from less.hyps [OF this t(2) small1 l1 t(8) len1, of h1] obtain h' q' where
      r: "inbound_loop env recv fds h1 q1 = Some (Inr (h', q'))" "pass_ok q'" "queued q' = queued q1"
        "served recv fds rest' q1 q'" by blast
    have e: "inbound_loop env recv fds h q = Some (Inr (h', q'))"
      using nxt Cons node t(1) r(1) by (subst inbound_loop.simps) simp
    let ?ss = "ready_list q fds rest'"
    have cs: "filter (\<lambda>s. closes (recv s) (bytes_of recv q1 s)) ?ss = filter (\<lambda>s. closes (recv s) (bytes_of recv q s)) ?ss"
      using u1 rsub by (intro filter_cong refl) simp
    have sv: "m_Closed (con_cache q') = m_Closed (con_cache q1) @ filter (\<lambda>s. closes (recv s) (bytes_of recv q s)) ?ss"
      "actives (con_cache q') = filter (\<lambda>s. s \<notin> set (filter (\<lambda>s. closes (recv s) (bytes_of recv q s)) ?ss)) (actives (con_cache q1))"
      "\<forall>s \<in> set ?ss. holds (cr_buffer (con_get q' s)) (leftover (bytes_of recv q1 s))"
      "\<forall>s. s \<notin> set ?ss \<longrightarrow> con_get q' s = con_get q1 s"
      "delivered (bytes_of recv q1) {s \<in> set ?ss. complete (bytes_of recv q1 s)} (m_msgPool q1) (m_msgPool q')"
      using r(4) unfolding served_def Let_def rl1 cs by blast+
    have set_eq: "{s \<in> set ?ss. complete (bytes_of recv q1 s)} = {s \<in> set ?ss. complete (bytes_of recv q s)}"
      using u1 rsub by auto
    have d1: "delivered (bytes_of recv q) {s \<in> set ?ss. complete (bytes_of recv q s)} (m_msgPool q1) (m_msgPool q')"
      using sv(5) u1 rsub unfolding set_eq by (subst delivered_cong [of _ _ "bytes_of recv q1"]) auto
    have "(if complete ?u then {s} else {}) \<inter> {s \<in> set ?ss. complete (bytes_of recv q s)} = {}" using rsub by auto
    from delivered_trans [OF t(7) d1 this]
    have del: "delivered (bytes_of recv q) {s' \<in> set (s # ?ss). complete (bytes_of recv q s')} (m_msgPool q) (m_msgPool q')"
      by (rule back_subst [where P = "\<lambda>S. delivered _ S _ _"]) auto
    have "s \<notin> set ?ss" using rsub by blast
    then have buf: "\<forall>s' \<in> set (s # ?ss). holds (cr_buffer (con_get q' s')) (leftover (bytes_of recv q s'))"
      using sv(3,4) t(6) u1 rsub by auto
    have "served recv fds rest q q'"
      unfolding served_def Let_def rl using sv(1,2,4) t(5,9) act1 buf del rsub
      by (auto intro!: filter_cong)
    then show ?thesis using e r(2,3) t(3) by auto
  qed
qed

lemma ProcessInboundTasks_spec:
  assumes ok: "pass_ok (ct_queue t)" and small: "\<forall>s \<in> set (actives (con_cache (ct_queue t))). s < FD_SETSIZE"
    and len: "\<forall>s \<in> set (actives (con_cache (ct_queue t))). length_ok (bytes_of recv (ct_queue t) s)"
  shows "\<exists>t'. ProcessInboundTasks env recv fds t = Some (Inr t') \<and> pass_ok (ct_queue t') \<and>
    queued (ct_queue t') = queued (ct_queue t) \<and> ct_net t' = ct_net t \<and> m_OutHandler t' = m_OutHandler t \<and>
    served recv fds (m_ActiveConnectionList (con_cache (ct_queue t))) (ct_queue t) (ct_queue t')"
proof -
  let ?q = "ct_queue t"
  let ?l = "m_ActiveConnectionList (con_cache ?q)"
  define start where "start = set_cache ?q (Cache_ResetEnumerator (con_cache ?q))"
  have g0: "con_get start s = con_get ?q s" for s
    unfolding start_def by (rule con_get_set_cache [of "Cache_ResetEnumerator (con_cache (ct_queue t))"]) (simp add: Cache_ResetEnumerator_def)
  have u0: "bytes_of recv start = bytes_of recv ?q" by (simp add: bytes_of_def fun_eq_iff g0)
  have c0: "m_ActiveConnectionList (con_cache start) = [] @ ?l" "m_list_it (con_cache start) = it_of ?l"
    "actives (con_cache start) = actives (con_cache ?q)" "m_Closed (con_cache start) = m_Closed (con_cache ?q)"
    "m_msgPool start = m_msgPool ?q" "queued start = queued ?q" "mq_inv start = mq_inv ?q"
    by (simp_all add: start_def Cache_ResetEnumerator_def actives_def)
  have rl: "ready_list start fds ?l = ready_list ?q fds ?l"
    unfolding ready_list_def by (rule filter_cong [OF refl]) (rule is_ready_cong [OF g0])
  have "cache_inv (con_cache start)" using ok
    by (simp add: pass_ok_def cache_inv_def node_ok_def Cache_ResetEnumerator_def start_def)
  then have ok0: "pass_ok start" using ok c0 by (simp add: pass_ok_def)
  have len0: "\<forall>s \<in> set (ready_list start fds ?l). length_ok (bytes_of recv start s)"
    using len unfolding rl u0 by (auto simp: ready_list_def actives_def)
  have small0: "\<forall>s \<in> set (actives (con_cache start)). s < FD_SETSIZE" using small unfolding c0(3) .
  from inbound_loop_spec [OF ok0 small0 c0(1,2) len0, of env "m_InHandler t"] obtain h' q' where
    r: "inbound_loop env recv fds (m_InHandler t) start = Some (Inr (h', q'))" "pass_ok q'" "queued q' = queued start"
      "served recv fds ?l start q'" by blast
  have "served recv fds ?l ?q q'"
    using r(4) by (simp add: served_def rl u0 g0 c0)
  then show ?thesis using r(1-3) c0(6) by (simp add: ProcessInboundTasks_def Let_def start_def)
qed

end
