(* ===== verification/OutboundTaskLaws.thy ===== *)
theory OutboundTaskLaws
  imports InboundTaskLaws OutboundDelivery
begin

text \<open>
  \<open>ProcessOutboundTasks\<close>: all queued messages of open connections go out, by priority, and each is
  marked as delivered; a message of any other connection type makes the loop leave with an exception, and
  stays at the top of the queue.
\<close>

section \<open>The cache\<close>

text \<open>A socket that \<open>FreeConnection\<close> can be called for: its record was added at some time.\<close>

definition known :: "cConnectionCache \<Rightarrow> int \<Rightarrow> bool" where
  "known c s \<longleftrightarrow> valid_socket s \<and> s \<noteq> 0 \<and> (\<exists>r. m_ConnectionMap c s = Some r \<and> cr_it r \<noteq> Singular)"

lemma cache_inv_touch:
  assumes inv: "cache_inv c" and r0: "m_ConnectionMap c s = Some r0"
    and r: "cr_it r = cr_it r0" "cr_State r = cr_State r0" "Socketfd r = Socketfd r0" "cr_buffer r = cr_buffer r0"
  shows "cache_inv (map_store c s r)"
proof -
  have "node_ok (map_store c s r) n" if "n \<in> set (m_ActiveConnectionList c)" for n
    using that inv r r0 by (cases n; cases "snd n = s") (auto simp: cache_inv_def node_ok_def map_store_def)
  moreover have "record_ok (m_ActiveConnectionList c) s' r'" if "m_ConnectionMap (map_store c s r) s' = Some r'" for s' r'
    using that r r0 record_okD [OF inv, of s'] by (cases "s' = s") (auto simp: map_store_def record_ok_def split: list_it.splits)
  moreover have "distinct (map fst (m_ActiveConnectionList c))" using inv by (simp add: cache_inv_def)
  ultimately show ?thesis by (simp add: cache_inv_def) (simp add: map_store_def)
qed

lemma Free_known:
  assumes "known c s'" "Cache_FreeConnection c s = Inr c'"
  shows "known c' s'"
  using assms by (auto simp: known_def Cache_FreeConnection_def result_simps Cache_CloseSocket_def map_store_def
      Let_def split: if_splits option.splits)

text \<open>The record of a known socket, as \<open>GetConnectionRecord\<close> gives it.\<close>

lemma Get_known:
  assumes "known (con_cache q) s"
  shows "rbind (Cache_GetConnectionRecord (con_cache q) s) (\<lambda>(rec, c). Inr (rec, set_cache q c)) = Inr (Some s, q)"
proof -
  obtain r where r: "m_ConnectionMap (con_cache q) s = Some r" "valid_socket s" "s \<noteq> 0"
    using assms by (auto simp: known_def)
  have "map_store (con_cache q) s (map_lookup (con_cache q) s) = con_cache q"
    by (rule cConnectionCache.equality) (simp_all add: map_store_def map_lookup_def r(1) fun_upd_idem)
  moreover have "set_cache q (con_cache q) = q"
    by (rule cMsgQueue.equality) (simp_all add: set_cache_def con_cache_def)
  moreover have "s \<noteq> -1" using r(2) by (auto simp: valid_socket_def)
  ultimately show ?thesis using r(2,3) by (simp add: Cache_GetConnectionRecord_def)
qed

lemma touched_cache:
  assumes inv: "cache_inv (con_cache q)" and k: "known (con_cache q) s" and t: "touched (Some s) q q'"
  shows "cache_inv (con_cache q')" "known (con_cache q) s' \<Longrightarrow> known (con_cache q') s'"
    "actives (con_cache q') = actives (con_cache q)" "outbound_queue q' = outbound_queue q"
proof -
  obtain r0 where r0: "m_ConnectionMap (con_cache q) s = Some r0" "cr_it r0 \<noteq> Singular" using k by (auto simp: known_def)
  have g: "con_get q s = r0" using r0(1) by (simp add: con_get_eq map_lookup_def)
  let ?r = "r0\<lparr>cr_timestamp := cr_timestamp (con_get q' s), pendingwrite := False\<rparr>"
  have c: "con_cache q' = map_store (con_cache q) s ?r" "outbound_queue q' = outbound_queue q"
    using t by (simp_all add: touched_def g) (simp_all add: con_cache_def con_put_def outbound_queue_def)
  then show "cache_inv (con_cache q')" "outbound_queue q' = outbound_queue q"
    "actives (con_cache q') = actives (con_cache q)"
    using cache_inv_touch [OF inv r0(1), of ?r] by (simp_all add: actives_def) (simp add: map_store_def)
  show "known (con_cache q) s' \<Longrightarrow> known (con_cache q') s'"
    using c(1) r0(2) by (auto simp: known_def map_store_def)
qed

section \<open>One message\<close>

text \<open>The message's text is its own: it does not send what the buffer held before.\<close>

definition own_text :: "cMsg \<Rightarrow> bool" where
  "own_text m \<longleftrightarrow> Msg_GetProtocolType m = MSG_PROTOCOL_MCP \<or>
     Msg_GetFormat m \<noteq> MSG_FORMAT_RES \<and> Msg_GetFormat m \<noteq> MSG_FORMAT_NOTIFY"

definition msg_text :: "os \<Rightarrow> cMsg \<Rightarrow> string \<Rightarrow> string" where
  "msg_text os m xs = response_text os m xs []"

lemma own_text_response: "own_text m \<Longrightarrow> response_text os m xs old = msg_text os m xs"
  by (auto simp: own_text_def msg_text_def response_text_def)

lemma payload_is_state:
  assumes "m_store (m_msgPool q') = (m_store (m_msgPool q))(a \<mapsto> Msg_SetMsgState m st)" "m_store (m_msgPool q) a = Some m"
  shows "payload_is q' x xs = payload_is q x xs"
proof -
  have "payload_block q' x = payload_block q x"
    using assms by (auto simp: payload_block_def Msg_SetMsgState_def split: option.split msg_ptr.split)
  then show ?thesis by (simp add: payload_is_def)
qed

lemma payload_is_pool:
  assumes "m_msgPool q' = m_msgPool q"
  shows "payload_is q' x xs = payload_is q x xs"
proof -
  have "payload_block q' x = payload_block q x" unfolding payload_block_def assms ..
  then show ?thesis by (simp add: payload_is_def)
qed

lemma prio_in_state:
  assumes "m_store p' = (m_store p)(a \<mapsto> Msg_SetMsgState m st)" "m_store p a = Some m"
  shows "prio_in p' = prio_in p"
  using assms by (auto simp: prio_in_def fun_eq_iff Msg_SetMsgState_def Msg_GetMsgPriority_def)

definition out_ok :: "int \<Rightarrow> cConnectionHandlerOutbound \<Rightarrow> cMsgQueue \<Rightarrow> bool" where
  "out_ok now h q \<longleftrightarrow> out_wf h \<and> metrics_inv now (m_pSysMetrics q) \<and> cache_inv (con_cache q)"

lemma set_outbound_simps [simp]:
  "outbound_queue (set_outbound q l) = l" "m_msgPool (set_outbound q l) = m_msgPool q"
  "con_cache (set_outbound q l) = con_cache q" "m_pSysMetrics (set_outbound q l) = m_pSysMetrics q"
  by (simp_all add: set_outbound_def outbound_queue_def con_cache_def)

lemma outbound_task_spec:
  assumes ok: "out_ok now h q" and os: "send_ok os" "live os"
    and a: "a = pq_top (prio_in (m_msgPool q)) (outbound_queue q)"
    and m: "m_store (m_msgPool q) a = Some m" "sendable os q m xs" "own_text m"
      "known (con_cache q) (Msg_GetTCPSocketHandle m)"
  shows "\<exists>k h' q' w'. outbound_task env os (h, q, w) = Some (Inr (False, h', q', w')) \<and> out_ok now h' q' \<and>
    outbound_queue q' = pq_pop (prio_in (m_msgPool q)) (outbound_queue q) \<and>
    m_store (m_msgPool q') = (m_store (m_msgPool q))(a \<mapsto> Msg_SetMsgState m MSG_STATE_DELIVERED) \<and>
    (\<forall>f. sent_to f w' = sent_to f w @
       (if f = Msg_GetTCPSocketHandle m then take k (msg_text os m xs) else [])) \<and>
    k \<le> length (msg_text os m xs) \<and> n_calls w \<le> n_calls w' \<and>
    (k < length (msg_text os m xs) \<longrightarrow> refused os (Msg_GetTCPSocketHandle m) (msg_text os m xs) k w w') \<and>
    (\<forall>s. known (con_cache q) s \<longrightarrow> known (con_cache q') s)"
proof -
  let ?fd = "Msg_GetTCPSocketHandle m"
  have inv: "out_wf h" "metrics_inv now (m_pSysMetrics q)" "cache_inv (con_cache q)" using ok by (simp_all add: out_ok_def)
  have tcp: "Msg_GetConnectionType m = MSG_CT_OB_TCP" using m(2) by (simp add: sendable_def)
  from Outbound_HandleConnection_spec [OF m(1,2) inv(1) os inv(2), of env "Some ?fd" w] obtain k h1 q1 w1 where
    1: "Outbound_HandleConnection env os (Some ?fd) a (h, q, w) = Some (Inr (None, h1, q1, w1))"
      "\<forall>f. sent_to f w1 = sent_to f w @ (if f = ?fd then take k (msg_text os m xs) else [])"
      "m_store (m_msgPool q1) = (m_store (m_msgPool q))(a \<mapsto> Msg_SetMsgState m MSG_STATE_DELIVERED)"
      "out_wf h1" "metrics_inv now (m_pSysMetrics q1)" "touched (Some ?fd) q q1"
      "k \<le> length (msg_text os m xs)" "n_calls w \<le> n_calls w1"
      "k < length (msg_text os m xs) \<longrightarrow> refused os ?fd (msg_text os m xs) k w w1"
    unfolding Let_def own_text_response [OF m(3)] by blast
  note t = touched_cache [OF inv(3) m(4) 1(6)]
  have m1: "mq_get q1 a = Inr (Msg_SetMsgState m MSG_STATE_DELIVERED)" using 1(3) by (intro mq_get_eq) simp
  have same: "Msg_GetConnectionType (Msg_SetMsgState m st) = Msg_GetConnectionType m"
    "Msg_GetTCPSocketHandle (Msg_SetMsgState m st) = ?fd" for st by (simp_all add: Msg_SetMsgState_def msg_getters)
  have get: "rbind (mq_get q a) (\<lambda>m.
               if Msg_GetConnectionType m = MSG_CT_OB_TCP
               then rbind (Cache_GetConnectionRecord (con_cache q) (Msg_GetTCPSocketHandle m)) (\<lambda>(rec, c).
                    Inr (rec, set_cache q c))
               else Inr (None, q)) = Inr (Some ?fd, q)"
    using mq_get_eq [OF m(1)] tcp Get_known [OF m(4)] by simp
  have prio: "prio_in (m_msgPool q1) = prio_in (m_msgPool q)" by (rule prio_in_state [OF 1(3) m(1)])
  have k1: "known (con_cache q1) ?fd" using t(2) [OF m(4)] .
  have "\<exists>c. (if oh_bCloseConnection h1 then Cache_FreeConnection (con_cache q1) ?fd else Inr (con_cache q1)) = Inr c \<and>
      cache_inv c \<and> (\<forall>s. known (con_cache q1) s \<longrightarrow> known c s)"
  proof (cases "oh_bCloseConnection h1")
    case True
    have s: "?fd \<noteq> -1" using k1 by (auto simp: known_def valid_socket_def)
    have r: "\<And>r. m_ConnectionMap (con_cache q1) ?fd = Some r \<Longrightarrow> cr_it r \<noteq> Singular" using k1 by (auto simp: known_def)
    from FreeConnection_spec [OF t(1) s r] obtain c where
      c: "Cache_FreeConnection (con_cache q1) ?fd = Inr c" "cache_inv c" by blast
    then show ?thesis using True Free_known [OF _ c(1)] by auto
  qed (use t(1) in auto)
  then obtain c where c: "(if oh_bCloseConnection h1 then Cache_FreeConnection (con_cache q1) ?fd else Inr (con_cache q1)) = Inr c"
    "cache_inv c" "\<forall>s. known (con_cache q1) s \<longrightarrow> known c s" by blast
  define q2 where "q2 = (if oh_bCloseConnection h1 then set_cache q1 c else q1)"
  have q2: "con_cache q2 = c" "m_msgPool q2 = m_msgPool q1" "outbound_queue q2 = outbound_queue q1"
    "m_pSysMetrics q2 = m_pSysMetrics q1" using c(1) by (simp_all add: q2_def split: if_splits)
  let ?q = "set_outbound q2 (pq_pop (prio_in (m_msgPool q)) (outbound_queue q))"
  have e: "outbound_task env os (h, q, w) = Some (Inr (False, h1, ?q, w1))"
    unfolding outbound_task_def prod.case a [symmetric] Let_def get sum.case 1(1) option.case m1 rbind.simps same
    using tcp c(1) q2(2,3) prio t(4) by (simp add: q2_def split: if_splits)
  have "out_ok now h1 ?q" using 1(4,5) c(2) q2 by (simp add: out_ok_def)
  then show ?thesis using e 1(2,3,7-9) c(3) q2 t(2)
    by (intro exI [of _ k] exI [of _ h1] exI [of _ ?q] exI [of _ w1]) simp
qed

section \<open>The whole queue\<close>

lemma outbound_loop_spec:
  assumes "out_ok now h q" "send_ok os" "live os" "distinct (outbound_queue q)"
    and "\<forall>a \<in> set (outbound_queue q). m_store (m_msgPool q) a = Some (M a) \<and> sendable os q (M a) (X a) \<and>
      own_text (M a) \<and> known (con_cache q) (Msg_GetTCPSocketHandle (M a))"
  shows "\<exists>k h' q' w'. outbound_loop env os (h, q, w) = Some (Inr (h', q', w')) \<and> out_ok now h' q' \<and>
    outbound_queue q' = [] \<and> n_calls w \<le> n_calls w' \<and>
    (\<forall>a \<in> set (outbound_queue q). k a \<le> length (msg_text os (M a) (X a)) \<and>
      (k a < length (msg_text os (M a) (X a)) \<longrightarrow>
         refused os (Msg_GetTCPSocketHandle (M a)) (msg_text os (M a) (X a)) (k a) w w')) \<and>
    m_store (m_msgPool q') = (\<lambda>a. if a \<in> set (outbound_queue q) then Some (Msg_SetMsgState (M a) MSG_STATE_DELIVERED)
       else m_store (m_msgPool q) a) \<and>
    (\<forall>f. sent_to f w' = sent_to f w @ concat (map
       (\<lambda>a. if f = Msg_GetTCPSocketHandle (M a) then take (k a) (msg_text os (M a) (X a)) else [])
       (pq.drain (prio_in (m_msgPool q)) (length (outbound_queue q)) (outbound_queue q))))"
  using assms
proof (induction "length (outbound_queue q)" arbitrary: h q w)
  case 0
  then have "outbound_queue q = []" by simp
  then show ?case using 0 by (subst outbound_loop.simps) simp
next
  case (Suc n)
  let ?l = "outbound_queue q" and ?P = "prio_in (m_msgPool q)"
  define a where "a = pq_top ?P ?l"
  have ne: "?l \<noteq> []" using Suc.hyps(2) by auto
  then have "mset ?l \<noteq> {#}" by simp
  note top = pq.elems_pop [OF this, of ?P, folded a_def]
  have al: "a \<in> set ?l" using top by (metis mset_add insert_iff set_mset_mset set_mset_add_mset_insert)
  have m: "m_store (m_msgPool q) a = Some (M a)" "sendable os q (M a) (X a)" "own_text (M a)"
    "known (con_cache q) (Msg_GetTCPSocketHandle (M a))" using Suc.prems(5) al by auto
  from outbound_task_spec [OF Suc.prems(1-3) a_def m, of env w] obtain k0 h1 q1 w1 where
    1: "outbound_task env os (h, q, w) = Some (Inr (False, h1, q1, w1))" "out_ok now h1 q1"
      "outbound_queue q1 = pq_pop ?P ?l"
      "m_store (m_msgPool q1) = (m_store (m_msgPool q))(a \<mapsto> Msg_SetMsgState (M a) MSG_STATE_DELIVERED)"
      "\<forall>f. sent_to f w1 = sent_to f w @ (if f = Msg_GetTCPSocketHandle (M a) then take k0 (msg_text os (M a) (X a)) else [])"
      "\<forall>s. known (con_cache q) s \<longrightarrow> known (con_cache q1) s"
      "k0 \<le> length (msg_text os (M a) (X a))" "n_calls w \<le> n_calls w1"
      "k0 < length (msg_text os (M a) (X a)) \<longrightarrow>
         refused os (Msg_GetTCPSocketHandle (M a)) (msg_text os (M a) (X a)) k0 w w1" by blast
  have pop: "pq_pop ?P ?l = remove1 a ?l" by (simp add: pq_pop_def a_def)
  have d1: "distinct (outbound_queue q1)" "set (outbound_queue q1) = set ?l - {a}"
    using Suc.prems(4) unfolding 1(3) pop by auto
  have n1: "n = length (outbound_queue q1)" using Suc.hyps(2) al unfolding 1(3) pop by (simp add: length_remove1)
  have prio: "prio_in (m_msgPool q1) = ?P" by (rule prio_in_state [OF 1(4) m(1)])
  have all1: "\<forall>b \<in> set (outbound_queue q1). m_store (m_msgPool q1) b = Some (M b) \<and> sendable os q1 (M b) (X b) \<and>
      own_text (M b) \<and> known (con_cache q1) (Msg_GetTCPSocketHandle (M b))"
    using Suc.prems(5) d1(2) 1(4,6) payload_is_state [OF 1(4) m(1)] by (auto simp: sendable_def)
  from Suc.hyps(1) [OF n1 1(2) Suc.prems(2,3) d1(1) all1, of w1] obtain k h' q' w' where
    r: "outbound_loop env os (h1, q1, w1) = Some (Inr (h', q', w'))" "out_ok now h' q'" "outbound_queue q' = []"
      "n_calls w1 \<le> n_calls w'"
      "\<forall>a \<in> set (outbound_queue q1). k a \<le> length (msg_text os (M a) (X a)) \<and>
        (k a < length (msg_text os (M a) (X a)) \<longrightarrow>
           refused os (Msg_GetTCPSocketHandle (M a)) (msg_text os (M a) (X a)) (k a) w1 w')"
      "m_store (m_msgPool q') = (\<lambda>a. if a \<in> set (outbound_queue q1) then Some (Msg_SetMsgState (M a) MSG_STATE_DELIVERED)
       else m_store (m_msgPool q1) a)"
      "\<forall>f. sent_to f w' = sent_to f w1 @ concat (map
       (\<lambda>a. if f = Msg_GetTCPSocketHandle (M a) then take (k a) (msg_text os (M a) (X a)) else [])
       (pq.drain ?P n (outbound_queue q1)))" unfolding prio n1 [symmetric] by blast
  let ?k = "k(a := k0)"
  have dset: "set (pq.drain ?P n (outbound_queue q1)) = set (outbound_queue q1)"
    using pq.drain_mset [of "outbound_queue q1" n ?P] n1 by (metis order_refl set_mset_mset size_mset)
  have dr: "pq.drain ?P (length ?l) ?l = a # pq.drain ?P n (outbound_queue q1)"
    unfolding Suc.hyps(2) [symmetric] using ne 1(3) by (simp add: a_def)
  have mp: "map (\<lambda>b. if f = Msg_GetTCPSocketHandle (M b) then take (?k b) (msg_text os (M b) (X b)) else []) (pq.drain ?P n (outbound_queue q1)) =
      map (\<lambda>b. if f = Msg_GetTCPSocketHandle (M b) then take (k b) (msg_text os (M b) (X b)) else []) (pq.drain ?P n (outbound_queue q1))" for f
    using dset d1(2) by (intro map_cong refl) auto
  have e: "outbound_loop env os (h, q, w) = Some (Inr (h', q', w'))"
    using ne 1(1) r(1) by (subst outbound_loop.simps) simp
  have st: "m_store (m_msgPool q') = (\<lambda>a. if a \<in> set ?l then Some (Msg_SetMsgState (M a) MSG_STATE_DELIVERED)
       else m_store (m_msgPool q) a)"
    unfolding r(6) d1(2) 1(4) using al by (auto simp: fun_eq_iff)
  have sent: "\<forall>f. sent_to f w' = sent_to f w @ concat (map
       (\<lambda>b. if f = Msg_GetTCPSocketHandle (M b) then take (?k b) (msg_text os (M b) (X b)) else [])
       (pq.drain ?P (length ?l) ?l))"
    unfolding dr list.map mp concat.simps using r(7) 1(5) by simp
  have cuts: "\<forall>b \<in> set ?l. ?k b \<le> length (msg_text os (M b) (X b)) \<and>
      (?k b < length (msg_text os (M b) (X b)) \<longrightarrow>
         refused os (Msg_GetTCPSocketHandle (M b)) (msg_text os (M b) (X b)) (?k b) w w')"
  proof (intro ballI conjI impI)
    fix b assume b: "b \<in> set ?l"
    show "?k b \<le> length (msg_text os (M b) (X b))" using b 1(7) r(5) d1(2) by auto
    assume c: "?k b < length (msg_text os (M b) (X b))"
    show "refused os (Msg_GetTCPSocketHandle (M b)) (msg_text os (M b) (X b)) (?k b) w w'"
    proof (cases "b = a")
      case True
      then have "refused os (Msg_GetTCPSocketHandle (M b)) (msg_text os (M b) (X b)) (?k b) w w1" using c 1(9) by simp
      from refused_later [OF this order_refl r(4)] show ?thesis .
    next
      case False
      then have "refused os (Msg_GetTCPSocketHandle (M b)) (msg_text os (M b) (X b)) (?k b) w1 w'"
        using b c r(5) d1(2) by auto
      from refused_later [OF this 1(8) order_refl] show ?thesis .
    qed
  qed
  have "n_calls w \<le> n_calls w'" using 1(8) r(4) by simp
  then show ?case using e r(2,3) st sent cuts by blast
qed

lemma ProcessOutboundTasks_spec:
  assumes ok: "out_ok now (m_OutHandler t) (ct_queue t)" and os: "send_ok os" "live os"
    and d: "distinct (outbound_queue (ct_queue t))"
    and all: "\<forall>a \<in> set (outbound_queue (ct_queue t)). m_store (m_msgPool (ct_queue t)) a = Some (M a) \<and>
      sendable os (ct_queue t) (M a) (X a) \<and> own_text (M a) \<and>
      known (con_cache (ct_queue t)) (Msg_GetTCPSocketHandle (M a))"
  shows "\<exists>k t'. ProcessOutboundTasks env os t = Some (Inr t') \<and> out_ok now (m_OutHandler t') (ct_queue t') \<and>
    outbound_queue (ct_queue t') = [] \<and> m_InHandler t' = m_InHandler t \<and>
    (\<forall>a \<in> set (outbound_queue (ct_queue t)). k a \<le> length (msg_text os (M a) (X a)) \<and>
      (k a < length (msg_text os (M a) (X a)) \<longrightarrow>
         refused os (Msg_GetTCPSocketHandle (M a)) (msg_text os (M a) (X a)) (k a) (ct_net t) (ct_net t'))) \<and>
    m_store (m_msgPool (ct_queue t')) = (\<lambda>a. if a \<in> set (outbound_queue (ct_queue t))
       then Some (Msg_SetMsgState (M a) MSG_STATE_DELIVERED) else m_store (m_msgPool (ct_queue t)) a) \<and>
    (\<forall>f. sent_to f (ct_net t') = sent_to f (ct_net t) @ concat (map
       (\<lambda>a. if f = Msg_GetTCPSocketHandle (M a) then take (k a) (msg_text os (M a) (X a)) else [])
       (pq.drain (prio_in (m_msgPool (ct_queue t))) (length (outbound_queue (ct_queue t))) (outbound_queue (ct_queue t)))))"
proof -
  let ?cq = "m_pConnectionQueue (ct_queue t)"
  define q1 where "q1 = (ct_queue t)\<lparr>m_pConnectionQueue := (if Timer_IsReady (e_now env) (m_outboundQueueTimer ?cq)
      then ?cq\<lparr>m_outboundQueueTimer := Timer_Reset (e_now env) (m_outboundQueueTimer ?cq)\<rparr> else ?cq)\<rparr>"
  have q1: "outbound_queue q1 = outbound_queue (ct_queue t)" "con_cache q1 = con_cache (ct_queue t)"
    "m_msgPool q1 = m_msgPool (ct_queue t)" "m_pSysMetrics q1 = m_pSysMetrics (ct_queue t)"
    by (simp_all add: q1_def outbound_queue_def con_cache_def)
  have s: "sendable os q1 m xs = sendable os (ct_queue t) m xs" for m xs
    using payload_is_pool [OF q1(3)] by (simp add: sendable_def)
  have ok1: "out_ok now (m_OutHandler t) q1" "distinct (outbound_queue q1)"
    "\<forall>a \<in> set (outbound_queue q1). m_store (m_msgPool q1) a = Some (M a) \<and> sendable os q1 (M a) (X a) \<and>
      own_text (M a) \<and> known (con_cache q1) (Msg_GetTCPSocketHandle (M a))"
    using ok d all q1 by (simp_all add: out_ok_def s)
  from outbound_loop_spec [OF ok1(1) os ok1(2,3), of env "ct_net t"] obtain k h' q' w' where
    "outbound_loop env os (m_OutHandler t, q1, ct_net t) = Some (Inr (h', q', w'))" "out_ok now h' q'"
    "outbound_queue q' = []"
    "\<forall>a \<in> set (outbound_queue q1). k a \<le> length (msg_text os (M a) (X a)) \<and>
      (k a < length (msg_text os (M a) (X a)) \<longrightarrow>
         refused os (Msg_GetTCPSocketHandle (M a)) (msg_text os (M a) (X a)) (k a) (ct_net t) w')"
    "m_store (m_msgPool q') = (\<lambda>a. if a \<in> set (outbound_queue q1) then Some (Msg_SetMsgState (M a) MSG_STATE_DELIVERED)
       else m_store (m_msgPool q1) a)"
    "\<forall>f. sent_to f w' = sent_to f (ct_net t) @ concat (map
       (\<lambda>a. if f = Msg_GetTCPSocketHandle (M a) then take (k a) (msg_text os (M a) (X a)) else [])
       (pq.drain (prio_in (m_msgPool q1)) (length (outbound_queue q1)) (outbound_queue q1)))" by blast
  then show ?thesis unfolding q1
    by (intro exI [of _ k] exI [of _ "t\<lparr>m_OutHandler := h', ct_queue := q', ct_net := w'\<rparr>"])
      (simp add: ProcessOutboundTasks_def Let_def q1_def [symmetric])
qed

section \<open>A message that cannot go out\<close>

text \<open>
  A request of a connection type that is neither of the two outbound ones: the exception leaves the
  loop before \<open>pop\<close>, the handler throws it again as a text, and no function of the thread catches that.
\<close>

lemma outbound_throws:
  assumes q: "outbound_queue (ct_queue t) \<noteq> []"
    and a: "a = pq_top (prio_in (m_msgPool (ct_queue t))) (outbound_queue (ct_queue t))"
    and m: "m_store (m_msgPool (ct_queue t)) a = Some m"
      "Msg_GetConnectionType m \<noteq> MSG_CT_OB_TCP" "Msg_GetConnectionType m \<noteq> MSG_CT_OB_UDP"
      "Msg_GetProtocolType m \<notin> {MSG_PROTOCOL_HTTP_GET, MSG_PROTOCOL_HTTP_POST, MSG_PROTOCOL_HTTP_MCP}"
      "response_fits os m" "payload_is (ct_queue t) m xs" "address_ok (Msg_GetTo m)"
    and h: "out_wf (m_OutHandler t)"
  shows "ProcessOutboundTasks env os t =
    Some (Inl (Thrown ''Exception in cConnectionQueue::ProcessOutboundTasks()''))"
proof -
  let ?cq = "m_pConnectionQueue (ct_queue t)"
  define q1 where "q1 = (ct_queue t)\<lparr>m_pConnectionQueue := (if Timer_IsReady (e_now env) (m_outboundQueueTimer ?cq)
      then ?cq\<lparr>m_outboundQueueTimer := Timer_Reset (e_now env) (m_outboundQueueTimer ?cq)\<rparr> else ?cq)\<rparr>"
  have q1: "outbound_queue q1 = outbound_queue (ct_queue t)" "m_msgPool q1 = m_msgPool (ct_queue t)"
    by (simp_all add: q1_def outbound_queue_def)
  have m1: "m_store (m_msgPool q1) a = Some m" using m(1) q1(2) by simp
  have p1: "payload_is q1 m xs" using m(6) payload_is_pool [OF q1(2)] by simp
  let ?h = "(m_OutHandler t)\<lparr>oh_bCloseConnection := False\<rparr>"
  have w: "holds (m_response ?h) (contents (m_response ?h))" "holds (m_temp ?h) (contents (m_temp ?h))"
    "holds (m_ServerAddr ?h) (contents (m_ServerAddr ?h))"
    using h by (simp_all add: out_wf_def wf_holds)
  from build_response_holds [OF w(1) m(5) p1] m(4) obtain b c where
    b: "build_response os q1 m (m_response ?h) = Inr (b, c)" by auto
  have "holds (m_temp (?h\<lparr>m_response := b\<rparr>)) (contents (m_temp ?h))"
    "holds (m_ServerAddr (?h\<lparr>m_response := b\<rparr>)) (contents (m_ServerAddr ?h))" using w(2,3) by simp_all
  from set_addressee_ok [OF this m(7)] obtain h1 where h1: "set_addressee m (?h\<lparr>m_response := b\<rparr>) = Inr h1" by blast
  let ?q2 = "if c then count_response q1 else q1"
  have hc: "Outbound_HandleConnection env os None a (m_OutHandler t, q1, ct_net t) =
      Some (Inr (Some ''Warning connection type is not OB_UDP or OB_TCP'', h1, ?q2, ct_net t))"
    using m(2-4) b h1 by (simp add: Outbound_HandleConnection_def TransmitMsg_def mq_get_eq [OF m1])
  have ot: "outbound_task env os (m_OutHandler t, q1, ct_net t) = Some (Inr (True, h1, ?q2, ct_net t))"
    using m(2) hc unfolding outbound_task_def q1 a [symmetric] prod.case Let_def
    by (simp add: mq_get_eq [OF m1])
  have "outbound_loop env os (m_OutHandler t, q1, ct_net t) =
      Some (Inl (Thrown ''Exception in cConnectionQueue::ProcessOutboundTasks()''))"
    using q ot q1(1) by (subst outbound_loop.simps) simp
  then show ?thesis by (simp add: ProcessOutboundTasks_def Let_def q1_def [symmetric])
qed

end
