(* ===== verification/TransportProperties.thy ===== *)
theory TransportProperties
  imports RequestTransfer OutboundTaskLaws MessageProperties ConnectionProperties
begin

text \<open>
  The properties of the two connection handlers and of the thread that drives them. The examples
  have one open connection, on socket 5, one message, and a system that takes a byte at a time.
\<close>

section \<open>Small states for the examples\<close>

definition demo_os :: os where
  "demo_os =
     \<lparr>os_send = (\<lambda>n fd b. Sent (min 1 (length b))), os_sendto = (\<lambda>n fd addr b. True), os_socket = (\<lambda>n. 7),
      os_connect = (\<lambda>n fd addr. True), os_inet_addr = (\<lambda>s. 0), os_inet_aton = (\<lambda>s. Some 0),
      os_gethostbyname = (\<lambda>n s. None), os_elapsed = ''0.1000''\<rparr>"

lemma demo_os: "send_ok demo_os" "live demo_os"
  by (auto simp: send_ok_def live_def demo_os_def min_def Suc_le_eq)

definition demo_line :: "cMsg \<Rightarrow> nat list \<Rightarrow> cMsgQueue" where
  "demo_line m out = set_outbound (set_cache (demo_queue m []) demo_cache) out"

definition demo_request :: string where
  "demo_request = ''ECHO MCP/1.0'' @ CRLF @ ''MsgID: 5'' @ CRLF @ CRLF"

lemma demo_request: "classify demo_request = (eProtocol_MCP, 26)" "length_ok demo_request"
  by code_simp+

definition demo_out :: cMsg where
  "demo_out = (demo_msg MSG_STATE_INUSE MSG_CT_OB_TCP)\<lparr>TCPSocketHandle := 5, MsgCommand := ''PING''\<rparr>"

lemma demo_out: "response_fits demo_os demo_out" "clean_request demo_out" "address_ok (Msg_GetTo demo_out)"
  by code_simp+

lemma demo_out_simps:
  "Msg_GetConnectionType demo_out = MSG_CT_OB_TCP" "Msg_GetTCPSocketHandle demo_out = 5"
  "Msg_GetProtocolType demo_out = MSG_PROTOCOL_UNKNOWN" "Msg_GetFormat demo_out = MSG_FORMAT_NOTSET"
  "Msg_GetContentLength demo_out = 0"
  by code_simp+

lemma demo_line_simps [simp]:
  "m_msgPool (demo_line m out) = demo_pool m" "con_cache (demo_line m out) = demo_cache"
  "outbound_queue (demo_line m out) = out" "con_get (demo_line m out) s = map_lookup demo_cache s"
  "m_pSysMetrics (demo_line m out) = SysMetrics_Run_start 0 (new_cSysMetrics 0)"
proof -
  show "con_get (demo_line m out) s = map_lookup demo_cache s"
    by (simp add: con_get_eq demo_line_def)
qed (simp_all add: demo_line_def, simp add: demo_queue_def)

lemma demo_line_inv: "mq_inv (demo_line m [])"
proof -
  have "mq_inv (demo_queue m [])" by (rule demo_queue_inv) simp
  then show ?thesis
    by (simp add: demo_line_def mq_inv_def queued_def set_outbound_def set_cache_def)
qed

lemma demo_bufs: "bufs_ok (demo_pool (demo_msg st ct))" "bufs_ok (demo_pool demo_out)"
  by (auto simp: bufs_ok_def demo_out_def demo_msg_def new_bufs)

lemma demo_pass: "pass_ok (demo_line (demo_msg st ct) [])"
  using demo_line_inv demo_bufs demo_cache(1) by (simp add: pass_ok_def)

lemma demo_buffer_empty: "holds (cr_buffer (map_lookup demo_cache 5)) []"
proof -
  obtain c b where c: "Cache_AddConnection 10 new_cConnectionCache 5 (0, 0) 80 = Inr c" "holds b []"
      "cr_buffer (map_lookup c 5) = b"
    using AddConnection_spec [OF cache_inv_new(1), of 5 10 "(0, 0)" 80]
    by (fastforce simp: valid_socket_def cache_inv_new(2))
  then show ?thesis by (simp add: demo_cache_def)
qed

lemma demo_out_sendable: "sendable demo_os (demo_line demo_out out) demo_out []"
  using demo_out by (simp add: sendable_def demo_out_simps payload_is_def)

lemma demo_known: "known demo_cache 5"
proof -
  have "m_ConnectionMap demo_cache 5 \<noteq> None" using demo_cache(4) by blast
  then obtain r where r: "m_ConnectionMap demo_cache 5 = Some r" by blast
  then have "cr_it r = Node 0" using demo_cache(5) by (simp add: map_lookup_def)
  then show ?thesis using r by (simp add: known_def valid_socket_def)
qed

lemma new_out_wf: "out_wf new_cConnectionHandlerOutbound"
  using holds_wf [OF holds_new] by (simp add: out_wf_def new_cConnectionHandlerOutbound_def)

definition demo_in :: cConnectionHandlerInbound where
  "demo_in = \<lparr>m_bCloseConnection = False, ih_HeaderExtract = new_cHeaderExtract, m_ipaddr = [],
     m_msgHeaderEnd = 0, m_msgSize = 0\<rparr>"

definition demo_net :: net where
  "demo_net = \<lparr>n_calls = 0, n_out = [], n_datagrams = [], n_closed = []\<rparr>"

lemma demo_metrics_inv: "metrics_inv 0 (SysMetrics_Run_start 0 (new_cSysMetrics 0))"
  by (rule inv_start)

section \<open>Receiving\<close>

text \<open>
  C16: for bytes whose declared length, if any, is not negative and gives a request whose size is an
  \<open>int\<close>, handling a readable connection loses no byte: when its bytes, with those that \<open>recv\<close> gave,
  hold a whole request, that request becomes one new message of the queue and the rest stays; when
  they do not, all of them stay and no message changes. The connection is closed exactly when the
  bytes are of no known protocol or \<open>recv\<close> failed. A \<open>recv\<close> of no bytes, which says that the peer has
  closed, does not close it. Only the connection's own record changes.
\<close>

theorem inbound_handles:
  assumes "mq_inv q" "bufs_ok (m_msgPool q)" "holds (cr_buffer (con_get q s)) t" "length_ok (t @ received rr)"
  shows "\<exists>h' q'. Inbound_HandleConnection env rr q s h = Inr (h', q') \<and>
    m_bCloseConnection h' = (fst (classify (t @ received rr)) = eProtocol_UNKNOWN \<or> rr = RecvError) \<and>
    outcome q s (t @ received rr) q' \<and> con_frame s q q'"
  using Inbound_any_spec [OF assms, of env h] Inbound_HandleConnection_frame by (fastforce simp: closes_def)

lemma inbound_handles_witness:
  "\<exists>h' q'. Inbound_HandleConnection demo_env (Received demo_request)
       (demo_line (demo_msg MSG_STATE_INACTIVE MSG_CT_NOTSET) []) 5 demo_in = Inr (h', q') \<and>
     \<not> m_bCloseConnection h' \<and> holds (cr_buffer (con_get q' 5)) []"
proof -
  let ?q = "demo_line (demo_msg MSG_STATE_INACTIVE MSG_CT_NOTSET) []"
  have b: "bufs_ok (m_msgPool ?q)" "holds (cr_buffer (con_get ?q 5)) []"
    using demo_bufs(1) demo_buffer_empty by simp_all
  have l: "length_ok ([] @ received (Received demo_request))" using demo_request(2) by (simp add: received_def)
  have d: "drop 26 demo_request = []" by code_simp
  from inbound_handles [OF demo_line_inv b l, of demo_env demo_in] show ?thesis
    using demo_request(1) d by (auto simp: received_def outcome_def complete_def made_def)
qed

text \<open>
  C15: when no connection declares a length that is negative or makes the size of its request overflow an
  \<open>int\<close>, a pass over the readable connections returns and serves each of them once, in the order in which
  they were added, even when serving one closes it. Afterwards: the connections with unknown bytes
  or a failed \<open>recv\<close> are closed and no other; every complete request is a pending message of its own,
  which carries exactly the bytes of the request and the socket they came from; the bytes behind it
  wait; no other message and no other connection changed; pool, queues and cache are consistent.
\<close>

theorem inbound_pass:
  assumes "mq_inv (ct_queue t)" "bufs_ok (m_msgPool (ct_queue t))" "cache_inv (con_cache (ct_queue t))"
    and "\<forall>s \<in> set (actives (con_cache (ct_queue t))). s < FD_SETSIZE \<and> length_ok (bytes_of recv (ct_queue t) s)"
  shows "\<exists>t'. ProcessInboundTasks env recv fds t = Some (Inr t') \<and>
    mq_inv (ct_queue t') \<and> bufs_ok (m_msgPool (ct_queue t')) \<and> cache_inv (con_cache (ct_queue t')) \<and>
    queued (ct_queue t') = queued (ct_queue t) \<and> ct_net t' = ct_net t \<and> m_OutHandler t' = m_OutHandler t \<and>
    (let q = ct_queue t; q' = ct_queue t'; U = bytes_of recv q;
         ss = filter (is_ready (con_cache q) fds) (actives (con_cache q));
         cs = filter (\<lambda>s. closes (recv s) (U s)) ss
     in m_Closed (con_cache q') = m_Closed (con_cache q) @ cs \<and>
        actives (con_cache q') = filter (\<lambda>s. s \<notin> set cs) (actives (con_cache q)) \<and>
        (\<forall>s \<in> set ss. holds (cr_buffer (con_get q' s)) (leftover (U s))) \<and>
        (\<forall>s. s \<notin> set ss \<longrightarrow> con_get q' s = con_get q s) \<and>
        delivered U {s \<in> set ss. complete (U s)} (m_msgPool q) (m_msgPool q'))"
proof -
  have ok: "pass_ok (ct_queue t)" "\<forall>s \<in> set (actives (con_cache (ct_queue t))). s < FD_SETSIZE"
    "\<forall>s \<in> set (actives (con_cache (ct_queue t))). length_ok (bytes_of recv (ct_queue t) s)"
    using assms by (simp_all add: pass_ok_def)
  from ProcessInboundTasks_spec [OF ok, of env fds] show ?thesis
    unfolding pass_ok_def served_def ready_list_def actives_def [symmetric] Let_def by blast
qed

lemma inbound_pass_witness:
  "\<exists>t'. ProcessInboundTasks demo_env (\<lambda>_. Received demo_request) {5}
       \<lparr>m_InHandler = demo_in, m_OutHandler = new_cConnectionHandlerOutbound,
        ct_queue = demo_line (demo_msg MSG_STATE_INACTIVE MSG_CT_NOTSET) [], ct_net = demo_net\<rparr> = Some (Inr t') \<and>
     cache_inv (con_cache (ct_queue t')) \<and> queued (ct_queue t') = queued (demo_line (demo_msg MSG_STATE_INACTIVE MSG_CT_NOTSET) [])"
proof -
  let ?q = "demo_line (demo_msg MSG_STATE_INACTIVE MSG_CT_NOTSET) []"
  let ?t = "\<lparr>m_InHandler = demo_in, m_OutHandler = new_cConnectionHandlerOutbound, ct_queue = ?q, ct_net = demo_net\<rparr>"
  let ?recv = "\<lambda>_ :: int. Received demo_request"
  have i: "mq_inv (ct_queue ?t)" "bufs_ok (m_msgPool (ct_queue ?t))" "cache_inv (con_cache (ct_queue ?t))"
    using demo_line_inv demo_bufs(1) demo_cache(1) by simp_all
  have "bytes_of ?recv ?q 5 = demo_request"
    using holds_contents [OF demo_buffer_empty] by (simp add: bytes_of_def received_def)
  then have "\<forall>s \<in> set (actives (con_cache (ct_queue ?t))). s < FD_SETSIZE \<and> length_ok (bytes_of ?recv (ct_queue ?t) s)"
    using demo_cache(2) demo_request(2) by (simp add: FD_SETSIZE_def)
  from inbound_pass [OF i this, of demo_env "{5}"] show ?thesis by auto
qed

text \<open>
  a negative \<open>Content-Length\<close>, or one so large that the sum with the size of the header wraps around, makes
  the size of the request negative, and the copy of the request runs out of the buffer's memory.
\<close>

theorem negative_length:
  assumes "mq_inv q" "bufs_ok (m_msgPool q)" "holds (cr_buffer (con_get q s)) t"
    and "fst (classify t) = eProtocol_MCP" "snd (classify t) < -1"
  shows "Inbound_Process env q s h = Inl OutOfBounds"
  by (rule negative_length_faults [OF assms])

definition demo_length :: "string \<Rightarrow> string" where
  "demo_length n = ''ECHO MCP/1.0'' @ CRLF @ ''Content-Length: '' @ n @ CRLF @ CRLF"

lemma negative_length_witness:
  "\<forall>n \<in> {''-99'', ''2147483640''}. \<exists>b. holds b (demo_length n) \<and>
     Inbound_Process demo_env (con_put (demo_line (demo_msg MSG_STATE_INACTIVE MSG_CT_NOTSET) []) 5
       (new_ConnectionRecord\<lparr>cr_buffer := b\<rparr>)) 5 demo_in = Inl OutOfBounds"
proof -
  let ?q = "\<lambda>n. con_put (demo_line (demo_msg MSG_STATE_INACTIVE MSG_CT_NOTSET) []) 5
      (new_ConnectionRecord\<lparr>cr_buffer := demo_buffer (demo_length n)\<rparr>)"
  have i: "mq_inv (?q n)" "bufs_ok (m_msgPool (?q n))" for n using demo_line_inv demo_bufs(1) by simp_all
  have b: "holds (cr_buffer (con_get (?q n) 5)) (demo_length n)" for n by (simp add: demo_buffer_holds)
  have c: "fst (classify (demo_length ''-99'')) = eProtocol_MCP" "snd (classify (demo_length ''-99'')) < -1"
    "fst (classify (demo_length ''2147483640'')) = eProtocol_MCP" "snd (classify (demo_length ''2147483640'')) < -1"
    by code_simp+
  from negative_length [OF i b c(1,2)] negative_length [OF i b c(3,4)] show ?thesis using demo_buffer_holds by blast
qed

section \<open>Sending\<close>

text \<open>
  C19: handling a message that goes out over the open TCP socket it names, other than to a browser, ends
  and hands the system the message's text, each byte once and in order, on that socket and no other: all
  of it, or what comes before a call of \<open>send\<close> that was given the rest and answered an error, and then the
  handler asks for the connection to be closed or has closed a socket of its own. The message is marked
  as delivered in both cases, so also when the peer got only a part of it.
\<close>

theorem outbound_delivers:
  assumes "m_store (m_msgPool q) a = Some m" "sendable os q m xs"
    and "out_wf h" "send_ok os" "live os" "metrics_inv now (m_pSysMetrics q)"
  shows "\<exists>k h' q' w'. Outbound_HandleConnection env os rec a (h, q, w) = Some (Inr (None, h', q', w')) \<and>
    (let t = response_text os m xs (contents (m_response h)); fd = Msg_GetTCPSocketHandle m
     in k \<le> length t \<and> (k < length t \<longrightarrow> refused os fd t k w w') \<and>
       (\<forall>f. sent_to f w' = sent_to f w @ (if f = fd then take k t else [])) \<and> n_datagrams w' = n_datagrams w \<and>
       (k < length t \<longrightarrow> oh_bCloseConnection h' \<or> fd \<in> set (n_closed w')) \<and>
       (\<not> Msg_IsKeepAlive m \<longrightarrow> oh_bCloseConnection h')) \<and>
    m_store (m_msgPool q') = (m_store (m_msgPool q))(a \<mapsto> Msg_SetMsgState m MSG_STATE_DELIVERED) \<and>
    queued q' = queued q \<and> touched rec q q'"
  using Outbound_HandleConnection_spec [OF assms(1-5), of now env rec w] assms(6) unfolding Let_def by blast

lemma outbound_delivers_witness:
  "\<exists>h' q' w'. Outbound_HandleConnection demo_env demo_os (Some 5) 0
       (new_cConnectionHandlerOutbound, demo_line demo_out [0], demo_net) = Some (Inr (None, h', q', w')) \<and>
     n_datagrams w' = n_datagrams demo_net \<and> state_of (m_msgPool q') 0 = Some MSG_STATE_DELIVERED"
proof -
  have m: "m_store (m_msgPool (demo_line demo_out [0])) 0 = Some demo_out" by simp
  have i: "metrics_inv 0 (m_pSysMetrics (demo_line demo_out [0]))" using demo_metrics_inv by simp
  from outbound_delivers [OF m demo_out_sendable new_out_wf demo_os i, of demo_env "Some 5" demo_net]
  show ?thesis unfolding Let_def by (auto simp: state_of_def Msg_SetMsgState_def)
qed

text \<open>
  \<open>TCPSend\<close> has no limit for its attempts: while the system asks to try again it never returns,
  and with it the thread that serves every connection.
\<close>

theorem send_never_returns:
  assumes "\<And>n b. os_send os n fd b = SendAgain" "s \<noteq> []"
  shows "TCPSend env os rec keep fd (map Some s @ rest) (int (length s)) h q w = None"
  using send_text_never [OF assms(1), of 0 s rest w] assms(2) by (simp add: TCPSend_def send_text_def)

lemma send_never_returns_witness:
  "TCPSend demo_env (demo_os\<lparr>os_send := \<lambda>n fd b. SendAgain\<rparr>) None True 5 (map Some ''PING'' @ []) 4
     new_cConnectionHandlerOutbound (demo_line demo_out [0]) demo_net = None"
  using send_never_returns [of "demo_os\<lparr>os_send := \<lambda>n fd b. SendAgain\<rparr>" 5 "''PING''" demo_env None True "[]"] by simp


lemma demo_os_takes: "\<not> refused demo_os fd t k w w'"
  by (simp add: refused_def demo_os_def)


text \<open>
  A message of any other connection type on top of the outbound queue ends the thread: the exception that
  it causes leaves the loop, its handler throws the text that it logs, and nothing catches that.
\<close>

theorem outbound_uncaught:
  assumes "outbound_queue (ct_queue t) \<noteq> []"
    and "m_store (m_msgPool (ct_queue t)) (pq_top (prio_in (m_msgPool (ct_queue t))) (outbound_queue (ct_queue t))) = Some m"
    and "Msg_GetConnectionType m \<noteq> MSG_CT_OB_TCP" "Msg_GetConnectionType m \<noteq> MSG_CT_OB_UDP"
    and "Msg_GetProtocolType m \<notin> {MSG_PROTOCOL_HTTP_GET, MSG_PROTOCOL_HTTP_POST, MSG_PROTOCOL_HTTP_MCP}"
    and "response_fits os m" "payload_is (ct_queue t) m xs" "address_ok (Msg_GetTo m)" "out_wf (m_OutHandler t)"
  shows "ProcessOutboundTasks env os t =
    Some (Inl (Thrown ''Exception in cConnectionQueue::ProcessOutboundTasks()''))"
  by (rule outbound_throws [OF assms(1) refl assms(2-9)])

lemma outbound_uncaught_witness:
  "ProcessOutboundTasks demo_env demo_os
       \<lparr>m_InHandler = demo_in, m_OutHandler = new_cConnectionHandlerOutbound,
        ct_queue = demo_line (demo_out\<lparr>MsgConnectionType := MSG_CT_INTERNAL\<rparr>) [0], ct_net = demo_net\<rparr> =
     Some (Inl (Thrown ''Exception in cConnectionQueue::ProcessOutboundTasks()''))"
proof -
  let ?m = "demo_out\<lparr>MsgConnectionType := MSG_CT_INTERNAL\<rparr>"
  let ?t = "\<lparr>m_InHandler = demo_in, m_OutHandler = new_cConnectionHandlerOutbound, ct_queue = demo_line ?m [0], ct_net = demo_net\<rparr>"
  have f: "response_fits demo_os ?m" "address_ok (Msg_GetTo ?m)" "Msg_GetContentLength ?m = 0"
    "Msg_GetConnectionType ?m = MSG_CT_INTERNAL" "Msg_GetProtocolType ?m = MSG_PROTOCOL_UNKNOWN" by code_simp+
  have "payload_is (ct_queue ?t) ?m []" using f(3) by (simp add: payload_is_def)
  from outbound_uncaught [of ?t ?m demo_os "[]" demo_env, OF _ _ _ _ _ f(1) this f(2)] new_out_wf f(4,5)
  show ?thesis by (auto simp: pq_top_def)
qed

section \<open>From one server to another\<close>

text \<open>
  C17: a request of fewer than \<open>2 ^ 31\<close> bytes crosses the network whole: whatever pieces the text that the outbound handler
  builds for it arrives in, the inbound handler of the peer waits for the last one, makes exactly one
  message that carries all of the text, keeps the connection open and leaves no byte behind.
\<close>

theorem request_crosses:
  assumes "clean_request m" "Msg_GetContentLength m = int (length xs)"
    and "Msg_GetFormat m \<noteq> MSG_FORMAT_RES" "Msg_GetFormat m \<noteq> MSG_FORMAT_NOTIFY"
    and "mq_inv q" "bufs_ok (m_msgPool q)" "holds (cr_buffer (con_get q s)) []"
    and "concat ds @ d = msg_text os m xs" "d \<noteq> []" "int (length (msg_text os m xs)) < 2 ^ 31"
  shows "\<exists>h' q'. receive env (ds @ [d]) q s h = Inr (h', q') \<and> \<not> m_bCloseConnection h' \<and>
    made q s MSG_PROTOCOL_MCP (msg_text os m xs) [] q'"
proof -
  have t: "msg_text os m xs = mcp_request_header m @ xs" using assms(3,4) by (simp add: msg_text_def response_text_def)
  show ?thesis
    unfolding t by (rule request_received [OF assms(1,2) assms(10) [unfolded t] assms(5-7) assms(8) [unfolded t] assms(9)])
qed

lemma request_crosses_witness:
  "\<exists>h' q'. receive demo_env (map (\<lambda>c. [c]) (butlast (msg_text demo_os demo_out [])) @ [[last (msg_text demo_os demo_out [])]])
       (demo_line (demo_msg MSG_STATE_INACTIVE MSG_CT_NOTSET) []) 5 demo_in = Inr (h', q') \<and>
     \<not> m_bCloseConnection h' \<and> holds (cr_buffer (con_get q' 5)) []"
proof -
  let ?q = "demo_line (demo_msg MSG_STATE_INACTIVE MSG_CT_NOTSET) []"
  let ?t = "msg_text demo_os demo_out []"
  have b: "bufs_ok (m_msgPool ?q)" "holds (cr_buffer (con_get ?q 5)) []"
    using demo_bufs(1) demo_buffer_empty by simp_all
  have ne: "?t \<noteq> []" by (simp add: msg_text_def response_text_def demo_out_simps mcp_request_header_def)
  have "concat (map (\<lambda>c. [c]) l) = l" for l :: string by (induction l) simp_all
  then have c: "concat (map (\<lambda>c. [c]) (butlast ?t)) @ [last ?t] = ?t" using ne by simp
  have m: "Msg_GetContentLength demo_out = int (length ([] :: string))" "Msg_GetFormat demo_out \<noteq> MSG_FORMAT_RES"
    "Msg_GetFormat demo_out \<noteq> MSG_FORMAT_NOTIFY" by (simp_all add: demo_out_simps)
  have "int (length ?t) < 2 ^ 31" by code_simp
  from request_crosses [where env = demo_env and h = demo_in, OF demo_out(2) m demo_line_inv b c _ this] show ?thesis
    by (auto simp: made_def)
qed

text \<open>
  the parser of the peer reads back what the sender wrote: the command, the addresses, the type and
  the length of the payload; the identity, unless it was empty or \<open>0\<close> and is replaced; whether to keep
  the connection; and the payload starts where the text of the header ends.
\<close>

theorem request_read_back:
  assumes "clean_request m" "Msg_GetContentLength m = int (length xs)"
    and "holds (MsgBuffer m0) (mcp_request_header m @ xs)" "terminated (MsgBuffer m0)" "buf_wf (MsgRawBuffer m0)"
  shows "\<exists>m'. Msg_Parse this newid ct ms m0 = Inr m' \<and>
    MsgCommand m' = Msg_GetCommand m \<and>
    MsgID m' = (if Msg_GetMsgID m = [] \<or> Msg_GetMsgID m = ''0'' then newid else Msg_GetMsgID m) \<and>
    MsgTo m' = parse_tag (Msg_GetTo m) \<and> MsgFrom m' = parse_tag (Msg_GetFrom m) \<and>
    MsgContentLength m' = int (length xs) \<and>
    (xs \<noteq> [] \<longrightarrow> MsgContentType m' = Msg_GetContentType m \<and>
       m_pPayload m' = Some (MsgPtr this (int (length (mcp_request_header m))))) \<and>
    (m_bKeepAlive m' \<longleftrightarrow> m_bKeepAlive m0 \<and> Msg_IsKeepAlive m) \<and>
    holds (MsgBuffer m') (mcp_request_header m @ xs)"
  by (rule request_members [OF assms])

lemma request_read_back_witness:
  "\<exists>m'. Msg_Parse 0 ''9'' MSG_CT_IB_TCP MSG_FORMAT_REQ
       ((new_cMsg ''7'' 90)\<lparr>MsgBuffer := demo_buffer (mcp_request_header demo_out @ [])\<rparr>) = Inr m' \<and>
     MsgCommand m' = ''PING'' \<and> MsgID m' = ''7''"
proof -
  let ?m = "(new_cMsg ''7'' 90)\<lparr>MsgBuffer := demo_buffer (mcp_request_header demo_out @ [])\<rparr>"
  have b: "holds (MsgBuffer ?m) (mcp_request_header demo_out @ [])" "terminated (MsgBuffer ?m)" "buf_wf (MsgRawBuffer ?m)"
    using demo_buffer_holds [of "mcp_request_header demo_out @ []"]
      demo_buffer_terminated [of "mcp_request_header demo_out @ []"] by (simp_all add: new_bufs)
  have l: "Msg_GetContentLength demo_out = int (length ([] :: string))" by (simp add: demo_out_simps)
  have v: "Msg_GetCommand demo_out = ''PING''" "Msg_GetMsgID demo_out = ''7''" by code_simp+
  from request_read_back [OF demo_out(2) l b, of 0 "''9''" MSG_CT_IB_TCP MSG_FORMAT_REQ] v show ?thesis by auto
qed

end
