(* ===== verification/IPAccess.thy ===== *)
theory IPAccess
  imports DecimalText
begin

text \<open>
  \<open>ipaccess.h\<close> and \<open>ipaccess.cpp\<close>: the class \<open>cIPAccess\<close>, the list of rules that says which
  addresses may connect. A rule is a sign and four octets, \<open>+192.168.0.*\<close>; the first rule whose
  octets fit decides.

  The address is parsed in a local array of 18 bytes whose last two are never written, with
  \<open>strtok\<close> on that array; reading an unwritten byte and comparing a token that is not there are
  faults of the model. What a failed parse has written into the entry is never read.
\<close>

section \<open>State\<close>

datatype access_type = INCLUSION | EXCLUSION

record cIPAccessEntry =
  ae_type :: access_type
  octant :: "int list"

type_synonym cIPAccess = "cIPAccessEntry list"

definition HRC_IPACCESS_OK :: int where "HRC_IPACCESS_OK = 0"
definition HRC_IPACCESS_IPPARSE_FAILED :: int where "HRC_IPACCESS_IPPARSE_FAILED = 3"
definition HRC_IPACCESS_DENY :: int where "HRC_IPACCESS_DENY = 4"

lemmas access_codes = HRC_IPACCESS_OK_def HRC_IPACCESS_IPPARSE_FAILED_def HRC_IPACCESS_DENY_def

definition Access_Flush :: "cIPAccess \<Rightarrow> cIPAccess" where
  "Access_Flush m_rulelist = []"

section \<open>Parsing an address\<close>

text \<open>\<open>strtok\<close> on memory: the token, when there is one, and what the next call goes on with.\<close>

fun span_cells :: "(char \<Rightarrow> bool) \<Rightarrow> block \<Rightarrow> (string \<times> block) result" where
  "span_cells P [] = Inl OutOfBounds"
| "span_cells P (None # r) = Inl Indeterminate"
| "span_cells P (Some c # r) =
     (if c \<noteq> NUL \<and> P c then rbind (span_cells P r) (\<lambda>(t, r'). Inr (c # t, r')) else Inr ([], Some c # r))"

definition strtok_cells :: "string \<Rightarrow> block \<Rightarrow> (string option \<times> block) result" where
  "strtok_cells seps blk =
     rbind (span_cells (\<lambda>c. c \<in> set seps) blk) (\<lambda>(_, r).
       if hd r = Some NUL then Inr (None, r)
       else rbind (span_cells (\<lambda>c. c \<notin> set seps) r) (\<lambda>(t, r).
         Inr (Some t, if hd r = Some NUL then r else tl r)))"

text \<open>One of the four octets: \<open>None\<close> when the value is too large.\<close>

definition parse_octant :: "block \<Rightarrow> (int option \<times> block) result" where
  "parse_octant blk =
     rbind (strtok_cells ''.'' blk) (\<lambda>(pToken, blk).
       case pToken of
         None \<Rightarrow> Inl NullPointer
       | Some t \<Rightarrow>
           let octval = (if t = ''*'' then -1 else atoi t)
           in Inr (if octval > 255 then None else Some octval, blk))"

fun parse_octants :: "nat \<Rightarrow> block \<Rightarrow> int list option result" where
  "parse_octants 0 blk = Inr (Some [])"
| "parse_octants (Suc n) blk =
     rbind (parse_octant blk) (\<lambda>(octval, blk).
       case octval of
         None \<Rightarrow> Inr None
       | Some v \<Rightarrow> rbind (parse_octants n blk) (\<lambda>vs. Inr (map_option ((#) v) vs)))"

text \<open>\<open>strncpy(IP, &pLine[1], 16)\<close> into the array of 18 bytes: at most 16 characters, padded with NUL.\<close>

definition ip_cells :: "string \<Rightarrow> block" where
  "ip_cells addr = (let t = take 16 (cstr addr)
                    in map Some t @ replicate (16 - length t) (Some NUL) @ [None, None])"

definition ParseIP :: "string \<Rightarrow> cIPAccessEntry option result" where
  "ParseIP pLine =
     (let ty = (if starts_with ''+'' pLine then INCLUSION else EXCLUSION)
      in rbind (parse_octants 4 (ip_cells (tl pLine))) (\<lambda>octs.
           Inr (map_option (\<lambda>v. \<lparr>ae_type = ty, octant = v\<rparr>) octs)))"

section \<open>Rules\<close>

text \<open>\<open>strcpy\<close> into the local array of 255 bytes, then the sign is tested.\<close>

definition Access_Add :: "cIPAccess \<Rightarrow> string \<Rightarrow> (int \<times> cIPAccess) result" where
  "Access_Add m_rulelist pIPAddr =
     (let oneline = cstr pIPAddr
      in if length oneline \<ge> 255 then Inl OutOfBounds
         else if \<not> starts_with ''+'' oneline \<and> \<not> starts_with ''-'' oneline
              then Inr (HRC_IPACCESS_IPPARSE_FAILED, m_rulelist)
         else rbind (ParseIP oneline) (\<lambda>pEntry.
           case pEntry of
             None \<Rightarrow> Inr (HRC_IPACCESS_IPPARSE_FAILED, m_rulelist)
           | Some e \<Rightarrow> Inr (HRC_IPACCESS_OK, m_rulelist @ [e])))"

definition octants_fit :: "int list \<Rightarrow> int list \<Rightarrow> bool" where
  "octants_fit rule addr = list_all2 (\<lambda>r a. r = -1 \<or> r = a) rule addr"

fun access_loop :: "cIPAccess \<Rightarrow> cIPAccessEntry \<Rightarrow> int" where
  "access_loop [] e = HRC_IPACCESS_DENY"
| "access_loop (pRuleEntry # rest) e =
     (if \<not> octants_fit (octant pRuleEntry) (octant e) then access_loop rest e
      else if ae_type pRuleEntry = INCLUSION then HRC_IPACCESS_OK else HRC_IPACCESS_DENY)"

text \<open>\<open>strncpy(&buf[1], pIPAddr, 98)\<close> keeps more than \<open>ParseIP\<close> looks at.\<close>

definition Access_Validate :: "cIPAccess \<Rightarrow> string \<Rightarrow> int result" where
  "Access_Validate m_rulelist pIPAddr =
     rbind (ParseIP (CHR ''+'' # take 98 (cstr pIPAddr))) (\<lambda>Entry.
       case Entry of
         None \<Rightarrow> Inr HRC_IPACCESS_IPPARSE_FAILED
       | Some e \<Rightarrow> Inr (access_loop m_rulelist e))"

section \<open>Addresses and rules in text form\<close>

fun dotted :: "string list \<Rightarrow> string" where
  "dotted [] = []"
| "dotted [t] = t"
| "dotted (t # u # ts) = t @ CHR ''.'' # dotted (u # ts)"

definition octant_text :: "int \<Rightarrow> string" where
  "octant_text v = (if v = -1 then ''*'' else int_text v)"

definition rule_text :: "access_type \<Rightarrow> int list \<Rightarrow> string" where
  "rule_text ty v = (if ty = INCLUSION then CHR ''+'' else CHR ''-'') # dotted (map octant_text v)"

definition plain_octant :: "string \<Rightarrow> bool" where
  "plain_octant t \<longleftrightarrow> t \<noteq> [] \<and> CHR ''.'' \<notin> set t \<and> NUL \<notin> set t"

definition octant_value :: "string \<Rightarrow> int" where
  "octant_value t = (if t = ''*'' then -1 else atoi t)"

lemma span_cells_stop:
  assumes "\<forall>c \<in> set t. c \<noteq> NUL \<and> P c" "d = NUL \<or> \<not> P d"
  shows "span_cells P (map Some t @ Some d # r) = Inr (t, Some d # r)"
  using assms by (induction t) auto

lemma strtok_cells_token:
  assumes "plain_octant t" "d = NUL \<or> d = CHR ''.''"
  shows "strtok_cells ''.'' (map Some t @ Some d # r) = Inr (Some t, if d = NUL then Some d # r else r)"
proof -
  obtain c cs where c: "t = c # cs" using assms(1) by (cases t) (auto simp: plain_octant_def)
  have "c \<noteq> NUL" "c \<noteq> CHR ''.''" using assms(1) c by (auto simp: plain_octant_def)
  then have 1: "span_cells (\<lambda>c. c \<in> set ''.'') (map Some t @ Some d # r) = Inr ([], map Some t @ Some d # r)"
    using c by simp
  have 2: "span_cells (\<lambda>c. c \<notin> set ''.'') (map Some t @ Some d # r) = Inr (t, Some d # r)"
    by (rule span_cells_stop) (use assms in \<open>auto simp: plain_octant_def\<close>)
  have "hd (map Some t @ Some d # r) \<noteq> Some NUL" using c \<open>c \<noteq> NUL\<close> by simp
  with 1 2 assms(2) show ?thesis unfolding strtok_cells_def by auto
qed

lemma parse_octants_dotted:
  assumes "\<forall>t \<in> set ts. plain_octant t \<and> octant_value t \<le> 255"
  shows "parse_octants (length ts) (map Some (dotted ts) @ Some NUL # r) = Inr (Some (map octant_value ts))"
  using assms
proof (induction ts rule: dotted.induct)
  case (2 t)
  then show ?case by (simp add: parse_octant_def strtok_cells_token octant_value_def Let_def)
next
  case (3 t u ts)
  have "strtok_cells ''.'' (map Some (dotted (t # u # ts)) @ Some NUL # r) =
      Inr (Some t, map Some (dotted (u # ts)) @ Some NUL # r)"
    using strtok_cells_token [of t "CHR ''.''" "map Some (dotted (u # ts)) @ Some NUL # r"] 3(2) by simp
  then have "parse_octant (map Some (dotted (t # u # ts)) @ Some NUL # r) =
      Inr (Some (octant_value t), map Some (dotted (u # ts)) @ Some NUL # r)"
    using 3(2) by (simp add: parse_octant_def octant_value_def Let_def del: dotted.simps)
  then show ?case using 3 by (simp del: dotted.simps)
qed simp

definition octant_ok :: "int \<Rightarrow> bool" where
  "octant_ok v \<longleftrightarrow> -1 \<le> v \<and> v \<le> 255"

lemma nat_digits_short: "n < 1000 \<Longrightarrow> length (nat_digits n) \<le> 3"
proof -
  have 1: "n < 10 \<Longrightarrow> length (nat_digits n) = 1" for n by (simp add: nat_digits.simps [of n])
  have step: "\<not> n < 10 \<Longrightarrow> length (nat_digits n) = Suc (length (nat_digits (n div 10)))" for n
    by (simp add: nat_digits.simps [of n])
  have 2: "length (nat_digits n) \<le> 2" if "n < 100" for n
    using 1 [of n] 1 [of "n div 10"] step [of n] that by (cases "n < 10") auto
  show "length (nat_digits n) \<le> 3" if "n < 1000" for n
    using 1 [of n] 2 [of "n div 10"] step [of n] that by (cases "n < 10") auto
qed

lemma octant_text_ok:
  assumes "octant_ok v"
  shows "plain_octant (octant_text v)" "octant_value (octant_text v) = v" "length (octant_text v) \<le> 3"
proof -
  have dot: "CHR ''.'' \<notin> set (nat_digits n)" for n
  proof
    assume "CHR ''.'' \<in> set (nat_digits n)"
    then obtain k :: nat where k: "k < 10" "CHR ''.'' = char_of (48 + k)" using nat_digits_chars by blast
    then have "of_char (CHR ''.'') = 48 + k" using digit_of by metis
    then show False by simp
  qed
  have star: "nat_digits n \<noteq> ''*''" for n
  proof
    assume "nat_digits n = ''*''"
    then obtain k :: nat where k: "k < 10" "CHR ''*'' = char_of (48 + k)" using nat_digits_first [of n] by auto
    then have "of_char (CHR ''*'') = 48 + k" using digit_of by metis
    then show False by simp
  qed
  have v: "v = -1 \<or> 0 \<le> v" "v < 1000" using assms by (auto simp: octant_ok_def)
  show "plain_octant (octant_text v)"
    using v dot nat_digits_clean(2) nat_digits_no_NUL by (auto simp: plain_octant_def octant_text_def int_text_def)
  show "octant_value (octant_text v) = v"
    using v(1) star atoi_int_text by (auto simp: octant_value_def octant_text_def int_text_def)
  show "length (octant_text v) \<le> 3"
    using v nat_digits_short by (auto simp: octant_text_def int_text_def)
qed

lemma dotted_quad:
  assumes "length v = 4" "\<forall>x \<in> set v. octant_ok x"
  shows "length (dotted (map octant_text v)) \<le> 15" "NUL \<notin> set (dotted (map octant_text v))"
proof -
  let ?t = "dotted (map octant_text v)"
  obtain a b d e where v: "v = [a, b, d, e]"
    using assms(1) by (auto simp: length_Suc_conv numeral_eq_Suc)
  have ok: "octant_ok a" "octant_ok b" "octant_ok d" "octant_ok e" using assms(2) v by simp_all
  show "length ?t \<le> 15"
    using octant_text_ok(3) [OF ok(1)] octant_text_ok(3) [OF ok(2)] octant_text_ok(3) [OF ok(3)]
      octant_text_ok(3) [OF ok(4)] by (simp add: v)
  show "NUL \<notin> set ?t"
    using octant_text_ok(1) [OF ok(1)] octant_text_ok(1) [OF ok(2)] octant_text_ok(1) [OF ok(3)]
      octant_text_ok(1) [OF ok(4)] by (simp add: v plain_octant_def)
qed

lemma ParseIP_dotted:
  assumes "length v = 4" "\<forall>x \<in> set v. octant_ok x"
  shows "ParseIP (c # dotted (map octant_text v)) =
    Inr (Some \<lparr>ae_type = (if c = CHR ''+'' then INCLUSION else EXCLUSION), octant = v\<rparr>)"
proof -
  let ?t = "dotted (map octant_text v)"
  note len = dotted_quad(1) [OF assms]
  have "NUL \<notin> set ?t" by (rule dotted_quad(2) [OF assms])
  moreover have "replicate (16 - length ?t) (Some NUL) = Some NUL # replicate (15 - length ?t) (Some NUL)"
    using len by (simp add: Suc_diff_le flip: replicate_Suc)
  ultimately have cells: "ip_cells ?t = map Some ?t @ Some NUL # (replicate (15 - length ?t) (Some NUL) @ [None, None])"
    using len by (simp add: ip_cells_def Let_def cstr_id)
  have "parse_octants 4 (ip_cells ?t) = Inr (Some v)"
  proof -
    have "\<forall>t \<in> set (map octant_text v). plain_octant t \<and> octant_value t \<le> 255"
      using octant_text_ok(1,2) assms(2) by (auto simp: octant_ok_def)
    from parse_octants_dotted [OF this] have "parse_octants 4 (map Some ?t @ Some NUL # r) =
        Inr (Some (map octant_value (map octant_text v)))" for r using assms(1) by simp
    moreover have "map octant_value (map octant_text v) = v"
      using octant_text_ok(2) assms(2) by (simp add: map_idI)
    ultimately show ?thesis unfolding cells by simp
  qed
  then show ?thesis by (simp add: ParseIP_def)
qed

lemma Add_rule:
  assumes "length v = 4" "\<forall>x \<in> set v. octant_ok x"
  shows "Access_Add l (rule_text ty v) = Inr (HRC_IPACCESS_OK, l @ [\<lparr>ae_type = ty, octant = v\<rparr>])"
  using dotted_quad [OF assms] ParseIP_dotted [OF assms]
  by (cases ty) (simp_all add: Access_Add_def rule_text_def cstr_id Let_def)

section \<open>The decision\<close>

text \<open>What a list of rules means: the first whose octets fit decides, and without one access is denied.\<close>

definition admitted :: "(access_type \<times> int list) list \<Rightarrow> int list \<Rightarrow> bool" where
  "admitted rules addr \<longleftrightarrow>
     (case find (\<lambda>(ty, v). octants_fit v addr) rules of Some (INCLUSION, v) \<Rightarrow> True | _ \<Rightarrow> False)"

definition rule_list :: "(access_type \<times> int list) list \<Rightarrow> cIPAccess" where
  "rule_list rules = map (\<lambda>(ty, v). \<lparr>ae_type = ty, octant = v\<rparr>) rules"

lemma access_loop_admitted:
  "access_loop (rule_list rules) \<lparr>ae_type = t, octant = addr\<rparr> =
     (if admitted rules addr then HRC_IPACCESS_OK else HRC_IPACCESS_DENY)"
  by (induction rules) (auto simp: rule_list_def admitted_def split: access_type.splits)

lemma Validate_admitted:
  assumes "length addr = 4" "\<forall>x \<in> set addr. octant_ok x"
  shows "Access_Validate (rule_list rules) (dotted (map octant_text addr)) =
    Inr (if admitted rules addr then HRC_IPACCESS_OK else HRC_IPACCESS_DENY)"
  using dotted_quad [OF assms] ParseIP_dotted [OF assms, of "CHR ''+''"] access_loop_admitted
  by (simp add: Access_Validate_def cstr_id)

text \<open>Rules added one after the other.\<close>

fun add_rules :: "(access_type \<times> int list) list \<Rightarrow> cIPAccess \<Rightarrow> cIPAccess result" where
  "add_rules [] l = Inr l"
| "add_rules ((ty, v) # rs) l = rbind (Access_Add l (rule_text ty v)) (\<lambda>(rc, l). add_rules rs l)"

lemma add_rules_list:
  "\<forall>(ty, v) \<in> set rules. length v = 4 \<and> (\<forall>x \<in> set v. octant_ok x) \<Longrightarrow>
     add_rules rules l = Inr (l @ rule_list rules)"
  by (induction rules arbitrary: l) (auto simp: rule_list_def Add_rule)

text \<open>The octets of a peer's address.\<close>

definition octants_of :: "32 word \<Rightarrow> int list" where
  "octants_of w = [uint (drop_bit 24 w), uint (take_bit 8 (drop_bit 16 w)),
                   uint (take_bit 8 (drop_bit 8 w)), uint (take_bit 8 w)]"

lemma take_bit_8_less: "uint (take_bit 8 w) < 256" for w :: "32 word"
  using take_bit_int_less_exp [of 8 "uint w"] by (simp add: unsigned_take_bit_eq)

lemma octant_ok_uint: "uint x < 256 \<Longrightarrow> octant_ok (uint x)" for x :: "32 word"
  using uint_ge_0 [of x] unfolding octant_ok_def by linarith

lemma drop_24_less: "uint (drop_bit 24 w) < 256" for w :: "32 word"
proof -
  have "uint w < 2 ^ 32" using unsigned_less [of w, where ?'a = int] by simp
  moreover have "uint (drop_bit 24 w) = uint w div 2 ^ 24"
    by (simp only: unsigned_drop_bit_eq drop_bit_eq_div uint_div_distrib) simp
  ultimately show ?thesis by simp
qed

lemma octants_of_ok: "length (octants_of w) = 4" "\<forall>x \<in> set (octants_of w). octant_ok x"
proof -
  show "length (octants_of w) = 4" by (simp add: octants_of_def)
  show "\<forall>x \<in> set (octants_of w). octant_ok x"
    using octant_ok_uint [OF drop_24_less] octant_ok_uint [OF take_bit_8_less]
    unfolding octants_of_def by (simp only: list.set insert_iff empty_iff ball_simps simp_thms)
qed

lemma inet_ntoa_octants: "inet_ntoa w = dotted (map octant_text (octants_of w))"
proof -
  have n: "octant_text (uint x) = nat_digits (unat x)" for x :: "32 word"
  proof -
    have "0 \<le> uint x" by simp
    then have "uint x \<noteq> -1" "\<not> uint x < 0" by linarith+
    then have "octant_text (uint x) = nat_digits (nat (uint x))"
      by (simp only: octant_text_def int_text_def if_False)
    then show ?thesis by (simp only: nat_uint_eq)
  qed
  show ?thesis by (simp only: inet_ntoa_def octants_of_def list.map n dotted.simps append.simps append_assoc)
qed

end
