(* ===== verification/Threads.thy ===== *)
theory Threads
  imports Prelude
begin

section \<open>Locks\<close>

text \<open>
  \<open>threadsync.h\<close> and \<open>threadsync.cpp\<close>: the lock \<open>cThreadSync\<close> and the two guards that hold it for a
  block of code, on the platform with POSIX threads. A lock is the thread that holds it. A call that
  waits does not return in the present state (\<open>Blocks\<close>); unlocking a mutex that the caller does not
  hold is undefined (\<open>Undefined\<close>).
\<close>

definition HRC_THREAD_SYNC_OK :: int where "HRC_THREAD_SYNC_OK = 0"
definition HRC_THREAD_SYNC_BUSY :: int where "HRC_THREAD_SYNC_BUSY = 2"

record cThreadSync =
  m_lock :: "nat option"

definition new_cThreadSync :: cThreadSync where
  "new_cThreadSync = \<lparr>m_lock = None\<rparr>"

datatype lock_outcome = Returned int cThreadSync | Blocks | Undefined

text \<open>A thread that locks a mutex it holds waits for itself.\<close>

definition ThreadSync_Lock :: "nat \<Rightarrow> cThreadSync \<Rightarrow> lock_outcome" where
  "ThreadSync_Lock t s =
     (if m_lock s = None then Returned HRC_THREAD_SYNC_OK (s\<lparr>m_lock := Some t\<rparr>) else Blocks)"

definition ThreadSync_TryLock :: "nat \<Rightarrow> cThreadSync \<Rightarrow> int \<times> cThreadSync" where
  "ThreadSync_TryLock t s =
     (if m_lock s = None then (HRC_THREAD_SYNC_OK, s\<lparr>m_lock := Some t\<rparr>)
      else (HRC_THREAD_SYNC_BUSY, s))"

definition ThreadSync_Unlock :: "nat \<Rightarrow> cThreadSync \<Rightarrow> lock_outcome" where
  "ThreadSync_Unlock t s =
     (if m_lock s = Some t then Returned HRC_THREAD_SYNC_OK (s\<lparr>m_lock := None\<rparr>) else Undefined)"

text \<open>The guard \<open>cAutoThreadSync\<close>: its constructor and its destructor.\<close>

definition AutoThreadSync_enter :: "nat \<Rightarrow> cThreadSync \<Rightarrow> lock_outcome" where
  "AutoThreadSync_enter t s = ThreadSync_Lock t s"

definition AutoThreadSync_leave :: "nat \<Rightarrow> cThreadSync \<Rightarrow> lock_outcome" where
  "AutoThreadSync_leave t s = ThreadSync_Unlock t s"

text \<open>
  The guard \<open>cAutoTimedThreadSync\<close> tries ten times. \<open>others n\<close> is what the other threads do to the lock
  before the attempt that leaves \<open>n\<close> more.
\<close>

fun timed_loop :: "(nat \<Rightarrow> cThreadSync \<Rightarrow> cThreadSync) \<Rightarrow> nat \<Rightarrow> nat \<Rightarrow> cThreadSync \<Rightarrow> int \<times> cThreadSync" where
  "timed_loop others t 0 s = (HRC_THREAD_SYNC_BUSY, s)"
| "timed_loop others t (Suc spin) s =
     (let (rc, s) = ThreadSync_TryLock t (others spin s)
      in if rc \<noteq> HRC_THREAD_SYNC_BUSY then (HRC_THREAD_SYNC_OK, s) else timed_loop others t spin s)"

definition AutoTimedThreadSync_enter ::
  "(nat \<Rightarrow> cThreadSync \<Rightarrow> cThreadSync) \<Rightarrow> nat \<Rightarrow> cThreadSync \<Rightarrow> int \<times> cThreadSync" where
  "AutoTimedThreadSync_enter others t s = timed_loop others t 10 s"

definition AutoTimedThreadSync_leave :: "nat \<Rightarrow> cThreadSync \<Rightarrow> lock_outcome" where
  "AutoTimedThreadSync_leave t s = ThreadSync_Unlock t s"

lemmas sync_defs = ThreadSync_Lock_def ThreadSync_TryLock_def ThreadSync_Unlock_def
  AutoThreadSync_enter_def AutoThreadSync_leave_def AutoTimedThreadSync_enter_def
  AutoTimedThreadSync_leave_def HRC_THREAD_SYNC_OK_def HRC_THREAD_SYNC_BUSY_def

section \<open>Mutual exclusion\<close>

text \<open>
  The threads that are inside a block guarded by one lock. A thread that enters by the plain guard
  waits outside until it gets the lock.
\<close>

inductive guarded :: "cThreadSync \<Rightarrow> nat set \<Rightarrow> bool" where
  start: "guarded new_cThreadSync {}"
| enter: "guarded s T \<Longrightarrow> AutoThreadSync_enter t s = Returned rc s' \<Longrightarrow> guarded s' (insert t T)"
| try_in: "guarded s T \<Longrightarrow> ThreadSync_TryLock t s = (rc, s') \<Longrightarrow> rc = HRC_THREAD_SYNC_OK \<Longrightarrow>
    guarded s' (insert t T)"
| leave: "guarded s T \<Longrightarrow> t \<in> T \<Longrightarrow> AutoThreadSync_leave t s = Returned rc s' \<Longrightarrow> guarded s' (T - {t})"

lemma guarded_holder: "guarded s T \<Longrightarrow> T = set_option (m_lock s)"
  by (induction rule: guarded.induct) (auto simp: sync_defs new_cThreadSync_def split: if_splits)

lemma guarded_alone: "guarded s T \<Longrightarrow> t \<in> T \<Longrightarrow> u \<in> T \<Longrightarrow> t = u"
  by (drule guarded_holder) (auto simp: elem_set)

lemma guarded_leaves: "guarded s T \<Longrightarrow> t \<in> T \<Longrightarrow> \<exists>s'. AutoThreadSync_leave t s = Returned 0 s'"
  by (drule guarded_holder) (auto simp: sync_defs elem_set)

section \<open>The timed guard\<close>

lemma timed_loop_result:
  "timed_loop others t n s = (rc, s') \<Longrightarrow> rc = HRC_THREAD_SYNC_OK \<and> m_lock s' = Some t \<or> rc = HRC_THREAD_SYNC_BUSY"
  by (induction n arbitrary: s) (auto simp: sync_defs Let_def split: if_splits prod.splits)

lemma timed_loop_held:
  "m_lock s = Some u \<Longrightarrow> timed_loop (\<lambda>_ s. s) t n s = (HRC_THREAD_SYNC_BUSY, s)"
  by (induction n) (simp_all add: sync_defs)

text \<open>The destructor of the timed guard unlocks what the constructor may have failed to lock.\<close>

lemma timed_guard_unlocks_foreign:
  "m_lock s = Some u \<Longrightarrow> u \<noteq> t \<Longrightarrow>
     AutoTimedThreadSync_enter (\<lambda>_ s. s) t s = (HRC_THREAD_SYNC_BUSY, s) \<and>
     AutoTimedThreadSync_leave t s = Undefined"
  unfolding AutoTimedThreadSync_enter_def using timed_loop_held [of s u t 10] by (simp add: sync_defs)

section \<open>Threads\<close>

text \<open>
  \<open>thread.h\<close> and \<open>thread.cpp\<close>: the class \<open>cThread\<close> on the platform with POSIX threads. Its functions run
  in several threads at once without a lock around the fields, so each of them is modelled twice where
  it matters: as the function on the object that it is when nothing comes between its statements, and
  as the list of its statements, which a machine of one thread and any number of callers interleaves.

  \<open>Run\<close> is what all classes of the program make of it: a loop on \<open>ThreadRunning\<close> with work in its body.
\<close>

section \<open>The object\<close>

definition HRC_THREAD_OK :: int where "HRC_THREAD_OK = 0"
definition HRC_THREAD_CREATEFAILED :: int where "HRC_THREAD_CREATEFAILED = 1"
definition THREAD_ACTIVE :: int where "THREAD_ACTIVE = 1"
definition THREAD_INACTIVE :: int where "THREAD_INACTIVE = 0"

text \<open>The condition variable and the mutex, which \<open>Create\<close> makes and \<open>Shutdown\<close> destroys.\<close>

datatype sync_objects = NotMade | Made | Destroyed

record cThread =
  m_bActive :: int
  m_bDone :: int
  m_threadname :: block
  m_bSuspended :: bool
  m_iSleepInterval :: int
  m_ThreadHandle :: "int option"
  m_sync :: sync_objects

text \<open>The constructor writes the first byte of the name; the handle is left as the memory was.\<close>

definition new_cThread :: cThread where
  "new_cThread =
     \<lparr>m_bActive = 0, m_bDone = 0, m_threadname = Some NUL # replicate 79 None, m_bSuspended = True,
      m_iSleepInterval = 0, m_ThreadHandle = None, m_sync = NotMade\<rparr>"

text \<open>
  \<open>rc\<close> is what \<open>pthread_create\<close> returns and \<open>handle\<close> what it leaves in the handle, which is given to
  \<open>pthread_detach\<close> whether or not there is a thread.
\<close>

definition Thread_Create :: "int \<Rightarrow> int \<Rightarrow> cThread \<Rightarrow> int \<times> cThread" where
  "Thread_Create rc handle t =
     (let t = t\<lparr>m_bActive := 1, m_sync := Made, m_ThreadHandle := Some handle\<rparr>
      in if rc \<noteq> 0 then (HRC_THREAD_CREATEFAILED, t\<lparr>m_bActive := 0\<rparr>) else (HRC_THREAD_OK, t))"

definition Thread_Exit :: "cThread \<Rightarrow> cThread" where
  "Thread_Exit t = t\<lparr>m_bDone := 1\<rparr>"

definition Thread_Resume :: "cThread \<Rightarrow> cThread" where
  "Thread_Resume t = t\<lparr>m_bSuspended := False\<rparr>"

definition Thread_Start :: "cThread \<Rightarrow> cThread" where
  "Thread_Start t = Thread_Resume t"

definition Thread_Stop :: "cThread \<Rightarrow> cThread" where
  "Thread_Stop t =
     (let t = t\<lparr>m_bActive := THREAD_INACTIVE\<rparr> in if m_bSuspended t then Thread_Resume t else t)"

definition Thread_Suspend :: "cThread \<Rightarrow> cThread" where
  "Thread_Suspend t = t\<lparr>m_bSuspended := True\<rparr>"

definition Thread_IsSuspended :: "cThread \<Rightarrow> bool" where
  "Thread_IsSuspended t = m_bSuspended t"

definition Thread_Sleep :: "int \<Rightarrow> cThread \<Rightarrow> cThread" where
  "Thread_Sleep iMilliseconds t = t\<lparr>m_iSleepInterval := iMilliseconds\<rparr>"

definition Thread_IsActive :: "cThread \<Rightarrow> bool" where
  "Thread_IsActive t = (m_bActive t = THREAD_ACTIVE)"

definition Thread_Shutdown :: "cThread \<Rightarrow> int \<times> cThread" where
  "Thread_Shutdown t = (HRC_THREAD_OK, t\<lparr>m_sync := Destroyed, m_ThreadHandle := Some 0\<rparr>)"

text \<open>
  \<open>Destroy\<close> stops the thread and destroys its objects. \<open>Stop\<close> has cleared \<open>m_bActive\<close> by then, so the
  loop that waits for the end of the thread is not entered. Objects that \<open>Create\<close> has not made, or
  that are destroyed already, are used in an undefined way.
\<close>

definition Thread_Destroy :: "cThread \<Rightarrow> (int \<times> cThread) result" where
  "Thread_Destroy t = (if m_sync t \<noteq> Made then Inl Indeterminate else Inr (Thread_Shutdown (Thread_Stop t)))"

text \<open>\<open>strncpy\<close>: at most \<open>n\<close> characters, and NULs up to \<open>n\<close> when the text is shorter.\<close>

definition strncpy :: "block \<Rightarrow> string \<Rightarrow> nat \<Rightarrow> block result" where
  "strncpy dst src n =
     (let s = take n (cstr src) in mem_store dst 0 (map Some (s @ replicate (n - length s) NUL)))"

definition SetThreadName :: "string \<Rightarrow> cThread \<Rightarrow> cThread result" where
  "SetThreadName pName t =
     rbind (strncpy (m_threadname t) pName 80) (\<lambda>b. Inr (t\<lparr>m_threadname := b\<rparr>))"

text \<open>The thread of a class that names it in its constructor.\<close>

definition named_thread :: "string \<Rightarrow> cThread" where
  "named_thread pName = (case SetThreadName pName new_cThread of Inr t \<Rightarrow> t | Inl _ \<Rightarrow> new_cThread)"

definition GetThreadName :: "cThread \<Rightarrow> string result" where
  "GetThreadName t = read_cstr (m_threadname t)"

section \<open>The time to sleep\<close>

text \<open>
  The point of time that \<open>ThreadRunning\<close> gives to \<open>pthread_cond_timedwait\<close>, as seconds and nanoseconds.
  The sum is made in \<open>double\<close>, exactly: it is below \<open>2 ^ 53\<close> for an \<open>int\<close> of milliseconds. The quotient
  is not a whole number when rounding it to \<open>double\<close>, so cutting it off is the division.
\<close>

definition sleep_deadline :: "int \<Rightarrow> int \<Rightarrow> int \<Rightarrow> int \<times> int" where
  "sleep_deadline tv_sec tv_usec iSleepInterval =
     (let cond_sec = tv_sec;
          cond_nsec = tv_usec * 1000;
          nsec = cond_nsec + iSleepInterval * 1000000
      in if nsec \<ge> 1000000000 then (cond_sec + nsec div 1000000000, cond_nsec)
         else (cond_sec, nsec))"

section \<open>The machine\<close>

text \<open>
  Where the thread is: in its work; at the start of \<open>ThreadRunning\<close>; after the test of \<open>m_bActive\<close>;
  with the mutex; with the mutex after the first condition, true or false; about to wait with a
  deadline or without one; waiting; after the wait; with the mutex released; at the last statement;
  behind \<open>Run\<close>; behind \<open>Exit\<close>. \<open>Faulted\<close>: something was done that POSIX leaves undefined, such as
  the use of a destroyed mutex.
\<close>

datatype pc =
  Working | Calling | Tested | Locked | To_sleep | Not_to_sleep | Before_timed "int \<times> int" | Before_wait
  | Timed_wait "int \<times> int" | Waiting | Woken | Unlocked | Returning | Run_over | Exited | Faulted

fun waits :: "pc \<Rightarrow> bool" where
  "waits Waiting = True"
| "waits (Timed_wait d) = True"
| "waits _ = False"

text \<open>One statement of the thread, at the time \<open>sec\<close>, \<open>usec\<close>. \<open>None\<close>: it waits, or has ended.\<close>

fun thread_step :: "int \<Rightarrow> int \<Rightarrow> cThread \<times> pc \<Rightarrow> (cThread \<times> pc) option" where
  "thread_step sec usec (t, Working) = Some (t, Calling)"
| "thread_step sec usec (t, Calling) = Some (t, if m_bActive t = 0 then Returning else Tested)"
| "thread_step sec usec (t, Tested) = Some (t, if m_sync t = Made then Locked else Faulted)"
| "thread_step sec usec (t, Locked) =
     Some (t, if m_iSleepInterval t \<noteq> 0 \<and> \<not> m_bSuspended t then To_sleep else Not_to_sleep)"
| "thread_step sec usec (t, To_sleep) =
     Some (t, Before_timed (sleep_deadline sec usec (m_iSleepInterval t)))"
| "thread_step sec usec (t, Not_to_sleep) = Some (t, if m_bSuspended t then Before_wait else Woken)"
| "thread_step sec usec (t, Before_timed d) = Some (t, if m_sync t = Made then Timed_wait d else Faulted)"
| "thread_step sec usec (t, Before_wait) = Some (t, if m_sync t = Made then Waiting else Faulted)"
| "thread_step sec usec (t, Timed_wait d) = None"
| "thread_step sec usec (t, Waiting) = None"
| "thread_step sec usec (t, Woken) = Some (t, if m_sync t = Made then Unlocked else Faulted)"
| "thread_step sec usec (t, Unlocked) =
     Some (if m_iSleepInterval t \<noteq> 0 then t\<lparr>m_iSleepInterval := 0\<rparr> else t, Returning)"
| "thread_step sec usec (t, Returning) = Some (t, if m_bActive t \<noteq> 0 then Working else Run_over)"
| "thread_step sec usec (t, Run_over) = Some (Thread_Exit t, Exited)"
| "thread_step sec usec (t, Exited) = None"
| "thread_step sec usec (t, Faulted) = None"

text \<open>The statements of the functions that control a thread.\<close>

datatype instr =
  Clear_active | Resume_if_suspended | Clear_suspended | Set_suspended | Signal
  | Set_interval int | Await_done | Destroy_objects

datatype call = Call_Start | Call_Stop | Call_Suspend | Call_Resume | Call_Sleep int | Call_Destroy

definition resume_code :: "instr list" where "resume_code = [Clear_suspended, Signal]"
definition stop_code :: "instr list" where "stop_code = [Clear_active, Resume_if_suspended]"

fun call_code :: "call \<Rightarrow> instr list" where
  "call_code Call_Start = resume_code"
| "call_code Call_Resume = resume_code"
| "call_code Call_Stop = stop_code"
| "call_code Call_Suspend = [Set_suspended]"
| "call_code (Call_Sleep ms) = [Set_interval ms]"
| "call_code Call_Destroy = stop_code @ [Await_done, Destroy_objects]"

text \<open>
  A signal wakes the thread if it waits, and is lost if it does not. Destroying objects that the thread
  holds or waits on is undefined, and so is cancelling a detached thread that has ended. The first
  component are the statements that replace the one executed; \<open>None\<close>: the caller stays in its loop.
\<close>

fun instr_step :: "instr \<Rightarrow> cThread \<times> pc \<Rightarrow> (instr list \<times> cThread \<times> pc) option" where
  "instr_step Clear_active (t, p) = Some ([], t\<lparr>m_bActive := THREAD_INACTIVE\<rparr>, p)"
| "instr_step Resume_if_suspended (t, p) = Some (if m_bSuspended t then resume_code else [], t, p)"
| "instr_step Clear_suspended (t, p) = Some ([], t\<lparr>m_bSuspended := False\<rparr>, p)"
| "instr_step Set_suspended (t, p) = Some ([], t\<lparr>m_bSuspended := True\<rparr>, p)"
| "instr_step Signal (t, p) =
     Some ([], t, if m_sync t = Made then if waits p then Woken else p else Faulted)"
| "instr_step (Set_interval ms) (t, p) = Some ([], t\<lparr>m_iSleepInterval := ms\<rparr>, p)"
| "instr_step Await_done (t, p) = (if m_bActive t \<noteq> 0 \<and> m_bDone t = 0 then None else Some ([], t, p))"
| "instr_step Destroy_objects (t, p) =
     Some ([], snd (Thread_Shutdown t),
           if m_sync t = Made \<and> p \<in> {Working, Calling, Tested, Unlocked, Returning, Run_over} then p
           else Faulted)"

text \<open>
  The thread, what is left of the call that its own work is in, and of the calls that other threads
  are in.
\<close>

record machine =
  mc_thread :: cThread
  mc_pc :: pc
  mc_own :: "instr list"
  mc_callers :: "instr list list"

text \<open>
  The thread makes a step; its wait ends without a signal, because of the deadline or for no reason, as
  POSIX allows; its work begins a call of one of its own functions or makes a step of it; so does
  another thread.
\<close>

datatype event =
  Thread_step int int | Deadline | Spurious | Own_call call | Own_step | Call nat call | Caller_step nat

fun machine_step :: "event \<Rightarrow> machine \<Rightarrow> machine option" where
  "machine_step (Thread_step sec usec) m =
     (if mc_pc m = Working \<and> mc_own m \<noteq> [] then None
      else case thread_step sec usec (mc_thread m, mc_pc m) of
             None \<Rightarrow> None
           | Some (t, p) \<Rightarrow> Some (m\<lparr>mc_thread := t, mc_pc := p\<rparr>))"
| "machine_step Deadline m =
     (case mc_pc m of Timed_wait d \<Rightarrow> Some (m\<lparr>mc_pc := Woken\<rparr>) | _ \<Rightarrow> None)"
| "machine_step Spurious m = (if waits (mc_pc m) then Some (m\<lparr>mc_pc := Woken\<rparr>) else None)"
| "machine_step (Own_call c) m =
     (if mc_pc m = Working \<and> mc_own m = [] then Some (m\<lparr>mc_own := call_code c\<rparr>) else None)"
| "machine_step Own_step m =
     (case mc_own m of
        [] \<Rightarrow> None
      | i # is \<Rightarrow>
          (case instr_step i (mc_thread m, mc_pc m) of
             None \<Rightarrow> None
           | Some (js, t, p) \<Rightarrow> Some (m\<lparr>mc_thread := t, mc_pc := p, mc_own := js @ is\<rparr>)))"
| "machine_step (Call k c) m =
     (if k < length (mc_callers m) \<and> mc_callers m ! k = []
      then Some (m\<lparr>mc_callers := (mc_callers m)[k := call_code c]\<rparr>) else None)"
| "machine_step (Caller_step k) m =
     (if k < length (mc_callers m)
      then (case mc_callers m ! k of
              [] \<Rightarrow> None
            | i # is \<Rightarrow>
                (case instr_step i (mc_thread m, mc_pc m) of
                   None \<Rightarrow> None
                 | Some (js, t, p) \<Rightarrow>
                     Some (m\<lparr>mc_thread := t, mc_pc := p, mc_callers := (mc_callers m)[k := js @ is]\<rparr>)))
      else None)"

primrec run_events :: "event list \<Rightarrow> machine \<Rightarrow> machine option" where
  "run_events [] m = Some m"
| "run_events (e # es) m = (case machine_step e m of None \<Rightarrow> None | Some m \<Rightarrow> run_events es m)"

text \<open>A thread just created, with \<open>n\<close> other threads that may control it.\<close>

definition created :: "int \<Rightarrow> nat \<Rightarrow> machine" where
  "created handle n =
     \<lparr>mc_thread = snd (Thread_Create 0 handle new_cThread), mc_pc = Working, mc_own = [],
      mc_callers = replicate n []\<rparr>"

inductive reaches :: "(event \<Rightarrow> bool) \<Rightarrow> machine \<Rightarrow> machine \<Rightarrow> bool" for A :: "event \<Rightarrow> bool" where
  here: "reaches A m m"
| step: "reaches A m m' \<Longrightarrow> A e \<Longrightarrow> machine_step e m' = Some m'' \<Longrightarrow> reaches A m m''"

end
