(* ===== verification/Servers.thy ===== *)
theory Servers
  imports ConnectionHandlerOutbound IPAccess Threads
begin

text \<open>
  \<open>tcpserver.h\<close>, \<open>tcpserver.cpp\<close>, \<open>udpserver.h\<close> and \<open>udpserver.cpp\<close>: the threads that wait for
  peers. \<open>cTCPServer\<close> accepts connections, asks \<open>cIPAccess\<close> and hands them to the connection queue;
  \<open>cUDPServer\<close> makes a message of every datagram.

  What the system answers to the calls of one turn of a loop is an argument. The servers share the
  message queue, with the connection queue and the metrics that it holds; the metrics are set before
  a server starts. The options that are set on sockets have no effect in the model, and the log lines
  are left out. The thread of a server is its object \<open>cThread\<close>: \<open>Start\<close> creates and starts it and \<open>Stop\<close>
  destroys it, without waiting for its end; what \<open>Run\<close> does is the function on the turns of its loop. \<open>m_BindAddr\<close> is written one byte past its end
  by the constructor, where a byte that is zero at that time follows; the model keeps the 16 bytes.
\<close>

section \<open>The TCP server\<close>

definition TCPSERVER_ERROR_UPDATE_INTERVAL :: int where "TCPSERVER_ERROR_UPDATE_INTERVAL = 10"

definition HRC_SERVER_OK :: int where "HRC_SERVER_OK = 0"
definition HRC_SERVER_SOCKET_ALLOC_FAILED :: int where "HRC_SERVER_SOCKET_ALLOC_FAILED = 1"
definition HRC_SERVER_SOCKET_BIND_FAILED :: int where "HRC_SERVER_SOCKET_BIND_FAILED = 2"

record cTCPServer =
  tcp_sIPAddress :: string
  tcp_iPort :: int
  tcp_ServerSocketfd :: int
  m_timerErrorReporter :: cTimer
  m_timerMsgAcceptedPerMinute :: cTimer
  m_TCPMsgPerMinute :: int
  m_bWarningConnectionQueueFull :: bool
  m_bWarningUnableToCreateClientSocket :: bool
  m_bWarningConnectionWasNotValidated :: bool
  tcp_closed :: "int list"
  tcp_thread :: cThread

definition TCP_ResetErrorFlags :: "cTCPServer \<Rightarrow> cTCPServer" where
  "TCP_ResetErrorFlags s =
     s\<lparr>m_bWarningConnectionQueueFull := False, m_bWarningUnableToCreateClientSocket := False,
       m_bWarningConnectionWasNotValidated := False\<rparr>"

definition new_cTCPServer :: "string \<Rightarrow> int \<Rightarrow> cTCPServer" where
  "new_cTCPServer pIPAddress iPort = TCP_ResetErrorFlags
     \<lparr>tcp_sIPAddress = cstr pIPAddress, tcp_iPort = iPort, tcp_ServerSocketfd = -1,
      m_timerErrorReporter = new_cTimer, m_timerMsgAcceptedPerMinute = new_cTimer, m_TCPMsgPerMinute = 0,
      m_bWarningConnectionQueueFull = False, m_bWarningUnableToCreateClientSocket = False,
      m_bWarningConnectionWasNotValidated = False, tcp_closed = [], tcp_thread = named_thread ''cTCPServer''\<rparr>"

definition TCP_CloseSocket :: "cTCPServer \<Rightarrow> cTCPServer" where
  "TCP_CloseSocket s =
     (if tcp_ServerSocketfd s \<le> 0 then s
      else s\<lparr>tcp_closed := tcp_closed s @ [tcp_ServerSocketfd s], tcp_ServerSocketfd := -1\<rparr>)"

text \<open>
  What the system answers to a server that starts: the number of its socket, whether \<open>bind\<close> went well,
  what \<open>pthread_create\<close> returns and the handle that it leaves.
\<close>

record start_answers =
  sa_socket :: int
  sa_bound :: bool
  sa_create :: int
  sa_handle :: int

text \<open>The thread is started when it was created.\<close>

definition launch :: "start_answers \<Rightarrow> cThread \<Rightarrow> int \<times> cThread" where
  "launch ans t =
     (let (rc, t) = Thread_Create (sa_create ans) (sa_handle ans) t
      in (rc, if rc = HRC_THREAD_OK then Thread_Start t else t))"

text \<open>A socket that cannot be made is an exception of the class \<open>cException\<close>, by \<open>THROW\<close>.\<close>

definition TCP_Start :: "int \<Rightarrow> start_answers \<Rightarrow> cTCPServer \<Rightarrow> (int \<times> cTCPServer) result" where
  "TCP_Start now ans s =
     (let s = s\<lparr>m_timerMsgAcceptedPerMinute :=
                  Timer_Start now (Timer_SetInterval (m_timerMsgAcceptedPerMinute s) 60),
                m_timerErrorReporter :=
                  Timer_Start now (Timer_SetInterval (m_timerErrorReporter s) TCPSERVER_ERROR_UPDATE_INTERVAL),
                tcp_ServerSocketfd := sa_socket ans\<rparr>
      in if sa_socket ans = -1 then Inl (Thrown ''Unable to create server socket'')
         else if \<not> sa_bound ans then Inr (HRC_SERVER_SOCKET_BIND_FAILED, s)
         else let (rc, t) = launch ans (tcp_thread s) in Inr (rc, s\<lparr>tcp_thread := t\<rparr>))"

text \<open>
  \<open>Stop\<close> closes the socket and destroys the thread. A server whose socket could not be bound has no
  thread, and its objects are used in an undefined way.
\<close>

definition TCP_Stop :: "cTCPServer \<Rightarrow> (int \<times> cTCPServer) result" where
  "TCP_Stop s =
     (let s = TCP_CloseSocket s
      in rbind (Thread_Destroy (tcp_thread s)) (\<lambda>(_, t). Inr (HRC_SERVER_OK, s\<lparr>tcp_thread := t\<rparr>)))"

text \<open>The answers of \<open>select\<close> and \<open>accept\<close> in one turn; \<open>None\<close> is the socket -1.\<close>

record accept_answers =
  aa_now :: int
  aa_select :: int
  aa_except :: bool
  aa_readable :: bool
  aa_accepted :: "(int \<times> sockaddr_in) option"
  aa_active :: bool

definition count_con :: "(cSysMetrics \<Rightarrow> cSysMetrics option) \<Rightarrow> cMsgQueue \<Rightarrow> cMsgQueue result" where
  "count_con inc q =
     rbind (of_option OutOfBounds (inc (m_pSysMetrics q))) (\<lambda>s. Inr (q\<lparr>m_pSysMetrics := s\<rparr>))"

text \<open>The start of a turn: from time to time the warnings are written to the log and forgotten.\<close>

definition TCP_report_errors :: "int \<Rightarrow> cTCPServer \<Rightarrow> cTCPServer" where
  "TCP_report_errors now s =
     (if Timer_IsReady now (m_timerErrorReporter s)
      then TCP_ResetErrorFlags (s\<lparr>m_timerErrorReporter := Timer_Reset now (m_timerErrorReporter s)\<rparr>)
      else s)"

text \<open>
  One turn of the loop; the first part of the answer says whether it goes on. \<open>AddConnection\<close> has
  one answer only, so the branch that drops a connection for a full queue is never taken.
\<close>

definition TCP_Run_pass ::
  "cIPAccess \<Rightarrow> accept_answers \<Rightarrow> cTCPServer \<Rightarrow> cMsgQueue \<Rightarrow> (bool \<times> cTCPServer \<times> cMsgQueue) result" where
  "TCP_Run_pass acc ans s q =
     (let s = TCP_report_errors (aa_now ans) s
      in rbind (FD_SET (tcp_ServerSocketfd s) {}) (\<lambda>_.
         if aa_select ans = -1 then Inr (False, s, q)
         else if aa_select ans \<noteq> 0 \<and> aa_except ans then Inr (False, s, q)
         else if aa_select ans = 0 then Inr (True, s, q)
         else if \<not> aa_readable ans then Inr (True, s, q)
         else
           case aa_accepted ans of
             None \<Rightarrow>
               if \<not> aa_active ans then Inr (False, s, q)
               else rbind (count_con IncConDropped q) (\<lambda>q.
                    Inr (True, s\<lparr>m_bWarningUnableToCreateClientSocket := True\<rparr>, q))
           | Some (ClientSocketfd, client_addr) \<Rightarrow>
               rbind (Access_Validate acc (inet_ntoa (fst client_addr))) (\<lambda>rc.
               if rc = HRC_IPACCESS_DENY
               then rbind (count_con IncConRejected q) (\<lambda>q.
                    Inr (True, s\<lparr>tcp_closed := tcp_closed s @ [ClientSocketfd]\<rparr>, q))
               else rbind (count_con IncConAccepted q) (\<lambda>q.
                    Inr (True, s\<lparr>m_TCPMsgPerMinute := m_TCPMsgPerMinute s + 1\<rparr>,
                         q\<lparr>m_pConnectionQueue :=
                             ConQueue_AddConnection (m_pConnectionQueue q) ClientSocketfd client_addr (tcp_iPort s)\<rparr>)))))"

text \<open>
  \<open>Run\<close>, over the answers of the turns of its loop: until one of them leaves the loop, or the thread is
  stopped. It does not return. Behind the loop stands \<open>LOGALL("exit")\<close>, which throws the text that it
  logs, so \<open>CloseSocket\<close> is not reached; the first part of the answer is the exception. The entry of the
  thread does not catch it: with it the process ends.
\<close>

definition TCP_exit :: "cTCPServer \<Rightarrow> cMsgQueue \<Rightarrow> (string \<times> cTCPServer \<times> cMsgQueue) result" where
  "TCP_exit s q = Inr (''exit'', s, q)"

fun TCP_Run ::
  "cIPAccess \<Rightarrow> accept_answers list \<Rightarrow> cTCPServer \<Rightarrow> cMsgQueue \<Rightarrow> (string \<times> cTCPServer \<times> cMsgQueue) result" where
  "TCP_Run acc [] s q = TCP_exit s q"
| "TCP_Run acc (ans # rest) s q =
     rbind (TCP_Run_pass acc ans s q) (\<lambda>(go_on, s, q).
       if go_on then TCP_Run acc rest s q else TCP_exit s q)"

text \<open>\<open>TransmitResponse\<close> has the loop of the outbound handler's \<open>TCPSend\<close>.\<close>

definition TCP_TransmitResponse :: "os \<Rightarrow> int \<Rightarrow> block \<Rightarrow> int \<Rightarrow> net \<Rightarrow> (bool \<times> net) result option" where
  "TCP_TransmitResponse os iSocketfd pBuf n w = tcp_send_loop os iSocketfd pBuf n 0 w"

section \<open>The UDP server\<close>

definition IP_ADDR_SIZE :: nat where "IP_ADDR_SIZE = 16"
definition MAX_DGRAM_SIZE :: int where "MAX_DGRAM_SIZE = 512"

record cUDPServer =
  udp_iPort :: int
  udp_BindAddr :: string
  udp_ServerSocketfd :: int
  udp_closed :: "int list"
  udp_thread :: cThread

definition new_cUDPServer :: "string \<Rightarrow> int \<Rightarrow> cUDPServer" where
  "new_cUDPServer pBindAddr iPort =
     \<lparr>udp_iPort = iPort, udp_BindAddr = take IP_ADDR_SIZE (cstr pBindAddr), udp_ServerSocketfd = 0, udp_closed = [],
      udp_thread = named_thread ''cUDPServer''\<rparr>"

text \<open>The number of the socket stays when it is closed.\<close>

definition UDP_CloseSocket :: "cUDPServer \<Rightarrow> cUDPServer" where
  "UDP_CloseSocket s =
     (if udp_ServerSocketfd s \<noteq> -1 then s\<lparr>udp_closed := udp_closed s @ [udp_ServerSocketfd s]\<rparr> else s)"

definition UDP_Start :: "start_answers \<Rightarrow> cUDPServer \<Rightarrow> int \<times> cUDPServer" where
  "UDP_Start ans s =
     (let s = s\<lparr>udp_ServerSocketfd := sa_socket ans\<rparr>
      in if sa_socket ans = -1 then (HRC_SERVER_SOCKET_ALLOC_FAILED, s)
         else if \<not> sa_bound ans then (HRC_SERVER_SOCKET_BIND_FAILED, s)
         else let (rc, t) = launch ans (udp_thread s) in (rc, s\<lparr>udp_thread := t\<rparr>))"

definition UDP_Stop :: "cUDPServer \<Rightarrow> (int \<times> cUDPServer) result" where
  "UDP_Stop s =
     (let s = UDP_CloseSocket s
      in rbind (Thread_Destroy (udp_thread s)) (\<lambda>(_, t). Inr (HRC_SERVER_OK, s\<lparr>udp_thread := t\<rparr>)))"

text \<open>What \<open>recvfrom\<close> answers: a datagram, which may be empty, and where it came from; or an error.\<close>

datatype datagram = Datagram string sockaddr_in | DatagramError

record recv_answers =
  ra_select :: int
  ra_readable :: bool
  ra_datagram :: datagram

definition recv_into :: "cBuffer \<Rightarrow> string \<Rightarrow> cBuffer result" where
  "recv_into b data =
     (case Buffer_GetRawBuffer b of
        None \<Rightarrow> Inl NullPointer
      | Some blk \<Rightarrow> rbind (mem_store blk 0 (map Some data)) (\<lambda>blk. Inr (b\<lparr>m_pBuffer := Some blk\<rparr>)))"

text \<open>An operation of the buffer class on the buffer of a message.\<close>

definition on_buffer :: "cMsgQueue \<Rightarrow> nat \<Rightarrow> (cBuffer \<Rightarrow> cBuffer result) \<Rightarrow> cMsgQueue result" where
  "on_buffer q a f =
     rbind (mq_get q a) (\<lambda>m. rbind (f (MsgBuffer m)) (\<lambda>b. mq_upd q a (\<lambda>m. m\<lparr>MsgBuffer := b\<rparr>)))"

text \<open>
  What is done with a datagram that may come in: \<open>Parse\<close> always answers that all went well. The port
  and the socket for a reply are set when the message has been dispatched.
\<close>

definition udp_accept ::
  "env \<Rightarrow> cUDPServer \<Rightarrow> string \<Rightarrow> sockaddr_in \<Rightarrow> nat \<Rightarrow> cMsgQueue \<Rightarrow> cMsgQueue result" where
  "udp_accept env s data client_addr a q =
     rbind (on_buffer q a (\<lambda>b. Buffer_SetBufferLength b (int (length data)))) (\<lambda>q.
     rbind (mq_upd q a (\<lambda>m. Msg_SetSourceIP m (inet_ntoa (fst client_addr)))) (\<lambda>q.
     rbind (MQ_Parse env q a MSG_CT_IB_UDP MSG_FORMAT_REQ) (\<lambda>q.
     rbind (mq_upd q a (\<lambda>m.
       let m = Msg_SetConnectionType m MSG_CT_IB_UDP;
           m = Msg_SetProtocolType m MSG_PROTOCOL_MCP
       in Msg_SetArrivalPort m (udp_iPort s))) (\<lambda>q.
     rbind (MQ_DispatchMsg env q a) (\<lambda>q.
     rbind (mq_get q a) (\<lambda>m.
       if Msg_GetReplyAction m = MSG_REPLY_ACTION_WAIT
       then mq_upd q a (\<lambda>m.
              let m = Msg_SetSourcePort m (uint (snd client_addr))
              in Msg_SetUDPSocketHandle m (udp_ServerSocketfd s))
       else Inr q))))))"

definition UDP_Run_pass ::
  "env \<Rightarrow> cIPAccess \<Rightarrow> recv_answers \<Rightarrow> cUDPServer \<Rightarrow> cMsgQueue \<Rightarrow> (bool \<times> cMsgQueue) result" where
  "UDP_Run_pass env acc ans s q =
     rbind (FD_SET (udp_ServerSocketfd s) {}) (\<lambda>_.
     if ra_select ans = 0 then Inr (True, q)
     else if ra_select ans = -1 then Inr (False, q)
     else if \<not> ra_readable ans then Inr (False, q)
     else
       rbind (CreateMessage env q) (\<lambda>(a, q).
       rbind (on_buffer q a (\<lambda>b. Buffer_SetBufferSize b MAX_DGRAM_SIZE)) (\<lambda>q.
       case ra_datagram ans of
         DatagramError \<Rightarrow>
           rbind (mq_upd q a (\<lambda>m. Msg_SetMsgState m MSG_STATE_MARKFORREUSE)) (\<lambda>q. Inr (True, q))
       | Datagram data client_addr \<Rightarrow>
           let data = take (nat MAX_DGRAM_SIZE) data
           in rbind (on_buffer q a (\<lambda>b. recv_into b data)) (\<lambda>q.
              if length data = 0 then Inr (False, q)
              else
                rbind (Access_Validate acc (inet_ntoa (fst client_addr))) (\<lambda>rc.
                if rc = HRC_IPACCESS_DENY
                then rbind (count_con IncConRejected q) (\<lambda>q.
                     rbind (mq_upd q a (\<lambda>m. Msg_SetMsgState m MSG_STATE_MARKFORREUSE)) (\<lambda>q. Inr (True, q)))
                else rbind (udp_accept env s data client_addr a q) (\<lambda>q. Inr (True, q)))))))"

fun UDP_Run ::
  "env \<Rightarrow> cIPAccess \<Rightarrow> recv_answers list \<Rightarrow> cUDPServer \<Rightarrow> cMsgQueue \<Rightarrow> (cUDPServer \<times> cMsgQueue) result" where
  "UDP_Run env acc [] s q = Inr (UDP_CloseSocket s, q)"
| "UDP_Run env acc (ans # rest) s q =
     rbind (UDP_Run_pass env acc ans s q) (\<lambda>(go_on, q).
       if go_on then UDP_Run env acc rest s q else Inr (UDP_CloseSocket s, q))"

end
