(* ===== verification/ServerLaws.thy ===== *)
theory ServerLaws
  imports Servers ConnectionInboundLaws
begin

text \<open>
  What the servers let in: the TCP server hands over exactly the connections of peers that the rules
  admit, in the order they came, and closes the others; the UDP server makes a message of a datagram
  exactly when the rules admit its sender.
\<close>

section \<open>The turns of the TCP server\<close>

text \<open>The answers that leave the loop, and the peer that a turn has accepted.\<close>

definition tcp_stops :: "accept_answers \<Rightarrow> bool" where
  "tcp_stops ans \<longleftrightarrow>
     aa_select ans = -1 \<or>
     aa_select ans \<noteq> 0 \<and> (aa_except ans \<or> aa_readable ans \<and> aa_accepted ans = None \<and> \<not> aa_active ans)"

definition tcp_peer :: "accept_answers \<Rightarrow> (int \<times> sockaddr_in) list" where
  "tcp_peer ans =
     (if aa_select ans \<noteq> 0 \<and> aa_readable ans
      then (case aa_accepted ans of None \<Rightarrow> [] | Some p \<Rightarrow> [p]) else [])"

definition tcp_peers :: "accept_answers list \<Rightarrow> (int \<times> sockaddr_in) list" where
  "tcp_peers anss = concat (map tcp_peer (takeWhile (\<lambda>ans. \<not> tcp_stops ans) anss))"

definition lets_in :: "(access_type \<times> int list) list \<Rightarrow> int \<times> sockaddr_in \<Rightarrow> bool" where
  "lets_in rules p \<longleftrightarrow> admitted rules (octants_of (fst (snd p)))"

lemma Validate_peer:
  "Access_Validate (rule_list rules) (inet_ntoa w) =
     Inr (if admitted rules (octants_of w) then HRC_IPACCESS_OK else HRC_IPACCESS_DENY)"
  unfolding inet_ntoa_octants by (rule Validate_admitted [OF octants_of_ok])

lemma count_con_spec:
  assumes "metrics_inv now (m_pSysMetrics q)" "\<And>s. inc s \<in> inc_any s"
  shows "\<exists>s. count_con inc q = Inr (q\<lparr>m_pSysMetrics := s\<rparr>) \<and> metrics_inv now s \<and> inc (m_pSysMetrics q) = Some s"
proof -
  obtain s where s: "inc (m_pSysMetrics q) = Some s" using inc_never_out_of_bounds [OF assms] by blast
  then have "metrics_inv now s" using inv_inc [OF assms(1) order_refl] assms(2) by metis
  then show ?thesis using s by (simp add: count_con_def of_option_def)
qed

definition server_ok :: "cTCPServer \<Rightarrow> bool" where
  "server_ok s \<longleftrightarrow> 0 \<le> tcp_ServerSocketfd s \<and> tcp_ServerSocketfd s < FD_SETSIZE"

text \<open>What a server leaves as it was, and what it adds to the connections that wait.\<close>

definition served_peers ::
  "(access_type \<times> int list) list \<Rightarrow> (int \<times> sockaddr_in) list \<Rightarrow> cTCPServer \<Rightarrow> cMsgQueue \<Rightarrow> cTCPServer \<Rightarrow> cMsgQueue \<Rightarrow> bool"
  where
  "served_peers rules ps s q s' q' \<longleftrightarrow>
     m_msgPool q' = m_msgPool q \<and> queued q' = queued q \<and>
     m_ConnectionCache (m_pConnectionQueue q') = m_ConnectionCache (m_pConnectionQueue q) \<and>
     prequeue_inv (m_pConnectionQueue q') \<and>
     waiting (m_pConnectionQueue q') =
       waiting (m_pConnectionQueue q) @ map (\<lambda>(fd, addr). (fd, addr, tcp_iPort s)) (filter (lets_in rules) ps) \<and>
     tcp_closed s' = tcp_closed s @ map fst (filter (\<lambda>p. \<not> lets_in rules p) ps) \<and> tcp_iPort s' = tcp_iPort s"

lemma served_peers_append:
  "served_peers rules ps s q s1 q1 \<Longrightarrow> served_peers rules ps' s1 q1 s2 q2 \<Longrightarrow>
     served_peers rules (ps @ ps') s q s2 q2"
  by (simp add: served_peers_def)

lemma TCP_Run_pass_spec:
  assumes "metrics_inv now (m_pSysMetrics q)" "prequeue_inv (m_pConnectionQueue q)" "server_ok s"
  shows "\<exists>s' q'. TCP_Run_pass (rule_list rules) ans s q = Inr (\<not> tcp_stops ans, s', q') \<and>
    metrics_inv now (m_pSysMetrics q') \<and> tcp_ServerSocketfd s' = tcp_ServerSocketfd s \<and>
    served_peers rules (if tcp_stops ans then [] else tcp_peer ans) s q s' q'"
proof -
  let ?s = "TCP_report_errors (aa_now ans) s"
  have s: "tcp_ServerSocketfd ?s = tcp_ServerSocketfd s" "tcp_closed ?s = tcp_closed s" "tcp_iPort ?s = tcp_iPort s"
    by (simp_all add: TCP_report_errors_def TCP_ResetErrorFlags_def)
  have fd: "FD_SET (tcp_ServerSocketfd s) {} = Inr {tcp_ServerSocketfd s}"
    using assms(3) by (simp add: FD_SET_def server_ok_def)
  note D = TCP_Run_pass_def Let_def s fd tcp_stops_def tcp_peer_def served_peers_def
  show ?thesis
  proof (cases "aa_select ans \<noteq> -1 \<and> aa_select ans \<noteq> 0 \<and> \<not> aa_except ans \<and> aa_readable ans")
    case False
    then have "TCP_Run_pass (rule_list rules) ans s q = Inr (\<not> tcp_stops ans, ?s, q)"
      using s fd
      by (cases "aa_select ans = -1"; cases "aa_select ans = 0"; cases "aa_except ans"; cases "aa_readable ans")
        (simp_all add: TCP_Run_pass_def Let_def tcp_stops_def)
    moreover have "tcp_stops ans \<or> tcp_peer ans = []"
      using False by (auto simp: tcp_stops_def tcp_peer_def)
    then have "served_peers rules (if tcp_stops ans then [] else tcp_peer ans) s q ?s q"
      using assms(2) s by (auto simp: served_peers_def)
    ultimately show ?thesis using assms(1) s by blast
  next
    case live: True
    show ?thesis
    proof (cases "aa_accepted ans")
      case None
      from count_con_spec [OF assms(1), of IncConDropped] obtain m where
        "count_con IncConDropped q = Inr (q\<lparr>m_pSysMetrics := m\<rparr>)" "metrics_inv now m"
        by (auto simp: inc_any_def)
      then show ?thesis using None live assms(1,2) s fd by (auto simp: D)
    next
      case (Some p)
      obtain c addr where p: "p = (c, addr)" by (cases p)
      show ?thesis
      proof (cases "lets_in rules p")
        case True
        from count_con_spec [OF assms(1), of IncConAccepted] obtain m where
          m: "count_con IncConAccepted q = Inr (q\<lparr>m_pSysMetrics := m\<rparr>)" "metrics_inv now m"
          by (auto simp: inc_any_def)
        have "m_ConnectionCache (ConQueue_AddConnection x c addr i) = m_ConnectionCache x"
          "m_outbound_priority_queue (ConQueue_AddConnection x c addr i) = m_outbound_priority_queue x" for x i
          by (simp_all add: ConQueue_AddConnection_def Let_def)
        then show ?thesis using True Some live m p s fd AddConnection_waits [OF assms(2)]
          by (simp add: D Validate_peer lets_in_def access_codes queued_def)
      next
        case False
        from count_con_spec [OF assms(1), of IncConRejected] obtain m where
          m: "count_con IncConRejected q = Inr (q\<lparr>m_pSysMetrics := m\<rparr>)" "metrics_inv now m"
          by (auto simp: inc_any_def)
        then show ?thesis using False Some live p s fd assms(2)
          by (simp add: D Validate_peer lets_in_def access_codes)
      qed
    qed
  qed
qed

lemma TCP_Run_spec:
  assumes "metrics_inv now (m_pSysMetrics q)" "prequeue_inv (m_pConnectionQueue q)" "server_ok s"
  shows "\<exists>s1 q'. TCP_Run (rule_list rules) anss s q = Inr (''exit'', s1, q') \<and>
    metrics_inv now (m_pSysMetrics q') \<and> tcp_ServerSocketfd s1 = tcp_ServerSocketfd s \<and>
    served_peers rules (tcp_peers anss) s q s1 q'"
  using assms
proof (induction anss arbitrary: s q)
  case Nil
  then show ?case by (auto simp: tcp_peers_def served_peers_def TCP_exit_def)
next
  case (Cons ans anss)
  from TCP_Run_pass_spec [OF Cons.prems, of rules ans] obtain s1 q1 where
    1: "TCP_Run_pass (rule_list rules) ans s q = Inr (\<not> tcp_stops ans, s1, q1)" "metrics_inv now (m_pSysMetrics q1)"
      "tcp_ServerSocketfd s1 = tcp_ServerSocketfd s"
      "served_peers rules (if tcp_stops ans then [] else tcp_peer ans) s q s1 q1" by blast
  show ?case
  proof (cases "tcp_stops ans")
    case True
    then show ?thesis using 1 by (auto simp: tcp_peers_def TCP_exit_def)
  next
    case False
    have ok: "prequeue_inv (m_pConnectionQueue q1)" "server_ok s1"
      using 1(3,4) Cons.prems(3) by (simp_all add: served_peers_def server_ok_def)
    from Cons.IH [OF 1(2) ok] obtain s2 q2 where
      2: "TCP_Run (rule_list rules) anss s1 q1 = Inr (''exit'', s2, q2)" "metrics_inv now (m_pSysMetrics q2)"
        "tcp_ServerSocketfd s2 = tcp_ServerSocketfd s1" "served_peers rules (tcp_peers anss) s1 q1 s2 q2" by blast
    have "tcp_peers (ans # anss) = tcp_peer ans @ tcp_peers anss" using False by (simp add: tcp_peers_def)
    then have "served_peers rules (tcp_peers (ans # anss)) s q s2 q2"
      using served_peers_append [OF 1(4) 2(4)] False by simp
    then show ?thesis using 1 2 False by auto
  qed
qed

section \<open>Start and stop\<close>

text \<open>A server that listens: its socket is bound, its thread is there and runs.\<close>

definition runs :: "cThread \<Rightarrow> bool" where
  "runs t \<longleftrightarrow> m_bActive t = THREAD_ACTIVE \<and> \<not> m_bSuspended t \<and> m_sync t = Made"

definition ended :: "cThread \<Rightarrow> bool" where
  "ended t \<longleftrightarrow> m_bActive t = THREAD_INACTIVE \<and> \<not> m_bSuspended t \<and> m_sync t = Destroyed"

definition answers_ok :: "start_answers \<Rightarrow> bool" where
  "answers_ok ans \<longleftrightarrow> 0 < sa_socket ans \<and> sa_bound ans \<and> sa_create ans = 0"

lemmas control_defs = Thread_Create_def Thread_Start_def Thread_Resume_def Thread_Destroy_def Thread_Stop_def
  Thread_Shutdown_def HRC_THREAD_OK_def HRC_THREAD_CREATEFAILED_def THREAD_ACTIVE_def THREAD_INACTIVE_def

lemma launch_runs: "sa_create ans = 0 \<Longrightarrow> \<exists>t'. launch ans t = (HRC_THREAD_OK, t') \<and> runs t'"
  by (simp add: launch_def control_defs runs_def Let_def)

lemma Destroy_ends: "runs t \<Longrightarrow> \<exists>t'. Thread_Destroy t = Inr (HRC_THREAD_OK, t') \<and> ended t'"
  by (simp add: control_defs runs_def ended_def Let_def)

lemma Destroy_unmade: "m_sync t \<noteq> Made \<Longrightarrow> Thread_Destroy t = Inl Indeterminate"
  by (simp add: Thread_Destroy_def)

lemma named_thread_sync: "m_sync (named_thread n) = NotMade"
  by (auto simp: named_thread_def SetThreadName_def new_cThread_def result_simps split: sum.splits)

text \<open>A server that has its port: nothing of it is closed.\<close>

definition tcp_listens :: "start_answers \<Rightarrow> string \<Rightarrow> int \<Rightarrow> cTCPServer \<Rightarrow> bool" where
  "tcp_listens ans addr p s \<longleftrightarrow> tcp_sIPAddress s = cstr addr \<and> tcp_iPort s = p \<and>
     tcp_ServerSocketfd s = sa_socket ans \<and> tcp_closed s = [] \<and> runs (tcp_thread s)"

definition udp_listens :: "start_answers \<Rightarrow> string \<Rightarrow> int \<Rightarrow> cUDPServer \<Rightarrow> bool" where
  "udp_listens ans addr p s \<longleftrightarrow> udp_BindAddr s = take IP_ADDR_SIZE (cstr addr) \<and> udp_iPort s = p \<and>
     udp_ServerSocketfd s = sa_socket ans \<and> udp_closed s = [] \<and> runs (udp_thread s)"

lemma TCP_Start_listens:
  assumes "answers_ok ans"
  shows "\<exists>s. TCP_Start now ans (new_cTCPServer addr p) = Inr (HRC_SERVER_OK, s) \<and> tcp_listens ans addr p s"
proof -
  obtain t where "launch ans (named_thread ''cTCPServer'') = (HRC_THREAD_OK, t)" "runs t"
    using launch_runs assms by (auto simp: answers_ok_def)
  then show ?thesis using assms
    by (simp add: TCP_Start_def answers_ok_def new_cTCPServer_def TCP_ResetErrorFlags_def tcp_listens_def
        HRC_THREAD_OK_def HRC_SERVER_OK_def Let_def)
qed

lemma UDP_Start_listens:
  assumes "answers_ok ans"
  shows "\<exists>s. UDP_Start ans (new_cUDPServer addr p) = (HRC_SERVER_OK, s) \<and> udp_listens ans addr p s"
proof -
  obtain t where "launch ans (named_thread ''cUDPServer'') = (HRC_THREAD_OK, t)" "runs t"
    using launch_runs assms by (auto simp: answers_ok_def)
  then show ?thesis using assms
    by (simp add: UDP_Start_def answers_ok_def new_cUDPServer_def udp_listens_def HRC_THREAD_OK_def HRC_SERVER_OK_def Let_def)
qed

lemma TCP_Stop_spec:
  assumes "runs (tcp_thread s)" "0 < tcp_ServerSocketfd s"
  shows "\<exists>s'. TCP_Stop s = Inr (HRC_SERVER_OK, s') \<and> tcp_closed s' = tcp_closed s @ [tcp_ServerSocketfd s] \<and>
    tcp_ServerSocketfd s' = -1 \<and> ended (tcp_thread s')"
  using Destroy_ends [OF assms(1)] assms(2) by (auto simp: TCP_Stop_def TCP_CloseSocket_def Let_def)

lemma UDP_Stop_spec:
  assumes "runs (udp_thread s)" "0 < udp_ServerSocketfd s"
  shows "\<exists>s'. UDP_Stop s = Inr (HRC_SERVER_OK, s') \<and> udp_closed s' = udp_closed s @ [udp_ServerSocketfd s] \<and>
    udp_ServerSocketfd s' = udp_ServerSocketfd s \<and> ended (udp_thread s')"
  using Destroy_ends [OF assms(1)] assms(2) by (auto simp: UDP_Stop_def UDP_CloseSocket_def Let_def)

text \<open>A server that has no port is stopped on objects that were never made.\<close>

lemma Stop_without_port:
  "TCP_Start now ans (new_cTCPServer addr p) = Inr (HRC_SERVER_SOCKET_BIND_FAILED, s) \<Longrightarrow> TCP_Stop s = Inl Indeterminate"
  "UDP_Start ans (new_cUDPServer addr p) = (HRC_SERVER_SOCKET_BIND_FAILED, u) \<Longrightarrow> UDP_Stop u = Inl Indeterminate"
  by (auto simp: TCP_Start_def UDP_Start_def TCP_Stop_def UDP_Stop_def TCP_CloseSocket_def UDP_CloseSocket_def
      new_cTCPServer_def new_cUDPServer_def TCP_ResetErrorFlags_def Destroy_unmade named_thread_sync launch_def
      control_defs HRC_SERVER_SOCKET_BIND_FAILED_def Let_def split: if_splits)

text \<open>The end of \<open>Run\<close>: the TCP server's throws; the UDP server's closes whatever number its socket has.\<close>

lemma TCP_Run_throws: "TCP_Run acc anss s q = Inr (e, s', q') \<Longrightarrow> e = ''exit''"
  by (induction acc anss s q rule: TCP_Run.induct) (auto simp: TCP_exit_def result_simps split: if_splits)

lemma UDP_Run_closes: "UDP_Run env acc anss s q = Inr (s', q') \<Longrightarrow> s' = UDP_CloseSocket s"
  by (induction env acc anss s q rule: UDP_Run.induct) (auto simp: result_simps split: if_splits)

section \<open>The buffer of a datagram\<close>

lemma binary_match_mismatch:
  "i < length s \<Longrightarrow> last s \<notin> set p \<Longrightarrow> binary_match (map Some s @ rest) (int i) p = Inr (starts_with p (drop i s))"
proof (induction p arbitrary: i)
  case (Cons c p)
  have r: "mem_read (map Some s @ rest) (int i) = Inr (s ! i)"
    using Cons.prems(1) by (intro mem_read_nth) (auto simp: nth_append)
  have d: "drop i s = s ! i # drop (Suc i) s" using Cons.prems(1) by (simp add: Cons_nth_drop_Suc)
  have "Suc i < length s" if "s ! i = c"
  proof (rule ccontr)
    assume "\<not> Suc i < length s"
    then have "i = length s - 1" using Cons.prems(1) by simp
    moreover have "s \<noteq> []" using Cons.prems(1) by auto
    ultimately have "last s = c" using that by (simp add: last_conv_nth)
    then show False using Cons.prems(2) by simp
  qed
  then show ?case using r d Cons.IH [of "Suc i"] Cons.prems(2) by (auto simp: add.commute)
qed simp

lemma BinaryFind_absent:
  assumes "holds b s" "find_sub p s = None" "s \<noteq> []" "last s \<notin> set p"
  shows "Buffer_BinaryFind b 0 p = Inr (-1)"
proof -
  obtain blk where blk: "m_pBuffer b = Some blk" using holds_nonnull [OF assms(1)] assms(3) by blast
  obtain r rest where c: "blk = map Some s @ r # rest" using assms(1) blk by (rule holds_SomeE)
  have "binary_scan blk 0 (int (length s)) (int i) p = Inr (-1)" if "i \<le> length s" for i
    using that
  proof (induction "length s - i" arbitrary: i)
    case 0
    then show ?case by (subst binary_scan.simps) simp
  next
    case (Suc n)
    then have i: "i < length s" by simp
    then have "\<not> starts_with p (drop i s)" using assms(2) by (simp add: find_sub_None)
    then have m: "binary_match blk (int i) p = Inr False"
      using c i binary_match_mismatch [OF i assms(4), of "r # rest"] by simp
    have "binary_scan blk 0 (int (length s)) (int (Suc i)) p = Inr (-1)"
      using Suc.hyps(1) [of "Suc i"] Suc.hyps(2) i by simp
    then show ?case using m i by (subst binary_scan.simps) (simp add: add.commute)
  qed
  from this [of 0] show ?thesis using holds_tail [OF assms(1)] assms(3) blk by (simp add: Buffer_BinaryFind_def)
qed

text \<open>From an emptied buffer to one that holds the datagram.\<close>

lemma datagram_buffer:
  assumes "holds b []" "int (length d) \<le> MAX_DGRAM_SIZE"
  shows "\<exists>b1 b2 b3. Buffer_SetBufferSize b MAX_DGRAM_SIZE = Inr b1 \<and> buf_wf b1 \<and> recv_into b1 d = Inr b2 \<and> buf_wf b2 \<and>
    Buffer_SetBufferLength b2 (int (length d)) = Inr b3 \<and> holds b3 d"
proof -
  have "0 \<le> MAX_DGRAM_SIZE" by (simp add: MAX_DGRAM_SIZE_def)
  from SetBufferSize_holds [OF assms(1) this] obtain b1 blk where
    b1: "Buffer_SetBufferSize b MAX_DGRAM_SIZE = Inr b1" "holds b1 []" "m_pBuffer b1 = Some blk"
      "MAX_DGRAM_SIZE < m_iBufferSize b1" by blast
  from b1(2,3) obtain r rest where k: "blk = map Some [] @ r # rest" "m_iBufferSize b1 \<le> int (0 + Suc (length rest))"
    by (rule holds_SomeE) simp
  let ?blk = "map Some d @ drop (length d) blk"
  let ?b2 = "b1\<lparr>m_pBuffer := Some ?blk\<rparr>"
  have len: "length d < length blk" using k b1(4) assms(2) by simp
  have 2: "recv_into b1 d = Inr ?b2"
    using b1(3) len by (simp add: recv_into_def Buffer_GetRawBuffer_def mem_store_Inr)
  have t: "m_iTail b1 = 0" using holds_tail [OF b1(2)] by simp
  have 3: "Buffer_SetBufferLength ?b2 (int (length d)) = Inr (?b2\<lparr>m_iTail := int (length d)\<rparr>)"
    using b1(4) assms(2) by (simp add: Buffer_SetBufferLength_def Buffer_SetBufferSize_def)
  have sz: "m_iBufferSize b1 \<le> int (length blk)" using k by simp
  have "holds (?b2\<lparr>m_iTail := int (length d)\<rparr>) d"
    by (rule holds_SomeI [where rest = "drop (length d) blk"]) (use b1(4) assms(2) sz len in auto)
  moreover have "holds ?b2 []"
    by (rule holds_SomeI [where rest = ?blk]) (use t b1(4) sz len in \<open>auto simp: MAX_DGRAM_SIZE_def\<close>)
  ultimately show ?thesis using b1(1,2) 2 3 holds_wf by blast
qed

section \<open>The turns of the UDP server\<close>

text \<open>From \<open>q\<close> to \<open>q'\<close> one message was taken from the pool, and is now \<open>m\<close>.\<close>

definition took_message :: "cMsgQueue \<Rightarrow> nat \<Rightarrow> cMsg \<Rightarrow> cMsgQueue \<Rightarrow> bool" where
  "took_message q a m q' \<longleftrightarrow>
     mq_inv q' \<and> bufs_ok (m_msgPool q') \<and> queued q' = queued q \<and>
     state_of (m_msgPool q) a \<in> {Some MSG_STATE_INACTIVE, None} \<and> m_store (m_msgPool q') a = Some m \<and>
     (\<forall>b. b \<noteq> a \<longrightarrow> m_store (m_msgPool q') b = m_store (m_msgPool q) b)"

lemma on_buffer_eq:
  "m_store (m_msgPool q) a = Some m \<Longrightarrow> f (MsgBuffer m) = Inr b \<Longrightarrow>
     on_buffer q a f = Inr (q\<lparr>m_msgPool := pool_put (m_msgPool q) a (m\<lparr>MsgBuffer := b\<rparr>)\<rparr>)"
  by (simp add: on_buffer_def mq_get_eq mq_upd_eq)

lemma wf_empty_holds: "buf_wf (Buffer_Reset b) \<Longrightarrow> holds (Buffer_Reset b) []"
  using wf_holds [of "Buffer_Reset b"] by (simp add: contents_def Buffer_Reset_def)

definition udp_ready :: "recv_answers \<Rightarrow> cUDPServer \<Rightarrow> bool" where
  "udp_ready ans s \<longleftrightarrow> ra_select ans \<noteq> 0 \<and> ra_select ans \<noteq> -1 \<and> ra_readable ans \<and>
     0 \<le> udp_ServerSocketfd s \<and> udp_ServerSocketfd s < FD_SETSIZE"

lemma udp_received:
  assumes inv: "mq_inv q" "bufs_ok (m_msgPool q)" and ready: "udp_ready ans s"
    and d: "ra_datagram ans = Datagram data addr" "d = take (nat MAX_DGRAM_SIZE) data"
  shows "\<exists>a p ids m b. held (q\<lparr>m_msgPool := p, m_UniqueIDProvider := ids\<rparr>) a \<and> bufs_ok p \<and>
    state_of (m_msgPool q) a \<in> {Some MSG_STATE_INACTIVE, None} \<and> m_store p a = Some m \<and>
    MsgState m = MSG_STATE_INUSE \<and> buf_wf (MsgRawBuffer m) \<and>
    Buffer_SetBufferLength (MsgBuffer m) (int (length d)) = Inr b \<and> holds b d \<and>
    (\<forall>b. b \<noteq> a \<longrightarrow> m_store p b = m_store (m_msgPool q) b) \<and>
    UDP_Run_pass env acc ans s q =
      (let q = q\<lparr>m_msgPool := p, m_UniqueIDProvider := ids\<rparr>
       in if length d = 0 then Inr (False, q)
          else rbind (Access_Validate acc (inet_ntoa (fst addr))) (\<lambda>rc.
               if rc = HRC_IPACCESS_DENY
               then rbind (count_con IncConRejected q) (\<lambda>q.
                    rbind (mq_upd q a (\<lambda>m. Msg_SetMsgState m MSG_STATE_MARKFORREUSE)) (\<lambda>q. Inr (True, q)))
               else rbind (udp_accept env s d addr a q) (\<lambda>q. Inr (True, q))))"
proof -
  from MQ_GetMessage_spec [OF inv(1), of env] obtain a p1 ids newid m1 where
    g: "MQ_GetMessage env q = Inr (a, q\<lparr>m_msgPool := p1, m_UniqueIDProvider := ids\<rparr>)"
      "held (q\<lparr>m_msgPool := p1, m_UniqueIDProvider := ids\<rparr>) a"
      "state_of (m_msgPool q) a \<in> {Some MSG_STATE_INACTIVE, None}"
      "m_store p1 a = Some (Msg_SetMsgState (Msg_ResetMsg newid (e_now env) m1) MSG_STATE_INUSE)"
      "\<forall>b. b \<noteq> a \<longrightarrow> m_store p1 b = m_store (m_msgPool q) b" by blast
  let ?m = "Msg_SetMsgState (Msg_ResetMsg newid (e_now env) m1) MSG_STATE_INUSE"
  let ?q1 = "q\<lparr>m_msgPool := p1, m_UniqueIDProvider := ids\<rparr>"
  have ok: "bufs_ok p1" using GetMessage_bufs [OF inv(2) g(1)] by simp
  then have wf: "buf_wf (MsgBuffer ?m)" "buf_wf (MsgRawBuffer ?m)" using g(4) unfolding bufs_ok_def by blast+
  have e: "holds (MsgBuffer ?m) []"
    using wf(1) wf_empty_holds by (simp add: Msg_SetMsgState_def Msg_ResetMsg_def)
  have len: "int (length d) \<le> MAX_DGRAM_SIZE" using d(2) by (simp add: MAX_DGRAM_SIZE_def)
  from datagram_buffer [OF e len] obtain b1 b2 b3 where
    b: "Buffer_SetBufferSize (MsgBuffer ?m) MAX_DGRAM_SIZE = Inr b1" "recv_into b1 d = Inr b2" "buf_wf b2"
      "Buffer_SetBufferLength b2 (int (length d)) = Inr b3" "holds b3 d" by blast
  let ?m2 = "?m\<lparr>MsgBuffer := b2\<rparr>"
  let ?p = "pool_put p1 a ?m2"
  let ?q2 = "q\<lparr>m_msgPool := ?p, m_UniqueIDProvider := ids\<rparr>"
  have s1: "on_buffer ?q1 a (\<lambda>b. Buffer_SetBufferSize b MAX_DGRAM_SIZE) =
      Inr (?q1\<lparr>m_msgPool := pool_put p1 a (?m\<lparr>MsgBuffer := b1\<rparr>)\<rparr>)"
    using on_buffer_eq [of ?q1 a ?m "\<lambda>b. Buffer_SetBufferSize b MAX_DGRAM_SIZE"] g(4) b(1) by simp
  have s2: "on_buffer (?q1\<lparr>m_msgPool := pool_put p1 a (?m\<lparr>MsgBuffer := b1\<rparr>)\<rparr>) a (\<lambda>b. recv_into b d) = Inr ?q2"
    using on_buffer_eq [of "?q1\<lparr>m_msgPool := pool_put p1 a (?m\<lparr>MsgBuffer := b1\<rparr>)\<rparr>" a "?m\<lparr>MsgBuffer := b1\<rparr>"
        "\<lambda>b. recv_into b d" b2] b(2) by simp
  have h: "held ?q2 a" using put_inv(2) [OF g(2), of ?m2] by (simp add: Msg_SetMsgState_def)
  have pok: "bufs_ok ?p" using ok b(3) wf(2) by (intro bufs_ok_put) simp_all
  have "FD_SET (udp_ServerSocketfd s) {} = Inr {udp_ServerSocketfd s}"
    using ready by (simp add: udp_ready_def FD_SET_def)
  then have run: "UDP_Run_pass env acc ans s q =
      (if length d = 0 then Inr (False, ?q2)
       else rbind (Access_Validate acc (inet_ntoa (fst addr))) (\<lambda>rc.
               if rc = HRC_IPACCESS_DENY
               then rbind (count_con IncConRejected ?q2) (\<lambda>q.
                    rbind (mq_upd q a (\<lambda>m. Msg_SetMsgState m MSG_STATE_MARKFORREUSE)) (\<lambda>q. Inr (True, q)))
               else rbind (udp_accept env s d addr a ?q2) (\<lambda>q. Inr (True, q))))"
    using ready s1 s2 g(1)
    by (simp add: UDP_Run_pass_def udp_ready_def CreateMessage_def Let_def d(1) flip: d(2))
  have m2: "m_store ?p a = Some ?m2" "MsgState ?m2 = MSG_STATE_INUSE" "buf_wf (MsgRawBuffer ?m2)"
    "Buffer_SetBufferLength (MsgBuffer ?m2) (int (length d)) = Inr b3"
    "\<forall>b. b \<noteq> a \<longrightarrow> m_store ?p b = m_store (m_msgPool q) b"
    using wf(2) b(4) g(5) by (simp_all add: Msg_SetMsgState_def pool_put_def)
  show ?thesis using run m2 h g(3) b(5) pok unfolding Let_def by blast
qed

lemma udp_accept_spec:
  assumes h: "held q a" "bufs_ok (m_msgPool q)" and m: "m_store (m_msgPool q) a = Some m" "buf_wf (MsgRawBuffer m)"
    and b: "Buffer_SetBufferLength (MsgBuffer m) (int (length d)) = Inr b" "holds b d"
    and e: "find_sub (CRLF @ CRLF) d = Some k"
  shows "\<exists>m' q'. udp_accept env s d addr a q = Inr q' \<and> mq_inv q' \<and> bufs_ok (m_msgPool q') \<and>
    queued q' = queued q \<and> m_store (m_msgPool q') = (m_store (m_msgPool q))(a \<mapsto> m') \<and>
    MsgState m' = MSG_STATE_PENDING \<and> MsgConnectionType m' = MSG_CT_IB_UDP \<and>
    MsgProtocolType m' = MSG_PROTOCOL_MCP \<and> SourceIP m' = inet_ntoa (fst addr) \<and>
    MsgArrivalPort m' = udp_iPort s \<and> holds (MsgRawBuffer m') d \<and> holds (MsgBuffer m') d \<and>
    (Msg_GetReplyAction m' = MSG_REPLY_ACTION_WAIT \<longrightarrow>
       SourcePort m' = uint (snd addr) \<and> UDPSocketHandle m' = udp_ServerSocketfd s)"
proof -
  let ?m1 = "m\<lparr>MsgBuffer := b\<rparr>"
  let ?m2 = "Msg_SetSourceIP ?m1 (inet_ntoa (fst addr))"
  let ?q2 = "q\<lparr>m_msgPool := pool_put (m_msgPool q) a ?m2\<rparr>"
  have s1: "on_buffer q a (\<lambda>b. Buffer_SetBufferLength b (int (length d))) =
      Inr (q\<lparr>m_msgPool := pool_put (m_msgPool q) a ?m1\<rparr>)" by (rule on_buffer_eq [OF m(1)]) (rule b(1))
  have s2: "mq_upd (q\<lparr>m_msgPool := pool_put (m_msgPool q) a ?m1\<rparr>) a
      (\<lambda>m. Msg_SetSourceIP m (inet_ntoa (fst addr))) = Inr ?q2" by (simp add: mq_upd_eq)
  have m2: "m_store (m_msgPool ?q2) a = Some ?m2" "holds (MsgBuffer ?m2) d" "buf_wf (MsgRawBuffer ?m2)"
    using m(2) b(2) by (simp_all add: Msg_SetSourceIP_def)
  have ct: "MSG_CT_IB_UDP \<noteq> MSG_CT_INTERNAL" by simp
  from MQ_Parse_spec [OF m2 e ct, of env MSG_FORMAT_REQ] obtain m3 ids where
    p: "MQ_Parse env ?q2 a MSG_CT_IB_UDP MSG_FORMAT_REQ =
        Inr (?q2\<lparr>m_msgPool := pool_put (m_msgPool ?q2) a m3, m_UniqueIDProvider := ids\<rparr>)"
      "holds (MsgRawBuffer m3) d" "holds (MsgBuffer m3) d" "SourceIP m3 = SourceIP ?m2" by blast
  let ?m4 = "Msg_SetArrivalPort (Msg_SetProtocolType (Msg_SetConnectionType m3 MSG_CT_IB_UDP) MSG_PROTOCOL_MCP) (udp_iPort s)"
  let ?m5 = "Msg_DispatchMsg (e_serverName env) (e_serverAddr env) ?m4"
  let ?m6 = "if Msg_GetReplyAction ?m5 = MSG_REPLY_ACTION_WAIT
      then Msg_SetUDPSocketHandle (Msg_SetSourcePort ?m5 (uint (snd addr))) (udp_ServerSocketfd s) else ?m5"
  let ?q6 = "q\<lparr>m_msgPool := pool_put (m_msgPool q) a ?m6, m_UniqueIDProvider := ids\<rparr>"
  have run: "udp_accept env s d addr a q = Inr ?q6"
    unfolding udp_accept_def s1 rbind.simps s2 p(1)
    by (simp add: mq_upd_eq mq_get_eq MQ_DispatchMsg_def Let_def)
  have f: "MsgState ?m6 = MSG_STATE_PENDING" "MsgConnectionType ?m6 = MSG_CT_IB_UDP"
    "MsgProtocolType ?m6 = MSG_PROTOCOL_MCP" "SourceIP ?m6 = inet_ntoa (fst addr)" "MsgArrivalPort ?m6 = udp_iPort s"
    "holds (MsgRawBuffer ?m6) d" "holds (MsgBuffer ?m6) d"
    "Msg_GetReplyAction ?m6 = MSG_REPLY_ACTION_WAIT \<longrightarrow>
       SourcePort ?m6 = uint (snd addr) \<and> UDPSocketHandle ?m6 = udp_ServerSocketfd s"
    using p(2-4) cstr_id [OF inet_ntoa_no_NUL]
    by (simp_all add: Msg_DispatchMsg_def Let_def msg_setters msg_getters Msg_SetConnectionType_def)
  have "mq_inv ?q6" using put_inv(1) [OF h(1), of ?m6] by (simp add: mq_inv_def queued_def)
  moreover have "bufs_ok (pool_put (m_msgPool q) a ?m6)" using h(2) holds_wf f(6,7) by (intro bufs_ok_put) blast+
  moreover have "m_store (pool_put (m_msgPool q) a ?m6) = (m_store (m_msgPool q))(a \<mapsto> ?m6)" by (simp add: pool_put_def)
  moreover have "queued ?q6 = queued q" by simp
  ultimately show ?thesis using run f by (intro exI [of _ ?m6] exI [of _ ?q6]) simp
qed

lemma udp_accept_crash:
  assumes m: "m_store (m_msgPool q) a = Some m" "buf_wf (MsgRawBuffer m)"
    and b: "Buffer_SetBufferLength (MsgBuffer m) (int (length d)) = Inr b" "holds b d"
    and e: "find_sub CRLF d \<noteq> None" "find_sub (CRLF @ CRLF) d = None" "last d \<notin> {CR, LF}"
  shows "udp_accept env s d addr a q = Inl AssertFailed"
proof -
  obtain j where j: "find_sub CRLF d = Some j" using e(1) by blast
  have dne: "d \<noteq> []" using find_sub_SomeD [OF j] by auto
  let ?m1 = "m\<lparr>MsgBuffer := b\<rparr>"
  let ?m2 = "Msg_SetSourceIP ?m1 (inet_ntoa (fst addr))"
  let ?q2 = "q\<lparr>m_msgPool := pool_put (m_msgPool q) a ?m2\<rparr>"
  have s1: "on_buffer q a (\<lambda>b. Buffer_SetBufferLength b (int (length d))) =
      Inr (q\<lparr>m_msgPool := pool_put (m_msgPool q) a ?m1\<rparr>)" by (rule on_buffer_eq [OF m(1)]) (rule b(1))
  have s2: "mq_upd (q\<lparr>m_msgPool := pool_put (m_msgPool q) a ?m1\<rparr>) a
      (\<lambda>m. Msg_SetSourceIP m (inet_ntoa (fst addr))) = Inr ?q2" by (simp add: mq_upd_eq)
  have mb: "MsgBuffer ?m2 = b" "MsgRawBuffer ?m2 = MsgRawBuffer m" by (simp_all add: Msg_SetSourceIP_def)
  obtain blk where blk: "m_pBuffer b = Some blk" using holds_nonnull [OF b(2)] dne by blast
  obtain r rest where "blk = map Some d @ r # rest" using b(2) blk by (rule holds_SomeE)
  then have "take (length d) blk = map Some d" by simp
  from ReplaceWith_holds [OF wf_holds [OF m(2)] this refl] dne obtain raw' rc where
    raw: "Buffer_ReplaceWith (MsgRawBuffer m) (Some blk) (int (length d)) = Inr (raw', rc)" by auto
  have f1: "Buffer_BinaryFind b 0 CRLF = Inr (int j)" using BinaryFind_found [OF b(2) j] by simp
  have f2: "Buffer_BinaryFind b 0 [CR, LF, CR, LF] = Inr (-1)"
    using BinaryFind_absent [OF b(2) e(2) dne] e(3) by simp
  have t: "\<exists>x. parse_text b (int j) = Inr x" using parse_text_holds [OF b(2), of j] find_sub_SomeD [OF j] by auto
  have "Msg_Parse a newid MSG_CT_IB_UDP MSG_FORMAT_REQ ?m2 = Inl AssertFailed" for newid
    using raw blk f1 f2 t holds_tail [OF b(2)] mb
    by (auto simp: Msg_Parse_def Let_def Buffer_GetRawBuffer_def Buffer_GetBufferCount_def)
  then have "MQ_Parse env ?q2 a MSG_CT_IB_UDP MSG_FORMAT_REQ = Inl AssertFailed"
    by (simp add: MQ_Parse_def mq_get_eq split: prod.split)
  then show ?thesis unfolding udp_accept_def s1 rbind.simps s2 by simp
qed

text \<open>What a turn does with a datagram: by its sender, and by what it holds.\<close>

lemma udp_turn:
  assumes inv: "mq_inv q" "bufs_ok (m_msgPool q)" "metrics_inv now (m_pSysMetrics q)" and ready: "udp_ready ans s"
    and d: "ra_datagram ans = Datagram data addr" "d = take (nat MAX_DGRAM_SIZE) data"
  shows "d = [] \<Longrightarrow> \<exists>a m q'. UDP_Run_pass env (rule_list rules) ans s q = Inr (False, q') \<and>
      took_message q a m q' \<and> MsgState m = MSG_STATE_INUSE"
    and "d \<noteq> [] \<Longrightarrow> \<not> admitted rules (octants_of (fst addr)) \<Longrightarrow>
      \<exists>a m q'. UDP_Run_pass env (rule_list rules) ans s q = Inr (True, q') \<and> took_message q a m q' \<and>
        MsgState m = MSG_STATE_MARKFORREUSE \<and> IncConRejected (m_pSysMetrics q) = Some (m_pSysMetrics q')"
    and "find_sub (CRLF @ CRLF) d = Some k \<Longrightarrow> admitted rules (octants_of (fst addr)) \<Longrightarrow>
      \<exists>a m q'. UDP_Run_pass env (rule_list rules) ans s q = Inr (True, q') \<and> took_message q a m q' \<and>
        MsgState m = MSG_STATE_PENDING \<and> MsgConnectionType m = MSG_CT_IB_UDP \<and>
        MsgProtocolType m = MSG_PROTOCOL_MCP \<and> SourceIP m = inet_ntoa (fst addr) \<and>
        MsgArrivalPort m = udp_iPort s \<and> holds (MsgRawBuffer m) d \<and> holds (MsgBuffer m) d \<and>
        (Msg_GetReplyAction m = MSG_REPLY_ACTION_WAIT \<longrightarrow>
           SourcePort m = uint (snd addr) \<and> UDPSocketHandle m = udp_ServerSocketfd s)"
    and "find_sub CRLF d \<noteq> None \<Longrightarrow> find_sub (CRLF @ CRLF) d = None \<Longrightarrow> last d \<notin> {CR, LF} \<Longrightarrow>
      admitted rules (octants_of (fst addr)) \<Longrightarrow>
      UDP_Run_pass env (rule_list rules) ans s q = Inl AssertFailed"
proof -
  from udp_received [OF inv(1,2) ready d, of env "rule_list rules"] obtain a p ids m b where
    h: "held (q\<lparr>m_msgPool := p, m_UniqueIDProvider := ids\<rparr>) a" "bufs_ok p"
      "state_of (m_msgPool q) a \<in> {Some MSG_STATE_INACTIVE, None}" "m_store p a = Some m"
      "MsgState m = MSG_STATE_INUSE" "buf_wf (MsgRawBuffer m)"
      "Buffer_SetBufferLength (MsgBuffer m) (int (length d)) = Inr b" "holds b d"
      "\<forall>b. b \<noteq> a \<longrightarrow> m_store p b = m_store (m_msgPool q) b"
    and run: "UDP_Run_pass env (rule_list rules) ans s q =
      (let q = q\<lparr>m_msgPool := p, m_UniqueIDProvider := ids\<rparr>
       in if length d = 0 then Inr (False, q)
          else rbind (Access_Validate (rule_list rules) (inet_ntoa (fst addr))) (\<lambda>rc.
               if rc = HRC_IPACCESS_DENY
               then rbind (count_con IncConRejected q) (\<lambda>q.
                    rbind (mq_upd q a (\<lambda>m. Msg_SetMsgState m MSG_STATE_MARKFORREUSE)) (\<lambda>q. Inr (True, q)))
               else rbind (udp_accept env s d addr a q) (\<lambda>q. Inr (True, q))))" by blast
  let ?q1 = "q\<lparr>m_msgPool := p, m_UniqueIDProvider := ids\<rparr>"
  note run = run [unfolded Let_def Validate_peer rbind.simps]
  show "\<exists>a m q'. UDP_Run_pass env (rule_list rules) ans s q = Inr (False, q') \<and>
      took_message q a m q' \<and> MsgState m = MSG_STATE_INUSE" if "d = []"
    using that run h unfolding took_message_def
    by (intro exI [of _ a] exI [of _ m] exI [of _ ?q1]) (simp add: held_def)
  show "\<exists>a m q'. UDP_Run_pass env (rule_list rules) ans s q = Inr (True, q') \<and> took_message q a m q' \<and>
        MsgState m = MSG_STATE_MARKFORREUSE \<and> IncConRejected (m_pSysMetrics q) = Some (m_pSysMetrics q')"
    if "d \<noteq> []" "\<not> admitted rules (octants_of (fst addr))"
  proof -
    have "metrics_inv now (m_pSysMetrics ?q1)" using inv(3) by simp
    from count_con_spec [OF this, of IncConRejected] obtain c where
      c: "count_con IncConRejected ?q1 = Inr (?q1\<lparr>m_pSysMetrics := c\<rparr>)" "IncConRejected (m_pSysMetrics q) = Some c"
      by (auto simp: inc_any_def)
    let ?m = "Msg_SetMsgState m MSG_STATE_MARKFORREUSE"
    let ?q2 = "?q1\<lparr>m_pSysMetrics := c, m_msgPool := pool_put p a ?m\<rparr>"
    have "mq_upd (?q1\<lparr>m_pSysMetrics := c\<rparr>) a (\<lambda>m. Msg_SetMsgState m MSG_STATE_MARKFORREUSE) = Inr ?q2"
      using h(4) by (simp add: mq_upd_eq)
    then have "UDP_Run_pass env (rule_list rules) ans s q = Inr (True, ?q2)" using run that c(1) by simp
    moreover have "mq_inv ?q2" using put_inv(1) [OF h(1), of ?m] by (simp add: mq_inv_def queued_def)
    moreover have "bufs_ok (pool_put p a ?m)"
      using h(2,4) by (intro bufs_ok_put) (auto simp: bufs_ok_def Msg_SetMsgState_def)
    ultimately show ?thesis using h(3,9) c(2) unfolding took_message_def
      by (intro exI [of _ a] exI [of _ ?m] exI [of _ ?q2]) (simp add: Msg_SetMsgState_def pool_put_def)
  qed
  have acc: "UDP_Run_pass env (rule_list rules) ans s q = rbind (udp_accept env s d addr a ?q1) (\<lambda>q. Inr (True, q))"
    if "d \<noteq> []" "admitted rules (octants_of (fst addr))"
    using run that by (simp add: access_codes)
  have m: "m_store (m_msgPool ?q1) a = Some m" "bufs_ok (m_msgPool ?q1)" using h(2,4) by simp_all
  show "\<exists>a m q'. UDP_Run_pass env (rule_list rules) ans s q = Inr (True, q') \<and> took_message q a m q' \<and>
        MsgState m = MSG_STATE_PENDING \<and> MsgConnectionType m = MSG_CT_IB_UDP \<and>
        MsgProtocolType m = MSG_PROTOCOL_MCP \<and> SourceIP m = inet_ntoa (fst addr) \<and>
        MsgArrivalPort m = udp_iPort s \<and> holds (MsgRawBuffer m) d \<and> holds (MsgBuffer m) d \<and>
        (Msg_GetReplyAction m = MSG_REPLY_ACTION_WAIT \<longrightarrow>
           SourcePort m = uint (snd addr) \<and> UDPSocketHandle m = udp_ServerSocketfd s)"
    if e: "find_sub (CRLF @ CRLF) d = Some k" "admitted rules (octants_of (fst addr))"
  proof -
    have "d \<noteq> []" using e(1) by auto
    from udp_accept_spec [OF h(1) m(2,1) h(6-8) e(1), of env s addr] obtain m' q' where
      r: "udp_accept env s d addr a ?q1 = Inr q'" "mq_inv q'" "bufs_ok (m_msgPool q')" "queued q' = queued ?q1"
        "m_store (m_msgPool q') = (m_store p)(a \<mapsto> m')"
      and f: "MsgState m' = MSG_STATE_PENDING" "MsgConnectionType m' = MSG_CT_IB_UDP"
        "MsgProtocolType m' = MSG_PROTOCOL_MCP" "SourceIP m' = inet_ntoa (fst addr)" "MsgArrivalPort m' = udp_iPort s"
        "holds (MsgRawBuffer m') d" "holds (MsgBuffer m') d"
        "Msg_GetReplyAction m' = MSG_REPLY_ACTION_WAIT \<longrightarrow>
           SourcePort m' = uint (snd addr) \<and> UDPSocketHandle m' = udp_ServerSocketfd s" by auto
    have "took_message q a m' q'" using r(2-5) h(3,9) by (simp add: took_message_def)
    then show ?thesis using acc [OF \<open>d \<noteq> []\<close> e(2)] r(1) f by (intro exI [of _ a] exI [of _ m'] exI [of _ q']) simp
  qed
  show "UDP_Run_pass env (rule_list rules) ans s q = Inl AssertFailed"
    if e: "find_sub CRLF d \<noteq> None" "find_sub (CRLF @ CRLF) d = None" "last d \<notin> {CR, LF}"
      "admitted rules (octants_of (fst addr))"
  proof -
    have "d \<noteq> []" using e(1) by auto
    then show ?thesis using acc [OF _ e(4)] udp_accept_crash [OF m(1) h(6-8) e(1-3), of env s addr] by simp
  qed
qed

end
