(* ===== verification/ServerProperties.thy ===== *)
theory ServerProperties
  imports ServerLaws TransportProperties
begin

text \<open>
  The properties of the listening servers. The examples have one rule that lets in the addresses
  \<open>10.*.*.*\<close>, one that keeps out all others, and a peer on each side.
\<close>

section \<open>Small states for the examples\<close>

definition demo_rules :: "(access_type \<times> int list) list" where
  "demo_rules = [(INCLUSION, [10, -1, -1, -1]), (EXCLUSION, [-1, -1, -1, -1])]"

definition friend :: sockaddr_in where "friend = (0x0A000001, 4000)"
definition stranger :: sockaddr_in where "stranger = (0x0B000001, 4000)"

lemma demo_admits: "admitted demo_rules (octants_of (fst friend))" "\<not> admitted demo_rules (octants_of (fst stranger))"
  by code_simp+

definition demo_tcp :: cTCPServer where
  "demo_tcp = (new_cTCPServer ''0.0.0.0'' 3400)\<lparr>tcp_ServerSocketfd := 3\<rparr>"

definition demo_udp :: cUDPServer where
  "demo_udp = (new_cUDPServer ''0.0.0.0'' 3401)\<lparr>udp_ServerSocketfd := 4\<rparr>"

definition accept_turn :: "int \<Rightarrow> sockaddr_in \<Rightarrow> accept_answers" where
  "accept_turn fd addr = \<lparr>aa_now = 0, aa_select = 1, aa_except = False, aa_readable = True,
     aa_accepted = Some (fd, addr), aa_active = True\<rparr>"

definition datagram_turn :: "string \<Rightarrow> sockaddr_in \<Rightarrow> recv_answers" where
  "datagram_turn d addr = \<lparr>ra_select = 1, ra_readable = True, ra_datagram = Datagram d addr\<rparr>"

abbreviation demo_idle :: cMsgQueue where
  "demo_idle \<equiv> demo_line (demo_msg MSG_STATE_INACTIVE MSG_CT_NOTSET) []"

lemma demo_idle_ok:
  "mq_inv demo_idle" "bufs_ok (m_msgPool demo_idle)" "metrics_inv 0 (m_pSysMetrics demo_idle)"
  using demo_line_inv demo_bufs demo_metrics_inv by simp_all

lemma demo_ready: "udp_ready (datagram_turn d addr) demo_udp"
  by (simp add: udp_ready_def datagram_turn_def demo_udp_def FD_SETSIZE_def)

section \<open>The rules\<close>

text \<open>
  rules added in their text form are the rules that decide: an address is let in exactly when the
  first rule whose octets fit it, a star fitting every octet, is one of inclusion; an address that no
  rule fits is kept out.
\<close>

theorem rules_decide:
  assumes "\<forall>(ty, v) \<in> set rules. length v = 4 \<and> (\<forall>x \<in> set v. octant_ok x)"
    and "length addr = 4" "\<forall>x \<in> set addr. octant_ok x"
  shows "\<exists>l. add_rules rules (Access_Flush old) = Inr l \<and>
    Access_Validate l (dotted (map octant_text addr)) =
      Inr (if admitted rules addr then HRC_IPACCESS_OK else HRC_IPACCESS_DENY)"
  using add_rules_list [OF assms(1)] Validate_admitted [OF assms(2,3)] by (simp add: Access_Flush_def)

lemma rules_decide_witness:
  "\<exists>l. add_rules demo_rules (Access_Flush []) = Inr l \<and>
     Access_Validate l (dotted (map octant_text [10, 0, 0, 1])) = Inr HRC_IPACCESS_OK"
proof -
  have "\<forall>(ty, v) \<in> set demo_rules. length v = 4 \<and> (\<forall>x \<in> set v. octant_ok x)"
    "length [10, 0, 0, 1 :: int] = 4" "\<forall>x \<in> set [10, 0, 0, 1]. octant_ok x"
    by (simp_all add: demo_rules_def octant_ok_def)
  from rules_decide [OF this, of "[]"] show ?thesis
    by (simp add: admitted_def demo_rules_def octants_fit_def)
qed

section \<open>Connections\<close>

text \<open>
  C24: whatever the system answers in the turns of its loop, the TCP server hands to the connection queue
  exactly the connections of admitted peers, in the order they came and with the port they came to, and
  closes the connections of the other peers; it touches no message and no connection that was open.
  \<open>Run\<close> always ends with the exception that its last log throws, with the server's own socket open.
\<close>

theorem tcp_admission:
  assumes "metrics_inv now (m_pSysMetrics q)" "prequeue_inv (m_pConnectionQueue q)"
    and "0 < tcp_ServerSocketfd s" "tcp_ServerSocketfd s < FD_SETSIZE"
  shows "\<exists>s' q'. TCP_Run (rule_list rules) anss s q = Inr (''exit'', s', q') \<and>
    waiting (m_pConnectionQueue q') = waiting (m_pConnectionQueue q) @
      map (\<lambda>(fd, addr). (fd, addr, tcp_iPort s)) (filter (lets_in rules) (tcp_peers anss)) \<and>
    tcp_closed s' = tcp_closed s @ map fst (filter (\<lambda>p. \<not> lets_in rules p) (tcp_peers anss)) \<and>
    tcp_ServerSocketfd s' = tcp_ServerSocketfd s \<and>
    m_msgPool q' = m_msgPool q \<and> queued q' = queued q \<and>
    m_ConnectionCache (m_pConnectionQueue q') = m_ConnectionCache (m_pConnectionQueue q)"
proof -
  have "server_ok s" using assms(3,4) by (simp add: server_ok_def)
  from TCP_Run_spec [OF assms(1,2) this] show ?thesis
    by (fastforce simp: served_peers_def)
qed

lemma tcp_admission_witness:
  "\<exists>s' q'. TCP_Run (rule_list demo_rules) [accept_turn 7 friend, accept_turn 8 stranger] demo_tcp demo_idle =
       Inr (''exit'', s', q') \<and>
     waiting (m_pConnectionQueue q') = [(7, friend, 3400)] \<and> tcp_closed s' = [8] \<and> tcp_ServerSocketfd s' = 3"
proof -
  have q: "waiting (m_pConnectionQueue demo_idle) = []" "prequeue_inv (m_pConnectionQueue demo_idle)"
    by (simp_all add: waiting_def prequeue_inv_def demo_line_def demo_queue_def set_outbound_def set_cache_def
        new_cConnectionQueue_def)
  have s: "0 < tcp_ServerSocketfd demo_tcp" "tcp_ServerSocketfd demo_tcp < FD_SETSIZE" "tcp_iPort demo_tcp = 3400"
    "tcp_closed demo_tcp = []" "tcp_ServerSocketfd demo_tcp = 3"
    by (simp_all add: demo_tcp_def new_cTCPServer_def TCP_ResetErrorFlags_def FD_SETSIZE_def)
  have p: "tcp_peers [accept_turn 7 friend, accept_turn 8 stranger] = [(7, friend), (8, stranger)]"
    by (simp add: tcp_peers_def tcp_peer_def tcp_stops_def accept_turn_def)
  from tcp_admission [OF demo_idle_ok(3) q(2) s(1,2), of demo_rules "[accept_turn 7 friend, accept_turn 8 stranger]"]
  show ?thesis using q(1) s(3-5) p demo_admits by (auto simp: lets_in_def simp del: TCP_Run.simps)
qed

section \<open>Stop\<close>


definition demo_answers :: start_answers where
  "demo_answers = \<lparr>sa_socket = 5, sa_bound = True, sa_create = 0, sa_handle = 9\<rparr>"

lemma demo_answers_ok: "answers_ok demo_answers" "sa_socket demo_answers = 5"
  by (simp_all add: answers_ok_def demo_answers_def)


section \<open>Datagrams\<close>

text \<open>
  C25: a turn of the UDP server that receives a datagram with an empty line, the end of a header, among its
  first 512 bytes takes one message from the pool. When the rules admit the sender, that message is
  dispatched with exactly these bytes and, when its sender waits for a reply, with where to send it.
  When the rules keep the sender out, the message goes back to the pool and the rejection is
  counted. No other message changes.
\<close>

theorem udp_admission:
  assumes "mq_inv q" "bufs_ok (m_msgPool q)" "metrics_inv now (m_pSysMetrics q)" "udp_ready ans s"
    and "ra_datagram ans = Datagram data addr" "d = take (nat MAX_DGRAM_SIZE) data"
    and "find_sub (CRLF @ CRLF) d \<noteq> None"
  shows "\<exists>a m q'. UDP_Run_pass env (rule_list rules) ans s q = Inr (True, q') \<and> took_message q a m q' \<and>
    (if admitted rules (octants_of (fst addr))
     then MsgState m = MSG_STATE_PENDING \<and> MsgConnectionType m = MSG_CT_IB_UDP \<and>
       MsgProtocolType m = MSG_PROTOCOL_MCP \<and> SourceIP m = inet_ntoa (fst addr) \<and>
       MsgArrivalPort m = udp_iPort s \<and> holds (MsgRawBuffer m) d \<and> holds (MsgBuffer m) d \<and>
       (Msg_GetReplyAction m = MSG_REPLY_ACTION_WAIT \<longrightarrow>
          SourcePort m = uint (snd addr) \<and> UDPSocketHandle m = udp_ServerSocketfd s)
     else MsgState m = MSG_STATE_MARKFORREUSE \<and>
       IncConRejected (m_pSysMetrics q) = Some (m_pSysMetrics q'))"
proof -
  obtain k where k: "find_sub (CRLF @ CRLF) d = Some k" using assms(7) by blast
  then have "d \<noteq> []" by auto
  show ?thesis
  proof (cases "admitted rules (octants_of (fst addr))")
    case True
    from udp_turn(3) [OF assms(1-6) k True] True show ?thesis by simp
  next
    case False
    from udp_turn(2) [OF assms(1-6) \<open>d \<noteq> []\<close> False] False show ?thesis by simp
  qed
qed

lemma udp_admission_witness:
  "(\<exists>a m q'. UDP_Run_pass demo_env (rule_list demo_rules) (datagram_turn demo_request friend) demo_udp demo_idle =
      Inr (True, q') \<and> took_message demo_idle a m q' \<and> MsgState m = MSG_STATE_PENDING) \<and>
   (\<exists>a m q'. UDP_Run_pass demo_env (rule_list demo_rules) (datagram_turn demo_request stranger) demo_udp demo_idle =
      Inr (True, q') \<and> took_message demo_idle a m q' \<and> MsgState m = MSG_STATE_MARKFORREUSE)"
proof -
  have d: "ra_datagram (datagram_turn demo_request x) = Datagram demo_request x" for x
    by (simp add: datagram_turn_def)
  have t: "demo_request = take (nat MAX_DGRAM_SIZE) demo_request" "find_sub (CRLF @ CRLF) demo_request \<noteq> None"
    by code_simp+
  from udp_admission [OF demo_idle_ok demo_ready d t, of demo_env demo_rules friend]
    udp_admission [OF demo_idle_ok demo_ready d t, of demo_env demo_rules stranger] demo_admits
  show ?thesis by auto
qed



text \<open>
  an empty datagram, from any sender, ends the UDP server: the loop takes it for the end of the
  program, closes the socket and serves nothing that comes later; the message that was taken for it is never
  given back.
\<close>

theorem empty_datagram_stops:
  assumes "mq_inv q" "bufs_ok (m_msgPool q)" "metrics_inv now (m_pSysMetrics q)" "udp_ready ans s"
    and "ra_datagram ans = Datagram [] addr"
  shows "\<exists>a m q'. UDP_Run env (rule_list rules) (ans # rest) s q = Inr (UDP_CloseSocket s, q') \<and>
    took_message q a m q' \<and> MsgState m = MSG_STATE_INUSE \<and>
    udp_closed (UDP_CloseSocket s) = udp_closed s @ [udp_ServerSocketfd s]"
proof -
  have "[] = take (nat MAX_DGRAM_SIZE) ([] :: string)" by simp
  from udp_turn(1) [OF assms(1-5) this refl, of env rules] obtain a m q' where
    r: "UDP_Run_pass env (rule_list rules) ans s q = Inr (False, q')" "took_message q a m q'" "MsgState m = MSG_STATE_INUSE"
    by blast
  have "udp_ServerSocketfd s \<noteq> -1" using assms(4) by (auto simp: udp_ready_def)
  then show ?thesis using r
    by (intro exI [of _ a] exI [of _ m] exI [of _ q']) (simp add: UDP_CloseSocket_def)
qed

lemma empty_datagram_stops_witness:
  "\<exists>q'. UDP_Run demo_env (rule_list demo_rules) [datagram_turn [] stranger, datagram_turn demo_request friend]
     demo_udp demo_idle = Inr (UDP_CloseSocket demo_udp, q')"
proof -
  have "ra_datagram (datagram_turn [] stranger) = Datagram [] stranger" by (simp add: datagram_turn_def)
  from empty_datagram_stops [OF demo_idle_ok demo_ready this, of demo_env demo_rules "[datagram_turn demo_request friend]"]
  show ?thesis by blast
qed

end
