(* ===== verification/MimeMap.thy ===== *)
theory MimeMap
  imports StdMap
begin

text \<open>
  \<open>mimemap.h\<close> and \<open>mimemap.cpp\<close>: the class \<open>cMIMEMap\<close>, from the extension of a file to the
  content type that the web server announces. The table is the source's, in its order and with
  its repeated extensions; it is cut into four pieces here. The pieces end where the source has
  the empty text that stops the loop of the constructor.
\<close>

type_synonym cMIMEMap = "(string, string) smap"

section \<open>The table\<close>

definition mime_types_1 :: "string list" where
  "mime_types_1 =
    [''.3dmf=x-world/x-3dmf'',
     ''.3dm=x-world/x-3dmf'',
     ''.a=application/octet-stream'',
     ''.aab=application/x-authorware-bin'',
     ''.aam=application/x-authorware-map'',
     ''.aas=application/x-authorware-seg'',
     ''.abc=text/vnd.abc'',
     ''.acgi=text/html'',
     ''.afl=video/animaflex'',
     ''.ai=application/postscript'',
     ''.aif=audio/x-aiff'',
     ''.aifc=audio/x-aiff'',
     ''.aiff=audio/x-aiff'',
     ''.aim=application/x-aim'',
     ''.aip=text/x-audiosoft-intra'',
     ''.ani=application/x-navi-animation'',
     ''.aos=application/x-nokia-9000-communicator-add-on-software'',
     ''.aps=application/mime'',
     ''.arc=application/octet-stream'',
     ''.arj=application/octet-stream'',
     ''.art=image/x-jg'',
     ''.asf=video/x-ms-asf'',
     ''.asm=text/x-asm'',
     ''.asp=text/asp'',
     ''.asx=video/x-ms-asf'',
     ''.au=audio/x-au'',
     ''.avi=video/x-msvideo'',
     ''.avs=video/avs-video'',
     ''.bcpio=application/x-bcpio'',
     ''.bin=application/octet-stream'',
     ''.bm=image/bmp'',
     ''.bmp=image/x-windows-bmp'',
     ''.boo=application/book'',
     ''.book=application/book'',
     ''.boz=application/x-bzip2'',
     ''.bsh=application/x-bsh'',
     ''.bz=application/x-bzip'',
     ''.bz2=application/x-bzip2'',
     ''.c=text/plain'',
     ''.c++=text/plain'',
     ''.cat=application/vnd.ms-pki.seccat'',
     ''.cc=text/plain'',
     ''.ccad=application/clariscad'',
     ''.cco=application/x-cocoa'',
     ''.cdf=application/x-cdf'',
     ''.cer=application/x-x509-ca-cert'',
     ''.cha=application/x-chat'',
     ''.chat=application/x-chat'',
     ''.class=application/x-java-class'',
     ''.com=application/octet-stream'',
     ''.conf=text/plain'',
     ''.cpio=application/x-cpio'',
     ''.cpp=text/x-c'',
     ''.cpt=application/x-compactpro'',
     ''.crl=application/pkix-crl'',
     ''.crt=application/x-x509-ca-cert'',
     ''.csh=text/x-script.csh'',
     ''.css=text/css'',
     ''.cxx=text/plain'',
     ''.dcr=application/x-director'',
     ''.deepv=application/x-deepv'',
     ''.def=text/plain'',
     ''.der=application/x-x509-ca-cert'',
     ''.dif=video/x-dv'',
     ''.dir=application/x-director'',
     ''.dl=video/x-dl'',
     ''.doc=application/msword'',
     ''.dot=application/msword'',
     ''.dp=application/commonground'',
     ''.drw=application/drafting'',
     ''.dump=application/octet-stream'',
     ''.dv=video/x-dv'',
     ''.dvi=application/x-dvi'',
     ''.dwf=model/vnd.dwf'',
     ''.dwg=image/x-dwg'',
     ''.dxf=image/x-dwg'',
     ''.dxr=application/x-director'',
     ''.el=text/x-script.elisp'',
     ''.elc=application/x-elc'',
     ''.env=application/x-envoy'',
     ''.eps=application/postscript'',
     ''.es=application/x-esrehber'',
     ''.etx=text/x-setext'',
     ''.evy=application/x-envoy'',
     ''.exe=application/octet-stream'',
     ''.f=text/plain'',
     ''.f=text/x-fortran'',
     ''.f77=text/x-fortran'',
     ''.f90=text/plain'',
     ''.f90=text/x-fortran'',
     ''.fdf=application/vnd.fdf'',
     ''.fif=image/fif'',
     ''.fli=video/x-fli'',
     ''.flo=image/florian'',
     ''.flx=text/vnd.fmi.flexstor'',
     ''.fmf=video/x-atomic3d-feature'',
     ''.for=text/plain'',
     ''.fpx=image/vnd.net-fpx'',
     ''.frl=application/freeloader'',
     ''.funk=audio/make'',
     ''.g=text/plain'',
     ''.g3=image/g3fax'',
     ''.gif=image/gif'',
     ''.gl=video/x-gl'',
     ''.gsd=audio/x-gsm'',
     ''.gsm=audio/x-gsm'',
     ''.gsp=application/x-gsp'',
     ''.gss=application/x-gss'',
     ''.gtar=application/x-gtar'',
     ''.gz=application/x-gzip'',
     ''.gzip=application/x-gzip'',
     ''.h=text/plain'',
     ''.hdf=application/x-hdf'',
     ''.help=application/x-helpfile'',
     ''.hgl=application/vnd.hp-HPGL'',
     ''.hh=text/plain'',
     ''.hlb=text/x-script'',
     ''.hlp=application/x-winhelp'',
     ''.hpg=application/vnd.hp-HPGL'',
     ''.hpgl=application/vnd.hp-HPGL'']"

definition mime_types_2 :: "string list" where
  "mime_types_2 =
    [''.hqx=application/x-mac-binhex40'',
     ''.hta=application/hta'',
     ''.htm=text/html'',
     ''.html=text/html'',
     ''.htmls=text/html'',
     ''.htt=text/webviewhtml'',
     ''.htx=text/html'',
     ''.ice=x-conference/x-cooltalk'',
     ''.ico=image/x-icon'',
     ''.idc=text/plain'',
     ''.ief=image/ief'',
     ''.iefs=image/ief'',
     ''.iges=application/iges'',
     ''.igs=application/iges'',
     ''.ima=application/x-ima'',
     ''.imap=application/x-httpd-imap'',
     ''.inf=application/inf'',
     ''.ins=application/x-internett-signup'',
     ''.ip=application/x-ip2'',
     ''.isu=video/x-isvideo'',
     ''.it=audio/it'',
     ''.iv=application/x-inventor'',
     ''.ivr=i-world/i-vrml'',
     ''.ivy=application/x-livescreen'',
     ''.jam=audio/x-jam'',
     ''.jav=text/plain'',
     ''.java=text/plain'',
     ''.jcm=application/x-java-commerce'',
     ''.jfif=image/jpeg'',
     ''.jfif-tbnl=image/jpeg'',
     ''.jpe=image/jpeg'',
     ''.jpeg=image/jpeg'',
     ''.jpg=image/jpeg'',
     ''.jps=image/x-jps'',
     ''.js=application/x-javascript'',
     ''.jut=image/jutvision'',
     ''.kar=music/x-karaoke'',
     ''.ksh=text/x-script.ksh'',
     ''.la=audio/x-nspaudio'',
     ''.lam=audio/x-liveaudio'',
     ''.latex=application/x-latex'',
     ''.lha=application/octet-stream'',
     ''.lhx=application/octet-stream'',
     ''.list=text/plain'',
     ''.lma=audio/x-nspaudio'',
     ''.log=text/plain'',
     ''.lsp=text/x-script.lisp'',
     ''.lst=text/plain'',
     ''.lsx=text/x-la-asf'',
     ''.ltx=application/x-latex'',
     ''.lzh=application/octet-stream'',
     ''.lzx=application/octet-stream'',
     ''.m=text/plain'',
     ''.m1v=video/mpeg'',
     ''.m2a=audio/mpeg'',
     ''.m2v=video/mpeg'',
     ''.m3u=audio/x-mpequrl'',
     ''.man=application/x-troff-man'',
     ''.map=application/x-navimap'',
     ''.mar=text/plain'',
     ''.mbd=application/mbedlet'',
     ''.mc$=application/x-magic-cap-package-1.0'',
     ''.mcd=application/x-mathcad'',
     ''.mcf=text/mcf'',
     ''.mcp=application/netmc'',
     ''.me=application/x-troff-me'',
     ''.mht=message/rfc822'',
     ''.mhtml=message/rfc822'',
     ''.mid=x-music/x-midi'',
     ''.midi=audio/x-midi'',
     ''.mif=application/x-mif'',
     ''.mime=www/mime'',
     ''.mjf=audio/x-vnd.AudioExplosion.MjuiceMediaFile'',
     ''.mjpg=video/x-motion-jpeg'',
     ''.mm=application/base64'',
     ''.mme=application/base64'',
     ''.mod=audio/x-mod'',
     ''.moov=video/quicktime'',
     ''.mov=video/quicktime'',
     ''.movie=video/x-sgi-movie'',
     ''.mp2=audio/x-mpeg'',
     ''.mp3=video/x-mpeg'',
     ''.mpa=audio/mpeg'',
     ''.mpc=application/x-project'',
     ''.mpe=video/mpeg'',
     ''.mpeg=video/mpeg'',
     ''.mpg=video/mpeg'',
     ''.mpga=audio/mpeg'',
     ''.mpp=application/vnd.ms-project'',
     ''.mpt=application/x-project'',
     ''.mpv=application/x-project'',
     ''.mpx=application/x-project'',
     ''.mrc=application/marc'',
     ''.ms=application/x-troff-ms'',
     ''.mv=video/x-sgi-movie'',
     ''.my=audio/make'',
     ''.mzz=application/x-vnd.AudioExplosion.mzz'',
     ''.nap=image/naplps'',
     ''.naplps=image/naplps'',
     ''.nc=application/x-netcdf'',
     ''.ncm=application/vnd.nokia.configuration-message'',
     ''.nif=image/x-niff'',
     ''.niff=image/x-niff'',
     ''.nix=application/x-mix-transfer'',
     ''.nsc=application/x-conference'',
     ''.nvd=application/x-navidoc'',
     ''.o=application/octet-stream'',
     ''.oda=application/oda'',
     ''.omc=application/x-omc'',
     ''.omcd=application/x-omcdatamaker'',
     ''.omcr=application/x-omcregerator'',
     ''.p=text/x-pascal'',
     ''.p10=application/x-pkcs10'',
     ''.p12=application/x-pkcs12'',
     ''.p7a=application/x-pkcs7-signature'',
     ''.p7c=application/x-pkcs7-mime'',
     ''.p7m=application/x-pkcs7-mime'',
     ''.p7r=application/x-pkcs7-certreqresp'',
     ''.p7s=application/pkcs7-signature'',
     ''.part=application/pro_eng'']"

definition mime_types_3 :: "string list" where
  "mime_types_3 =
    [''.pas=text/pascal'',
     ''.pbm=image/x-portable-bitmap'',
     ''.pcl=application/x-pcl'',
     ''.pct=image/x-pict'',
     ''.pcx=image/x-pcx'',
     ''.pdb =chemical/x-pdb'',
     ''.pdf=application/pdf'',
     ''.pfunk=audio/make'',
     ''.pfunk=audio/make.my.funk'',
     ''.pgm=image/x-portable-graymap'',
     ''.pgm=image/x-portable-greymap'',
     ''.pic=image/pict'',
     ''.pict=image/pict'',
     ''.pkg=application/x-newton-compatible-pkg'',
     ''.pko=application/vnd.ms-pki.pko'',
     ''.pl=text/plain'',
     ''.plx=application/x-PiXCLscript'',
     ''.pm=image/x-xpixmap'',
     ''.pm4=application/x-pagemaker'',
     ''.pm5=application/x-pagemaker'',
     ''.png=image/png'',
     ''.pnm=application/x-portable-anymap'',
     ''.pot=application/vnd.ms-powerpoint'',
     ''.pov=model/x-pov'',
     ''.ppa=application/vnd.ms-powerpoint'',
     ''.ppm=image/x-portable-pixmap'',
     ''.pps=application/vnd.ms-powerpoint'',
     ''.ppt=application/vnd.ms-powerpoint'',
     ''.ppz=application/mspowerpoint'',
     ''.pre=application/x-freelance'',
     ''.prt=application/pro_eng'',
     ''.ps=application/postscript'',
     ''.psd=application/octet-stream'',
     ''.pvu=paleovu/x-pv'',
     ''.pwz=application/vnd.ms-powerpoint'',
     ''.py=text/x-script.phyton'',
     ''.pyc=applicaiton/x-bytecode.python'',
     ''.qcp=audio/vnd.qcelp'',
     ''.qd3=x-world/x-3dmf'',
     ''.qd3d=x-world/x-3dmf'',
     ''.qif=image/x-quicktime'',
     ''.qt=video/quicktime'',
     ''.qtc=video/x-qtc'',
     ''.qti=image/x-quicktime'',
     ''.qtif=image/x-quicktime'',
     ''.ra=audio/x-realaudio'',
     ''.ram=audio/x-pn-realaudio'',
     ''.ras=image/x-cmu-raster'',
     ''.rast=image/cmu-raster'',
     ''.rexx=text/x-script.rexx'',
     ''.rf=image/vnd.rn-realflash'',
     ''.rgb=image/x-rgb'',
     ''.rm=application/vnd.rn-realmedia'',
     ''.rmi=audio/mid'',
     ''.rmm=audio/x-pn-realaudio'',
     ''.rmp=audio/x-pn-realaudio'',
     ''.rng=application/ringing-tones'',
     ''.rnx=application/vnd.rn-realplayer'',
     ''.roff=application/x-troff'',
     ''.rp=image/vnd.rn-realpix'',
     ''.rpm=audio/x-pn-realaudio-plugin'',
     ''.rt=text/vnd.rn-realtext'',
     ''.rtf=text/richtext'',
     ''.rtx=text/richtext'',
     ''.rv=video/vnd.rn-realvideo'',
     ''.s=text/x-asm'',
     ''.s3m=audio/s3m'',
     ''.saveme=application/octet-stream'',
     ''.sbk=application/x-tbook'',
     ''.scm=text/x-script.scheme'',
     ''.sdml=text/plain'',
     ''.sdp=application/sdp'',
     ''.sdp=application/x-sdp'',
     ''.sdr=application/sounder'',
     ''.sea=application/sea'',
     ''.sea=application/x-sea'',
     ''.sexpr=text/s-expression'',
     ''.set=application/set'',
     ''.sgm=text/x-sgml'',
     ''.sgml=text/x-sgml'',
     ''.sh=text/x-script.sh'',
     ''.shar=application/x-bsh'',
     ''.shtml=text/x-server-parsed-html'',
     ''.sid=audio/x-psid'',
     ''.sit=application/x-sit'',
     ''.skd=application/x-koan'',
     ''.skm=application/x-koan'',
     ''.skp=application/x-koan'',
     ''.skt=application/x-koan'',
     ''.sl=application/x-seelogo'',
     ''.smi=application/smil'',
     ''.smil=application/smil'',
     ''.snd=audio/x-adpcm'',
     ''.sol=application/solids'',
     ''.spc=text/x-speech'',
     ''.spl=application/futuresplash'',
     ''.spr=application/x-sprite'',
     ''.sprite=application/x-sprite'',
     ''.src=application/x-wais-source'',
     ''.ssi=text/x-server-parsed-html'',
     ''.ssm=application/streamingmedia'',
     ''.sst=application/vnd.ms-pki.certstore'',
     ''.step=application/step'',
     ''.stl=application/x-navistyle'',
     ''.stp=application/step'',
     ''.sv4cpio=application/x-sv4cpio'',
     ''.sv4crc=application/x-sv4crc'',
     ''.svf=image/x-dwg'',
     ''.svr=x-world/x-svr'',
     ''.swf=application/x-shockwave-flash'',
     ''.t=application/x-troff'',
     ''.talk=text/x-speech'',
     ''.tar=application/x-tar'',
     ''.tbk=application/x-tbook'',
     ''.tcl=text/x-script.tcl'',
     ''.tcsh=text/x-script.tcsh'',
     ''.tex=application/x-tex'',
     ''.texi=application/x-texinfo'',
     ''.texinfo=application/x-texinfo'',
     ''.text=text/plain'']"

definition mime_types_4 :: "string list" where
  "mime_types_4 =
    [''.tgz=application/x-compressed'',
     ''.tif=image/x-tiff'',
     ''.tiff=image/x-tiff'',
     ''.tr=application/x-troff'',
     ''.tsi=audio/tsp-audio'',
     ''.tsp=audio/tsplayer'',
     ''.tsv=text/tab-separated-values'',
     ''.turbot=image/florian'',
     ''.txt=text/plain'',
     ''.uil=text/x-uil'',
     ''.uni=text/uri-list'',
     ''.unis=text/uri-list'',
     ''.unv=application/i-deas'',
     ''.uri=text/uri-list'',
     ''.uris=text/uri-list'',
     ''.ustar=application/x-ustar'',
     ''.uu=text/x-uuencode'',
     ''.uue=text/x-uuencode'',
     ''.vcd=application/x-cdlink'',
     ''.vcs=text/x-vCalendar'',
     ''.vda=application/vda'',
     ''.vdo=video/vdo'',
     ''.vew=application/groupwise'',
     ''.viv=video/vnd.vivo'',
     ''.vivo=video/vnd.vivo'',
     ''.vmd=application/vocaltec-media-desc'',
     ''.vmf=application/vocaltec-media-file'',
     ''.voc=audio/voc'',
     ''.voc=audio/x-voc'',
     ''.vos=video/vosaic'',
     ''.vox=audio/voxware'',
     ''.vqe=audio/x-twinvq-plugin'',
     ''.vqf=audio/x-twinvq'',
     ''.vql=audio/x-twinvq-plugin'',
     ''.vrml=application/x-vrml'',
     ''.vrt=x-world/x-vrt'',
     ''.vsd=application/x-visio'',
     ''.vst=application/x-visio'',
     ''.vsw=application/x-visio'',
     ''.w60=application/wordperfect6.0'',
     ''.w61=application/wordperfect6.1'',
     ''.w6w=application/msword'',
     ''.wav=audio/x-wav'',
     ''.wb1=application/x-qpro'',
     ''.wbmp=image/vnd.wap.wbmp'',
     ''.web=application/vnd.xara'',
     ''.wiz=application/msword'',
     ''.wk1=application/x-123'',
     ''.wmf=windows/metafile'',
     ''.wml=text/vnd.wap.wml'',
     ''.wmlc=application/vnd.wap.wmlc'',
     ''.wmls=text/vnd.wap.wmlscript'',
     ''.wmlsc=application/vnd.wap.wmlscriptc'',
     ''.word=application/msword'',
     ''.wp=application/wordperfect'',
     ''.wp5=application/wordperfect'',
     ''.wp6=application/wordperfect'',
     ''.wpd=application/wordperfect'',
     ''.wq1=application/x-lotus'',
     ''.wri=application/mswrite'',
     ''.wrl=x-world/x-vrml'',
     ''.wrz=x-world/x-vrml'',
     ''.wsc=text/scriplet'',
     ''.wsrc=application/x-wais-source'',
     ''.wtk=application/x-wintalk'',
     ''.x-png=image/png'',
     ''.xbm=image/x-xbitmap'',
     ''.xdr=video/x-amt-demorun'',
     ''.xgz=xgl/drawing'',
     ''.xif=image/vnd.xiff'',
     ''.xl=application/excel'',
     ''.xla=application/x-msexcel'',
     ''.xlb=application/vnd.ms-excel'',
     ''.xlc=application/vnd.ms-excel'',
     ''.xld=application/x-excel'',
     ''.xlk=application/x-excel'',
     ''.xll=application/vnd.ms-excel'',
     ''.xlm=application/x-excel'',
     ''.xls=application/vnd.ms-excel'',
     ''.xls=application/x-msexcel'',
     ''.xlt=application/x-excel'',
     ''.xlv=application/x-excel'',
     ''.xlw=application/vnd.ms-excel'',
     ''.xm=audio/xm'',
     ''.xml=text/xml'',
     ''.xmz=xgl/movie'',
     ''.xpix=application/x-vnd.ls-xpix'',
     ''.xpm=image/x-xpixmap'',
     ''.xsr=video/x-amt-showrun'',
     ''.xwd=image/x-xwd'',
     ''.xyz=chemical/x-pdb'',
     ''.z=application/x-compress'',
     ''.zip=application/x-zip-compressed'',
     ''.zoo=application/octet-stream'',
     ''.zsh=text/x-script.zsh'',
     '''']"

definition pMIMETypes :: "string list" where
  "pMIMETypes = mime_types_1 @ mime_types_2 @ mime_types_3 @ mime_types_4"

section \<open>Operations\<close>

text \<open>One line of the table: the position of the equals sign divides it.\<close>

definition mime_entry :: "string \<Rightarrow> string \<times> string" where
  "mime_entry t =
     (case find_sub ''='' t of
        None \<Rightarrow> (t, [])
      | Some imark \<Rightarrow> (take imark t, take (length t - imark) (drop (imark + 1) t)))"

fun mime_loop :: "string list \<Rightarrow> cMIMEMap \<Rightarrow> cMIMEMap" where
  "mime_loop [] m = m"
| "mime_loop (t # ts) m =
     (if starts_with ''.'' t
      then (let (extention, contenttype) = mime_entry t
            in mime_loop ts (smap_insert extention contenttype m))
      else m)"

definition new_cMIMEMap :: cMIMEMap where
  "new_cMIMEMap = mime_loop pMIMETypes []"

definition MimeMap_GetContentType :: "cMIMEMap \<Rightarrow> string \<Rightarrow> string" where
  "MimeMap_GetContentType m fileExtention =
     (case smap_find m fileExtention of None \<Rightarrow> [] | Some v \<Rightarrow> v)"

definition MimeMap_GetContentType_cstr :: "cMIMEMap \<Rightarrow> string \<Rightarrow> string option" where
  "MimeMap_GetContentType_cstr m pFileExtention =
     (case smap_find m (cstr pFileExtention) of None \<Rightarrow> None | Some v \<Rightarrow> Some (cstr v))"

section \<open>The first line of an extension decides\<close>

lemma mime_loop_inv: "smap_inv m \<Longrightarrow> smap_inv (mime_loop ts m)"
  by (induction ts m rule: mime_loop.induct) (auto simp: smap_inv_insert split: prod.splits)

lemma mime_loop_find:
  "\<forall>t \<in> set ts. starts_with ''.'' t \<Longrightarrow>
     smap_find (mime_loop ts m) = map_of (map mime_entry ts) ++ smap_find m"
proof (induction ts m rule: mime_loop.induct)
  case (1 m)
  then show ?case by simp
next
  case (2 t ts m)
  obtain e c where ec: "mime_entry t = (e, c)" by (cases "mime_entry t")
  have "smap_find (mime_loop ts (smap_insert e c m)) =
      map_of (map mime_entry ts) ++ smap_find (smap_insert e c m)"
    using "2.IH" [OF _ ec [symmetric]] "2.prems" by simp
  then show ?case using "2.prems" ec
    by (auto simp: fun_eq_iff map_add_def smap_find_insert split: option.splits)
qed

lemma mime_loop_stop:
  "\<forall>t \<in> set ts. starts_with ''.'' t \<Longrightarrow> mime_loop (ts @ [[]]) m = mime_loop ts m"
  by (induction ts m rule: mime_loop.induct) (auto split: prod.splits)

abbreviation dotted :: "string list \<Rightarrow> bool" where
  "dotted ts \<equiv> list_all (starts_with ''.'') ts"

lemma mime_tables_dotted:
  "dotted mime_types_1" "dotted mime_types_2" "dotted mime_types_3" "dotted (butlast mime_types_4)"
  by code_simp+

lemma mime_table_end: "mime_types_4 \<noteq> []" "last mime_types_4 = []"
  by (simp_all add: mime_types_4_def)

lemma mime_table_dotted:
  "dotted (butlast pMIMETypes)" "pMIMETypes \<noteq> []" "last pMIMETypes = []"
  using mime_tables_dotted mime_table_end by (simp_all add: pMIMETypes_def butlast_append)

lemma map_of_find:
  "map_of (map f ts) k = map_option (\<lambda>t. snd (f t)) (List.find (\<lambda>t. fst (f t) = k) ts)"
proof (induction ts)
  case Nil
  then show ?case by simp
next
  case (Cons t ts)
  then show ?case by (cases "f t") auto
qed

lemma mime_find:
  "smap_find new_cMIMEMap e = map_of (map mime_entry (butlast pMIMETypes)) e"
proof -
  have t: "\<forall>t \<in> set (butlast pMIMETypes). starts_with ''.'' t"
    using mime_table_dotted by (simp add: list_all_iff)
  have "pMIMETypes = butlast pMIMETypes @ [[]]"
    using mime_table_dotted append_butlast_last_id by metis
  then have "new_cMIMEMap = mime_loop (butlast pMIMETypes) []"
    unfolding new_cMIMEMap_def using mime_loop_stop [OF t] by metis
  then show ?thesis using mime_loop_find [OF t, of "[]"] by (simp add: std.lookup_empty)
qed

end
