(* ===== verification/FileCache.thy ===== *)
theory FileCache
  imports StdMap BufferLaws UniqueIDProvider
begin

text \<open>
  \<open>filecache.h\<close> and \<open>filecache.cpp\<close>: the class \<open>cFileCache\<close>, the files that the web server keeps in
  memory. The map holds pointers to entries, and the web server works on an entry through its
  pointer, so the entries are in a store of their own; an address is a number, and \<open>fc_next\<close> the
  next one that \<open>new\<close> gives. The file data is given as a buffer of the caller.

  \<open>Store\<close> does not delete the entry that it replaces, which stays in the store. What the source
  leaves to do (room for a new entry, a smaller cache) changes nothing here either, and
  \<open>m_CurrentCacheInUse\<close> keeps its first value.
\<close>

record cFileCacheEntry =
  fileName :: string
  fileData :: cBuffer
  fileTimeStamp :: int
  fileLastAccessedTimeStamp :: int
  accessCount :: int
  entityTag :: string

record cFileCache =
  fc_Map :: "(string, nat) smap"
  fc_store :: "nat \<Rightarrow> cFileCacheEntry option"
  fc_next :: nat
  m_CacheSize :: int
  m_CurrentCacheInUse :: int

section \<open>Operations\<close>

definition new_cFileCache :: cFileCache where
  "new_cFileCache =
     \<lparr>fc_Map = [], fc_store = (\<lambda>_. None), fc_next = 0, m_CacheSize = 4096000,
      m_CurrentCacheInUse = 0\<rparr>"

definition fc_get :: "cFileCache \<Rightarrow> nat \<Rightarrow> cFileCacheEntry result" where
  "fc_get c a = (case fc_store c a of None \<Rightarrow> Inl DanglingPointer | Some e \<Rightarrow> Inr e)"

definition fc_put :: "cFileCache \<Rightarrow> nat \<Rightarrow> cFileCacheEntry \<Rightarrow> cFileCache" where
  "fc_put c a e = c\<lparr>fc_store := (fc_store c)(a \<mapsto> e)\<rparr>"

definition GetFileEntry :: "cFileCache \<Rightarrow> string \<Rightarrow> (nat option \<times> cFileCache) result" where
  "GetFileEntry c name =
     (case smap_find (fc_Map c) name of
        None \<Rightarrow> Inr (None, c)
      | Some a \<Rightarrow> rbind (fc_get c a) (\<lambda>e.
          Inr (Some a, fc_put c a (e\<lparr>accessCount := accessCount e + 1\<rparr>))))"

definition UpdateFileAccessTime :: "int \<Rightarrow> cFileCache \<Rightarrow> string \<Rightarrow> cFileCache result" where
  "UpdateFileAccessTime now c name =
     (case smap_find (fc_Map c) name of
        None \<Rightarrow> Inr c
      | Some a \<Rightarrow> rbind (fc_get c a) (\<lambda>e.
          Inr (fc_put c a (e\<lparr>fileLastAccessedTimeStamp := now\<rparr>))))"

definition FileCache_Store ::
  "(nat \<Rightarrow> string) \<Rightarrow> int \<Rightarrow> cFileCache \<Rightarrow> string \<Rightarrow> cBuffer \<Rightarrow> int \<Rightarrow> cUniqueIDProvider \<Rightarrow>
     (bool \<times> cFileCache \<times> cBuffer \<times> cUniqueIDProvider) result" where
  "FileCache_Store uuid now c name pFileData timeStamp ids =
     (if Buffer_GetBufferCount pFileData > m_CacheSize c then Inr (False, c, pFileData, ids)
      else
        let c = (case smap_find (fc_Map c) name of
                   None \<Rightarrow> c
                 | Some _ \<Rightarrow> c\<lparr>fc_Map := smap_erase name (fc_Map c)\<rparr>);
            a = fc_next c;
            c = c\<lparr>fc_next := a + 1\<rparr>
        in rbind (Buffer_GetBuffer pFileData) (\<lambda>(pFileData, p).
           rbind (Buffer_ReplaceWith new_cBuffer p (Buffer_GetBufferCount pFileData)) (\<lambda>(b, _).
           let (uuid, ids) = UniqueID_GetID uuid ids;
               e = \<lparr>fileName = name, fileData = b, fileTimeStamp = timeStamp,
                    fileLastAccessedTimeStamp = now, accessCount = 0, entityTag = uuid\<rparr>;
               c = fc_put c a e
           in Inr (True, c\<lparr>fc_Map := smap_insert name a (fc_Map c)\<rparr>, pFileData, ids))))"

definition FileCache_HasEntry :: "cFileCache \<Rightarrow> string \<Rightarrow> bool" where
  "FileCache_HasEntry c name = (smap_find (fc_Map c) name \<noteq> None)"

definition GetEntityTag :: "cFileCache \<Rightarrow> string \<Rightarrow> string option result" where
  "GetEntityTag c name =
     (case smap_find (fc_Map c) name of
        None \<Rightarrow> Inr None
      | Some a \<Rightarrow> rbind (fc_get c a) (\<lambda>e. Inr (Some (cstr (entityTag e)))))"

definition SetCacheMaxSize :: "cFileCache \<Rightarrow> int \<Rightarrow> cFileCache" where
  "SetCacheMaxSize c cacheSize = c\<lparr>m_CacheSize := cacheSize\<rparr>"

section \<open>The contract\<close>

text \<open>
  \<open>fc_inv\<close>: every entry of the map is in the store, under a number below the next one, with the name
  it is filed under and with a well-formed buffer; no two names share an entry. \<open>cached\<close> is what
  the cache holds of a file: bytes, time stamp, tag.
\<close>

definition fc_inv :: "cFileCache \<Rightarrow> bool" where
  "fc_inv c \<longleftrightarrow> smap_inv (fc_Map c) \<and>
     (\<forall>name a. smap_find (fc_Map c) name = Some a \<longrightarrow>
        a < fc_next c \<and>
        (\<exists>e. fc_store c a = Some e \<and> fileName e = name \<and> buf_wf (fileData e)))"

definition cached :: "cFileCache \<Rightarrow> string \<Rightarrow> (string \<times> int \<times> string) option" where
  "cached c name =
     (case smap_find (fc_Map c) name of
        None \<Rightarrow> None
      | Some a \<Rightarrow> (case fc_store c a of
          None \<Rightarrow> None
        | Some e \<Rightarrow> Some (contents (fileData e), fileTimeStamp e, entityTag e)))"

lemma fc_inv_new: "fc_inv new_cFileCache"
  by (simp add: fc_inv_def new_cFileCache_def smap_inv_Nil smap_find_def)

lemma fc_inv_entry:
  assumes "fc_inv c" "smap_find (fc_Map c) name = Some a"
  obtains e where "fc_store c a = Some e" "fileName e = name" "buf_wf (fileData e)"
    "a < fc_next c" "cached c name = Some (contents (fileData e), fileTimeStamp e, entityTag e)"
  using assms by (auto simp: fc_inv_def cached_def)

lemma fc_inv_get:
  "fc_inv c \<Longrightarrow> smap_find (fc_Map c) name = Some a \<Longrightarrow>
     a < fc_next c \<and> (\<exists>e. fc_store c a = Some e \<and> fileName e = name \<and> buf_wf (fileData e))"
  by (simp add: fc_inv_def)

lemma fc_inv_inj:
  assumes "fc_inv c" "smap_find (fc_Map c) n1 = Some a" "smap_find (fc_Map c) n2 = Some a"
  shows "n1 = n2"
  using fc_inv_entry [OF assms(1,2)] fc_inv_entry [OF assms(1,3)] by (metis option.inject)

text \<open>Changing an entry in place, without its name.\<close>

lemma fc_put_same:
  assumes c: "fc_inv c" and a: "smap_find (fc_Map c) name = Some a" "fc_store c a = Some e"
    and e': "fileName e' = fileName e" "buf_wf (fileData e')"
  shows "fc_inv (fc_put c a e')"
    "cached (fc_put c a e') = (cached c)(name \<mapsto> (contents (fileData e'), fileTimeStamp e', entityTag e'))"
proof -
  have n: "fileName e = name" using fc_inv_entry [OF c a(1)] a(2) by auto
  show "fc_inv (fc_put c a e')"
    unfolding fc_inv_def
  proof (intro conjI allI impI)
    show "smap_inv (fc_Map (fc_put c a e'))" using c by (simp add: fc_inv_def fc_put_def)
    fix m b assume m: "smap_find (fc_Map (fc_put c a e')) m = Some b"
    then have m': "smap_find (fc_Map c) m = Some b" by (simp add: fc_put_def)
    obtain f where f: "fc_store c b = Some f" "fileName f = m" "buf_wf (fileData f)" "b < fc_next c"
      using fc_inv_entry [OF c m'] by metis
    show "b < fc_next (fc_put c a e')" using f by (simp add: fc_put_def)
    show "\<exists>e. fc_store (fc_put c a e') b = Some e \<and> fileName e = m \<and> buf_wf (fileData e)"
      using f e' a(2) by (cases "b = a") (auto simp: fc_put_def)
  qed
  show "cached (fc_put c a e') =
      (cached c)(name \<mapsto> (contents (fileData e'), fileTimeStamp e', entityTag e'))"
  proof
    fix m
    show "cached (fc_put c a e') m =
        ((cached c)(name \<mapsto> (contents (fileData e'), fileTimeStamp e', entityTag e'))) m"
    proof (cases "m = name")
      case True
      then show ?thesis using a by (simp add: cached_def fc_put_def)
    next
      case False
      then have "smap_find (fc_Map c) m \<noteq> Some a" using fc_inv_inj [OF c _ a(1)] by blast
      then show ?thesis using False by (auto simp: cached_def fc_put_def split: option.splits)
    qed
  qed
qed

text \<open>Looking an entry up and noting the time change nothing that the cache holds.\<close>

lemma cached_idem: "smap_find (fc_Map c) name = Some a \<Longrightarrow> fc_store c a = Some e \<Longrightarrow>
    (cached c)(name \<mapsto> (contents (fileData e), fileTimeStamp e, entityTag e)) = cached c"
  by (auto simp: cached_def fun_eq_iff)

lemma GetFileEntry_spec:
  assumes "fc_inv c" "smap_find (fc_Map c) name = Some a" "fc_store c a = Some e"
  shows "GetFileEntry c name = Inr (Some a, fc_put c a (e\<lparr>accessCount := accessCount e + 1\<rparr>))"
    "fc_inv (fc_put c a (e\<lparr>accessCount := accessCount e + 1\<rparr>))"
    "cached (fc_put c a (e\<lparr>accessCount := accessCount e + 1\<rparr>)) = cached c"
proof -
  have wf: "buf_wf (fileData e)" using fc_inv_entry [OF assms(1,2)] assms(3) by auto
  show "GetFileEntry c name = Inr (Some a, fc_put c a (e\<lparr>accessCount := accessCount e + 1\<rparr>))"
    using assms by (simp add: GetFileEntry_def fc_get_def)
  show "fc_inv (fc_put c a (e\<lparr>accessCount := accessCount e + 1\<rparr>))"
    using fc_put_same(1) [OF assms] wf by simp
  show "cached (fc_put c a (e\<lparr>accessCount := accessCount e + 1\<rparr>)) = cached c"
    using fc_put_same(2) [OF assms, of "e\<lparr>accessCount := accessCount e + 1\<rparr>"] wf
      cached_idem [OF assms(2,3)] by simp
qed

lemma UpdateFileAccessTime_absent:
  "smap_find (fc_Map c) name = None \<Longrightarrow> UpdateFileAccessTime now c name = Inr c"
  by (simp add: UpdateFileAccessTime_def)

lemma UpdateFileAccessTime_spec:
  assumes "fc_inv c" "smap_find (fc_Map c) name = Some a" "fc_store c a = Some e"
  shows "UpdateFileAccessTime now c name = Inr (fc_put c a (e\<lparr>fileLastAccessedTimeStamp := now\<rparr>))"
    "fc_inv (fc_put c a (e\<lparr>fileLastAccessedTimeStamp := now\<rparr>))"
    "cached (fc_put c a (e\<lparr>fileLastAccessedTimeStamp := now\<rparr>)) = cached c"
proof -
  have wf: "buf_wf (fileData e)" using fc_inv_entry [OF assms(1,2)] assms(3) by auto
  show "UpdateFileAccessTime now c name = Inr (fc_put c a (e\<lparr>fileLastAccessedTimeStamp := now\<rparr>))"
    using assms by (simp add: UpdateFileAccessTime_def fc_get_def)
  show "fc_inv (fc_put c a (e\<lparr>fileLastAccessedTimeStamp := now\<rparr>))"
    using fc_put_same(1) [OF assms] wf by simp
  show "cached (fc_put c a (e\<lparr>fileLastAccessedTimeStamp := now\<rparr>)) = cached c"
    using fc_put_same(2) [OF assms, of "e\<lparr>fileLastAccessedTimeStamp := now\<rparr>"] wf
      cached_idem [OF assms(2,3)] by simp
qed

text \<open>What \<open>Store\<close> copies: the bytes in use of the buffer, terminated or not allocated at all.\<close>

lemma store_copy:
  assumes h: "holds b s"
  obtains b' p e rc where "Buffer_GetBuffer b = Inr (b', p)" "holds b' s"
    "Buffer_GetBufferCount b' = int (length s)"
    "Buffer_ReplaceWith new_cBuffer p (int (length s)) = Inr (e, rc)" "holds e s"
proof (cases "m_pBuffer b")
  case None
  then have s: "s = []" using h by (simp add: holds_None)
  show thesis
  proof (rule that [of b None "Buffer_Reset new_cBuffer" BUFFER_NO_ERROR])
    show "Buffer_GetBuffer b = Inr (b, None)" using None by (simp add: Buffer_GetBuffer_def)
    show "Buffer_GetBufferCount b = int (length s)"
      using holds_tail [OF h] by (simp add: Buffer_GetBufferCount_def)
    show "holds (Buffer_Reset new_cBuffer) s" using holds_Reset [OF holds_new] s by simp
  qed (use h in \<open>simp_all add: Buffer_ReplaceWith_def\<close>)
next
  case (Some blk)
  then obtain b' rest where
    b': "Buffer_GetBuffer b = Inr (b', Some (map Some s @ Some NUL # rest))" "holds b' s"
    using GetBuffer_holds [OF h] by auto
  obtain e rc where
    e: "Buffer_ReplaceWith new_cBuffer (Some (map Some s @ Some NUL # rest)) (int (length s)) = Inr (e, rc)"
      "holds e s"
    using ReplaceWith_holds [OF holds_new, of "length s" "map Some s @ Some NUL # rest" s] by auto
  show thesis
    using that [OF b'(1,2) _ e] holds_tail [OF b'(2)] by (simp add: Buffer_GetBufferCount_def)
qed

lemma Store_too_large:
  "holds b s \<Longrightarrow> m_CacheSize c < int (length s) \<Longrightarrow>
     FileCache_Store uuid now c name b ts ids = Inr (False, c, b, ids)"
  by (simp add: FileCache_Store_def Buffer_GetBufferCount_def holds_tail)

text \<open>Filing a new entry under a name that the map does not have (any more).\<close>

lemma fc_file:
  assumes c: "fc_inv c" and e: "fileName e = name" "buf_wf (fileData e)"
    and m: "m = smap_insert name (fc_next c)
      (case smap_find (fc_Map c) name of None \<Rightarrow> fc_Map c | Some _ \<Rightarrow> smap_erase name (fc_Map c))"
    and c': "c' = c\<lparr>fc_Map := m, fc_store := (fc_store c)(fc_next c \<mapsto> e), fc_next := fc_next c + 1\<rparr>"
  shows "fc_inv c'"
    "cached c' = (cached c)(name \<mapsto> (contents (fileData e), fileTimeStamp e, entityTag e))"
proof -
  have look: "smap_find m = (smap_find (fc_Map c))(name \<mapsto> fc_next c)"
    by (cases "smap_find (fc_Map c) name")
      (auto simp: m smap_find_insert smap_find_erase fun_eq_iff)
  have inv: "smap_inv m"
    using c by (auto simp: m fc_inv_def smap_inv_insert smap_inv_erase split: option.splits)
  have old: "smap_find (fc_Map c) n = Some a \<Longrightarrow> a \<noteq> fc_next c" for n a
    using fc_inv_get [OF c, of n a] by auto
  show "fc_inv c'"
    unfolding fc_inv_def
  proof (intro conjI allI impI)
    show "smap_inv (fc_Map c')" using inv by (simp add: c')
    fix n a assume "smap_find (fc_Map c') n = Some a"
    then have n: "smap_find m n = Some a" by (simp add: c')
    show "a < fc_next c'"
      using n fc_inv_get [OF c, of n a] by (cases "n = name") (auto simp: look c')
    show "\<exists>e. fc_store c' a = Some e \<and> fileName e = n \<and> buf_wf (fileData e)"
      using n e fc_inv_get [OF c, of n a] old [of n a]
      by (cases "n = name") (auto simp: look c')
  qed
  show "cached c' = (cached c)(name \<mapsto> (contents (fileData e), fileTimeStamp e, entityTag e))"
  proof
    fix n
    show "cached c' n =
        ((cached c)(name \<mapsto> (contents (fileData e), fileTimeStamp e, entityTag e))) n"
      using old [of n] look
      by (cases "n = name"; cases "smap_find (fc_Map c) n") (auto simp: cached_def c')
  qed
qed

lemma Store_spec:
  assumes c: "fc_inv c" and h: "holds b s" and fits: "int (length s) \<le> m_CacheSize c"
    and i: "UniqueID_GetID uuid ids = (tag, ids')"
  obtains c' b' where "FileCache_Store uuid now c name b ts ids = Inr (True, c', b', ids')"
    "fc_inv c'" "holds b' s" "cached c' = (cached c)(name \<mapsto> (s, ts, tag))"
    "m_CacheSize c' = m_CacheSize c" "GetEntityTag c' name = Inr (Some (cstr tag))"
proof -
  obtain b' p d rc where b': "Buffer_GetBuffer b = Inr (b', p)" "holds b' s"
      "Buffer_GetBufferCount b' = int (length s)"
      "Buffer_ReplaceWith new_cBuffer p (int (length s)) = Inr (d, rc)" "holds d s"
    using store_copy [OF h] by metis
  let ?e = "\<lparr>fileName = name, fileData = d, fileTimeStamp = ts, fileLastAccessedTimeStamp = now,
    accessCount = 0, entityTag = tag\<rparr>"
  let ?m = "smap_insert name (fc_next c)
      (case smap_find (fc_Map c) name of None \<Rightarrow> fc_Map c | Some _ \<Rightarrow> smap_erase name (fc_Map c))"
  let ?c = "c\<lparr>fc_Map := ?m, fc_store := (fc_store c)(fc_next c \<mapsto> ?e), fc_next := fc_next c + 1\<rparr>"
  have e: "fileName ?e = name" "buf_wf (fileData ?e)" using holds_wf [OF b'(5)] by simp_all
  note filed = fc_file [OF c e refl refl]
  have look: "smap_find ?m name = Some (fc_next c)"
    by (cases "smap_find (fc_Map c) name") (auto simp: smap_find_insert smap_find_erase)
  show thesis
  proof (rule that)
    show "FileCache_Store uuid now c name b ts ids = Inr (True, ?c, b', ids')"
      using b' fits holds_tail [OF h] i
      by (cases "smap_find (fc_Map c) name")
        (simp_all add: FileCache_Store_def Buffer_GetBufferCount_def fc_put_def Let_def)
    show "fc_inv ?c" by (rule filed(1))
    show "holds b' s" by (rule b')
    show "cached ?c = (cached c)(name \<mapsto> (s, ts, tag))"
      using filed(2) holds_contents [OF b'(5)] by simp
    show "GetEntityTag ?c name = Inr (Some (cstr tag))"
      using look by (simp add: GetEntityTag_def fc_get_def)
  qed simp
qed

end
