(* ===== verification/WebRequest.thy ===== *)
theory WebRequest
  imports MsgQueue NodeTables MimeMap FileCache
begin

text \<open>
  \<open>webrequesthandler.h\<close> and \<open>webrequesthandler.cpp\<close>: the class \<open>cWebRequestHandler\<close>, a thread that
  answers one HTTP request of the web server: it reads the request, finds the file that it asks
  for, and makes the reply message.

  A handler works on the queue of messages and on the file cache of the core, which are the
  \<open>web_world\<close>; the directories are an argument. What the system answers is the record \<open>web_env\<close>:
  the bytes of a file, its time of modification (as the Linux build asks for it; \<open>None\<close> when the
  file cannot be opened), the broken-down and the printed time, the printed time since the
  request came, and whether the core runs without a configuration. Nothing that the functions
  here call throws, so their \<open>catch\<close> clauses have no model.
\<close>

section \<open>State\<close>

record web_env =
  w_env :: env
  w_read :: "string \<Rightarrow> string option"
  w_mtime :: "string \<Rightarrow> int option"
  w_gmtime :: tm
  w_asctime :: string
  w_elapsed :: string
  w_zeroConfig :: bool

record cWebRequestHandler =
  m_NewThread :: bool
  m_bConnected :: bool
  m_pIMsg :: "nat option"
  m_URI :: "string list"
  m_CGIParams :: string
  m_bMessageTypeGet :: bool
  m_bCachedNotModified :: bool
  m_Response :: cBuffer
  m_sPath :: string
  m_sContentType :: string
  m_sEntityTag :: string
  m_sMessageETag :: string
  m_sServerLabel :: string
  m_MIMEMap :: cMIMEMap
  m_bWebPage :: bool

record web_world =
  w_queue :: cMsgQueue
  w_cache :: cFileCache

definition APP_VERSION :: string where "APP_VERSION = ''v0.3.0207''"

definition new_cWebRequestHandler :: cWebRequestHandler where
  "new_cWebRequestHandler =
     \<lparr>m_NewThread = True, m_bConnected = False, m_pIMsg = None, m_URI = [], m_CGIParams = [],
      m_bMessageTypeGet = False, m_bCachedNotModified = False, m_Response = new_cBuffer,
      m_sPath = [], m_sContentType = [], m_sEntityTag = [], m_sMessageETag = [],
      m_sServerLabel = [], m_MIMEMap = new_cMIMEMap, m_bWebPage = False\<rparr>"

definition Web_Setup :: "cWebRequestHandler \<Rightarrow> nat \<Rightarrow> cWebRequestHandler" where
  "Web_Setup h a = h\<lparr>m_bConnected := True, m_pIMsg := Some a\<rparr>"

section \<open>The request\<close>

text \<open>The type of the request and the text between it and \<open>HTTP/\<close>; a count below zero takes all.\<close>

definition request_uri :: "string \<Rightarrow> (bool \<times> string) result" where
  "request_uri s =
     (let get = starts_with ''GET'' s;
          off = (if get then 3 else 4) + 1
      in case find_sub '' HTTP/'' s of
           None \<Rightarrow> Inl NullPointer
         | Some e \<Rightarrow>
             if length s < off then Inl (Thrown ''basic_string::assign'')
             else Inr (get, if e < off then drop off s else take (e - off) (drop off s)))"

text \<open>The elements of the decoded URI: one, without its leading slash.\<close>

definition uri_elements :: "string \<Rightarrow> string list result" where
  "uri_elements decURI =
     (if cstr decURI = ''/'' then Inr [''index.html'']
      else
        rbind (Buffer_Append new_cBuffer (Some (cmem decURI)) (-1)) (\<lambda>(b, _).
        rbind (Buffer_FindChar b (CHR ''/'') 0) (\<lambda>i.
        rbind (if i = 0 then Buffer_Remove b 0 1 else Inr (b, 0)) (\<lambda>(b, _).
        rbind (Buffer_GetBuffer b) (\<lambda>(_, p).
        rbind (of_option NullPointer p) (\<lambda>blk.
        rbind (read_cstr blk) (\<lambda>e. Inr [e])))))))"

text \<open>The entity tag without its quotes.\<close>

definition message_etag :: "cHeaderExtract \<Rightarrow> string \<Rightarrow> string" where
  "message_etag he old =
     (let sETag = HeaderExtract_GetValue he ''If-None-Match''
      in if length sETag \<noteq> 0 then take (length sETag - 2) (drop 1 sETag) else old)"

text \<open>The parameters of a POST request: the last bytes of the request, as many as its header says.\<close>

definition post_params :: "cHeaderExtract \<Rightarrow> cBuffer \<Rightarrow> int \<Rightarrow> string result" where
  "post_params he buf iSize =
     (let sContentType = HeaderExtract_GetValue he ''Content-Type'';
          sContentLength = HeaderExtract_GetValue he ''Content-Length'';
          len = atoi sContentLength
      in if len > 0 then
           rbind (Buffer_GetBuffer buf) (\<lambda>(_, p).
           rbind (mem_slice (block_of p) (iSize - len) len) (\<lambda>cells.
           rbind (mem_text cells) (\<lambda>srcURI.
           rbind (Url_Decode srcURI) (\<lambda>decURI.
           Inr (if sContentType = ''application/x-www-form-urlencoded'' then decURI else [])))))
         else Inr [])"

text \<open>The directory of the host, or else of the port; the name of the file below it.\<close>

definition request_path ::
  "cVirtualDirectoryMap \<Rightarrow> cHeaderExtract \<Rightarrow> int \<Rightarrow> string list \<Rightarrow> bool \<times> string" where
  "request_path dirs he iPort uri =
     (let sHost = HeaderExtract_GetValue he ''Host'';
          path = (if length sHost > 0 then GetVirtualDirectory dirs (''host_'' @ sHost) else []);
          path = (if length path < 1 then GetVirtualDirectory dirs (''port_'' @ int_text iPort) else path)
      in if length path = 0 then (False, path)
         else (True, path @ concat (map (\<lambda>e. ''/'' @ e) uri)))"

definition ProcessHTTPHeader ::
  "cVirtualDirectoryMap \<Rightarrow> cWebRequestHandler \<Rightarrow> cMsg \<Rightarrow> (bool \<times> cWebRequestHandler) result" where
  "ProcessHTTPHeader dirs h m =
     rbind (of_option NullPointer (Msg_GetRawBuffer m)) (\<lambda>pHTTPMessage.
     let iSize = Msg_GetRawBufferSize m
     in rbind (read_cstr pHTTPMessage) (\<lambda>s.
        let h = h\<lparr>m_CGIParams := []\<rparr>
        in rbind (request_uri s) (\<lambda>(get, srcURI).
           let h = h\<lparr>m_bMessageTypeGet := get\<rparr>
           in rbind (Url_Decode srcURI) (\<lambda>decURI.
              rbind (uri_elements decURI) (\<lambda>uri.
              let h = h\<lparr>m_URI := uri\<rparr>
              in rbind (Buffer_ReplaceWith new_cBuffer (Some pHTTPMessage) iSize) (\<lambda>(buf, _).
                 rbind (HeaderExtract_Parse new_cHeaderExtract buf) (\<lambda>(he, buf).
                 let h = h\<lparr>m_sMessageETag := message_etag he (m_sMessageETag h)\<rparr>
                 in rbind (if get then Inr [] else post_params he buf iSize) (\<lambda>params.
                    let h = h\<lparr>m_CGIParams := m_CGIParams h @ params\<rparr>;
                        (ok, path) = request_path dirs he (Msg_GetArrivalPort m) (m_URI h)
                    in Inr (ok, h\<lparr>m_sPath := path\<rparr>)))))))))"

section \<open>The file\<close>

text \<open>\<open>fread\<close> in pieces of the size of \<open>m_tempBuffer\<close>.\<close>

definition TEMP_SIZE :: nat where "TEMP_SIZE = 16384"

function read_loop :: "cBuffer \<Rightarrow> string \<Rightarrow> cBuffer result" where
  "read_loop b d =
     (if d = [] then Inr b
      else let piece = take TEMP_SIZE d
           in rbind (Buffer_Append b (Some (map Some piece)) (int (length piece))) (\<lambda>(b, _).
              read_loop b (drop TEMP_SIZE d)))"
  by pat_completeness auto
termination
  by (relation "measure (\<lambda>(b, d). length d)") (auto simp: TEMP_SIZE_def)

declare read_loop.simps [simp del]

text \<open>The time of the file, which is not asked for again within the second of the last access.\<close>

definition time_of_file :: "web_env \<Rightarrow> cFileCacheEntry option \<Rightarrow> string \<Rightarrow> int" where
  "time_of_file w entry path =
     (let ts = (case entry of None \<Rightarrow> 0 | Some e \<Rightarrow> fileTimeStamp e);
          fresh = (case entry of None \<Rightarrow> False
                   | Some e \<Rightarrow> \<not> fileLastAccessedTimeStamp e < e_now (w_env w))
      in if fresh then ts
         else (case w_mtime w path of None \<Rightarrow> ts | Some t \<Rightarrow> t))"

definition rfind_char :: "char \<Rightarrow> string \<Rightarrow> nat option" where
  "rfind_char c s =
     (case find_char c (rev s) of None \<Rightarrow> None | Some i \<Rightarrow> Some (length s - 1 - i))"

definition GetResourceContentType :: "cWebRequestHandler \<Rightarrow> cWebRequestHandler" where
  "GetResourceContentType h =
     (case rfind_char (CHR ''.'') (m_sPath h) of
        Some idx \<Rightarrow>
          h\<lparr>m_sContentType := MimeMap_GetContentType (m_MIMEMap h) (drop idx (m_sPath h))\<rparr>
      | None \<Rightarrow> h\<lparr>m_sContentType := ''application/octet-stream''\<rparr>)"

text \<open>The file is not in the cache, or not as it is on the disk.\<close>

definition load_resource ::
  "web_env \<Rightarrow> cWebRequestHandler \<Rightarrow> cFileCache \<Rightarrow> cUniqueIDProvider \<Rightarrow> int \<Rightarrow>
     (cWebRequestHandler \<times> cFileCache \<times> cUniqueIDProvider) result" where
  "load_resource w h c ids timeStamp =
     (let h = h\<lparr>m_Response := Buffer_Reset (m_Response h)\<rparr>
      in if length (m_sPath h) = 0 then Inr (h, c, ids)
         else case w_read w (m_sPath h) of
           None \<Rightarrow> Inr (h, c, ids)
         | Some d \<Rightarrow>
             rbind (read_loop (m_Response h) d) (\<lambda>b.
             rbind (FileCache_Store (e_uuid (w_env w)) (e_now (w_env w)) c (m_sPath h) b timeStamp ids)
               (\<lambda>(bStored, c, b, ids).
               let h = h\<lparr>m_Response := b\<rparr>
               in rbind (if bStored
                         then rbind (GetEntityTag c (m_sPath h)) (of_option NullPointer)
                         else Inr (m_sEntityTag h)) (\<lambda>tag.
                  Inr (GetResourceContentType (h\<lparr>m_sEntityTag := tag\<rparr>), c, ids)))))"

text \<open>The entry of the cache is good: either the client has it already, or it is the response.\<close>

definition cached_resource ::
  "cWebRequestHandler \<Rightarrow> cFileCache \<Rightarrow> nat \<Rightarrow> (cWebRequestHandler \<times> cFileCache) result" where
  "cached_resource h c a =
     rbind (fc_get c a) (\<lambda>e.
     let h = h\<lparr>m_sEntityTag := entityTag e\<rparr>
     in rbind
          (if m_sMessageETag h = m_sEntityTag h
           then if m_bWebPage h
                then rbind (Buffer_Find (fileData e) ''<?mc'' 0) (\<lambda>(b, i).
                     Inr (fc_put c a (e\<lparr>fileData := b\<rparr>), i = -1))
                else Inr (c, True)
           else Inr (c, False)) (\<lambda>(c, notModified).
        if notModified then Inr (h\<lparr>m_bCachedNotModified := True\<rparr>, c)
        else
          rbind (fc_get c a) (\<lambda>e.
          rbind (Buffer_ReplaceWith (m_Response h) (Buffer_GetRawBuffer (fileData e))
                   (Buffer_GetBufferCount (fileData e))) (\<lambda>(b, _).
          Inr (GetResourceContentType (h\<lparr>m_Response := b\<rparr>), c)))))"

definition GetResource ::
  "web_env \<Rightarrow> cWebRequestHandler \<Rightarrow> cFileCache \<Rightarrow> cUniqueIDProvider \<Rightarrow>
     (cWebRequestHandler \<times> cFileCache \<times> cUniqueIDProvider) result" where
  "GetResource w h c ids =
     (let h = h\<lparr>m_Response := Buffer_Reset (m_Response h),
                m_bWebPage := m_bWebPage h \<or> find_sub ''.htm'' (m_sPath h) \<noteq> None\<rparr>
      in rbind (if FileCache_HasEntry c (m_sPath h) then GetFileEntry c (m_sPath h) else Inr (None, c))
           (\<lambda>(pFileEntry, c).
         rbind (case pFileEntry of
                  None \<Rightarrow> Inr None
                | Some a \<Rightarrow> rbind (fc_get c a) (\<lambda>e. Inr (Some e))) (\<lambda>entry.
         let timeStamp = time_of_file w entry (m_sPath h)
         in rbind (UpdateFileAccessTime (e_now (w_env w)) c (m_sPath h)) (\<lambda>c.
            case (pFileEntry, entry) of
              (Some a, Some e) \<Rightarrow>
                if fileTimeStamp e = timeStamp
                then rbind (cached_resource h c a) (\<lambda>(h, c). Inr (h, c, ids))
                else load_resource w h c ids timeStamp
            | _ \<Rightarrow> load_resource w h c ids timeStamp))))"

end
