(* ===== verification/WebReply.thy ===== *)
theory WebReply
  imports WebRequest
begin

text \<open>
  The second half of \<open>webrequesthandler.cpp\<close>: the tags of a page that the server fills in, the texts
  of the replies, and \<open>Process\<close>, which makes the reply to a request; and \<open>webserver.h\<close> and
  \<open>webserver.cpp\<close>, the command handler that gives each request to one of its threads.
\<close>

section \<open>Tags in a page\<close>

text \<open>
  One turn of the loop of \<open>ProcessServerSideScripts\<close>, for a tag that was found at \<open>index\<close>. The three known tags
  are searched from \<open>index\<close> on, and what is removed is at \<open>index\<close>. The result is the length of the tag, or
  nothing when no known tag follows.
\<close>

definition put_tag ::
  "cBuffer \<Rightarrow> int \<Rightarrow> string \<Rightarrow> block \<Rightarrow> int \<Rightarrow> (cBuffer \<times> int option) result" where
  "put_tag b index tag pData iLength =
     (let len = int (length tag)
      in rbind (Buffer_Remove b index len) (\<lambda>(b, _).
         rbind (Buffer_Insert b index pData iLength) (\<lambda>(b, _). Inr (b, Some len))))"

definition fill_tag :: "web_env \<Rightarrow> cBuffer \<Rightarrow> int \<Rightarrow> (cBuffer \<times> int option) result" where
  "fill_tag w b index =
     rbind (Buffer_Find b ''{{MC_SERVERADDR}}'' index) (\<lambda>(b, i).
     if i \<noteq> -1 then put_tag b index ''{{MC_SERVERADDR}}'' (cmem (e_serverAddr (w_env w))) (-1)
     else rbind (Buffer_Find b ''{{MC_SERVERTIME}}'' index) (\<lambda>(b, i).
     if i \<noteq> -1 then
       put_tag b index ''{{MC_SERVERTIME}}'' (cmem (w_asctime w))
         (int (length (cstr (w_asctime w))) - 1)
     else rbind (Buffer_Find b ''{{MC_PAGETIME}}'' index) (\<lambda>(b, i).
     if i \<noteq> -1 then
       put_tag b index ''{{MC_PAGETIME}}'' (cmem (w_elapsed w @ '' seconds'')) (-1)
     else Inr (b, None))))"

text \<open>\<open>None\<close>: the loop never ends.\<close>

partial_function (option) script_loop :: "web_env \<Rightarrow> cBuffer \<Rightarrow> int \<Rightarrow> cBuffer result option" where
  "script_loop w b offset =
     (case Buffer_Find b ''{{MC_'' offset of
        Inl e \<Rightarrow> Some (Inl e)
      | Inr (b, index) \<Rightarrow>
          if index = -1 then Some (Inr b)
          else (case fill_tag w b index of
                  Inl e \<Rightarrow> Some (Inl e)
                | Inr (b, Some len) \<Rightarrow> script_loop w b (index + len)
                | Inr (b, None) \<Rightarrow> script_loop w b (offset + index)))"

definition ProcessServerSideScripts ::
  "web_env \<Rightarrow> cWebRequestHandler \<Rightarrow> cWebRequestHandler result option" where
  "ProcessServerSideScripts w h =
     (case script_loop w (m_Response h) 0 of
        None \<Rightarrow> None
      | Some (Inl e) \<Rightarrow> Some (Inl e)
      | Some (Inr b) \<Rightarrow> Some (Inr (h\<lparr>m_Response := b\<rparr>)))"

section \<open>The texts of the replies\<close>

definition connection_line :: "bool \<Rightarrow> string" where
  "connection_line keep = (if keep then ''Connection: Keep-Alive'' else ''Connection: close'')"

definition header_304 :: "bool \<Rightarrow> string \<Rightarrow> string \<Rightarrow> string" where
  "header_304 keep date label =
     join_lines [''HTTP/1.1 304 Not Modified'', connection_line keep, ''Date: '' @ cstr date,
       cstr label, []]"

definition header_200 :: "bool \<Rightarrow> string \<Rightarrow> string \<Rightarrow> string \<Rightarrow> string \<Rightarrow> int \<Rightarrow> string" where
  "header_200 keep date label tag type len =
     join_lines [''HTTP/1.1 200 OK'', connection_line keep, ''Date: '' @ cstr date, cstr label,
       ''ETag: '' @ [CHR 0x22] @ cstr tag @ [CHR 0x22], ''Content-Type: '' @ cstr type,
       ''Content-Length: '' @ int_text len, []]"

definition node_label :: "string \<Rightarrow> string" where
  "node_label name = ''Server: msgCourier/'' @ APP_VERSION @ '' node('' @ cstr name @ '')''"

definition zero_config_body :: "string \<Rightarrow> string" where
  "zero_config_body name =
     ''<html><head><title>Node: '' @ cstr name @ ''</title></head><body>'' @
     ''<h2>Node: '' @ cstr name @ ''</h2>'' @
     ''<p>Running based on zero-configuration. Note: this node will only accept connections on the same subnet.</p>'' @
     ''<hr>'' @ ''<address>msgCourier/'' @ APP_VERSION @ ''</address>'' @ ''</body></html>''"

definition zero_config_reply :: "string \<Rightarrow> string \<Rightarrow> string \<Rightarrow> string" where
  "zero_config_reply date name tag =
     (let body = zero_config_body name
      in join_lines [''HTTP/1.1 200 OK'', ''Date: '' @ cstr date, node_label name,
           ''ETag: '' @ [CHR 0x22] @ tag @ [CHR 0x22], ''Content-Type: text/html'',
           ''Content-Length: '' @ int_text (int (length body)), []] @ cstr body)"

definition not_found_body :: string where
  "not_found_body =
     ''<html><head><title>404 Not Found</title></head><body>'' @
     ''<h1>Resource Not Found</h1>'' @ ''</title></head><body>'' @
     ''<p>The requested resource was not found on this server</p>'' @ ''</h2>'' @ ''<hr>'' @
     ''<address>msgCourier/'' @ APP_VERSION @ ''</address>'' @ ''</body></html>''"

definition not_found_reply :: "bool \<Rightarrow> string \<Rightarrow> string \<Rightarrow> string" where
  "not_found_reply keep date name =
     join_lines [''HTTP/1.1 404 Not Found'', connection_line keep, ''Date: '' @ cstr date,
       node_label name, ''Content-Type: text/html'',
       ''Content-Length: '' @ int_text (int (length not_found_body)), []] @ cstr not_found_body"

section \<open>The reply\<close>

text \<open>\<open>m_sContentType.find(htm)\<close> as a truth value: false only for a match at the start.\<close>

definition scripts_wanted :: "cWebRequestHandler \<Rightarrow> bool" where
  "scripts_wanted h \<longleftrightarrow> find_sub ''htm'' (m_sContentType h) \<noteq> Some 0"

text \<open>What becomes the payload of the reply, as a block and a count, once the file is there.\<close>

definition reply_body ::
  "web_env \<Rightarrow> bool \<Rightarrow> cWebRequestHandler \<Rightarrow> (cWebRequestHandler \<times> block option \<times> int) result option" where
  "reply_body w keep h =
     (let date = GetDate (w_gmtime w)
      in if m_bCachedNotModified h then
           Some (rbind (Buffer_ReplaceWith (m_Response h)
                          (Some (cmem (header_304 keep date (m_sServerLabel h)))) (-1)) (\<lambda>(b, _).
                 Inr (h\<lparr>m_Response := b\<rparr>, Buffer_GetRawBuffer b, Buffer_GetBufferCount b)))
         else if Buffer_GetBufferCount (m_Response h) \<noteq> 0 then
           (case (if scripts_wanted h then ProcessServerSideScripts w h else Some (Inr h)) of
              None \<Rightarrow> None
            | Some (Inl e) \<Rightarrow> Some (Inl e)
            | Some (Inr h) \<Rightarrow>
                Some (rbind (Buffer_Prepend (m_Response h)
                        (Some (cmem (header_200 keep date (m_sServerLabel h) (m_sEntityTag h)
                           (m_sContentType h) (Buffer_GetBufferCount (m_Response h))))) (-1))
                   (\<lambda>(b, _). Inr (h\<lparr>m_Response := b\<rparr>, Buffer_GetRawBuffer b, Buffer_GetBufferCount b))))
         else
           let name = e_serverName (w_env w);
               txt = (if w_zeroConfig w then zero_config_reply date name (m_sEntityTag h)
                      else not_found_reply keep date name)
           in Some (Inr (h, Some (cmem txt), int (length txt))))"

text \<open>The payload goes into the reply \<open>n\<close>, which is dispatched; the request \<open>a\<close> is done with.\<close>

definition post_reply ::
  "web_env \<Rightarrow> cMsgQueue \<Rightarrow> nat \<Rightarrow> nat \<Rightarrow> block option \<Rightarrow> int \<Rightarrow> cMsgQueue result" where
  "post_reply w q n a p len =
     rbind (mq_get q n) (\<lambda>m.
     rbind (Msg_SetContentPayload n m p len) (\<lambda>m.
     rbind (MQ_DispatchMsg (w_env w) (q\<lparr>m_msgPool := pool_put (m_msgPool q) n m\<rparr>) n) (\<lambda>q.
     mq_upd q a Msg_MarkProcessed)))"

definition Web_prepare ::
  "web_env \<Rightarrow> cVirtualDirectoryMap \<Rightarrow> cWebRequestHandler \<Rightarrow> web_world \<Rightarrow> nat \<Rightarrow>
     (cWebRequestHandler \<times> web_world \<times> nat \<times> bool) result" where
  "Web_prepare w dirs h s a =
     (let h = h\<lparr>m_bWebPage := False, m_bCachedNotModified := False, m_sEntityTag := [],
                m_sMessageETag := []\<rparr>
      in rbind (mq_get (w_queue s) a) (\<lambda>m.
         rbind (ProcessHTTPHeader dirs h m) (\<lambda>(_, h).
         rbind (CreateMessageReply (w_env w) (w_queue s) (Some a)) (\<lambda>(n, q).
         rbind (GetResource w h (w_cache s) (m_UniqueIDProvider q)) (\<lambda>(h, c, ids).
         let q = q\<lparr>m_UniqueIDProvider := ids\<rparr>
         in rbind (mq_get q n) (\<lambda>r.
            Inr (h, s\<lparr>w_queue := q, w_cache := c\<rparr>, n, Msg_IsKeepAlive r)))))))"

definition Web_Process ::
  "web_env \<Rightarrow> cVirtualDirectoryMap \<Rightarrow> cWebRequestHandler \<Rightarrow> web_world \<Rightarrow> nat \<Rightarrow>
     (cWebRequestHandler \<times> web_world) result option" where
  "Web_Process w dirs h s a =
     (case Web_prepare w dirs h s a of
        Inl e \<Rightarrow> Some (Inl e)
      | Inr (h, s, n, keep) \<Rightarrow>
          (case reply_body w keep h of
             None \<Rightarrow> None
           | Some (Inl e) \<Rightarrow> Some (Inl e)
           | Some (Inr (h, p, len)) \<Rightarrow>
               Some (rbind (post_reply w (w_queue s) n a p len) (\<lambda>q. Inr (h, s\<lparr>w_queue := q\<rparr>)))))"

section \<open>The thread\<close>

definition Web_Run_start :: "cWebRequestHandler \<Rightarrow> cWebRequestHandler" where
  "Web_Run_start h = h\<lparr>m_sServerLabel := ''Server: msgCourier/'' @ APP_VERSION\<rparr>"

text \<open>One turn of \<open>Run\<close>, up to the place where the thread waits to be started again.\<close>

definition Web_Run_pass ::
  "web_env \<Rightarrow> cVirtualDirectoryMap \<Rightarrow> cWebRequestHandler \<Rightarrow> web_world \<Rightarrow>
     (cWebRequestHandler \<times> web_world) result option" where
  "Web_Run_pass w dirs h s =
     (case m_pIMsg h of
        None \<Rightarrow> Some (Inl NullPointer)
      | Some a \<Rightarrow>
          (case Web_Process w dirs h s a of
             None \<Rightarrow> None
           | Some (Inl e) \<Rightarrow> Some (Inl e)
           | Some (Inr (h, s)) \<Rightarrow> Some (Inr (h\<lparr>m_bConnected := False\<rparr>, s))))"

section \<open>The web server\<close>

record cWebServer =
  ws_dirs :: cVirtualDirectoryMap
  m_iMaxHandlers :: int
  m_WebRequestHandlers :: "cWebRequestHandler list"
  m_iTotalThreads :: int

definition new_cWebServer :: "cVirtualDirectoryMap \<Rightarrow> int \<Rightarrow> cWebServer" where
  "new_cWebServer dirs iMaxHandlers =
     \<lparr>ws_dirs = dirs, m_iMaxHandlers = iMaxHandlers, m_WebRequestHandlers = [], m_iTotalThreads = 0\<rparr>"

definition WebServer_OnShutdown :: "cWebServer \<Rightarrow> cWebServer" where
  "WebServer_OnShutdown s = s\<lparr>m_WebRequestHandlers := []\<rparr>"

text \<open>\<open>Start\<close>: the first time, a thread is made, which the system may refuse.\<close>

definition Web_Start :: "bool \<Rightarrow> cWebRequestHandler \<Rightarrow> bool \<times> cWebRequestHandler" where
  "Web_Start created h =
     (if m_NewThread h then (if created then (True, h\<lparr>m_NewThread := False\<rparr>) else (False, h))
      else (True, h))"

text \<open>The first handler that is idle takes the request; a handler that cannot start is an assertion.\<close>

fun assign_idle ::
  "bool \<Rightarrow> cWebRequestHandler list \<Rightarrow> nat \<Rightarrow> (bool \<times> cWebRequestHandler list) result" where
  "assign_idle created [] a = Inr (False, [])"
| "assign_idle created (h # hs) a =
     (if \<not> m_bConnected h then
        (let (ok, h) = Web_Start created (Web_Setup h a)
         in if ok then Inr (True, h # hs) else Inl AssertFailed)
      else rbind (assign_idle created hs a) (\<lambda>(b, hs). Inr (b, h # hs)))"

text \<open>The count of the vector is unsigned, so the limit is compared as an unsigned number too.\<close>

definition WebServer_OnProcess ::
  "bool \<Rightarrow> cWebServer \<Rightarrow> cMsgQueue \<Rightarrow> nat \<Rightarrow> (cWebServer \<times> cMsgQueue) result" where
  "WebServer_OnProcess created s q a =
     rbind (assign_idle created (m_WebRequestHandlers s) a) (\<lambda>(bAssigned, hs).
     let s = s\<lparr>m_WebRequestHandlers := hs\<rparr>
     in if bAssigned then Inr (s, q)
        else if int (length hs) < m_iMaxHandlers s mod 2 ^ 64 then
          (let s = s\<lparr>m_iTotalThreads := m_iTotalThreads s + 1\<rparr>;
               (ok, h) = Web_Start created (Web_Setup new_cWebRequestHandler a)
           in if ok then Inr (s\<lparr>m_WebRequestHandlers := hs @ [h]\<rparr>, q) else Inl AssertFailed)
        else rbind (mq_upd q a (\<lambda>m. Msg_SetMsgState m MSG_STATE_PENDING)) (\<lambda>q. Inr (s, q)))"

end
