(* ===== verification/WebLaws.thy ===== *)
theory WebLaws
  imports WebReply MsgQueueLaws
begin

text \<open>
  The laws of the web server: the request line and the fields of the header decide the file
  that a request is for; what \<open>GetResource\<close> gives, over the abstraction \<open>cached\<close> of the file
  cache; the tags of a page; and the one reply that \<open>Process\<close> posts.
\<close>

section \<open>From the request to the file\<close>

lemma find_sub_none_skip:
  assumes "\<forall>j < length a. \<not> starts_with p (drop j (a @ t))"
  shows "find_sub p (a @ t) = map_option (\<lambda>i. length a + i) (find_sub p t)"
  using assms
proof (induction a)
  case Nil
  then show ?case by (cases "find_sub p t") simp_all
next
  case (Cons c a)
  have "\<not> starts_with p (c # a @ t)" using Cons.prems [rule_format, of 0] by simp
  moreover have "\<forall>j < length a. \<not> starts_with p (drop j (a @ t))"
  proof (intro allI impI)
    fix j assume "j < length a"
    then show "\<not> starts_with p (drop j (a @ t))" using Cons.prems [rule_format, of "Suc j"] by simp
  qed
  ultimately show ?case using Cons.IH by (cases "find_sub p t") simp_all
qed

text \<open>A request line \<open>GET /u HTTP/v\<close> or \<open>POST /u HTTP/v\<close>.\<close>

lemma request_uri_line:
  assumes m: "m = ''GET'' \<or> m = ''POST''" and u: "SP \<notin> set u"
  shows "request_uri (m @ SP # CHR ''/'' # u @ '' HTTP/'' @ v) = Inr (m = ''GET'', CHR ''/'' # u)"
proof -
  let ?s = "m @ SP # CHR ''/'' # u @ '' HTTP/'' @ v"
  have "find_sub '' HTTP/'' (CHR ''/'' # u @ '' HTTP/'' @ v) = Some (Suc (length u))"
    using find_sub_skip [of SP "CHR ''/'' # u" "''HTTP/''" "'' HTTP/'' @ v"] u by simp
  then have "find_sub '' HTTP/'' ?s = Some (length m + 2 + length u)"
    using m by auto
  then show ?thesis using m by (auto simp: request_uri_def Let_def)
qed

definition file_of_uri :: "string \<Rightarrow> string" where
  "file_of_uri d =
     (if d = ''/'' then ''index.html'' else if starts_with ''/'' d then drop 1 d else d)"

lemma uri_elements_empty: "uri_elements [] = Inr [[]]"
  by code_simp

lemma GetBuffer_text:
  assumes "holds b s" "m_pBuffer b \<noteq> None" "NUL \<notin> set s"
  shows "\<exists>b' blk. Buffer_GetBuffer b = Inr (b', Some blk) \<and> read_cstr blk = Inr s"
  using GetBuffer_holds [OF assms(1,2)] read_cstr_append [OF assms(3)] by blast

lemma uri_elements_eq:
  assumes "NUL \<notin> set d"
  shows "uri_elements d = Inr [file_of_uri d]"
proof (cases "d = ''/'' \<or> d = []")
  case True
  then show ?thesis using assms uri_elements_empty
    by (auto simp: uri_elements_def file_of_uri_def cstr_id)
next
  case False
  have "Buffer_Append new_cBuffer (Some (cmem d)) (-1) = Buffer_Append new_cBuffer (Some (cmem d)) (int (length d))"
    using False by (simp add: Buffer_Append_def arg_length_strlen cstr_id [OF assms])
  then obtain b where b: "Buffer_Append new_cBuffer (Some (cmem d)) (-1) = Inr (b, BUFFER_NO_ERROR)"
      "holds b d" "m_pBuffer b \<noteq> None"
    using Append_string [OF holds_new, of d] False by auto
  have i: "Buffer_FindChar b (CHR ''/'') 0 =
      Inr (case find_char (CHR ''/'') d of Some k \<Rightarrow> int k | None \<Rightarrow> -1)"
    using FindChar_holds [OF b(2), of 0 "CHR ''/''"] by (simp cong: option.case_cong)
  show ?thesis
  proof (cases "starts_with ''/'' d")
    case True
    then obtain r where r: "d = CHR ''/'' # r" by (cases d) auto
    then have i0: "Buffer_FindChar b (CHR ''/'') 0 = Inr 0" using i by (simp add: find_char_def)
    obtain c rc where c: "Buffer_Remove b 0 1 = Inr (c, rc)" "holds c r" "m_pBuffer c \<noteq> None"
      using Remove_holds [OF b(2), of 1 0] r by auto
    have "NUL \<notin> set r" using assms r by simp
    then obtain e blk where "Buffer_GetBuffer c = Inr (e, Some blk)" "read_cstr blk = Inr r"
      using GetBuffer_text [OF c(2,3)] by blast
    then show ?thesis using False b(1) i0 c(1) r assms
      by (simp add: uri_elements_def file_of_uri_def cstr_id of_option_def)
  next
    case no: False
    have "(case find_char (CHR ''/'') d of Some k \<Rightarrow> int k | None \<Rightarrow> -1) \<noteq> (0 :: int)"
      using no False by (cases d) (auto simp: find_char_def split: option.splits)
    moreover obtain e blk where "Buffer_GetBuffer b = Inr (e, Some blk)" "read_cstr blk = Inr d"
      using GetBuffer_text [OF b(2,3) assms] by blast
    ultimately show ?thesis using False no b(1) i assms
      by (simp add: uri_elements_def file_of_uri_def cstr_id of_option_def)
  qed
qed

text \<open>The directory and the file that a header asks for.\<close>

definition directory_of :: "cVirtualDirectoryMap \<Rightarrow> string list \<Rightarrow> int \<Rightarrow> string" where
  "directory_of dirs ls iPort =
     (let host = header_field ls ''Host'';
          d = (if host = [] then [] else GetVirtualDirectory dirs (''host_'' @ host))
      in if d = [] then GetVirtualDirectory dirs (''port_'' @ int_text iPort) else d)"

definition path_of :: "cVirtualDirectoryMap \<Rightarrow> string list \<Rightarrow> int \<Rightarrow> string \<Rightarrow> string" where
  "path_of dirs ls iPort uri =
     (let d = directory_of dirs ls iPort
      in if d = [] then [] else d @ ''/'' @ file_of_uri (cstr (url_plain uri)))"

definition etag_of :: "string list \<Rightarrow> string \<Rightarrow> string" where
  "etag_of ls old =
     (let t = header_field ls ''If-None-Match'' in if t = [] then old else take (length t - 2) (drop 1 t))"

lemma request_path_eq:
  assumes "m_Params he = fold header_line ls []"
  shows "request_path dirs he iPort [file_of_uri (cstr (url_plain uri))] =
    (path_of dirs ls iPort uri \<noteq> [], path_of dirs ls iPort uri)"
  using header_field_GetValue [OF assms, of "''Host''"]
  by (auto simp: request_path_def path_of_def directory_of_def Let_def)

lemma message_etag_eq:
  assumes "m_Params he = fold header_line ls []"
  shows "message_etag he old = etag_of ls old"
  using header_field_GetValue [OF assms, of "''If-None-Match''"]
  by (simp add: message_etag_def etag_of_def Let_def)

definition params_of :: "string list \<Rightarrow> string \<Rightarrow> string" where
  "params_of ls body =
     (if 0 < atoi (header_field ls ''Content-Length'') \<and>
         header_field ls ''Content-Type'' = ''application/x-www-form-urlencoded''
      then cstr (url_plain body) else [])"

lemma post_params_eq:
  assumes p: "m_Params he = fold header_line ls []" and b: "holds b (message_text ls body)"
    and len: "atoi (header_field ls ''Content-Length'') \<le> 0 \<or>
      atoi (header_field ls ''Content-Length'') = int (length body) \<and> NUL \<notin> set body"
  shows "post_params he b (int (length (message_text ls body))) = Inr (params_of ls body)"
proof (cases "atoi (header_field ls ''Content-Length'') \<le> 0")
  case True
  then show ?thesis
    using header_field_GetValue [OF p, of "''Content-Length''"]
    by (simp add: post_params_def params_of_def Let_def)
next
  case False
  then have n: "atoi (header_field ls ''Content-Length'') = int (length body)" "NUL \<notin> set body"
      "body \<noteq> []" using len by auto
  let ?t = "message_text ls body"
  have "?t \<noteq> []" by (simp add: message_text_def)
  then obtain b' rest where
    g: "Buffer_GetBuffer b = Inr (b', Some (map Some ?t @ Some NUL # rest))"
    using GetBuffer_holds [OF b] holds_nonnull [OF b] by auto
  have len: "length ?t = length (join_lines ls @ CRLF) + length body" by (simp add: message_text_def)
  have "mem_slice (map Some ?t @ Some NUL # rest) (int (length ?t) - int (length body)) (int (length body)) =
      Inr (map Some body)"
  proof -
    have i: "int (length ?t) - int (length body) = int (length (join_lines ls @ CRLF))"
      unfolding len by simp
    have "mem_slice (map Some ?t @ Some NUL # rest) (int (length (join_lines ls @ CRLF))) (int (length body)) =
        Inr (take (length body) (drop (length (join_lines ls @ CRLF)) (map Some ?t @ Some NUL # rest)))"
      by (subst mem_slice_Inr) (simp_all only: nat_int, auto simp: message_text_def)
    then show ?thesis unfolding i by (simp add: message_text_def)
  qed
  moreover have "0 < int (length body)" using n(3) by simp
  ultimately show ?thesis
    using n g header_field_GetValue [OF p, of "''Content-Length''"] header_field_GetValue [OF p, of "''Content-Type''"]
      Decode_eq [OF n(3,2)]
    by (simp add: post_params_def params_of_def Let_def block_of_def)
qed

lemma ProcessHTTPHeader_spec:
  assumes raw: "holds (MsgRawBuffer m) (message_text ls body)" "terminated (MsgRawBuffer m)"
    and ls: "header_lines ls"
    and line: "hd ls = meth @ SP # CHR ''/'' # u @ '' HTTP/'' @ v" "SP \<notin> set u"
    and meth: "meth = ''GET'' \<or> meth = ''POST'' \<and>
      (atoi (header_field ls ''Content-Length'') \<le> 0 \<or>
       atoi (header_field ls ''Content-Length'') = int (length body) \<and> NUL \<notin> set body)"
  shows "ProcessHTTPHeader dirs h m =
    (let path = path_of dirs ls (MsgArrivalPort m) (CHR ''/'' # u)
     in Inr (path \<noteq> [],
       h\<lparr>m_CGIParams := (if meth = ''GET'' then [] else params_of ls body),
         m_bMessageTypeGet := (meth = ''GET''),
         m_URI := [file_of_uri (cstr (url_plain (CHR ''/'' # u)))],
         m_sMessageETag := etag_of ls (m_sMessageETag h), m_sPath := path\<rparr>))"
proof -
  let ?t = "message_text ls body" and ?uri = "CHR ''/'' # u"
  have ne: "?t \<noteq> []" by (simp add: message_text_def)
  then obtain blk where blk: "m_pBuffer (MsgRawBuffer m) = Some blk"
    using holds_nonnull [OF raw(1)] by blast
  from terminated_cstr [OF raw blk] obtain rest where rest: "blk = map Some ?t @ Some NUL # rest" .
  have L: "ls \<noteq> []" "\<forall>l \<in> set ls. l \<noteq> [] \<and> CR \<notin> set l \<and> NUL \<notin> set l" "6 \<le> length (join_lines ls)"
    using ls by (auto simp: header_lines_def)
  obtain l ls' where cons: "ls = l # ls'" using L(1) by (cases ls) auto
  have l: "NUL \<notin> set (hd ls)" using L by (simp add: cons)
  have "cstr ?t = hd ls @ cstr (CRLF @ join_lines ls' @ CRLF @ body)"
    using cstr_append [OF l, of "CRLF @ join_lines ls' @ CRLF @ body"] by (simp add: message_text_def cons)
  then have c: "cstr ?t = meth @ SP # ?uri @ '' HTTP/'' @ v @ cstr (CRLF @ join_lines ls' @ CRLF @ body)"
    using line(1) by simp
  have read: "read_cstr blk = Inr (cstr ?t)" by (simp add: rest read_cstr_map_Some)
  have uri: "request_uri (cstr ?t) = Inr (meth = ''GET'', ?uri)"
    unfolding c using request_uri_line [OF _ line(2)] meth by auto
  have nul: "NUL \<notin> set ?uri" using l line(1) by simp
  have dec: "Url_Decode ?uri = Inr (cstr (url_plain ?uri))" by (rule Decode_eq [OF _ nul]) simp
  have elems: "uri_elements (cstr (url_plain ?uri)) = Inr [file_of_uri (cstr (url_plain ?uri))]"
    by (rule uri_elements_eq) simp
  have size: "Msg_GetRawBufferSize m = int (length ?t)"
    using holds_tail [OF raw(1)] by (simp add: Msg_GetRawBufferSize_def Buffer_GetBufferCount_def)
  have "take (length ?t) blk = map Some ?t" by (simp add: rest)
  from ReplaceWith_holds [OF holds_new this refl] obtain b rc where
    b: "Buffer_ReplaceWith new_cBuffer (Some blk) (int (length ?t)) = Inr (b, rc)" "holds b ?t" by auto
  obtain he b' where he: "HeaderExtract_Parse new_cHeaderExtract b = Inr (he, b')" "holds b' ?t"
      "m_Params he = fold header_line ls []"
    using Parse_header [OF b(2) [unfolded message_text_def] L(1,2,3)]
    unfolding message_text_def by blast
  have params: "(if meth = ''GET'' then Inr [] else post_params he b' (int (length ?t))) =
      Inr (if meth = ''GET'' then [] else params_of ls body)"
    using meth post_params_eq [OF he(3,2)] by auto
  show ?thesis
    using read uri dec elems size b(1) he(1) params blk
    by (simp add: ProcessHTTPHeader_def Msg_GetRawBuffer_def Buffer_GetRawBuffer_def of_option_def
        Let_def message_etag_eq [OF he(3)] request_path_eq [OF he(3)] Msg_GetArrivalPort_def)
qed

section \<open>The file\<close>

lemma read_loop_holds: "holds b s \<Longrightarrow> \<exists>b'. read_loop b d = Inr b' \<and> holds b' (s @ d)"
proof (induction "length d" arbitrary: b s d rule: less_induct)
  case less
  show ?case
  proof (cases "d = []")
    case True
    then show ?thesis using less.prems by (simp add: read_loop.simps)
  next
    case False
    let ?p = "take TEMP_SIZE d"
    have p: "0 < length ?p" using False by (simp add: TEMP_SIZE_def)
    obtain c rc where c: "Buffer_Append b (Some (map Some ?p)) (int (length ?p)) = Inr (c, rc)"
        "holds c (s @ ?p)"
      using Append_holds [OF less.prems _ refl p, of "map Some ?p"] by auto
    have "length (drop TEMP_SIZE d) < length d" using False by (simp add: TEMP_SIZE_def)
    from less.hyps [OF this c(2)] obtain b' where
      "read_loop c (drop TEMP_SIZE d) = Inr b'" "holds b' (s @ d)" by auto
    then show ?thesis using False c(1) by (subst read_loop.simps) (simp add: Let_def)
  qed
qed

lemma copy_buffer:
  assumes b: "holds b s" and r: "holds r t"
  shows "\<exists>r' rc. Buffer_ReplaceWith r (Buffer_GetRawBuffer b) (Buffer_GetBufferCount b) = Inr (r', rc) \<and>
    holds r' s"
proof (cases "m_pBuffer b")
  case None
  then show ?thesis using b holds_Reset [OF r]
    by (auto simp: Buffer_GetRawBuffer_def Buffer_ReplaceWith_def holds_None)
next
  case (Some blk)
  obtain x rest where "blk = map Some s @ x # rest" using b Some by (rule holds_SomeE)
  then have "take (length s) blk = map Some s" by simp
  from ReplaceWith_holds [OF r this refl] show ?thesis using Some holds_tail [OF b]
    by (auto simp: Buffer_GetRawBuffer_def Buffer_GetBufferCount_def)
qed

lemma find_script:
  assumes "holds b d"
  obtains b' i where "Buffer_Find b ''<?mc'' 0 = Inr (b', i)" "holds b' d"
    "i = -1 \<longleftrightarrow> find_sub ''<?mc'' (cstr d) = None"
proof (cases "d = []")
  case True
  then show thesis using that [of b "-1"] assms Find_empty [of b] by simp
next
  case False
  from Find_holds [OF assms False, of 0 "''<?mc''"] obtain b' where
    b': "Buffer_Find b ''<?mc'' 0 = Inr (b', case find_sub (cstr ''<?mc'') (cstr d) of
      Some k \<Rightarrow> int k | None \<Rightarrow> -1)" "holds b' d"
    by (auto cong: option.case_cong)
  have "cstr ''<?mc'' = ''<?mc''" by (rule cstr_id) simp
  then show thesis using that [OF b'(1,2)] by (auto split: option.splits)
qed

definition resource_type :: "cMIMEMap \<Rightarrow> string \<Rightarrow> string" where
  "resource_type mm path =
     (case rfind_char (CHR ''.'') path of
        Some i \<Rightarrow> MimeMap_GetContentType mm (drop i path)
      | None \<Rightarrow> ''application/octet-stream'')"

lemma GetResourceContentType_eq:
  "GetResourceContentType h = h\<lparr>m_sContentType := resource_type (m_MIMEMap h) (m_sPath h)\<rparr>"
  by (simp add: GetResourceContentType_def resource_type_def split: option.splits)

text \<open>The client has the file already, and it is not a page with scripts in it.\<close>

definition not_modified :: "cWebRequestHandler \<Rightarrow> string \<Rightarrow> string \<Rightarrow> bool" where
  "not_modified h d tag \<longleftrightarrow>
     m_sMessageETag h = tag \<and> \<not> (m_bWebPage h \<and> find_sub ''<?mc'' (cstr d) \<noteq> None)"

lemma cached_resource_spec:
  assumes c: "fc_inv c" and a: "smap_find (fc_Map c) name = Some a" "fc_store c a = Some e"
    and r: "holds (m_Response h) r" and d: "holds (fileData e) d"
  shows "\<exists>b c'. cached_resource h c a =
      Inr (if not_modified h d (entityTag e)
           then h\<lparr>m_sEntityTag := entityTag e, m_bCachedNotModified := True\<rparr>
           else h\<lparr>m_sEntityTag := entityTag e, m_Response := b,
                  m_sContentType := resource_type (m_MIMEMap h) (m_sPath h)\<rparr>, c') \<and>
    holds b d \<and> fc_inv c' \<and> cached c' = cached c \<and> m_CacheSize c' = m_CacheSize c"
proof -
  let ?h = "h\<lparr>m_sEntityTag := entityTag e\<rparr>"
  obtain f i where f: "Buffer_Find (fileData e) ''<?mc'' 0 = Inr (f, i)" "holds f d"
      "i = -1 \<longleftrightarrow> find_sub ''<?mc'' (cstr d) = None"
    using find_script [OF d] by metis
  let ?e = "e\<lparr>fileData := f\<rparr>"
  have put: "fc_inv (fc_put c a ?e)" "cached (fc_put c a ?e) = cached c"
    using fc_put_same [OF c a, of ?e] holds_wf [OF f(2)] holds_contents [OF f(2)]
      holds_contents [OF d] cached_idem [OF a] by simp_all
  have getput: "fc_get (fc_put c a ?e) a = Inr ?e" by (simp add: fc_get_def fc_put_def)
  have get: "fc_get c a = Inr e" using a(2) by (simp add: fc_get_def)
  obtain b1 rc1 where b1: "Buffer_ReplaceWith (m_Response h) (Buffer_GetRawBuffer (fileData e))
      (Buffer_GetBufferCount (fileData e)) = Inr (b1, rc1)" "holds b1 d"
    using copy_buffer [OF d r] by blast
  obtain b2 rc2 where b2: "Buffer_ReplaceWith (m_Response h) (Buffer_GetRawBuffer f)
      (Buffer_GetBufferCount f) = Inr (b2, rc2)" "holds b2 d"
    using copy_buffer [OF f(2) r] by blast
  consider "m_sMessageETag h \<noteq> entityTag e" | "m_sMessageETag h = entityTag e" "m_bWebPage h"
    | "m_sMessageETag h = entityTag e" "\<not> m_bWebPage h" by blast
  then show ?thesis
  proof cases
    case 1
    then show ?thesis using get b1 c
      by (intro exI [of _ b1] exI [of _ c])
        (simp add: cached_resource_def not_modified_def Let_def GetResourceContentType_eq)
  next
    case 2
    then show ?thesis using get f b2 getput put
      by (intro exI [of _ b2] exI [of _ "fc_put c a ?e"])
        (simp add: cached_resource_def not_modified_def Let_def GetResourceContentType_eq,
         simp add: fc_put_def)
  next
    case 3
    then show ?thesis using get b1 c
      by (intro exI [of _ b1] exI [of _ c])
        (simp add: cached_resource_def not_modified_def Let_def)
  qed
qed

text \<open>What the request is given when the cache is good, and when the disk is asked.\<close>

definition gives_hit where
  "gives_hit h c ids d tag h' c' ids' \<longleftrightarrow>
     cached c' = cached c \<and> ids' = (ids :: cUniqueIDProvider) \<and>
     (if not_modified h d tag
      then \<exists>b. holds b [] \<and> h' = h\<lparr>m_Response := b, m_sEntityTag := tag, m_bCachedNotModified := True\<rparr>
      else \<exists>b. holds b d \<and> h' = h\<lparr>m_Response := b, m_sEntityTag := tag,
             m_sContentType := resource_type (m_MIMEMap h) (m_sPath h)\<rparr>)"

definition gives_miss where
  "gives_miss w h c ids ts h' c' ids' \<longleftrightarrow>
     (case (if m_sPath h = [] then None else w_read w (m_sPath h)) of
        None \<Rightarrow> cached c' = cached c \<and> ids' = ids \<and> (\<exists>b. holds b [] \<and> h' = h\<lparr>m_Response := b\<rparr>)
      | Some d \<Rightarrow>
          (\<exists>b tag. holds b d \<and>
             h' = h\<lparr>m_Response := b, m_sEntityTag := tag,
                    m_sContentType := resource_type (m_MIMEMap h) (m_sPath h)\<rparr> \<and>
             (if int (length d) \<le> m_CacheSize c
              then \<exists>i. UniqueID_GetID (e_uuid (w_env w)) ids = (i, ids') \<and> tag = cstr i \<and>
                     cached c' = (cached c)(m_sPath h \<mapsto> (d, ts, i))
              else cached c' = cached c \<and> ids' = ids \<and> tag = m_sEntityTag h)))"

lemma load_resource_spec:
  assumes c: "fc_inv c" and r: "holds (m_Response h) r"
  shows "\<exists>h' c' ids'. load_resource w h c ids ts = Inr (h', c', ids') \<and> fc_inv c' \<and>
    m_CacheSize c' = m_CacheSize c \<and> gives_miss w h c ids ts h' c' ids'"
proof (cases "if m_sPath h = [] then None else w_read w (m_sPath h)")
  case None
  then show ?thesis using holds_Reset [OF r] c
    by (intro exI [of _ "h\<lparr>m_Response := Buffer_Reset (m_Response h)\<rparr>"] exI [of _ c] exI [of _ ids])
      (auto simp: load_resource_def gives_miss_def split: if_splits)
next
  case (Some d)
  then have p: "m_sPath h \<noteq> []" "w_read w (m_sPath h) = Some d" by (auto split: if_splits)
  obtain b where b: "read_loop (Buffer_Reset (m_Response h)) d = Inr b" "holds b d"
    using read_loop_holds [OF holds_Reset [OF r], of d] by auto
  show ?thesis
  proof (cases "int (length d) \<le> m_CacheSize c")
    case True
    obtain i ids' where i: "UniqueID_GetID (e_uuid (w_env w)) ids = (i, ids')"
      by (cases "UniqueID_GetID (e_uuid (w_env w)) ids")
    obtain c' b' where
      st: "FileCache_Store (e_uuid (w_env w)) (e_now (w_env w)) c (m_sPath h) b ts ids =
          Inr (True, c', b', ids')" "fc_inv c'" "holds b' d"
        "cached c' = (cached c)(m_sPath h \<mapsto> (d, ts, i))" "m_CacheSize c' = m_CacheSize c"
        "GetEntityTag c' (m_sPath h) = Inr (Some (cstr i))"
      using Store_spec [OF c b(2) True i] by blast
    let ?h = "h\<lparr>m_Response := b', m_sEntityTag := cstr i,
      m_sContentType := resource_type (m_MIMEMap h) (m_sPath h)\<rparr>"
    have "load_resource w h c ids ts = Inr (?h, c', ids')"
      using p b(1) st(1,6)
      by (simp add: load_resource_def Let_def of_option_def GetResourceContentType_eq)
    moreover have "gives_miss w h c ids ts ?h c' ids'"
      unfolding gives_miss_def using Some True st(3,4) i by auto
    ultimately show ?thesis using st(2,5) by blast
  next
    case False
    then have st: "FileCache_Store (e_uuid (w_env w)) (e_now (w_env w)) c (m_sPath h) b ts ids =
        Inr (False, c, b, ids)" using Store_too_large [OF b(2)] by simp
    let ?h = "h\<lparr>m_Response := b, m_sContentType := resource_type (m_MIMEMap h) (m_sPath h)\<rparr>"
    have "load_resource w h c ids ts = Inr (?h, c, ids)"
      using p b(1) st by (simp add: load_resource_def Let_def GetResourceContentType_eq)
    moreover have "gives_miss w h c ids ts ?h c ids"
      unfolding gives_miss_def using Some False b(2) by (auto intro!: exI [of _ b])
    ultimately show ?thesis using c by blast
  qed
qed

definition fc_entry :: "cFileCache \<Rightarrow> string \<Rightarrow> cFileCacheEntry option" where
  "fc_entry c name = (case smap_find (fc_Map c) name of None \<Rightarrow> None | Some a \<Rightarrow> fc_store c a)"

definition file_stamp :: "web_env \<Rightarrow> cFileCache \<Rightarrow> string \<Rightarrow> int" where
  "file_stamp w c name = time_of_file w (fc_entry c name) name"

definition gives where
  "gives w h c ids h' c' ids' \<longleftrightarrow>
     (let ts = file_stamp w c (m_sPath h)
      in case cached c (m_sPath h) of
           None \<Rightarrow> gives_miss w h c ids ts h' c' ids'
         | Some (d, t, tag) \<Rightarrow>
             if t = ts then gives_hit h c ids d tag h' c' ids'
             else gives_miss w h c ids ts h' c' ids')"

lemma gives_cong:
  assumes "cached c1 = cached c" "m_CacheSize c1 = m_CacheSize c"
  shows "gives_hit h c1 ids d tag = gives_hit h c ids d tag"
    "gives_miss w h c1 ids ts = gives_miss w h c ids ts"
  using assms by (auto simp: gives_hit_def gives_miss_def fun_eq_iff cong: option.case_cong)

definition noted_page :: "cWebRequestHandler \<Rightarrow> cWebRequestHandler" where
  "noted_page h = h\<lparr>m_bWebPage := m_bWebPage h \<or> find_sub ''.htm'' (m_sPath h) \<noteq> None\<rparr>"

lemma gives_hit_Response:
  "gives_hit (h\<lparr>m_Response := b\<rparr>) c ids d tag = gives_hit h c ids d tag"
  by (auto simp: gives_hit_def not_modified_def fun_eq_iff)

lemma gives_miss_Response:
  "gives_miss w (h\<lparr>m_Response := b\<rparr>) c ids ts = gives_miss w h c ids ts"
  by (auto simp: gives_miss_def fun_eq_iff split: option.splits)

text \<open>
  \<open>GetResource\<close> never faults on a good cache, keeps it good, and gives what its two halves give
  for the entry of the cache and the stamp of the file.
\<close>

lemma GetResource_spec:
  assumes c: "fc_inv c" and r: "holds (m_Response h) r"
  shows "\<exists>h' c' ids'. GetResource w h c ids = Inr (h', c', ids') \<and> fc_inv c' \<and>
    m_CacheSize c' = m_CacheSize c \<and> gives w (noted_page h) c ids h' c' ids'"
proof -
  let ?p = "m_sPath h" and ?h = "(noted_page h)\<lparr>m_Response := Buffer_Reset (m_Response h)\<rparr>"
  let ?ts = "file_stamp w c ?p"
  have hp: "m_sPath ?h = ?p" "m_sPath (noted_page h) = ?p" by (simp_all add: noted_page_def)
  have hh: "h\<lparr>m_Response := Buffer_Reset (m_Response h),
      m_bWebPage := m_bWebPage h \<or> find_sub ''.htm'' (m_sPath h) \<noteq> None\<rparr> = ?h"
    by (simp add: noted_page_def)
  have rh: "holds (m_Response ?h) []" using holds_Reset [OF r] by simp
  show ?thesis
  proof (cases "smap_find (fc_Map c) ?p")
    case None
    obtain h' c' ids' where l: "load_resource w ?h c ids ?ts = Inr (h', c', ids')" "fc_inv c'"
        "m_CacheSize c' = m_CacheSize c" "gives_miss w ?h c ids ?ts h' c' ids'"
      using load_resource_spec [OF c rh] by metis
    have "GetResource w h c ids = Inr (h', c', ids')"
      using None l(1) unfolding GetResource_def hh Let_def
      by (simp add: hp FileCache_HasEntry_def UpdateFileAccessTime_absent file_stamp_def fc_entry_def)
    moreover have "gives w (noted_page h) c ids h' c' ids'"
      using None l(4) by (simp add: gives_def cached_def hp gives_miss_Response)
    ultimately show ?thesis using l(2,3) by blast
  next
    case (Some a)
    obtain e where e: "fc_store c a = Some e" "buf_wf (fileData e)"
        "cached c ?p = Some (contents (fileData e), fileTimeStamp e, entityTag e)"
      using fc_inv_entry [OF c Some] by metis
    let ?e1 = "e\<lparr>accessCount := accessCount e + 1\<rparr>"
    let ?c1 = "fc_put c a ?e1"
    note g = GetFileEntry_spec [OF c Some e(1)]
    have s1: "smap_find (fc_Map ?c1) ?p = Some a" "fc_store ?c1 a = Some ?e1" "fc_get ?c1 a = Inr ?e1"
      using Some by (simp_all add: fc_put_def fc_get_def)
    let ?e2 = "?e1\<lparr>fileLastAccessedTimeStamp := e_now (w_env w)\<rparr>"
    let ?c2 = "fc_put ?c1 a ?e2"
    note u = UpdateFileAccessTime_spec [OF g(2) s1(1,2), of "e_now (w_env w)"]
    have s2: "smap_find (fc_Map ?c2) ?p = Some a" "fc_store ?c2 a = Some ?e2"
      using Some by (simp_all add: fc_put_def)
    have size: "m_CacheSize ?c2 = m_CacheSize c" by (simp add: fc_put_def)
    have same: "cached ?c2 = cached c" using u(3) g(3) by simp
    have ts: "time_of_file w (Some ?e1) ?p = ?ts"
      using Some e(1) by (simp add: file_stamp_def fc_entry_def time_of_file_def)
    have run: "GetResource w h c ids =
        (if fileTimeStamp e = ?ts then rbind (cached_resource ?h ?c2 a) (\<lambda>(h, c). Inr (h, c, ids))
         else load_resource w ?h ?c2 ids ?ts)"
      unfolding GetResource_def hh Let_def
      using Some g(1) s1(3) u(1) ts by (simp add: hp FileCache_HasEntry_def)
    show ?thesis
    proof (cases "fileTimeStamp e = ?ts")
      case True
      have d2: "holds (fileData ?e2) (contents (fileData e))" using wf_holds [OF e(2)] by simp
      have t2: "entityTag ?e2 = entityTag e" by simp
      obtain b c' where k: "cached_resource ?h ?c2 a =
          Inr (if not_modified ?h (contents (fileData e)) (entityTag e)
             then ?h\<lparr>m_sEntityTag := entityTag e, m_bCachedNotModified := True\<rparr>
             else ?h\<lparr>m_sEntityTag := entityTag e, m_Response := b,
                  m_sContentType := resource_type (m_MIMEMap ?h) (m_sPath ?h)\<rparr>, c')"
          "holds b (contents (fileData e))" "fc_inv c'" "cached c' = cached ?c2"
          "m_CacheSize c' = m_CacheSize ?c2"
        using cached_resource_spec [OF u(2) s2 rh d2, unfolded t2] by blast
      have nm: "not_modified ?h (contents (fileData e)) (entityTag e) =
          not_modified (noted_page h) (contents (fileData e)) (entityTag e)"
        by (simp add: not_modified_def)
      have "gives_hit (noted_page h) c ids (contents (fileData e)) (entityTag e)
          (if not_modified ?h (contents (fileData e)) (entityTag e)
             then ?h\<lparr>m_sEntityTag := entityTag e, m_bCachedNotModified := True\<rparr>
             else ?h\<lparr>m_sEntityTag := entityTag e, m_Response := b,
                  m_sContentType := resource_type (m_MIMEMap ?h) (m_sPath ?h)\<rparr>) c' ids"
        using k(2,4) same holds_Reset [OF r] unfolding gives_hit_def nm by auto
      then have "gives w (noted_page h) c ids
          (if not_modified ?h (contents (fileData e)) (entityTag e)
             then ?h\<lparr>m_sEntityTag := entityTag e, m_bCachedNotModified := True\<rparr>
             else ?h\<lparr>m_sEntityTag := entityTag e, m_Response := b,
                  m_sContentType := resource_type (m_MIMEMap ?h) (m_sPath ?h)\<rparr>) c' ids"
        using e(3) True by (simp add: gives_def hp)
      moreover have "m_CacheSize c' = m_CacheSize c" using k(5) size by simp
      ultimately show ?thesis using run True k(1,3) by (intro exI conjI) auto
    next
      case False
      obtain h' c' ids' where l: "load_resource w ?h ?c2 ids ?ts = Inr (h', c', ids')" "fc_inv c'"
          "m_CacheSize c' = m_CacheSize ?c2" "gives_miss w ?h ?c2 ids ?ts h' c' ids'"
        using load_resource_spec [OF u(2) rh] by metis
      have "gives_miss w (noted_page h) c ids ?ts h' c' ids'"
        using l(4) gives_cong(2) [OF same size] gives_miss_Response by metis
      then have "gives w (noted_page h) c ids h' c' ids'"
        using e(3) False by (simp add: gives_def hp)
      moreover have "m_CacheSize c' = m_CacheSize c" using l(3) size by simp
      ultimately show ?thesis using run False l(1,2) by (intro exI conjI) auto
    qed
  qed
qed

section \<open>Pages with tags\<close>

text \<open>
  The tags that the server fills into a page, on the level of texts. \<open>fills w s off t\<close> is the loop of
  \<open>ProcessServerSideScripts\<close> over the text \<open>s\<close> from \<open>off\<close> on, as long as it stays inside the text;
  the code refines it, and what it leaves open is where the code goes wrong: a tag that is not
  known at the start of the page is met again and again.
\<close>

definition tag_text :: "string \<Rightarrow> string" where
  "tag_text name = ''{{MC_'' @ name @ ''}}''"

definition plain_env :: "web_env \<Rightarrow> bool" where
  "plain_env w \<longleftrightarrow> NUL \<notin> set (e_serverAddr (w_env w)) \<and> NUL \<notin> set (w_asctime w) \<and>
     w_asctime w \<noteq> [] \<and> NUL \<notin> set (w_elapsed w)"

text \<open>The tag that is taken out at the start of a text, and what is put there.\<close>

definition fill_text :: "web_env \<Rightarrow> string \<Rightarrow> (string \<times> string) option" where
  "fill_text w s =
     (if find_sub ''{{MC_SERVERADDR}}'' s \<noteq> None
      then Some (''{{MC_SERVERADDR}}'', e_serverAddr (w_env w))
      else if find_sub ''{{MC_SERVERTIME}}'' s \<noteq> None
      then Some (''{{MC_SERVERTIME}}'', butlast (w_asctime w))
      else if find_sub ''{{MC_PAGETIME}}'' s \<noteq> None
      then Some (''{{MC_PAGETIME}}'', w_elapsed w @ '' seconds'')
      else None)"

lemma fill_text_length: "fill_text w s = Some (tag, r) \<Longrightarrow> length tag \<le> length s \<and> tag \<noteq> []"
  by (auto simp: fill_text_def dest!: find_sub_SomeD split: if_splits)

lemma Find_tag:
  assumes "holds b s" "off \<le> length s" "NUL \<notin> set s" "NUL \<notin> set p" "p \<noteq> []"
  obtains b' i where "Buffer_Find b p (int off) = Inr (b', i)" "holds b' s"
    "i = -1 \<longleftrightarrow> find_sub p (drop off s) = None"
    "\<And>k. find_sub p (drop off s) = Some k \<Longrightarrow> i = int (off + k)"
  using Find_holds_text [OF assms] by (cases "find_sub p (drop off s)") auto

lemma put_tag_spec:
  assumes h: "holds b s" and t: "tag \<noteq> []" "n + length tag \<le> length s"
    and d: "take (length r) d = map Some r"
    and len: "l = int (length r) \<or> l = -1 \<and> read_cstr d = Inr r"
  shows "\<exists>b'. put_tag b (int n) tag d l = Inr (b', Some (int (length tag))) \<and>
    holds b' (take n s @ r @ drop (n + length tag) s)"
proof -
  have "0 < length tag" using t(1) by simp
  from Remove_holds [OF h this t(2)] obtain c rc where
    c: "Buffer_Remove b (int n) (int (length tag)) = Inr (c, rc)"
      "holds c (take n s @ drop (n + length tag) s)" by auto
  have n: "n \<le> length (take n s @ drop (n + length tag) s)" using t(2) by simp
  from Insert_holds [OF c(2) n d] obtain b' rc' where
    b': "Buffer_Insert c (int n) d (int (length r)) = Inr (b', rc')"
      "holds b' (take n s @ r @ drop (n + length tag) s)"
    using t(2) by (auto simp: min_def)
  have "Buffer_Insert c (int n) d l = Buffer_Insert c (int n) d (int (length r))"
    using len by (auto simp: Buffer_Insert_def arg_length_def)
  then show ?thesis using c(1) b' by (simp add: put_tag_def)
qed

lemma fill_tag_spec:
  assumes h: "holds b s" and n: "n \<le> length s" "NUL \<notin> set s" and w: "plain_env w"
  shows "\<exists>b'. fill_tag w b (int n) =
      Inr (b', map_option (\<lambda>(tag, r). int (length tag)) (fill_text w (drop n s))) \<and>
    holds b' (case fill_text w (drop n s) of
                None \<Rightarrow> s | Some (tag, r) \<Rightarrow> take n s @ r @ drop (n + length tag) s)"
proof -
  let ?a = "''{{MC_SERVERADDR}}''" and ?t = "''{{MC_SERVERTIME}}''" and ?p = "''{{MC_PAGETIME}}''"
  obtain b1 i1 where f1: "Buffer_Find b ?a (int n) = Inr (b1, i1)" "holds b1 s"
      "i1 = -1 \<longleftrightarrow> find_sub ?a (drop n s) = None"
    by (rule Find_tag [OF h n, of ?a]) auto
  obtain b2 i2 where f2: "Buffer_Find b1 ?t (int n) = Inr (b2, i2)" "holds b2 s"
      "i2 = -1 \<longleftrightarrow> find_sub ?t (drop n s) = None"
    by (rule Find_tag [OF f1(2) n, of ?t]) auto
  obtain b3 i3 where f3: "Buffer_Find b2 ?p (int n) = Inr (b3, i3)" "holds b3 s"
      "i3 = -1 \<longleftrightarrow> find_sub ?p (drop n s) = None"
    by (rule Find_tag [OF f2(2) n, of ?p]) auto
  have sub: "find_sub p (drop n s) = Some k \<Longrightarrow> n + length p \<le> length s" for p k
    using find_sub_SomeD [of p "drop n s" k] n(1) by auto
  have cm: "take (length x) (cmem x) = map Some x" for x by (simp add: take_cmem)
  consider "i1 \<noteq> -1" | "i1 = -1" "i2 \<noteq> -1" | "i1 = -1" "i2 = -1" "i3 \<noteq> -1"
    | "i1 = -1" "i2 = -1" "i3 = -1" by blast
  then show ?thesis
  proof cases
    case 1
    then obtain k where k: "find_sub ?a (drop n s) = Some k" using f1(3) by auto
    have "read_cstr (cmem (e_serverAddr (w_env w))) = Inr (e_serverAddr (w_env w))"
      using w by (simp add: plain_env_def cstr_id)
    with put_tag_spec [OF f1(2) _ sub [OF k] cm, of "-1"] obtain b' where
      "put_tag b1 (int n) ?a (cmem (e_serverAddr (w_env w))) (-1) = Inr (b', Some (int (length ?a)))"
      "holds b' (take n s @ e_serverAddr (w_env w) @ drop (n + length ?a) s)" by blast
    then show ?thesis using 1 f1(1) k by (simp add: fill_tag_def fill_text_def)
  next
    case 2
    then obtain k where k: "find_sub ?t (drop n s) = Some k" using f2(3) by auto
    have l: "int (length (cstr (w_asctime w))) - 1 = int (length (butlast (w_asctime w)))"
      "take (length (butlast (w_asctime w))) (cmem (w_asctime w)) = map Some (butlast (w_asctime w))"
      using w by (auto simp: plain_env_def cstr_id take_cmem butlast_conv_take of_nat_diff
          Suc_le_eq)
    from put_tag_spec [OF f2(2) _ sub [OF k] l(2) disjI1 [OF l(1)]] obtain b' where
      "put_tag b2 (int n) ?t (cmem (w_asctime w)) (int (length (cstr (w_asctime w))) - 1) =
         Inr (b', Some (int (length ?t)))"
      "holds b' (take n s @ butlast (w_asctime w) @ drop (n + length ?t) s)" by blast
    then show ?thesis using 2 f1(1,3) f2(1) k by (simp add: fill_tag_def fill_text_def)
  next
    case 3
    then obtain k where k: "find_sub ?p (drop n s) = Some k" using f3(3) by auto
    have "NUL \<notin> set (w_elapsed w @ '' seconds'')" using w by (simp add: plain_env_def)
    then have "read_cstr (cmem (w_elapsed w @ '' seconds'')) = Inr (w_elapsed w @ '' seconds'')"
      using cstr_id [of "w_elapsed w @ '' seconds''"] read_cstr_cmem by metis
    with put_tag_spec [OF f3(2) _ sub [OF k] cm, of "-1"] obtain b' where
      "put_tag b3 (int n) ?p (cmem (w_elapsed w @ '' seconds'')) (-1) = Inr (b', Some (int (length ?p)))"
      "holds b' (take n s @ (w_elapsed w @ '' seconds'') @ drop (n + length ?p) s)" by blast
    then show ?thesis using 3 f1(1,3) f2(1,3) f3(1) k by (simp add: fill_tag_def fill_text_def)
  next
    case 4
    then show ?thesis using f1(1,3) f2(1,3) f3 by (simp add: fill_tag_def fill_text_def)
  qed
qed

inductive fills :: "web_env \<Rightarrow> string \<Rightarrow> nat \<Rightarrow> string \<Rightarrow> bool" for w :: web_env where
  fill_done: "find_sub ''{{MC_'' (drop off s) = None \<Longrightarrow> off \<le> length s \<Longrightarrow> fills w s off s"
| fill_known: "find_sub ''{{MC_'' (drop off s) = Some k \<Longrightarrow> off \<le> length s \<Longrightarrow>
    fill_text w (drop (off + k) s) = Some (tag, r) \<Longrightarrow>
    fills w (take (off + k) s @ r @ drop (off + k + length tag) s) (off + k + length tag) t \<Longrightarrow>
    fills w s off t"
| fill_unknown: "find_sub ''{{MC_'' (drop off s) = Some k \<Longrightarrow> off \<le> length s \<Longrightarrow>
    fill_text w (drop (off + k) s) = None \<Longrightarrow> fills w s (off + (off + k)) t \<Longrightarrow> fills w s off t"

text \<open>The code does what the texts say, as long as the texts inside are free of NUL.\<close>

lemma fill_text_clean:
  assumes "plain_env w" "fill_text w s = Some (tag, r)"
  shows "NUL \<notin> set r"
  using assms by (auto simp: fill_text_def plain_env_def dest: in_set_butlastD split: if_splits)

lemma find_sub_bound: "find_sub p (drop off s) = Some k \<Longrightarrow> off \<le> length s \<Longrightarrow> off + k \<le> length s"
proof -
  assume "find_sub p (drop off s) = Some k" "off \<le> length s"
  then have "k \<le> length (drop off s)" "off \<le> length s" using find_sub_SomeD add_leD1 by blast+
  then show "off + k \<le> length s" by simp
qed

lemma script_loop_fills:
  "fills w s off t \<Longrightarrow> plain_env w \<Longrightarrow> NUL \<notin> set s \<Longrightarrow> holds b s \<Longrightarrow>
     \<exists>b'. script_loop w b (int off) = Some (Inr b') \<and> holds b' t"
proof (induction arbitrary: b rule: fills.induct)
  case (fill_done off s)
  obtain b' i where "Buffer_Find b ''{{MC_'' (int off) = Inr (b', i)" "holds b' s" "i = -1"
    using Find_tag [OF fill_done.prems(3) fill_done.hyps(2) fill_done.prems(2), of "''{{MC_''"]
      fill_done.hyps(1) by auto
  then show ?case by (subst script_loop.simps) simp
next
  case (fill_known off s k tag r t)
  obtain c i where c: "Buffer_Find b ''{{MC_'' (int off) = Inr (c, i)" "holds c s" "i = int (off + k)"
    using Find_tag [OF fill_known.prems(3) fill_known.hyps(2) fill_known.prems(2), of "''{{MC_''"]
      fill_known.hyps(1) by auto
  have n: "off + k \<le> length s" by (rule find_sub_bound [OF fill_known.hyps(1,2)])
  let ?s = "take (off + k) s @ r @ drop (off + k + length tag) s"
  obtain d where d: "fill_tag w c (int (off + k)) = Inr (d, Some (int (length tag)))" "holds d ?s"
    using fill_tag_spec [OF c(2) n fill_known.prems(2,1)] fill_known.hyps(3) by auto
  have "NUL \<notin> set ?s"
    using fill_text_clean [OF fill_known.prems(1) fill_known.hyps(3)] fill_known.prems(2)
    by (auto dest: in_set_takeD in_set_dropD)
  from fill_known.IH [OF fill_known.prems(1) this d(2)] obtain b' where
    "script_loop w d (int (off + k + length tag)) = Some (Inr b')" "holds b' t" by blast
  then show ?case using c(1,3) d(1) by (subst script_loop.simps) (simp add: add.assoc)
next
  case (fill_unknown off s k t)
  obtain c i where c: "Buffer_Find b ''{{MC_'' (int off) = Inr (c, i)" "holds c s" "i = int (off + k)"
    using Find_tag [OF fill_unknown.prems(3) fill_unknown.hyps(2) fill_unknown.prems(2), of "''{{MC_''"]
      fill_unknown.hyps(1) by auto
  have n: "off + k \<le> length s" by (rule find_sub_bound [OF fill_unknown.hyps(1,2)])
  obtain d where d: "fill_tag w c (int (off + k)) = Inr (d, None)" "holds d s"
    using fill_tag_spec [OF c(2) n fill_unknown.prems(2,1)] fill_unknown.hyps(3) by auto
  from fill_unknown.IH [OF fill_unknown.prems(1,2) d(2)] obtain b' where
    "script_loop w d (int (off + (off + k))) = Some (Inr b')" "holds b' t" by blast
  then show ?case using c(1,3) d(1) by (subst script_loop.simps) (simp add: add.assoc)
qed

text \<open>A page without tags stays as it is; one tag is exchanged for its text.\<close>

lemma fills_plain: "find_sub ''{{MC_'' s = None \<Longrightarrow> fills w s 0 s"
  by (rule fill_done) simp_all

lemma find_sub_drop_None:
  assumes "find_sub p s = None"
  shows "find_sub p (drop n s) = None"
  unfolding find_sub_None
proof (intro allI notI)
  fix i assume "i \<le> length (drop n s) \<and> starts_with p (drop i (drop n s))"
  moreover have "\<not> (i + n \<le> length s \<and> starts_with p (drop (i + n) s))"
    using assms find_sub_None [of p s] by blast
  moreover have "p \<noteq> []" using assms by (cases s) auto
  ultimately show False by (cases "n \<le> length s") (auto simp: drop_drop starts_with_iff)
qed

lemma fills_one:
  assumes one: "find_sub ''{{MC_'' (pre @ tag @ post) = Some (length pre)"
    and tag: "fill_text w (tag @ post) = Some (tag, r)"
    and rest: "find_sub ''{{MC_'' post = None" "CHR ''{'' \<notin> set r"
    and len: "length tag \<le> length r + length post"
  shows "fills w (pre @ tag @ post) 0 (pre @ r @ post)"
proof -
  let ?t = "pre @ r @ post"
  have free: "find_sub ''{{MC_'' (drop n r @ post) = None" for n
    using find_sub_skip [of "CHR ''{''" "drop n r" "''{MC_''" post] rest
    by (metis in_set_dropD option.map_disc_iff)
  have "find_sub ''{{MC_'' (drop (length pre + length tag) ?t) = None"
  proof (cases "length tag \<le> length r")
    case True
    then show ?thesis using free [of "length tag"] by simp
  next
    case False
    then show ?thesis using find_sub_drop_None [OF rest(1), of "length tag - length r"] by simp
  qed
  then have "fills w ?t (length pre + length tag) ?t" using len by (intro fill_done) auto
  then show ?thesis
    using one tag by (intro fill_known [of 0 _ "length pre" w tag r]) simp_all
qed

section \<open>Where the loop goes wrong\<close>

lemma script_loop_unknown:
  "script_loop w b off = Some y \<Longrightarrow>
     \<not> (plain_env w \<and> off = 0 \<and>
        (\<exists>s. holds b s \<and> NUL \<notin> set s \<and> find_sub ''{{MC_'' s = Some 0 \<and> fill_text w s = None))"
proof (induction rule: script_loop.raw_induct [rotated, consumes 1, case_names step])
  case (step loop w b off y)
  show ?case
  proof (intro notI, elim conjE exE)
    fix s assume a: "plain_env w" "off = 0" "holds b s" "NUL \<notin> set s"
      "find_sub ''{{MC_'' s = Some 0" "fill_text w s = None"
    have l: "(0 :: nat) \<le> length s" by simp
    obtain c i where c: "Buffer_Find b ''{{MC_'' (int 0) = Inr (c, i)" "holds c s" "i = int (0 + 0)"
      using Find_tag [OF a(3) l a(4), of "''{{MC_''"] a(5) by auto
    obtain d where d: "fill_tag w c (int 0) = Inr (d, None)" "holds d s"
      using fill_tag_spec [OF c(2) l a(4,1)] a(6) by auto
    have "loop w d 0 = Some y" using "step.hyps" c(1,3) d(1) a(2) by simp
    from "step.IH" [OF this] show False using a d(2) by blast
  qed
qed

lemma scripts_never_return:
  assumes "plain_env w" "holds (m_Response h) s" "NUL \<notin> set s"
    and "find_sub ''{{MC_'' s = Some 0" "fill_text w s = None"
  shows "ProcessServerSideScripts w h = None"
proof (cases "script_loop w (m_Response h) 0")
  case None
  then show ?thesis by (simp add: ProcessServerSideScripts_def)
next
  case (Some y)
  then show ?thesis using script_loop_unknown [OF Some] assms by blast
qed

lemma scripts_fill:
  assumes "fills w s 0 t" "plain_env w" "NUL \<notin> set s" "holds (m_Response h) s"
  shows "\<exists>b. ProcessServerSideScripts w h = Some (Inr (h\<lparr>m_Response := b\<rparr>)) \<and> holds b t"
  using script_loop_fills [OF assms] by (auto simp: ProcessServerSideScripts_def)

end
