(* ===== verification/WebServing.thy ===== *)
theory WebServing
  imports WebLaws ConnectionInboundLaws
begin

text \<open>
  The reply of the web server as a text. \<open>serves\<close> says which resource a request is given by the cache
  and the disk, \<open>answer_text\<close> what is written for it, and \<open>Web_Process_spec\<close> that \<open>Process\<close> posts exactly
  one reply with that text. The last section is the web server itself, which gives requests to its
  handlers.
\<close>

section \<open>Resources and their texts\<close>

datatype resource = NotModified | Content string string | Missing string

definition hit :: "web_env \<Rightarrow> cFileCache \<Rightarrow> string \<Rightarrow> string \<Rightarrow> string \<Rightarrow> bool" where
  "hit w c path d tag \<longleftrightarrow> cached c path = Some (d, file_stamp w c path, tag)"

text \<open>A page with the mark of a script in it is never reported as not modified.\<close>

definition scripted :: "string \<Rightarrow> string \<Rightarrow> bool" where
  "scripted path d \<longleftrightarrow> find_sub ''.htm'' path \<noteq> None \<and> find_sub ''<?mc'' (cstr d) \<noteq> None"

definition on_disk :: "web_env \<Rightarrow> string \<Rightarrow> string option" where
  "on_disk w path = (if path = [] then None else w_read w path)"

fun serves :: "web_env \<Rightarrow> cFileCache \<Rightarrow> string \<Rightarrow> string \<Rightarrow> resource \<Rightarrow> bool" where
  "serves w c path etag NotModified = (\<exists>d. hit w c path d etag \<and> \<not> scripted path d)"
| "serves w c path etag (Content d tag) =
     (d \<noteq> [] \<and> (hit w c path d tag \<and> (etag = tag \<longrightarrow> scripted path d) \<or>
       (\<nexists>d tag. hit w c path d tag) \<and> on_disk w path = Some d))"
| "serves w c path etag (Missing tag) =
     (hit w c path [] tag \<and> (etag = tag \<longrightarrow> scripted path []) \<or>
      (\<nexists>d tag. hit w c path d tag) \<and> on_disk w path \<in> {None, Some []})"

text \<open>What becomes of the bytes of a page. Bytes without a tag before their first NUL stay as they are.\<close>

definition page_after :: "web_env \<Rightarrow> string \<Rightarrow> string \<Rightarrow> string \<Rightarrow> bool" where
  "page_after w type d t \<longleftrightarrow>
     (if find_sub ''htm'' type = Some 0 then t = d
      else find_sub ''{{MC_'' (cstr d) = None \<and> t = d \<or> NUL \<notin> set d \<and> fills w d 0 t)"

definition pages_fill :: "web_env \<Rightarrow> cFileCache \<Rightarrow> string \<Rightarrow> string \<Rightarrow> string \<Rightarrow> bool" where
  "pages_fill w c path etag type \<longleftrightarrow>
     (\<forall>d tag. serves w c path etag (Content d tag) \<longrightarrow> (\<exists>t. page_after w type d t))"

fun answer_text :: "web_env \<Rightarrow> string \<Rightarrow> bool \<Rightarrow> string \<Rightarrow> string \<Rightarrow> resource \<Rightarrow> string" where
  "answer_text w type keep label t NotModified = header_304 keep (GetDate (w_gmtime w)) label"
| "answer_text w type keep label t (Content d tag) =
     header_200 keep (GetDate (w_gmtime w)) label tag type (int (length t)) @ t"
| "answer_text w type keep label t (Missing tag) =
     (if w_zeroConfig w then zero_config_reply (GetDate (w_gmtime w)) (e_serverName (w_env w)) tag
      else not_found_reply keep (GetDate (w_gmtime w)) (e_serverName (w_env w)))"

lemma answer_text_nonempty: "answer_text w type keep label t res \<noteq> []"
  by (cases res) (simp_all add: header_304_def header_200_def zero_config_reply_def
      not_found_reply_def Let_def)

section \<open>Lemmas on buffers\<close>

text \<open>A buffer as the payload of a message: its block and its count.\<close>

definition offers :: "block option \<Rightarrow> int \<Rightarrow> string \<Rightarrow> bool" where
  "offers p len txt \<longleftrightarrow>
     (\<exists>blk. p = Some blk \<and> len = int (length txt) \<and> take (length txt) blk = map Some txt)"

lemma offers_buffer:
  assumes "holds b txt" "txt \<noteq> []"
  shows "offers (Buffer_GetRawBuffer b) (Buffer_GetBufferCount b) txt"
proof -
  obtain blk where blk: "m_pBuffer b = Some blk" using holds_nonnull [OF assms(1)] assms(2) by blast
  obtain r rest where "blk = map Some txt @ r # rest" using assms(1) blk by (rule holds_SomeE)
  then show ?thesis using blk holds_tail [OF assms(1)]
    by (simp add: offers_def Buffer_GetRawBuffer_def Buffer_GetBufferCount_def)
qed

lemma offers_text: "offers (Some (cmem txt)) (int (length txt)) txt"
  by (simp add: offers_def take_cmem)

lemma header_no_NUL:
  "NUL \<notin> set (header_304 keep date label)" "NUL \<notin> set (header_200 keep date label tag type n)"
  by (auto simp: header_304_def header_200_def connection_line_def int_text_no_NUL)

text \<open>The loop over a text without a tag, which may hold any bytes.\<close>

lemma script_loop_plain:
  assumes "holds b s" "find_sub ''{{MC_'' (cstr s) = None"
  shows "\<exists>b'. script_loop w b 0 = Some (Inr b') \<and> holds b' s"
proof (cases "s = []")
  case True
  then show ?thesis using assms Find_empty [of b] by (subst script_loop.simps) simp
next
  case False
  have "cstr ''{{MC_'' = ''{{MC_''" by (rule cstr_id) simp
  with Find_holds [OF assms(1) False, of 0 "''{{MC_''"] assms(2) obtain b' where
    "Buffer_Find b ''{{MC_'' 0 = Inr (b', -1)" "holds b' s" by auto
  then show ?thesis by (subst script_loop.simps) simp
qed

lemma scripts_page:
  assumes h: "holds (m_Response h) d" and w: "plain_env w"
    and p: "page_after w (m_sContentType h) d t"
  shows "\<exists>b. (if scripts_wanted h then ProcessServerSideScripts w h else Some (Inr h)) =
      Some (Inr (h\<lparr>m_Response := b\<rparr>)) \<and> holds b t"
proof (cases "scripts_wanted h")
  case False
  then show ?thesis using p h
    by (intro exI [of _ "m_Response h"]) (simp add: scripts_wanted_def page_after_def)
next
  case True
  then consider "find_sub ''{{MC_'' (cstr d) = None" "t = d" | "NUL \<notin> set d" "fills w d 0 t"
    using p by (auto simp: scripts_wanted_def page_after_def)
  then show ?thesis
  proof cases
    case 1
    then show ?thesis using True script_loop_plain [OF h 1(1), of w]
      by (auto simp: ProcessServerSideScripts_def)
  next
    case 2
    then show ?thesis using True scripts_fill [OF 2(2) w 2(1) h] by simp
  qed
qed

section \<open>The text of the reply\<close>

lemma reply_missing:
  assumes "holds (m_Response h) []" "\<not> m_bCachedNotModified h"
  shows "\<exists>p len. reply_body w keep h = Some (Inr (h, p, len)) \<and>
    offers p len (answer_text w type keep label t (Missing (m_sEntityTag h)))"
  using assms offers_text holds_tail [OF assms(1)]
  by (simp add: reply_body_def Buffer_GetBufferCount_def Let_def)

lemma reply_not_modified:
  assumes "holds (m_Response h) d" "m_bCachedNotModified h"
  shows "\<exists>b p len. reply_body w keep h = Some (Inr (h\<lparr>m_Response := b\<rparr>, p, len)) \<and> buf_wf b \<and>
    offers p len (answer_text w type keep (m_sServerLabel h) t NotModified)"
proof -
  let ?t = "header_304 keep (GetDate (w_gmtime w)) (m_sServerLabel h)"
  obtain b rc where b: "Buffer_ReplaceWith (m_Response h) (Some (cmem ?t)) (-1) = Inr (b, rc)" "holds b ?t"
    using ReplaceWith_string [OF assms(1) header_no_NUL(1)] by blast
  have "?t \<noteq> []" by (simp add: header_304_def)
  then show ?thesis using b assms(2) offers_buffer [OF b(2)] holds_wf [OF b(2)]
    by (simp add: reply_body_def Let_def) blast
qed

lemma reply_content:
  assumes h: "holds (m_Response h) d" "d \<noteq> []" "\<not> m_bCachedNotModified h" and w: "plain_env w"
    and p: "page_after w (m_sContentType h) d t"
  shows "\<exists>b p len. reply_body w keep h = Some (Inr (h\<lparr>m_Response := b\<rparr>, p, len)) \<and> buf_wf b \<and>
    offers p len (answer_text w (m_sContentType h) keep (m_sServerLabel h) t (Content d (m_sEntityTag h)))"
proof -
  obtain b where b: "(if scripts_wanted h then ProcessServerSideScripts w h else Some (Inr h)) =
      Some (Inr (h\<lparr>m_Response := b\<rparr>))" "holds b t"
    using scripts_page [OF h(1) w p] by blast
  let ?t = "header_200 keep (GetDate (w_gmtime w)) (m_sServerLabel h) (m_sEntityTag h)
    (m_sContentType h) (int (length t))"
  obtain c where c: "Buffer_Prepend b (Some (cmem ?t)) (-1) = Inr (c, BUFFER_NO_ERROR)" "holds c (?t @ t)"
    using Prepend_holds [OF b(2) header_no_NUL(2)] by blast
  have count: "Buffer_GetBufferCount b = int (length t)" "Buffer_GetBufferCount (m_Response h) \<noteq> 0"
    using holds_tail [OF b(2)] holds_tail [OF h(1)] h(2) by (simp_all add: Buffer_GetBufferCount_def)
  have "?t @ t \<noteq> []" by (simp add: header_200_def)
  then show ?thesis using b(1) c count h(3) offers_buffer [OF c(2)] holds_wf [OF c(2)]
    unfolding reply_body_def Let_def by simp blast
qed

text \<open>The three cases together, for the handler as \<open>GetResource\<close> leaves it.\<close>

lemma given_hit:
  assumes g: "gives_hit (noted_page h) c ids d tag h' c' ids'" and hit: "hit w c (m_sPath h) d tag"
    and h: "\<not> m_bWebPage h" "\<not> m_bCachedNotModified h" and w: "plain_env w"
    and page: "pages_fill w c (m_sPath h) (m_sMessageETag h) type"
    and type: "type = resource_type (m_MIMEMap h) (m_sPath h)"
  shows "\<exists>res t h'' p len. reply_body w keep h' = Some (Inr (h'', p, len)) \<and>
    serves w c (m_sPath h) (m_sMessageETag h) res \<and>
    (\<forall>d tag. res = Content d tag \<longrightarrow> page_after w type d t) \<and>
    offers p len (answer_text w type keep (m_sServerLabel h) t res) \<and> buf_wf (m_Response h'')"
proof -
  let ?h = "noted_page h"
  have nm: "not_modified ?h d tag \<longleftrightarrow> m_sMessageETag h = tag \<and> \<not> scripted (m_sPath h) d"
    using h(1) by (auto simp: not_modified_def noted_page_def scripted_def)
  show ?thesis
  proof (cases "not_modified ?h d tag")
    case True
    then obtain b where b: "holds b []"
      "h' = ?h\<lparr>m_Response := b, m_sEntityTag := tag, m_bCachedNotModified := True\<rparr>"
      using g by (auto simp: gives_hit_def)
    have "holds (m_Response h') []" "m_bCachedNotModified h'" "m_sServerLabel h' = m_sServerLabel h"
      using b by (simp_all add: noted_page_def)
    from reply_not_modified [OF this(1,2), of w keep type] this(3) obtain x p len where
      "reply_body w keep h' = Some (Inr (h'\<lparr>m_Response := x\<rparr>, p, len))" "buf_wf x"
      "offers p len (answer_text w type keep (m_sServerLabel h) [] NotModified)" by auto
    moreover have "serves w c (m_sPath h) (m_sMessageETag h) NotModified"
      using True hit nm by auto
    ultimately show ?thesis
      by (intro exI [of _ NotModified] exI [of _ "[]"] exI [of _ "h'\<lparr>m_Response := x\<rparr>"]
          exI [of _ p] exI [of _ len]) simp
  next
    case False
    then obtain b where b: "holds b d" "h' = ?h\<lparr>m_Response := b, m_sEntityTag := tag,
        m_sContentType := resource_type (m_MIMEMap ?h) (m_sPath ?h)\<rparr>"
      using g by (auto simp: gives_hit_def)
    have h': "holds (m_Response h') d" "\<not> m_bCachedNotModified h'" "m_sEntityTag h' = tag"
      "m_sServerLabel h' = m_sServerLabel h" "m_sContentType h' = type"
      using b h(2) type by (simp_all add: noted_page_def)
    show ?thesis
    proof (cases "d = []")
      case True
      from reply_missing [OF h'(1) [unfolded True] h'(2), of w keep type "m_sServerLabel h" "[]"]
      obtain p len where "reply_body w keep h' = Some (Inr (h', p, len))"
        "offers p len (answer_text w type keep (m_sServerLabel h) [] (Missing tag))"
        using h'(3) by auto
      moreover have "serves w c (m_sPath h) (m_sMessageETag h) (Missing tag)"
        using False hit nm True by auto
      ultimately show ?thesis using holds_wf [OF h'(1)]
        by (intro exI [of _ "Missing tag"] exI [of _ "[]"] exI [of _ h'] exI [of _ p] exI [of _ len]) simp
    next
      case ne: False
      have sv: "serves w c (m_sPath h) (m_sMessageETag h) (Content d tag)"
        using False hit nm ne by auto
      then obtain t where t: "page_after w type d t" using page unfolding pages_fill_def by blast
      from reply_content [OF h'(1) ne h'(2) w] t h'(3,4,5) obtain x p len where
        "reply_body w keep h' = Some (Inr (h'\<lparr>m_Response := x\<rparr>, p, len))" "buf_wf x"
        "offers p len (answer_text w type keep (m_sServerLabel h) t (Content d tag))" by metis
      then show ?thesis using sv t
        by (intro exI [of _ "Content d tag"] exI [of _ t] exI [of _ "h'\<lparr>m_Response := x\<rparr>"]
            exI [of _ p] exI [of _ len]) simp
    qed
  qed
qed

lemma given_miss:
  assumes g: "gives_miss w (noted_page h) c ids ts h' c' ids'" and hit: "\<nexists>d tag. hit w c (m_sPath h) d tag"
    and h: "\<not> m_bWebPage h" "\<not> m_bCachedNotModified h" and w: "plain_env w"
    and page: "pages_fill w c (m_sPath h) (m_sMessageETag h) type"
    and type: "type = resource_type (m_MIMEMap h) (m_sPath h)"
  shows "\<exists>res t h'' p len. reply_body w keep h' = Some (Inr (h'', p, len)) \<and>
    serves w c (m_sPath h) (m_sMessageETag h) res \<and>
    (\<forall>d tag. res = Content d tag \<longrightarrow> page_after w type d t) \<and>
    offers p len (answer_text w type keep (m_sServerLabel h) t res) \<and> buf_wf (m_Response h'')"
proof -
  have disk: "(if m_sPath (noted_page h) = [] then None else w_read w (m_sPath (noted_page h))) =
      on_disk w (m_sPath h)"
    by (simp add: on_disk_def noted_page_def)
  obtain b d tag where b: "holds b d" "on_disk w (m_sPath h) \<in> {Some d, None}"
      "on_disk w (m_sPath h) = None \<longrightarrow> d = []" "m_Response h' = b" "\<not> m_bCachedNotModified h'"
      "m_sEntityTag h' = tag" "m_sServerLabel h' = m_sServerLabel h"
      "d \<noteq> [] \<longrightarrow> m_sContentType h' = type"
  proof (cases "on_disk w (m_sPath h)")
    case None
    then obtain b where "holds b []" "h' = (noted_page h)\<lparr>m_Response := b\<rparr>"
      using g unfolding gives_miss_def disk by auto
    then show thesis using that [of b "[]" "m_sEntityTag h"] None h(2) by (simp add: noted_page_def)
  next
    case (Some d)
    then obtain b tag where "holds b d" "h' = (noted_page h)\<lparr>m_Response := b, m_sEntityTag := tag,
        m_sContentType := resource_type (m_MIMEMap (noted_page h)) (m_sPath (noted_page h))\<rparr>"
      using g unfolding gives_miss_def disk by auto
    then show thesis using that [of b d tag] Some h(2) type by (simp add: noted_page_def)
  qed
  have r: "holds (m_Response h') d" using b(1,4) by simp
  show ?thesis
  proof (cases "d = []")
    case True
    from reply_missing [OF r [unfolded True] b(5), of w keep type "m_sServerLabel h" "[]"]
    obtain p len where "reply_body w keep h' = Some (Inr (h', p, len))"
      "offers p len (answer_text w type keep (m_sServerLabel h) [] (Missing tag))"
      using b(6) by auto
    moreover have "serves w c (m_sPath h) (m_sMessageETag h) (Missing tag)"
      using hit b(2) True by auto
    ultimately show ?thesis using holds_wf [OF r]
      by (intro exI [of _ "Missing tag"] exI [of _ "[]"] exI [of _ h'] exI [of _ p] exI [of _ len]) simp
  next
    case ne: False
    have sv: "serves w c (m_sPath h) (m_sMessageETag h) (Content d tag)"
      using hit b(2,3) ne by auto
    then obtain t where t: "page_after w type d t" using page unfolding pages_fill_def by blast
    have ct: "m_sContentType h' = type" using b(8) ne by simp
    from reply_content [OF r ne b(5) w] t b(6,7) ct obtain x p len where
      "reply_body w keep h' = Some (Inr (h'\<lparr>m_Response := x\<rparr>, p, len))" "buf_wf x"
      "offers p len (answer_text w type keep (m_sServerLabel h) t (Content d tag))" by metis
    then show ?thesis using sv t
      by (intro exI [of _ "Content d tag"] exI [of _ t] exI [of _ "h'\<lparr>m_Response := x\<rparr>"]
          exI [of _ p] exI [of _ len]) simp
  qed
qed

lemma given_resource:
  assumes g: "gives w (noted_page h) c ids h' c' ids'"
    and h: "\<not> m_bWebPage h" "\<not> m_bCachedNotModified h" and w: "plain_env w"
    and page: "pages_fill w c (m_sPath h) (m_sMessageETag h) type"
    and type: "type = resource_type (m_MIMEMap h) (m_sPath h)"
  shows "\<exists>res t h'' p len. reply_body w keep h' = Some (Inr (h'', p, len)) \<and>
    serves w c (m_sPath h) (m_sMessageETag h) res \<and>
    (\<forall>d tag. res = Content d tag \<longrightarrow> page_after w type d t) \<and>
    offers p len (answer_text w type keep (m_sServerLabel h) t res) \<and> buf_wf (m_Response h'')"
proof -
  have p: "m_sPath (noted_page h) = m_sPath h" by (simp add: noted_page_def)
  show ?thesis
  proof (cases "\<exists>d tag. hit w c (m_sPath h) d tag")
    case True
    then obtain d tag where hit: "hit w c (m_sPath h) d tag" by blast
    then have hits: "gives_hit (noted_page h) c ids d tag h' c' ids'"
      using g by (simp add: gives_def p hit_def)
    show ?thesis by (rule given_hit [OF hits hit h w page type])
  next
    case False
    then have misses: "gives_miss w (noted_page h) c ids (file_stamp w c (m_sPath h)) h' c' ids'"
      using g by (auto simp: gives_def p hit_def Let_def split: option.splits)
    show ?thesis by (rule given_miss [OF misses False h w page type])
  qed
qed

section \<open>The reply message\<close>

lemma reply_to_bufs:
  "MsgBuffer (reply_to m n) = MsgBuffer n" "MsgRawBuffer (reply_to m n) = MsgRawBuffer n"
  by (simp_all add: reply_to_def Let_def msg_setters)

lemma CreateMessageReply_bufs:
  assumes ok: "bufs_ok (m_msgPool q)" and r: "CreateMessageReply env q (Some b) = Inr (a, q')"
  shows "bufs_ok (m_msgPool q')"
proof -
  from r obtain q1 q2 m where g: "MQ_GetMessage env q = Inr (a, q1)"
    and q2: "mq_upd q1 b Msg_SetCloned = Inr q2" and m: "mq_get q2 b = Inr m"
    and q': "mq_upd q2 a (reply_to m) = Inr q'"
    by (auto simp: CreateMessageReply_def result_simps)
  have ok1: "bufs_ok (m_msgPool q1)" by (rule GetMessage_bufs [OF ok g])
  obtain m1 where m1: "m_store (m_msgPool q1) b = Some m1"
      "q2 = q1\<lparr>m_msgPool := pool_put (m_msgPool q1) b (Msg_SetCloned m1)\<rparr>"
    using q2 by (auto simp: mq_upd_def pool_upd_def pool_get_def result_simps split: option.splits)
  have ok2: "bufs_ok (m_msgPool q2)"
    using ok1 m1 by (auto simp: bufs_ok_def pool_put_def Msg_SetCloned_def)
  obtain m2 where m2: "m_store (m_msgPool q2) a = Some m2"
      "q' = q2\<lparr>m_msgPool := pool_put (m_msgPool q2) a (reply_to m m2)\<rparr>"
    using q' by (auto simp: mq_upd_def pool_upd_def pool_get_def result_simps split: option.splits)
  then show ?thesis using ok2 by (auto simp: bufs_ok_def pool_put_def reply_to_bufs)
qed

lemma CreateMessageReply_queued:
  assumes "CreateMessageReply env q (Some b) = Inr (a, q')"
  shows "queued q' = queued q"
  using assms
  by (auto simp: CreateMessageReply_def MQ_GetMessage_def mq_upd_def result_simps)

text \<open>The message that goes out: the answer to \<open>m\<close>, pending, with its text as the payload.\<close>

definition sent_answer :: "cMsg \<Rightarrow> nat \<Rightarrow> string \<Rightarrow> cMsg \<Rightarrow> bool" where
  "sent_answer m n txt r \<longleftrightarrow>
     MsgState r = MSG_STATE_PENDING \<and> MsgConnectionType r = MSG_CT_OB_TCP \<and>
     MsgFormat r = MSG_FORMAT_RES \<and> MsgID r = cstr (MsgID m) \<and> MsgTo r = cstr (MsgFrom m) \<and>
     TCPSocketHandle r = TCPSocketHandle m \<and> m_bKeepAlive r = m_bKeepAlive m \<and>
     MsgPriority r = MsgPriority m \<and> MsgProtocolType r = MsgProtocolType m \<and>
     holds (MsgBuffer r) txt \<and> m_pPayload r = Some (MsgPtr n 0) \<and>
     MsgContentLength r = int (length txt)"

lemma post_reply_spec:
  assumes h: "held q n" "held q a" "n \<noteq> a" and r: "m_store (m_msgPool q) n = Some r"
    and m: "m_store (m_msgPool q) a = Some ma" and ok: "bufs_ok (m_msgPool q)"
    and ans: "answers m r" "MsgConnectionType m = MSG_CT_IB_TCP"
    and pay: "offers p len txt" "txt \<noteq> []"
  shows "\<exists>q' r'. post_reply w q n a p len = Inr q' \<and> mq_inv q' \<and> bufs_ok (m_msgPool q') \<and>
    queued q' = queued q \<and> m_store (m_msgPool q') n = Some r' \<and> sent_answer m n txt r' \<and>
    m_store (m_msgPool q') a = Some (Msg_MarkProcessed ma) \<and>
    (\<forall>b. b \<noteq> a \<and> b \<noteq> n \<longrightarrow> m_store (m_msgPool q') b = m_store (m_msgPool q) b)"
proof -
  obtain blk where p: "p = Some blk" "len = int (length txt)" "take (length txt) blk = map Some txt"
    using pay(1) by (auto simp: offers_def)
  have wf: "buf_wf (MsgBuffer r)" "buf_wf (MsgRawBuffer r)" using ok r by (auto simp: bufs_ok_def)
  have l: "0 < length txt" using pay(2) by simp
  obtain b rc where b: "Buffer_ReplaceWith (MsgBuffer r) (Some blk) (int (length txt)) = Inr (b, rc)"
      "holds b txt" "m_pBuffer b \<noteq> None"
    using ReplaceWith_holds [OF wf_holds [OF wf(1)] p(3) refl] l by auto
  let ?r1 = "r\<lparr>MsgBuffer := b, m_pPayload := Some (MsgPtr n 0), MsgContentLength := int (length txt)\<rparr>"
  have set: "Msg_SetContentPayload n r p len = Inr ?r1"
    using b(1,3) p by (auto simp: Msg_SetContentPayload_def Buffer_GetRawBuffer_def)
  have s1: "MsgState ?r1 = MSG_STATE_INUSE" using ans(1) by (simp add: answers_def)
  let ?q1 = "q\<lparr>m_msgPool := pool_put (m_msgPool q) n ?r1\<rparr>"
  have h1: "held ?q1 n" "held ?q1 a" using put_inv(2) [OF h(1) s1] held_put [OF h(2,1)] h(3) by auto
  let ?r2 = "Msg_DispatchMsg (e_serverName (w_env w)) (e_serverAddr (w_env w)) ?r1"
  let ?q2 = "?q1\<lparr>m_msgPool := pool_put (m_msgPool ?q1) n ?r2\<rparr>"
  have d: "MQ_DispatchMsg (w_env w) ?q1 n = Inr ?q2"
    unfolding MQ_DispatchMsg_def by (rule mq_upd_eq) (simp add: pool_put_def)
  have h2: "held ?q2 a" using held_put [OF h1(2,1)] h(3) by auto
  have ma: "m_store (m_msgPool ?q2) a = Some ma" using m h(3) by (simp add: pool_put_def)
  let ?q3 = "?q2\<lparr>m_msgPool := pool_put (m_msgPool ?q2) a (Msg_MarkProcessed ma)\<rparr>"
  have "post_reply w q n a p len = Inr ?q3"
    using mq_get_eq [OF r] set d mq_upd_eq [OF ma, of Msg_MarkProcessed] by (simp add: post_reply_def)
  moreover have "mq_inv ?q3" by (rule put_inv(1) [OF h2])
  moreover have "bufs_ok (m_msgPool ?q3)"
    using ok wf m holds_wf [OF b(2)]
    by (auto simp: bufs_ok_def pool_put_def Msg_DispatchMsg_def Msg_MarkProcessed_def Let_def)
  moreover have "m_store (m_msgPool ?q3) n = Some ?r2" using h(3) by (simp add: pool_put_def)
  moreover have "sent_answer m n txt ?r2"
    using ans b(2) by (simp add: sent_answer_def Msg_DispatchMsg_def Let_def answers_def reply_type_def)
  moreover have "m_store (m_msgPool ?q3) a = Some (Msg_MarkProcessed ma)" by (simp add: pool_put_def)
  moreover have "queued ?q3 = queued q" by simp
  moreover have "\<forall>b. b \<noteq> a \<and> b \<noteq> n \<longrightarrow> m_store (m_msgPool ?q3) b = m_store (m_msgPool q) b"
    by (simp add: pool_put_def)
  ultimately show ?thesis by blast
qed

section \<open>A request is answered\<close>

text \<open>
  \<open>m\<close> is an HTTP request for \<open>uri\<close> with the header \<open>ls\<close>; the length that a POST request names is the length of its body.
\<close>

definition web_request :: "cMsg \<Rightarrow> string \<Rightarrow> string \<Rightarrow> string list \<Rightarrow> string \<Rightarrow> bool" where
  "web_request m meth uri ls body \<longleftrightarrow>
     holds (MsgRawBuffer m) (message_text ls body) \<and> terminated (MsgRawBuffer m) \<and> header_lines ls \<and>
     (\<exists>u v. uri = CHR ''/'' # u \<and> SP \<notin> set u \<and> hd ls = meth @ SP # CHR ''/'' # u @ '' HTTP/'' @ v) \<and>
     (meth = ''GET'' \<or> meth = ''POST'' \<and>
      (atoi (header_field ls ''Content-Length'') \<le> 0 \<or>
       atoi (header_field ls ''Content-Length'') = int (length body) \<and> NUL \<notin> set body))"

lemma web_request_header:
  assumes "web_request m meth uri ls body"
  shows "\<exists>ok h'. ProcessHTTPHeader dirs h m = Inr (ok, h') \<and>
    m_sPath h' = path_of dirs ls (MsgArrivalPort m) uri \<and> m_sMessageETag h' = etag_of ls (m_sMessageETag h) \<and>
    m_Response h' = m_Response h \<and> m_MIMEMap h' = m_MIMEMap h \<and> m_sServerLabel h' = m_sServerLabel h \<and>
    m_bWebPage h' = m_bWebPage h \<and> m_bCachedNotModified h' = m_bCachedNotModified h"
proof -
  obtain u v where w: "uri = CHR ''/'' # u" "SP \<notin> set u"
      "hd ls = meth @ SP # CHR ''/'' # u @ '' HTTP/'' @ v"
    using assms unfolding web_request_def by blast
  have "holds (MsgRawBuffer m) (message_text ls body)" "terminated (MsgRawBuffer m)" "header_lines ls"
    "meth = ''GET'' \<or> meth = ''POST'' \<and>
      (atoi (header_field ls ''Content-Length'') \<le> 0 \<or>
       atoi (header_field ls ''Content-Length'') = int (length body) \<and> NUL \<notin> set body)"
    using assms unfolding web_request_def by blast+
  from ProcessHTTPHeader_spec [OF this(1-3) w(3,2) this(4), of dirs h] show ?thesis
    unfolding w(1) Let_def by (intro exI conjI) (assumption, simp_all)
qed

lemma Web_Process_spec:
  assumes h: "held (w_queue s) a" and m: "m_store (m_msgPool (w_queue s)) a = Some m"
    and ct: "MsgConnectionType m = MSG_CT_IB_TCP" and ok: "bufs_ok (m_msgPool (w_queue s))"
    and c: "fc_inv (w_cache s)" and resp: "buf_wf (m_Response h)" and w: "plain_env w"
    and req: "web_request m meth uri ls body"
    and path: "path = path_of dirs ls (MsgArrivalPort m) uri"
    and type: "type = resource_type (m_MIMEMap h) path"
    and page: "pages_fill w (w_cache s) path (etag_of ls []) type"
  shows "\<exists>h' s' n r res t. Web_Process w dirs h s a = Some (Inr (h', s')) \<and>
    serves w (w_cache s) path (etag_of ls []) res \<and>
    (\<forall>d tag. res = Content d tag \<longrightarrow> page_after w type d t) \<and>
    n \<noteq> a \<and> m_store (m_msgPool (w_queue s')) n = Some r \<and>
    sent_answer m n (answer_text w type (m_bKeepAlive m) (m_sServerLabel h) t res) r \<and>
    m_store (m_msgPool (w_queue s')) a = Some (Msg_MarkProcessed (Msg_SetCloned m)) \<and>
    (\<forall>b. b \<noteq> a \<and> b \<noteq> n \<longrightarrow> m_store (m_msgPool (w_queue s')) b = m_store (m_msgPool (w_queue s)) b) \<and>
    mq_inv (w_queue s') \<and> bufs_ok (m_msgPool (w_queue s')) \<and> queued (w_queue s') = queued (w_queue s) \<and>
    fc_inv (w_cache s') \<and> buf_wf (m_Response h')"
proof -
  let ?h0 = "h\<lparr>m_bWebPage := False, m_bCachedNotModified := False, m_sEntityTag := [], m_sMessageETag := []\<rparr>"
  obtain rc h1 where h1: "ProcessHTTPHeader dirs ?h0 m = Inr (rc, h1)" "m_sPath h1 = path"
      "m_sMessageETag h1 = etag_of ls []" "m_Response h1 = m_Response h" "m_MIMEMap h1 = m_MIMEMap h"
      "m_sServerLabel h1 = m_sServerLabel h" "\<not> m_bWebPage h1" "\<not> m_bCachedNotModified h1"
    using web_request_header [OF req, of dirs ?h0] path by auto
  from CreateMessageReply_spec [OF h m, of "w_env w"] obtain n q r where
    q: "CreateMessageReply (w_env w) (w_queue s) (Some a) = Inr (n, q)" "held q n" "held q a" "n \<noteq> a"
      "m_store (m_msgPool q) n = Some r" "answers m r"
      "m_store (m_msgPool q) a = Some (Msg_SetCloned m)"
      "\<forall>b. b \<noteq> n \<and> b \<noteq> a \<longrightarrow> m_store (m_msgPool q) b = m_store (m_msgPool (w_queue s)) b" by blast
  have resp1: "holds (m_Response h1) (contents (m_Response h))" using wf_holds [OF resp] h1(4) by simp
  from GetResource_spec [OF c resp1, of w "m_UniqueIDProvider q"] obtain h2 c' ids where
    g: "GetResource w h1 (w_cache s) (m_UniqueIDProvider q) = Inr (h2, c', ids)" "fc_inv c'"
      "gives w (noted_page h1) (w_cache s) (m_UniqueIDProvider q) h2 c' ids" by blast
  let ?q = "q\<lparr>m_UniqueIDProvider := ids\<rparr>"
  have pre: "Web_prepare w dirs h s a = Inr (h2, s\<lparr>w_queue := ?q, w_cache := c'\<rparr>, n, m_bKeepAlive m)"
    unfolding Web_prepare_def Let_def using mq_get_eq [OF m] h1(1) q(1,5,6) g(1)
    by (simp add: mq_get_eq Msg_IsKeepAlive_def answers_def)
  have page1: "pages_fill w (w_cache s) (m_sPath h1) (m_sMessageETag h1) type" using page h1(2,3) by simp
  have "type = resource_type (m_MIMEMap h1) (m_sPath h1)" using type h1(2,5) by simp
  from given_resource [OF g(3) h1(7,8) w page1 this, where keep = "m_bKeepAlive m"]
  obtain res t h3 p len where res: "reply_body w (m_bKeepAlive m) h2 = Some (Inr (h3, p, len))"
      "serves w (w_cache s) path (etag_of ls []) res"
      "\<forall>d tag. res = Content d tag \<longrightarrow> page_after w type d t"
      "offers p len (answer_text w type (m_bKeepAlive m) (m_sServerLabel h) t res)"
      "buf_wf (m_Response h3)"
    unfolding h1(2,3,6) by blast
  have hq: "held ?q n" "held ?q a" using q(2,3) by (simp_all add: held_def)
  have okq: "bufs_ok (m_msgPool ?q)" using CreateMessageReply_bufs [OF ok q(1)] by simp
  from post_reply_spec [OF hq q(4) _ _ okq q(6) ct res(4) answer_text_nonempty, of "Msg_SetCloned m" w]
  obtain q' r' where
    post: "post_reply w ?q n a p len = Inr q'" "mq_inv q'" "bufs_ok (m_msgPool q')"
      "queued q' = queued ?q" "m_store (m_msgPool q') n = Some r'"
      "sent_answer m n (answer_text w type (m_bKeepAlive m) (m_sServerLabel h) t res) r'"
      "m_store (m_msgPool q') a = Some (Msg_MarkProcessed (Msg_SetCloned m))"
      "\<forall>b. b \<noteq> a \<and> b \<noteq> n \<longrightarrow> m_store (m_msgPool q') b = m_store (m_msgPool ?q) b"
    using q(5,7) by auto
  have "Web_Process w dirs h s a = Some (Inr (h3, s\<lparr>w_queue := q', w_cache := c'\<rparr>))"
    using pre res(1) post(1) by (simp add: Web_Process_def)
  moreover have "queued q' = queued (w_queue s)"
    using post(4) CreateMessageReply_queued [OF q(1)] by simp
  moreover have "\<forall>b. b \<noteq> a \<and> b \<noteq> n \<longrightarrow>
      m_store (m_msgPool q') b = m_store (m_msgPool (w_queue s)) b"
    using post(8) q(8) by simp
  ultimately show ?thesis using res(2,3,5) q(4) post(2,3,5,6,7) g(2)
    by (intro exI [of _ h3] exI [of _ "s\<lparr>w_queue := q', w_cache := c'\<rparr>"] exI [of _ n] exI [of _ r']
        exI [of _ res] exI [of _ t]) simp
qed

end
