(* ===== verification/WebSite.thy ===== *)
theory WebSite
  imports WebServing
begin

text \<open>
  Two systems around the web server. The first is the server and its handlers: which handler a
  request goes to, and what happens when there is none. The second is a site: files that change,
  and requests that are answered from the cache or from the disk, in any order.
\<close>

section \<open>The handlers of the web server\<close>

text \<open>The requests that the handlers work on, and the invariant of the server.\<close>

definition jobs :: "cWebRequestHandler list \<Rightarrow> nat option list" where
  "jobs hs = map m_pIMsg (filter m_bConnected hs)"

definition server_inv :: "cWebServer \<Rightarrow> bool" where
  "server_inv s \<longleftrightarrow> 0 \<le> m_iMaxHandlers s \<and> m_iMaxHandlers s < 2 ^ 31 \<and>
     int (length (m_WebRequestHandlers s)) \<le> m_iMaxHandlers s \<and>
     m_iTotalThreads s = int (length (m_WebRequestHandlers s)) \<and>
     (\<forall>h \<in> set (m_WebRequestHandlers s). \<not> m_NewThread h)"

lemma server_inv_new: "0 \<le> n \<Longrightarrow> n < 2 ^ 31 \<Longrightarrow> server_inv (new_cWebServer dirs n)"
  by (simp add: server_inv_def new_cWebServer_def)

lemma assign_busy: "\<forall>h \<in> set hs. m_bConnected h \<Longrightarrow> assign_idle created hs a = Inr (False, hs)"
  by (induction hs) auto

lemma assign_first_idle:
  assumes "\<forall>h \<in> set xs. m_bConnected h" "\<not> m_bConnected h" "\<not> m_NewThread h"
  shows "assign_idle created (xs @ h # ys) a = Inr (True, xs @ Web_Setup h a # ys)"
  using assms by (induction xs) (auto simp: Web_Start_def Web_Setup_def)

lemma OnProcess_idle:
  assumes inv: "server_inv s"
    and hs: "m_WebRequestHandlers s = xs @ h # ys" "\<forall>h \<in> set xs. m_bConnected h" "\<not> m_bConnected h"
  shows "WebServer_OnProcess created s q a =
      Inr (s\<lparr>m_WebRequestHandlers := xs @ Web_Setup h a # ys\<rparr>, q)"
    "server_inv (s\<lparr>m_WebRequestHandlers := xs @ Web_Setup h a # ys\<rparr>)"
  using inv hs assign_first_idle [OF hs(2,3), of created ys a]
  by (auto simp: server_inv_def WebServer_OnProcess_def Web_Setup_def)

lemma OnProcess_new:
  assumes inv: "server_inv s" and busy: "\<forall>h \<in> set (m_WebRequestHandlers s). m_bConnected h"
    and room: "int (length (m_WebRequestHandlers s)) < m_iMaxHandlers s"
  shows "\<exists>s'. WebServer_OnProcess True s q a = Inr (s', q) \<and> server_inv s' \<and>
    jobs (m_WebRequestHandlers s') = jobs (m_WebRequestHandlers s) @ [Some a]"
proof -
  have "m_iMaxHandlers s mod 2 ^ 64 = m_iMaxHandlers s" using inv by (simp add: server_inv_def)
  then show ?thesis using inv room assign_busy [OF busy, of True a]
    by (auto simp: server_inv_def WebServer_OnProcess_def Let_def Web_Start_def Web_Setup_def jobs_def
        new_cWebRequestHandler_def)
qed

lemma OnProcess_full:
  assumes inv: "server_inv s" and busy: "\<forall>h \<in> set (m_WebRequestHandlers s). m_bConnected h"
    and full: "\<not> int (length (m_WebRequestHandlers s)) < m_iMaxHandlers s"
    and m: "m_store (m_msgPool q) a = Some m"
  shows "WebServer_OnProcess created s q a =
    Inr (s, q\<lparr>m_msgPool := pool_put (m_msgPool q) a (Msg_SetMsgState m MSG_STATE_PENDING)\<rparr>)"
proof -
  have "m_iMaxHandlers s mod 2 ^ 64 = m_iMaxHandlers s" using inv by (simp add: server_inv_def)
  then show ?thesis using full assign_busy [OF busy, of created a] mq_upd_eq [OF m]
    by (simp add: WebServer_OnProcess_def)
qed

text \<open>
  Every request either goes to one handler that had nothing to do, or waits as a pending message.
\<close>

lemma OnProcess_spec:
  assumes inv: "server_inv s" and m: "m_store (m_msgPool q) a = Some m"
  shows "\<exists>s' q'. WebServer_OnProcess True s q a = Inr (s', q') \<and> server_inv s' \<and>
    m_iMaxHandlers s' = m_iMaxHandlers s \<and>
    (q' = q \<and> mset (jobs (m_WebRequestHandlers s')) = add_mset (Some a) (mset (jobs (m_WebRequestHandlers s))) \<or>
     s' = s \<and> length (jobs (m_WebRequestHandlers s)) = nat (m_iMaxHandlers s) \<and>
     q' = q\<lparr>m_msgPool := pool_put (m_msgPool q) a (Msg_SetMsgState m MSG_STATE_PENDING)\<rparr>)"
proof (cases "\<forall>h \<in> set (m_WebRequestHandlers s). m_bConnected h")
  case False
  then obtain xs h ys where hs: "m_WebRequestHandlers s = xs @ h # ys"
      "\<not> m_bConnected h" "\<forall>h \<in> set xs. m_bConnected h"
    using split_list_first_propE [of "m_WebRequestHandlers s" "\<lambda>h. \<not> m_bConnected h"] by auto
  have "mset (jobs (xs @ Web_Setup h a # ys)) = add_mset (Some a) (mset (jobs (m_WebRequestHandlers s)))"
    using hs(2) by (simp add: hs(1) jobs_def Web_Setup_def)
  then show ?thesis using OnProcess_idle [OF inv hs(1,3,2)]
    by (intro exI [of _ "s\<lparr>m_WebRequestHandlers := xs @ Web_Setup h a # ys\<rparr>"] exI [of _ q]) simp
next
  case busy: True
  show ?thesis
  proof (cases "int (length (m_WebRequestHandlers s)) < m_iMaxHandlers s")
    case True
    obtain s' where s': "WebServer_OnProcess True s q a = Inr (s', q)" "server_inv s'"
        "jobs (m_WebRequestHandlers s') = jobs (m_WebRequestHandlers s) @ [Some a]"
      using OnProcess_new [OF inv busy True] by blast
    have "m_iMaxHandlers s' = m_iMaxHandlers s"
      using s'(1) by (auto simp: WebServer_OnProcess_def result_simps Let_def split: if_splits prod.splits)
    then show ?thesis using s' by (intro exI [of _ s'] exI [of _ q]) simp
  next
    case False
    have "length (jobs (m_WebRequestHandlers s)) = length (m_WebRequestHandlers s)"
      using busy by (simp add: jobs_def filter_id_conv)
    moreover have "int (length (m_WebRequestHandlers s)) = m_iMaxHandlers s"
      using inv False by (simp add: server_inv_def)
    ultimately have "length (jobs (m_WebRequestHandlers s)) = nat (m_iMaxHandlers s)"
      by (metis nat_int)
    then show ?thesis using OnProcess_full [OF inv busy False m, of True] inv by blast
  qed
qed

section \<open>A site whose files change\<close>

type_synonym files = "string \<Rightarrow> (string \<times> int) option"

text \<open>The environment of a request is that of the site: its files with their times.\<close>

definition of_site :: "files \<Rightarrow> web_env \<Rightarrow> bool" where
  "of_site fs w \<longleftrightarrow> w_read w = map_option fst \<circ> fs \<and> w_mtime w = map_option snd \<circ> fs"

text \<open>
  Runs of a site. \<open>vs p\<close> are the versions that the file \<open>p\<close> has had since the start: its bytes with the time of their
  writing, in seconds. A file may be written with any time, so two versions may share one.
\<close>

inductive site_run :: "files \<Rightarrow> (string \<Rightarrow> (string \<times> int) set) \<Rightarrow> cFileCache \<Rightarrow> bool" where
  site_start: "site_run fs (\<lambda>p. set_option (fs p)) (SetCacheMaxSize new_cFileCache n)"
| site_write: "site_run fs vs c \<Longrightarrow> site_run (fs(p \<mapsto> (d, t))) (vs(p := insert (d, t) (vs p))) c"
| site_remove: "site_run fs vs c \<Longrightarrow> site_run (fs(p := None)) vs c"
| site_request: "site_run fs vs c \<Longrightarrow> of_site fs w \<Longrightarrow> buf_wf (m_Response h) \<Longrightarrow>
    GetResource w h c ids = Inr (h', c', ids') \<Longrightarrow> site_run fs vs c'"

definition site_inv :: "files \<Rightarrow> (string \<Rightarrow> (string \<times> int) set) \<Rightarrow> cFileCache \<Rightarrow> bool" where
  "site_inv fs vs c \<longleftrightarrow> fc_inv c \<and> (\<forall>p v. fs p = Some v \<longrightarrow> v \<in> vs p) \<and>
     (\<forall>p d t tag. cached c p = Some (d, t, tag) \<longrightarrow> (d, t) \<in> vs p)"

lemma site_file: "site_inv fs vs c \<Longrightarrow> fs p = Some v \<Longrightarrow> v \<in> vs p"
  unfolding site_inv_def by blast

lemma site_cached: "site_inv fs vs c \<Longrightarrow> cached c p = Some (d, t, tag) \<Longrightarrow> (d, t) \<in> vs p"
  unfolding site_inv_def by blast

lemma stamp_of_site:
  assumes w: "of_site fs w" and p: "fs p = Some (d, t)"
    and c: "fc_inv c" and miss: "\<nexists>d tag. hit w c p d tag"
  shows "file_stamp w c p = t"
proof (cases "fc_entry c p")
  case None
  then show ?thesis using w p by (simp add: file_stamp_def time_of_file_def of_site_def)
next
  case (Some e)
  then have "cached c p = Some (contents (fileData e), fileTimeStamp e, entityTag e)"
    by (auto simp: fc_entry_def cached_def split: option.splits)
  then have "fileTimeStamp e \<noteq> file_stamp w c p" using miss by (auto simp: hit_def)
  then show ?thesis using w p Some
    by (auto simp: file_stamp_def time_of_file_def of_site_def Let_def split: if_splits)
qed

text \<open>What a request does to the abstraction of the cache: nothing, or it files the file as it is.\<close>

lemma request_cached:
  assumes w: "of_site fs w" and c: "fc_inv c" and r: "buf_wf (m_Response h)"
    and g: "GetResource w h c ids = Inr (h', c', ids')"
  shows "fc_inv c' \<and> (cached c' = cached c \<or>
    (\<exists>d t tag. fs (m_sPath h) = Some (d, t) \<and> cached c' = (cached c)(m_sPath h \<mapsto> (d, t, tag))))"
proof -
  have gv: "fc_inv c'" "gives w (noted_page h) c ids h' c' ids'"
    using GetResource_spec [OF c wf_holds [OF r], of w ids] g by auto
  have p: "m_sPath (noted_page h) = m_sPath h" by (simp add: noted_page_def)
  show ?thesis
  proof (cases "\<exists>d tag. hit w c (m_sPath h) d tag")
    case True
    then obtain d tag where "hit w c (m_sPath h) d tag" by blast
    then have "gives_hit (noted_page h) c ids d tag h' c' ids'"
      using gv(2) by (simp add: gives_def p hit_def)
    then show ?thesis using gv(1) by (simp add: gives_hit_def)
  next
    case False
    then have m: "gives_miss w (noted_page h) c ids (file_stamp w c (m_sPath h)) h' c' ids'"
      using gv(2) by (auto simp: gives_def p hit_def Let_def split: option.splits)
    show ?thesis
    proof (cases "on_disk w (m_sPath h)")
      case None
      then show ?thesis using m gv(1) by (auto simp: gives_miss_def p on_disk_def split: if_splits)
    next
      case (Some d)
      then obtain t where t: "fs (m_sPath h) = Some (d, t)"
        using w by (auto simp: on_disk_def of_site_def split: if_splits)
      have "file_stamp w c (m_sPath h) = t" by (rule stamp_of_site [OF w t c False])
      then show ?thesis using m gv(1) Some t
        by (auto simp: gives_miss_def p on_disk_def split: if_splits)
    qed
  qed
qed

lemma site_run_inv: "site_run fs vs c \<Longrightarrow> site_inv fs vs c"
proof (induction rule: site_run.induct)
  case (site_start fs n)
  have "fc_inv (SetCacheMaxSize new_cFileCache n)" "cached (SetCacheMaxSize new_cFileCache n) = (\<lambda>_. None)"
    by (auto simp: SetCacheMaxSize_def new_cFileCache_def fc_inv_def smap_inv_Nil smap_find_def cached_def)
  then show ?case by (simp add: site_inv_def)
next
  case (site_write fs vs c p d t)
  then show ?case by (fastforce simp: site_inv_def)
next
  case (site_remove fs vs c p)
  then show ?case by (auto simp: site_inv_def)
next
  case (site_request fs vs c w h ids h' c' ids')
  have c: "fc_inv c" using site_request.IH by (simp add: site_inv_def)
  note r = request_cached [OF site_request.hyps(2) c site_request.hyps(3,4)]
  have "(d, t) \<in> vs p" if "cached c' p = Some (d, t, tag)" for p d t tag
    using r that site_cached [OF site_request.IH, of p d t tag] site_file [OF site_request.IH, of p "(d, t)"]
    by (auto split: if_splits)
  then show ?case using r site_file [OF site_request.IH] unfolding site_inv_def by blast
qed

text \<open>
  A request that looks at the disk is given a version of the file with the time that the file has now: its
  bytes, or the word that the client has them already.
\<close>

lemma request_current:
  assumes run: "site_run fs vs c" and w: "of_site fs w" and r: "buf_wf (m_Response h)"
    and f: "fs (m_sPath h) = Some (d, t)" "m_sPath h \<noteq> []"
    and late: "\<And>e. fc_entry c (m_sPath h) = Some e \<Longrightarrow> fileLastAccessedTimeStamp e < e_now (w_env w)"
  shows "\<exists>h' c' ids' d'. GetResource w h c ids = Inr (h', c', ids') \<and> (d', t) \<in> vs (m_sPath h) \<and>
    (holds (m_Response h') d' \<or>
     m_bCachedNotModified h' \<and> cached c (m_sPath h) = Some (d', t, m_sMessageETag h))"
proof -
  have inv: "site_inv fs vs c" by (rule site_run_inv [OF run])
  then have c: "fc_inv c" by (simp add: site_inv_def)
  obtain h' c' ids' where g: "GetResource w h c ids = Inr (h', c', ids')"
      "gives w (noted_page h) c ids h' c' ids'"
    using GetResource_spec [OF c wf_holds [OF r], of w ids] by blast
  have p: "m_sPath (noted_page h) = m_sPath h" "m_sMessageETag (noted_page h) = m_sMessageETag h"
    by (simp_all add: noted_page_def)
  have ts: "file_stamp w c (m_sPath h) = t"
    using late w f by (cases "fc_entry c (m_sPath h)")
      (auto simp: file_stamp_def time_of_file_def of_site_def Let_def)
  show ?thesis
  proof (cases "\<exists>d tag. hit w c (m_sPath h) d tag")
    case True
    then obtain d' tag where hit: "hit w c (m_sPath h) d' tag" by blast
    then have c1: "cached c (m_sPath h) = Some (d', t, tag)" by (simp add: hit_def ts)
    then have "gives_hit (noted_page h) c ids d' tag h' c' ids'"
      using g(2) ts by (simp add: gives_def p)
    then have "holds (m_Response h') d' \<or> m_bCachedNotModified h' \<and> m_sMessageETag h = tag"
      by (auto simp: gives_hit_def not_modified_def p split: if_splits)
    then show ?thesis using g(1) c1 site_cached [OF inv c1] by auto
  next
    case False
    then have m: "gives_miss w (noted_page h) c ids t h' c' ids'"
      using g(2) ts by (auto simp: gives_def p hit_def Let_def split: option.splits)
    have "w_read w (m_sPath h) = Some d" using w f(1) by (simp add: of_site_def)
    then have "holds (m_Response h') d" using m f(2) by (auto simp: gives_miss_def p)
    then show ?thesis using g(1) site_file [OF inv f(1)] by blast
  qed
qed

text \<open>A file that is gone from the disk is still served from the cache.\<close>

lemma request_removed:
  assumes c: "fc_inv c" and r: "buf_wf (m_Response h)"
    and cached: "cached c (m_sPath h) = Some (d, t, tag)" "m_sMessageETag h \<noteq> tag"
    and gone: "w_mtime w (m_sPath h) = None"
  shows "\<exists>h' c' ids'. GetResource w h c ids = Inr (h', c', ids') \<and> holds (m_Response h') d \<and>
    cached c' = cached c"
proof -
  obtain h' c' ids' where g: "GetResource w h c ids = Inr (h', c', ids')"
      "gives w (noted_page h) c ids h' c' ids'"
    using GetResource_spec [OF c wf_holds [OF r], of w ids] by blast
  have p: "m_sPath (noted_page h) = m_sPath h" "m_sMessageETag (noted_page h) = m_sMessageETag h"
    by (simp_all add: noted_page_def)
  obtain e where e: "fc_entry c (m_sPath h) = Some e" "fileTimeStamp e = t"
    using cached(1) by (auto simp: cached_def fc_entry_def split: option.splits)
  then have "file_stamp w c (m_sPath h) = t" using gone by (simp add: file_stamp_def time_of_file_def)
  then have "gives_hit (noted_page h) c ids d tag h' c' ids'" using g(2) cached(1) by (simp add: gives_def p)
  then show ?thesis using g(1) cached(2) by (auto simp: gives_hit_def not_modified_def p)
qed

end
