(* ===== verification/WebProperties.thy ===== *)
theory WebProperties
  imports WebSite MessageProperties
begin

text \<open>
  The properties of the web server, its file cache and the tables it reads. The examples are a site with
  one page in one directory, and a request for that page.
\<close>

section \<open>A small site for the examples\<close>

definition demo_tm :: tm where
  "demo_tm = \<lparr>tm_sec = 9, tm_min = 5, tm_hour = 8, tm_mday = 1, tm_mon = 0, tm_year = 107, tm_wday = 1\<rparr>"

definition demo_files :: files where
  "demo_files = [''/srv/index.html'' \<mapsto> (''hello'', 5)]"

definition demo_web :: web_env where
  "demo_web =
     \<lparr>w_env = demo_env, w_read = map_option fst \<circ> demo_files, w_mtime = map_option snd \<circ> demo_files,
      w_gmtime = demo_tm, w_asctime = ''Mon'' @ [LF], w_elapsed = ''0.1'', w_zeroConfig = False\<rparr>"

definition demo_dirs :: cVirtualDirectoryMap where
  "demo_dirs = [(''port_80'', ''/srv'')]"

definition demo_get_lines :: "string list" where
  "demo_get_lines = [''GET / HTTP/1.1'', ''Host: a'']"

definition demo_get :: cMsg where
  "demo_get = (demo_msg MSG_STATE_INUSE MSG_CT_IB_TCP)
     \<lparr>MsgRawBuffer := demo_buffer (message_text demo_get_lines []), MsgArrivalPort := 80\<rparr>"

definition demo_world :: web_world where
  "demo_world = \<lparr>w_queue = demo_queue demo_get [], w_cache = new_cFileCache\<rparr>"

definition demo_web_handler :: cWebRequestHandler where
  "demo_web_handler = Web_Run_start (new_cWebRequestHandler\<lparr>m_MIMEMap := []\<rparr>)"

lemma demo_site: "of_site demo_files demo_web"
  by (simp add: of_site_def demo_web_def)

lemma demo_web_plain: "plain_env demo_web"
  by (simp add: plain_env_def demo_web_def demo_env_def)

lemma demo_get_request: "web_request demo_get ''GET'' ''/'' demo_get_lines []"
proof -
  have "header_lines demo_get_lines" by code_simp
  then show ?thesis
    by (simp add: web_request_def demo_get_def demo_buffer_holds demo_buffer_terminated demo_get_lines_def)
qed

lemma demo_get_path: "path_of demo_dirs demo_get_lines (MsgArrivalPort demo_get) ''/'' = ''/srv/index.html''"
proof -
  have "MsgArrivalPort demo_get = 80" by (simp add: demo_get_def)
  moreover have "path_of demo_dirs demo_get_lines 80 ''/'' = ''/srv/index.html''" by code_simp
  ultimately show ?thesis by simp
qed

lemma demo_world_ok:
  "held (w_queue demo_world) 0" "m_store (m_msgPool (w_queue demo_world)) 0 = Some demo_get"
  "bufs_ok (m_msgPool (w_queue demo_world))" "fc_inv (w_cache demo_world)"
proof -
  show "held (w_queue demo_world) 0"
    by (simp add: demo_world_def) (rule demo_held, simp add: demo_get_def)
  show "m_store (m_msgPool (w_queue demo_world)) 0 = Some demo_get" by (simp add: demo_world_def)
  show "bufs_ok (m_msgPool (w_queue demo_world))"
    using new_bufs holds_wf [OF demo_buffer_holds]
    by (auto simp: bufs_ok_def demo_world_def demo_get_def demo_msg_def)
  show "fc_inv (w_cache demo_world)" by (simp add: demo_world_def fc_inv_new)
qed

lemma demo_handler_ok: "buf_wf (m_Response demo_web_handler)" "m_MIMEMap demo_web_handler = []"
  using holds_wf [OF holds_new]
  by (simp_all add: demo_web_handler_def Web_Run_start_def new_cWebRequestHandler_def)

section \<open>Requests\<close>

text \<open>
  C27: a GET or POST request is answered by exactly one message: it is pending, goes back over the
  connection of the request under its identity, and its payload is the text of the resource that the
  cache and the disk give for the path of the request: \<open>304\<close> when the client's tag is the one of a
  cached file that is as on the disk, \<open>200\<close> with type, tag, length and bytes, and otherwise the page
  of a server without configuration or \<open>404\<close>. The request is marked, no other message changes,
  and pool, queues and cache stay consistent.
\<close>

theorem request_answered:
  assumes "held (w_queue s) a" "m_store (m_msgPool (w_queue s)) a = Some m"
    and "MsgConnectionType m = MSG_CT_IB_TCP" "bufs_ok (m_msgPool (w_queue s))"
    and "fc_inv (w_cache s)" "buf_wf (m_Response h)" "plain_env w" "web_request m meth uri ls body"
    and "path = path_of dirs ls (MsgArrivalPort m) uri" "type = resource_type (m_MIMEMap h) path"
    and "pages_fill w (w_cache s) path (etag_of ls []) type"
  shows "\<exists>h' s' n r res t. Web_Process w dirs h s a = Some (Inr (h', s')) \<and>
    serves w (w_cache s) path (etag_of ls []) res \<and>
    (\<forall>d tag. res = Content d tag \<longrightarrow> page_after w type d t) \<and>
    n \<noteq> a \<and> m_store (m_msgPool (w_queue s')) n = Some r \<and>
    sent_answer m n (answer_text w type (m_bKeepAlive m) (m_sServerLabel h) t res) r \<and>
    m_store (m_msgPool (w_queue s')) a = Some (Msg_MarkProcessed (Msg_SetCloned m)) \<and>
    (\<forall>b. b \<noteq> a \<and> b \<noteq> n \<longrightarrow> m_store (m_msgPool (w_queue s')) b = m_store (m_msgPool (w_queue s)) b) \<and>
    mq_inv (w_queue s') \<and> bufs_ok (m_msgPool (w_queue s')) \<and> queued (w_queue s') = queued (w_queue s) \<and>
    fc_inv (w_cache s') \<and> buf_wf (m_Response h')"
  using Web_Process_spec [OF assms] .

lemma request_answered_witness:
  "\<exists>h' s' n r tag. Web_Process demo_web demo_dirs demo_web_handler demo_world 0 = Some (Inr (h', s')) \<and>
     m_store (m_msgPool (w_queue s')) n = Some r \<and> MsgState r = MSG_STATE_PENDING \<and>
     holds (MsgBuffer r) (header_200 True ''Mon, 01 Jan 2007 08:05:09 GMT'' (m_sServerLabel demo_web_handler)
       tag [] 5 @ ''hello'')"
proof -
  let ?p = "''/srv/index.html''"
  have ct: "MsgConnectionType demo_get = MSG_CT_IB_TCP" "m_bKeepAlive demo_get"
    by (simp_all add: demo_get_def demo_msg_def new_cMsg_def Msg_ResetMsg_def)
  have nohit: "\<not> hit demo_web (w_cache demo_world) ?p d tag" for d tag
    by (simp add: hit_def cached_def demo_world_def new_cFileCache_def smap_find_def)
  have disk: "on_disk demo_web ?p = Some ''hello''"
    by (simp add: on_disk_def demo_web_def demo_files_def)
  have ty: "resource_type [] ?p = []" by code_simp
  have page: "page_after demo_web [] ''hello'' t \<longleftrightarrow> t = ''hello''" for t
  proof
    have "find_sub ''{{MC_'' ''hello'' = None" by simp
    then show "page_after demo_web [] ''hello'' t \<Longrightarrow> t = ''hello''"
      by (auto simp: page_after_def elim: fills.cases)
    show "t = ''hello'' \<Longrightarrow> page_after demo_web [] ''hello'' t"
      by (simp add: page_after_def cstr_def)
  qed
  have pages: "pages_fill demo_web (w_cache demo_world) ?p (etag_of demo_get_lines []) []"
    using nohit disk page by (auto simp: pages_fill_def)
  have date: "GetDate (w_gmtime demo_web) = ''Mon, 01 Jan 2007 08:05:09 GMT''"
    by (simp add: demo_web_def demo_tm_def) code_simp
  obtain h' s' n r res t where
    "Web_Process demo_web demo_dirs demo_web_handler demo_world 0 = Some (Inr (h', s'))"
    "serves demo_web (w_cache demo_world) ?p (etag_of demo_get_lines []) res"
    "\<forall>d tag. res = Content d tag \<longrightarrow> page_after demo_web [] d t"
    "m_store (m_msgPool (w_queue s')) n = Some r"
    "sent_answer demo_get n (answer_text demo_web [] True (m_sServerLabel demo_web_handler) t res) r"
    using request_answered [OF demo_world_ok(1,2) ct(1) demo_world_ok(3,4) demo_handler_ok(1)
        demo_web_plain demo_get_request refl refl, of demo_dirs, unfolded demo_get_path demo_handler_ok(2) ty,
        OF pages] ct(2) by auto
  moreover from this nohit disk obtain tag where "res = Content ''hello'' tag" by (cases res) auto
  ultimately show ?thesis using page date by (auto simp: sent_answer_def)
qed

text \<open>
  the file of a request is the directory of its host, or else of its port, followed by the decoded
  URI without its leading slash: nothing of the URI is taken out, so parts that lead above the
  directory stay in the path. Without a directory the path is empty.
\<close>

theorem request_names_file:
  assumes "web_request m meth uri ls body"
  shows "\<exists>h'. ProcessHTTPHeader dirs h m = Inr (directory_of dirs ls (MsgArrivalPort m) \<noteq> [], h') \<and>
    m_sPath h' = (if directory_of dirs ls (MsgArrivalPort m) = [] then []
      else directory_of dirs ls (MsgArrivalPort m) @ ''/'' @ file_of_uri (cstr (url_plain uri)))"
proof -
  obtain u v where w: "uri = CHR ''/'' # u" "SP \<notin> set u"
      "hd ls = meth @ SP # CHR ''/'' # u @ '' HTTP/'' @ v"
    using assms unfolding web_request_def by blast
  have "holds (MsgRawBuffer m) (message_text ls body)" "terminated (MsgRawBuffer m)" "header_lines ls"
    "meth = ''GET'' \<or> meth = ''POST'' \<and>
      (atoi (header_field ls ''Content-Length'') \<le> 0 \<or>
       atoi (header_field ls ''Content-Length'') = int (length body) \<and> NUL \<notin> set body)"
    using assms unfolding web_request_def by blast+
  from ProcessHTTPHeader_spec [OF this(1-3) w(3,2) this(4), of dirs h] show ?thesis
    unfolding w(1) by (simp add: Let_def path_of_def)
qed

lemma request_names_file_witness:
  "\<exists>h'. ProcessHTTPHeader demo_dirs demo_web_handler
       (demo_get\<lparr>MsgRawBuffer := demo_buffer (message_text [''GET /../etc/passwd HTTP/1.1''] [])\<rparr>) = Inr (True, h') \<and>
     m_sPath h' = ''/srv/../etc/passwd''"
proof -
  let ?ls = "[''GET /../etc/passwd HTTP/1.1'']"
  let ?m = "demo_get\<lparr>MsgRawBuffer := demo_buffer (message_text ?ls [])\<rparr>"
  have l: "header_lines ?ls" by code_simp
  have "hd ?ls = ''GET'' @ SP # CHR ''/'' # ''../etc/passwd'' @ '' HTTP/'' @ ''1.1''" by simp
  moreover have "SP \<notin> set ''../etc/passwd''" by simp
  ultimately have r: "web_request ?m ''GET'' ''/../etc/passwd'' ?ls []"
    unfolding web_request_def using l demo_buffer_holds demo_buffer_terminated
    by (intro conjI disjI1 exI [of _ "''../etc/passwd''"] exI [of _ "''1.1''"]) simp_all
  have "directory_of demo_dirs ?ls 80 = ''/srv''" "file_of_uri (cstr (url_plain ''/../etc/passwd'')) = ''../etc/passwd''"
    by code_simp+
  then show ?thesis using request_names_file [OF r, of demo_dirs demo_web_handler] by (simp add: demo_get_def)
qed

text \<open>
  C28: a request that comes to the web server goes to a handler that has nothing to do, or to a new
  one, and to no other; when all are at work and there are as many as allowed, it becomes a pending
  message again. No handler loses its request and their number stays within the limit.
\<close>

theorem requests_assigned:
  assumes "server_inv s" "m_store (m_msgPool q) a = Some m"
  shows "\<exists>s' q'. WebServer_OnProcess True s q a = Inr (s', q') \<and> server_inv s' \<and>
    m_iMaxHandlers s' = m_iMaxHandlers s \<and>
    (q' = q \<and> mset (jobs (m_WebRequestHandlers s')) = add_mset (Some a) (mset (jobs (m_WebRequestHandlers s))) \<or>
     s' = s \<and> length (jobs (m_WebRequestHandlers s)) = nat (m_iMaxHandlers s) \<and>
     q' = q\<lparr>m_msgPool := pool_put (m_msgPool q) a (Msg_SetMsgState m MSG_STATE_PENDING)\<rparr>)"
  using OnProcess_spec [OF assms] .

lemma requests_assigned_witness:
  "\<exists>s' q'. WebServer_OnProcess True (new_cWebServer demo_dirs 1) (w_queue demo_world) 0 = Inr (s', q') \<and>
     jobs (m_WebRequestHandlers s') = [Some 0]"
proof -
  have i: "server_inv (new_cWebServer demo_dirs 1)" by (rule server_inv_new) simp_all
  have j: "jobs (m_WebRequestHandlers (new_cWebServer demo_dirs 1)) = []"
    "m_iMaxHandlers (new_cWebServer demo_dirs 1) = 1" by (simp_all add: new_cWebServer_def jobs_def)
  from requests_assigned [OF i demo_world_ok(2)] obtain s' q' where
    "WebServer_OnProcess True (new_cWebServer demo_dirs 1) (w_queue demo_world) 0 = Inr (s', q')"
    "mset (jobs (m_WebRequestHandlers s')) = {#Some 0#}"
    unfolding j by auto
  then show ?thesis by (auto simp: mset_single_iff)
qed

section \<open>The file cache\<close>

text \<open>
  C29: in every run of a site, whatever files change and whatever was asked for before, a request that
  is not in the second of the last access to its file is given the bytes of a version of the file that
  has the time that the file has now, or is told that the client has them: its tag is then the one filed
  with those bytes. These are the bytes of the file now, unless it was written twice in one second.
\<close>

theorem site_serves_version:
  assumes "site_run fs vs c" "of_site fs w" "buf_wf (m_Response h)"
    and "fs (m_sPath h) = Some (d, t)" "m_sPath h \<noteq> []"
    and "\<And>e. fc_entry c (m_sPath h) = Some e \<Longrightarrow> fileLastAccessedTimeStamp e < e_now (w_env w)"
  shows "\<exists>h' c' ids' d'. GetResource w h c ids = Inr (h', c', ids') \<and> (d', t) \<in> vs (m_sPath h) \<and>
    ((\<forall>x. (x, t) \<in> vs (m_sPath h) \<longrightarrow> x = d) \<longrightarrow> d' = d) \<and>
    (holds (m_Response h') d' \<or>
     m_bCachedNotModified h' \<and> cached c (m_sPath h) = Some (d', t, m_sMessageETag h))"
  using request_current [OF assms] by blast

text \<open>A site whose page was written once since its start.\<close>

lemma demo_site_run:
  "\<exists>vs. site_run demo_files vs (SetCacheMaxSize new_cFileCache 100) \<and>
     vs ''/srv/index.html'' = {(''hello'', 5), (''old'', 4)}"
proof -
  let ?p = "''/srv/index.html''" and ?old = "demo_files(''/srv/index.html'' \<mapsto> (''old'', 4))"
  have d: "demo_files ?p = Some (''hello'', 5)" by (simp add: demo_files_def)
  have "?old(?p \<mapsto> (''hello'', 5)) = demo_files" by (rule ext) (simp add: d)
  with site_write [OF site_start [of ?old 100], of ?p "''hello''" 5]
  have "site_run demo_files ((\<lambda>p. set_option (?old p))(?p := insert (''hello'', 5) (set_option (?old ?p))))
      (SetCacheMaxSize new_cFileCache 100)" by metis
  then show ?thesis by (intro exI conjI, assumption) simp
qed

lemma site_serves_version_witness:
  "\<exists>h' c' ids'. GetResource demo_web (demo_web_handler\<lparr>m_sPath := ''/srv/index.html''\<rparr>)
       (SetCacheMaxSize new_cFileCache 100) \<lparr>m_vector = [], m_iMade = 0\<rparr> = Inr (h', c', ids') \<and>
     holds (m_Response h') ''hello''"
proof -
  let ?h = "demo_web_handler\<lparr>m_sPath := ''/srv/index.html''\<rparr>"
  have e: "fc_entry (SetCacheMaxSize new_cFileCache 100) p = None"
    "cached (SetCacheMaxSize new_cFileCache 100) p = None" for p
    by (simp_all add: fc_entry_def cached_def SetCacheMaxSize_def new_cFileCache_def smap_find_def)
  have f: "demo_files (m_sPath ?h) = Some (''hello'', 5)" by (simp add: demo_files_def)
  obtain vs where r: "site_run demo_files vs (SetCacheMaxSize new_cFileCache 100)"
    "vs (m_sPath ?h) = {(''hello'', 5), (''old'', 4)}" using demo_site_run by auto
  from site_serves_version [OF r(1) demo_site _ f] demo_handler_ok(1) e r(2) show ?thesis by fastforce
qed

text \<open>
  a file that the disk does not have any more is served from the cache as before: a file that cannot
  be opened counts as unchanged.
\<close>

theorem removed_file_served:
  assumes "fc_inv c" "buf_wf (m_Response h)"
    and "cached c (m_sPath h) = Some (d, t, tag)" "m_sMessageETag h \<noteq> tag"
    and "w_mtime w (m_sPath h) = None"
  shows "\<exists>h' c' ids'. GetResource w h c ids = Inr (h', c', ids') \<and> holds (m_Response h') d \<and>
    cached c' = cached c"
  using request_removed [OF assms] .

definition demo_entry :: cFileCacheEntry where
  "demo_entry = \<lparr>fileName = ''/srv/a.html'', fileData = demo_buffer ''old'', fileTimeStamp = 3,
     fileLastAccessedTimeStamp = 4, accessCount = 0, entityTag = ''t''\<rparr>"

definition demo_file_cache :: cFileCache where
  "demo_file_cache = new_cFileCache\<lparr>fc_Map := [(''/srv/a.html'', 0)], fc_store := [0 \<mapsto> demo_entry], fc_next := 1\<rparr>"

lemma removed_file_served_witness:
  "\<exists>h' c' ids'. GetResource demo_web (demo_web_handler\<lparr>m_sPath := ''/srv/a.html''\<rparr>) demo_file_cache
       \<lparr>m_vector = [], m_iMade = 0\<rparr> = Inr (h', c', ids') \<and> holds (m_Response h') ''old'' \<and>
     w_read demo_web ''/srv/a.html'' = None"
proof -
  let ?h = "demo_web_handler\<lparr>m_sPath := ''/srv/a.html''\<rparr>"
  have "fc_inv demo_file_cache"
    using holds_wf [OF demo_buffer_holds]
    by (auto simp: fc_inv_def demo_file_cache_def demo_entry_def smap_inv_def smap_find_def split: if_splits)
  moreover have "cached demo_file_cache (m_sPath ?h) = Some (''old'', 3, ''t'')"
    using holds_contents [OF demo_buffer_holds]
    by (simp add: cached_def demo_file_cache_def demo_entry_def smap_find_def)
  moreover have "m_sMessageETag ?h \<noteq> ''t''" "buf_wf (m_Response ?h)" "w_mtime demo_web (m_sPath ?h) = None"
    "w_read demo_web ''/srv/a.html'' = None"
    using demo_handler_ok(1)
    by (simp_all add: demo_web_handler_def Web_Run_start_def new_cWebRequestHandler_def demo_web_def demo_files_def)
  ultimately show ?thesis
    using removed_file_served [of demo_file_cache ?h "''old''" 3 "''t''" demo_web
        "\<lparr>m_vector = [], m_iMade = 0\<rparr>"] by blast
qed

section \<open>Tags in a page\<close>

text \<open>
  filling the tags of a page, with all its searches, removals and insertions in the response
  buffer, refines the exchange of texts \<open>fills\<close>: whenever that comes to an end inside the page, the
  code returns with the text it gives.
\<close>

theorem page_filled:
  assumes "fills w s 0 t" "plain_env w" "NUL \<notin> set s" "holds (m_Response h) s"
  shows "\<exists>b. ProcessServerSideScripts w h = Some (Inr (h\<lparr>m_Response := b\<rparr>)) \<and> holds b t"
  using scripts_fill [OF assms] .

lemma page_filled_witness:
  "\<exists>b. ProcessServerSideScripts demo_web
       (demo_web_handler\<lparr>m_Response := demo_buffer ''at {{MC_SERVERADDR}}, it is me''\<rparr>) =
     Some (Inr (demo_web_handler\<lparr>m_Response := b\<rparr>)) \<and> holds b ''at 10.0.0.1, it is me''"
proof -
  let ?s = "''at {{MC_SERVERADDR}}, it is me''"
  have "fill_text demo_web (''{{MC_SERVERADDR}}'' @ '', it is me'') = Some (''{{MC_SERVERADDR}}'', ''10.0.0.1'')"
    by (simp add: fill_text_def demo_web_def demo_env_def)
  moreover have "find_sub ''{{MC_'' (''at '' @ ''{{MC_SERVERADDR}}'' @ '', it is me'') = Some (length ''at '')"
    "find_sub ''{{MC_'' '', it is me'' = None" "CHR ''{'' \<notin> set ''10.0.0.1''"
    "length ''{{MC_SERVERADDR}}'' \<le> length ''10.0.0.1'' + length '', it is me''" by code_simp+
  ultimately have "fills demo_web (''at '' @ ''{{MC_SERVERADDR}}'' @ '', it is me'') 0 (''at '' @ ''10.0.0.1'' @ '', it is me'')"
    by (intro fills_one)
  then have f: "fills demo_web ?s 0 ''at 10.0.0.1, it is me''" by simp
  show ?thesis
    using page_filled [OF f demo_web_plain, of "demo_web_handler\<lparr>m_Response := demo_buffer ?s\<rparr>"] demo_buffer_holds
    by simp
qed

text \<open>
  C30: a page that starts with a tag that the server does not know, and has no known tag, is never
  answered: the loop that fills the tags does not end.
\<close>

theorem unknown_tag_hangs:
  assumes "plain_env w" "holds (m_Response h) s" "NUL \<notin> set s"
    and "find_sub ''{{MC_'' s = Some 0" "fill_text w s = None"
  shows "ProcessServerSideScripts w h = None"
  using scripts_never_return [OF assms] .

lemma unknown_tag_hangs_witness:
  "ProcessServerSideScripts demo_web (demo_web_handler\<lparr>m_Response := demo_buffer ''{{MC_USER}}''\<rparr>) = None"
  by (rule unknown_tag_hangs [where s = "''{{MC_USER}}''"])
    (simp_all add: demo_web_plain demo_buffer_holds fill_text_def)

section \<open>Content types\<close>

text \<open>
  the content type of an extension is the one of the first line of the table that has it, and empty
  when no line has it: the later lines of an extension that is listed twice have no effect.
\<close>

theorem mime_first_line:
  "MimeMap_GetContentType new_cMIMEMap ext =
     (case List.find (\<lambda>t. fst (mime_entry t) = ext) (butlast pMIMETypes) of
        None \<Rightarrow> [] | Some t \<Rightarrow> snd (mime_entry t))"
  by (simp add: MimeMap_GetContentType_def mime_find map_of_find split: option.splits)

end
