(* ===== verification/XmlList.thy ===== *)
theory XmlList
  imports Prelude
begin

text \<open>
  \<open>cXMLLiteString\<close> and \<open>cXMLLiteList\<close> of \<open>xmlliteparser.h\<close> and \<open>xmlliteparser.cpp\<close>: the string
  that owns a block from \<open>malloc\<close>, and the doubly linked list of pointers with its cursor and its
  marker. The nodes are in a store; an address is a number, \<open>xl_new\<close> the next one that \<open>malloc\<close>
  gives, which succeeds. Memory that was never written is \<open>None\<close>: the data of a node from
  \<open>Insert\<close>, and the marker until \<open>SavePos\<close>, which the constructor leaves out.

  The locale \<open>cursor_list\<close> says what the parser relies on: the list is a sequence, \<open>Add\<close> puts at its
  end, and the cursor visits it in order. Its interpretation is on the operations of the linked list.
\<close>

section \<open>Strings\<close>

record cXMLLiteString =
  m_pData :: "block option"
  m_iLength :: int

definition new_cXMLLiteString :: cXMLLiteString where
  "new_cXMLLiteString = \<lparr>m_pData = None, m_iLength = 0\<rparr>"

abbreviation (input) HRC_XMLLITEPARSER_OK :: int where "HRC_XMLLITEPARSER_OK \<equiv> 0"
abbreviation (input) HRC_XMLLITEPARSER_EMPTY :: int where "HRC_XMLLITEPARSER_EMPTY \<equiv> 1"
abbreviation (input) HRC_XMLLITEPARSER_END :: int where "HRC_XMLLITEPARSER_END \<equiv> 2"

text \<open>\<open>memcpy(m_pData, pDataPtr, iSize); m_pData[iSize] = 0; m_iLength = iSize;\<close>\<close>

definition xs_fill :: "block \<Rightarrow> block \<Rightarrow> int \<Rightarrow> cXMLLiteString result" where
  "xs_fill blk src iSize =
     rbind (mem_slice src 0 iSize) (\<lambda>bytes.
     rbind (mem_store blk 0 bytes) (\<lambda>blk.
     rbind (mem_write blk iSize NUL) (\<lambda>blk. Inr \<lparr>m_pData = Some blk, m_iLength = iSize\<rparr>)))"

text \<open>The block that is written to: a new one where the text is longer than the last one, or there is none.\<close>

definition xs_block :: "cXMLLiteString \<Rightarrow> int \<Rightarrow> block" where
  "xs_block s iAllocSize =
     (let fresh = replicate (nat iAllocSize + 1) None
      in if iAllocSize > XmlList.m_iLength s then fresh
         else case m_pData s of None \<Rightarrow> fresh | Some blk \<Rightarrow> blk)"

definition XMLString_ReplaceWith :: "cXMLLiteString \<Rightarrow> block \<Rightarrow> int \<Rightarrow> cXMLLiteString result" where
  "XMLString_ReplaceWith s pDataPtr iLen =
     rbind (if iLen \<noteq> -1 then Inr iLen
            else rbind (read_cstr pDataPtr) (\<lambda>t. Inr (int (length t)))) (\<lambda>iSize.
     let iAllocSize = (if iSize < 16 then 16 else iSize)
     in xs_fill (xs_block s iAllocSize) pDataPtr iSize)"

text \<open>\<open>xs_holds s t\<close>: the string is sound and \<open>cstr\<close> gives the text \<open>t\<close>, or NULL for \<open>None\<close>.\<close>

definition xs_holds :: "cXMLLiteString \<Rightarrow> string option \<Rightarrow> bool" where
  "xs_holds s t \<longleftrightarrow>
     (case m_pData s of
        None \<Rightarrow> t = None \<and> XmlList.m_iLength s = 0
      | Some blk \<Rightarrow> XmlList.m_iLength s < int (length blk) \<and> (\<exists>u. read_cstr blk = Inr u \<and> t = Some u))"

lemma read_cstr_iff:
  "read_cstr blk = Inr s \<longleftrightarrow> NUL \<notin> set s \<and> (\<exists>r. blk = map Some s @ Some NUL # r)"
proof (induction blk arbitrary: s rule: read_cstr.induct)
  case (2 bs)
  then show ?case by (cases s) auto
next
  case (3 c bs)
  then show ?case by (cases s) (auto simp: rbind_eq_Inr)
qed simp

lemma read_cstr_length: "read_cstr blk = Inr s \<Longrightarrow> length s < length blk"
  by (auto simp: read_cstr_iff)

lemma xs_holds_new: "xs_holds new_cXMLLiteString None"
  by (simp add: xs_holds_def new_cXMLLiteString_def)

lemma xs_fill_spec:
  assumes "NUL \<notin> set t" "length t < length blk"
  shows "\<exists>s. xs_fill blk (map Some t @ r) (int (length t)) = Inr s \<and> xs_holds s (Some t)"
proof -
  let ?b = "map Some t @ drop (length t) blk"
  have l: "length t < length ?b" using assms(2) by simp
  have d: "drop (length t) blk = blk ! length t # drop (Suc (length t)) blk"
    using assms(2) by (simp add: Cons_nth_drop_Suc)
  have w: "mem_write ?b (int (length t)) NUL =
      Inr (map Some t @ Some NUL # drop (Suc (length t)) blk)"
    using assms(2) by (simp add: mem_write_def d list_update_append)
  have "xs_fill blk (map Some t @ r) (int (length t)) =
      Inr \<lparr>m_pData = Some (map Some t @ Some NUL # drop (Suc (length t)) blk), m_iLength = int (length t)\<rparr>"
    using assms(2) w by (simp add: xs_fill_def mem_simps)
  then show ?thesis
    using assms by (simp add: xs_holds_def mem_simps)
qed

lemma xs_block_room:
  "xs_holds s old \<Longrightarrow> int n \<le> k \<Longrightarrow> n < length (xs_block s k)"
  by (auto simp: xs_holds_def xs_block_def Let_def split: option.splits)

lemma XMLString_ReplaceWith_text:
  assumes "xs_holds s old" "NUL \<notin> set t"
  shows "\<exists>s'. XMLString_ReplaceWith s (map Some t @ r) (int (length t)) = Inr s' \<and> xs_holds s' (Some t)"
proof -
  let ?k = "if int (length t) < 16 then 16 else int (length t)"
  have "length t < length (xs_block s ?k)" using assms(1) by (rule xs_block_room) simp
  from xs_fill_spec [OF assms(2) this, of r] show ?thesis
    by (simp add: XMLString_ReplaceWith_def Let_def)
qed

lemma XMLString_ReplaceWith_cstr:
  assumes "xs_holds s old" "read_cstr p = Inr t"
  shows "\<exists>s'. XMLString_ReplaceWith s p (-1) = Inr s' \<and> xs_holds s' (Some t)"
proof -
  from assms(2) obtain r where p: "p = map Some t @ Some NUL # r" and t: "NUL \<notin> set t"
    by (auto simp: read_cstr_iff)
  have "XMLString_ReplaceWith s p (-1) = XMLString_ReplaceWith s p (int (length t))"
    using assms(2) by (simp add: XMLString_ReplaceWith_def)
  then show ?thesis
    using XMLString_ReplaceWith_text [OF assms(1) t, of "Some NUL # r"] p by simp
qed

section \<open>The linked list\<close>

record 'a xml_node =
  xn_pData :: "'a option"
  xn_pNext :: "nat option"
  xn_pPrev :: "nat option"

record 'a cXMLLiteList =
  m_pHead :: "nat option"
  m_pTail :: "nat option"
  m_pCurrent :: "nat option"
  m_pMarker :: "nat option option"
  m_iTotalEntries :: int
  xl_store :: "nat \<Rightarrow> 'a xml_node option"
  xl_new :: nat

abbreviation (input) HRC_XMLLITELIST_OK :: int where "HRC_XMLLITELIST_OK \<equiv> 0"
abbreviation (input) HRC_XMLLITELIST_EMPTY :: int where "HRC_XMLLITELIST_EMPTY \<equiv> 1"
abbreviation (input) HRC_XMLLITELIST_BEGIN :: int where "HRC_XMLLITELIST_BEGIN \<equiv> 2"
abbreviation (input) HRC_XMLLITELIST_END :: int where "HRC_XMLLITELIST_END \<equiv> 3"

definition new_cXMLLiteList :: "'a cXMLLiteList" where
  "new_cXMLLiteList =
     \<lparr>m_pHead = None, m_pTail = None, m_pCurrent = None, m_pMarker = None, m_iTotalEntries = 0,
      xl_store = (\<lambda>_. None), xl_new = 0\<rparr>"

definition xl_get :: "'a cXMLLiteList \<Rightarrow> nat option \<Rightarrow> 'a xml_node result" where
  "xl_get l p =
     (case p of
        None \<Rightarrow> Inl NullPointer
      | Some a \<Rightarrow> (case xl_store l a of None \<Rightarrow> Inl DanglingPointer | Some n \<Rightarrow> Inr n))"

definition xl_put :: "'a cXMLLiteList \<Rightarrow> nat \<Rightarrow> 'a xml_node \<Rightarrow> 'a cXMLLiteList" where
  "xl_put l a n = l\<lparr>xl_store := (xl_store l)(a \<mapsto> n)\<rparr>"

definition xl_malloc :: "'a cXMLLiteList \<Rightarrow> 'a xml_node \<Rightarrow> nat \<times> 'a cXMLLiteList" where
  "xl_malloc l n = (xl_new l, (xl_put l (xl_new l) n)\<lparr>xl_new := xl_new l + 1\<rparr>)"

definition PlaceAtHead :: "'a cXMLLiteList \<Rightarrow> 'a \<Rightarrow> 'a cXMLLiteList" where
  "PlaceAtHead l pData =
     (let (a, l) = xl_malloc l \<lparr>xn_pData = Some pData, xn_pNext = None, xn_pPrev = None\<rparr>
      in l\<lparr>m_pHead := Some a, m_pCurrent := Some a, m_pTail := Some a,
           m_iTotalEntries := m_iTotalEntries l + 1\<rparr>)"

definition XMLList_Add :: "'a cXMLLiteList \<Rightarrow> 'a \<Rightarrow> 'a cXMLLiteList result" where
  "XMLList_Add l pData =
     (case m_pHead l of
        None \<Rightarrow> Inr (PlaceAtHead l pData)
      | Some _ \<Rightarrow>
          rbind (xl_get l (m_pTail l)) (\<lambda>p.
          let (a, l) = xl_malloc l \<lparr>xn_pData = Some pData, xn_pNext = None, xn_pPrev = m_pTail l\<rparr>;
              l = xl_put l (the (m_pTail l)) (p\<lparr>xn_pNext := Some a\<rparr>)
          in Inr (l\<lparr>m_pTail := Some a, m_iTotalEntries := m_iTotalEntries l + 1\<rparr>)))"

definition XMLList_Insert :: "'a cXMLLiteList \<Rightarrow> 'a \<Rightarrow> 'a cXMLLiteList result" where
  "XMLList_Insert l pData =
     (case m_pHead l of
        None \<Rightarrow> Inr (PlaceAtHead l pData)
      | Some _ \<Rightarrow>
          rbind (xl_get l (m_pCurrent l)) (\<lambda>c.
          let (a, l) = xl_malloc l \<lparr>xn_pData = None, xn_pNext = xn_pNext c, xn_pPrev = m_pCurrent l\<rparr>
          in rbind (case xn_pNext c of
                      None \<Rightarrow> Inr l
                    | Some b \<Rightarrow> rbind (xl_get l (Some b)) (\<lambda>n. Inr (xl_put l b (n\<lparr>xn_pPrev := Some a\<rparr>)))) (\<lambda>l.
             Inr (xl_put l (the (m_pCurrent l)) (c\<lparr>xn_pNext := Some a\<rparr>)))))"

text \<open>The loop of \<open>Clear\<close>, which frees the nodes from the tail on.\<close>

partial_function (option) xl_free_loop ::
  "'a cXMLLiteList \<Rightarrow> nat option \<Rightarrow> 'a cXMLLiteList result option" where
  "xl_free_loop l p =
     (case p of
        None \<Rightarrow> Some (Inr l)
      | Some a \<Rightarrow>
          (case xl_get l p of
             Inl e \<Rightarrow> Some (Inl e)
           | Inr n \<Rightarrow> xl_free_loop (l\<lparr>xl_store := (xl_store l)(a := None)\<rparr>) (xn_pPrev n)))"

definition XMLList_Clear :: "'a cXMLLiteList \<Rightarrow> 'a cXMLLiteList result option" where
  "XMLList_Clear l =
     (case m_pHead l of
        None \<Rightarrow> Some (Inr l)
      | Some _ \<Rightarrow>
          (case xl_free_loop l (m_pTail l) of
             None \<Rightarrow> None
           | Some r \<Rightarrow>
               Some (rbind r (\<lambda>l. Inr (l\<lparr>m_pHead := None, m_pTail := None, m_pCurrent := None\<rparr>)))))"

definition XMLList_GetData :: "'a cXMLLiteList \<Rightarrow> 'a option result" where
  "XMLList_GetData l =
     (case m_pCurrent l of
        None \<Rightarrow> Inr None
      | Some _ \<Rightarrow> rbind (xl_get l (m_pCurrent l)) (\<lambda>n.
          (case xn_pData n of None \<Rightarrow> Inl Indeterminate | Some d \<Rightarrow> Inr (Some d))))"

definition XMLList_MoveToHead :: "'a cXMLLiteList \<Rightarrow> int \<times> 'a cXMLLiteList" where
  "XMLList_MoveToHead l =
     (if m_pHead l = None then (HRC_XMLLITELIST_EMPTY, l\<lparr>m_pCurrent := None\<rparr>)
      else (HRC_XMLLITELIST_OK, l\<lparr>m_pCurrent := m_pHead l\<rparr>))"

definition XMLList_MoveToTail :: "'a cXMLLiteList \<Rightarrow> int \<times> 'a cXMLLiteList" where
  "XMLList_MoveToTail l =
     (if m_pTail l = None then (HRC_XMLLITELIST_EMPTY, l\<lparr>m_pCurrent := None\<rparr>)
      else (HRC_XMLLITELIST_OK, l\<lparr>m_pCurrent := m_pTail l\<rparr>))"

definition XMLList_MoveNext :: "'a cXMLLiteList \<Rightarrow> (int \<times> 'a cXMLLiteList) result" where
  "XMLList_MoveNext l =
     (if m_pHead l = None then Inr (HRC_XMLLITELIST_EMPTY, l\<lparr>m_pCurrent := None\<rparr>)
      else rbind (case m_pCurrent l of None \<Rightarrow> Inr None | c \<Rightarrow> rbind (xl_get l c) (\<lambda>n. Inr (xn_pNext n))) (\<lambda>next.
           if next \<noteq> None then Inr (HRC_XMLLITELIST_OK, l\<lparr>m_pCurrent := next\<rparr>)
           else Inr (HRC_XMLLITELIST_END, l\<lparr>m_pCurrent := None\<rparr>)))"

definition XMLList_MovePrev :: "'a cXMLLiteList \<Rightarrow> (int \<times> 'a cXMLLiteList) result" where
  "XMLList_MovePrev l =
     (if m_pHead l = None then Inr (HRC_XMLLITELIST_EMPTY, l\<lparr>m_pCurrent := None\<rparr>)
      else rbind (case m_pCurrent l of None \<Rightarrow> Inr None | c \<Rightarrow> rbind (xl_get l c) (\<lambda>n. Inr (xn_pPrev n))) (\<lambda>prev.
           if prev \<noteq> None then Inr (HRC_XMLLITELIST_OK, l\<lparr>m_pCurrent := prev\<rparr>)
           else Inr (HRC_XMLLITELIST_BEGIN, l\<lparr>m_pCurrent := None\<rparr>)))"

definition XMLList_MoveToNode :: "'a cXMLLiteList \<Rightarrow> nat option \<Rightarrow> int \<times> 'a cXMLLiteList" where
  "XMLList_MoveToNode l handle = (HRC_XMLLITELIST_OK, l\<lparr>m_pCurrent := handle\<rparr>)"

definition XMLList_IsEmpty :: "'a cXMLLiteList \<Rightarrow> bool" where
  "XMLList_IsEmpty l = (m_pHead l = None)"

definition SavePos :: "'a cXMLLiteList \<Rightarrow> 'a cXMLLiteList" where
  "SavePos l = l\<lparr>m_pMarker := Some (m_pCurrent l)\<rparr>"

definition RestorePos :: "'a cXMLLiteList \<Rightarrow> 'a cXMLLiteList result" where
  "RestorePos l =
     (case m_pMarker l of None \<Rightarrow> Inl Indeterminate | Some p \<Rightarrow> Inr (l\<lparr>m_pCurrent := p\<rparr>))"

section \<open>The contract\<close>

text \<open>
  \<open>xl_repr l xs\<close>: the store of \<open>l\<close> holds exactly the nodes of the sequence \<open>xs\<close> of addresses and
  data, linked both ways. \<open>xl_at l xs i\<close>: the cursor is at the node with number \<open>i\<close>, or past the end.
\<close>

definition xl_addr :: "(nat \<times> 'a) list \<Rightarrow> nat \<Rightarrow> nat option" where
  "xl_addr xs i = (if i < length xs then Some (fst (xs ! i)) else None)"

definition xl_node :: "(nat \<times> 'a) list \<Rightarrow> nat \<Rightarrow> 'a xml_node" where
  "xl_node xs i =
     \<lparr>xn_pData = Some (snd (xs ! i)), xn_pNext = xl_addr xs (Suc i),
      xn_pPrev = (if i = 0 then None else xl_addr xs (i - 1))\<rparr>"

definition xl_repr :: "'a cXMLLiteList \<Rightarrow> (nat \<times> 'a) list \<Rightarrow> bool" where
  "xl_repr l xs \<longleftrightarrow>
     distinct (map fst xs) \<and> dom (xl_store l) = fst ` set xs \<and>
     (\<forall>i < length xs. fst (xs ! i) < xl_new l \<and> xl_store l (fst (xs ! i)) = Some (xl_node xs i)) \<and>
     m_pHead l = xl_addr xs 0 \<and>
     m_pTail l = (if xs = [] then None else xl_addr xs (length xs - 1))"

definition xl_at :: "'a cXMLLiteList \<Rightarrow> (nat \<times> 'a) list \<Rightarrow> nat \<Rightarrow> bool" where
  "xl_at l xs i \<longleftrightarrow> m_pCurrent l = xl_addr xs i"

locale cursor_list =
  fixes repr :: "'l \<Rightarrow> (nat \<times> 'a) list \<Rightarrow> bool"
    and at :: "'l \<Rightarrow> (nat \<times> 'a) list \<Rightarrow> nat \<Rightarrow> bool"
    and empty :: 'l
    and add :: "'l \<Rightarrow> 'a \<Rightarrow> 'l result"
    and head :: "'l \<Rightarrow> int \<times> 'l"
    and advance :: "'l \<Rightarrow> (int \<times> 'l) result"
    and data :: "'l \<Rightarrow> 'a option result"
  assumes repr_empty: "repr empty []"
    and repr_add: "repr l xs \<Longrightarrow> \<exists>l' a. add l x = Inr l' \<and> repr l' (xs @ [(a, x)])"
    and head_repr: "repr l xs \<Longrightarrow> fst (head l) = (if xs = [] then 1 else 0) \<and>
      repr (snd (head l)) xs \<and> at (snd (head l)) xs 0"
    and advance_repr: "repr l xs \<Longrightarrow> at l xs i \<Longrightarrow> i < length xs \<Longrightarrow>
      \<exists>l'. advance l = Inr (if Suc i < length xs then 0 else 3, l') \<and> repr l' xs \<and> at l' xs (Suc i)"
    and data_repr: "repr l xs \<Longrightarrow> at l xs i \<Longrightarrow>
      data l = Inr (if i < length xs then Some (snd (xs ! i)) else None)"
begin

text \<open>What a client gets that puts a sequence of values into an empty list and walks over it.\<close>

primrec add_all :: "'l \<Rightarrow> 'a list \<Rightarrow> 'l result" where
  "add_all l [] = Inr l"
| "add_all l (x # xs) = rbind (add l x) (\<lambda>l. add_all l xs)"

primrec walk :: "nat \<Rightarrow> 'l \<Rightarrow> 'a list result" where
  "walk 0 l = Inr []"
| "walk (Suc n) l =
     rbind (data l) (\<lambda>d.
     (case d of
        None \<Rightarrow> Inr []
      | Some x \<Rightarrow> rbind (advance l) (\<lambda>(_, l). rbind (walk n l) (\<lambda>xs. Inr (x # xs)))))"

lemma add_all_repr:
  "repr l xs \<Longrightarrow> \<exists>l' ys. add_all l ds = Inr l' \<and> repr l' (xs @ ys) \<and> map snd ys = ds"
proof (induction ds arbitrary: l xs)
  case Nil
  then show ?case by (intro exI [of _ l] exI [of _ "[]"]) simp
next
  case (Cons d ds)
  from repr_add [OF Cons.prems, of d] obtain l1 a
    where l1: "add l d = Inr l1" "repr l1 (xs @ [(a, d)])" by blast
  from Cons.IH [OF l1(2)] obtain l2 ys
    where "add_all l1 ds = Inr l2" "repr l2 ((xs @ [(a, d)]) @ ys)" "map snd ys = ds" by blast
  then show ?case using l1(1) by (intro exI [of _ l2] exI [of _ "(a, d) # ys"]) simp
qed

lemma walk_repr:
  "repr l xs \<Longrightarrow> at l xs i \<Longrightarrow> length xs - i < n \<Longrightarrow> walk n l = Inr (map snd (drop i xs))"
proof (induction n arbitrary: l i)
  case (Suc n)
  show ?case
  proof (cases "i < length xs")
    case True
    from advance_repr [OF Suc.prems(1,2) True] obtain l' rc
      where l': "advance l = Inr (rc, l')" "repr l' xs" "at l' xs (Suc i)" by blast
    have "walk n l' = Inr (map snd (drop (Suc i) xs))"
      using Suc.prems(3) True by (intro Suc.IH l') simp
    then show ?thesis
      using True l'(1) data_repr [OF Suc.prems(1,2)] by (simp add: Cons_nth_drop_Suc [symmetric])
  next
    case False
    then show ?thesis using data_repr [OF Suc.prems(1,2)] by simp
  qed
qed simp

theorem walk_added:
  "length ds < n \<Longrightarrow> \<exists>l. add_all empty ds = Inr l \<and> walk n (snd (head l)) = Inr ds"
proof -
  assume n: "length ds < n"
  from add_all_repr [OF repr_empty, of ds] obtain l ys
    where l: "add_all empty ds = Inr l" "repr l ys" "map snd ys = ds" by auto
  have "repr (snd (head l)) ys" "at (snd (head l)) ys 0" using head_repr [OF l(2)] by auto
  from walk_repr [OF this, of n] show ?thesis using n l by auto
qed

end

section \<open>The linked list keeps the contract\<close>

lemma xl_repr_Nil: "xl_repr new_cXMLLiteList []"
  by (simp add: xl_repr_def new_cXMLLiteList_def xl_addr_def)

lemma xl_repr_get:
  "xl_repr l xs \<Longrightarrow> i < length xs \<Longrightarrow> xl_get l (xl_addr xs i) = Inr (xl_node xs i)"
  by (simp add: xl_repr_def xl_get_def xl_addr_def)

lemma xl_repr_empty_iff: "xl_repr l xs \<Longrightarrow> m_pHead l = None \<longleftrightarrow> xs = []"
  by (simp add: xl_repr_def xl_addr_def)

lemma xl_repr_tail_iff: "xl_repr l xs \<Longrightarrow> m_pTail l = None \<longleftrightarrow> xs = []"
  by (simp add: xl_repr_def xl_addr_def)

lemma xl_addr_append: "i < length xs \<Longrightarrow> xl_addr (xs @ ys) i = xl_addr xs i"
  by (simp add: xl_addr_def nth_append)

lemma xl_addr_inject:
  "distinct (map fst xs) \<Longrightarrow> i < length xs \<Longrightarrow> j < length xs \<Longrightarrow> fst (xs ! i) = fst (xs ! j) \<longleftrightarrow> i = j"
  by (metis length_map nth_eq_iff_index_eq nth_map)

lemma xl_repr_cursor [simp]:
  "xl_repr (l\<lparr>m_pCurrent := c\<rparr>) xs = xl_repr l xs" "xl_repr (l\<lparr>m_pMarker := m\<rparr>) xs = xl_repr l xs"
  by (simp_all add: xl_repr_def)

lemma xl_node_append:
  "i < length xs \<Longrightarrow>
     xl_node (xs @ [x]) i =
       (if Suc i = length xs then (xl_node xs i)\<lparr>xn_pNext := Some (fst x)\<rparr> else xl_node xs i)"
  by (auto simp: xl_node_def xl_addr_def nth_append)

lemma xl_repr_new: "xl_repr l xs \<Longrightarrow> xl_new l \<notin> fst ` set xs"
  by (force simp: xl_repr_def in_set_conv_nth)

lemma PlaceAtHead_repr:
  assumes "xl_repr l []"
  shows "xl_repr (PlaceAtHead l x) [(xl_new l, x)]" "xl_at (PlaceAtHead l x) [(xl_new l, x)] 0"
  using assms
  by (auto simp: PlaceAtHead_def xl_malloc_def xl_put_def xl_repr_def xl_addr_def xl_node_def xl_at_def)

lemma XMLList_Add_repr:
  assumes r: "xl_repr l xs"
  shows "\<exists>l'. XMLList_Add l x = Inr l' \<and> xl_repr l' (xs @ [(xl_new l, x)]) \<and>
    xl_new l' = Suc (xl_new l) \<and>
    m_pCurrent l' = (if xs = [] then Some (xl_new l) else m_pCurrent l) \<and> m_pMarker l' = m_pMarker l"
proof (cases "xs = []")
  case True
  then show ?thesis
    using r PlaceAtHead_repr [of l x] xl_repr_empty_iff [OF r]
    by (auto simp: XMLList_Add_def PlaceAtHead_def xl_malloc_def xl_put_def)
next
  case False
  define t where "t = fst (xs ! (length xs - 1))"
  define n where "n = xl_new l"
  have len: "length xs - 1 < length xs" using False by simp
  have t: "m_pTail l = Some t" "xl_store l t = Some (xl_node xs (length xs - 1))"
    using r False len by (auto simp: xl_repr_def xl_addr_def t_def)
  have h: "m_pHead l \<noteq> None" using xl_repr_empty_iff [OF r] False by simp
  have nt: "n \<noteq> t" using r len by (auto simp: xl_repr_def t_def n_def)
  define l' where "l' = l\<lparr>xl_store := (xl_store l)
      (n \<mapsto> \<lparr>xn_pData = Some x, xn_pNext = None, xn_pPrev = Some t\<rparr>,
       t \<mapsto> (xl_node xs (length xs - 1))\<lparr>xn_pNext := Some n\<rparr>),
      xl_new := n + 1, m_pTail := Some n, m_iTotalEntries := m_iTotalEntries l + 1\<rparr>"
  have e: "XMLList_Add l x = Inr l'"
    using t h by (auto simp: XMLList_Add_def xl_get_def xl_malloc_def xl_put_def l'_def n_def)
  have "xl_repr l' (xs @ [(n, x)])"
    unfolding xl_repr_def
  proof (intro conjI allI impI)
    show "distinct (map fst (xs @ [(n, x)]))"
      using r xl_repr_new [OF r] by (auto simp: xl_repr_def n_def)
    show "dom (xl_store l') = fst ` set (xs @ [(n, x)])"
      using r len by (auto simp: xl_repr_def l'_def t_def)
    show "m_pHead l' = xl_addr (xs @ [(n, x)]) 0"
      using r False by (simp add: xl_repr_def l'_def xl_addr_append)
    show "m_pTail l' = (if xs @ [(n, x)] = [] then None else xl_addr (xs @ [(n, x)]) (length (xs @ [(n, x)]) - 1))"
      by (simp add: l'_def xl_addr_def)
    fix i assume i: "i < length (xs @ [(n, x)])"
    show "fst ((xs @ [(n, x)]) ! i) < xl_new l'"
      using i r by (cases "i < length xs") (auto simp: nth_append l'_def n_def xl_repr_def less_Suc_eq)
    show "xl_store l' (fst ((xs @ [(n, x)]) ! i)) = Some (xl_node (xs @ [(n, x)]) i)"
    proof (cases "i < length xs")
      case True
      have "fst (xs ! i) \<noteq> n" using r True by (auto simp: xl_repr_def n_def)
      moreover have "fst (xs ! i) = t \<longleftrightarrow> i = length xs - 1"
        using xl_addr_inject [of xs i "length xs - 1"] r True len by (simp add: xl_repr_def t_def)
      ultimately show ?thesis
        using r True by (auto simp: nth_append l'_def xl_node_append xl_repr_def)
    next
      case False': False
      then have "i = length xs" using i by simp
      then show ?thesis
        using nt False by (auto simp: l'_def xl_node_def xl_addr_def nth_append t_def)
    qed
  qed
  then show ?thesis using e False by (simp add: l'_def n_def)
qed

lemma XMLList_MoveToHead_repr:
  "xl_repr l xs \<Longrightarrow> XMLList_MoveToHead l = (if xs = [] then 1 else 0, l\<lparr>m_pCurrent := xl_addr xs 0\<rparr>)"
  by (simp add: XMLList_MoveToHead_def xl_repr_def xl_addr_def)

lemma XMLList_MoveToTail_repr:
  "xl_repr l xs \<Longrightarrow> XMLList_MoveToTail l =
     (if xs = [] then (1, l\<lparr>m_pCurrent := None\<rparr>) else (0, l\<lparr>m_pCurrent := xl_addr xs (length xs - 1)\<rparr>))"
  by (simp add: XMLList_MoveToTail_def xl_repr_def xl_addr_def)

lemma XMLList_MoveNext_repr:
  assumes r: "xl_repr l xs" and a: "xl_at l xs i" and i: "i < length xs"
  shows "XMLList_MoveNext l =
    Inr (if Suc i < length xs then 0 else 3, l\<lparr>m_pCurrent := xl_addr xs (Suc i)\<rparr>)"
proof -
  have h: "m_pHead l \<noteq> None" using xl_repr_empty_iff [OF r] i by auto
  have "m_pCurrent l = Some (fst (xs ! i))" using a i by (simp add: xl_at_def xl_addr_def)
  then show ?thesis
    using h xl_repr_get [OF r i] i by (simp add: XMLList_MoveNext_def xl_addr_def xl_node_def)
qed

lemma XMLList_MoveNext_end:
  assumes r: "xl_repr l xs" and c: "m_pCurrent l = None"
  shows "XMLList_MoveNext l = Inr (if xs = [] then 1 else 3, l)"
  using xl_repr_empty_iff [OF r] c by (cases l) (simp add: XMLList_MoveNext_def)

lemma XMLList_MovePrev_repr:
  assumes r: "xl_repr l xs" and a: "xl_at l xs i" and i: "i < length xs"
  shows "XMLList_MovePrev l =
    Inr (if 0 < i then 0 else 2, l\<lparr>m_pCurrent := (if 0 < i then xl_addr xs (i - 1) else None)\<rparr>)"
proof -
  have h: "m_pHead l \<noteq> None" using xl_repr_empty_iff [OF r] i by auto
  have "m_pCurrent l = Some (fst (xs ! i))" using a i by (simp add: xl_at_def xl_addr_def)
  then show ?thesis
    using h xl_repr_get [OF r i] i by (auto simp: XMLList_MovePrev_def xl_addr_def xl_node_def)
qed

lemma XMLList_GetData_repr:
  assumes r: "xl_repr l xs" and a: "xl_at l xs i"
  shows "XMLList_GetData l = Inr (if i < length xs then Some (snd (xs ! i)) else None)"
proof (cases "i < length xs")
  case True
  have c: "m_pCurrent l = Some (fst (xs ! i))" using a True by (simp add: xl_at_def xl_addr_def)
  have "xl_get l (m_pCurrent l) = Inr (xl_node xs i)"
    using a xl_repr_get [OF r True] by (simp add: xl_at_def)
  then show ?thesis using c True by (simp add: XMLList_GetData_def xl_node_def)
qed (use a in \<open>simp add: xl_at_def xl_addr_def XMLList_GetData_def\<close>)

interpretation xml: cursor_list xl_repr xl_at new_cXMLLiteList XMLList_Add XMLList_MoveToHead
  XMLList_MoveNext XMLList_GetData
proof unfold_locales
  fix l :: "'a cXMLLiteList" and xs x i
  assume r: "xl_repr l xs"
  show "\<exists>l' a. XMLList_Add l x = Inr l' \<and> xl_repr l' (xs @ [(a, x)])"
    using XMLList_Add_repr [OF r, of x] by blast
  show "fst (XMLList_MoveToHead l) = (if xs = [] then 1 else 0) \<and>
      xl_repr (snd (XMLList_MoveToHead l)) xs \<and> xl_at (snd (XMLList_MoveToHead l)) xs 0"
    using r by (simp add: XMLList_MoveToHead_repr xl_at_def)
  assume a: "xl_at l xs i"
  show "XMLList_GetData l = Inr (if i < length xs then Some (snd (xs ! i)) else None)"
    by (rule XMLList_GetData_repr [OF r a])
  assume "i < length xs"
  from XMLList_MoveNext_repr [OF r a this]
  show "\<exists>l'. XMLList_MoveNext l = Inr (if Suc i < length xs then 0 else 3, l') \<and> xl_repr l' xs \<and> xl_at l' xs (Suc i)"
    using r by (auto simp: xl_at_def)
qed (simp add: xl_repr_Nil)

text \<open>\<open>Clear\<close> frees every node: nothing is left in the store.\<close>

lemma xl_free_loop_spec:
  "distinct (map fst xs) \<Longrightarrow>
   \<forall>i < k. xl_store l (fst (xs ! i)) = Some (xl_node xs i) \<Longrightarrow> k \<le> length xs \<Longrightarrow>
   xl_free_loop l (if k = 0 then None else xl_addr xs (k - 1)) =
     Some (Inr (l\<lparr>xl_store := (\<lambda>a. if a \<in> fst ` set (take k xs) then None else xl_store l a)\<rparr>))"
proof (induction k arbitrary: l)
  case 0
  then show ?case by (subst xl_free_loop.simps) simp
next
  case (Suc k)
  let ?a = "fst (xs ! k)"
  let ?l = "l\<lparr>xl_store := (xl_store l)(?a := None)\<rparr>"
  have k: "k < length xs" using Suc.prems(3) by simp
  have s: "xl_get l (Some ?a) = Inr (xl_node xs k)" using Suc.prems(2) by (simp add: xl_get_def)
  have "\<forall>i < k. xl_store ?l (fst (xs ! i)) = Some (xl_node xs i)"
    using Suc.prems xl_addr_inject [OF Suc.prems(1) _ k] by auto
  from Suc.IH [OF Suc.prems(1) this] k
  have IH: "xl_free_loop ?l (xn_pPrev (xl_node xs k)) =
      Some (Inr (?l\<lparr>xl_store := (\<lambda>a. if a \<in> fst ` set (take k xs) then None else xl_store ?l a)\<rparr>))"
    by (simp add: xl_node_def)
  have "xl_free_loop l (Some ?a) = xl_free_loop ?l (xn_pPrev (xl_node xs k))"
    by (subst xl_free_loop.simps) (simp add: s)
  also have "\<dots> = Some (Inr (l\<lparr>xl_store := (\<lambda>a. if a \<in> fst ` set (take (Suc k) xs) then None else xl_store l a)\<rparr>))"
  proof -
    have "(\<lambda>a. if a \<in> fst ` set (take k xs) then None else xl_store ?l a) =
        (\<lambda>a. if a \<in> fst ` set (take (Suc k) xs) then None else xl_store l a)"
      using k by (auto simp: take_Suc_conv_app_nth fun_eq_iff)
    then show ?thesis unfolding IH by simp
  qed
  finally show ?case using k by (simp add: xl_addr_def)
qed

lemma XMLList_Clear_spec:
  assumes r: "xl_repr l xs"
  shows "\<exists>l'. XMLList_Clear l = Some (Inr l') \<and> xl_repr l' [] \<and> (xs \<noteq> [] \<longrightarrow> m_pCurrent l' = None) \<and>
    m_pMarker l' = m_pMarker l \<and> m_iTotalEntries l' = m_iTotalEntries l"
proof (cases "xs = []")
  case True
  then show ?thesis using r by (simp add: XMLList_Clear_def xl_repr_def xl_addr_def)
next
  case False
  have h: "m_pHead l \<noteq> None" using xl_repr_empty_iff [OF r] False by simp
  have "xl_free_loop l (m_pTail l) =
      Some (Inr (l\<lparr>xl_store := (\<lambda>a. if a \<in> fst ` set xs then None else xl_store l a)\<rparr>))"
    using xl_free_loop_spec [of xs "length xs" l] r False by (simp add: xl_repr_def)
  moreover have "(\<lambda>a. if a \<in> fst ` set xs then None else xl_store l a) = (\<lambda>_. None)"
    using r domIff [of _ "xl_store l"] by (simp add: xl_repr_def fun_eq_iff)
  ultimately show ?thesis
    using h by (auto simp: XMLList_Clear_def xl_repr_def xl_addr_def)
qed

end
