(* ===== verification/XmlElement.thy ===== *)
theory XmlElement
  imports XmlList
begin

text \<open>
  \<open>cXMLLiteAttributePair\<close> and \<open>cXMLLiteElement\<close> of \<open>xmlliteparser.cpp\<close>. The list of an element holds
  pointers to its attribute pairs, which are in a store of the element (\<open>el_pairs\<close>, \<open>el_new\<close> the next
  address); \<open>new\<close> succeeds. \<open>el_is\<close> says which name, value, attributes and CDATA block an element
  has. The readings of a text as a floating point number are left out.
\<close>

record cXMLLiteAttributePair =
  m_AttributeName :: cXMLLiteString
  m_AttributeValue :: cXMLLiteString

record cXMLLiteElement =
  m_xmlCDATA :: cXMLLiteString
  m_xmlTagName :: cXMLLiteString
  m_xmlValue :: cXMLLiteString
  m_xmlAttributes :: "nat cXMLLiteList"
  m_hasCDATA :: bool
  el_pairs :: "nat \<Rightarrow> cXMLLiteAttributePair option"
  el_new :: nat

section \<open>Attribute pairs\<close>

definition new_cXMLLiteAttributePair :: cXMLLiteAttributePair where
  "new_cXMLLiteAttributePair =
     \<lparr>m_AttributeName = new_cXMLLiteString, m_AttributeValue = new_cXMLLiteString\<rparr>"

definition SetPair :: "cXMLLiteAttributePair \<Rightarrow> block \<Rightarrow> block \<Rightarrow> cXMLLiteAttributePair result" where
  "SetPair a pName pValue =
     rbind (XMLString_ReplaceWith (m_AttributeName a) pName (-1)) (\<lambda>n.
     rbind (XMLString_ReplaceWith (m_AttributeValue a) pValue (-1)) (\<lambda>v.
     Inr (a\<lparr>m_AttributeName := n, m_AttributeValue := v\<rparr>)))"

text \<open>\<open>atoi\<close> and \<open>atol\<close> on the text, -1 where there is none.\<close>

definition text_number :: "block option \<Rightarrow> int result" where
  "text_number p = (case p of None \<Rightarrow> Inr (-1) | Some blk \<Rightarrow> rbind (read_cstr blk) (\<lambda>t. Inr (atoi t)))"

definition Attrib_ValueAsInt :: "cXMLLiteAttributePair \<Rightarrow> int result" where
  "Attrib_ValueAsInt a = text_number (m_pData (m_AttributeValue a))"

section \<open>Elements\<close>

definition new_cXMLLiteElement :: cXMLLiteElement where
  "new_cXMLLiteElement =
     \<lparr>m_xmlCDATA = new_cXMLLiteString, m_xmlTagName = new_cXMLLiteString,
      m_xmlValue = new_cXMLLiteString, m_xmlAttributes = new_cXMLLiteList, m_hasCDATA = False,
      el_pairs = (\<lambda>_. None), el_new = 0\<rparr>"

definition el_pair :: "cXMLLiteElement \<Rightarrow> nat \<Rightarrow> cXMLLiteAttributePair result" where
  "el_pair e a = (case el_pairs e a of None \<Rightarrow> Inl DanglingPointer | Some p \<Rightarrow> Inr p)"

text \<open>The loop of \<open>Flush\<close>: delete the pair at the cursor, move back.\<close>

partial_function (option) flush_pairs :: "cXMLLiteElement \<Rightarrow> cXMLLiteElement result option" where
  "flush_pairs e =
     (case rbind (XMLList_GetData (m_xmlAttributes e)) (\<lambda>d.
           rbind (case d of
                    None \<Rightarrow> Inr e
                  | Some a \<Rightarrow> rbind (el_pair e a) (\<lambda>_. Inr (e\<lparr>el_pairs := (el_pairs e)(a := None)\<rparr>))) (\<lambda>e.
           rbind (XMLList_MovePrev (m_xmlAttributes e)) (\<lambda>(rc, l).
           Inr (rc, e\<lparr>m_xmlAttributes := l\<rparr>)))) of
        Inl f \<Rightarrow> Some (Inl f)
      | Inr (rc, e) \<Rightarrow> if rc = HRC_XMLLITELIST_OK then flush_pairs e else Some (Inr e))"

definition Element_Flush :: "cXMLLiteElement \<Rightarrow> cXMLLiteElement result option" where
  "Element_Flush e =
     (let (rc, l) = XMLList_MoveToTail (m_xmlAttributes e);
          e = e\<lparr>m_xmlAttributes := l\<rparr>
      in case (if rc = HRC_XMLLITELIST_OK then flush_pairs e else Some (Inr e)) of
           None \<Rightarrow> None
         | Some (Inl f) \<Rightarrow> Some (Inl f)
         | Some (Inr e) \<Rightarrow>
             (case XMLList_Clear (m_xmlAttributes e) of
                None \<Rightarrow> None
              | Some r \<Rightarrow> Some (rbind r (\<lambda>l. Inr (e\<lparr>m_xmlAttributes := l\<rparr>)))))"

definition GetNewAttribPair :: "cXMLLiteElement \<Rightarrow> (nat \<times> cXMLLiteElement) result" where
  "GetNewAttribPair e =
     (let a = el_new e;
          e = e\<lparr>el_pairs := (el_pairs e)(a \<mapsto> new_cXMLLiteAttributePair), el_new := a + 1\<rparr>
      in rbind (XMLList_Add (m_xmlAttributes e) a) (\<lambda>l. Inr (a, e\<lparr>m_xmlAttributes := l\<rparr>)))"

definition SetElementName :: "cXMLLiteElement \<Rightarrow> block \<Rightarrow> cXMLLiteElement result" where
  "SetElementName e pName =
     rbind (XMLString_ReplaceWith (m_xmlTagName e) pName (-1)) (\<lambda>s. Inr (e\<lparr>m_xmlTagName := s\<rparr>))"

definition SetElementValue :: "cXMLLiteElement \<Rightarrow> block \<Rightarrow> cXMLLiteElement result" where
  "SetElementValue e pValue =
     rbind (XMLString_ReplaceWith (m_xmlValue e) pValue (-1)) (\<lambda>s. Inr (e\<lparr>m_xmlValue := s\<rparr>))"

definition AddAttributePair :: "cXMLLiteElement \<Rightarrow> block \<Rightarrow> block \<Rightarrow> cXMLLiteElement result" where
  "AddAttributePair e pName pValue =
     rbind (GetNewAttribPair e) (\<lambda>(a, e).
     rbind (el_pair e a) (\<lambda>p.
     rbind (SetPair p pName pValue) (\<lambda>p. Inr (e\<lparr>el_pairs := (el_pairs e)(a \<mapsto> p)\<rparr>))))"

definition GetElementName :: "cXMLLiteElement \<Rightarrow> block option" where
  "GetElementName e = m_pData (m_xmlTagName e)"

definition GetElementValue :: "cXMLLiteElement \<Rightarrow> block option" where
  "GetElementValue e = m_pData (m_xmlValue e)"

definition GetElementValueAsInt :: "cXMLLiteElement \<Rightarrow> int result" where
  "GetElementValueAsInt e = text_number (m_pData (m_xmlValue e))"

definition Element_MoveHead :: "cXMLLiteElement \<Rightarrow> int \<times> cXMLLiteElement" where
  "Element_MoveHead e =
     (let (rc, l) = XMLList_MoveToHead (m_xmlAttributes e)
      in (if rc = HRC_XMLLITELIST_OK then HRC_XMLLITEPARSER_OK else HRC_XMLLITEPARSER_EMPTY,
          e\<lparr>m_xmlAttributes := l\<rparr>))"

text \<open>The codes of the list as codes of the parser; any other code stays.\<close>

definition parser_code :: "int \<Rightarrow> int" where
  "parser_code rc =
     (if rc = HRC_XMLLITELIST_OK then HRC_XMLLITEPARSER_OK
      else if rc = HRC_XMLLITELIST_EMPTY then HRC_XMLLITEPARSER_EMPTY
      else if rc = HRC_XMLLITELIST_END then HRC_XMLLITEPARSER_END else rc)"

definition Element_MoveNext :: "cXMLLiteElement \<Rightarrow> (int \<times> cXMLLiteElement) result" where
  "Element_MoveNext e =
     rbind (XMLList_MoveNext (m_xmlAttributes e)) (\<lambda>(rc, l). Inr (parser_code rc, e\<lparr>m_xmlAttributes := l\<rparr>))"

definition GetAttributePair :: "cXMLLiteElement \<Rightarrow> nat option result" where
  "GetAttributePair e = XMLList_GetData (m_xmlAttributes e)"

definition hasAttributes :: "cXMLLiteElement \<Rightarrow> (bool \<times> cXMLLiteElement) result" where
  "hasAttributes e =
     (let (_, e) = Element_MoveHead e
      in rbind (XMLList_GetData (m_xmlAttributes e)) (\<lambda>d. Inr (d \<noteq> None, e)))"

text \<open>
  \<open>GetAttributeValue\<close>; \<open>None\<close> is the literal \<open>XMLPARSEREMPTYVALUE\<close> of a failed search, which the
  other readings compare the pointer with.
\<close>

partial_function (option) attribute_loop ::
  "string \<Rightarrow> cXMLLiteElement \<Rightarrow> (block option option \<times> cXMLLiteElement) result option" where
  "attribute_loop name e =
     (case XMLList_GetData (m_xmlAttributes e) of
        Inl f \<Rightarrow> Some (Inl f)
      | Inr None \<Rightarrow> Some (Inr (None, e))
      | Inr (Some a) \<Rightarrow>
          (case rbind (el_pair e a) (\<lambda>p.
                rbind (case m_pData (m_AttributeName p) of
                         None \<Rightarrow> Inl NullPointer | Some blk \<Rightarrow> read_cstr blk) (\<lambda>t.
                Inr (t, m_pData (m_AttributeValue p)))) of
             Inl f \<Rightarrow> Some (Inl f)
           | Inr (t, v) \<Rightarrow>
               if name = t then Some (Inr (Some v, e))
               else (case Element_MoveNext e of
                       Inl f \<Rightarrow> Some (Inl f)
                     | Inr (_, e) \<Rightarrow> attribute_loop name e)))"

definition GetAttributeValue ::
  "cXMLLiteElement \<Rightarrow> string \<Rightarrow> (block option option \<times> cXMLLiteElement) result option" where
  "GetAttributeValue e pAttributeName = attribute_loop pAttributeName (snd (Element_MoveHead e))"

definition GetAttributeValueAsInt ::
  "cXMLLiteElement \<Rightarrow> string \<Rightarrow> (int \<times> cXMLLiteElement) result option" where
  "GetAttributeValueAsInt e pAttributeName =
     map_option (\<lambda>r. rbind r (\<lambda>(p, e).
       case p of
         None \<Rightarrow> Inr (-1, e)
       | Some None \<Rightarrow> Inl NullPointer
       | Some (Some blk) \<Rightarrow> rbind (read_cstr blk) (\<lambda>t. Inr (atoi t, e))))
       (GetAttributeValue e pAttributeName)"

definition GetElementCDATA :: "cXMLLiteElement \<Rightarrow> block option" where
  "GetElementCDATA e = m_pData (m_xmlCDATA e)"

definition SetElementCDATA :: "cXMLLiteElement \<Rightarrow> block \<Rightarrow> int \<Rightarrow> cXMLLiteElement result" where
  "SetElementCDATA e pBlock iLen =
     rbind (XMLString_ReplaceWith (m_xmlCDATA e) pBlock iLen) (\<lambda>s.
     Inr (e\<lparr>m_hasCDATA := True, m_xmlCDATA := s\<rparr>))"

section \<open>What an element has\<close>

text \<open>\<open>XE name value attributes cdata\<close>.\<close>

datatype xml_elem =
  XE (xe_name: "string option") (xe_value: "string option")
     (xe_attrs: "(string \<times> string) list") (xe_cdata: "string option")

definition pair_is :: "cXMLLiteElement \<Rightarrow> nat \<times> nat \<Rightarrow> string \<times> string \<Rightarrow> bool" where
  "pair_is e p kv \<longleftrightarrow>
     (\<exists>a. el_pairs e (snd p) = Some a \<and>
        xs_holds (m_AttributeName a) (Some (fst kv)) \<and> xs_holds (m_AttributeValue a) (Some (snd kv)))"

definition attrs_are :: "cXMLLiteElement \<Rightarrow> (nat \<times> nat) list \<Rightarrow> (string \<times> string) list \<Rightarrow> bool" where
  "attrs_are e ps kvs \<longleftrightarrow>
     xl_repr (m_xmlAttributes e) ps \<and> distinct (map snd ps) \<and> (\<forall>p \<in> set ps. snd p < el_new e) \<and>
     list_all2 (pair_is e) ps kvs"

definition el_is :: "cXMLLiteElement \<Rightarrow> xml_elem \<Rightarrow> bool" where
  "el_is e v \<longleftrightarrow>
     xs_holds (m_xmlTagName e) (xe_name v) \<and> xs_holds (m_xmlValue e) (xe_value v) \<and>
     xs_holds (m_xmlCDATA e) (xe_cdata v) \<and> (m_hasCDATA e \<longleftrightarrow> xe_cdata v \<noteq> None) \<and>
     (\<exists>ps. attrs_are e ps (xe_attrs v))"

lemma el_is_new: "el_is new_cXMLLiteElement (XE None None [] None)"
proof -
  have "attrs_are new_cXMLLiteElement [] []"
    by (simp add: attrs_are_def new_cXMLLiteElement_def xl_repr_Nil)
  then have "\<exists>ps. attrs_are new_cXMLLiteElement ps []" by blast
  then show ?thesis by (simp add: el_is_def new_cXMLLiteElement_def xs_holds_new)
qed

lemma attrs_are_fields [simp]:
  "attrs_are (e\<lparr>m_xmlTagName := s\<rparr>) = attrs_are e" "attrs_are (e\<lparr>m_xmlValue := s\<rparr>) = attrs_are e"
  "attrs_are (e\<lparr>m_xmlCDATA := s\<rparr>) = attrs_are e" "attrs_are (e\<lparr>m_hasCDATA := b\<rparr>) = attrs_are e"
  by (simp_all add: attrs_are_def pair_is_def [abs_def] fun_eq_iff)

lemma SetElementName_spec:
  assumes "el_is e (XE n v as c)" "read_cstr p = Inr t"
  shows "\<exists>e'. SetElementName e p = Inr e' \<and> el_is e' (XE (Some t) v as c)"
proof -
  have "xs_holds (m_xmlTagName e) n" using assms(1) by (simp add: el_is_def)
  from XMLString_ReplaceWith_cstr [OF this assms(2)] obtain s
    where "XMLString_ReplaceWith (m_xmlTagName e) p (-1) = Inr s" "xs_holds s (Some t)" by blast
  then show ?thesis using assms(1) by (simp add: SetElementName_def el_is_def)
qed

lemma SetElementValue_spec:
  assumes "el_is e (XE n v as c)" "read_cstr p = Inr t"
  shows "\<exists>e'. SetElementValue e p = Inr e' \<and> el_is e' (XE n (Some t) as c)"
proof -
  have "xs_holds (m_xmlValue e) v" using assms(1) by (simp add: el_is_def)
  from XMLString_ReplaceWith_cstr [OF this assms(2)] obtain s
    where "XMLString_ReplaceWith (m_xmlValue e) p (-1) = Inr s" "xs_holds s (Some t)" by blast
  then show ?thesis using assms(1) by (simp add: SetElementValue_def el_is_def)
qed

lemma SetElementCDATA_spec:
  assumes "el_is e (XE n v as c)" "NUL \<notin> set t"
  shows "\<exists>e'. SetElementCDATA e (map Some t @ r) (int (length t)) = Inr e' \<and> el_is e' (XE n v as (Some t))"
proof -
  have "xs_holds (m_xmlCDATA e) c" using assms(1) by (simp add: el_is_def)
  from XMLString_ReplaceWith_text [OF this assms(2), of r] obtain s
    where "XMLString_ReplaceWith (m_xmlCDATA e) (map Some t @ r) (int (length t)) = Inr s" "xs_holds s (Some t)"
    by blast
  then show ?thesis using assms(1) by (simp add: SetElementCDATA_def el_is_def)
qed

lemma SetPair_new:
  assumes "read_cstr pn = Inr k" "read_cstr pv = Inr v"
  shows "\<exists>a. SetPair new_cXMLLiteAttributePair pn pv = Inr a \<and>
    xs_holds (m_AttributeName a) (Some k) \<and> xs_holds (m_AttributeValue a) (Some v)"
  using XMLString_ReplaceWith_cstr [OF xs_holds_new assms(1)]
    XMLString_ReplaceWith_cstr [OF xs_holds_new assms(2)]
  by (auto simp: SetPair_def new_cXMLLiteAttributePair_def)

lemma list_all2_pair_is_new:
  assumes "list_all2 (pair_is e) ps kvs" "\<forall>p \<in> set ps. snd p < a" "el_pairs e' = (el_pairs e)(a \<mapsto> x)"
  shows "list_all2 (pair_is e') ps kvs"
  using assms(1)
proof (rule list.rel_mono_strong)
  fix p kv assume "p \<in> set ps" "pair_is e p kv"
  then show "pair_is e' p kv" using assms(2,3) by (auto simp: pair_is_def)
qed

lemma AddAttributePair_spec:
  assumes e: "el_is e (XE n v as c)" and k: "read_cstr pn = Inr k" and w: "read_cstr pv = Inr w"
  shows "\<exists>e'. AddAttributePair e pn pv = Inr e' \<and> el_is e' (XE n v (as @ [(k, w)]) c)"
proof -
  from e obtain ps where ps: "attrs_are e ps as" by (auto simp: el_is_def)
  then have r: "xl_repr (m_xmlAttributes e) ps" by (simp add: attrs_are_def)
  from XMLList_Add_repr [OF r, of "el_new e"] obtain l b
    where l: "XMLList_Add (m_xmlAttributes e) (el_new e) = Inr l" "xl_repr l (ps @ [(b, el_new e)])" by blast
  from SetPair_new [OF k w] obtain a
    where a: "SetPair new_cXMLLiteAttributePair pn pv = Inr a"
      "xs_holds (m_AttributeName a) (Some k)" "xs_holds (m_AttributeValue a) (Some w)" by blast
  define e' where "e' = e\<lparr>el_pairs := (el_pairs e)(el_new e \<mapsto> a), el_new := el_new e + 1, m_xmlAttributes := l\<rparr>"
  have eq: "AddAttributePair e pn pv = Inr e'"
    using l(1) a(1) by (simp add: AddAttributePair_def GetNewAttribPair_def el_pair_def Let_def e'_def)
  have "list_all2 (pair_is e') ps as"
    using ps by (auto simp: attrs_are_def e'_def intro: list_all2_pair_is_new [of e _ _ "el_new e"])
  moreover have "pair_is e' (b, el_new e) (k, w)" using a(2,3) by (simp add: pair_is_def e'_def)
  ultimately have "attrs_are e' (ps @ [(b, el_new e)]) (as @ [(k, w)])"
    using ps l(2) by (auto simp: attrs_are_def e'_def less_Suc_eq list_all2_appendI)
  then have "\<exists>ps. attrs_are e' ps (as @ [(k, w)])" by blast
  then show ?thesis using eq e by (simp add: el_is_def e'_def)
qed

section \<open>Search and deletion\<close>

lemma attribute_loop_spec:
  assumes "attrs_are e ps kvs" "xl_at (m_xmlAttributes e) ps i"
  shows "\<exists>e' p. attribute_loop name e = Some (Inr (p, e')) \<and> attrs_are e' ps kvs \<and>
    e' = e\<lparr>m_xmlAttributes := m_xmlAttributes e'\<rparr> \<and>
    (case map_of (drop i kvs) name of
       None \<Rightarrow> p = None
     | Some t \<Rightarrow> \<exists>blk. p = Some (Some blk) \<and> read_cstr blk = Inr t)"
  using assms
proof (induction "length ps - i" arbitrary: e i)
  case 0
  have l: "length kvs = length ps" using 0(2) by (auto simp: attrs_are_def dest: list_all2_lengthD)
  have "XMLList_GetData (m_xmlAttributes e) = Inr None"
    using 0 XMLList_GetData_repr [of _ ps i] by (simp add: attrs_are_def)
  then show ?case using 0 l by (subst attribute_loop.simps) simp
next
  case (Suc n)
  then have i: "i < length ps" by simp
  have r: "xl_repr (m_xmlAttributes e) ps" and "list_all2 (pair_is e) ps kvs"
    using Suc.prems by (auto simp: attrs_are_def)
  then have l: "length kvs = length ps" and p: "pair_is e (ps ! i) (kvs ! i)"
    using i by (auto dest: list_all2_lengthD intro: list_all2_nthD)
  obtain k t where kt: "kvs ! i = (k, t)" by fastforce
  have d: "drop i kvs = (k, t) # drop (Suc i) kvs" using i l kt by (simp add: Cons_nth_drop_Suc [symmetric])
  have g: "XMLList_GetData (m_xmlAttributes e) = Inr (Some (snd (ps ! i)))"
    using XMLList_GetData_repr [OF r Suc.prems(2)] i by simp
  from p kt obtain a bk bt
    where a: "el_pair e (snd (ps ! i)) = Inr a" "m_pData (m_AttributeName a) = Some bk" "read_cstr bk = Inr k"
      "m_pData (m_AttributeValue a) = Some bt" "read_cstr bt = Inr t"
    by (auto simp: pair_is_def xs_holds_def el_pair_def split: option.splits)
  show ?case
  proof (cases "name = k")
    case True
    then have "attribute_loop name e = Some (Inr (Some (Some bt), e))"
      using g a by (subst attribute_loop.simps) simp
    then show ?thesis using True Suc.prems(1) d a(5) by simp
  next
    case False
    let ?e = "e\<lparr>m_xmlAttributes := (m_xmlAttributes e)\<lparr>m_pCurrent := xl_addr ps (Suc i)\<rparr>\<rparr>"
    have m: "Element_MoveNext e = Inr (parser_code (if Suc i < length ps then 0 else 3), ?e)"
      using XMLList_MoveNext_repr [OF r Suc.prems(2) i] by (simp add: Element_MoveNext_def)
    have e1: "attribute_loop name e = attribute_loop name ?e"
      using False g a m by (subst attribute_loop.simps) simp
    have as: "attrs_are ?e ps kvs" using Suc.prems(1) by (simp add: attrs_are_def pair_is_def [abs_def])
    have "n = length ps - Suc i" "xl_at (m_xmlAttributes ?e) ps (Suc i)"
      using Suc.hyps(2) by (auto simp: xl_at_def)
    from Suc.hyps(1) [OF this(1) as this(2)] show ?thesis using False d e1 by fastforce
  qed
qed

lemma GetAttributeValue_spec:
  assumes "attrs_are e ps kvs"
  shows "\<exists>e' p. GetAttributeValue e name = Some (Inr (p, e')) \<and> attrs_are e' ps kvs \<and>
    (case map_of kvs name of
       None \<Rightarrow> p = None
     | Some t \<Rightarrow> \<exists>blk. p = Some (Some blk) \<and> read_cstr blk = Inr t)"
proof -
  let ?e = "snd (Element_MoveHead e)"
  have r: "xl_repr (m_xmlAttributes e) ps" using assms by (simp add: attrs_are_def)
  have "attrs_are ?e ps kvs" "xl_at (m_xmlAttributes ?e) ps 0"
    using assms XMLList_MoveToHead_repr [OF r]
    by (auto simp: Element_MoveHead_def attrs_are_def pair_is_def [abs_def] xl_at_def Let_def)
  from attribute_loop_spec [OF this, of name] show ?thesis by (auto simp: GetAttributeValue_def)
qed

text \<open>\<open>Flush\<close> deletes every pair once, and frees the list.\<close>

definition only_pairs :: "cXMLLiteElement \<Rightarrow> (nat \<times> nat) list \<Rightarrow> nat \<Rightarrow> bool" where
  "only_pairs e ps k \<longleftrightarrow>
     xl_repr (m_xmlAttributes e) ps \<and> distinct (map snd ps) \<and> (\<forall>i < k. el_pairs e (snd (ps ! i)) \<noteq> None)"

lemma flush_pairs_spec:
  assumes "only_pairs e ps (Suc i)" "xl_at (m_xmlAttributes e) ps i" "i < length ps"
  shows "\<exists>e'. flush_pairs e = Some (Inr e') \<and> xl_repr (m_xmlAttributes e') ps \<and>
    el_pairs e' = (\<lambda>a. if a \<in> snd ` set (take (Suc i) ps) then None else el_pairs e a)"
  using assms
proof (induction i arbitrary: e)
  case 0
  then have r: "xl_repr (m_xmlAttributes e) ps" by (simp add: only_pairs_def)
  from 0 obtain p where p: "el_pairs e (snd (ps ! 0)) = Some p" by (auto simp: only_pairs_def)
  show ?case
    using XMLList_GetData_repr [OF r 0(2)] XMLList_MovePrev_repr [OF r 0(2,3)] 0 p r
    by (subst flush_pairs.simps) (auto simp: el_pair_def fun_eq_iff take_Suc_conv_app_nth)
next
  case (Suc i)
  then have r: "xl_repr (m_xmlAttributes e) ps" by (simp add: only_pairs_def)
  from Suc.prems obtain p where p: "el_pairs e (snd (ps ! Suc i)) = Some p" by (auto simp: only_pairs_def)
  let ?e = "e\<lparr>el_pairs := (el_pairs e)(snd (ps ! Suc i) := None),
      m_xmlAttributes := (m_xmlAttributes e)\<lparr>m_pCurrent := xl_addr ps i\<rparr>\<rparr>"
  have "flush_pairs e = flush_pairs ?e"
    using XMLList_GetData_repr [OF r Suc.prems(2)] XMLList_MovePrev_repr [OF r Suc.prems(2,3)] Suc.prems p r
    by (subst flush_pairs.simps) (simp add: el_pair_def)
  moreover have "snd (ps ! j) \<noteq> snd (ps ! Suc i)" if "j < Suc i" for j
    using Suc.prems that nth_eq_iff_index_eq [of "map snd ps" j "Suc i"] by (simp add: only_pairs_def)
  then have "only_pairs ?e ps (Suc i)" using Suc.prems(1) r by (auto simp: only_pairs_def)
  from Suc.IH [OF this] Suc.prems(3) obtain e'
    where "flush_pairs ?e = Some (Inr e')" "xl_repr (m_xmlAttributes e') ps"
      "el_pairs e' = (\<lambda>a. if a \<in> snd ` set (take (Suc i) ps) then None else el_pairs ?e a)"
    by (auto simp: xl_at_def)
  ultimately show ?case
    using Suc.prems(3) by (auto simp: take_Suc_conv_app_nth [of "Suc i"] fun_eq_iff)
qed

lemma Element_Flush_returns:
  assumes "attrs_are e ps kvs"
  shows "\<exists>e'. Element_Flush e = Some (Inr e') \<and> attrs_are e' [] []"
proof -
  have r: "xl_repr (m_xmlAttributes e) ps" and d: "distinct (map snd ps)"
    and a: "list_all2 (pair_is e) ps kvs" using assms by (auto simp: attrs_are_def)
  let ?e = "e\<lparr>m_xmlAttributes := snd (XMLList_MoveToTail (m_xmlAttributes e))\<rparr>"
  have "\<exists>e'. (if ps \<noteq> [] then flush_pairs ?e else Some (Inr ?e)) = Some (Inr e') \<and> xl_repr (m_xmlAttributes e') ps"
  proof (cases "ps = []")
    case True
    then show ?thesis using r XMLList_MoveToTail_repr [OF r] by simp
  next
    case False
    then have len: "Suc (length ps - 1) = length ps" by simp
    have "\<forall>i < length ps. el_pairs e (snd (ps ! i)) \<noteq> None"
      using a by (auto simp: list_all2_conv_all_nth pair_is_def)
    then have "only_pairs ?e ps (Suc (length ps - 1))"
      using r d False len XMLList_MoveToTail_repr [OF r] by (simp add: only_pairs_def)
    moreover have "xl_at (m_xmlAttributes ?e) ps (length ps - 1)" "length ps - 1 < length ps"
      using False XMLList_MoveToTail_repr [OF r] by (simp_all add: xl_at_def)
    ultimately show ?thesis using flush_pairs_spec [of ?e ps "length ps - 1"] False by auto
  qed
  then obtain e1 where e1: "(if ps \<noteq> [] then flush_pairs ?e else Some (Inr ?e)) = Some (Inr e1)"
    "xl_repr (m_xmlAttributes e1) ps" by blast
  from XMLList_Clear_spec [OF e1(2)] obtain l
    where l: "XMLList_Clear (m_xmlAttributes e1) = Some (Inr l)" "xl_repr l []" by blast
  have "fst (XMLList_MoveToTail (m_xmlAttributes e)) = 0 \<longleftrightarrow> ps \<noteq> []"
    using XMLList_MoveToTail_repr [OF r] by simp
  then have "Element_Flush e = Some (Inr (e1\<lparr>m_xmlAttributes := l\<rparr>))"
    using e1(1) l(1) by (simp add: Element_Flush_def Let_def case_prod_beta)
  then show ?thesis using l(2) by (simp add: attrs_are_def)
qed

end
