(* ===== verification/XmlText.thy ===== *)
theory XmlText
  imports XmlList
begin

text \<open>
  The text functions of \<open>cXMLLiteParser\<close> (\<open>xmlliteparser.cpp\<close>), which work in place on a C string
  in a block: \<open>CleanInput\<close> and what it calls, \<open>TerminateAtChar\<close>, \<open>TransformXMLEntities\<close>. Every read
  and write of a byte is checked against the block.
\<close>

section \<open>Operations\<close>

definition is_quote :: "char \<Rightarrow> bool" where
  "is_quote c \<longleftrightarrow> c = CHR 0x22 \<or> c = CHR 0x27"

definition is_dropped :: "char \<Rightarrow> bool" where
  "is_dropped c \<longleftrightarrow> c = CHR ''<'' \<or> c = CHR ''>'' \<or> c = CR \<or> c = LF \<or> c = TAB"

lemma mem_write_length: "mem_write blk i c = Inr blk' \<Longrightarrow> length blk' = length blk"
  by (auto simp: mem_write_def split: if_splits)

lemma mem_read_bound: "mem_read blk i = Inr c \<Longrightarrow> 0 \<le> i \<and> i < int (length blk)"
  by (auto simp: mem_read_def split: if_splits)

text \<open>The loop of \<open>StripChars\<close>, whose bound is computed again before every pass.\<close>

function strip_chars :: "block \<Rightarrow> int \<Rightarrow> int \<Rightarrow> bool \<Rightarrow> (block \<times> int) result" where
  "strip_chars pBuffer i k qoute =
     (case read_cstr pBuffer of
        Inl e \<Rightarrow> Inl e
      | Inr s \<Rightarrow>
          if i < int (length s) + 1 then
            (case mem_read pBuffer i of
               Inl e \<Rightarrow> Inl e
             | Inr c \<Rightarrow>
                 let qoute = (if is_quote c then \<not> qoute else qoute)
                 in if is_dropped c then strip_chars pBuffer (i + 1) k qoute
                    else if \<not> qoute \<and> c = CHR ''?'' then strip_chars pBuffer (i + 1) k qoute
                    else (case mem_write pBuffer k c of
                            Inl e \<Rightarrow> Inl e
                          | Inr pBuffer \<Rightarrow> strip_chars pBuffer (i + 1) (k + 1) qoute))
          else Inr (pBuffer, k))"
  by pat_completeness auto

termination
  by (relation "measure (\<lambda>(b, i, k, q). nat (int (length b) - i))")
    (auto dest: mem_write_length mem_read_bound)

declare strip_chars.simps [simp del]

definition StripChars :: "block \<Rightarrow> block result" where
  "StripChars pBuffer = rbind (strip_chars pBuffer 0 0 False) (\<lambda>(pBuffer, k). mem_write pBuffer k NUL)"

text \<open>The loops of \<open>StripTrailingSpaces\<close> and \<open>StripTrailing\<close> down to the second character.\<close>

primrec strip_back :: "(char \<Rightarrow> bool) \<Rightarrow> block \<Rightarrow> nat \<Rightarrow> block result" where
  "strip_back P pBuffer 0 = Inr pBuffer"
| "strip_back P pBuffer (Suc i) =
     rbind (mem_read pBuffer (int (Suc i))) (\<lambda>c.
     if P c then rbind (mem_write pBuffer (int (Suc i)) NUL) (\<lambda>pBuffer. strip_back P pBuffer i)
     else Inr pBuffer)"

definition strip_trailing :: "(char \<Rightarrow> bool) \<Rightarrow> block \<Rightarrow> block result" where
  "strip_trailing P pBuffer = rbind (read_cstr pBuffer) (\<lambda>s. strip_back P pBuffer (length s - 1))"

definition strip_leading :: "(char \<Rightarrow> bool) \<Rightarrow> block \<Rightarrow> block result" where
  "strip_leading P pBuffer =
     rbind (read_cstr pBuffer) (\<lambda>s.
     let iLength = int (length s); k = int (length (takeWhile P s))
     in rbind (mem_move pBuffer 0 k (iLength - k)) (\<lambda>pBuffer. mem_write pBuffer (iLength - k) NUL))"

definition is_blank :: "char \<Rightarrow> bool" where
  "is_blank c \<longleftrightarrow> c = SP \<or> c = LF \<or> c = CR \<or> c = TAB"

definition StripTrailingSpaces :: "block \<Rightarrow> block result" where
  "StripTrailingSpaces = strip_trailing (\<lambda>c. c = SP)"

definition StripLeadingSpaces :: "block \<Rightarrow> block result" where
  "StripLeadingSpaces = strip_leading (\<lambda>c. c = SP)"

definition StripLeading :: "block \<Rightarrow> block result" where
  "StripLeading = strip_leading is_blank"

definition StripTrailing :: "block \<Rightarrow> block result" where
  "StripTrailing = strip_trailing is_blank"

text \<open>The last quotation mark that is not the first character; 0 where there is none.\<close>

primrec last_quote :: "block \<Rightarrow> nat \<Rightarrow> nat result" where
  "last_quote pBuffer 0 = Inr 0"
| "last_quote pBuffer (Suc i) =
     rbind (mem_read pBuffer (int (Suc i))) (\<lambda>c. if is_quote c then Inr (Suc i) else last_quote pBuffer i)"

definition StripBeginningAndEndingQoutes :: "block \<Rightarrow> block result" where
  "StripBeginningAndEndingQoutes pBuffer =
     rbind (read_cstr pBuffer) (\<lambda>s.
     let iLength = length s; i = length (takeWhile (\<lambda>c. \<not> is_quote c) s)
     in if i = iLength then Inr pBuffer
        else rbind (mem_move pBuffer (int i) (int i + 1) (int iLength - int i)) (\<lambda>pBuffer.
             rbind (read_cstr pBuffer) (\<lambda>s.
             let iLength = length s
             in rbind (last_quote pBuffer iLength) (\<lambda>i.
                rbind (mem_move pBuffer (int i) (int i + 1) (int iLength - int i)) (\<lambda>pBuffer.
                mem_write pBuffer (int i) NUL)))))"

definition TerminateAtChar :: "block \<Rightarrow> char \<Rightarrow> block result" where
  "TerminateAtChar pBuffer ch =
     rbind (read_cstr pBuffer) (\<lambda>s.
     let i = length (takeWhile (\<lambda>c. c \<noteq> ch) s)
     in if i < length s then mem_write pBuffer (int i) NUL else Inr pBuffer)"

definition CleanInput :: "block \<Rightarrow> block result" where
  "CleanInput pBuffer =
     rbind (StripChars pBuffer) (\<lambda>pBuffer.
     rbind (mem_read pBuffer 0) (\<lambda>c.
     if c = NUL then Inr pBuffer
     else rbind (StripLeadingSpaces pBuffer) (\<lambda>pBuffer.
          rbind (mem_read pBuffer 0) (\<lambda>c.
          if c = NUL then Inr pBuffer
          else rbind (StripTrailingSpaces pBuffer) (\<lambda>pBuffer.
               rbind (mem_read pBuffer 0) (\<lambda>c.
               if c = NUL then Inr pBuffer else StripBeginningAndEndingQoutes pBuffer))))))"

text \<open>The entity at the start of a text: its character, and how long its name is.\<close>

definition entity :: "string \<Rightarrow> (char \<times> nat) option" where
  "entity s =
     (if starts_with ''&lt;'' s then Some (CHR ''<'', 4)
      else if starts_with ''&gt;'' s then Some (CHR ''>'', 4)
      else if starts_with ''&apos;'' s then Some (CHR 0x27, 6)
      else if starts_with ''&amp;'' s then Some (CHR ''&'', 5)
      else if starts_with ''&quot;'' s then Some (CHR 0x22, 6)
      else None)"

text \<open>The arms of \<open>TransformXMLEntities\<close>: write the character, move the rest up; the new \<open>len\<close>.\<close>

definition replace_entity :: "block \<Rightarrow> int \<Rightarrow> char \<Rightarrow> nat \<Rightarrow> (block \<times> int) result" where
  "replace_entity pBuffer pLoc c n =
     rbind (mem_write pBuffer pLoc c) (\<lambda>pBuffer.
     rbind (read_cstr_at pBuffer pLoc) (\<lambda>s.
     let len = int (length s) - (int n - 1)
     in rbind (mem_move pBuffer (pLoc + 1) (pLoc + int n) len) (\<lambda>pBuffer. Inr (pBuffer, len))))"

lemma mem_move_length: "mem_move blk d s n = Inr blk' \<Longrightarrow> length blk' = length blk"
  by (auto simp: mem_move_def rbind_eq_Inr dest: mem_store_length)

lemma replace_entity_length: "replace_entity blk p c n = Inr (blk', len) \<Longrightarrow> length blk' = length blk"
  by (auto simp: replace_entity_def rbind_eq_Inr Let_def dest!: mem_write_length mem_move_length)

lemma read_cstr_at_bound: "read_cstr_at blk i = Inr s \<Longrightarrow> 0 \<le> i \<and> i + int (length s) < int (length blk)"
  by (auto simp: read_cstr_at_def split: if_splits dest: read_cstr_length)

function entity_loop :: "block \<Rightarrow> nat option \<Rightarrow> int \<Rightarrow> block result" where
  "entity_loop pBuffer pLoc len =
     (if len \<le> 0 then Inr pBuffer
      else
        (case pLoc of
           None \<Rightarrow> Inr pBuffer
         | Some pIdx \<Rightarrow>
             (case read_cstr_at pBuffer (int pIdx) of
                Inl e \<Rightarrow> Inl e
              | Inr s \<Rightarrow>
                  (case find_char CHR ''&'' s of
                     None \<Rightarrow> entity_loop pBuffer None (len - 1)
                   | Some j \<Rightarrow>
                       (case entity (drop j s) of
                          None \<Rightarrow> entity_loop pBuffer (Some (pIdx + j + 1)) (len - 1)
                        | Some (c, n) \<Rightarrow>
                            (case replace_entity pBuffer (int (pIdx + j)) c n of
                               Inl e \<Rightarrow> Inl e
                             | Inr (pBuffer, len) \<Rightarrow> entity_loop pBuffer (Some (pIdx + j + 1)) len))))))"
  by pat_completeness auto

termination
proof (relation "measure (\<lambda>(b, p, len). case p of None \<Rightarrow> 0 | Some i \<Rightarrow> Suc (length b - i))", goal_cases)
  case 1
  then show ?case by simp
next
  case 2
  then show ?case by simp
next
  case (3 b p len i s j)
  then show ?case using read_cstr_at_bound [OF 3(3)] find_char_Some [OF 3(4)] by auto
next
  case (4 b p len i s j r c n x b' len')
  then show ?case
    using read_cstr_at_bound [OF 4(3)] find_char_Some [OF 4(4)]
    by (auto dest!: replace_entity_length)
qed

declare entity_loop.simps [simp del]

definition TransformXMLEntities :: "block \<Rightarrow> block result" where
  "TransformXMLEntities pBuffer =
     rbind (read_cstr pBuffer) (\<lambda>s. entity_loop pBuffer (Some 0) (int (length s)))"

end
