(* ===== verification/XmlParser.thy ===== *)
theory XmlParser
  imports XmlElement XmlText
begin

text \<open>
  \<open>cXMLLiteParser\<close> of \<open>xmlliteparser.cpp\<close>: the parser with its list of elements, its working buffer
  and the two buffers of \<open>SplitParam\<close>. The list holds pointers to elements, which are in a store of
  the parser (\<open>x_elems\<close>, \<open>x_new\<close> the next address); \<open>malloc\<close> and \<open>new\<close> succeed. The state machine
  of \<open>Parse\<close> is \<open>parse_char\<close>, its loop \<open>parse_loop\<close>; the document is the memory from \<open>pszData\<close> on.
\<close>

record cXMLLiteParser =
  m_xmlElements :: "nat cXMLLiteList"
  m_pWorkingBuffer :: "block option"
  m_iWorkingBufferSize :: int
  m_pSplitBufferName :: "block option"
  m_iSplitBufferNameSize :: int
  m_pSplitBufferValue :: "block option"
  m_iSplitBufferValueSize :: int
  x_elems :: "nat \<Rightarrow> cXMLLiteElement option"
  x_new :: nat

definition new_cXMLLiteParser :: cXMLLiteParser where
  "new_cXMLLiteParser =
     \<lparr>m_xmlElements = new_cXMLLiteList, m_pWorkingBuffer = None, m_iWorkingBufferSize = 0,
      m_pSplitBufferName = None, m_iSplitBufferNameSize = 0, m_pSplitBufferValue = None,
      m_iSplitBufferValueSize = 0, x_elems = (\<lambda>_. None), x_new = 0\<rparr>"

section \<open>Elements and buffers\<close>

definition x_get :: "cXMLLiteParser \<Rightarrow> nat option \<Rightarrow> cXMLLiteElement result" where
  "x_get x p =
     (case p of
        None \<Rightarrow> Inl NullPointer
      | Some a \<Rightarrow> (case x_elems x a of None \<Rightarrow> Inl DanglingPointer | Some e \<Rightarrow> Inr e))"

text \<open>A call on the element behind a pointer.\<close>

definition on_element ::
  "cXMLLiteParser \<Rightarrow> nat option \<Rightarrow> (cXMLLiteElement \<Rightarrow> cXMLLiteElement result) \<Rightarrow> cXMLLiteParser result" where
  "on_element x p f =
     rbind (x_get x p) (\<lambda>e. rbind (f e) (\<lambda>e. Inr (x\<lparr>x_elems := (x_elems x)(the p \<mapsto> e)\<rparr>)))"

definition GetNewEntry :: "cXMLLiteParser \<Rightarrow> (nat \<times> cXMLLiteParser) result" where
  "GetNewEntry x =
     (let a = x_new x;
          x = x\<lparr>x_elems := (x_elems x)(a \<mapsto> new_cXMLLiteElement), x_new := a + 1\<rparr>
      in rbind (XMLList_Add (m_xmlElements x) a) (\<lambda>l. Inr (a, x\<lparr>m_xmlElements := l\<rparr>)))"

text \<open>The loop of \<open>Flush\<close>: delete the element at the cursor, move back.\<close>

partial_function (option) flush_elements :: "cXMLLiteParser \<Rightarrow> cXMLLiteParser result option" where
  "flush_elements x =
     (case XMLList_GetData (m_xmlElements x) of
        Inl f \<Rightarrow> Some (Inl f)
      | Inr d \<Rightarrow>
          (case (case d of
                   None \<Rightarrow> Some (Inr x)
                 | Some a \<Rightarrow>
                     (case x_get x (Some a) of
                        Inl f \<Rightarrow> Some (Inl f)
                      | Inr e \<Rightarrow>
                          (case Element_Flush e of
                             None \<Rightarrow> None
                           | Some r \<Rightarrow> Some (rbind r (\<lambda>_. Inr (x\<lparr>x_elems := (x_elems x)(a := None)\<rparr>)))))) of
             None \<Rightarrow> None
           | Some (Inl f) \<Rightarrow> Some (Inl f)
           | Some (Inr x) \<Rightarrow>
               (case XMLList_MovePrev (m_xmlElements x) of
                  Inl f \<Rightarrow> Some (Inl f)
                | Inr (rc, l) \<Rightarrow>
                    let x = x\<lparr>m_xmlElements := l\<rparr>
                    in if rc = HRC_XMLLITELIST_OK then flush_elements x else Some (Inr x))))"

definition Parser_Flush :: "cXMLLiteParser \<Rightarrow> cXMLLiteParser result option" where
  "Parser_Flush x =
     (let (rc, l) = XMLList_MoveToTail (m_xmlElements x);
          x = x\<lparr>m_xmlElements := l\<rparr>
      in case (if rc = HRC_XMLLITELIST_OK then flush_elements x else Some (Inr x)) of
           None \<Rightarrow> None
         | Some (Inl f) \<Rightarrow> Some (Inl f)
         | Some (Inr x) \<Rightarrow>
             (case XMLList_Clear (m_xmlElements x) of
                None \<Rightarrow> None
              | Some r \<Rightarrow> Some (rbind r (\<lambda>l. Inr (x\<lparr>m_xmlElements := l\<rparr>)))))"

text \<open>
  \<open>CheckWorkingBuffer\<close>. The first time it allocates \<open>INITAL_WORKING_BUFFER_SIZE\<close> bytes, whatever is
  asked for.
\<close>

definition INITAL_WORKING_BUFFER_SIZE :: int where
  "INITAL_WORKING_BUFFER_SIZE = 1024"

definition CheckWorkingBuffer :: "cXMLLiteParser \<Rightarrow> int \<Rightarrow> cXMLLiteParser result" where
  "CheckWorkingBuffer x iAgainstNewSize =
     (if m_iWorkingBufferSize x = 0 then
        Inr (x\<lparr>m_iWorkingBufferSize := INITAL_WORKING_BUFFER_SIZE,
               m_pWorkingBuffer := Some (replicate (nat INITAL_WORKING_BUFFER_SIZE) None)\<rparr>)
      else if m_iWorkingBufferSize x < iAgainstNewSize then
        let iNewAlloc = iAgainstNewSize * 2
        in rbind (case m_pWorkingBuffer x of
                    None \<Rightarrow> Inl NullPointer
                  | Some blk \<Rightarrow> mem_slice blk 0 (m_iWorkingBufferSize x)) (\<lambda>old.
           rbind (mem_store (replicate (nat iNewAlloc) None) 0 old) (\<lambda>p.
           Inr (x\<lparr>m_pWorkingBuffer := Some p, m_iWorkingBufferSize := iNewAlloc\<rparr>)))
      else Inr x)"

definition working :: "cXMLLiteParser \<Rightarrow> block result" where
  "working x = (case m_pWorkingBuffer x of None \<Rightarrow> Inl NullPointer | Some blk \<Rightarrow> Inr blk)"

text \<open>A call that works in place on \<open>m_pWorkingBuffer\<close>.\<close>

definition on_working :: "cXMLLiteParser \<Rightarrow> (block \<Rightarrow> block result) \<Rightarrow> cXMLLiteParser result" where
  "on_working x f =
     rbind (working x) (\<lambda>blk. rbind (f blk) (\<lambda>blk. Inr (x\<lparr>m_pWorkingBuffer := Some blk\<rparr>)))"

text \<open>\<open>strncpy\<close>: at most \<open>n\<close> characters up to the NUL, and NULs for the rest.\<close>

fun str_take :: "nat \<Rightarrow> block \<Rightarrow> string result" where
  "str_take 0 src = Inr []"
| "str_take (Suc n) [] = Inl OutOfBounds"
| "str_take (Suc n) (None # src) = Inl Indeterminate"
| "str_take (Suc n) (Some c # src) =
     (if c = NUL then Inr [] else rbind (str_take n src) (\<lambda>s. Inr (c # s)))"

definition str_ncpy :: "block \<Rightarrow> block \<Rightarrow> int \<Rightarrow> int \<Rightarrow> block result" where
  "str_ncpy dst src i n =
     (if n < 0 \<or> i < 0 then Inl OutOfBounds
      else rbind (str_take (nat n) (drop (nat i) src)) (\<lambda>s.
           mem_store dst 0 (map Some (s @ replicate (nat n - length s) NUL))))"

text \<open>\<open>strncmp\<close> with a literal of its length finds it equal.\<close>

fun mem_starts :: "block \<Rightarrow> int \<Rightarrow> string \<Rightarrow> bool result" where
  "mem_starts src i [] = Inr True"
| "mem_starts src i (c # cs) =
     rbind (mem_read src i) (\<lambda>d. if d = c then mem_starts src (i + 1) cs else Inr False)"

text \<open>
  The text from \<open>start\<close> to the character at \<open>idx\<close>, copied to the working buffer and terminated, as
  the three places that cut a piece out of the document do it.
\<close>

definition copy_piece :: "block \<Rightarrow> int \<Rightarrow> int \<Rightarrow> cXMLLiteParser \<Rightarrow> cXMLLiteParser result" where
  "copy_piece pszData start idx x =
     rbind (on_working x (\<lambda>blk. str_ncpy blk pszData start (idx - start + 1))) (\<lambda>x.
     on_working x (\<lambda>blk. mem_write blk (idx - start + 1) NUL))"

text \<open>\<open>SplitParam\<close>. A text without \<open>=\<close>, or that starts with it, is no attribute.\<close>

definition split_buffers :: "cXMLLiteParser \<Rightarrow> int \<Rightarrow> cXMLLiteParser" where
  "split_buffers x iBufSize =
     (if m_iSplitBufferNameSize x < iBufSize then
        x\<lparr>m_iSplitBufferNameSize := iBufSize, m_iSplitBufferValueSize := iBufSize,
          m_pSplitBufferName := Some (replicate (nat iBufSize + 1) None),
          m_pSplitBufferValue := Some (replicate (nat iBufSize + 1) None)\<rparr>
      else x)"

definition SplitParam :: "cXMLLiteParser \<Rightarrow> block \<Rightarrow> nat option \<Rightarrow> cXMLLiteParser result" where
  "SplitParam x pBuf pElement =
     rbind (read_cstr pBuf) (\<lambda>s.
     let iFound = (case find_char CHR ''='' s of None \<Rightarrow> 0 | Some i \<Rightarrow> int i)
     in if iFound = 0 then Inr x
        else
          let x = split_buffers x (int (length s))
          in rbind (case m_pSplitBufferName x of None \<Rightarrow> Inl NullPointer | Some b \<Rightarrow> Inr b) (\<lambda>name.
             rbind (case m_pSplitBufferValue x of None \<Rightarrow> Inl NullPointer | Some b \<Rightarrow> Inr b) (\<lambda>val.
             rbind (str_ncpy name pBuf 0 iFound) (\<lambda>name.
             rbind (mem_write name iFound NUL) (\<lambda>name.
             rbind (mem_read pBuf (iFound + 1)) (\<lambda>c.
             let iFound = (if c = SP then iFound + 1 else iFound)
             in rbind (read_cstr_at pBuf (iFound + 1)) (\<lambda>t.
                rbind (mem_store val 0 (cmem t)) (\<lambda>val.
                let i = int (length t)
                in rbind (mem_read val (i - 1)) (\<lambda>c.
                   rbind (if c = CR then mem_write val (i - 1) NUL else Inr val) (\<lambda>val.
                   rbind (TransformXMLEntities val) (\<lambda>val.
                   let x = x\<lparr>m_pSplitBufferName := Some name, m_pSplitBufferValue := Some val\<rparr>
                   in on_element x pElement (\<lambda>e. AddAttributePair e name val))))))))))))"

section \<open>The state machine\<close>

datatype xml_state = stTagScan | stTagBegin | stTagProcess | stTagEnd

text \<open>The local variables of \<open>Parse\<close>.\<close>

record parse_locals =
  pl_idx :: int
  inQoute :: bool
  iTagMarkStart :: int
  iAttribMarkStart :: int
  iScanMarkStart :: int
  iState :: xml_state
  iLastState :: xml_state
  pElement :: "nat option"

definition parse_start :: parse_locals where
  "parse_start =
     \<lparr>pl_idx = 0, inQoute = False, iTagMarkStart = 0, iAttribMarkStart = 0, iScanMarkStart = 0,
      iState = stTagScan, iLastState = stTagScan, pElement = None\<rparr>"

type_synonym parse_state = "cXMLLiteParser \<times> parse_locals"

text \<open>
  What stands before the \<open>switch\<close>: a comment is passed over, which is \<open>Inl\<close>; otherwise the
  characters that open and close a tag change the state.
\<close>

definition skip_comment :: "block \<Rightarrow> parse_state \<Rightarrow> parse_state option result" where
  "skip_comment pszData = (\<lambda>(x, l).
     rbind (mem_starts pszData (pl_idx l) ''<!--'') (\<lambda>comment.
     if \<not> comment then Inr None
     else rbind (read_cstr_at pszData (pl_idx l)) (\<lambda>s.
          (case find_sub ''-->'' s of
             None \<Rightarrow> Inr None
           | Some k \<Rightarrow>
               let l = l\<lparr>pl_idx := pl_idx l + int k + 3, iState := stTagScan\<rparr>
               in rbind (case m_pWorkingBuffer x of
                           None \<Rightarrow> Inr x
                         | Some _ \<Rightarrow> on_working x (\<lambda>blk. mem_write blk 0 NUL)) (\<lambda>x.
                  Inr (Some (x, l)))))))"

definition tag_state :: "block \<Rightarrow> char \<Rightarrow> parse_locals \<Rightarrow> parse_locals result" where
  "tag_state pszData ch l =
     rbind (if ch = CHR ''<'' then
              rbind (mem_starts pszData (pl_idx l) ''<![CDATA'') (\<lambda>cdata.
              Inr (l\<lparr>iLastState := iState l, iState := (if cdata then stTagEnd else stTagBegin)\<rparr>))
            else Inr l) (\<lambda>l.
     Inr (if ch = CHR ''>'' then l\<lparr>iLastState := iState l, iState := stTagEnd\<rparr> else l))"

text \<open>The text between the last tag and this one becomes the value of the last element.\<close>

definition store_value :: "parse_state \<Rightarrow> cXMLLiteParser result" where
  "store_value = (\<lambda>(x, l).
     let n = pl_idx l - iScanMarkStart l
     in if iScanMarkStart l > 0 \<and> iLastState l = stTagScan \<and> n > 0 then
          rbind (CheckWorkingBuffer x (n + 1)) (\<lambda>x.
          rbind (on_working x (\<lambda>blk. mem_write blk n NUL)) (\<lambda>x.
          rbind (on_working x StripLeading) (\<lambda>x.
          rbind (on_working x StripTrailing) (\<lambda>x.
          rbind (rbind (working x) (\<lambda>blk. mem_read blk 0)) (\<lambda>c.
          if c \<noteq> NUL \<and> pElement l \<noteq> None then
            rbind (on_working x TransformXMLEntities) (\<lambda>x.
            rbind (working x) (\<lambda>blk. on_element x (pElement l) (\<lambda>e. SetElementValue e blk)))
          else Inr x)))))
        else Inr x)"

definition tag_begin :: "parse_state \<Rightarrow> parse_state result" where
  "tag_begin = (\<lambda>(x, l).
     rbind (store_value (x, l)) (\<lambda>x.
     rbind (GetNewEntry x) (\<lambda>(a, x).
     Inr (x, l\<lparr>pElement := Some a, iScanMarkStart := 0, iTagMarkStart := pl_idx l,
               iLastState := iState l, iState := stTagProcess, pl_idx := pl_idx l + 1\<rparr>))))"

text \<open>A piece of the document as an attribute of the current element.\<close>

definition add_attribute :: "block \<Rightarrow> parse_state \<Rightarrow> cXMLLiteParser result" where
  "add_attribute pszData = (\<lambda>(x, l).
     rbind (copy_piece pszData (iAttribMarkStart l) (pl_idx l) x) (\<lambda>x.
     rbind (on_working x CleanInput) (\<lambda>x.
     rbind (working x) (\<lambda>blk.
     rbind (mem_read blk 0) (\<lambda>c.
     if c \<noteq> NUL then SplitParam x blk (pElement l) else Inr x)))))"

definition tag_process :: "block \<Rightarrow> char \<Rightarrow> parse_state \<Rightarrow> parse_state result" where
  "tag_process pszData ch = (\<lambda>(x, l).
     let l = (if ch = CHR 0x22 then l\<lparr>inQoute := \<not> inQoute l\<rparr> else l)
     in rbind
          (if ch = SP \<and> iAttribMarkStart l = 0 then Inr (x, l\<lparr>iAttribMarkStart := pl_idx l\<rparr>)
           else if (ch = SP \<or> ch = TAB) \<and> \<not> inQoute l then
             rbind (CheckWorkingBuffer x (pl_idx l - iAttribMarkStart l + 1)) (\<lambda>x.
             rbind (add_attribute pszData (x, l)) (\<lambda>x.
             Inr (x, l\<lparr>iAttribMarkStart := iAttribMarkStart l + (pl_idx l - iAttribMarkStart l)\<rparr>)))
           else Inr (x, l)) (\<lambda>(x, l).
        Inr (x, l\<lparr>pl_idx := pl_idx l + 1\<rparr>)))"

text \<open>
  The block of a CDATA section as data of the element. The length that is passed on from is the one
  that the name of the section was already taken off, so that the parser goes on two characters
  behind the section, from the next \<open><\<close> there.
\<close>

definition cdata_section :: "block \<Rightarrow> parse_state \<Rightarrow> parse_state option result" where
  "cdata_section pszData = (\<lambda>(x, l).
     if pElement l = None then Inr None
     else rbind (mem_starts pszData (pl_idx l) ''<![CDATA'') (\<lambda>cdata.
          if \<not> cdata then Inr None
          else rbind (read_cstr_at pszData (pl_idx l)) (\<lambda>s.
               (case find_sub '']]>'' s of
                  None \<Rightarrow> Inr None
                | Some k \<Rightarrow>
                    let iSize = int k - 1 - 8
                    in rbind (on_element x (pElement l) (\<lambda>e.
                         SetElementCDATA e (drop (nat (pl_idx l + 9)) pszData) iSize)) (\<lambda>x.
                       let idx = pl_idx l + (iSize + 9 + 3 + 2)
                       in rbind (read_cstr_at pszData idx) (\<lambda>s.
                          let idx = (case find_sub ''<'' s of None \<Rightarrow> idx | Some j \<Rightarrow> idx + int j)
                          in Inr (Some (x, l\<lparr>iState := stTagBegin, pl_idx := idx\<rparr>))))))))"

text \<open>The name of the element, in the working buffer; whether the tag ends with a slash.\<close>

definition tag_name :: "block \<Rightarrow> parse_state \<Rightarrow> (bool \<times> cXMLLiteParser) result" where
  "tag_name pszData = (\<lambda>(x, l).
     rbind (CheckWorkingBuffer x (pl_idx l - iTagMarkStart l + 1)) (\<lambda>x.
     rbind (copy_piece pszData (iTagMarkStart l) (pl_idx l) x) (\<lambda>x.
     rbind (working x) (\<lambda>blk.
     rbind (read_cstr blk) (\<lambda>s.
     rbind (mem_read blk (int (length s) - 2)) (\<lambda>c.
     let hasShortTerminator = (c = CHR ''/'')
     in rbind (on_working x CleanInput) (\<lambda>x.
        rbind (if pElement l = None then Inr x
               else rbind (on_working x (\<lambda>blk. TerminateAtChar blk SP)) (\<lambda>x.
                    rbind (if hasShortTerminator then on_working x (\<lambda>blk. TerminateAtChar blk CHR ''/'')
                           else Inr x) (\<lambda>x.
                    rbind (working x) (\<lambda>blk. on_element x (pElement l) (\<lambda>e. SetElementName e blk))))) (\<lambda>x.
        Inr (hasShortTerminator, x)))))))))"

definition tag_end :: "block \<Rightarrow> parse_state \<Rightarrow> parse_state result" where
  "tag_end pszData = (\<lambda>(x, l).
     rbind (cdata_section pszData (x, l)) (\<lambda>r.
     (case r of
        Some s \<Rightarrow> Inr s
      | None \<Rightarrow>
          rbind (tag_name pszData (x, l)) (\<lambda>(hasShortTerminator, x).
          rbind (if iAttribMarkStart l \<noteq> 0 then
                   rbind (add_attribute pszData (x, l)) (\<lambda>x. Inr (x, l\<lparr>iAttribMarkStart := 0\<rparr>))
                 else Inr (x, l)) (\<lambda>(x, l).
          rbind (if pElement l \<noteq> None \<and> hasShortTerminator then
                   rbind (GetNewEntry x) (\<lambda>(a, x).
                   rbind (on_element x (Some a) (\<lambda>e. SetElementName e (cmem ''/>''))) (\<lambda>x.
                   Inr (x, l\<lparr>pElement := Some a\<rparr>)))
                 else Inr (x, l)) (\<lambda>(x, l).
          Inr (x, l\<lparr>iTagMarkStart := 0, iLastState := iState l, iState := stTagScan,
                    iScanMarkStart := pl_idx l + 1, pl_idx := pl_idx l + 1\<rparr>)))))))"

definition tag_scan :: "char \<Rightarrow> parse_state \<Rightarrow> parse_state result" where
  "tag_scan ch = (\<lambda>(x, l).
     let n = pl_idx l - iScanMarkStart l
     in rbind (if n + 1 > m_iWorkingBufferSize x then CheckWorkingBuffer x (n + 1) else Inr x) (\<lambda>x.
        rbind (on_working x (\<lambda>blk. mem_write blk n ch)) (\<lambda>x.
        Inr (x, l\<lparr>pl_idx := pl_idx l + 1\<rparr>))))"

definition parse_char :: "block \<Rightarrow> char \<Rightarrow> parse_state \<Rightarrow> parse_state result" where
  "parse_char pszData ch = (\<lambda>(x, l).
     rbind (if ch = CHR ''<'' then skip_comment pszData (x, l) else Inr None) (\<lambda>r.
     (case r of
        Some s \<Rightarrow> Inr s
      | None \<Rightarrow>
          rbind (tag_state pszData ch l) (\<lambda>l.
          (case iState l of
             stTagBegin \<Rightarrow> tag_begin (x, l)
           | stTagProcess \<Rightarrow> tag_process pszData ch (x, l)
           | stTagEnd \<Rightarrow> tag_end pszData (x, l)
           | stTagScan \<Rightarrow> tag_scan ch (x, l))))))"

text \<open>Every pass moves on in the document, so that the loop ends.\<close>

lemma skip_comment_progress: "skip_comment src (x, l) = Inr (Some (x', l')) \<Longrightarrow> pl_idx l < pl_idx l'"
  by (auto simp: skip_comment_def rbind_eq_Inr Let_def split: option.splits if_splits)

lemma tag_state_idx: "tag_state src ch l = Inr l' \<Longrightarrow> pl_idx l' = pl_idx l"
  unfolding tag_state_def by (auto elim!: rbind_InrE split: if_splits)

lemma tag_begin_progress: "tag_begin (x, l) = Inr (x', l') \<Longrightarrow> pl_idx l < pl_idx l'"
  unfolding tag_begin_def by (auto elim!: rbind_InrE)

lemma tag_process_progress:
  assumes "tag_process src ch (x, l) = Inr (x', l')" shows "pl_idx l < pl_idx l'"
proof -
  define l1 where "l1 = (if ch = CHR 0x22 then l\<lparr>inQoute := \<not> inQoute l\<rparr> else l)"
  have l1: "pl_idx l1 = pl_idx l" by (simp add: l1_def)
  show ?thesis
    using assms l1 unfolding tag_process_def Let_def l1_def [symmetric]
    by (auto elim!: rbind_InrE split: if_splits)
qed

lemma cdata_section_progress: "cdata_section src (x, l) = Inr (Some (x', l')) \<Longrightarrow> pl_idx l < pl_idx l'"
  by (auto simp: cdata_section_def rbind_eq_Inr Let_def split: option.splits if_splits)

lemma tag_end_progress:
  assumes "tag_end src (x, l) = Inr (x', l')" shows "pl_idx l < pl_idx l'"
proof -
  from assms obtain r where r: "cdata_section src (x, l) = Inr r"
    by (auto simp: tag_end_def elim: rbind_InrE)
  show ?thesis
  proof (cases r)
    case None
    then show ?thesis using assms r
      by (simp add: tag_end_def) (elim rbind_InrE, auto elim!: rbind_InrE split: if_splits)
  next
    case (Some s)
    then have "s = (x', l')" using assms r by (simp add: tag_end_def)
    with r Some show ?thesis using cdata_section_progress by blast
  qed
qed

lemma tag_scan_progress: "tag_scan ch (x, l) = Inr (x', l') \<Longrightarrow> pl_idx l < pl_idx l'"
  by (auto simp: tag_scan_def rbind_eq_Inr Let_def)

lemma parse_char_progress:
  assumes "parse_char src ch (x, l) = Inr (x', l')" shows "pl_idx l < pl_idx l'"
proof -
  from assms obtain r where r: "(if ch = CHR ''<'' then skip_comment src (x, l) else Inr None) = Inr r"
    by (simp add: parse_char_def rbind_eq_Inr del: if_split) blast
  show ?thesis
  proof (cases r)
    case None
    with assms r obtain l1 where l1: "tag_state src ch l = Inr l1"
      by (auto simp: parse_char_def elim: rbind_InrE)
    have "pl_idx l1 < pl_idx l'"
      using assms unfolding parse_char_def prod.case r None rbind.simps option.case l1
      by (cases "iState l1")
        (auto dest: tag_begin_progress tag_process_progress tag_end_progress tag_scan_progress)
    then show ?thesis using tag_state_idx [OF l1] by simp
  next
    case (Some s)
    then have "s = (x', l')" using assms r unfolding parse_char_def prod.case r by simp
    with r Some show ?thesis by (auto dest: skip_comment_progress split: if_splits)
  qed
qed

function parse_loop :: "block \<Rightarrow> parse_state \<Rightarrow> cXMLLiteParser result" where
  "parse_loop pszData s =
     (case mem_read pszData (pl_idx (snd s)) of
        Inl e \<Rightarrow> Inl e
      | Inr ch \<Rightarrow>
          if ch = NUL then Inr (fst s)
          else (case parse_char pszData ch s of Inl e \<Rightarrow> Inl e | Inr s \<Rightarrow> parse_loop pszData s))"
  by pat_completeness auto

termination
proof (relation "measure (\<lambda>(src, s). nat (int (length src) - pl_idx (snd s)))", goal_cases)
  case (2 src s ch s')
  then show ?case
    using parse_char_progress [of src ch "fst s" "snd s" "fst s'" "snd s'"] mem_read_bound [OF 2(1)] by simp
qed simp

declare parse_loop.simps [simp del]

definition Parse :: "cXMLLiteParser \<Rightarrow> block \<Rightarrow> (int \<times> cXMLLiteParser) result option" where
  "Parse x pszData =
     (case Parser_Flush x of
        None \<Rightarrow> None
      | Some r \<Rightarrow>
          Some (rbind r (\<lambda>x. rbind (parse_loop pszData (x, parse_start)) (\<lambda>x. Inr (HRC_XMLLITEPARSER_OK, x)))))"

section \<open>The elements of the document\<close>

definition GetCurrentNodeHandle :: "cXMLLiteParser \<Rightarrow> nat option" where
  "GetCurrentNodeHandle x = m_pCurrent (m_xmlElements x)"

definition Parser_MoveHead :: "cXMLLiteParser \<Rightarrow> int \<times> cXMLLiteParser" where
  "Parser_MoveHead x =
     (let (rc, l) = XMLList_MoveToHead (m_xmlElements x)
      in (if rc = HRC_XMLLITELIST_OK then HRC_XMLLITEPARSER_OK else HRC_XMLLITEPARSER_EMPTY,
          x\<lparr>m_xmlElements := l\<rparr>))"

definition Parser_MoveNext :: "cXMLLiteParser \<Rightarrow> (int \<times> cXMLLiteParser) result" where
  "Parser_MoveNext x =
     rbind (XMLList_MoveNext (m_xmlElements x)) (\<lambda>(rc, l). Inr (parser_code rc, x\<lparr>m_xmlElements := l\<rparr>))"

definition Parser_MoveToNode :: "cXMLLiteParser \<Rightarrow> nat option \<Rightarrow> int \<times> cXMLLiteParser" where
  "Parser_MoveToNode x handle =
     (let (rc, l) = XMLList_MoveToNode (m_xmlElements x) handle in (rc, x\<lparr>m_xmlElements := l\<rparr>))"

definition GetElement :: "cXMLLiteParser \<Rightarrow> nat option result" where
  "GetElement x = XMLList_GetData (m_xmlElements x)"

text \<open>The name of the element that a pointer from the list refers to, as \<open>strcmp\<close> sees it.\<close>

definition name_at :: "cXMLLiteParser \<Rightarrow> nat \<Rightarrow> string option result" where
  "name_at x a =
     rbind (x_get x (Some a)) (\<lambda>e.
     (case GetElementName e of
        None \<Rightarrow> Inr None
      | Some p \<Rightarrow> rbind (read_cstr p) (\<lambda>t. Inr (Some t))))"

text \<open>
  The loops of \<open>FindTag\<close> and \<open>FindNextTag\<close>. The result of a search is the element, and whether the
  search was given up at an element named \<open>pNot\<close>, which leaves the cursor where it is.
\<close>

datatype find_result = Found nat | Stopped | NotFound

partial_function (option) find_loop ::
  "string \<Rightarrow> string option \<Rightarrow> cXMLLiteParser \<Rightarrow> (find_result \<times> cXMLLiteParser) result option" where
  "find_loop pTag pNot x =
     (case rbind (XMLList_GetData (m_xmlElements x)) (\<lambda>d.
           (case d of
              None \<Rightarrow> Inr None
            | Some a \<Rightarrow> rbind (name_at x a) (\<lambda>p.
                Inr (if p \<noteq> None \<and> pNot \<noteq> None \<and> p = pNot then Some Stopped
                     else if p = Some pTag then Some (Found a) else None)))) of
        Inl f \<Rightarrow> Some (Inl f)
      | Inr (Some r) \<Rightarrow> Some (Inr (r, x))
      | Inr None \<Rightarrow>
          (case XMLList_MoveNext (m_xmlElements x) of
             Inl f \<Rightarrow> Some (Inl f)
           | Inr (rc, l) \<Rightarrow>
               let x = x\<lparr>m_xmlElements := l\<rparr>
               in if rc = HRC_XMLLITELIST_OK then find_loop pTag pNot x else Some (Inr (NotFound, x))))"

definition find_end :: "find_result \<times> cXMLLiteParser \<Rightarrow> (nat option \<times> cXMLLiteParser) result" where
  "find_end = (\<lambda>(r, x).
     (case r of
        Found a \<Rightarrow> Inr (Some a, x)
      | Stopped \<Rightarrow> Inr (None, x)
      | NotFound \<Rightarrow> rbind (RestorePos (m_xmlElements x)) (\<lambda>l. Inr (None, x\<lparr>m_xmlElements := l\<rparr>))))"

definition FindTag :: "cXMLLiteParser \<Rightarrow> string \<Rightarrow> (nat option \<times> cXMLLiteParser) result option" where
  "FindTag x pTag =
     (let (rc, l) = XMLList_MoveToHead (SavePos (m_xmlElements x));
          x = x\<lparr>m_xmlElements := l\<rparr>
      in map_option (\<lambda>r. rbind r find_end)
           (if rc = HRC_XMLLITELIST_OK then find_loop pTag None x else Some (Inr (NotFound, x))))"

definition FindNextTag ::
  "cXMLLiteParser \<Rightarrow> string \<Rightarrow> string option \<Rightarrow> (nat option \<times> cXMLLiteParser) result option" where
  "FindNextTag x pTag pNot =
     (case XMLList_MoveNext (SavePos (m_xmlElements x)) of
        Inl f \<Rightarrow> Some (Inl f)
      | Inr (_, l) \<Rightarrow>
          map_option (\<lambda>r. rbind r find_end) (find_loop pTag pNot (x\<lparr>m_xmlElements := l\<rparr>)))"

end
