(* ===== verification/XmlTextLaws.thy ===== *)
theory XmlTextLaws
  imports XmlText
begin

text \<open>
  What the text functions of the XML parser compute: on a block that holds a C string each leaves a
  C string in a block of the same size, the value of a function of the text: \<open>kept\<close> (characters
  dropped), \<open>dropWhile\<close> and \<open>rstrip\<close> (blanks), \<open>unquote\<close> (quotation marks), \<open>clean\<close> (all of these),
  \<open>xml_decode\<close> (entities).
\<close>

text \<open>\<open>cblock blk n s\<close>: the block has \<open>n\<close> bytes and starts with the C string \<open>s\<close>.\<close>

definition cblock :: "block \<Rightarrow> nat \<Rightarrow> string \<Rightarrow> bool" where
  "cblock blk n s \<longleftrightarrow> length blk = n \<and> read_cstr blk = Inr s"

lemma cblock_iff:
  "cblock blk n s \<longleftrightarrow>
     NUL \<notin> set s \<and> (\<exists>r. blk = map Some s @ Some NUL # r \<and> n = Suc (length s + length r))"
  by (auto simp: cblock_def read_cstr_iff)

lemma cblock_text: "NUL \<notin> set s \<Longrightarrow> n = Suc (length s + length r) \<Longrightarrow> cblock (map Some s @ Some NUL # r) n s"
  by (simp add: cblock_iff)

lemma cblock_first:
  "cblock blk n s \<Longrightarrow> mem_read blk 0 = Inr (case s of [] \<Rightarrow> NUL | c # _ \<Rightarrow> c)"
  by (cases s) (auto simp: cblock_iff mem_read_def)

lemma cblock_first_NUL:
  "cblock blk n s \<Longrightarrow> \<exists>c. mem_read blk 0 = Inr c \<and> (c = NUL \<longleftrightarrow> s = [])"
  by (cases s) (auto simp: cblock_iff mem_read_def)

lemma read_at: "n = length u \<Longrightarrow> mem_read (u @ Some c # r) (int n) = Inr c"
  by (simp add: mem_read_def)

lemma write_NUL:
  "i \<le> length s \<Longrightarrow> NUL \<notin> set s \<Longrightarrow>
     \<exists>blk. mem_write (map Some s @ Some NUL # r) (int i) NUL = Inr blk \<and>
       cblock blk (Suc (length s + length r)) (take i s)"
proof -
  assume i: "i \<le> length s" and s: "NUL \<notin> set s"
  let ?b = "map Some (take i s) @ map Some (drop i s) @ Some NUL # r"
  have eq: "map Some s @ Some NUL # r = ?b"
    by (metis append.assoc append_take_drop_id map_append)
  obtain x xs where x: "map Some (drop i s) @ Some NUL # r = x # xs" by (cases "drop i s") auto
  then have l: "length xs = length s - i + length r" using i by (metis add_diff_cancel_left' length_Cons
      length_append length_drop length_map plus_1_eq_Suc add_Suc_right)
  have "mem_write (map Some s @ Some NUL # r) (int i) NUL = Inr (map Some (take i s) @ Some NUL # xs)"
    using i unfolding eq x by (simp add: mem_write_def list_update_append)
  moreover have "NUL \<notin> set (take i s)" using s in_set_takeD by fast
  ultimately show ?thesis using i l by (auto simp: cblock_iff)
qed

section \<open>Characters that are dropped\<close>

fun kept :: "bool \<Rightarrow> string \<Rightarrow> string" where
  "kept q [] = []"
| "kept q (c # cs) =
     (let q = (if is_quote c then \<not> q else q)
      in if is_dropped c \<or> \<not> q \<and> c = CHR ''?'' then kept q cs else c # kept q cs)"

lemma kept_length: "length (kept q s) \<le> length s"
  by (induction q s rule: kept.induct) (auto simp: Let_def le_SucI)

lemma kept_no_NUL: "NUL \<notin> set s \<Longrightarrow> NUL \<notin> set (kept q s)"
  by (induction q s rule: kept.induct) (auto simp: Let_def)

lemma strip_chars_spec:
  "NUL \<notin> set (out @ mid @ s) \<Longrightarrow>
   \<exists>r'. length r' + length (out @ kept q s) = length r + length (out @ mid @ s) \<and>
     strip_chars (map Some (out @ mid @ s) @ Some NUL # r) (int (length (out @ mid))) (int (length out)) q =
       Inr (map Some (out @ kept q s) @ Some NUL # r', int (length (out @ kept q s)) + 1)"
proof (induction s arbitrary: out mid q)
  case Nil
  let ?b = "map Some (out @ mid) @ Some NUL # r"
  have rd: "mem_read ?b (int (length (out @ mid))) = Inr NUL"
    by (rule read_at) simp
  have rc: "read_cstr ?b = Inr (out @ mid)" using Nil by (intro read_cstr_append) simp
  have q: "\<not> is_quote NUL" "\<not> is_dropped NUL" by (simp_all add: is_quote_def is_dropped_def)
  obtain b' where b': "mem_write ?b (int (length out)) NUL = Inr b'" "cblock b' (length ?b) out"
    using write_NUL [of "length out" "out @ mid" r] Nil by (auto simp: ac_simps)
  then obtain r' where r': "b' = map Some out @ Some NUL # r'" "length r' = length mid + length r"
    by (auto simp: cblock_iff)
  have n: "NUL \<notin> set out" using Nil by simp
  have "strip_chars ?b (int (length (out @ mid))) (int (length out)) q =
      strip_chars b' (int (length (out @ mid)) + 1) (int (length out) + 1) q"
    using rd q b'(1) rc by (subst strip_chars.simps) (simp add: Let_def)
  also have "\<dots> = Inr (b', int (length out) + 1)"
    using n r'(1) by (subst strip_chars.simps) (simp add: mem_simps)
  finally show ?case using r' by auto
next
  case (Cons c s)
  let ?b = "map Some (out @ mid @ c # s) @ Some NUL # r"
  let ?q = "if is_quote c then \<not> q else q"
  have rc: "read_cstr ?b = Inr (out @ mid @ c # s)"
    using Cons.prems by (intro read_cstr_append) simp
  have rd: "mem_read ?b (int (length (out @ mid))) = Inr c"
    using read_at [of "length (out @ mid)" "map Some (out @ mid)" c "map Some s @ Some NUL # r"] by simp
  show ?case
  proof (cases "is_dropped c \<or> \<not> ?q \<and> c = CHR ''?''")
    case True
    then have "strip_chars ?b (int (length (out @ mid))) (int (length out)) q =
        strip_chars (map Some (out @ (mid @ [c]) @ s) @ Some NUL # r)
          (int (length (out @ (mid @ [c])))) (int (length out)) ?q"
      using rc rd by (subst strip_chars.simps) (auto simp: Let_def add.commute)
    moreover have "kept q (c # s) = kept ?q s" using True by (simp add: Let_def)
    ultimately show ?thesis using Cons.IH [of out "mid @ [c]" ?q] Cons.prems by auto
  next
    case False
    define mid' where "mid' = (if mid = [] then [] else tl mid @ [c])"
    have len: "length (out @ [c] @ mid') = Suc (length (out @ mid))"
      by (cases mid) (simp_all add: mid'_def)
    have w: "mem_write ?b (int (length out)) c = Inr (map Some ((out @ [c]) @ mid' @ s) @ Some NUL # r)"
      by (cases mid) (simp_all add: mem_write_def mid'_def list_update_append)
    have "strip_chars ?b (int (length (out @ mid))) (int (length out)) q =
        strip_chars (map Some ((out @ [c]) @ mid' @ s) @ Some NUL # r)
          (int (length ((out @ [c]) @ mid'))) (int (length (out @ [c]))) ?q"
      using rc rd w False len by (subst strip_chars.simps) (auto simp: Let_def add.commute)
    moreover have "kept q (c # s) = c # kept ?q s" using False by (simp add: Let_def)
    moreover have "NUL \<notin> set ((out @ [c]) @ mid' @ s)"
      using Cons.prems by (cases mid) (auto simp: mid'_def)
    ultimately show ?thesis using Cons.IH [of "out @ [c]" mid' ?q] len by auto
  qed
qed

text \<open>
  After its loop \<open>StripChars\<close> writes a second NUL, one past the one that was copied: the block must
  have a byte more than the string, or the string must have lost a character.
\<close>

lemma StripChars_spec:
  assumes b: "cblock blk n s" and room: "Suc (length s) < n \<or> length (kept False s) < length s"
  shows "\<exists>blk'. StripChars blk = Inr blk' \<and> cblock blk' n (kept False s)"
proof -
  from b obtain r where r: "blk = map Some s @ Some NUL # r" "NUL \<notin> set s" "n = Suc (length s + length r)"
    by (auto simp: cblock_iff)
  from strip_chars_spec [of "[]" "[]" s False r] r obtain r'
    where r': "length r' + length (kept False s) = length r + length s"
      "strip_chars blk 0 0 False = Inr (map Some (kept False s) @ Some NUL # r', int (length (kept False s)) + 1)"
    by auto
  have "r' \<noteq> []" using room r r'(1) kept_length [of False s] by auto
  then obtain x xs where x: "r' = x # xs" by (cases r') auto
  have "mem_write (map Some (kept False s) @ Some NUL # r') (int (length (kept False s)) + 1) NUL =
      Inr (map Some (kept False s) @ Some NUL # Some NUL # xs)"
    by (simp add: mem_write_def x list_update_append nat_add_distrib)
  moreover have "cblock (map Some (kept False s) @ Some NUL # Some NUL # xs) n (kept False s)"
    using kept_no_NUL [OF r(2)] r(3) r'(1) x by (intro cblock_text) auto
  ultimately show ?thesis using r'(2) by (simp add: StripChars_def)
qed

lemma StripChars_overflow:
  assumes b: "cblock blk n s" and full: "n = Suc (length s)" "kept False s = s"
  shows "StripChars blk = Inl OutOfBounds"
proof -
  from b full(1) have r: "blk = map Some s @ [Some NUL]" "NUL \<notin> set s" by (auto simp: cblock_iff)
  with strip_chars_spec [of "[]" "[]" s False "[]"] full(2)
  have "strip_chars blk 0 0 False = Inr (map Some s @ [Some NUL], int (length s) + 1)" by simp
  then show ?thesis by (simp add: StripChars_def mem_write_def)
qed

section \<open>Blanks at the ends\<close>

lemma mem_move_down:
  assumes "NUL \<notin> set s" "k \<le> length s"
  shows "\<exists>r'. mem_move (map Some s @ Some NUL # r) 0 (int k) (int (length s) - int k) = Inr (map Some (drop k s) @ r') \<and>
    length r' = Suc (k + length r)"
proof (cases "k = length s")
  case True
  then show ?thesis by (simp add: mem_move_def mem_slice_def mem_store_def)
next
  case False
  then have k: "k < length s" using assms(2) by simp
  let ?b = "map Some s @ Some NUL # r"
  have "mem_slice ?b (int k) (int (length s) - int k) = Inr (map Some (drop k s))"
    using k by (simp add: mem_simps drop_map nat_diff_distrib')
  then have "mem_move ?b 0 (int k) (int (length s) - int k) =
      Inr (map Some (drop k s) @ drop (length s - k) ?b)"
    using k by (simp add: mem_move_def mem_simps)
  then show ?thesis using k by simp
qed

lemma strip_leading_spec:
  assumes b: "cblock blk n s"
  shows "\<exists>blk'. strip_leading P blk = Inr blk' \<and> cblock blk' n (dropWhile P s)"
proof -
  define k where "k = length (takeWhile P s)"
  have d: "dropWhile P s = drop k s" unfolding k_def by (rule dropWhile_eq_drop)
  have k: "k \<le> length s" unfolding k_def by (rule length_takeWhile_le)
  from b obtain r where r: "blk = map Some s @ Some NUL # r" "NUL \<notin> set s" "n = Suc (length s + length r)"
    by (auto simp: cblock_iff)
  from mem_move_down [OF r(2) k, of r] obtain r'
    where r': "mem_move blk 0 (int k) (int (length s) - int k) = Inr (map Some (drop k s) @ r')"
      "length r' = Suc (k + length r)" using r(1) by auto
  obtain x xs where x: "r' = x # xs" using r'(2) by (cases r') auto
  have i: "int (length s) - int k = int (length (drop k s))" using k by simp
  have w: "mem_write (map Some (drop k s) @ r') (int (length s) - int k) NUL =
      Inr (map Some (drop k s) @ Some NUL # xs)"
    unfolding i x by (simp only: mem_write_def) (simp add: list_update_append del: length_drop)
  have "cblock (map Some (drop k s) @ Some NUL # xs) n (drop k s)"
    using r(2,3) r'(2) x k in_set_dropD [of NUL k s] by (intro cblock_text) auto
  moreover have "read_cstr blk = Inr s" using b by (simp add: cblock_def)
  ultimately show ?thesis
    using r'(1) w unfolding d by (simp add: strip_leading_def Let_def k_def [symmetric])
qed

text \<open>\<open>rstrip P s\<close>: trailing characters are taken off, but never the first one.\<close>

definition rstrip :: "(char \<Rightarrow> bool) \<Rightarrow> string \<Rightarrow> string" where
  "rstrip P s = (case s of [] \<Rightarrow> [] | c # cs \<Rightarrow> c # rev (dropWhile P (rev cs)))"

lemma rstrip_snoc: "s \<noteq> [] \<Longrightarrow> rstrip P (s @ [c]) = (if P c then rstrip P s else s @ [c])"
  by (cases s) (simp_all add: rstrip_def)

lemma set_rstrip: "set (rstrip P s) \<subseteq> set s"
  by (cases s) (auto simp: rstrip_def dest: set_dropWhileD)

lemma strip_back_spec:
  "length s = Suc i \<Longrightarrow> cblock blk n s \<Longrightarrow>
     \<exists>blk'. strip_back P blk i = Inr blk' \<and> cblock blk' n (rstrip P s)"
proof (induction i arbitrary: s blk)
  case 0
  then show ?case by (cases s) (simp_all add: rstrip_def)
next
  case (Suc i)
  from Suc.prems(1) obtain t c where s: "s = t @ [c]" "length t = Suc i" by (cases s rule: rev_cases) auto
  from Suc.prems(2) obtain r where r: "blk = map Some s @ Some NUL # r" "NUL \<notin> set s" "n = Suc (length s + length r)"
    by (auto simp: cblock_iff)
  have rd: "mem_read blk (int (Suc i)) = Inr c"
    unfolding r(1) s(1) using read_at [of "Suc i" "map Some t" c "Some NUL # r"] s(2) by simp
  have "t \<noteq> []" using s(2) by auto
  note rs = rstrip_snoc [OF this, of P c]
  show ?case
  proof (cases "P c")
    case True
    obtain blk' where w: "mem_write blk (int (Suc i)) NUL = Inr blk'" "cblock blk' n (take (Suc i) s)"
      using write_NUL [of "Suc i" s r] r s(2) Suc.prems(1) by auto
    have "take (Suc i) s = t" using s by simp
    with Suc.IH [OF s(2)] w(2) show ?thesis using rd w(1) True rs s(1) by simp
  next
    case False
    then show ?thesis using rd rs s(1) Suc.prems(2) by simp
  qed
qed

lemma strip_trailing_spec:
  assumes "cblock blk n s"
  shows "\<exists>blk'. strip_trailing P blk = Inr blk' \<and> cblock blk' n (rstrip P s)"
proof -
  have "read_cstr blk = Inr s" using assms by (simp add: cblock_def)
  then show ?thesis
    using assms strip_back_spec [of s "length s - 1" blk n P]
    by (cases s) (simp_all add: strip_trailing_def rstrip_def)
qed

section \<open>Quotation marks\<close>

text \<open>
  \<open>before_last t\<close>: what is before the last quotation mark, the first character apart; nothing where
  there is no such mark. \<open>unquote\<close> takes the first mark out and cuts at the last one.
\<close>

fun before_last :: "string \<Rightarrow> string" where
  "before_last [] = []"
| "before_last (c # cs) =
     (case dropWhile (\<lambda>c. \<not> is_quote c) (rev cs) of [] \<Rightarrow> [] | _ # d \<Rightarrow> c # rev d)"

definition unquote :: "string \<Rightarrow> string" where
  "unquote s =
     (case dropWhile (\<lambda>c. \<not> is_quote c) s of
        [] \<Rightarrow> s
      | _ # v \<Rightarrow> before_last (takeWhile (\<lambda>c. \<not> is_quote c) s @ v))"

lemma before_last_none: "\<forall>c \<in> set cs. \<not> is_quote c \<Longrightarrow> before_last (c # cs) = []"
proof -
  assume "\<forall>c \<in> set cs. \<not> is_quote c"
  then have "dropWhile (\<lambda>c. \<not> is_quote c) (rev cs) = []" by simp
  then show "before_last (c # cs) = []" by (simp only: before_last.simps list.case)
qed

lemma before_last_some:
  "u \<noteq> [] \<Longrightarrow> is_quote q \<Longrightarrow> \<forall>c \<in> set v. \<not> is_quote c \<Longrightarrow> before_last (u @ q # v) = u"
  by (cases u) (auto simp: dropWhile_append)

lemma unquote_none: "\<forall>c \<in> set s. \<not> is_quote c \<Longrightarrow> unquote s = s"
proof -
  assume "\<forall>c \<in> set s. \<not> is_quote c"
  then have "dropWhile (\<lambda>c. \<not> is_quote c) s = []" by simp
  then show "unquote s = s" by (simp only: unquote_def list.case)
qed

lemma unquote_pair:
  "a @ v \<noteq> [] \<Longrightarrow> is_quote q \<Longrightarrow> is_quote q' \<Longrightarrow> \<forall>c \<in> set a \<union> set b. \<not> is_quote c \<Longrightarrow>
     unquote (a @ q # v @ q' # b) = a @ v"
  using before_last_some [of "a @ v" q' b]
  by (auto simp: unquote_def dropWhile_append takeWhile_append)

lemma last_quote_spec:
  assumes t: "NUL \<notin> set t" and i: "i \<le> length t"
    and tail: "\<forall>j. i < j \<and> j < length t \<longrightarrow> \<not> is_quote (t ! j)"
  shows "\<exists>m. last_quote (map Some t @ Some NUL # r) i = Inr m \<and> m \<le> length t \<and> take m t = before_last t"
  using i tail
proof (induction i)
  case 0
  have "before_last t = []"
  proof (cases t)
    case (Cons c cs)
    have "\<forall>x \<in> set cs. \<not> is_quote x"
    proof
      fix x assume "x \<in> set cs"
      then obtain j where "j < length cs" "x = cs ! j" by (auto simp: in_set_conv_nth)
      then show "\<not> is_quote x" using 0(2) [rule_format, of "Suc j"] Cons by simp
    qed
    then show ?thesis unfolding Cons by (rule before_last_none)
  qed simp
  then show ?case by simp
next
  case (Suc i)
  let ?b = "map Some t @ Some NUL # r"
  have nq: "\<not> is_quote NUL" by (simp add: is_quote_def)
  show ?case
  proof (cases "Suc i = length t")
    case True
    then have "mem_read ?b (int (Suc i)) = Inr NUL" by (intro read_at) simp
    then have "last_quote ?b (Suc i) = last_quote ?b i" using nq by simp
    moreover have "\<exists>m. last_quote ?b i = Inr m \<and> m \<le> length t \<and> take m t = before_last t"
      using True by (intro Suc.IH) auto
    ultimately show ?thesis by metis
  next
    case False
    then have lt: "Suc i < length t" using Suc.prems(1) by simp
    then have rd: "mem_read ?b (int (Suc i)) = Inr (t ! Suc i)"
      unfolding mem_read_def by (simp only: nat_int) (simp add: nth_append)
    show ?thesis
    proof (cases "is_quote (t ! Suc i)")
      case True
      have sp: "t = take (Suc i) t @ t ! Suc i # drop (Suc (Suc i)) t" using lt by (rule id_take_nth_drop)
      have "\<forall>c \<in> set (drop (Suc (Suc i)) t). \<not> is_quote c"
        using Suc.prems(2) by (auto simp: in_set_conv_nth)
      then have "before_last (take (Suc i) t @ t ! Suc i # drop (Suc (Suc i)) t) = take (Suc i) t"
        using True lt by (intro before_last_some) auto
      then have "before_last t = take (Suc i) t" using sp by simp
      then show ?thesis using rd True lt by simp
    next
      case False
      then have "\<forall>j. i < j \<and> j < length t \<longrightarrow> \<not> is_quote (t ! j)"
        using Suc.prems(2) by (metis Suc_lessI)
      then show ?thesis using Suc.IH rd False lt by simp
    qed
  qed
qed

lemma cut_at:
  assumes t: "NUL \<notin> set t" and m: "m \<le> length t"
  shows "\<exists>blk. rbind (mem_move (map Some t @ Some NUL # r) (int m) (int m + 1) (int (length t) - int m))
      (\<lambda>b. mem_write b (int m) NUL) = Inr blk \<and> cblock blk (Suc (length t + length r)) (take m t)"
proof -
  let ?b = "map Some t @ Some NUL # r"
  obtain l where l: "length t = m + l" using m by (auto simp: le_iff_add)
  have s: "mem_slice ?b (int m + 1) (int l) = Inr (take l (drop (Suc m) ?b))"
    using l by (simp add: mem_slice_def nat_add_distrib)
  define x where "x = take l (drop (Suc m) ?b)"
  have x: "length x = l" using l by (simp add: x_def)
  have st: "mem_store ?b (int m) x = Inr (map Some (take m t) @ x @ drop (m + l) ?b)"
    using l x by (auto simp: mem_store_def take_map)
  obtain y ys where y: "x @ drop (m + l) ?b = y # ys" using l by (cases "x @ drop (m + l) ?b") auto
  have "length (y # ys) = Suc (l + length r)" unfolding y [symmetric] using l x by simp
  then have ys: "length ys = l + length r" by simp
  have "mem_write (map Some (take m t) @ y # ys) (int m) NUL = Inr (map Some (take m t) @ Some NUL # ys)"
    using m by (simp add: mem_write_def list_update_append)
  moreover have "cblock (map Some (take m t) @ Some NUL # ys) (Suc (length t + length r)) (take m t)"
    using t l ys in_set_takeD [of NUL m t] by (intro cblock_text) auto
  ultimately show ?thesis using s st y(1) l by (simp add: mem_move_def x_def)
qed

lemma StripBeginningAndEndingQoutes_spec:
  assumes b: "cblock blk n s"
  shows "\<exists>blk'. StripBeginningAndEndingQoutes blk = Inr blk' \<and> cblock blk' n (unquote s)"
proof -
  let ?nq = "\<lambda>c. \<not> is_quote c"
  define a where "a = takeWhile ?nq s"
  have rc: "read_cstr blk = Inr s" using b by (simp add: cblock_def)
  show ?thesis
  proof (cases "dropWhile ?nq s")
    case Nil
    then have tw: "takeWhile ?nq s = s" using takeWhile_dropWhile_id [of ?nq s] by simp
    have "StripBeginningAndEndingQoutes blk = Inr blk"
      unfolding StripBeginningAndEndingQoutes_def rc rbind.simps Let_def tw by simp
    moreover have "unquote s = s" unfolding unquote_def Nil by simp
    ultimately show ?thesis using b by simp
  next
    case (Cons q v)
    have s: "s = a @ q # v" using takeWhile_dropWhile_id [of ?nq s] Cons by (simp add: a_def)
    have u: "unquote s = before_last (a @ v)" using Cons by (simp add: unquote_def a_def)
    from b s obtain r where r: "blk = map Some (a @ q # v) @ Some NUL # r" "NUL \<notin> set (a @ q # v)"
      "n = Suc (length s + length r)"
      by (auto simp: cblock_iff)
    have sl: "mem_slice blk (int (length a) + 1) (int (length s) - int (length a)) = Inr (map Some v @ [Some NUL])"
      using r(1) s by (simp add: mem_slice_def nat_add_distrib)
    have mv: "mem_move blk (int (length a)) (int (length a) + 1) (int (length s) - int (length a)) =
        Inr (map Some (a @ v) @ Some NUL # Some NUL # r)"
      using sl by (simp add: mem_move_def mem_store_def r(1))
    have n: "NUL \<notin> set (a @ v)" using r(2) by simp
    have "\<forall>j. length (a @ v) < j \<and> j < length (a @ v) \<longrightarrow> \<not> is_quote ((a @ v) ! j)" by auto
    from last_quote_spec [OF n le_refl this, of "Some NUL # r"] obtain m
      where m: "last_quote (map Some (a @ v) @ Some NUL # Some NUL # r) (length (a @ v)) = Inr m"
        "m \<le> length (a @ v)" "take m (a @ v) = before_last (a @ v)" by blast
    from cut_at [OF n m(2), of "Some NUL # r"] obtain b'
      where c: "rbind (mem_move (map Some (a @ v) @ Some NUL # Some NUL # r) (int m) (int m + 1)
          (int (length (a @ v)) - int m)) (\<lambda>b. mem_write b (int m) NUL) = Inr b'"
        "cblock b' (Suc (length (a @ v) + length (Some NUL # r))) (take m (a @ v))" by auto
    have "StripBeginningAndEndingQoutes blk = Inr b'"
      using rc mv m(1) c(1) read_cstr_append [OF n, of "Some NUL # r"]
      by (simp add: StripBeginningAndEndingQoutes_def Let_def a_def [symmetric]) (simp add: s)
    moreover have "n = Suc (length (a @ v) + length (Some NUL # r))" using r(3) s by simp
    ultimately show ?thesis using c(2) u m(3) by simp
  qed
qed

lemma TerminateAtChar_spec:
  assumes b: "cblock blk n s"
  shows "\<exists>blk'. TerminateAtChar blk ch = Inr blk' \<and> cblock blk' n (takeWhile (\<lambda>c. c \<noteq> ch) s)"
proof -
  define i where "i = length (takeWhile (\<lambda>c. c \<noteq> ch) s)"
  have t: "takeWhile (\<lambda>c. c \<noteq> ch) s = take i s" unfolding i_def by (rule takeWhile_eq_take)
  have i: "i \<le> length s" unfolding i_def by (rule length_takeWhile_le)
  have rc: "read_cstr blk = Inr s" using b by (simp add: cblock_def)
  from b obtain r where r: "blk = map Some s @ Some NUL # r" "NUL \<notin> set s" "n = Suc (length s + length r)"
    by (auto simp: cblock_iff)
  show ?thesis
    using write_NUL [OF i r(2), of r] rc r(1,3) i b unfolding t
    by (cases "i < length s") (auto simp: TerminateAtChar_def Let_def i_def [symmetric])
qed

section \<open>The whole of \<open>CleanInput\<close>\<close>

definition clean :: "string \<Rightarrow> string" where
  "clean s = unquote (rstrip (\<lambda>c. c = SP) (dropWhile (\<lambda>c. c = SP) (kept False s)))"

lemma unquote_Nil [simp]: "unquote [] = []"
  by (simp add: unquote_def)

lemma CleanInput_spec:
  assumes b: "cblock blk n s" and room: "Suc (length s) < n \<or> length (kept False s) < length s"
  shows "\<exists>blk'. CleanInput blk = Inr blk' \<and> cblock blk' n (clean s)"
proof -
  let ?t = "kept False s" and ?u = "dropWhile (\<lambda>c. c = SP) (kept False s)"
  from StripChars_spec [OF b room] obtain b1 where b1: "StripChars blk = Inr b1" "cblock b1 n ?t" by blast
  from cblock_first_NUL [OF b1(2)] obtain c1 where c1: "mem_read b1 0 = Inr c1" "c1 = NUL \<longleftrightarrow> ?t = []" by blast
  from strip_leading_spec [OF b1(2), of "\<lambda>c. c = SP"] obtain b2
    where b2: "StripLeadingSpaces b1 = Inr b2" "cblock b2 n ?u" by (auto simp: StripLeadingSpaces_def)
  from cblock_first_NUL [OF b2(2)] obtain c2 where c2: "mem_read b2 0 = Inr c2" "c2 = NUL \<longleftrightarrow> ?u = []" by blast
  from strip_trailing_spec [OF b2(2), of "\<lambda>c. c = SP"] obtain b3
    where b3: "StripTrailingSpaces b2 = Inr b3" "cblock b3 n (rstrip (\<lambda>c. c = SP) ?u)"
    by (auto simp: StripTrailingSpaces_def)
  from cblock_first_NUL [OF b3(2)] obtain c3
    where c3: "mem_read b3 0 = Inr c3" "c3 = NUL \<longleftrightarrow> rstrip (\<lambda>c. c = SP) ?u = []" by blast
  from StripBeginningAndEndingQoutes_spec [OF b3(2)] obtain b4
    where b4: "StripBeginningAndEndingQoutes b3 = Inr b4" "cblock b4 n (clean s)" by (auto simp: clean_def)
  show ?thesis
  proof (cases "?u = []")
    case True
    have "clean s = []" unfolding clean_def rstrip_def True by simp
    then show ?thesis using b1 c1 b2 c2 True by (cases "?t = []") (auto simp: CleanInput_def)
  next
    case False
    then have "?t \<noteq> []" "rstrip (\<lambda>c. c = SP) ?u \<noteq> []" by (auto simp: rstrip_def split: list.splits)
    then have "c1 \<noteq> NUL" "c2 \<noteq> NUL" "c3 \<noteq> NUL" using False c1(2) c2(2) c3(2) by simp_all
    then show ?thesis using b1(1) c1(1) b2(1) c2(1) b3(1) c3(1) b4 by (simp add: CleanInput_def)
  qed
qed

section \<open>Entities\<close>

text \<open>The text with its entities replaced, in one pass from left to right.\<close>

fun xml_decode :: "string \<Rightarrow> string" where
  "xml_decode [] = []"
| "xml_decode (c # cs) =
     (case entity (c # cs) of
        Some (d, n) \<Rightarrow> d # xml_decode (drop (n - 1) cs)
      | None \<Rightarrow> c # xml_decode cs)"

lemma entity_Some:
  "entity s = Some (c, n) \<Longrightarrow> \<exists>t. s = CHR ''&'' # t \<and> 4 \<le> n \<and> n \<le> length s \<and> c \<noteq> NUL"
  by (auto simp: entity_def starts_with_iff split: if_splits)

lemma entity_other: "CHR ''&'' \<noteq> c \<Longrightarrow> entity (c # s) = None"
  by (simp add: entity_def)

lemma xml_decode_plain: "CHR ''&'' \<notin> set a \<Longrightarrow> xml_decode (a @ s) = a @ xml_decode s"
  by (induction a) (simp_all add: entity_other)

lemma read_cstr_at_append:
  "NUL \<notin> set s \<Longrightarrow> n = length u \<Longrightarrow> read_cstr_at (u @ map Some s @ Some NUL # r) (int n) = Inr s"
  by (simp add: read_cstr_at_def read_cstr_append)

lemma replace_entity_spec:
  assumes t: "NUL \<notin> set (u @ e @ w)" and c: "c \<noteq> NUL" and n: "length e = n" "1 \<le> n"
  shows "\<exists>r'. length r' = length r + (n - 1) \<and>
    replace_entity (map Some (u @ e @ w) @ Some NUL # r) (int (length u)) c n =
      Inr (map Some (u @ c # w) @ Some NUL # r', int (length w) + 1)"
proof -
  obtain x xs where e: "e = x # xs" using n by (cases e) auto
  let ?b = "map Some (u @ c # xs @ w) @ Some NUL # r"
  have w: "mem_write (map Some (u @ e @ w) @ Some NUL # r) (int (length u)) c = Inr ?b"
    by (simp add: mem_write_def e list_update_append)
  have "read_cstr_at (map Some u @ map Some (c # xs @ w) @ Some NUL # r) (int (length u)) = Inr (c # xs @ w)"
    using t c e by (intro read_cstr_at_append) auto
  then have rd: "read_cstr_at ?b (int (length u)) = Inr (c # xs @ w)" by simp
  have nx: "n = Suc (length xs)" using n e by simp
  have sl: "mem_slice ?b (int (length u) + int n) (int (length w) + 1) = Inr (map Some w @ [Some NUL])"
    using n nx by (simp add: mem_slice_def nat_add_distrib)
  have mv: "mem_move ?b (int (length u) + 1) (int (length u) + int n) (int (length w) + 1) =
      Inr (map Some (u @ [c]) @ map Some w @ Some NUL # drop (Suc (length w)) (map Some (xs @ w) @ Some NUL # r))"
    unfolding mem_move_def sl rbind.simps
    by (simp add: mem_store_def nat_add_distrib)
  have len: "int (length (c # xs @ w)) - (int n - 1) = int (length w) + 1" using n e by simp
  have "replace_entity (map Some (u @ e @ w) @ Some NUL # r) (int (length u)) c n =
      Inr (map Some (u @ c # w) @ Some NUL # drop (Suc (length w)) (map Some (xs @ w) @ Some NUL # r),
           int (length w) + 1)"
    unfolding replace_entity_def w rbind.simps rd Let_def len mv by simp
  then show ?thesis using n e
    by (intro exI [of _ "drop (Suc (length w)) (map Some (xs @ w) @ Some NUL # r)"]) simp
qed

lemma entity_loop_spec:
  "NUL \<notin> set (u @ s) \<Longrightarrow> int (length s) \<le> len \<Longrightarrow>
   \<exists>b. entity_loop (map Some (u @ s) @ Some NUL # r) (Some (length u)) len = Inr b \<and>
     cblock b (Suc (length (u @ s) + length r)) (u @ xml_decode s)"
proof (induction "length s" arbitrary: u s r len rule: less_induct)
  case less
  let ?b = "map Some (u @ s) @ Some NUL # r"
  have rd: "read_cstr_at ?b (int (length u)) = Inr s"
    using read_cstr_at_append [of s "length u" "map Some u" r] less.prems(1) by simp
  have cb: "cblock ?b (Suc (length (u @ s) + length r)) (u @ s)"
    using less.prems(1) by (intro cblock_text) simp_all
  show ?case
  proof (cases "len \<le> 0")
    case True
    then have "length s = 0" using less.prems(2) by linarith
    then have "s = []" by simp
    then show ?thesis using True cb by (subst entity_loop.simps) simp
  next
    case False
    show ?thesis
    proof (cases "find_char CHR ''&'' s")
      case None
      then have "xml_decode s = s" using xml_decode_plain [of s "[]"] by (simp add: find_char_None)
      moreover have "entity_loop ?b None (len - 1) = Inr ?b" by (subst entity_loop.simps) simp
      ultimately show ?thesis using False None rd cb by (subst entity_loop.simps) simp
    next
      case (Some j)
      from find_char_Some [OF Some]
      have j: "j < length s" "s ! j = CHR ''&''" "CHR ''&'' \<notin> set (take j s)" by auto
      define a t where "a = take j s" and "t = drop (Suc j) s"
      have s: "s = a @ CHR ''&'' # t" using id_take_nth_drop [OF j(1)] j(2) by (simp add: a_def t_def)
      have na: "CHR ''&'' \<notin> set a" using j(3) by (simp add: a_def)
      have la: "length a = j" using j(1) by (simp add: a_def)
      have dj: "drop j s = CHR ''&'' # t" using s la by simp
      have dec: "xml_decode s = a @ xml_decode (CHR ''&'' # t)"
        using xml_decode_plain [OF na, of "CHR ''&'' # t"] by (simp only: s [symmetric])
      show ?thesis
      proof (cases "entity (CHR ''&'' # t)")
        case None
        have st: "entity_loop ?b (Some (length u)) len = entity_loop ?b (Some (length u + j + 1)) (len - 1)"
          using False Some rd None dj by (subst entity_loop.simps) simp
        have "length t < length s" using s by simp
        moreover have "NUL \<notin> set ((u @ a @ [CHR ''&'']) @ t)" using less.prems(1) s by auto
        moreover have "int (length t) \<le> len - 1" using less.prems(2) s by simp
        ultimately obtain b where b:
          "entity_loop (map Some ((u @ a @ [CHR ''&'']) @ t) @ Some NUL # r)
            (Some (length (u @ a @ [CHR ''&'']))) (len - 1) = Inr b"
          "cblock b (Suc (length ((u @ a @ [CHR ''&'']) @ t) + length r)) ((u @ a @ [CHR ''&'']) @ xml_decode t)"
          using less.hyps by blast
        have "xml_decode s = a @ CHR ''&'' # xml_decode t" unfolding dec using None by simp
        then show ?thesis using st b s la by simp
      next
        case (Some x)
        then obtain c n where e: "entity (CHR ''&'' # t) = Some (c, n)" by (cases x) auto
        from entity_Some [OF this] have n: "4 \<le> n" "n \<le> Suc (length t)" "c \<noteq> NUL" by auto
        define e w where "e = CHR ''&'' # take (n - 1) t" and "w = drop (n - 1) t"
        have le: "length e = n" using n by (simp add: e_def)
        have sw: "s = a @ e @ w" using s by (simp add: e_def w_def)
        have "NUL \<notin> set ((u @ a) @ e @ w)" "1 \<le> n" using less.prems(1) sw n(1) by auto
        from replace_entity_spec [OF this(1) n(3) le this(2), of r] obtain r'
          where r': "length r' = length r + (n - 1)"
            "replace_entity ?b (int (length u + j)) c n =
               Inr (map Some ((u @ a) @ c # w) @ Some NUL # r', int (length w) + 1)"
          using sw la by auto
        have st: "entity_loop ?b (Some (length u)) len =
            entity_loop (map Some ((u @ a) @ c # w) @ Some NUL # r') (Some (length u + j + 1)) (int (length w) + 1)"
          using False \<open>find_char CHR ''&'' s = Some j\<close> rd e dj r'(2) by (subst entity_loop.simps) simp
        have "length w < length s" using sw le n(1) by simp
        moreover have "NUL \<notin> set ((u @ a @ [c]) @ w)" using less.prems(1) sw n(3) by auto
        moreover have "int (length w) \<le> int (length w) + 1" by simp
        ultimately obtain b where b:
          "entity_loop (map Some ((u @ a @ [c]) @ w) @ Some NUL # r') (Some (length (u @ a @ [c])))
            (int (length w) + 1) = Inr b"
          "cblock b (Suc (length ((u @ a @ [c]) @ w) + length r')) ((u @ a @ [c]) @ xml_decode w)"
          using less.hyps by blast
        have dw: "xml_decode s = a @ c # xml_decode w" unfolding dec using e by (simp add: w_def)
        have "Suc (length ((u @ a @ [c]) @ w) + length r') = Suc (length (u @ s) + length r)"
          using r'(1) sw le n(1) by simp
        then have "cblock b (Suc (length (u @ s) + length r)) (u @ xml_decode s)"
          using b(2) dw by (simp only: append.assoc append_Cons append_Nil)
        then show ?thesis using st b(1) la by simp
      qed
    qed
  qed
qed

lemma TransformXMLEntities_spec:
  assumes "cblock blk n s"
  shows "\<exists>blk'. TransformXMLEntities blk = Inr blk' \<and> cblock blk' n (xml_decode s)"
proof -
  from assms obtain r where r: "blk = map Some s @ Some NUL # r" "NUL \<notin> set s" "n = Suc (length s + length r)"
    by (auto simp: cblock_iff)
  moreover have "read_cstr blk = Inr s" using assms by (simp add: cblock_def)
  ultimately show ?thesis
    using entity_loop_spec [of "[]" s "int (length s)" r] by (simp add: TransformXMLEntities_def)
qed

text \<open>A text written with entities comes back.\<close>

definition escape :: "char \<Rightarrow> string" where
  "escape c =
     (if c = CHR ''<'' then ''&lt;'' else if c = CHR ''>'' then ''&gt;''
      else if c = CHR ''&'' then ''&amp;'' else if c = CHR 0x27 then ''&apos;''
      else if c = CHR 0x22 then ''&quot;'' else [c])"

definition xml_encode :: "string \<Rightarrow> string" where
  "xml_encode s = concat (map escape s)"

lemma xml_decode_encode: "xml_decode (xml_encode s) = s"
  by (induction s) (auto simp: xml_encode_def escape_def entity_def entity_other)

end
