(* ===== verification/XmlParserLaws.thy ===== *)
theory XmlParserLaws
  imports XmlParser XmlTextLaws
begin

text \<open>
  What the operations of \<open>cXMLLiteParser\<close> do to the elements of the document and to the buffers:
  \<open>focus\<close> says which elements the parser holds, with the last one behind the pointer \<open>pElement\<close>,
  \<open>bufs_ok\<close> that the buffers are as large as the parser thinks. On top of it, the steps of the state
  machine and the search for elements by name.
\<close>

section \<open>The elements\<close>

definition el_at :: "cXMLLiteParser \<Rightarrow> nat \<times> nat \<Rightarrow> xml_elem \<Rightarrow> bool" where
  "el_at x p v \<longleftrightarrow> (\<exists>e. x_elems x (snd p) = Some e \<and> el_is e v)"

definition x_rep :: "cXMLLiteParser \<Rightarrow> (nat \<times> nat) list \<Rightarrow> xml_elem list \<Rightarrow> bool" where
  "x_rep x ps vs \<longleftrightarrow>
     xl_repr (m_xmlElements x) ps \<and> distinct (map snd ps) \<and> (\<forall>p \<in> set ps. snd p < x_new x) \<and>
     list_all2 (el_at x) ps vs"

definition focus :: "cXMLLiteParser \<Rightarrow> nat option \<Rightarrow> xml_elem list \<Rightarrow> bool" where
  "focus x p vs \<longleftrightarrow>
     (case p of
        None \<Rightarrow> vs = [] \<and> x_rep x [] []
      | Some a \<Rightarrow> (\<exists>ps n. x_rep x (ps @ [(n, a)]) vs))"

definition work_ok :: "block option \<Rightarrow> int \<Rightarrow> bool" where
  "work_ok b n = (case b of None \<Rightarrow> n = 0 | Some blk \<Rightarrow> n = int (length blk) \<and> 1024 \<le> length blk)"

definition split_ok :: "block option \<Rightarrow> block option \<Rightarrow> int \<Rightarrow> bool" where
  "split_ok nb vb n =
     (case (nb, vb) of
        (Some b, Some b') \<Rightarrow> int (length b) = n + 1 \<and> length b' = length b
      | _ \<Rightarrow> n = 0)"

definition bufs_ok :: "cXMLLiteParser \<Rightarrow> bool" where
  "bufs_ok x \<longleftrightarrow> work_ok (m_pWorkingBuffer x) (m_iWorkingBufferSize x) \<and>
     split_ok (m_pSplitBufferName x) (m_pSplitBufferValue x) (m_iSplitBufferNameSize x)"

lemma x_rep_buffers [simp]:
  "x_rep (x\<lparr>m_pWorkingBuffer := b\<rparr>) = x_rep x" "x_rep (x\<lparr>m_iWorkingBufferSize := i\<rparr>) = x_rep x"
  "x_rep (x\<lparr>m_pSplitBufferName := b\<rparr>) = x_rep x" "x_rep (x\<lparr>m_iSplitBufferNameSize := i\<rparr>) = x_rep x"
  "x_rep (x\<lparr>m_pSplitBufferValue := b\<rparr>) = x_rep x" "x_rep (x\<lparr>m_iSplitBufferValueSize := i\<rparr>) = x_rep x"
  by (simp_all add: x_rep_def el_at_def [abs_def] fun_eq_iff)

lemma focus_buffers [simp]:
  "focus (x\<lparr>m_pWorkingBuffer := b\<rparr>) = focus x" "focus (x\<lparr>m_iWorkingBufferSize := i\<rparr>) = focus x"
  "focus (x\<lparr>m_pSplitBufferName := b\<rparr>) = focus x" "focus (x\<lparr>m_iSplitBufferNameSize := i\<rparr>) = focus x"
  "focus (x\<lparr>m_pSplitBufferValue := b\<rparr>) = focus x" "focus (x\<lparr>m_iSplitBufferValueSize := i\<rparr>) = focus x"
  by (simp_all add: focus_def fun_eq_iff split: option.split)

lemma bufs_ok_elements [simp]:
  "bufs_ok (x\<lparr>x_elems := s\<rparr>) = bufs_ok x" "bufs_ok (x\<lparr>x_new := n\<rparr>) = bufs_ok x"
  "bufs_ok (x\<lparr>m_xmlElements := l\<rparr>) = bufs_ok x"
  by (simp_all add: bufs_ok_def)

lemma list_all2_el_at_new:
  assumes "list_all2 (el_at x) ps vs" "\<forall>p \<in> set ps. snd p \<noteq> a" "x_elems x' = (x_elems x)(a \<mapsto> e)"
  shows "list_all2 (el_at x') ps vs"
  using assms(1)
proof (rule list.rel_mono_strong)
  fix p v assume "p \<in> set ps" "el_at x p v"
  then show "el_at x' p v" using assms(2,3) by (auto simp: el_at_def)
qed

definition no_element :: xml_elem where
  "no_element = XE None None [] None"

lemma GetNewEntry_spec:
  assumes r: "x_rep x ps vs"
  shows "\<exists>n a x'. GetNewEntry x = Inr (a, x') \<and> x_rep x' (ps @ [(n, a)]) (vs @ [no_element]) \<and>
    bufs_ok x' = bufs_ok x \<and> m_pWorkingBuffer x' = m_pWorkingBuffer x"
proof -
  have l: "xl_repr (m_xmlElements x) ps" using r by (simp add: x_rep_def)
  from XMLList_Add_repr [OF l, of "x_new x"] obtain l' n
    where l': "XMLList_Add (m_xmlElements x) (x_new x) = Inr l'" "xl_repr l' (ps @ [(n, x_new x)])" by blast
  define x' where "x' = x\<lparr>x_elems := (x_elems x)(x_new x \<mapsto> new_cXMLLiteElement), x_new := x_new x + 1,
      m_xmlElements := l'\<rparr>"
  have "GetNewEntry x = Inr (x_new x, x')"
    using l'(1) by (simp add: GetNewEntry_def Let_def x'_def)
  moreover have "list_all2 (el_at x') ps vs"
    using r by (auto simp: x_rep_def x'_def intro!: list_all2_el_at_new [of x _ _ "x_new x"])
  moreover have "el_at x' (n, x_new x) no_element"
    using el_is_new by (simp add: el_at_def x'_def no_element_def)
  ultimately show ?thesis
    using r l'(2)
    by (intro exI [of _ n] exI [of _ "x_new x"] exI [of _ x'])
      (auto simp: x_rep_def x'_def less_Suc_eq list_all2_appendI)
qed

lemma focus_rep: "focus x p vs \<Longrightarrow> \<exists>ps. x_rep x ps vs"
  by (auto simp: focus_def split: option.splits)

lemma GetNewEntry_focus:
  assumes "focus x p vs"
  shows "\<exists>a x'. GetNewEntry x = Inr (a, x') \<and> focus x' (Some a) (vs @ [no_element]) \<and>
    bufs_ok x' = bufs_ok x \<and> m_pWorkingBuffer x' = m_pWorkingBuffer x"
  using focus_rep [OF assms] GetNewEntry_spec by (fastforce simp: focus_def)

lemma on_element_focus:
  assumes f: "focus x (Some a) (vs @ [v])"
    and step: "\<And>e. el_is e v \<Longrightarrow> \<exists>e'. f e = Inr e' \<and> el_is e' v'"
  shows "\<exists>x'. on_element x (Some a) f = Inr x' \<and> focus x' (Some a) (vs @ [v']) \<and>
    bufs_ok x' = bufs_ok x \<and> m_pWorkingBuffer x' = m_pWorkingBuffer x"
proof -
  from f obtain ps n where r: "x_rep x (ps @ [(n, a)]) (vs @ [v])" by (auto simp: focus_def)
  then have a: "list_all2 (el_at x) ps vs" "el_at x (n, a) v"
    by (auto simp: x_rep_def list_all2_append2 list_all2_Cons2 dest: list_all2_lengthD)
  then obtain e where e: "x_elems x a = Some e" "el_is e v" by (auto simp: el_at_def)
  from step [OF e(2)] obtain e' where e': "f e = Inr e'" "el_is e' v'" by blast
  let ?x = "x\<lparr>x_elems := (x_elems x)(a \<mapsto> e')\<rparr>"
  have "on_element x (Some a) f = Inr ?x" using e(1) e'(1) by (simp add: on_element_def x_get_def)
  moreover have "list_all2 (el_at ?x) ps vs"
    using r a(1) by (force simp: x_rep_def intro!: list_all2_el_at_new [of x _ _ a])
  moreover have "el_at ?x (n, a) v'" using e'(2) by (simp add: el_at_def)
  ultimately have "on_element x (Some a) f = Inr ?x" "x_rep ?x (ps @ [(n, a)]) (vs @ [v'])"
    using r by (auto simp: x_rep_def list_all2_appendI)
  then show ?thesis by (auto simp: focus_def)
qed

section \<open>The working buffer\<close>

lemma CheckWorkingBuffer_room:
  assumes "bufs_ok x" "n \<le> 1024"
  shows "\<exists>x' blk. CheckWorkingBuffer x n = Inr x' \<and> bufs_ok x' \<and> focus x' = focus x \<and>
    m_pWorkingBuffer x' = Some blk \<and> 1024 \<le> length blk \<and>
    (\<forall>b. m_pWorkingBuffer x = Some b \<longrightarrow> x' = x)"
proof (cases "m_pWorkingBuffer x")
  case None
  then have "m_iWorkingBufferSize x = 0" using assms(1) by (simp add: bufs_ok_def work_ok_def)
  then show ?thesis
    using assms None by (simp add: CheckWorkingBuffer_def INITAL_WORKING_BUFFER_SIZE_def bufs_ok_def work_ok_def)
next
  case (Some blk)
  then have "m_iWorkingBufferSize x = int (length blk)" "1024 \<le> length blk"
    using assms(1) by (auto simp: bufs_ok_def work_ok_def)
  then show ?thesis using assms Some by (auto simp: CheckWorkingBuffer_def)
qed

text \<open>\<open>wb x s\<close>: the buffers are sound, and the working buffer holds the text \<open>s\<close>.\<close>

definition wb :: "cXMLLiteParser \<Rightarrow> string \<Rightarrow> bool" where
  "wb x s \<longleftrightarrow> bufs_ok x \<and>
     (\<exists>blk. m_pWorkingBuffer x = Some blk \<and> cblock blk (length blk) s)"

lemma wb_bufs_ok: "wb x s \<Longrightarrow> bufs_ok x"
  by (simp add: wb_def)

lemma on_working_wb:
  assumes w: "wb x s"
    and f: "\<And>blk n. 1024 \<le> n \<Longrightarrow> cblock blk n s \<Longrightarrow> \<exists>blk'. f blk = Inr blk' \<and> cblock blk' n t"
  shows "\<exists>x'. on_working x f = Inr x' \<and> wb x' t \<and> focus x' = focus x"
proof -
  from w obtain blk where b: "m_pWorkingBuffer x = Some blk" "cblock blk (length blk) s" "1024 \<le> length blk"
    by (auto simp: wb_def bufs_ok_def work_ok_def)
  from f [OF b(3,2)] obtain blk' where b': "f blk = Inr blk'" "cblock blk' (length blk) t" by blast
  then have "length blk' = length blk" by (simp add: cblock_def)
  then have "wb (x\<lparr>m_pWorkingBuffer := Some blk'\<rparr>) t"
    using w b b' by (simp add: wb_def bufs_ok_def work_ok_def)
  then show ?thesis using b(1) b'(1) by (simp add: on_working_def working_def)
qed

lemma wb_first: "wb x s \<Longrightarrow> \<exists>c. rbind (working x) (\<lambda>blk. mem_read blk 0) = Inr c \<and> (c = NUL \<longleftrightarrow> s = [])"
  by (auto simp: wb_def working_def dest: cblock_first_NUL)

lemma wb_working: "wb x s \<Longrightarrow> \<exists>blk. working x = Inr blk \<and> cblock blk (length blk) s \<and> read_cstr blk = Inr s"
  by (auto simp: wb_def working_def cblock_def)

lemma str_take_text:
  "NUL \<notin> set p \<Longrightarrow> str_take (length p) (map Some p @ r) = Inr p"
  by (induction p) auto

text \<open>A piece of the document is copied, if it fits.\<close>

lemma copy_piece_spec:
  assumes x: "bufs_ok x" "m_pWorkingBuffer x = Some blk"
    and d: "d = pre @ p @ s" "NUL \<notin> set p" "p \<noteq> []" "length p < length blk"
    and i: "start = int (length pre)" "idx = int (length pre + length p) - 1"
  shows "\<exists>x'. copy_piece (cmem d) start idx x = Inr x' \<and> wb x' p \<and> focus x' = focus x"
proof -
  have n: "idx - start + 1 = int (length p)" using d(3) i by (cases p) auto
  have "drop (length pre) (cmem d) = map Some p @ map Some s @ [Some NUL]" using d(1) by (simp add: cmem_def)
  then have c: "str_ncpy blk (cmem d) start (int (length p)) = Inr (map Some p @ drop (length p) blk)"
    using i d(2-4) str_take_text [of p "map Some s @ [Some NUL]"] by (simp add: str_ncpy_def mem_store_def)
  have "length (drop (length p) blk) = length blk - length p" by simp
  then obtain b bs where b: "drop (length p) blk = b # bs" "length blk = Suc (length p + length bs)"
    using d(4) by (cases "drop (length p) blk") auto
  let ?b = "map Some p @ Some NUL # bs"
  have w: "mem_write (map Some p @ b # bs) (int (length p)) NUL = Inr ?b"
    by (simp add: mem_write_def list_update_append)
  have "copy_piece (cmem d) start idx x = Inr (x\<lparr>m_pWorkingBuffer := Some ?b\<rparr>)"
    using x(2) c w by (simp add: copy_piece_def n on_working_def working_def b(1))
  moreover have "cblock ?b (length blk) p" using d(2) b(2) by (intro cblock_text) simp_all
  then have "wb (x\<lparr>m_pWorkingBuffer := Some ?b\<rparr>) p"
    using x b(2) by (simp add: wb_def bufs_ok_def work_ok_def)
  ultimately show ?thesis by simp
qed

section \<open>Attributes\<close>

lemma bufs_ok_split:
  assumes "bufs_ok x" "0 \<le> n"
  shows "\<exists>b b'. m_pSplitBufferName (split_buffers x (int n)) = Some b \<and>
    m_pSplitBufferValue (split_buffers x (int n)) = Some b' \<and> n < length b \<and> length b' = length b \<and>
    bufs_ok (split_buffers x (int n)) \<or> n = 0"
  using assms
  by (auto simp: bufs_ok_def split_ok_def split_buffers_def split: option.splits)

lemma split_buffers_same [simp]:
  "m_pWorkingBuffer (split_buffers x n) = m_pWorkingBuffer x" "focus (split_buffers x n) = focus x"
  "m_iWorkingBufferSize (split_buffers x n) = m_iWorkingBufferSize x"
  by (simp_all add: split_buffers_def)

lemma SplitParam_other:
  assumes "cblock buf n s" "CHR ''='' \<notin> set s \<or> (\<exists>t. s = CHR ''='' # t)"
  shows "SplitParam x buf p = Inr x"
proof -
  have "(case find_char CHR ''='' s of None \<Rightarrow> 0 | Some i \<Rightarrow> int i) = 0"
    using assms(2)
  proof
    assume "CHR ''='' \<notin> set s"
    then have "find_char CHR ''='' s = None" by (simp add: find_char_None)
    then show ?thesis by simp
  qed (auto simp: find_char_def)
  moreover have "read_cstr buf = Inr s" using assms(1) by (simp add: cblock_def)
  ultimately show ?thesis by (simp add: SplitParam_def Let_def)
qed

text \<open>The part of \<open>SplitParam\<close> up to the copy of the value.\<close>

lemma SplitParam_parts:
  assumes x: "bufs_ok x" and buf: "cblock buf n (k @ CHR ''='' # v)"
    and k: "CHR ''='' \<notin> set k" "k \<noteq> []" and v: "\<forall>t. v \<noteq> SP # t"
  shows "\<exists>x1 name val m. bufs_ok x1 \<and> focus x1 = focus x \<and> m_pWorkingBuffer x1 = m_pWorkingBuffer x \<and>
    m_iWorkingBufferSize x1 = m_iWorkingBufferSize x \<and>
    int m = m_iSplitBufferNameSize x1 + 1 \<and> cblock name m k \<and> cblock val m v \<and>
    SplitParam x buf p =
      rbind (mem_read val (int (length v) - 1)) (\<lambda>c.
      rbind (if c = CR then mem_write val (int (length v) - 1) NUL else Inr val) (\<lambda>val.
      rbind (TransformXMLEntities val) (\<lambda>val.
      on_element (x1\<lparr>m_pSplitBufferName := Some name, m_pSplitBufferValue := Some val\<rparr>) p
        (\<lambda>e. AddAttributePair e name val))))"
proof -
  let ?s = "k @ CHR ''='' # v"
  define x1 where "x1 = split_buffers x (int (length ?s))"
  from bufs_ok_split [OF x, of "length ?s"] obtain b b'
    where b: "m_pSplitBufferName x1 = Some b" "m_pSplitBufferValue x1 = Some b'" "length ?s < length b"
      "length b' = length b" "bufs_ok x1" by (auto simp: x1_def)
  have rc: "read_cstr buf = Inr ?s" using buf by (simp add: cblock_def)
  have ff: "find_char CHR ''='' ?s = Some (length k)" by (rule find_char_append [OF k(1)])
  from buf obtain r where r: "buf = map Some k @ Some CHR ''='' # map Some v @ Some NUL # r"
    "NUL \<notin> set k" "NUL \<notin> set v" by (auto simp: cblock_iff)
  have cp: "str_ncpy b buf 0 (int (length k)) = Inr (map Some k @ drop (length k) b)"
    using b(3) r(1) str_take_text [OF r(2), of "Some CHR ''='' # map Some v @ Some NUL # r"]
    by (simp add: str_ncpy_def mem_store_def)
  have "length (drop (length k) b) = length b - length k" by simp
  then obtain y ys where y: "drop (length k) b = y # ys" "length b = Suc (length k + length ys)"
    using b(3) by (cases "drop (length k) b") auto
  define name where "name = map Some k @ Some NUL # ys"
  have wn: "mem_write (map Some k @ y # ys) (int (length k)) NUL = Inr name"
    by (simp add: mem_write_def name_def list_update_append)
  obtain c where c: "mem_read buf (int (length k) + 1) = Inr c" "c \<noteq> SP"
  proof (cases v)
    case Nil
    have "mem_read (map Some (k @ [CHR ''='']) @ Some NUL # r) (int (length (k @ [CHR ''='']))) = Inr NUL"
      by (rule read_at) simp
    then show ?thesis using that Nil r(1) by (simp add: add.commute)
  next
    case (Cons d t)
    have "mem_read (map Some (k @ [CHR ''='']) @ Some d # map Some t @ Some NUL # r) (int (length (k @ [CHR ''='']))) = Inr d"
      by (rule read_at) simp
    then show ?thesis using that Cons r(1) v by (simp add: add.commute)
  qed
  have rv: "read_cstr_at buf (int (length k) + 1) = Inr v"
    using read_cstr_at_append [OF r(3), of "Suc (length k)" "map Some k @ [Some CHR ''='']" r] r(1)
    by (simp add: add.commute)
  define val where "val = cmem v @ drop (Suc (length v)) b'"
  have sv: "mem_store b' 0 (cmem v) = Inr val"
    using b(3,4) by (simp add: mem_store_def val_def cmem_def)
  have "cblock name (length b) k" using r(2) y(2) unfolding name_def by (intro cblock_text) simp_all
  moreover have "cblock val (length b) v"
    using r(3) b(3,4) unfolding val_def cmem_def append.assoc append_Cons append_Nil
    by (intro cblock_text) simp_all
  moreover have "int (length b) = m_iSplitBufferNameSize x1 + 1"
    using b by (simp add: bufs_ok_def split_ok_def)
  moreover have "SplitParam x buf p =
      rbind (mem_read val (int (length v) - 1)) (\<lambda>c.
      rbind (if c = CR then mem_write val (int (length v) - 1) NUL else Inr val) (\<lambda>val.
      rbind (TransformXMLEntities val) (\<lambda>val.
      on_element (x1\<lparr>m_pSplitBufferName := Some name, m_pSplitBufferValue := Some val\<rparr>) p
        (\<lambda>e. AddAttributePair e name val))))"
    unfolding SplitParam_def rc rbind.simps Let_def ff option.case x1_def [symmetric] b(1,2)
    using k(2) cp wn c rv sv y(1) by simp
  moreover have "focus x1 = focus x" "m_pWorkingBuffer x1 = m_pWorkingBuffer x"
    "m_iWorkingBufferSize x1 = m_iWorkingBufferSize x" by (simp_all add: x1_def)
  ultimately show ?thesis using b(5) by blast
qed

lemma SplitParam_spec:
  assumes x: "bufs_ok x" "focus x (Some a) (vs @ [XE n w as c])"
    and buf: "cblock buf m (k @ CHR ''='' # v)"
    and k: "CHR ''='' \<notin> set k" "k \<noteq> []" and v: "\<forall>t. v \<noteq> SP # t" "v \<noteq> []" "last v \<noteq> CR"
  shows "\<exists>x'. SplitParam x buf (Some a) = Inr x' \<and>
    focus x' (Some a) (vs @ [XE n w (as @ [(k, xml_decode v)]) c]) \<and> bufs_ok x' \<and>
    m_pWorkingBuffer x' = m_pWorkingBuffer x"
proof -
  from SplitParam_parts [OF x(1) buf k v(1), of "Some a"] obtain x1 name val l
    where s: "bufs_ok x1" "focus x1 = focus x" "m_pWorkingBuffer x1 = m_pWorkingBuffer x"
      "m_iWorkingBufferSize x1 = m_iWorkingBufferSize x"
      "int l = m_iSplitBufferNameSize x1 + 1" "cblock name l k" "cblock val l v"
      "SplitParam x buf (Some a) =
        rbind (mem_read val (int (length v) - 1)) (\<lambda>c.
        rbind (if c = CR then mem_write val (int (length v) - 1) NUL else Inr val) (\<lambda>val.
        rbind (TransformXMLEntities val) (\<lambda>val.
        on_element (x1\<lparr>m_pSplitBufferName := Some name, m_pSplitBufferValue := Some val\<rparr>) (Some a)
          (\<lambda>e. AddAttributePair e name val))))" by blast
  from s(7) obtain r where r: "val = map Some v @ Some NUL # r" by (auto simp: cblock_iff)
  have vl: "v = butlast v @ [last v]" using v(2) by simp
  have "mem_read (map Some (butlast v) @ Some (last v) # Some NUL # r) (int (length v - 1)) = Inr (last v)"
    by (rule read_at) simp
  moreover have "val = map Some (butlast v) @ Some (last v) # Some NUL # r"
    unfolding r by (subst vl) (simp del: append_butlast_last_id)
  moreover have "int (length v - 1) = int (length v) - 1" using v(2) by (cases v) simp_all
  ultimately have rl: "mem_read val (int (length v) - 1) = Inr (last v)" by simp
  from TransformXMLEntities_spec [OF s(7)] obtain val'
    where val': "TransformXMLEntities val = Inr val'" "cblock val' l (xml_decode v)" by blast
  let ?x = "x1\<lparr>m_pSplitBufferName := Some name, m_pSplitBufferValue := Some val'\<rparr>"
  have ok: "bufs_ok ?x"
    using s(1,5) val'(2) s(6) by (simp add: bufs_ok_def split_ok_def cblock_def)
  have f: "focus ?x (Some a) (vs @ [XE n w as c])" using x(2) s(2) by simp
  have "\<exists>e'. AddAttributePair e name val' = Inr e' \<and> el_is e' (XE n w (as @ [(k, xml_decode v)]) c)"
    if "el_is e (XE n w as c)" for e
    using AddAttributePair_spec [OF that] s(6) val'(2) by (simp add: cblock_def)
  from on_element_focus [OF f, where f = "\<lambda>e. AddAttributePair e name val'", OF this] obtain x'
    where "on_element ?x (Some a) (\<lambda>e. AddAttributePair e name val') = Inr x'"
      "focus x' (Some a) (vs @ [XE n w (as @ [(k, xml_decode v)]) c])" "bufs_ok x' = bufs_ok ?x"
      "m_pWorkingBuffer x' = m_pWorkingBuffer ?x" by blast
  then show ?thesis using s(3,8) rl val'(1) v(3) ok by simp
qed

text \<open>An empty value makes the parser read the byte in front of the buffer.\<close>

lemma SplitParam_empty:
  assumes "bufs_ok x" "cblock buf m (k @ ''='')" "CHR ''='' \<notin> set k" "k \<noteq> []"
  shows "SplitParam x buf p = Inl OutOfBounds"
proof -
  have "cblock buf m (k @ CHR ''='' # [])" using assms(2) by simp
  from SplitParam_parts [OF assms(1) this assms(3,4), of p] obtain x1 name val
    where "SplitParam x buf p =
      rbind (mem_read val (int (length ([] :: string)) - 1)) (\<lambda>c.
      rbind (if c = CR then mem_write val (int (length ([] :: string)) - 1) NUL else Inr val) (\<lambda>val.
      rbind (TransformXMLEntities val) (\<lambda>val.
      on_element (x1\<lparr>m_pSplitBufferName := Some name, m_pSplitBufferValue := Some val\<rparr>) p
        (\<lambda>e. AddAttributePair e name val))))" by blast
  then show ?thesis by (simp add: mem_read_def)
qed

end
