(* ===== verification/XmlParseSteps.thy ===== *)
theory XmlParseSteps
  imports XmlParserLaws
begin

text \<open>
  The steps of the state machine of \<open>Parse\<close> on a document in memory: what the parser does with a run
  of text between two tags, with the start of a tag, with the characters inside one, with an
  attribute and with the end of a tag. The states are \<open>scanning\<close> and \<open>in_tag\<close>.
\<close>

section \<open>One step\<close>

lemma parse_step:
  assumes "d = pre @ c # s" "c \<noteq> NUL" "pl_idx l = int (length pre)" "parse_char (cmem d) c (x, l) = Inr st"
  shows "parse_loop (cmem d) (x, l) = parse_loop (cmem d) st"
proof -
  have "mem_read (map Some pre @ Some c # map Some s @ [Some NUL]) (int (length pre)) = Inr c"
    by (rule read_at) simp
  then have "mem_read (cmem d) (pl_idx l) = Inr c" using assms(1,3) by (simp add: cmem_def)
  then show ?thesis using assms(2,4) by (subst parse_loop.simps) simp
qed

lemma parse_done:
  assumes "pl_idx l = int (length d)"
  shows "parse_loop (cmem d) (x, l) = Inr x"
proof -
  have "mem_read (map Some d @ [Some NUL]) (int (length d)) = Inr NUL" by (rule read_at) simp
  then show ?thesis using assms by (subst parse_loop.simps) (simp add: cmem_def)
qed

lemma parse_fault:
  assumes "d = pre @ c # s" "c \<noteq> NUL" "pl_idx l = int (length pre)" "parse_char (cmem d) c (x, l) = Inl e"
  shows "parse_loop (cmem d) (x, l) = Inl e"
proof -
  have "mem_read (map Some pre @ Some c # map Some s @ [Some NUL]) (int (length pre)) = Inr c"
    by (rule read_at) simp
  then have "mem_read (cmem d) (pl_idx l) = Inr c" using assms(1,3) by (simp add: cmem_def)
  then show ?thesis using assms(2,4) by (subst parse_loop.simps) simp
qed

lemma mem_starts_text:
  "NUL \<notin> set p \<Longrightarrow> mem_starts (cmem (pre @ t)) (int (length pre)) p = Inr (starts_with p t)"
proof (induction p arbitrary: pre t)
  case (Cons c cs)
  show ?case
  proof (cases t)
    case Nil
    have "mem_read (map Some pre @ [Some NUL]) (int (length pre)) = Inr NUL" by (rule read_at) simp
    then show ?thesis using Cons.prems Nil by (simp add: cmem_def)
  next
    case t: (Cons b bs)
    have "mem_read (map Some pre @ Some b # map Some bs @ [Some NUL]) (int (length pre)) = Inr b"
      by (rule read_at) simp
    then have "mem_read (cmem (pre @ t)) (int (length pre)) = Inr b" by (simp add: cmem_def t)
    moreover have "mem_starts (cmem ((pre @ [b]) @ bs)) (int (length (pre @ [b]))) cs = Inr (starts_with cs bs)"
      using Cons.prems by (intro Cons.IH) simp
    ultimately show ?thesis by (auto simp: t add.commute)
  qed
qed simp

lemma skip_comment_none:
  assumes "d = pre @ CHR ''<'' # s" "pl_idx l = int (length pre)" "\<forall>t. s \<noteq> CHR ''!'' # t"
  shows "skip_comment (cmem d) (x, l) = Inr None"
proof -
  have "\<not> starts_with ''<!--'' (CHR ''<'' # s)" using assms(3) by (cases s) auto
  then have "mem_starts (cmem d) (pl_idx l) ''<!--'' = Inr False"
    using mem_starts_text [of "''<!--''" pre "CHR ''<'' # s"] assms(1,2) by (simp del: mem_starts.simps)
  then show ?thesis by (simp add: skip_comment_def del: mem_starts.simps)
qed

lemma tag_state_other:
  "c \<noteq> CHR ''<'' \<Longrightarrow> c \<noteq> CHR ''>'' \<Longrightarrow> tag_state src c l = Inr l"
  by (simp add: tag_state_def)

lemma tag_state_end: "tag_state src CHR ''>'' l = Inr (l\<lparr>iLastState := iState l, iState := stTagEnd\<rparr>)"
  by (simp add: tag_state_def)

lemma tag_state_begin:
  assumes "d = pre @ CHR ''<'' # s" "pl_idx l = int (length pre)" "\<forall>t. s \<noteq> CHR ''!'' # t"
  shows "tag_state (cmem d) CHR ''<'' l = Inr (l\<lparr>iLastState := iState l, iState := stTagBegin\<rparr>)"
proof -
  have "\<not> starts_with ''<![CDATA'' (CHR ''<'' # s)" using assms(3) by (cases s) auto
  then have "mem_starts (cmem d) (pl_idx l) ''<![CDATA'' = Inr False"
    using mem_starts_text [of "''<![CDATA''" pre "CHR ''<'' # s"] assms(1,2) by (simp del: mem_starts.simps)
  then show ?thesis by (simp add: tag_state_def del: mem_starts.simps)
qed

text \<open>Between tags, the scan mark at \<open>m\<close>; inside a tag that starts at \<open>t\<close>, the attribute mark at \<open>m\<close>.\<close>

definition scanning :: "int \<Rightarrow> int \<Rightarrow> nat option \<Rightarrow> parse_locals" where
  "scanning i m p =
     \<lparr>pl_idx = i, inQoute = False, iTagMarkStart = 0, iAttribMarkStart = 0, iScanMarkStart = m,
      iState = stTagScan, iLastState = stTagEnd, pElement = p\<rparr>"

definition in_tag :: "int \<Rightarrow> bool \<Rightarrow> int \<Rightarrow> int \<Rightarrow> nat \<Rightarrow> parse_locals" where
  "in_tag i q t m a =
     \<lparr>pl_idx = i, inQoute = q, iTagMarkStart = t, iAttribMarkStart = m, iScanMarkStart = 0,
      iState = stTagProcess, iLastState = stTagBegin, pElement = Some a\<rparr>"

section \<open>Text\<close>

definition scan_buf :: "cXMLLiteParser \<Rightarrow> string \<Rightarrow> bool" where
  "scan_buf x t \<longleftrightarrow> bufs_ok x \<and> (\<exists>blk. m_pWorkingBuffer x = Some blk \<and> take (length t) blk = map Some t)"

lemma scan_buf_Nil: "bufs_ok x \<Longrightarrow> m_pWorkingBuffer x = Some blk \<Longrightarrow> scan_buf x []"
  by (simp add: scan_buf_def)

lemma tag_scan_spec:
  assumes b: "scan_buf x u" and n: "length u < 1024"
    and l: "pl_idx l = iScanMarkStart l + int (length u)"
  shows "\<exists>x'. tag_scan c (x, l) = Inr (x', l\<lparr>pl_idx := pl_idx l + 1\<rparr>) \<and> scan_buf x' (u @ [c]) \<and> focus x' = focus x"
proof -
  from b obtain blk where blk: "m_pWorkingBuffer x = Some blk" "take (length u) blk = map Some u" "bufs_ok x"
    by (auto simp: scan_buf_def)
  then have len: "m_iWorkingBufferSize x = int (length blk)" "1024 \<le> length blk"
    by (auto simp: bufs_ok_def work_ok_def)
  let ?b = "blk[length u := Some c]"
  have w: "mem_write blk (int (length u)) c = Inr ?b" using n len by (simp add: mem_write_def)
  have "take (length (u @ [c])) ?b = map Some (u @ [c])"
    using blk(2) n len by (simp add: take_Suc_conv_app_nth)
  moreover have "bufs_ok (x\<lparr>m_pWorkingBuffer := Some ?b\<rparr>)"
    using blk(1,3) by (simp add: bufs_ok_def work_ok_def)
  ultimately have "scan_buf (x\<lparr>m_pWorkingBuffer := Some ?b\<rparr>) (u @ [c])" by (simp add: scan_buf_def)
  then show ?thesis
    using blk(1) w n len l by (simp add: tag_scan_def Let_def on_working_def working_def)
qed

lemma scan_run:
  assumes "d = pre @ u @ t @ s" "scan_buf x u" "length (u @ t) \<le> 1024"
    and "\<forall>c \<in> set t. c \<noteq> CHR ''<'' \<and> c \<noteq> CHR ''>'' \<and> c \<noteq> NUL"
  shows "\<exists>x'. parse_loop (cmem d) (x, scanning (int (length (pre @ u))) (int (length pre)) p) =
      parse_loop (cmem d) (x', scanning (int (length (pre @ u @ t))) (int (length pre)) p) \<and>
    scan_buf x' (u @ t) \<and> focus x' = focus x"
  using assms
proof (induction t arbitrary: u x)
  case Nil
  then show ?case by auto
next
  case (Cons c t)
  let ?l = "scanning (int (length (pre @ u))) (int (length pre)) p"
  have c: "c \<noteq> CHR ''<''" "c \<noteq> CHR ''>''" "c \<noteq> NUL" using Cons.prems(4) by auto
  have "pl_idx ?l = iScanMarkStart ?l + int (length u)" "length u < 1024"
    using Cons.prems(3) by (simp_all add: scanning_def)
  from tag_scan_spec [OF Cons.prems(2) this(2,1), of c] obtain x1
    where x1: "tag_scan c (x, ?l) = Inr (x1, ?l\<lparr>pl_idx := pl_idx ?l + 1\<rparr>)" "scan_buf x1 (u @ [c])"
      "focus x1 = focus x" by blast
  have "parse_char (cmem d) c (x, ?l) = Inr (x1, ?l\<lparr>pl_idx := pl_idx ?l + 1\<rparr>)"
    using c x1(1) by (simp add: parse_char_def tag_state_other scanning_def)
  then have "parse_loop (cmem d) (x, ?l) = parse_loop (cmem d) (x1, ?l\<lparr>pl_idx := pl_idx ?l + 1\<rparr>)"
    using Cons.prems(1) c by (intro parse_step [of d "pre @ u" c "t @ s"]) (simp_all add: scanning_def)
  also have "?l\<lparr>pl_idx := pl_idx ?l + 1\<rparr> = scanning (int (length (pre @ u @ [c]))) (int (length pre)) p"
    by (simp add: scanning_def)
  finally have "parse_loop (cmem d) (x, ?l) =
      parse_loop (cmem d) (x1, scanning (int (length (pre @ u @ [c]))) (int (length pre)) p)" .
  moreover have "d = pre @ (u @ [c]) @ t @ s" "length ((u @ [c]) @ t) \<le> 1024"
    "\<forall>c \<in> set t. c \<noteq> CHR ''<'' \<and> c \<noteq> CHR ''>'' \<and> c \<noteq> NUL" using Cons.prems by auto
  from Cons.IH [OF this(1) x1(2) this(2,3)] x1(3) obtain x'
    where "parse_loop (cmem d) (x1, scanning (int (length (pre @ u @ [c]))) (int (length pre)) p) =
        parse_loop (cmem d) (x', scanning (int (length (pre @ (u @ [c]) @ t))) (int (length pre)) p)"
      "scan_buf x' ((u @ [c]) @ t)" "focus x' = focus x" by auto
  ultimately show ?case by auto
qed

section \<open>The start of a tag\<close>

text \<open>The value that a text gives: blanks off at both ends, entities replaced; none if nothing is left.\<close>

definition text_value :: "string \<Rightarrow> string option" where
  "text_value t =
     (let s = rstrip is_blank (dropWhile is_blank t) in if s = [] then None else Some (xml_decode s))"

definition set_value :: "string \<Rightarrow> xml_elem \<Rightarrow> xml_elem" where
  "set_value t v =
     (case text_value t of
        None \<Rightarrow> v
      | Some u \<Rightarrow> XE (xe_name v) (Some u) (xe_attrs v) (xe_cdata v))"

lemma rstrip_Nil: "rstrip P s = [] \<longleftrightarrow> s = []"
  by (cases s) (simp_all add: rstrip_def)

lemma store_value_none: "iScanMarkStart l = 0 \<or> pl_idx l = iScanMarkStart l \<Longrightarrow> store_value (x, l) = Inr x"
  by (auto simp: store_value_def)

lemma scan_buf_wb:
  assumes b: "scan_buf x t" and n: "length t < 1024" and t: "NUL \<notin> set t"
  shows "\<exists>x'. CheckWorkingBuffer x (int (length t) + 1) = Inr x \<and>
    on_working x (\<lambda>blk. mem_write blk (int (length t)) NUL) = Inr x' \<and> wb x' t \<and> focus x' = focus x"
proof -
  from b obtain blk where blk: "m_pWorkingBuffer x = Some blk" "take (length t) blk = map Some t" "bufs_ok x"
    by (auto simp: scan_buf_def)
  then have len: "m_iWorkingBufferSize x = int (length blk)" "1024 \<le> length blk"
    by (auto simp: bufs_ok_def work_ok_def)
  let ?b = "blk[length t := Some NUL]"
  have "?b = take (length t) blk @ Some NUL # drop (Suc (length t)) blk"
    using n len by (intro upd_conv_take_nth_drop) simp
  then have "?b = map Some t @ Some NUL # drop (Suc (length t)) blk" using blk(2) by simp
  then have "cblock ?b (length blk) t" using t n len by (simp add: cblock_iff)
  then have "wb (x\<lparr>m_pWorkingBuffer := Some ?b\<rparr>) t"
    using blk(1,3) by (simp add: wb_def bufs_ok_def work_ok_def)
  moreover have "mem_write blk (int (length t)) NUL = Inr ?b" using n len by (simp add: mem_write_def)
  moreover have "CheckWorkingBuffer x (int (length t) + 1) = Inr x"
    using n len by (auto simp: CheckWorkingBuffer_def)
  ultimately show ?thesis using blk(1) by (simp add: on_working_def working_def)
qed

lemma store_value_spec:
  assumes b: "scan_buf x t" "length t < 1024" "NUL \<notin> set t"
    and f: "focus x (Some a) (vs @ [v])"
    and l: "l = (scanning (int (length pre + length t)) (int (length pre)) (Some a))
        \<lparr>iLastState := stTagScan, iState := stTagBegin\<rparr>" "pre \<noteq> []"
  shows "\<exists>x'. store_value (x, l) = Inr x' \<and> focus x' (Some a) (vs @ [set_value t v]) \<and> bufs_ok x'"
proof (cases "t = []")
  case True
  then have "store_value (x, l) = Inr x" using l by (intro store_value_none) (simp add: scanning_def)
  then show ?thesis using True f b by (simp add: set_value_def text_value_def rstrip_def scan_buf_def)
next
  case False
  let ?s = "dropWhile is_blank t" and ?r = "rstrip is_blank (dropWhile is_blank t)"
  from scan_buf_wb [OF b] obtain x1
    where x1: "CheckWorkingBuffer x (int (length t) + 1) = Inr x"
      "on_working x (\<lambda>blk. mem_write blk (int (length t)) NUL) = Inr x1" "wb x1 t" "focus x1 = focus x" by blast
  obtain x2 where x2: "on_working x1 StripLeading = Inr x2" "wb x2 ?s" "focus x2 = focus x1"
    using on_working_wb [OF x1(3), of StripLeading ?s] strip_leading_spec by (auto simp: StripLeading_def)
  obtain x3 where x3: "on_working x2 StripTrailing = Inr x3" "wb x3 ?r" "focus x3 = focus x2"
    using on_working_wb [OF x2(2), of StripTrailing ?r] strip_trailing_spec by (auto simp: StripTrailing_def)
  from wb_first [OF x3(2)] obtain c
    where c: "rbind (working x3) (\<lambda>blk. mem_read blk 0) = Inr c" "c = NUL \<longleftrightarrow> ?r = []" by blast
  have f3: "focus x3 (Some a) (vs @ [v])" using f x1(4) x2(3) x3(3) by simp
  have eq: "store_value (x, l) =
      (if c \<noteq> NUL then
         rbind (on_working x3 TransformXMLEntities) (\<lambda>x.
         rbind (working x) (\<lambda>blk. on_element x (Some a) (\<lambda>e. SetElementValue e blk)))
       else Inr x3)"
    using x1(1,2) x2(1) x3(1) c(1) l False by (simp add: store_value_def scanning_def Let_def)
  show ?thesis
  proof (cases "?r = []")
    case True
    then show ?thesis using eq c(2) f3 x3(2) by (simp add: set_value_def text_value_def Let_def wb_def)
  next
    case r: False
    then have v: "set_value t v = XE (xe_name v) (Some (xml_decode ?r)) (xe_attrs v) (xe_cdata v)"
      by (simp add: set_value_def text_value_def Let_def)
    obtain x4 where x4: "on_working x3 TransformXMLEntities = Inr x4" "wb x4 (xml_decode ?r)" "focus x4 = focus x3"
      using on_working_wb [OF x3(2), of TransformXMLEntities "xml_decode ?r"] TransformXMLEntities_spec by auto
    from wb_working [OF x4(2)] obtain blk where blk: "working x4 = Inr blk" "read_cstr blk = Inr (xml_decode ?r)" by blast
    have f4: "focus x4 (Some a) (vs @ [v])" using f3 x4(3) by simp
    have "\<exists>e'. SetElementValue e blk = Inr e' \<and> el_is e' (set_value t v)" if "el_is e v" for e
      using SetElementValue_spec [of e "xe_name v" "xe_value v" "xe_attrs v" "xe_cdata v"] that blk(2) v by simp
    from on_element_focus [OF f4, where f = "\<lambda>e. SetElementValue e blk", OF this] obtain x5
      where "on_element x4 (Some a) (\<lambda>e. SetElementValue e blk) = Inr x5"
        "focus x5 (Some a) (vs @ [set_value t v])" "bufs_ok x5 = bufs_ok x4" by blast
    then show ?thesis using eq r c(2) x4(1,2) blk(1) by (simp add: wb_def)
  qed
qed

lemma tag_begin_first:
  assumes d: "d = CHR ''<'' # s" "\<forall>t. s \<noteq> CHR ''!'' # t" and x: "focus x None vs" "bufs_ok x"
  shows "\<exists>x' a. parse_loop (cmem d) (x, parse_start) = parse_loop (cmem d) (x', in_tag 1 False 0 0 a) \<and>
    focus x' (Some a) (vs @ [no_element]) \<and> bufs_ok x' \<and> m_pWorkingBuffer x' = m_pWorkingBuffer x"
proof -
  from GetNewEntry_focus [OF x(1)] obtain a x'
    where x': "GetNewEntry x = Inr (a, x')" "focus x' (Some a) (vs @ [no_element])" "bufs_ok x' = bufs_ok x"
      "m_pWorkingBuffer x' = m_pWorkingBuffer x" by blast
  have "parse_char (cmem d) CHR ''<'' (x, parse_start) = Inr (x', in_tag 1 False 0 0 a)"
    using skip_comment_none [of d "[]" s parse_start x] tag_state_begin [of d "[]" s parse_start] d x'(1)
    by (simp add: parse_char_def parse_start_def tag_begin_def store_value_none in_tag_def)
  then have "parse_loop (cmem d) (x, parse_start) = parse_loop (cmem d) (x', in_tag 1 False 0 0 a)"
    using d(1) by (intro parse_step [of d "[]" _ s]) (simp_all add: parse_start_def)
  then show ?thesis using x' x(2) by auto
qed

lemma tag_begin_next:
  assumes d: "d = pre @ t @ CHR ''<'' # s" "\<forall>t. s \<noteq> CHR ''!'' # t" "pre \<noteq> []"
    and b: "scan_buf x t" "length t < 1024" "NUL \<notin> set t" and x: "focus x (Some b) (vs @ [v])"
  shows "\<exists>x' a. parse_loop (cmem d) (x, scanning (int (length (pre @ t))) (int (length pre)) (Some b)) =
      parse_loop (cmem d) (x', in_tag (int (length (pre @ t)) + 1) False (int (length (pre @ t))) 0 a) \<and>
    focus x' (Some a) (vs @ [set_value t v] @ [no_element]) \<and> bufs_ok x'"
proof -
  let ?l = "scanning (int (length (pre @ t))) (int (length pre)) (Some b)"
  let ?l1 = "?l\<lparr>iLastState := stTagScan, iState := stTagBegin\<rparr>"
  from store_value_spec [OF b x _ d(3), of ?l1] obtain x1
    where x1: "store_value (x, ?l1) = Inr x1" "focus x1 (Some b) (vs @ [set_value t v])" "bufs_ok x1" by auto
  from GetNewEntry_focus [OF x1(2)] obtain a x'
    where x': "GetNewEntry x1 = Inr (a, x')" "focus x' (Some a) ((vs @ [set_value t v]) @ [no_element])"
      "bufs_ok x' = bufs_ok x1" by blast
  have i: "pl_idx ?l = int (length (pre @ t))" "iState ?l = stTagScan" by (simp_all add: scanning_def)
  have d': "d = (pre @ t) @ CHR ''<'' # s" using d(1) by simp
  have "tag_begin (x, ?l1) = Inr (x', in_tag (int (length (pre @ t)) + 1) False (int (length (pre @ t))) 0 a)"
    using x1(1) x'(1) by (simp add: tag_begin_def scanning_def in_tag_def)
  then have "parse_char (cmem d) CHR ''<'' (x, ?l) =
      Inr (x', in_tag (int (length (pre @ t)) + 1) False (int (length (pre @ t))) 0 a)"
    using skip_comment_none [OF d' i(1) d(2), of x] tag_state_begin [OF d' i(1) d(2)] i(2)
    by (simp add: parse_char_def)
  from parse_step [OF d' _ i(1) this] show ?thesis using x' x1(3) by auto
qed

section \<open>Inside a tag\<close>

lemma in_tag_step:
  assumes d: "d = pre @ c # s" and c: "c \<noteq> NUL" "c \<noteq> CHR ''<''" "c \<noteq> CHR ''>''"
    and quiet: "c = SP \<and> m \<noteq> 0 \<and> q \<or> c = TAB \<and> q \<or> c \<noteq> SP \<and> c \<noteq> TAB"
  shows "parse_loop (cmem d) (x, in_tag (int (length pre)) q t m a) =
    parse_loop (cmem d) (x, in_tag (int (length pre) + 1) (if c = CHR 0x22 then \<not> q else q) t m a)"
proof (rule parse_step [OF d c(1)])
  show "parse_char (cmem d) c (x, in_tag (int (length pre)) q t m a) =
      Inr (x, in_tag (int (length pre) + 1) (if c = CHR 0x22 then \<not> q else q) t m a)"
    using c quiet by (auto simp: parse_char_def tag_state_other tag_process_def in_tag_def Let_def)
qed (simp add: in_tag_def)

text \<open>A run of characters outside quotation marks.\<close>

definition plain :: "char \<Rightarrow> bool" where
  "plain c \<longleftrightarrow> c \<noteq> NUL \<and> \<not> is_dropped c \<and> \<not> is_quote c \<and> c \<noteq> SP \<and> c \<noteq> CHR ''?''"

text \<open>A character inside quotation marks.\<close>

definition quoted :: "char \<Rightarrow> bool" where
  "quoted c \<longleftrightarrow> c \<noteq> NUL \<and> \<not> is_dropped c \<and> \<not> is_quote c"

lemma plain_run:
  assumes "d = pre @ u @ s" "\<forall>c \<in> set u. plain c"
  shows "parse_loop (cmem d) (x, in_tag (int (length pre)) q t m a) =
    parse_loop (cmem d) (x, in_tag (int (length (pre @ u))) q t m a)"
  using assms
proof (induction u arbitrary: pre)
  case (Cons c u)
  then have c: "c \<noteq> NUL" "c \<noteq> CHR ''<''" "c \<noteq> CHR ''>''" "c \<noteq> SP" "c \<noteq> TAB" "c \<noteq> CHR 0x22"
    by (auto simp: plain_def is_dropped_def is_quote_def)
  have "parse_loop (cmem d) (x, in_tag (int (length pre)) q t m a) =
      parse_loop (cmem d) (x, in_tag (int (length (pre @ [c]))) q t m a)"
    using in_tag_step [of d pre c "u @ s" m q x t a] Cons.prems(1) c by (simp add: add.commute)
  also have "\<dots> = parse_loop (cmem d) (x, in_tag (int (length ((pre @ [c]) @ u))) q t m a)"
    using Cons.prems by (intro Cons.IH) auto
  finally show ?case by simp
qed simp

lemma quoted_run:
  assumes "d = pre @ u @ s" "\<forall>c \<in> set u. quoted c" "m \<noteq> 0"
  shows "parse_loop (cmem d) (x, in_tag (int (length pre)) True t m a) =
    parse_loop (cmem d) (x, in_tag (int (length (pre @ u))) True t m a)"
  using assms
proof (induction u arbitrary: pre)
  case (Cons c u)
  then have c: "c \<noteq> NUL" "c \<noteq> CHR ''<''" "c \<noteq> CHR ''>''" "c \<noteq> TAB" "c \<noteq> CHR 0x22"
    by (auto simp: quoted_def is_dropped_def is_quote_def)
  have "parse_loop (cmem d) (x, in_tag (int (length pre)) True t m a) =
      parse_loop (cmem d) (x, in_tag (int (length (pre @ [c]))) True t m a)"
    using in_tag_step [of d pre c "u @ s" m True x t a] Cons.prems(1,3) c by (simp add: add.commute)
  also have "\<dots> = parse_loop (cmem d) (x, in_tag (int (length ((pre @ [c]) @ u))) True t m a)"
    using Cons.prems by (intro Cons.IH) auto
  finally show ?case by simp
qed simp

text \<open>The blank that opens the attributes sets the mark.\<close>

lemma first_blank:
  assumes d: "d = pre @ SP # s"
  shows "parse_loop (cmem d) (x, in_tag (int (length pre)) q t 0 a) =
    parse_loop (cmem d) (x, in_tag (int (length pre) + 1) q t (int (length pre)) a)"
proof (rule parse_step [OF d])
  show "parse_char (cmem d) SP (x, in_tag (int (length pre)) q t 0 a) =
      Inr (x, in_tag (int (length pre) + 1) q t (int (length pre)) a)"
    by (simp add: parse_char_def tag_state_other tag_process_def in_tag_def Let_def)
qed (simp_all add: in_tag_def)

section \<open>Attributes\<close>

definition quote :: string where "quote = [CHR 0x22]"

definition attr_text :: "string \<times> string \<Rightarrow> string" where
  "attr_text kv = fst kv @ ''='' @ quote @ snd kv @ quote"

text \<open>
  The attributes: a name of plain characters, a value in quotation marks. The parser reads those back
  whose value is not empty and does not start with a blank.
\<close>

definition attr_shape :: "string \<times> string \<Rightarrow> bool" where
  "attr_shape kv \<longleftrightarrow>
     fst kv \<noteq> [] \<and> (\<forall>c \<in> set (fst kv). plain c \<and> c \<noteq> CHR ''='') \<and> (\<forall>c \<in> set (snd kv). quoted c)"

definition attr_ok :: "string \<times> string \<Rightarrow> bool" where
  "attr_ok kv \<longleftrightarrow> attr_shape kv \<and> snd kv \<noteq> [] \<and> hd (snd kv) \<noteq> SP"

lemma attr_ok_shape: "attr_ok kv \<Longrightarrow> attr_shape kv"
  by (simp add: attr_ok_def)

lemma kept_plain: "\<forall>c \<in> set u. plain c \<Longrightarrow> kept q (u @ s) = u @ kept q s"
  by (induction u) (auto simp: plain_def Let_def)

lemma kept_quoted: "\<forall>c \<in> set u. quoted c \<Longrightarrow> kept True (u @ s) = u @ kept True s"
  by (induction u) (auto simp: quoted_def Let_def)

lemma kept_char [simp]:
  "kept q (SP # s) = SP # kept q s" "kept q (CHR ''='' # s) = CHR ''='' # kept q s"
  "kept q (CHR ''<'' # s) = kept q s" "kept q (CHR ''>'' # s) = kept q s"
  "kept q (CHR ''/'' # s) = CHR ''/'' # kept q s"
  "kept False (CHR 0x22 # s) = CHR 0x22 # kept True s" "kept True (CHR 0x22 # s) = CHR 0x22 # kept False s"
  by (simp_all add: is_quote_def is_dropped_def)

declare kept.simps(2) [simp del]

lemma kept_attr: "attr_shape kv \<Longrightarrow> kept False (attr_text kv @ s) = attr_text kv @ kept False s"
  by (simp add: attr_text_def quote_def attr_shape_def kept_plain kept_quoted)

lemma quote_is_quote [simp]: "is_quote CHR 0x22"
  by (simp add: is_quote_def)

lemma attr_no_quote:
  "attr_shape kv \<Longrightarrow> \<forall>c \<in> set (fst kv @ ''=''). \<not> is_quote c" "attr_shape kv \<Longrightarrow> \<forall>c \<in> set (snd kv). \<not> is_quote c"
  by (auto simp: attr_shape_def plain_def quoted_def is_quote_def)

lemma clean_attr:
  assumes kv: "attr_shape kv" and e: "e = [SP] \<or> e = ''>'' \<or> e = ''/>''"
  shows "clean (SP # attr_text kv @ e) = fst kv @ CHR ''='' # snd kv"
proof -
  obtain k v where kv': "kv = (k, v)" by (cases kv)
  have k: "k \<noteq> []" "hd k \<noteq> SP" using kv by (auto simp: kv' attr_shape_def plain_def)
  let ?e = "if e = ''/>'' then ''/'' else []"
  have kp: "kept False (SP # attr_text kv @ e) = SP # attr_text kv @ (if e = [SP] then [SP] else ?e)"
    using e kept_attr [OF kv, of e] by auto
  have dw: "dropWhile (\<lambda>c. c = SP) (SP # attr_text kv @ w) = attr_text kv @ w" for w
    using k by (cases k) (auto simp: attr_text_def kv')
  have ne: "attr_text kv \<noteq> []" using k by (simp add: attr_text_def kv')
  have lst: "rstrip (\<lambda>c. c = SP) (attr_text kv) = attr_text kv"
    using rstrip_snoc [of "k @ ''='' @ quote @ v" "\<lambda>c. c = SP" "CHR 0x22"] k by (simp add: attr_text_def kv' quote_def)
  have rs: "rstrip (\<lambda>c. c = SP) (attr_text kv @ (if e = [SP] then [SP] else ?e)) = attr_text kv @ ?e"
    using e lst rstrip_snoc [OF ne] by auto
  have nq: "\<forall>c \<in> set (k @ ''='') \<union> set ?e. \<not> is_quote c"
    using attr_no_quote(1) [OF kv] by (auto simp: kv' is_quote_def)
  have "unquote (attr_text kv @ ?e) = k @ ''='' @ v"
    using unquote_pair [of "k @ ''=''" v "CHR 0x22" "CHR 0x22" ?e] nq k by (simp add: attr_text_def kv' quote_def)
  then show ?thesis unfolding clean_def kp dw rs by (simp add: kv')
qed

definition with_attr :: "string \<times> string \<Rightarrow> xml_elem \<Rightarrow> xml_elem" where
  "with_attr kv v = XE (xe_name v) (xe_value v) (xe_attrs v @ [(fst kv, xml_decode (snd kv))]) (xe_cdata v)"

lemma attr_text_chars: "attr_shape kv \<Longrightarrow> NUL \<notin> set (attr_text kv)"
  by (auto simp: attr_shape_def attr_text_def quote_def plain_def quoted_def)

text \<open>The piece of the document with one attribute, cleaned, is what \<open>SplitParam\<close> gets.\<close>

lemma add_attribute_clean:
  assumes d: "d = pre @ piece @ s" and p: "piece = SP # attr_text kv @ e" "attr_shape kv"
      "e = [SP] \<or> e = ''>'' \<or> e = ''/>''" "length piece \<le> 1020"
    and l: "iAttribMarkStart l = int (length pre)" "pl_idx l = int (length pre + length piece) - 1"
    and x: "bufs_ok x" "m_pWorkingBuffer x = Some blk"
  shows "\<exists>x' b. add_attribute (cmem d) (x, l) = SplitParam x' b (pElement l) \<and>
    focus x' = focus x \<and> bufs_ok x' \<and> m_pWorkingBuffer x' = Some b \<and>
    cblock b (length b) (fst kv @ CHR ''='' # snd kv)"
proof -
  have len: "1024 \<le> length blk" using x(1,2) by (simp add: bufs_ok_def work_ok_def)
  have n: "NUL \<notin> set piece" "piece \<noteq> []" "length piece < length blk"
    using p attr_text_chars [OF p(2)] len by auto
  from copy_piece_spec [OF x(1,2) d n l(1,2)] obtain x1
    where x1: "copy_piece (cmem d) (iAttribMarkStart l) (pl_idx l) x = Inr x1" "wb x1 piece" "focus x1 = focus x"
    by (auto simp: l(1,2))
  let ?c = "fst kv @ CHR ''='' # snd kv"
  have cl: "clean piece = ?c" unfolding p(1) by (rule clean_attr [OF p(2,3)])
  have "\<exists>blk'. CleanInput blk = Inr blk' \<and> cblock blk' n ?c" if "1024 \<le> n" "cblock blk n piece" for blk n
    using CleanInput_spec [OF that(2)] that(1) p(4) cl by simp
  from on_working_wb [OF x1(2), where f = CleanInput, OF this] obtain x2
    where x2: "on_working x1 CleanInput = Inr x2" "wb x2 ?c" "focus x2 = focus x1" by blast
  from x2(2) obtain b where b: "m_pWorkingBuffer x2 = Some b" "cblock b (length b) ?c" "bufs_ok x2"
    by (auto simp: wb_def)
  have rd: "\<exists>c. mem_read b 0 = Inr c \<and> c \<noteq> NUL" using cblock_first_NUL [OF b(2)] by auto
  have "add_attribute (cmem d) (x, l) = SplitParam x2 b (pElement l)"
    using x1(1) x2(1) b(1) rd by (auto simp: add_attribute_def working_def)
  then show ?thesis using b x1(3) x2(3) by auto
qed

lemma attr_key: "attr_shape kv \<Longrightarrow> CHR ''='' \<notin> set (fst kv)" "attr_shape kv \<Longrightarrow> fst kv \<noteq> []"
  by (auto simp: attr_shape_def)

text \<open>It becomes an attribute of the element.\<close>

lemma add_attribute_spec:
  assumes d: "d = pre @ piece @ s" and p: "piece = SP # attr_text kv @ e" "attr_ok kv"
      "e = [SP] \<or> e = ''>'' \<or> e = ''/>''" "length piece \<le> 1020"
    and l: "iAttribMarkStart l = int (length pre)" "pl_idx l = int (length pre + length piece) - 1" "pElement l = Some a"
    and x: "bufs_ok x" "m_pWorkingBuffer x = Some blk" "focus x (Some a) (vs @ [v])"
  shows "\<exists>x' blk'. add_attribute (cmem d) (x, l) = Inr x' \<and> focus x' (Some a) (vs @ [with_attr kv v]) \<and>
    bufs_ok x' \<and> m_pWorkingBuffer x' = Some blk'"
proof -
  note sh = attr_ok_shape [OF p(2)]
  from add_attribute_clean [OF d p(1) sh p(3,4) l(1,2) x(1,2)] obtain x2 b
    where x2: "add_attribute (cmem d) (x, l) = SplitParam x2 b (pElement l)" "focus x2 = focus x" "bufs_ok x2"
      "m_pWorkingBuffer x2 = Some b" "cblock b (length b) (fst kv @ CHR ''='' # snd kv)" by blast
  have f: "focus x2 (Some a) (vs @ [XE (xe_name v) (xe_value v) (xe_attrs v) (xe_cdata v)])"
    using x(3) x2(2) by simp
  have v: "\<forall>t. snd kv \<noteq> SP # t" "snd kv \<noteq> []" using p(2) by (cases "snd kv"; simp add: attr_ok_def)+
  have "last (snd kv) \<in> set (snd kv)" using v(2) by simp
  then have "last (snd kv) \<noteq> CR" using sh by (auto simp: attr_shape_def quoted_def is_dropped_def)
  from SplitParam_spec [OF x2(3) f x2(5) attr_key [OF sh] v this] show ?thesis
    using x2(1,4) l(3) by (auto simp: with_attr_def)
qed

text \<open>A blank behind an attribute.\<close>

lemma attribute_step:
  assumes d: "d = pre @ SP # attr_text kv @ SP # s" "attr_ok kv" "length (attr_text kv) \<le> 1018" "pre \<noteq> []"
    and x: "bufs_ok x" "focus x (Some a) (vs @ [v])"
  shows "\<exists>x'. parse_loop (cmem d)
      (x, in_tag (int (length (pre @ SP # attr_text kv))) False t (int (length pre)) a) =
    parse_loop (cmem d)
      (x', in_tag (int (length (pre @ SP # attr_text kv)) + 1) False t (int (length (pre @ SP # attr_text kv))) a) \<and>
    focus x' (Some a) (vs @ [with_attr kv v]) \<and> bufs_ok x'"
proof -
  let ?piece = "SP # attr_text kv @ [SP]"
  let ?l = "in_tag (int (length (pre @ SP # attr_text kv))) False t (int (length pre)) a"
  have n: "pl_idx ?l - iAttribMarkStart ?l + 1 = int (length ?piece)" by (simp add: in_tag_def)
  have le: "int (length ?piece) \<le> 1024" "length ?piece \<le> 1020" using d(3) by simp_all
  from CheckWorkingBuffer_room [OF x(1) le(1)] obtain x1 blk
    where x1: "CheckWorkingBuffer x (int (length ?piece)) = Inr x1" "bufs_ok x1" "focus x1 = focus x"
      "m_pWorkingBuffer x1 = Some blk" by blast
  have d': "d = pre @ ?piece @ s" using d(1) by simp
  have l: "iAttribMarkStart ?l = int (length pre)" "pl_idx ?l = int (length pre + length ?piece) - 1" "pElement ?l = Some a"
    by (simp_all add: in_tag_def)
  from add_attribute_spec [OF d' refl d(2) _ le(2) l x1(2,4)] x(2) x1(3) obtain x2
    where x2: "add_attribute (cmem d) (x1, ?l) = Inr x2" "focus x2 (Some a) (vs @ [with_attr kv v])" "bufs_ok x2"
    by auto
  define l where "l = ?l"
  have m0: "iAttribMarkStart l \<noteq> 0" "\<not> inQoute l" "iState l = stTagProcess"
    using d(4) by (simp_all add: l_def in_tag_def)
  have "tag_process (cmem d) SP (x, l) =
      Inr (x2, l\<lparr>iAttribMarkStart := iAttribMarkStart l + (pl_idx l - iAttribMarkStart l), pl_idx := pl_idx l + 1\<rparr>)"
    using n x1(1) x2(1) m0 unfolding l_def [symmetric] by (simp add: tag_process_def)
  moreover have "l\<lparr>iAttribMarkStart := iAttribMarkStart l + (pl_idx l - iAttribMarkStart l), pl_idx := pl_idx l + 1\<rparr> =
      in_tag (int (length (pre @ SP # attr_text kv)) + 1) False t (int (length (pre @ SP # attr_text kv))) a"
    by (simp add: l_def in_tag_def)
  ultimately have "parse_char (cmem d) SP (x, ?l) =
      Inr (x2, in_tag (int (length (pre @ SP # attr_text kv)) + 1) False t (int (length (pre @ SP # attr_text kv))) a)"
    using m0(3) unfolding l_def [symmetric] by (simp add: parse_char_def tag_state_other)
  from parse_step [of d "pre @ SP # attr_text kv" SP s ?l, OF _ _ _ this] show ?thesis
    using d(1) x2 by (auto simp: in_tag_def)
qed

section \<open>The end of a tag\<close>

definition named :: "string \<Rightarrow> xml_elem \<Rightarrow> xml_elem" where
  "named n v = XE (Some n) (xe_value v) (xe_attrs v) (xe_cdata v)"

text \<open>The name that a tag gives, and whether it is a tag without content.\<close>

definition short_tag :: "string \<Rightarrow> bool" where
  "short_tag piece \<longleftrightarrow> last (butlast piece) = CHR ''/''"

definition piece_name :: "string \<Rightarrow> string" where
  "piece_name piece =
     (let n = takeWhile (\<lambda>c. c \<noteq> SP) (clean piece)
      in if short_tag piece then takeWhile (\<lambda>c. c \<noteq> CHR ''/'') n else n)"

lemma tag_name_spec:
  assumes d: "d = pre @ piece @ s" and p: "NUL \<notin> set piece" "2 \<le> length piece" "length piece \<le> 1020"
    and l: "iTagMarkStart l = int (length pre)" "pl_idx l = int (length pre + length piece) - 1" "pElement l = Some a"
    and x: "bufs_ok x" "focus x (Some a) (vs @ [v])"
  shows "\<exists>x' blk. tag_name (cmem d) (x, l) = Inr (short_tag piece, x') \<and>
    focus x' (Some a) (vs @ [named (piece_name piece) v]) \<and> bufs_ok x' \<and> m_pWorkingBuffer x' = Some blk"
proof -
  have n: "pl_idx l - iTagMarkStart l + 1 = int (length piece)" using l by simp
  have le: "int (length piece) \<le> 1024" using p(3) by simp
  from CheckWorkingBuffer_room [OF x(1) le] obtain x1 blk
    where x1: "CheckWorkingBuffer x (int (length piece)) = Inr x1" "bufs_ok x1" "focus x1 = focus x"
      "m_pWorkingBuffer x1 = Some blk" "1024 \<le> length blk" by blast
  have ne: "piece \<noteq> []" "length piece < length blk" using p(2,3) x1(5) by auto
  from copy_piece_spec [OF x1(2,4) d p(1) ne l(1,2)] obtain x2
    where x2: "copy_piece (cmem d) (iTagMarkStart l) (pl_idx l) x1 = Inr x2" "wb x2 piece" "focus x2 = focus x1"
    by (auto simp: l(1,2))
  from wb_working [OF x2(2)] obtain b where b: "working x2 = Inr b" "read_cstr b = Inr piece"
    "cblock b (length b) piece" by blast
  have "mem_read b (int (length piece) - 2) = Inr (last (butlast piece))"
  proof -
    have "butlast piece \<noteq> []" using p(2) by (metis length_butlast list.size(3) diff_is_0_eq numeral_2_eq_2 not_less_eq_eq One_nat_def)
    then have "piece = (butlast (butlast piece) @ [last (butlast piece)]) @ [last piece]"
      using ne(1) by simp
    then obtain u y z where u: "piece = u @ [y, z]" by simp
    from b(3) obtain r where r: "b = map Some piece @ Some NUL # r" by (auto simp: cblock_iff)
    have "mem_read (map Some u @ Some y # Some z # Some NUL # r) (int (length u)) = Inr y" by (rule read_at) simp
    then show ?thesis using u r by (simp add: butlast_append)
  qed
  then have rd: "\<exists>c. mem_read b (int (length piece) - 2) = Inr c \<and> (c = CHR ''/'' \<longleftrightarrow> short_tag piece)"
    by (simp add: short_tag_def)
  have "\<exists>blk'. CleanInput blk = Inr blk' \<and> cblock blk' n (clean piece)" if "1024 \<le> n" "cblock blk n piece" for blk n
    using CleanInput_spec [OF that(2)] that(1) p(3) by simp
  from on_working_wb [OF x2(2), where f = CleanInput, OF this] obtain x3
    where x3: "on_working x2 CleanInput = Inr x3" "wb x3 (clean piece)" "focus x3 = focus x2" by blast
  let ?n = "takeWhile (\<lambda>c. c \<noteq> SP) (clean piece)"
  obtain x4 where x4: "on_working x3 (\<lambda>blk. TerminateAtChar blk SP) = Inr x4" "wb x4 ?n" "focus x4 = focus x3"
    using on_working_wb [OF x3(2), of "\<lambda>blk. TerminateAtChar blk SP" ?n] TerminateAtChar_spec by auto
  obtain x5 where x5: "(if short_tag piece then on_working x4 (\<lambda>blk. TerminateAtChar blk CHR ''/'') else Inr x4) = Inr x5"
      "wb x5 (piece_name piece)" "focus x5 = focus x4"
    using on_working_wb [OF x4(2), of "\<lambda>blk. TerminateAtChar blk CHR ''/''" "takeWhile (\<lambda>c. c \<noteq> CHR ''/'') ?n"]
      TerminateAtChar_spec x4(2) by (cases "short_tag piece") (auto simp: piece_name_def Let_def)
  from wb_working [OF x5(2)] obtain b5 where b5: "working x5 = Inr b5" "read_cstr b5 = Inr (piece_name piece)" by blast
  have f: "focus x5 (Some a) (vs @ [v])" using x(2) x1(3) x2(3) x3(3) x4(3) x5(3) by simp
  have "\<exists>e'. SetElementName e b5 = Inr e' \<and> el_is e' (named (piece_name piece) v)" if "el_is e v" for e
    using SetElementName_spec [of e "xe_name v" "xe_value v" "xe_attrs v" "xe_cdata v"] that b5(2)
    by (simp add: named_def)
  from on_element_focus [OF f, where f = "\<lambda>e. SetElementName e b5", OF this] obtain x6
    where x6: "on_element x5 (Some a) (\<lambda>e. SetElementName e b5) = Inr x6"
      "focus x6 (Some a) (vs @ [named (piece_name piece) v])" "bufs_ok x6 = bufs_ok x5"
      "m_pWorkingBuffer x6 = m_pWorkingBuffer x5" by blast
  have "tag_name (cmem d) (x, l) = Inr (short_tag piece, x6)"
    using n x1(1) x2(1) b(1,2) rd x3(1) x4(1) x5(1) b5(1) x6(1) l(3)
    by (auto simp: tag_name_def Let_def)
  then show ?thesis using x6 x5(2) by (auto simp: wb_def)
qed

text \<open>
  What a finished tag leaves: the element, and after a tag without content an element \<open>/>\<close>, which
  gets the text that follows.
\<close>

definition slash :: xml_elem where
  "slash = XE (Some ''/>'') None [] None"

definition finished :: "bool \<Rightarrow> xml_elem \<Rightarrow> xml_elem list" where
  "finished short v = (if short then [v, slash] else [v])"

lemma close_short:
  assumes x: "focus x (Some a) (vs @ [v])" "bufs_ok x" "m_pWorkingBuffer x = Some blk" and p: "pElement l = Some a"
  shows "\<exists>x' b. (if pElement l \<noteq> None \<and> short then
        rbind (GetNewEntry x) (\<lambda>(a, x).
        rbind (on_element x (Some a) (\<lambda>e. SetElementName e (cmem ''/>''))) (\<lambda>x.
        Inr (x, l\<lparr>pElement := Some a\<rparr>)))
      else Inr (x, l)) = Inr (x', l\<lparr>pElement := Some b\<rparr>) \<and>
    focus x' (Some b) (vs @ finished short v) \<and> bufs_ok x' \<and> m_pWorkingBuffer x' = Some blk"
proof (cases short)
  case True
  from GetNewEntry_focus [OF x(1)] obtain b x1
    where x1: "GetNewEntry x = Inr (b, x1)" "focus x1 (Some b) ((vs @ [v]) @ [no_element])" "bufs_ok x1 = bufs_ok x"
      "m_pWorkingBuffer x1 = m_pWorkingBuffer x" by blast
  have "\<exists>e'. SetElementName e (cmem ''/>'') = Inr e' \<and> el_is e' slash" if "el_is e no_element" for e
    using SetElementName_spec [of e None None "[]" None "cmem ''/>''" "''/>''"] that
    by (simp add: slash_def no_element_def cstr_def)
  from on_element_focus [OF x1(2), where f = "\<lambda>e. SetElementName e (cmem ''/>'')", OF this] obtain x2
    where "on_element x1 (Some b) (\<lambda>e. SetElementName e (cmem ''/>'')) = Inr x2"
      "focus x2 (Some b) ((vs @ [v]) @ [slash])" "bufs_ok x2 = bufs_ok x1"
      "m_pWorkingBuffer x2 = m_pWorkingBuffer x1" by blast
  then show ?thesis using True x1 x(2,3) p
    by (intro exI [of _ x2] exI [of _ b]) (simp add: finished_def)
next
  case False
  have "l = l\<lparr>pElement := Some a\<rparr>" using p by (cases l) simp
  then have "(if pElement l \<noteq> None \<and> short then
        rbind (GetNewEntry x) (\<lambda>(a, x).
        rbind (on_element x (Some a) (\<lambda>e. SetElementName e (cmem ''/>''))) (\<lambda>x.
        Inr (x, l\<lparr>pElement := Some a\<rparr>)))
      else Inr (x, l)) = Inr (x, l\<lparr>pElement := Some a\<rparr>)" using False by simp
  then show ?thesis using False x by (auto simp: finished_def)
qed

text \<open>The last attribute, which ends with the tag.\<close>

definition open_attr :: "string \<Rightarrow> string \<Rightarrow> int \<Rightarrow> (string \<times> string) list \<Rightarrow> bool" where
  "open_attr d s m kvs \<longleftrightarrow>
     m = 0 \<and> kvs = [] \<or>
     (\<exists>pre kv e. d = pre @ (SP # attr_text kv @ e) @ s \<and> attr_ok kv \<and> (e = ''>'' \<or> e = ''/>'') \<and>
        length (SP # attr_text kv @ e) \<le> 1020 \<and> m = int (length pre) \<and> m \<noteq> 0 \<and> kvs = [kv])"

lemma close_attr:
  assumes o: "open_attr d s m kvs" and x: "focus x (Some a) (vs @ [v])" "bufs_ok x" "m_pWorkingBuffer x = Some blk"
    and l: "iAttribMarkStart l = m" "pl_idx l = int (length d - length s) - 1" "pElement l = Some a"
  shows "\<exists>x' blk'. (if iAttribMarkStart l \<noteq> 0 then
        rbind (add_attribute (cmem d) (x, l)) (\<lambda>x. Inr (x, l\<lparr>iAttribMarkStart := 0\<rparr>))
      else Inr (x, l)) = Inr (x', l\<lparr>iAttribMarkStart := 0\<rparr>) \<and>
    focus x' (Some a) (vs @ [fold with_attr kvs v]) \<and> bufs_ok x' \<and> m_pWorkingBuffer x' = Some blk'"
proof -
  from o consider (none) "m = 0" "kvs = []"
    | (one) pre kv e where "d = pre @ (SP # attr_text kv @ e) @ s" "attr_ok kv" "e = ''>'' \<or> e = ''/>''"
        "length (SP # attr_text kv @ e) \<le> 1020" "m = int (length pre)" "m \<noteq> 0" "kvs = [kv]"
    unfolding open_attr_def by blast
  then show ?thesis
  proof cases
    case none
    have "l = l\<lparr>iAttribMarkStart := 0\<rparr>" using l(1) none(1) by (cases l) simp
    then show ?thesis using none l(1) x by auto
  next
    case one
    have i: "iAttribMarkStart l = int (length pre)" "pl_idx l = int (length pre + length (SP # attr_text kv @ e)) - 1"
      using l one by simp_all
    from one(3) have e': "e = [SP] \<or> e = ''>'' \<or> e = ''/>''" by blast
    from add_attribute_spec [OF one(1) refl one(2) e' one(4) i l(3) x(2,3,1)]
    show ?thesis using l(1) one by auto
  qed
qed

lemma end_step:
  assumes d: "d = pre @ piece @ s" "piece = p @ ''>''" and p: "NUL \<notin> set piece" "2 \<le> length piece" "length piece \<le> 1020"
    and o: "open_attr d s m kvs"
    and x: "bufs_ok x" "focus x (Some a) (vs @ [v])"
  shows "\<exists>x' b blk. parse_loop (cmem d) (x, in_tag (int (length (pre @ p))) False (int (length pre)) m a) =
      parse_loop (cmem d) (x', scanning (int (length (pre @ piece))) (int (length (pre @ piece))) (Some b)) \<and>
    focus x' (Some b) (vs @ finished (short_tag piece) (fold with_attr kvs (named (piece_name piece) v))) \<and>
    bufs_ok x' \<and> m_pWorkingBuffer x' = Some blk"
proof -
  let ?l0 = "in_tag (int (length (pre @ p))) False (int (length pre)) m a"
  define l where "l = ?l0\<lparr>iLastState := stTagProcess, iState := stTagEnd\<rparr>"
  have l: "iTagMarkStart l = int (length pre)" "pl_idx l = int (length pre + length piece) - 1" "pElement l = Some a"
    "iAttribMarkStart l = m" "pl_idx l = int (length d - length s) - 1"
    using d by (simp_all add: l_def in_tag_def)
  from tag_name_spec [OF d(1) p l(1-3) x] obtain x1 blk1
    where x1: "tag_name (cmem d) (x, l) = Inr (short_tag piece, x1)"
      "focus x1 (Some a) (vs @ [named (piece_name piece) v])" "bufs_ok x1" "m_pWorkingBuffer x1 = Some blk1" by blast
  from close_attr [OF o x1(2-4) l(4,5,3)] obtain x2 blk2
    where x2: "(if iAttribMarkStart l \<noteq> 0 then
        rbind (add_attribute (cmem d) (x1, l)) (\<lambda>x. Inr (x, l\<lparr>iAttribMarkStart := 0\<rparr>))
      else Inr (x1, l)) = Inr (x2, l\<lparr>iAttribMarkStart := 0\<rparr>)"
      "focus x2 (Some a) (vs @ [fold with_attr kvs (named (piece_name piece) v)])" "bufs_ok x2"
      "m_pWorkingBuffer x2 = Some blk2" by blast
  have "pElement (l\<lparr>iAttribMarkStart := 0\<rparr>) = Some a" using l(3) by simp
  from close_short [OF x2(2-4) this, of "short_tag piece"] obtain x3 b
    where x3: "(if pElement (l\<lparr>iAttribMarkStart := 0\<rparr>) \<noteq> None \<and> short_tag piece then
        rbind (GetNewEntry x2) (\<lambda>(a, x).
        rbind (on_element x (Some a) (\<lambda>e. SetElementName e (cmem ''/>''))) (\<lambda>x.
        Inr (x, l\<lparr>iAttribMarkStart := 0, pElement := Some a\<rparr>)))
      else Inr (x2, l\<lparr>iAttribMarkStart := 0\<rparr>)) = Inr (x3, l\<lparr>iAttribMarkStart := 0, pElement := Some b\<rparr>)"
      "focus x3 (Some b) (vs @ finished (short_tag piece) (fold with_attr kvs (named (piece_name piece) v)))"
      "bufs_ok x3" "m_pWorkingBuffer x3 = Some blk2" by auto
  have d': "d = (pre @ p) @ CHR ''>'' # s" using d by simp
  have "\<not> starts_with ''<![CDATA'' (CHR ''>'' # s)" by simp
  then have "mem_starts (cmem d) (pl_idx l) ''<![CDATA'' = Inr False"
    using mem_starts_text [of "''<![CDATA''" "pre @ p" "CHR ''>'' # s"] d'
    by (simp add: l_def in_tag_def del: mem_starts.simps)
  then have cd: "cdata_section (cmem d) (x, l) = Inr None"
    using l(3) by (simp add: cdata_section_def del: mem_starts.simps)
  have te: "tag_end (cmem d) (x, l) = Inr (x3, l\<lparr>iAttribMarkStart := 0, pElement := Some b,
      iTagMarkStart := 0, iLastState := iState l, iState := stTagScan, iScanMarkStart := pl_idx l + 1, pl_idx := pl_idx l + 1\<rparr>)"
    unfolding tag_end_def prod.case cd rbind.simps option.case x1(1) x2(1) x3(1) by simp
  have st: "l\<lparr>iAttribMarkStart := 0, pElement := Some b,
      iTagMarkStart := 0, iLastState := iState l, iState := stTagScan, iScanMarkStart := pl_idx l + 1, pl_idx := pl_idx l + 1\<rparr> =
      scanning (int (length (pre @ piece))) (int (length (pre @ piece))) (Some b)"
    using d(2) by (simp add: l_def in_tag_def scanning_def)
  have "iState ?l0 = stTagProcess" by (simp add: in_tag_def)
  then have "tag_state (cmem d) CHR ''>'' ?l0 = Inr l" "iState l = stTagEnd"
    by (simp_all add: tag_state_end l_def)
  then have "parse_char (cmem d) CHR ''>'' (x, ?l0) =
      Inr (x3, scanning (int (length (pre @ piece))) (int (length (pre @ piece))) (Some b))"
    using te unfolding st by (simp add: parse_char_def)
  from parse_step [OF d' _ _ this] show ?thesis using x3(2-4) by (auto simp: in_tag_def)
qed

end
