(* ===== verification/XmlParse.thy ===== *)
theory XmlParse
  imports XmlParseSteps
begin

text \<open>
  \<open>Parse\<close> on a document of tags and text: \<open>doc_text\<close> is the text of the document, \<open>doc_elems\<close> the
  elements that the parser makes of it. A tag has a name and attributes in double quotes; one with
  \<open>short\<close> ends with a slash. The bounds keep every tag and every text inside the first working buffer.
\<close>

section \<open>Documents\<close>

datatype xml_tag = Tag (tag_label: string) (tag_attrs: "(string \<times> string) list") (tag_short: bool)

definition attrs_text :: "(string \<times> string) list \<Rightarrow> string" where
  "attrs_text kvs = concat (map (\<lambda>kv. SP # attr_text kv) kvs)"

definition tag_close :: "bool \<Rightarrow> string" where
  "tag_close short = (if short then ''/'' else [])"

definition tag_text :: "xml_tag \<Rightarrow> string" where
  "tag_text g = CHR ''<'' # tag_label g @ attrs_text (tag_attrs g) @ tag_close (tag_short g) @ ''>''"

definition tag_ok :: "xml_tag \<Rightarrow> bool" where
  "tag_ok g \<longleftrightarrow>
     tag_label g \<noteq> [] \<and> tag_label g \<noteq> ''/'' \<and> hd (tag_label g) \<noteq> CHR ''!'' \<and>
     (\<forall>c \<in> set (tag_label g). plain c) \<and> CHR ''/'' \<notin> set (tl (tag_label g)) \<and>
     (tag_short g \<longrightarrow> CHR ''/'' \<notin> set (tag_label g)) \<and>
     (\<forall>kv \<in> set (tag_attrs g). attr_ok kv) \<and> length (tag_text g) \<le> 1020"

definition text_ok :: "string \<Rightarrow> bool" where
  "text_ok t \<longleftrightarrow> (\<forall>c \<in> set t. c \<noteq> CHR ''<'' \<and> c \<noteq> CHR ''>'' \<and> c \<noteq> NUL) \<and> length t \<le> 1020"

type_synonym document = "(xml_tag \<times> string) list"

definition doc_ok :: "document \<Rightarrow> bool" where
  "doc_ok doc \<longleftrightarrow> (\<forall>(g, t) \<in> set doc. tag_ok g \<and> text_ok t)"

definition doc_text :: "document \<Rightarrow> string" where
  "doc_text doc = concat (map (\<lambda>(g, t). tag_text g @ t) doc)"

definition tag_elem :: "xml_tag \<Rightarrow> xml_elem" where
  "tag_elem g =
     XE (Some (tag_label g)) None (map (\<lambda>(k, v). (k, xml_decode v)) (tag_attrs g)) None"

definition tag_elems :: "xml_tag \<Rightarrow> string \<Rightarrow> xml_elem list" where
  "tag_elems g t =
     (if tag_short g then [tag_elem g, set_value t slash] else [set_value t (tag_elem g)])"

text \<open>The text behind the last tag is dropped.\<close>

fun doc_elems :: "document \<Rightarrow> xml_elem list" where
  "doc_elems [] = []"
| "doc_elems [(g, t)] = tag_elems g []"
| "doc_elems ((g, t) # it # doc) = tag_elems g t @ doc_elems (it # doc)"

section \<open>The name in the text of a tag\<close>

lemma kept_attrs:
  "\<forall>kv \<in> set kvs. attr_ok kv \<Longrightarrow> kept False (attrs_text kvs @ s) = attrs_text kvs @ kept False s"
  by (induction kvs) (simp_all add: attrs_text_def kept_attr attr_ok_shape)

lemma attrs_text_end: "kvs \<noteq> [] \<Longrightarrow> \<exists>u. attrs_text kvs = u @ [CHR 0x22]"
  by (induction kvs rule: rev_induct) (auto simp: attrs_text_def attr_text_def quote_def)

lemma attrs_text_split:
  assumes "kvs \<noteq> []" "\<forall>kv \<in> set kvs. attr_ok kv"
  shows "\<exists>k u. attrs_text kvs = SP # k @ ''='' @ CHR 0x22 # u @ [CHR 0x22] \<and> (\<forall>c \<in> set k. \<not> is_quote c)"
proof -
  obtain kv rest where kvs: "kvs = kv # rest" using assms(1) by (cases kvs) auto
  obtain u where u: "snd kv @ quote @ attrs_text rest = u @ [CHR 0x22]"
  proof (cases "rest = []")
    case True
    then have "snd kv @ quote @ attrs_text rest = snd kv @ [CHR 0x22]" by (simp add: quote_def attrs_text_def)
    then show ?thesis by (rule that)
  next
    case False
    from attrs_text_end [OF this] obtain w where "attrs_text rest = w @ [CHR 0x22]" by blast
    then have "snd kv @ quote @ attrs_text rest = (snd kv @ quote @ w) @ [CHR 0x22]" by simp
    then show ?thesis by (rule that)
  qed
  have "attrs_text kvs = SP # fst kv @ ''='' @ quote @ snd kv @ quote @ attrs_text rest"
    by (simp add: kvs attrs_text_def attr_text_def)
  then have "attrs_text kvs = SP # fst kv @ ''='' @ CHR 0x22 # u @ [CHR 0x22]"
    unfolding u by (simp add: quote_def)
  moreover have "\<forall>c \<in> set (fst kv). \<not> is_quote c" using assms(2) attr_no_quote(1) [of kv] by (auto simp: kvs attr_ok_shape)
  ultimately show ?thesis by blast
qed

lemma label_chars:
  assumes "tag_ok g"
  shows "\<forall>c \<in> set (tag_label g). c \<noteq> SP \<and> \<not> is_quote c" "hd (tag_label g) \<noteq> SP" "tag_label g \<noteq> []"
proof -
  show n: "tag_label g \<noteq> []" and a: "\<forall>c \<in> set (tag_label g). c \<noteq> SP \<and> \<not> is_quote c"
    using assms by (auto simp: tag_ok_def plain_def)
  then show "hd (tag_label g) \<noteq> SP" by simp
qed

lemma takeWhile_head: "\<forall>c \<in> set u. P c \<Longrightarrow> \<not> P x \<Longrightarrow> takeWhile P (u @ x # w) = u"
  by (simp add: takeWhile_append2)

lemma piece_name_tag:
  assumes g: "tag_ok g"
  shows "takeWhile (\<lambda>c. c \<noteq> SP) (clean (tag_text g)) = tag_label g \<or>
    (tag_short g \<and> takeWhile (\<lambda>c. c \<noteq> SP) (clean (tag_text g)) = tag_label g @ ''/'')"
proof -
  let ?n = "tag_label g" and ?e = "tag_close (tag_short g)"
  note n = label_chars [OF g]
  have ok: "\<forall>kv \<in> set (tag_attrs g). attr_ok kv" using g by (simp add: tag_ok_def)
  have "kept False (tag_text g) = ?n @ attrs_text (tag_attrs g) @ ?e"
    using g kept_attrs [OF ok] by (simp add: tag_text_def tag_close_def kept_plain tag_ok_def)
  moreover have "dropWhile (\<lambda>c. c = SP) (?n @ w) = ?n @ w" for w
    using n(2,3) by (cases ?n) simp_all
  moreover have "rstrip (\<lambda>c. c = SP) (?n @ attrs_text (tag_attrs g) @ ?e) = ?n @ attrs_text (tag_attrs g) @ ?e"
  proof -
    have "last (?n @ attrs_text (tag_attrs g) @ ?e) \<noteq> SP"
    proof (cases "tag_short g")
      case True
      then show ?thesis by (simp add: tag_close_def)
    next
      case False
      have "last ?n \<in> set ?n" using n(3) by simp
      then have "last ?n \<noteq> SP" using n(1) by blast
      then show ?thesis
        using False attrs_text_end [of "tag_attrs g"] by (cases "tag_attrs g = []") (auto simp: tag_close_def attrs_text_def)
    qed
    moreover obtain w y where w: "?n @ attrs_text (tag_attrs g) @ ?e = w @ [y]"
      using n(3) by (metis append_butlast_last_id append_is_Nil_conv)
    ultimately have "y \<noteq> SP" by simp
    then show ?thesis unfolding w by (cases w) (simp_all add: rstrip_def)
  qed
  ultimately have cl: "clean (tag_text g) = unquote (?n @ attrs_text (tag_attrs g) @ ?e)"
    by (simp add: clean_def)
  show ?thesis
  proof (cases "tag_attrs g = []")
    case True
    have "\<forall>c \<in> set (?n @ ?e). \<not> is_quote c" using n(1) by (auto simp: tag_close_def is_quote_def)
    then have "clean (tag_text g) = ?n @ ?e" unfolding cl by (simp add: True attrs_text_def unquote_none)
    then show ?thesis using n(1) by (simp add: tag_close_def takeWhile_append2)
  next
    case False
    from attrs_text_split [OF this ok] obtain k u
      where k: "attrs_text (tag_attrs g) = SP # k @ ''='' @ CHR 0x22 # u @ [CHR 0x22]" "\<forall>c \<in> set k. \<not> is_quote c" by blast
    have q: "\<forall>c \<in> set (?n @ SP # k @ ''='') \<union> set ?e. \<not> is_quote c"
      using n(1) k(2) by (auto simp: tag_close_def is_quote_def)
    have "?n @ attrs_text (tag_attrs g) @ ?e = (?n @ SP # k @ ''='') @ CHR 0x22 # u @ CHR 0x22 # ?e"
      using k(1) by simp
    then have "clean (tag_text g) = (?n @ SP # k @ ''='') @ u"
      unfolding cl using unquote_pair [OF _ _ _ q, of u "CHR 0x22" "CHR 0x22"] by simp
    then have "clean (tag_text g) = ?n @ SP # (k @ ''='' @ u)" by simp
    then show ?thesis using takeWhile_head [of ?n "\<lambda>c. c \<noteq> SP" SP] n(1) by simp
  qed
qed

lemma short_tag_text: "tag_ok g \<Longrightarrow> short_tag (tag_text g) \<longleftrightarrow> tag_short g"
proof -
  assume g: "tag_ok g"
  let ?n = "tag_label g"
  have b: "butlast (tag_text g) = CHR ''<'' # ?n @ attrs_text (tag_attrs g) @ tag_close (tag_short g)"
    by (simp add: tag_text_def butlast_append)
  show ?thesis
  proof (cases "tag_short g")
    case True
    then show ?thesis unfolding short_tag_def b by (simp add: tag_close_def)
  next
    case False
    have "last ?n \<noteq> CHR ''/''"
    proof (cases "tl ?n = []")
      case True
      then obtain c where "?n = [c]" using g by (cases ?n) (auto simp: tag_ok_def)
      then show ?thesis using g by (simp add: tag_ok_def)
    next
      case False
      then have "last (tl ?n) \<in> set (tl ?n)" by (rule last_in_set)
      then have "last (tl ?n) \<noteq> CHR ''/''" using g by (auto simp: tag_ok_def)
      then show ?thesis using False by (simp add: last_tl)
    qed
    then show ?thesis
      using False attrs_text_end [of "tag_attrs g"] label_chars(3) [OF g] unfolding short_tag_def b
      by (cases "tag_attrs g = []") (auto simp: tag_close_def attrs_text_def)
  qed
qed

lemma piece_name_text:
  assumes g: "tag_ok g"
  shows "piece_name (tag_text g) = tag_label g"
proof (cases "tag_short g")
  case True
  have s: "takeWhile (\<lambda>c. c \<noteq> CHR ''/'') (tag_label g @ CHR ''/'' # []) = tag_label g"
    using g True by (intro takeWhile_head) (auto simp: tag_ok_def)
  have "takeWhile (\<lambda>c. c \<noteq> CHR ''/'') (tag_label g) = tag_label g"
    using g True by (auto simp: tag_ok_def takeWhile_eq_all_conv)
  with s piece_name_tag [OF g] True show ?thesis
    unfolding piece_name_def Let_def short_tag_text [OF g] by (elim disjE conjE) simp_all
next
  case False
  with piece_name_tag [OF g] show ?thesis
    unfolding piece_name_def Let_def short_tag_text [OF g] by simp
qed

section \<open>A whole tag\<close>

lemma attr_chars:
  assumes d: "d = pre @ attr_text kv @ s" and kv: "attr_shape kv" and m: "m \<noteq> 0"
  shows "parse_loop (cmem d) (x, in_tag (int (length pre)) False t m a) =
    parse_loop (cmem d) (x, in_tag (int (length (pre @ attr_text kv))) False t m a)"
proof -
  obtain k v where k: "kv = (k, v)" by (cases kv)
  have at: "attr_text kv = (k @ ''='') @ CHR 0x22 # v @ [CHR 0x22]" by (simp add: attr_text_def quote_def k)
  have p: "\<forall>c \<in> set (k @ ''=''). plain c"
    using kv by (auto simp: attr_shape_def k plain_def is_dropped_def is_quote_def)
  have v: "\<forall>c \<in> set v. quoted c" using kv by (auto simp: attr_shape_def k)
  have q: "CHR 0x22 \<noteq> NUL" "CHR 0x22 \<noteq> CHR ''<''" "CHR 0x22 \<noteq> CHR ''>''" "CHR 0x22 \<noteq> SP \<and> CHR 0x22 \<noteq> TAB"
    by simp_all
  let ?p1 = "pre @ k @ ''=''" and ?p2 = "(pre @ k @ ''='') @ [CHR 0x22]"
  have d1: "d = pre @ (k @ ''='') @ CHR 0x22 # v @ CHR 0x22 # s" using d at by simp
  have d2: "d = ?p1 @ CHR 0x22 # v @ CHR 0x22 # s" using d1 by simp
  have d3: "d = ?p2 @ v @ CHR 0x22 # s" using d1 by simp
  have d4: "d = (?p2 @ v) @ CHR 0x22 # s" using d1 by simp
  have "parse_loop (cmem d) (x, in_tag (int (length pre)) False t m a) =
      parse_loop (cmem d) (x, in_tag (int (length (pre @ k @ ''=''))) False t m a)"
    by (rule plain_run [OF d1 p])
  also have "\<dots> = parse_loop (cmem d) (x, in_tag (int (length ?p1) + 1) True t m a)"
    using in_tag_step [OF d2 q(1-3), of m False x t a] q(4) by simp
  also have "int (length ?p1) + 1 = int (length ?p2)" by simp
  also have "parse_loop (cmem d) (x, in_tag (int (length ?p2)) True t m a) =
      parse_loop (cmem d) (x, in_tag (int (length (?p2 @ v))) True t m a)"
    by (rule quoted_run [OF d3 v m])
  also have "\<dots> = parse_loop (cmem d) (x, in_tag (int (length (?p2 @ v)) + 1) False t m a)"
    using in_tag_step [OF d4 q(1-3), of m True x t a] q(4) by simp
  also have "int (length (?p2 @ v)) + 1 = int (length (pre @ attr_text kv))" by (simp add: at)
  finally show ?thesis .
qed

lemma attrs_run:
  assumes "d = pre @ (SP # attr_text kv @ attrs_text rest) @ s" "\<forall>kv \<in> set (kv # rest). attr_ok kv"
    and "\<forall>kv \<in> set (kv # rest). length (attr_text kv) \<le> 1018" "pre \<noteq> []"
    and "bufs_ok x" "focus x (Some a) (vs @ [v])"
  shows "\<exists>x' pre' kv' done. parse_loop (cmem d) (x, in_tag (int (length pre) + 1) False t (int (length pre)) a) =
      parse_loop (cmem d) (x', in_tag (int (length (pre' @ SP # attr_text kv'))) False t (int (length pre')) a) \<and>
    pre' @ SP # attr_text kv' = pre @ SP # attr_text kv @ attrs_text rest \<and> kv # rest = done @ [kv'] \<and> pre' \<noteq> [] \<and>
    focus x' (Some a) (vs @ [fold with_attr done v]) \<and> bufs_ok x'"
  using assms
proof (induction rest arbitrary: pre kv x v)
  case Nil
  have d: "d = (pre @ [SP]) @ attr_text kv @ s" using Nil.prems(1) by (simp add: attrs_text_def)
  have "parse_loop (cmem d) (x, in_tag (int (length pre) + 1) False t (int (length pre)) a) =
      parse_loop (cmem d) (x, in_tag (int (length (pre @ SP # attr_text kv))) False t (int (length pre)) a)"
    using attr_chars [OF d, of "int (length pre)" x t a] Nil.prems(2,4) by (simp add: add.commute attr_ok_shape)
  then show ?case
    using Nil.prems(4-6) by (intro exI [of _ x] exI [of _ pre] exI [of _ kv] exI [of _ "[]"]) (simp add: attrs_text_def)
next
  case (Cons kv2 rest)
  let ?pre = "pre @ SP # attr_text kv"
  have sp: "attrs_text (kv2 # rest) = SP # attr_text kv2 @ attrs_text rest" by (simp add: attrs_text_def)
  have d1: "d = (pre @ [SP]) @ attr_text kv @ SP # attr_text kv2 @ attrs_text rest @ s"
    using Cons.prems(1) sp by simp
  have d2: "d = pre @ SP # attr_text kv @ SP # (attr_text kv2 @ attrs_text rest @ s)" using d1 by simp
  have d3: "d = ?pre @ (SP # attr_text kv2 @ attrs_text rest) @ s" using d1 by simp
  have ok: "attr_ok kv" "length (attr_text kv) \<le> 1018" using Cons.prems(2,3) by auto
  have s1: "parse_loop (cmem d) (x, in_tag (int (length pre) + 1) False t (int (length pre)) a) =
      parse_loop (cmem d) (x, in_tag (int (length ?pre)) False t (int (length pre)) a)"
    using attr_chars [OF d1, of "int (length pre)" x t a] ok(1) Cons.prems(4) by (simp add: add.commute attr_ok_shape)
  from attribute_step [OF d2 ok Cons.prems(4-6), of t] obtain x1
    where x1: "parse_loop (cmem d) (x, in_tag (int (length ?pre)) False t (int (length pre)) a) =
        parse_loop (cmem d) (x1, in_tag (int (length ?pre) + 1) False t (int (length ?pre)) a)"
      "focus x1 (Some a) (vs @ [with_attr kv v])" "bufs_ok x1" by blast
  have "\<forall>kv \<in> set (kv2 # rest). attr_ok kv" "\<forall>kv \<in> set (kv2 # rest). length (attr_text kv) \<le> 1018" "?pre \<noteq> []"
    using Cons.prems(2,3) by auto
  from Cons.IH [OF d3 this x1(3,2)] obtain x' pre' kv' dn
    where i: "parse_loop (cmem d) (x1, in_tag (int (length ?pre) + 1) False t (int (length ?pre)) a) =
        parse_loop (cmem d) (x', in_tag (int (length (pre' @ SP # attr_text kv'))) False t (int (length pre')) a)"
      "pre' @ SP # attr_text kv' = ?pre @ SP # attr_text kv2 @ attrs_text rest" "kv2 # rest = dn @ [kv']" "pre' \<noteq> []"
      "focus x' (Some a) (vs @ [fold with_attr dn (with_attr kv v)])" "bufs_ok x'" by blast
  show ?case
    using s1 x1(1) i sp
    by (intro exI [of _ x'] exI [of _ pre'] exI [of _ kv'] exI [of _ "kv # dn"]) simp
qed

lemma attrs_text_le: "kv \<in> set kvs \<Longrightarrow> length (attr_text kv) < length (attrs_text kvs)"
  by (induction kvs) (auto simp: attrs_text_def)

lemma named_with_attr: "fold with_attr kvs (named n v) = named n (fold with_attr kvs v)"
proof (induction kvs arbitrary: v)
  case (Cons kv kvs)
  have "with_attr kv (named n v) = named n (with_attr kv v)" by (simp add: named_def with_attr_def)
  then show ?case using Cons by simp
qed simp

lemma fold_with_attr:
  "fold with_attr kvs (XE n w as c) = XE n w (as @ map (\<lambda>(k, v). (k, xml_decode v)) kvs) c"
  by (induction kvs arbitrary: as) (auto simp: with_attr_def)

lemma tag_text_chars: "tag_ok g \<Longrightarrow> NUL \<notin> set (tag_text g)"
proof -
  assume g: "tag_ok g"
  have "NUL \<notin> set (attrs_text kvs)" if "\<forall>kv \<in> set kvs. attr_ok kv" for kvs
    using that attr_text_chars attr_ok_shape by (induction kvs) (auto simp: attrs_text_def)
  then show ?thesis using g by (auto simp: tag_text_def tag_ok_def tag_close_def plain_def)
qed

text \<open>From the state behind the opening bracket to the one behind the closing bracket.\<close>

lemma tag_body:
  assumes g: "tag_ok g" and d: "d = pre @ tag_text g @ s" and x: "bufs_ok x" "focus x (Some a) (vs @ [no_element])"
  shows "\<exists>x' b blk. parse_loop (cmem d) (x, in_tag (int (length pre) + 1) False (int (length pre)) 0 a) =
      parse_loop (cmem d) (x', scanning (int (length (pre @ tag_text g))) (int (length (pre @ tag_text g))) (Some b)) \<and>
    focus x' (Some b) (vs @ finished (tag_short g) (tag_elem g)) \<and> bufs_ok x' \<and> m_pWorkingBuffer x' = Some blk"
proof -
  let ?n = "tag_label g" and ?e = "tag_close (tag_short g)" and ?t = "int (length pre)"
  let ?pn = "(pre @ ''<'') @ ?n" and ?p = "CHR ''<'' # ?n @ attrs_text (tag_attrs g) @ ?e"
  have ok: "\<forall>kv \<in> set (tag_attrs g). attr_ok kv" using g by (simp add: tag_ok_def)
  have le: "\<forall>kv \<in> set (tag_attrs g). length (attr_text kv) \<le> 1016"
  proof
    fix kv assume "kv \<in> set (tag_attrs g)"
    from attrs_text_le [OF this] show "length (attr_text kv) \<le> 1016"
      using g label_chars(3) [OF g] by (cases ?n) (simp_all add: tag_ok_def tag_text_def)
  qed
  have d0: "d = (pre @ ''<'') @ ?n @ (attrs_text (tag_attrs g) @ ?e @ ''>'' @ s)" using d by (simp add: tag_text_def)
  have s0: "parse_loop (cmem d) (x, in_tag (int (length pre) + 1) False ?t 0 a) =
      parse_loop (cmem d) (x, in_tag (int (length ?pn)) False ?t 0 a)"
    using plain_run [OF d0, of x False ?t 0 a] g by (simp add: tag_ok_def add.commute)
  have ep: "\<forall>c \<in> set ?e. plain c" by (simp add: tag_close_def plain_def is_dropped_def is_quote_def)
  obtain x1 m kvs0 where x1:
    "parse_loop (cmem d) (x, in_tag (int (length ?pn)) False ?t 0 a) =
       parse_loop (cmem d) (x1, in_tag (int (length (pre @ ?p))) False ?t m a)"
    "open_attr d s m kvs0" "bufs_ok x1"
    "\<exists>done. tag_attrs g = done @ kvs0 \<and> focus x1 (Some a) (vs @ [fold with_attr done no_element])"
  proof (cases "tag_attrs g")
    case Nil
    have d1: "d = ?pn @ ?e @ (''>'' @ s)" using d0 Nil by (simp add: attrs_text_def)
    have "parse_loop (cmem d) (x, in_tag (int (length ?pn)) False ?t 0 a) =
        parse_loop (cmem d) (x, in_tag (int (length (?pn @ ?e))) False ?t 0 a)"
      by (rule plain_run [OF d1 ep])
    then show ?thesis
      using that [of x 0 "[]"] x Nil by (simp add: open_attr_def attrs_text_def)
  next
    case (Cons kv rest)
    have ad: "attrs_text (tag_attrs g) = SP # attr_text kv @ attrs_text rest" by (simp add: Cons attrs_text_def)
    have d1: "d = ?pn @ SP # (attr_text kv @ attrs_text rest @ ?e @ ''>'' @ s)" using d0 ad by simp
    have d2: "d = ?pn @ (SP # attr_text kv @ attrs_text rest) @ (?e @ ''>'' @ s)" using d1 by simp
    have "\<forall>kv \<in> set (kv # rest). length (attr_text kv) \<le> 1018" using le Cons by auto
    moreover have "\<forall>kv \<in> set (kv # rest). attr_ok kv" using ok Cons by simp
    moreover have "?pn \<noteq> []" by simp
    ultimately obtain x' pre' kv' dn
      where r: "parse_loop (cmem d) (x, in_tag (int (length ?pn) + 1) False ?t (int (length ?pn)) a) =
          parse_loop (cmem d) (x', in_tag (int (length (pre' @ SP # attr_text kv'))) False ?t (int (length pre')) a)"
        "pre' @ SP # attr_text kv' = ?pn @ SP # attr_text kv @ attrs_text rest" "kv # rest = dn @ [kv']" "pre' \<noteq> []"
        "focus x' (Some a) (vs @ [fold with_attr dn no_element])" "bufs_ok x'"
      using attrs_run [OF d2 _ _ _ x, of ?t] by blast
    have all: "(pre' @ SP # attr_text kv') @ ?e = pre @ ?p" unfolding r(2) by (simp add: ad)
    have d3: "d = (pre' @ SP # attr_text kv') @ ?e @ (''>'' @ s)" unfolding r(2) using d2 by simp
    have "parse_loop (cmem d) (x, in_tag (int (length ?pn)) False ?t 0 a) =
        parse_loop (cmem d) (x, in_tag (int (length ?pn) + 1) False ?t (int (length ?pn)) a)"
      by (rule first_blank [OF d1])
    also note r(1)
    also have "parse_loop (cmem d) (x', in_tag (int (length (pre' @ SP # attr_text kv'))) False ?t (int (length pre')) a) =
        parse_loop (cmem d) (x', in_tag (int (length (pre @ ?p))) False ?t (int (length pre')) a)"
      using plain_run [OF d3 ep, of x' False ?t "int (length pre')" a] unfolding all .
    finally have st: "parse_loop (cmem d) (x, in_tag (int (length ?pn)) False ?t 0 a) =
        parse_loop (cmem d) (x', in_tag (int (length (pre @ ?p))) False ?t (int (length pre')) a)" .
    have kv': "kv' \<in> set (tag_attrs g)" unfolding Cons r(3) by simp
    have "open_attr d s (int (length pre')) [kv']"
      unfolding open_attr_def
    proof (rule disjI2, intro exI conjI)
      show "d = pre' @ (SP # attr_text kv' @ ?e @ ''>'') @ s" using d3 by simp
      show "attr_ok kv'" using ok kv' by blast
      show "?e @ ''>'' = ''>'' \<or> ?e @ ''>'' = ''/>''" by (simp add: tag_close_def)
      show "length (SP # attr_text kv' @ ?e @ ''>'') \<le> 1020" using le kv' by (auto simp: tag_close_def)
    qed (use r(4) in simp_all)
    moreover have "tag_attrs g = dn @ [kv']" using Cons r(3) by simp
    ultimately show ?thesis using that [OF st _ r(6)] r(5) by blast
  qed
  from x1(4) obtain dn where dn: "tag_attrs g = dn @ kvs0" "focus x1 (Some a) (vs @ [fold with_attr dn no_element])" by blast
  have tt: "tag_text g = ?p @ ''>''" by (simp add: tag_text_def)
  have l2: "2 \<le> length (tag_text g)" "length (tag_text g) \<le> 1020" using g by (simp_all add: tag_text_def tag_ok_def)
  from end_step [OF d tt tag_text_chars [OF g] l2 x1(2,3) dn(2)] obtain x' b blk
    where e: "parse_loop (cmem d) (x1, in_tag (int (length (pre @ ?p))) False ?t m a) =
        parse_loop (cmem d) (x', scanning (int (length (pre @ tag_text g))) (int (length (pre @ tag_text g))) (Some b))"
      "focus x' (Some b) (vs @ finished (short_tag (tag_text g))
         (fold with_attr kvs0 (named (piece_name (tag_text g)) (fold with_attr dn no_element))))"
      "bufs_ok x'" "m_pWorkingBuffer x' = Some blk" by blast
  have "fold with_attr kvs0 (named ?n (fold with_attr dn no_element)) = named ?n (fold with_attr (dn @ kvs0) no_element)"
    by (simp add: named_with_attr)
  also have "\<dots> = tag_elem g"
    unfolding dn(1) [symmetric] by (simp add: fold_with_attr no_element_def named_def tag_elem_def)
  finally show ?thesis
    using s0 x1(1) e by (simp add: short_tag_text [OF g] piece_name_text [OF g]) blast
qed

section \<open>The document\<close>

lemma tag_text_open: "tag_ok g \<Longrightarrow> \<exists>w. tag_text g = CHR ''<'' # w \<and> w \<noteq> [] \<and> hd w \<noteq> CHR ''!''"
  by (cases "tag_label g") (auto simp: tag_text_def tag_ok_def)

lemma set_value_Nil [simp]: "set_value [] v = v"
  by (simp add: set_value_def text_value_def rstrip_def)

definition last_tag :: "xml_tag \<Rightarrow> xml_elem" where
  "last_tag g = (if tag_short g then slash else tag_elem g)"

lemma finished_last:
  "tag_elems g t = butlast (finished (tag_short g) (tag_elem g)) @ [set_value t (last_tag g)]"
  "finished (tag_short g) (tag_elem g) = butlast (finished (tag_short g) (tag_elem g)) @ [last_tag g]"
  by (simp_all add: tag_elems_def finished_def last_tag_def)

lemma doc_run:
  assumes "d = pre @ t @ doc_text doc" "pre \<noteq> []" "text_ok t" "doc_ok doc"
    and "bufs_ok x" "m_pWorkingBuffer x = Some blk" "focus x (Some b) (vs @ [v])"
  shows "\<exists>x' p. parse_loop (cmem d) (x, scanning (int (length pre)) (int (length pre)) (Some b)) = Inr x' \<and>
    focus x' p (vs @ (if doc = [] then [v] else set_value t v # doc_elems doc)) \<and> bufs_ok x'"
  using assms
proof (induction doc arbitrary: pre t x b vs v blk)
  case Nil
  have d: "d = pre @ [] @ t @ []" "length ([] @ t) \<le> 1024"
    "\<forall>c \<in> set t. c \<noteq> CHR ''<'' \<and> c \<noteq> CHR ''>'' \<and> c \<noteq> NUL"
    using Nil.prems(1,3) by (auto simp: doc_text_def text_ok_def)
  have sb: "scan_buf x []" using Nil.prems(5,6) by (rule scan_buf_Nil)
  from scan_run [OF d(1) sb d(2,3), of "Some b"] obtain x1
    where x1: "parse_loop (cmem d) (x, scanning (int (length pre)) (int (length pre)) (Some b)) =
        parse_loop (cmem d) (x1, scanning (int (length (pre @ t))) (int (length pre)) (Some b))"
      "scan_buf x1 t" "focus x1 = focus x" by auto
  have "parse_loop (cmem d) (x1, scanning (int (length (pre @ t))) (int (length pre)) (Some b)) = Inr x1"
    using d(1) by (intro parse_done) (simp add: scanning_def)
  then show ?case using x1 Nil.prems(7) by (auto simp: scan_buf_def)
next
  case (Cons gt doc)
  obtain g u where gu: "gt = (g, u)" by (cases gt)
  have g: "tag_ok g" "text_ok u" "doc_ok doc" using Cons.prems(4) by (auto simp: doc_ok_def gu)
  from tag_text_open [OF g(1)] obtain w where w: "tag_text g = CHR ''<'' # w" "w \<noteq> []" "hd w \<noteq> CHR ''!''" by blast
  have dt: "doc_text (gt # doc) = tag_text g @ u @ doc_text doc" by (simp add: doc_text_def gu)
  let ?pt = "pre @ t" and ?rest = "u @ doc_text doc"
  have d: "d = pre @ [] @ t @ (tag_text g @ ?rest)" "length ([] @ t) \<le> 1024" "length t < 1024" "NUL \<notin> set t"
    "\<forall>c \<in> set t. c \<noteq> CHR ''<'' \<and> c \<noteq> CHR ''>'' \<and> c \<noteq> NUL"
    using Cons.prems(1,3) dt by (auto simp: text_ok_def)
  have sb: "scan_buf x []" using Cons.prems(5,6) by (rule scan_buf_Nil)
  from scan_run [OF d(1) sb d(2,5), of "Some b"] obtain x1
    where x1: "parse_loop (cmem d) (x, scanning (int (length pre)) (int (length pre)) (Some b)) =
        parse_loop (cmem d) (x1, scanning (int (length ?pt)) (int (length pre)) (Some b))"
      "scan_buf x1 t" "focus x1 = focus x" by auto
  have d1: "d = pre @ t @ CHR ''<'' # (w @ ?rest)" "\<forall>t. w @ ?rest \<noteq> CHR ''!'' # t"
    using d(1) w by (auto simp: Cons_eq_append_conv append_eq_Cons_conv)
  have f1: "focus x1 (Some b) (vs @ [v])" using x1(3) Cons.prems(7) by simp
  from tag_begin_next [OF d1 Cons.prems(2) x1(2) d(3,4) f1] obtain x2 a
    where x2: "parse_loop (cmem d) (x1, scanning (int (length ?pt)) (int (length pre)) (Some b)) =
        parse_loop (cmem d) (x2, in_tag (int (length ?pt) + 1) False (int (length ?pt)) 0 a)"
      "focus x2 (Some a) ((vs @ [set_value t v]) @ [no_element])" "bufs_ok x2" by auto
  have d2: "d = ?pt @ tag_text g @ ?rest" using d(1) by simp
  from tag_body [OF g(1) d2 x2(3,2)] obtain x3 b3 blk3
    where x3: "parse_loop (cmem d) (x2, in_tag (int (length ?pt) + 1) False (int (length ?pt)) 0 a) =
        parse_loop (cmem d) (x3, scanning (int (length (?pt @ tag_text g))) (int (length (?pt @ tag_text g))) (Some b3))"
      "focus x3 (Some b3) ((vs @ [set_value t v]) @ finished (tag_short g) (tag_elem g))" "bufs_ok x3"
      "m_pWorkingBuffer x3 = Some blk3" by blast
  let ?vs = "(vs @ [set_value t v]) @ butlast (finished (tag_short g) (tag_elem g))"
  have d3: "d = (?pt @ tag_text g) @ u @ doc_text doc" "?pt @ tag_text g \<noteq> []" using d2 w by simp_all
  have f3: "focus x3 (Some b3) (?vs @ [last_tag g])" using x3(2) finished_last(2) [of g] by simp
  from Cons.IH [OF d3 g(2,3) x3(3,4) f3] obtain x' p
    where i: "parse_loop (cmem d) (x3, scanning (int (length (?pt @ tag_text g))) (int (length (?pt @ tag_text g))) (Some b3)) = Inr x'"
      "focus x' p (?vs @ (if doc = [] then [last_tag g] else set_value u (last_tag g) # doc_elems doc))" "bufs_ok x'" by blast
  have "?vs @ (if doc = [] then [last_tag g] else set_value u (last_tag g) # doc_elems doc) =
      vs @ set_value t v # doc_elems (gt # doc)"
    using finished_last(1) [of g] by (cases doc) (simp_all add: gu)
  then show ?case using x1(1) x2(1) x3(1) i by auto
qed

lemma parse_loop_doc:
  assumes x: "focus x None []" "bufs_ok x" and doc: "doc_ok doc"
  shows "\<exists>x' p. parse_loop (cmem (doc_text doc)) (x, parse_start) = Inr x' \<and> focus x' p (doc_elems doc) \<and> bufs_ok x'"
proof (cases doc)
  case Nil
  then have "parse_loop (cmem (doc_text doc)) (x, parse_start) = Inr x"
    by (intro parse_done) (simp add: doc_text_def parse_start_def)
  then show ?thesis using x Nil by (intro exI [of _ x] exI [of _ None]) simp
next
  case (Cons gt rest)
  obtain g u where gu: "gt = (g, u)" by (cases gt)
  have g: "tag_ok g" "text_ok u" "doc_ok rest" using doc by (auto simp: doc_ok_def gu Cons)
  let ?d = "doc_text doc"
  have d: "?d = [] @ tag_text g @ u @ doc_text rest" by (simp add: doc_text_def gu Cons)
  from tag_text_open [OF g(1)] obtain w where w: "tag_text g = CHR ''<'' # w" "w \<noteq> []" "hd w \<noteq> CHR ''!''" by blast
  have d1: "?d = CHR ''<'' # (w @ u @ doc_text rest)" "\<forall>t. w @ u @ doc_text rest \<noteq> CHR ''!'' # t"
    using d w by (auto simp: Cons_eq_append_conv append_eq_Cons_conv)
  from tag_begin_first [OF d1 x] obtain x1 a
    where x1: "parse_loop (cmem ?d) (x, parse_start) = parse_loop (cmem ?d) (x1, in_tag 1 False 0 0 a)"
      "focus x1 (Some a) ([] @ [no_element])" "bufs_ok x1" by auto
  from tag_body [OF g(1) d x1(3,2)] obtain x2 b blk
    where x2: "parse_loop (cmem ?d) (x1, in_tag 1 False 0 0 a) =
        parse_loop (cmem ?d) (x2, scanning (int (length (tag_text g))) (int (length (tag_text g))) (Some b))"
      "focus x2 (Some b) (finished (tag_short g) (tag_elem g))" "bufs_ok x2" "m_pWorkingBuffer x2 = Some blk" by auto
  let ?vs = "butlast (finished (tag_short g) (tag_elem g))"
  have d2: "?d = tag_text g @ u @ doc_text rest" "tag_text g \<noteq> []" using d w by simp_all
  have f2: "focus x2 (Some b) (?vs @ [last_tag g])" using x2(2) finished_last(2) [of g] by simp
  from doc_run [OF d2 g(2,3) x2(3,4) f2] obtain x' p
    where i: "parse_loop (cmem ?d) (x2, scanning (int (length (tag_text g))) (int (length (tag_text g))) (Some b)) = Inr x'"
      "focus x' p (?vs @ (if rest = [] then [last_tag g] else set_value u (last_tag g) # doc_elems rest))" "bufs_ok x'" by blast
  have "?vs @ (if rest = [] then [last_tag g] else set_value u (last_tag g) # doc_elems rest) = doc_elems doc"
    using finished_last(1) [of g] by (cases rest) (simp_all add: gu Cons)
  then show ?thesis using x1(1) x2(1) i by auto
qed

section \<open>Parsing replaces what the parser held\<close>

definition elems_left :: "cXMLLiteParser \<Rightarrow> (nat \<times> nat) list \<Rightarrow> nat \<Rightarrow> bool" where
  "elems_left x ps k \<longleftrightarrow>
     xl_repr (m_xmlElements x) ps \<and> distinct (map snd ps) \<and> bufs_ok x \<and>
     (\<forall>i < k. \<exists>e v. x_elems x (snd (ps ! i)) = Some e \<and> el_is e v)"

lemma Element_Flush_el_is: "el_is e v \<Longrightarrow> \<exists>e'. Element_Flush e = Some (Inr e')"
proof -
  assume "el_is e v"
  then obtain ps where "attrs_are e ps (xe_attrs v)" unfolding el_is_def by blast
  from Element_Flush_returns [OF this] show ?thesis by blast
qed

lemma flush_elements_step:
  assumes "elems_left x ps (Suc i)" "xl_at (m_xmlElements x) ps i" "i < length ps"
  shows "flush_elements x =
    (let x' = x\<lparr>x_elems := (x_elems x)(snd (ps ! i) := None),
       m_xmlElements := (m_xmlElements x)\<lparr>m_pCurrent := (if 0 < i then xl_addr ps (i - 1) else None)\<rparr>\<rparr>
     in if 0 < i then flush_elements x' else Some (Inr x'))"
proof -
  have r: "xl_repr (m_xmlElements x) ps" using assms(1) by (simp add: elems_left_def)
  from assms(1) obtain e v where e: "x_elems x (snd (ps ! i)) = Some e" "el_is e v"
    unfolding elems_left_def by blast
  from Element_Flush_el_is [OF e(2)] obtain e' where "Element_Flush e = Some (Inr e')" by blast
  then show ?thesis
    using XMLList_GetData_repr [OF r assms(2)] XMLList_MovePrev_repr [OF r assms(2,3)] assms(3) e(1)
    by (subst flush_elements.simps) (simp add: x_get_def Let_def)
qed

lemma flush_elements_spec:
  assumes "elems_left x ps (Suc i)" "xl_at (m_xmlElements x) ps i" "i < length ps"
  shows "\<exists>x'. flush_elements x = Some (Inr x') \<and> xl_repr (m_xmlElements x') ps \<and> bufs_ok x'"
  using assms
proof (induction i arbitrary: x)
  case 0
  then show ?case using flush_elements_step [OF 0] by (simp add: elems_left_def)
next
  case (Suc i)
  let ?x = "x\<lparr>x_elems := (x_elems x)(snd (ps ! Suc i) := None),
      m_xmlElements := (m_xmlElements x)\<lparr>m_pCurrent := xl_addr ps i\<rparr>\<rparr>"
  have eq: "flush_elements x = flush_elements ?x" using flush_elements_step [OF Suc.prems] by simp
  have "snd (ps ! j) \<noteq> snd (ps ! Suc i)" if "j < Suc i" for j
    using Suc.prems that nth_eq_iff_index_eq [of "map snd ps" j "Suc i"] by (simp add: elems_left_def)
  then have "elems_left ?x ps (Suc i)" using Suc.prems(1) by (auto simp: elems_left_def)
  from Suc.IH [OF this] Suc.prems(3) eq show ?case by (simp add: xl_at_def)
qed

lemma Parser_Flush_spec:
  assumes r: "x_rep x ps vs" and b: "bufs_ok x"
  shows "\<exists>x'. Parser_Flush x = Some (Inr x') \<and> focus x' None [] \<and> bufs_ok x'"
proof -
  have l: "xl_repr (m_xmlElements x) ps" "distinct (map snd ps)" "list_all2 (el_at x) ps vs"
    using r by (simp_all add: x_rep_def)
  let ?x = "x\<lparr>m_xmlElements := snd (XMLList_MoveToTail (m_xmlElements x))\<rparr>"
  note tl = XMLList_MoveToTail_repr [OF l(1)]
  have "\<exists>x'. (if ps \<noteq> [] then flush_elements ?x else Some (Inr ?x)) = Some (Inr x') \<and>
      xl_repr (m_xmlElements x') ps \<and> bufs_ok x'"
  proof (cases "ps = []")
    case True
    then show ?thesis using l(1) b tl by simp
  next
    case False
    then have n: "Suc (length ps - 1) = length ps" by simp
    have "\<forall>i < length ps. \<exists>e v. x_elems x (snd (ps ! i)) = Some e \<and> el_is e v"
      using l(3) by (auto simp: list_all2_conv_all_nth el_at_def) blast
    then have "elems_left ?x ps (Suc (length ps - 1))"
      unfolding n using l(1,2) b tl False by (simp add: elems_left_def)
    moreover have "xl_at (m_xmlElements ?x) ps (length ps - 1)" "length ps - 1 < length ps"
      using False tl by (simp_all add: xl_at_def)
    ultimately show ?thesis using flush_elements_spec [of ?x ps "length ps - 1"] False by auto
  qed
  then obtain x1 where x1: "(if ps \<noteq> [] then flush_elements ?x else Some (Inr ?x)) = Some (Inr x1)"
    "xl_repr (m_xmlElements x1) ps" "bufs_ok x1" by blast
  from XMLList_Clear_spec [OF x1(2)] obtain l'
    where l': "XMLList_Clear (m_xmlElements x1) = Some (Inr l')" "xl_repr l' []" by blast
  have "fst (XMLList_MoveToTail (m_xmlElements x)) = 0 \<longleftrightarrow> ps \<noteq> []" using tl by simp
  then have "Parser_Flush x = Some (Inr (x1\<lparr>m_xmlElements := l'\<rparr>))"
    using x1(1) l'(1) by (simp add: Parser_Flush_def Let_def case_prod_beta)
  then show ?thesis using l'(2) x1(3) by (simp add: focus_def x_rep_def)
qed

text \<open>\<open>parser_holds x vs\<close>: the parser is sound and holds the elements \<open>vs\<close>.\<close>

definition parser_holds :: "cXMLLiteParser \<Rightarrow> xml_elem list \<Rightarrow> bool" where
  "parser_holds x vs \<longleftrightarrow> bufs_ok x \<and> (\<exists>ps. x_rep x ps vs)"

lemma parser_holds_new: "parser_holds new_cXMLLiteParser []"
proof -
  have "x_rep new_cXMLLiteParser [] []"
    by (simp add: x_rep_def new_cXMLLiteParser_def xl_repr_Nil)
  moreover have "bufs_ok new_cXMLLiteParser"
    by (simp add: bufs_ok_def work_ok_def split_ok_def new_cXMLLiteParser_def)
  ultimately show ?thesis by (auto simp: parser_holds_def)
qed

lemma Parse_doc:
  assumes "parser_holds x vs" "doc_ok doc"
  shows "\<exists>x'. Parse x (cmem (doc_text doc)) = Some (Inr (0, x')) \<and> parser_holds x' (doc_elems doc)"
proof -
  from assms(1) obtain ps where "x_rep x ps vs" "bufs_ok x" by (auto simp: parser_holds_def)
  from Parser_Flush_spec [OF this] obtain x1
    where x1: "Parser_Flush x = Some (Inr x1)" "focus x1 None []" "bufs_ok x1" by blast
  from parse_loop_doc [OF x1(2,3) assms(2)] obtain x' p
    where "parse_loop (cmem (doc_text doc)) (x1, parse_start) = Inr x'" "focus x' p (doc_elems doc)" "bufs_ok x'" by blast
  then show ?thesis using x1(1) focus_rep by (auto simp: Parse_def parser_holds_def)
qed

end
