(* ===== verification/XmlFind.thy ===== *)
theory XmlFind
  imports XmlParse
begin

text \<open>
  The search for elements by name: \<open>FindTag\<close> gives the first element of a name and leaves the
  cursor at it, \<open>FindNextTag\<close> goes on behind the cursor and gives up at a name that it is told.
\<close>

section \<open>The loop\<close>

text \<open>\<open>search pTag pNot i vs\<close>: the place in \<open>vs\<close>, from \<open>i\<close> on, where the search ends, and how.\<close>

datatype search_end = FoundAt nat | StoppedAt nat | Missing

fun search :: "string \<Rightarrow> string option \<Rightarrow> nat \<Rightarrow> xml_elem list \<Rightarrow> search_end" where
  "search pTag pNot i [] = Missing"
| "search pTag pNot i (v # vs) =
     (if xe_name v \<noteq> None \<and> pNot \<noteq> None \<and> xe_name v = pNot then StoppedAt i
      else if xe_name v = Some pTag then FoundAt i
      else search pTag pNot (Suc i) vs)"

definition at_elem :: "cXMLLiteParser \<Rightarrow> (nat \<times> nat) list \<Rightarrow> nat \<Rightarrow> bool" where
  "at_elem x ps i \<longleftrightarrow> xl_at (m_xmlElements x) ps i"

lemma name_at_spec:
  assumes "x_rep x ps vs" "i < length ps"
  shows "name_at x (snd (ps ! i)) = Inr (xe_name (vs ! i))"
proof -
  have "el_at x (ps ! i) (vs ! i)" using assms by (auto simp: x_rep_def intro: list_all2_nthD)
  then obtain e where e: "x_elems x (snd (ps ! i)) = Some e" "xs_holds (m_xmlTagName e) (xe_name (vs ! i))"
    by (auto simp: el_at_def el_is_def)
  then show ?thesis
    by (auto simp: name_at_def x_get_def GetElementName_def xs_holds_def split: option.splits)
qed

lemma x_rep_cursor [simp]:
  "x_rep (x\<lparr>m_xmlElements := (m_xmlElements x)\<lparr>m_pCurrent := c\<rparr>\<rparr>) = x_rep x"
  by (simp add: x_rep_def el_at_def [abs_def] fun_eq_iff)

text \<open>\<open>moved x x' c\<close>: only the cursor is different.\<close>

definition moved :: "cXMLLiteParser \<Rightarrow> cXMLLiteParser \<Rightarrow> bool" where
  "moved x x' \<longleftrightarrow> (\<exists>c. x' = x\<lparr>m_xmlElements := (m_xmlElements x)\<lparr>m_pCurrent := c\<rparr>\<rparr>)"

lemma moved_refl: "moved x x"
  unfolding moved_def by (rule exI [of _ "m_pCurrent (m_xmlElements x)"]) simp

lemma moved_step: "moved (x\<lparr>m_xmlElements := (m_xmlElements x)\<lparr>m_pCurrent := c\<rparr>\<rparr>) x' \<Longrightarrow> moved x x'"
  by (auto simp: moved_def)

definition ends_as :: "(nat \<times> nat) list \<Rightarrow> search_end \<Rightarrow> find_result \<Rightarrow> cXMLLiteParser \<Rightarrow> bool" where
  "ends_as ps s r x \<longleftrightarrow>
     (case s of
        FoundAt i \<Rightarrow> r = Found (snd (ps ! i)) \<and> at_elem x ps i
      | StoppedAt i \<Rightarrow> r = Stopped \<and> at_elem x ps i
      | Missing \<Rightarrow> r = NotFound)"

lemma find_loop_spec:
  assumes "x_rep x ps vs" "at_elem x ps i" "i < length ps"
  shows "\<exists>r x'. find_loop pTag pNot x = Some (Inr (r, x')) \<and> ends_as ps (search pTag pNot i (drop i vs)) r x' \<and> moved x x'"
  using assms
proof (induction "length ps - i" arbitrary: x i)
  case 0
  then show ?case by simp
next
  case (Suc n)
  let ?l = "m_xmlElements x" and ?v = "vs ! i"
  have l: "xl_repr ?l ps" "length vs = length ps"
    using Suc.prems(1) by (auto simp: x_rep_def dest: list_all2_lengthD)
  have a: "xl_at ?l ps i" using Suc.prems(2) by (simp add: at_elem_def)
  have d: "drop i vs = ?v # drop (Suc i) vs" using Suc.prems(3) l(2) by (simp add: Cons_nth_drop_Suc)
  have g: "XMLList_GetData ?l = Inr (Some (snd (ps ! i)))" using XMLList_GetData_repr [OF l(1) a] Suc.prems(3) by simp
  have nm: "name_at x (snd (ps ! i)) = Inr (xe_name ?v)" by (rule name_at_spec [OF Suc.prems(1,3)])
  let ?stop = "xe_name ?v \<noteq> None \<and> pNot \<noteq> None \<and> xe_name ?v = pNot"
  consider (stop) "?stop" | (found) "\<not> ?stop" "xe_name ?v = Some pTag" | (on) "\<not> ?stop" "xe_name ?v \<noteq> Some pTag" by blast
  then show ?case
  proof cases
    case stop
    then have "find_loop pTag pNot x = Some (Inr (Stopped, x))" using g nm by (subst find_loop.simps) simp
    then show ?thesis using stop d Suc.prems(2) moved_refl by (simp add: ends_as_def)
  next
    case found
    then have "find_loop pTag pNot x = Some (Inr (Found (snd (ps ! i)), x))" using g nm by (subst find_loop.simps) auto
    then show ?thesis using found d Suc.prems(2) moved_refl by (auto simp: ends_as_def)
  next
    case on
    let ?x = "x\<lparr>m_xmlElements := ?l\<lparr>m_pCurrent := xl_addr ps (Suc i)\<rparr>\<rparr>"
    have st: "find_loop pTag pNot x = (if Suc i < length ps then find_loop pTag pNot ?x else Some (Inr (NotFound, ?x)))"
      using on g nm XMLList_MoveNext_repr [OF l(1) a Suc.prems(3)] by (subst find_loop.simps) auto
    have se: "search pTag pNot i (drop i vs) = search pTag pNot (Suc i) (drop (Suc i) vs)" using on d by auto
    show ?thesis
    proof (cases "Suc i < length ps")
      case True
      have "n = length ps - Suc i" "x_rep ?x ps vs" "at_elem ?x ps (Suc i)"
        using Suc.hyps(2) Suc.prems(1) by (auto simp: at_elem_def xl_at_def)
      from Suc.hyps(1) [OF this True] show ?thesis using st se True moved_step by auto
    next
      case False
      then have "drop (Suc i) vs = []" using l(2) by simp
      then have "search pTag pNot i (drop i vs) = Missing" using se by simp
      then show ?thesis using st False by (auto simp: ends_as_def moved_def)
    qed
  qed
qed

section \<open>The operations\<close>

text \<open>What a search returns, and where it leaves the cursor: at the element, or where it was.\<close>

definition find_spec ::
  "(nat \<times> nat) list \<Rightarrow> search_end \<Rightarrow> cXMLLiteParser \<Rightarrow> nat option \<Rightarrow> cXMLLiteParser \<Rightarrow> bool" where
  "find_spec ps s x r x' \<longleftrightarrow>
     (case s of
        FoundAt i \<Rightarrow> r = Some (snd (ps ! i)) \<and> at_elem x' ps i
      | StoppedAt i \<Rightarrow> r = None \<and> at_elem x' ps i
      | Missing \<Rightarrow> r = None \<and> GetCurrentNodeHandle x' = GetCurrentNodeHandle x)"

lemma find_end_spec:
  assumes "ends_as ps s r x1" "m_pMarker (m_xmlElements x1) = Some (GetCurrentNodeHandle x)" "x_rep x1 ps vs"
  shows "\<exists>p x'. find_end (r, x1) = Inr (p, x') \<and> find_spec ps s x p x' \<and> x_rep x' ps vs"
  using assms
  by (auto simp: ends_as_def find_spec_def find_end_def RestorePos_def GetCurrentNodeHandle_def
      split: search_end.splits)

lemma x_rep_marker [simp]:
  "x_rep (x\<lparr>m_xmlElements := (m_xmlElements x)\<lparr>m_pMarker := m, m_pCurrent := c\<rparr>\<rparr>) = x_rep x"
  by (simp add: x_rep_def el_at_def [abs_def] fun_eq_iff)

lemma FindTag_spec:
  assumes r: "x_rep x ps vs"
  shows "\<exists>p x'. FindTag x pTag = Some (Inr (p, x')) \<and> find_spec ps (search pTag None 0 vs) x p x' \<and> x_rep x' ps vs"
proof -
  let ?l = "m_xmlElements x"
  let ?l1 = "?l\<lparr>m_pMarker := Some (m_pCurrent ?l), m_pCurrent := xl_addr ps 0\<rparr>"
  let ?x = "x\<lparr>m_xmlElements := ?l1\<rparr>"
  have l: "xl_repr ?l ps" "length vs = length ps" using r by (auto simp: x_rep_def dest: list_all2_lengthD)
  have m: "XMLList_MoveToHead (SavePos ?l) = (if ps = [] then 1 else 0, ?l1)"
    using XMLList_MoveToHead_repr [of "SavePos ?l" ps] l(1) by (simp add: SavePos_def)
  have x1: "x_rep ?x ps vs" "at_elem ?x ps 0" using r by (simp_all add: at_elem_def xl_at_def)
  show ?thesis
  proof (cases "ps = []")
    case True
    then have "vs = []" using l(2) by simp
    have "ends_as ps Missing NotFound ?x" by (simp add: ends_as_def)
    from find_end_spec [OF this _ x1(1), of x] obtain p x'
      where "find_end (NotFound, ?x) = Inr (p, x')" "find_spec ps Missing x p x'" "x_rep x' ps vs"
      by (auto simp: GetCurrentNodeHandle_def)
    then show ?thesis using True m \<open>vs = []\<close> by (simp add: FindTag_def Let_def)
  next
    case False
    then have "0 < length ps" by simp
    from find_loop_spec [OF x1 this, of pTag None] obtain r x2
      where x2: "find_loop pTag None ?x = Some (Inr (r, x2))" "ends_as ps (search pTag None 0 vs) r x2" "moved ?x x2" by auto
    then have "m_pMarker (m_xmlElements x2) = Some (GetCurrentNodeHandle x)" "x_rep x2 ps vs"
      using x1(1) by (auto simp: moved_def GetCurrentNodeHandle_def)
    from find_end_spec [OF x2(2) this] show ?thesis using x2(1) m False by (auto simp: FindTag_def Let_def)
  qed
qed

text \<open>\<open>FindNextTag\<close> with the cursor at element \<open>i\<close>; behind the last one it finds nothing.\<close>

lemma FindNextTag_spec:
  assumes r: "x_rep x ps vs" and a: "at_elem x ps i" "i < length ps"
  shows "\<exists>p x'. FindNextTag x pTag pNot = Some (Inr (p, x')) \<and>
    find_spec ps (search pTag pNot (Suc i) (drop (Suc i) vs)) x p x' \<and> x_rep x' ps vs"
proof -
  let ?l = "m_xmlElements x"
  let ?l1 = "?l\<lparr>m_pMarker := Some (m_pCurrent ?l), m_pCurrent := xl_addr ps (Suc i)\<rparr>"
  let ?x = "x\<lparr>m_xmlElements := ?l1\<rparr>"
  have l: "xl_repr ?l ps" "length vs = length ps" using r by (auto simp: x_rep_def dest: list_all2_lengthD)
  have s: "xl_repr (SavePos ?l) ps" "xl_at (SavePos ?l) ps i"
    using l(1) a(1) by (simp_all add: SavePos_def at_elem_def xl_at_def)
  have m: "XMLList_MoveNext (SavePos ?l) = Inr (if Suc i < length ps then 0 else 3, ?l1)"
    using XMLList_MoveNext_repr [OF s a(2)] by (simp add: SavePos_def)
  have x1: "x_rep ?x ps vs" "at_elem ?x ps (Suc i)" using r by (simp_all add: at_elem_def xl_at_def)
  have "\<exists>r x2. find_loop pTag pNot ?x = Some (Inr (r, x2)) \<and>
      ends_as ps (search pTag pNot (Suc i) (drop (Suc i) vs)) r x2 \<and> moved ?x x2"
  proof (cases "Suc i < length ps")
    case True
    from find_loop_spec [OF x1 True] show ?thesis by blast
  next
    case False
    have "xl_repr ?l1 ps" using l(1) by simp
    moreover have "m_pCurrent ?l1 = None" using False by (simp add: xl_addr_def)
    moreover have "ps \<noteq> []" using a(2) by auto
    ultimately have "XMLList_MoveNext ?l1 = Inr (3, ?l1)" using XMLList_MoveNext_end [of ?l1 ps] by simp
    moreover have "XMLList_GetData ?l1 = Inr None" using False by (simp add: XMLList_GetData_def xl_addr_def)
    ultimately have "find_loop pTag pNot ?x = Some (Inr (NotFound, ?x))"
      by (subst find_loop.simps) simp
    moreover have "drop (Suc i) vs = []" using False l(2) by simp
    ultimately show ?thesis using moved_refl by (auto simp: ends_as_def)
  qed
  then obtain r x2 where x2: "find_loop pTag pNot ?x = Some (Inr (r, x2))"
    "ends_as ps (search pTag pNot (Suc i) (drop (Suc i) vs)) r x2" "moved ?x x2" by blast
  then have "m_pMarker (m_xmlElements x2) = Some (GetCurrentNodeHandle x)" "x_rep x2 ps vs"
    using x1(1) by (auto simp: moved_def GetCurrentNodeHandle_def)
  from find_end_spec [OF x2(2) this] show ?thesis using x2(1) m by (auto simp: FindNextTag_def)
qed

end
