(* ===== verification/XmlProperties.thy ===== *)
theory XmlProperties
  imports XmlFind XmlParse
begin

section \<open>Documents that break the parser\<close>

text \<open>
  Documents on which \<open>Parse\<close> leaves its memory: a first tag that does not fit the buffer that
  \<open>CheckWorkingBuffer\<close> allocates first, and an attribute with an empty value. And what it makes of a
  CDATA section: the block is kept as it is, the tag right behind it is lost.
\<close>

section \<open>A first tag that is too long\<close>

lemma Parser_Flush_new: "Parser_Flush new_cXMLLiteParser = Some (Inr new_cXMLLiteParser)"
  by (simp add: Parser_Flush_def XMLList_MoveToTail_def XMLList_Clear_def new_cXMLLiteParser_def new_cXMLLiteList_def Let_def)

lemma focus_new: "focus new_cXMLLiteParser None []" "bufs_ok new_cXMLLiteParser"
  using parser_holds_new
  by (auto simp: parser_holds_def focus_def x_rep_def new_cXMLLiteParser_def xl_repr_Nil)

lemma tag_name_overflow:
  assumes d: "d = pre @ piece @ s" "NUL \<notin> set piece" "1024 \<le> length piece"
    and l: "iTagMarkStart l = int (length pre)" "pl_idx l = int (length pre + length piece) - 1"
    and x: "bufs_ok x" "m_pWorkingBuffer x = None"
  shows "tag_name (cmem d) (x, l) = Inl OutOfBounds"
proof -
  have n: "pl_idx l - iTagMarkStart l + 1 = int (length piece)" using l by simp
  have "m_iWorkingBufferSize x = 0" using x by (simp add: bufs_ok_def work_ok_def)
  then have c: "CheckWorkingBuffer x (int (length piece)) =
      Inr (x\<lparr>m_iWorkingBufferSize := 1024, m_pWorkingBuffer := Some (replicate 1024 None)\<rparr>)"
    by (simp add: CheckWorkingBuffer_def INITAL_WORKING_BUFFER_SIZE_def)
  have "drop (length pre) (cmem d) = map Some piece @ map Some s @ [Some NUL]" using d(1) by (simp add: cmem_def)
  then have cp: "str_ncpy (replicate 1024 None) (cmem d) (iTagMarkStart l) (int (length piece)) =
      (if length piece = 1024 then Inr (map Some piece) else Inl OutOfBounds)"
    using l d(2,3) str_take_text [of piece "map Some s @ [Some NUL]"] by (auto simp: str_ncpy_def mem_store_def)
  have "mem_write (map Some piece) (int (length piece)) NUL = Inl OutOfBounds" by (simp add: mem_write_def)
  then show ?thesis
    unfolding tag_name_def prod.case n c rbind.simps copy_piece_def
    using cp by (auto simp: on_working_def working_def)
qed

lemma cdata_section_none:
  assumes "d = pre @ CHR ''>'' # s" "pl_idx l = int (length pre)"
  shows "cdata_section (cmem d) (x, l) = Inr None"
proof -
  have "\<not> starts_with ''<![CDATA'' (CHR ''>'' # s)" by simp
  then have "mem_starts (cmem d) (pl_idx l) ''<![CDATA'' = Inr False"
    using mem_starts_text [of "''<![CDATA''" pre "CHR ''>'' # s"] assms by (simp del: mem_starts.simps)
  then show ?thesis by (simp add: cdata_section_def del: mem_starts.simps)
qed

lemma end_fault:
  assumes d: "d = pre @ CHR ''>'' # s" and l: "pl_idx l = int (length pre)" "iState l = stTagProcess"
    and f: "tag_end (cmem d) (x, l\<lparr>iLastState := stTagProcess, iState := stTagEnd\<rparr>) = Inl e"
  shows "parse_loop (cmem d) (x, l) = Inl e"
proof (rule parse_fault [OF d _ l(1)])
  have "tag_state (cmem d) CHR ''>'' l = Inr (l\<lparr>iLastState := stTagProcess, iState := stTagEnd\<rparr>)"
    using l(2) by (simp add: tag_state_end)
  then show "parse_char (cmem d) CHR ''>'' (x, l) = Inl e" using f by (simp add: parse_char_def)
qed simp

lemma label_open: "n \<noteq> [] \<Longrightarrow> hd n \<noteq> c \<Longrightarrow> \<forall>t. n @ s \<noteq> c # t"
  by (cases n) auto

lemma Parse_long_tag:
  assumes n: "\<forall>c \<in> set n. plain c" "hd n \<noteq> CHR ''!''" "1022 \<le> length n"
  shows "Parse new_cXMLLiteParser (cmem (CHR ''<'' # n @ ''>'' @ s)) = Some (Inl OutOfBounds)"
proof -
  let ?d = "CHR ''<'' # n @ ''>'' @ s"
  have ne: "n \<noteq> []" using n(3) by auto
  from tag_begin_first [OF refl label_open [OF ne n(2), of "''>'' @ s"] focus_new] obtain x a
    where x: "parse_loop (cmem ?d) (new_cXMLLiteParser, parse_start) = parse_loop (cmem ?d) (x, in_tag 1 False 0 0 a)"
      "bufs_ok x" "m_pWorkingBuffer x = None" by (auto simp: new_cXMLLiteParser_def)
  have d: "?d = ''<'' @ n @ (''>'' @ s)" by simp
  let ?l = "in_tag (int (length (''<'' @ n))) False 0 0 a"
  have "parse_loop (cmem ?d) (x, in_tag 1 False 0 0 a) = parse_loop (cmem ?d) (x, ?l)"
    using plain_run [OF d n(1), of x False 0 0 a] by simp
  also have "\<dots> = Inl OutOfBounds"
  proof (rule end_fault)
    show dd: "?d = (''<'' @ n) @ CHR ''>'' # s" by simp
    let ?l2 = "?l\<lparr>iLastState := stTagProcess, iState := stTagEnd\<rparr>"
    have "?d = [] @ (''<'' @ n @ ''>'') @ s" by simp
    moreover have "NUL \<notin> set (''<'' @ n @ ''>'')" using n(1) by (auto simp: plain_def)
    moreover have "1024 \<le> length (''<'' @ n @ ''>'')" using n(3) by simp
    moreover have "iTagMarkStart ?l2 = int (length ([] :: string))"
      "pl_idx ?l2 = int (length ([] :: string) + length (''<'' @ n @ ''>'')) - 1" by (simp_all add: in_tag_def)
    ultimately have "tag_name (cmem ?d) (x, ?l2) = Inl OutOfBounds"
      by (rule tag_name_overflow [OF _ _ _ _ _ x(2,3)])
    moreover have "cdata_section (cmem ?d) (x, ?l2) = Inr None"
      by (rule cdata_section_none [OF dd]) (simp add: in_tag_def)
    ultimately show "tag_end (cmem ?d) (x, ?l2) = Inl OutOfBounds" by (simp add: tag_end_def)
  qed (simp_all add: in_tag_def)
  finally show ?thesis using x(1) by (simp add: Parse_def Parser_Flush_new)
qed

section \<open>An empty attribute\<close>

lemma Parse_empty_attribute:
  assumes h: "parser_holds x vs" and n: "n \<noteq> []" "\<forall>c \<in> set n. plain c" "hd n \<noteq> CHR ''!''"
    and k: "k \<noteq> []" "\<forall>c \<in> set k. plain c \<and> c \<noteq> CHR ''=''" and len: "length n + length k \<le> 1000"
  shows "Parse x (cmem (CHR ''<'' # n @ SP # attr_text (k, []) @ ''>'' @ s)) = Some (Inl OutOfBounds)"
proof -
  let ?at = "attr_text (k, [])"
  let ?d = "CHR ''<'' # n @ SP # ?at @ ''>'' @ s"
  from h obtain ps where "x_rep x ps vs" "bufs_ok x" by (auto simp: parser_holds_def)
  from Parser_Flush_spec [OF this] obtain x0
    where x0: "Parser_Flush x = Some (Inr x0)" "focus x0 None []" "bufs_ok x0" by blast
  from tag_begin_first [OF refl label_open [OF n(1,3), of "SP # ?at @ ''>'' @ s"] x0(2,3)] obtain x1 a
    where x1: "parse_loop (cmem ?d) (x0, parse_start) = parse_loop (cmem ?d) (x1, in_tag 1 False 0 0 a)"
      "focus x1 (Some a) ([] @ [no_element])" "bufs_ok x1" by auto
  have sh: "attr_shape (k, [])" using k by (simp add: attr_shape_def)
  let ?p = "''<'' @ n" and ?m = "int (length (''<'' @ n))"
  have d1: "?d = ''<'' @ n @ (SP # ?at @ ''>'' @ s)" by simp
  have d2: "?d = ?p @ SP # (?at @ ''>'' @ s)" by simp
  have d3: "?d = (?p @ [SP]) @ ?at @ (''>'' @ s)" by simp
  let ?l = "in_tag (int (length ((?p @ [SP]) @ ?at))) False 0 ?m a"
  have "parse_loop (cmem ?d) (x1, in_tag 1 False 0 0 a) = parse_loop (cmem ?d) (x1, in_tag ?m False 0 0 a)"
    using plain_run [OF d1 n(2), of x1 False 0 0 a] by simp
  also have "\<dots> = parse_loop (cmem ?d) (x1, in_tag (?m + 1) False 0 ?m a)" by (rule first_blank [OF d2])
  also have "?m + 1 = int (length (?p @ [SP]))" by simp
  also have "parse_loop (cmem ?d) (x1, in_tag (int (length (?p @ [SP]))) False 0 ?m a) = parse_loop (cmem ?d) (x1, ?l)"
    by (rule attr_chars [OF d3 sh]) simp
  also have "\<dots> = Inl OutOfBounds"
  proof (rule end_fault)
    let ?piece = "''<'' @ n @ SP # ?at @ ''>''" and ?ap = "SP # ?at @ ''>''"
    show dd: "?d = ((?p @ [SP]) @ ?at) @ CHR ''>'' # s" by simp
    let ?l2 = "?l\<lparr>iLastState := stTagProcess, iState := stTagEnd\<rparr>"
    have "NUL \<notin> set ?piece" using n(2) attr_text_chars [OF sh] by (auto simp: plain_def)
    moreover have "length ?piece \<le> 1020" using len by (simp add: attr_text_def quote_def)
    moreover have "?d = [] @ ?piece @ s" by simp
    ultimately obtain x2 blk
      where x2: "tag_name (cmem ?d) (x1, ?l2) = Inr (short_tag ?piece, x2)" "bufs_ok x2" "m_pWorkingBuffer x2 = Some blk"
      using tag_name_spec [of ?d "[]" ?piece s ?l2 a x1 "[]" no_element] x1(2,3) by (auto simp: in_tag_def)
    have "?d = ?p @ ?ap @ s" by simp
    from add_attribute_clean [OF this refl sh _ _ _ _ x2(2,3), of ?l2] len obtain x3 b
      where x3: "add_attribute (cmem ?d) (x2, ?l2) = SplitParam x3 b (pElement ?l2)" "bufs_ok x3"
        "cblock b (length b) (k @ ''='')"
      by (auto simp: in_tag_def attr_text_def quote_def)
    have "add_attribute (cmem ?d) (x2, ?l2) = Inl OutOfBounds"
      using x3 SplitParam_empty [OF x3(2,3) attr_key [OF sh, simplified]] by simp
    moreover have "cdata_section (cmem ?d) (x1, ?l2) = Inr None"
      by (rule cdata_section_none [OF dd]) (simp add: in_tag_def)
    moreover have "iAttribMarkStart ?l2 \<noteq> 0" by (simp add: in_tag_def)
    ultimately show "tag_end (cmem ?d) (x1, ?l2) = Inl OutOfBounds"
      using x2(1) by (simp add: tag_end_def)
  qed (simp_all add: in_tag_def)
  finally show ?thesis using x0(1) x1(1) by (simp add: Parse_def)
qed

section \<open>CDATA sections\<close>

text \<open>\<open>c\<close> is closed by the mark that follows it, and holds none itself.\<close>

definition cdata_ok :: "string \<Rightarrow> bool" where
  "cdata_ok c \<longleftrightarrow> NUL \<notin> set c \<and> find_sub '']]>'' (c @ '']]>'') = Some (length c)"

definition cdata_text :: "string \<Rightarrow> string" where
  "cdata_text c = ''<![CDATA['' @ c @ '']]>''"

lemma find_sub_more: "find_sub p u = Some i \<Longrightarrow> find_sub p (u @ v) = Some i"
proof -
  assume a: "find_sub p u = Some i"
  note i = find_sub_SomeD [OF a]
  have eq: "starts_with p (drop j (u @ v)) \<longleftrightarrow> starts_with p (drop j u)" if "j \<le> i" for j
    using that i by (simp add: starts_with_def)
  show ?thesis using i eq by (auto simp: find_sub_Some_iff)
qed

lemma find_sub_later: "CHR '']'' \<notin> set u \<Longrightarrow> find_sub '']]>'' (u @ v) = (case find_sub '']]>'' v of None \<Rightarrow> None | Some k \<Rightarrow> Some (length u + k))"
  by (induction u) (auto split: option.splits)

lemma find_sub_cdata:
  assumes "cdata_ok c"
  shows "find_sub '']]>'' (cdata_text c @ s) = Some (9 + length c)"
proof -
  have "find_sub '']]>'' ((c @ '']]>'') @ s) = Some (length c)"
    using assms find_sub_more [of _ "c @ '']]>''" _ s] by (simp add: cdata_ok_def)
  then show ?thesis using find_sub_later [of "''<![CDATA[''" "c @ '']]>'' @ s"] by (simp add: cdata_text_def)
qed

lemma find_char_more: "CHR ''<'' \<notin> set u \<Longrightarrow> find_sub ''<'' (u @ CHR ''<'' # v) = Some (length u)"
  using find_char_append [of "CHR ''<''" u v] by (simp add: find_char_def)

text \<open>
  The step at a CDATA section: the block becomes data of the element; two characters behind the
  section are passed over, and the text up to the next tag.
\<close>

lemma cdata_step:
  assumes d: "d = pre @ cdata_text c @ y # z # u @ CHR ''<'' # s" and c: "cdata_ok c"
    and u: "CHR ''<'' \<notin> set u" "NUL \<notin> set (y # z # u @ s)"
    and x: "focus x (Some a) (vs @ [v])" "bufs_ok x"
  shows "\<exists>x'. parse_loop (cmem d) (x, scanning (int (length pre)) m (Some a)) =
      parse_loop (cmem d) (x', (scanning (int (length (pre @ cdata_text c @ y # z # u))) m (Some a))
        \<lparr>iLastState := stTagScan, iState := stTagBegin\<rparr>) \<and>
    focus x' (Some a) (vs @ [XE (xe_name v) (xe_value v) (xe_attrs v) (Some c)]) \<and> bufs_ok x'"
proof -
  let ?l0 = "scanning (int (length pre)) m (Some a)"
  define l where "l = ?l0\<lparr>iLastState := stTagScan, iState := stTagEnd\<rparr>"
  have i: "pl_idx l = int (length pre)" "pElement l = Some a" by (simp_all add: l_def scanning_def)
  let ?t = "cdata_text c @ y # z # u @ CHR ''<'' # s"
  have tt: "?t = CHR ''<'' # ''![CDATA['' @ c @ '']]>'' @ y # z # u @ CHR ''<'' # s" by (simp add: cdata_text_def)
  have m1: "mem_starts (cmem d) (int (length pre)) ''<!--'' = Inr False"
    using mem_starts_text [of "''<!--''" pre ?t] unfolding d by (simp add: tt del: mem_starts.simps)
  have m2: "mem_starts (cmem d) (int (length pre)) ''<![CDATA'' = Inr True"
    using mem_starts_text [of "''<![CDATA''" pre ?t] unfolding d by (simp add: tt del: mem_starts.simps)
  have n: "NUL \<notin> set ?t" using c u(2) by (auto simp: cdata_ok_def cdata_text_def)
  have rd: "read_cstr_at (cmem d) (int (length pre)) = Inr ?t"
    using read_cstr_at_append [OF n, of "length pre" "map Some pre" "[]"] unfolding d by (simp add: cmem_def)
  have fd: "find_sub '']]>'' ?t = Some (9 + length c)" by (rule find_sub_cdata [OF c])
  have dr: "drop (nat (int (length pre) + 9)) (cmem d) =
      map Some c @ map Some ('']]>'' @ y # z # u @ CHR ''<'' # s) @ [Some NUL]"
    unfolding d by (simp add: cmem_def cdata_text_def nat_add_distrib)
  have nc: "NUL \<notin> set c" using c by (simp add: cdata_ok_def)
  let ?v = "XE (xe_name v) (xe_value v) (xe_attrs v) (Some c)"
  have "\<exists>e'. SetElementCDATA e (drop (nat (int (length pre) + 9)) (cmem d)) (int (length c)) = Inr e' \<and> el_is e' ?v"
    if "el_is e v" for e
    unfolding dr using SetElementCDATA_spec [of e "xe_name v" "xe_value v" "xe_attrs v" "xe_cdata v", OF _ nc] that by simp
  from on_element_focus [OF x(1), where f = "\<lambda>e. SetElementCDATA e (drop (nat (int (length pre) + 9)) (cmem d)) (int (length c))",
      OF this] obtain x'
    where x': "on_element x (Some a) (\<lambda>e. SetElementCDATA e (drop (nat (int (length pre) + 9)) (cmem d)) (int (length c))) = Inr x'"
      "focus x' (Some a) (vs @ [?v])" "bufs_ok x' = bufs_ok x" by blast
  let ?q = "pre @ cdata_text c @ [y, z]"
  have nu: "NUL \<notin> set (u @ CHR ''<'' # s)" using u(2) by auto
  have rd2: "read_cstr_at (cmem d) (int (length ?q)) = Inr (u @ CHR ''<'' # s)"
    using read_cstr_at_append [OF nu, of "length ?q" "map Some ?q" "[]"] unfolding d by (simp add: cmem_def)
  have i: "pl_idx l = int (length pre)" "pElement l = Some a" by (simp_all add: l_def scanning_def)
  have sz: "int (9 + length c) - 1 - 8 = int (length c)" by simp
  have ix: "int (length pre) + (int (length c) + 9 + 3 + 2) = int (length ?q)" by (simp add: cdata_text_def)
  have "cdata_section (cmem d) (x, l) =
      Inr (Some (x', l\<lparr>iState := stTagBegin, pl_idx := int (length ?q) + int (length u)\<rparr>))"
    by (simp only: cdata_section_def prod.case i m2 rbind.simps rd fd option.case Let_def sz x'(1) ix rd2
        find_char_more [OF u(1)] option.distinct if_False if_True simp_thms)
  moreover have l2: "l\<lparr>iState := stTagBegin, pl_idx := int (length ?q) + int (length u)\<rparr> =
      (scanning (int (length (pre @ cdata_text c @ y # z # u))) m (Some a))\<lparr>iLastState := stTagScan, iState := stTagBegin\<rparr>"
    by (simp add: l_def scanning_def)
  ultimately have cs: "cdata_section (cmem d) (x, l) =
      Inr (Some (x', (scanning (int (length (pre @ cdata_text c @ y # z # u))) m (Some a))\<lparr>iLastState := stTagScan, iState := stTagBegin\<rparr>))"
    by simp
  have st: "tag_state (cmem d) CHR ''<'' ?l0 = Inr l"
    using m2 by (simp add: tag_state_def l_def scanning_def del: mem_starts.simps)
  have sk: "skip_comment (cmem d) (x, ?l0) = Inr None"
    using m1 by (simp add: skip_comment_def scanning_def del: mem_starts.simps)
  have "parse_char (cmem d) CHR ''<'' (x, ?l0) =
      Inr (x', (scanning (int (length (pre @ cdata_text c @ y # z # u))) m (Some a))\<lparr>iLastState := stTagScan, iState := stTagBegin\<rparr>)"
  proof -
    have "tag_end (cmem d) (x, l) =
        Inr (x', (scanning (int (length (pre @ cdata_text c @ y # z # u))) m (Some a))\<lparr>iLastState := stTagScan, iState := stTagBegin\<rparr>)"
      unfolding tag_end_def prod.case cs rbind.simps option.case ..
    moreover have "iState l = stTagEnd" by (simp add: l_def)
    ultimately show ?thesis using sk st by (simp add: parse_char_def)
  qed
  from parse_step [of d pre "CHR ''<''" _ ?l0, OF _ _ _ this] show ?thesis
    using x' x(2) d tt by (auto simp: scanning_def)
qed

text \<open>From that state the next tag starts without a value for the last element.\<close>

lemma tag_begin_after:
  assumes d: "d = pre @ CHR ''<'' # s" "\<forall>t. s \<noteq> CHR ''!'' # t"
    and x: "focus x (Some b) vs" "bufs_ok x"
  shows "\<exists>x' a. parse_loop (cmem d) (x, (scanning (int (length pre)) m (Some b))\<lparr>iLastState := stTagScan, iState := stTagBegin\<rparr>) =
      parse_loop (cmem d) (x', in_tag (int (length pre) + 1) False (int (length pre)) 0 a) \<and>
    focus x' (Some a) (vs @ [no_element]) \<and> bufs_ok x'"
proof -
  let ?l = "(scanning (int (length pre)) m (Some b))\<lparr>iLastState := stTagScan, iState := stTagBegin\<rparr>"
  from GetNewEntry_focus [OF x(1)] obtain a x'
    where x': "GetNewEntry x = Inr (a, x')" "focus x' (Some a) (vs @ [no_element])" "bufs_ok x' = bufs_ok x" by blast
  have i: "pl_idx ?l = int (length pre)" by (simp add: scanning_def)
  have "store_value (x, ?l\<lparr>iLastState := stTagBegin\<rparr>) = Inr x" by (simp add: store_value_def)
  then have "parse_char (cmem d) CHR ''<'' (x, ?l) =
      Inr (x', in_tag (int (length pre) + 1) False (int (length pre)) 0 a)"
    using skip_comment_none [OF d(1) i d(2), of x] tag_state_begin [OF d(1) i d(2)] x'(1)
    by (simp add: parse_char_def tag_begin_def) (simp add: scanning_def in_tag_def)
  from parse_step [OF d(1) _ i this] show ?thesis using x' x(2) by auto
qed

text \<open>
  An element with a CDATA section, its closing tag right behind the section, and a document that goes
  on: the closing tag gives no element.
\<close>

definition closing :: "string \<Rightarrow> string" where
  "closing n = ''</'' @ n @ ''>''"

lemma parse_loop_cdata:
  assumes x: "focus x None []" "bufs_ok x"
    and g: "tag_ok g" "\<not> tag_short g" and c: "cdata_ok c" and t: "CHR ''<'' \<notin> set t" "NUL \<notin> set t"
    and r: "tag_ok h" "text_ok u" "doc_ok doc" and n: "CHR ''<'' \<notin> set n" "NUL \<notin> set n" "n \<noteq> []"
  shows "\<exists>x' p. parse_loop (cmem (tag_text g @ cdata_text c @ closing n @ t @ doc_text ((h, u) # doc))) (x, parse_start) = Inr x' \<and>
    focus x' p (XE (Some (tag_label g)) None (xe_attrs (tag_elem g)) (Some c) # doc_elems ((h, u) # doc)) \<and> bufs_ok x'"
proof -
  let ?w = "n @ ''>'' @ t"
  let ?d = "tag_text g @ cdata_text c @ closing n @ t @ doc_text ((h, u) # doc)"
  have dt: "doc_text ((h, u) # doc) = tag_text h @ u @ doc_text doc" by (simp add: doc_text_def)
  from tag_text_open [OF g(1)] obtain w where w: "tag_text g = CHR ''<'' # w" "w \<noteq> []" "hd w \<noteq> CHR ''!''" by blast
  from tag_text_open [OF r(1)] obtain w' where w': "tag_text h = CHR ''<'' # w'" "w' \<noteq> []" "hd w' \<noteq> CHR ''!''" by blast
  have d: "?d = [] @ tag_text g @ (cdata_text c @ closing n @ t @ doc_text ((h, u) # doc))" by simp
  have d0: "?d = CHR ''<'' # (w @ cdata_text c @ closing n @ t @ doc_text ((h, u) # doc))" using w(1) by simp
  from tag_begin_first [OF d0 label_open [OF w(2,3)] x] obtain x1 a
    where x1: "parse_loop (cmem ?d) (x, parse_start) = parse_loop (cmem ?d) (x1, in_tag 1 False 0 0 a)"
      "focus x1 (Some a) ([] @ [no_element])" "bufs_ok x1" by auto
  from tag_body [OF g(1) d x1(3,2)] g(2) obtain x2 b
    where x2: "parse_loop (cmem ?d) (x1, in_tag 1 False 0 0 a) =
        parse_loop (cmem ?d) (x2, scanning (int (length (tag_text g))) (int (length (tag_text g))) (Some b))"
      "focus x2 (Some b) ([] @ [tag_elem g])" "bufs_ok x2" by (auto simp: finished_def)
  obtain n1 ns where n1: "n = n1 # ns" using n(3) by (cases n) auto
  have d1: "?d = tag_text g @ cdata_text c @ CHR ''<'' # CHR ''/'' # ?w @ CHR ''<'' # (w' @ u @ doc_text doc)"
    using w'(1) by (simp add: closing_def dt)
  have nn: "CHR ''<'' \<notin> set ?w" using n t by auto
  have "NUL \<notin> set (w' @ u @ doc_text doc)"
  proof -
    have a: "NUL \<notin> set (tag_text g @ t)" if "tag_ok g" "text_ok t" for g t
      using tag_text_chars that by (auto simp: text_ok_def)
    have "NUL \<notin> set (doc_text doc)" using r(3) a by (auto simp: doc_text_def doc_ok_def)
    then show ?thesis using a [OF r(1,2)] w'(1) by auto
  qed
  then have "NUL \<notin> set (CHR ''<'' # CHR ''/'' # ?w @ w' @ u @ doc_text doc)" using n t by auto
  from cdata_step [OF d1 c nn this x2(2,3), of "int (length (tag_text g))"] obtain x3
    where x3: "parse_loop (cmem ?d) (x2, scanning (int (length (tag_text g))) (int (length (tag_text g))) (Some b)) =
        parse_loop (cmem ?d) (x3, (scanning (int (length (tag_text g @ cdata_text c @ CHR ''<'' # CHR ''/'' # ?w)))
          (int (length (tag_text g))) (Some b))\<lparr>iLastState := stTagScan, iState := stTagBegin\<rparr>)"
      "focus x3 (Some b) [XE (Some (tag_label g)) None (xe_attrs (tag_elem g)) (Some c)]" "bufs_ok x3"
    by (auto simp: tag_elem_def)
  let ?pre = "tag_text g @ cdata_text c @ CHR ''<'' # CHR ''/'' # ?w"
  have d2: "?d = ?pre @ CHR ''<'' # (w' @ u @ doc_text doc)" using d1 by simp
  from tag_begin_after [OF d2 label_open [OF w'(2,3)] x3(2,3)] obtain x4 a4
    where x4: "parse_loop (cmem ?d) (x3, (scanning (int (length ?pre)) (int (length (tag_text g))) (Some b))\<lparr>iLastState := stTagScan, iState := stTagBegin\<rparr>) =
        parse_loop (cmem ?d) (x4, in_tag (int (length ?pre) + 1) False (int (length ?pre)) 0 a4)"
      "focus x4 (Some a4) ([XE (Some (tag_label g)) None (xe_attrs (tag_elem g)) (Some c)] @ [no_element])" "bufs_ok x4" by blast
  have d3: "?d = ?pre @ tag_text h @ (u @ doc_text doc)" using d2 w'(1) by simp
  from tag_body [OF r(1) d3 x4(3,2)] obtain x5 b5 blk5
    where x5: "parse_loop (cmem ?d) (x4, in_tag (int (length ?pre) + 1) False (int (length ?pre)) 0 a4) =
        parse_loop (cmem ?d) (x5, scanning (int (length (?pre @ tag_text h))) (int (length (?pre @ tag_text h))) (Some b5))"
      "focus x5 (Some b5) ([XE (Some (tag_label g)) None (xe_attrs (tag_elem g)) (Some c)] @ finished (tag_short h) (tag_elem h))"
      "bufs_ok x5" "m_pWorkingBuffer x5 = Some blk5" by blast
  let ?vs = "XE (Some (tag_label g)) None (xe_attrs (tag_elem g)) (Some c) # butlast (finished (tag_short h) (tag_elem h))"
  have f5: "focus x5 (Some b5) (?vs @ [last_tag h])" using x5(2) finished_last(2) [of h] by simp
  have d4: "?d = (?pre @ tag_text h) @ u @ doc_text doc" "?pre @ tag_text h \<noteq> []" using d3 by simp_all
  from doc_run [OF d4 r(2,3) x5(3,4) f5] obtain x' p
    where i: "parse_loop (cmem ?d) (x5, scanning (int (length (?pre @ tag_text h))) (int (length (?pre @ tag_text h))) (Some b5)) = Inr x'"
      "focus x' p (?vs @ (if doc = [] then [last_tag h] else set_value u (last_tag h) # doc_elems doc))" "bufs_ok x'" by blast
  have "?vs @ (if doc = [] then [last_tag h] else set_value u (last_tag h) # doc_elems doc) =
      XE (Some (tag_label g)) None (xe_attrs (tag_elem g)) (Some c) # doc_elems ((h, u) # doc)"
    using finished_last(1) [of h] by (cases doc) simp_all
  then show ?thesis using x1(1) x2(1) x3(1) x4(1) x5(1) i by auto
qed

section \<open>The properties\<close>

text \<open>
  The properties of the XML parser with their witnesses: documents are read, elements and attributes
  are found by name, entities are replaced, the list is a sequence; what goes wrong with an empty
  attribute, a long first tag and the tag behind a CDATA section.
\<close>

definition demo_doc :: document where
  "demo_doc =
     [(Tag ''list'' [] False, [LF]), (Tag ''a'' [(''x'', ''1 &lt; 2'')] False, ''hi''), (Tag ''/a'' [] False, [LF]),
      (Tag ''b'' [(''y'', ''3'')] True, [LF]), (Tag ''/list'' [] False, [])]"

lemma demo_doc_ok: "doc_ok demo_doc"
  by (simp add: demo_doc_def doc_ok_def tag_ok_def text_ok_def attr_ok_def attr_shape_def plain_def quoted_def
      is_dropped_def is_quote_def tag_text_def attrs_text_def attr_text_def quote_def tag_close_def)

text \<open>
  C31: A document of tags with attributes, and of text between them, is read into the elements it
  denotes, in order, each with its name, its attributes and the text behind it, entities replaced; what
  the parser held before is gone.
\<close>

theorem document_read:
  assumes "parser_holds x vs" "doc_ok doc"
  shows "\<exists>x'. Parse x (cmem (doc_text doc)) = Some (Inr (0, x')) \<and> parser_holds x' (doc_elems doc)"
  by (rule Parse_doc [OF assms])

theorem document_read_witness:
  "(\<exists>x'. Parse new_cXMLLiteParser (cmem (doc_text demo_doc)) = Some (Inr (0, x')) \<and>
      parser_holds x' (doc_elems demo_doc)) \<and>
   doc_elems demo_doc =
     [XE (Some ''list'') None [] None, XE (Some ''a'') (Some ''hi'') [(''x'', ''1 < 2'')] None,
      XE (Some ''/a'') None [] None, XE (Some ''b'') None [(''y'', ''3'')] None, slash,
      XE (Some ''/list'') None [] None]"
proof
  show "\<exists>x'. Parse new_cXMLLiteParser (cmem (doc_text demo_doc)) = Some (Inr (0, x')) \<and>
      parser_holds x' (doc_elems demo_doc)"
    by (rule document_read [OF parser_holds_new demo_doc_ok])
qed code_simp

text \<open>
  \<open>FindTag\<close> gives the first element with the name and leaves the cursor at it; without one it
  gives none and puts the cursor back where it was.
\<close>

theorem tag_found:
  assumes "x_rep x ps vs"
  shows "\<exists>p x'. FindTag x pTag = Some (Inr (p, x')) \<and> x_rep x' ps vs \<and>
    (case search pTag None 0 vs of
       FoundAt i \<Rightarrow> p = Some (snd (ps ! i)) \<and> at_elem x' ps i
     | _ \<Rightarrow> p = None \<and> GetCurrentNodeHandle x' = GetCurrentNodeHandle x)"
proof -
  have n: "search pTag None k vs \<noteq> StoppedAt i" for k i by (induction vs arbitrary: k) auto
  from FindTag_spec [OF assms, of pTag] obtain p x'
    where p: "FindTag x pTag = Some (Inr (p, x'))" "find_spec ps (search pTag None 0 vs) x p x'" "x_rep x' ps vs" by blast
  then show ?thesis using n
    by (intro exI [of _ p] exI [of _ x']) (cases "search pTag None 0 vs", simp_all add: find_spec_def)
qed

theorem tag_found_witness:
  "\<exists>x ps p x'. x_rep x ps (doc_elems demo_doc) \<and> FindTag x ''b'' = Some (Inr (p, x')) \<and>
     p = Some (snd (ps ! 3)) \<and> at_elem x' ps 3"
proof -
  from Parse_doc [OF parser_holds_new demo_doc_ok] obtain x ps where x: "x_rep x ps (doc_elems demo_doc)"
    by (auto simp: parser_holds_def)
  have "search ''b'' None 0 (doc_elems demo_doc) = FoundAt 3" by code_simp
  with tag_found [OF x, of "''b''"] x show ?thesis by auto
qed

text \<open>
  The value of an attribute is the one that was added first under the name, and the text that
  stands for no value if there is none; the search always ends and changes nothing but the cursor.
\<close>

theorem attribute_found:
  assumes "attrs_are e ps kvs"
  shows "\<exists>e' p. GetAttributeValue e name = Some (Inr (p, e')) \<and> attrs_are e' ps kvs \<and>
    (case map_of kvs name of
       None \<Rightarrow> p = None
     | Some t \<Rightarrow> \<exists>blk. p = Some (Some blk) \<and> read_cstr blk = Inr t)"
  by (rule GetAttributeValue_spec [OF assms])

theorem attribute_found_witness:
  "\<exists>e e' blk. AddAttributePair new_cXMLLiteElement (cmem ''x'') (cmem ''17'') = Inr e \<and>
     GetAttributeValue e ''x'' = Some (Inr (Some (Some blk), e')) \<and> read_cstr blk = Inr ''17''"
proof -
  have "\<exists>e. AddAttributePair new_cXMLLiteElement (cmem ''x'') (cmem ''17'') = Inr e \<and>
      el_is e (XE None None ([] @ [(''x'', ''17'')]) None)"
    by (rule AddAttributePair_spec [OF el_is_new]) (simp_all add: cstr_def)
  then obtain e ps where e: "AddAttributePair new_cXMLLiteElement (cmem ''x'') (cmem ''17'') = Inr e"
      "attrs_are e ps [(''x'', ''17'')]"
    by (auto simp: el_is_def)
  from attribute_found [OF e(2), of "''x''"] e(1) show ?thesis by auto
qed

text \<open>
  C32: \<open>TransformXMLEntities\<close> works in place: a text written with entities, in a block of any size,
  becomes the text again, and the size of the block stays.
\<close>

theorem entities_undone:
  assumes "cblock blk n (xml_encode t)"
  shows "\<exists>blk'. TransformXMLEntities blk = Inr blk' \<and> cblock blk' n t"
  using TransformXMLEntities_spec [OF assms] by (simp add: xml_decode_encode)

theorem entities_undone_witness:
  "xml_encode ''a<b&c'' = ''a&lt;b&amp;c'' \<and>
   (\<exists>blk'. TransformXMLEntities (cmem ''a&lt;b&amp;c'') = Inr blk' \<and> cblock blk' 13 ''a<b&c'')"
proof -
  have e: "xml_encode ''a<b&c'' = ''a&lt;b&amp;c''" by (simp add: xml_encode_def escape_def)
  have "cblock (cmem ''a&lt;b&amp;c'') 13 (xml_encode ''a<b&c'')"
    unfolding e cmem_def by (rule cblock_text) simp_all
  from entities_undone [OF this] e show ?thesis by simp
qed

text \<open>
  The linked list is a sequence: what is added, value by value, is what a walk from the head gives,
  in that order, and the walk ends.
\<close>

theorem list_walk:
  fixes ds :: "nat list"
  assumes "length ds < n"
  shows "\<exists>l. xml.add_all new_cXMLLiteList ds = Inr l \<and> xml.walk n (snd (XMLList_MoveToHead l)) = Inr ds"
  by (rule xml.walk_added [OF assms])

theorem list_walk_witness:
  "\<exists>l. xml.add_all new_cXMLLiteList [7, 8, 9 :: nat] = Inr l \<and>
     xml.walk 4 (snd (XMLList_MoveToHead l)) = Inr [7, 8, 9]"
  by (rule list_walk) simp

text \<open>
  An attribute with an empty value in the first tag makes \<open>SplitParam\<close> read the byte in front of its
  buffer, whatever the parser held.
\<close>

theorem empty_attribute_faults:
  assumes "parser_holds x vs" "n \<noteq> []" "\<forall>c \<in> set n. plain c" "hd n \<noteq> CHR ''!''"
    and "k \<noteq> []" "\<forall>c \<in> set k. plain c \<and> c \<noteq> CHR ''=''" "length n + length k \<le> 1000"
  shows "Parse x (cmem (CHR ''<'' # n @ SP # attr_text (k, []) @ ''>'' @ s)) = Some (Inl OutOfBounds)"
  by (rule Parse_empty_attribute [OF assms])

theorem empty_attribute_faults_witness:
  "Parse new_cXMLLiteParser (cmem (CHR ''<'' # ''log'' @ SP # attr_text (''path'', []) @ ''>'' @ ''</log>'')) =
     Some (Inl OutOfBounds)"
  by (rule empty_attribute_faults [OF parser_holds_new])
    (simp_all add: plain_def is_dropped_def is_quote_def)

text \<open>
  The first buffer of the parser has 1024 bytes, whatever is asked for: a document that opens with a
  tag of 1024 bytes or more is copied past its end.
\<close>

theorem long_first_tag_faults:
  assumes "\<forall>c \<in> set n. plain c" "hd n \<noteq> CHR ''!''" "1022 \<le> length n"
  shows "Parse new_cXMLLiteParser (cmem (CHR ''<'' # n @ ''>'' @ s)) = Some (Inl OutOfBounds)"
  by (rule Parse_long_tag [OF assms])

theorem long_first_tag_faults_witness:
  "Parse new_cXMLLiteParser (cmem (CHR ''<'' # replicate 1022 CHR ''a'' @ ''>'' @ [])) = Some (Inl OutOfBounds)"
  by (rule long_first_tag_faults) (simp_all add: plain_def is_dropped_def is_quote_def)

text \<open>
  The bytes of a CDATA section become data of its element, as they are; a closing tag right behind
  the section is passed over and gives no element.
\<close>

theorem cdata_kept:
  assumes "parser_holds x vs" "tag_ok g" "\<not> tag_short g" "cdata_ok c" "CHR ''<'' \<notin> set t" "NUL \<notin> set t"
    and "tag_ok h" "text_ok u" "doc_ok doc" "CHR ''<'' \<notin> set n" "NUL \<notin> set n" "n \<noteq> []"
  shows "\<exists>x'. Parse x (cmem (tag_text g @ cdata_text c @ closing n @ t @ doc_text ((h, u) # doc))) = Some (Inr (0, x')) \<and>
    parser_holds x' (XE (Some (tag_label g)) None (xe_attrs (tag_elem g)) (Some c) # doc_elems ((h, u) # doc))"
proof -
  from assms(1) obtain ps where "x_rep x ps vs" "bufs_ok x" by (auto simp: parser_holds_def)
  from Parser_Flush_spec [OF this] obtain x0
    where x0: "Parser_Flush x = Some (Inr x0)" "focus x0 None []" "bufs_ok x0" by blast
  from parse_loop_cdata [OF x0(2,3) assms(2-12)] x0(1) show ?thesis
    by (auto simp: Parse_def parser_holds_def dest: focus_rep)
qed

theorem cdata_kept_witness:
  "\<exists>x'. Parse new_cXMLLiteParser (cmem (tag_text (Tag ''a'' [] False) @ cdata_text ''x<y'' @ closing ''a'' @ [] @
      doc_text [(Tag ''b'' [] False, [])])) = Some (Inr (0, x')) \<and>
    parser_holds x' (XE (Some (tag_label (Tag ''a'' [] False))) None (xe_attrs (tag_elem (Tag ''a'' [] False))) (Some ''x<y'') #
      doc_elems [(Tag ''b'' [] False, [])])"
  by (rule cdata_kept [OF parser_holds_new])
    (simp_all add: tag_ok_def text_ok_def doc_ok_def cdata_ok_def plain_def is_dropped_def is_quote_def tag_text_def
      attrs_text_def tag_close_def)

end
