(* ===== verification/NetInterfaces.thy ===== *)
theory NetInterfaces
  imports DecimalText BufferLaws
begin

text \<open>
  \<open>netinterfaces.h\<close> and \<open>netinterfaces.cpp\<close>: the class \<open>cNetInterfaces\<close>, which knows the
  addresses of the machine. On Linux it reads a listing of \<open>ifconfig\<close> that a script has left in the
  file \<open>server.netinfo\<close>; on Windows it asks the system. The contents of the file, the list of
  adapters, the array that \<open>gethostname\<close> has written and the function \<open>inet_addr\<close> are arguments.
\<close>

unbundle bit_operations_syntax

section \<open>State\<close>

record cNetInterfaceEntry =
  ne_IPAddress :: string
  ne_BroadcastAddress :: string
  ne_MacAddress :: string

text \<open>The iterator is a place in the vector; \<open>None\<close> before it is set and after the vector has grown.\<close>

record cNetInterfaces =
  m_Interfaces :: "cNetInterfaceEntry list"
  ni_it :: "nat option"
  ni_ServerName :: string
  m_PrimaryIP :: string
  m_PrimaryMac :: string
  m_BroadcastIP :: string
  m_NetMaskTemp :: string

section \<open>The entries\<close>

definition QueryFirstInterface :: "cNetInterfaces \<Rightarrow> (cNetInterfaceEntry \<times> cNetInterfaces) result" where
  "QueryFirstInterface n =
     (case m_Interfaces n of
        [] \<Rightarrow> Inl OutOfBounds
      | e # _ \<Rightarrow> Inr (e, n\<lparr>ni_it := Some 0\<rparr>))"

definition QueryNextInterface :: "cNetInterfaces \<Rightarrow> (cNetInterfaceEntry option \<times> cNetInterfaces) result" where
  "QueryNextInterface n =
     (case ni_it n of
        None \<Rightarrow> Inl DanglingPointer
      | Some i \<Rightarrow>
          if i \<ge> length (m_Interfaces n) then Inl OutOfBounds
          else let n = n\<lparr>ni_it := Some (i + 1)\<rparr>
               in Inr (if i + 1 = length (m_Interfaces n) then None else Some (m_Interfaces n ! (i + 1)), n))"

text \<open>\<open>ExistBroadCastAddress\<close> runs through the entries with the same iterator.\<close>

fun exist_loop :: "string \<Rightarrow> cNetInterfaceEntry list \<Rightarrow> nat \<Rightarrow> bool \<times> nat" where
  "exist_loop address [] i = (False, i)"
| "exist_loop address (e # es) i =
     (if ne_BroadcastAddress e = address then (True, i) else exist_loop address es (i + 1))"

definition ExistBroadCastAddress :: "cNetInterfaces \<Rightarrow> string \<Rightarrow> bool \<times> cNetInterfaces" where
  "ExistBroadCastAddress n address =
     (let (b, i) = exist_loop address (m_Interfaces n) 0 in (b, n\<lparr>ni_it := Some i\<rparr>))"

definition AddInterface :: "cNetInterfaces \<Rightarrow> string \<Rightarrow> string \<Rightarrow> string \<Rightarrow> cNetInterfaces" where
  "AddInterface n sIPAddress sBroadcastAddress sMacAddress =
     (let (b, n) = ExistBroadCastAddress n sBroadcastAddress
      in if b then n
         else
           let pEntry = \<lparr>ne_IPAddress = sIPAddress, ne_BroadcastAddress = sBroadcastAddress,
                         ne_MacAddress = sMacAddress\<rparr>;
               n = n\<lparr>m_Interfaces := m_Interfaces n @ [pEntry], ni_it := None\<rparr>;
               n = (if m_PrimaryIP n = sIPAddress then n\<lparr>m_PrimaryMac := sMacAddress\<rparr> else n)
           in if m_PrimaryIP n = ''127.0.0.1'' \<and> sIPAddress \<noteq> ''127.0.0.1''
              then n\<lparr>m_PrimaryIP := sIPAddress, m_PrimaryMac := sMacAddress\<rparr> else n)"

section \<open>The listing of a Linux system\<close>

text \<open>
  A field that the line does not have: \<open>npos\<close> plus the length of its name wraps around to that length
  less one. A start behind the end of the line makes \<open>substr\<close> throw; the handler logs that with
  \<open>LOGALL\<close>, which throws the text it logs, and no caller catches a text.
\<close>

definition ExtractValue :: "string \<Rightarrow> string \<Rightarrow> string result" where
  "ExtractValue pLine pField =
     (let pos1 = (case find_sub pField pLine of
                    Some i \<Rightarrow> i + length pField
                  | None \<Rightarrow> length pField - 1)
      in if length pLine < pos1 then Inl (Thrown ''basic_string::substr'')
         else Inr (case find_from [SP] pLine pos1 of
                     None \<Rightarrow> drop pos1 pLine
                   | Some pos2 \<Rightarrow> take (pos2 - pos1) (drop pos1 pLine)))"

text \<open>\<open>fgets(oneline, n + 1, pf)\<close>: at most \<open>n\<close> characters, up to the end of the line; and the rest.\<close>

fun fgets :: "nat \<Rightarrow> string \<Rightarrow> string \<times> string" where
  "fgets 0 s = ([], s)"
| "fgets (Suc n) [] = ([], [])"
| "fgets (Suc n) (c # s) =
     (if c = LF then ([c], s) else let (l, r) = fgets n s in (c # l, r))"

lemma fgets_parts: "fgets n s = (l, r) \<Longrightarrow> s = l @ r"
  by (induction n s arbitrary: l r rule: fgets.induct) (auto split: if_splits prod.splits)

lemma fgets_progress: "fgets (Suc n) (c # s) = (l, r) \<Longrightarrow> length r \<le> length s"
  by (auto split: if_splits prod.splits dest!: fgets_parts)

text \<open>The lines of the file, each as the C string in the array.\<close>

function file_lines :: "string \<Rightarrow> string list" where
  "file_lines [] = []"
| "file_lines (c # s) = (let (l, r) = fgets 79 (c # s) in cstr l # file_lines r)"
  by pat_completeness auto
termination
proof (relation "measure length", goal_cases)
  case (2 c s lr l r)
  then have "fgets (Suc 78) (c # s) = (l, r)" by (simp del: fgets.simps add: eval_nat_numeral)
  from fgets_progress [OF this] show ?case by simp
qed simp

definition is_alpha :: "char \<Rightarrow> bool" where
  "is_alpha c \<longleftrightarrow> (CHR ''A'' \<le> c \<and> c \<le> CHR ''Z'') \<or> (CHR ''a'' \<le> c \<and> c \<le> CHR ''z'')"

record netinfo_locals =
  nl_IP :: string
  nl_BroadcastIP :: string
  nl_MacAddress :: string
  bFirstInterface :: bool
  bInterfaceStatus :: bool
  bHasEntry :: bool

definition netinfo_line ::
  "string \<Rightarrow> cNetInterfaces \<times> netinfo_locals \<Rightarrow> (cNetInterfaces \<times> netinfo_locals) result" where
  "netinfo_line oneline = (\<lambda>(n, l).
     if oneline \<noteq> [] \<and> is_alpha (hd oneline) then
       rbind (ExtractValue oneline ''HWaddr '') (\<lambda>v.
       let l = l\<lparr>nl_MacAddress := v\<rparr>
       in Inr (if bHasEntry l then
                 let n = AddInterface n (nl_IP l) (nl_BroadcastIP l) (nl_MacAddress l)
                 in if bFirstInterface l then
                      (n\<lparr>m_PrimaryIP := nl_IP l, m_PrimaryMac := nl_MacAddress l, m_BroadcastIP := nl_BroadcastIP l\<rparr>,
                       l\<lparr>bFirstInterface := False\<rparr>)
                    else (n, l)
               else (n, l)))
     else if find_sub ''inet addr:'' oneline \<noteq> None then
       rbind (ExtractValue oneline ''inet addr:'') (\<lambda>ip.
       rbind (ExtractValue oneline ''Bcast:'') (\<lambda>bcast.
       Inr (n, l\<lparr>nl_IP := ip, nl_BroadcastIP := bcast, bInterfaceStatus := False, bHasEntry := True\<rparr>)))
     else if find_sub ''UP BROADCAST RUNNING'' oneline \<noteq> None then
       Inr (n, l\<lparr>bInterfaceStatus := True, bHasEntry := True\<rparr>)
     else Inr (n, l))"

fun netinfo_loop ::
  "string list \<Rightarrow> cNetInterfaces \<times> netinfo_locals \<Rightarrow> (cNetInterfaces \<times> netinfo_locals) result" where
  "netinfo_loop [] st = Inr st"
| "netinfo_loop (oneline # ls) st = rbind (netinfo_line oneline st) (netinfo_loop ls)"

definition netinfo_start :: netinfo_locals where
  "netinfo_start = \<lparr>nl_IP = [], nl_BroadcastIP = [], nl_MacAddress = [], bFirstInterface = True,
     bInterfaceStatus = False, bHasEntry = False\<rparr>"

definition loopback :: "cNetInterfaces \<Rightarrow> cNetInterfaces" where
  "loopback n = n\<lparr>m_PrimaryIP := ''127.0.0.1'', m_PrimaryMac := ''00:00:00:00:00:00'', m_BroadcastIP := ''128.0.0.1''\<rparr>"

text \<open>\<open>None\<close> for a file that cannot be opened.\<close>

definition GetLinuxNetInterfaces :: "string option \<Rightarrow> cNetInterfaces \<Rightarrow> cNetInterfaces result" where
  "GetLinuxNetInterfaces netinfo n =
     (case netinfo of
        None \<Rightarrow> Inr (loopback n)
      | Some s \<Rightarrow> rbind (netinfo_loop (file_lines s) (loopback n, netinfo_start)) (\<lambda>(n, _). Inr n))"

section \<open>The adapters of a Windows system\<close>

text \<open>\<open>inet_addr\<close> gives the address as a number; the order of its bytes does not matter here.\<close>

definition GetBroadcastAddress ::
  "(string \<Rightarrow> 32 word) \<Rightarrow> string \<Rightarrow> string \<Rightarrow> cNetInterfaces \<Rightarrow> string \<times> cNetInterfaces" where
  "GetBroadcastAddress inet_addr pIPAddress pNetworkMask n =
     (let host_addr = inet_addr pIPAddress;
          net_mask = inet_addr pNetworkMask;
          net_addr = host_addr AND net_mask;
          dir_bcast_addr = net_addr OR (NOT net_mask);
          n = n\<lparr>m_NetMaskTemp := inet_ntoa dir_bcast_addr\<rparr>
      in (m_NetMaskTemp n, n))"

record adapter =
  ad_IpAddress :: string
  ad_IpMask :: string
  ad_Address :: "8 word list"

text \<open>\<open>%.2x\<close>\<close>

definition hex_byte :: "8 word \<Rightarrow> string" where
  "hex_byte b = (let d = ''0123456789abcdef'' in [d ! (unat b div 16), d ! (unat b mod 16)])"

definition mac_text :: "8 word list \<Rightarrow> string" where
  "mac_text a = hex_byte (a ! 0) @ '':'' @ hex_byte (a ! 1) @ '':'' @ hex_byte (a ! 2) @ '':'' @
     hex_byte (a ! 3) @ '':'' @ hex_byte (a ! 4) @ '':'' @ hex_byte (a ! 5)"

text \<open>The system fills all six bytes of an address. The buffer is used again for every adapter.\<close>

definition windows_adapter ::
  "(string \<Rightarrow> 32 word) \<Rightarrow> adapter \<Rightarrow> cNetInterfaces \<times> cBuffer \<times> bool \<Rightarrow> (cNetInterfaces \<times> cBuffer \<times> bool) result" where
  "windows_adapter inet_addr pAdapter = (\<lambda>(n, MACAddress, bFirstInterface).
     if ad_IpAddress pAdapter \<noteq> ''0.0.0.0'' then
       let sIP = ad_IpAddress pAdapter;
           (sBroadcastIP, n) = GetBroadcastAddress inet_addr sIP (ad_IpMask pAdapter) n
       in rbind (Buffer_Sprintf MACAddress 20 (mac_text (ad_Address pAdapter))) (\<lambda>(MACAddress, _).
          rbind (Buffer_GetBuffer MACAddress) (\<lambda>(MACAddress, p).
          rbind (case p of None \<Rightarrow> Inl NullPointer | Some blk \<Rightarrow> read_cstr blk) (\<lambda>sMacAddress.
          let n = AddInterface n sIP sBroadcastIP sMacAddress
          in if bFirstInterface then
               Inr (n\<lparr>m_PrimaryIP := sIP, m_PrimaryMac := sMacAddress, m_BroadcastIP := sBroadcastIP\<rparr>, MACAddress, False)
             else Inr (n, MACAddress, False))))
     else Inr (n, MACAddress, bFirstInterface))"

fun windows_loop ::
  "(string \<Rightarrow> 32 word) \<Rightarrow> adapter list \<Rightarrow> cNetInterfaces \<times> cBuffer \<times> bool \<Rightarrow> (cNetInterfaces \<times> cBuffer \<times> bool) result" where
  "windows_loop inet_addr [] st = Inr st"
| "windows_loop inet_addr (a # as) st = rbind (windows_adapter inet_addr a st) (windows_loop inet_addr as)"

text \<open>\<open>None\<close> when \<open>GetAdaptersInfo\<close> fails.\<close>

definition GetWindowsNetInterfaces ::
  "(string \<Rightarrow> 32 word) \<Rightarrow> adapter list option \<Rightarrow> cNetInterfaces \<Rightarrow> cNetInterfaces result" where
  "GetWindowsNetInterfaces inet_addr adapters n =
     (case adapters of
        None \<Rightarrow> Inr (loopback n)
      | Some as \<Rightarrow> rbind (windows_loop inet_addr as (loopback n, new_cBuffer, True)) (\<lambda>(n, _). Inr n))"

section \<open>Construction\<close>

text \<open>The array of 260 bytes after \<open>gethostname\<close>, whose failure leaves it unwritten.\<close>

definition GetHostName :: "block \<Rightarrow> cNetInterfaces \<Rightarrow> (string \<times> cNetInterfaces) result" where
  "GetHostName ac n = rbind (read_cstr ac) (\<lambda>s. Inr (s, n\<lparr>ni_ServerName := s\<rparr>))"

definition no_interfaces :: cNetInterfaces where
  "no_interfaces = \<lparr>m_Interfaces = [], ni_it = None, ni_ServerName = [], m_PrimaryIP = [], m_PrimaryMac = [],
     m_BroadcastIP = [], m_NetMaskTemp = []\<rparr>"

definition new_cNetInterfaces :: "block \<Rightarrow> string option \<Rightarrow> cNetInterfaces result" where
  "new_cNetInterfaces ac netinfo =
     rbind (GetHostName ac no_interfaces) (\<lambda>(_, n). GetLinuxNetInterfaces netinfo n)"

definition new_cNetInterfaces_Windows ::
  "(string \<Rightarrow> 32 word) \<Rightarrow> block \<Rightarrow> adapter list option \<Rightarrow> cNetInterfaces result" where
  "new_cNetInterfaces_Windows inet_addr ac adapters =
     rbind (GetHostName ac no_interfaces) (\<lambda>(_, n). GetWindowsNetInterfaces inet_addr adapters n)"

end
