(* ===== verification/Core.thy ===== *)
theory Core
  imports NetInterfaces XmlParser NodeTables Servers WebReply
begin

text \<open>
  \<open>core.h\<close> and \<open>core.cpp\<close>, first part: the state of the class \<open>cCore\<close> and how it takes its
  settings from the configuration file, or does without one. What stands in the file is an argument,
  \<open>None\<close> when it cannot be opened; so is the process identifier. Log lines are left out.

  The queue of messages and the objects that it shares with the core (rules, registry of handlers,
  metrics, connection queue) are one record, as in the theory \<open>MsgQueue\<close>. A setting that is read
  from an element without a text follows a null pointer.
\<close>

section \<open>State\<close>

text \<open>A server is a null pointer from the reading of its port to its start.\<close>

record cCore =
  m_ModuleName :: string
  co_ServerName :: string
  m_server_listen_addr :: string
  m_server_primary_addr :: string
  m_server_secondary_addr :: string
  m_server_max_cache_size :: string
  m_ServerInstanceID :: string
  m_ServerWorkingDirectory :: string
  m_UDPPort :: string
  m_TCPPort :: string
  m_MaxWebServerThreads :: string
  m_ConnectionTimeout :: string
  m_IPAccess :: cIPAccess
  m_pWebServer :: "cWebServer option"
  m_pMsgQueue :: cMsgQueue
  co_pSysInfo :: cSysInfo
  m_VirtualDirectoryMap :: cVirtualDirectoryMap
  m_NetInterfaces :: cNetInterfaces
  m_TCPServers :: "(int, cTCPServer option) smap"
  m_UDPServers :: "(int, cUDPServer option) smap"
  m_TCPServerList :: string
  m_UDPServerList :: string
  co_FileCache :: cFileCache
  m_UniqueServerID :: string
  m_MACAddress :: string
  m_ServerDetectedIP :: string
  m_bZeroConfig :: bool

definition set_info :: "string \<Rightarrow> string \<Rightarrow> cCore \<Rightarrow> cCore" where
  "set_info k v c = c\<lparr>co_pSysInfo := SetSysInfo (co_pSysInfo c) k v\<rparr>"

text \<open>The statement that asks \<open>cNetInterfaces\<close> for the primary address, which the core has in four places.\<close>

definition detect_ip :: "cCore \<Rightarrow> cCore" where
  "detect_ip c = c\<lparr>m_ServerDetectedIP := cstr (m_PrimaryIP (m_NetInterfaces c))\<rparr>"

text \<open>\<open>m_MsgRouterRulesEngine.AddRule\<close>, and the three rules of a node that is not told any.\<close>

definition add_route ::
  "string \<Rightarrow> string \<Rightarrow> eMsgRouterLocationType \<Rightarrow> eMsgRouterOperationType \<Rightarrow> string \<Rightarrow> string \<Rightarrow> cCore \<Rightarrow> cCore" where
  "add_route name to loc oper pattern v c =
     c\<lparr>m_pMsgQueue := (m_pMsgQueue c)\<lparr>m_pRouterRulesEngine :=
         RulesEngine_AddRule (m_pRouterRulesEngine (m_pMsgQueue c)) name to
           \<lparr>m_Location = loc, m_OperationType = oper, m_MatchPattern = pattern, m_Value = v\<rparr>\<rparr>\<rparr>"

definition default_routes :: "cCore \<Rightarrow> cCore" where
  "default_routes c =
     (let c = add_route ''MC'' ''MC'' MSG_RTL_STATUS MSG_RTO_CONTAINS [] ''MC '' c;
          c = add_route ''HTTP_GET'' ''MCWS'' MSG_RTL_STATUS MSG_RTO_CONTAINS [] ''GET '' c
      in add_route ''HTTP_POST'' ''MCWS'' MSG_RTL_STATUS MSG_RTO_CONTAINS [] ''POST '' c)"

text \<open>\<open>m_IPAccess.Add\<close>, whose answer is not looked at.\<close>

definition access_rule :: "string \<Rightarrow> cCore \<Rightarrow> cCore result" where
  "access_rule sRule c = rbind (Access_Add (m_IPAccess c) sRule) (\<lambda>(_, l). Inr (c\<lparr>m_IPAccess := l\<rparr>))"

section \<open>Reading the parsed file\<close>

text \<open>Sequencing of operations that may fault and may not return.\<close>

definition pbind :: "'a result option \<Rightarrow> ('a \<Rightarrow> 'b result option) \<Rightarrow> 'b result option" where
  "pbind m f = Option.bind m (\<lambda>r. case r of Inl e \<Rightarrow> Some (Inl e) | Inr x \<Rightarrow> f x)"

lemma pbind_simps [simp]:
  "pbind None f = None" "pbind (Some (Inl e)) f = Some (Inl e)" "pbind (Some (Inr x)) f = f x"
  by (simp_all add: pbind_def)

lemma pbind_mono [partial_function_mono]:
  assumes "monotone option.le_fun option_ord B" "\<And>y. monotone option.le_fun option_ord (\<lambda>f. C y f)"
  shows "monotone option.le_fun option_ord (\<lambda>f. pbind (B f) (\<lambda>y. C y f))"
  unfolding pbind_def
  by (rule bind_mono [OF assms(1)], rename_tac r, case_tac r) (simp_all add: assms(2) option.const_mono)

definition element_value :: "cXMLLiteParser \<Rightarrow> nat \<Rightarrow> string result" where
  "element_value x a =
     rbind (x_get x (Some a)) (\<lambda>e.
     case GetElementValue e of None \<Rightarrow> Inl NullPointer | Some blk \<Rightarrow> read_cstr blk)"

text \<open>The literal for an attribute that is not there is the empty text.\<close>

definition attribute_value :: "cXMLLiteParser \<Rightarrow> nat \<Rightarrow> string \<Rightarrow> (string \<times> cXMLLiteParser) result option" where
  "attribute_value x a name =
     pbind (Some (x_get x (Some a))) (\<lambda>e.
     pbind (GetAttributeValue e name) (\<lambda>(p, e).
     pbind (Some (case p of None \<Rightarrow> Inr [] | Some None \<Rightarrow> Inl NullPointer | Some (Some blk) \<Rightarrow> read_cstr blk)) (\<lambda>t.
     Some (Inr (t, x\<lparr>x_elems := (x_elems x)(a \<mapsto> e)\<rparr>)))))"

text \<open>\<open>FindTag\<close>, and the text of the element that it finds.\<close>

definition setting :: "string \<Rightarrow> cXMLLiteParser \<Rightarrow> (string option \<times> cXMLLiteParser) result option" where
  "setting name x =
     pbind (FindTag x name) (\<lambda>(p, x).
     case p of
       None \<Rightarrow> Some (Inr (None, x))
     | Some a \<Rightarrow> Some (rbind (element_value x a) (\<lambda>t. Inr (Some t, x))))"

section \<open>Settings\<close>

text \<open>The loops over the hosts and ports of the web server and the ports of the UDP servers.\<close>

definition map_directory :: "string \<Rightarrow> string \<Rightarrow> cCore \<Rightarrow> cCore" where
  "map_directory sPortAddr sDirectory c =
     (if sDirectory \<noteq> [] then
        c\<lparr>m_VirtualDirectoryMap := MapVirtualDirectory (m_VirtualDirectoryMap c) sPortAddr sDirectory\<rparr>
      else c)"

definition insert_tcp :: "int \<Rightarrow> cCore \<Rightarrow> cCore" where
  "insert_tcp port c = c\<lparr>m_TCPServers := smap_insert port None (m_TCPServers c)\<rparr>"

definition insert_udp :: "int \<Rightarrow> cCore \<Rightarrow> cCore" where
  "insert_udp port c = c\<lparr>m_UDPServers := smap_insert port None (m_UDPServers c)\<rparr>"

partial_function (option) host_loop :: "cCore \<Rightarrow> cXMLLiteParser \<Rightarrow> (cCore \<times> cXMLLiteParser) result option" where
  "host_loop c x =
     pbind (FindNextTag x ''host'' (Some ''/web'')) (\<lambda>(p, x).
     case p of
       None \<Rightarrow> Some (Inr (c, x))
     | Some a \<Rightarrow>
         pbind (attribute_value x a ''addr'') (\<lambda>(addr, x).
         pbind (attribute_value x a ''directory'') (\<lambda>(sDirectory, x).
         host_loop (map_directory (''host_'' @ addr) sDirectory c) x)))"

partial_function (option) port_loop :: "cCore \<Rightarrow> cXMLLiteParser \<Rightarrow> (cCore \<times> cXMLLiteParser) result option" where
  "port_loop c x =
     pbind (FindNextTag x ''port'' (Some ''/web'')) (\<lambda>(p, x).
     case p of
       None \<Rightarrow> Some (Inr (c, x))
     | Some a \<Rightarrow>
         pbind (attribute_value x a ''addr'') (\<lambda>(addr, x).
         pbind (attribute_value x a ''addr'') (\<lambda>(again, x).
         pbind (attribute_value x a ''directory'') (\<lambda>(sDirectory, x).
         port_loop (map_directory (''port_'' @ addr) sDirectory (insert_tcp (atoi again) c)) x))))"

partial_function (option) udp_loop :: "cCore \<Rightarrow> cXMLLiteParser \<Rightarrow> (cCore \<times> cXMLLiteParser) result option" where
  "udp_loop c x =
     pbind (FindNextTag x ''port'' (Some ''/udp_servers'')) (\<lambda>(p, x).
     case p of
       None \<Rightarrow> Some (Inr (c, x))
     | Some a \<Rightarrow>
         pbind (attribute_value x a ''addr'') (\<lambda>(addr, x). udp_loop (insert_udp (atoi addr) c) x))"

text \<open>The addresses and the size of the file cache.\<close>

definition load_addresses :: "cCore \<Rightarrow> cXMLLiteParser \<Rightarrow> (cCore \<times> cXMLLiteParser) result option" where
  "load_addresses c x =
     pbind (setting ''server_listen_addr'' x) (\<lambda>(v, x).
     let c = c\<lparr>m_server_listen_addr := (case v of Some t \<Rightarrow> t | None \<Rightarrow> ''0.0.0.0'')\<rparr> in
     pbind (setting ''server_primary_addr'' x) (\<lambda>(v, x).
     let c = (case v of Some t \<Rightarrow> c\<lparr>m_server_primary_addr := t\<rparr>
                      | None \<Rightarrow> let c = detect_ip c in c\<lparr>m_server_primary_addr := m_ServerDetectedIP c\<rparr>) in
     pbind (setting ''server_secondary_addr'' x) (\<lambda>(v, x).
     let c = (case v of Some t \<Rightarrow> c\<lparr>m_server_secondary_addr := t\<rparr>
                      | None \<Rightarrow> let c = detect_ip c in c\<lparr>m_server_secondary_addr := m_ServerDetectedIP c\<rparr>) in
     pbind (setting ''server_max_cache_size'' x) (\<lambda>(v, x).
     Some (Inr (c\<lparr>m_server_max_cache_size := (case v of Some t \<Rightarrow> t | None \<Rightarrow> ''10000'')\<rparr>, x))))))"

definition load_tcp :: "cCore \<Rightarrow> cXMLLiteParser \<Rightarrow> (cCore \<times> cXMLLiteParser) result option" where
  "load_tcp c x =
     pbind (FindTag x ''tcp_servers'') (\<lambda>(p, x).
     case p of
       Some _ \<Rightarrow>
         pbind (host_loop c x) (\<lambda>(c, x).
         pbind (FindTag x ''tcp_servers'') (\<lambda>(_, x). port_loop c x))
     | None \<Rightarrow>
         (let c = detect_ip c
          in Some (Inr (insert_tcp 3400 (c\<lparr>m_server_secondary_addr := m_ServerDetectedIP c\<rparr>), x))))"

definition load_udp :: "cCore \<Rightarrow> cXMLLiteParser \<Rightarrow> (cCore \<times> cXMLLiteParser) result option" where
  "load_udp c x =
     pbind (FindTag x ''udp_servers'') (\<lambda>(p, x).
     case p of
       Some _ \<Rightarrow> udp_loop c x
     | None \<Rightarrow> Some (Inr (insert_udp 3401 c, x)))"

text \<open>The limits; then the primary address is detected again, whatever the file has said.\<close>

definition load_limits :: "int \<Rightarrow> cCore \<Rightarrow> cXMLLiteParser \<Rightarrow> cCore result option" where
  "load_limits pid c x =
     pbind (setting ''connectiontimeout'' x) (\<lambda>(v, x).
     let c = c\<lparr>m_ConnectionTimeout := (case v of Some t \<Rightarrow> t | None \<Rightarrow> ''30'')\<rparr> in
     pbind (setting ''max_webserver_threads'' x) (\<lambda>(v, x).
     let c = c\<lparr>m_MaxWebServerThreads := (case v of Some t \<Rightarrow> t | None \<Rightarrow> ''16'')\<rparr>;
         c = detect_ip c;
         c = c\<lparr>m_server_primary_addr := m_ServerDetectedIP c\<rparr>
     in Some (Inr (set_info ''server.process.id'' (int_text pid) c))))"

text \<open>Without a file. \<open>ac\<close> is the array that \<open>gethostname\<close> writes.\<close>

definition SetDefaults :: "block \<Rightarrow> cCore \<Rightarrow> cCore result" where
  "SetDefaults ac c =
     (let c = set_info ''server.mode'' ''SERVANT'' c
      in rbind (GetHostName ac (m_NetInterfaces c)) (\<lambda>(s, n).
         let c = detect_ip (c\<lparr>m_NetInterfaces := n, co_ServerName := s\<rparr>);
             c = c\<lparr>m_MACAddress := cstr (m_PrimaryMac n), m_server_listen_addr := ''0.0.0.0'',
                   m_server_primary_addr := m_ServerDetectedIP c,
                   m_server_secondary_addr := m_ServerDetectedIP c,
                   m_server_max_cache_size := ''10000''\<rparr>;
             c = insert_tcp 13434 c;
             c = default_routes (c\<lparr>m_ConnectionTimeout := ''300'', m_MaxWebServerThreads := ''16''\<rparr>)
         in rbind (access_rule ''+*.*.*.*'' c) (\<lambda>c. Inr (c\<lparr>m_bZeroConfig := True\<rparr>))))"

definition config_name :: "cCore \<Rightarrow> string" where
  "config_name c = cstr (m_ModuleName c @ ''.xml'')"

definition LoadConfig :: "block \<Rightarrow> int \<Rightarrow> string option \<Rightarrow> cCore \<Rightarrow> cCore result option" where
  "LoadConfig ac pid file c =
     (let c = set_info ''server.config.filename'' (config_name c) (set_info ''server.mode'' ''MASTER'' c)
      in case file of
           None \<Rightarrow> Some (SetDefaults ac c)
         | Some sXML \<Rightarrow>
             pbind (Parse new_cXMLLiteParser (cmem sXML)) (\<lambda>(_, x).
             let x = snd (Parser_MoveHead x) in
             pbind (load_addresses c x) (\<lambda>(c, x).
             pbind (load_tcp c x) (\<lambda>(c, x).
             pbind (load_udp c x) (\<lambda>(c, x).
             load_limits pid c x)))))"

section \<open>Rules\<close>

text \<open>The loops over the addresses of \<open>allow\<close> and of \<open>block\<close>.\<close>

partial_function (option) addr_loop ::
  "char \<Rightarrow> string \<Rightarrow> cCore \<Rightarrow> cXMLLiteParser \<Rightarrow> (cCore \<times> cXMLLiteParser) result option" where
  "addr_loop sign pNot c x =
     pbind (FindNextTag x ''addr'' (Some pNot)) (\<lambda>(p, x).
     case p of
       None \<Rightarrow> Some (Inr (c, x))
     | Some a \<Rightarrow>
         pbind (Some (element_value x a)) (\<lambda>t.
         pbind (Some (access_rule (sign # t) c)) (\<lambda>c. addr_loop sign pNot c x)))"

definition addr_rules ::
  "char \<Rightarrow> string \<Rightarrow> cCore \<Rightarrow> cXMLLiteParser \<Rightarrow> (cCore \<times> cXMLLiteParser) result option" where
  "addr_rules sign tag c x =
     pbind (FindNextTag x tag None) (\<lambda>(p, x).
     case p of None \<Rightarrow> Some (Inr (c, x)) | Some _ \<Rightarrow> addr_loop sign (CHR ''/'' # tag) c x)"

text \<open>
  The rule for the network of an address: what stands behind its last point is replaced. Without a
  point, \<open>npos\<close> plus one wraps around to zero and the whole text is erased.
\<close>

definition subnet_rule :: "string \<Rightarrow> string" where
  "subnet_rule ip =
     (let subnet = CHR ''+'' # ip
      in rev (dropWhile (\<lambda>ch. ch \<noteq> CHR ''.'') (rev subnet)) @ ''*'')"

definition ProcessIPRules :: "cCore \<Rightarrow> cXMLLiteParser \<Rightarrow> (cCore \<times> cXMLLiteParser) result option" where
  "ProcessIPRules c x =
     pbind (FindTag x ''connections'') (\<lambda>(p, x).
     case p of
       Some _ \<Rightarrow>
         pbind (addr_rules CHR ''+'' ''allow'' c x) (\<lambda>(c, x). addr_rules CHR ''-'' ''block'' c x)
     | None \<Rightarrow>
         (let c = detect_ip c;
              c = c\<lparr>m_server_primary_addr := m_ServerDetectedIP c\<rparr>
          in Some (rbind (access_rule (subnet_rule (m_server_primary_addr c)) c) (\<lambda>c. Inr (c, x)))))"

text \<open>
  The conditions of a route. Location and operation keep the values of the condition before when a
  name is not known. An exception is the first part of the answer; what was added before it stays.
\<close>

definition rule_location :: "string \<Rightarrow> eMsgRouterLocationType \<Rightarrow> eMsgRouterLocationType" where
  "rule_location loc old =
     (if loc = ''status'' then MSG_RTL_STATUS else if loc = ''header'' then MSG_RTL_HEADER
      else if loc = ''payload'' then MSG_RTL_PAYLOAD else old)"

definition rule_operation :: "string \<Rightarrow> string \<Rightarrow> eMsgRouterOperationType \<Rightarrow> eMsgRouterOperationType" where
  "rule_operation oper variance old =
     (if oper = ''match'' \<and> variance \<noteq> [] then MSG_RTO_LIKE else if oper = ''match'' then MSG_RTO_MATCH
      else if oper = ''contains'' then MSG_RTO_CONTAINS else old)"

type_synonym rule_state = "eMsgRouterLocationType \<times> eMsgRouterOperationType"

partial_function (option) if_loop ::
  "string \<Rightarrow> string \<Rightarrow> rule_state \<Rightarrow> cCore \<Rightarrow> cXMLLiteParser \<Rightarrow>
     (string option \<times> rule_state \<times> cCore \<times> cXMLLiteParser) result option" where
  "if_loop name to st c x =
     pbind (FindNextTag x ''if'' (Some ''/route'')) (\<lambda>(p, x).
     case p of
       None \<Rightarrow> Some (Inr (None, st, c, x))
     | Some a \<Rightarrow>
         pbind (attribute_value x a ''op'') (\<lambda>(oper, x).
         if oper = [] then Some (Inr (Some ''route rule is missing 'op' field.'', st, c, x))
         else
           pbind (attribute_value x a ''value'') (\<lambda>(v, x).
           pbind (attribute_value x a ''variance'') (\<lambda>(variance, x).
           pbind (attribute_value x a ''pattern'') (\<lambda>(pattern, x).
           pbind (attribute_value x a ''location'') (\<lambda>(loc, x).
           if loc = [] then Some (Inr (Some ''route rule is missing 'location' field.'', st, c, x))
           else
             let Location = rule_location loc (fst st);
                 OperationType = rule_operation oper variance (snd st)
             in if_loop name to (Location, OperationType)
                  (add_route name to Location OperationType pattern v c) x))))))"

partial_function (option) route_loop ::
  "rule_state \<Rightarrow> cCore \<Rightarrow> cXMLLiteParser \<Rightarrow> (string option \<times> cCore \<times> cXMLLiteParser) result option" where
  "route_loop st c x =
     pbind (FindNextTag x ''route'' (Some ''/handlers'')) (\<lambda>(p, x).
     case p of
       None \<Rightarrow> Some (Inr (None, c, x))
     | Some a \<Rightarrow>
         pbind (attribute_value x a ''name'') (\<lambda>(name, x).
         pbind (attribute_value x a ''to'') (\<lambda>(to, x).
         if name = [] \<or> to = []
         then Some (Inr (Some ''route rule is missing 'name' or 'to' field.'', c, x))
         else
           pbind (if_loop name to st c x) (\<lambda>(ex, st, c, x).
           case ex of
             Some e \<Rightarrow> Some (Inr (Some e, c, x))
           | None \<Rightarrow> route_loop st c x))))"

definition ProcessHandlers ::
  "cCore \<Rightarrow> cXMLLiteParser \<Rightarrow> (string option \<times> cCore \<times> cXMLLiteParser) result option" where
  "ProcessHandlers c x =
     pbind (FindTag x ''handlers'') (\<lambda>(p, x).
     case p of
       Some _ \<Rightarrow>
         pbind (FindTag x ''handlers'') (\<lambda>(_, x). route_loop (MSG_RTL_NOTSET, MSG_RTO_NOTSET) c x)
     | None \<Rightarrow> Some (Inr (None, default_routes c, x)))"

definition DoPostProcesses :: "string option \<Rightarrow> cCore \<Rightarrow> (string option \<times> cCore) result option" where
  "DoPostProcesses file c =
     (let c = set_info ''server.config.filename'' (config_name c) c
      in case file of
           None \<Rightarrow> Some (Inr (None, c))
         | Some sXML \<Rightarrow>
             pbind (Parse new_cXMLLiteParser (cmem sXML)) (\<lambda>(_, x).
             let x = snd (Parser_MoveHead x) in
             pbind (FindTag x ''handlers'') (\<lambda>(_, x).
             pbind (ProcessIPRules c x) (\<lambda>(c, x).
             pbind (ProcessHandlers c x) (\<lambda>(ex, c, _). Some (Inr (ex, c)))))))"

end
