(* ===== verification/XmlQuery.thy ===== *)
theory XmlQuery
  imports Core XmlFind
begin

text \<open>
  How the core reads a parsed file, over the elements that the parser holds: the text of the first
  element of a name, the attributes of an element, and the loops that run through the elements of a
  name up to an end tag. The loops share their shape, which the locale \<open>tag_loop\<close> states.
\<close>

section \<open>Elements of a name\<close>

definition first_elem :: "string \<Rightarrow> xml_elem list \<Rightarrow> xml_elem option" where
  "first_elem name vs = find (\<lambda>v. xe_name v = Some name) vs"

text \<open>What stands behind the first element of a name, and up to one.\<close>

definition behind :: "string \<Rightarrow> xml_elem list \<Rightarrow> xml_elem list" where
  "behind name vs = tl (dropWhile (\<lambda>v. xe_name v \<noteq> Some name) vs)"

definition until :: "string \<Rightarrow> xml_elem list \<Rightarrow> xml_elem list" where
  "until name vs = takeWhile (\<lambda>v. xe_name v \<noteq> Some name) vs"

definition tagged :: "string \<Rightarrow> xml_elem list \<Rightarrow> xml_elem list" where
  "tagged name vs = filter (\<lambda>v. xe_name v = Some name) vs"

definition attr :: "xml_elem \<Rightarrow> string \<Rightarrow> string" where
  "attr v name = (case map_of (xe_attrs v) name of None \<Rightarrow> [] | Some t \<Rightarrow> t)"

definition elem_text :: "xml_elem \<Rightarrow> string result" where
  "elem_text v = (case xe_value v of None \<Rightarrow> Inl NullPointer | Some t \<Rightarrow> Inr t)"

lemma search_skip:
  "\<forall>u \<in> set us. xe_name u \<noteq> Some tag \<and> xe_name u \<noteq> Some stop \<Longrightarrow>
     search tag (Some stop) k (us @ ws) = search tag (Some stop) (k + length us) ws"
  by (induction us arbitrary: k) auto

text \<open>A search from the start, and where it ends.\<close>

lemma search_first:
  "search tag None 0 vs =
     (case first_elem tag vs of
        None \<Rightarrow> Missing
      | Some _ \<Rightarrow> FoundAt (length (takeWhile (\<lambda>v. xe_name v \<noteq> Some tag) vs)))"
  "first_elem tag vs = Some v \<Longrightarrow> vs ! length (takeWhile (\<lambda>v. xe_name v \<noteq> Some tag) vs) = v \<and>
     length (takeWhile (\<lambda>v. xe_name v \<noteq> Some tag) vs) < length vs \<and>
     drop (Suc (length (takeWhile (\<lambda>v. xe_name v \<noteq> Some tag) vs))) vs = behind tag vs"
proof -
  have s: "search tag None k vs = (case first_elem tag vs of None \<Rightarrow> Missing
      | Some _ \<Rightarrow> FoundAt (k + length (takeWhile (\<lambda>v. xe_name v \<noteq> Some tag) vs)))" for k
    by (induction vs arbitrary: k) (auto simp: first_elem_def split: option.splits)
  show "search tag None 0 vs = (case first_elem tag vs of None \<Rightarrow> Missing
      | Some _ \<Rightarrow> FoundAt (length (takeWhile (\<lambda>v. xe_name v \<noteq> Some tag) vs)))"
    using s [of 0] by (simp split: option.split)
  show "first_elem tag vs = Some v \<Longrightarrow> vs ! length (takeWhile (\<lambda>v. xe_name v \<noteq> Some tag) vs) = v \<and>
     length (takeWhile (\<lambda>v. xe_name v \<noteq> Some tag) vs) < length vs \<and>
     drop (Suc (length (takeWhile (\<lambda>v. xe_name v \<noteq> Some tag) vs))) vs = behind tag vs"
    by (induction vs) (auto simp: first_elem_def behind_def split: if_splits)
qed

section \<open>Elements and attributes\<close>

lemma rep_elem:
  assumes "x_rep x ps vs" "i < length ps"
  obtains e where "x_get x (Some (snd (ps ! i))) = Inr e" "x_elems x (snd (ps ! i)) = Some e" "el_is e (vs ! i)"
proof -
  have "el_at x (ps ! i) (vs ! i)" using assms by (auto simp: x_rep_def intro: list_all2_nthD)
  then show ?thesis using that by (auto simp: el_at_def x_get_def)
qed

lemma element_value_spec:
  assumes "x_rep x ps vs" "i < length ps"
  shows "element_value x (snd (ps ! i)) = elem_text (vs ! i)"
proof -
  from rep_elem [OF assms] obtain e where "x_get x (Some (snd (ps ! i))) = Inr e" "el_is e (vs ! i)" by blast
  then show ?thesis
    by (auto simp: element_value_def elem_text_def el_is_def xs_holds_def GetElementValue_def split: option.splits)
qed

lemma attribute_value_spec:
  assumes r: "x_rep x ps vs" and i: "i < length ps"
  shows "\<exists>x'. attribute_value x (snd (ps ! i)) name = Some (Inr (attr (vs ! i) name, x')) \<and>
    x_rep x' ps vs \<and> m_xmlElements x' = m_xmlElements x"
proof -
  from rep_elem [OF assms] obtain e
    where e: "x_get x (Some (snd (ps ! i))) = Inr e" "x_elems x (snd (ps ! i)) = Some e" "el_is e (vs ! i)" by blast
  from e(3) obtain qs where qs: "attrs_are e qs (xe_attrs (vs ! i))" by (auto simp: el_is_def)
  let ?e = "snd (Element_MoveHead e)"
  have "xl_repr (m_xmlAttributes e) qs" using qs by (simp add: attrs_are_def)
  from XMLList_MoveToHead_repr [OF this] have h: "attrs_are ?e qs (xe_attrs (vs ! i))" "xl_at (m_xmlAttributes ?e) qs 0"
    "?e = e\<lparr>m_xmlAttributes := m_xmlAttributes ?e\<rparr>"
    using qs by (auto simp: Element_MoveHead_def attrs_are_def pair_is_def [abs_def] xl_at_def Let_def)
  from attribute_loop_spec [OF h(1,2), of name] obtain e' p
    where e': "attribute_loop name ?e = Some (Inr (p, e'))" "attrs_are e' qs (xe_attrs (vs ! i))"
      "e' = ?e\<lparr>m_xmlAttributes := m_xmlAttributes e'\<rparr>"
      "case map_of (xe_attrs (vs ! i)) name of None \<Rightarrow> p = None
       | Some t \<Rightarrow> \<exists>blk. p = Some (Some blk) \<and> read_cstr blk = Inr t" by auto
  define x' where "x' = x\<lparr>x_elems := (x_elems x)(snd (ps ! i) \<mapsto> e')\<rparr>"
  have f: "m_xmlTagName e' = m_xmlTagName e" "m_xmlValue e' = m_xmlValue e" "m_xmlCDATA e' = m_xmlCDATA e"
    "m_hasCDATA e' = m_hasCDATA e"
    using arg_cong [OF e'(3), of m_xmlTagName] arg_cong [OF h(3), of m_xmlTagName]
      arg_cong [OF e'(3), of m_xmlValue] arg_cong [OF h(3), of m_xmlValue]
      arg_cong [OF e'(3), of m_xmlCDATA] arg_cong [OF h(3), of m_xmlCDATA]
      arg_cong [OF e'(3), of m_hasCDATA] arg_cong [OF h(3), of m_hasCDATA]
    by simp_all
  then have "el_is e' (vs ! i)" using e(3) e'(2) by (auto simp: el_is_def)
  have "list_all2 (el_at x') ps vs"
  proof (rule list_all2_all_nthI)
    show "length ps = length vs" using r by (auto simp: x_rep_def dest: list_all2_lengthD)
    fix j assume j: "j < length ps"
    then have "el_at x (ps ! j) (vs ! j)" using r by (auto simp: x_rep_def intro: list_all2_nthD)
    moreover have "snd (ps ! j) = snd (ps ! i) \<Longrightarrow> j = i"
      using r i j nth_eq_iff_index_eq [of "map snd ps" j i] by (simp add: x_rep_def)
    ultimately show "el_at x' (ps ! j) (vs ! j)" using \<open>el_is e' (vs ! i)\<close> by (auto simp: el_at_def x'_def)
  qed
  then have "x_rep x' ps vs" using r by (simp add: x_rep_def x'_def)
  moreover have "attribute_value x (snd (ps ! i)) name = Some (Inr (attr (vs ! i) name, x'))"
    using e(1) e'(1,4) by (auto simp: attribute_value_def GetAttributeValue_def attr_def x'_def split: option.splits)
  ultimately show ?thesis by (auto simp: x'_def)
qed

section \<open>Settings\<close>

lemma FindTag_first:
  assumes r: "x_rep x ps vs"
  shows "\<exists>x' i. FindTag x tag = Some (Inr (map_option (\<lambda>_. snd (ps ! i)) (first_elem tag vs), x')) \<and> x_rep x' ps vs \<and>
    (\<forall>v. first_elem tag vs = Some v \<longrightarrow>
       i < length ps \<and> vs ! i = v \<and> at_elem x' ps i \<and> drop (Suc i) vs = behind tag vs)"
proof -
  let ?i = "length (takeWhile (\<lambda>v. xe_name v \<noteq> Some tag) vs)"
  have l: "length vs = length ps" using r by (auto simp: x_rep_def dest: list_all2_lengthD)
  from FindTag_spec [OF r, of tag] obtain p x'
    where p: "FindTag x tag = Some (Inr (p, x'))" "find_spec ps (search tag None 0 vs) x p x'" "x_rep x' ps vs" by blast
  show ?thesis
  proof (intro exI conjI)
    show "FindTag x tag = Some (Inr (map_option (\<lambda>_. snd (ps ! ?i)) (first_elem tag vs), x'))"
      using p(1,2) by (auto simp: search_first(1) find_spec_def split: option.splits)
    show "\<forall>v. first_elem tag vs = Some v \<longrightarrow>
        ?i < length ps \<and> vs ! ?i = v \<and> at_elem x' ps ?i \<and> drop (Suc ?i) vs = behind tag vs"
    proof (intro allI impI)
      fix v assume v: "first_elem tag vs = Some v"
      then have "at_elem x' ps ?i" using p(2) by (simp add: search_first(1) find_spec_def)
      then show "?i < length ps \<and> vs ! ?i = v \<and> at_elem x' ps ?i \<and> drop (Suc ?i) vs = behind tag vs"
        using search_first(2) [OF v] l by simp
    qed
  qed (rule p(3))
qed

definition setting_text :: "string \<Rightarrow> xml_elem list \<Rightarrow> string option result" where
  "setting_text name vs =
     (case first_elem name vs of None \<Rightarrow> Inr None | Some v \<Rightarrow> rbind (elem_text v) (\<lambda>t. Inr (Some t)))"

lemma setting_spec:
  assumes r: "x_rep x ps vs"
  shows "\<exists>x'. setting name x = Some (rbind (setting_text name vs) (\<lambda>t. Inr (t, x'))) \<and> x_rep x' ps vs"
proof -
  from FindTag_first [OF r, of name] obtain x' i
    where f: "FindTag x name = Some (Inr (map_option (\<lambda>_. snd (ps ! i)) (first_elem name vs), x'))" "x_rep x' ps vs"
      "\<forall>v. first_elem name vs = Some v \<longrightarrow> i < length ps \<and> vs ! i = v" by blast
  have "setting name x = Some (rbind (setting_text name vs) (\<lambda>t. Inr (t, x')))"
    using f element_value_spec [OF f(2), of i]
    by (cases "first_elem name vs"; cases "elem_text (vs ! i)") (auto simp: setting_def setting_text_def)
  then show ?thesis using f(2) by blast
qed

section \<open>Loops over the elements of a name\<close>

fun fold_result :: "('a \<Rightarrow> 's \<Rightarrow> 's result) \<Rightarrow> 'a list \<Rightarrow> 's \<Rightarrow> 's result" where
  "fold_result f [] s = Inr s"
| "fold_result f (v # vs) s = rbind (f v s) (fold_result f vs)"

text \<open>\<open>FindNextTag\<close> in a loop: the next element of the name, or where the loop ends.\<close>

lemma FindNextTag_next:
  assumes r: "x_rep x ps vs" and a: "at_elem x ps i" "i < length ps" and t: "tag \<noteq> stop"
  shows "\<exists>p x'. FindNextTag x tag (Some stop) = Some (Inr (p, x')) \<and> x_rep x' ps vs \<and>
    (case tagged tag (until stop (drop (Suc i) vs)) of
       [] \<Rightarrow> p = None \<and> (\<exists>j < length ps. at_elem x' ps j \<and>
           (if first_elem stop (drop (Suc i) vs) = None then j = i
            else drop (Suc j) vs = behind stop (drop (Suc i) vs)))
     | v # ws \<Rightarrow> (\<exists>j. i < j \<and> j < length ps \<and> p = Some (snd (ps ! j)) \<and> vs ! j = v \<and> at_elem x' ps j \<and>
           drop (Suc j) vs = behind tag (drop (Suc i) vs) \<and>
           ws = tagged tag (until stop (drop (Suc j) vs)) \<and>
           behind stop (drop (Suc i) vs) = behind stop (drop (Suc j) vs) \<and>
           first_elem stop (drop (Suc i) vs) = first_elem stop (drop (Suc j) vs)))"
proof -
  have l: "length vs = length ps" using r by (auto simp: x_rep_def dest: list_all2_lengthD)
  from FindNextTag_spec [OF r a, of tag "Some stop"] obtain p x'
    where p: "FindNextTag x tag (Some stop) = Some (Inr (p, x'))"
      "find_spec ps (search tag (Some stop) (Suc i) (drop (Suc i) vs)) x p x'" "x_rep x' ps vs" by blast
  let ?P = "\<lambda>v. xe_name v \<noteq> Some tag \<and> xe_name v \<noteq> Some stop"
  obtain us rest where us: "drop (Suc i) vs = us @ rest" "us = takeWhile ?P (drop (Suc i) vs)"
    "rest = dropWhile ?P (drop (Suc i) vs)" by simp
  have no: "?P u" if "u \<in> set us" for u using that us(2) by (auto dest: set_takeWhileD)
  have skip: "tagged tag (until stop (us @ w)) = tagged tag (until stop w)" "behind stop (us @ w) = behind stop w" "behind tag (us @ w) = behind tag w"
    "first_elem stop (us @ w) = first_elem stop w" for w
    using no by (induction us) (auto simp: tagged_def until_def behind_def first_elem_def)
  show ?thesis
  proof (cases rest)
    case Nil
    then have d: "drop (Suc i) vs = us" using us(1) by simp
    have "search tag (Some stop) (Suc i) us = Missing"
      using search_skip [of us tag stop "Suc i" "[]"] no by simp
    then have "search tag (Some stop) (Suc i) (drop (Suc i) vs) = Missing" unfolding d .
    then have "p = None" "GetCurrentNodeHandle x' = GetCurrentNodeHandle x" using p(2) by (simp_all add: find_spec_def)
    moreover from this have "at_elem x' ps i" using a(1) by (simp add: at_elem_def xl_at_def GetCurrentNodeHandle_def)
    moreover have t: "tagged tag (until stop us) = []" "first_elem stop us = None"
      using skip [of "[]"] by (simp_all add: tagged_def until_def first_elem_def)
    ultimately show ?thesis using p(1,3) a(2) unfolding d t list.case if_P [OF refl] by blast
  next
    case (Cons v w)
    have "dropWhile ?P (drop (Suc i) vs) \<noteq> []" unfolding us(3) [symmetric] Cons by simp
    from hd_dropWhile [OF this] have v: "\<not> ?P v" unfolding us(3) [symmetric] Cons by simp
    let ?j = "Suc i + length us"
    have j: "?j < length ps" "vs ! ?j = v" "drop (Suc ?j) vs = w"
    proof -
      have "drop (length us) (drop (Suc i) vs) = v # w" unfolding us(1) Cons by simp
      then have d: "drop ?j vs = v # w" by (simp add: add.commute)
      show *: "?j < length ps"
      proof (rule ccontr)
        assume "\<not> ?j < length ps"
        then have "drop ?j vs = []" using l by simp
        then show False using d by simp
      qed
      have "drop ?j vs = vs ! ?j # drop (Suc ?j) vs" using * l by (simp add: Cons_nth_drop_Suc)
      then show "vs ! ?j = v" "drop (Suc ?j) vs = w" using d by simp_all
    qed
    have s: "search tag (Some stop) (Suc i) (drop (Suc i) vs) =
        (if xe_name v = Some stop then StoppedAt ?j else FoundAt ?j)"
      unfolding us(1) Cons using search_skip [of us tag stop "Suc i" "v # w"] no v by auto
    show ?thesis
    proof (cases "xe_name v = Some stop")
      case True
      then have "p = None" "at_elem x' ps ?j" using p(2) s by (simp_all add: find_spec_def)
      moreover have "tagged tag (until stop (drop (Suc i) vs)) = []" "first_elem stop (drop (Suc i) vs) \<noteq> None"
        "behind stop (drop (Suc i) vs) = w"
        unfolding us(1) Cons skip using True by (simp_all add: tagged_def until_def first_elem_def behind_def)
      ultimately show ?thesis using p(1,3) j(1,3) by fastforce
    next
      case False
      then have n: "xe_name v = Some tag" using v by simp
      have "p = Some (snd (ps ! ?j))" "at_elem x' ps ?j" using False p(2) s by (simp_all add: find_spec_def)
      moreover have "tagged tag (until stop (drop (Suc i) vs)) = v # tagged tag (until stop w)"
        "first_elem stop (drop (Suc i) vs) = first_elem stop w" "behind stop (drop (Suc i) vs) = behind stop w"
        "w = behind tag (drop (Suc i) vs)"
        unfolding us(1) Cons skip using n t by (simp_all add: tagged_def until_def first_elem_def behind_def)
      ultimately show ?thesis using p(1,3) j by (auto intro!: exI [of _ ?j])
    qed
  qed
qed

text \<open>
  The shape of a loop: it asks for the next element of a name, up to an end tag, and goes on with
  what the element does to the state, which may be a fault. Only elements that are \<open>ok\<close> are looked at.
\<close>

locale tag_loop =
  fixes loop :: "'s \<Rightarrow> cXMLLiteParser \<Rightarrow> 'r result option"
    and tag stop :: string
    and effect :: "xml_elem \<Rightarrow> 's \<Rightarrow> 's result"
    and finish :: "'s \<Rightarrow> cXMLLiteParser \<Rightarrow> 'r"
    and ok :: "xml_elem \<Rightarrow> bool"
  assumes tags: "tag \<noteq> stop"
    and loop_end: "FindNextTag x tag (Some stop) = Some (Inr (None, x')) \<Longrightarrow> loop s x = Some (Inr (finish s x'))"
    and loop_step: "FindNextTag x tag (Some stop) = Some (Inr (Some (snd (ps ! i)), x1)) \<Longrightarrow>
      x_rep x1 ps vs \<Longrightarrow> i < length ps \<Longrightarrow> ok (vs ! i) \<Longrightarrow>
      \<exists>x'. loop s x = pbind (Some (effect (vs ! i) s)) (\<lambda>s. loop s x') \<and> x_rep x' ps vs \<and>
        m_xmlElements x' = m_xmlElements x1"
begin

lemma loop_spec:
  assumes "x_rep x ps vs" "at_elem x ps i" "i < length ps"
    and "\<forall>v \<in> set (tagged tag (until stop (drop (Suc i) vs))). ok v"
  shows "\<exists>x'. loop s x = Some (rbind (fold_result effect (tagged tag (until stop (drop (Suc i) vs))) s)
      (\<lambda>s. Inr (finish s x'))) \<and> x_rep x' ps vs \<and>
    (\<forall>s'. fold_result effect (tagged tag (until stop (drop (Suc i) vs))) s = Inr s' \<longrightarrow>
      (\<exists>j < length ps. at_elem x' ps j \<and>
        (first_elem stop (drop (Suc i) vs) \<noteq> None \<longrightarrow> drop (Suc j) vs = behind stop (drop (Suc i) vs))))"
  using assms
proof (induction "length (tagged tag (until stop (drop (Suc i) vs)))" arbitrary: x i s)
  case 0
  then have n: "tagged tag (until stop (drop (Suc i) vs)) = []" by simp
  from FindNextTag_next [OF 0(2-4) tags] n obtain x' j
    where x': "FindNextTag x tag (Some stop) = Some (Inr (None, x'))" "x_rep x' ps vs" "j < length ps" "at_elem x' ps j"
      "if first_elem stop (drop (Suc i) vs) = None then j = i else drop (Suc j) vs = behind stop (drop (Suc i) vs)"
    by auto
  show ?case using loop_end [OF x'(1)] x' n by (intro exI [of _ x']) (auto split: if_splits)
next
  case (Suc n)
  then obtain v ws where v: "tagged tag (until stop (drop (Suc i) vs)) = v # ws" by (cases "tagged tag (until stop (drop (Suc i) vs))") auto
  from FindNextTag_next [OF Suc.prems(1-3) tags] v obtain x1 j
    where x1: "FindNextTag x tag (Some stop) = Some (Inr (Some (snd (ps ! j)), x1))" "x_rep x1 ps vs" "i < j" "j < length ps"
      "vs ! j = v" "at_elem x1 ps j" "ws = tagged tag (until stop (drop (Suc j) vs))"
      "behind stop (drop (Suc i) vs) = behind stop (drop (Suc j) vs)"
      "first_elem stop (drop (Suc i) vs) = first_elem stop (drop (Suc j) vs)" by auto
  have "ok (vs ! j)" using Suc.prems(4) v x1(5) by simp
  from loop_step [OF x1(1,2,4) this, of s] obtain x2
    where x2: "loop s x = pbind (Some (effect v s)) (\<lambda>s. loop s x2)" "x_rep x2 ps vs" "m_xmlElements x2 = m_xmlElements x1"
    using x1(5) by auto
  show ?case
  proof (cases "effect v s")
    case (Inl f)
    then show ?thesis using x2 v by auto
  next
    case (Inr s')
    have "at_elem x2 ps j" using x1(6) x2(3) by (simp add: at_elem_def)
    moreover have "n = length (tagged tag (until stop (drop (Suc j) vs)))" using Suc.hyps(2) v x1(7) by simp
    moreover have "\<forall>v \<in> set (tagged tag (until stop (drop (Suc j) vs))). ok v" using Suc.prems(4) v x1(7) by simp
    ultimately show ?thesis
      using Suc.hyps(1) [of j x2 s'] x2 x1(3,4,7-9) v Inr by fastforce
  qed
qed

end

end
