(* ===== verification/CoreSettings.thy ===== *)
theory CoreSettings
  imports XmlQuery
begin

text \<open>
  What the core has after it has read its settings, as a function of the elements of the file.
\<close>

section \<open>The loops\<close>

definition host_effect :: "xml_elem \<Rightarrow> cCore \<Rightarrow> cCore result" where
  "host_effect v c = Inr (map_directory (''host_'' @ attr v ''addr'') (attr v ''directory'') c)"

definition port_effect :: "xml_elem \<Rightarrow> cCore \<Rightarrow> cCore result" where
  "port_effect v c =
     Inr (map_directory (''port_'' @ attr v ''addr'') (attr v ''directory'') (insert_tcp (atoi (attr v ''addr'')) c))"

definition udp_effect :: "xml_elem \<Rightarrow> cCore \<Rightarrow> cCore result" where
  "udp_effect v c = Inr (insert_udp (atoi (attr v ''addr'')) c)"

definition addr_effect :: "char \<Rightarrow> xml_elem \<Rightarrow> cCore \<Rightarrow> cCore result" where
  "addr_effect sign v c = rbind (elem_text v) (\<lambda>t. access_rule (sign # t) c)"

lemma attribute_values:
  assumes "x_rep x ps vs" "i < length ps"
  shows "\<exists>x1 x2. attribute_value x (snd (ps ! i)) k = Some (Inr (attr (vs ! i) k, x1)) \<and>
    attribute_value x1 (snd (ps ! i)) l = Some (Inr (attr (vs ! i) l, x2)) \<and>
    x_rep x2 ps vs \<and> m_xmlElements x2 = m_xmlElements x"
proof -
  from attribute_value_spec [OF assms] obtain x1
    where x1: "attribute_value x (snd (ps ! i)) k = Some (Inr (attr (vs ! i) k, x1))" "x_rep x1 ps vs"
      "m_xmlElements x1 = m_xmlElements x" by blast
  from attribute_value_spec [OF x1(2) assms(2)] x1 show ?thesis by metis
qed

interpretation hosts: tag_loop host_loop "''host''" "''/web''" host_effect Pair "\<lambda>_. True"
proof
  show "''host'' \<noteq> ''/web''" by simp
  show "host_loop s x = Some (Inr (s, x'))" if "FindNextTag x ''host'' (Some ''/web'') = Some (Inr (None, x'))" for s x x'
    using that by (subst host_loop.simps) simp
  fix x ps vs i x1 s
  assume f: "FindNextTag x ''host'' (Some ''/web'') = Some (Inr (Some (snd (ps ! i)), x1))" "x_rep x1 ps vs" "i < length ps"
  from attribute_values [OF f(2,3), of "''addr''" "''directory''"] obtain x2 x3
    where "attribute_value x1 (snd (ps ! i)) ''addr'' = Some (Inr (attr (vs ! i) ''addr'', x2))"
      "attribute_value x2 (snd (ps ! i)) ''directory'' = Some (Inr (attr (vs ! i) ''directory'', x3))"
      "x_rep x3 ps vs" "m_xmlElements x3 = m_xmlElements x1" by blast
  then show "\<exists>x'. host_loop s x = pbind (Some (host_effect (vs ! i) s)) (\<lambda>s. host_loop s x') \<and> x_rep x' ps vs \<and>
      m_xmlElements x' = m_xmlElements x1"
    using f(1) by (subst host_loop.simps) (auto simp: host_effect_def)
qed

interpretation ports: tag_loop port_loop "''port''" "''/web''" port_effect Pair "\<lambda>_. True"
proof
  show "''port'' \<noteq> ''/web''" by simp
  show "port_loop s x = Some (Inr (s, x'))" if "FindNextTag x ''port'' (Some ''/web'') = Some (Inr (None, x'))" for s x x'
    using that by (subst port_loop.simps) simp
  fix x ps vs i x1 s
  assume f: "FindNextTag x ''port'' (Some ''/web'') = Some (Inr (Some (snd (ps ! i)), x1))" "x_rep x1 ps vs" "i < length ps"
  from attribute_value_spec [OF f(2,3), of "''addr''"] obtain x2
    where x2: "attribute_value x1 (snd (ps ! i)) ''addr'' = Some (Inr (attr (vs ! i) ''addr'', x2))" "x_rep x2 ps vs"
      "m_xmlElements x2 = m_xmlElements x1" by blast
  from attribute_values [OF x2(2) f(3), of "''addr''" "''directory''"] obtain x3 x4
    where "attribute_value x2 (snd (ps ! i)) ''addr'' = Some (Inr (attr (vs ! i) ''addr'', x3))"
      "attribute_value x3 (snd (ps ! i)) ''directory'' = Some (Inr (attr (vs ! i) ''directory'', x4))"
      "x_rep x4 ps vs" "m_xmlElements x4 = m_xmlElements x2" by blast
  then show "\<exists>x'. port_loop s x = pbind (Some (port_effect (vs ! i) s)) (\<lambda>s. port_loop s x') \<and> x_rep x' ps vs \<and>
      m_xmlElements x' = m_xmlElements x1"
    using f(1) x2(1,3) by (subst port_loop.simps) (auto simp: port_effect_def)
qed

interpretation udps: tag_loop udp_loop "''port''" "''/udp_servers''" udp_effect Pair "\<lambda>_. True"
proof
  show "''port'' \<noteq> ''/udp_servers''" by simp
  show "udp_loop s x = Some (Inr (s, x'))"
    if "FindNextTag x ''port'' (Some ''/udp_servers'') = Some (Inr (None, x'))" for s x x'
    using that by (subst udp_loop.simps) simp
  fix x ps vs i x1 s
  assume f: "FindNextTag x ''port'' (Some ''/udp_servers'') = Some (Inr (Some (snd (ps ! i)), x1))" "x_rep x1 ps vs" "i < length ps"
  from attribute_value_spec [OF f(2,3), of "''addr''"] obtain x2
    where "attribute_value x1 (snd (ps ! i)) ''addr'' = Some (Inr (attr (vs ! i) ''addr'', x2))" "x_rep x2 ps vs"
      "m_xmlElements x2 = m_xmlElements x1" by blast
  then show "\<exists>x'. udp_loop s x = pbind (Some (udp_effect (vs ! i) s)) (\<lambda>s. udp_loop s x') \<and> x_rep x' ps vs \<and>
      m_xmlElements x' = m_xmlElements x1"
    using f(1) by (subst udp_loop.simps) (auto simp: udp_effect_def)
qed

lemma addr_tag_loop:
  assumes "pNot \<noteq> ''addr''"
  shows "tag_loop (addr_loop sign pNot) ''addr'' pNot (addr_effect sign) Pair (\<lambda>_. True)"
proof
  show "''addr'' \<noteq> pNot" using assms by blast
  show "addr_loop sign pNot s x = Some (Inr (s, x'))"
    if "FindNextTag x ''addr'' (Some pNot) = Some (Inr (None, x'))" for s x x'
    using that by (subst addr_loop.simps) simp
  fix x ps vs i x1 s
  assume f: "FindNextTag x ''addr'' (Some pNot) = Some (Inr (Some (snd (ps ! i)), x1))" "x_rep x1 ps vs" "i < length ps"
  have "addr_loop sign pNot s x = pbind (Some (addr_effect sign (vs ! i) s)) (\<lambda>s. addr_loop sign pNot s x1)"
    using f(1) element_value_spec [OF f(2,3)]
    by (subst addr_loop.simps) (cases "elem_text (vs ! i)"; simp add: addr_effect_def)
  then show "\<exists>x'. addr_loop sign pNot s x = pbind (Some (addr_effect sign (vs ! i) s)) (\<lambda>s. addr_loop sign pNot s x') \<and>
      x_rep x' ps vs \<and> m_xmlElements x' = m_xmlElements x1"
    using f(2) by blast
qed

interpretation allows: tag_loop "addr_loop CHR ''+'' ''/allow''" "''addr''" "''/allow''" "addr_effect CHR ''+''" Pair "\<lambda>_. True"
  by (rule addr_tag_loop) simp

interpretation blocks: tag_loop "addr_loop CHR ''-'' ''/block''" "''addr''" "''/block''" "addr_effect CHR ''-''" Pair "\<lambda>_. True"
  by (rule addr_tag_loop) simp

text \<open>Effects without a fault.\<close>

lemma fold_result_fold:
  "(\<And>v s. f v s = Inr (g v s)) \<Longrightarrow> fold_result f vs s = Inr (fold g vs s)"
  by (induction vs arbitrary: s) simp_all

section \<open>Settings\<close>

text \<open>The elements of a name in the section that a tag opens, up to an end tag.\<close>

definition section_of :: "string \<Rightarrow> string \<Rightarrow> string \<Rightarrow> xml_elem list \<Rightarrow> xml_elem list" where
  "section_of sect tag stop vs = tagged tag (until stop (behind sect vs))"

definition text_or :: "string \<Rightarrow> string \<Rightarrow> xml_elem list \<Rightarrow> string" where
  "text_or name d vs = (case first_elem name vs of None \<Rightarrow> d | Some v \<Rightarrow> (case xe_value v of None \<Rightarrow> [] | Some t \<Rightarrow> t))"

definition has_text :: "xml_elem list \<Rightarrow> string \<Rightarrow> bool" where
  "has_text vs name \<longleftrightarrow> (case first_elem name vs of None \<Rightarrow> True | Some v \<Rightarrow> xe_value v \<noteq> None)"

definition setting_names :: "string list" where
  "setting_names = [''server_listen_addr'', ''server_primary_addr'', ''server_secondary_addr'',
     ''server_max_cache_size'', ''connectiontimeout'', ''max_webserver_threads'']"

lemma setting_known:
  assumes "x_rep x ps vs" "has_text vs name"
  shows "\<exists>x'. setting name x =
      Some (Inr (map_option (\<lambda>_. text_or name [] vs) (first_elem name vs), x')) \<and> x_rep x' ps vs"
proof -
  have "setting_text name vs = Inr (map_option (\<lambda>_. text_or name [] vs) (first_elem name vs))"
    using assms(2) by (auto simp: has_text_def setting_text_def text_or_def elem_text_def split: option.splits)
  then show ?thesis using setting_spec [OF assms(1), of name] by simp
qed

lemma text_or_default: "text_or name d vs = (case first_elem name vs of None \<Rightarrow> d | Some _ \<Rightarrow> text_or name [] vs)"
  by (simp add: text_or_def split: option.split)

definition primary_ip :: "cCore \<Rightarrow> string" where
  "primary_ip c = cstr (m_PrimaryIP (m_NetInterfaces c))"

text \<open>The ports and directories of the file.\<close>

definition tcp_ports :: "xml_elem list \<Rightarrow> int list" where
  "tcp_ports vs =
     (case first_elem ''tcp_servers'' vs of
        None \<Rightarrow> [3400]
      | Some _ \<Rightarrow> map (\<lambda>v. atoi (attr v ''addr'')) (section_of ''tcp_servers'' ''port'' ''/web'' vs))"

definition udp_ports :: "xml_elem list \<Rightarrow> int list" where
  "udp_ports vs =
     (case first_elem ''udp_servers'' vs of
        None \<Rightarrow> [3401]
      | Some _ \<Rightarrow> map (\<lambda>v. atoi (attr v ''addr'')) (section_of ''udp_servers'' ''port'' ''/udp_servers'' vs))"

definition served_at :: "string \<Rightarrow> xml_elem \<Rightarrow> string \<times> string" where
  "served_at kind v = (kind @ attr v ''addr'', attr v ''directory'')"

definition directories :: "xml_elem list \<Rightarrow> (string \<times> string) list" where
  "directories vs =
     (case first_elem ''tcp_servers'' vs of
        None \<Rightarrow> []
      | Some _ \<Rightarrow> filter (\<lambda>d. snd d \<noteq> [])
          (map (served_at ''host_'') (section_of ''tcp_servers'' ''host'' ''/web'' vs) @
           map (served_at ''port_'') (section_of ''tcp_servers'' ''port'' ''/web'' vs)))"

definition insert_ports :: "int list \<Rightarrow> (int, 's option) smap \<Rightarrow> (int, 's option) smap" where
  "insert_ports = fold (\<lambda>p. smap_insert p None)"

definition map_directories :: "(string \<times> string) list \<Rightarrow> cVirtualDirectoryMap \<Rightarrow> cVirtualDirectoryMap" where
  "map_directories = fold (\<lambda>(p, d) m. MapVirtualDirectory m p d)"

definition configured :: "int \<Rightarrow> xml_elem list \<Rightarrow> cCore \<Rightarrow> cCore" where
  "configured pid vs c = c\<lparr>
     m_server_listen_addr := text_or ''server_listen_addr'' ''0.0.0.0'' vs,
     m_server_primary_addr := primary_ip c,
     m_server_secondary_addr :=
       (if first_elem ''tcp_servers'' vs = None then primary_ip c
        else text_or ''server_secondary_addr'' (primary_ip c) vs),
     m_server_max_cache_size := text_or ''server_max_cache_size'' ''10000'' vs,
     m_MaxWebServerThreads := text_or ''max_webserver_threads'' ''16'' vs,
     m_ConnectionTimeout := text_or ''connectiontimeout'' ''30'' vs,
     m_VirtualDirectoryMap := map_directories (directories vs) (m_VirtualDirectoryMap c),
     m_TCPServers := insert_ports (tcp_ports vs) (m_TCPServers c),
     m_UDPServers := insert_ports (udp_ports vs) (m_UDPServers c),
     m_ServerDetectedIP := primary_ip c,
     co_pSysInfo := SetSysInfo (SetSysInfo (SetSysInfo (co_pSysInfo c) ''server.mode'' ''MASTER'')
         ''server.config.filename'' (config_name c)) ''server.process.id'' (int_text pid)\<rparr>"

section \<open>The parts of \<open>LoadConfig\<close>\<close>

lemma load_addresses_spec:
  assumes r: "x_rep x ps vs" and t: "\<forall>n \<in> set setting_names. has_text vs n"
  shows "\<exists>x' d. load_addresses c x = Some (Inr (c\<lparr>
      m_server_listen_addr := text_or ''server_listen_addr'' ''0.0.0.0'' vs,
      m_server_primary_addr := text_or ''server_primary_addr'' (primary_ip c) vs,
      m_server_secondary_addr := text_or ''server_secondary_addr'' (primary_ip c) vs,
      m_server_max_cache_size := text_or ''server_max_cache_size'' ''10000'' vs, m_ServerDetectedIP := d\<rparr>, x')) \<and>
    x_rep x' ps vs"
proof -
  have h: "has_text vs ''server_listen_addr''" "has_text vs ''server_primary_addr''"
    "has_text vs ''server_secondary_addr''" "has_text vs ''server_max_cache_size''"
    using t by (simp_all add: setting_names_def)
  from setting_known [OF r h(1)] obtain x1 where x1:
    "setting ''server_listen_addr'' x = Some (Inr (map_option (\<lambda>_. text_or ''server_listen_addr'' [] vs) (first_elem ''server_listen_addr'' vs), x1))"
    "x_rep x1 ps vs" by blast
  from setting_known [OF x1(2) h(2)] obtain x2 where x2:
    "setting ''server_primary_addr'' x1 = Some (Inr (map_option (\<lambda>_. text_or ''server_primary_addr'' [] vs) (first_elem ''server_primary_addr'' vs), x2))"
    "x_rep x2 ps vs" by blast
  from setting_known [OF x2(2) h(3)] obtain x3 where x3:
    "setting ''server_secondary_addr'' x2 = Some (Inr (map_option (\<lambda>_. text_or ''server_secondary_addr'' [] vs) (first_elem ''server_secondary_addr'' vs), x3))"
    "x_rep x3 ps vs" by blast
  from setting_known [OF x3(2) h(4)] obtain x4 where x4:
    "setting ''server_max_cache_size'' x3 = Some (Inr (map_option (\<lambda>_. text_or ''server_max_cache_size'' [] vs) (first_elem ''server_max_cache_size'' vs), x4))"
    "x_rep x4 ps vs" by blast
  let ?d = "if first_elem ''server_primary_addr'' vs = None \<or> first_elem ''server_secondary_addr'' vs = None
      then primary_ip c else m_ServerDetectedIP c"
  have "load_addresses c x = Some (Inr (c\<lparr>
      m_server_listen_addr := text_or ''server_listen_addr'' ''0.0.0.0'' vs,
      m_server_primary_addr := text_or ''server_primary_addr'' (primary_ip c) vs,
      m_server_secondary_addr := text_or ''server_secondary_addr'' (primary_ip c) vs,
      m_server_max_cache_size := text_or ''server_max_cache_size'' ''10000'' vs, m_ServerDetectedIP := ?d\<rparr>, x4))"
    unfolding load_addresses_def x1(1) pbind_simps prod.case Let_def x2(1) x3(1) x4(1)
    unfolding text_or_default [of _ "''0.0.0.0''"] text_or_default [of _ "primary_ip c"] text_or_default [of _ "''10000''"]
    by (simp add: detect_ip_def primary_ip_def split: option.split)
  then show ?thesis using x4(2) by blast
qed

lemma load_limits_spec:
  assumes r: "x_rep x ps vs" and t: "\<forall>n \<in> set setting_names. has_text vs n"
  shows "load_limits pid c x = Some (Inr (c\<lparr>
      m_ConnectionTimeout := text_or ''connectiontimeout'' ''30'' vs,
      m_MaxWebServerThreads := text_or ''max_webserver_threads'' ''16'' vs,
      m_ServerDetectedIP := primary_ip c, m_server_primary_addr := primary_ip c,
      co_pSysInfo := SetSysInfo (co_pSysInfo c) ''server.process.id'' (int_text pid)\<rparr>))"
proof -
  have h: "has_text vs ''connectiontimeout''" "has_text vs ''max_webserver_threads''"
    using t by (simp_all add: setting_names_def)
  from setting_known [OF r h(1)] obtain x1 where x1:
    "setting ''connectiontimeout'' x = Some (Inr (map_option (\<lambda>_. text_or ''connectiontimeout'' [] vs) (first_elem ''connectiontimeout'' vs), x1))"
    "x_rep x1 ps vs" by blast
  from setting_known [OF x1(2) h(2)] obtain x2 where x2:
    "setting ''max_webserver_threads'' x1 = Some (Inr (map_option (\<lambda>_. text_or ''max_webserver_threads'' [] vs) (first_elem ''max_webserver_threads'' vs), x2))"
    "x_rep x2 ps vs" by blast
  show ?thesis
    unfolding load_limits_def x1(1) pbind_simps prod.case Let_def x2(1)
    unfolding text_or_default [of _ "''30''"] text_or_default [of _ "''16''"]
    by (simp add: detect_ip_def primary_ip_def set_info_def split: option.split)
qed

lemma loop_none_first: "x_rep x ps vs \<Longrightarrow> at_elem x ps i \<Longrightarrow> i < length ps \<Longrightarrow> drop (Suc i) vs = behind sect vs \<Longrightarrow>
    tagged tag (until stop (drop (Suc i) vs)) = section_of sect tag stop vs"
  by (simp add: section_of_def)

lemma fold_map_directory:
  "fold (\<lambda>v. map_directory (fst (f v)) (snd (f v))) vs c =
     c\<lparr>m_VirtualDirectoryMap := map_directories (filter (\<lambda>d. snd d \<noteq> []) (map f vs)) (m_VirtualDirectoryMap c)\<rparr>"
  by (induction vs arbitrary: c) (simp_all add: map_directory_def map_directories_def split: prod.split)

lemma fold_ports:
  "fold (\<lambda>v c. map_directory (fst (f v)) (snd (f v)) (insert_tcp (g v) c)) vs c =
     c\<lparr>m_VirtualDirectoryMap := map_directories (filter (\<lambda>d. snd d \<noteq> []) (map f vs)) (m_VirtualDirectoryMap c),
       m_TCPServers := insert_ports (map g vs) (m_TCPServers c)\<rparr>"
  by (induction vs arbitrary: c)
    (simp_all add: map_directory_def map_directories_def insert_tcp_def insert_ports_def split: prod.split)

lemma fold_udp:
  "fold (\<lambda>v. insert_udp (g v)) vs c = c\<lparr>m_UDPServers := insert_ports (map g vs) (m_UDPServers c)\<rparr>"
  by (induction vs arbitrary: c) (simp_all add: insert_udp_def insert_ports_def)

lemma load_tcp_spec:
  assumes r: "x_rep x ps vs"
  shows "\<exists>x' d. load_tcp c x = Some (Inr (c\<lparr>
      m_VirtualDirectoryMap := map_directories (directories vs) (m_VirtualDirectoryMap c),
      m_TCPServers := insert_ports (tcp_ports vs) (m_TCPServers c),
      m_server_secondary_addr :=
        (if first_elem ''tcp_servers'' vs = None then primary_ip c else m_server_secondary_addr c),
      m_ServerDetectedIP := d\<rparr>, x')) \<and> x_rep x' ps vs"
proof -
  from FindTag_first [OF r, of "''tcp_servers''"] obtain x1 i
    where x1: "FindTag x ''tcp_servers'' = Some (Inr (map_option (\<lambda>_. snd (ps ! i)) (first_elem ''tcp_servers'' vs), x1))"
      "x_rep x1 ps vs" "\<forall>v. first_elem ''tcp_servers'' vs = Some v \<longrightarrow>
         i < length ps \<and> vs ! i = v \<and> at_elem x1 ps i \<and> drop (Suc i) vs = behind ''tcp_servers'' vs" by blast
  show ?thesis
  proof (cases "first_elem ''tcp_servers'' vs")
    case None
    then have "load_tcp c x = Some (Inr (c\<lparr>
      m_VirtualDirectoryMap := map_directories (directories vs) (m_VirtualDirectoryMap c),
      m_TCPServers := insert_ports (tcp_ports vs) (m_TCPServers c),
      m_server_secondary_addr := primary_ip c, m_ServerDetectedIP := primary_ip c\<rparr>, x1))"
      using x1(1) by (simp add: load_tcp_def detect_ip_def insert_tcp_def primary_ip_def directories_def tcp_ports_def
        insert_ports_def map_directories_def)
    then show ?thesis using x1(2) None by auto
  next
    case (Some v)
    then have i: "i < length ps" "at_elem x1 ps i" "drop (Suc i) vs = behind ''tcp_servers'' vs" using x1(3) by auto
    let ?hosts = "section_of ''tcp_servers'' ''host'' ''/web'' vs" and ?ports = "section_of ''tcp_servers'' ''port'' ''/web'' vs"
    let ?c1 = "fold (\<lambda>v. map_directory (fst (served_at ''host_'' v)) (snd (served_at ''host_'' v))) ?hosts c"
    have h: "fold_result host_effect ?hosts c = Inr ?c1"
      by (rule fold_result_fold) (simp add: host_effect_def served_at_def)
    from hosts.loop_spec [OF x1(2) i(2,1), of c] h obtain x2
      where x2: "host_loop c x1 = Some (Inr (?c1, x2))" "x_rep x2 ps vs"
      by (auto simp: i(3) section_of_def)
    from FindTag_first [OF x2(2), of "''tcp_servers''"] Some obtain x3 j
      where x3: "FindTag x2 ''tcp_servers'' = Some (Inr (Some (snd (ps ! j)), x3))" "x_rep x3 ps vs"
        "j < length ps" "at_elem x3 ps j" "drop (Suc j) vs = behind ''tcp_servers'' vs" by auto
    let ?c2 = "fold (\<lambda>v c. map_directory (fst (served_at ''port_'' v)) (snd (served_at ''port_'' v))
        (insert_tcp (atoi (attr v ''addr'')) c)) ?ports ?c1"
    have p: "fold_result port_effect ?ports ?c1 = Inr ?c2"
      by (rule fold_result_fold) (simp add: port_effect_def served_at_def)
    from ports.loop_spec [OF x3(2,4,3), of ?c1] p obtain x4
      where x4: "port_loop ?c1 x3 = Some (Inr (?c2, x4))" "x_rep x4 ps vs"
      by (auto simp: x3(5) section_of_def)
    have c2: "?c2 = c\<lparr>m_VirtualDirectoryMap := map_directories (directories vs) (m_VirtualDirectoryMap c),
        m_TCPServers := insert_ports (tcp_ports vs) (m_TCPServers c),
        m_server_secondary_addr :=
          (if first_elem ''tcp_servers'' vs = None then primary_ip c else m_server_secondary_addr c),
        m_ServerDetectedIP := m_ServerDetectedIP c\<rparr>"
      unfolding fold_map_directory fold_ports
      using Some by (simp add: directories_def tcp_ports_def map_directories_def)
    have "load_tcp c x = Some (Inr (?c2, x4))"
      using x1(1) Some x2(1) x3(1) x4(1) by (simp add: load_tcp_def)
    then show ?thesis using x4(2) unfolding c2 by blast
  qed
qed

lemma load_udp_spec:
  assumes r: "x_rep x ps vs"
  shows "\<exists>x'. load_udp c x = Some (Inr (c\<lparr>m_UDPServers := insert_ports (udp_ports vs) (m_UDPServers c)\<rparr>, x')) \<and>
    x_rep x' ps vs"
proof -
  from FindTag_first [OF r, of "''udp_servers''"] obtain x1 i
    where x1: "FindTag x ''udp_servers'' = Some (Inr (map_option (\<lambda>_. snd (ps ! i)) (first_elem ''udp_servers'' vs), x1))"
      "x_rep x1 ps vs" "\<forall>v. first_elem ''udp_servers'' vs = Some v \<longrightarrow>
         i < length ps \<and> vs ! i = v \<and> at_elem x1 ps i \<and> drop (Suc i) vs = behind ''udp_servers'' vs" by blast
  show ?thesis
  proof (cases "first_elem ''udp_servers'' vs")
    case None
    then show ?thesis using x1 by (simp add: load_udp_def udp_ports_def insert_udp_def insert_ports_def)
  next
    case (Some v)
    then have i: "i < length ps" "at_elem x1 ps i" "drop (Suc i) vs = behind ''udp_servers'' vs" using x1(3) by auto
    let ?ports = "section_of ''udp_servers'' ''port'' ''/udp_servers'' vs"
    have p: "fold_result udp_effect ?ports c = Inr (fold (\<lambda>v. insert_udp (atoi (attr v ''addr''))) ?ports c)"
      by (rule fold_result_fold) (simp add: udp_effect_def)
    from udps.loop_spec [OF x1(2) i(2,1), of c] p obtain x2
      where x2: "udp_loop c x1 = Some (Inr (fold (\<lambda>v. insert_udp (atoi (attr v ''addr''))) ?ports c, x2))" "x_rep x2 ps vs"
      by (auto simp: i(3) section_of_def)
    have "load_udp c x = Some (Inr (c\<lparr>m_UDPServers := insert_ports (udp_ports vs) (m_UDPServers c)\<rparr>, x2))"
      using x1(1) Some x2(1) unfolding fold_udp by (simp add: load_udp_def udp_ports_def)
    then show ?thesis using x2(2) by blast
  qed
qed

lemma Parse_file:
  assumes "doc_ok doc"
  shows "\<exists>x ps. Parse new_cXMLLiteParser (cmem (doc_text doc)) = Some (Inr (0, x)) \<and>
    x_rep (snd (Parser_MoveHead x)) ps (doc_elems doc)"
proof -
  from Parse_doc [OF parser_holds_new assms] obtain x ps
    where x: "Parse new_cXMLLiteParser (cmem (doc_text doc)) = Some (Inr (0, x))" "x_rep x ps (doc_elems doc)"
    by (auto simp: parser_holds_def)
  then have "xl_repr (m_xmlElements x) ps" by (simp add: x_rep_def)
  from XMLList_MoveToHead_repr [OF this] x show ?thesis by (auto simp: Parser_MoveHead_def Let_def)
qed

lemma LoadConfig_spec:
  assumes "doc_ok doc" "\<forall>n \<in> set setting_names. has_text (doc_elems doc) n"
  shows "LoadConfig ac pid (Some (doc_text doc)) c = Some (Inr (configured pid (doc_elems doc) c))"
proof -
  let ?vs = "doc_elems doc"
  let ?c = "set_info ''server.config.filename'' (config_name c) (set_info ''server.mode'' ''MASTER'' c)"
  from Parse_file [OF assms(1)] obtain x ps
    where x: "Parse new_cXMLLiteParser (cmem (doc_text doc)) = Some (Inr (0, x))"
      "x_rep (snd (Parser_MoveHead x)) ps ?vs" by blast
  from load_addresses_spec [OF x(2) assms(2), of ?c] obtain x1 c1
    where x1: "load_addresses ?c (snd (Parser_MoveHead x)) = Some (Inr (c1, x1))" "x_rep x1 ps ?vs"
      and c1: "\<exists>d. c1 = ?c\<lparr>
        m_server_listen_addr := text_or ''server_listen_addr'' ''0.0.0.0'' ?vs,
        m_server_primary_addr := text_or ''server_primary_addr'' (primary_ip ?c) ?vs,
        m_server_secondary_addr := text_or ''server_secondary_addr'' (primary_ip ?c) ?vs,
        m_server_max_cache_size := text_or ''server_max_cache_size'' ''10000'' ?vs, m_ServerDetectedIP := d\<rparr>" by blast
  from load_tcp_spec [OF x1(2), of c1] obtain x2 c2
    where x2: "load_tcp c1 x1 = Some (Inr (c2, x2))" "x_rep x2 ps ?vs"
      and c2: "\<exists>d. c2 = c1\<lparr>
        m_VirtualDirectoryMap := map_directories (directories ?vs) (m_VirtualDirectoryMap c1),
        m_TCPServers := insert_ports (tcp_ports ?vs) (m_TCPServers c1),
        m_server_secondary_addr :=
          (if first_elem ''tcp_servers'' ?vs = None then primary_ip c1 else m_server_secondary_addr c1),
        m_ServerDetectedIP := d\<rparr>" by blast
  from load_udp_spec [OF x2(2), of c2] obtain x3
    where x3: "load_udp c2 x2 = Some (Inr (c2\<lparr>m_UDPServers := insert_ports (udp_ports ?vs) (m_UDPServers c2)\<rparr>, x3))"
      "x_rep x3 ps ?vs" by blast
  have "LoadConfig ac pid (Some (doc_text doc)) c =
      load_limits pid (c2\<lparr>m_UDPServers := insert_ports (udp_ports ?vs) (m_UDPServers c2)\<rparr>) x3"
    using x(1) x1(1) x2(1) x3(1) by (simp add: LoadConfig_def Let_def)
  then show ?thesis
    using c1 c2 unfolding load_limits_spec [OF x3(2) assms(2)]
    by (auto simp: configured_def set_info_def primary_ip_def)
qed

end
