(* ===== verification/CoreRules.thy ===== *)
theory CoreRules
  imports CoreSettings
begin

text \<open>
  What the rules of the configuration file become: the list that says who may connect, and the rules
  by which messages are routed.
\<close>

section \<open>Searches without an end tag\<close>

lemma search_none:
  "search tag None k vs = (case first_elem tag vs of None \<Rightarrow> Missing
      | Some _ \<Rightarrow> FoundAt (k + length (takeWhile (\<lambda>v. xe_name v \<noteq> Some tag) vs)))"
  by (induction vs arbitrary: k) (auto simp: first_elem_def split: option.splits)

lemma FindNextTag_plain:
  assumes r: "x_rep x ps vs" and a: "at_elem x ps i" "i < length ps"
  shows "\<exists>x' j. FindNextTag x tag None =
      Some (Inr (map_option (\<lambda>_. snd (ps ! j)) (first_elem tag (drop (Suc i) vs)), x')) \<and> x_rep x' ps vs \<and>
    j < length ps \<and> at_elem x' ps j \<and>
    (if first_elem tag (drop (Suc i) vs) = None then j = i else drop (Suc j) vs = behind tag (drop (Suc i) vs))"
proof -
  let ?ws = "drop (Suc i) vs"
  have l: "length vs = length ps" using r by (auto simp: x_rep_def dest: list_all2_lengthD)
  from FindNextTag_spec [OF r a, of tag None] obtain p x'
    where p: "FindNextTag x tag None = Some (Inr (p, x'))"
      "find_spec ps (search tag None (Suc i) ?ws) x p x'" "x_rep x' ps vs" by blast
  show ?thesis
  proof (cases "first_elem tag ?ws")
    case None
    then have "p = None" "GetCurrentNodeHandle x' = GetCurrentNodeHandle x"
      using p(2) by (simp_all add: search_none find_spec_def)
    moreover from this have "at_elem x' ps i" using a(1) by (simp add: at_elem_def xl_at_def GetCurrentNodeHandle_def)
    ultimately show ?thesis using p(1,3) a(2) None by auto
  next
    case (Some v)
    let ?n = "length (takeWhile (\<lambda>v. xe_name v \<noteq> Some tag) ?ws)"
    have "p = Some (snd (ps ! (Suc i + ?n)))" "at_elem x' ps (Suc i + ?n)"
      using p(2) Some by (simp_all add: search_none find_spec_def)
    moreover have "Suc i + ?n < length ps" "drop (Suc (Suc i + ?n)) vs = behind tag ?ws"
      using search_first(2) [OF Some] l by (auto simp: add.commute)
    ultimately show ?thesis using p(1,3) Some by (intro exI [of _ x'] exI [of _ "Suc i + ?n"]) simp
  qed
qed

section \<open>Who may connect\<close>

text \<open>The list of one kind of rules, and what is left of the file behind it.\<close>

definition listed :: "string \<Rightarrow> xml_elem list \<Rightarrow> xml_elem list" where
  "listed tag ws = (if first_elem tag ws = None then [] else section_of tag ''addr'' (CHR ''/'' # tag) ws)"

definition left_of :: "string \<Rightarrow> xml_elem list \<Rightarrow> xml_elem list" where
  "left_of tag ws = (if first_elem tag ws = None then ws else behind (CHR ''/'' # tag) (behind tag ws))"

definition closed :: "string \<Rightarrow> xml_elem list \<Rightarrow> bool" where
  "closed tag ws \<longleftrightarrow> (first_elem tag ws \<noteq> None \<longrightarrow> first_elem (CHR ''/'' # tag) (behind tag ws) \<noteq> None)"

lemma addr_rules_spec:
  assumes L: "tag_loop (addr_loop sign (CHR ''/'' # tag)) ''addr'' (CHR ''/'' # tag) (addr_effect sign) Pair (\<lambda>_. True)"
    and r: "x_rep x ps vs" and a: "at_elem x ps i" "i < length ps" and cl: "closed tag (drop (Suc i) vs)"
  shows "\<exists>x'. addr_rules sign tag c x =
      Some (rbind (fold_result (addr_effect sign) (listed tag (drop (Suc i) vs)) c) (\<lambda>c. Inr (c, x'))) \<and> x_rep x' ps vs \<and>
    (\<forall>c'. fold_result (addr_effect sign) (listed tag (drop (Suc i) vs)) c = Inr c' \<longrightarrow>
      (\<exists>j < length ps. at_elem x' ps j \<and> drop (Suc j) vs = left_of tag (drop (Suc i) vs)))"
proof -
  let ?ws = "drop (Suc i) vs"
  from FindNextTag_plain [OF r a, of tag] obtain x1 j
    where x1: "FindNextTag x tag None = Some (Inr (map_option (\<lambda>_. snd (ps ! j)) (first_elem tag ?ws), x1))"
      "x_rep x1 ps vs" "j < length ps" "at_elem x1 ps j"
      "if first_elem tag ?ws = None then j = i else drop (Suc j) vs = behind tag ?ws" by blast
  show ?thesis
  proof (cases "first_elem tag ?ws")
    case None
    then show ?thesis using x1 by (auto simp: addr_rules_def listed_def left_of_def)
  next
    case (Some v)
    then have d: "drop (Suc j) vs = behind tag ?ws" using x1(5) by simp
    have s: "tagged ''addr'' (until (CHR ''/'' # tag) (drop (Suc j) vs)) = listed tag ?ws"
      using Some d by (simp add: listed_def section_of_def)
    from tag_loop.loop_spec [OF L x1(2,4,3), of c] obtain x2
      where x2: "addr_loop sign (CHR ''/'' # tag) c x1 =
          Some (rbind (fold_result (addr_effect sign) (listed tag ?ws) c) (\<lambda>c. Inr (c, x2)))" "x_rep x2 ps vs"
        "\<forall>c'. fold_result (addr_effect sign) (listed tag ?ws) c = Inr c' \<longrightarrow>
          (\<exists>k < length ps. at_elem x2 ps k \<and> (first_elem (CHR ''/'' # tag) (drop (Suc j) vs) \<noteq> None \<longrightarrow>
             drop (Suc k) vs = behind (CHR ''/'' # tag) (drop (Suc j) vs)))"
      unfolding s by auto
    have "first_elem (CHR ''/'' # tag) (drop (Suc j) vs) \<noteq> None" using cl Some d by (simp add: closed_def)
    then have "\<forall>c'. fold_result (addr_effect sign) (listed tag ?ws) c = Inr c' \<longrightarrow>
        (\<exists>k < length ps. at_elem x2 ps k \<and> drop (Suc k) vs = left_of tag ?ws)"
      using x2(3) Some d by (auto simp: left_of_def)
    then show ?thesis using x1(1) x2(1,2) Some by (auto simp: addr_rules_def)
  qed
qed

text \<open>Addresses as the four octets of a rule.\<close>

definition rule_ok :: "int list \<Rightarrow> bool" where
  "rule_ok v \<longleftrightarrow> length v = 4 \<and> (\<forall>x \<in> set v. octant_ok x)"

definition lists_rules :: "xml_elem list \<Rightarrow> int list list \<Rightarrow> bool" where
  "lists_rules ws rs \<longleftrightarrow> map xe_value ws = map (\<lambda>r. Some (IPAccess.dotted (map octant_text r))) rs \<and> (\<forall>r \<in> set rs. rule_ok r)"

definition sign_of :: "access_type \<Rightarrow> char" where
  "sign_of ty = (if ty = INCLUSION then CHR ''+'' else CHR ''-'')"

lemma fold_addr_rules:
  assumes "lists_rules ws rs"
  shows "fold_result (addr_effect (sign_of ty)) ws c = Inr (c\<lparr>m_IPAccess := m_IPAccess c @ rule_list (map (Pair ty) rs)\<rparr>)"
  using assms
proof (induction ws arbitrary: rs c)
  case Nil
  then show ?case by (simp add: lists_rules_def rule_list_def)
next
  case (Cons w ws)
  then obtain r rs' where rs: "rs = r # rs'" "xe_value w = Some (IPAccess.dotted (map octant_text r))" "rule_ok r" "lists_rules ws rs'"
    by (cases rs) (auto simp: lists_rules_def)
  have "Access_Add (m_IPAccess c) (sign_of ty # IPAccess.dotted (map octant_text r)) =
      Inr (HRC_IPACCESS_OK, m_IPAccess c @ [\<lparr>ae_type = ty, octant = r\<rparr>])"
    using Add_rule [of r "m_IPAccess c" ty] rs(3) by (simp add: rule_ok_def rule_text_def sign_of_def)
  then have "addr_effect (sign_of ty) w c = Inr (c\<lparr>m_IPAccess := m_IPAccess c @ [\<lparr>ae_type = ty, octant = r\<rparr>]\<rparr>)"
    using rs(2) by (simp add: addr_effect_def elem_text_def access_rule_def)
  then show ?case using Cons.IH [OF rs(4)] rs(1) by (simp add: rule_list_def)
qed

text \<open>The rules of the file: those of \<open>allow\<close>, and those of a \<open>block\<close> behind it.\<close>

definition allow_list :: "xml_elem list \<Rightarrow> xml_elem list" where
  "allow_list vs = listed ''allow'' (behind ''connections'' vs)"

definition block_list :: "xml_elem list \<Rightarrow> xml_elem list" where
  "block_list vs = listed ''block'' (left_of ''allow'' (behind ''connections'' vs))"

lemma ProcessIPRules_spec:
  assumes r: "x_rep x ps vs" and n: "first_elem ''connections'' vs \<noteq> None"
    and cl: "closed ''allow'' (behind ''connections'' vs)" "closed ''block'' (left_of ''allow'' (behind ''connections'' vs))"
    and A: "lists_rules (allow_list vs) as" and B: "lists_rules (block_list vs) bs"
  shows "\<exists>x'. ProcessIPRules c x = Some (Inr
      (c\<lparr>m_IPAccess := m_IPAccess c @ rule_list (map (Pair INCLUSION) as @ map (Pair EXCLUSION) bs)\<rparr>, x')) \<and> x_rep x' ps vs"
proof -
  from FindTag_first [OF r, of "''connections''"] n obtain x1 i
    where x1: "FindTag x ''connections'' = Some (Inr (Some (snd (ps ! i)), x1))" "x_rep x1 ps vs" "i < length ps"
      "at_elem x1 ps i" "drop (Suc i) vs = behind ''connections'' vs" by auto
  let ?c = "c\<lparr>m_IPAccess := m_IPAccess c @ rule_list (map (Pair INCLUSION) as)\<rparr>"
  have a: "fold_result (addr_effect CHR ''+'') (allow_list vs) c = Inr ?c"
    using fold_addr_rules [OF A, of INCLUSION c] by (simp add: sign_of_def)
  from addr_rules_spec [OF allows.tag_loop_axioms x1(2,4,3), of c] cl(1) a obtain x2 j
    where x2: "addr_rules CHR ''+'' ''allow'' c x1 = Some (Inr (?c, x2))" "x_rep x2 ps vs" "j < length ps" "at_elem x2 ps j"
      "drop (Suc j) vs = left_of ''allow'' (behind ''connections'' vs)"
    by (auto simp: x1(5) allow_list_def)
  have b: "fold_result (addr_effect CHR ''-'') (block_list vs) ?c = Inr (?c\<lparr>m_IPAccess := m_IPAccess ?c @ rule_list (map (Pair EXCLUSION) bs)\<rparr>)"
    using fold_addr_rules [OF B, of EXCLUSION ?c] by (simp add: sign_of_def)
  from addr_rules_spec [OF blocks.tag_loop_axioms x2(2,4,3), of ?c] cl(2) b obtain x3
    where x3: "addr_rules CHR ''-'' ''block'' ?c x2 = Some (Inr (?c\<lparr>m_IPAccess := m_IPAccess ?c @ rule_list (map (Pair EXCLUSION) bs)\<rparr>, x3))"
      "x_rep x3 ps vs" by (auto simp: x2(5) block_list_def)
  have "?c\<lparr>m_IPAccess := m_IPAccess ?c @ rule_list (map (Pair EXCLUSION) bs)\<rparr> =
      c\<lparr>m_IPAccess := m_IPAccess c @ rule_list (map (Pair INCLUSION) as @ map (Pair EXCLUSION) bs)\<rparr>"
    by (simp add: rule_list_def)
  then show ?thesis using x1(1) x2(1) x3 by (simp add: ProcessIPRules_def)
qed

text \<open>Without \<open>connections\<close>: the network of the primary address.\<close>

lemma subnet_rule_octants:
  assumes "\<forall>x \<in> {a, b, d, e}. octant_ok x"
  shows "subnet_rule (IPAccess.dotted (map octant_text [a, b, d, e])) = rule_text INCLUSION [a, b, d, -1]"
proof -
  have p: "CHR ''.'' \<notin> set (octant_text x)" if "x \<in> {a, b, d, e}" for x
    using octant_text_ok(1) assms that by (auto simp: plain_octant_def)
  have "dropWhile (\<lambda>ch. ch \<noteq> CHR ''.'') (rev (octant_text e) @ CHR ''.'' # w) = CHR ''.'' # w" for w
    using p [of e] by (subst dropWhile_append2) auto
  then show ?thesis
    by (simp add: subnet_rule_def rule_text_def octant_text_def [of "-1"])
qed

lemma ProcessIPRules_subnet:
  assumes r: "x_rep x ps vs" and n: "first_elem ''connections'' vs = None"
    and ip: "primary_ip c = IPAccess.dotted (map octant_text [a, b, d, e])" "\<forall>x \<in> {a, b, d, e}. octant_ok x"
  shows "\<exists>x'. ProcessIPRules c x = Some (Inr
      (c\<lparr>m_ServerDetectedIP := primary_ip c, m_server_primary_addr := primary_ip c,
         m_IPAccess := m_IPAccess c @ rule_list [(INCLUSION, [a, b, d, -1])]\<rparr>, x')) \<and> x_rep x' ps vs"
proof -
  from FindTag_first [OF r, of "''connections''"] n obtain x1
    where x1: "FindTag x ''connections'' = Some (Inr (None, x1))" "x_rep x1 ps vs" by auto
  have "Access_Add l (rule_text INCLUSION [a, b, d, -1]) = Inr (HRC_IPACCESS_OK, l @ [\<lparr>ae_type = INCLUSION, octant = [a, b, d, -1]\<rparr>])" for l
    using ip(2) by (intro Add_rule) (auto simp: octant_ok_def)
  then show ?thesis
    using x1 subnet_rule_octants [OF ip(2)] ip(1)
    by (auto simp: ProcessIPRules_def detect_ip_def access_rule_def primary_ip_def rule_list_def Let_def)
qed

text \<open>Rules of exclusion behind all rules of inclusion decide nothing.\<close>

lemma admitted_allow_first:
  "admitted (map (Pair INCLUSION) as @ map (Pair EXCLUSION) bs) addr \<longleftrightarrow> (\<exists>r \<in> set as. octants_fit r addr)"
proof (induction as)
  case Nil
  have "find (\<lambda>(ty, v). octants_fit v addr) (map (Pair EXCLUSION) bs) = Some (ty, v) \<Longrightarrow> ty = EXCLUSION" for ty v
    by (induction bs) (auto split: if_splits)
  then show ?case by (auto simp: admitted_def split: option.splits access_type.splits)
next
  case (Cons a as)
  then show ?case by (auto simp: admitted_def)
qed

section \<open>Routes\<close>

text \<open>
  The routes of the configuration file: each \<open>if\<close> of a \<open>route\<close> becomes a rule of the set that has
  the name of the route, in the order of the file.
\<close>

section \<open>The conditions of a route\<close>

definition if_effect :: "string \<Rightarrow> string \<Rightarrow> xml_elem \<Rightarrow> rule_state \<times> cCore \<Rightarrow> rule_state \<times> cCore" where
  "if_effect name to v = (\<lambda>(st, c).
     let Location = rule_location (attr v ''location'') (fst st);
         OperationType = rule_operation (attr v ''op'') (attr v ''variance'') (snd st)
     in ((Location, OperationType), add_route name to Location OperationType (attr v ''pattern'') (attr v ''value'') c))"

definition complete_if :: "xml_elem \<Rightarrow> bool" where
  "complete_if v \<longleftrightarrow> attr v ''op'' \<noteq> [] \<and> attr v ''location'' \<noteq> []"

interpretation ifs: tag_loop "\<lambda>(st, c). if_loop name to st c" "''if''" "''/route''"
    "\<lambda>v s. Inr (if_effect name to v s)" "\<lambda>(st, c) x. (None, st, c, x)" complete_if
  for name to
proof
  show "''if'' \<noteq> ''/route''" by simp
  fix s :: "rule_state \<times> cCore" and x x'
  obtain st c where s: "s = (st, c)" by (cases s)
  show "(case s of (st, c) \<Rightarrow> if_loop name to st c) x = Some (Inr ((case s of (st, c) \<Rightarrow> \<lambda>x. (None, st, c, x)) x'))"
    if "FindNextTag x ''if'' (Some ''/route'') = Some (Inr (None, x'))"
    using that s by simp (subst if_loop.simps, simp)
next
  fix x ps vs i x1 and s :: "rule_state \<times> cCore"
  assume f: "FindNextTag x ''if'' (Some ''/route'') = Some (Inr (Some (snd (ps ! i)), x1))" "x_rep x1 ps vs" "i < length ps"
    and ok: "complete_if (vs ! i)"
  obtain st c where s: "s = (st, c)" by (cases s)
  let ?v = "vs ! i" and ?a = "snd (ps ! i)"
  from attribute_values [OF f(2,3), of "''op''" "''value''"] obtain x2 x3
    where x3: "attribute_value x1 ?a ''op'' = Some (Inr (attr ?v ''op'', x2))"
      "attribute_value x2 ?a ''value'' = Some (Inr (attr ?v ''value'', x3))" "x_rep x3 ps vs" "m_xmlElements x3 = m_xmlElements x1"
    by blast
  from attribute_values [OF x3(3) f(3), of "''variance''" "''pattern''"] obtain x4 x5
    where x5: "attribute_value x3 ?a ''variance'' = Some (Inr (attr ?v ''variance'', x4))"
      "attribute_value x4 ?a ''pattern'' = Some (Inr (attr ?v ''pattern'', x5))" "x_rep x5 ps vs" "m_xmlElements x5 = m_xmlElements x3"
    by blast
  from attribute_value_spec [OF x5(3) f(3), of "''location''"] obtain x6
    where x6: "attribute_value x5 ?a ''location'' = Some (Inr (attr ?v ''location'', x6))" "x_rep x6 ps vs"
      "m_xmlElements x6 = m_xmlElements x5" by blast
  have "if_loop name to st c x = (case if_effect name to ?v s of (st, c) \<Rightarrow> if_loop name to st c) x6"
    using f(1) x3(1,2) x5(1,2) x6(1) ok s
    by (subst if_loop.simps) (simp add: if_effect_def complete_if_def Let_def)
  then show "\<exists>x'. (case s of (st, c) \<Rightarrow> if_loop name to st c) x =
      pbind (Some (Inr (if_effect name to ?v s))) (\<lambda>s. (case s of (st, c) \<Rightarrow> if_loop name to st c) x') \<and>
      x_rep x' ps vs \<and> m_xmlElements x' = m_xmlElements x1"
    using s x6(2,3) x5(4) x3(4) by (intro exI [of _ x6]) simp
qed

section \<open>Routes\<close>

lemma behind_le: "length (behind t ws) \<le> length ws - 1"
  by (simp add: behind_def diff_le_mono [OF length_dropWhile_le])

lemma behind_shorter: "ws \<noteq> [] \<Longrightarrow> length (behind u (behind t ws)) < length ws"
  using behind_le [of u "behind t ws"] behind_le [of t ws] by (cases ws) auto

text \<open>The routes of a list of elements, each with its conditions; and whether all of them are complete.\<close>

function route_groups :: "xml_elem list \<Rightarrow> (xml_elem \<times> xml_elem list) list" where
  "route_groups ws =
     (case tagged ''route'' (until ''/handlers'' ws) of
        [] \<Rightarrow> []
      | v # _ \<Rightarrow>
          let w = behind ''route'' ws
          in (v, tagged ''if'' (until ''/route'' w)) # route_groups (behind ''/route'' w))"
  by pat_completeness auto
termination
proof (relation "measure length", goal_cases)
  case (2 ws v vs w)
  then have "ws \<noteq> []" by (auto simp: tagged_def until_def)
  from behind_shorter [OF this, of "''/route''" "''route''"] 2 show ?case by simp
qed simp

function routes_closed :: "xml_elem list \<Rightarrow> bool" where
  "routes_closed ws =
     (case tagged ''route'' (until ''/handlers'' ws) of
        [] \<Rightarrow> True
      | _ # _ \<Rightarrow>
          let w = behind ''route'' ws
          in first_elem ''/route'' w \<noteq> None \<and> routes_closed (behind ''/route'' w))"
  by pat_completeness auto
termination
proof (relation "measure length", goal_cases)
  case (2 ws v vs w)
  then have "ws \<noteq> []" by (auto simp: tagged_def until_def)
  from behind_shorter [OF this, of "''/route''" "''route''"] 2 show ?case by simp
qed simp

declare route_groups.simps [simp del] routes_closed.simps [simp del]

definition complete_group :: "xml_elem \<times> xml_elem list \<Rightarrow> bool" where
  "complete_group g \<longleftrightarrow> attr (fst g) ''name'' \<noteq> [] \<and> attr (fst g) ''to'' \<noteq> [] \<and> (\<forall>v \<in> set (snd g). complete_if v)"

fun run_groups :: "(xml_elem \<times> xml_elem list) list \<Rightarrow> rule_state \<times> cCore \<Rightarrow> rule_state \<times> cCore" where
  "run_groups [] s = s"
| "run_groups ((v, ifs) # gs) s = run_groups gs (fold (if_effect (attr v ''name'') (attr v ''to'')) ifs s)"

lemma route_loop_step:
  assumes r: "x_rep x ps vs" and a: "at_elem x ps i" "i < length ps"
    and g: "tagged ''route'' (until ''/handlers'' (drop (Suc i) vs)) = v # ws"
    and nt: "attr v ''name'' \<noteq> []" "attr v ''to'' \<noteq> []"
  shows "\<exists>x' j. j < length ps \<and> at_elem x' ps j \<and> x_rep x' ps vs \<and> drop (Suc j) vs = behind ''route'' (drop (Suc i) vs) \<and>
    route_loop st c x = pbind (if_loop (attr v ''name'') (attr v ''to'') st c x') (\<lambda>(ex, st, c, x).
      case ex of Some e \<Rightarrow> Some (Inr (Some e, c, x)) | None \<Rightarrow> route_loop st c x)"
proof -
  from FindNextTag_next [OF r a, of "''route''" "''/handlers''"] g obtain x1 j
    where x1: "FindNextTag x ''route'' (Some ''/handlers'') = Some (Inr (Some (snd (ps ! j)), x1))" "x_rep x1 ps vs"
      "j < length ps" "vs ! j = v" "at_elem x1 ps j" "drop (Suc j) vs = behind ''route'' (drop (Suc i) vs)"
    by auto
  from attribute_values [OF x1(2,3), of "''name''" "''to''"] obtain x2 x3
    where x3: "attribute_value x1 (snd (ps ! j)) ''name'' = Some (Inr (attr v ''name'', x2))"
      "attribute_value x2 (snd (ps ! j)) ''to'' = Some (Inr (attr v ''to'', x3))" "x_rep x3 ps vs" "m_xmlElements x3 = m_xmlElements x1"
    using x1(4) by blast
  have "route_loop st c x = pbind (if_loop (attr v ''name'') (attr v ''to'') st c x3) (\<lambda>(ex, st, c, x).
      case ex of Some e \<Rightarrow> Some (Inr (Some e, c, x)) | None \<Rightarrow> route_loop st c x)"
    using x1(1) x3(1,2) nt by (subst route_loop.simps) simp
  moreover have "at_elem x3 ps j" using x1(5) x3(4) by (simp add: at_elem_def)
  ultimately show ?thesis using x1(3,6) x3(3) by blast
qed

lemma fold_result_Inr: "fold_result (\<lambda>v s. Inr (f v s)) vs s = Inr (fold f vs s)"
  by (rule fold_result_fold) simp

lemma route_loop_spec:
  assumes "x_rep x ps vs" "at_elem x ps i" "i < length ps"
    and "routes_closed (drop (Suc i) vs)" "\<forall>g \<in> set (route_groups (drop (Suc i) vs)). complete_group g"
  shows "\<exists>x'. route_loop st c x = Some (Inr (None, snd (run_groups (route_groups (drop (Suc i) vs)) (st, c)), x')) \<and> x_rep x' ps vs"
  using assms
proof (induction "length ps - i" arbitrary: x i st c rule: less_induct)
  case less
  let ?ws = "drop (Suc i) vs"
  show ?case
  proof (cases "tagged ''route'' (until ''/handlers'' ?ws)")
    case Nil
    from FindNextTag_next [OF less.prems(1-3), of "''route''" "''/handlers''"] Nil obtain x1
      where x1: "FindNextTag x ''route'' (Some ''/handlers'') = Some (Inr (None, x1))" "x_rep x1 ps vs" by auto
    have "route_groups ?ws = []" using Nil by (simp add: route_groups.simps [of ?ws])
    then show ?thesis using x1 by (subst route_loop.simps) simp
  next
    case (Cons v ws)
    let ?w = "behind ''route'' ?ws"
    have g: "route_groups ?ws = (v, tagged ''if'' (until ''/route'' ?w)) # route_groups (behind ''/route'' ?w)"
      and cl: "first_elem ''/route'' ?w \<noteq> None" "routes_closed (behind ''/route'' ?w)"
      using Cons less.prems(4) by (simp_all add: route_groups.simps [of ?ws] routes_closed.simps [of ?ws] Let_def)
    have nt: "attr v ''name'' \<noteq> []" "attr v ''to'' \<noteq> []" and ok: "\<forall>u \<in> set (tagged ''if'' (until ''/route'' ?w)). complete_if u"
      and later: "\<forall>g \<in> set (route_groups (behind ''/route'' ?w)). complete_group g"
      using less.prems(5) unfolding g by (auto simp: complete_group_def)
    from route_loop_step [OF less.prems(1-3) Cons nt, of st c] obtain x1 j
      where x1: "j < length ps" "at_elem x1 ps j" "x_rep x1 ps vs" "drop (Suc j) vs = ?w"
        "route_loop st c x = pbind (if_loop (attr v ''name'') (attr v ''to'') st c x1) (\<lambda>(ex, st, c, x).
          case ex of Some e \<Rightarrow> Some (Inr (Some e, c, x)) | None \<Rightarrow> route_loop st c x)" by blast
    obtain st' c' where s': "fold (if_effect (attr v ''name'') (attr v ''to'')) (tagged ''if'' (until ''/route'' ?w)) (st, c) = (st', c')"
      by fastforce
    from ifs.loop_spec [OF x1(3,2,1), of "attr v ''name''" "attr v ''to''" "(st, c)"] ok cl(1) s' obtain x2 k
      where x2: "if_loop (attr v ''name'') (attr v ''to'') st c x1 = Some (Inr (None, st', c', x2))" "x_rep x2 ps vs"
        "k < length ps" "at_elem x2 ps k" "drop (Suc k) vs = behind ''/route'' ?w"
      by (auto simp: x1(4) fold_result_Inr)
    have l: "length vs = length ps" using less.prems(1) by (auto simp: x_rep_def dest: list_all2_lengthD)
    have "?ws \<noteq> []" using Cons by (auto simp: tagged_def until_def)
    from behind_shorter [OF this] have "length (drop (Suc k) vs) < length ?ws" unfolding x2(5) .
    then have "length ps - k < length ps - i" using l less.prems(3) x2(3) by simp
    from less.hyps [OF this x2(2,4,3), of st' c'] cl(2) later obtain x3
      where "route_loop st' c' x2 = Some (Inr (None, snd (run_groups (route_groups (behind ''/route'' ?w)) (st', c')), x3))"
        "x_rep x3 ps vs" by (auto simp: x2(5))
    then show ?thesis using x1(5) x2(1) s' g by simp
  qed
qed

text \<open>
  With operations and locations that are known, what was kept from the condition before does not
  matter: the rules in the order of the file, each with the name and the goal of its route.
\<close>

definition known_if :: "xml_elem \<Rightarrow> bool" where
  "known_if v \<longleftrightarrow> attr v ''op'' \<in> {''match'', ''contains''} \<and> attr v ''location'' \<in> {''status'', ''header'', ''payload''}"

lemma known_complete: "known_if v \<Longrightarrow> complete_if v"
  by (auto simp: known_if_def complete_if_def)

definition if_rule :: "xml_elem \<Rightarrow> cMsgRouterRule" where
  "if_rule v = \<lparr>m_Location = rule_location (attr v ''location'') MSG_RTL_NOTSET,
     m_OperationType = rule_operation (attr v ''op'') (attr v ''variance'') MSG_RTO_NOTSET,
     m_MatchPattern = attr v ''pattern'', m_Value = attr v ''value''\<rparr>"

definition routes_of :: "xml_elem list \<Rightarrow> (string \<times> string \<times> cMsgRouterRule) list" where
  "routes_of vs =
     concat (map (\<lambda>(v, ifs). map (\<lambda>w. (attr v ''name'', attr v ''to'', if_rule w)) ifs)
       (route_groups (behind ''handlers'' vs)))"

definition with_routes :: "(string \<times> string \<times> cMsgRouterRule) list \<Rightarrow> cCore \<Rightarrow> cCore" where
  "with_routes rs c = c\<lparr>m_pMsgQueue := (m_pMsgQueue c)\<lparr>m_pRouterRulesEngine :=
     fold (\<lambda>(name, to, r) e. RulesEngine_AddRule e name to r) rs (m_pRouterRulesEngine (m_pMsgQueue c))\<rparr>\<rparr>"

lemma with_routes_append: "with_routes (rs @ ss) c = with_routes ss (with_routes rs c)"
  by (simp add: with_routes_def)

lemma rule_known:
  "loc \<in> {''status'', ''header'', ''payload''} \<Longrightarrow> rule_location loc old = rule_location loc MSG_RTL_NOTSET"
  "oper \<in> {''match'', ''contains''} \<Longrightarrow> rule_operation oper variance old' = rule_operation oper variance MSG_RTO_NOTSET"
  unfolding rule_location_def rule_operation_def insert_iff empty_iff by presburger+

lemma if_effect_known:
  assumes "known_if v"
  shows "snd (if_effect name to v (st, c)) = with_routes [(name, to, if_rule v)] c"
proof -
  have "attr v ''location'' \<in> {''status'', ''header'', ''payload''}" "attr v ''op'' \<in> {''match'', ''contains''}"
    using assms unfolding known_if_def by blast+
  from rule_known(1) [OF this(1), of "fst st"] rule_known(2) [OF this(2), of "attr v ''variance''" "snd st"] show ?thesis
    by (simp only: if_effect_def prod.case Let_def snd_conv if_rule_def with_routes_def add_route_def fold.simps comp_apply id_apply)
qed

lemma fold_if_known:
  "\<forall>v \<in> set ifs. known_if v \<Longrightarrow>
     snd (fold (if_effect name to) ifs s) = with_routes (map (\<lambda>w. (name, to, if_rule w)) ifs) (snd s)"
proof (induction ifs arbitrary: s)
  case (Cons v ifs)
  obtain st c where s: "s = (st, c)" by (cases s)
  let ?r = "(name, to, if_rule v)" and ?rs = "map (\<lambda>w. (name, to, if_rule w)) ifs"
  have v: "known_if v" "\<forall>v \<in> set ifs. known_if v" using Cons.prems by simp_all
  have "snd (fold (if_effect name to) (v # ifs) s) = with_routes ?rs (snd (if_effect name to v s))"
    using Cons.IH [OF v(2)] by simp
  also have "\<dots> = with_routes ?rs (with_routes [?r] (snd s))" by (simp only: s snd_conv if_effect_known [OF v(1)])
  also have "\<dots> = with_routes ([?r] @ ?rs) (snd s)" by (simp only: with_routes_append)
  finally show ?case by simp
qed (simp add: with_routes_def)

lemma run_groups_known:
  "\<forall>g \<in> set gs. \<forall>v \<in> set (snd g). known_if v \<Longrightarrow>
     snd (run_groups gs s) =
       with_routes (concat (map (\<lambda>(v, ifs). map (\<lambda>w. (attr v ''name'', attr v ''to'', if_rule w)) ifs) gs)) (snd s)"
proof (induction gs arbitrary: s)
  case (Cons g gs)
  obtain v ifs where g: "g = (v, ifs)" by (cases g)
  let ?rs = "map (\<lambda>w. (attr v ''name'', attr v ''to'', if_rule w)) ifs"
  let ?ss = "concat (map (\<lambda>(v, ifs). map (\<lambda>w. (attr v ''name'', attr v ''to'', if_rule w)) ifs) gs)"
  have k: "\<forall>v \<in> set ifs. known_if v" "\<forall>g \<in> set gs. \<forall>v \<in> set (snd g). known_if v" using Cons.prems g by simp_all
  have "snd (run_groups (g # gs) s) = with_routes ?ss (with_routes ?rs (snd s))"
    using Cons.IH [OF k(2)] fold_if_known [OF k(1)] g by simp
  also have "\<dots> = with_routes (?rs @ ?ss) (snd s)" by (simp only: with_routes_append)
  finally show ?case using g by simp
qed (simp add: with_routes_def)

definition routes_ok :: "xml_elem list \<Rightarrow> bool" where
  "routes_ok vs \<longleftrightarrow> routes_closed (behind ''handlers'' vs) \<and>
     (\<forall>g \<in> set (route_groups (behind ''handlers'' vs)).
        attr (fst g) ''name'' \<noteq> [] \<and> attr (fst g) ''to'' \<noteq> [] \<and> (\<forall>w \<in> set (snd g). known_if w))"

lemma ProcessHandlers_spec:
  assumes r: "x_rep x ps vs" and n: "first_elem ''handlers'' vs \<noteq> None" and ok: "routes_ok vs"
  shows "\<exists>x'. ProcessHandlers c x = Some (Inr (None, with_routes (routes_of vs) c, x')) \<and> x_rep x' ps vs"
proof -
  from FindTag_first [OF r, of "''handlers''"] n obtain x1 i
    where x1: "FindTag x ''handlers'' = Some (Inr (Some (snd (ps ! i)), x1))" "x_rep x1 ps vs" by auto
  from FindTag_first [OF x1(2), of "''handlers''"] n obtain x2 j
    where x2: "FindTag x1 ''handlers'' = Some (Inr (Some (snd (ps ! j)), x2))" "x_rep x2 ps vs" "j < length ps"
      "at_elem x2 ps j" "drop (Suc j) vs = behind ''handlers'' vs" by auto
  have kn: "\<forall>g \<in> set (route_groups (behind ''handlers'' vs)). \<forall>v \<in> set (snd g). known_if v"
    and cg: "\<forall>g \<in> set (route_groups (behind ''handlers'' vs)). complete_group g"
    using ok known_complete by (auto simp: routes_ok_def complete_group_def)
  from route_loop_spec [OF x2(2,4,3), of "(MSG_RTL_NOTSET, MSG_RTO_NOTSET)" c] ok cg obtain x3
    where "route_loop (MSG_RTL_NOTSET, MSG_RTO_NOTSET) c x2 =
        Some (Inr (None, snd (run_groups (route_groups (behind ''handlers'' vs)) ((MSG_RTL_NOTSET, MSG_RTO_NOTSET), c)), x3))"
      "x_rep x3 ps vs"
    by (auto simp: x2(5) routes_ok_def)
  then show ?thesis using x1(1) x2(1) by (auto simp: ProcessHandlers_def run_groups_known [OF kn] routes_of_def)
qed

text \<open>A first route without a name or a goal: an exception, and no route at all.\<close>

lemma ProcessHandlers_incomplete:
  assumes r: "x_rep x ps vs" and n: "first_elem ''handlers'' vs \<noteq> None"
    and g: "tagged ''route'' (until ''/handlers'' (behind ''handlers'' vs)) = v # ws"
    and nt: "attr v ''name'' = [] \<or> attr v ''to'' = []"
  shows "\<exists>x'. ProcessHandlers c x = Some (Inr (Some ''route rule is missing 'name' or 'to' field.'', c, x'))"
proof -
  from FindTag_first [OF r, of "''handlers''"] n obtain x1 i
    where x1: "FindTag x ''handlers'' = Some (Inr (Some (snd (ps ! i)), x1))" "x_rep x1 ps vs" by auto
  from FindTag_first [OF x1(2), of "''handlers''"] n obtain x2 j
    where x2: "FindTag x1 ''handlers'' = Some (Inr (Some (snd (ps ! j)), x2))" "x_rep x2 ps vs" "j < length ps"
      "at_elem x2 ps j" "drop (Suc j) vs = behind ''handlers'' vs" by auto
  from FindNextTag_next [OF x2(2,4,3), of "''route''" "''/handlers''"] g obtain x3 k
    where x3: "FindNextTag x2 ''route'' (Some ''/handlers'') = Some (Inr (Some (snd (ps ! k)), x3))" "x_rep x3 ps vs"
      "k < length ps" "vs ! k = v" unfolding x2(5) by auto
  from attribute_values [OF x3(2,3), of "''name''" "''to''"] obtain x4 x5
    where x5: "attribute_value x3 (snd (ps ! k)) ''name'' = Some (Inr (attr v ''name'', x4))"
      "attribute_value x4 (snd (ps ! k)) ''to'' = Some (Inr (attr v ''to'', x5))"
    using x3(4) by blast
  have "route_loop st c x2 = Some (Inr (Some ''route rule is missing 'name' or 'to' field.'', c, x5))" for st
    using x3(1) x5 nt by (subst route_loop.simps) auto
  then show ?thesis using x1(1) x2(1) by (simp add: ProcessHandlers_def)
qed

lemma ProcessHandlers_default:
  assumes "x_rep x ps vs" "first_elem ''handlers'' vs = None"
  shows "\<exists>x'. ProcessHandlers c x = Some (Inr (None, default_routes c, x')) \<and> x_rep x' ps vs"
  using FindTag_first [OF assms(1), of "''handlers''"] assms(2) by (auto simp: ProcessHandlers_def)

section \<open>\<open>DoPostProcesses\<close>\<close>

definition config_noted :: "cCore \<Rightarrow> cCore" where
  "config_noted c = set_info ''server.config.filename'' (config_name c) c"

lemma DoPostProcesses_spec:
  assumes d: "doc_ok doc"
    and I: "\<And>x ps. x_rep x ps (doc_elems doc) \<Longrightarrow>
      \<exists>x'. ProcessIPRules (config_noted c) x = Some (Inr (c', x')) \<and> x_rep x' ps (doc_elems doc)"
    and H: "\<And>x ps. x_rep x ps (doc_elems doc) \<Longrightarrow> \<exists>x'. ProcessHandlers c' x = Some (Inr (ex, c'', x'))"
  shows "DoPostProcesses (Some (doc_text doc)) c = Some (Inr (ex, c''))"
proof -
  from Parse_file [OF d] obtain x ps
    where x: "Parse new_cXMLLiteParser (cmem (doc_text doc)) = Some (Inr (0, x))"
      "x_rep (snd (Parser_MoveHead x)) ps (doc_elems doc)" by blast
  from FindTag_first [OF x(2), of "''handlers''"] obtain x1 p
    where x1: "FindTag (snd (Parser_MoveHead x)) ''handlers'' = Some (Inr (p, x1))" "x_rep x1 ps (doc_elems doc)" by blast
  from I [OF x1(2)] obtain x2
    where x2: "ProcessIPRules (config_noted c) x1 = Some (Inr (c', x2))" "x_rep x2 ps (doc_elems doc)" by blast
  from H [OF x2(2)] obtain x3 where "ProcessHandlers c' x2 = Some (Inr (ex, c'', x3))" by blast
  then show ?thesis using x(1) x1(1) x2(1) by (simp add: DoPostProcesses_def config_noted_def Let_def)
qed

end
