(* ===== verification/CoreInit.thy ===== *)
theory CoreInit
  imports Core
begin

text \<open>
  \<open>core.cpp\<close>, second part: construction, \<open>Init\<close>, \<open>Deinit\<close>, and the one instance that \<open>Create\<close> and
  \<open>Destroy\<close> keep. What the system answers is an argument: the array of \<open>gethostname\<close>, the listing of
  the interfaces, the identifiers, the working directory, the contents of the configuration file each
  time it is read, and for every port the answers to the calls by which a server starts. Starting the
  thread of a queue changes no state before its first turn; the log lines are left out.

  \<open>THROW\<close> is the one of the platform with POSIX: it logs the exception, and the log ends the process with
  code 99 (\<open>exception.cpp\<close>). The handlers for \<open>cException\<close>, those of \<open>Init\<close> among them, are reached on
  Windows only and have no model here.
\<close>

record start_env =
  se_now :: int
  se_gethostname :: block
  se_netinfo :: "string option"
  se_uuid :: "nat \<Rightarrow> string"
  se_machine_id :: string
  se_cwd :: string
  se_pid :: int
  se_config :: "string option"
  se_config_again :: "string option"
  se_tcp :: "int \<Rightarrow> start_answers"
  se_udp :: "int \<Rightarrow> start_answers"

section \<open>Construction\<close>

text \<open>The queue with the objects that it shares: rules, registry and metrics are members of the core.\<close>

definition new_queue :: "start_env \<Rightarrow> cMsgQueue" where
  "new_queue env =
     \<lparr>m_pCommandHandlerFactory = [], m_Decorators = [], m_pRouterRulesEngine = new_cMsgRouterRulesEngine,
      m_pSysMetrics = new_cSysMetrics (se_now env), m_pConnectionQueue = new_cConnectionQueue 0,
      m_UniqueIDProvider = new_cUniqueIDProvider (se_uuid env), m_timer = new_cTimer,
      m_msgPool = new_cMsgPool, m_priority_queue = []\<rparr>"

definition new_cCore :: "start_env \<Rightarrow> string \<Rightarrow> cCore result" where
  "new_cCore env pszModuleName =
     rbind (new_cNetInterfaces (se_gethostname env) (se_netinfo env)) (\<lambda>n. Inr
       \<lparr>m_ModuleName = cstr pszModuleName, co_ServerName = [], m_server_listen_addr = [],
        m_server_primary_addr = [], m_server_secondary_addr = [], m_server_max_cache_size = [],
        m_ServerInstanceID = [], m_ServerWorkingDirectory = cstr (se_cwd env), m_UDPPort = [], m_TCPPort = [],
        m_MaxWebServerThreads = [], m_ConnectionTimeout = [], m_IPAccess = [], m_pWebServer = None,
        m_pMsgQueue = new_queue env, co_pSysInfo = [], m_VirtualDirectoryMap = [], m_NetInterfaces = n,
        m_TCPServers = [], m_UDPServers = [], m_TCPServerList = [], m_UDPServerList = [],
        co_FileCache = new_cFileCache, m_UniqueServerID = [], m_MACAddress = [], m_ServerDetectedIP = [],
        m_bZeroConfig = False\<rparr>)"

section \<open>\<open>Init\<close>\<close>

text \<open>What the node is called.\<close>

definition init_identity :: "start_env \<Rightarrow> cCore \<Rightarrow> cCore result" where
  "init_identity env c =
     rbind (GetHostName (se_gethostname env) (m_NetInterfaces c)) (\<lambda>(s, n).
     let c = detect_ip (c\<lparr>m_NetInterfaces := n, co_ServerName := s\<rparr>);
         c = c\<lparr>m_MACAddress := cstr (m_PrimaryMac n)\<rparr>;
         (i, p) = UniqueID_GetID (se_uuid env) (m_UniqueIDProvider (m_pMsgQueue c));
         c = c\<lparr>m_ServerInstanceID := i, m_pMsgQueue := (m_pMsgQueue c)\<lparr>m_UniqueIDProvider := p\<rparr>\<rparr>;
         c = c\<lparr>co_pSysInfo := [],
               m_UniqueServerID := m_UniqueServerID c @ m_ModuleName c @ '':'' @ co_ServerName c @ '':'' @
                 cstr (se_machine_id env)\<rparr>
     in Inr (set_info ''server.uuid'' (m_UniqueServerID c) c))"

definition init_queue :: "cCore \<Rightarrow> cCore" where
  "init_queue c =
     c\<lparr>m_pMsgQueue := (m_pMsgQueue c)\<lparr>m_pConnectionQueue := new_cConnectionQueue (atoi (m_ConnectionTimeout c))\<rparr>\<rparr>"

text \<open>
  The loops over the maps of servers, by increasing port. A server whose socket cannot be made throws:
  the answer is the text of that exception, and the servers behind it are not made.
\<close>

definition put_tcp :: "int \<Rightarrow> cTCPServer \<Rightarrow> cCore \<Rightarrow> cCore" where
  "put_tcp p s c = c\<lparr>m_TCPServers := smap_put p (Some s) (m_TCPServers c)\<rparr>"

definition put_udp :: "int \<Rightarrow> cUDPServer \<Rightarrow> cCore \<Rightarrow> cCore" where
  "put_udp p s c = c\<lparr>m_UDPServers := smap_put p (Some s) (m_UDPServers c)\<rparr>"

definition name_tcp :: "bool \<Rightarrow> int \<Rightarrow> cCore \<Rightarrow> cCore" where
  "name_tcp first p c =
     (let c = (if first then c\<lparr>m_TCPPort := int_text p\<rparr> else c)
      in c\<lparr>m_TCPServerList := m_TCPServerList c @ int_text p @ '' ''\<rparr>)"

definition name_udp :: "bool \<Rightarrow> int \<Rightarrow> cCore \<Rightarrow> cCore" where
  "name_udp first p c =
     (let c = (if first then c\<lparr>m_UDPPort := int_text p\<rparr> else c)
      in c\<lparr>m_UDPServerList := m_UDPServerList c @ int_text p @ '' ''\<rparr>)"

fun start_tcp :: "start_env \<Rightarrow> bool \<Rightarrow> int list \<Rightarrow> cCore \<Rightarrow> (string option \<times> cCore) result" where
  "start_tcp env first [] c = Inr (None, c)"
| "start_tcp env first (p # ps) c =
     (let s = new_cTCPServer (m_server_listen_addr c) p
      in case TCP_Start (se_now env) (se_tcp env p) s of
           Inl (Thrown e) \<Rightarrow> Inr (Some e, put_tcp p s c)
         | Inl f \<Rightarrow> Inl f
         | Inr (_, s) \<Rightarrow> start_tcp env False ps (name_tcp first p (put_tcp p s c)))"

fun start_udp :: "start_env \<Rightarrow> bool \<Rightarrow> int list \<Rightarrow> cCore \<Rightarrow> cCore" where
  "start_udp env first [] c = c"
| "start_udp env first (p # ps) c =
     (let (_, s) = UDP_Start (se_udp env p) (new_cUDPServer (m_server_listen_addr c) p)
      in start_udp env False ps (name_udp first p (put_udp p s c)))"

text \<open>The size of the cache is computed with 32 bits.\<close>

definition init_cache :: "cCore \<Rightarrow> cCore" where
  "init_cache c =
     (let fileCacheSize = sint (of_int (atoi (m_server_max_cache_size c) * 1024) :: 32 word)
      in c\<lparr>co_FileCache := SetCacheMaxSize (co_FileCache c) fileCacheSize\<rparr>)"

definition init_info :: "cCore \<Rightarrow> cCore" where
  "init_info c =
     (let c = set_info ''server.directory'' (m_ServerWorkingDirectory c) c;
          c = set_info ''server.name'' (co_ServerName c) c;
          c = set_info ''server.module.name'' (m_ModuleName c) c;
          c = set_info ''server.ip'' (m_server_primary_addr c) c;
          c = set_info ''server.mac.addr'' (m_MACAddress c) c
      in set_info ''server.version'' APP_VERSION c)"

text \<open>The web server and its registration, which decorates it; a handler has the index of its decorator.\<close>

definition register_handler :: "string \<Rightarrow> cMsgQueue \<Rightarrow> cMsgQueue result" where
  "register_handler pCommand q =
     rbind (RegisterCommandHandler (m_pCommandHandlerFactory q) pCommand (length (m_Decorators q))) (\<lambda>f.
     Inr (q\<lparr>m_Decorators := m_Decorators q @ [new_cCommandHandlerDecorator], m_pCommandHandlerFactory := f\<rparr>))"

definition init_web :: "cCore \<Rightarrow> cCore result" where
  "init_web c =
     (let c = c\<lparr>m_pWebServer := Some (new_cWebServer (m_VirtualDirectoryMap c) (atoi (m_MaxWebServerThreads c)))\<rparr>
      in rbind (register_handler ''MCWS'' (m_pMsgQueue c)) (\<lambda>q.
         let c = c\<lparr>m_pMsgQueue := q\<rparr>
         in case GetCommandHandler (m_pCommandHandlerFactory (m_pMsgQueue c)) ''MCWS'' of
              None \<Rightarrow> Inl NullPointer
            | Some _ \<Rightarrow> Inr c))"

text \<open>
  The statements of the \<open>try\<close> block of \<open>Init\<close>. The first part of the answer is the text of the \<open>THROW\<close>
  that ended them.
\<close>

definition Init_try :: "start_env \<Rightarrow> cCore \<Rightarrow> (string option \<times> cCore) result option" where
  "Init_try env c =
     pbind (Some (init_identity env c)) (\<lambda>c.
     pbind (LoadConfig (se_gethostname env) (se_pid env) (se_config env) c) (\<lambda>c.
     pbind (Some (start_tcp env True (map fst (m_TCPServers c)) (init_queue (c\<lparr>m_TCPServerList := []\<rparr>)))) (\<lambda>(ex, c).
     case ex of
       Some e \<Rightarrow> Some (Inr (Some e, c))
     | None \<Rightarrow>
         let c = start_udp env True (map fst (m_UDPServers c)) (c\<lparr>m_UDPServerList := []\<rparr>);
             c = init_info (init_cache c)
         in pbind (Some (init_web c)) (\<lambda>c. DoPostProcesses (se_config_again env) c))))"

text \<open>A start either leaves a core, or the process has ended with the code that comes first.\<close>

type_synonym 'a or_ended = "int + 'a"

definition Init :: "start_env \<Rightarrow> cCore \<Rightarrow> cCore or_ended result option" where
  "Init env c =
     pbind (Init_try env c) (\<lambda>(ex, c). Some (Inr (case ex of Some _ \<Rightarrow> Inl 99 | None \<Rightarrow> Inr c)))"

section \<open>\<open>Deinit\<close>\<close>

text \<open>
  Every server is stopped and deleted, whether or not its thread still runs; the answer lists the
  sockets that the calls of \<open>Stop\<close> have closed.
\<close>

fun stop_tcp :: "(int \<times> cTCPServer option) list \<Rightarrow> int list result" where
  "stop_tcp [] = Inr []"
| "stop_tcp ((p, s) # r) =
     (case s of
        None \<Rightarrow> Inl NullPointer
      | Some s \<Rightarrow> rbind (TCP_Stop s) (\<lambda>(_, s). rbind (stop_tcp r) (\<lambda>l. Inr (tcp_closed s @ l))))"

fun stop_udp :: "(int \<times> cUDPServer option) list \<Rightarrow> int list result" where
  "stop_udp [] = Inr []"
| "stop_udp ((p, s) # r) =
     (case s of
        None \<Rightarrow> Inl NullPointer
      | Some s \<Rightarrow> rbind (UDP_Stop s) (\<lambda>(_, s). rbind (stop_udp r) (\<lambda>l. Inr (udp_closed s @ l))))"

definition Deinit :: "cCore \<Rightarrow> (int list \<times> cCore) result" where
  "Deinit c =
     rbind (stop_tcp (m_TCPServers c)) (\<lambda>l.
     let c = c\<lparr>m_TCPServers := []\<rparr> in
     rbind (stop_udp (m_UDPServers c)) (\<lambda>k.
     Inr (l @ k, c\<lparr>m_UDPServers := []\<rparr>)))"

section \<open>The instance\<close>

text \<open>
  \<open>MC_NEW\<close>: an exception of any class that leaves a constructor becomes a \<open>THROW\<close> for memory that cannot
  be allocated, which ends the process.
\<close>

definition MC_NEW :: "'a result \<Rightarrow> 'a or_ended result" where
  "MC_NEW r =
     (case r of
        Inl (Thrown _) \<Rightarrow> Inr (Inl 99)
      | Inl AssertFailed \<Rightarrow> Inr (Inl 99)
      | Inl f \<Rightarrow> Inl f
      | Inr x \<Rightarrow> Inr (Inr x))"

text \<open>The instance is there before \<open>Init\<close> runs.\<close>

definition Core_Create :: "start_env \<Rightarrow> string \<Rightarrow> cCore option \<Rightarrow> cCore or_ended result option" where
  "Core_Create env pszModuleName m_pInstance =
     (case m_pInstance of
        Some c \<Rightarrow> Some (Inr (Inr c))
      | None \<Rightarrow>
          pbind (Some (MC_NEW (new_cCore env pszModuleName))) (\<lambda>n.
          case n of Inl rc \<Rightarrow> Some (Inr (Inl rc)) | Inr c \<Rightarrow> Init env c))"

definition Core_Destroy :: "cCore option \<Rightarrow> (int list \<times> cCore option) result" where
  "Core_Destroy m_pInstance =
     (case m_pInstance of
        None \<Rightarrow> Inr ([], None)
      | Some c \<Rightarrow> rbind (Deinit c) (\<lambda>(l, _). Inr (l, None)))"

section \<open>Starting and stopping\<close>

text \<open>The servers after a start without an exception.\<close>

definition tcp_started :: "start_env \<Rightarrow> string \<Rightarrow> int \<Rightarrow> cTCPServer" where
  "tcp_started env addr p =
     (case TCP_Start (se_now env) (se_tcp env p) (new_cTCPServer addr p) of
        Inr (_, s) \<Rightarrow> s | Inl _ \<Rightarrow> new_cTCPServer addr p)"

definition udp_started :: "start_env \<Rightarrow> string \<Rightarrow> int \<Rightarrow> cUDPServer" where
  "udp_started env addr p = snd (UDP_Start (se_udp env p) (new_cUDPServer addr p))"

definition port_list :: "int list \<Rightarrow> string" where
  "port_list ps = concat (map (\<lambda>p. int_text p @ '' '') ps)"

lemma TCP_Start_socket:
  "sa_socket (se_tcp env p) \<noteq> -1 \<Longrightarrow>
     \<exists>r. TCP_Start (se_now env) (se_tcp env p) (new_cTCPServer addr p) = Inr (r, tcp_started env addr p)"
  by (simp add: tcp_started_def TCP_Start_def Let_def split: prod.split)

lemma start_tcp_ok:
  assumes "\<forall>p \<in> set ps. sa_socket (se_tcp env p) \<noteq> -1"
  shows "start_tcp env first ps c = Inr (None, c\<lparr>
    m_TCPServers := fold (\<lambda>p. smap_put p (Some (tcp_started env (m_server_listen_addr c) p))) ps (m_TCPServers c),
    m_TCPPort := (if first \<and> ps \<noteq> [] then int_text (hd ps) else m_TCPPort c),
    m_TCPServerList := m_TCPServerList c @ port_list ps\<rparr>)"
  using assms
proof (induction ps arbitrary: first c)
  case Nil
  then show ?case by (simp add: port_list_def)
next
  case (Cons p ps)
  have ps: "\<forall>p \<in> set ps. sa_socket (se_tcp env p) \<noteq> -1" using Cons.prems by simp
  show ?case
    using Cons.prems TCP_Start_socket [of env p "m_server_listen_addr c"] Cons.IH [OF ps, of False]
    by (auto simp: name_tcp_def put_tcp_def port_list_def Let_def)
qed

lemma start_udp_eq:
  "start_udp env first ps c = c\<lparr>
    m_UDPServers := fold (\<lambda>p. smap_put p (Some (udp_started env (m_server_listen_addr c) p))) ps (m_UDPServers c),
    m_UDPPort := (if first \<and> ps \<noteq> [] then int_text (hd ps) else m_UDPPort c),
    m_UDPServerList := m_UDPServerList c @ port_list ps\<rparr>"
proof (induction ps arbitrary: first c)
  case Nil
  then show ?case by (simp add: port_list_def)
next
  case (Cons p ps)
  have "start_udp env first (p # ps) c =
      start_udp env False ps (name_udp first p (put_udp p (udp_started env (m_server_listen_addr c) p) c))"
    by (simp add: udp_started_def case_prod_unfold Let_def)
  also have "\<dots> = c\<lparr>
      m_UDPServers := fold (\<lambda>p. smap_put p (Some (udp_started env (m_server_listen_addr c) p))) (p # ps) (m_UDPServers c),
      m_UDPPort := (if first \<and> p # ps \<noteq> [] then int_text (hd (p # ps)) else m_UDPPort c),
      m_UDPServerList := m_UDPServerList c @ port_list (p # ps)\<rparr>"
    unfolding Cons.IH by (simp add: name_udp_def put_udp_def port_list_def Let_def)
  finally show ?case .
qed

lemma start_tcp_fails:
  assumes "\<exists>p \<in> set ps. sa_socket (se_tcp env p) = -1"
  shows "\<exists>e c'. start_tcp env first ps c = Inr (Some e, c')"
  using assms
proof (induction ps arbitrary: first c)
  case (Cons p ps)
  show ?case
  proof (cases "sa_socket (se_tcp env p) = -1")
    case True
    then show ?thesis by (simp add: TCP_Start_def Let_def)
  next
    case False
    then have ps: "\<exists>p \<in> set ps. sa_socket (se_tcp env p) = -1" using Cons.prems by auto
    show ?thesis using TCP_Start_socket [OF False, of "m_server_listen_addr c"] Cons.IH [OF ps, of False]
      by (auto simp: Let_def)
  qed
qed simp

text \<open>The registration of a command that has no handler.\<close>

lemma register_found:
  assumes "GetCommandHandler (m_pCommandHandlerFactory q) ''MCWS'' = None"
  shows "\<exists>q'. register_handler ''MCWS'' q = Inr q' \<and> GetCommandHandler (m_pCommandHandlerFactory q') ''MCWS'' \<noteq> None \<and>
    m_pRouterRulesEngine q' = m_pRouterRulesEngine q \<and> m_pConnectionQueue q' = m_pConnectionQueue q"
proof -
  have "command_name ''MCWS'' = ''MCWS''" by (rule command_name_plain) simp
  with get_after_register [of "''MCWS''" "''MCWS''" "m_pCommandHandlerFactory q" "length (m_Decorators q)"] assms
  show ?thesis by (auto simp: register_handler_def)
qed

end
