(* ===== verification/NetInterfaceLaws.thy ===== *)
theory NetInterfaceLaws
  imports NetInterfaces HeaderExtract
begin

text \<open>
  What \<open>GetLinuxNetInterfaces\<close> makes of a listing: each interface is entered when the heading of the
  next one is read, with the hardware address of that next one, and the last interface is not entered.
\<close>

section \<open>A listing\<close>

text \<open>An interface: its name, hardware address, address and broadcast address.\<close>

datatype net_if = If (if_name: string) (if_mac: string) (if_ip: string) (if_bcast: string)

definition if_head :: "net_if \<Rightarrow> string" where
  "if_head i = if_name i @ ''      Link encap:Ethernet  '' @ ''HWaddr '' @ if_mac i @ SP # [SP, LF]"

definition if_addr :: "net_if \<Rightarrow> string" where
  "if_addr i = ''          '' @ ''inet addr:'' @ if_ip i @ SP # SP # ''Bcast:'' @ if_bcast i @ SP # SP # ''Mask:255.255.255.0'' @ [LF]"

definition if_state :: string where
  "if_state = ''          UP BROADCAST RUNNING MULTICAST  MTU:1500  Metric:1'' @ [LF]"

definition if_lines :: "net_if \<Rightarrow> string list" where
  "if_lines i = [if_head i, if_addr i, if_state, [LF]]"

definition listing :: "net_if list \<Rightarrow> string" where
  "listing is = concat (map (\<lambda>i. concat (if_lines i)) is)"

definition field_ok :: "string \<Rightarrow> bool" where
  "field_ok s \<longleftrightarrow> SP \<notin> set s \<and> LF \<notin> set s \<and> NUL \<notin> set s"

definition if_ok :: "net_if \<Rightarrow> bool" where
  "if_ok i \<longleftrightarrow>
     if_name i \<noteq> [] \<and> is_alpha (hd (if_name i)) \<and> CHR ''H'' \<notin> set (if_name i) \<and> CHR ''B'' \<notin> set (if_ip i) \<and>
     field_ok (if_name i) \<and> field_ok (if_mac i) \<and> field_ok (if_ip i) \<and> field_ok (if_bcast i) \<and>
     length (if_name i) \<le> 16 \<and> length (if_mac i) \<le> 17 \<and> length (if_ip i) \<le> 15 \<and> length (if_bcast i) \<le> 15"

section \<open>Lines\<close>

lemma fgets_line:
  assumes "LF \<notin> set s" "length s < n"
  shows "fgets n (s @ LF # r) = (s @ [LF], r)"
  using assms
proof (induction s arbitrary: n)
  case Nil
  then show ?case by (cases n) auto
next
  case (Cons c s)
  then show ?case by (cases n) auto
qed

lemma file_lines_line:
  assumes "LF \<notin> set s" "NUL \<notin> set s" "length s < 79"
  shows "file_lines (s @ LF # r) = (s @ [LF]) # file_lines r"
proof -
  obtain c t where c: "s @ LF # r = c # t" by (cases "s @ LF # r") auto
  have "fgets 79 (c # t) = (s @ [LF], r)" using fgets_line [OF assms(1,3), of r] c by simp
  moreover have "cstr (s @ [LF]) = s @ [LF]" using assms(2) by (intro cstr_id) simp
  ultimately show ?thesis unfolding c by (simp del: fgets.simps)
qed

lemma if_text_lines:
  assumes "if_ok i"
  shows "file_lines (concat (if_lines i) @ r) = if_lines i @ file_lines r"
proof -
  obtain h a where h: "if_head i = h @ [LF]" "LF \<notin> set h" "NUL \<notin> set h" "length h < 79"
    and a: "if_addr i = a @ [LF]" "LF \<notin> set a" "NUL \<notin> set a" "length a < 79"
  proof -
    have "if_head i = (if_name i @ ''      Link encap:Ethernet  '' @ ''HWaddr '' @ if_mac i @ [SP, SP]) @ [LF]"
      "if_addr i = (''          '' @ ''inet addr:'' @ if_ip i @ SP # SP # ''Bcast:'' @ if_bcast i @ SP # SP # ''Mask:255.255.255.0'') @ [LF]"
      by (simp_all add: if_head_def if_addr_def)
    moreover note assms
    ultimately show ?thesis by (intro that) (auto simp: if_ok_def field_ok_def)
  qed
  have s: "file_lines (if_state @ r') = if_state # file_lines r'" for r'
    using file_lines_line [of "''          UP BROADCAST RUNNING MULTICAST  MTU:1500  Metric:1''"]
    by (simp add: if_state_def)
  have n: "file_lines ([LF] @ r') = [LF] # file_lines r'" for r'
    using file_lines_line [of "[]" r'] by simp
  show ?thesis
    using file_lines_line [OF h(2-4)] file_lines_line [OF a(2-4)] s n h(1) a(1)
    by (simp add: if_lines_def)
qed

lemma listing_lines:
  "\<forall>i \<in> set is. if_ok i \<Longrightarrow> file_lines (listing is) = concat (map if_lines is)"
proof (induction "is")
  case (Cons i "is")
  then show ?case using if_text_lines [of i "listing is"] by (simp add: listing_def)
qed (simp add: listing_def)

section \<open>Fields\<close>

lemma ExtractValue_field:
  assumes "c \<notin> set a" "SP \<notin> set v"
  shows "ExtractValue (a @ (c # p) @ v @ SP # b) (c # p) = Inr v"
proof -
  let ?line = "a @ (c # p) @ v @ SP # b"
  have f: "find_sub (c # p) ?line = Some (length a)"
    using find_sub_skip [OF assms(1), of p "(c # p) @ v @ SP # b"]
      find_sub_prefix [OF starts_with_append, of "c # p" "v @ SP # b"] by simp
  have d: "drop (length a + length (c # p)) ?line = v @ SP # b" by simp
  have "find_from [SP] ?line (length a + length (c # p)) = Some (length a + length (c # p) + length v)"
    using find_char_append [OF assms(2), of b] unfolding find_from_def d find_char_def by simp
  then show ?thesis using f d by (simp add: ExtractValue_def Let_def)
qed

lemma head_mac:
  assumes "if_ok i" shows "ExtractValue (if_head i) ''HWaddr '' = Inr (if_mac i)"
proof -
  have "CHR ''H'' \<notin> set (if_name i @ ''      Link encap:Ethernet  '')" "SP \<notin> set (if_mac i)"
    using assms by (auto simp: if_ok_def field_ok_def)
  from ExtractValue_field [OF this, of "''Waddr ''" "[SP, LF]"] show ?thesis by (simp add: if_head_def)
qed

lemma addr_fields:
  assumes "if_ok i"
  shows "ExtractValue (if_addr i) ''inet addr:'' = Inr (if_ip i)" "ExtractValue (if_addr i) ''Bcast:'' = Inr (if_bcast i)"
    "find_sub ''inet addr:'' (if_addr i) \<noteq> None"
proof -
  have s: "SP \<notin> set (if_ip i)" "SP \<notin> set (if_bcast i)" "CHR ''B'' \<notin> set (''          inet addr:'' @ if_ip i @ [SP, SP])"
    "CHR ''i'' \<notin> set ''          ''"
    using assms by (auto simp: if_ok_def field_ok_def)
  show "ExtractValue (if_addr i) ''inet addr:'' = Inr (if_ip i)"
    using ExtractValue_field [OF s(4,1), of "''net addr:''"] by (simp add: if_addr_def)
  show "ExtractValue (if_addr i) ''Bcast:'' = Inr (if_bcast i)"
    using ExtractValue_field [OF s(3,2), of "''cast:''"] by (simp add: if_addr_def)
  show "find_sub ''inet addr:'' (if_addr i) \<noteq> None" by (simp add: if_addr_def)
qed

section \<open>An interface of the listing\<close>

lemma netinfo_loop_append: "netinfo_loop (ls @ ls') st = rbind (netinfo_loop ls st) (netinfo_loop ls')"
  by (induction ls arbitrary: st) (auto simp: rbind_assoc intro!: rbind_cong)

text \<open>What the block of one interface does to the state of the loop.\<close>

definition enter :: "cNetInterfaces \<Rightarrow> netinfo_locals \<Rightarrow> string \<Rightarrow> cNetInterfaces" where
  "enter n l mac =
     (let n = AddInterface n (nl_IP l) (nl_BroadcastIP l) mac
      in if bFirstInterface l then n\<lparr>m_PrimaryIP := nl_IP l, m_PrimaryMac := mac, m_BroadcastIP := nl_BroadcastIP l\<rparr>
         else n)"

definition after_block :: "net_if \<Rightarrow> netinfo_locals \<Rightarrow> netinfo_locals" where
  "after_block i l = l\<lparr>nl_IP := if_ip i, nl_BroadcastIP := if_bcast i, nl_MacAddress := if_mac i,
     bFirstInterface := bFirstInterface l \<and> \<not> bHasEntry l, bInterfaceStatus := True, bHasEntry := True\<rparr>"

lemma block_step:
  assumes "if_ok i"
  shows "netinfo_loop (if_lines i) (n, l) =
    Inr ((if bHasEntry l then enter n l (if_mac i) else n), after_block i l)"
proof -
  have h: "if_head i \<noteq> [] \<and> is_alpha (hd (if_head i))" using assms by (simp add: if_ok_def if_head_def)
  have a: "\<not> (if_addr i \<noteq> [] \<and> is_alpha (hd (if_addr i)))" by (simp add: if_addr_def is_alpha_def)
  have s: "\<not> (if_state \<noteq> [] \<and> is_alpha (hd if_state))" "find_sub ''inet addr:'' if_state = None"
    "find_sub ''UP BROADCAST RUNNING'' if_state \<noteq> None"
    by (simp_all add: if_state_def is_alpha_def)
  have e: "netinfo_line [LF] st = Inr st" for st
    by (cases st) (simp add: netinfo_line_def is_alpha_def)
  have 1: "netinfo_line (if_head i) (n, l) = Inr
      ((if bHasEntry l then enter n l (if_mac i) else n),
       l\<lparr>nl_MacAddress := if_mac i, bFirstInterface := bFirstInterface l \<and> \<not> bHasEntry l\<rparr>)"
    using h head_mac [OF assms] by (simp add: netinfo_line_def enter_def Let_def)
  have 2: "netinfo_line (if_addr i) (n', l') =
      Inr (n', l'\<lparr>nl_IP := if_ip i, nl_BroadcastIP := if_bcast i, bInterfaceStatus := False, bHasEntry := True\<rparr>)" for n' l'
    unfolding netinfo_line_def prod.case if_not_P [OF a] if_P [OF addr_fields(3) [OF assms]]
    by (simp add: addr_fields [OF assms])
  have 3: "netinfo_line if_state (n', l') = Inr (n', l'\<lparr>bInterfaceStatus := True, bHasEntry := True\<rparr>)" for n' l'
    unfolding netinfo_line_def prod.case if_not_P [OF s(1)] s(2) if_P [OF s(3)] by simp
  show ?thesis by (simp add: if_lines_def 1 2 3 e after_block_def)
qed

text \<open>The entries: each address with the hardware address of the interface behind it.\<close>

fun entered :: "net_if list \<Rightarrow> cNetInterfaceEntry list" where
  "entered (i # j # is) =
     \<lparr>ne_IPAddress = if_ip i, ne_BroadcastAddress = if_bcast i, ne_MacAddress = if_mac j\<rparr> # entered (j # is)"
| "entered is = []"

lemma exist_loop_iff: "fst (exist_loop a es i) \<longleftrightarrow> a \<in> ne_BroadcastAddress ` set es"
  by (induction es arbitrary: i) auto

lemma AddInterface_new:
  assumes "b \<notin> ne_BroadcastAddress ` set (m_Interfaces n)"
  shows "m_Interfaces (AddInterface n ip b mac) =
      m_Interfaces n @ [\<lparr>ne_IPAddress = ip, ne_BroadcastAddress = b, ne_MacAddress = mac\<rparr>]"
    "m_BroadcastIP (AddInterface n ip b mac) = m_BroadcastIP n"
    "m_PrimaryIP n \<noteq> ip \<Longrightarrow> m_PrimaryIP n \<noteq> ''127.0.0.1'' \<Longrightarrow>
      m_PrimaryIP (AddInterface n ip b mac) = m_PrimaryIP n \<and> m_PrimaryMac (AddInterface n ip b mac) = m_PrimaryMac n"
  using assms exist_loop_iff [of b "m_Interfaces n" 0]
  by (auto simp: AddInterface_def ExistBroadCastAddress_def Let_def split: prod.splits)

lemma later_blocks:
  assumes "bHasEntry l" "\<not> bFirstInterface l" "\<forall>i \<in> set is. if_ok i"
    and "distinct (map ne_BroadcastAddress (m_Interfaces n) @ nl_BroadcastIP l # map if_bcast is)"
    and "m_PrimaryIP n \<notin> set (nl_IP l # map if_ip is)" "m_PrimaryIP n \<noteq> ''127.0.0.1''"
  shows "\<exists>n' l'. netinfo_loop (concat (map if_lines is)) (n, l) = Inr (n', l') \<and>
    m_Interfaces n' = m_Interfaces n @ entered (If [] (nl_MacAddress l) (nl_IP l) (nl_BroadcastIP l) # is) \<and>
    m_PrimaryIP n' = m_PrimaryIP n \<and> m_PrimaryMac n' = m_PrimaryMac n \<and> m_BroadcastIP n' = m_BroadcastIP n"
  using assms
proof (induction "is" arbitrary: n l)
  case Nil
  then show ?case by simp
next
  case (Cons i "is")
  have ok: "if_ok i" using Cons.prems(3) by simp
  let ?n = "enter n l (if_mac i)" and ?l = "after_block i l"
  have b: "nl_BroadcastIP l \<notin> ne_BroadcastAddress ` set (m_Interfaces n)" using Cons.prems(4) by auto
  note add = AddInterface_new [OF b]
  have n: "m_Interfaces ?n = m_Interfaces n @ [\<lparr>ne_IPAddress = nl_IP l, ne_BroadcastAddress = nl_BroadcastIP l,
        ne_MacAddress = if_mac i\<rparr>]"
    "m_PrimaryIP ?n = m_PrimaryIP n" "m_PrimaryMac ?n = m_PrimaryMac n" "m_BroadcastIP ?n = m_BroadcastIP n"
    using add(1,2) add(3) [of "nl_IP l" "if_mac i"] Cons.prems(2,5,6) by (simp_all add: enter_def Let_def)
  have s: "netinfo_loop (if_lines i) (n, l) = Inr (?n, ?l)" using block_step [OF ok, of n l] Cons.prems(1) by simp
  have "\<exists>n' l'. netinfo_loop (concat (map if_lines is)) (?n, ?l) = Inr (n', l') \<and>
      m_Interfaces n' = m_Interfaces ?n @ entered (If [] (nl_MacAddress ?l) (nl_IP ?l) (nl_BroadcastIP ?l) # is) \<and>
      m_PrimaryIP n' = m_PrimaryIP ?n \<and> m_PrimaryMac n' = m_PrimaryMac ?n \<and> m_BroadcastIP n' = m_BroadcastIP ?n"
    by (rule Cons.IH) (use Cons.prems n in \<open>auto simp: after_block_def\<close>)
  moreover have "entered (If [] m p b # is) = entered (If k m p b # is)" for m p b k by (cases "is") simp_all
  moreover have "entered (If [] (if_mac i) (if_ip i) (if_bcast i) # is) = entered (i # is)"
    by (cases i; cases "is") simp_all
  ultimately show ?case using s n by (simp add: after_block_def netinfo_loop_append)
qed

lemma GetLinuxNetInterfaces_spec:
  assumes "\<forall>i \<in> set (i # is). if_ok i" "m_Interfaces n = []"
    and "distinct (map if_bcast (i # is))" "distinct (map if_ip (i # is))" "''127.0.0.1'' \<notin> set (map if_ip (i # is))"
  shows "\<exists>n'. GetLinuxNetInterfaces (Some (listing (i # is))) n = Inr n' \<and> m_Interfaces n' = entered (i # is) \<and>
    m_PrimaryIP n' = (if is = [] then ''127.0.0.1'' else if_ip i) \<and>
    m_PrimaryMac n' = (if is = [] then ''00:00:00:00:00:00'' else if_mac (hd is)) \<and>
    m_BroadcastIP n' = (if is = [] then ''128.0.0.1'' else if_bcast i)"
proof -
  let ?n = "loopback n" and ?l = "after_block i netinfo_start"
  have g: "GetLinuxNetInterfaces (Some (listing (i # is))) n =
      rbind (netinfo_loop (concat (map if_lines is)) (?n, ?l)) (\<lambda>(n, _). Inr n)"
    using assms(1) block_step [of i ?n netinfo_start] listing_lines [of "i # is"]
    by (simp add: GetLinuxNetInterfaces_def netinfo_start_def netinfo_loop_append)
  show ?thesis
  proof (cases "is")
    case Nil
    then show ?thesis using g assms(2) by (simp add: loopback_def)
  next
    case (Cons j js)
    have ok: "if_ok j" using assms(1) Cons by simp
    let ?n1 = "enter ?n ?l (if_mac j)" and ?l1 = "after_block j ?l"
    have s: "netinfo_loop (if_lines j) (?n, ?l) = Inr (?n1, ?l1)"
      using block_step [OF ok, of ?n ?l] by (simp add: after_block_def)
    have l: "nl_IP ?l = if_ip i" "nl_BroadcastIP ?l = if_bcast i" "bFirstInterface ?l"
      by (simp_all add: after_block_def netinfo_start_def)
    have n1: "m_Interfaces ?n1 = [\<lparr>ne_IPAddress = if_ip i, ne_BroadcastAddress = if_bcast i, ne_MacAddress = if_mac j\<rparr>]"
      "m_PrimaryIP ?n1 = if_ip i" "m_PrimaryMac ?n1 = if_mac j" "m_BroadcastIP ?n1 = if_bcast i"
      using AddInterface_new(1) [of "if_bcast i" ?n "if_ip i" "if_mac j"] assms(2) l
      by (simp_all add: enter_def Let_def loopback_def)
    have "\<exists>n' l'. netinfo_loop (concat (map if_lines js)) (?n1, ?l1) = Inr (n', l') \<and>
        m_Interfaces n' = m_Interfaces ?n1 @ entered (If [] (nl_MacAddress ?l1) (nl_IP ?l1) (nl_BroadcastIP ?l1) # js) \<and>
        m_PrimaryIP n' = m_PrimaryIP ?n1 \<and> m_PrimaryMac n' = m_PrimaryMac ?n1 \<and> m_BroadcastIP n' = m_BroadcastIP ?n1"
      by (rule later_blocks)
        (use assms Cons n1 in \<open>auto simp: after_block_def netinfo_start_def\<close>)
    moreover have "entered (If [] (if_mac j) (if_ip j) (if_bcast j) # js) = entered (j # js)"
      by (cases j; cases js) simp_all
    ultimately show ?thesis using g s n1 Cons by (auto simp: after_block_def netinfo_loop_append)
  qed
qed

text \<open>
  A heading of fewer than six characters, such as the line of the loopback interface without its other
  columns, ends the reading with an exception.
\<close>

lemma short_heading_throws:
  assumes "h \<noteq> []" "is_alpha (hd h)" "find_sub ''HWaddr '' h = None" "length h < 6"
  shows "netinfo_loop (h # ls) st = Inl (Thrown ''basic_string::substr'')"
  using assms by (cases st) (simp add: netinfo_line_def ExtractValue_def)

end
