(* ===== verification/CoreProperties.thy ===== *)
theory CoreProperties
  imports ServerProperties CoreRules CoreInit NetInterfaceLaws
begin

text \<open>
  The start of a node as a whole: from the settings to the servers, the web server and the rules; and
  its stop.
\<close>

section \<open>The maps of servers\<close>

lemma find_fold_put:
  "smap_find (fold (\<lambda>p. smap_put p (g p)) ps m) = (\<lambda>k. if k \<in> set ps then Some (g k) else smap_find m k)"
  by (induction ps arbitrary: m) (auto simp: smap_find_put fun_eq_iff)

lemma inv_fold_put: "smap_inv m \<Longrightarrow> smap_inv (fold (\<lambda>p. smap_put p (g p)) ps m)"
  by (induction ps arbitrary: m) (auto simp: smap_inv_put)

lemma put_own_keys:
  assumes "smap_inv m"
  shows "fold (\<lambda>p. smap_put p (g p)) (map fst m) m = map (\<lambda>(p, _). (p, g p)) m"
proof (rule std.same_lookup_same_entries)
  show "smap_inv (fold (\<lambda>p. smap_put p (g p)) (map fst m) m)" by (rule inv_fold_put [OF assms])
  have "map fst (map (\<lambda>(p, _). (p, g p)) m) = map fst m" by (induction m) auto
  then show "smap_inv (map (\<lambda>(p, _). (p, g p)) m)" using assms by (simp only: smap_inv_def)
  have m: "smap_find (map (\<lambda>(p, _). (p, g p)) m) k = (if k \<in> set (map fst m) then Some (g k) else None)" for k
    by (induction m) (auto simp: smap_find_def)
  have n: "k \<notin> set (map fst m) \<Longrightarrow> smap_find m k = None" for k by (simp add: smap_find_def map_of_eq_None_iff)
  show "smap_find (fold (\<lambda>p. smap_put p (g p)) (map fst m) m) = smap_find (map (\<lambda>(p, _). (p, g p)) m)"
    using n by (auto simp: find_fold_put fun_eq_iff m)
qed

lemma insert_ports_inv: "smap_inv m \<Longrightarrow> smap_inv (insert_ports ps m)"
  unfolding insert_ports_def by (induction ps arbitrary: m) (auto simp: smap_inv_insert)

lemma insert_ports_keys:
  "set (map fst (insert_ports ps m)) = set ps \<union> set (map fst m)"
proof (induction ps arbitrary: m)
  case Nil
  then show ?case by (simp add: insert_ports_def)
next
  case (Cons p ps)
  have "set (map fst (smap_insert p None m)) = insert p (set (map fst m))"
    by (auto simp: smap_insert_def smap_find_def set_fst_smap_put split: option.splits dest: map_of_SomeD
        intro: rev_image_eqI)
  then show ?case using Cons [of "smap_insert p None m"] by (simp add: insert_ports_def)
qed

section \<open>\<open>Init\<close>\<close>

lemma init_identity_spec:
  assumes "read_cstr (se_gethostname env) = Inr host"
  shows "\<exists>c'. init_identity env c = Inr c' \<and> m_TCPServers c' = m_TCPServers c \<and> m_UDPServers c' = m_UDPServers c \<and>
    m_IPAccess c' = m_IPAccess c \<and> m_pRouterRulesEngine (m_pMsgQueue c') = m_pRouterRulesEngine (m_pMsgQueue c) \<and>
    m_VirtualDirectoryMap c' = m_VirtualDirectoryMap c \<and> primary_ip c' = primary_ip c \<and>
    m_bZeroConfig c' = m_bZeroConfig c \<and> m_NetInterfaces c' = (m_NetInterfaces c)\<lparr>ni_ServerName := host\<rparr> \<and>
    m_pCommandHandlerFactory (m_pMsgQueue c') = m_pCommandHandlerFactory (m_pMsgQueue c)"
  using assms
  by (simp add: init_identity_def GetHostName_def Let_def detect_ip_def set_info_def primary_ip_def split: prod.split)

text \<open>The state in which \<open>Init\<close> comes to the rules, when every TCP server has its socket.\<close>

definition node_up :: "start_env \<Rightarrow> cCore \<Rightarrow> cCore \<Rightarrow> bool" where
  "node_up env c c' \<longleftrightarrow>
     m_TCPServers c' = map (\<lambda>(p, _). (p, Some (tcp_started env (m_server_listen_addr c) p))) (m_TCPServers c) \<and>
     m_UDPServers c' = map (\<lambda>(p, _). (p, Some (udp_started env (m_server_listen_addr c) p))) (m_UDPServers c) \<and>
     m_TCPServerList c' = port_list (map fst (m_TCPServers c)) \<and>
     m_UDPServerList c' = port_list (map fst (m_UDPServers c)) \<and>
     m_pWebServer c' = Some (new_cWebServer (m_VirtualDirectoryMap c) (atoi (m_MaxWebServerThreads c))) \<and>
     GetCommandHandler (m_pCommandHandlerFactory (m_pMsgQueue c')) ''MCWS'' \<noteq> None \<and>
     m_iConnectionTimeout (m_pConnectionQueue (m_pMsgQueue c')) = atoi (m_ConnectionTimeout c)"

text \<open>What the rules are made from, and where they go.\<close>

definition same_rules :: "cCore \<Rightarrow> cCore \<Rightarrow> bool" where
  "same_rules c c' \<longleftrightarrow>
     m_IPAccess c' = m_IPAccess c \<and> m_pRouterRulesEngine (m_pMsgQueue c') = m_pRouterRulesEngine (m_pMsgQueue c) \<and>
     m_NetInterfaces c' = m_NetInterfaces c \<and> m_bZeroConfig c' = m_bZeroConfig c"

lemma init_web_spec:
  assumes "m_pCommandHandlerFactory (m_pMsgQueue c) = []"
  shows "\<exists>c'. init_web c = Inr c' \<and> m_pWebServer c' = Some (new_cWebServer (m_VirtualDirectoryMap c) (atoi (m_MaxWebServerThreads c))) \<and>
    GetCommandHandler (m_pCommandHandlerFactory (m_pMsgQueue c')) ''MCWS'' \<noteq> None \<and>
    m_pConnectionQueue (m_pMsgQueue c') = m_pConnectionQueue (m_pMsgQueue c) \<and> same_rules c c' \<and>
    m_TCPServers c' = m_TCPServers c \<and> m_UDPServers c' = m_UDPServers c \<and>
    m_TCPServerList c' = m_TCPServerList c \<and> m_UDPServerList c' = m_UDPServerList c"
proof -
  have "GetCommandHandler (m_pCommandHandlerFactory (m_pMsgQueue c)) ''MCWS'' = None"
    using assms by (simp add: GetCommandHandler_def smap_find_def)
  from register_found [OF this] show ?thesis
    by (auto simp: init_web_def Let_def same_rules_def)
qed

lemma Init_spec:
  assumes i: "init_identity env c = Inr c1"
    and l: "LoadConfig (se_gethostname env) (se_pid env) (se_config env) c1 = Some (Inr c2)"
    and s: "\<forall>p \<in> set (map fst (m_TCPServers c2)). sa_socket (se_tcp env p) \<noteq> -1"
    and f: "m_pCommandHandlerFactory (m_pMsgQueue c2) = []"
    and inv: "smap_inv (m_TCPServers c2)" "smap_inv (m_UDPServers c2)"
  shows "\<exists>c3. Init_try env c = DoPostProcesses (se_config_again env) c3 \<and> node_up env c2 c3 \<and> same_rules c2 c3"
proof -
  let ?t = "\<lambda>p. Some (tcp_started env (m_server_listen_addr c2) p)" and ?u = "\<lambda>p. Some (udp_started env (m_server_listen_addr c2) p)"
  let ?a = "init_queue (c2\<lparr>m_TCPServerList := []\<rparr>)"
  from start_tcp_ok [OF s, of True ?a] obtain c4
    where c4: "start_tcp env True (map fst (m_TCPServers c2)) ?a = Inr (None, c4)"
      "\<exists>n. c4 = ?a\<lparr>m_TCPServers := fold (\<lambda>p. smap_put p (?t p)) (map fst (m_TCPServers c2)) (m_TCPServers c2),
        m_TCPPort := n, m_TCPServerList := port_list (map fst (m_TCPServers c2))\<rparr>"
    by (auto simp: init_queue_def)
  let ?d = "init_info (init_cache (start_udp env True (map fst (m_UDPServers c4)) (c4\<lparr>m_UDPServerList := []\<rparr>)))"
  have d: "m_TCPServers ?d = map (\<lambda>(p, _). (p, ?t p)) (m_TCPServers c2)"
    "m_UDPServers ?d = map (\<lambda>(p, _). (p, ?u p)) (m_UDPServers c2)"
    "m_TCPServerList ?d = port_list (map fst (m_TCPServers c2))" "m_UDPServerList ?d = port_list (map fst (m_UDPServers c2))"
    "m_VirtualDirectoryMap ?d = m_VirtualDirectoryMap c2" "m_MaxWebServerThreads ?d = m_MaxWebServerThreads c2"
    "m_pConnectionQueue (m_pMsgQueue ?d) = new_cConnectionQueue (atoi (m_ConnectionTimeout c2))" "same_rules c2 ?d"
    "m_pCommandHandlerFactory (m_pMsgQueue ?d) = []"
    using f c4(2) put_own_keys [OF inv(1), of ?t] put_own_keys [OF inv(2), of ?u]
    by (auto simp: start_udp_eq init_info_def init_cache_def set_info_def init_queue_def same_rules_def Let_def)
  from init_web_spec [OF d(9)] obtain c3
    where c3: "init_web ?d = Inr c3" "m_pWebServer c3 = Some (new_cWebServer (m_VirtualDirectoryMap ?d) (atoi (m_MaxWebServerThreads ?d)))"
      "GetCommandHandler (m_pCommandHandlerFactory (m_pMsgQueue c3)) ''MCWS'' \<noteq> None"
      "m_pConnectionQueue (m_pMsgQueue c3) = m_pConnectionQueue (m_pMsgQueue ?d)" "same_rules ?d c3"
      "m_TCPServers c3 = m_TCPServers ?d" "m_UDPServers c3 = m_UDPServers ?d"
      "m_TCPServerList c3 = m_TCPServerList ?d" "m_UDPServerList c3 = m_UDPServerList ?d" by blast
  have "Init_try env c = DoPostProcesses (se_config_again env) c3"
    using i l c4(1) c3(1) by (simp add: Init_try_def Let_def)
  moreover have "node_up env c2 c3"
    unfolding node_up_def c3 d by (simp add: new_cConnectionQueue_def c3(3) [unfolded c3 d])
  moreover have "same_rules c2 c3" using d(8) c3(5) by (simp add: same_rules_def)
  ultimately show ?thesis by blast
qed

section \<open>\<open>Deinit\<close>\<close>

lemma started_listens:
  "answers_ok (se_tcp env p) \<Longrightarrow> tcp_listens (se_tcp env p) a p (tcp_started env a p)"
  "answers_ok (se_udp env p) \<Longrightarrow> udp_listens (se_udp env p) a p (udp_started env a p)"
  using TCP_Start_listens [of "se_tcp env p" "se_now env" a p] UDP_Start_listens [of "se_udp env p" a p]
  by (auto simp: tcp_started_def udp_started_def)

lemma stop_tcp_listening:
  assumes "\<forall>(p, s) \<in> set m. answers_ok (se_tcp env p) \<and> (\<exists>t. s = Some t \<and> tcp_listens (se_tcp env p) a p t)"
  shows "stop_tcp m = Inr (map (\<lambda>(p, _). sa_socket (se_tcp env p)) m)"
  using assms
proof (induction m)
  case (Cons e m)
  obtain p t where e: "e = (p, Some t)" "answers_ok (se_tcp env p)" "tcp_listens (se_tcp env p) a p t"
    using Cons.prems by auto
  from TCP_Stop_spec [of t] e(2,3) obtain t' where
    "TCP_Stop t = Inr (HRC_SERVER_OK, t')" "tcp_closed t' = [sa_socket (se_tcp env p)]"
    by (auto simp: tcp_listens_def answers_ok_def)
  then show ?case using Cons e(1) by simp
qed simp

lemma stop_udp_listening:
  assumes "\<forall>(p, s) \<in> set m. answers_ok (se_udp env p) \<and> (\<exists>t. s = Some t \<and> udp_listens (se_udp env p) a p t)"
  shows "stop_udp m = Inr (map (\<lambda>(p, _). sa_socket (se_udp env p)) m)"
  using assms
proof (induction m)
  case (Cons e m)
  obtain p t where e: "e = (p, Some t)" "answers_ok (se_udp env p)" "udp_listens (se_udp env p) a p t"
    using Cons.prems by auto
  from UDP_Stop_spec [of t] e(2,3) obtain t' where
    "UDP_Stop t = Inr (HRC_SERVER_OK, t')" "udp_closed t' = [sa_socket (se_udp env p)]"
    by (auto simp: udp_listens_def answers_ok_def)
  then show ?case using Cons e(1) by simp
qed simp

section \<open>A new core\<close>

lemma new_interfaces_host:
  "new_cNetInterfaces ac info = Inr n \<Longrightarrow> \<exists>host. read_cstr ac = Inr host"
  by (auto simp: new_cNetInterfaces_def GetHostName_def result_simps)

lemma new_cCore_spec:
  assumes "new_cNetInterfaces (se_gethostname env) (se_netinfo env) = Inr n"
  shows "\<exists>c. new_cCore env name = Inr c \<and> m_TCPServers c = [] \<and> m_UDPServers c = [] \<and> m_IPAccess c = [] \<and>
    m_VirtualDirectoryMap c = [] \<and> m_pRouterRulesEngine (m_pMsgQueue c) = new_cMsgRouterRulesEngine \<and> m_bZeroConfig c = False \<and>
    m_NetInterfaces c = n \<and> m_pCommandHandlerFactory (m_pMsgQueue c) = []"
  using assms by (simp add: new_cCore_def new_queue_def)

section \<open>Failure\<close>

text \<open>A socket that cannot be made ends \<open>Init\<close> by a \<open>THROW\<close>.\<close>

lemma Init_fails:
  assumes i: "init_identity env c = Inr c1"
    and l: "LoadConfig (se_gethostname env) (se_pid env) (se_config env) c1 = Some (Inr c2)"
    and f: "\<exists>p \<in> set (map fst (m_TCPServers c2)). sa_socket (se_tcp env p) = -1"
  shows "Init env c = Some (Inr (Inl 99))"
proof -
  from start_tcp_fails [OF f, of True "init_queue (c2\<lparr>m_TCPServerList := []\<rparr>)"] obtain e c'
    where "start_tcp env True (map fst (m_TCPServers c2)) (init_queue (c2\<lparr>m_TCPServerList := []\<rparr>)) = Inr (Some e, c')"
    by blast
  then show ?thesis using i l by (simp add: Init_def Init_try_def)
qed

section \<open>Without a file\<close>

lemma SetDefaults_spec:
  assumes "read_cstr ac = Inr host"
  shows "\<exists>c'. SetDefaults ac c = Inr c' \<and> m_TCPServers c' = insert_ports [13434] (m_TCPServers c) \<and>
    m_UDPServers c' = m_UDPServers c \<and> m_IPAccess c' = m_IPAccess c @ rule_list [(INCLUSION, [-1, -1, -1, -1])] \<and>
    m_bZeroConfig c' \<and> m_server_listen_addr c' = ''0.0.0.0'' \<and> m_MaxWebServerThreads c' = ''16'' \<and>
    m_ConnectionTimeout c' = ''300'' \<and>
    m_pRouterRulesEngine (m_pMsgQueue c') = m_pRouterRulesEngine (m_pMsgQueue (default_routes c)) \<and>
    m_pCommandHandlerFactory (m_pMsgQueue c') = m_pCommandHandlerFactory (m_pMsgQueue c)"
proof -
  have r: "rule_text INCLUSION [-1, -1, -1, -1] = ''+*.*.*.*''"
    by (simp add: rule_text_def octant_text_def)
  have a: "Access_Add l ''+*.*.*.*'' = Inr (HRC_IPACCESS_OK, l @ [\<lparr>ae_type = INCLUSION, octant = [-1, -1, -1, -1]\<rparr>])" for l
    using Add_rule [of "[-1, -1, -1, -1]" l INCLUSION] unfolding r by (simp add: octant_ok_def)
  show ?thesis
    using assms
    by (simp add: SetDefaults_def GetHostName_def Let_def set_info_def detect_ip_def insert_tcp_def default_routes_def
        add_route_def access_rule_def a rule_list_def insert_ports_def)
qed

section \<open>The properties\<close>

text \<open>
  The properties of the core with their witnesses: the settings and rules that a configuration file
  means, the node that is open without one, what a start leaves behind, and the interfaces of the
  machine.
\<close>

section \<open>An example\<close>

definition demo_settings :: document where
  "demo_settings =
     [(Tag ''config'' [] False, []), (Tag ''server_listen_addr'' [] False, ''10.0.0.1''), (Tag ''/server_listen_addr'' [] False, []),
      (Tag ''tcp_servers'' [] False, []), (Tag ''web'' [] False, []),
      (Tag ''port'' [(''addr'', ''80''), (''directory'', ''www'')] True, []), (Tag ''port'' [(''addr'', ''3400'')] True, []),
      (Tag ''/web'' [] False, []), (Tag ''/tcp_servers'' [] False, []), (Tag ''/config'' [] False, [])]"

definition demo_access :: document where
  "demo_access =
     [(Tag ''connections'' [] False, []), (Tag ''allow'' [] False, []), (Tag ''addr'' [] False, ''10.0.0.*''),
      (Tag ''/addr'' [] False, []), (Tag ''/allow'' [] False, []), (Tag ''block'' [] False, []),
      (Tag ''addr'' [] False, ''10.0.0.9''), (Tag ''/addr'' [] False, []), (Tag ''/block'' [] False, []),
      (Tag ''/connections'' [] False, [])]"

definition demo_routes :: document where
  "demo_routes =
     [(Tag ''handlers'' [] False, []), (Tag ''route'' [(''name'', ''web''), (''to'', ''MCWS'')] False, []),
      (Tag ''if'' [(''op'', ''contains''), (''location'', ''status''), (''value'', ''GET'')] True, []),
      (Tag ''/route'' [] False, []), (Tag ''/handlers'' [] False, [])]"

definition demo_bad_routes :: document where
  "demo_bad_routes =
     [(Tag ''handlers'' [] False, []), (Tag ''route'' [(''name'', ''web'')] False, []), (Tag ''/handlers'' [] False, [])]"

lemmas demo_doc_simps = doc_ok_def tag_ok_def text_ok_def attr_ok_def attr_shape_def plain_def quoted_def
  is_dropped_def is_quote_def tag_text_def attrs_text_def attr_text_def quote_def tag_close_def

lemma demo_settings_ok: "doc_ok demo_settings"
  by (simp add: demo_settings_def demo_doc_simps)

lemma demo_access_ok: "doc_ok demo_access"
  by (simp add: demo_access_def demo_doc_simps)

lemma demo_routes_ok: "doc_ok demo_routes"
  by (simp add: demo_routes_def demo_doc_simps)

lemma demo_bad_routes_ok: "doc_ok demo_bad_routes"
  by (simp add: demo_bad_routes_def demo_doc_simps)

lemma demo_settings_text: "\<forall>n \<in> set setting_names. has_text (doc_elems demo_settings) n"
  by code_simp

definition demo_listing :: "net_if list" where
  "demo_listing = [If ''eth0'' ''00:11:22:33:44:55'' ''10.0.0.5'' ''10.0.0.255'', If ''eth1'' ''66:77:88:99:aa:bb'' ''10.1.0.5'' ''10.1.0.255'']"

definition demo_env :: "(int \<Rightarrow> int) \<Rightarrow> document option \<Rightarrow> document option \<Rightarrow> start_env" where
  "demo_env socks doc again =
     \<lparr>se_now = 0, se_gethostname = cmem ''node'', se_netinfo = Some (listing demo_listing), se_uuid = (\<lambda>n. ''id''),
      se_machine_id = ''Linux'', se_cwd = ''/srv'', se_pid = 7, se_config = map_option doc_text doc,
      se_config_again = map_option doc_text again, se_tcp = (\<lambda>p. \<lparr>sa_socket = socks p, sa_bound = True, sa_create = 0, sa_handle = 9\<rparr>),
      se_udp = (\<lambda>p. \<lparr>sa_socket = 4, sa_bound = True, sa_create = 0, sa_handle = 9\<rparr>)\<rparr>"

lemma demo_env_simps [simp]:
  "se_gethostname (demo_env s d a) = cmem ''node''" "se_config (demo_env s d a) = map_option doc_text d"
  "se_config_again (demo_env s d a) = map_option doc_text a"
  "se_tcp (demo_env s d a) p = \<lparr>sa_socket = s p, sa_bound = True, sa_create = 0, sa_handle = 9\<rparr>"
  "se_udp (demo_env s d a) p = \<lparr>sa_socket = 4, sa_bound = True, sa_create = 0, sa_handle = 9\<rparr>" "se_netinfo (demo_env s d a) = Some (listing demo_listing)"
  by (simp_all add: demo_env_def)

lemma demo_host: "read_cstr (se_gethostname (demo_env s d a)) = Inr ''node''"
  by (simp add: cstr_def)

section \<open>The interfaces of the machine\<close>

text \<open>
  of a listing of interfaces, each is entered with its addresses, but with the hardware address of the
  interface behind it, and the last one is not entered; the first one gives the primary addresses. A
  machine with one interface knows none, and keeps the loopback address.
\<close>

theorem interfaces_shifted:
  assumes "\<forall>i \<in> set (i # is). if_ok i" "read_cstr ac = Inr host"
    and "distinct (map if_bcast (i # is))" "distinct (map if_ip (i # is))" "''127.0.0.1'' \<notin> set (map if_ip (i # is))"
  shows "\<exists>n. new_cNetInterfaces ac (Some (listing (i # is))) = Inr n \<and> m_Interfaces n = entered (i # is) \<and>
    m_PrimaryIP n = (if is = [] then ''127.0.0.1'' else if_ip i) \<and>
    m_PrimaryMac n = (if is = [] then ''00:00:00:00:00:00'' else if_mac (hd is)) \<and>
    m_BroadcastIP n = (if is = [] then ''128.0.0.1'' else if_bcast i)"
proof -
  have "m_Interfaces (no_interfaces\<lparr>ni_ServerName := host\<rparr>) = []" by (simp add: no_interfaces_def)
  from GetLinuxNetInterfaces_spec [OF assms(1) this assms(3-5)] show ?thesis
    using assms(2) by (auto simp: new_cNetInterfaces_def GetHostName_def)
qed

lemma interfaces_shifted_witness:
  "\<exists>n. new_cNetInterfaces (cmem ''node'') (Some (listing demo_listing)) = Inr n \<and>
     m_PrimaryIP n = ''10.0.0.5'' \<and> m_PrimaryMac n = ''66:77:88:99:aa:bb'' \<and>
     m_Interfaces n = [\<lparr>ne_IPAddress = ''10.0.0.5'', ne_BroadcastAddress = ''10.0.0.255'', ne_MacAddress = ''66:77:88:99:aa:bb''\<rparr>]"
proof -
  have "\<forall>i \<in> set demo_listing. if_ok i"
    by (simp add: demo_listing_def if_ok_def field_ok_def is_alpha_def)
  then show ?thesis
    using interfaces_shifted [of "hd demo_listing" "tl demo_listing" "cmem ''node''" "''node''"]
    by (auto simp: demo_listing_def cstr_def)
qed

lemma demo_interfaces:
  "\<exists>n. new_cNetInterfaces (se_gethostname (demo_env s d a)) (se_netinfo (demo_env s d a)) = Inr n \<and> m_PrimaryIP n = ''10.0.0.5''"
  using interfaces_shifted_witness by auto

definition demo_core :: cCore where
  "demo_core = (case new_cCore (demo_env (\<lambda>_. 3) None None) ''mc'' of Inr c \<Rightarrow> c | Inl _ \<Rightarrow> undefined)"

lemma demo_core_simps:
  "m_IPAccess demo_core = []" "primary_ip demo_core = ''10.0.0.5''"
  "m_pRouterRulesEngine (m_pMsgQueue demo_core) = new_cMsgRouterRulesEngine"
proof -
  from demo_interfaces [of "\<lambda>_. 3" None None] obtain n
    where n: "new_cNetInterfaces (se_gethostname (demo_env (\<lambda>_. 3) None None)) (se_netinfo (demo_env (\<lambda>_. 3) None None)) = Inr n"
      "m_PrimaryIP n = ''10.0.0.5''" by blast
  from new_cCore_spec [OF n(1), of "''mc''"] obtain c
    where c: "new_cCore (demo_env (\<lambda>_. 3) None None) ''mc'' = Inr c" "m_IPAccess c = []"
      "m_pRouterRulesEngine (m_pMsgQueue c) = new_cMsgRouterRulesEngine" "m_NetInterfaces c = n"
    by blast
  have d: "demo_core = c" using c(1) by (simp add: demo_core_def)
  show "m_IPAccess demo_core = []" "m_pRouterRulesEngine (m_pMsgQueue demo_core) = new_cMsgRouterRulesEngine"
    unfolding d using c(2,3) by simp_all
  show "primary_ip demo_core = ''10.0.0.5''"
    unfolding d primary_ip_def c(4) n(2) by (simp add: cstr_def)
qed

section \<open>Settings\<close>



section \<open>Rules\<close>

text \<open>A file with rules of access, whose lists are \<open>as\<close> and \<open>bs\<close>; and with routes that are complete.\<close>

definition access_in :: "xml_elem list \<Rightarrow> int list list \<Rightarrow> int list list \<Rightarrow> bool" where
  "access_in vs as bs \<longleftrightarrow> first_elem ''connections'' vs \<noteq> None \<and>
     closed ''allow'' (behind ''connections'' vs) \<and> closed ''block'' (left_of ''allow'' (behind ''connections'' vs)) \<and>
     lists_rules (allow_list vs) as \<and> lists_rules (block_list vs) bs"

definition routes_fine :: "xml_elem list \<Rightarrow> bool" where
  "routes_fine vs \<longleftrightarrow> first_elem ''handlers'' vs = None \<or> routes_ok vs"

definition routed :: "xml_elem list \<Rightarrow> cCore \<Rightarrow> cCore" where
  "routed vs c = (if first_elem ''handlers'' vs = None then default_routes c else with_routes (routes_of vs) c)"

lemma handlers_done:
  assumes "routes_fine vs" "x_rep x ps vs"
  shows "\<exists>x'. ProcessHandlers c x = Some (Inr (None, routed vs c, x'))"
  using assms ProcessHandlers_spec [OF assms(2)] ProcessHandlers_default [OF assms(2)]
  by (cases "first_elem ''handlers'' vs") (auto simp: routes_fine_def routed_def)

lemma routed_access: "m_IPAccess (routed vs c) = m_IPAccess c" "m_TCPServers (routed vs c) = m_TCPServers c"
  "m_UDPServers (routed vs c) = m_UDPServers c" "m_TCPServerList (routed vs c) = m_TCPServerList c"
  by (simp_all add: routed_def default_routes_def add_route_def with_routes_def Let_def)

lemma access_rules_loaded:
  assumes "doc_ok doc" "access_in (doc_elems doc) as bs" "routes_fine (doc_elems doc)"
  shows "DoPostProcesses (Some (doc_text doc)) c = Some (Inr (None, routed (doc_elems doc)
    ((config_noted c)\<lparr>m_IPAccess := m_IPAccess c @ rule_list (map (Pair INCLUSION) as @ map (Pair EXCLUSION) bs)\<rparr>)))"
proof (rule DoPostProcesses_spec [OF assms(1)])
  fix x ps assume r: "x_rep x ps (doc_elems doc)"
  show "\<exists>x'. ProcessIPRules (config_noted c) x = Some (Inr ((config_noted c)\<lparr>m_IPAccess := m_IPAccess c @
      rule_list (map (Pair INCLUSION) as @ map (Pair EXCLUSION) bs)\<rparr>, x')) \<and> x_rep x' ps (doc_elems doc)"
    using ProcessIPRules_spec [OF r, of as bs "config_noted c"] assms(2)
    by (simp add: access_in_def config_noted_def set_info_def)
qed (rule handlers_done [OF assms(3)])

lemma local_rules_loaded:
  assumes "doc_ok doc" "first_elem ''connections'' (doc_elems doc) = None" "routes_fine (doc_elems doc)"
    and ip: "primary_ip c = IPAccess.dotted (map octant_text [a, b, d, e])" "\<forall>x \<in> {a, b, d, e}. octant_ok x"
  shows "DoPostProcesses (Some (doc_text doc)) c = Some (Inr (None, routed (doc_elems doc)
    ((config_noted c)\<lparr>m_ServerDetectedIP := primary_ip c, m_server_primary_addr := primary_ip c,
       m_IPAccess := m_IPAccess c @ rule_list [(INCLUSION, [a, b, d, -1])]\<rparr>)))"
proof (rule DoPostProcesses_spec [OF assms(1)])
  fix x ps assume r: "x_rep x ps (doc_elems doc)"
  have "primary_ip (config_noted c) = IPAccess.dotted (map octant_text [a, b, d, e])"
    using ip(1) by (simp add: primary_ip_def config_noted_def set_info_def)
  from ProcessIPRules_subnet [OF r assms(2) this ip(2)]
  show "\<exists>x'. ProcessIPRules (config_noted c) x = Some (Inr ((config_noted c)\<lparr>m_ServerDetectedIP := primary_ip c,
      m_server_primary_addr := primary_ip c, m_IPAccess := m_IPAccess c @ rule_list [(INCLUSION, [a, b, d, -1])]\<rparr>, x')) \<and>
      x_rep x' ps (doc_elems doc)"
    by (simp add: primary_ip_def config_noted_def set_info_def)
qed (rule handlers_done [OF assms(3)])

text \<open>
  C6: with the rules of access of a file, a TCP server of the node hands over, up to the exception that its
  \<open>Run\<close> ends with, exactly the connections of the peers that a rule of \<open>allow\<close> fits, in order, and closes
  the others; the rules of \<open>block\<close> come behind all of these in the list and never decide anything.
\<close>

theorem blocks_ignored:
  assumes "doc_ok doc" "access_in (doc_elems doc) as bs" "routes_fine (doc_elems doc)" "m_IPAccess c = []"
    and "metrics_inv now (m_pSysMetrics q)" "prequeue_inv (m_pConnectionQueue q)"
    and "0 < tcp_ServerSocketfd s" "tcp_ServerSocketfd s < FD_SETSIZE"
  shows "\<exists>c' s' q'. DoPostProcesses (Some (doc_text doc)) c = Some (Inr (None, c')) \<and>
    TCP_Run (m_IPAccess c') anss s q = Inr (''exit'', s', q') \<and>
    waiting (m_pConnectionQueue q') = waiting (m_pConnectionQueue q) @
      map (\<lambda>(fd, addr). (fd, addr, tcp_iPort s))
        (filter (\<lambda>p. \<exists>r \<in> set as. octants_fit r (octants_of (fst (snd p)))) (tcp_peers anss)) \<and>
    tcp_closed s' = tcp_closed s @ map fst
      (filter (\<lambda>p. \<not> (\<exists>r \<in> set as. octants_fit r (octants_of (fst (snd p))))) (tcp_peers anss))"
proof -
  let ?rules = "map (Pair INCLUSION) as @ map (Pair EXCLUSION) bs"
  have l: "lets_in ?rules = (\<lambda>p. \<exists>r \<in> set as. octants_fit r (octants_of (fst (snd p))))"
    by (rule ext) (simp only: lets_in_def admitted_allow_first)
  have "server_ok s" using assms(7,8) by (simp add: server_ok_def)
  from TCP_Run_spec [OF assms(5,6) this, of ?rules anss] obtain s' q'
    where q: "TCP_Run (rule_list ?rules) anss s q = Inr (''exit'', s', q')"
      "waiting (m_pConnectionQueue q') = waiting (m_pConnectionQueue q) @
        map (\<lambda>(fd, addr). (fd, addr, tcp_iPort s)) (filter (lets_in ?rules) (tcp_peers anss))"
      "tcp_closed s' = tcp_closed s @ map fst (filter (\<lambda>p. \<not> lets_in ?rules p) (tcp_peers anss))"
    by (fastforce simp: served_peers_def)
  show ?thesis
    using access_rules_loaded [OF assms(1-3), of c] assms(4) q unfolding l by (auto simp: routed_access)
qed

lemma demo_access_in: "access_in (doc_elems demo_access) [[10, 0, 0, -1]] [[10, 0, 0, 9]]"
  by code_simp

lemma demo_access_routes: "routes_fine (doc_elems demo_access)"
  by code_simp

lemma blocks_ignored_witness:
  "\<exists>c' s' q'. DoPostProcesses (Some (doc_text demo_access)) demo_core = Some (Inr (None, c')) \<and>
     TCP_Run (m_IPAccess c') [accept_turn 7 (0x0A000009, 5000), accept_turn 8 (0x0B000001, 5000)] demo_tcp demo_idle = Inr (''exit'', s', q') \<and>
     waiting (m_pConnectionQueue q') = [(7, (0x0A000009, 5000), 3400)]"
proof -
  let ?anss = "[accept_turn 7 (0x0A000009, 5000), accept_turn 8 (0x0B000001, 5000)]"
  have q: "waiting (m_pConnectionQueue demo_idle) = []" "prequeue_inv (m_pConnectionQueue demo_idle)"
    by (simp_all add: waiting_def prequeue_inv_def demo_line_def demo_queue_def set_outbound_def set_cache_def
        new_cConnectionQueue_def)
  have s: "0 < tcp_ServerSocketfd demo_tcp" "tcp_ServerSocketfd demo_tcp < FD_SETSIZE" "tcp_iPort demo_tcp = 3400"
    by (simp_all add: demo_tcp_def new_cTCPServer_def TCP_ResetErrorFlags_def FD_SETSIZE_def)
  have p: "tcp_peers ?anss = [(7, (0x0A000009, 5000)), (8, (0x0B000001, 5000))]"
    by (simp add: tcp_peers_def tcp_peer_def tcp_stops_def accept_turn_def)
  have f: "octants_fit [10, 0, 0, -1] (octants_of 0x0A000009)" "\<not> octants_fit [10, 0, 0, -1] (octants_of 0x0B000001)"
    by code_simp+
  from blocks_ignored [OF demo_access_ok demo_access_in demo_access_routes demo_core_simps(1) demo_idle_ok(3) q(2) s(1,2), of ?anss]
  show ?thesis unfolding q(1) p s(3) using f by (simp del: TCP_Run.simps) blast
qed

text \<open>
  a file without rules of access lets in the addresses that share their first three octets with the
  primary address of the node, and no others.
\<close>

theorem local_network_only:
  assumes "doc_ok doc" "first_elem ''connections'' (doc_elems doc) = None" "routes_fine (doc_elems doc)" "m_IPAccess c = []"
    and "primary_ip c = IPAccess.dotted (map octant_text (octants_of ip))"
  shows "\<exists>c'. DoPostProcesses (Some (doc_text doc)) c = Some (Inr (None, c')) \<and>
    (\<forall>w. Access_Validate (m_IPAccess c') (inet_ntoa w) =
      Inr (if take 3 (octants_of w) = take 3 (octants_of ip) then HRC_IPACCESS_OK else HRC_IPACCESS_DENY))"
proof -
  obtain a b d e where o: "octants_of ip = [a, b, d, e]" by (simp add: octants_of_def)
  have ok: "\<forall>x \<in> {a, b, d, e}. octant_ok x" using octants_of_ok(2) [of ip] o by simp
  have nn: "a \<noteq> -1" "b \<noteq> -1" "d \<noteq> -1"
  proof -
    have "0 \<le> x" if "x \<in> set (octants_of ip)" for x using that by (auto simp: octants_of_def)
    then show "a \<noteq> -1" "b \<noteq> -1" "d \<noteq> -1" unfolding o by force+
  qed
  have "Access_Validate (rule_list [(INCLUSION, [a, b, d, -1])]) (inet_ntoa w) =
      Inr (if take 3 (octants_of w) = take 3 (octants_of ip) then HRC_IPACCESS_OK else HRC_IPACCESS_DENY)" for w
  proof -
    obtain p q r t where w: "octants_of w = [p, q, r, t]" by (simp add: octants_of_def)
    have "admitted [(INCLUSION, [a, b, d, -1])] [p, q, r, t] \<longleftrightarrow> [p, q, r] = [a, b, d]"
      using nn by (auto simp: admitted_def octants_fit_def)
    then show ?thesis
      using Validate_admitted [OF octants_of_ok(1,2), of "[(INCLUSION, [a, b, d, -1])]" w]
      unfolding inet_ntoa_octants w o by (simp add: eval_nat_numeral)
  qed
  then show ?thesis
    using local_rules_loaded [OF assms(1-3), of c a b d e] assms(4,5) ok o by (auto simp: routed_access)
qed

lemma local_network_only_witness:
  "\<exists>c'. DoPostProcesses (Some (doc_text demo_routes)) demo_core = Some (Inr (None, c')) \<and>
     Access_Validate (m_IPAccess c') (inet_ntoa 0x0A000063) = Inr HRC_IPACCESS_OK \<and>
     Access_Validate (m_IPAccess c') (inet_ntoa 0x0A000163) = Inr HRC_IPACCESS_DENY"
proof -
  have h: "first_elem ''connections'' (doc_elems demo_routes) = None" "routes_fine (doc_elems demo_routes)"
    by code_simp+
  have i: "primary_ip demo_core = IPAccess.dotted (map octant_text (octants_of 0x0A000005))"
    unfolding demo_core_simps by code_simp
  have o: "take 3 (octants_of 0x0A000063) = take 3 (octants_of 0x0A000005)"
    "take 3 (octants_of 0x0A000163) \<noteq> take 3 (octants_of 0x0A000005)" by code_simp+
  from local_network_only [OF demo_routes_ok h demo_core_simps(1) i] obtain c'
    where c': "DoPostProcesses (Some (doc_text demo_routes)) demo_core = Some (Inr (None, c'))"
      "\<forall>w. Access_Validate (m_IPAccess c') (inet_ntoa w) =
        Inr (if take 3 (octants_of w) = take 3 (octants_of 0x0A000005) then HRC_IPACCESS_OK else HRC_IPACCESS_DENY)" by blast
  show ?thesis using c' o by auto
qed


lemma demo_node_doc: "doc_ok (demo_access @ demo_routes)"
  using demo_access_ok demo_routes_ok by (auto simp: doc_ok_def)

lemma demo_node_access: "access_in (doc_elems (demo_access @ demo_routes)) [[10, 0, 0, -1]] [[10, 0, 0, 9]]"
  by code_simp


text \<open>
  a route without a name or without a goal is a \<open>THROW\<close>, which ends the process of the node; the rules of
  access have been made by then, but none that routes.
\<close>

theorem incomplete_route:
  assumes "doc_ok doc" "access_in (doc_elems doc) as bs" "first_elem ''handlers'' (doc_elems doc) \<noteq> None"
    and "tagged ''route'' (until ''/handlers'' (behind ''handlers'' (doc_elems doc))) = v # ws"
    and "attr v ''name'' = [] \<or> attr v ''to'' = []"
  shows "\<exists>c'. DoPostProcesses (Some (doc_text doc)) c =
      Some (Inr (Some ''route rule is missing 'name' or 'to' field.'', c')) \<and>
    m_IPAccess c' = m_IPAccess c @ rule_list (map (Pair INCLUSION) as @ map (Pair EXCLUSION) bs) \<and>
    m_pRouterRulesEngine (m_pMsgQueue c') = m_pRouterRulesEngine (m_pMsgQueue c)"
proof -
  let ?c = "(config_noted c)\<lparr>m_IPAccess := m_IPAccess c @ rule_list (map (Pair INCLUSION) as @ map (Pair EXCLUSION) bs)\<rparr>"
  have "DoPostProcesses (Some (doc_text doc)) c = Some (Inr (Some ''route rule is missing 'name' or 'to' field.'', ?c))"
  proof (rule DoPostProcesses_spec [OF assms(1)])
    fix x ps assume r: "x_rep x ps (doc_elems doc)"
    show "\<exists>x'. ProcessIPRules (config_noted c) x = Some (Inr (?c, x')) \<and> x_rep x' ps (doc_elems doc)"
      using ProcessIPRules_spec [OF r, of as bs "config_noted c"] assms(2)
      by (simp add: access_in_def config_noted_def set_info_def)
    show "\<exists>x'. ProcessHandlers ?c x = Some (Inr (Some ''route rule is missing 'name' or 'to' field.'', ?c, x'))"
      by (rule ProcessHandlers_incomplete [OF r assms(3-5)])
  qed
  then show ?thesis by (simp add: config_noted_def set_info_def)
qed

lemma incomplete_route_witness:
  "\<exists>c'. DoPostProcesses (Some (doc_text (demo_access @ demo_bad_routes))) demo_core =
      Some (Inr (Some ''route rule is missing 'name' or 'to' field.'', c')) \<and>
     m_pRouterRulesEngine (m_pMsgQueue c') = new_cMsgRouterRulesEngine"
proof -
  let ?d = "demo_access @ demo_bad_routes"
  have d: "doc_ok ?d" using demo_access_ok demo_bad_routes_ok by (auto simp: doc_ok_def)
  have a: "access_in (doc_elems ?d) [[10, 0, 0, -1]] [[10, 0, 0, 9]]" "first_elem ''handlers'' (doc_elems ?d) \<noteq> None"
    "tagged ''route'' (until ''/handlers'' (behind ''handlers'' (doc_elems ?d))) =
       [XE (Some ''route'') None [(''name'', ''web'')] None]"
    "attr (XE (Some ''route'') None [(''name'', ''web'')] None) ''to'' = []"
    by code_simp+
  from incomplete_route [OF d a(1-3), of demo_core] a(4) demo_core_simps(3) show ?thesis by auto
qed

end
