(* ===== verification/NodeProperties.thy ===== *)
theory NodeProperties
  imports CoreProperties
begin

text \<open>
  The properties of a node from its start to its stop, with their witnesses.
\<close>

section \<open>A node with a configuration file\<close>

text \<open>The settings of a new core.\<close>

lemma node_configured:
  assumes d: "doc_ok doc" "\<forall>n \<in> set setting_names. has_text (doc_elems doc) n"
    and e: "new_cNetInterfaces (se_gethostname env) (se_netinfo env) = Inr n" "se_config env = Some (doc_text doc)"
  shows "\<exists>c c1 c2. new_cCore env name = Inr c \<and> init_identity env c = Inr c1 \<and>
    LoadConfig (se_gethostname env) (se_pid env) (se_config env) c1 = Some (Inr c2) \<and>
    m_TCPServers c2 = insert_ports (tcp_ports (doc_elems doc)) [] \<and> m_UDPServers c2 = insert_ports (udp_ports (doc_elems doc)) [] \<and>
    m_server_listen_addr c2 = text_or ''server_listen_addr'' ''0.0.0.0'' (doc_elems doc) \<and>
    m_VirtualDirectoryMap c2 = map_directories (directories (doc_elems doc)) [] \<and>
    m_MaxWebServerThreads c2 = text_or ''max_webserver_threads'' ''16'' (doc_elems doc) \<and>
    m_ConnectionTimeout c2 = text_or ''connectiontimeout'' ''30'' (doc_elems doc) \<and>
    m_IPAccess c2 = [] \<and> m_pCommandHandlerFactory (m_pMsgQueue c2) = []"
proof -
  obtain host where h: "read_cstr (se_gethostname env) = Inr host" using new_interfaces_host [OF e(1)] by blast
  from new_cCore_spec [OF e(1), of name] obtain c
    where c: "new_cCore env name = Inr c" "m_TCPServers c = []" "m_UDPServers c = []" "m_IPAccess c = []" "m_VirtualDirectoryMap c = []"
      "m_pCommandHandlerFactory (m_pMsgQueue c) = []"
    by blast
  from init_identity_spec [OF h, of c] obtain c1
    where c1: "init_identity env c = Inr c1" "m_TCPServers c1 = []" "m_UDPServers c1 = []" "m_IPAccess c1 = []"
      "m_VirtualDirectoryMap c1 = []" "m_pCommandHandlerFactory (m_pMsgQueue c1) = []" using c by auto
  have "LoadConfig (se_gethostname env) (se_pid env) (se_config env) c1 =
      Some (Inr (configured (se_pid env) (doc_elems doc) c1))"
    unfolding e(2) by (rule LoadConfig_spec [OF d])
  then show ?thesis using c(1) c1 by (intro exI conjI) (assumption | simp add: configured_def)+
qed

lemma create_new:
  assumes "new_cCore env name = Inr c"
  shows "Core_Create env name None = Init env c"
  using assms by (simp add: Core_Create_def MC_NEW_def)

lemma create_done:
  assumes "new_cCore env name = Inr c" "Init_try env c = Some (Inr (None, c'))"
  shows "Core_Create env name None = Some (Inr (Inr c'))"
  using assms by (simp add: create_new Init_def)

text \<open>What a node is that has come up, over the servers that the answers of the system have left.\<close>

lemma node_comes_up:
  assumes "doc_ok doc" "\<forall>n \<in> set setting_names. has_text (doc_elems doc) n"
    and "access_in (doc_elems doc) as bs" "routes_fine (doc_elems doc)"
    and "new_cNetInterfaces (se_gethostname env) (se_netinfo env) = Inr n"
    and "se_config env = Some (doc_text doc)" "se_config_again env = Some (doc_text doc)"
    and "\<forall>p \<in> set (tcp_ports (doc_elems doc)). sa_socket (se_tcp env p) \<noteq> -1"
  shows "\<exists>c. Core_Create env name None = Some (Inr (Inr c)) \<and>
    set (map fst (m_TCPServers c)) = set (tcp_ports (doc_elems doc)) \<and>
    set (map fst (m_UDPServers c)) = set (udp_ports (doc_elems doc)) \<and>
    (\<forall>(p, s) \<in> set (m_TCPServers c). s = Some (tcp_started env (text_or ''server_listen_addr'' ''0.0.0.0'' (doc_elems doc)) p)) \<and>
    (\<forall>(p, s) \<in> set (m_UDPServers c). s = Some (udp_started env (text_or ''server_listen_addr'' ''0.0.0.0'' (doc_elems doc)) p)) \<and>
    m_TCPServerList c = port_list (map fst (m_TCPServers c)) \<and>
    m_pWebServer c = Some (new_cWebServer (map_directories (directories (doc_elems doc)) [])
      (atoi (text_or ''max_webserver_threads'' ''16'' (doc_elems doc)))) \<and>
    GetCommandHandler (m_pCommandHandlerFactory (m_pMsgQueue c)) ''MCWS'' \<noteq> None \<and>
    m_IPAccess c = rule_list (map (Pair INCLUSION) as @ map (Pair EXCLUSION) bs)"
proof -
  let ?vs = "doc_elems doc"
  from node_configured [OF assms(1,2,5,6), of name] obtain c c1 c2
    where c: "new_cCore env name = Inr c" "init_identity env c = Inr c1"
      "LoadConfig (se_gethostname env) (se_pid env) (se_config env) c1 = Some (Inr c2)"
      "m_TCPServers c2 = insert_ports (tcp_ports ?vs) []" "m_UDPServers c2 = insert_ports (udp_ports ?vs) []"
      "m_server_listen_addr c2 = text_or ''server_listen_addr'' ''0.0.0.0'' ?vs"
      "m_VirtualDirectoryMap c2 = map_directories (directories ?vs) []"
      "m_MaxWebServerThreads c2 = text_or ''max_webserver_threads'' ''16'' ?vs" "m_IPAccess c2 = []"
      "m_pCommandHandlerFactory (m_pMsgQueue c2) = []" by blast
  have k: "set (map fst (m_TCPServers c2)) = set (tcp_ports ?vs)" "set (map fst (m_UDPServers c2)) = set (udp_ports ?vs)"
    unfolding c(4,5) by (simp_all only: insert_ports_keys list.map list.set Un_empty_right)
  have q: "\<forall>p \<in> set (map fst (m_TCPServers c2)). sa_socket (se_tcp env p) \<noteq> -1" using assms(8) unfolding k .
  have v: "smap_inv (m_TCPServers c2)" "smap_inv (m_UDPServers c2)"
    unfolding c(4,5) by (rule insert_ports_inv [OF smap_inv_Nil])+
  from Init_spec [OF c(2,3) q c(10) v] obtain c3
    where c3: "Init_try env c = DoPostProcesses (se_config_again env) c3" "node_up env c2 c3" "same_rules c2 c3" by blast
  let ?c = "routed ?vs ((config_noted c3)\<lparr>m_IPAccess := m_IPAccess c3 @ rule_list (map (Pair INCLUSION) as @ map (Pair EXCLUSION) bs)\<rparr>)"
  have i: "Init_try env c = Some (Inr (None, ?c))"
    unfolding c3(1) assms(7) by (rule access_rules_loaded [OF assms(1,3,4)])
  have r: "m_TCPServers ?c = m_TCPServers c3" "m_UDPServers ?c = m_UDPServers c3" "m_TCPServerList ?c = m_TCPServerList c3"
    "m_pWebServer ?c = m_pWebServer c3" "m_pCommandHandlerFactory (m_pMsgQueue ?c) = m_pCommandHandlerFactory (m_pMsgQueue c3)"
    "m_IPAccess ?c = m_IPAccess c3 @ rule_list (map (Pair INCLUSION) as @ map (Pair EXCLUSION) bs)"
    by (simp_all add: routed_def default_routes_def add_route_def with_routes_def config_noted_def set_info_def Let_def)
  have f: "map fst (map (\<lambda>(p, _). (p, g p)) m) = map fst m" for g :: "int \<Rightarrow> 'z" and m :: "(int \<times> 'z) list"
    by (induction m) auto
  have "set (map fst (m_TCPServers ?c)) = set (tcp_ports ?vs)" "set (map fst (m_UDPServers ?c)) = set (udp_ports ?vs)"
    "m_TCPServerList ?c = port_list (map fst (m_TCPServers ?c))"
    using c3(2) unfolding r node_up_def by (simp_all only: f k)
  moreover have "\<forall>(p, s) \<in> set (m_TCPServers ?c). s = Some (tcp_started env (m_server_listen_addr c2) p)"
    "\<forall>(p, s) \<in> set (m_UDPServers ?c). s = Some (udp_started env (m_server_listen_addr c2) p)"
    using c3(2) unfolding r node_up_def by auto
  moreover have "m_pWebServer ?c = Some (new_cWebServer (m_VirtualDirectoryMap c2) (atoi (m_MaxWebServerThreads c2)))"
    "GetCommandHandler (m_pCommandHandlerFactory (m_pMsgQueue ?c)) ''MCWS'' \<noteq> None"
    using c3(2) unfolding r node_up_def by simp_all
  moreover have "m_IPAccess ?c = rule_list (map (Pair INCLUSION) as @ map (Pair EXCLUSION) bs)"
    using c3(3) c(9) unfolding r by (simp add: same_rules_def)
  ultimately show ?thesis
    using create_done [OF c(1) i] unfolding c(6-8) by (intro exI [of _ ?c]) blast
qed

text \<open>
  C4: a node whose file has settings, rules of access and complete routes, and whose ports can be had, comes
  up: it has a server for each configured port and no other, each listens on its port at the configured
  address with a running thread, the web server with the configured directories is registered for its
  command, and the rules of access are those of the file.
\<close>

theorem node_starts:
  assumes "doc_ok doc" "\<forall>n \<in> set setting_names. has_text (doc_elems doc) n"
    and "access_in (doc_elems doc) as bs" "routes_fine (doc_elems doc)"
    and "new_cNetInterfaces (se_gethostname env) (se_netinfo env) = Inr n"
    and "se_config env = Some (doc_text doc)" "se_config_again env = Some (doc_text doc)"
    and "\<forall>p \<in> set (tcp_ports (doc_elems doc)). answers_ok (se_tcp env p)"
    and "\<forall>p \<in> set (udp_ports (doc_elems doc)). answers_ok (se_udp env p)"
  shows "\<exists>c. Core_Create env name None = Some (Inr (Inr c)) \<and>
    set (map fst (m_TCPServers c)) = set (tcp_ports (doc_elems doc)) \<and>
    set (map fst (m_UDPServers c)) = set (udp_ports (doc_elems doc)) \<and>
    (\<forall>(p, s) \<in> set (m_TCPServers c). \<exists>t. s = Some t \<and>
      tcp_listens (se_tcp env p) (text_or ''server_listen_addr'' ''0.0.0.0'' (doc_elems doc)) p t) \<and>
    (\<forall>(p, s) \<in> set (m_UDPServers c). \<exists>t. s = Some t \<and>
      udp_listens (se_udp env p) (text_or ''server_listen_addr'' ''0.0.0.0'' (doc_elems doc)) p t) \<and>
    m_TCPServerList c = port_list (map fst (m_TCPServers c)) \<and>
    m_pWebServer c = Some (new_cWebServer (map_directories (directories (doc_elems doc)) [])
      (atoi (text_or ''max_webserver_threads'' ''16'' (doc_elems doc)))) \<and>
    GetCommandHandler (m_pCommandHandlerFactory (m_pMsgQueue c)) ''MCWS'' \<noteq> None \<and>
    m_IPAccess c = rule_list (map (Pair INCLUSION) as @ map (Pair EXCLUSION) bs)"
proof -
  have "\<forall>p \<in> set (tcp_ports (doc_elems doc)). sa_socket (se_tcp env p) \<noteq> -1"
    using assms(8) by (auto simp: answers_ok_def)
  from node_comes_up [OF assms(1-7) this, of name] obtain c where c: "Core_Create env name None = Some (Inr (Inr c))"
    "set (map fst (m_TCPServers c)) = set (tcp_ports (doc_elems doc))"
    "set (map fst (m_UDPServers c)) = set (udp_ports (doc_elems doc))"
    "\<forall>(p, s) \<in> set (m_TCPServers c). s = Some (tcp_started env (text_or ''server_listen_addr'' ''0.0.0.0'' (doc_elems doc)) p)"
    "\<forall>(p, s) \<in> set (m_UDPServers c). s = Some (udp_started env (text_or ''server_listen_addr'' ''0.0.0.0'' (doc_elems doc)) p)"
    "m_TCPServerList c = port_list (map fst (m_TCPServers c))"
    "m_pWebServer c = Some (new_cWebServer (map_directories (directories (doc_elems doc)) [])
      (atoi (text_or ''max_webserver_threads'' ''16'' (doc_elems doc))))"
    "GetCommandHandler (m_pCommandHandlerFactory (m_pMsgQueue c)) ''MCWS'' \<noteq> None"
    "m_IPAccess c = rule_list (map (Pair INCLUSION) as @ map (Pair EXCLUSION) bs)" by blast
  have "answers_ok (se_tcp env p)" if "(p, s) \<in> set (m_TCPServers c)" for p s
    using that assms(8) c(2) by (force simp: image_iff set_eq_iff)
  moreover have "answers_ok (se_udp env p)" if "(p, s) \<in> set (m_UDPServers c)" for p s
    using that assms(9) c(3) by (force simp: image_iff set_eq_iff)
  ultimately show ?thesis using c started_listens by (intro exI [of _ c] conjI; (assumption | fastforce))
qed

definition demo_node :: document where
  "demo_node = demo_settings @ demo_access @ demo_routes"

lemma demo_node_ok: "doc_ok demo_node"
  using demo_settings_ok demo_access_ok demo_routes_ok by (auto simp: doc_ok_def demo_node_def)

lemma demo_node_settings: "\<forall>n \<in> set setting_names. has_text (doc_elems demo_node) n"
  by code_simp

lemma demo_node_rules: "access_in (doc_elems demo_node) [[10, 0, 0, -1]] [[10, 0, 0, 9]]" "routes_fine (doc_elems demo_node)"
  by code_simp+

lemma demo_node_ports: "tcp_ports (doc_elems demo_node) = [80, 3400]" "udp_ports (doc_elems demo_node) = [3401]"
  by code_simp+

lemma demo_node_env:
  "se_config (demo_env s (Some demo_node) (Some demo_node)) = Some (doc_text demo_node)"
  "se_config_again (demo_env s (Some demo_node) (Some demo_node)) = Some (doc_text demo_node)"
  "\<forall>p \<in> set (tcp_ports (doc_elems demo_node)). answers_ok (se_tcp (demo_env (\<lambda>_. 3) d e) p)"
  "\<forall>p \<in> set (udp_ports (doc_elems demo_node)). answers_ok (se_udp (demo_env s d e) p)"
  by (simp_all add: answers_ok_def)

lemma node_starts_witness:
  "\<exists>c. Core_Create (demo_env (\<lambda>_. 3) (Some demo_node) (Some demo_node)) ''mc'' None = Some (Inr (Inr c)) \<and>
     set (map fst (m_TCPServers c)) = {80, 3400} \<and> set (map fst (m_UDPServers c)) = {3401} \<and>
     m_IPAccess c = [\<lparr>ae_type = INCLUSION, octant = [10, 0, 0, -1]\<rparr>, \<lparr>ae_type = EXCLUSION, octant = [10, 0, 0, 9]\<rparr>]"
proof -
  obtain n where n: "new_cNetInterfaces (se_gethostname (demo_env (\<lambda>_. 3) (Some demo_node) (Some demo_node)))
      (se_netinfo (demo_env (\<lambda>_. 3) (Some demo_node) (Some demo_node))) = Inr n" using demo_interfaces by blast
  from node_starts [OF demo_node_ok demo_node_settings demo_node_rules n demo_node_env, of "''mc''"]
  show ?thesis unfolding demo_node_ports by (auto simp: rule_list_def)
qed

text \<open>
  stopping a node that came up closes the socket of each of its servers by increasing port, TCP before
  UDP, and the instance is gone. The threads are not waited for, so what is deleted may still be in use,
  and a UDP thread that comes to its end closes its number again.
\<close>

theorem node_stopped:
  assumes "doc_ok doc" "\<forall>n \<in> set setting_names. has_text (doc_elems doc) n"
    and "access_in (doc_elems doc) as bs" "routes_fine (doc_elems doc)"
    and "new_cNetInterfaces (se_gethostname env) (se_netinfo env) = Inr n"
    and "se_config env = Some (doc_text doc)" "se_config_again env = Some (doc_text doc)"
    and "\<forall>p \<in> set (tcp_ports (doc_elems doc)). answers_ok (se_tcp env p)"
    and "\<forall>p \<in> set (udp_ports (doc_elems doc)). answers_ok (se_udp env p)"
  shows "\<exists>c. Core_Create env name None = Some (Inr (Inr c)) \<and>
    Core_Destroy (Some c) =
      Inr (map (\<lambda>(p, _). sa_socket (se_tcp env p)) (m_TCPServers c) @
           map (\<lambda>(p, _). sa_socket (se_udp env p)) (m_UDPServers c), None)"
proof -
  let ?vs = "doc_elems doc" and ?a = "text_or ''server_listen_addr'' ''0.0.0.0'' (doc_elems doc)"
  have "\<forall>p \<in> set (tcp_ports ?vs). sa_socket (se_tcp env p) \<noteq> -1" using assms(8) by (auto simp: answers_ok_def)
  from node_comes_up [OF assms(1-7) this, of name] obtain c
    where c: "Core_Create env name None = Some (Inr (Inr c))"
      "set (map fst (m_TCPServers c)) = set (tcp_ports ?vs)" "set (map fst (m_UDPServers c)) = set (udp_ports ?vs)"
      "\<forall>(p, s) \<in> set (m_TCPServers c). s = Some (tcp_started env ?a p)"
      "\<forall>(p, s) \<in> set (m_UDPServers c). s = Some (udp_started env ?a p)" by blast
  have "answers_ok (se_tcp env p)" if "(p, s) \<in> set (m_TCPServers c)" for p s
    using that assms(8) c(2) by (force simp: image_iff set_eq_iff)
  moreover have "answers_ok (se_udp env p)" if "(p, s) \<in> set (m_UDPServers c)" for p s
    using that assms(9) c(3) by (force simp: image_iff set_eq_iff)
  ultimately have "stop_tcp (m_TCPServers c) = Inr (map (\<lambda>(p, _). sa_socket (se_tcp env p)) (m_TCPServers c))"
    "stop_udp (m_UDPServers c) = Inr (map (\<lambda>(p, _). sa_socket (se_udp env p)) (m_UDPServers c))"
    using c(4,5) started_listens [of env _ ?a]
    by (intro stop_tcp_listening [where a = ?a] stop_udp_listening [where a = ?a]; fastforce)+
  then show ?thesis using c(1) by (auto simp: Core_Destroy_def Deinit_def)
qed

lemma node_stopped_witness:
  "\<exists>c. Core_Create (demo_env (\<lambda>_. 3) (Some demo_node) (Some demo_node)) ''mc'' None = Some (Inr (Inr c)) \<and>
     Core_Destroy (Some c) = Inr (map (\<lambda>_. 3) (m_TCPServers c) @ map (\<lambda>_. 4) (m_UDPServers c), None)"
proof -
  obtain n where n: "new_cNetInterfaces (se_gethostname (demo_env (\<lambda>_. 3) (Some demo_node) (Some demo_node)))
      (se_netinfo (demo_env (\<lambda>_. 3) (Some demo_node) (Some demo_node))) = Inr n" using demo_interfaces by blast
  from node_stopped [OF demo_node_ok demo_node_settings demo_node_rules n demo_node_env, of "''mc''"]
  show ?thesis by (simp add: case_prod_unfold)
qed

section \<open>A start that fails\<close>

text \<open>
  C9: whether a node with such a file starts depends on the sockets of its TCP servers alone: if each of
  them can be made, \<open>Create\<close> leaves a core; if one cannot, the process ends with code 99.
\<close>

theorem start_or_exit:
  assumes "doc_ok doc" "\<forall>n \<in> set setting_names. has_text (doc_elems doc) n"
    and "access_in (doc_elems doc) as bs" "routes_fine (doc_elems doc)"
    and "new_cNetInterfaces (se_gethostname env) (se_netinfo env) = Inr n"
    and "se_config env = Some (doc_text doc)" "se_config_again env = Some (doc_text doc)"
  shows "if \<forall>p \<in> set (tcp_ports (doc_elems doc)). sa_socket (se_tcp env p) \<noteq> -1
    then \<exists>c. Core_Create env name None = Some (Inr (Inr c))
    else Core_Create env name None = Some (Inr (Inl 99))"
proof (cases "\<forall>p \<in> set (tcp_ports (doc_elems doc)). sa_socket (se_tcp env p) \<noteq> -1")
  case True
  from node_comes_up [OF assms True, of name] True show ?thesis by auto
next
  case False
  from node_configured [OF assms(1,2,5,6), of name] obtain c c1 c2
    where c: "new_cCore env name = Inr c" "init_identity env c = Inr c1"
      "LoadConfig (se_gethostname env) (se_pid env) (se_config env) c1 = Some (Inr c2)"
      "m_TCPServers c2 = insert_ports (tcp_ports (doc_elems doc)) []" by blast
  have "set (map fst (m_TCPServers c2)) = set (tcp_ports (doc_elems doc))"
    unfolding c(4) by (simp only: insert_ports_keys list.map list.set Un_empty_right)
  then have "\<exists>p \<in> set (map fst (m_TCPServers c2)). sa_socket (se_tcp env p) = -1" using False by auto
  from Init_fails [OF c(2,3) this] create_new [OF c(1)] False show ?thesis by simp
qed

lemma start_or_exit_witness:
  "Core_Create (demo_env (\<lambda>p. if p = 3400 then -1 else 3) (Some demo_node) (Some demo_node)) ''mc'' None =
     Some (Inr (Inl 99)) \<and>
   (\<exists>c. Core_Create (demo_env (\<lambda>_. 3) (Some demo_node) (Some demo_node)) ''mc'' None = Some (Inr (Inr c)))"
proof -
  let ?e = "\<lambda>f. demo_env f (Some demo_node) (Some demo_node)"
  have "\<exists>n. new_cNetInterfaces (se_gethostname (?e f)) (se_netinfo (?e f)) = Inr n" for f
    using demo_interfaces by blast
  then show ?thesis
    using start_or_exit [OF demo_node_ok demo_node_settings demo_node_rules _ demo_node_env(1,2), of _ _ "''mc''"]
    unfolding demo_node_ports by fastforce
qed

section \<open>A node without a configuration file\<close>

text \<open>
  C10: a node that finds no configuration file comes up all the same, with one TCP server, which listens on
  port 13434 of all addresses, no UDP server and three fixed routes, and lets in every address; the page
  that it serves in this state says that it accepts its own subnet only.
\<close>

theorem open_without_file:
  assumes "new_cNetInterfaces (se_gethostname env) (se_netinfo env) = Inr n"
    and "se_config env = None" "se_config_again env = None" "answers_ok (se_tcp env 13434)"
  shows "\<exists>c t. Core_Create env name None = Some (Inr (Inr c)) \<and> m_bZeroConfig c \<and>
    m_TCPServers c = [(13434, Some t)] \<and> tcp_listens (se_tcp env 13434) ''0.0.0.0'' 13434 t \<and> m_UDPServers c = [] \<and>
    (\<forall>w. Access_Validate (m_IPAccess c) (inet_ntoa w) = Inr HRC_IPACCESS_OK) \<and>
    map m_RuleSetName (m_RuleSets (m_pRouterRulesEngine (m_pMsgQueue c))) = [''MC'', ''HTTP_GET'', ''HTTP_POST'']"
proof -
  obtain host where h: "read_cstr (se_gethostname env) = Inr host" using new_interfaces_host [OF assms(1)] by blast
  from new_cCore_spec [OF assms(1), of name] obtain c
    where c: "new_cCore env name = Inr c" "m_TCPServers c = []" "m_UDPServers c = []" "m_IPAccess c = []"
      "m_pRouterRulesEngine (m_pMsgQueue c) = new_cMsgRouterRulesEngine" "m_pCommandHandlerFactory (m_pMsgQueue c) = []" by blast
  from init_identity_spec [OF h, of c] obtain c1
    where c1: "init_identity env c = Inr c1" "m_TCPServers c1 = []" "m_UDPServers c1 = []" "m_IPAccess c1 = []"
      "m_pRouterRulesEngine (m_pMsgQueue c1) = new_cMsgRouterRulesEngine" "m_pCommandHandlerFactory (m_pMsgQueue c1) = []"
    using c by auto
  let ?c = "set_info ''server.config.filename'' (config_name c1) (set_info ''server.mode'' ''MASTER'' c1)"
  from SetDefaults_spec [OF h, of ?c] obtain c2
    where c2: "SetDefaults (se_gethostname env) ?c = Inr c2" "m_TCPServers c2 = insert_ports [13434] []" "m_UDPServers c2 = []"
      "m_IPAccess c2 = rule_list [(INCLUSION, [-1, -1, -1, -1])]" "m_bZeroConfig c2"
      "m_pRouterRulesEngine (m_pMsgQueue c2) = m_pRouterRulesEngine (m_pMsgQueue (default_routes ?c))"
      "m_server_listen_addr c2 = ''0.0.0.0''" "m_pCommandHandlerFactory (m_pMsgQueue c2) = []"
    using c1 by (auto simp: set_info_def)
  have t: "m_TCPServers c2 = [(13434, None)]" unfolding c2(2) by (simp add: insert_ports_def smap_insert_def smap_find_def)
  have l: "LoadConfig (se_gethostname env) (se_pid env) (se_config env) c1 = Some (Inr c2)"
    using c2(1) assms(2) by (simp add: LoadConfig_def Let_def)
  have v: "\<forall>p \<in> set (map fst (m_TCPServers c2)). sa_socket (se_tcp env p) \<noteq> -1" "smap_inv (m_TCPServers c2)" "smap_inv (m_UDPServers c2)"
    using assms(4) t c2(3) by (simp_all add: smap_inv_def answers_ok_def)
  from Init_spec [OF c1(1) l v(1) c2(8) v(2,3)] obtain c3
    where c3: "Init_try env c = DoPostProcesses (se_config_again env) c3" "node_up env c2 c3" "same_rules c2 c3" by blast
  then have i: "Init_try env c = Some (Inr (None, config_noted c3))"
    using assms(3) by (simp add: DoPostProcesses_def config_noted_def Let_def)
  have r: "m_IPAccess (config_noted c3) = m_IPAccess c3" "m_TCPServers (config_noted c3) = m_TCPServers c3"
    "m_UDPServers (config_noted c3) = m_UDPServers c3" "m_pMsgQueue (config_noted c3) = m_pMsgQueue c3"
    "m_bZeroConfig (config_noted c3) = m_bZeroConfig c3"
    by (simp_all add: config_noted_def set_info_def)
  have n: "map m_RuleSetName (m_RuleSets (m_pRouterRulesEngine (m_pMsgQueue (default_routes ?c)))) = [''MC'', ''HTTP_GET'', ''HTTP_POST'']"
    using c1(5) by (simp add: default_routes_def add_route_def set_info_def RulesEngine_AddRule_def new_cMsgRouterRulesEngine_def
        smap_find_def smap_insert_def RuleSet_AddRule_def Let_def)
  have "Access_Validate (m_IPAccess c3) (inet_ntoa w) = Inr HRC_IPACCESS_OK" for w
  proof -
    obtain p q s v where w: "octants_of w = [p, q, s, v]" by (simp add: octants_of_def)
    have "admitted [(INCLUSION, [-1, -1, -1, -1])] [p, q, s, v]" by (simp add: admitted_def octants_fit_def)
    then show ?thesis
      using Validate_admitted [OF octants_of_ok(1,2), of "[(INCLUSION, [-1, -1, -1, -1])]" w] c3(3) c2(4) w
      by (simp add: inet_ntoa_octants same_rules_def)
  qed
  moreover have "m_TCPServers c3 = [(13434, Some (tcp_started env ''0.0.0.0'' 13434))]" "m_UDPServers c3 = []" "m_bZeroConfig c3"
    "m_pRouterRulesEngine (m_pMsgQueue c3) = m_pRouterRulesEngine (m_pMsgQueue (default_routes ?c))"
    using c3(2,3) t c2(3,5,6,7) by (simp_all add: node_up_def same_rules_def)
  ultimately show ?thesis using create_done [OF c(1) i] n started_listens(1) [OF assms(4)] by (auto simp: r)
qed

lemma open_without_file_witness:
  "\<exists>c t. Core_Create (demo_env (\<lambda>_. 3) None None) ''mc'' None = Some (Inr (Inr c)) \<and>
     m_TCPServers c = [(13434, Some t)] \<and> tcp_ServerSocketfd t = 3 \<and>
     Access_Validate (m_IPAccess c) (inet_ntoa 0xC0A80001) = Inr HRC_IPACCESS_OK"
proof -
  let ?env = "demo_env (\<lambda>_. 3) None None"
  obtain n where n: "new_cNetInterfaces (se_gethostname ?env) (se_netinfo ?env) = Inr n" using demo_interfaces by blast
  have "se_config ?env = None" "se_config_again ?env = None" "answers_ok (se_tcp ?env 13434)"
    by (simp_all add: answers_ok_def)
  from open_without_file [OF n this, of "''mc''"] show ?thesis by (fastforce simp: tcp_listens_def)
qed

text \<open>
  A listing of the network with a heading of fewer than six characters in front of the others ends the
  process when the core is made: the exception of \<open>substr\<close> leaves the handler of \<open>ExtractValue\<close>, and
  \<open>MC_NEW\<close> makes a \<open>THROW\<close> of it.
\<close>

theorem short_heading_exits:
  assumes "read_cstr (se_gethostname env) = Inr host" "se_netinfo env = Some info" "file_lines info = h # ls"
    and "h \<noteq> []" "is_alpha (hd h)" "find_sub ''HWaddr '' h = None" "length h < 6"
  shows "Core_Create env name None = Some (Inr (Inl 99))"
proof -
  have "new_cNetInterfaces (se_gethostname env) (se_netinfo env) = Inl (Thrown ''basic_string::substr'')"
    using short_heading_throws [OF assms(4-7)] assms(1-3)
    by (simp add: new_cNetInterfaces_def GetHostName_def GetLinuxNetInterfaces_def del: netinfo_loop.simps)
  then show ?thesis by (simp add: Core_Create_def new_cCore_def MC_NEW_def)
qed

end
