(* ===== verification/ThreadLaws.thy ===== *)
theory ThreadLaws
  imports Threads
begin

text \<open>
  Facts on \<open>cThread\<close>: the calls without interference, names and deadlines, and the machine: its states
  are well-formed, what a stopped thread does, and which interleavings lose a signal or outlive the
  object.
\<close>

lemmas thread_defs = Thread_Create_def Thread_Exit_def Thread_Resume_def Thread_Start_def
  Thread_Stop_def Thread_Suspend_def Thread_Sleep_def Thread_Shutdown_def new_cThread_def
  THREAD_ACTIVE_def THREAD_INACTIVE_def HRC_THREAD_OK_def HRC_THREAD_CREATEFAILED_def

lemmas code_defs = resume_code_def stop_code_def

section \<open>Calls without interference\<close>

text \<open>The statements of a call, one after the other.\<close>

primrec instr_weight :: "instr \<Rightarrow> nat" where
  "instr_weight Clear_active = 1"
| "instr_weight Resume_if_suspended = 3"
| "instr_weight Clear_suspended = 1"
| "instr_weight Set_suspended = 1"
| "instr_weight Signal = 1"
| "instr_weight (Set_interval ms) = 1"
| "instr_weight Await_done = 1"
| "instr_weight Destroy_objects = 1"

lemma instr_step_weight:
  "instr_step i (t, p) = Some (js, s) \<Longrightarrow> sum_list (map instr_weight js) < instr_weight i"
  by (cases i) (auto simp: code_defs split: if_splits)

function run_instrs :: "instr list \<Rightarrow> cThread \<times> pc \<Rightarrow> (cThread \<times> pc) option" where
  "run_instrs [] s = Some s"
| "run_instrs (i # is) s =
     (case instr_step i s of None \<Rightarrow> None | Some (js, s') \<Rightarrow> run_instrs (js @ is) s')"
  by pat_completeness auto
termination
  by (relation "measure (\<lambda>(is, s). sum_list (map instr_weight is))")
    (auto dest: instr_step_weight)

text \<open>The object after a call is the one the function gives; only \<open>Destroy\<close> of a thread is more.\<close>

primrec called :: "call \<Rightarrow> cThread \<Rightarrow> cThread" where
  "called Call_Start t = Thread_Start t"
| "called Call_Stop t = Thread_Stop t"
| "called Call_Suspend t = Thread_Suspend t"
| "called Call_Resume t = Thread_Resume t"
| "called (Call_Sleep ms) t = Thread_Sleep ms t"
| "called Call_Destroy t = snd (Thread_Shutdown (Thread_Stop t))"

lemma calls_are_their_code: "map_option fst (run_instrs (call_code c) (t, p)) = Some (called c t)"
  by (cases c) (auto simp: code_defs thread_defs Let_def)

section \<open>Names\<close>

lemma read_cstr_text: "NUL \<notin> set s \<Longrightarrow> read_cstr (map Some s @ Some NUL # rest) = Inr s"
  by (induction s) auto

lemma read_cstr_no_end: "NUL \<notin> set s \<Longrightarrow> read_cstr (map Some s) = Inl OutOfBounds"
  by (induction s) auto

lemma strncpy_short:
  "NUL \<notin> set s \<Longrightarrow> length s \<le> n \<Longrightarrow> n = length b \<Longrightarrow>
     strncpy b s n = Inr (map Some s @ replicate (n - length s) (Some NUL))"
  by (auto simp: strncpy_def Let_def mem_store_def cstr_id)

lemma name_end:
  "length s < 80 \<Longrightarrow>
     replicate (80 - length s) (Some NUL) = Some NUL # replicate (79 - length s) (Some NUL)"
  using Suc_diff_Suc [of "length s" 80] by (simp flip: replicate_Suc)

lemma thread_name_kept:
  "NUL \<notin> set s \<Longrightarrow> length s < 80 \<Longrightarrow> length (m_threadname t) = 80 \<Longrightarrow>
     rbind (SetThreadName s t) GetThreadName = Inr s"
  using read_cstr_text [of s "replicate (79 - length s) (Some NUL)"]
  by (simp add: SetThreadName_def strncpy_short GetThreadName_def name_end)

lemma thread_name_unended:
  "NUL \<notin> set s \<Longrightarrow> 80 \<le> length s \<Longrightarrow> length (m_threadname t) = 80 \<Longrightarrow>
     rbind (SetThreadName s t) GetThreadName = Inl OutOfBounds"
  using read_cstr_no_end [of "take 80 s"]
  by (auto simp: SetThreadName_def strncpy_def cstr_id mem_store_def GetThreadName_def Let_def
      dest: in_set_takeD)

section \<open>Deadlines\<close>

text \<open>Nanoseconds from now to the deadline.\<close>

definition sleep_time :: "int \<Rightarrow> int \<Rightarrow> int \<Rightarrow> int" where
  "sleep_time sec usec ms =
     (let (s, n) = sleep_deadline sec usec ms in (s - sec) * 1000000000 + n - usec * 1000)"

lemma sleep_time_short:
  "usec * 1000 + ms * 1000000 < 1000000000 \<Longrightarrow> sleep_time sec usec ms = ms * 1000000"
  by (simp add: sleep_time_def sleep_deadline_def Let_def)

lemma sleep_time_long:
  "1000000000 \<le> usec * 1000 + ms * 1000000 \<Longrightarrow>
     sleep_time sec usec ms = (usec * 1000 + ms * 1000000) div 1000000000 * 1000000000"
  by (simp add: sleep_time_def sleep_deadline_def Let_def)

lemma sleep_time_bounds:
  assumes "0 \<le> usec" "usec < 1000000" "0 \<le> ms"
  shows "snd (sleep_deadline sec usec ms) \<in> {0..<1000000000}"
    and "\<bar>sleep_time sec usec ms - ms * 1000000\<bar> < 1000000000"
proof -
  show "snd (sleep_deadline sec usec ms) \<in> {0..<1000000000}"
    using assms by (auto simp: sleep_deadline_def Let_def)
  show "\<bar>sleep_time sec usec ms - ms * 1000000\<bar> < 1000000000"
  proof (cases "usec * 1000 + ms * 1000000 < 1000000000")
    case True
    then show ?thesis using sleep_time_short [OF True] by simp
  next
    case False
    then have "1000000000 \<le> usec * 1000 + ms * 1000000" by simp
    from sleep_time_long [OF this]
    have "sleep_time sec usec ms =
        usec * 1000 + ms * 1000000 - (usec * 1000 + ms * 1000000) mod 1000000000"
      by (simp add: minus_mod_eq_div_mult)
    moreover have "0 \<le> (usec * 1000 + ms * 1000000) mod 1000000000"
      "(usec * 1000 + ms * 1000000) mod 1000000000 < 1000000000" by simp_all
    ultimately show ?thesis using assms by linarith
  qed
qed

section \<open>The machine\<close>

text \<open>No call of \<open>Destroy\<close>; the thread and its timer alone; what a stopped machine can do at most.\<close>

fun no_destroy :: "event \<Rightarrow> bool" where
  "no_destroy (Call k c) = (c \<noteq> Call_Destroy)"
| "no_destroy (Own_call c) = (c \<noteq> Call_Destroy)"
| "no_destroy e = True"

fun alone :: "event \<Rightarrow> bool" where
  "alone (Thread_step sec usec) = True"
| "alone Deadline = True"
| "alone e = False"

definition any_event :: "event \<Rightarrow> bool" where "any_event e = True"

lemma run_events_append:
  "run_events (es @ es') m = (case run_events es m of None \<Rightarrow> None | Some m \<Rightarrow> run_events es' m)"
  by (induction es arbitrary: m) (auto split: option.splits)

lemma reaches_run:
  "reaches A m m' \<longleftrightarrow> (\<exists>es. list_all A es \<and> run_events es m = Some m')" (is "?l \<longleftrightarrow> ?r")
proof
  assume ?l
  then show ?r
  proof (induction rule: reaches.induct)
    case here
    then show ?case by (intro exI [of _ "[]"]) simp
  next
    case (step m m' e m'')
    then obtain es where "list_all A es" "run_events es m = Some m'" by auto
    with step.hyps show ?case
      by (intro exI [of _ "es @ [e]"]) (simp add: run_events_append)
  qed
next
  assume ?r
  then obtain es where "list_all A es" "run_events es m = Some m'" by auto
  then show ?l
  proof (induction es arbitrary: m' rule: rev_induct)
    case Nil
    then show ?case by (simp add: reaches.here)
  next
    case (snoc e es)
    then show ?case by (auto simp: run_events_append split: option.splits intro: reaches.step)
  qed
qed

subsection \<open>Types\<close>

definition code_typed :: "instr list \<Rightarrow> bool" where
  "code_typed is \<longleftrightarrow> Destroy_objects \<notin> set is"

definition thread_typed :: "cThread \<times> pc \<Rightarrow> bool" where
  "thread_typed s \<longleftrightarrow>
     (let (t, p) = s
      in m_bActive t \<in> {0, 1} \<and> m_bDone t \<in> {0, 1} \<and> (m_bDone t = 1 \<longleftrightarrow> p = Exited) \<and>
         m_sync t = Made \<and> p \<noteq> Faulted)"

definition machine_typed :: "machine \<Rightarrow> bool" where
  "machine_typed m \<longleftrightarrow>
     thread_typed (mc_thread m, mc_pc m) \<and> code_typed (mc_own m) \<and>
     list_all code_typed (mc_callers m) \<and> (mc_own m = [] \<or> mc_pc m = Working)"

lemma thread_step_typed:
  "thread_typed s \<Longrightarrow> thread_step sec usec s = Some s' \<Longrightarrow> thread_typed s'"
  by (cases "(sec, usec, s)" rule: thread_step.cases)
    (auto simp: thread_typed_def Thread_Exit_def split: if_splits)

lemma instr_step_typed:
  "thread_typed s \<Longrightarrow> i \<noteq> Destroy_objects \<Longrightarrow> instr_step i s = Some (js, s') \<Longrightarrow>
     thread_typed s' \<and> code_typed js"
  by (cases "(i, s)" rule: instr_step.cases)
    (auto simp: thread_typed_def code_typed_def code_defs THREAD_INACTIVE_def elim: waits.elims
      split: if_splits)

lemma instr_step_working:
  "thread_typed (t, Working) \<Longrightarrow> i \<noteq> Destroy_objects \<Longrightarrow> instr_step i (t, Working) = Some (js, t', p) \<Longrightarrow>
     p = Working"
  by (cases i) (auto simp: thread_typed_def split: if_splits)

lemma code_typed_append [simp]: "code_typed (is @ js) \<longleftrightarrow> code_typed is \<and> code_typed js"
  by (auto simp: code_typed_def)

lemma code_typed_Cons: "code_typed (i # is) \<longleftrightarrow> i \<noteq> Destroy_objects \<and> code_typed is"
  by (auto simp: code_typed_def)

lemma code_typed_code: "c \<noteq> Call_Destroy \<Longrightarrow> code_typed (call_code c)"
  by (cases c) (auto simp: code_typed_def code_defs)

lemma thread_typed_woken: "thread_typed (t, p) \<Longrightarrow> waits p \<Longrightarrow> thread_typed (t, Woken)"
  by (auto simp: thread_typed_def)

lemma machine_step_typed:
  assumes "machine_typed m" "no_destroy e" "machine_step e m = Some m'"
  shows "machine_typed m'"
proof (cases e)
  case (Thread_step sec usec)
  then show ?thesis using assms
    by (auto simp: machine_typed_def dest: thread_step_typed split: if_splits option.splits)
next
  case Own_step
  then obtain i "is" where own: "mc_own m = i # is" using assms by (cases "mc_own m") auto
  then have "mc_pc m = Working" using assms(1) by (simp add: machine_typed_def)
  then obtain js t p where r: "instr_step i (mc_thread m, Working) = Some (js, t, p)"
    "m' = m\<lparr>mc_thread := t, mc_pc := p, mc_own := js @ is\<rparr>"
    using assms(3) Own_step own by (auto split: option.splits)
  have i: "i \<noteq> Destroy_objects" "code_typed is" and w: "thread_typed (mc_thread m, Working)"
    using assms(1) own \<open>mc_pc m = Working\<close> by (simp_all add: machine_typed_def code_typed_Cons)
  from instr_step_typed [OF w i(1) r(1)] instr_step_working [OF w i(1) r(1)] show ?thesis
    using assms(1) i(2) r(2) by (simp add: machine_typed_def)
next
  case (Caller_step k)
  then obtain i "is" where c: "k < length (mc_callers m)" "mc_callers m ! k = i # is"
    using assms by (cases "mc_callers m ! k") (auto split: if_splits)
  then obtain js t p where r: "instr_step i (mc_thread m, mc_pc m) = Some (js, t, p)"
    "m' = m\<lparr>mc_thread := t, mc_pc := p, mc_callers := (mc_callers m)[k := js @ is]\<rparr>"
    using assms(3) Caller_step by (auto split: option.splits)
  have "code_typed (i # is)" using assms(1) c by (auto simp: machine_typed_def list_all_length)
  then have i: "i \<noteq> Destroy_objects" "code_typed is" by (simp_all add: code_typed_Cons)
  have w: "thread_typed (mc_thread m, mc_pc m)" using assms(1) by (simp add: machine_typed_def)
  from instr_step_typed [OF w i(1) r(1)] have "thread_typed (t, p)" "code_typed js" by simp_all
  moreover have "mc_own m = [] \<or> p = Working"
    using assms(1) w r(1) instr_step_working [of "mc_thread m" i js t p] i(1) by (auto simp: machine_typed_def)
  ultimately show ?thesis using assms(1) i(2) r(2) c(1)
    by (auto simp: machine_typed_def list_all_length nth_list_update)
next
  case (Call k c)
  then show ?thesis using assms code_typed_code
    by (auto simp: machine_typed_def list_all_length nth_list_update split: if_splits)
next
  case (Own_call c)
  then show ?thesis using assms code_typed_code
    by (auto simp: machine_typed_def split: if_splits)
next
  case Deadline
  then show ?thesis using assms thread_typed_woken
    by (cases "mc_pc m") (auto simp: machine_typed_def)
next
  case Spurious
  then show ?thesis using assms thread_typed_woken
    by (auto simp: machine_typed_def split: if_splits)
qed

lemma created_typed: "machine_typed (created handle n)"
  by (simp add: machine_typed_def thread_typed_def created_def thread_defs Let_def code_typed_def
      list_all_length)

lemma reaches_typed: "reaches no_destroy m m' \<Longrightarrow> machine_typed m \<Longrightarrow> machine_typed m'"
  by (induction rule: reaches.induct) (auto dest: machine_step_typed)

subsection \<open>A stopped thread\<close>

lemma instr_step_stopped: "instr_step i (t, p) = Some (js, t', p') \<Longrightarrow> m_bActive t = 0 \<Longrightarrow>
    m_bActive t' = 0 \<and> (p' = Working \<longrightarrow> p = Working)"
  by (cases i) (auto simp: THREAD_INACTIVE_def Thread_Shutdown_def split: if_splits)

lemma thread_step_stopped: "thread_step sec usec (t, p) = Some (t', p') \<Longrightarrow> m_bActive t = 0 \<Longrightarrow>
    m_bActive t' = 0 \<and> p' \<noteq> Working"
  by (cases p) (auto simp: Thread_Exit_def split: if_splits)

lemma machine_step_stopped:
  "machine_step e m = Some m' \<Longrightarrow> m_bActive (mc_thread m) = 0 \<Longrightarrow>
     m_bActive (mc_thread m') = 0 \<and> (mc_pc m' = Working \<longrightarrow> mc_pc m = Working)"
  by (cases "(e, m)" rule: machine_step.cases)
    (auto dest: instr_step_stopped thread_step_stopped split: if_splits option.splits list.splits pc.splits)

lemma reaches_stopped:
  "reaches A m m' \<Longrightarrow> m_bActive (mc_thread m) = 0 \<Longrightarrow>
     m_bActive (mc_thread m') = 0 \<and> (mc_pc m' = Working \<longrightarrow> mc_pc m = Working)"
  by (induction rule: reaches.induct) (auto dest: machine_step_stopped)

text \<open>
  A stopped thread on its way out: not suspended, with no call of its own under way, and not at a wait
  that only a signal ends.
\<close>

definition stopping :: "machine \<Rightarrow> bool" where
  "stopping m \<longleftrightarrow>
     m_bActive (mc_thread m) = 0 \<and> \<not> m_bSuspended (mc_thread m) \<and> m_sync (mc_thread m) = Made \<and>
     mc_own m = [] \<and> mc_pc m \<notin> {Waiting, Before_wait, Faulted}"

fun rank :: "pc \<Rightarrow> nat" where
  "rank Tested = 9"
| "rank Locked = 8"
| "rank To_sleep = 7"
| "rank Not_to_sleep = 7"
| "rank (Before_timed d) = 6"
| "rank Before_wait = 6"
| "rank (Timed_wait d) = 5"
| "rank Waiting = 5"
| "rank Woken = 4"
| "rank Working = 4"
| "rank Unlocked = 3"
| "rank Calling = 3"
| "rank Returning = 2"
| "rank Run_over = 1"
| "rank Exited = 0"
| "rank Faulted = 0"

lemma rank_le: "rank p \<le> 9"
  by (cases p) auto

lemma stopping_step:
  assumes "stopping m" "alone e" "machine_step e m = Some m'"
  shows "stopping m' \<and> rank (mc_pc m') < rank (mc_pc m)"
proof (cases e)
  case (Thread_step sec usec)
  then show ?thesis using assms
    by (cases "mc_pc m") (auto simp: stopping_def Thread_Exit_def split: if_splits)
next
  case Deadline
  then show ?thesis using assms by (cases "mc_pc m") (auto simp: stopping_def)
qed (use assms in auto)

lemma stopping_run:
  "run_events es m = Some m' \<Longrightarrow> list_all alone es \<Longrightarrow> stopping m \<Longrightarrow>
     stopping m' \<and> rank (mc_pc m') + length es \<le> rank (mc_pc m)"
proof (induction es arbitrary: m)
  case Nil
  then show ?case by simp
next
  case (Cons e es)
  then obtain n where n: "machine_step e m = Some n" "run_events es n = Some m'"
    by (auto split: option.splits)
  with Cons.prems stopping_step [of m e n] have "stopping n" "rank (mc_pc n) < rank (mc_pc m)" by auto
  with Cons.IH [OF n(2)] Cons.prems show ?case by auto
qed

lemma stopping_enabled:
  assumes "stopping m"
  shows "mc_pc m = Exited \<or> (\<exists>e. alone e \<and> machine_step e m \<noteq> None)"
proof (cases "\<exists>d. mc_pc m = Timed_wait d")
  case True
  then show ?thesis by (intro disjI2 exI [of _ Deadline]) auto
next
  case False
  then have "mc_pc m = Exited \<or> machine_step (Thread_step 0 0) m \<noteq> None"
    using assms by (cases "mc_pc m") (auto simp: stopping_def)
  then show ?thesis by (auto intro: exI [of _ "Thread_step 0 0"])
qed

lemma stop_wakes:
  assumes "mc_pc m = Waiting" "m_bSuspended (mc_thread m)" "m_sync (mc_thread m) = Made"
    "mc_own m = []" "k < length (mc_callers m)" "mc_callers m ! k = []"
  shows "\<exists>m'. run_events (Call k Call_Stop # replicate 4 (Caller_step k)) m = Some m' \<and>
    stopping m' \<and> mc_callers m' = mc_callers m"
  using assms
  by (simp add: numeral_eq_Suc code_defs THREAD_INACTIVE_def stopping_def list_update_same_conv)

subsection \<open>Interleavings that go wrong\<close>

text \<open>
  The thread has seen that it is suspended and is about to wait; then \<open>Stop\<close> runs to its end.
\<close>

definition lost_run :: "event list" where
  "lost_run = replicate 5 (Thread_step 0 0) @ Call 0 Call_Stop # replicate 4 (Caller_step 0) @
     [Thread_step 0 0]"

lemma lost_run_ends:
  "\<exists>m. run_events lost_run (created handle 1) = Some m \<and> mc_pc m = Waiting \<and>
     m_bActive (mc_thread m) = 0 \<and> \<not> m_bSuspended (mc_thread m) \<and> mc_own m = [] \<and> mc_callers m = [[]]"
  by (simp add: lost_run_def created_def thread_defs numeral_eq_Suc code_defs run_events_append Let_def)

text \<open>
  The events that leave a lost thread lost: all but a wake-up without a signal and the calls that wake or
  destroy a thread or suspend it.
\<close>

fun quiet :: "event \<Rightarrow> bool" where
  "quiet Spurious = False"
| "quiet (Call k c) = (case c of Call_Stop \<Rightarrow> True | Call_Sleep ms \<Rightarrow> True | _ \<Rightarrow> False)"
| "quiet e = True"

fun harmless :: "instr \<Rightarrow> bool" where
  "harmless Clear_active = True"
| "harmless Resume_if_suspended = True"
| "harmless (Set_interval ms) = True"
| "harmless i = False"

definition lost :: "machine \<Rightarrow> bool" where
  "lost m \<longleftrightarrow> mc_pc m = Waiting \<and> m_bActive (mc_thread m) = 0 \<and> \<not> m_bSuspended (mc_thread m) \<and>
     mc_own m = [] \<and> list_all (list_all harmless) (mc_callers m)"

lemma harmless_step:
  "harmless i \<Longrightarrow> \<not> m_bSuspended t \<Longrightarrow> m_bActive t = 0 \<Longrightarrow> instr_step i (t, p) = Some (js, t', p') \<Longrightarrow>
     js = [] \<and> p' = p \<and> m_bActive t' = 0 \<and> \<not> m_bSuspended t'"
  by (cases i) (auto simp: THREAD_INACTIVE_def)

lemma lost_update:
  "list_all (list_all harmless) cs \<Longrightarrow> list_all harmless is \<Longrightarrow> list_all (list_all harmless) (cs[k := is])"
  unfolding list_all_length by (metis length_list_update nth_list_update_eq nth_list_update_neq)

lemma lost_step:
  assumes "lost m" "quiet e" "machine_step e m = Some m'"
  shows "lost m'"
proof (cases e)
  case (Call k c)
  then show ?thesis using assms
    by (cases c) (auto simp: lost_def code_defs intro!: lost_update split: if_splits)
next
  case (Caller_step k)
  then obtain i "is" where c: "k < length (mc_callers m)" "mc_callers m ! k = i # is"
    using assms(3) by (cases "mc_callers m ! k") (auto split: if_splits)
  then obtain js t p where r: "instr_step i (mc_thread m, mc_pc m) = Some (js, t, p)"
    "m' = m\<lparr>mc_thread := t, mc_pc := p, mc_callers := (mc_callers m)[k := js @ is]\<rparr>"
    using assms(3) Caller_step by (auto split: option.splits)
  have "list_all harmless (i # is)" using assms(1) c by (auto simp: lost_def list_all_length)
  then show ?thesis using assms(1) r harmless_step [of i "mc_thread m" "mc_pc m" js t p]
    by (auto simp: lost_def intro!: lost_update)
qed (use assms in \<open>auto simp: lost_def\<close>)

lemma lost_run_stays:
  "run_events es m = Some m' \<Longrightarrow> list_all quiet es \<Longrightarrow> lost m \<Longrightarrow> lost m'"
  by (induction es arbitrary: m) (auto split: option.splits dest: lost_step)

lemma stop_too_early:
  assumes "mc_pc m = Before_wait" "m_bSuspended (mc_thread m)" "m_sync (mc_thread m) = Made" "mc_own m = []"
    and "\<forall>c \<in> set (mc_callers m). c = []" "k < length (mc_callers m)"
  shows "\<exists>m'. run_events (Call k Call_Stop # replicate 4 (Caller_step k) @ [Thread_step sec usec]) m = Some m' \<and> lost m'"
proof -
  have "mc_callers m ! k = []" "list_all (list_all harmless) (mc_callers m)"
    using assms(5,6) by (auto simp: list_all_iff)
  then show ?thesis using assms
    by (simp add: numeral_eq_Suc code_defs THREAD_INACTIVE_def lost_def lost_update)
qed

text \<open>A run that comes to that point.\<close>

definition before_wait_run :: "event list" where
  "before_wait_run = replicate 5 (Thread_step 0 0)"

lemma before_wait_run_ends:
  "\<exists>m. run_events before_wait_run (created handle 1) = Some m \<and> mc_pc m = Before_wait \<and>
     m_bSuspended (mc_thread m) \<and> mc_callers m = [[]]"
  by (simp add: before_wait_run_def created_def thread_defs numeral_eq_Suc Let_def)

text \<open>\<open>Destroy\<close> while the thread is in its work.\<close>

definition destroy_run :: "event list" where
  "destroy_run = Call 0 Call_Destroy # replicate 6 (Caller_step 0)"

lemma destroy_run_ends:
  "\<exists>m. run_events destroy_run (created handle 1) = Some m \<and> mc_pc m = Working \<and>
     m_bDone (mc_thread m) = 0 \<and> m_sync (mc_thread m) = Destroyed \<and> mc_callers m = [[]]"
  by (simp add: destroy_run_def created_def thread_defs numeral_eq_Suc code_defs Let_def)

lemma destroy_waiting:
  "m_sync t = Made \<Longrightarrow> waits p \<Longrightarrow> \<exists>t'. run_instrs (call_code Call_Destroy) (t, p) = Some (t', Faulted)"
  by (cases p) (auto simp: code_defs THREAD_INACTIVE_def)

end
