(* ===== verification/ServerIPC.thy ===== *)
theory ServerIPC
  imports ConnectionHandlerOutbound
begin

text \<open>
  \<open>serveripc.h\<close> and \<open>serveripc.cpp\<close>: the class \<open>cServerIPC\<close>, a client connection to a server that sends
  a text and collects the response. The answers of the operating system are those of the outbound
  handler; what \<open>send\<close> and \<open>recv\<close> answer during one call is a list, and \<open>None\<close> is a call that is still
  in its loop when these answers are used up. A wait of the program is the time to the next answer.
\<close>

definition HRC_SERVERIPC_SUCCESS :: int where "HRC_SERVERIPC_SUCCESS = 0"
definition HRC_SERVERIPC_UNABLE_TO_CREATE_SOCKET :: int where "HRC_SERVERIPC_UNABLE_TO_CREATE_SOCKET = 2"
definition HRC_SERVERIPC_UNABLE_TO_CONNECT_TO_HOST :: int where "HRC_SERVERIPC_UNABLE_TO_CONNECT_TO_HOST = 3"
definition HRC_SERVERIPC_SENDDATA_FAILED :: int where "HRC_SERVERIPC_SENDDATA_FAILED = 4"
definition HRC_SERVERIPC_TIMEDOUT :: int where "HRC_SERVERIPC_TIMEDOUT = 6"
definition HRC_SERVERIPC_NOT_READY :: int where "HRC_SERVERIPC_NOT_READY = 8"
definition HRC_SERVERIPC_CONNECTION_CLOSED :: int where "HRC_SERVERIPC_CONNECTION_CLOSED = 9"
definition HRC_SERVERIPC_INVALID_PARAMS :: int where "HRC_SERVERIPC_INVALID_PARAMS = 11"

lemmas ipc_codes = HRC_SERVERIPC_SUCCESS_def HRC_SERVERIPC_UNABLE_TO_CREATE_SOCKET_def
  HRC_SERVERIPC_UNABLE_TO_CONNECT_TO_HOST_def HRC_SERVERIPC_SENDDATA_FAILED_def
  HRC_SERVERIPC_TIMEDOUT_def HRC_SERVERIPC_NOT_READY_def HRC_SERVERIPC_CONNECTION_CLOSED_def
  HRC_SERVERIPC_INVALID_PARAMS_def

record cServerIPC =
  ipc_Socketfd :: int
  ipc_buffer :: cBuffer

definition IPC_Reset :: "cServerIPC \<Rightarrow> cServerIPC" where
  "IPC_Reset i = i\<lparr>ipc_buffer := Buffer_Reset (ipc_buffer i)\<rparr>"

definition new_cServerIPC :: cServerIPC where
  "new_cServerIPC = IPC_Reset \<lparr>ipc_Socketfd = 0, ipc_buffer = new_cBuffer\<rparr>"

definition IPC_Close :: "cServerIPC \<Rightarrow> net \<Rightarrow> cServerIPC \<times> net" where
  "IPC_Close i w =
     (let w = (if ipc_Socketfd i \<noteq> 0 then w\<lparr>n_closed := n_closed w @ [ipc_Socketfd i]\<rparr> else w)
      in (i\<lparr>ipc_buffer := Buffer_Reset (ipc_buffer i), ipc_Socketfd := 0\<rparr>, w))"

text \<open>The address of the server: a dotted address, or a name to look up.\<close>

definition IPC_resolve :: "os \<Rightarrow> string \<Rightarrow> net \<Rightarrow> 32 word option \<times> net" where
  "IPC_resolve os server w =
     (if os_inet_addr os server = INADDR_NONE
      then (os_gethostbyname os (n_calls w) server, tick w)
      else case os_inet_aton os server of
             Some a \<Rightarrow> (Some a, w)
           | None \<Rightarrow> (os_gethostbyname os (n_calls w) server, tick w))"

text \<open>The rest of \<open>Open\<close>, when the address is known: the socket is made and connected.\<close>

definition IPC_connect :: "os \<Rightarrow> 32 word \<Rightarrow> int \<Rightarrow> cServerIPC \<Rightarrow> net \<Rightarrow> int \<times> cServerIPC \<times> net" where
  "IPC_connect os a port i w =
     (let fd = os_socket os (n_calls w);
          w = tick w;
          i = i\<lparr>ipc_Socketfd := fd\<rparr>
      in if fd < 0 then (HRC_SERVERIPC_UNABLE_TO_CREATE_SOCKET, i, w)
         else
           let ok = os_connect os (n_calls w) fd (a, htons (word_of_int port));
               w = tick w
           in if \<not> ok
              then let (i, w) = IPC_Close i w in (HRC_SERVERIPC_UNABLE_TO_CONNECT_TO_HOST, i, w)
              else (HRC_SERVERIPC_SUCCESS, i, w))"

definition IPC_Open ::
  "os \<Rightarrow> block option \<Rightarrow> int \<Rightarrow> cServerIPC \<Rightarrow> net \<Rightarrow> (int \<times> cServerIPC \<times> net) result" where
  "IPC_Open os pServer port i w =
     (let (i, w) = IPC_Close i w
      in case pServer of
           None \<Rightarrow> Inr (HRC_SERVERIPC_INVALID_PARAMS, i, w)
         | Some d \<Rightarrow>
             if port < 0 \<or> port > 65386 then Inr (HRC_SERVERIPC_INVALID_PARAMS, i, w)
             else rbind (read_cstr d) (\<lambda>server.
               let (host, w) = IPC_resolve os server w
               in Inr (case host of
                         None \<Rightarrow> (HRC_SERVERIPC_UNABLE_TO_CONNECT_TO_HOST, i, w)
                       | Some a \<Rightarrow> IPC_connect os a port i w)))"

text \<open>The loop of \<open>Send\<close>: the return code and the bytes that the socket took.\<close>

fun send_loop :: "send_result list \<Rightarrow> block \<Rightarrow> int \<Rightarrow> int \<Rightarrow> (int \<times> string) result option" where
  "send_loop said pts len status =
     (if status = len then Some (Inr (HRC_SERVERIPC_SUCCESS, []))
      else case rbind (mem_slice pts status (len - status)) mem_text of
             Inl e \<Rightarrow> Some (Inl e)
           | Inr bytes \<Rightarrow>
               (case said of
                  [] \<Rightarrow> None
                | SendAgain # said \<Rightarrow> send_loop said pts len status
                | SendFailed # said \<Rightarrow> Some (Inr (HRC_SERVERIPC_SENDDATA_FAILED, []))
                | Sent n # said \<Rightarrow>
                    map_option (\<lambda>r. rbind r (\<lambda>(rc, out). Inr (rc, take n bytes @ out)))
                      (send_loop said pts len (status + int n))))"

definition IPC_Send :: "send_result list \<Rightarrow> block \<Rightarrow> int \<Rightarrow> (int \<times> string) result option" where
  "IPC_Send said pContent len =
     (if len < 0 then Some (Inr (HRC_SERVERIPC_SENDDATA_FAILED, []))
      else send_loop said pContent len 0)"

text \<open>
  The loop of \<open>CheckForResponse\<close>. With each answer comes the time that is read at the end of the pass.
  The statements behind the loop are never reached.
\<close>

fun check_loop ::
  "int \<Rightarrow> int \<Rightarrow> int \<Rightarrow> int \<Rightarrow> (recv_result \<times> int) list \<Rightarrow> cBuffer \<Rightarrow> (int \<times> cBuffer) result option" where
  "check_loop delay start now anything said b =
     (if delay \<noteq> -1 \<and> start + delay \<le> now
      then Some (Inr (if anything \<noteq> 0 then HRC_SERVERIPC_SUCCESS else HRC_SERVERIPC_TIMEDOUT, b))
      else case said of
             [] \<Rightarrow> None
           | (WouldBlock, t) # said \<Rightarrow>
               if delay = -1 then Some (Inr (HRC_SERVERIPC_NOT_READY, b))
               else check_loop delay start t anything said b
           | (RecvError, t) # said \<Rightarrow> Some (Inr (HRC_SERVERIPC_CONNECTION_CLOSED, b))
           | (Received buf, t) # said \<Rightarrow>
               let count = int (length buf)
               in if count = 0 then Some (Inr (HRC_SERVERIPC_SUCCESS, b))
                  else case Buffer_Append b (Some (map Some buf)) count of
                         Inl e \<Rightarrow> Some (Inl e)
                       | Inr (b, _) \<Rightarrow> check_loop delay start t count said b)"

declare send_loop.simps [simp del] check_loop.simps [simp del]

definition IPC_CheckForResponse ::
  "int \<Rightarrow> int \<Rightarrow> (recv_result \<times> int) list \<Rightarrow> cServerIPC \<Rightarrow> (int \<times> cServerIPC) result option" where
  "IPC_CheckForResponse delay start said i =
     map_option (\<lambda>r. rbind r (\<lambda>(rc, b). Inr (rc, i\<lparr>ipc_buffer := b\<rparr>)))
       (check_loop delay start start 0 said (ipc_buffer i))"

definition IPC_GetResponse :: "cServerIPC \<Rightarrow> (block option \<times> cServerIPC) result" where
  "IPC_GetResponse i =
     rbind (Buffer_GetBuffer (ipc_buffer i)) (\<lambda>(b, p). Inr (p, i\<lparr>ipc_buffer := b\<rparr>))"

definition IPC_GetResponseSize :: "cServerIPC \<Rightarrow> int" where
  "IPC_GetResponseSize i = Buffer_GetBufferCount (ipc_buffer i)"

section \<open>Sending\<close>

text \<open>What a socket may answer when bytes are left to send: it takes some of them, at least one.\<close>

fun takes :: "nat \<Rightarrow> send_result list \<Rightarrow> bool" where
  "takes left [] = True"
| "takes left (Sent n # said) = (left = 0 \<or> 0 < n \<and> n \<le> left \<and> takes (left - n) said)"
| "takes left (_ # said) = takes left said"

lemma send_bytes:
  "k \<le> length s \<Longrightarrow>
     rbind (mem_slice (map Some s @ rest) (int k) (int (length s) - int k)) mem_text = Inr (drop k s)"
  by (auto simp: mem_slice_def drop_map nat_diff_distrib simp flip: of_nat_diff)

text \<open>A call that returns has handed over a prefix; all of it when it reports success.\<close>

lemma send_loop_prefix:
  assumes "takes (length s - k) said" "k \<le> length s"
    "send_loop said (map Some s @ rest) (int (length s)) (int k) = Some r"
  shows "\<exists>rc out more. r = Inr (rc, out) \<and> drop k s = out @ more \<and>
    (rc = HRC_SERVERIPC_SENDDATA_FAILED \<and> SendFailed \<in> set said \<or>
     rc = HRC_SERVERIPC_SUCCESS \<and> more = [])"
  using assms
proof (induction said arbitrary: k r)
  case Nil
  then show ?case
    by (subst (asm) send_loop.simps) (auto simp: send_bytes split: if_splits)
next
  case (Cons a said)
  show ?case
  proof (cases "k = length s")
    case True
    then show ?thesis using Cons.prems by (subst (asm) send_loop.simps) auto
  next
    case False
    then have left: "k < length s" using Cons.prems by simp
    show ?thesis
    proof (cases a)
      case (Sent n)
      then have n: "0 < n" "n \<le> length s - k" "takes (length s - (k + n)) said"
        using Cons.prems left by auto
      from Cons.prems(3) left Sent obtain r' where
        r': "send_loop said (map Some s @ rest) (int (length s)) (int (k + n)) = Some r'"
          "r = rbind r' (\<lambda>(rc, out). Inr (rc, take n (drop k s) @ out))"
        by (subst (asm) send_loop.simps) (auto simp: send_bytes)
      have kn: "k + n \<le> length s" using n(2) left by simp
      from Cons.IH [OF n(3) kn r'(1)] obtain rc out more where
        o: "r' = Inr (rc, out)" "drop (k + n) s = out @ more"
          "rc = HRC_SERVERIPC_SENDDATA_FAILED \<and> SendFailed \<in> set said \<or>
           rc = HRC_SERVERIPC_SUCCESS \<and> more = []" by auto
      have "drop k s = take n (drop k s) @ out @ more"
        using o(2) by (metis append_take_drop_id drop_drop add.commute)
      then show ?thesis using r'(2) o Sent by auto
    next
      case SendAgain
      then show ?thesis using Cons left
        by (subst (asm) (2) send_loop.simps) (auto simp: send_bytes)
    next
      case SendFailed
      then show ?thesis using Cons.prems left
        by (subst (asm) send_loop.simps) (auto simp: send_bytes)
    qed
  qed
qed

text \<open>A call returns when the socket has failed or has taken everything.\<close>

lemma send_loop_returns:
  assumes "takes (length s - k) said" "k \<le> length s"
    "SendFailed \<in> set said \<or> length s - k \<le> sum_list (map sent_count said)"
  shows "send_loop said (map Some s @ rest) (int (length s)) (int k) \<noteq> None"
  using assms
proof (induction said arbitrary: k)
  case Nil
  then show ?case by (subst send_loop.simps) simp
next
  case (Cons a said)
  show ?case
  proof (cases "k = length s")
    case True
    then show ?thesis by (subst send_loop.simps) simp
  next
    case False
    then have left: "k < length s" using Cons.prems by simp
    show ?thesis
    proof (cases a)
      case (Sent n)
      have "send_loop said (map Some s @ rest) (int (length s)) (int (k + n)) \<noteq> None"
        using Cons.prems left Sent by (intro Cons.IH) auto
      then show ?thesis using left Sent by (subst send_loop.simps) (auto simp: send_bytes)
    next
      case SendAgain
      have "send_loop said (map Some s @ rest) (int (length s)) (int k) \<noteq> None"
        using Cons.prems SendAgain by (intro Cons.IH) auto
      then show ?thesis using left SendAgain by (subst send_loop.simps) (simp add: send_bytes)
    next
      case SendFailed
      then show ?thesis using left by (subst send_loop.simps) (simp add: send_bytes)
    qed
  qed
qed

section \<open>The response\<close>

fun data_of :: "recv_result \<Rightarrow> string" where
  "data_of (Received d) = d"
| "data_of _ = []"

definition heard :: "(recv_result \<times> int) list \<Rightarrow> string" where
  "heard said = concat (map (data_of \<circ> fst) said)"

lemma heard_simps [simp]:
  "heard [] = []" "heard ((r, t) # said) = data_of r @ heard said"
  by (simp_all add: heard_def)

text \<open>The answers that end a call, and the code for each; without a delay, having to wait is one.\<close>

fun final_code :: "int \<Rightarrow> recv_result \<Rightarrow> int option" where
  "final_code delay (Received d) = (if d = [] then Some HRC_SERVERIPC_SUCCESS else None)"
| "final_code delay RecvError = Some HRC_SERVERIPC_CONNECTION_CLOSED"
| "final_code delay WouldBlock = (if delay = -1 then Some HRC_SERVERIPC_NOT_READY else None)"

definition in_time :: "int \<Rightarrow> int \<Rightarrow> int \<Rightarrow> bool" where
  "in_time delay start t \<longleftrightarrow> delay = -1 \<or> t < start + delay"

definition goes_on :: "int \<Rightarrow> int \<Rightarrow> (recv_result \<times> int) list \<Rightarrow> bool" where
  "goes_on delay start said \<longleftrightarrow> list_all (\<lambda>(r, t). final_code delay r = None \<and> in_time delay start t) said"

lemma check_step:
  assumes "holds b s" "final_code delay r = None" "in_time delay start now"
  shows "\<exists>b'. holds b' (s @ data_of r) \<and>
    check_loop delay start now anything ((r, t) # said) b =
    check_loop delay start t (if data_of r = [] then anything else int (length (data_of r))) said b'"
proof (cases r)
  case (Received d)
  then have d: "d \<noteq> []" using assms(2) by auto
  then obtain b' where b': "Buffer_Append b (Some (map Some d)) (int (length d)) = Inr (b', BUFFER_NO_ERROR)"
    "holds b' (s @ d)" using Append_holds [OF assms(1), of "length d" "map Some d" d] by auto
  then show ?thesis using d Received assms(3)
    by (intro exI [of _ b']) (subst check_loop.simps, auto simp: in_time_def)
next
  case WouldBlock
  then have "delay \<noteq> -1" using assms(2) by auto
  then show ?thesis using WouldBlock assms by (subst check_loop.simps) (auto simp: in_time_def)
qed (use assms in auto)

lemma check_steps:
  assumes "holds b s" "goes_on delay start said" "in_time delay start now"
  shows "\<exists>b' t k. holds b' (s @ heard said) \<and> in_time delay start t \<and>
    (k \<noteq> 0 \<longleftrightarrow> anything \<noteq> 0 \<or> heard said \<noteq> []) \<and>
    check_loop delay start now anything (said @ later) b = check_loop delay start t k later b'"
  using assms
proof (induction said arbitrary: b s now anything)
  case Nil
  then show ?case by auto
next
  case (Cons rt said)
  obtain r t where rt: "rt = (r, t)" by (cases rt)
  let ?any = "if data_of r = [] then anything else int (length (data_of r))"
  from Cons.prems rt have r: "final_code delay r = None" "in_time delay start t"
    "goes_on delay start said" by (auto simp: goes_on_def)
  from check_step [OF Cons.prems(1) r(1) Cons.prems(3)] obtain c where c: "holds c (s @ data_of r)"
    "check_loop delay start now anything ((r, t) # said @ later) b =
     check_loop delay start t ?any (said @ later) c" by blast
  from Cons.IH [OF c(1) r(3,2), of ?any] obtain b' t' k where
    "holds b' ((s @ data_of r) @ heard said)" "in_time delay start t'"
    "k \<noteq> 0 \<longleftrightarrow> ?any \<noteq> 0 \<or> heard said \<noteq> []"
    "check_loop delay start t ?any (said @ later) c = check_loop delay start t' k later b'" by blast
  then show ?case using c(2) rt by (intro exI [of _ b'] exI [of _ t'] exI [of _ k]) auto
qed

lemma check_final:
  assumes "holds b s" "in_time delay start now" "goes_on delay start said"
    "final_code delay r = Some rc"
  shows "\<exists>b'. check_loop delay start now anything (said @ (r, t) # later) b = Some (Inr (rc, b')) \<and>
    holds b' (s @ heard said)"
proof -
  from check_steps [OF assms(1,3,2)] obtain b' t' k where b': "holds b' (s @ heard said)"
    "in_time delay start t'" "check_loop delay start now anything (said @ (r, t) # later) b =
     check_loop delay start t' k ((r, t) # later) b'" by blast
  moreover have "check_loop delay start t' k ((r, t) # later) b' = Some (Inr (rc, b'))"
    using assms(4) b'(2) by (subst check_loop.simps) (cases r; auto simp: in_time_def split: if_splits)
  ultimately show ?thesis by auto
qed

lemma check_deadline:
  assumes "holds b s" "in_time delay start now" "goes_on delay start said"
    "final_code delay r = None" "\<not> in_time delay start t"
  shows "\<exists>b'. check_loop delay start now 0 (said @ (r, t) # later) b =
      Some (Inr (if heard said @ data_of r = [] then HRC_SERVERIPC_TIMEDOUT else HRC_SERVERIPC_SUCCESS, b')) \<and>
    holds b' (s @ heard said @ data_of r)"
proof -
  from check_steps [OF assms(1,3,2), of 0] obtain b' t' k where b': "holds b' (s @ heard said)"
    "in_time delay start t'" "k \<noteq> 0 \<longleftrightarrow> heard said \<noteq> []"
    "check_loop delay start now 0 (said @ (r, t) # later) b =
     check_loop delay start t' k ((r, t) # later) b'" by fastforce
  from check_step [OF b'(1) assms(4) b'(2), of k t later] obtain c where
    c: "holds c ((s @ heard said) @ data_of r)" "check_loop delay start t' k ((r, t) # later) b' =
     check_loop delay start t (if data_of r = [] then k else int (length (data_of r))) later c" by blast
  have "check_loop delay start t (if data_of r = [] then k else int (length (data_of r))) later c =
      Some (Inr (if heard said @ data_of r = [] then HRC_SERVERIPC_TIMEDOUT else HRC_SERVERIPC_SUCCESS, c))"
    using assms(5) b'(3) by (subst check_loop.simps) (auto simp: in_time_def)
  then show ?thesis using b'(4) c by auto
qed

section \<open>Opening\<close>

text \<open>
  Every way to return: the socket of before is closed once; a new one is kept when it is connected and
  closed when it is not. A socket that could not be made leaves its error as the socket.
\<close>

definition open_outcome :: "os \<Rightarrow> int list \<Rightarrow> int \<times> cServerIPC \<times> net \<Rightarrow> bool" where
  "open_outcome os closed r \<longleftrightarrow>
     (let (rc, i, w) = r
      in n_closed w = closed \<and> rc = HRC_SERVERIPC_SUCCESS \<and> ipc_Socketfd i \<in> range (os_socket os) \<inter> {0..} \<or>
         n_closed w = closed \<and> rc = HRC_SERVERIPC_UNABLE_TO_CREATE_SOCKET \<and> ipc_Socketfd i < 0 \<or>
         n_closed w = closed \<and> ipc_Socketfd i = 0 \<and>
           rc \<in> {HRC_SERVERIPC_INVALID_PARAMS, HRC_SERVERIPC_UNABLE_TO_CONNECT_TO_HOST} \<or>
         (\<exists>fd \<in> range (os_socket os) \<inter> {0<..}. n_closed w = closed @ [fd] \<and> ipc_Socketfd i = 0 \<and>
           rc = HRC_SERVERIPC_UNABLE_TO_CONNECT_TO_HOST))"

lemma tick_closed [simp]: "n_closed (tick w) = n_closed w"
  by (simp add: tick_def)

lemma IPC_resolve_closed: "IPC_resolve os server w = (h, w') \<Longrightarrow> n_closed w' = n_closed w"
  by (auto simp: IPC_resolve_def split: if_splits option.splits)

lemma IPC_connect_outcome: "open_outcome os (n_closed w) (IPC_connect os a port i w)"
  by (auto simp: IPC_connect_def open_outcome_def IPC_Close_def Let_def)

lemma IPC_Open_sockets:
  assumes "IPC_Open os p port i w = Inr r"
  shows "open_outcome os (n_closed w @ (if ipc_Socketfd i \<noteq> 0 then [ipc_Socketfd i] else [])) r"
proof -
  define i1 w1 where c: "i1 = fst (IPC_Close i w)" "w1 = snd (IPC_Close i w)"
  then have fd: "ipc_Socketfd i1 = 0" and
    w1: "n_closed w1 = n_closed w @ (if ipc_Socketfd i \<noteq> 0 then [ipc_Socketfd i] else [])"
    by (simp_all add: IPC_Close_def)
  have cl: "IPC_Close i w = (i1, w1)" by (simp add: c)
  show ?thesis
  proof (cases "\<exists>d. p = Some d \<and> 0 \<le> port \<and> port \<le> 65386")
    case False
    then have "r = (HRC_SERVERIPC_INVALID_PARAMS, i1, w1)"
      using assms by (cases p) (auto simp: IPC_Open_def cl)
    then show ?thesis using fd w1 by (simp add: open_outcome_def)
  next
    case True
    then obtain d where d: "p = Some d" "0 \<le> port" "port \<le> 65386" by auto
    then obtain server where s: "read_cstr d = Inr server"
      using assms by (cases "read_cstr d") (auto simp: IPC_Open_def cl)
    obtain h w2 where h: "IPC_resolve os server w1 = (h, w2)" by (cases "IPC_resolve os server w1")
    then have r: "r = (case h of None \<Rightarrow> (HRC_SERVERIPC_UNABLE_TO_CONNECT_TO_HOST, i1, w2)
        | Some a \<Rightarrow> IPC_connect os a port i1 w2)"
      using assms d s by (simp add: IPC_Open_def cl)
    have "n_closed w2 = n_closed w1" using IPC_resolve_closed [OF h] .
    then show ?thesis using r fd w1 IPC_connect_outcome [of os w2]
      by (cases h) (simp_all add: open_outcome_def)
  qed
qed

lemma IPC_Open_refuses:
  "65386 < port \<Longrightarrow> IPC_Open os p port i w =
     Inr (HRC_SERVERIPC_INVALID_PARAMS, fst (IPC_Close i w), snd (IPC_Close i w))"
  by (auto simp: IPC_Open_def Let_def split: option.splits prod.splits)

end
