(* ===== verification/Logging.thy ===== *)
theory Logging
  imports NetInterfaces
begin

text \<open>
  \<open>log.h\<close>, \<open>log.cpp\<close> and \<open>logger.cpp\<close>: the class \<open>cLog\<close>, whose members are all static, and the logger
  of the handlers. A text that is an argument here is what \<open>vsprintf\<close> makes of a format and its
  arguments; \<open>format0\<close> is what it makes of a format without any. The window of the Windows program is
  left out. Console, file and system log are lists of what was written.
\<close>

definition HRC_LOG_SUCCESS :: int where "HRC_LOG_SUCCESS = 0"
definition LOG_BUF_SZ :: nat where "LOG_BUF_SZ = 256000"
definition MAX_LOG_BUFFER :: nat where "MAX_LOG_BUFFER = 256"

record cLog =
  lg_instance :: bool
  m_FileLogging :: bool
  m_DisplayLogging :: bool
  m_MessageLog :: "string list"
  lg_console :: string
  lg_file :: string
  lg_events :: "(int \<times> string) list"

definition new_cLog :: cLog where
  "new_cLog =
     \<lparr>lg_instance = False, m_FileLogging = False, m_DisplayLogging = False, m_MessageLog = [],
      lg_console = [], lg_file = [], lg_events = []\<rparr>"

text \<open>\<open>arg\<close> is the first argument of the command line, when there is one.\<close>

definition Log_Create :: "string option \<Rightarrow> cLog \<Rightarrow> int \<times> cLog" where
  "Log_Create arg l =
     (if lg_instance l then (HRC_LOG_SUCCESS, l)
      else
        let l = l\<lparr>lg_instance := True\<rparr>
        in case arg of
             None \<Rightarrow> (HRC_LOG_SUCCESS, l)
           | Some a \<Rightarrow>
               let l = (if find_sub ''d'' (cstr a) \<noteq> None then l\<lparr>m_DisplayLogging := True\<rparr> else l);
                   l = (if find_sub ''f'' (cstr a) \<noteq> None then l\<lparr>m_FileLogging := True\<rparr> else l)
               in (HRC_LOG_SUCCESS, l))"

definition Log_Destroy :: "cLog \<Rightarrow> int \<times> cLog" where
  "Log_Destroy l = (HRC_LOG_SUCCESS, l\<lparr>lg_instance := False\<rparr>)"

text \<open>A text goes to a buffer of fixed size with its NUL.\<close>

definition to_buffer :: "nat \<Rightarrow> string \<Rightarrow> string result" where
  "to_buffer room text = (if length text < room then Inr (cstr text) else Inl OutOfBounds)"

text \<open>A format with a directive that wants an argument reads one that is not there.\<close>

fun format0 :: "string \<Rightarrow> string result" where
  "format0 [] = Inr []"
| "format0 [c] = (if c = CHR ''%'' then Inl Indeterminate else Inr [c])"
| "format0 (c # d # cs) =
     (if c \<noteq> CHR ''%'' then rbind (format0 (d # cs)) (\<lambda>t. Inr (c # t))
      else if d = CHR ''%'' then rbind (format0 cs) (\<lambda>t. Inr (d # t)) else Inl Indeterminate)"

text \<open>\<open>Logprintf\<close> marks a long text as cut, but prints it whole.\<close>

definition Logprintf :: "string \<Rightarrow> cLog \<Rightarrow> cLog result" where
  "Logprintf text l =
     rbind (to_buffer LOG_BUF_SZ text) (\<lambda>buf.
       let m = m_MessageLog l @ [buf];
           start = int (length m) - int MAX_LOG_BUFFER;
           m = (if start > 0 then drop (nat start) m else m)
       in rbind (if length text > 256 then to_buffer LOG_BUF_SZ (buf @ ''...'') else Inr buf) (\<lambda>buf.
          Inr (l\<lparr>m_MessageLog := m, lg_console := lg_console l @ buf\<rparr>)))"

text \<open>\<open>%.2d\<close>, and the time in front of a line: month from 0, day, hour, minute, second.\<close>

definition stamp_digits :: "nat \<Rightarrow> string" where
  "stamp_digits n = (let d = nat_digits n in replicate (2 - length d) (CHR ''0'') @ d)"

type_synonym log_time = "nat \<times> nat \<times> nat \<times> nat \<times> nat"

definition log_line :: "log_time \<Rightarrow> string \<Rightarrow> string" where
  "log_line t text =
     (case t of (mon, mday, hour, minute, sec) \<Rightarrow>
        stamp_digits (mon + 1) @ stamp_digits mday @ ''-'' @ stamp_digits hour @ stamp_digits minute @ stamp_digits sec @
        '': '' @ text @ [LF])"

text \<open>\<open>opened\<close>: whether the log file can be opened. A file that cannot is closed all the same.\<close>

definition Log_Log :: "log_time \<Rightarrow> bool \<Rightarrow> string \<Rightarrow> cLog \<Rightarrow> cLog result" where
  "Log_Log t opened text l =
     rbind (to_buffer LOG_BUF_SZ text) (\<lambda>buf.
     rbind (if m_DisplayLogging l then Logprintf (log_line t buf) l else Inr l) (\<lambda>l.
     if m_FileLogging l
     then if opened then Inr (l\<lparr>lg_file := lg_file l @ log_line t buf\<rparr>) else Inl NullPointer
     else Inr l))"

text \<open>The text is printed and then given to \<open>syslog\<close> as a format.\<close>

definition LogEvent :: "int \<Rightarrow> string \<Rightarrow> cLog \<Rightarrow> cLog result" where
  "LogEvent kind text l =
     rbind (to_buffer LOG_BUF_SZ text) (\<lambda>buf.
     rbind (format0 buf) (\<lambda>e.
     Inr (l\<lparr>lg_console := lg_console l @ buf @ [LF], lg_events := lg_events l @ [(kind, e)]\<rparr>)))"

definition LogToString :: "string \<Rightarrow> string \<Rightarrow> string result" where
  "LogToString s text = rbind (to_buffer LOG_BUF_SZ text) (\<lambda>buf. Inr (s @ buf))"

definition GetLogBuffer :: "string \<Rightarrow> cLog \<Rightarrow> string" where
  "GetLogBuffer s l = s @ concat (m_MessageLog l)"

text \<open>\<open>cLogger::Write\<close> has a smaller buffer, and passes its text on as a format.\<close>

definition Logger_Write :: "log_time \<Rightarrow> bool \<Rightarrow> string \<Rightarrow> cLog \<Rightarrow> cLog result" where
  "Logger_Write t opened text l =
     rbind (to_buffer 65000 text) (\<lambda>buf. rbind (format0 buf) (\<lambda>text. Log_Log t opened text l))"

section \<open>Dumps\<close>

text \<open>\<open>%.6x\<close>\<close>

fun nat_hex :: "nat \<Rightarrow> string" where
  "nat_hex n =
     (if n < 16 then [''0123456789abcdef'' ! n]
      else nat_hex (n div 16) @ [''0123456789abcdef'' ! (n mod 16)])"

declare nat_hex.simps [simp del]

definition hex6 :: "nat \<Rightarrow> string" where
  "hex6 n = (let d = nat_hex n in replicate (6 - length d) (CHR ''0'') @ d)"

text \<open>A character as it is shown: a point for what \<open>isprint\<close> does not accept.\<close>

definition shown :: "char \<Rightarrow> char" where
  "shown c = (if 0x20 \<le> schar c \<and> schar c \<le> 0x7E then c else CHR ''.'')"

definition dump_row :: "nat \<Rightarrow> string \<Rightarrow> string" where
  "dump_row offset cs =
     hex6 offset @ ''  '' @ concat (map (\<lambda>c. hex_byte (byte_of c) @ '' '') cs) @
     concat (replicate (16 - length cs) ''   '') @ '' ['' @ map shown cs @ '']'' @ [LF]"

text \<open>The rows from \<open>i\<close> on. The loops run while the index is not above the number of bytes.\<close>

function dump_rows :: "block \<Rightarrow> int \<Rightarrow> int \<Rightarrow> string result" where
  "dump_rows pPtr nBytes i =
     (if i \<le> nBytes
      then rbind (mem_slice pPtr i (min 16 (nBytes + 1 - i))) (\<lambda>cells.
           rbind (mem_text cells) (\<lambda>cs.
           rbind (dump_rows pPtr nBytes (i + 16)) (\<lambda>rest.
           Inr (dump_row (nat i) cs @ rest))))
      else Inr [])"
  by pat_completeness auto
termination
  by (relation "measure (\<lambda>(p, n, i). nat (n + 1 - i))") auto

declare dump_rows.simps [simp del]

definition dump_title :: "string \<Rightarrow> int \<Rightarrow> string" where
  "dump_title szText nBytes =
     ''['' @ szText @ '']'' @ [LF] @ ''['' @ int_text nBytes @ '' bytes dumped]'' @ [LF]"

definition DebugDump :: "bool \<Rightarrow> string \<Rightarrow> block option \<Rightarrow> int \<Rightarrow> cLog \<Rightarrow> cLog result" where
  "DebugDump opened szText pPtr nBytes l =
     (case pPtr of
        None \<Rightarrow> Inr l
      | Some d \<Rightarrow>
          if nBytes < 1 then Inr l
          else
            let title = dump_title szText nBytes
            in if m_FileLogging l \<and> \<not> opened then Inl NullPointer
               else
                 rbind (dump_rows d nBytes 0) (\<lambda>rows.
                 let l = (if m_DisplayLogging l then l\<lparr>lg_console := lg_console l @ title @ rows\<rparr> else l);
                     l = (if m_FileLogging l then l\<lparr>lg_file := lg_file l @ title @ rows\<rparr> else l)
                 in Inr l))"

section \<open>The messages that are kept\<close>

primrec log_all :: "string list \<Rightarrow> cLog \<Rightarrow> cLog result" where
  "log_all [] l = Inr l"
| "log_all (t # ts) l = rbind (Logprintf t l) (log_all ts)"

definition newest :: "nat \<Rightarrow> 'a list \<Rightarrow> 'a list" where
  "newest n xs = drop (length xs - n) xs"

lemma newest_snoc: "newest n (newest n xs @ ys) = newest n (xs @ ys)"
  by (cases "length xs \<le> n") (simp_all add: newest_def add.commute)

lemma newest_short: "length xs \<le> n \<Longrightarrow> newest n xs = xs"
  by (simp add: newest_def)

lemma length_newest: "length (newest n xs) \<le> n"
  by (simp add: newest_def)

definition printed :: "string \<Rightarrow> string" where
  "printed t = (if length t > 256 then t @ ''...'' else t)"

lemma Logprintf_spec:
  assumes "NUL \<notin> set t" "length t + 3 < LOG_BUF_SZ"
  shows "Logprintf t l = Inr (l\<lparr>m_MessageLog := newest 256 (m_MessageLog l @ [t]),
    lg_console := lg_console l @ printed t\<rparr>)"
  using assms by (auto simp: Logprintf_def to_buffer_def newest_def printed_def MAX_LOG_BUFFER_def cstr_id
      Let_def nat_diff_distrib)

lemma log_all_spec:
  assumes "\<forall>t \<in> set ts. NUL \<notin> set t \<and> length t + 3 < LOG_BUF_SZ" "length (m_MessageLog l) \<le> 256"
  shows "log_all ts l = Inr (l\<lparr>m_MessageLog := newest 256 (m_MessageLog l @ ts),
    lg_console := lg_console l @ concat (map printed ts)\<rparr>)"
  using assms
proof (induction ts arbitrary: l)
  case Nil
  then show ?case by (simp add: newest_short)
next
  case (Cons t ts)
  then show ?case by (simp add: Logprintf_spec length_newest newest_snoc)
qed

section \<open>Reading a dump\<close>

fun unhex :: "char \<Rightarrow> nat" where
  "unhex c = (if CHR ''a'' \<le> c then of_char c - 87 else of_char c - 48)"

fun hex_cells :: "string \<Rightarrow> string" where
  "hex_cells (a # b # c # cs) =
     (if a = SP then [] else char_of (16 * unhex a + unhex b) # hex_cells cs)"
| "hex_cells _ = []"

definition row_bytes :: "string \<Rightarrow> string" where
  "row_bytes row = hex_cells (drop 8 row)"

lemma hex_digit: "k < 16 \<Longrightarrow> unhex (''0123456789abcdef'' ! k) = k \<and> ''0123456789abcdef'' ! k \<noteq> SP \<and>
    ''0123456789abcdef'' ! k \<noteq> LF"
proof -
  have "\<forall>k \<in> {0..<16}. unhex (''0123456789abcdef'' ! k) = k \<and> ''0123456789abcdef'' ! k \<noteq> SP \<and>
    ''0123456789abcdef'' ! k \<noteq> LF" by code_simp
  then show "k < 16 \<Longrightarrow> ?thesis" by auto
qed

lemma unat_byte_of: "unat (byte_of c) = of_char c"
  by (simp add: byte_of_def unat_of_nat take_bit_eq_mod)

lemma hex_cells_byte: "hex_cells (hex_byte (byte_of c) @ x # cs) = c # hex_cells cs"
proof -
  have "(of_char c :: nat) div 16 < 16" by (simp add: less_mult_imp_div_less)
  from hex_digit [OF this] hex_digit [of "of_char c mod 16"] show ?thesis
    by (simp add: hex_byte_def unat_byte_of Let_def del: unhex.simps)
qed

lemma hex_cells_row:
  "hex_cells (concat (map (\<lambda>c. hex_byte (byte_of c) @ '' '') cs) @ rest) = cs @ hex_cells rest"
  by (induction cs) (simp_all add: hex_cells_byte)

lemma length_nat_hex: "n < 16 ^ k \<Longrightarrow> 0 < k \<Longrightarrow> length (nat_hex n) \<le> k"
proof (induction k arbitrary: n)
  case 0
  then show ?case by simp
next
  case (Suc k)
  show ?case
  proof (cases "n < 16")
    case True
    then show ?thesis by (subst nat_hex.simps) simp
  next
    case False
    then have "0 < k" using Suc.prems by (cases k) auto
    moreover have "n div 16 < 16 ^ k" using Suc.prems by (simp add: less_mult_imp_div_less)
    ultimately have "length (nat_hex (n div 16)) \<le> k" by (rule Suc.IH [rotated])
    then show ?thesis using False by (subst nat_hex.simps) simp
  qed
qed

lemma length_hex6: "n < 16 ^ 6 \<Longrightarrow> length (hex6 n) = 6"
  using length_nat_hex [of n 6] by (simp add: hex6_def Let_def)

lemma row_bytes_row:
  assumes "offset < 16 ^ 6" "length cs \<le> 16"
  shows "row_bytes (dump_row offset cs) = cs"
proof -
  have "hex_cells (concat (replicate k ''   '') @ SP # CHR ''['' # u) = []" if "u \<noteq> []" for k u
    using that by (cases k; cases u) simp_all
  then show ?thesis using assms
    by (simp add: row_bytes_def dump_row_def length_hex6 hex_cells_row)
qed

text \<open>The rows of a dump of given bytes.\<close>

function rows_of :: "nat \<Rightarrow> string \<Rightarrow> string list" where
  "rows_of offset s =
     (if s = [] then [] else dump_row offset (take 16 s) # rows_of (offset + 16) (drop 16 s))"
  by pat_completeness auto
termination
  by (relation "measure (\<lambda>(_, s). length s)") auto

declare rows_of.simps [simp del]

lemma row_cells:
  assumes "i < length s"
  shows "mem_slice (map Some s @ rest) (int i) (min 16 (int (length s) - int i)) = Inr (map Some (take 16 (drop i s)))"
proof -
  have n: "min 16 (int (length s) - int i) = int (min 16 (length s - i))" using assms by auto
  show ?thesis unfolding n using assms by (auto simp: mem_slice_def drop_map take_map min_def)
qed

lemma dump_rows_spec:
  "dump_rows (map Some s @ rest) (int (length s) - 1) (int i) = Inr (concat (rows_of i (drop i s)))"
proof (induction "length s - i" arbitrary: i rule: less_induct)
  case less
  show ?case
  proof (cases "i < length s")
    case False
    then show ?thesis by (subst dump_rows.simps, subst rows_of.simps) simp
  next
    case True
    then have "dump_rows (map Some s @ rest) (int (length s) - 1) (int (i + 16)) =
        Inr (concat (rows_of (i + 16) (drop (i + 16) s)))" by (intro less) simp
    then show ?thesis using True row_cells [OF True]
      by (subst dump_rows.simps, subst rows_of.simps) (simp add: add.commute)
  qed
qed

lemma dump_rows_overrun:
  "int (length s) \<le> n \<Longrightarrow> int i \<le> n \<Longrightarrow> dump_rows (map Some s) n (int i) = Inl OutOfBounds"
proof (induction "nat (n - int i)" arbitrary: i rule: less_induct)
  case less
  show ?case
  proof (cases "int i + min 16 (n + 1 - int i) \<le> int (length s)")
    case False
    then show ?thesis using less.prems by (subst dump_rows.simps) (auto simp: mem_slice_def)
  next
    case True
    then have i: "int (i + 16) \<le> n" using less.prems by auto
    have "dump_rows (map Some s) n (int (i + 16)) = Inl OutOfBounds"
      using less.prems i by (intro less.hyps) auto
    then show ?thesis using less.prems True
      by (subst dump_rows.simps) (auto simp: mem_slice_def drop_map take_map add.commute)
  qed
qed

lemma rows_of_bytes:
  "offset + length s \<le> 16 ^ 6 \<Longrightarrow> concat (map row_bytes (rows_of offset s)) = s"
proof (induction offset s rule: rows_of.induct)
  case (1 offset s)
  show ?case
  proof (cases "s = []")
    case True
    then show ?thesis by (subst rows_of.simps) simp
  next
    case False
    then have "row_bytes (dump_row offset (take 16 s)) = take 16 s" using 1(2) by (intro row_bytes_row) (cases s; auto)+
    moreover have "concat (map row_bytes (rows_of (offset + 16) (drop 16 s))) = drop 16 s"
    proof (cases "length s \<le> 16")
      case True
      then show ?thesis by (subst rows_of.simps) simp
    next
      case F: False
      then show ?thesis using 1(1) [OF False] 1(2) by simp
    qed
    ultimately show ?thesis using False by (subst rows_of.simps) simp
  qed
qed

lemma nat_hex_no_LF: "LF \<notin> set (nat_hex n)"
proof (induction n rule: nat_hex.induct)
  case (1 n)
  then show ?case using hex_digit [of n] hex_digit [of "n mod 16"] by (subst nat_hex.simps) auto
qed

lemma hex_byte_no_LF: "LF \<notin> set (hex_byte (byte_of c))"
proof -
  have "(of_char c :: nat) div 16 < 16" by (simp add: less_mult_imp_div_less)
  from hex_digit [OF this] hex_digit [of "of_char c mod 16"] show ?thesis
    by (auto simp: hex_byte_def unat_byte_of Let_def simp del: unhex.simps)
qed

lemma shown_not_LF: "shown c \<noteq> LF"
  by (auto simp: shown_def schar_def)

lemma dump_row_line: "\<exists>u. dump_row offset cs = u @ [LF] \<and> LF \<notin> set u"
  using nat_hex_no_LF [of offset] hex_byte_no_LF shown_not_LF
  by (intro exI [of _ "hex6 offset @ ''  '' @ concat (map (\<lambda>c. hex_byte (byte_of c) @ '' '') cs) @
     concat (replicate (16 - length cs) ''   '') @ '' ['' @ map shown cs @ '']''"])
    (auto simp: dump_row_def hex6_def Let_def dest: sym [THEN notE [OF shown_not_LF]])

lemma rows_of_lines: "row \<in> set (rows_of offset s) \<Longrightarrow> \<exists>u. row = u @ [LF] \<and> LF \<notin> set u"
proof (induction offset s rule: rows_of.induct)
  case (1 offset s)
  then show ?case using dump_row_line [of offset "take 16 s"]
    by (subst (asm) (2) rows_of.simps) (auto split: if_splits)
qed

lemma DebugDump_spec:
  assumes "s \<noteq> []" "1 < length s" "m_FileLogging l \<longrightarrow> opened"
  shows "DebugDump opened szText (Some (map Some s @ rest)) (int (length s) - 1) l =
    (let text = dump_title szText (int (length s) - 1) @ concat (rows_of 0 s)
     in Inr (l\<lparr>lg_console := lg_console l @ (if m_DisplayLogging l then text else []),
                lg_file := lg_file l @ (if m_FileLogging l then text else [])\<rparr>))"
  using assms dump_rows_spec [of s rest 0] by (auto simp: DebugDump_def Let_def)

lemma DebugDump_overrun:
  "s \<noteq> [] \<Longrightarrow> opened \<Longrightarrow> DebugDump opened szText (Some (map Some s)) (int (length s)) l = Inl OutOfBounds"
  using dump_rows_overrun [of s "int (length s)" 0] by (cases s) (auto simp: DebugDump_def Let_def)

end
