(* ===== verification/Exceptions.thy ===== *)
theory Exceptions
  imports Threads Logging
begin

text \<open>
  \<open>exception.h\<close> and \<open>exception.cpp\<close>: the class \<open>cException\<close>, its buffers of fixed size, and the macros
  that throw. What \<open>backtrace_symbols\<close> or the stack walker finds is an argument. A result \<open>Some 99\<close> of
  \<open>Log\<close> is the end of the process with that code.
\<close>

record cException =
  m_reason :: block
  m_function :: block
  m_filename :: block
  m_line :: int

text \<open>The constructor sets the line only.\<close>

definition new_cException :: cException where
  "new_cException =
     \<lparr>m_reason = replicate 2048 None, m_function = replicate 1024 None, m_filename = replicate 260 None,
      m_line = 0\<rparr>"

text \<open>What \<open>strncpy\<close> reads of its source: up to \<open>n\<close> characters, no further than the NUL.\<close>

fun read_cstr_n :: "nat \<Rightarrow> block \<Rightarrow> string result" where
  "read_cstr_n 0 b = Inr []"
| "read_cstr_n (Suc n) [] = Inl OutOfBounds"
| "read_cstr_n (Suc n) (None # b) = Inl Indeterminate"
| "read_cstr_n (Suc n) (Some c # b) =
     (if c = NUL then Inr [] else rbind (read_cstr_n n b) (\<lambda>s. Inr (c # s)))"

text \<open>\<open>strncpy(dst, src, n); dst[n] = 0;\<close> from a text and from a buffer.\<close>

definition set_field :: "block \<Rightarrow> string \<Rightarrow> nat \<Rightarrow> block result" where
  "set_field dst src n = rbind (strncpy dst src n) (\<lambda>b. mem_write b (int n) NUL)"

definition copy_field :: "block \<Rightarrow> block \<Rightarrow> nat \<Rightarrow> block result" where
  "copy_field dst src n = rbind (read_cstr_n n src) (\<lambda>s. set_field dst s n)"

definition copy_texts :: "cException \<Rightarrow> cException \<Rightarrow> cException result" where
  "copy_texts to from =
     rbind (copy_field (m_filename to) (m_filename from) 259) (\<lambda>f.
     rbind (copy_field (m_function to) (m_function from) 1023) (\<lambda>g.
     rbind (copy_field (m_reason to) (m_reason from) 2047) (\<lambda>r.
     Inr (to\<lparr>m_filename := f, m_function := g, m_reason := r\<rparr>))))"

definition Exception_copy :: "cException \<Rightarrow> cException result" where
  "Exception_copy other = rbind (copy_texts new_cException other) (\<lambda>e. Inr (e\<lparr>m_line := m_line other\<rparr>))"

text \<open>The line of the other one stays: its statement is an expression without an assignment.\<close>

definition Exception_Swap :: "cException \<Rightarrow> cException \<Rightarrow> (cException \<times> cException) result" where
  "Exception_Swap this other =
     rbind (Exception_copy other) (\<lambda>temp.
     rbind (copy_texts other this) (\<lambda>other.
     rbind (copy_texts this temp) (\<lambda>this.
     Inr (this\<lparr>m_line := m_line temp\<rparr>, other))))"

definition Exception_assign :: "cException \<Rightarrow> cException \<Rightarrow> cException result" where
  "Exception_assign this other =
     rbind (Exception_copy other) (\<lambda>temp. rbind (Exception_Swap this temp) (\<lambda>(this, _). Inr this))"

definition Explaination :: "string \<Rightarrow> string \<Rightarrow> string \<Rightarrow> int \<Rightarrow> cException \<Rightarrow> cException result" where
  "Explaination pReason pFunction pFilename line e =
     rbind (set_field (m_reason e) pReason 2047) (\<lambda>r.
     rbind (set_field (m_function e) pFunction 1023) (\<lambda>g.
     rbind (set_field (m_filename e) pFilename 259) (\<lambda>f.
     Inr (e\<lparr>m_reason := r, m_function := g, m_filename := f, m_line := line\<rparr>))))"

text \<open>On Windows an event is one text of the event log, and nothing is printed.\<close>

definition LogEvent_Windows :: "int \<Rightarrow> string \<Rightarrow> cLog \<Rightarrow> cLog result" where
  "LogEvent_Windows kind text l =
     rbind (to_buffer LOG_BUF_SZ text) (\<lambda>buf. Inr (l\<lparr>lg_events := lg_events l @ [(kind, buf)]\<rparr>))"

text \<open>\<open>LOGERROR\<close> passes its text as the format of the event.\<close>

definition LOGERROR :: "bool \<Rightarrow> string \<Rightarrow> cLog \<Rightarrow> cLog result" where
  "LOGERROR posix text l =
     rbind (format0 text) (\<lambda>t. if posix then LogEvent 3 t l else LogEvent_Windows 1 t l)"

text \<open>What is logged of an exception.\<close>

definition error_text :: "string \<Rightarrow> string \<Rightarrow> string \<Rightarrow> int \<Rightarrow> string" where
  "error_text r g f n = ''Exception error: '' @ r @ '' in '' @ g @ '' '' @ f @ '':'' @ int_text n"

definition Exception_text :: "cException \<Rightarrow> string result" where
  "Exception_text e =
     rbind (read_cstr (m_reason e)) (\<lambda>r.
     rbind (read_cstr (m_function e)) (\<lambda>g.
     rbind (read_cstr (m_filename e)) (\<lambda>f.
     to_buffer 8096 (error_text r g f (m_line e)))))"

definition Exception_Log :: "bool \<Rightarrow> string \<Rightarrow> cException \<Rightarrow> cLog \<Rightarrow> (int option \<times> cLog) result" where
  "Exception_Log posix trace e l =
     rbind (Exception_text e) (\<lambda>buffer.
     rbind (LOGERROR posix buffer l) (\<lambda>l.
     let l = (if posix then l\<lparr>lg_console := lg_console l @ ''[bt] Execution path:'' @ [LF]\<rparr> else l)
     in rbind (LOGERROR posix trace l) (\<lambda>l. Inr (if posix then Some 99 else None, l))))"

text \<open>The macro \<open>THROW\<close>: the end of the process, or the exception that is thrown.\<close>

definition THROW ::
  "bool \<Rightarrow> string \<Rightarrow> string \<Rightarrow> string \<Rightarrow> string \<Rightarrow> int \<Rightarrow> cLog \<Rightarrow> ((int + cException) \<times> cLog) result" where
  "THROW posix trace reason func file line l =
     rbind (Explaination reason func file line new_cException) (\<lambda>e.
     rbind (Exception_Log posix trace e l) (\<lambda>(ended, l).
     case ended of
       Some rc \<Rightarrow> Inr (Inl rc, l)
     | None \<Rightarrow> rbind (Exception_copy e) (\<lambda>e. Inr (Inr e, l))))"

text \<open>The macro \<open>MC_ASSERT\<close>, whose text goes to a buffer of 256 bytes.\<close>

definition MC_ASSERT :: "bool \<Rightarrow> string \<Rightarrow> string \<Rightarrow> int \<Rightarrow> unit result" where
  "MC_ASSERT ok condition file line =
     (if ok then Inr ()
      else rbind (to_buffer 256 (''['' @ condition @ ''] failed at '' @ file @ '':'' @ int_text line))
             (\<lambda>_. Inl AssertFailed))"

section \<open>What an exception says\<close>

definition text_in :: "block \<Rightarrow> string \<Rightarrow> nat \<Rightarrow> bool" where
  "text_in b s n \<longleftrightarrow> NUL \<notin> set s \<and> length s \<le> n \<and> length b = Suc n \<and> (\<exists>rest. b = map Some s @ Some NUL # rest)"

definition says :: "cException \<Rightarrow> string \<Rightarrow> string \<Rightarrow> string \<Rightarrow> int \<Rightarrow> bool" where
  "says e reason func file line \<longleftrightarrow>
     text_in (m_reason e) reason 2047 \<and> text_in (m_function e) func 1023 \<and>
     text_in (m_filename e) file 259 \<and> m_line e = line"

definition sized :: "cException \<Rightarrow> bool" where
  "sized e \<longleftrightarrow> length (m_reason e) = 2048 \<and> length (m_function e) = 1024 \<and> length (m_filename e) = 260"

lemma says_sized: "says e r g f n \<Longrightarrow> sized e"
  by (simp add: says_def sized_def text_in_def)

lemma sized_new: "sized new_cException"
  by (simp add: sized_def new_cException_def)

lemma set_field_text:
  assumes "length dst = Suc n" "NUL \<notin> set s"
  shows "\<exists>b. set_field dst s n = Inr b \<and> text_in b (take n s) n"
proof -
  let ?t = "take n s @ replicate (n - length (take n s)) NUL"
  have l: "length ?t = n" by simp
  have c: "strncpy dst s n = Inr (map Some ?t @ drop n dst)"
  proof (cases "?t = []")
    case True
    then have "n = 0" using l by (metis list.size(3))
    then show ?thesis by (simp add: strncpy_def mem_store_def Let_def)
  next
    case False
    then show ?thesis using assms l by (auto simp: strncpy_def cstr_id mem_store_def Let_def)
  qed
  have d: "drop n dst = dst ! n # drop (Suc n) dst" using assms(1) by (simp only: Cons_nth_drop_Suc [of n dst, symmetric] lessI)
  have w: "mem_write (map Some ?t @ dst ! n # drop (Suc n) dst) (int n) NUL =
      Inr (map Some ?t @ Some NUL # drop (Suc n) dst)"
    using l by (auto simp: mem_write_def list_update_append)
  have "text_in (map Some ?t @ Some NUL # drop (Suc n) dst) (take n s) n"
    using assms by (cases "n - length s") (auto simp: text_in_def min_def dest: in_set_takeD)
  then show ?thesis using c w unfolding d by (auto simp: set_field_def)
qed

lemma read_text: "text_in b s n \<Longrightarrow> read_cstr b = Inr s"
proof -
  have "NUL \<notin> set s \<Longrightarrow> read_cstr (map Some s @ Some NUL # rest) = Inr s" for rest
    by (induction s) auto
  then show "text_in b s n \<Longrightarrow> ?thesis" by (auto simp: text_in_def)
qed

lemma read_text_n: "text_in b s n \<Longrightarrow> read_cstr_n n b = Inr s"
proof -
  have "NUL \<notin> set s \<Longrightarrow> length s \<le> n \<Longrightarrow> read_cstr_n n (map Some s @ Some NUL # rest) = Inr s" for rest n
  proof (induction s arbitrary: n)
    case Nil
    then show ?case by (cases n) auto
  next
    case (Cons c s)
    then show ?case by (cases n) auto
  qed
  then show "text_in b s n \<Longrightarrow> ?thesis" by (auto simp: text_in_def)
qed

lemma copy_field_text:
  assumes "length dst = Suc n" "text_in src s n"
  shows "\<exists>b. copy_field dst src n = Inr b \<and> text_in b s n"
proof -
  have "NUL \<notin> set s" "take n s = s" using assms(2) by (auto simp: text_in_def)
  then show ?thesis using set_field_text [OF assms(1), of s] read_text_n [OF assms(2)]
    by (auto simp: copy_field_def)
qed

lemma copy_texts_says:
  assumes "sized to" "says from r g f n"
  shows "\<exists>e. copy_texts to from = Inr e \<and> says e r g f (m_line to)"
proof -
  have l: "length (m_filename to) = Suc 259" "length (m_function to) = Suc 1023" "length (m_reason to) = Suc 2047"
    using assms(1) by (simp_all add: sized_def)
  have t: "text_in (m_filename from) f 259" "text_in (m_function from) g 1023" "text_in (m_reason from) r 2047"
    using assms(2) by (simp_all add: says_def)
  from copy_field_text [OF l(1) t(1)] copy_field_text [OF l(2) t(2)] copy_field_text [OF l(3) t(3)]
  show ?thesis by (auto simp: copy_texts_def says_def)
qed

lemma Exception_copy_says:
  assumes "says e r g f n"
  shows "\<exists>c. Exception_copy e = Inr c \<and> says c r g f n"
proof -
  from copy_texts_says [OF sized_new assms] obtain c where
    "copy_texts new_cException e = Inr c" "says c r g f (m_line new_cException)" by blast
  moreover have "m_line e = n" using assms by (simp add: says_def)
  ultimately show ?thesis by (auto simp: Exception_copy_def says_def)
qed

lemma Exception_Swap_says:
  assumes "says a r g f n" "says b r' g' f' n'"
  shows "\<exists>a' b'. Exception_Swap a b = Inr (a', b') \<and> says a' r' g' f' n' \<and> says b' r g f n'"
proof -
  from Exception_copy_says [OF assms(2)] obtain t where t: "Exception_copy b = Inr t" "says t r' g' f' n'" by blast
  from copy_texts_says [OF says_sized [OF assms(2)] assms(1)] obtain b' where
    b': "copy_texts b a = Inr b'" "says b' r g f (m_line b)" by blast
  from copy_texts_says [OF says_sized [OF assms(1)] t(2)] obtain a' where
    a': "copy_texts a t = Inr a'" "says a' r' g' f' (m_line a)" by blast
  show ?thesis using t a' b' assms(2) by (auto simp: Exception_Swap_def says_def)
qed

lemma Exception_assign_says:
  assumes "says a r g f n" "says b r' g' f' n'"
  shows "\<exists>a'. Exception_assign a b = Inr a' \<and> says a' r' g' f' n'"
proof -
  from Exception_copy_says [OF assms(2)] obtain t where t: "Exception_copy b = Inr t" "says t r' g' f' n'" by blast
  from Exception_Swap_says [OF assms(1) t(2)] t(1) show ?thesis by (auto simp: Exception_assign_def)
qed

text \<open>An exception without a text cannot be copied or assigned to: its buffers were never written.\<close>

lemma copy_of_new: "Exception_copy new_cException = Inl Indeterminate"
proof -
  have "read_cstr_n 259 (replicate 260 None) = Inl Indeterminate" by (simp add: numeral_eq_Suc)
  then show ?thesis by (simp add: Exception_copy_def copy_texts_def copy_field_def new_cException_def)
qed

lemma assign_to_new:
  assumes "says b r g f n"
  shows "Exception_assign new_cException b = Inl Indeterminate"
proof -
  from Exception_copy_says [OF assms] obtain t where t: "Exception_copy b = Inr t" "says t r g f n" by blast
  from Exception_copy_says [OF t(2)] obtain u where u: "Exception_copy t = Inr u" by blast
  have "read_cstr_n 259 (replicate 260 None) = Inl Indeterminate" by (simp add: numeral_eq_Suc)
  then have "copy_texts t new_cException = Inl Indeterminate"
    by (simp add: copy_texts_def copy_field_def new_cException_def)
  then show ?thesis using t(1) u by (simp add: Exception_assign_def Exception_Swap_def)
qed

section \<open>\<open>THROW\<close>\<close>

lemma Explaination_says:
  assumes "sized e" "NUL \<notin> set r" "NUL \<notin> set g" "NUL \<notin> set f"
  shows "\<exists>e'. Explaination r g f n e = Inr e' \<and> says e' (take 2047 r) (take 1023 g) (take 259 f) n"
proof -
  have l: "length (m_filename e) = Suc 259" "length (m_function e) = Suc 1023" "length (m_reason e) = Suc 2047"
    using assms(1) by (simp_all add: sized_def)
  from set_field_text [OF l(1) assms(4)] set_field_text [OF l(2) assms(3)] set_field_text [OF l(3) assms(2)]
  show ?thesis by (auto simp: Explaination_def says_def)
qed

lemma format0_plain: "CHR ''%'' \<notin> set s \<Longrightarrow> format0 s = Inr s"
  by (induction s rule: format0.induct) auto

lemma LOGERROR_plain:
  assumes "CHR ''%'' \<notin> set t" "NUL \<notin> set t" "length t < LOG_BUF_SZ"
  shows "\<exists>l'. LOGERROR posix t l = Inr l' \<and>
    lg_events l' = lg_events l @ [(if posix then 3 else 1, t)] \<and> lg_file l' = lg_file l"
  using assms format0_plain [OF assms(1)]
  by (simp add: LOGERROR_def LogEvent_def LogEvent_Windows_def to_buffer_def cstr_id)

definition plain :: "string \<Rightarrow> bool" where
  "plain s \<longleftrightarrow> CHR ''%'' \<notin> set s \<and> NUL \<notin> set s \<and> length s < 8096"

lemma Exception_text_says:
  assumes "says e r g f n" "length (error_text r g f n) < 8096" "plain (error_text r g f n)"
  shows "Exception_text e = Inr (error_text r g f n)"
proof -
  have "read_cstr (m_reason e) = Inr r" "read_cstr (m_function e) = Inr g" "read_cstr (m_filename e) = Inr f"
    using assms(1) by (auto simp: says_def intro: read_text)
  then show ?thesis using assms by (simp add: Exception_text_def says_def to_buffer_def plain_def cstr_id)
qed

lemma Exception_Log_says:
  assumes "says e r g f n" "plain (error_text r g f n)" "plain trace"
  shows "\<exists>l'. Exception_Log posix trace e l = Inr (if posix then Some 99 else None, l') \<and>
    lg_events l' = lg_events l @ map (Pair (if posix then 3 else 1)) [error_text r g f n, trace]"
proof -
  let ?t = "error_text r g f n"
  have p: "CHR ''%'' \<notin> set s" "NUL \<notin> set s" "length s < LOG_BUF_SZ" if "plain s" for s
    using that by (auto simp: plain_def LOG_BUF_SZ_def)
  from LOGERROR_plain [OF p [OF assms(2)], of posix l] obtain l1 where
    l1: "LOGERROR posix ?t l = Inr l1" "lg_events l1 = lg_events l @ [(if posix then 3 else 1, ?t)]" by blast
  let ?l1 = "if posix then l1\<lparr>lg_console := lg_console l1 @ ''[bt] Execution path:'' @ [LF]\<rparr> else l1"
  from LOGERROR_plain [OF p [OF assms(3)], of posix ?l1] obtain l2 where
    l2: "LOGERROR posix trace ?l1 = Inr l2" "lg_events l2 = lg_events ?l1 @ [(if posix then 3 else 1, trace)]" by blast
  have "Exception_text e = Inr ?t" using assms by (intro Exception_text_says) (auto simp: plain_def)
  then show ?thesis using l1 l2 by (auto simp: Exception_Log_def Let_def)
qed

lemma THROW_outcome:
  assumes "NUL \<notin> set r" "NUL \<notin> set g" "NUL \<notin> set f"
    and "plain (error_text (take 2047 r) (take 1023 g) (take 259 f) n)" "plain trace"
  shows "\<exists>out l'. THROW posix trace r g f n l = Inr (out, l') \<and>
    (if posix then out = Inl 99 else (\<exists>e. out = Inr e \<and> says e (take 2047 r) (take 1023 g) (take 259 f) n)) \<and>
    lg_events l' = lg_events l @
      map (Pair (if posix then 3 else 1)) [error_text (take 2047 r) (take 1023 g) (take 259 f) n, trace]"
proof -
  from Explaination_says [OF sized_new assms(1-3), of n] obtain e where
    e: "Explaination r g f n new_cException = Inr e" "says e (take 2047 r) (take 1023 g) (take 259 f) n" by blast
  from Exception_Log_says [OF e(2) assms(4,5), of posix l] obtain l' where
    l': "Exception_Log posix trace e l = Inr (if posix then Some 99 else None, l')"
      "lg_events l' = lg_events l @
        map (Pair (if posix then 3 else 1)) [error_text (take 2047 r) (take 1023 g) (take 259 f) n, trace]" by blast
  from Exception_copy_says [OF e(2)] obtain c where
    c: "Exception_copy e = Inr c" "says c (take 2047 r) (take 1023 g) (take 259 f) n" by blast
  show ?thesis using e(1) l' c by (cases posix) (simp_all add: THROW_def)
qed

end
