(* ===== verification/Databases.thy ===== *)
theory Databases
  imports Logging
begin

text \<open>
  \<open>idatabase.h\<close>, \<open>mcodbc.h\<close> and \<open>mcodbc.cpp\<close>: the class \<open>cMCODBC\<close>, a connection to a database over
  ODBC. The answers of the ODBC library are arguments, the record \<open>odbc\<close>: each may depend on the number
  of calls made so far. The state \<open>odbc_world\<close> keeps the handles that the library has given out and not
  taken back and, among them, those whose release it was asked for and refused. What \<open>OK\<close> reports about a failed call is a function of its own, \<open>OK_report\<close>, which the
  operations do not repeat: it changes nothing that they use. The MySQL class is empty unless \<open>_USEDB\<close>
  is set, which nothing does.
\<close>

definition HRC_DB_SUCCESS :: int where "HRC_DB_SUCCESS = 0"
definition HRC_DB_CONNECTION_FAILURE :: int where "HRC_DB_CONNECTION_FAILURE = 1"
definition HRC_DB_QUERY_FAILURE :: int where "HRC_DB_QUERY_FAILURE = 2"
definition HRC_DB_ROWFETCH_FAILURE :: int where "HRC_DB_ROWFETCH_FAILURE = 3"

text \<open>A return code: 0 is \<open>SQL_SUCCESS\<close>, 1 is \<open>SQL_SUCCESS_WITH_INFO\<close>.\<close>

datatype handle_kind = Henv | Hdbc | Hstmt

datatype sql_fn = Alloc handle_kind | Free handle_kind | Other

record odbc =
  ol_rc :: "nat \<Rightarrow> sql_fn \<Rightarrow> int"
  ol_handle :: "nat \<Rightarrow> int"
  ol_columns :: "nat \<Rightarrow> int"
  ol_data :: "nat \<Rightarrow> int \<Rightarrow> string option"

record odbc_world =
  ow_calls :: nat
  ow_live :: "(handle_kind \<times> int) set"
  ow_refused :: "(handle_kind \<times> int) set"

definition OK_code :: "int \<Rightarrow> bool" where
  "OK_code r = (r = 0 \<or> r = 1)"

text \<open>Calls: any of them, one that gives out a handle, one that takes it back. The null handle is 0.\<close>

definition sql_call :: "odbc \<Rightarrow> odbc_world \<Rightarrow> int \<times> odbc_world" where
  "sql_call lib w = (ol_rc lib (ow_calls w) Other, w\<lparr>ow_calls := ow_calls w + 1\<rparr>)"

definition sql_alloc :: "odbc \<Rightarrow> handle_kind \<Rightarrow> odbc_world \<Rightarrow> int \<times> int \<times> odbc_world" where
  "sql_alloc lib k w =
     (let n = ow_calls w; r = ol_rc lib n (Alloc k); h = ol_handle lib n;
          w = w\<lparr>ow_calls := n + 1\<rparr>
      in if OK_code r
         then (r, h, w\<lparr>ow_live := insert (k, h) (ow_live w), ow_refused := ow_refused w - {(k, h)}\<rparr>)
         else (r, 0, w))"

definition sql_free :: "odbc \<Rightarrow> handle_kind \<Rightarrow> int \<Rightarrow> odbc_world \<Rightarrow> int \<times> odbc_world" where
  "sql_free lib k h w =
     (let r = ol_rc lib (ow_calls w) (Free k); w = w\<lparr>ow_calls := ow_calls w + 1\<rparr>
      in (r, if OK_code r then w\<lparr>ow_live := ow_live w - {(k, h)}, ow_refused := ow_refused w - {(k, h)}\<rparr>
              else w\<lparr>ow_refused := insert (k, h) (ow_refused w)\<rparr>))"

record cMCODBC =
  db_bOpen :: bool
  m_hEnv :: int
  m_hDBC :: int
  m_hQuery :: int
  m_lLoginTimeout :: int
  m_lQueryTimeout :: int
  m_iTotalFields :: "int option"
  m_iCol :: int
  m_Cmd :: cBuffer
  m_Connect :: cBuffer
  m_FieldBuffer :: cBuffer

definition new_cMCODBC :: cMCODBC where
  "new_cMCODBC =
     \<lparr>db_bOpen = False, m_hEnv = 0, m_hDBC = 0, m_hQuery = 0, m_lLoginTimeout = 0, m_lQueryTimeout = 0,
      m_iTotalFields = None, m_iCol = 1, m_Cmd = new_cBuffer, m_Connect = new_cBuffer,
      m_FieldBuffer = new_cBuffer\<rparr>"

text \<open>The three blocks of \<open>Disconnect\<close>; \<open>Query\<close> begins with the first of them.\<close>

definition free_query :: "odbc \<Rightarrow> cMCODBC \<times> odbc_world \<Rightarrow> cMCODBC \<times> odbc_world" where
  "free_query lib = (\<lambda>(d, w).
     if m_hQuery d \<noteq> 0 then (d\<lparr>m_hQuery := 0\<rparr>, snd (sql_free lib Hstmt (m_hQuery d) w)) else (d, w))"

definition free_connection :: "odbc \<Rightarrow> cMCODBC \<times> odbc_world \<Rightarrow> cMCODBC \<times> odbc_world" where
  "free_connection lib = (\<lambda>(d, w).
     if m_hDBC d \<noteq> 0 then (d\<lparr>m_hDBC := 0\<rparr>, snd (sql_free lib Hdbc (m_hDBC d) (snd (sql_call lib w)))) else (d, w))"

definition free_environment :: "odbc \<Rightarrow> cMCODBC \<times> odbc_world \<Rightarrow> cMCODBC \<times> odbc_world" where
  "free_environment lib = (\<lambda>(d, w).
     if m_hEnv d \<noteq> 0 then (d\<lparr>m_hEnv := 0\<rparr>, snd (sql_free lib Henv (m_hEnv d) w)) else (d, w))"

definition DB_Disconnect :: "odbc \<Rightarrow> cMCODBC \<times> odbc_world \<Rightarrow> int \<times> cMCODBC \<times> odbc_world" where
  "DB_Disconnect lib s =
     (let (d, w) = free_environment lib (free_connection lib (free_query lib s))
      in (HRC_DB_SUCCESS,
          d\<lparr>db_bOpen := False, m_Cmd := Buffer_Reset (m_Cmd d), m_Connect := Buffer_Reset (m_Connect d)\<rparr>, w))"

text \<open>
  \<open>Connect\<close> without its message about a failure. The environment counts as allocated only with the code
  for plain success, the other calls with either.
\<close>

definition open_driver :: "odbc \<Rightarrow> cMCODBC \<times> odbc_world \<Rightarrow> int \<times> cMCODBC \<times> odbc_world" where
  "open_driver lib = (\<lambda>(d, w).
     let w = (if m_lLoginTimeout d > 0 then snd (sql_call lib w) else w);
         (r, w) = sql_call lib w
     in if OK_code r then (HRC_DB_SUCCESS, d\<lparr>db_bOpen := True\<rparr>, w) else (HRC_DB_CONNECTION_FAILURE, d, w))"

definition open_connection :: "odbc \<Rightarrow> cMCODBC \<times> odbc_world \<Rightarrow> int \<times> cMCODBC \<times> odbc_world" where
  "open_connection lib = (\<lambda>(d, w).
     let (r, h, w) = sql_alloc lib Henv w;
         d = d\<lparr>m_hEnv := h\<rparr>
     in if r \<noteq> 0 then (HRC_DB_CONNECTION_FAILURE, d, w)
        else
          let (r, h, w) = sql_alloc lib Hdbc w;
              d = d\<lparr>m_hDBC := h\<rparr>
          in if \<not> OK_code r then (HRC_DB_CONNECTION_FAILURE, d, w) else open_driver lib (d, w))"

definition DB_Connect ::
  "odbc \<Rightarrow> string option \<Rightarrow> cMCODBC \<times> odbc_world \<Rightarrow> (int \<times> cMCODBC \<times> odbc_world) result" where
  "DB_Connect lib szConnect s =
     (let (_, d, w) = DB_Disconnect lib s
      in rbind (case szConnect of
                  None \<Rightarrow> Inr (m_Connect d)
                | Some t \<Rightarrow> rbind (Buffer_Sprintf (m_Connect d) 1024 (cstr t)) (\<lambda>(b, _). Inr b)) (\<lambda>b.
         Inr (open_connection lib (d\<lparr>m_Connect := b\<rparr>, w))))"

text \<open>The number of columns stays 0 when the call fails.\<close>

definition DB_GetFieldCount :: "odbc \<Rightarrow> odbc_world \<Rightarrow> int \<times> odbc_world" where
  "DB_GetFieldCount lib w =
     (let (r, w') = sql_call lib w in (if OK_code r then ol_columns lib (ow_calls w) else 0, w'))"

definition execute :: "odbc \<Rightarrow> cMCODBC \<times> odbc_world \<Rightarrow> bool \<times> cMCODBC \<times> odbc_world" where
  "execute lib = (\<lambda>(d, w).
     let w = (if m_lQueryTimeout d > 0 then snd (sql_call lib w) else w);
         (r, w) = sql_call lib w
     in (OK_code r, d\<lparr>m_Cmd := Buffer_Reset (m_Cmd d)\<rparr>, w))"

definition new_statement :: "odbc \<Rightarrow> cMCODBC \<times> odbc_world \<Rightarrow> bool \<times> cMCODBC \<times> odbc_world" where
  "new_statement lib s =
     (let (d, w) = free_query lib s;
          (r, h, w) = sql_alloc lib Hstmt w;
          d = d\<lparr>m_hQuery := h\<rparr>
      in if OK_code r then execute lib (d, w) else (False, d, w))"

definition DB_Query ::
  "odbc \<Rightarrow> string \<Rightarrow> cMCODBC \<times> odbc_world \<Rightarrow> (int \<times> cMCODBC \<times> odbc_world) result" where
  "DB_Query lib szQuery = (\<lambda>(d, w).
     rbind (Buffer_ReplaceWith (m_Cmd d) (Some (cmem szQuery)) (-1)) (\<lambda>(b, _).
     let d = d\<lparr>m_Cmd := b\<rparr>;
         (ok, d, w) = (if db_bOpen d then new_statement lib (d, w) else (False, d, w));
         (n, w) = DB_GetFieldCount lib w
     in Inr (if ok then HRC_DB_SUCCESS else HRC_DB_QUERY_FAILURE, d\<lparr>m_iTotalFields := Some n\<rparr>, w)))"

definition DB_GetRow :: "odbc \<Rightarrow> odbc_world \<Rightarrow> int \<times> odbc_world" where
  "DB_GetRow lib w =
     (let (r, w) = sql_call lib w in (if OK_code r then HRC_DB_SUCCESS else HRC_DB_ROWFETCH_FAILURE, w))"

text \<open>
  A column is read into the block of the field buffer: at most 15999 bytes and a NUL. The library
  reports the length of the whole value. A value that is null is not written and has the length -1.
\<close>

definition fetch_data :: "block \<Rightarrow> string option \<Rightarrow> (block \<times> int) result" where
  "fetch_data blk data =
     (case data of
        None \<Rightarrow> Inr (blk, -1)
      | Some t \<Rightarrow> rbind (write_chars blk 0 (take 15999 t @ [NUL])) (\<lambda>blk. Inr (blk, int (length t))))"

definition DB_GetField ::
  "odbc \<Rightarrow> int \<Rightarrow> cMCODBC \<times> odbc_world \<Rightarrow> (string \<times> cMCODBC \<times> odbc_world) result" where
  "DB_GetField lib iCol = (\<lambda>(d, w).
     rbind (Buffer_SetBufferSize (m_FieldBuffer d) 16000) (\<lambda>b.
     rbind (Buffer_GetBuffer (Buffer_Reset b)) (\<lambda>(b, p).
     let data = ol_data lib (ow_calls w) iCol;
         (r, w) = sql_call lib w
     in rbind (fetch_data (block_of p) data) (\<lambda>(blk, resultLen).
        rbind (Buffer_SetBufferLength (b\<lparr>m_pBuffer := Some blk\<rparr>) resultLen) (\<lambda>b.
        rbind (Buffer_GetBuffer b) (\<lambda>(b, p).
        rbind (read_cstr (block_of p)) (\<lambda>t. Inr (t, d\<lparr>m_FieldBuffer := b\<rparr>, w))))))))"

definition DB_GetFirstField ::
  "odbc \<Rightarrow> cMCODBC \<times> odbc_world \<Rightarrow> (string \<times> cMCODBC \<times> odbc_world) result" where
  "DB_GetFirstField lib = (\<lambda>(d, w). DB_GetField lib 1 (d\<lparr>m_iCol := 1\<rparr>, w))"

definition DB_GetNextField ::
  "odbc \<Rightarrow> cMCODBC \<times> odbc_world \<Rightarrow> (string option \<times> cMCODBC \<times> odbc_world) result" where
  "DB_GetNextField lib = (\<lambda>(d, w).
     let d = d\<lparr>m_iCol := m_iCol d + 1\<rparr>
     in case m_iTotalFields d of
          None \<Rightarrow> Inl Indeterminate
        | Some n \<Rightarrow>
            if m_iCol d > n then Inr (None, d, w)
            else rbind (DB_GetField lib (m_iCol d) (d, w)) (\<lambda>(t, d, w). Inr (Some t, d, w)))"

definition EscapeSingleQuotes :: "cBuffer \<Rightarrow> cBuffer result" where
  "EscapeSingleQuotes Text =
     rbind (Buffer_Replace Text [CHR 0x27] [CHR 0x27, CHR 0x27]) (\<lambda>(b, _). Inr b)"

definition SetLoginTimeout :: "int \<Rightarrow> cMCODBC \<Rightarrow> cMCODBC" where
  "SetLoginTimeout t d = (if t > 0 then d\<lparr>m_lLoginTimeout := t\<rparr> else d)"

definition SetQueryTimeout :: "int \<Rightarrow> cMCODBC \<Rightarrow> cMCODBC" where
  "SetQueryTimeout t d = (if t > 0 then d\<lparr>m_lQueryTimeout := t\<rparr> else d)"

section \<open>Reports\<close>

text \<open>
  What \<open>SQLError\<close> answers: that there is nothing to say, that it failed itself (which leaves the number
  unwritten), or a message with the number of the database and the state. \<open>OK\<close> gives the function behind
  \<open>pMsgFunc\<close> a text and a title for each message.
\<close>

datatype sql_error = No_diagnosis | No_answer | Diagnosed string int string

definition sql_title :: "string \<Rightarrow> int \<Rightarrow> string \<Rightarrow> string" where
  "sql_title szErrorMsg NativeError szSQLState =
     (let d = nat_hex (nat (NativeError mod 2 ^ 32))
      in ''ODBC [Error]:['' @ cstr szErrorMsg @ ''],['' @ cstr szSQLState @ '']('' @
           replicate (8 - length d) (CHR ''0'') @ d @ '')'')"

definition buffer_text :: "cBuffer \<Rightarrow> string result" where
  "buffer_text b =
     rbind (Buffer_GetBuffer b) (\<lambda>(_, p). case p of None \<Rightarrow> Inl NullPointer | Some blk \<Rightarrow> read_cstr blk)"

text \<open>The connection and the command that failed.\<close>

definition sql_place :: "cMCODBC \<Rightarrow> cBuffer result" where
  "sql_place d =
     rbind (if Buffer_IsEmpty (m_Connect d) then Inr ''Unknown Connection'' else buffer_text (m_Connect d)) (\<lambda>t.
     rbind (Buffer_ReplaceWith new_cBuffer (Some (cmem t)) (-1)) (\<lambda>(Err, _).
     if Buffer_IsEmpty (m_Cmd d) then Inr Err
     else rbind (Buffer_AppendText Err '' '') (\<lambda>Err.
          rbind (buffer_text (m_Cmd d)) (\<lambda>t. Buffer_AppendText Err t))))"

definition OK_report :: "sql_error \<Rightarrow> cMCODBC \<Rightarrow> int \<Rightarrow> (bool \<times> (string \<times> string) list) result" where
  "OK_report err d r =
     (if OK_code r then Inr (True, [])
      else case err of
             No_diagnosis \<Rightarrow> Inr (False, [])
           | No_answer \<Rightarrow> Inl Indeterminate
           | Diagnosed szErrorMsg NativeError szSQLState \<Rightarrow>
               rbind (Buffer_Sprintf new_cBuffer 1024 (sql_title szErrorMsg NativeError szSQLState)) (\<lambda>(Title, _).
               if NativeError = 0x1645 \<or> NativeError = 0x1647 then Inr (False, [])
               else rbind (buffer_text Title) (\<lambda>title.
                    rbind (sql_place d) (\<lambda>Err.
                    rbind (buffer_text Err) (\<lambda>text. Inr (False, [(title, ''Error''), (text, ''Error'')]))))))"

section \<open>Handles\<close>

definition held_one :: "handle_kind \<Rightarrow> int \<Rightarrow> (handle_kind \<times> int) set" where
  "held_one k h = (if h = 0 then {} else {(k, h)})"

definition held :: "cMCODBC \<Rightarrow> (handle_kind \<times> int) set" where
  "held d = held_one Henv (m_hEnv d) \<union> held_one Hdbc (m_hDBC d) \<union> held_one Hstmt (m_hQuery d)"

text \<open>
  A library that gives out no null handle, and one that takes back every handle. Only the first is assumed
  of the library: ODBC may refuse a release, that of a connection for one after a failed
  \<open>SQLDisconnect\<close>.
\<close>

definition lib_ok :: "odbc \<Rightarrow> bool" where
  "lib_ok lib \<longleftrightarrow> (\<forall>n. ol_handle lib n \<noteq> 0)"

definition takes_back :: "odbc \<Rightarrow> bool" where
  "takes_back lib \<longleftrightarrow> (\<forall>n k. OK_code (ol_rc lib n (Free k)))"

definition balanced :: "odbc \<Rightarrow> cMCODBC \<times> odbc_world \<Rightarrow> bool" where
  "balanced lib = (\<lambda>(d, w).
     ow_live w = held d \<union> ow_refused w \<and> (takes_back lib \<longrightarrow> ow_refused w = {}))"

lemma held_one_0 [simp]: "held_one k 0 = {}"
  by (simp add: held_one_def)

lemma call_live [simp]:
  "ow_live (snd (sql_call lib w)) = ow_live w" "ow_refused (snd (sql_call lib w)) = ow_refused w"
  by (simp_all add: sql_call_def)

text \<open>A handle that is given up is taken back or refused.\<close>

lemma free_live:
  "ow_live w = insert (k, h) H \<union> ow_refused w \<Longrightarrow> (k, h) \<notin> H \<Longrightarrow>
     ow_live (snd (sql_free lib k h w)) = H \<union> ow_refused (snd (sql_free lib k h w))"
  by (auto simp: sql_free_def Let_def)

lemma free_refused: "takes_back lib \<Longrightarrow> ow_refused w = {} \<Longrightarrow> ow_refused (snd (sql_free lib k h w)) = {}"
  by (simp add: sql_free_def takes_back_def Let_def)

lemma alloc_live:
  "lib_ok lib \<Longrightarrow> sql_alloc lib k w = (r, h, w') \<Longrightarrow>
     ow_live w' = ow_live w \<union> held_one k h \<and> (h \<noteq> 0 \<longleftrightarrow> OK_code r) \<and> ow_refused w' = ow_refused w - held_one k h"
  by (auto simp: sql_alloc_def lib_ok_def held_one_def Let_def split: if_splits)

lemma held_kinds:
  "m_hQuery d \<noteq> 0 \<Longrightarrow> held d = insert (Hstmt, m_hQuery d) (held (d\<lparr>m_hQuery := 0\<rparr>)) \<and> (Hstmt, m_hQuery d) \<notin> held (d\<lparr>m_hQuery := 0\<rparr>)"
  "m_hDBC d \<noteq> 0 \<Longrightarrow> held d = insert (Hdbc, m_hDBC d) (held (d\<lparr>m_hDBC := 0\<rparr>)) \<and> (Hdbc, m_hDBC d) \<notin> held (d\<lparr>m_hDBC := 0\<rparr>)"
  "m_hEnv d \<noteq> 0 \<Longrightarrow> held d = insert (Henv, m_hEnv d) (held (d\<lparr>m_hEnv := 0\<rparr>)) \<and> (Henv, m_hEnv d) \<notin> held (d\<lparr>m_hEnv := 0\<rparr>)"
  by (auto simp: held_def held_one_def)

lemma free_query_balanced:
  "balanced lib s \<Longrightarrow> balanced lib (free_query lib s) \<and> m_hQuery (fst (free_query lib s)) = 0"
  using held_kinds(1) [of "fst s"]
  by (cases s) (auto simp: free_query_def balanced_def free_live free_refused)

lemma free_connection_balanced:
  "balanced lib s \<Longrightarrow> balanced lib (free_connection lib s) \<and> m_hDBC (fst (free_connection lib s)) = 0 \<and>
     m_hQuery (fst (free_connection lib s)) = m_hQuery (fst s)"
  using held_kinds(2) [of "fst s"]
  by (cases s) (auto simp: free_connection_def balanced_def free_live free_refused)

lemma free_environment_balanced:
  "balanced lib s \<Longrightarrow> balanced lib (free_environment lib s) \<and> m_hEnv (fst (free_environment lib s)) = 0 \<and>
     m_hDBC (fst (free_environment lib s)) = m_hDBC (fst s) \<and> m_hQuery (fst (free_environment lib s)) = m_hQuery (fst s)"
  using held_kinds(3) [of "fst s"]
  by (cases s) (auto simp: free_environment_def balanced_def free_live free_refused)

lemma Disconnect_frees:
  assumes "balanced lib s" "DB_Disconnect lib s = (rc, d, w)"
  shows "balanced lib (d, w) \<and> ow_live w = ow_refused w \<and> m_hEnv d = 0 \<and> m_hDBC d = 0 \<and> m_hQuery d = 0 \<and> \<not> db_bOpen d"
proof -
  let ?a = "free_query lib s" and ?b = "free_connection lib (free_query lib s)"
  let ?c = "free_environment lib ?b"
  from free_query_balanced [OF assms(1)] have a: "balanced lib ?a" "m_hQuery (fst ?a) = 0" by auto
  from free_connection_balanced [OF a(1)] a(2)
  have b: "balanced lib ?b" "m_hDBC (fst ?b) = 0" "m_hQuery (fst ?b) = 0" by auto
  from free_environment_balanced [OF b(1)] b(2,3)
  have "balanced lib ?c" "m_hEnv (fst ?c) = 0" "m_hDBC (fst ?c) = 0" "m_hQuery (fst ?c) = 0" by auto
  then show ?thesis using assms(2) by (cases ?c) (auto simp: DB_Disconnect_def balanced_def held_def held_one_def)
qed

lemma open_driver_balanced:
  "balanced lib s \<Longrightarrow> open_driver lib s = (rc, s') \<Longrightarrow> balanced lib s'"
  by (cases s) (auto simp: open_driver_def balanced_def held_def sql_call_def Let_def split: if_splits)

lemma open_connection_balanced:
  assumes "lib_ok lib" "balanced lib (d, w)" "m_hEnv d = 0" "m_hDBC d = 0" "open_connection lib (d, w) = (rc, s')"
  shows "balanced lib s'"
proof -
  obtain r1 h1 w1 where 1: "sql_alloc lib Henv w = (r1, h1, w1)" by (cases "sql_alloc lib Henv w")
  obtain r2 h2 w2 where 2: "sql_alloc lib Hdbc w1 = (r2, h2, w2)" by (cases "sql_alloc lib Hdbc w1")
  have b1: "balanced lib (d\<lparr>m_hEnv := h1\<rparr>, w1)"
    using alloc_live [OF assms(1) 1] assms(2-4) by (auto simp: balanced_def held_def)
  have b2: "balanced lib (d\<lparr>m_hEnv := h1, m_hDBC := h2\<rparr>, w2)"
    using alloc_live [OF assms(1) 2] b1 assms(4) by (auto simp: balanced_def held_def)
  show ?thesis using assms(5) b1 b2 open_driver_balanced
    by (auto simp: open_connection_def 1 2 Let_def split: if_splits)
qed

lemma Connect_balanced:
  assumes "lib_ok lib" "balanced lib s" "DB_Connect lib t s = Inr (rc, s')"
  shows "balanced lib s'"
proof -
  obtain rc0 d w where 0: "DB_Disconnect lib s = (rc0, d, w)" by (cases "DB_Disconnect lib s")
  from Disconnect_frees [OF assms(2) 0] have z: "balanced lib (d, w)" "m_hEnv d = 0" "m_hDBC d = 0" "m_hQuery d = 0"
    by auto
  from assms(3) 0 obtain b where c: "open_connection lib (d\<lparr>m_Connect := b\<rparr>, w) = (rc, s')"
    by (auto simp: DB_Connect_def elim!: rbind_InrE)
  have "balanced lib (d\<lparr>m_Connect := b\<rparr>, w)" using z by (simp add: balanced_def held_def)
  from open_connection_balanced [OF assms(1) this _ _ c] z show ?thesis by simp
qed

lemma new_statement_balanced:
  assumes "lib_ok lib" "balanced lib s" "new_statement lib s = (ok, s')"
  shows "balanced lib s'"
proof -
  obtain d w where 1: "free_query lib s = (d, w)" by (cases "free_query lib s")
  from free_query_balanced [OF assms(2)] 1 have f: "balanced lib (d, w)" "m_hQuery d = 0" by auto
  obtain r h w' where 2: "sql_alloc lib Hstmt w = (r, h, w')" by (cases "sql_alloc lib Hstmt w")
  have b: "balanced lib (d\<lparr>m_hQuery := h\<rparr>, w')"
    using alloc_live [OF assms(1) 2] f by (auto simp: balanced_def held_def)
  have e: "balanced lib (snd (execute lib t))" if "balanced lib t" for t
    using that by (cases t) (simp add: execute_def balanced_def held_def sql_call_def Let_def)
  show ?thesis using assms(3) b e [OF b]
    by (cases "OK_code r") (auto simp: new_statement_def 1 2)
qed

lemma Query_balanced:
  assumes "lib_ok lib" "balanced lib s" "DB_Query lib q s = Inr (rc, s')"
  shows "balanced lib s'"
proof -
  obtain d0 w0 where s: "s = (d0, w0)" by (cases s)
  from assms(3) obtain b n where b: "Buffer_ReplaceWith (m_Cmd d0) (Some (cmem q)) (-1) = Inr (b, n)"
    by (auto simp: DB_Query_def s elim!: rbind_InrE)
  let ?d = "d0\<lparr>m_Cmd := b\<rparr>"
  have b0: "balanced lib (?d, w0)" using assms(2) by (simp add: s balanced_def held_def)
  obtain ok d1 w1 where 1: "(if db_bOpen ?d then new_statement lib (?d, w0) else (False, ?d, w0)) = (ok, d1, w1)"
    by (cases "if db_bOpen ?d then new_statement lib (?d, w0) else (False, ?d, w0)")
  have b1: "balanced lib (d1, w1)" using 1 b0 new_statement_balanced [OF assms(1) b0] by (simp split: if_splits)
  obtain k w2 where 2: "DB_GetFieldCount lib w1 = (k, w2)" by (cases "DB_GetFieldCount lib w1")
  then have "ow_live w2 = ow_live w1" "ow_refused w2 = ow_refused w1" by (auto simp: DB_GetFieldCount_def sql_call_def Let_def)
  moreover have "s' = (d1\<lparr>m_iTotalFields := Some k\<rparr>, w2)"
    using assms(3) b 1 2 by (simp add: DB_Query_def s Let_def)
  ultimately show ?thesis using b1 by (simp add: balanced_def held_def)
qed

text \<open>The states of a connection: calls of its operations in any order.\<close>

inductive db_run :: "odbc \<Rightarrow> cMCODBC \<times> odbc_world \<Rightarrow> bool" for lib :: odbc where
  start: "db_run lib (new_cMCODBC, \<lparr>ow_calls = 0, ow_live = {}, ow_refused = {}\<rparr>)"
| connect: "db_run lib s \<Longrightarrow> DB_Connect lib t s = Inr (rc, s') \<Longrightarrow> db_run lib s'"
| query: "db_run lib s \<Longrightarrow> DB_Query lib q s = Inr (rc, s') \<Longrightarrow> db_run lib s'"
| disconnect: "db_run lib s \<Longrightarrow> DB_Disconnect lib s = (rc, s') \<Longrightarrow> db_run lib s'"

lemma db_run_balanced:
  assumes "db_run lib s" "lib_ok lib"
  shows "balanced lib s"
  using assms(1)
proof (induction rule: db_run.induct)
  case start
  then show ?case by (simp add: balanced_def held_def new_cMCODBC_def)
next
  case (connect s t rc s')
  then show ?case using Connect_balanced [OF assms(2)] by blast
next
  case (query s q rc s')
  then show ?case using Query_balanced [OF assms(2)] by blast
next
  case (disconnect s rc s')
  obtain d w where s': "s' = (d, w)" by (cases s')
  from Disconnect_frees [OF disconnect(3) disconnect(2) [unfolded s']] show ?case by (simp add: s')
qed

section \<open>Fields\<close>

lemma field_block:
  assumes "holds b u"
  shows "\<exists>c d rest. Buffer_SetBufferSize b 16000 = Inr c \<and>
    Buffer_GetBuffer (Buffer_Reset c) = Inr (d, Some (Some NUL # rest)) \<and>
    m_pBuffer d = Some (Some NUL # rest) \<and> holds d [] \<and> 16000 < m_iBufferSize d"
proof -
  from SetBufferSize_holds [OF assms, of 16000] obtain c where
    c: "Buffer_SetBufferSize b 16000 = Inr c" "holds c u" "m_pBuffer c \<noteq> None" "16000 < m_iBufferSize c" by auto
  have "m_pBuffer (Buffer_Reset c) \<noteq> None" using c(3) by (simp add: Buffer_Reset_def)
  from GetBuffer_holds [OF holds_Reset [OF c(2)] this] c show ?thesis
    by (fastforce simp: Buffer_Reset_def)
qed

lemma length_small: "iSize < m_iBufferSize b \<Longrightarrow> m_pBuffer b \<noteq> None \<Longrightarrow>
    Buffer_SetBufferLength b iSize = Inr (b\<lparr>m_iTail := iSize\<rparr>)"
  by (auto simp: Buffer_SetBufferLength_def Buffer_SetBufferSize_def)

lemma field_cstr: "NUL \<notin> set s \<Longrightarrow> read_cstr (map Some s @ Some NUL # rest) = Inr s"
  by (induction s) auto

lemma DB_GetField_text:
  assumes h: "holds (m_FieldBuffer d) u" and t: "ol_data lib (ow_calls w) i = Some t" "length t < 16000" "NUL \<notin> set t"
  shows "\<exists>b. DB_GetField lib i (d, w) = Inr (t, d\<lparr>m_FieldBuffer := b\<rparr>, snd (sql_call lib w)) \<and> holds b t"
proof -
  from field_block [OF h] obtain c e rest where
    e: "Buffer_SetBufferSize (m_FieldBuffer d) 16000 = Inr c"
      "Buffer_GetBuffer (Buffer_Reset c) = Inr (e, Some (Some NUL # rest))"
      "m_pBuffer e = Some (Some NUL # rest)" "holds e []" "16000 < m_iBufferSize e" by blast
  have len: "m_iBufferSize e \<le> int (length (Some NUL # rest))"
    using e(3,4) by (auto elim: holds_SomeE)
  let ?blk = "map Some t @ Some NUL # drop (length t) rest"
  have "length t + 1 \<le> length (Some NUL # rest)" using len e(5) t(2) by simp
  then have f: "fetch_data (Some NUL # rest) (Some t) = Inr (?blk, int (length t))"
    using write_chars_Inr [of 0 "t @ [NUL]" "Some NUL # rest"] t(2) by (simp add: fetch_data_def)
  let ?b = "e\<lparr>m_pBuffer := Some ?blk, m_iTail := int (length t)\<rparr>"
  have l: "Buffer_SetBufferLength (e\<lparr>m_pBuffer := Some ?blk\<rparr>) (int (length t)) = Inr ?b"
    using e(5) t(2) by (subst length_small) auto
  have hb: "holds ?b t"
    using e(5) len t(2) by (intro holds_SomeI [of _ _ "Some NUL # drop (length t) rest"]) auto
  from GetBuffer_holds [OF hb] obtain b' rest' where
    g: "Buffer_GetBuffer ?b = Inr (b', Some (map Some t @ Some NUL # rest'))" "holds b' t" by auto
  show ?thesis using e f l g t field_cstr [OF t(3)]
    by (auto simp: DB_GetField_def block_of_def Let_def split: prod.splits)
qed

lemma DB_GetField_null:
  assumes h: "holds (m_FieldBuffer d) u" and t: "ol_data lib (ow_calls w) i = None"
  shows "DB_GetField lib i (d, w) = Inl OutOfBounds"
proof -
  from field_block [OF h] obtain c e rest where
    e: "Buffer_SetBufferSize (m_FieldBuffer d) 16000 = Inr c"
      "Buffer_GetBuffer (Buffer_Reset c) = Inr (e, Some (Some NUL # rest))"
      "m_pBuffer e = Some (Some NUL # rest)" "16000 < m_iBufferSize e" by blast
  let ?e = "e\<lparr>m_pBuffer := Some (Some NUL # rest)\<rparr>"
  have "Buffer_SetBufferLength ?e (-1) = Inr (?e\<lparr>m_iTail := -1\<rparr>)"
    using e(4) by (subst length_small) auto
  then show ?thesis using e t
    by (auto simp: DB_GetField_def fetch_data_def block_of_def Buffer_GetBuffer_def mem_write_def Let_def split: prod.splits)
qed

text \<open>The columns of a row, read by \<open>GetFirstField\<close> and then \<open>GetNextField\<close> until there is none.\<close>

fun next_fields :: "nat \<Rightarrow> odbc \<Rightarrow> cMCODBC \<times> odbc_world \<Rightarrow> string list result" where
  "next_fields 0 lib s = Inr []"
| "next_fields (Suc n) lib s =
     rbind (DB_GetNextField lib s) (\<lambda>(t, s).
     case t of None \<Rightarrow> Inr [] | Some t \<Rightarrow> rbind (next_fields n lib s) (\<lambda>ts. Inr (t # ts)))"

definition read_row :: "nat \<Rightarrow> odbc \<Rightarrow> cMCODBC \<times> odbc_world \<Rightarrow> string list result" where
  "read_row n lib s = rbind (DB_GetFirstField lib s) (\<lambda>(t, s). rbind (next_fields n lib s) (\<lambda>ts. Inr (t # ts)))"

definition row_data :: "odbc \<Rightarrow> (int \<Rightarrow> string) \<Rightarrow> int \<Rightarrow> bool" where
  "row_data lib f n \<longleftrightarrow>
     (\<forall>k. \<forall>i \<in> {1..n}. ol_data lib k i = Some (f i) \<and> length (f i) < 16000 \<and> NUL \<notin> set (f i))"

lemma next_fields_read:
  assumes "row_data lib f n" "m_iTotalFields d = Some n" "holds (m_FieldBuffer d) u" "1 \<le> m_iCol d" "m_iCol d \<le> n"
    "nat (n - m_iCol d) < k"
  shows "next_fields k lib (d, w) = Inr (map f [m_iCol d + 1 .. n])"
  using assms
proof (induction k arbitrary: d w u)
  case 0
  then show ?case by simp
next
  case (Suc k)
  show ?case
  proof (cases "m_iCol d = n")
    case True
    then show ?thesis using Suc.prems by (simp add: DB_GetNextField_def Let_def)
  next
    case False
    let ?d = "d\<lparr>m_iCol := m_iCol d + 1\<rparr>"
    have "m_iCol d + 1 \<in> {1..n}" using False Suc.prems by simp
    then have t: "ol_data lib (ow_calls w) (m_iCol d + 1) = Some (f (m_iCol d + 1))"
      "length (f (m_iCol d + 1)) < 16000" "NUL \<notin> set (f (m_iCol d + 1))"
      using Suc.prems(1) unfolding row_data_def by auto
    have "holds (m_FieldBuffer ?d) u" using Suc.prems(3) by simp
    from DB_GetField_text [OF this t] obtain b where
      b: "DB_GetField lib (m_iCol d + 1) (?d, w) = Inr (f (m_iCol d + 1), ?d\<lparr>m_FieldBuffer := b\<rparr>, snd (sql_call lib w))"
        "holds b (f (m_iCol d + 1))" by blast
    have "next_fields k lib (?d\<lparr>m_FieldBuffer := b\<rparr>, snd (sql_call lib w)) = Inr (map f [m_iCol d + 1 + 1 .. n])"
      using Suc.IH [of "?d\<lparr>m_FieldBuffer := b\<rparr>" "f (m_iCol d + 1)" "snd (sql_call lib w)"] Suc.prems False b(2) by simp
    moreover have "[m_iCol d + 1 .. n] = (m_iCol d + 1) # [m_iCol d + 1 + 1 .. n]"
      using False Suc.prems by (subst upto_rec1) auto
    ultimately show ?thesis using b(1) Suc.prems False by (simp add: DB_GetNextField_def Let_def)
  qed
qed

lemma read_row_all:
  assumes "row_data lib f n" "m_iTotalFields d = Some n" "holds (m_FieldBuffer d) u" "1 \<le> n"
  shows "read_row (nat n) lib (d, w) = Inr (map f [1..n])"
proof -
  let ?d = "d\<lparr>m_iCol := 1\<rparr>"
  have t: "ol_data lib (ow_calls w) 1 = Some (f 1)" "length (f 1) < 16000" "NUL \<notin> set (f 1)"
    using assms(1,4) unfolding row_data_def by auto
  have "holds (m_FieldBuffer ?d) u" using assms(3) by simp
  from DB_GetField_text [OF this t] obtain b where
    b: "DB_GetField lib 1 (?d, w) = Inr (f 1, ?d\<lparr>m_FieldBuffer := b\<rparr>, snd (sql_call lib w))" "holds b (f 1)" by blast
  have "next_fields (nat n) lib (?d\<lparr>m_FieldBuffer := b\<rparr>, snd (sql_call lib w)) = Inr (map f [1 + 1 .. n])"
    using next_fields_read [OF assms(1), of "?d\<lparr>m_FieldBuffer := b\<rparr>" "f 1" "nat n"] assms(2,4) b(2) by simp
  moreover have "[1..n] = 1 # [1 + 1 .. n]" using assms(4) by (subst upto_rec1) auto
  ultimately show ?thesis using b(1) by (simp add: read_row_def DB_GetFirstField_def)
qed

section \<open>Quotes\<close>

text \<open>Only the first quote of a text is doubled.\<close>

lemma EscapeSingleQuotes_first:
  assumes "holds b (s @ CHR 0x27 # t)" "CHR 0x27 \<notin> set s" "NUL \<notin> set s" "NUL \<notin> set t"
  shows "\<exists>b'. EscapeSingleQuotes b = Inr b' \<and> holds b' (s @ [CHR 0x27, CHR 0x27] @ t)"
proof -
  have f: "find_sub [CHR 0x27] (s @ CHR 0x27 # t) = Some (length s)" using assms(2)
    by (induction s) (auto simp: starts_with_def)
  have "NUL \<notin> set (s @ CHR 0x27 # t)" using assms(3,4) by simp
  from Replace_holds [OF assms(1) this, of "[CHR 0x27]" "[CHR 0x27, CHR 0x27]"] f show ?thesis
    by (auto simp: EscapeSingleQuotes_def)
qed

lemma EscapeSingleQuotes_none:
  assumes "holds b s" "CHR 0x27 \<notin> set s" "NUL \<notin> set s"
  shows "\<exists>b'. EscapeSingleQuotes b = Inr b' \<and> holds b' s"
proof -
  have f: "find_sub [CHR 0x27] s = None" using assms(2)
    by (induction s) (auto simp: starts_with_def)
  from Replace_holds [OF assms(1,3), of "[CHR 0x27]" "[CHR 0x27, CHR 0x27]"] f show ?thesis
    by (auto simp: EscapeSingleQuotes_def)
qed

section \<open>The text of a report\<close>

lemma buffer_text_holds: "holds b s \<Longrightarrow> NUL \<notin> set s \<Longrightarrow> s \<noteq> [] \<Longrightarrow> buffer_text b = Inr s"
proof (cases "m_pBuffer b")
  case None
  then show "holds b s \<Longrightarrow> s \<noteq> [] \<Longrightarrow> ?thesis" by (simp add: holds_None)
next
  case (Some blk)
  assume h: "holds b s" and s: "NUL \<notin> set s"
  from GetBuffer_holds [OF h] Some obtain b' rest where
    "Buffer_GetBuffer b = Inr (b', Some (map Some s @ Some NUL # rest))" by auto
  then show ?thesis using field_cstr [OF s] by (simp add: buffer_text_def)
qed

lemma IsEmpty_holds: "holds b s \<Longrightarrow> Buffer_IsEmpty b \<longleftrightarrow> s = []"
  using holds_tail by (auto simp: Buffer_IsEmpty_def)

lemma nat_hex_clean: "NUL \<notin> set (nat_hex n)"
proof (induction n rule: nat_hex.induct)
  case (1 n)
  have d: "\<forall>k \<in> {0..<16}. ''0123456789abcdef'' ! k \<noteq> NUL" by code_simp
  show ?case
  proof (cases "n < 16")
    case True
    then show ?thesis using d by (subst nat_hex.simps) auto
  next
    case False
    then show ?thesis using 1 d by (subst nat_hex.simps) (auto simp del: nth_Cons_numeral)
  qed
qed

definition place_text :: "string \<Rightarrow> string \<Rightarrow> string" where
  "place_text connect cmd =
     (if connect = [] then ''Unknown Connection'' else connect) @ (if cmd = [] then [] else '' '' @ cmd)"

lemma sql_place_holds:
  assumes "holds (m_Connect d) c" "holds (m_Cmd d) q" "NUL \<notin> set c" "NUL \<notin> set q"
  shows "\<exists>b. sql_place d = Inr b \<and> holds b (place_text c q)"
proof -
  let ?t = "if c = [] then ''Unknown Connection'' else c"
  have t: "NUL \<notin> set ?t" using assms(3) by simp
  from ReplaceWith_string [OF holds_new t] obtain b rc where
    b: "Buffer_ReplaceWith new_cBuffer (Some (cmem ?t)) (-1) = Inr (b, rc)" "holds b ?t" by auto
  from AppendText_holds [OF b(2), of "'' ''"] obtain b1 where
    b1: "Buffer_AppendText b '' '' = Inr b1" "holds b1 (?t @ '' '')" by auto
  from AppendText_holds [OF b1(2) assms(4)] obtain b2 where
    b2: "Buffer_AppendText b1 q = Inr b2" "holds b2 ((?t @ '' '') @ q)" by auto
  show ?thesis using b b1 b2 assms
    by (auto simp: sql_place_def place_text_def IsEmpty_holds buffer_text_holds)
qed

text \<open>A failed call is reported with its diagnosis, and with the whole command, as two messages.\<close>

theorem failure_reported:
  assumes "holds (m_Connect d) c" "holds (m_Cmd d) q" "NUL \<notin> set c" "NUL \<notin> set q" "\<not> OK_code r"
    "length (sql_title msg native state) \<le> 1024" "native \<notin> {0x1645, 0x1647}"
  shows "OK_report (Diagnosed msg native state) d r =
    Inr (False, [(sql_title msg native state, ''Error''), (place_text c q, ''Error'')])"
proof -
  let ?s = "sql_title msg native state"
  have n: "NUL \<notin> set ?s" using nat_hex_clean by (auto simp: sql_title_def Let_def)
  have "int (length ?s) \<le> 1024" using assms(6) by simp
  from Sprintf_holds [OF holds_new this n] obtain b where
    b: "Buffer_Sprintf new_cBuffer 1024 ?s = Inr (b, int (length ?s))" "holds b ?s" by blast
  from sql_place_holds [OF assms(1-4)] obtain e where e: "sql_place d = Inr e" "holds e (place_text c q)" by blast
  have "?s \<noteq> []" "place_text c q \<noteq> []" by (simp_all add: sql_title_def place_text_def Let_def)
  moreover have "NUL \<notin> set (place_text c q)" using assms(3,4) by (simp add: place_text_def)
  ultimately show ?thesis using b e n assms(5,7) by (simp add: OK_report_def buffer_text_holds)
qed

end
