(* ===== verification/Program.thy ===== *)
theory Program
  imports Crc32 Exceptions CoreInit
begin

text \<open>
  \<open>main.cpp\<close>, the entry of the program, which is built for POSIX only, and the identity of the machine
  that the core puts into the name of a server: \<open>macaddr.h\<close>, \<open>macaddr.cpp\<close>, \<open>umachid.h\<close> and
  \<open>umachid.cpp\<close>. What the system answers about the first Ethernet card, its adapters, the volume and
  the processor, and what the two commands print, are arguments.
\<close>

section \<open>The hardware address\<close>

text \<open>
  \<open>ioctl\<close> fails, or gives the family of the address and its bytes. 1 is \<open>ARPHRD_ETHER\<close>.
\<close>

definition get_hw_addr :: "(int \<times> 8 word list) option \<Rightarrow> 8 word list option" where
  "get_hw_addr answer =
     (case answer of
        None \<Rightarrow> None
      | Some (sa_family, sa_data) \<Rightarrow> if sa_family \<noteq> 1 then None else Some (take 6 sa_data))"

text \<open>The text is built in a local array, which becomes the address also when there is none.\<close>

definition MACAddr_linux :: "(int \<times> 8 word list) option \<Rightarrow> string result" where
  "MACAddr_linux answer =
     (let temp = replicate 80 None
      in rbind (case get_hw_addr answer of
                  None \<Rightarrow> Inr temp
                | Some mac \<Rightarrow>
                    rbind (write_chars temp 0 (mac_text mac @ [NUL])) (\<lambda>temp.
                    rbind (read_cstr temp) (\<lambda>t. write_chars temp 0 (map toupper_char t)))) (\<lambda>temp.
         read_cstr temp))"

text \<open>On Windows the first adapter that is no dial-up or VPN adapter, by its description.\<close>

fun MACAddr_windows :: "(string \<times> 8 word list) list \<Rightarrow> string" where
  "MACAddr_windows [] = ''00:00:00:00:00:00''"
| "MACAddr_windows ((Description, Address) # pInfo) =
     (if find_sub ''PPP'' (cstr Description) = None \<and> find_sub ''PGP'' (cstr Description) = None
      then mac_text Address else MACAddr_windows pInfo)"

section \<open>The identity of the machine\<close>

text \<open>\<open>fgets(oneline, 80, pf)\<close>: at most 79 characters, up to the end of the line.\<close>

definition fgets80 :: "string \<Rightarrow> string \<times> string" where
  "fgets80 s =
     (case find_char LF (take 79 s) of
        Some i \<Rightarrow> (take (i + 1) s, drop (i + 1) s)
      | None \<Rightarrow> (take 79 s, drop 79 s))"

text \<open>All lines of an output as they are appended to \<open>temp2\<close>, and what is in \<open>oneline\<close> at the end.\<close>

function read_lines :: "string option \<Rightarrow> string \<Rightarrow> string \<times> string option" where
  "read_lines oneline s =
     (if s = [] then ([], oneline)
      else let (l, rest) = fgets80 s; (t, last) = read_lines (Some l) rest in (cstr l @ t, last))"
  by pat_completeness auto
termination
  by (relation "measure (\<lambda>(_, s). length s)") (auto simp: fgets80_def split: option.splits)

declare read_lines.simps [simp del]

text \<open>\<open>%x\<close> takes the low 32 bits of the value.\<close>

definition crc_text :: "string \<Rightarrow> string" where
  "crc_text s = '':'' @ nat_hex (unat (ucast (Crc32_crc (map byte_of s) 0) :: 32 word))"

text \<open>\<open>ports\<close> and \<open>uname\<close> are what the two commands print, \<open>None\<close> when a command cannot be started.\<close>

definition machine_prints :: "string option \<Rightarrow> string option \<Rightarrow> string result" where
  "machine_prints ports uname =
     (let (a, oneline) = (case ports of
                            None \<Rightarrow> ([], None)
                          | Some out \<Rightarrow> let (t, l) = read_lines None out in (crc_text t, l))
      in case uname of
           None \<Rightarrow> Inr a
         | Some out \<Rightarrow>
             (case (if out = [] then oneline else Some (fst (fgets80 out))) of
                None \<Rightarrow> Inl Indeterminate
              | Some l \<Rightarrow> Inr (a @ crc_text (cstr l))))"

definition UMachID_linux ::
  "(int \<times> 8 word list) option \<Rightarrow> string option \<Rightarrow> string option \<Rightarrow> string result" where
  "UMachID_linux answer ports uname =
     rbind (MACAddr_linux answer) (\<lambda>macaddr.
     if macaddr \<noteq> ''00:00:00:00:00:00'' then Inr (''Linux'' @ '':'' @ macaddr)
     else rbind (machine_prints ports uname) (\<lambda>t. Inr (''Linux'' @ t)))"

definition UMachID_windows ::
  "(string \<times> 8 word list) list \<Rightarrow> 32 word \<Rightarrow> 32 word \<Rightarrow> 16 word \<Rightarrow> 16 word \<Rightarrow> string" where
  "UMachID_windows adapters serial ptype level revision =
     (let macaddr = MACAddr_windows adapters
      in if macaddr \<noteq> ''00:00:00:00:00:00'' then ''MSWindows'' @ '':'' @ macaddr
         else ''MSWindows'' @ '':'' @ nat_hex (unat serial) @ '':'' @ nat_hex (unat ptype) @ '':'' @
                nat_hex (unat level) @ '':'' @ nat_hex (unat revision))"

section \<open>The start of the program\<close>

definition erase_at :: "nat option \<Rightarrow> string \<Rightarrow> string" where
  "erase_at idx s = (case idx of None \<Rightarrow> s | Some i \<Rightarrow> take i s @ drop (i + 1) s)"

definition command_line :: "string \<Rightarrow> string" where
  "command_line arg =
     (let s = cstr arg; s = erase_at (rfind_char (CHR 0x22) s) s
      in erase_at (find_char (CHR 0x22) s) s)"

text \<open>The length that \<open>substr\<close> is given is unsigned: it is huge when the last point stands before the last slash.\<close>

definition exe_module :: "string \<Rightarrow> string" where
  "exe_module path =
     (case (rfind_char (CHR ''/'') path, rfind_char (CHR ''.'') path) of
        (Some idxStart, Some idxEnd) \<Rightarrow>
          take (unat (of_nat idxEnd - of_nat idxStart - 1 :: 64 word)) (drop (idxStart + 1) path)
      | _ \<Rightarrow> [])"

text \<open>The name and the contents of the file that \<open>WritePID\<close> writes.\<close>

definition WritePID :: "int \<Rightarrow> string \<Rightarrow> (string \<times> string) result" where
  "WritePID pid pModuleName =
     rbind (strncpy (replicate 260 None) pModuleName 255) (\<lambda>m.
     rbind (read_cstr m) (\<lambda>t.
     rbind (write_chars m (int (length t)) (''.pid'' @ [NUL])) (\<lambda>m.
     rbind (read_cstr m) (\<lambda>name. Inr (name, int_text pid @ [LF])))))"

text \<open>
  The state in which \<open>main\<close> waits: the directory it changed to, the log, the core, the file with the
  process identifier, and the two flags of the wait.
\<close>

record node_process =
  np_dir :: "string option"
  np_log :: cLog
  np_core :: "cCore option"
  np_pid_file :: "string \<times> string"
  bNotShutdown :: bool
  bBeginTerminate :: bool

datatype process_end = Exit_code int | Abort

text \<open>
  A \<open>THROW\<close> in the core has ended the process by the time \<open>Create\<close> would return. Any other exception, such
  as the text that \<open>LOGALL\<close> throws, comes to the last handler of \<open>main\<close>, which returns with code 0.
\<close>

definition main_start ::
  "start_env \<Rightarrow> string \<Rightarrow> string option \<Rightarrow> (node_process + process_end) result option" where
  "main_start env argv0 argv1 =
     (let dir = map_option command_line argv1;
          (_, l) = Log_Create (Some (case argv1 of Some a \<Rightarrow> a | None \<Rightarrow> '' '')) new_cLog;
          moduleName = exe_module (cstr argv0)
      in case Core_Create env moduleName None of
           None \<Rightarrow> None
         | Some (Inl (Thrown _)) \<Rightarrow> Some (Inr (Inr (Exit_code 0)))
         | Some (Inl AssertFailed) \<Rightarrow> Some (Inr (Inr (Exit_code 0)))
         | Some (Inl f) \<Rightarrow> Some (Inl f)
         | Some (Inr (Inl rc)) \<Rightarrow> Some (Inr (Inr (Exit_code rc)))
         | Some (Inr (Inr core)) \<Rightarrow>
             pbind (Some (WritePID (se_pid env) moduleName)) (\<lambda>f.
             Some (Inr (Inl \<lparr>np_dir = dir, np_log = l, np_core = Some core, np_pid_file = f,
                             bNotShutdown = True, bBeginTerminate = False\<rparr>))))"

text \<open>One turn of the wait; \<open>DoShutdown\<close> ends the process itself.\<close>

definition main_turn :: "node_process \<Rightarrow> node_process + process_end" where
  "main_turn p =
     (if bNotShutdown p then if bBeginTerminate p then Inr (Exit_code 99) else Inl p
      else Inr (Exit_code 99))"

datatype signal = SIGPIPE | SIGTERM | SIGHUP | SIGSEGV | SIGQUIT | SIGINT

text \<open>
  Five signals are given to \<open>SignalCatcher\<close>, which aborts; \<open>SIGKILL\<close> and \<open>SIGSTOP\<close> cannot be caught.
  \<open>SIGINT\<close> keeps its default, which ends the process.
\<close>

definition SignalCatcher :: "signal \<Rightarrow> process_end option" where
  "SignalCatcher s = (if s = SIGINT then None else Some Abort)"

inductive main_step :: "node_process + process_end \<Rightarrow> node_process + process_end \<Rightarrow> bool" where
  turn: "main_step (Inl p) (main_turn p)"
| signal: "SignalCatcher s = Some e \<Longrightarrow> main_step (Inl p) (Inr e)"

section \<open>What the program does\<close>

lemma read_None: "0 < n \<Longrightarrow> read_cstr (replicate n None) = Inl Indeterminate"
  by (cases n) auto

lemma MACAddr_no_card: "get_hw_addr answer = None \<Longrightarrow> MACAddr_linux answer = Inl Indeterminate"
  by (simp add: MACAddr_linux_def read_None del: replicate.simps)

lemma mac_text_length: "length (mac_text a) = 17"
  by (simp add: mac_text_def hex_byte_def Let_def)

lemma hex_byte_clean: "NUL \<notin> set (hex_byte b)"
proof -
  have "\<forall>k \<in> {0..<16}. ''0123456789abcdef'' ! k \<noteq> NUL" by code_simp
  moreover have "unat b div 16 < 16" using unsigned_less [of b, where ?'a = nat] by simp
  ultimately show ?thesis by (fastforce simp: hex_byte_def Let_def)
qed

lemma mac_text_clean: "NUL \<notin> set (mac_text a)"
  by (simp add: mac_text_def hex_byte_clean)

lemma toupper_NUL: "NUL = toupper_char c \<longleftrightarrow> c = NUL"
proof -
  have "NUL \<noteq> char_of (nat (schar c - 32))" if "96 < schar c" "schar c < 123"
  proof
    assume "NUL = char_of (nat (schar c - 32))"
    then have "of_char (char_of (nat (schar c - 32)) :: char) = (0 :: nat)" by (simp flip: \<open>NUL = _\<close>)
    then show False using that by simp
  qed
  then show ?thesis by (auto simp: toupper_char_def schar_def)
qed

lemma MACAddr_card:
  assumes "length d \<ge> 6"
  shows "MACAddr_linux (Some (1, d)) = Inr (map toupper_char (mac_text (take 6 d)))"
proof -
  let ?t = "mac_text (take 6 d)"
  let ?u = "map toupper_char ?t"
  have l: "length ?t = 17" by (rule mac_text_length)
  have u: "NUL \<notin> set ?u" using mac_text_clean [of "take 6 d"] by (simp add: image_iff toupper_NUL)
  have w: "write_chars (replicate 80 None) 0 (?t @ [NUL]) = Inr (map Some ?t @ Some NUL # replicate 62 None)"
    using write_chars_Inr [of 0 "?t @ [NUL]" "replicate 80 None"] l by (simp del: replicate.simps)
  have w': "write_chars (map Some ?t @ Some NUL # replicate 62 None) 0 ?u = Inr (map Some ?u @ Some NUL # replicate 62 None)"
    using write_chars_Inr [of 0 ?u "map Some ?t @ Some NUL # replicate 62 None"] l by (simp del: replicate.simps)
  show ?thesis using w w' read_cstr_append [OF mac_text_clean [of "take 6 d"]] read_cstr_append [OF u]
    by (simp add: MACAddr_linux_def get_hw_addr_def del: replicate.simps)
qed

text \<open>Different cards give different machines.\<close>

lemma upper_digits:
  "j < 16 \<Longrightarrow> k < 16 \<Longrightarrow>
     toupper_char (''0123456789abcdef'' ! j) = toupper_char (''0123456789abcdef'' ! k) \<longleftrightarrow> j = k"
proof -
  have d: "distinct (map toupper_char ''0123456789abcdef'')" by code_simp
  show "j < 16 \<Longrightarrow> k < 16 \<Longrightarrow> ?thesis"
    using nth_eq_iff_index_eq [OF d, of j k] by (simp del: list.map)
qed

lemma upper_byte_inject:
  "map toupper_char (hex_byte a) = map toupper_char (hex_byte b) \<longleftrightarrow> a = b"
proof
  assume e: "map toupper_char (hex_byte a) = map toupper_char (hex_byte b)"
  have l: "unat a < 256" "unat b < 256" using unsigned_less [of a, where ?'a = nat] unsigned_less [of b, where ?'a = nat] by auto
  then have "unat a div 16 = unat b div 16" "unat a mod 16 = unat b mod 16"
    using e by (simp_all add: hex_byte_def Let_def upper_digits del: nth_Cons_numeral)
  then have "unat a = unat b" by (metis div_mult_mod_eq)
  then show "a = b" by (simp only: word_unat_eq_iff)
qed simp

lemma mac_text_inject:
  assumes "length a = 6" "length b = 6"
    "map toupper_char (mac_text a) = map toupper_char (mac_text b)"
  shows "a = b"
proof -
  have h: "length (hex_byte c) = 2" for c by (simp add: hex_byte_def Let_def)
  have "\<forall>i < 6. a ! i = b ! i"
    using assms(3) by (simp add: mac_text_def h upper_byte_inject numeral_eq_Suc less_Suc_eq del: map_eq_conv)
  then show ?thesis using assms(1,2) by (simp add: list_eq_iff_nth_eq)
qed

lemma UMachID_card:
  assumes "6 \<le> length d" "take 6 d \<noteq> replicate 6 0"
  shows "UMachID_linux (Some (1, d)) ports uname = Inr (''Linux:'' @ map toupper_char (mac_text (take 6 d)))"
proof -
  have z: "map toupper_char (mac_text (replicate 6 0)) = ''00:00:00:00:00:00''" by code_simp
  have "map toupper_char (mac_text (take 6 d)) \<noteq> ''00:00:00:00:00:00''"
  proof
    assume "map toupper_char (mac_text (take 6 d)) = ''00:00:00:00:00:00''"
    then have "map toupper_char (mac_text (take 6 d)) = map toupper_char (mac_text (replicate 6 0))" by (simp only: z)
    moreover have "length (take 6 d) = 6" using assms(1) by simp
    ultimately show False using mac_text_inject [of "take 6 d" "replicate 6 0"] assms(2) by (simp del: replicate.simps)
  qed
  then show ?thesis using MACAddr_card [OF assms(1)] by (simp add: UMachID_linux_def)
qed

theorem machines_distinct:
  assumes "6 \<le> length d" "6 \<le> length e" "take 6 d \<noteq> replicate 6 0" "take 6 e \<noteq> replicate 6 0"
    "UMachID_linux (Some (1, d)) ports uname = UMachID_linux (Some (1, e)) ports' uname'"
  shows "take 6 d = take 6 e"
  using assms UMachID_card [OF assms(1,3)] UMachID_card [OF assms(2,4)]
  by (intro mac_text_inject) auto

text \<open>
  A machine whose card cannot be asked has no identity: the array is read unwritten. Only a card whose
  address is zero leads to the commands.
\<close>

lemma UMachID_no_card: "get_hw_addr answer = None \<Longrightarrow> UMachID_linux answer ports uname = Inl Indeterminate"
  by (simp add: UMachID_linux_def MACAddr_no_card)

lemma fgets80_all: "fst (fgets80 s) @ snd (fgets80 s) = s"
  by (simp add: fgets80_def split: option.splits)

lemma read_lines_all: "NUL \<notin> set s \<Longrightarrow> fst (read_lines l s) = s"
proof (induction l s rule: read_lines.induct)
  case (1 l s)
  show ?case
  proof (cases "s = []")
    case False
    obtain a rest where f: "fgets80 s = (a, rest)" by (cases "fgets80 s")
    from fgets80_all [of s] f have s: "s = a @ rest" by simp
    then show ?thesis using 1 False f by (subst read_lines.simps) (auto simp: cstr_id split: prod.splits)
  qed (simp add: read_lines.simps)
qed

text \<open>The name of the executable without its directories and its last suffix.\<close>

lemma rfind_char_last: "c \<notin> set t \<Longrightarrow> rfind_char c (s @ c # t) = Some (length s)"
  by (simp add: rfind_char_def find_char_append)

lemma rfind_char_none: "c \<notin> set s \<Longrightarrow> rfind_char c s = None"
  using find_char_None [of c "rev s"] by (simp add: rfind_char_def)

lemma UMachID_zero:
  assumes "take 6 d = replicate 6 0" "6 \<le> length d" "NUL \<notin> set ports" "ports \<noteq> []" "NUL \<notin> set l" "LF \<notin> set l" "length l < 79"
  shows "UMachID_linux (Some (1, d)) (Some ports) (Some (l @ [LF])) = Inr (''Linux'' @ crc_text ports @ crc_text (l @ [LF]))"
proof -
  have "MACAddr_linux (Some (1, d)) = Inr (map toupper_char (mac_text (replicate 6 0)))"
    using MACAddr_card [OF assms(2)] assms(1) by simp
  also have "map toupper_char (mac_text (replicate 6 0)) = ''00:00:00:00:00:00''" by code_simp
  finally have m: "MACAddr_linux (Some (1, d)) = Inr ''00:00:00:00:00:00''" .
  have f: "fst (fgets80 (l @ [LF])) = l @ [LF]"
    using assms(7) find_char_append [OF assms(6), of "[]"] by (simp add: fgets80_def)
  have "cstr (l @ [LF]) = l @ [LF]" using assms(5) by (intro cstr_id) simp
  then show ?thesis using m f read_lines_all [OF assms(3), of None]
    by (auto simp: UMachID_linux_def machine_prints_def Let_def split: prod.splits)
qed

lemma exe_module_name:
  assumes "CHR ''/'' \<notin> set name" "CHR ''/'' \<notin> set ext" "CHR ''.'' \<notin> set ext"
    "length dir + length name + 1 < 2 ^ 64"
  shows "exe_module (dir @ ''/'' @ name @ ''.'' @ ext) = name"
proof -
  have a: "rfind_char (CHR ''/'') (dir @ ''/'' @ name @ ''.'' @ ext) = Some (length dir)"
    using rfind_char_last [of "CHR ''/''" "name @ ''.'' @ ext" dir] assms by simp
  have b: "rfind_char (CHR ''.'') (dir @ ''/'' @ name @ ''.'' @ ext) = Some (length dir + 1 + length name)"
    using rfind_char_last [of "CHR ''.''" ext "dir @ ''/'' @ name"] assms by simp
  have "unat (of_nat (length dir + 1 + length name) - of_nat (length dir) - 1 :: 64 word) = length name"
    using assms(4) by (simp add: unat_of_nat take_bit_eq_mod)
  then show ?thesis using a b by (simp add: exe_module_def)
qed

text \<open>A path without a point, as of a file without a suffix, gives no name.\<close>

lemma exe_module_no_point: "CHR ''.'' \<notin> set path \<Longrightarrow> exe_module path = []"
  by (simp add: exe_module_def rfind_char_none split: option.splits)

lemma no_point_config:
  "CHR ''.'' \<notin> set path \<Longrightarrow> new_cCore env (exe_module path) = Inr c \<Longrightarrow> config_name c = ''.xml''"
  by (auto simp: exe_module_no_point new_cCore_def config_name_def cstr_id result_simps)

text \<open>With a point only in the directories the name is all that follows the last slash.\<close>

lemma unat_minus_small:
  assumes "0 < k" "k < 2 ^ 63"
  shows "unat (- of_nat k :: 64 word) = 2 ^ 64 - k"
proof -
  have "uint (of_nat k :: 64 word) = int k" using assms(2) by (simp add: unsigned_of_nat take_bit_nat_eq_self)
  then have "uint (- of_nat k :: 64 word) = (- int k) mod 2 ^ 64" by (simp only: uint_word_ariths) simp
  also have "\<dots> = 2 ^ 64 - int k" using assms by (simp add: zmod_zminus1_eq_if)
  finally show ?thesis unfolding unat_eq_nat_uint by (simp only:) simp
qed

lemma exe_module_point_before:
  assumes "CHR ''/'' \<notin> set name" "CHR ''.'' \<notin> set name" "CHR ''.'' \<notin> set d"
    "length (c @ ''.'' @ d @ ''/'' @ name) < 2 ^ 63"
  shows "exe_module (c @ ''.'' @ d @ ''/'' @ name) = name"
proof -
  let ?p = "c @ ''.'' @ d @ ''/'' @ name"
  let ?a = "length c + 1 + length d"
  let ?w = "of_nat (length c) - of_nat ?a - 1 :: 64 word"
  have a: "rfind_char (CHR ''/'') ?p = Some ?a"
    using rfind_char_last [of "CHR ''/''" name "c @ ''.'' @ d"] assms by simp
  have b: "rfind_char (CHR ''.'') ?p = Some (length c)"
    using rfind_char_last [of "CHR ''.''" "d @ ''/'' @ name" c] assms by simp
  have w: "?w = - of_nat (length d + 2)" by simp
  have n: "length d + 2 < 2 ^ 63" "length name < 2 ^ 63" using assms(4) by auto
  have "unat ?w = 2 ^ 64 - (length d + 2)" unfolding w using n(1) by (intro unat_minus_small) auto
  then have "length name \<le> unat ?w" using n by simp
  then show ?thesis using a b by (simp add: exe_module_def del: of_nat_add)
qed

lemma WritePID_name:
  assumes "NUL \<notin> set name" "length name < 255"
  shows "WritePID pid name = Inr (name @ ''.pid'', int_text pid @ [LF])"
proof -
  let ?n = "replicate (255 - length name) (Some NUL)"
  have m: "strncpy (replicate 260 None) name 255 = Inr (map Some name @ ?n @ replicate 5 None)"
    using assms by (simp add: strncpy_def mem_store_def cstr_id map_replicate Let_def del: replicate.simps)
  have n: "?n = Some NUL # replicate (254 - length name) (Some NUL)"
  proof -
    have "255 - length name = Suc (254 - length name)" using assms(2) by simp
    then show ?thesis by (simp only: replicate_Suc)
  qed
  have r: "read_cstr (map Some name @ ?n @ replicate 5 None) = Inr name"
    unfolding n using read_cstr_append [OF assms(1)] by simp
  let ?r = "drop (length name + 5) (map Some name @ ?n @ replicate 5 None)"
  have w: "write_chars (map Some name @ ?n @ replicate 5 None) (int (length name)) (''.pid'' @ [NUL]) =
      Inr (map Some (name @ ''.pid'') @ Some NUL # ?r)"
    using write_chars_Inr [of "length name" "''.pid'' @ [NUL]" "map Some name @ ?n @ replicate 5 None"] assms(2)
    by (simp del: replicate.simps)
  have "NUL \<notin> set (name @ ''.pid'')" using assms(1) by simp
  from read_cstr_append [OF this] show ?thesis using m r w by (simp add: WritePID_def del: replicate.simps)
qed

lemma WritePID_long:
  assumes "NUL \<notin> set name" "255 \<le> length name"
  shows "WritePID pid name = Inl Indeterminate"
proof -
  have "name \<noteq> []" using assms(2) by auto
  then have m: "strncpy (replicate 260 None) name 255 = Inr (map Some (take 255 name) @ replicate 5 None)"
    using assms by (simp add: strncpy_def mem_store_def cstr_id Let_def del: replicate.simps)
  have "read_cstr (map Some t @ replicate 5 None) = Inl Indeterminate" if "NUL \<notin> set t" for t
    using that by (induction t) (auto simp: read_None simp del: replicate.simps)
  then have "read_cstr (map Some (take 255 name) @ replicate 5 None) = Inl Indeterminate"
    using assms(1) by (meson in_set_takeD)
  then show ?thesis using m by (simp add: WritePID_def del: replicate.simps)
qed

text \<open>Nothing sets the flags: the program runs until a signal ends it, and never stops its core.\<close>

lemma main_runs:
  assumes "main_step\<^sup>*\<^sup>* (Inl p) s" "bNotShutdown p" "\<not> bBeginTerminate p"
  shows "s = Inl p \<or> s = Inr Abort"
  using assms(1)
proof (induction rule: rtranclp_induct)
  case (step x y)
  then show ?case using assms(2,3)
    by (auto simp: main_turn_def SignalCatcher_def elim!: main_step.cases split: if_splits)
qed simp

end
