(* ===== verification/SystemProperties.thy ===== *)
theory SystemProperties
  imports ThreadLaws ServerIPC Exceptions Databases Program
begin

text \<open>
  The properties of the parts that the rest of the node stands on: threads and locks, the client
  connection, the log, the exceptions and the database connection.
\<close>

section \<open>Threads\<close>

text \<open>
  C34: in every interleaving of a thread with any number of threads that control it without destroying it,
  the flags are truth values, the thread is done exactly when it has left its entry point, and no
  destroyed mutex or condition variable is used.
\<close>

theorem thread_states_typed:
  assumes "reaches no_destroy (created handle n) m"
  shows "m_bActive (mc_thread m) \<in> {0, 1} \<and> m_bDone (mc_thread m) \<in> {0, 1} \<and>
    (m_bDone (mc_thread m) = 1 \<longleftrightarrow> mc_pc m = Exited) \<and> m_sync (mc_thread m) = Made \<and> mc_pc m \<noteq> Faulted"
  using reaches_typed [OF assms created_typed] by (auto simp: machine_typed_def thread_typed_def)

lemma lost_run_reaches:
  "\<exists>m. reaches no_destroy (created handle 1) m \<and> mc_pc m = Waiting \<and> m_bActive (mc_thread m) = 0 \<and>
     \<not> m_bSuspended (mc_thread m) \<and> mc_own m = [] \<and> mc_callers m = [[]]"
  using lost_run_ends [of handle]
  by (auto simp: reaches_run lost_run_def numeral_eq_Suc intro!: exI [of _ lost_run])

lemma thread_states_typed_witness:
  "\<exists>m. reaches no_destroy (created 7 1) m \<and> mc_pc m = Waiting \<and> m_bDone (mc_thread m) = 0"
  using lost_run_reaches [of 7] thread_states_typed [of 7 1] by fastforce

text \<open>
  C33: \<open>Stop\<close> wakes a suspended thread that waits, and from then on the thread ends by itself: it makes at
  most nine more steps, and until it has left its entry point one of them is always possible.
\<close>

theorem stopped_thread_ends:
  assumes "reaches no_destroy (created handle n) m" "mc_pc m = Waiting" "m_bSuspended (mc_thread m)"
    and "k < length (mc_callers m)" "mc_callers m ! k = []"
  shows "\<exists>m'. run_events (Call k Call_Stop # replicate 4 (Caller_step k)) m = Some m' \<and>
    (\<forall>es m''. list_all alone es \<longrightarrow> run_events es m' = Some m'' \<longrightarrow>
       length es \<le> 9 \<and> (mc_pc m'' = Exited \<or> (\<exists>e. alone e \<and> machine_step e m'' \<noteq> None)))"
proof -
  have t: "machine_typed m" by (rule reaches_typed [OF assms(1) created_typed])
  have "m_sync (mc_thread m) = Made" "mc_own m = []"
    using t assms(2) by (auto simp: machine_typed_def thread_typed_def)
  from stop_wakes [OF assms(2,3) this assms(4,5)] obtain m' where
    m': "run_events (Call k Call_Stop # replicate 4 (Caller_step k)) m = Some m'" "stopping m'" by blast
  have "length es \<le> 9 \<and> (mc_pc m'' = Exited \<or> (\<exists>e. alone e \<and> machine_step e m'' \<noteq> None))"
    if "list_all alone es" "run_events es m' = Some m''" for es m''
    using stopping_run [OF that(2,1) m'(2)] rank_le [of "mc_pc m'"] stopping_enabled [of m''] by auto
  then show ?thesis using m'(1) by blast
qed

definition parked_run :: "event list" where
  "parked_run = replicate 6 (Thread_step 0 0)"

lemma parked: "\<exists>m. reaches no_destroy (created 7 1) m \<and> mc_pc m = Waiting \<and> m_bSuspended (mc_thread m) \<and>
    mc_callers m = [[]]"
proof -
  have "\<exists>m. run_events parked_run (created 7 1) = Some m \<and> mc_pc m = Waiting \<and> m_bSuspended (mc_thread m) \<and>
      mc_callers m = [[]]"
    by (simp add: parked_run_def created_def thread_defs numeral_eq_Suc Let_def)
  then show ?thesis by (auto simp: reaches_run parked_run_def numeral_eq_Suc intro!: exI [of _ parked_run])
qed

lemma stopped_thread_ends_witness:
  "\<exists>m m'. reaches no_destroy (created 7 1) m \<and>
     run_events (Call 0 Call_Stop # replicate 4 (Caller_step 0)) m = Some m'"
proof -
  from parked obtain m where m: "reaches no_destroy (created 7 1) m" "mc_pc m = Waiting"
    "m_bSuspended (mc_thread m)" "mc_callers m = [[]]" by blast
  have "0 < length (mc_callers m)" "mc_callers m ! 0 = []" using m(4) by simp_all
  from stopped_thread_ends [OF m(1-3) this] m(1) show ?thesis by blast
qed

text \<open>
  C35: a thread can be lost: when a call of \<open>Stop\<close> runs from its begin to its end between the thread's test
  of \<open>m_bSuspended\<close> and its wait, its signal wakes nobody. The thread then waits although it is stopped and
  not suspended, and it waits for ever: after any steps of the machine, with any further calls of \<open>Stop\<close>
  and \<open>Sleep\<close>, it still does. Only a spurious wake-up or a call of \<open>Start\<close>, \<open>Resume\<close>, \<open>Suspend\<close> or
  \<open>Destroy\<close> can end that.
\<close>

theorem stop_signal_lost:
  assumes "reaches no_destroy (created handle n) m" "mc_pc m = Before_wait" "m_bSuspended (mc_thread m)"
    and "\<forall>c \<in> set (mc_callers m). c = []" "k < length (mc_callers m)"
  shows "\<exists>m'. run_events (Call k Call_Stop # replicate 4 (Caller_step k) @ [Thread_step sec usec]) m = Some m' \<and>
    mc_pc m' = Waiting \<and> m_bActive (mc_thread m') = 0 \<and> \<not> m_bSuspended (mc_thread m') \<and>
    (\<forall>es m''. list_all quiet es \<longrightarrow> run_events es m' = Some m'' \<longrightarrow> mc_pc m'' = Waiting)"
proof -
  have t: "machine_typed m" by (rule reaches_typed [OF assms(1) created_typed])
  have "m_sync (mc_thread m) = Made" "mc_own m = []"
    using t assms(2) by (auto simp: machine_typed_def thread_typed_def)
  from stop_too_early [OF assms(2,3) this assms(4,5), of sec usec] show ?thesis
    using lost_run_stays by (fastforce simp: lost_def)
qed

lemma stop_signal_lost_witness:
  "\<exists>m m'. reaches no_destroy (created 7 1) m \<and> mc_pc m = Before_wait \<and>
     run_events (Call 0 Call_Stop # replicate 4 (Caller_step 0) @ [Thread_step 0 0]) m = Some m' \<and> mc_pc m' = Waiting"
proof -
  from before_wait_run_ends [of 7] obtain m where m: "run_events before_wait_run (created 7 1) = Some m"
    "mc_pc m = Before_wait" "m_bSuspended (mc_thread m)" "mc_callers m = [[]]" by blast
  have "list_all no_destroy before_wait_run" by (simp add: before_wait_run_def list_all_iff)
  then have r: "reaches no_destroy (created 7 1) m" using m(1) unfolding reaches_run by blast
  have c: "\<forall>c \<in> set (mc_callers m). c = []" "0 < length (mc_callers m)" using m(4) by simp_all
  from stop_signal_lost [OF r m(2,3) c, of 0 0] show ?thesis using r m(2) by blast
qed

text \<open>A stopped thread is never in its work again once it has left it.\<close>

theorem stopped_thread_works_no_more:
  assumes "reaches any_event m m'" "m_bActive (mc_thread m) = 0" "mc_pc m \<noteq> Working"
  shows "mc_pc m' \<noteq> Working \<and> m_bActive (mc_thread m') = 0"
  using reaches_stopped [OF assms(1,2)] assms(3) by auto

text \<open>
  \<open>Destroy\<close> does not wait for the thread: it clears \<open>m_bActive\<close> before it tests it. So it returns while the
  thread is still in its work, and destroys what a waiting thread waits on.
\<close>

theorem destroy_does_not_wait:
  "\<exists>m. reaches any_event (created handle 1) m \<and> mc_callers m = [[]] \<and> mc_pc m = Working \<and>
     m_bDone (mc_thread m) = 0 \<and> m_sync (mc_thread m) = Destroyed"
proof -
  have "list_all any_event es" for es by (induction es) (auto simp: any_event_def)
  then show ?thesis using destroy_run_ends [of handle] by (auto simp: reaches_run)
qed

text \<open>
  C36: the time that a thread sleeps misses the interval by less than a second, and is exact when it ends
  within the present second; the deadline is well-formed.
\<close>

theorem sleep_off_by_less_than_second:
  assumes "0 \<le> usec" "usec < 1000000" "0 \<le> ms"
  shows "\<bar>sleep_time sec usec ms - ms * 1000000\<bar> < 1000000000 \<and>
    (usec * 1000 + ms * 1000000 < 1000000000 \<longrightarrow> sleep_time sec usec ms = ms * 1000000) \<and>
    snd (sleep_deadline sec usec ms) \<in> {0..<1000000000}"
  using sleep_time_bounds [OF assms] sleep_time_short by simp

lemma sleep_off_by_less_than_second_witness:
  "sleep_time 0 500000 600 = 1000000000 \<and> \<bar>sleep_time 0 500000 600 - 600 * 1000000\<bar> < 1000000000"
  using sleep_off_by_less_than_second [of 500000 600 0] by (simp add: sleep_time_def sleep_deadline_def)

text \<open>
  in every interleaving of threads that use the guard \<open>cAutoThreadSync\<close> or a successful \<open>TryLock\<close>, the
  threads inside are the holder of the lock, so at most one is, and it can always leave.
\<close>

theorem one_in_guard:
  assumes "guarded s T"
  shows "T = set_option (m_lock s) \<and> (\<forall>t \<in> T. \<exists>s'. AutoThreadSync_leave t s = Returned 0 s')"
  using guarded_holder [OF assms] guarded_leaves [OF assms] by blast

lemma one_in_guard_witness: "\<exists>s. guarded s {4} \<and> {4} = set_option (m_lock s)"
proof -
  have "guarded \<lparr>m_lock = Some 4\<rparr> (insert 4 {})"
    by (rule guarded.enter [OF guarded.start, where rc = 0]) (simp add: sync_defs new_cThreadSync_def)
  then show ?thesis using one_in_guard by blast
qed

text \<open>The timed guard that could not get the lock unlocks it all the same.\<close>

theorem timed_guard_breaks:
  assumes "m_lock s = Some u" "u \<noteq> t"
  shows "AutoTimedThreadSync_enter (\<lambda>_ s. s) t s = (HRC_THREAD_SYNC_BUSY, s) \<and>
    AutoTimedThreadSync_leave t s = Undefined"
  by (rule timed_guard_unlocks_foreign [OF assms])

section \<open>The client connection\<close>

text \<open>
  \<open>Send\<close> hands over a prefix of its content, each byte once; it reports success exactly for all of it
  and failure only after the socket has failed.
\<close>

theorem ipc_sends_prefix:
  assumes "takes (length s) said" "IPC_Send said (map Some s @ rest) (int (length s)) = Some r"
  shows "\<exists>rc out more. r = Inr (rc, out) \<and> s = out @ more \<and>
    (rc = HRC_SERVERIPC_SENDDATA_FAILED \<and> SendFailed \<in> set said \<or> rc = HRC_SERVERIPC_SUCCESS \<and> more = [])"
  using send_loop_prefix [of s 0 said rest r] assms by (simp add: IPC_Send_def)

lemma ipc_sends_prefix_witness:
  "\<exists>rc out. IPC_Send [SendAgain, Sent 2, Sent 3] (map Some ''hello'') 5 = Some (Inr (rc, out)) \<and> out = ''hello''"
proof -
  have "IPC_Send [SendAgain, Sent 2, Sent 3] (map Some ''hello'' @ []) (int (length ''hello'')) =
      Some (Inr (0, ''hello''))" by (simp add: IPC_Send_def send_loop.simps mem_slice_def ipc_codes)
  from ipc_sends_prefix [OF _ this] this show ?thesis by simp
qed

text \<open>
  C38: \<open>CheckForResponse\<close> adds what arrives to the response, each byte once and in order, until an answer of
  the socket ends the call, and this answer alone gives the result. Without a delay it never reports that
  data has come: having to wait for more is \<open>NOT_READY\<close>.
\<close>

theorem ipc_response_collected:
  assumes "holds (ipc_buffer i) s" "delay = -1 \<or> 0 < delay" "goes_on delay start said" "final_code delay r = Some rc"
  shows "\<exists>i'. IPC_CheckForResponse delay start (said @ (r, t) # later) i = Some (Inr (rc, i')) \<and>
    holds (ipc_buffer i') (s @ heard said) \<and> IPC_GetResponseSize i' = int (length s + length (heard said)) \<and>
    ipc_Socketfd i' = ipc_Socketfd i"
proof -
  have "in_time delay start start" using assms(2) by (auto simp: in_time_def)
  from check_final [OF assms(1) this assms(3,4), of 0 t later] obtain b where
    b: "check_loop delay start start 0 (said @ (r, t) # later) (ipc_buffer i) = Some (Inr (rc, b))"
      "holds b (s @ heard said)" by blast
  then show ?thesis using holds_tail [OF b(2)]
    by (simp add: IPC_CheckForResponse_def IPC_GetResponseSize_def Buffer_GetBufferCount_def)
qed

lemma ipc_response_collected_witness:
  "\<exists>i'. IPC_CheckForResponse (-1) 100 [(Received ''ab'', 100), (Received ''c'', 101), (WouldBlock, 101)]
       new_cServerIPC = Some (Inr (HRC_SERVERIPC_NOT_READY, i')) \<and> holds (ipc_buffer i') ''abc''"
proof -
  have h: "holds (ipc_buffer new_cServerIPC) []"
    using holds_Reset [OF holds_new] by (simp add: new_cServerIPC_def IPC_Reset_def)
  have g: "goes_on (-1) 100 [(Received ''ab'', 100), (Received ''c'', 101)]"
    "final_code (-1) WouldBlock = Some HRC_SERVERIPC_NOT_READY" by (simp_all add: goes_on_def in_time_def)
  from ipc_response_collected [OF h _ g, of 101 "[]"] show ?thesis by auto
qed

text \<open>\<open>Open\<close> closes the connection of before, and keeps or closes the socket that it makes.\<close>

theorem ipc_opens_one_socket:
  assumes "IPC_Open os p port i w = Inr r"
  shows "open_outcome os (n_closed w @ (if ipc_Socketfd i \<noteq> 0 then [ipc_Socketfd i] else [])) r"
  by (rule IPC_Open_sockets [OF assms])

section \<open>The log\<close>

text \<open>The log keeps the newest 256 messages.\<close>

theorem log_keeps_newest:
  assumes "\<forall>t \<in> set ts. NUL \<notin> set t \<and> length t + 3 < LOG_BUF_SZ"
  shows "\<exists>l. log_all ts new_cLog = Inr l \<and> m_MessageLog l = newest 256 ts \<and> GetLogBuffer [] l = concat (newest 256 ts)"
  using log_all_spec [OF assms, of new_cLog] by (simp add: new_cLog_def GetLogBuffer_def)

text \<open>
  C39: a dump can be read back: it consists of lines, and the hexadecimal columns of the lines are the bytes
  dumped, one more than asked for, in order. A block of exactly the given size is read past its end.
\<close>

theorem dump_reads_back:
  assumes "1 < length s" "length s \<le> 16 ^ 6" "m_DisplayLogging l" "\<not> m_FileLogging l"
  shows "\<exists>rows l'. DebugDump opened szText (Some (map Some s @ rest)) (int (length s) - 1) l = Inr l' \<and>
    lg_console l' = lg_console l @ dump_title szText (int (length s) - 1) @ concat rows \<and>
    concat (map row_bytes rows) = s \<and> (\<forall>row \<in> set rows. \<exists>u. row = u @ [LF] \<and> LF \<notin> set u) \<and>
    DebugDump True szText (Some (map Some s)) (int (length s)) l = Inl OutOfBounds"
proof -
  have "s \<noteq> []" using assms(1) by auto
  then show ?thesis
    using DebugDump_spec [of s l opened szText rest] DebugDump_overrun [of s True szText l] assms
      rows_of_bytes [of 0 s] rows_of_lines [of _ 0 s]
    by (intro exI [of _ "rows_of 0 s"] exI) (auto simp: Let_def)
qed

lemma dump_reads_back_witness:
  "\<exists>rows l'. DebugDump True ''x'' (Some (map Some ''hello'')) 4 (new_cLog\<lparr>m_DisplayLogging := True\<rparr>) = Inr l' \<and>
     lg_console l' = dump_title ''x'' 4 @ concat rows \<and> concat (map row_bytes rows) = ''hello''"
proof -
  let ?l = "new_cLog\<lparr>m_DisplayLogging := True\<rparr>"
  have f: "m_DisplayLogging ?l" "\<not> m_FileLogging ?l" "lg_console ?l = []" by (simp_all add: new_cLog_def)
  from dump_reads_back [of "''hello''" ?l True "''x''" "[]", OF _ _ f(1,2)] obtain rows l' where
    "DebugDump True ''x'' (Some (map Some ''hello'' @ [])) (int (length ''hello'') - 1) ?l = Inr l'"
    "lg_console l' = lg_console ?l @ dump_title ''x'' (int (length ''hello'') - 1) @ concat rows"
    "concat (map row_bytes rows) = ''hello''" by (auto simp del: list.map)
  then show ?thesis using f(3) by (intro exI [of _ rows] exI [of _ l']) simp
qed

section \<open>Exceptions\<close>

text \<open>
  C40: on POSIX a \<open>THROW\<close> never throws: the log that it makes ends the process with code 99, so no handler
  is reached. On Windows the exception that arrives says the reason, function, file and line, each cut to
  its buffer. Both log the same two events.
\<close>

theorem throw_ends_posix:
  assumes "NUL \<notin> set r" "NUL \<notin> set g" "NUL \<notin> set f"
    and "plain (error_text (take 2047 r) (take 1023 g) (take 259 f) n)" "plain trace"
  shows "\<exists>out l'. THROW posix trace r g f n l = Inr (out, l') \<and>
    (if posix then out = Inl 99 else (\<exists>e. out = Inr e \<and> says e (take 2047 r) (take 1023 g) (take 259 f) n)) \<and>
    lg_events l' = lg_events l @
      map (Pair (if posix then 3 else 1)) [error_text (take 2047 r) (take 1023 g) (take 259 f) n, trace]"
  by (rule THROW_outcome [OF assms])

lemma throw_ends_posix_witness:
  "\<exists>l'. THROW True ''main'' ''Unable to create server socket'' ''Start'' ''tcpserver.cpp'' 263 new_cLog = Inr (Inl 99, l')"
proof -
  have p: "plain (error_text (take 2047 ''Unable to create server socket'') (take 1023 ''Start'') (take 259 ''tcpserver.cpp'') 263)"
    "plain ''main''" by code_simp+
  from throw_ends_posix [OF _ _ _ p, of True new_cLog] show ?thesis by auto
qed

text \<open>\<open>Swap\<close> exchanges everything but the line of the second exception; assignment works all the same.\<close>

theorem swap_loses_line:
  assumes "says a r g f n" "says b r' g' f' n'"
  shows "\<exists>a' b'. Exception_Swap a b = Inr (a', b') \<and> says a' r' g' f' n' \<and> says b' r g f n'"
  by (rule Exception_Swap_says [OF assms])

theorem assignment_copies:
  assumes "says a r g f n" "says b r' g' f' n'"
  shows "\<exists>a'. Exception_assign a b = Inr a' \<and> says a' r' g' f' n'"
  by (rule Exception_assign_says [OF assms])

section \<open>The database connection\<close>

text \<open>
  C37: whatever calls are made and whichever of them fail, releases included, every handle that the library
  has given out and not taken back is known to the connection or had its release refused. \<open>Disconnect\<close> asks
  for the release of every handle and then knows none, so what is left are those that were refused, and
  nobody can release them any more; with a library that refuses none, nothing is left.
\<close>

theorem db_handles_balanced:
  assumes "db_run lib (d, w)" "lib_ok lib"
  shows "ow_live w = held d \<union> ow_refused w \<and> (takes_back lib \<longrightarrow> ow_refused w = {}) \<and>
    (\<exists>d' w'. DB_Disconnect lib (d, w) = (HRC_DB_SUCCESS, d', w') \<and> held d' = {} \<and> \<not> db_bOpen d' \<and>
       ow_live w' = ow_refused w' \<and> (takes_back lib \<longrightarrow> ow_live w' = {}))"
proof -
  have b: "balanced lib (d, w)" by (rule db_run_balanced [OF assms])
  obtain d' w' where d: "DB_Disconnect lib (d, w) = (HRC_DB_SUCCESS, d', w')"
    by (cases "free_environment lib (free_connection lib (free_query lib (d, w)))") (simp add: DB_Disconnect_def)
  from Disconnect_frees [OF b d] b d show ?thesis by (auto simp: balanced_def held_def)
qed

text \<open>A library that refuses to release a connection: the connection is lost and the environment is not.\<close>

definition demo_odbc :: odbc where
  "demo_odbc = \<lparr>ol_rc = \<lambda>n f. if f = Free Hdbc then -1 else 0, ol_handle = \<lambda>n. int n + 1, ol_columns = \<lambda>n. 0,
     ol_data = \<lambda>n i. None\<rparr>"

lemma db_handles_balanced_witness:
  "\<exists>d w d' w'. db_run demo_odbc (d, w) \<and> ow_live w = {(Henv, 1), (Hdbc, 2)} \<and> held d = {(Henv, 1), (Hdbc, 2)} \<and>
     DB_Disconnect demo_odbc (d, w) = (HRC_DB_SUCCESS, d', w') \<and> held d' = {} \<and>
     ow_live w' = {(Hdbc, 2)} \<and> ow_refused w' = {(Hdbc, 2)}"
proof -
  note defs = DB_Connect_def DB_Disconnect_def free_query_def free_connection_def free_environment_def
    open_connection_def open_driver_def sql_alloc_def sql_call_def sql_free_def OK_code_def new_cMCODBC_def
    demo_odbc_def Let_def
  obtain d w where dw: "DB_Connect demo_odbc None (new_cMCODBC, \<lparr>ow_calls = 0, ow_live = {}, ow_refused = {}\<rparr>) =
      Inr (HRC_DB_SUCCESS, d, w)" and l: "ow_live w = {(Henv, 1), (Hdbc, 2)}" "ow_refused w = {}"
    and h: "m_hEnv d = 1" "m_hDBC d = 2" "m_hQuery d = 0"
    by (auto simp: defs)
  have r: "db_run demo_odbc (d, w)" using db_run.connect [OF db_run.start dw] .
  have "lib_ok demo_odbc" by (simp add: lib_ok_def demo_odbc_def)
  from db_handles_balanced [OF r this] l obtain d' w' where
    o: "DB_Disconnect demo_odbc (d, w) = (HRC_DB_SUCCESS, d', w')" "held d' = {}" "ow_live w' = ow_refused w'"
      "held d = {(Henv, 1), (Hdbc, 2)}" by auto
  have "ow_live w' = {(Hdbc, 2)}" using o(1) l h by (auto simp: defs)
  then show ?thesis using r l o by metis
qed

text \<open>The fields of a row are its columns in order, each whole, when none is null or too long.\<close>

theorem db_row_read:
  assumes "row_data lib f n" "m_iTotalFields d = Some n" "holds (m_FieldBuffer d) u" "1 \<le> n"
  shows "read_row (nat n) lib (d, w) = Inr (map f [1..n])"
  by (rule read_row_all [OF assms])

text \<open>\<open>EscapeSingleQuotes\<close> doubles the first quote only: a second one still ends the text in a query.\<close>

theorem db_quotes_left:
  assumes "holds b (s @ CHR 0x27 # t)" "CHR 0x27 \<notin> set s" "NUL \<notin> set s" "NUL \<notin> set t"
  shows "\<exists>b'. EscapeSingleQuotes b = Inr b' \<and> holds b' (s @ [CHR 0x27, CHR 0x27] @ t)"
  by (rule EscapeSingleQuotes_first [OF assms])

end
