(* ===== verification/Spec2Isabelle.thy ===== *)
theory Spec2Isabelle
  imports MessageProperties HandlerProperties ConnectionProperties DataProperties TransportProperties ServerProperties
    WebProperties XmlProperties NodeProperties SystemProperties
begin

text \<open>
  A verification library for MsgCourier Lite, a message server in C++.

  \<^bold>\<open>The program.\<close> A node is a process that takes messages from peers, routes each to a command handler
  or to another connection, and sends the replies. Its entry is \<open>main.cpp\<close>; the object \<open>cCore\<close>
  (\<open>core.cpp\<close>) reads the configuration file with the XML parser, starts the servers and owns all
  other objects. \<open>cTCPServer\<close> and \<open>cUDPServer\<close> wait for peers and ask \<open>cIPAccess\<close> who may come in;
  a TCP connection goes to \<open>cConnectionQueue\<close>, whose thread watches the connections in a cache, lets
  \<open>cConnectionHandlerInbound\<close> make a \<open>cMsg\<close> of each complete request and
  \<open>cConnectionHandlerOutbound\<close> write out replies and requests, over the protocols MCP and HTTP.
  Messages live in the \<open>cMsgPool\<close> of the \<open>cMsgQueue\<close>, whose thread takes the dispatched ones by
  priority to their receivers: routing rules give an inbound message to a handler, a
  \<open>cCommandHandlerDecorator\<close> with a thread of its own around a plug-in; the one handler that is built in is
  the web server. Replies, errors and undelivered messages come back to the queue the same way.

  \<^bold>\<open>How the code is modelled.\<close> A class is a record with the members of the class, an operation a function
  from the state to the result and the new state; its name is that of the method, often behind the name of its class
  (\<open>Buffer_Insert\<close> for \<open>cBuffer::Insert\<close>). An operation that can fault gives a \<open>result\<close>: a null or
  dangling pointer, an access outside a block, the value of a byte that was never written, a failed
  assertion, or an exception with its text. Memory is explicit where the code works on it: a \<open>block\<close> is a
  list of bytes that may be unwritten, and every read and write of \<open>cBuffer\<close>, of the encoders, of the
  XML parser and of local arrays is checked. Objects that are shared through pointers (messages,
  cache entries, XML nodes and elements, attribute pairs) are in stores from numbers to objects; an
  iterator into a list is modelled with what makes it invalid. Machine integers have their width
  where it matters: the CRC, addresses, the cache size, signed characters, \<open>size_t\<close> of a negative
  number, and the sum of a declared length and the size of a header, which wraps around. Each method is one step; the locks of the program are that atomicity, and the lock, its
  guards and the thread class have models of their own, in which statements interleave. Log lines, profilers and
  the floating-point average are left out.

  \<^bold>\<open>Exceptions.\<close> A \<open>THROW\<close> is an exception of the class \<open>cException\<close>, \<open>MC_ASSERT\<close> throws a char pointer, and
  the standard library throws its own. The macro \<open>LOGALL\<close> logs a text and then throws it, so a handler that
  logs with it hands an exception on instead of ending it, and a \<open>LOGALL\<close> outside a handler ends its
  function: an operation that gets there has the result \<open>Thrown\<close>. This is so for bytes without a line end
  (\<open>Msg_Parse\<close>), a short heading of the network listing (\<open>ExtractValue\<close>), a command that is registered
  twice (\<open>RegisterCommandHandler\<close>) and the passes of the connection queue. \<open>TCP_Run\<close> never returns: its
  last log line throws, which is the first part of its value, in front of the state it leaves. \<open>MC_NEW\<close> turns any
  exception of a constructor into a \<open>THROW\<close>. No entry of a thread catches what it gets.

  \<^bold>\<open>Loops.\<close> A loop over data is recursion, with a measure where it is not structural. Loops for which
  returning is itself a claim are \<open>partial_function (option)\<close> and have the value \<open>None\<close> when they do
  not return: the replacement in a buffer, the passes over connections and over the outbound queue,
  sending, the tags of a page, and the searches of the parser and the loops of the core over elements. That
  they return is proved in the properties theories and in the locale \<open>tag_loop\<close>, or that they do not, for a page with
  an unknown tag and for a \<open>ReplaceAll\<close> of an empty pattern. Where the
  answers of the system to a loop are a list, \<open>None\<close> says that the loop is still running when they are used
  up. No definition of the code has fuel; the number that \<open>next_fields\<close> takes says how often a client calls.
  Bounds of the code kept in the model: ten retries of a message with doubling delays, 256 messages in
  the log, 3600 entries of a counter, 80 characters of a thread name, the buffers of an exception (2048, 1024
  and 260 bytes), 16000 bytes of a column, 16 threads of the web server unless the file sets another number.

  \<^bold>\<open>What stands for code outside.\<close> Arguments of the definitions, never chosen by them: what
  \<open>recv\<close>, \<open>send\<close>, \<open>select\<close>, \<open>accept\<close>, \<open>connect\<close> and the lookup of a host answer, call by call (the
  record \<open>os\<close>, \<open>recv_result\<close>, the answers of the servers); the clock; the identities of
  the UUID library (\<open>uuid n\<close>); what a command handler does (\<open>OnProcess\<close>, \<open>OnChron\<close>); the files,
  their times and the printed times that the web server uses (\<open>web_env\<close>); the configuration file, the array of
  \<open>gethostname\<close>, the listing \<open>server.netinfo\<close>, the adapters of Windows and \<open>inet_addr\<close>; the answers at the start of
  a node (\<open>start_env\<close>); the ODBC library (\<open>odbc\<close>); the text of a backtrace. Hypotheses on them are named in
  the theorems that need them: identities are pairwise different, the clock does not go back, a
  library gives out no null handle (it may refuse to take one back). Where a file is only as new as its time says, the
  theorem speaks of the versions that have this time.

  \<^bold>\<open>Theories and sources.\<close>

  Foundations. \<open>Prelude\<close>: results, C strings, blocks, searching, \<open>atoi\<close>, the collections
  \<open>result_simps\<close> and \<open>mem_simps\<close>. \<open>StdMap\<close>: \<open>std::map\<close>, the locale \<open>ordered_map\<close> and its interpretation
  \<open>std\<close>. \<open>PriorityQueue\<close>: \<open>std::priority_queue\<close> with the comparison of \<open>msgprioritycomp.h\<close>, the locale
  \<open>priority_queue\<close>, interpretation \<open>pq\<close>. \<open>DecimalText\<close>: printed numbers.

  Data. \<open>Buffer\<close>, \<open>BufferLaws\<close>: \<open>buffer.h\<close>, \<open>buffer.cpp\<close>; \<open>holds b s\<close> abstracts a buffer to its
  bytes, each \<open>Op_holds\<close> is the refinement of an operation to one on lists; the locale \<open>text_sink\<close>, interpretation
  \<open>sink\<close>, is what the writers of texts rely on. \<open>Base64\<close>: \<open>base64.cpp\<close>. \<open>Url\<close>: \<open>url.cpp\<close>. \<open>Crc32\<close>: \<open>crc32.cpp\<close>.
  \<open>KeyValue\<close>: \<open>tuples.cpp\<close>, \<open>keyvalue.cpp\<close>. \<open>RoutingTag\<close>, \<open>HeaderExtract\<close>: \<open>routingtag.cpp\<close>,
  \<open>headerextract.cpp\<close>. \<open>DataProperties\<close>: round trips, refinements and the bitwise CRC.

  Messages. \<open>UniqueIDProvider\<close>, \<open>Timer\<close>, \<open>SysMetrics\<close>: \<open>uniqueidprovider.cpp\<close>, \<open>timer.cpp\<close>,
  \<open>sysmetrics.cpp\<close>. \<open>Msg\<close>, \<open>MsgParse\<close>: \<open>imsg.h\<close>, \<open>msg.h\<close>, \<open>msg.cpp\<close>. \<open>MsgPool\<close>, \<open>MsgFlush\<close>,
  \<open>MsgQueue\<close>, \<open>MsgQueueLaws\<close>: \<open>msgpool.cpp\<close>, \<open>msgqueue.cpp\<close>; the invariant relates pool, free stack, priority queue and the
  queues of handlers and connections: no message is lost, in two queues, or freed while it is in one.
  \<open>RouterRules\<close>: \<open>msgrouterruleset.cpp\<close>, \<open>msgrouterrulesengine.cpp\<close>. \<open>CommandHandlerDecorator\<close>:
  \<open>commandhandlerdecorator.cpp\<close>. \<open>NodeTables\<close>: \<open>commandhandlerfactory.cpp\<close>, \<open>virtualdirectorymap.cpp\<close>,
  \<open>sysinfo.cpp\<close>, \<open>date.cpp\<close>. \<open>MessageProperties\<close>, \<open>HandlerProperties\<close>: routing, retries, reuse, rules,
  jobs, identities, counters.

  Transport. \<open>ConnectionCache\<close>, \<open>ConnectionQueue\<close>, \<open>ConnectionTasks\<close>: \<open>connectioncache.cpp\<close>,
  \<open>connectionqueue.cpp\<close>. \<open>ConnectionHandlerInbound\<close>, \<open>ConnectionInboundLaws\<close>: \<open>connectionhandlerinbound.cpp\<close>.
  \<open>ConnectionHandlerOutbound\<close>, \<open>ConnectionOutboundLaws\<close>, \<open>OutboundDelivery\<close>:
  \<open>connectionhandleroutbound.cpp\<close>. \<open>InboundTaskLaws\<close>, \<open>OutboundTaskLaws\<close>: the passes of the thread.
  \<open>RequestTransfer\<close>: a request from the writer of one node to the parser of another.
  \<open>ConnectionProperties\<close>, \<open>TransportProperties\<close>: the cache; every byte of a request and of a reply, once
  and in order. The sizes are of type \<open>int\<close>: \<open>length_ok\<close> and the bound of \<open>RequestTransfer\<close> say that those of a
  request fit, and \<open>negative_length\<close> shows what a peer can do that declares others. \<open>IPAccess\<close>, \<open>Servers\<close>, \<open>ServerLaws\<close>,
  \<open>ServerProperties\<close>: \<open>ipaccess.cpp\<close>, \<open>tcpserver.cpp\<close>, \<open>udpserver.cpp\<close>; who is let in, and what becomes of the
  socket and the thread of a server that is stopped (\<open>Thread_Destroy\<close>).

  Web server. \<open>MimeMap\<close>, \<open>FileCache\<close>, \<open>WebRequest\<close>, \<open>WebReply\<close>: \<open>mimemap.cpp\<close>, \<open>filecache.cpp\<close>,
  \<open>webrequesthandler.cpp\<close>, \<open>webserver.cpp\<close>. \<open>WebLaws\<close>, \<open>WebServing\<close>, \<open>WebSite\<close>, \<open>WebProperties\<close>: the reply as a function of
  request, cache and disk; the pool of handlers; runs of a site whose files change.

  XML. \<open>XmlList\<close> (locale \<open>cursor_list\<close>, interpretation \<open>xml\<close>), \<open>XmlElement\<close>, \<open>XmlText\<close>, \<open>XmlParser\<close>:
  \<open>xmlliteparser.cpp\<close>. \<open>XmlTextLaws\<close>, \<open>XmlParserLaws\<close>, \<open>XmlParseSteps\<close>, \<open>XmlParse\<close>, \<open>XmlFind\<close>,
  \<open>XmlProperties\<close>: the state machine of \<open>Parse\<close> on documents, the searches, and the inputs that leave the memory.

  Core. \<open>NetInterfaces\<close>, \<open>NetInterfaceLaws\<close>: \<open>netinterfaces.cpp\<close>. \<open>Core\<close>, \<open>CoreInit\<close>: \<open>core.cpp\<close>.
  \<open>XmlQuery\<close>: how the core reads a parsed file; the locale \<open>tag_loop\<close> states once what a loop over the
  elements of a name computes and that it returns, interpreted on the six loops of the core (\<open>hosts\<close>, \<open>ports\<close>, \<open>udps\<close>,
  \<open>allows\<close>, \<open>blocks\<close>, \<open>ifs\<close>). \<open>CoreSettings\<close>, \<open>CoreRules\<close>, \<open>CoreProperties\<close>, \<open>NodeProperties\<close>: settings,
  rules and routes as functions of the file, a node from its start to its stop.

  Platform. \<open>Threads\<close>, \<open>ThreadLaws\<close>: \<open>threadsync.cpp\<close>, \<open>thread.cpp\<close> on POSIX threads, the methods as functions
  and their statements as the steps of a machine. \<open>ServerIPC\<close>: \<open>serveripc.cpp\<close>. \<open>Logging\<close>: \<open>log.cpp\<close>,
  \<open>logger.cpp\<close>. \<open>Exceptions\<close>: \<open>exception.cpp\<close>. \<open>Databases\<close>: \<open>mcodbc.cpp\<close>. \<open>Program\<close>: \<open>main.cpp\<close>,
  \<open>macaddr.cpp\<close>, \<open>umachid.cpp\<close>. \<open>SystemProperties\<close>: their properties.

  \<^bold>\<open>Two platforms.\<close> The code is built for Windows and for POSIX systems. Where the builds differ the model
  follows the Linux one, or has both (\<open>NetInterfaces\<close>, \<open>Exceptions\<close>, \<open>Program\<close>). On POSIX a \<open>THROW\<close> never
  throws: the log that it makes ends the process with code 99 (theory \<open>Exceptions\<close>). The operations that make one
  give \<open>Thrown\<close>, and \<open>Init\<close> and \<open>Core_Create\<close>, where it ends what the process does, have the result
  \<open>Inl 99\<close> for it. On POSIX a \<open>send\<close> on a connection
  that the peer has closed raises a signal by which the program aborts (theory \<open>Program\<close>); the model of sending goes on with
  the failure that the call answers where the signal is ignored.

  \<^bold>\<open>Not modelled.\<close> The Windows service, its window and its stack walker (\<open>winmsgcourier.cpp\<close>,
  \<open>win32stackwalker.cpp\<close>) are calls of the system's user interface and debugger. \<open>eventlogger.cpp\<close> includes a header
  that is not in the repository and no build file names it. The class of \<open>mysqldb.cpp\<close> is empty unless
  \<open>_USEDB\<close> is set, which nothing does. \<open>bench.cpp\<close> computes differences of floating-point times, and the readings of XML
  values as floating-point numbers are library calls. Loading a plug-in is the loader of the
  system. The event objects by which threads wait on Windows, destructors that only give memory back, and log lines that do not throw are left out.
\<close>

end
